(* ===== verification/Prelude.thy ===== *)
theory Prelude
  imports Main "HOL-Library.Word"
begin

text \<open>
  Shared ground of the development: results of fallible Rust code as sums, the checked and
  saturating arithmetic of \<^verbatim>\<open>usize\<close> and \<^verbatim>\<open>u64\<close>, power-of-two rounding, little- and big-endian byte
  codecs, bit patterns of \<^verbatim>\<open>f32\<close> values and the string operations of \<^verbatim>\<open>str\<close> the components call.

  An unsigned machine integer is the natural number it denotes. Every operation that can leave
  its range is one of the operations below, which compare against the width, so an overflow is
  a branch of the model and never a silent wrap. The bitwise rounding \<^verbatim>\<open>x & !(a - 1)\<close> is computed
  on 64-bit words. The pointer width is 64 bits.
\<close>

named_theorems result_simps "facts about chains of fallible calls"
named_theorems arith_simps "facts about checked arithmetic"

unbundle bit_operations_syntax

section \<open>Results\<close>

type_synonym byte = "8 word"
type_synonym f32 = "32 word"  \<comment> \<open>the bit pattern, as \<^verbatim>\<open>to_bits\<close> returns it\<close>

definition rbind :: "'e + 'a \<Rightarrow> ('a \<Rightarrow> 'e + 'b) \<Rightarrow> 'e + 'b" where
  "rbind m f = (case m of Inl e \<Rightarrow> Inl e | Inr x \<Rightarrow> f x)"

definition ok_or :: "'e \<Rightarrow> 'a option \<Rightarrow> 'e + 'a" where
  "ok_or e x = (case x of None \<Rightarrow> Inl e | Some y \<Rightarrow> Inr y)"

definition check :: "bool \<Rightarrow> 'e \<Rightarrow> 'e + unit" where
  "check b e = (if b then Inr () else Inl e)"

definition map_err :: "('e \<Rightarrow> 'f) \<Rightarrow> 'e + 'a \<Rightarrow> 'f + 'a" where
  "map_err f m = (case m of Inl e \<Rightarrow> Inl (f e) | Inr x \<Rightarrow> Inr x)"

definition is_ok :: "'e + 'a \<Rightarrow> bool" where
  "is_ok m = (case m of Inl _ \<Rightarrow> False | Inr _ \<Rightarrow> True)"

lemma rbind_simps [simp, code, result_simps]:
  "rbind (Inl e) f = Inl e"
  "rbind (Inr x) f = f x"
  by (simp_all add: rbind_def)

lemma rbind_Inr [result_simps]: "rbind m f = Inr y \<longleftrightarrow> (\<exists>x. m = Inr x \<and> f x = Inr y)"
  by (cases m) auto

lemma rbind_InrE: "rbind m f = Inr y \<Longrightarrow> (\<And>x. m = Inr x \<Longrightarrow> f x = Inr y \<Longrightarrow> P) \<Longrightarrow> P"
  by (auto simp: rbind_Inr)

lemma rbind_pair_InrE:
  "rbind m (\<lambda>(x, y). f x y) = Inr z \<Longrightarrow> (\<And>x y. m = Inr (x, y) \<Longrightarrow> f x y = Inr z \<Longrightarrow> P) \<Longrightarrow> P"
  by (auto simp: rbind_Inr)

lemma guard_InrE: "(if b then Inl e else m) = Inr y \<Longrightarrow> (\<not> b \<Longrightarrow> m = Inr y \<Longrightarrow> P) \<Longrightarrow> P"
  by (simp split: if_splits)

lemmas result_InrE = guard_InrE rbind_pair_InrE rbind_InrE

lemma rbind_Inl [result_simps]:
  "rbind m f = Inl e \<longleftrightarrow> m = Inl e \<or> (\<exists>x. m = Inr x \<and> f x = Inl e)"
  by (cases m) auto

lemma ok_or_simps [simp, result_simps]:
  "ok_or e None = Inl e"
  "ok_or e (Some x) = Inr x"
  by (simp_all add: ok_or_def)

lemma ok_or_Inr [simp, result_simps]: "ok_or e x = Inr y \<longleftrightarrow> x = Some y"
  by (cases x) auto

lemma ok_or_Inl [simp, result_simps]: "ok_or e x = Inl e' \<longleftrightarrow> x = None \<and> e' = e"
  by (cases x) auto

lemma check_Inr [simp, result_simps]: "check b e = Inr u \<longleftrightarrow> b"
  by (simp add: check_def)

lemma check_Inl [simp, result_simps]: "check b e = Inl e' \<longleftrightarrow> \<not> b \<and> e' = e"
  by (auto simp: check_def)

lemma check_True [simp]: "check True e = Inr ()" and check_False [simp]: "check False e = Inl e"
  by (simp_all add: check_def)

lemma map_err_Inr [simp, result_simps]: "map_err f m = Inr x \<longleftrightarrow> m = Inr x"
  by (cases m) (auto simp: map_err_def)

lemma map_err_Inl [simp, result_simps]: "map_err f m = Inl e \<longleftrightarrow> (\<exists>e'. m = Inl e' \<and> e = f e')"
  by (cases m) (auto simp: map_err_def)

lemma map_err_simps [simp]: "map_err f (Inl e) = Inl (f e)" "map_err f (Inr x) = Inr x"
  by (simp_all add: map_err_def)

lemma is_ok_simps [simp]: "is_ok (Inr x)" "\<not> is_ok (Inl e)"
  by (simp_all add: is_ok_def)

text \<open>The \<^verbatim>\<open>for\<close> loop whose body may fail: it stops at the first error.\<close>

fun fold_res :: "('a \<Rightarrow> 's \<Rightarrow> 'e + 's) \<Rightarrow> 'a list \<Rightarrow> 's \<Rightarrow> 'e + 's" where
  "fold_res f [] s = Inr s"
| "fold_res f (x # xs) s = rbind (f x s) (fold_res f xs)"

lemma fold_res_append: "fold_res f (xs @ ys) s = rbind (fold_res f xs s) (fold_res f ys)"
  by (induction xs arbitrary: s) (auto simp: rbind_def split: sum.splits)

text \<open>An invariant kept by every successful round holds after a successful loop.\<close>

lemma fold_res_invariant:
  assumes "fold_res f xs s = Inr t" "P s"
    and "\<And>x u v. x \<in> set xs \<Longrightarrow> P u \<Longrightarrow> f x u = Inr v \<Longrightarrow> P v"
  shows "P t"
  using assms
proof (induction xs arbitrary: s)
  case Nil
  then show ?case by simp
next
  case (Cons x xs)
  from Cons.prems(1) obtain u where u: "f x s = Inr u" and t: "fold_res f xs u = Inr t"
    by (auto simp: rbind_Inr)
  from u Cons.prems(2,3) have "P u" by (meson list.set_intros(1))
  with t show ?case by (rule Cons.IH) (use Cons.prems(3) in \<open>auto intro: list.set_intros(2)\<close>)
qed

text \<open>\<^verbatim>\<open>collect::<Result<Vec<_>, _>>\<close>: the images of a list, or the first error.\<close>

fun map_res :: "('a \<Rightarrow> 'e + 'b) \<Rightarrow> 'a list \<Rightarrow> 'e + 'b list" where
  "map_res f [] = Inr []"
| "map_res f (x # xs) = rbind (f x) (\<lambda>y. rbind (map_res f xs) (\<lambda>ys. Inr (y # ys)))"

lemma map_res_Inr: "map_res f xs = Inr ys \<longleftrightarrow> list_all2 (\<lambda>x y. f x = Inr y) xs ys"
  by (induction xs arbitrary: ys) (auto simp: rbind_Inr list_all2_Cons1)

section \<open>Arithmetic of 64-bit unsigned integers\<close>

definition u64_limit :: nat where "u64_limit = 18446744073709551616"

lemma u64_limit_pow: "u64_limit = 2 ^ 64"
  by (simp add: u64_limit_def)

lemma u64_limit_pos [simp]: "0 < u64_limit"
  by (simp add: u64_limit_def)

definition u64_max :: nat where "u64_max = 18446744073709551615"

definition checked_add :: "nat \<Rightarrow> nat \<Rightarrow> nat option" where
  "checked_add a b = (if a + b < u64_limit then Some (a + b) else None)"

definition checked_mul :: "nat \<Rightarrow> nat \<Rightarrow> nat option" where
  "checked_mul a b = (if a * b < u64_limit then Some (a * b) else None)"

definition checked_sub :: "nat \<Rightarrow> nat \<Rightarrow> nat option" where
  "checked_sub a b = (if b \<le> a then Some (a - b) else None)"

definition saturating_add :: "nat \<Rightarrow> nat \<Rightarrow> nat" where
  "saturating_add a b = min (a + b) u64_max"

definition saturating_sub :: "nat \<Rightarrow> nat \<Rightarrow> nat" where
  "saturating_sub a b = a - b"

lemma checked_add_Some [simp, arith_simps]:
  "checked_add a b = Some c \<longleftrightarrow> c = a + b \<and> a + b < u64_limit"
  by (auto simp: checked_add_def)

lemma checked_add_None [simp, arith_simps]: "checked_add a b = None \<longleftrightarrow> u64_limit \<le> a + b"
  by (simp add: checked_add_def)

lemma checked_mul_Some [simp, arith_simps]:
  "checked_mul a b = Some c \<longleftrightarrow> c = a * b \<and> a * b < u64_limit"
  by (auto simp: checked_mul_def)

lemma checked_mul_None [simp, arith_simps]: "checked_mul a b = None \<longleftrightarrow> u64_limit \<le> a * b"
  by (simp add: checked_mul_def)

lemma checked_sub_Some [simp, arith_simps]: "checked_sub a b = Some c \<longleftrightarrow> b \<le> a \<and> c = a - b"
  by (auto simp: checked_sub_def)

lemma checked_sub_None [simp, arith_simps]: "checked_sub a b = None \<longleftrightarrow> a < b"
  by (auto simp: checked_sub_def)

lemma saturating_add_le: "a \<le> u64_max \<Longrightarrow> a \<le> saturating_add a b"
  by (simp add: saturating_add_def)

text \<open>\<^verbatim>\<open>is_power_of_two\<close>: exactly one bit is set.\<close>

fun is_power_of_two :: "nat \<Rightarrow> bool" where
  "is_power_of_two n =
     (if n = 0 then False else if n = 1 then True else even n \<and> is_power_of_two (n div 2))"

declare is_power_of_two.simps [simp del]

lemma is_power_of_two_pow [simp]: "is_power_of_two (2 ^ k)"
proof (induction k)
  case 0
  show ?case by (simp add: is_power_of_two.simps [of "Suc 0"])
next
  case (Suc k)
  then show ?case by (simp add: is_power_of_two.simps [of "2 * 2 ^ k"])
qed

lemma is_power_of_two_iff: "is_power_of_two n \<longleftrightarrow> (\<exists>k. n = 2 ^ k)"
proof
  show "is_power_of_two n \<Longrightarrow> \<exists>k. n = 2 ^ k"
  proof (induction n rule: is_power_of_two.induct)
    case (1 n)
    show ?case
    proof (cases "n = 1")
      case True
      then show ?thesis by (metis power_0)
    next
      case False
      with "1.prems" have n: "n \<noteq> 0" "even n" "is_power_of_two (n div 2)"
        by (simp_all add: is_power_of_two.simps [of n] split: if_splits)
      with "1.IH" [OF n(1) False] obtain k where "n div 2 = 2 ^ k" by blast
      with n(2) have "n = 2 ^ Suc k" by auto
      then show ?thesis ..
    qed
  qed
qed auto

lemma is_power_of_two_pos: "is_power_of_two n \<Longrightarrow> 0 < n"
  by (auto simp: is_power_of_two_iff)

text \<open>The rounding \<^verbatim>\<open>v & !mask\<close> on 64-bit words.\<close>

definition mask_off :: "nat \<Rightarrow> nat \<Rightarrow> nat" where
  "mask_off v m = unat ((word_of_nat v :: 64 word) AND NOT (word_of_nat m))"

lemma word_and_not_mask: "(w :: 64 word) AND NOT (mask k) = push_bit k (drop_bit k w)"
  by (rule bit_eqI) (auto simp: bit_simps)

lemma unat_push_drop:
  "unat (push_bit k (drop_bit k (w :: 64 word))) = take_bit 64 (push_bit k (drop_bit k (unat w)))"
proof -
  have "take_bit 64 (unat w) = unat w"
    by (rule take_bit_nat_eq_self) (use unsigned_less [of w] in simp)
  then show ?thesis by (simp add: unsigned_push_bit_eq unsigned_drop_bit_eq)
qed

lemma mask_off_pow:
  assumes "v < u64_limit" "k < 64"
  shows "mask_off v (2 ^ k - 1) = v div 2 ^ k * 2 ^ k"
proof -
  have m: "(word_of_nat (2 ^ k - 1) :: 64 word) = mask k"
    by (simp add: mask_eq_exp_minus_1)
  have v: "unat (word_of_nat v :: 64 word) = v"
    using assms(1) by (simp add: unat_of_nat take_bit_nat_eq_self u64_limit_pow)
  have le: "v div 2 ^ k * 2 ^ k < 2 ^ 64"
    using assms(1) by (metis div_times_less_eq_dividend le_less_trans u64_limit_pow)
  show ?thesis
    unfolding mask_off_def m word_and_not_mask unat_push_drop v
    using le by (simp add: push_bit_eq_mult drop_bit_eq_div take_bit_nat_eq_self)
qed

lemma round_up_least:
  assumes "0 < (a :: nat)"
  shows "v \<le> (v + (a - 1)) div a * a" "a dvd (v + (a - 1)) div a * a"
    "(v + (a - 1)) div a * a \<le> v + (a - 1)"
    "a dvd r \<Longrightarrow> v \<le> r \<Longrightarrow> (v + (a - 1)) div a * a \<le> r"
proof -
  let ?q = "(v + (a - 1)) div a"
  have eq: "?q * a + (v + (a - 1)) mod a = v + (a - 1)" by simp
  have "(v + (a - 1)) mod a < a" using assms by simp
  with eq show "v \<le> ?q * a" by linarith
  show "a dvd ?q * a" by simp
  show "?q * a \<le> v + (a - 1)" by simp
  assume "a dvd r" "v \<le> r"
  then obtain c where r: "r = c * a" by (auto simp: dvd_def mult.commute)
  have "?q \<le> (r + (a - 1)) div a" using \<open>v \<le> r\<close> by (intro div_le_mono) simp
  also have "\<dots> = c + (a - 1) div a"
    using assms unfolding r by (intro div_mult_self3) simp
  also have "\<dots> = c" using assms by simp
  finally show "?q * a \<le> r" unfolding r by (rule mult_le_mono1)
qed

text \<open>
  Rounding up to a power of two as the components write it: \<^verbatim>\<open>checked_add(a - 1)\<close>, then the mask.
\<close>

definition round_up :: "nat \<Rightarrow> nat \<Rightarrow> nat option" where
  "round_up v a = map_option (\<lambda>s. mask_off s (a - 1)) (checked_add v (a - 1))"

lemma round_up_Some_iff:
  assumes "is_power_of_two a" "a < u64_limit"
  shows "round_up v a = Some r \<longleftrightarrow> v + (a - 1) < u64_limit \<and> r = (v + (a - 1)) div a * a"
proof -
  from assms(1) obtain k where k: "a = 2 ^ k" by (auto simp: is_power_of_two_iff)
  with assms(2) have "2 ^ k < (2 :: nat) ^ 64" by (simp only: u64_limit_pow)
  then have "k < 64" by (rule power_less_imp_less_exp [rotated]) simp
  show ?thesis
    using mask_off_pow [of "v + (a - 1)" k] k \<open>k < 64\<close> by (auto simp: round_up_def)
qed

lemma round_up_Some:
  assumes "is_power_of_two a" "a < u64_limit" "round_up v a = Some r"
  shows "v \<le> r" "a dvd r" "r < v + a" "r < u64_limit" "\<And>s. a dvd s \<Longrightarrow> v \<le> s \<Longrightarrow> r \<le> s"
proof -
  have a: "0 < a" using assms(1) by (rule is_power_of_two_pos)
  have r: "v + (a - 1) < u64_limit" "r = (v + (a - 1)) div a * a"
    using assms by (auto simp: round_up_Some_iff)
  note least = round_up_least [OF a, where v = v, folded r(2)]
  show "v \<le> r" "a dvd r" by (rule least)+
  from least(3) a r(1) show "r < v + a" "r < u64_limit" by linarith+
  show "\<And>s. a dvd s \<Longrightarrow> v \<le> s \<Longrightarrow> r \<le> s" by (rule least(4))
qed

lemma round_up_self:
  assumes "is_power_of_two a" "a < u64_limit" "a dvd v" "v + (a - 1) < u64_limit"
  shows "round_up v a = Some v"
proof -
  have a: "0 < a" using assms(1) by (rule is_power_of_two_pos)
  obtain r where r: "round_up v a = Some r" using assms by (simp add: round_up_Some_iff)
  from round_up_Some [OF assms(1,2) r] assms(3) have "v \<le> r" "r \<le> v" by auto
  with r show ?thesis by simp
qed

end
