(* ===== verification/Ggml_Type.thy ===== *)
theory Ggml_Type
  imports Prelude
begin

text \<open>
  The GGML type descriptors of \<^verbatim>\<open>crates/bridge-core/src/ggml_type.rs\<close> and the errors of
  \<^verbatim>\<open>crates/bridge-core/src/error.rs\<close>: the enumeration with its wire discriminants, the elements
  and bytes of one block of each type, and the encoded size of a row.
\<close>

datatype ggml_type =
  F32 | F16 | Q4_0 | Q4_1 | Q5_0 | Q5_1 | Q8_0 | Q8_1 | Q2_K | Q3_K | Q4_K | Q5_K | Q6_K |
  Q8_K | IQ2_XXS | IQ2_XS | IQ3_XXS | IQ1_S | IQ4_NL | IQ3_S | IQ2_S | IQ4_XS | I8 | I16 |
  I32 | I64 | F64 | IQ1_M | BF16 | TQ1_0 | TQ2_0 | MXFP4 | NVFP4 | Q1_0 | Q2_0

datatype core_error =
    UnknownGgmlType nat
  | NotBlockAligned string nat nat
  | InvalidTensorRank nat
  | ZeroTensorDimension nat
  | ArithmeticOverflow string
  | InvalidAllocationLayout nat nat
  | AllocationFailed nat nat
  | TensorOutOfBounds nat nat nat

definition ggml_ALL :: "ggml_type list" where
  "ggml_ALL =
     [F32, F16, Q4_0, Q4_1, Q5_0, Q5_1, Q8_0, Q8_1, Q2_K, Q3_K, Q4_K, Q5_K, Q6_K, Q8_K,
      IQ2_XXS, IQ2_XS, IQ3_XXS, IQ1_S, IQ4_NL, IQ3_S, IQ2_S, IQ4_XS, I8, I16, I32, I64, F64,
      IQ1_M, BF16, TQ1_0, TQ2_0, MXFP4, NVFP4, Q1_0, Q2_0]"

primrec discriminant :: "ggml_type \<Rightarrow> nat" where
  "discriminant F32 = 0"
| "discriminant F16 = 1"
| "discriminant Q4_0 = 2"
| "discriminant Q4_1 = 3"
| "discriminant Q5_0 = 6"
| "discriminant Q5_1 = 7"
| "discriminant Q8_0 = 8"
| "discriminant Q8_1 = 9"
| "discriminant Q2_K = 10"
| "discriminant Q3_K = 11"
| "discriminant Q4_K = 12"
| "discriminant Q5_K = 13"
| "discriminant Q6_K = 14"
| "discriminant Q8_K = 15"
| "discriminant IQ2_XXS = 16"
| "discriminant IQ2_XS = 17"
| "discriminant IQ3_XXS = 18"
| "discriminant IQ1_S = 19"
| "discriminant IQ4_NL = 20"
| "discriminant IQ3_S = 21"
| "discriminant IQ2_S = 22"
| "discriminant IQ4_XS = 23"
| "discriminant I8 = 24"
| "discriminant I16 = 25"
| "discriminant I32 = 26"
| "discriminant I64 = 27"
| "discriminant F64 = 28"
| "discriminant IQ1_M = 29"
| "discriminant BF16 = 30"
| "discriminant TQ1_0 = 34"
| "discriminant TQ2_0 = 35"
| "discriminant MXFP4 = 39"
| "discriminant NVFP4 = 40"
| "discriminant Q1_0 = 41"
| "discriminant Q2_0 = 42"

primrec block_size :: "ggml_type \<Rightarrow> nat" where
  "block_size F32 = 1"
| "block_size F16 = 1"
| "block_size Q4_0 = 32"
| "block_size Q4_1 = 32"
| "block_size Q5_0 = 32"
| "block_size Q5_1 = 32"
| "block_size Q8_0 = 32"
| "block_size Q8_1 = 32"
| "block_size Q2_K = 256"
| "block_size Q3_K = 256"
| "block_size Q4_K = 256"
| "block_size Q5_K = 256"
| "block_size Q6_K = 256"
| "block_size Q8_K = 256"
| "block_size IQ2_XXS = 256"
| "block_size IQ2_XS = 256"
| "block_size IQ3_XXS = 256"
| "block_size IQ1_S = 256"
| "block_size IQ4_NL = 32"
| "block_size IQ3_S = 256"
| "block_size IQ2_S = 256"
| "block_size IQ4_XS = 256"
| "block_size I8 = 1"
| "block_size I16 = 1"
| "block_size I32 = 1"
| "block_size I64 = 1"
| "block_size F64 = 1"
| "block_size IQ1_M = 256"
| "block_size BF16 = 1"
| "block_size TQ1_0 = 256"
| "block_size TQ2_0 = 256"
| "block_size MXFP4 = 32"
| "block_size NVFP4 = 64"
| "block_size Q1_0 = 128"
| "block_size Q2_0 = 64"

primrec type_size :: "ggml_type \<Rightarrow> nat" where
  "type_size F32 = 4"
| "type_size F16 = 2"
| "type_size Q4_0 = 18"
| "type_size Q4_1 = 20"
| "type_size Q5_0 = 22"
| "type_size Q5_1 = 24"
| "type_size Q8_0 = 34"
| "type_size Q8_1 = 36"
| "type_size Q2_K = 84"
| "type_size Q3_K = 110"
| "type_size Q4_K = 144"
| "type_size Q5_K = 176"
| "type_size Q6_K = 210"
| "type_size Q8_K = 292"
| "type_size IQ2_XXS = 66"
| "type_size IQ2_XS = 74"
| "type_size IQ3_XXS = 98"
| "type_size IQ1_S = 50"
| "type_size IQ4_NL = 18"
| "type_size IQ3_S = 110"
| "type_size IQ2_S = 82"
| "type_size IQ4_XS = 136"
| "type_size I8 = 1"
| "type_size I16 = 2"
| "type_size I32 = 4"
| "type_size I64 = 8"
| "type_size F64 = 8"
| "type_size IQ1_M = 56"
| "type_size BF16 = 2"
| "type_size TQ1_0 = 54"
| "type_size TQ2_0 = 66"
| "type_size MXFP4 = 17"
| "type_size NVFP4 = 36"
| "type_size Q1_0 = 18"
| "type_size Q2_0 = 18"

primrec ggml_name :: "ggml_type \<Rightarrow> string" where
  "ggml_name F32 = ''F32''"
| "ggml_name F16 = ''F16''"
| "ggml_name Q4_0 = ''Q4_0''"
| "ggml_name Q4_1 = ''Q4_1''"
| "ggml_name Q5_0 = ''Q5_0''"
| "ggml_name Q5_1 = ''Q5_1''"
| "ggml_name Q8_0 = ''Q8_0''"
| "ggml_name Q8_1 = ''Q8_1''"
| "ggml_name Q2_K = ''Q2_K''"
| "ggml_name Q3_K = ''Q3_K''"
| "ggml_name Q4_K = ''Q4_K''"
| "ggml_name Q5_K = ''Q5_K''"
| "ggml_name Q6_K = ''Q6_K''"
| "ggml_name Q8_K = ''Q8_K''"
| "ggml_name IQ2_XXS = ''IQ2_XXS''"
| "ggml_name IQ2_XS = ''IQ2_XS''"
| "ggml_name IQ3_XXS = ''IQ3_XXS''"
| "ggml_name IQ1_S = ''IQ1_S''"
| "ggml_name IQ4_NL = ''IQ4_NL''"
| "ggml_name IQ3_S = ''IQ3_S''"
| "ggml_name IQ2_S = ''IQ2_S''"
| "ggml_name IQ4_XS = ''IQ4_XS''"
| "ggml_name I8 = ''I8''"
| "ggml_name I16 = ''I16''"
| "ggml_name I32 = ''I32''"
| "ggml_name I64 = ''I64''"
| "ggml_name F64 = ''F64''"
| "ggml_name IQ1_M = ''IQ1_M''"
| "ggml_name BF16 = ''BF16''"
| "ggml_name TQ1_0 = ''TQ1_0''"
| "ggml_name TQ2_0 = ''TQ2_0''"
| "ggml_name MXFP4 = ''MXFP4''"
| "ggml_name NVFP4 = ''NVFP4''"
| "ggml_name Q1_0 = ''Q1_0''"
| "ggml_name Q2_0 = ''Q2_0''"

definition from_discriminant :: "nat \<Rightarrow> core_error + ggml_type" where
  "from_discriminant value =
     ok_or (UnknownGgmlType value) (List.find (\<lambda>ty. discriminant ty = value) ggml_ALL)"

text \<open>Encoded bytes of one row whose leading dimension is \<open>ne0\<close>.\<close>

definition row_size :: "ggml_type \<Rightarrow> nat \<Rightarrow> core_error + nat" where
  "row_size ty ne0 =
     (let block = block_size ty in
      if ne0 mod block \<noteq> 0 then Inl (NotBlockAligned (ggml_name ty) ne0 block)
      else ok_or (ArithmeticOverflow ''GGML row size'') (checked_mul (ne0 div block) (type_size ty)))"

section \<open>The descriptors\<close>

lemma set_ALL: "ty \<in> set ggml_ALL"
  by (cases ty) (simp_all add: ggml_ALL_def)

lemma discriminant_inject [simp]: "discriminant a = discriminant b \<longleftrightarrow> a = b"
proof -
  have "distinct (map discriminant ggml_ALL)" by (simp add: ggml_ALL_def)
  then have "inj_on discriminant (set ggml_ALL)" by (simp add: distinct_map)
  then show ?thesis by (auto simp: set_ALL inj_on_eq_iff)
qed

lemma block_size_pos [simp]: "0 < block_size ty"
  by (cases ty) simp_all

lemma type_size_pos [simp]: "0 < type_size ty"
  by (cases ty) simp_all

lemma discriminant_fits_u32: "discriminant ty < 4294967296"
  by (cases ty) simp_all

lemma find_discriminant: "List.find (\<lambda>ty. discriminant ty = discriminant t) ggml_ALL = Some t"
proof -
  obtain u where u: "List.find (\<lambda>ty. discriminant ty = discriminant t) ggml_ALL = Some u"
    using set_ALL [of t] by (cases "List.find (\<lambda>ty. discriminant ty = discriminant t) ggml_ALL")
      (auto simp: find_None_iff)
  then show ?thesis by (auto simp: find_Some_iff)
qed

lemma from_discriminant_Inr: "from_discriminant v = Inr ty \<longleftrightarrow> discriminant ty = v"
  using find_discriminant by (auto simp: from_discriminant_def find_Some_iff)

lemma row_size_Inr:
  "row_size ty ne0 = Inr n \<longleftrightarrow>
   block_size ty dvd ne0 \<and> n = ne0 div block_size ty * type_size ty \<and> n < u64_limit"
  by (auto simp: row_size_def Let_def mod_eq_0_iff_dvd)

lemma row_size_pos: "row_size ty ne0 = Inr n \<Longrightarrow> 0 < ne0 \<Longrightarrow> 0 < n"
  by (auto simp: row_size_Inr dvd_imp_le div_greater_zero_iff)

text \<open>
  The discriminant codec is a bijection between the enumeration and the wire values it
  accepts: decoding a type's discriminant returns that type, a successful decode returns the type
  with exactly that discriminant, and every other value is rejected with its own value.
\<close>

theorem discriminant_roundtrip:
  "from_discriminant (discriminant ty) = Inr ty \<and>
   (from_discriminant v = Inr ty \<longleftrightarrow> v = discriminant ty) \<and>
   (v \<notin> discriminant ` UNIV \<longleftrightarrow> from_discriminant v = Inl (UnknownGgmlType v))"
proof -
  have "from_discriminant v = Inl (UnknownGgmlType v) \<longleftrightarrow> (\<forall>t. discriminant t \<noteq> v)"
    using set_ALL by (auto simp: from_discriminant_def find_None_iff)
  then show ?thesis by (auto simp: from_discriminant_Inr)
qed

end
