(* ===== verification/Tensor_Desc.thy ===== *)
theory Tensor_Desc
  imports Ggml_Type
begin

text \<open>
  The checked tensor descriptors of \<^verbatim>\<open>crates/bridge-core/src/tensor.rs\<close>: a descriptor is built by
  \<open>tensor_new\<close> only, which validates the rank, the dimensions and the strides; the encoded length
  and the absolute byte range of its payload are computed with checked arithmetic.
  The \<^verbatim>\<open>[u64; 4]\<close> arrays are lists of length four.
\<close>

record tensor_desc =
  td_name :: string
  td_shape :: "nat list"       \<comment> \<open>the fixed array: four entries, padded with 1\<close>
  td_n_dims :: nat
  td_ty :: ggml_type
  td_relative_offset :: nat
  td_strides :: "nat list"

section \<open>Strides\<close>

fun first_zero :: "nat \<Rightarrow> nat list \<Rightarrow> nat option" where
  "first_zero i [] = None"
| "first_zero i (d # ds) = (if d = 0 then Some i else first_zero (Suc i) ds)"

text \<open>The loop \<^verbatim>\<open>for index in 2..n_dims\<close> over the stride array.\<close>

definition stride_step :: "nat list \<Rightarrow> nat \<Rightarrow> nat list \<Rightarrow> core_error + nat list" where
  "stride_step ne index strides =
     rbind (ok_or (ArithmeticOverflow ''GGML tensor stride'')
              (checked_mul (strides ! (index - 1)) (ne ! (index - 1))))
       (\<lambda>s. Inr (strides[index := s]))"

definition compute_strides :: "nat list \<Rightarrow> nat \<Rightarrow> ggml_type \<Rightarrow> core_error + nat list" where
  "compute_strides ne n_dims ty =
     (if \<not> (1 \<le> n_dims \<and> n_dims \<le> 4) then Inl (InvalidTensorRank n_dims)
      else case first_zero 0 (take n_dims ne) of
        Some index \<Rightarrow> Inl (ZeroTensorDimension index)
      | None \<Rightarrow>
          (let strides = [type_size ty, 0, 0, 0] in
           if n_dims = 1 then rbind (row_size ty (ne ! 0)) (\<lambda>_. Inr strides)
           else rbind (row_size ty (ne ! 0))
                  (\<lambda>row. fold_res (stride_step ne) [2..<n_dims] (strides[1 := row]))))"

section \<open>Descriptors\<close>

definition tensor_new :: "string \<Rightarrow> nat list \<Rightarrow> ggml_type \<Rightarrow> nat \<Rightarrow> core_error + tensor_desc" where
  "tensor_new name shape ty relative_offset =
     (if 4294967296 \<le> length shape then Inl (InvalidTensorRank 4294967295)
      else let n_dims = length shape in
      if \<not> (1 \<le> n_dims \<and> n_dims \<le> 4) then Inl (InvalidTensorRank n_dims)
      else case first_zero 0 shape of
        Some index \<Rightarrow> Inl (ZeroTensorDimension index)
      | None \<Rightarrow>
          (let fixed_shape = shape @ replicate (4 - n_dims) 1 in
           rbind (compute_strides fixed_shape n_dims ty)
             (\<lambda>strides. Inr \<lparr>td_name = name, td_shape = fixed_shape, td_n_dims = n_dims, td_ty = ty,
                             td_relative_offset = relative_offset, td_strides = strides\<rparr>)))"

definition shape_of :: "tensor_desc \<Rightarrow> nat list" where
  "shape_of t = take (td_n_dims t) (td_shape t)"

definition element_count :: "tensor_desc \<Rightarrow> core_error + nat" where
  "element_count t =
     fold_res (\<lambda>dimension total.
       ok_or (ArithmeticOverflow ''tensor element count'') (checked_mul total dimension)) (shape_of t) 1"

definition row_bytes :: "tensor_desc \<Rightarrow> core_error + nat" where
  "row_bytes t = row_size (td_ty t) (td_shape t ! 0)"

definition encoded_bytes :: "tensor_desc \<Rightarrow> core_error + nat" where
  "encoded_bytes t =
     (if td_n_dims t = 1 then row_bytes t
      else let last = td_n_dims t - 1 in
        ok_or (ArithmeticOverflow ''tensor encoded byte length'')
          (checked_mul (td_strides t ! last) (td_shape t ! last)))"

text \<open>The range is returned as its two ends.\<close>

definition checked_absolute_range :: "tensor_desc \<Rightarrow> nat \<Rightarrow> nat \<Rightarrow> core_error + nat \<times> nat" where
  "checked_absolute_range t data_offset file_len =
     rbind (ok_or (ArithmeticOverflow ''tensor absolute offset'')
              (checked_add data_offset (td_relative_offset t))) (\<lambda>start.
     rbind (encoded_bytes t) (\<lambda>len.
     rbind (ok_or (ArithmeticOverflow ''tensor absolute end offset'') (checked_add start len)) (\<lambda>end.
     if file_len < end then Inl (TensorOutOfBounds start end file_len) else Inr (start, end))))"

section \<open>The promise of a validated descriptor\<close>

text \<open>
  The byte length a dense tensor of shape \<open>sh\<close> needs: blocks of the leading dimension, times the
  remaining dimensions.
\<close>

definition payload_bytes :: "ggml_type \<Rightarrow> nat list \<Rightarrow> nat" where
  "payload_bytes ty sh = hd sh div block_size ty * type_size ty * prod_list (tl sh)"

definition desc_ok :: "tensor_desc \<Rightarrow> bool" where
  "desc_ok t \<longleftrightarrow>
     1 \<le> td_n_dims t \<and> td_n_dims t \<le> 4 \<and> length (td_shape t) = 4 \<and> length (td_strides t) = 4 \<and>
     list_all (\<lambda>d. 0 < d) (shape_of t) \<and> block_size (td_ty t) dvd td_shape t ! 0 \<and>
     payload_bytes (td_ty t) [td_shape t ! 0] < u64_limit \<and>
     (\<forall>i < td_n_dims t. td_strides t ! i =
        (if i = 0 then type_size (td_ty t) else payload_bytes (td_ty t) (take i (td_shape t))))"

lemma first_zero_None: "first_zero i ds = None \<longleftrightarrow> list_all (\<lambda>d. 0 < d) ds"
  by (induction ds arbitrary: i) auto

lemma payload_bytes_snoc:
  "sh \<noteq> [] \<Longrightarrow> payload_bytes ty (sh @ [d]) = payload_bytes ty sh * d"
  by (simp add: payload_bytes_def)

lemma payload_bytes_take:
  assumes "0 < i" "i < length sh"
  shows "payload_bytes ty (take (Suc i) sh) = payload_bytes ty (take i sh) * sh ! i"
proof -
  have "take i sh \<noteq> []" using assms by auto
  with assms(2) show ?thesis by (simp add: take_Suc_conv_app_nth payload_bytes_snoc)
qed

lemma stride_step_Inr:
  "stride_step ne i st = Inr st' \<longleftrightarrow>
   st' = st[i := st ! (i - 1) * ne ! (i - 1)] \<and> st ! (i - 1) * ne ! (i - 1) < u64_limit"
  by (auto simp: stride_step_def rbind_Inr)

definition strides_upto :: "ggml_type \<Rightarrow> nat list \<Rightarrow> nat \<Rightarrow> nat list \<Rightarrow> bool" where
  "strides_upto ty ne n st \<longleftrightarrow> length st = 4 \<and>
     (\<forall>i < n. st ! i = (if i = 0 then type_size ty else payload_bytes ty (take i ne)))"

lemma fold_stride_step:
  assumes "fold_res (stride_step ne) [m..<n] st = Inr st'" "strides_upto ty ne m st"
    and "2 \<le> m" "m \<le> n" "n \<le> 4" "length ne = 4"
  shows "strides_upto ty ne n st'"
  using assms
proof (induction "n - m" arbitrary: m st)
  case 0
  then show ?case by simp
next
  case (Suc k)
  then have mn: "m < n" by simp
  then have upt: "[m..<n] = m # [Suc m..<n]" by (rule upt_conv_Cons)
  from Suc.prems(1) obtain u where u: "stride_step ne m st = Inr u"
    and rest: "fold_res (stride_step ne) [Suc m..<n] u = Inr st'"
    by (auto simp: upt rbind_Inr)
  have u_eq: "u = st[m := st ! (m - 1) * ne ! (m - 1)]" using u by (simp add: stride_step_Inr)
  have "st ! (m - 1) = payload_bytes ty (take (m - 1) ne)"
    using Suc.prems(2,3) by (simp add: strides_upto_def)
  moreover have "payload_bytes ty (take m ne) = payload_bytes ty (take (m - 1) ne) * ne ! (m - 1)"
    using payload_bytes_take [of "m - 1" ne ty] Suc.prems(3-6) mn by simp
  ultimately have "strides_upto ty ne (Suc m) u"
    using Suc.prems mn unfolding u_eq by (auto simp: strides_upto_def nth_list_update less_Suc_eq)
  from Suc.hyps(2) mn have "k = n - Suc m" by simp
  from Suc.hyps(1) [OF this rest \<open>strides_upto ty ne (Suc m) u\<close>] Suc.prems mn
  show ?case by simp
qed

lemma fold_stride_total:
  assumes "strides_upto ty ne m st" "2 \<le> m" "n \<le> 4" "length ne = 4"
    and "\<forall>i < n. 0 < i \<longrightarrow> payload_bytes ty (take i ne) < u64_limit"
  shows "\<exists>st'. fold_res (stride_step ne) [m..<n] st = Inr st'"
  using assms
proof (induction "n - m" arbitrary: m st)
  case 0
  then show ?case by simp
next
  case (Suc k)
  then have mn: "m < n" by simp
  have pm: "payload_bytes ty (take m ne) = payload_bytes ty (take (m - 1) ne) * ne ! (m - 1)"
    using payload_bytes_take [of "m - 1" ne ty] Suc.prems mn by simp
  let ?u = "st[m := st ! (m - 1) * ne ! (m - 1)]"
  have "payload_bytes ty (take m ne) < u64_limit" using Suc.prems(2,5) mn by auto
  then have step: "stride_step ne m st = Inr ?u"
    using Suc.prems mn pm by (simp add: stride_step_Inr strides_upto_def)
  have u: "strides_upto ty ne (Suc m) ?u"
    using Suc.prems mn pm by (auto simp: strides_upto_def nth_list_update less_Suc_eq)
  from Suc.hyps(2) mn have "k = n - Suc m" by simp
  from Suc.hyps(1) [OF this u] Suc.prems step mn show ?case by (simp add: upt_conv_Cons)
qed

lemma compute_strides_Inr:
  assumes "compute_strides ne n ty = Inr st" "length ne = 4"
  shows "1 \<le> n" "n \<le> 4" "list_all (\<lambda>d. 0 < d) (take n ne)" "block_size ty dvd ne ! 0"
    "payload_bytes ty [ne ! 0] < u64_limit" "strides_upto ty ne n st"
proof -
  from assms(1) obtain row where base: "1 \<le> n" "n \<le> 4" "first_zero 0 (take n ne) = None"
    and row: "row_size ty (ne ! 0) = Inr row"
    and st: "if n = 1 then st = [type_size ty, 0, 0, 0]
      else fold_res (stride_step ne) [2..<n] ([type_size ty, 0, 0, 0][1 := row]) = Inr st"
    by (auto simp: compute_strides_def Let_def rbind_Inr split: if_splits option.splits)
  then show "1 \<le> n" "n \<le> 4" "list_all (\<lambda>d. 0 < d) (take n ne)" by (auto simp: first_zero_None)
  from row show "block_size ty dvd ne ! 0" "payload_bytes ty [ne ! 0] < u64_limit"
    by (simp_all add: row_size_Inr payload_bytes_def)
  show "strides_upto ty ne n st"
  proof (cases "n = 1")
    case True
    with st show ?thesis by (auto simp: strides_upto_def)
  next
    case False
    have "take (Suc 0) ne = [ne ! 0]" using assms(2) by (cases ne) auto
    then have "strides_upto ty ne 2 [type_size ty, row, 0, 0]"
      using row by (auto simp: strides_upto_def less_Suc_eq numeral_2_eq_2 row_size_Inr payload_bytes_def)
    with st False base show ?thesis by (intro fold_stride_step [of ne 2 n]) (auto simp: assms(2))
  qed
qed

lemma tensor_new_Inr:
  assumes "tensor_new name shape ty off = Inr t"
  shows "desc_ok t" "shape_of t = shape" "td_name t = name" "td_ty t = ty"
    "td_relative_offset t = off"
proof -
  let ?fs = "shape @ replicate (4 - length shape) 1"
  from assms obtain st where sh: "1 \<le> length shape" "length shape \<le> 4"
    and st: "compute_strides ?fs (length shape) ty = Inr st"
    and t: "t = \<lparr>td_name = name, td_shape = ?fs, td_n_dims = length shape, td_ty = ty,
                 td_relative_offset = off, td_strides = st\<rparr>"
    by (auto simp: tensor_new_def Let_def rbind_Inr split: if_splits option.splits)
  have len: "length ?fs = 4" using sh by simp
  note s = compute_strides_Inr [OF st len]
  show "desc_ok t" using s len sh by (simp add: t desc_ok_def shape_of_def strides_upto_def)
  show "shape_of t = shape" "td_name t = name" "td_ty t = ty" "td_relative_offset t = off"
    by (simp_all add: t shape_of_def)
qed

lemma encoded_bytes_Inr:
  assumes "desc_ok t" "encoded_bytes t = Inr n"
  shows "n = payload_bytes (td_ty t) (shape_of t)" "n < u64_limit" "0 < n"
proof -
  let ?d = "td_n_dims t"
  from assms(1) have d: "1 \<le> ?d" "?d \<le> 4" "length (td_shape t) = 4" by (simp_all add: desc_ok_def)
  show eq: "n = payload_bytes (td_ty t) (shape_of t)"
  proof (cases "?d = 1")
    case True
    moreover have "take (Suc 0) (td_shape t) = [td_shape t ! 0]" using d by (cases "td_shape t") auto
    ultimately show ?thesis using assms(2)
      by (simp add: encoded_bytes_def row_bytes_def shape_of_def row_size_Inr payload_bytes_def)
  next
    case False
    with d have d1: "0 < ?d - 1" "?d - 1 < length (td_shape t)" "Suc (?d - 1) = ?d" by auto
    have "td_strides t ! (?d - 1) = payload_bytes (td_ty t) (take (?d - 1) (td_shape t))"
      using assms(1) d1 by (simp add: desc_ok_def)
    then show ?thesis using assms(2) False payload_bytes_take [OF d1(1,2), of "td_ty t"] d1(3)
      by (simp add: encoded_bytes_def shape_of_def Let_def)
  qed
  show "n < u64_limit" using assms(2)
    by (auto simp: encoded_bytes_def row_bytes_def row_size_Inr Let_def split: if_splits)
  have hd: "hd (shape_of t) = td_shape t ! 0" "shape_of t \<noteq> []"
    using d by (cases "td_shape t"; cases "td_n_dims t"; simp add: shape_of_def)+
  have pos: "\<And>x. x \<in> set (shape_of t) \<Longrightarrow> 0 < x"
    using assms(1) by (simp add: desc_ok_def list_all_iff)
  have "0 < td_shape t ! 0" using pos hd by (metis list.set_sel(1))
  moreover have "0 < prod_list (tl (shape_of t))"
    using pos list.set_sel(2) [OF hd(2)] by (metis gr0I prod_list_zero_iff less_numeral_extra(3))
  ultimately show "0 < n"
    using assms(1) unfolding eq
    by (auto simp: payload_bytes_def hd desc_ok_def dvd_imp_le div_greater_zero_iff)
qed

lemma encoded_bytes_complete:
  assumes "desc_ok t" "payload_bytes (td_ty t) (shape_of t) < u64_limit"
  shows "encoded_bytes t = Inr (payload_bytes (td_ty t) (shape_of t))"
proof -
  let ?d = "td_n_dims t"
  have d: "1 \<le> ?d" "?d \<le> 4" "length (td_shape t) = 4" using assms(1) by (simp_all add: desc_ok_def)
  show ?thesis
  proof (cases "?d = 1")
    case True
    moreover have "take (Suc 0) (td_shape t) = [td_shape t ! 0]" using d by (cases "td_shape t") auto
    moreover have "row_size (td_ty t) (td_shape t ! 0) = Inr (payload_bytes (td_ty t) [td_shape t ! 0])"
      using assms(1) by (simp add: row_size_Inr payload_bytes_def desc_ok_def)
    ultimately show ?thesis by (simp add: encoded_bytes_def row_bytes_def shape_of_def)
  next
    case False
    with d have d1: "0 < ?d - 1" "?d - 1 < length (td_shape t)" "Suc (?d - 1) = ?d" by auto
    have "td_strides t ! (?d - 1) = payload_bytes (td_ty t) (take (?d - 1) (td_shape t))"
      using assms(1) d1 by (simp add: desc_ok_def)
    then show ?thesis
      using assms(2) False payload_bytes_take [OF d1(1,2), of "td_ty t"] d1(3)
      by (simp add: encoded_bytes_def shape_of_def Let_def checked_mul_def)
  qed
qed

text \<open>
  What a descriptor promises: if the constructor accepts a shape, the encoded length it reports
  is exactly the block-encoded size of the dense tensor, is positive and fits 64 bits, and a byte
  range it returns starts at the data offset plus the tensor's offset, is exactly that long, and
  ends inside the file.
\<close>

theorem tensor_range_exact:
  assumes "tensor_new name shape ty off = Inr t"
    and "checked_absolute_range t data_offset file_len = Inr (first, stop)"
  shows "first = data_offset + off \<and> stop = first + payload_bytes ty shape \<and>
    first < stop \<and> stop \<le> file_len \<and> stop < u64_limit \<and>
    encoded_bytes t = Inr (payload_bytes ty shape)"
proof -
  note new = tensor_new_Inr [OF assms(1)]
  from assms(2) obtain n where "encoded_bytes t = Inr n" "first = data_offset + off"
    "stop = first + n" "stop \<le> file_len" "stop < u64_limit"
    by (auto simp: checked_absolute_range_def rbind_Inr new not_less split: if_splits)
  with encoded_bytes_Inr [OF new(1)] show ?thesis by (auto simp: new)
qed

theorem tensor_range_exact_witness:
  "tensor_new ''vector'' [256] Q4_K 32 =
     Inr \<lparr>td_name = ''vector'', td_shape = [256, 1, 1, 1], td_n_dims = 1, td_ty = Q4_K,
          td_relative_offset = 32, td_strides = [144, 0, 0, 0]\<rparr> \<and>
   (40 :: nat) = 8 + 32 \<and> (184 :: nat) = 40 + payload_bytes Q4_K [256] \<and> (184 :: nat) \<le> 184"
proof -
  let ?t = "\<lparr>td_name = ''vector'', td_shape = [256, 1, 1, 1], td_n_dims = 1, td_ty = Q4_K,
          td_relative_offset = 32, td_strides = [144, 0, 0, 0]\<rparr>"
  have new: "tensor_new ''vector'' [256] Q4_K 32 = Inr ?t"
    by (simp add: tensor_new_def compute_strides_def row_size_def checked_mul_def u64_limit_def Let_def
        numeral_3_eq_3)
  moreover have "checked_absolute_range ?t 8 184 = Inr (40, 184)"
    by (simp add: checked_absolute_range_def encoded_bytes_def row_bytes_def row_size_def
        checked_mul_def checked_add_def u64_limit_def Let_def)
  ultimately show ?thesis using tensor_range_exact by blast
qed

text \<open>
  The constructor is complete: it accepts every shape of rank one to four without a zero
  dimension whose leading dimension is a multiple of the type's block and whose byte counts, for
  the leading dimension up to the whole tensor, fit 64 bits.
\<close>

theorem tensor_new_complete:
  assumes "1 \<le> length shape" "length shape \<le> 4" "list_all (\<lambda>d. 0 < d) shape"
    and "block_size ty dvd hd shape" "\<forall>i \<le> length shape. 0 < i \<longrightarrow> payload_bytes ty (take i shape) < u64_limit"
  shows "\<exists>t. tensor_new name shape ty off = Inr t"
proof -
  let ?fs = "shape @ replicate (4 - length shape) 1"
  let ?n = "length shape"
  have len: "length ?fs = 4" using assms by simp
  have ne: "shape \<noteq> []" "?fs ! 0 = hd shape" using assms(1) by (auto simp: hd_conv_nth nth_append)
  have t1: "take (Suc 0) shape = [hd shape]" using ne(1) by (cases shape) auto
  have row: "row_size ty (?fs ! 0) = Inr (payload_bytes ty [hd shape])"
    using assms(4) assms(5) [rule_format, of 1] assms(1) ne
    by (auto simp: row_size_Inr payload_bytes_def t1)
  have "take (Suc 0) ?fs = [hd shape]" using t1 ne by (cases shape) auto
  then have up: "strides_upto ty ?fs 2 [type_size ty, payload_bytes ty [hd shape], 0, 0]"
    by (auto simp: strides_upto_def less_Suc_eq numeral_2_eq_2)
  have "\<forall>i < ?n. 0 < i \<longrightarrow> payload_bytes ty (take i ?fs) < u64_limit" using assms(5) by simp
  then obtain st where "fold_res (stride_step ?fs) [2..<?n]
      [type_size ty, payload_bytes ty [hd shape], 0, 0] = Inr st"
    using fold_stride_total [OF up, of ?n] assms(2) len by blast
  moreover have fz: "first_zero 0 shape = None" using assms(3) by (simp add: first_zero_None)
  ultimately have "\<exists>st. compute_strides ?fs ?n ty = Inr st"
    using assms(1,2) row by (auto simp: compute_strides_def Let_def)
  then show ?thesis
    using assms(1,2) fz by (auto simp: tensor_new_def Let_def)
qed

theorem tensor_new_complete_witness:
  "\<exists>t. tensor_new ''weights'' [256, 3] Q4_K 0 = Inr t"
  by (rule tensor_new_complete)
    (auto simp: payload_bytes_def u64_limit_def less_Suc_eq_le le_Suc_eq numeral_2_eq_2)

end
