(* ===== verification/Bytes.thy ===== *)
theory Bytes
  imports Prelude "HOL-Library.Sublist"
begin

text \<open>
  Byte strings: fixed-width little- and big-endian encodings of unsigned integers
  (\<^verbatim>\<open>to_le_bytes\<close>, \<^verbatim>\<open>from_le_bytes\<close>, \<^verbatim>\<open>from_be_bytes\<close>), the interface of a fixed-width codec that the
  snapshot and header readers rely on, UTF-8 validity as \<^verbatim>\<open>String::from_utf8\<close> decides it, and the
  finiteness of an \<^verbatim>\<open>f32\<close> read off its bits.

  A Rust \<^verbatim>\<open>str\<close> is the HOL string of its UTF-8 bytes, one character per byte.
\<close>

section \<open>Little-endian integers\<close>

primrec le_bytes :: "nat \<Rightarrow> nat \<Rightarrow> byte list" where
  "le_bytes 0 v = []"
| "le_bytes (Suc n) v = word_of_nat v # le_bytes n (v div 256)"

primrec of_le_bytes :: "byte list \<Rightarrow> nat" where
  "of_le_bytes [] = 0"
| "of_le_bytes (b # bs) = unat b + 256 * of_le_bytes bs"

definition of_be_bytes :: "byte list \<Rightarrow> nat" where
  "of_be_bytes bs = of_le_bytes (rev bs)"

lemma length_le_bytes [simp]: "length (le_bytes n v) = n"
  by (induction n arbitrary: v) auto

lemma unat_word8 [simp]: "unat (word_of_nat v :: byte) = v mod 256"
  by (simp add: unat_of_nat)

lemma of_le_le_bytes_mod: "of_le_bytes (le_bytes n v) = v mod 256 ^ n"
proof (induction n arbitrary: v)
  case (Suc n)
  then show ?case by (simp add: mod_mult2_eq)
qed simp

lemma of_le_le_bytes: "v < 256 ^ n \<Longrightarrow> of_le_bytes (le_bytes n v) = v"
  by (simp add: of_le_le_bytes_mod)

lemma unat_byte_less: "unat (b :: byte) < 256"
  using unsigned_less [of b] by simp

lemma of_le_bytes_less: "of_le_bytes bs < 256 ^ length bs"
proof (induction bs)
  case (Cons b bs)
  have "unat b < 256" by (rule unat_byte_less)
  with Cons show ?case by simp
qed simp

lemma le_of_le_bytes: "le_bytes (length bs) (of_le_bytes bs) = bs"
proof (induction bs)
  case (Cons b bs)
  have b: "unat b < 256" by (rule unat_byte_less)
  have "unat (word_of_nat (unat b + 256 * of_le_bytes bs) :: byte) = (unat b + 256 * of_le_bytes bs) mod 256"
    by (rule unat_word8)
  also have "\<dots> = unat b" using b by simp
  finally have "word_of_nat (unat b + 256 * of_le_bytes bs) = b"
    by (simp only: word_unat_eq_iff)
  moreover have "(unat b + 256 * of_le_bytes bs) div 256 = of_le_bytes bs" using b by simp
  ultimately show ?case using Cons by simp
qed simp

lemma of_be_bytes_less: "of_be_bytes bs < 256 ^ length bs"
  using of_le_bytes_less [of "rev bs"] by (simp add: of_be_bytes_def)

section \<open>The interface of a fixed-width codec\<close>

text \<open>
  What a cursor or a header decoder relies on: an encoder of fixed width, a decoder, and the
  values on which the decoder undoes the encoder. A value is then recovered from any byte string
  that continues after its encoding.
\<close>

locale byte_codec =
  fixes enc :: "'a \<Rightarrow> byte list"
    and dec :: "byte list \<Rightarrow> 'a"
    and width :: nat
    and valid :: "'a \<Rightarrow> bool"
  assumes enc_length: "length (enc x) = width"
    and dec_enc: "valid x \<Longrightarrow> dec (enc x) = x"
    and dec_valid: "length bs = width \<Longrightarrow> valid (dec bs)"
    and enc_dec: "length bs = width \<Longrightarrow> enc (dec bs) = bs"
begin

lemma read_prefix: "valid x \<Longrightarrow> dec (take width (enc x @ rest)) = x"
  by (simp add: enc_length dec_enc)

lemma skip_prefix: "drop width (enc x @ rest) = rest"
  by (simp add: enc_length)

lemma read_at:
  "valid x \<Longrightarrow> length pre = n \<Longrightarrow> dec (take width (drop n (pre @ enc x @ rest))) = x"
  by (simp add: enc_length dec_enc)

lemma enc_inject: "valid x \<Longrightarrow> valid y \<Longrightarrow> enc x = enc y \<longleftrightarrow> x = y"
  by (metis dec_enc)

lemma read_all:
  "\<forall>x \<in> set xs. valid x \<Longrightarrow> i < length xs \<Longrightarrow>
   dec (take width (drop (i * width) (concat (map enc xs) @ rest))) = xs ! i"
proof (induction xs arbitrary: i)
  case (Cons x xs)
  show ?case
  proof (cases i)
    case 0
    then show ?thesis using Cons.prems by (simp add: enc_length dec_enc)
  next
    case (Suc j)
    have d: "drop ((Suc j) * width) (enc x @ ys) = drop (j * width) ys" for ys
      by (simp add: enc_length)
    have "drop (i * width) (concat (map enc (x # xs)) @ rest) =
        drop (j * width) (concat (map enc xs) @ rest)"
      by (simp only: Suc list.map concat.simps append_assoc d)
    then show ?thesis using Cons.IH [of j] Cons.prems Suc by simp
  qed
qed simp

end

definition u16_to_le :: "nat \<Rightarrow> byte list" where "u16_to_le v = le_bytes 2 v"
definition u32_to_le :: "nat \<Rightarrow> byte list" where "u32_to_le v = le_bytes 4 v"
definition u64_to_le :: "nat \<Rightarrow> byte list" where "u64_to_le v = le_bytes 8 v"

lemma byte_codec_le:
  assumes "L = 256 ^ n"
  shows "byte_codec (le_bytes n) of_le_bytes n (\<lambda>v. v < L)"
proof
  show "length (le_bytes n x) = n" for x by simp
  show "x < L \<Longrightarrow> of_le_bytes (le_bytes n x) = x" for x using assms by (simp add: of_le_le_bytes)
  show "length bs = n \<Longrightarrow> of_le_bytes bs < L" for bs using assms of_le_bytes_less by blast
  show "length bs = n \<Longrightarrow> le_bytes n (of_le_bytes bs) = bs" for bs using le_of_le_bytes by blast
qed

interpretation u32_codec: byte_codec u32_to_le of_le_bytes 4 "\<lambda>v. v < 4294967296"
  unfolding u32_to_le_def by (rule byte_codec_le) simp

interpretation u64_codec: byte_codec u64_to_le of_le_bytes 8 "\<lambda>v. v < u64_limit"
  unfolding u64_to_le_def by (rule byte_codec_le) (simp add: u64_limit_def)

lemma length_to_le [simp]:
  "length (u16_to_le v) = 2" "length (u32_to_le v) = 4" "length (u64_to_le v) = 8"
  by (simp_all add: u16_to_le_def u32_to_le_def u64_to_le_def)

text \<open>The bits of an \<^verbatim>\<open>f32\<close>: \<^verbatim>\<open>to_bits().to_le_bytes()\<close> and \<^verbatim>\<open>from_bits(from_le_bytes(..))\<close>.\<close>

definition f32_to_le :: "f32 \<Rightarrow> byte list" where "f32_to_le x = u32_to_le (unat x)"
definition f32_of_le :: "byte list \<Rightarrow> f32" where "f32_of_le bs = word_of_nat (of_le_bytes bs)"

lemma unat_word32: "v < 4294967296 \<Longrightarrow> unat (word_of_nat v :: 32 word) = v"
  by (simp add: unat_of_nat take_bit_nat_eq_self)

interpretation f32_codec: byte_codec f32_to_le f32_of_le 4 "\<lambda>_. True"
proof
  fix x :: f32 and bs :: "byte list"
  have x: "unat x < 4294967296" using unsigned_less [of x] by simp
  show "length (f32_to_le x) = 4" by (simp add: f32_to_le_def)
  show "f32_of_le (f32_to_le x) = x" using x by (simp add: f32_of_le_def f32_to_le_def u32_codec.dec_enc)
  show True ..
  assume l: "length bs = 4"
  then have "of_le_bytes bs < 4294967296" by (rule u32_codec.dec_valid)
  then show "f32_to_le (f32_of_le bs) = bs"
    using l by (simp add: f32_of_le_def f32_to_le_def unat_word32 u32_codec.enc_dec)
qed

text \<open>\<^verbatim>\<open>f32::is_finite\<close> on the bits: the exponent field is not all ones.\<close>

definition f32_is_finite :: "f32 \<Rightarrow> bool" where
  "f32_is_finite x \<longleftrightarrow> x AND 0x7f800000 \<noteq> 0x7f800000"

lemma f32_is_finite_0 [simp]: "f32_is_finite 0"
  by (simp add: f32_is_finite_def)

section \<open>UTF-8\<close>

definition utf8_cont :: "byte \<Rightarrow> bool" where
  "utf8_cont b \<longleftrightarrow> 0x80 \<le> b \<and> b \<le> 0xBF"

text \<open>
  \<^verbatim>\<open>String::from_utf8\<close>: no overlong encodings, no surrogates, no scalar value above 10FFFF.
\<close>

fun utf8_valid :: "byte list \<Rightarrow> bool" where
  "utf8_valid [] = True"
| "utf8_valid (b # bs) =
     (if b \<le> 0x7F then utf8_valid bs
      else if 0xC2 \<le> b \<and> b \<le> 0xDF then
        (case bs of c # cs \<Rightarrow> utf8_cont c \<and> utf8_valid cs | _ \<Rightarrow> False)
      else if 0xE0 \<le> b \<and> b \<le> 0xEF then
        (case bs of c # d # ds \<Rightarrow>
           (if b = 0xE0 then 0xA0 \<le> c \<and> c \<le> 0xBF
            else if b = 0xED then 0x80 \<le> c \<and> c \<le> 0x9F else utf8_cont c) \<and>
           utf8_cont d \<and> utf8_valid ds
         | _ \<Rightarrow> False)
      else if 0xF0 \<le> b \<and> b \<le> 0xF4 then
        (case bs of c # d # e # es \<Rightarrow>
           (if b = 0xF0 then 0x90 \<le> c \<and> c \<le> 0xBF
            else if b = 0xF4 then 0x80 \<le> c \<and> c \<le> 0x8F else utf8_cont c) \<and>
           utf8_cont d \<and> utf8_cont e \<and> utf8_valid es
         | _ \<Rightarrow> False)
      else False)"

definition str_of_bytes :: "byte list \<Rightarrow> string" where
  "str_of_bytes bs = map (\<lambda>b. char_of (unat b)) bs"

definition bytes_of_str :: "string \<Rightarrow> byte list" where
  "bytes_of_str s = map (\<lambda>c. word_of_nat (of_char c)) s"

lemma bytes_of_str_of_bytes [simp]: "bytes_of_str (str_of_bytes bs) = bs"
proof -
  have "word_of_nat (of_char (char_of (unat b) :: char)) = b" for b :: byte
    using unat_byte_less [of b] by (simp add: of_char_of)
  then show ?thesis by (simp add: bytes_of_str_def str_of_bytes_def comp_def)
qed

lemma str_of_bytes_of_str [simp]: "str_of_bytes (bytes_of_str s) = s"
proof -
  have "(of_char c :: nat) < 256" for c :: char using of_char_of [of "of_char c :: nat"] by simp
  then show ?thesis by (simp add: bytes_of_str_def str_of_bytes_def comp_def)
qed

lemma length_str_of_bytes [simp]: "length (str_of_bytes bs) = length bs"
  by (simp add: str_of_bytes_def)

lemma length_bytes_of_str [simp]: "length (bytes_of_str s) = length s"
  by (simp add: bytes_of_str_def)

end
