(* ===== verification/Arena.thy ===== *)
theory Arena
  imports Ggml_Type Bytes
begin

text \<open>
  The fixed, aligned scratch allocator of \<^verbatim>\<open>crates/bridge-core/src/arena.rs\<close>: the checked layout of
  the backing buffer, and a bump allocator over it. A region handed out is the pair of its offsets
  in the buffer; the bytes of the buffer are part of the state, so that clearing a region is
  visible. Whether the system allocator grants a request is the argument \<open>grant\<close>.
\<close>

definition CACHE_LINE :: nat where "CACHE_LINE = 64"

definition isize_max :: nat where "isize_max = 9223372036854775807"

record aligned_buffer =
  buf_bytes :: "byte list"     \<comment> \<open>the whole allocation, \<^verbatim>\<open>layout.size()\<close> bytes\<close>
  buf_align :: nat
  buf_len :: nat

text \<open>\<^verbatim>\<open>Layout::from_size_align\<close> refuses a size whose rounding exceeds \<^verbatim>\<open>isize::MAX\<close>.\<close>

definition checked_layout :: "nat \<Rightarrow> nat \<Rightarrow> core_error + nat" where
  "checked_layout len align =
     (if align = 0 \<or> \<not> is_power_of_two align then Inl (InvalidAllocationLayout len align)
      else let requested = max len 1 in
        rbind (ok_or (InvalidAllocationLayout len align)
          (map_option (\<lambda>value. mask_off value (align - 1)) (checked_add requested (align - 1))))
          (\<lambda>padded. if padded \<le> isize_max then Inr padded else Inl (InvalidAllocationLayout len align)))"

definition aligned_buffer_new :: "(nat \<Rightarrow> nat \<Rightarrow> bool) \<Rightarrow> nat \<Rightarrow> nat \<Rightarrow> core_error + aligned_buffer" where
  "aligned_buffer_new grant len align =
     rbind (checked_layout len align) (\<lambda>size.
       if grant size align
       then Inr \<lparr>buf_bytes = replicate size 0, buf_align = align, buf_len = len\<rparr>
       else Inl (AllocationFailed size align))"

record arena =
  ar_buffer :: aligned_buffer
  ar_base_alignment :: nat
  ar_logical_capacity :: nat
  ar_cursor :: nat
  ar_high_water :: nat

definition with_capacity_bytes :: "(nat \<Rightarrow> nat \<Rightarrow> bool) \<Rightarrow> nat \<Rightarrow> core_error + arena" where
  "with_capacity_bytes grant bytes =
     rbind (aligned_buffer_new grant bytes CACHE_LINE) (\<lambda>buffer.
       Inr \<lparr>ar_buffer = buffer, ar_base_alignment = buf_align buffer, ar_logical_capacity = bytes,
            ar_cursor = 0, ar_high_water = 0\<rparr>)"

definition with_capacity_f32 :: "(nat \<Rightarrow> nat \<Rightarrow> bool) \<Rightarrow> nat \<Rightarrow> core_error + arena" where
  "with_capacity_f32 grant n =
     rbind (ok_or (ArithmeticOverflow ''arena f32 capacity'') (checked_mul n 4))
       (with_capacity_bytes grant)"

definition arena_align_up :: "nat \<Rightarrow> nat \<Rightarrow> nat option" where
  "arena_align_up value align =
     map_option (\<lambda>aligned. mask_off aligned (align - 1)) (checked_add value (align - 1))"

definition fill_zero :: "byte list \<Rightarrow> nat \<Rightarrow> nat \<Rightarrow> byte list" where
  "fill_zero bs start end = take start bs @ replicate (end - start) 0 @ drop end bs"

text \<open>\<^verbatim>\<open>alloc_bytes\<close>: the region and the arena after the call; on \<open>None\<close> the arena is as before.\<close>

definition alloc_bytes :: "arena \<Rightarrow> nat \<Rightarrow> nat \<Rightarrow> ((nat \<times> nat) \<times> arena) option" where
  "alloc_bytes a len align =
     (if align = 0 \<or> \<not> is_power_of_two align \<or> ar_base_alignment a < align then None
      else Option.bind (arena_align_up (ar_cursor a) align) (\<lambda>start.
           Option.bind (checked_add start len) (\<lambda>end.
           if ar_logical_capacity a < end then None
           else Some ((start, end),
             a\<lparr>ar_cursor := end, ar_high_water := max (ar_high_water a) end,
               ar_buffer := (ar_buffer a)\<lparr>buf_bytes := fill_zero (buf_bytes (ar_buffer a)) start end\<rparr>\<rparr>))))"

definition alloc_f32 :: "arena \<Rightarrow> nat \<Rightarrow> ((nat \<times> nat) \<times> arena) option" where
  "alloc_f32 a n = Option.bind (checked_mul n 4) (\<lambda>bytes. alloc_bytes a bytes CACHE_LINE)"

definition arena_reset :: "arena \<Rightarrow> arena" where
  "arena_reset a = a\<lparr>ar_cursor := 0\<rparr>"

text \<open>A caller writing through the region it was given.\<close>

definition region_write :: "arena \<Rightarrow> nat \<times> nat \<Rightarrow> byte list \<Rightarrow> arena" where
  "region_write a r bs =
     a\<lparr>ar_buffer := (ar_buffer a)\<lparr>buf_bytes :=
        take (fst r) (buf_bytes (ar_buffer a)) @ take (snd r - fst r) bs @
        drop (fst r + min (snd r - fst r) (length bs)) (buf_bytes (ar_buffer a))\<rparr>\<rparr>"

section \<open>Invariant\<close>

definition arena_inv :: "arena \<Rightarrow> bool" where
  "arena_inv a \<longleftrightarrow>
     ar_base_alignment a = 64 \<and> ar_cursor a \<le> ar_high_water a \<and>
     ar_high_water a \<le> ar_logical_capacity a \<and>
     ar_logical_capacity a \<le> length (buf_bytes (ar_buffer a)) \<and>
     length (buf_bytes (ar_buffer a)) \<le> isize_max"

lemma checked_layout_Inr:
  assumes "checked_layout len align = Inr sz"
  shows "is_power_of_two align" "len \<le> sz" "0 < sz" "align dvd sz" "sz \<le> isize_max"
proof -
  from assms have p: "is_power_of_two align" and r: "round_up (max len 1) align = Some sz"
    and s: "sz \<le> isize_max"
    by (auto simp: checked_layout_def round_up_def Let_def rbind_Inr split: if_splits)
  have a: "align < u64_limit"
  proof -
    from r have "max len 1 + (align - 1) < u64_limit" by (auto simp: round_up_def)
    then show ?thesis by simp
  qed
  from round_up_Some [OF p a r] p s
  show "is_power_of_two align" "len \<le> sz" "0 < sz" "align dvd sz" "sz \<le> isize_max" by auto
qed

lemma with_capacity_bytes_inv:
  "with_capacity_bytes grant n = Inr a \<Longrightarrow>
   arena_inv a \<and> ar_logical_capacity a = n \<and> ar_cursor a = 0 \<and> ar_high_water a = 0"
  using checked_layout_Inr [of n 64]
  by (auto simp: with_capacity_bytes_def aligned_buffer_new_def arena_inv_def CACHE_LINE_def rbind_Inr
      split: if_splits)

lemma length_fill_zero:
  "start \<le> end \<Longrightarrow> end \<le> length bs \<Longrightarrow> length (fill_zero bs start end) = length bs"
  by (simp add: fill_zero_def)

lemma nth_fill_zero:
  "start \<le> end \<Longrightarrow> end \<le> length bs \<Longrightarrow> i < length bs \<Longrightarrow>
   fill_zero bs start end ! i = (if start \<le> i \<and> i < end then 0 else bs ! i)"
  by (auto simp: fill_zero_def nth_append min_def)

lemma alloc_bytes_Some:
  assumes "alloc_bytes a len align = Some (r, b)"
  obtains start where "is_power_of_two align" "align \<le> ar_base_alignment a"
    "round_up (ar_cursor a) align = Some start" "r = (start, start + len)"
    "start + len \<le> ar_logical_capacity a"
    "b = a\<lparr>ar_cursor := start + len, ar_high_water := max (ar_high_water a) (start + len),
           ar_buffer := (ar_buffer a)\<lparr>buf_bytes := fill_zero (buf_bytes (ar_buffer a)) start (start + len)\<rparr>\<rparr>"
  using assms
  by (auto simp: alloc_bytes_def arena_align_up_def round_up_def bind_eq_Some_conv split: if_splits)

lemma alloc_bytes_inv: "arena_inv a \<Longrightarrow> alloc_bytes a len align = Some (r, b) \<Longrightarrow> arena_inv b"
  by (erule alloc_bytes_Some) (auto simp: arena_inv_def length_fill_zero)

lemma arena_reset_inv: "arena_inv a \<Longrightarrow> arena_inv (arena_reset a)"
  by (simp add: arena_inv_def arena_reset_def)

lemma region_write_inv:
  "arena_inv a \<Longrightarrow> fst r \<le> snd r \<Longrightarrow> snd r \<le> length (buf_bytes (ar_buffer a)) \<Longrightarrow> arena_inv (region_write a r bs)"
  by (auto simp: arena_inv_def region_write_def min_def)

lemma alloc_bytes_start:
  assumes "arena_inv a" "alloc_bytes a len align = Some ((start, stop), b)"
  shows "ar_cursor a \<le> start" "align dvd start" "stop = start + len" "stop \<le> ar_logical_capacity a"
    "ar_cursor b = stop" "0 < align" "align dvd 64"
proof -
  from assms(2) obtain s where r: "is_power_of_two align" "align \<le> ar_base_alignment a"
    "round_up (ar_cursor a) align = Some s" "start = s" "stop = s + len"
    "s + len \<le> ar_logical_capacity a" "ar_cursor b = s + len"
    by (auto elim!: alloc_bytes_Some)
  have "align < u64_limit" using r(2) assms(1) by (simp add: arena_inv_def u64_limit_def)
  from round_up_Some [OF r(1) this r(3)] r
  show "ar_cursor a \<le> start" "align dvd start" "stop = start + len" "stop \<le> ar_logical_capacity a"
    "ar_cursor b = stop" by auto
  show "0 < align" using r(1) by (rule is_power_of_two_pos)
  from r(1) obtain k where k: "align = 2 ^ k" by (auto simp: is_power_of_two_iff)
  with r(2) assms(1) have "(2 :: nat) ^ k \<le> 2 ^ 6" by (simp add: arena_inv_def)
  then have "k \<le> 6" by (rule power_le_imp_le_exp [rotated]) simp
  then have "(2 :: nat) ^ k dvd 2 ^ 6" by (rule le_imp_power_dvd)
  then show "align dvd 64" by (simp add: k)
qed

text \<open>
  A region handed out by the arena lies inside the requested capacity, has exactly the requested
  length, starts at an address that is a multiple of the requested alignment (the backing buffer
  being aligned to a cache line), is all zero, and every byte outside it keeps its value.
\<close>

theorem alloc_region_exclusive_and_zeroed:
  assumes "arena_inv a" "alloc_bytes a len align = Some ((start, stop), b)"
    and "base mod 64 = 0"
  shows "stop = start + len \<and> stop \<le> ar_logical_capacity a \<and> (base + start) mod align = 0 \<and>
    take len (drop start (buf_bytes (ar_buffer b))) = replicate len 0 \<and>
    (\<forall>i < length (buf_bytes (ar_buffer a)). i < start \<or> stop \<le> i \<longrightarrow>
       buf_bytes (ar_buffer b) ! i = buf_bytes (ar_buffer a) ! i)"
proof -
  note s = alloc_bytes_start [OF assms(1,2)]
  have le: "stop \<le> length (buf_bytes (ar_buffer a))" using s assms(1) by (simp add: arena_inv_def)
  have b: "buf_bytes (ar_buffer b) = fill_zero (buf_bytes (ar_buffer a)) start stop"
    using assms(2) by (auto elim!: alloc_bytes_Some)
  have "align dvd base" using s(7) assms(3) by (meson dvd_trans mod_eq_0_iff_dvd)
  with s(2) have "(base + start) mod align = 0" by simp
  moreover have "take len (drop start (buf_bytes (ar_buffer b))) = replicate len 0"
    using le s(3) by (simp add: b fill_zero_def)
  ultimately show ?thesis using s le nth_fill_zero [of start stop] by (auto simp: b)
qed

theorem alloc_region_exclusive_and_zeroed_witness:
  "\<exists>c. alloc_bytes \<lparr>ar_buffer = \<lparr>buf_bytes = replicate 256 7, buf_align = 64, buf_len = 256\<rparr>,
        ar_base_alignment = 64, ar_logical_capacity = 256, ar_cursor = 65, ar_high_water = 65\<rparr> 64 64
      = Some ((128, 192), c) \<and>
     take 64 (drop 128 (buf_bytes (ar_buffer c))) = replicate 64 0 \<and> buf_bytes (ar_buffer c) ! 0 = 7"
proof -
  let ?b = "\<lparr>buf_bytes = replicate 256 (7 :: byte), buf_align = 64, buf_len = 256\<rparr>"
  let ?a = "\<lparr>ar_buffer = ?b, ar_base_alignment = 64, ar_logical_capacity = 256, ar_cursor = 65,
             ar_high_water = 65\<rparr>"
  have inv: "arena_inv ?a" by (simp add: arena_inv_def isize_max_def)
  have p: "is_power_of_two 64" using is_power_of_two_pow [of 6] by simp
  have "mask_off 128 63 = 128" by (simp add: mask_off_def)
  then obtain c where c: "alloc_bytes ?a 64 64 = Some ((128, 192), c)"
    using p by (simp add: alloc_bytes_def arena_align_up_def u64_limit_def checked_add_def)
  from alloc_region_exclusive_and_zeroed [OF inv c, of 4096] c show ?thesis by auto
qed

text \<open>
  Running requests one after another: \<open>None\<close> results leave the arena as it was, as the callers'
  \<^verbatim>\<open>Option\<close> does.
\<close>

fun alloc_run :: "arena \<Rightarrow> (nat \<times> nat) list \<Rightarrow> (nat \<times> nat) list \<times> arena" where
  "alloc_run a [] = ([], a)"
| "alloc_run a ((len, align) # reqs) =
     (case alloc_bytes a len align of
        None \<Rightarrow> alloc_run a reqs
      | Some (r, b) \<Rightarrow> (let (rs, c) = alloc_run b reqs in (r # rs, c)))"

lemma alloc_run_inv:
  assumes "arena_inv a" "alloc_run a reqs = (rs, c)"
  shows "arena_inv c \<and> ar_cursor a \<le> ar_cursor c \<and> ar_logical_capacity c = ar_logical_capacity a \<and>
    (\<forall>r \<in> set rs. ar_cursor a \<le> fst r \<and> fst r \<le> snd r \<and> snd r \<le> ar_cursor c)"
  using assms
proof (induction a reqs arbitrary: rs c rule: alloc_run.induct)
  case (1 a)
  then show ?case by simp
next
  case (2 a len align reqs)
  show ?case
  proof (cases "alloc_bytes a len align")
    case None
    then show ?thesis using 2 by simp
  next
    case (Some rb)
    obtain start stop b where rb: "rb = ((start, stop), b)" by (cases rb) auto
    from 2(4) Some rb obtain rs' where rs: "rs = (start, stop) # rs'" "alloc_run b reqs = (rs', c)"
      by (auto split: prod.splits)
    note s = alloc_bytes_start [OF 2(3) Some [unfolded rb]]
    have b: "arena_inv b" using 2(3) Some rb by (blast intro: alloc_bytes_inv)
    have "ar_logical_capacity b = ar_logical_capacity a" using Some rb by (auto elim!: alloc_bytes_Some)
    with 2(2) [OF Some rb [symmetric] b rs(2)] s rs show ?thesis by fastforce
  qed
qed

text \<open>
  Between two resets no two regions the arena handed out share a byte: whatever requests are
  made, the granted regions are pairwise disjoint, in increasing order, and all inside the capacity.
\<close>

theorem alloc_regions_disjoint:
  assumes "arena_inv a" "alloc_run a reqs = (rs, c)"
  shows "sorted_wrt (\<lambda>r s. snd r \<le> fst s) rs \<and>
    (\<forall>r \<in> set rs. fst r \<le> snd r \<and> snd r \<le> ar_logical_capacity a)"
proof -
  have "sorted_wrt (\<lambda>r s. snd r \<le> fst s) rs" using assms
  proof (induction a reqs arbitrary: rs c rule: alloc_run.induct)
    case (1 a)
    then show ?case by simp
  next
    case (2 a len align reqs)
    show ?case
    proof (cases "alloc_bytes a len align")
      case None
      then show ?thesis using 2 by simp
    next
      case (Some rb)
      obtain start stop b where rb: "rb = ((start, stop), b)" by (cases rb) auto
      from 2(4) Some rb obtain rs' where rs: "rs = (start, stop) # rs'" "alloc_run b reqs = (rs', c)"
        by (auto split: prod.splits)
      have b: "arena_inv b" using 2(3) Some rb by (blast intro: alloc_bytes_inv)
      have "ar_cursor b = stop" by (rule alloc_bytes_start(5) [OF 2(3) Some [unfolded rb]])
      with 2(2) [OF Some rb [symmetric] b rs(2)] alloc_run_inv [OF b rs(2)] rs(1) show ?thesis by simp
    qed
  qed
  moreover have "\<forall>r \<in> set rs. fst r \<le> snd r \<and> snd r \<le> ar_logical_capacity a"
    using alloc_run_inv [OF assms] by (fastforce simp: arena_inv_def)
  ultimately show ?thesis ..
qed

theorem alloc_regions_disjoint_witness:
  "let rs = fst (alloc_run \<lparr>ar_buffer = \<lparr>buf_bytes = replicate 64 0, buf_align = 64, buf_len = 16\<rparr>,
        ar_base_alignment = 64, ar_logical_capacity = 16, ar_cursor = 0, ar_high_water = 0\<rparr>
        [(1, 1), (4, 8), (9, 8)])
   in rs = [(0, 1), (8, 12)] \<and> sorted_wrt (\<lambda>r s. snd r \<le> fst s) rs"
proof -
  let ?b = "\<lparr>buf_bytes = replicate 64 0, buf_align = 64, buf_len = 16\<rparr>"
  let ?a = "\<lparr>ar_buffer = ?b, ar_base_alignment = 64, ar_logical_capacity = 16, ar_cursor = 0,
             ar_high_water = 0\<rparr>"
  have inv: "arena_inv ?a" by (simp add: arena_inv_def isize_max_def)
  have p: "is_power_of_two 8" "is_power_of_two (Suc 0)"
    using is_power_of_two_pow [of 3] is_power_of_two_pow [of 0] by simp_all
  have m: "mask_off 8 7 = 8" "mask_off 0 0 = 0" "mask_off 19 7 = 16"
    by (simp_all add: mask_off_def)
  have run: "fst (alloc_run ?a [(1, 1), (4, 8), (9, 8)]) = [(0, 1), (8, 12)]"
    using p m by (simp add: alloc_bytes_def arena_align_up_def checked_add_def u64_limit_def)
  obtain rs c where rc: "alloc_run ?a [(1, 1), (4, 8), (9, 8)] = (rs, c)" by fastforce
  from alloc_regions_disjoint [OF inv rc] run rc show ?thesis by (simp add: Let_def)
qed

end
