(* ===== verification/Kv_Cache.thy ===== *)
theory Kv_Cache
  imports Bytes
begin

text \<open>
  The paged key/value cache of \<^verbatim>\<open>crates/bridge-kv-gqa/src/cache.rs\<close>: construction, appends, reads,
  reset and rewind, with the errors of \<^verbatim>\<open>error.rs\<close>. The cache is a record with the fields of
  \<open>PagedKvCache\<close>; a page holds two flat arrays of \<^verbatim>\<open>f32\<close> bit patterns. A method on
  \<^verbatim>\<open>&mut self\<close> returns its result together with the cache it leaves behind, also when it fails.
  Whether the allocator grants a reservation is the argument \<open>grant\<close>: it depends on the context of the request, on
  the loop counters that lead to it and on the element count, so that the requests of one call are answered
  independently of each other.
  Reads and writes of slices the code indexes directly are total list operations; the invariant
  shows that the indices are in range.
\<close>

datatype kv_error =
    ZeroParameter string
  | KvArithmeticOverflow string
  | KvAllocationFailed string nat
  | LayerOutOfRange nat nat
  | HeadOutOfRange nat nat
  | TokenOutOfRange nat nat
  | LengthMismatch string nat nat
  | CapacityExhausted nat nat nat nat
  | RewindBeyondStored nat nat nat
  | NonFiniteValue string nat f32
  | ZeroSnapshotLimit
  | SnapshotTooLarge nat nat
  | SnapshotTruncated nat nat
  | SnapshotMagic
  | SnapshotVersion nat nat
  | SnapshotChecksum
  | SnapshotBinding
  | SnapshotConfiguration string nat nat
  | SnapshotLayerLength nat nat nat
  | SnapshotTrailingBytes nat

record kv_page =
  pg_keys :: "f32 list"
  pg_values :: "f32 list"

record kv_cache =
  layer_count :: nat
  kv_head_count :: nat
  key_dimension :: nat
  value_dimension :: nat
  page_tokens :: nat
  page_count :: nat
  token_capacity :: nat
  lengths :: "nat list"
  pages :: "kv_page option list list"

type_synonym grant = "string \<times> nat list \<Rightarrow> nat \<Rightarrow> bool"

text \<open>The requests of round \<open>i\<close> of a loop.\<close>

definition at_step :: "grant \<Rightarrow> nat \<Rightarrow> grant" where
  "at_step grant i = (\<lambda>(ctxt, counters). grant (ctxt, i # counters))"

lemma at_step_all [simp]: "at_step (\<lambda>_ _. True) i = (\<lambda>_ _. True)"
  by (simp add: at_step_def split_def)

section \<open>Construction\<close>

definition zeroed_vec :: "grant \<Rightarrow> 'a \<Rightarrow> nat \<Rightarrow> string \<Rightarrow> kv_error + 'a list" where
  "zeroed_vec grant dflt elements field =
     (if grant (field, []) elements then Inr (replicate elements dflt)
      else Inl (KvAllocationFailed field elements))"

definition page_new :: "grant \<Rightarrow> nat \<Rightarrow> nat \<Rightarrow> nat \<Rightarrow> nat \<Rightarrow> kv_error + kv_page" where
  "page_new grant ptokens heads kdim vdim =
     rbind (ok_or (KvArithmeticOverflow ''key page storage'')
              (Option.bind (checked_mul ptokens heads) (\<lambda>v. checked_mul v kdim))) (\<lambda>key_elements.
     rbind (ok_or (KvArithmeticOverflow ''value page storage'')
              (Option.bind (checked_mul ptokens heads) (\<lambda>v. checked_mul v vdim))) (\<lambda>value_elements.
     rbind (zeroed_vec grant 0 key_elements ''key page storage'') (\<lambda>keys.
     rbind (zeroed_vec grant 0 value_elements ''value page storage'') (\<lambda>values.
       Inr \<lparr>pg_keys = keys, pg_values = values\<rparr>))))"

fun first_zero_field :: "(string \<times> nat) list \<Rightarrow> kv_error + unit" where
  "first_zero_field [] = Inr ()"
| "first_zero_field ((field, value) # rest) =
     (if value = 0 then Inl (ZeroParameter field) else first_zero_field rest)"

text \<open>One layer's page table: reserved, filled with \<^verbatim>\<open>None\<close>, and backed when the cache is eager.\<close>

definition layer_table ::
  "grant \<Rightarrow> nat \<Rightarrow> nat \<Rightarrow> nat \<Rightarrow> nat \<Rightarrow> nat \<Rightarrow> bool \<Rightarrow> kv_error + kv_page option list" where
  "layer_table grant pcount ptokens heads kdim vdim eager =
     rbind (check (grant (''page table'', []) pcount) (KvAllocationFailed ''page table'' pcount)) (\<lambda>_.
       if eager then map_res (\<lambda>i. rbind (page_new (at_step grant i) ptokens heads kdim vdim) (\<lambda>p. Inr (Some p))) [0..<pcount]
       else Inr (replicate pcount None))"

definition new_with_allocation ::
  "grant \<Rightarrow> nat \<Rightarrow> nat \<Rightarrow> nat \<Rightarrow> nat \<Rightarrow> nat \<Rightarrow> nat \<Rightarrow> bool \<Rightarrow> kv_error + kv_cache" where
  "new_with_allocation grant layers heads kdim vdim ptokens capacity eager =
     rbind (first_zero_field
       [(''layer_count'', layers), (''kv_head_count'', heads), (''key_dimension'', kdim),
        (''value_dimension'', vdim), (''page_tokens'', ptokens), (''token_capacity'', capacity)]) (\<lambda>_.
     rbind (ok_or (KvArithmeticOverflow ''KV page count rounding'') (checked_add capacity (ptokens - 1)))
       (\<lambda>rounded. let pcount = rounded div ptokens in
     rbind (check (grant (''layer page tables'', []) layers) (KvAllocationFailed ''layer page tables'' layers)) (\<lambda>_.
     rbind (map_res (\<lambda>l. layer_table (at_step grant l) pcount ptokens heads kdim vdim eager) [0..<layers]) (\<lambda>tables.
     rbind (zeroed_vec grant 0 layers ''layer lengths'') (\<lambda>lens.
       Inr \<lparr>layer_count = layers, kv_head_count = heads, key_dimension = kdim, value_dimension = vdim,
            page_tokens = ptokens, page_count = pcount, token_capacity = capacity,
            lengths = lens, pages = tables\<rparr>)))))"

definition kv_new :: "grant \<Rightarrow> nat \<Rightarrow> nat \<Rightarrow> nat \<Rightarrow> nat \<Rightarrow> nat \<Rightarrow> nat \<Rightarrow> kv_error + kv_cache" where
  "kv_new grant layers heads kdim vdim ptokens capacity =
     new_with_allocation grant layers heads kdim vdim ptokens capacity True"

definition kv_new_lazy :: "grant \<Rightarrow> nat \<Rightarrow> nat \<Rightarrow> nat \<Rightarrow> nat \<Rightarrow> nat \<Rightarrow> nat \<Rightarrow> kv_error + kv_cache" where
  "kv_new_lazy grant layers heads kdim vdim ptokens capacity =
     new_with_allocation grant layers heads kdim vdim ptokens capacity False"

section \<open>Observers\<close>

definition allocated_page_count :: "kv_cache \<Rightarrow> nat" where
  "allocated_page_count c = sum_list (map (\<lambda>ps. length (filter (\<lambda>p. p \<noteq> None) ps)) (pages c))"

definition allocated_bytes :: "kv_cache \<Rightarrow> kv_error + nat" where
  "allocated_bytes c =
     fold_res (\<lambda>page total.
       rbind (ok_or (KvArithmeticOverflow ''allocated KV bytes'')
         (Option.bind (checked_add (length (pg_keys page)) (length (pg_values page)))
           (\<lambda>elements. checked_mul elements 4))) (\<lambda>page_bytes.
       ok_or (KvArithmeticOverflow ''allocated KV bytes'') (checked_add total page_bytes)))
       (concat (map (List.map_filter id) (pages c))) 0"

definition validate_layer :: "kv_cache \<Rightarrow> nat \<Rightarrow> kv_error + unit" where
  "validate_layer c layer = check (layer < layer_count c) (LayerOutOfRange layer (layer_count c))"

definition stored_tokens :: "kv_cache \<Rightarrow> nat \<Rightarrow> kv_error + nat" where
  "stored_tokens c layer = rbind (validate_layer c layer) (\<lambda>_. Inr (lengths c ! layer))"

definition remaining_tokens :: "kv_cache \<Rightarrow> nat \<Rightarrow> kv_error + nat" where
  "remaining_tokens c layer = rbind (stored_tokens c layer) (\<lambda>n. Inr (token_capacity c - n))"

definition validate_indices :: "kv_cache \<Rightarrow> nat \<Rightarrow> nat \<Rightarrow> nat \<Rightarrow> kv_error + unit" where
  "validate_indices c layer token head =
     rbind (validate_layer c layer) (\<lambda>_.
       if lengths c ! layer \<le> token then Inl (TokenOutOfRange token (lengths c ! layer))
       else if kv_head_count c \<le> head then Inl (HeadOutOfRange head (kv_head_count c))
       else Inr ())"

definition page_at :: "kv_cache \<Rightarrow> nat \<Rightarrow> nat \<Rightarrow> kv_error + kv_page" where
  "page_at c layer token =
     ok_or (KvArithmeticOverflow ''missing allocated KV page'') (pages c ! layer ! (token div page_tokens c))"

definition key_offset :: "kv_cache \<Rightarrow> nat \<Rightarrow> nat \<Rightarrow> nat" where
  "key_offset c token head = ((token mod page_tokens c) * kv_head_count c + head) * key_dimension c"

definition value_offset :: "kv_cache \<Rightarrow> nat \<Rightarrow> nat \<Rightarrow> nat" where
  "value_offset c token head = ((token mod page_tokens c) * kv_head_count c + head) * value_dimension c"

definition slice :: "'a list \<Rightarrow> nat \<Rightarrow> nat \<Rightarrow> 'a list" where
  "slice xs start n = take n (drop start xs)"

definition kv_key :: "kv_cache \<Rightarrow> nat \<Rightarrow> nat \<Rightarrow> nat \<Rightarrow> kv_error + f32 list" where
  "kv_key c layer token head =
     rbind (validate_indices c layer token head) (\<lambda>_.
     rbind (page_at c layer token) (\<lambda>page.
       Inr (slice (pg_keys page) (key_offset c token head) (key_dimension c))))"

definition kv_value :: "kv_cache \<Rightarrow> nat \<Rightarrow> nat \<Rightarrow> nat \<Rightarrow> kv_error + f32 list" where
  "kv_value c layer token head =
     rbind (validate_indices c layer token head) (\<lambda>_.
     rbind (page_at c layer token) (\<lambda>page.
       Inr (slice (pg_values page) (value_offset c token head) (value_dimension c))))"

section \<open>Appending\<close>

definition require_length :: "string \<Rightarrow> nat \<Rightarrow> nat \<Rightarrow> kv_error + unit" where
  "require_length field expected actual = check (expected = actual) (LengthMismatch field expected actual)"

fun validate_finite_from :: "string \<Rightarrow> nat \<Rightarrow> f32 list \<Rightarrow> kv_error + unit" where
  "validate_finite_from field i [] = Inr ()"
| "validate_finite_from field i (x # xs) =
     (if \<not> f32_is_finite x then Inl (NonFiniteValue field i x) else validate_finite_from field (Suc i) xs)"

definition validate_finite :: "string \<Rightarrow> f32 list \<Rightarrow> kv_error + unit" where
  "validate_finite field xs = validate_finite_from field 0 xs"

definition set_page :: "kv_cache \<Rightarrow> nat \<Rightarrow> nat \<Rightarrow> kv_page \<Rightarrow> kv_cache" where
  "set_page c layer p page = c\<lparr>pages := (pages c)[layer := (pages c ! layer)[p := Some page]]\<rparr>"

text \<open>
  The missing pages of a token range are all built before the first one is installed, so a failed
  allocation leaves the table as it was.
\<close>

definition ensure_pages :: "grant \<Rightarrow> kv_cache \<Rightarrow> nat \<Rightarrow> nat \<Rightarrow> nat \<Rightarrow> (kv_error + unit) \<times> kv_cache" where
  "ensure_pages grant c layer start end =
     (let first = start div page_tokens c;
          last = (end - 1) div page_tokens c;
          missing = filter (\<lambda>p. pages c ! layer ! p = None) [first..<Suc last]
      in if missing = [] then (Inr (), c)
         else if \<not> grant (''new KV pages'', []) (length missing)
         then (Inl (KvAllocationFailed ''new KV pages'' (length missing)), c)
         else case map_res (\<lambda>p. rbind (page_new (at_step grant p) (page_tokens c) (kv_head_count c)
                                  (key_dimension c) (value_dimension c)) (\<lambda>page. Inr (p, page))) missing of
                Inl e \<Rightarrow> (Inl e, c)
              | Inr allocated \<Rightarrow> (Inr (), fold (\<lambda>(p, page) d. set_page d layer p page) allocated c))"

definition splice :: "'a list \<Rightarrow> nat \<Rightarrow> 'a list \<Rightarrow> 'a list" where
  "splice xs start ys = take start xs @ ys @ drop (start + length ys) xs"

definition write_key :: "kv_cache \<Rightarrow> nat \<Rightarrow> nat \<Rightarrow> nat \<Rightarrow> f32 list \<Rightarrow> (kv_error + unit) \<times> kv_cache" where
  "write_key c layer token head row =
     (case page_at c layer token of
        Inl e \<Rightarrow> (Inl e, c)
      | Inr page \<Rightarrow> (Inr (), set_page c layer (token div page_tokens c)
          (page\<lparr>pg_keys := splice (pg_keys page) (key_offset c token head) row\<rparr>)))"

definition write_value :: "kv_cache \<Rightarrow> nat \<Rightarrow> nat \<Rightarrow> nat \<Rightarrow> f32 list \<Rightarrow> (kv_error + unit) \<times> kv_cache" where
  "write_value c layer token head row =
     (case page_at c layer token of
        Inl e \<Rightarrow> (Inl e, c)
      | Inr page \<Rightarrow> (Inr (), set_page c layer (token div page_tokens c)
          (page\<lparr>pg_values := splice (pg_values page) (value_offset c token head) row\<rparr>)))"

text \<open>The body of the copy loop: one token, one head.\<close>

definition copy_row ::
  "nat \<Rightarrow> nat \<Rightarrow> f32 list \<Rightarrow> f32 list \<Rightarrow> nat \<times> nat \<Rightarrow> kv_cache \<Rightarrow> (kv_error + unit) \<times> kv_cache" where
  "copy_row layer stored keys values th c =
     (let (token_offset, head) = th;
          token = stored + token_offset;
          source_key = (token_offset * kv_head_count c + head) * key_dimension c;
          source_value = (token_offset * kv_head_count c + head) * value_dimension c
      in case write_key c layer token head (slice keys source_key (key_dimension c)) of
           (Inl e, c') \<Rightarrow> (Inl e, c')
         | (Inr _, c') \<Rightarrow> write_value c' layer token head (slice values source_value (value_dimension c)))"

fun copy_rows ::
  "nat \<Rightarrow> nat \<Rightarrow> f32 list \<Rightarrow> f32 list \<Rightarrow> (nat \<times> nat) list \<Rightarrow> kv_cache \<Rightarrow> (kv_error + unit) \<times> kv_cache" where
  "copy_rows layer stored keys values [] c = (Inr (), c)"
| "copy_rows layer stored keys values (th # ths) c =
     (case copy_row layer stored keys values th c of
        (Inl e, c') \<Rightarrow> (Inl e, c')
      | (Inr _, c') \<Rightarrow> copy_rows layer stored keys values ths c')"

definition row_indices :: "nat \<Rightarrow> nat \<Rightarrow> (nat \<times> nat) list" where
  "row_indices token_count heads = concat (map (\<lambda>t. map (\<lambda>h. (t, h)) [0..<heads]) [0..<token_count])"

definition append_check :: "kv_cache \<Rightarrow> nat \<Rightarrow> nat \<Rightarrow> f32 list \<Rightarrow> f32 list \<Rightarrow> kv_error + nat" where
  "append_check c layer token_count keys values =
     rbind (validate_layer c layer) (\<lambda>_.
     rbind (check (token_count \<noteq> 0) (ZeroParameter ''append token_count'')) (\<lambda>_.
     rbind (ok_or (KvArithmeticOverflow ''keys per token'')
              (checked_mul (kv_head_count c) (key_dimension c))) (\<lambda>keys_per_token.
     rbind (ok_or (KvArithmeticOverflow ''values per token'')
              (checked_mul (kv_head_count c) (value_dimension c))) (\<lambda>values_per_token.
     rbind (ok_or (KvArithmeticOverflow ''appended key length'')
              (checked_mul token_count keys_per_token)) (\<lambda>expected_keys.
     rbind (ok_or (KvArithmeticOverflow ''appended value length'')
              (checked_mul token_count values_per_token)) (\<lambda>expected_values.
     rbind (require_length ''append keys'' expected_keys (length keys)) (\<lambda>_.
     rbind (require_length ''append values'' expected_values (length values)) (\<lambda>_.
     rbind (validate_finite ''append keys'' keys) (\<lambda>_.
     rbind (validate_finite ''append values'' values) (\<lambda>_.
     rbind (ok_or (KvArithmeticOverflow ''appended token count'')
              (checked_add (lengths c ! layer) token_count)) (\<lambda>new_length.
       if token_capacity c < new_length
       then Inl (CapacityExhausted layer (lengths c ! layer) token_count (token_capacity c))
       else Inr new_length)))))))))))"

definition append_tokens ::
  "grant \<Rightarrow> kv_cache \<Rightarrow> nat \<Rightarrow> nat \<Rightarrow> f32 list \<Rightarrow> f32 list \<Rightarrow> (kv_error + unit) \<times> kv_cache" where
  "append_tokens grant c layer token_count keys values =
     (case append_check c layer token_count keys values of
        Inl e \<Rightarrow> (Inl e, c)
      | Inr new_length \<Rightarrow>
          (let stored = lengths c ! layer in
           case ensure_pages grant c layer stored new_length of
             (Inl e, d) \<Rightarrow> (Inl e, d)
           | (Inr _, d) \<Rightarrow>
               (case copy_rows layer stored keys values (row_indices token_count (kv_head_count c)) d of
                  (Inl e, d') \<Rightarrow> (Inl e, d')
                | (Inr _, d') \<Rightarrow> (Inr (), d'\<lparr>lengths := (lengths d')[layer := new_length]\<rparr>))))"

definition kv_append ::
  "grant \<Rightarrow> kv_cache \<Rightarrow> nat \<Rightarrow> f32 list \<Rightarrow> f32 list \<Rightarrow> (kv_error + nat) \<times> kv_cache" where
  "kv_append grant c layer key val =
     (case append_tokens grant c layer 1 key val of
        (Inl e, d) \<Rightarrow> (Inl e, d)
      | (Inr _, d) \<Rightarrow> (Inr (lengths d ! layer - 1), d))"

section \<open>Reset and rewind\<close>

definition kv_reset :: "kv_cache \<Rightarrow> kv_cache" where
  "kv_reset c = c\<lparr>lengths := replicate (length (lengths c)) 0\<rparr>"

fun rewind_check :: "nat \<Rightarrow> nat \<Rightarrow> nat list \<Rightarrow> kv_error + unit" where
  "rewind_check layer token_count [] = Inr ()"
| "rewind_check layer token_count (stored # rest) =
     (if stored < token_count then Inl (RewindBeyondStored layer token_count stored)
      else rewind_check (Suc layer) token_count rest)"

definition rewind_all :: "kv_cache \<Rightarrow> nat \<Rightarrow> (kv_error + unit) \<times> kv_cache" where
  "rewind_all c token_count =
     (case rewind_check 0 token_count (lengths c) of
        Inl e \<Rightarrow> (Inl e, c)
      | Inr _ \<Rightarrow> (Inr (), c\<lparr>lengths := replicate (length (lengths c)) token_count\<rparr>))"

section \<open>Flat arrays of fixed-width rows\<close>

lemma length_splice: "start + length ys \<le> length xs \<Longrightarrow> length (splice xs start ys) = length xs"
  by (simp add: splice_def)

lemma slice_splice_same:
  "length ys = n \<Longrightarrow> start + n \<le> length xs \<Longrightarrow> slice (splice xs start ys) start n = ys"
  by (simp add: slice_def splice_def)

lemma nth_splice:
  assumes "start + length ys \<le> length xs" "i < length xs"
  shows "splice xs start ys ! i = (if start \<le> i \<and> i < start + length ys then ys ! (i - start) else xs ! i)"
proof -
  consider "i < start" | "start \<le> i" "i - start < length ys" | "start \<le> i" "\<not> i - start < length ys"
    by linarith
  then show ?thesis using assms
    by cases (auto simp: splice_def nth_append)
qed

lemma slice_splice_other:
  assumes "start + length ys \<le> length xs" "a + n \<le> start \<or> start + length ys \<le> a"
  shows "slice (splice xs start ys) a n = slice xs a n"
proof (rule nth_equalityI)
  show "length (slice (splice xs start ys) a n) = length (slice xs a n)"
    using assms(1) by (simp add: slice_def length_splice)
  fix i assume i: "i < length (slice (splice xs start ys) a n)"
  then have ai: "a + i < length xs" "i < n" using assms(1) by (auto simp: slice_def length_splice)
  moreover have "\<not> (start \<le> a + i \<and> a + i < start + length ys)" using assms(2) ai by linarith
  ultimately show "slice (splice xs start ys) a n ! i = slice xs a n ! i"
    using assms(1) by (auto simp: slice_def length_splice nth_splice)
qed

lemma row_slots_disjoint: "i \<noteq> j \<Longrightarrow> i * k + k \<le> j * k \<or> j * k + k \<le> (i * k :: nat)"
proof -
  have "i * k + k \<le> j * k" if "i < j" for i j :: nat
    using mult_le_mono1 [of "Suc i" j k] that by simp
  then show "i \<noteq> j \<Longrightarrow> i * k + k \<le> j * k \<or> j * k + k \<le> i * k" by (meson nat_neq_iff)
qed

lemma slice_splice_row:
  assumes "length ys = k" "i * k + k \<le> length xs"
  shows "slice (splice xs (i * k) ys) (j * k) k = (if i = j then ys else slice xs (j * k) k)"
  using assms row_slots_disjoint [of i j k]
  by (auto simp: slice_splice_same intro!: slice_splice_other)

lemma row_index_inject:
  assumes "(a :: nat) * n + h = b * n + g" "h < n" "g < n"
  shows "a = b \<and> h = g"
proof -
  have "(a * n + h) div n = a" "(b * n + g) div n = b" using assms(2,3) by simp_all
  with assms(1) show ?thesis by auto
qed

lemma row_index_less: "a < (m :: nat) \<Longrightarrow> h < n \<Longrightarrow> (a * n + h) * k + k \<le> m * n * k"
proof -
  assume "a < m" "h < n"
  then have "Suc (a * n + h) \<le> m * n"
    using mult_le_mono1 [of "Suc a" m n] by simp
  then show ?thesis using mult_le_mono1 [of "Suc (a * n + h)" "m * n" k] by simp
qed

section \<open>Invariant\<close>

definition page_ok :: "kv_cache \<Rightarrow> kv_page \<Rightarrow> bool" where
  "page_ok c p \<longleftrightarrow>
     length (pg_keys p) = page_tokens c * kv_head_count c * key_dimension c \<and>
     length (pg_values p) = page_tokens c * kv_head_count c * value_dimension c"

definition kv_shape :: "kv_cache \<Rightarrow> bool" where
  "kv_shape c \<longleftrightarrow>
     0 < layer_count c \<and> 0 < kv_head_count c \<and> 0 < key_dimension c \<and> 0 < value_dimension c \<and>
     0 < page_tokens c \<and> 0 < token_capacity c \<and> token_capacity c < u64_limit \<and>
     page_count c = (token_capacity c + (page_tokens c - 1)) div page_tokens c \<and>
     length (lengths c) = layer_count c \<and> length (pages c) = layer_count c \<and>
     (\<forall>l < layer_count c. length (pages c ! l) = page_count c \<and>
        (\<forall>p < page_count c. \<forall>pg. pages c ! l ! p = Some pg \<longrightarrow> page_ok c pg))"

definition backed :: "kv_cache \<Rightarrow> nat \<Rightarrow> nat \<Rightarrow> bool" where
  "backed c l t \<longleftrightarrow> pages c ! l ! (t div page_tokens c) \<noteq> None"

definition kv_inv :: "kv_cache \<Rightarrow> bool" where
  "kv_inv c \<longleftrightarrow> kv_shape c \<and>
     (\<forall>l < layer_count c. lengths c ! l \<le> token_capacity c \<and> (\<forall>t < lengths c ! l. backed c l t))"

definition config_of :: "kv_cache \<Rightarrow> nat \<times> nat \<times> nat \<times> nat \<times> nat \<times> nat \<times> nat" where
  "config_of c = (layer_count c, kv_head_count c, key_dimension c, value_dimension c,
     page_tokens c, page_count c, token_capacity c)"

lemma config_of_eq:
  "config_of c = config_of d \<longleftrightarrow>
   layer_count c = layer_count d \<and> kv_head_count c = kv_head_count d \<and>
   key_dimension c = key_dimension d \<and> value_dimension c = value_dimension d \<and>
   page_tokens c = page_tokens d \<and> page_count c = page_count d \<and> token_capacity c = token_capacity d"
  by (auto simp: config_of_def)

lemma token_page_less:
  assumes "kv_shape c" "t < token_capacity c"
  shows "t div page_tokens c < page_count c"
proof -
  let ?n = "page_tokens c"
  have n: "0 < ?n" and pc: "page_count c = (token_capacity c + (?n - 1)) div ?n"
    using assms(1) by (simp_all add: kv_shape_def)
  have "t + ?n \<le> token_capacity c + (?n - 1)" using assms(2) n by simp
  then have "(t + ?n) div ?n \<le> page_count c" unfolding pc by (rule div_le_mono)
  moreover have "(t + ?n) div ?n = t div ?n + 1" by (rule div_add_self2) (use n in simp)
  ultimately show ?thesis by simp
qed

section \<open>The stored rows\<close>

text \<open>What a cache stores: for each layer the committed tokens, each a list of key/value rows, one per head.\<close>

definition key_row :: "kv_cache \<Rightarrow> nat \<Rightarrow> nat \<Rightarrow> nat \<Rightarrow> f32 list" where
  "key_row c l t h = slice (pg_keys (the (pages c ! l ! (t div page_tokens c)))) (key_offset c t h) (key_dimension c)"

definition value_row :: "kv_cache \<Rightarrow> nat \<Rightarrow> nat \<Rightarrow> nat \<Rightarrow> f32 list" where
  "value_row c l t h =
     slice (pg_values (the (pages c ! l ! (t div page_tokens c)))) (value_offset c t h) (value_dimension c)"

definition token_rows :: "kv_cache \<Rightarrow> nat \<Rightarrow> nat \<Rightarrow> (f32 list \<times> f32 list) list" where
  "token_rows c l t = map (\<lambda>h. (key_row c l t h, value_row c l t h)) [0..<kv_head_count c]"

definition kv_abs :: "kv_cache \<Rightarrow> nat \<Rightarrow> (f32 list \<times> f32 list) list list" where
  "kv_abs c l = map (token_rows c l) [0..<lengths c ! l]"

text \<open>The rows of the flat arguments of an append.\<close>

definition input_rows :: "nat \<Rightarrow> nat \<Rightarrow> nat \<Rightarrow> f32 list \<Rightarrow> f32 list \<Rightarrow> nat \<Rightarrow> (f32 list \<times> f32 list) list" where
  "input_rows heads kdim vdim keys values t =
     map (\<lambda>h. (slice keys ((t * heads + h) * kdim) kdim, slice values ((t * heads + h) * vdim) vdim)) [0..<heads]"

lemma length_kv_abs [simp]: "length (kv_abs c l) = lengths c ! l"
  by (simp add: kv_abs_def)

lemma page_at_backed:
  "backed c l t \<Longrightarrow> page_at c l t = Inr (the (pages c ! l ! (t div page_tokens c)))"
  by (auto simp: page_at_def backed_def)

lemma backed_page_ok:
  assumes "kv_shape c" "l < layer_count c" "t < token_capacity c" "backed c l t"
  shows "page_ok c (the (pages c ! l ! (t div page_tokens c)))"
  using assms token_page_less [OF assms(1,3)] by (auto simp: kv_shape_def backed_def)

lemma page_slot_bounds:
  assumes "kv_shape c" "page_ok c p" "h < kv_head_count c"
  shows "key_offset c t h + key_dimension c \<le> length (pg_keys p)"
    "value_offset c t h + value_dimension c \<le> length (pg_values p)"
proof -
  have m: "t mod page_tokens c < page_tokens c" using assms(1) by (simp add: kv_shape_def)
  from row_index_less [OF m assms(3), of "key_dimension c"]
    row_index_less [OF m assms(3), of "value_dimension c"] assms(2)
  show "key_offset c t h + key_dimension c \<le> length (pg_keys p)"
    "value_offset c t h + value_dimension c \<le> length (pg_values p)"
    by (simp_all add: page_ok_def key_offset_def value_offset_def)
qed

lemma kv_inv_backed: "kv_inv c \<Longrightarrow> l < layer_count c \<Longrightarrow> t < lengths c ! l \<Longrightarrow> backed c l t"
  by (simp add: kv_inv_def)

lemma kv_inv_length: "kv_inv c \<Longrightarrow> l < layer_count c \<Longrightarrow> lengths c ! l \<le> token_capacity c"
  by (simp add: kv_inv_def)

lemma kv_inv_shape: "kv_inv c \<Longrightarrow> kv_shape c"
  by (simp add: kv_inv_def)

lemma kv_key_eq:
  assumes "kv_inv c"
  shows "kv_key c l t h = (if layer_count c \<le> l then Inl (LayerOutOfRange l (layer_count c))
      else if lengths c ! l \<le> t then Inl (TokenOutOfRange t (lengths c ! l))
      else if kv_head_count c \<le> h then Inl (HeadOutOfRange h (kv_head_count c))
      else Inr (fst (kv_abs c l ! t ! h)))"
  using kv_inv_backed [OF assms]
  by (simp add: kv_key_def validate_indices_def validate_layer_def page_at_backed kv_abs_def
      token_rows_def key_row_def check_def)

lemma kv_value_eq:
  assumes "kv_inv c"
  shows "kv_value c l t h = (if layer_count c \<le> l then Inl (LayerOutOfRange l (layer_count c))
      else if lengths c ! l \<le> t then Inl (TokenOutOfRange t (lengths c ! l))
      else if kv_head_count c \<le> h then Inl (HeadOutOfRange h (kv_head_count c))
      else Inr (snd (kv_abs c l ! t ! h)))"
  using kv_inv_backed [OF assms]
  by (simp add: kv_value_def validate_indices_def validate_layer_def page_at_backed kv_abs_def
      token_rows_def value_row_def check_def)

lemma kv_row_widths:
  assumes "kv_inv c" "l < layer_count c" "t < lengths c ! l" "h < kv_head_count c"
  shows "length (fst (kv_abs c l ! t ! h)) = key_dimension c"
    "length (snd (kv_abs c l ! t ! h)) = value_dimension c"
proof -
  have "t < token_capacity c" using kv_inv_length [OF assms(1,2)] assms(3) by simp
  then have p: "page_ok c (the (pages c ! l ! (t div page_tokens c)))"
    using assms by (intro backed_page_ok) (auto simp: kv_inv_def)
  from page_slot_bounds [OF kv_inv_shape [OF assms(1)] p assms(4), of t]
  show "length (fst (kv_abs c l ! t ! h)) = key_dimension c"
    "length (snd (kv_abs c l ! t ! h)) = value_dimension c"
    using assms by (simp_all add: kv_abs_def token_rows_def key_row_def value_row_def slice_def)
qed

section \<open>Writing pages\<close>

lemma config_set_page [simp]: "config_of (set_page c l p pg) = config_of c"
  by (simp add: config_of_def set_page_def)

lemma set_page_fields [simp]:
  "layer_count (set_page c l p pg) = layer_count c" "kv_head_count (set_page c l p pg) = kv_head_count c"
  "key_dimension (set_page c l p pg) = key_dimension c" "value_dimension (set_page c l p pg) = value_dimension c"
  "page_tokens (set_page c l p pg) = page_tokens c" "page_count (set_page c l p pg) = page_count c"
  "token_capacity (set_page c l p pg) = token_capacity c" "lengths (set_page c l p pg) = lengths c"
  by (simp_all add: set_page_def)

lemma pages_set_page:
  assumes "kv_shape c" "l < layer_count c" "p < page_count c" "l' < layer_count c" "p' < page_count c"
  shows "pages (set_page c l p pg) ! l' ! p' = (if l' = l \<and> p' = p then Some pg else pages c ! l' ! p')"
  using assms by (auto simp: set_page_def kv_shape_def nth_list_update)

lemma set_page_shape:
  assumes "kv_shape c" "l < layer_count c" "p < page_count c" "page_ok c pg"
  shows "kv_shape (set_page c l p pg)"
proof -
  have "page_ok (set_page c l p pg) = page_ok c" by (rule ext) (simp add: page_ok_def)
  moreover have "length (pages (set_page c l p pg)) = layer_count c"
    "\<And>l'. l' < layer_count c \<Longrightarrow> length (pages (set_page c l p pg) ! l') = page_count c"
    using assms by (auto simp: set_page_def kv_shape_def nth_list_update)
  ultimately show ?thesis
    using assms by (auto simp: kv_shape_def pages_set_page [OF assms(1-3)] split: if_splits)
qed

lemma backed_set_page:
  assumes "kv_shape c" "l < layer_count c" "p < page_count c" "l' < layer_count c" "t < token_capacity c"
  shows "backed (set_page c l p pg) l' t \<longleftrightarrow> (l' = l \<and> t div page_tokens c = p) \<or> backed c l' t"
  using pages_set_page [OF assms(1-4) token_page_less [OF assms(1,5)], of pg] by (auto simp: backed_def)

definition splice_keys :: "kv_cache \<Rightarrow> nat \<Rightarrow> nat \<Rightarrow> nat \<Rightarrow> f32 list \<Rightarrow> kv_cache" where
  "splice_keys c l t h row = (let page = the (pages c ! l ! (t div page_tokens c)) in
     set_page c l (t div page_tokens c) (page\<lparr>pg_keys := splice (pg_keys page) (key_offset c t h) row\<rparr>))"

definition splice_values :: "kv_cache \<Rightarrow> nat \<Rightarrow> nat \<Rightarrow> nat \<Rightarrow> f32 list \<Rightarrow> kv_cache" where
  "splice_values c l t h row = (let page = the (pages c ! l ! (t div page_tokens c)) in
     set_page c l (t div page_tokens c) (page\<lparr>pg_values := splice (pg_values page) (value_offset c t h) row\<rparr>))"

lemma write_key_backed: "backed c l t \<Longrightarrow> write_key c l t h row = (Inr (), splice_keys c l t h row)"
  by (simp add: write_key_def page_at_backed splice_keys_def Let_def)

lemma write_value_backed: "backed c l t \<Longrightarrow> write_value c l t h row = (Inr (), splice_values c l t h row)"
  by (simp add: write_value_def page_at_backed splice_values_def Let_def)

lemma splice_fields [simp]:
  "layer_count (splice_keys c l t h row) = layer_count c" "layer_count (splice_values c l t h row) = layer_count c"
  "kv_head_count (splice_keys c l t h row) = kv_head_count c" "kv_head_count (splice_values c l t h row) = kv_head_count c"
  "key_dimension (splice_keys c l t h row) = key_dimension c" "key_dimension (splice_values c l t h row) = key_dimension c"
  "value_dimension (splice_keys c l t h row) = value_dimension c" "value_dimension (splice_values c l t h row) = value_dimension c"
  "page_tokens (splice_keys c l t h row) = page_tokens c" "page_tokens (splice_values c l t h row) = page_tokens c"
  "page_count (splice_keys c l t h row) = page_count c" "page_count (splice_values c l t h row) = page_count c"
  "token_capacity (splice_keys c l t h row) = token_capacity c" "token_capacity (splice_values c l t h row) = token_capacity c"
  "lengths (splice_keys c l t h row) = lengths c" "lengths (splice_values c l t h row) = lengths c"
  by (simp_all add: splice_keys_def splice_values_def Let_def)

lemma slot_eq_iff:
  assumes "kv_shape c" "h < kv_head_count c" "h' < kv_head_count c" "t div page_tokens c = t' div page_tokens c"
  shows "(t mod page_tokens c) * kv_head_count c + h = (t' mod page_tokens c) * kv_head_count c + h' \<longleftrightarrow>
    t = t' \<and> h = h'"
  using row_index_inject [OF _ assms(2,3)] assms(4) by (metis div_mult_mod_eq)

lemma splice_keys_effect:
  assumes "kv_shape c" "l < layer_count c" "t < token_capacity c" "h < kv_head_count c" "backed c l t"
    and "length row = key_dimension c"
  shows "kv_shape (splice_keys c l t h row)"
    and "l' < layer_count c \<Longrightarrow> t' < token_capacity c \<Longrightarrow>
      backed (splice_keys c l t h row) l' t' \<longleftrightarrow> backed c l' t'"
    and "l' < layer_count c \<Longrightarrow> t' < token_capacity c \<Longrightarrow> h' < kv_head_count c \<Longrightarrow>
      key_row (splice_keys c l t h row) l' t' h' =
        (if l' = l \<and> t' = t \<and> h' = h then row else key_row c l' t' h') \<and>
      value_row (splice_keys c l t h row) l' t' h' = value_row c l' t' h'"
proof -
  let ?p = "t div page_tokens c" and ?pg = "the (pages c ! l ! (t div page_tokens c))"
  let ?pg' = "?pg\<lparr>pg_keys := splice (pg_keys ?pg) (key_offset c t h) row\<rparr>"
  have p: "?p < page_count c" using assms by (intro token_page_less)
  have ok: "page_ok c ?pg" using assms by (intro backed_page_ok)
  note bound = page_slot_bounds(1) [OF assms(1) ok assms(4), of t]
  have ok': "page_ok c ?pg'" using ok bound assms(6) by (simp add: page_ok_def length_splice)
  have d: "splice_keys c l t h row = set_page c l ?p ?pg'" by (simp add: splice_keys_def Let_def)
  show "kv_shape (splice_keys c l t h row)" unfolding d by (rule set_page_shape [OF assms(1,2) p ok'])
  show "l' < layer_count c \<Longrightarrow> t' < token_capacity c \<Longrightarrow>
      backed (splice_keys c l t h row) l' t' \<longleftrightarrow> backed c l' t'"
    unfolding d using backed_set_page [OF assms(1,2) p] assms(5) by (auto simp: backed_def)
  assume x: "l' < layer_count c" "t' < token_capacity c" "h' < kv_head_count c"
  let ?i = "(t mod page_tokens c) * kv_head_count c + h"
    and ?j = "(t' mod page_tokens c) * kv_head_count c + h'"
  note pg = pages_set_page [OF assms(1,2) p x(1) token_page_less [OF assms(1) x(2)], of ?pg']
  show "key_row (splice_keys c l t h row) l' t' h' =
        (if l' = l \<and> t' = t \<and> h' = h then row else key_row c l' t' h') \<and>
      value_row (splice_keys c l t h row) l' t' h' = value_row c l' t' h'"
  proof (cases "l' = l \<and> t' div page_tokens c = ?p")
    case True
    have a: "slice (splice (pg_keys ?pg) (?i * key_dimension c) row) (?j * key_dimension c) (key_dimension c) =
        (if ?i = ?j then row else slice (pg_keys ?pg) (?j * key_dimension c) (key_dimension c))"
      using bound assms(6) by (intro slice_splice_row) (simp_all add: key_offset_def)
    have b: "?i = ?j \<longleftrightarrow> t = t' \<and> h = h'" using True x by (intro slot_eq_iff) (auto simp: assms)
    have "pages (splice_keys c l t h row) ! l' ! (t' div page_tokens c) = Some ?pg'"
      using True pg unfolding d by simp
    then have k: "key_row (splice_keys c l t h row) l' t' h' =
        slice (splice (pg_keys ?pg) (?i * key_dimension c) row) (?j * key_dimension c) (key_dimension c)"
      "value_row (splice_keys c l t h row) l' t' h' = value_row c l' t' h'"
      using True by (simp_all add: key_row_def value_row_def key_offset_def value_offset_def)
    have r: "key_row c l' t' h' = slice (pg_keys ?pg) (?j * key_dimension c) (key_dimension c)"
      using True by (simp add: key_row_def key_offset_def)
    have "key_row (splice_keys c l t h row) l' t' h' = (if t = t' \<and> h = h' then row else key_row c l' t' h')"
      unfolding k a b r ..
    with k(2) conjunct1 [OF True] show ?thesis by auto
  next
    case False
    then have "pages (splice_keys c l t h row) ! l' ! (t' div page_tokens c) = pages c ! l' ! (t' div page_tokens c)"
      using pg unfolding d by auto
    then show ?thesis using False by (auto simp: key_row_def value_row_def key_offset_def value_offset_def)
  qed
qed

lemma splice_values_effect:
  assumes "kv_shape c" "l < layer_count c" "t < token_capacity c" "h < kv_head_count c" "backed c l t"
    and "length row = value_dimension c"
  shows "kv_shape (splice_values c l t h row)"
    and "l' < layer_count c \<Longrightarrow> t' < token_capacity c \<Longrightarrow>
      backed (splice_values c l t h row) l' t' \<longleftrightarrow> backed c l' t'"
    and "l' < layer_count c \<Longrightarrow> t' < token_capacity c \<Longrightarrow> h' < kv_head_count c \<Longrightarrow>
      value_row (splice_values c l t h row) l' t' h' =
        (if l' = l \<and> t' = t \<and> h' = h then row else value_row c l' t' h') \<and>
      key_row (splice_values c l t h row) l' t' h' = key_row c l' t' h'"
proof -
  let ?p = "t div page_tokens c" and ?pg = "the (pages c ! l ! (t div page_tokens c))"
  let ?pg' = "?pg\<lparr>pg_values := splice (pg_values ?pg) (value_offset c t h) row\<rparr>"
  have p: "?p < page_count c" using assms by (intro token_page_less)
  have ok: "page_ok c ?pg" using assms by (intro backed_page_ok)
  note bound = page_slot_bounds(2) [OF assms(1) ok assms(4), of t]
  have ok': "page_ok c ?pg'" using ok bound assms(6) by (simp add: page_ok_def length_splice)
  have d: "splice_values c l t h row = set_page c l ?p ?pg'" by (simp add: splice_values_def Let_def)
  show "kv_shape (splice_values c l t h row)" unfolding d by (rule set_page_shape [OF assms(1,2) p ok'])
  show "l' < layer_count c \<Longrightarrow> t' < token_capacity c \<Longrightarrow>
      backed (splice_values c l t h row) l' t' \<longleftrightarrow> backed c l' t'"
    unfolding d using backed_set_page [OF assms(1,2) p] assms(5) by (auto simp: backed_def)
  assume x: "l' < layer_count c" "t' < token_capacity c" "h' < kv_head_count c"
  let ?i = "(t mod page_tokens c) * kv_head_count c + h"
    and ?j = "(t' mod page_tokens c) * kv_head_count c + h'"
  note pg = pages_set_page [OF assms(1,2) p x(1) token_page_less [OF assms(1) x(2)], of ?pg']
  show "value_row (splice_values c l t h row) l' t' h' =
        (if l' = l \<and> t' = t \<and> h' = h then row else value_row c l' t' h') \<and>
      key_row (splice_values c l t h row) l' t' h' = key_row c l' t' h'"
  proof (cases "l' = l \<and> t' div page_tokens c = ?p")
    case True
    have a: "slice (splice (pg_values ?pg) (?i * value_dimension c) row) (?j * value_dimension c) (value_dimension c) =
        (if ?i = ?j then row else slice (pg_values ?pg) (?j * value_dimension c) (value_dimension c))"
      using bound assms(6) by (intro slice_splice_row) (simp_all add: value_offset_def)
    have b: "?i = ?j \<longleftrightarrow> t = t' \<and> h = h'" using True x by (intro slot_eq_iff) (auto simp: assms)
    have "pages (splice_values c l t h row) ! l' ! (t' div page_tokens c) = Some ?pg'"
      using True pg unfolding d by simp
    then have k: "value_row (splice_values c l t h row) l' t' h' =
        slice (splice (pg_values ?pg) (?i * value_dimension c) row) (?j * value_dimension c) (value_dimension c)"
      "key_row (splice_values c l t h row) l' t' h' = key_row c l' t' h'"
      using True by (simp_all add: key_row_def value_row_def key_offset_def value_offset_def)
    have r: "value_row c l' t' h' = slice (pg_values ?pg) (?j * value_dimension c) (value_dimension c)"
      using True by (simp add: value_row_def value_offset_def)
    have "value_row (splice_values c l t h row) l' t' h' = (if t = t' \<and> h = h' then row else value_row c l' t' h')"
      unfolding k a b r ..
    with k(2) conjunct1 [OF True] show ?thesis by auto
  next
    case False
    then have "pages (splice_values c l t h row) ! l' ! (t' div page_tokens c) = pages c ! l' ! (t' div page_tokens c)"
      using pg unfolding d by auto
    then show ?thesis using False by (auto simp: key_row_def value_row_def key_offset_def value_offset_def)
  qed
qed

end
