(* ===== verification/Kv_Append.thy ===== *)
theory Kv_Append
  imports Kv_Cache
begin

text \<open>
  Correctness of the cache operations of \<^verbatim>\<open>Kv_Cache\<close> against the abstract cache: per layer a
  list of tokens, each a list of key/value rows. First the effect of the copy loop and of the page
  allocation, then the properties of the operations.
\<close>

section \<open>The copy loop\<close>

text \<open>A row of the flat arguments of an append, by token offset and head.\<close>

definition source_key :: "kv_cache \<Rightarrow> f32 list \<Rightarrow> nat \<Rightarrow> nat \<Rightarrow> f32 list" where
  "source_key c keys t h = slice keys ((t * kv_head_count c + h) * key_dimension c) (key_dimension c)"

definition source_value :: "kv_cache \<Rightarrow> f32 list \<Rightarrow> nat \<Rightarrow> nat \<Rightarrow> f32 list" where
  "source_value c values t h = slice values ((t * kv_head_count c + h) * value_dimension c) (value_dimension c)"

definition source_ok :: "kv_cache \<Rightarrow> f32 list \<Rightarrow> f32 list \<Rightarrow> nat \<times> nat \<Rightarrow> bool" where
  "source_ok c keys values th \<longleftrightarrow>
     length (source_key c keys (fst th) (snd th)) = key_dimension c \<and>
     length (source_value c values (fst th) (snd th)) = value_dimension c"

definition target_ok :: "kv_cache \<Rightarrow> nat \<Rightarrow> nat \<Rightarrow> nat \<times> nat \<Rightarrow> bool" where
  "target_ok c l stored th \<longleftrightarrow> snd th < kv_head_count c \<and> stored + fst th < token_capacity c \<and>
     backed c l (stored + fst th)"

text \<open>\<open>d\<close> is \<open>c\<close> with the rows of \<open>W\<close> (token offset, head) of one layer overwritten.\<close>

definition copied ::
  "nat \<Rightarrow> nat \<Rightarrow> f32 list \<Rightarrow> f32 list \<Rightarrow> (nat \<times> nat) set \<Rightarrow> kv_cache \<Rightarrow> kv_cache \<Rightarrow> bool" where
  "copied l stored keys values W c d \<longleftrightarrow>
     config_of d = config_of c \<and> lengths d = lengths c \<and> kv_shape d \<and>
     (\<forall>l' t'. l' < layer_count c \<longrightarrow> t' < token_capacity c \<longrightarrow> backed d l' t' = backed c l' t') \<and>
     (\<forall>l' t' h'. l' < layer_count c \<longrightarrow> t' < token_capacity c \<longrightarrow> h' < kv_head_count c \<longrightarrow>
        key_row d l' t' h' = (if l' = l \<and> stored \<le> t' \<and> (t' - stored, h') \<in> W
          then source_key c keys (t' - stored) h' else key_row c l' t' h') \<and>
        value_row d l' t' h' = (if l' = l \<and> stored \<le> t' \<and> (t' - stored, h') \<in> W
          then source_value c values (t' - stored) h' else value_row c l' t' h'))"

lemma config_source:
  "config_of d = config_of c \<Longrightarrow> source_key d = source_key c \<and> source_value d = source_value c"
  by (intro conjI ext) (simp_all add: source_key_def source_value_def config_of_eq)

lemma copied_refl: "kv_shape c \<Longrightarrow> copied l stored keys values {} c c"
  by (simp add: copied_def)

lemma copied_trans:
  assumes "copied l stored keys values V c d" "copied l stored keys values W d e"
  shows "copied l stored keys values (V \<union> W) c e"
  using assms config_source [of d c] by (auto simp: copied_def config_of_eq)

lemma copied_config: "copied l stored keys values W c d \<Longrightarrow> config_of d = config_of c"
  by (simp add: copied_def)

lemma copied_row:
  "copied l stored keys values W c d \<Longrightarrow> l' < layer_count c \<Longrightarrow> t' < token_capacity c \<Longrightarrow>
   h' < kv_head_count c \<Longrightarrow>
     key_row d l' t' h' = (if l' = l \<and> stored \<le> t' \<and> (t' - stored, h') \<in> W
       then source_key c keys (t' - stored) h' else key_row c l' t' h') \<and>
     value_row d l' t' h' = (if l' = l \<and> stored \<le> t' \<and> (t' - stored, h') \<in> W
       then source_value c values (t' - stored) h' else value_row c l' t' h')"
  by (simp add: copied_def)

lemma config_splice [simp]:
  "config_of (splice_keys c l t h row) = config_of c" "config_of (splice_values c l t h row) = config_of c"
  by (simp_all add: config_of_def)

lemma copy_row_effect:
  assumes shape: "kv_shape c" and l: "l < layer_count c" and t: "target_ok c l stored th"
    and s: "source_ok c keys values th"
  obtains d where "copy_row l stored keys values th c = (Inr (), d)" "copied l stored keys values {th} c d"
proof -
  obtain a h where th: "th = (a, h)" by fastforce
  let ?k = "source_key c keys a h" and ?v = "source_value c values a h" and ?t = "stored + a"
  let ?c1 = "splice_keys c l ?t h ?k"
  let ?c2 = "splice_values ?c1 l ?t h ?v"
  have b: "?t < token_capacity c" "h < kv_head_count c" "backed c l ?t" "length ?k = key_dimension c"
    "length ?v = value_dimension c"
    using t s by (simp_all add: target_ok_def source_ok_def th)
  note e1 = splice_keys_effect [OF shape l b(1,2,3,4)]
  have b1: "backed ?c1 l ?t" using e1(2) [OF l b(1)] b(3) by simp
  have "length ?v = value_dimension ?c1" using b(5) by simp
  note e2 = splice_values_effect [of ?c1 l ?t h ?v, simplified splice_fields, OF e1(1) l b(1,2) b1 b(5)]
  have "copy_row l stored keys values th c = (Inr (), ?c2)"
    using b(3) b1
    by (simp add: copy_row_def th Let_def write_key_backed write_value_backed source_key_def source_value_def)
  moreover have "copied l stored keys values {th} c ?c2"
    unfolding copied_def th using e1(2,3) e2 by auto
  ultimately show thesis by (rule that)
qed

lemma copied_preserves_ok:
  assumes "copied l stored keys values W c d" "l < layer_count c"
  shows "target_ok d l stored th = target_ok c l stored th"
    "source_ok d keys values th = source_ok c keys values th"
  using assms config_source [OF copied_config [OF assms(1)]]
  by (auto simp: copied_def target_ok_def source_ok_def config_of_eq)

lemma copy_rows_effect:
  assumes "kv_shape c" "l < layer_count c"
    and "\<forall>th \<in> set ths. target_ok c l stored th \<and> source_ok c keys values th"
  shows "\<exists>d. copy_rows l stored keys values ths c = (Inr (), d) \<and> copied l stored keys values (set ths) c d"
  using assms
proof (induction ths arbitrary: c)
  case Nil
  then show ?case by (simp add: copied_refl)
next
  case (Cons th ths)
  then obtain d where d: "copy_row l stored keys values th c = (Inr (), d)" "copied l stored keys values {th} c d"
    using copy_row_effect [of c l stored th keys "values"] by auto
  have "kv_shape d" "l < layer_count d"
    using d(2) Cons.prems(2) by (auto simp: copied_def config_of_eq)
  moreover have "\<forall>th \<in> set ths. target_ok d l stored th \<and> source_ok d keys values th"
    using Cons.prems(3) copied_preserves_ok [OF d(2) Cons.prems(2)] by simp
  ultimately obtain e where "copy_rows l stored keys values ths d = (Inr (), e)"
    "copied l stored keys values (set ths) d e"
    using Cons.IH by blast
  with d copied_trans [OF d(2)] show ?case by fastforce
qed

lemma set_row_indices: "set (row_indices n heads) = {..<n} \<times> {..<heads}"
  by (auto simp: row_indices_def)

section \<open>Page allocation\<close>

lemma page_new_ok:
  "page_new grant (page_tokens c) (kv_head_count c) (key_dimension c) (value_dimension c) = Inr p \<Longrightarrow> page_ok c p"
  by (auto simp: page_new_def rbind_Inr ok_or_Inr zeroed_vec_def page_ok_def bind_eq_Some_conv split: if_splits)

lemma list_all2_keyed:
  "list_all2 (\<lambda>p y. fst y = p \<and> P (snd y)) ps ys \<Longrightarrow> map fst ys = ps \<and> (\<forall>y \<in> set ys. P (snd y))"
  by (induction rule: list_all2_induct) auto

lemma install_pages:
  assumes "kv_shape c" "l < layer_count c" "\<forall>(p, pg) \<in> set xs. p < page_count c \<and> page_ok c pg"
    and "d = fold (\<lambda>(p, page) d. set_page d l p page) xs c"
  shows "config_of d = config_of c \<and> lengths d = lengths c \<and> kv_shape d \<and>
    (\<forall>l' p'. l' < layer_count c \<longrightarrow> p' < page_count c \<longrightarrow>
      (l' = l \<and> p' \<in> fst ` set xs \<longrightarrow> pages d ! l' ! p' \<noteq> None) \<and>
      (\<not> (l' = l \<and> p' \<in> fst ` set xs) \<longrightarrow> pages d ! l' ! p' = pages c ! l' ! p'))"
  using assms
proof (induction xs arbitrary: c)
  case Nil
  then show ?case by simp
next
  case (Cons x xs)
  obtain p pg where x: "x = (p, pg)" by fastforce
  let ?c = "set_page c l p pg"
  have p: "p < page_count c" "page_ok c pg" using Cons.prems(3) x by auto
  have ok: "page_ok ?c = page_ok c" by (rule ext) (simp add: page_ok_def)
  have "kv_shape ?c" by (rule set_page_shape [OF Cons.prems(1,2) p])
  moreover have "\<forall>(p, pg) \<in> set xs. p < page_count ?c \<and> page_ok ?c pg" using Cons.prems(3) ok by auto
  moreover have "d = fold (\<lambda>(p, page) d. set_page d l p page) xs ?c" using Cons.prems(4) x by simp
  ultimately have "config_of d = config_of ?c \<and> lengths d = lengths ?c \<and> kv_shape d \<and>
    (\<forall>l' p'. l' < layer_count ?c \<longrightarrow> p' < page_count ?c \<longrightarrow>
      (l' = l \<and> p' \<in> fst ` set xs \<longrightarrow> pages d ! l' ! p' \<noteq> None) \<and>
      (\<not> (l' = l \<and> p' \<in> fst ` set xs) \<longrightarrow> pages d ! l' ! p' = pages ?c ! l' ! p'))"
    using Cons.prems(2) by (intro Cons.IH) auto
  then have IH: "config_of d = config_of c \<and> lengths d = lengths c \<and> kv_shape d" and pages_d: "\<And>l' p'. l' < layer_count c \<Longrightarrow> p' < page_count c \<Longrightarrow>
      (l' = l \<and> p' \<in> fst ` set xs \<longrightarrow> pages d ! l' ! p' \<noteq> None) \<and>
      (\<not> (l' = l \<and> p' \<in> fst ` set xs) \<longrightarrow> pages d ! l' ! p' = pages ?c ! l' ! p')"
    by auto
  have "(l' = l \<and> p' \<in> fst ` set (x # xs) \<longrightarrow> pages d ! l' ! p' \<noteq> None) \<and>
      (\<not> (l' = l \<and> p' \<in> fst ` set (x # xs)) \<longrightarrow> pages d ! l' ! p' = pages c ! l' ! p')"
    if r: "l' < layer_count c" "p' < page_count c" for l' p'
    using pages_d [OF r] pages_set_page [OF Cons.prems(1,2) p(1) r, of pg]
    by (cases "l' = l \<and> p' \<in> fst ` set xs") (auto simp: x)
  with IH show ?case by simp
qed

text \<open>\<open>d\<close> is \<open>c\<close> with more pages: stored rows are untouched.\<close>

definition extended :: "kv_cache \<Rightarrow> kv_cache \<Rightarrow> bool" where
  "extended c d \<longleftrightarrow> config_of d = config_of c \<and> lengths d = lengths c \<and> kv_shape d \<and>
     (\<forall>l t. l < layer_count c \<longrightarrow> t < token_capacity c \<longrightarrow> backed c l t \<longrightarrow>
        backed d l t \<and> token_rows d l t = token_rows c l t)"

lemma token_rows_cong:
  assumes "config_of d = config_of c"
    and "\<And>h. h < kv_head_count c \<Longrightarrow> key_row d l t h = key_row c l t h \<and> value_row d l t h = value_row c l t h"
  shows "token_rows d l t = token_rows c l t"
  using assms by (auto simp: token_rows_def config_of_eq)

lemma rows_of_page:
  assumes "config_of d = config_of c" "pages d ! l ! (t div page_tokens c) = pages c ! l ! (t div page_tokens c)"
  shows "backed d l t = backed c l t" "token_rows d l t = token_rows c l t"
  using assms
  by (auto simp: backed_def token_rows_def key_row_def value_row_def key_offset_def value_offset_def config_of_eq)

lemma ensure_pages_effect:
  assumes shape: "kv_shape c" and l: "l < layer_count c" and r: "start < end" "end \<le> token_capacity c"
  shows "(\<exists>e. ensure_pages grant c l start end = (Inl e, c)) \<or>
    (\<exists>d. ensure_pages grant c l start end = (Inr (), d) \<and> extended c d \<and> (\<forall>t \<in> {start..<end}. backed d l t))"
proof -
  let ?missing = "filter (\<lambda>p. pages c ! l ! p = None) [start div page_tokens c..<Suc ((end - 1) div page_tokens c)]"
  let ?mk = "\<lambda>p. rbind (page_new (at_step grant p) (page_tokens c) (kv_head_count c) (key_dimension c) (value_dimension c))
    (\<lambda>page. Inr (p, page))"
  have in_range: "start div page_tokens c \<le> t div page_tokens c" "t div page_tokens c \<le> (end - 1) div page_tokens c"
    if "t \<in> {start..<end}" for t
    using that by (auto intro!: div_le_mono)
  have last: "(end - 1) div page_tokens c < page_count c"
    using r by (intro token_page_less shape) simp
  consider (none) "?missing = []" | (fail) "\<not> grant (''new KV pages'', []) (length ?missing)" "?missing \<noteq> []"
    | (err) e where "map_res ?mk ?missing = Inl e" "grant (''new KV pages'', []) (length ?missing)" "?missing \<noteq> []"
    | (ok) xs where "map_res ?mk ?missing = Inr xs" "grant (''new KV pages'', []) (length ?missing)" "?missing \<noteq> []"
    by (cases "map_res ?mk ?missing") blast+
  then show ?thesis
  proof cases
    case none
    then have "ensure_pages grant c l start end = (Inr (), c)" by (simp add: ensure_pages_def Let_def)
    moreover have "extended c c" using shape by (simp add: extended_def)
    moreover have "backed c l t" if t: "t \<in> {start..<end}" for t
    proof -
      have "t div page_tokens c \<in> set [start div page_tokens c..<Suc ((end - 1) div page_tokens c)]"
        using in_range [OF t] by (simp add: less_Suc_eq_le del: upt_Suc)
      with none show ?thesis unfolding backed_def filter_empty_conv by blast
    qed
    ultimately show ?thesis by blast
  next
    case fail
    then have "ensure_pages grant c l start end = (Inl (KvAllocationFailed ''new KV pages'' (length ?missing)), c)"
      by (simp add: ensure_pages_def Let_def)
    then show ?thesis by blast
  next
    case err
    then have "ensure_pages grant c l start end = (Inl e, c)" by (simp add: ensure_pages_def Let_def)
    then show ?thesis by blast
  next
    case ok
    let ?d = "fold (\<lambda>(p, page) d. set_page d l p page) xs c"
    have run: "ensure_pages grant c l start end = (Inr (), ?d)" using ok by (simp add: ensure_pages_def Let_def)
    have rel: "list_all2 (\<lambda>p y. ?mk p = Inr y) ?missing xs" using ok(1) by (simp add: map_res_Inr)
    have "list_all2 (\<lambda>p y. fst y = p \<and> page_ok c (snd y)) ?missing xs"
      by (rule list.rel_mono_strong [OF rel]) (use page_new_ok in \<open>auto simp: rbind_Inr\<close>)
    note keyed = list_all2_keyed [OF this]
    then have fsts: "map fst xs = ?missing" and "\<forall>(p, pg) \<in> set xs. page_ok c pg" by auto
    have fst_set: "fst ` set xs = set ?missing" unfolding fsts [symmetric] by simp
    have small: "\<forall>p \<in> set ?missing. p < page_count c" using last by auto
    have "fst y < page_count c" if "y \<in> set xs" for y
      using small fst_set imageI [OF that, of fst] by blast
    with \<open>\<forall>(p, pg) \<in> set xs. page_ok c pg\<close>
    have "\<forall>(p, pg) \<in> set xs. p < page_count c \<and> page_ok c pg" by fastforce
    note eff = install_pages [OF shape l this refl]
    have "backed ?d l' t \<and> token_rows ?d l' t = token_rows c l' t"
      if "l' < layer_count c" "t < token_capacity c" "backed c l' t" for l' t
    proof -
      have "t div page_tokens c \<notin> set ?missing \<or> l' \<noteq> l" using that(3) by (auto simp: backed_def)
      then have "pages ?d ! l' ! (t div page_tokens c) = pages c ! l' ! (t div page_tokens c)"
        using eff that(1) token_page_less [OF shape that(2)] fst_set by metis
      then show ?thesis using rows_of_page [of ?d c l' t] eff that(3) by blast
    qed
    then have "extended c ?d" using eff by (auto simp: extended_def)
    moreover have "backed ?d l t" if t: "t \<in> {start..<end}" for t
    proof -
      have tp: "t div page_tokens c < page_count c" using in_range [OF t] last by linarith
      have "page_tokens ?d = page_tokens c" using eff by (simp add: config_of_eq)
      moreover have "pages ?d ! l ! (t div page_tokens c) \<noteq> None"
      proof (cases "pages c ! l ! (t div page_tokens c) = None")
        case True
        then have "t div page_tokens c \<in> fst ` set xs"
          using in_range [OF t] unfolding fst_set by (simp add: less_Suc_eq_le del: upt_Suc)
        then show ?thesis using eff l tp by simp
      next
        case False
        then have "t div page_tokens c \<notin> fst ` set xs" using fst_set by simp
        then show ?thesis using eff l tp False by simp
      qed
      ultimately show ?thesis by (simp add: backed_def)
    qed
    ultimately show ?thesis using run by blast
  qed
qed

section \<open>Appending\<close>

lemma validate_finite_from_Inr:
  "validate_finite_from field i xs = Inr () \<longleftrightarrow> list_all f32_is_finite xs"
  by (induction xs arbitrary: i) simp_all

text \<open>The guard of an append: the exact condition under which no validation error is raised.\<close>

definition append_ok :: "kv_cache \<Rightarrow> nat \<Rightarrow> nat \<Rightarrow> f32 list \<Rightarrow> f32 list \<Rightarrow> bool" where
  "append_ok c layer n keys values \<longleftrightarrow> layer < layer_count c \<and> n \<noteq> 0 \<and>
     length keys = n * (kv_head_count c * key_dimension c) \<and>
     length values = n * (kv_head_count c * value_dimension c) \<and>
     list_all f32_is_finite keys \<and> list_all f32_is_finite values \<and>
     lengths c ! layer + n \<le> token_capacity c"

lemma append_check_iff:
  assumes "kv_shape c" "length keys < u64_limit" "length values < u64_limit"
  shows "append_check c layer n keys values = Inr m \<longleftrightarrow>
    append_ok c layer n keys values \<and> m = lengths c ! layer + n"
proof
  assume "append_check c layer n keys values = Inr m"
  then show "append_ok c layer n keys values \<and> m = lengths c ! layer + n"
    by (auto simp: append_check_def append_ok_def rbind_Inr check_Inr ok_or_Inr require_length_def
        validate_layer_def validate_finite_def validate_finite_from_Inr split: if_splits)
next
  assume ok: "append_ok c layer n keys values \<and> m = lengths c ! layer + n"
  have le: "k \<le> n * k" for k using ok by (simp add: append_ok_def)
  have "kv_head_count c * key_dimension c < u64_limit" "kv_head_count c * value_dimension c < u64_limit"
    using le_less_trans [OF le [of "kv_head_count c * key_dimension c"]]
      le_less_trans [OF le [of "kv_head_count c * value_dimension c"]] ok assms(2,3)
    by (auto simp: append_ok_def)
  moreover have "lengths c ! layer + n < u64_limit"
    using ok assms(1) by (simp add: append_ok_def kv_shape_def)
  ultimately show "append_check c layer n keys values = Inr m"
    using ok assms(2,3)
    by (simp add: append_check_def append_ok_def require_length_def validate_layer_def validate_finite_def
        validate_finite_from_Inr [THEN iffD2] checked_mul_def checked_add_def)
qed

lemma append_check_ok:
  assumes "append_check c layer n keys values = Inr m"
  shows "append_ok c layer n keys values" "m = lengths c ! layer + n"
  using assms
  by (auto simp: append_check_def append_ok_def rbind_Inr check_Inr ok_or_Inr require_length_def
      validate_layer_def validate_finite_def validate_finite_from_Inr split: if_splits)

lemma source_rows_ok:
  assumes "append_ok c layer n keys values" "t < n" "h < kv_head_count c"
  shows "source_ok c keys values (t, h)"
  using row_index_less [OF assms(2,3), of "key_dimension c"] row_index_less [OF assms(2,3), of "value_dimension c"] assms(1)
  by (simp add: source_ok_def source_key_def source_value_def slice_def append_ok_def mult.assoc)

lemma extended_inv:
  assumes "extended c d" "kv_inv c"
  shows "kv_inv d" "\<And>l. l < layer_count c \<Longrightarrow> kv_abs d l = kv_abs c l"
proof -
  have cfg: "config_of d = config_of c" "lengths d = lengths c" "kv_shape d" using assms(1) by (auto simp: extended_def)
  have t: "t < token_capacity c" if "l < layer_count c" "t < lengths c ! l" for l t
    using kv_inv_length [OF assms(2) that(1)] that(2) by simp
  show "kv_inv d" using assms t cfg unfolding kv_inv_def extended_def config_of_eq by auto
  show "kv_abs d l = kv_abs c l" if "l < layer_count c" for l
    using assms t [OF that] cfg(2) that by (auto simp: kv_abs_def extended_def kv_inv_backed)
qed

text \<open>Writing the rows behind the committed prefix and then committing the new length.\<close>

lemma commit_effect:
  assumes inv: "kv_inv c" and ok: "append_ok c l n keys values"
    and backed: "\<forall>t \<in> {lengths c ! l..<lengths c ! l + n}. backed c l t"
    and cp: "copied l (lengths c ! l) keys values ({..<n} \<times> {..<kv_head_count c}) c d"
    and e: "e = d\<lparr>lengths := (lengths d)[l := lengths c ! l + n]\<rparr>"
  shows "kv_inv e" "config_of e = config_of c"
    "kv_abs e l = kv_abs c l @
       map (input_rows (kv_head_count c) (key_dimension c) (value_dimension c) keys values) [0..<n]"
    "\<And>l'. l' < layer_count c \<Longrightarrow> l' \<noteq> l \<Longrightarrow> kv_abs e l' = kv_abs c l'"
proof -
  let ?s = "lengths c ! l"
  have l: "l < layer_count c" and cap: "?s + n \<le> token_capacity c" using ok by (auto simp: append_ok_def)
  have len: "length (lengths c) = layer_count c" using inv by (simp add: kv_inv_def kv_shape_def)
  have cfg: "config_of d = config_of c" "lengths d = lengths c" "kv_shape d" using cp by (auto simp: copied_def)
  show ce: "config_of e = config_of c" using cfg e by (simp add: config_of_def)
  have rows: "token_rows e = token_rows d" and be: "backed e = backed d"
    by (intro ext; simp add: e token_rows_def key_row_def value_row_def key_offset_def value_offset_def backed_def)+
  have bd: "backed d l' t = backed c l' t" if "l' < layer_count c" "t < token_capacity c" for l' t
    using cp that by (simp add: copied_def)
  have se: "kv_shape e"
    using cfg(3) unfolding e kv_shape_def page_ok_def by simp
  have le: "lengths e ! l' = (if l' = l then ?s + n else lengths c ! l')" if "l' < layer_count c" for l'
    using that len by (simp add: e cfg nth_list_update)
  have small: "t < token_capacity c" if "l' < layer_count c" "t < lengths c ! l'" for l' t
    using kv_inv_length [OF inv that(1)] that(2) by simp
  show "kv_inv e"
    unfolding kv_inv_def
  proof (intro conjI allI impI)
    show "kv_shape e" by (rule se)
    fix l' assume "l' < layer_count e"
    then have l': "l' < layer_count c" using ce by (simp add: config_of_eq)
    show "lengths e ! l' \<le> token_capacity e"
      using le [OF l'] cap kv_inv_length [OF inv l'] ce by (simp add: config_of_eq)
    fix t assume "t < lengths e ! l'"
    then have "backed c l' t \<and> t < token_capacity c"
      using le [OF l'] backed cap kv_inv_backed [OF inv l'] small [OF l'] by (cases "t < lengths c ! l'") (auto split: if_splits)
    then show "backed e l' t" using be bd l' by simp
  qed
  have keep: "token_rows d l' t = token_rows c l' t"
    if "l' < layer_count c" "t < token_capacity c" "l' \<noteq> l \<or> t < ?s" for l' t
    using cp that by (intro token_rows_cong [OF cfg(1)]) (auto simp: copied_def)
  show "kv_abs e l' = kv_abs c l'" if "l' < layer_count c" "l' \<noteq> l" for l'
    using that keep small by (simp add: kv_abs_def rows le)
  have new: "token_rows d l (?s + t) = input_rows (kv_head_count c) (key_dimension c) (value_dimension c) keys values t"
    if t: "t < n" for t
  proof -
    have "key_row d l (?s + t) h = source_key c keys t h \<and> value_row d l (?s + t) h = source_value c values t h"
      if "h < kv_head_count c" for h
      using copied_row [OF cp l _ that, of "?s + t"] t cap that by simp
    then show ?thesis
      using cfg(1) by (simp add: token_rows_def input_rows_def source_key_def source_value_def config_of_eq)
  qed
  have "[0..<?s + n] = [0..<?s] @ map (\<lambda>t. ?s + t) [0..<n]"
    using upt_add_eq_append [of 0 ?s n] map_add_upt [of ?s n] by (simp add: add.commute)
  then have "kv_abs e l = map (token_rows d l) [0..<?s] @ map (\<lambda>t. token_rows d l (?s + t)) [0..<n]"
    using l by (simp add: kv_abs_def rows le comp_def)
  also have "map (token_rows d l) [0..<?s] = kv_abs c l"
    using l keep small by (simp add: kv_abs_def)
  also have "map (\<lambda>t. token_rows d l (?s + t)) [0..<n] =
      map (input_rows (kv_head_count c) (key_dimension c) (value_dimension c) keys values) [0..<n]"
    using new by simp
  finally show "kv_abs e l = kv_abs c l @
      map (input_rows (kv_head_count c) (key_dimension c) (value_dimension c) keys values) [0..<n]" .
qed


text \<open>Every outcome of an append.\<close>

lemma append_tokens_cases:
  assumes inv: "kv_inv c"
  obtains (error) e where "append_tokens grant c l n keys values = (Inl e, c)"
      "append_check c l n keys values = Inl e \<or>
       append_check c l n keys values = Inr (lengths c ! l + n) \<and>
       fst (ensure_pages grant c l (lengths c ! l) (lengths c ! l + n)) = Inl e"
  | (ok) d where "append_tokens grant c l n keys values = (Inr (), d)" "append_ok c l n keys values"
      "kv_inv d" "config_of d = config_of c"
      "kv_abs d l = kv_abs c l @
         map (input_rows (kv_head_count c) (key_dimension c) (value_dimension c) keys values) [0..<n]"
      "\<And>l'. l' < layer_count c \<Longrightarrow> l' \<noteq> l \<Longrightarrow> kv_abs d l' = kv_abs c l'"
proof (cases "append_check c l n keys values")
  case (Inl e)
  then show ?thesis by (intro error) (simp_all add: append_tokens_def)
next
  case (Inr m)
  have guard: "append_ok c l n keys values" and m: "m = lengths c ! l + n" using append_check_ok [OF Inr] by auto
  have l: "l < layer_count c" and n: "lengths c ! l < m" "m \<le> token_capacity c" using guard m by (auto simp: append_ok_def)
  from ensure_pages_effect [OF kv_inv_shape [OF inv] l n, of grant] show ?thesis
  proof (elim disjE exE conjE)
    fix e assume "ensure_pages grant c l (lengths c ! l) m = (Inl e, c)"
    then show ?thesis using Inr m by (intro error) (simp_all add: append_tokens_def Let_def)
  next
    fix d assume d: "ensure_pages grant c l (lengths c ! l) m = (Inr (), d)" "extended c d"
      "\<forall>t \<in> {lengths c ! l..<m}. backed d l t"
    have cfg: "config_of d = config_of c" "lengths d = lengths c" using d(2) by (auto simp: extended_def)
    have inv_d: "kv_inv d" and abs_d: "\<And>l. l < layer_count c \<Longrightarrow> kv_abs d l = kv_abs c l"
      using extended_inv [OF d(2) inv] by auto
    have ok_d: "append_ok d l n keys values" using guard cfg by (simp add: append_ok_def config_of_eq)
    have heads: "kv_head_count d = kv_head_count c" and ld: "l < layer_count d" using cfg l by (auto simp: config_of_eq)
    have "\<forall>th \<in> set (row_indices n (kv_head_count c)).
        target_ok d l (lengths c ! l) th \<and> source_ok d keys values th"
      using d(3) n(2) m source_rows_ok [OF ok_d] cfg
      by (auto simp: set_row_indices target_ok_def config_of_eq)
    from copy_rows_effect [OF kv_inv_shape [OF inv_d] ld this]
    obtain f where f: "copy_rows l (lengths c ! l) keys values (row_indices n (kv_head_count c)) d = (Inr (), f)"
      "copied l (lengths d ! l) keys values ({..<n} \<times> {..<kv_head_count d}) d f"
      by (auto simp: set_row_indices cfg heads)
    let ?e = "f\<lparr>lengths := (lengths f)[l := lengths d ! l + n]\<rparr>"
    have "append_tokens grant c l n keys values = (Inr (), ?e)"
      using Inr d(1) f(1) m cfg by (simp add: append_tokens_def Let_def)
    moreover have "\<forall>t \<in> {lengths d ! l..<lengths d ! l + n}. backed d l t" using d(3) m cfg by simp
    note commit = commit_effect [OF inv_d ok_d this f(2) refl]
    ultimately show ?thesis
      using guard cfg abs_d l by (intro ok [of ?e]) (auto simp: config_of_eq)
  qed
qed

section \<open>Properties\<close>

text \<open>The operations of a cache as a transition relation, failing calls included.\<close>

inductive kv_step :: "kv_cache \<Rightarrow> kv_cache \<Rightarrow> bool" where
  step_append: "append_tokens grant c layer n keys values = (r, d) \<Longrightarrow> kv_step c d"
| step_append_one: "kv_append grant c layer key val = (r, d) \<Longrightarrow> kv_step c d"
| step_reset: "kv_step c (kv_reset c)"
| step_rewind: "rewind_all c n = (r, d) \<Longrightarrow> kv_step c d"

inductive kv_reachable :: "kv_cache \<Rightarrow> bool" where
  reachable_new: "kv_new grant layers heads kdim vdim ptokens capacity = Inr c \<Longrightarrow> kv_reachable c"
| reachable_lazy: "kv_new_lazy grant layers heads kdim vdim ptokens capacity = Inr c \<Longrightarrow> kv_reachable c"
| reachable_step: "kv_reachable c \<Longrightarrow> kv_step c d \<Longrightarrow> kv_reachable d"

lemma append_tokens_inv:
  assumes "kv_inv c" "append_tokens grant c l n keys values = (r, d)"
  shows "kv_inv d \<and> config_of d = config_of c"
  using append_tokens_cases [OF assms(1), of grant l n keys "values"] assms by (metis prod.inject)

lemma kv_append_state: "snd (kv_append grant c l key val) = snd (append_tokens grant c l 1 key val)"
  by (simp add: kv_append_def split: prod.split sum.split)

lemma lengths_inv:
  assumes "kv_inv c" "n \<le> token_capacity c" "\<forall>l < layer_count c. n \<le> lengths c ! l"
    and "d = c\<lparr>lengths := replicate (length (lengths c)) n\<rparr>"
  shows "kv_inv d" "config_of d = config_of c" "\<And>l. l < layer_count c \<Longrightarrow> kv_abs d l = take n (kv_abs c l)"
proof -
  have rows: "token_rows d = token_rows c" and b: "backed d = backed c"
    by (intro ext; simp add: assms(4) token_rows_def key_row_def value_row_def key_offset_def value_offset_def backed_def)+
  have "kv_shape d" using kv_inv_shape [OF assms(1)] unfolding assms(4) kv_shape_def page_ok_def by simp
  then show "kv_inv d"
    using assms(1-3) b unfolding kv_inv_def by (auto simp: assms(4) kv_shape_def)
  show "config_of d = config_of c" by (simp add: assms(4) config_of_def)
  show "kv_abs d l = take n (kv_abs c l)" if "l < layer_count c" for l
  proof -
    have "length (lengths c) = layer_count c" "n \<le> lengths c ! l"
      using assms(1,3) that by (simp_all add: kv_inv_def kv_shape_def)
    moreover from this that have "lengths d ! l = n" by (simp add: assms(4))
    ultimately show ?thesis using that by (simp add: kv_abs_def rows take_map)
  qed
qed

lemma kv_reset_effect:
  assumes "kv_inv c"
  shows "kv_inv (kv_reset c)" "config_of (kv_reset c) = config_of c"
    "\<And>l. l < layer_count c \<Longrightarrow> kv_abs (kv_reset c) l = []"
  using lengths_inv [OF assms, of 0 "kv_reset c"] by (auto simp: kv_reset_def)

lemma rewind_check_iff:
  "rewind_check i n xs = Inr () \<longleftrightarrow> (\<forall>x \<in> set xs. n \<le> x)"
  by (induction xs arbitrary: i) (auto simp: not_less)

lemma rewind_check_error:
  "rewind_check i n xs = Inl e \<Longrightarrow> \<exists>j < length xs. xs ! j < n \<and> e = RewindBeyondStored (i + j) n (xs ! j)"
proof (induction xs arbitrary: i)
  case (Cons x xs)
  show ?case
  proof (cases "x < n")
    case True
    with Cons.prems show ?thesis by (intro exI [of _ 0]) simp
  next
    case False
    with Cons obtain j where "j < length xs" "xs ! j < n" "e = RewindBeyondStored (Suc i + j) n (xs ! j)" by fastforce
    then show ?thesis by (intro exI [of _ "Suc j"]) simp
  qed
qed simp

lemma rewind_all_effect:
  assumes "kv_inv c"
  shows "rewind_all c n = (r, d) \<Longrightarrow> kv_inv d \<and> config_of d = config_of c"
    and "(\<exists>d. rewind_all c n = (Inr (), d)) \<longleftrightarrow> (\<forall>l < layer_count c. n \<le> lengths c ! l)"
    and "rewind_all c n = (Inl e, d) \<Longrightarrow> d = c"
    and "rewind_all c n = (Inr (), d) \<Longrightarrow> l < layer_count c \<Longrightarrow> kv_abs d l = take n (kv_abs c l)"
proof -
  have len: "length (lengths c) = layer_count c" and pos: "0 < layer_count c"
    using assms by (simp_all add: kv_inv_def kv_shape_def)
  have iff: "rewind_check 0 n (lengths c) = Inr () \<longleftrightarrow> (\<forall>l < layer_count c. n \<le> lengths c ! l)"
    by (simp add: rewind_check_iff all_set_conv_all_nth len)
  show "rewind_all c n = (Inl e, d) \<Longrightarrow> d = c"
    by (simp add: rewind_all_def split: sum.splits)
  show "(\<exists>d. rewind_all c n = (Inr (), d)) \<longleftrightarrow> (\<forall>l < layer_count c. n \<le> lengths c ! l)"
    unfolding iff [symmetric] by (simp add: rewind_all_def split: sum.splits)
  have ok: "d = c\<lparr>lengths := replicate (length (lengths c)) n\<rparr> \<and> (\<forall>l < layer_count c. n \<le> lengths c ! l)"
    if "rewind_all c n = (Inr (), d)"
    using that unfolding iff [symmetric] by (simp add: rewind_all_def split: sum.splits)
  have cap: "n \<le> token_capacity c" if "\<forall>l < layer_count c. n \<le> lengths c ! l"
    using that pos kv_inv_length [OF assms] le_trans by blast
  show "rewind_all c n = (Inr (), d) \<Longrightarrow> l < layer_count c \<Longrightarrow> kv_abs d l = take n (kv_abs c l)"
    using ok lengths_inv(3) [OF assms] cap by blast
  show "rewind_all c n = (r, d) \<Longrightarrow> kv_inv d \<and> config_of d = config_of c"
  proof (cases r)
    case (Inl e)
    then show "rewind_all c n = (r, d) \<Longrightarrow> kv_inv d \<and> config_of d = config_of c"
      using assms by (simp add: rewind_all_def split: sum.splits)
  next
    case (Inr u)
    then show "rewind_all c n = (r, d) \<Longrightarrow> kv_inv d \<and> config_of d = config_of c"
      using ok lengths_inv(1,2) [OF assms] cap by (cases u) blast
  qed
qed

lemma new_with_allocation_inv:
  assumes "new_with_allocation grant layers heads kdim vdim ptokens capacity eager = Inr c"
  shows "kv_inv c" "config_of c = (layers, heads, kdim, vdim, ptokens, (capacity + (ptokens - 1)) div ptokens, capacity)"
    "\<And>l. l < layers \<Longrightarrow> kv_abs c l = []"
proof -
  let ?pc = "(capacity + (ptokens - 1)) div ptokens"
  obtain tables where tables:
      "map_res (\<lambda>l. layer_table (at_step grant l) ?pc ptokens heads kdim vdim eager) [0..<layers] = Inr tables"
    and c: "c = \<lparr>layer_count = layers, kv_head_count = heads, key_dimension = kdim, value_dimension = vdim,
       page_tokens = ptokens, page_count = ?pc, token_capacity = capacity,
       lengths = replicate layers 0, pages = tables\<rparr>"
    and pos: "0 < layers" "0 < heads" "0 < kdim" "0 < vdim" "0 < ptokens" "0 < capacity"
    and cap: "capacity + (ptokens - 1) < u64_limit"
    using assms by (auto simp: new_with_allocation_def rbind_Inr ok_or_Inr check_Inr Let_def zeroed_vec_def split: if_splits)
  have tab: "list_all2 (\<lambda>l t. layer_table (at_step grant l) ?pc ptokens heads kdim vdim eager = Inr t) [0..<layers] tables"
    using tables by (simp add: map_res_Inr)
  have len: "length tables = layers" using tab by (auto dest: list_all2_lengthD)
  have entry: "length (tables ! l) = ?pc \<and> (\<forall>p < ?pc. \<forall>pg. tables ! l ! p = Some pg \<longrightarrow> page_ok c pg)"
    if "l < layers" for l
  proof -
    have lt: "layer_table (at_step grant l) ?pc ptokens heads kdim vdim eager = Inr (tables ! l)"
      using tab that by (simp add: list_all2_conv_all_nth)
    show ?thesis
    proof (cases eager)
      case False
      with lt have "tables ! l = replicate ?pc None" by (simp add: layer_table_def rbind_Inr check_Inr)
      then show ?thesis by simp
    next
      case True
      with lt have "list_all2 (\<lambda>i t. rbind (page_new (at_step (at_step grant l) i) ptokens heads kdim vdim) (\<lambda>p. Inr (Some p)) = Inr t)
          [0..<?pc] (tables ! l)"
        by (simp add: layer_table_def rbind_Inr check_Inr map_res_Inr)
      then show ?thesis
        using page_new_ok [of _ c] by (auto simp: list_all2_conv_all_nth rbind_Inr c)
    qed
  qed
  show "kv_inv c"
    unfolding kv_inv_def kv_shape_def using pos cap len entry by (auto simp: c)
  show "config_of c = (layers, heads, kdim, vdim, ptokens, ?pc, capacity)" by (simp add: c config_of_def)
  show "\<And>l. l < layers \<Longrightarrow> kv_abs c l = []" by (simp add: c kv_abs_def)
qed

lemma page_new_granted:
  assumes "page_tokens c * kv_head_count c * key_dimension c < u64_limit"
    "page_tokens c * kv_head_count c * value_dimension c < u64_limit" "kv_shape c"
  shows "is_ok (page_new (\<lambda>_ _. True) (page_tokens c) (kv_head_count c) (key_dimension c) (value_dimension c))"
proof -
  have "page_tokens c * kv_head_count c < u64_limit"
  proof (rule le_less_trans [OF _ assms(1)])
    show "page_tokens c * kv_head_count c \<le> page_tokens c * kv_head_count c * key_dimension c"
      using assms(3) by (simp add: kv_shape_def)
  qed
  then show ?thesis
    using assms(1,2) by (simp add: page_new_def checked_mul_def zeroed_vec_def is_ok_def)
qed

lemma ensure_pages_granted:
  assumes "page_tokens c * kv_head_count c * key_dimension c < u64_limit"
    "page_tokens c * kv_head_count c * value_dimension c < u64_limit" "kv_shape c"
  shows "fst (ensure_pages (\<lambda>_ _. True) c l start end) = Inr ()"
proof -
  obtain p where "page_new (\<lambda>_ _. True) (page_tokens c) (kv_head_count c) (key_dimension c) (value_dimension c) = Inr p"
    using page_new_granted [OF assms] by (auto simp: is_ok_def split: sum.splits)
  then have "map_res (\<lambda>p. rbind (page_new (\<lambda>_ _. True) (page_tokens c) (kv_head_count c)
      (key_dimension c) (value_dimension c)) (\<lambda>page. Inr (p, page))) ps = Inr (map (\<lambda>i. (i, p)) ps)" for ps :: "nat list"
    by (induction ps) simp_all
  then show ?thesis by (simp add: ensure_pages_def Let_def del: upt_Suc)
qed

lemma append_granted:
  assumes "kv_inv c" "length keys < u64_limit" "length values < u64_limit"
    "page_tokens c * kv_head_count c * key_dimension c < u64_limit"
    "page_tokens c * kv_head_count c * value_dimension c < u64_limit" "append_ok c layer n keys values"
  shows "fst (append_tokens (\<lambda>_ _. True) c layer n keys values) = Inr ()"
proof -
  have "append_check c layer n keys values = Inr (lengths c ! layer + n)"
    using append_check_iff [OF kv_inv_shape [OF assms(1)] assms(2,3)] assms(6) by simp
  then show ?thesis
    using append_tokens_cases [OF assms(1), of "\<lambda>_ _. True" layer n keys "values"]
      ensure_pages_granted [OF assms(4,5) kv_inv_shape [OF assms(1)]]
    by (metis Inl_Inr_False fst_conv)
qed

text \<open>A small cache: one layer, one head, width 1, two tokens a page, three tokens in all.\<close>

definition example_cache :: kv_cache where
  "example_cache = \<lparr>layer_count = 1, kv_head_count = 1, key_dimension = 1, value_dimension = 1,
     page_tokens = 2, page_count = 2, token_capacity = 3, lengths = [0],
     pages = [[None, None]]\<rparr>"

lemma replicate_2: "replicate 2 x = [x, x]"
  by (simp add: numeral_2_eq_2)

lemma example_cache_new: "kv_new_lazy (\<lambda>_ _. True) 1 1 1 1 2 3 = Inr example_cache"
  by (simp add: kv_new_lazy_def new_with_allocation_def layer_table_def zeroed_vec_def example_cache_def
      checked_add_def u64_limit_def replicate_2 Let_def)

lemma example_cache_inv: "kv_inv example_cache"
  using new_with_allocation_inv(1) example_cache_new unfolding kv_new_lazy_def by blast

definition example_filled :: kv_cache where
  "example_filled = example_cache\<lparr>lengths := [1],
     pages := [[Some \<lparr>pg_keys = [5, 0], pg_values = [7, 0]\<rparr>, None]]\<rparr>"

lemma example_append: "append_tokens (\<lambda>_ _. True) example_cache 0 1 [5] [7] = (Inr (), example_filled)"
  by (simp add: append_tokens_def append_check_def validate_layer_def require_length_def validate_finite_def
      f32_is_finite_def example_cache_def example_filled_def ensure_pages_def page_new_def zeroed_vec_def
      set_page_def copy_row_def row_indices_def write_key_def write_value_def page_at_def slice_def splice_def
      key_offset_def value_offset_def checked_add_def checked_mul_def u64_limit_def replicate_2 Let_def)

text \<open> C22.
  The cache invariant (page table shape, page sizes, every committed token of every layer backed by a
  page, no layer longer than the capacity) holds in every state the operations can reach from either
  constructor, whether or not the calls succeed and whatever the allocator grants; no operation
  changes the geometry.
\<close>

theorem kv_invariant_preserved:
  assumes "kv_reachable c"
  shows "kv_inv c \<and> (\<forall>d. kv_step c d \<longrightarrow> kv_inv d \<and> config_of d = config_of c)"
proof -
  have step: "kv_inv d \<and> config_of d = config_of c" if "kv_inv c" "kv_step c d" for c d
    using that(2)
  proof cases
    case (step_append grant l n "keys" "values" r)
    then show ?thesis using append_tokens_inv [OF that(1)] by blast
  next
    case (step_append_one grant l key val r)
    then have "d = snd (append_tokens grant c l 1 key val)" using kv_append_state by (metis snd_conv)
    then show ?thesis using append_tokens_inv [OF that(1)] by (metis prod.collapse)
  next
    case step_reset
    then show ?thesis using kv_reset_effect [OF that(1)] by simp
  next
    case (step_rewind n r)
    then show ?thesis using rewind_all_effect(1) [OF that(1)] by blast
  qed
  from assms have "kv_inv c"
    by induction (use new_with_allocation_inv(1) step in \<open>auto simp: kv_new_def kv_new_lazy_def\<close>)
  with step show ?thesis by blast
qed

theorem kv_invariant_preserved_witness: "kv_inv example_cache \<and> kv_inv example_filled"
proof -
  have "kv_reachable example_cache" by (rule reachable_lazy [OF example_cache_new])
  moreover have "kv_step example_cache example_filled" by (rule step_append [OF example_append])
  ultimately show ?thesis using kv_invariant_preserved by blast
qed

text \<open> C4.
  A successful append refines list append: the layer's stored tokens are the old ones followed by the
  rows of the flat arguments in order, and every other layer stores what it stored before.
\<close>

theorem append_refines:
  assumes "kv_inv c" "append_tokens grant c layer n keys values = (Inr (), d)"
  shows "kv_abs d layer = kv_abs c layer @
      map (input_rows (kv_head_count c) (key_dimension c) (value_dimension c) keys values) [0..<n] \<and>
    (\<forall>l < layer_count c. l \<noteq> layer \<longrightarrow> kv_abs d l = kv_abs c l)"
  using append_tokens_cases [OF assms(1), of grant layer n keys "values"] assms(2) by (metis Inl_Inr_False prod.inject)

theorem append_refines_witness: "kv_abs example_filled 0 = [[([5], [7])]]"
  using append_refines [OF example_cache_inv example_append]
  by (simp add: input_rows_def slice_def example_cache_def kv_abs_def)

text \<open> C27.
  A failed append leaves the cache exactly as it was, whichever check or allocation fails, be it the reservation of
  the list of new pages or the storage of any of the missing pages after others were granted: no row, no length and
  no page table entry changes.
\<close>

theorem append_atomic:
  assumes "kv_inv c" "append_tokens grant c layer n keys values = (Inl e, d)"
  shows "d = c"
  using append_tokens_cases [OF assms(1), of grant layer n keys "values"] assms(2) by (metis Inl_Inr_False prod.inject)

text \<open>The allocator serves the first of two missing pages and refuses the second.\<close>

definition second_page_refused :: grant where
  "second_page_refused = (\<lambda>(ctxt, counters) n. counters \<noteq> [1])"

theorem append_atomic_witness:
  "is_ok (page_new (at_step second_page_refused 0) 2 1 1 1) \<and>
   (\<exists>d. append_tokens second_page_refused example_cache 0 3 [1, 2, 3] [4, 5, 6] =
      (Inl (KvAllocationFailed ''key page storage'' 2), d) \<and> d = example_cache)"
proof -
  have run: "append_tokens second_page_refused example_cache 0 3 [1, 2, 3] [4, 5, 6] =
     (Inl (KvAllocationFailed ''key page storage'' 2), example_cache)"
    by (simp add: append_tokens_def append_check_def validate_layer_def require_length_def validate_finite_def
      f32_is_finite_def example_cache_def ensure_pages_def page_new_def zeroed_vec_def second_page_refused_def at_step_def
      checked_add_def checked_mul_def u64_limit_def Let_def)
  have "is_ok (page_new (at_step second_page_refused 0) 2 1 1 1)"
    by (simp add: page_new_def zeroed_vec_def second_page_refused_def at_step_def checked_mul_def u64_limit_def is_ok_def)
  with append_atomic [OF example_cache_inv run] run show ?thesis by blast
qed

text \<open>
  When the allocator grants every request and a page's storage is addressable, an append succeeds
  exactly if its layer exists, its token count is not zero, both arguments have the length the
  geometry demands, all numbers are finite and the layer has room for the tokens.
\<close>

theorem append_succeeds_iff:
  assumes "kv_inv c" "length keys < u64_limit" "length values < u64_limit"
    "page_tokens c * kv_head_count c * key_dimension c < u64_limit"
    "page_tokens c * kv_head_count c * value_dimension c < u64_limit"
  shows "fst (append_tokens (\<lambda>_ _. True) c layer n keys values) = Inr () \<longleftrightarrow>
    layer < layer_count c \<and> n \<noteq> 0 \<and>
    length keys = n * (kv_head_count c * key_dimension c) \<and>
    length values = n * (kv_head_count c * value_dimension c) \<and>
    list_all f32_is_finite keys \<and> list_all f32_is_finite values \<and>
    length (kv_abs c layer) + n \<le> token_capacity c"
proof -
  have "fst (append_tokens (\<lambda>_ _. True) c layer n keys values) = Inr () \<longleftrightarrow> append_ok c layer n keys values"
  proof
    assume "fst (append_tokens (\<lambda>_ _. True) c layer n keys values) = Inr ()"
    then show "append_ok c layer n keys values"
      using append_tokens_cases [OF assms(1), of "\<lambda>_ _. True" layer n keys "values"]
      by (metis Inl_Inr_False fst_conv)
  next
    assume ok: "append_ok c layer n keys values"
    then show "fst (append_tokens (\<lambda>_ _. True) c layer n keys values) = Inr ()"
      by (rule append_granted [OF assms])
  qed
  then show ?thesis by (simp add: append_ok_def)
qed

theorem append_succeeds_iff_witness:
  "fst (append_tokens (\<lambda>_ _. True) example_filled 0 2 [1, 2] [3, 4]) = Inr () \<and>
   fst (append_tokens (\<lambda>_ _. True) example_filled 0 3 [1, 2, 3] [3, 4, 5]) \<noteq> Inr ()"
proof -
  have inv: "kv_inv example_filled" using append_tokens_inv [OF example_cache_inv example_append] by simp
  have dims: "page_tokens example_filled = 2" "kv_head_count example_filled = 1" "key_dimension example_filled = 1"
    "value_dimension example_filled = 1" "layer_count example_filled = 1" "token_capacity example_filled = 3"
    "lengths example_filled = [1]"
    by (simp_all add: example_filled_def example_cache_def)
  note iff = append_succeeds_iff [OF inv, unfolded dims]
  show ?thesis
    using iff [of "[1, 2]" "[3, 4]" 0 2] iff [of "[1, 2, 3]" "[3, 4, 5]" 0 3]
    by (simp add: u64_limit_def dims f32_is_finite_def)
qed

text \<open>
  Reads are exact: on a cache that satisfies the invariant \<^verbatim>\<open>key\<close> and \<^verbatim>\<open>value\<close> return precisely the
  stored row, of the configured width, for the indices in range, and the error of the first index
  out of range otherwise; the missing-page error never appears.
\<close>

theorem reads_exact:
  assumes "kv_inv c"
  shows "kv_key c l t h = (if layer_count c \<le> l then Inl (LayerOutOfRange l (layer_count c))
      else if length (kv_abs c l) \<le> t then Inl (TokenOutOfRange t (length (kv_abs c l)))
      else if kv_head_count c \<le> h then Inl (HeadOutOfRange h (kv_head_count c))
      else Inr (fst (kv_abs c l ! t ! h))) \<and>
    kv_value c l t h = (if layer_count c \<le> l then Inl (LayerOutOfRange l (layer_count c))
      else if length (kv_abs c l) \<le> t then Inl (TokenOutOfRange t (length (kv_abs c l)))
      else if kv_head_count c \<le> h then Inl (HeadOutOfRange h (kv_head_count c))
      else Inr (snd (kv_abs c l ! t ! h))) \<and>
    (\<forall>k. kv_key c l t h = Inr k \<longrightarrow> length k = key_dimension c) \<and>
    (\<forall>v. kv_value c l t h = Inr v \<longrightarrow> length v = value_dimension c)"
  using kv_key_eq [OF assms, of l t h] kv_value_eq [OF assms, of l t h] kv_row_widths [OF assms, of l t h]
  by auto

theorem reads_exact_witness: "kv_key example_cache 0 0 0 = Inl (TokenOutOfRange 0 0)"
  using reads_exact [OF example_cache_inv, of 0 0 0] by (simp add: example_cache_def kv_abs_def)

text \<open>
  Rewind is all or nothing: it succeeds exactly if every layer stores at least the requested number of
  tokens, then truncates every layer to that prefix; otherwise the cache is unchanged. Reset empties
  every layer.
\<close>

theorem rewind_exact:
  assumes "kv_inv c"
  shows "(fst (rewind_all c n) = Inr () \<longleftrightarrow> (\<forall>l < layer_count c. n \<le> length (kv_abs c l))) \<and>
    (\<forall>l < layer_count c. kv_abs (snd (rewind_all c n)) l =
       (if fst (rewind_all c n) = Inr () then take n (kv_abs c l) else kv_abs c l)) \<and>
    (\<forall>l < layer_count c. kv_abs (kv_reset c) l = [])"
proof -
  obtain r d where rd: "rewind_all c n = (r, d)" by fastforce
  have iff: "r = Inr () \<longleftrightarrow> (\<forall>l < layer_count c. n \<le> length (kv_abs c l))"
    using rewind_all_effect(2) [OF assms, of n] rd by auto
  have "kv_abs d l = (if r = Inr () then take n (kv_abs c l) else kv_abs c l)" if "l < layer_count c" for l
    using rewind_all_effect(3,4) [OF assms] rd that by (cases r) auto
  with iff rd kv_reset_effect(3) [OF assms] show ?thesis by simp
qed

theorem rewind_exact_witness: "fst (rewind_all example_cache 1) \<noteq> Inr ()"
  using rewind_exact [OF example_cache_inv, of 1] by (simp add: example_cache_def)

end
