(* ===== verification/Kv_Snapshot.thy ===== *)
theory Kv_Snapshot
  imports Kv_Append
begin

text \<open>
  Snapshots of the key/value cache: \<^verbatim>\<open>export_snapshot\<close>, \<^verbatim>\<open>restore_snapshot\<close> and
  \<^verbatim>\<open>restore_uniform_snapshot\<close> of \<^verbatim>\<open>crates/bridge-kv-gqa/src/cache.rs\<close> and the cursor they read with.
  SHA-256 is the argument \<open>sha\<close>; what is used of it is the digest length of 32 bytes. A restore
  builds a fresh lazy cache and replaces the old one only at the end. A \<^verbatim>\<open>usize\<close> is 64 bits wide, so
  the conversions between \<^verbatim>\<open>usize\<close> and \<^verbatim>\<open>u64\<close> are the range check they write out.
\<close>

section \<open>Export\<close>

definition KV_SNAPSHOT_MAGIC :: "byte list" where "KV_SNAPSHOT_MAGIC = bytes_of_str ''LBKV0001''"
definition KV_SNAPSHOT_VERSION :: nat where "KV_SNAPSHOT_VERSION = 1"
definition KV_SNAPSHOT_DIGEST_BYTES :: nat where "KV_SNAPSHOT_DIGEST_BYTES = 32"

definition usize_to_u64 :: "nat \<Rightarrow> kv_error + nat" where
  "usize_to_u64 v = (if v < u64_limit then Inr v else Inl (KvArithmeticOverflow ''KV snapshot integer encoding''))"

definition u64_to_usize :: "nat \<Rightarrow> kv_error + nat" where
  "u64_to_usize v = (if v < u64_limit then Inr v else Inl (KvArithmeticOverflow ''KV snapshot integer decoding''))"

definition snapshot_bytes :: "kv_cache \<Rightarrow> nat \<Rightarrow> kv_error + nat" where
  "snapshot_bytes c binding_length =
     rbind (ok_or (KvArithmeticOverflow ''KV snapshot header bytes'')
       (Option.bind (checked_add (length KV_SNAPSHOT_MAGIC) 4) (\<lambda>v.
        Option.bind (checked_add v binding_length) (\<lambda>v.
        Option.bind (checked_add v (6 * 8)) (\<lambda>v.
        Option.bind (Option.bind (checked_mul (layer_count c) 8) (checked_add v)) (\<lambda>v.
        checked_add v KV_SNAPSHOT_DIGEST_BYTES)))))) (\<lambda>header_bytes.
     rbind (ok_or (KvArithmeticOverflow ''KV snapshot dimensions'')
       (checked_add (key_dimension c) (value_dimension c))) (\<lambda>dims.
     rbind (ok_or (KvArithmeticOverflow ''KV snapshot values per token'')
       (checked_mul (kv_head_count c) dims)) (\<lambda>values_per_token.
     rbind (fold_res (\<lambda>tokens total.
         rbind (ok_or (KvArithmeticOverflow ''KV snapshot payload bytes'')
           (Option.bind (checked_mul tokens values_per_token) (\<lambda>v. checked_mul v 4))) (\<lambda>bytes.
         ok_or (KvArithmeticOverflow ''KV snapshot payload bytes'') (checked_add total bytes)))
       (lengths c) 0) (\<lambda>payload_bytes.
     ok_or (KvArithmeticOverflow ''KV snapshot total bytes'') (checked_add header_bytes payload_bytes)))))"

definition encode_u64s :: "nat list \<Rightarrow> kv_error + byte list" where
  "encode_u64s vs = rbind (map_res (\<lambda>v. rbind (usize_to_u64 v) (\<lambda>u. Inr (u64_to_le u))) vs) (\<lambda>bs. Inr (concat bs))"

text \<open>One key row and one value row, as their bit patterns.\<close>

definition export_row :: "kv_cache \<Rightarrow> nat \<times> nat \<times> nat \<Rightarrow> kv_error + byte list" where
  "export_row c lth =
     (let (layer, token, head) = lth in
      rbind (kv_key c layer token head) (\<lambda>k.
      rbind (kv_value c layer token head) (\<lambda>v.
        Inr (concat (map f32_to_le k) @ concat (map f32_to_le v)))))"

definition export_indices :: "kv_cache \<Rightarrow> (nat \<times> nat \<times> nat) list" where
  "export_indices c = concat (map (\<lambda>layer. concat (map (\<lambda>token.
     map (\<lambda>head. (layer, token, head)) [0..<kv_head_count c]) [0..<lengths c ! layer])) [0..<layer_count c])"

definition export_snapshot ::
  "(byte list \<Rightarrow> byte list) \<Rightarrow> grant \<Rightarrow> kv_cache \<Rightarrow> byte list \<Rightarrow> nat \<Rightarrow> kv_error + byte list" where
  "export_snapshot sha grant c model_binding maximum_bytes =
     (if maximum_bytes = 0 then Inl ZeroSnapshotLimit else
      rbind (snapshot_bytes c (length model_binding)) (\<lambda>total.
      rbind (check (total \<le> maximum_bytes) (SnapshotTooLarge total maximum_bytes)) (\<lambda>_.
      rbind (check (grant (''KV snapshot bytes'', []) total) (KvAllocationFailed ''KV snapshot bytes'' total)) (\<lambda>_.
      rbind (encode_u64s [layer_count c, kv_head_count c, key_dimension c, value_dimension c,
        page_tokens c, token_capacity c]) (\<lambda>configuration.
      rbind (encode_u64s (lengths c)) (\<lambda>layer_lengths.
      rbind (map_res (export_row c) (export_indices c)) (\<lambda>rows.
        let output = KV_SNAPSHOT_MAGIC @ u32_to_le KV_SNAPSHOT_VERSION @ model_binding @
              configuration @ layer_lengths @ concat rows
        in Inr (output @ sha output))))))))"

section \<open>The cursor\<close>

definition cur_take :: "byte list \<Rightarrow> nat \<Rightarrow> nat \<Rightarrow> kv_error + (byte list \<times> nat)" where
  "cur_take bytes offset n =
     rbind (ok_or (KvArithmeticOverflow ''KV snapshot cursor'') (checked_add offset n)) (\<lambda>end.
       if end \<le> length bytes then Inr (slice bytes offset n, end)
       else Inl (SnapshotTruncated offset (end - length bytes)))"

definition cur_u32 :: "byte list \<Rightarrow> nat \<Rightarrow> kv_error + (nat \<times> nat)" where
  "cur_u32 bytes offset = rbind (cur_take bytes offset 4) (\<lambda>(v, next). Inr (of_le_bytes v, next))"

definition cur_u64 :: "byte list \<Rightarrow> nat \<Rightarrow> kv_error + (nat \<times> nat)" where
  "cur_u64 bytes offset = rbind (cur_take bytes offset 8) (\<lambda>(v, next). Inr (of_le_bytes v, next))"

definition cur_f32 :: "byte list \<Rightarrow> nat \<Rightarrow> kv_error + (f32 \<times> nat)" where
  "cur_f32 bytes offset = rbind (cur_u32 bytes offset) (\<lambda>(v, next). Inr (word_of_nat v, next))"

definition cur_remaining :: "byte list \<Rightarrow> nat \<Rightarrow> nat" where
  "cur_remaining bytes offset = length bytes - offset"

section \<open>Restore\<close>

text \<open>The header fields are read one after the other and compared with the target's geometry.\<close>

fun check_configuration :: "byte list \<Rightarrow> (string \<times> nat) list \<Rightarrow> nat \<Rightarrow> kv_error + nat" where
  "check_configuration bytes [] offset = Inr offset"
| "check_configuration bytes ((field, expected) # rest) offset =
     rbind (cur_u64 bytes offset) (\<lambda>(v, next).
     rbind (u64_to_usize v) (\<lambda>actual.
       if actual \<noteq> expected then Inl (SnapshotConfiguration field expected actual)
       else check_configuration bytes rest next))"

fun read_lengths :: "byte list \<Rightarrow> nat \<Rightarrow> nat list \<Rightarrow> nat \<Rightarrow> kv_error + (nat list \<times> nat)" where
  "read_lengths bytes capacity [] offset = Inr ([], offset)"
| "read_lengths bytes capacity (layer # layers) offset =
     rbind (cur_u64 bytes offset) (\<lambda>(v, next).
     rbind (u64_to_usize v) (\<lambda>n.
       if capacity < n then Inl (CapacityExhausted layer 0 n capacity)
       else rbind (read_lengths bytes capacity layers next) (\<lambda>(ns, final). Inr (n # ns, final))))"

fun first_different :: "nat \<Rightarrow> nat \<Rightarrow> nat list \<Rightarrow> kv_error + unit" where
  "first_different expected layer [] = Inr ()"
| "first_different expected layer (n # ns) =
     (if n \<noteq> expected then Inl (SnapshotLayerLength layer expected n)
      else first_different expected (Suc layer) ns)"

definition check_uniform :: "nat list \<Rightarrow> kv_error + unit" where
  "check_uniform lens = first_different (case lens of [] \<Rightarrow> 0 | n # _ \<Rightarrow> n) 0 lens"

text \<open>The two scratch rows are overwritten lane by lane.\<close>

definition read_lane :: "byte list \<Rightarrow> nat \<Rightarrow> nat \<Rightarrow> nat \<times> f32 list \<Rightarrow> kv_error + (nat \<times> f32 list)" where
  "read_lane bytes start lane st =
     (let (offset, buffer) = st in
      rbind (cur_f32 bytes offset) (\<lambda>(x, next). Inr (next, buffer[start + lane := x])))"

definition read_head ::
  "byte list \<Rightarrow> nat \<Rightarrow> nat \<Rightarrow> nat \<Rightarrow> nat \<times> f32 list \<times> f32 list \<Rightarrow> kv_error + (nat \<times> f32 list \<times> f32 list)" where
  "read_head bytes kdim vdim head st =
     (let (offset, keys, values) = st in
      rbind (fold_res (read_lane bytes (head * kdim)) [0..<kdim] (offset, keys)) (\<lambda>(offset, keys).
      rbind (fold_res (read_lane bytes (head * vdim)) [0..<vdim] (offset, values)) (\<lambda>(offset, values).
        Inr (offset, keys, values))))"

type_synonym restore_state = "nat \<times> f32 list \<times> f32 list \<times> kv_cache"

definition restore_token :: "grant \<Rightarrow> byte list \<Rightarrow> nat \<Rightarrow> restore_state \<Rightarrow> kv_error + restore_state" where
  "restore_token grant bytes layer st =
     (let (offset, keys, values, c) = st in
      rbind (fold_res (read_head bytes (key_dimension c) (value_dimension c)) [0..<kv_head_count c]
        (offset, keys, values)) (\<lambda>(offset, keys, values).
      case kv_append grant c layer keys values of
        (Inl e, _) \<Rightarrow> Inl e
      | (Inr _, d) \<Rightarrow> Inr (offset, keys, values, d)))"

definition restore_layers :: "grant \<Rightarrow> byte list \<Rightarrow> (nat \<times> nat) list \<Rightarrow> restore_state \<Rightarrow> kv_error + restore_state" where
  "restore_layers grant bytes = fold_res (\<lambda>(layer, n).
     fold_res (\<lambda>t. restore_token (at_step (at_step grant layer) t) bytes layer) [0..<n])"

definition restore_body :: "grant \<Rightarrow> kv_cache \<Rightarrow> byte list \<Rightarrow> bool \<Rightarrow> nat \<Rightarrow> kv_error + kv_cache" where
  "restore_body grant c bytes uniform offset =
     rbind (check_configuration bytes
       [(''layer_count'', layer_count c), (''kv_head_count'', kv_head_count c), (''key_dimension'', key_dimension c),
        (''value_dimension'', value_dimension c), (''page_tokens'', page_tokens c),
        (''token_capacity'', token_capacity c)] offset) (\<lambda>offset.
     rbind (check (grant (''KV snapshot layer lengths'', []) (layer_count c))
       (KvAllocationFailed ''KV snapshot layer lengths'' (layer_count c))) (\<lambda>_.
     rbind (read_lengths bytes (token_capacity c) [0..<layer_count c] offset) (\<lambda>(lens, offset).
     rbind (if uniform then check_uniform lens else Inr ()) (\<lambda>_.
     rbind (kv_new_lazy grant (layer_count c) (kv_head_count c) (key_dimension c) (value_dimension c)
       (page_tokens c) (token_capacity c)) (\<lambda>restored.
     rbind (ok_or (KvArithmeticOverflow ''KV snapshot keys per token'')
       (checked_mul (kv_head_count c) (key_dimension c))) (\<lambda>keys_per_token.
     rbind (ok_or (KvArithmeticOverflow ''KV snapshot values per token'')
       (checked_mul (kv_head_count c) (value_dimension c))) (\<lambda>values_per_token.
     rbind (zeroed_vec grant 0 keys_per_token ''KV snapshot token keys'') (\<lambda>keys.
     rbind (zeroed_vec grant 0 values_per_token ''KV snapshot token values'') (\<lambda>values.
     rbind (restore_layers grant bytes (enumerate 0 lens) (offset, keys, values, restored))
       (\<lambda>(offset, _, _, restored).
     rbind (check (cur_remaining bytes offset = 0) (SnapshotTrailingBytes (cur_remaining bytes offset))) (\<lambda>_.
       Inr restored)))))))))))"

definition restore_parse ::
  "(byte list \<Rightarrow> byte list) \<Rightarrow> grant \<Rightarrow> kv_cache \<Rightarrow> byte list \<Rightarrow> byte list \<Rightarrow> nat \<Rightarrow> bool \<Rightarrow> kv_error + kv_cache" where
  "restore_parse sha grant c binding bytes maximum_bytes uniform =
     (if maximum_bytes = 0 then Inl ZeroSnapshotLimit
      else if maximum_bytes < length bytes then Inl (SnapshotTooLarge (length bytes) maximum_bytes)
      else if length bytes < KV_SNAPSHOT_DIGEST_BYTES
      then Inl (SnapshotTruncated (length bytes) (KV_SNAPSHOT_DIGEST_BYTES - length bytes))
      else let payload_end = length bytes - KV_SNAPSHOT_DIGEST_BYTES; payload = take payload_end bytes in
        rbind (check (sha payload = drop payload_end bytes) SnapshotChecksum) (\<lambda>_.
        rbind (cur_take payload 0 (length KV_SNAPSHOT_MAGIC)) (\<lambda>(magic, offset).
        rbind (check (magic = KV_SNAPSHOT_MAGIC) SnapshotMagic) (\<lambda>_.
        rbind (cur_u32 payload offset) (\<lambda>(version, offset).
        rbind (check (version = KV_SNAPSHOT_VERSION) (SnapshotVersion KV_SNAPSHOT_VERSION version)) (\<lambda>_.
        rbind (cur_take payload offset (length binding)) (\<lambda>(actual_binding, offset).
        rbind (check (actual_binding = binding) SnapshotBinding) (\<lambda>_.
          restore_body grant c payload uniform offset))))))))"

definition restore_snapshot_internal ::
  "(byte list \<Rightarrow> byte list) \<Rightarrow> grant \<Rightarrow> kv_cache \<Rightarrow> byte list \<Rightarrow> byte list \<Rightarrow> nat \<Rightarrow> bool \<Rightarrow>
   (kv_error + unit) \<times> kv_cache" where
  "restore_snapshot_internal sha grant c binding bytes maximum_bytes uniform =
     (case restore_parse sha grant c binding bytes maximum_bytes uniform of
        Inl e \<Rightarrow> (Inl e, c) | Inr restored \<Rightarrow> (Inr (), restored))"

definition restore_snapshot where
  "restore_snapshot sha grant c binding bytes maximum_bytes =
     restore_snapshot_internal sha grant c binding bytes maximum_bytes False"

definition restore_uniform_snapshot where
  "restore_uniform_snapshot sha grant c binding bytes maximum_bytes =
     restore_snapshot_internal sha grant c binding bytes maximum_bytes True"

section \<open>What is written\<close>

definition row_bytes_of :: "f32 list \<times> f32 list \<Rightarrow> byte list" where
  "row_bytes_of kv = concat (map f32_to_le (fst kv)) @ concat (map f32_to_le (snd kv))"

definition token_bytes :: "(f32 list \<times> f32 list) list \<Rightarrow> byte list" where
  "token_bytes rows = concat (map row_bytes_of rows)"

definition layers_bytes :: "(f32 list \<times> f32 list) list list list \<Rightarrow> byte list" where
  "layers_bytes ls = concat (map (\<lambda>tokens. concat (map token_bytes tokens)) ls)"

lemma map_res_total: "(\<And>x. x \<in> set xs \<Longrightarrow> f x = Inr (g x)) \<Longrightarrow> map_res f xs = Inr (map g xs)"
  by (induction xs) simp_all

lemma encode_u64s_total: "\<forall>v \<in> set vs. v < u64_limit \<Longrightarrow> encode_u64s vs = Inr (concat (map u64_to_le vs))"
  by (simp add: encode_u64s_def usize_to_u64_def map_res_total)

lemma encode_u64s_Inr: "encode_u64s vs = Inr bs \<Longrightarrow> bs = concat (map u64_to_le vs) \<and> (\<forall>v \<in> set vs. v < u64_limit)"
proof (induction vs arbitrary: bs)
  case (Cons v vs)
  then show ?case
    by (auto simp: encode_u64s_def rbind_Inr usize_to_u64_def split: if_splits)
qed (simp add: encode_u64s_def)

lemma export_row_eq:
  assumes "kv_inv c" "l < layer_count c" "t < lengths c ! l" "h < kv_head_count c"
  shows "export_row c (l, t, h) = Inr (row_bytes_of (kv_abs c l ! t ! h))"
  using kv_key_eq [OF assms(1), of l t h] kv_value_eq [OF assms(1), of l t h] assms
  by (simp add: export_row_def row_bytes_of_def)

lemma concat_map_nth: "length xs = n \<Longrightarrow> concat (map (\<lambda>i. f (xs ! i)) [0..<n]) = concat (map f xs)"
  by (intro arg_cong [of _ _ concat] nth_equalityI) simp_all

lemma concat_concat_map: "concat (concat (map f xs)) = concat (map (\<lambda>x. concat (f x)) xs)"
  by (induction xs) simp_all

lemma length_token_kv_abs:
  assumes "kv_inv c" "l < layer_count c" "rows \<in> set (kv_abs c l)"
  shows "length rows = kv_head_count c"
  using assms by (auto simp: kv_abs_def token_rows_def)

lemma export_rows_eq:
  assumes "kv_inv c"
  shows "rbind (map_res (export_row c) (export_indices c)) (\<lambda>rows. Inr (concat rows)) =
    (Inr (layers_bytes (map (kv_abs c) [0..<layer_count c])) :: kv_error + byte list)"
proof -
  let ?g = "\<lambda>(l, t, h). row_bytes_of (kv_abs c l ! t ! h)"
  have "map_res (export_row c) (export_indices c) = Inr (map ?g (export_indices c))"
    by (rule map_res_total) (auto simp: export_indices_def export_row_eq [OF assms])
  moreover have heads: "concat (map (\<lambda>h. row_bytes_of (rows ! h)) [0..<kv_head_count c]) = token_bytes rows"
    if "rows \<in> set (kv_abs c l)" "l < layer_count c" for rows l
    unfolding token_bytes_def by (rule concat_map_nth) (rule length_token_kv_abs [OF assms that(2,1)])
  have tokens: "concat (map (\<lambda>t. concat (map (\<lambda>h. row_bytes_of (kv_abs c l ! t ! h)) [0..<kv_head_count c]))
      [0..<lengths c ! l]) = concat (map token_bytes (kv_abs c l))" if "l < layer_count c" for l
  proof -
    have "concat (map (\<lambda>t. concat (map (\<lambda>h. row_bytes_of (kv_abs c l ! t ! h)) [0..<kv_head_count c]))
      [0..<lengths c ! l]) = concat (map (\<lambda>t. token_bytes (kv_abs c l ! t)) [0..<lengths c ! l])"
      by (intro arg_cong [of _ _ concat] map_cong refl heads [OF nth_mem that]) simp
    also have "\<dots> = concat (map token_bytes (kv_abs c l))" by (rule concat_map_nth) simp
    finally show ?thesis .
  qed
  have "concat (map ?g (export_indices c)) = layers_bytes (map (kv_abs c) [0..<layer_count c])"
    unfolding layers_bytes_def export_indices_def map_concat concat_concat_map map_map comp_def prod.case
    by (intro arg_cong [of _ _ concat] map_cong refl tokens) simp
  ultimately show ?thesis by simp
qed

text \<open>The bytes a snapshot consists of, before the digest.\<close>

definition snapshot_payload :: "kv_cache \<Rightarrow> byte list \<Rightarrow> byte list" where
  "snapshot_payload c binding = KV_SNAPSHOT_MAGIC @ u32_to_le KV_SNAPSHOT_VERSION @ binding @
     concat (map u64_to_le [layer_count c, kv_head_count c, key_dimension c, value_dimension c,
       page_tokens c, token_capacity c]) @
     concat (map u64_to_le (lengths c)) @ layers_bytes (map (kv_abs c) [0..<layer_count c])"

lemma export_snapshot_Inr:
  assumes "kv_inv c" "export_snapshot sha grant c binding maximum = Inr bytes"
  shows "bytes = snapshot_payload c binding @ sha (snapshot_payload c binding)"
    "\<forall>v \<in> {layer_count c, kv_head_count c, key_dimension c, value_dimension c, page_tokens c, token_capacity c}.
       v < u64_limit"
    "\<exists>total. snapshot_bytes c (length binding) = Inr total \<and> total \<le> maximum" "maximum \<noteq> 0"
proof -
  from assms(2) obtain total cfg lens rows where
      s: "snapshot_bytes c (length binding) = Inr total" "total \<le> maximum" "maximum \<noteq> 0"
      "encode_u64s [layer_count c, kv_head_count c, key_dimension c, value_dimension c, page_tokens c, token_capacity c] = Inr cfg"
      "encode_u64s (lengths c) = Inr lens" "map_res (export_row c) (export_indices c) = Inr rows"
    and bytes: "bytes = (let output = KV_SNAPSHOT_MAGIC @ u32_to_le KV_SNAPSHOT_VERSION @ binding @ cfg @ lens @ concat rows
        in output @ sha output)"
    by (auto simp: export_snapshot_def rbind_Inr check_Inr Let_def split: if_splits)
  have rows: "concat rows = layers_bytes (map (kv_abs c) [0..<layer_count c])"
    using export_rows_eq [OF assms(1)] s(6) by simp
  show "bytes = snapshot_payload c binding @ sha (snapshot_payload c binding)"
    using encode_u64s_Inr [OF s(4)] encode_u64s_Inr [OF s(5)] rows
    by (simp add: bytes snapshot_payload_def Let_def)
  show "\<forall>v \<in> {layer_count c, kv_head_count c, key_dimension c, value_dimension c, page_tokens c, token_capacity c}.
       v < u64_limit"
    using encode_u64s_Inr [OF s(4)] by simp
  show "\<exists>total. snapshot_bytes c (length binding) = Inr total \<and> total \<le> maximum" "maximum \<noteq> 0"
    using s by auto
qed

text \<open>The announced size is the size written.\<close>

lemma length_row_bytes_of: "length (row_bytes_of kv) = 4 * (length (fst kv) + length (snd kv))"
  by (simp add: row_bytes_of_def length_concat comp_def sum_list_triv f32_codec.enc_length)

lemma length_concat_const: "(\<And>x. x \<in> set xs \<Longrightarrow> length (f x) = n) \<Longrightarrow> length (concat (map f xs)) = length xs * n"
  by (induction xs) simp_all

lemma length_token_bytes:
  assumes "kv_inv c" "l < layer_count c" "rows \<in> set (kv_abs c l)"
  shows "length (token_bytes rows) = kv_head_count c * (4 * (key_dimension c + value_dimension c))"
proof -
  obtain t where t: "rows = kv_abs c l ! t" "t < lengths c ! l" using assms(3) by (auto simp: in_set_conv_nth)
  have len: "length rows = kv_head_count c" by (rule length_token_kv_abs [OF assms])
  have "length (row_bytes_of r) = 4 * (key_dimension c + value_dimension c)" if r: "r \<in> set rows" for r
  proof -
    obtain h where "r = rows ! h" "h < kv_head_count c" using r len by (auto simp: in_set_conv_nth)
    then show ?thesis using kv_row_widths [OF assms(1,2) t(2)] t(1) by (simp add: length_row_bytes_of)
  qed
  then show ?thesis unfolding token_bytes_def using len by (simp add: length_concat_const)
qed

lemma length_layers_bytes:
  assumes "kv_inv c" "n \<le> layer_count c"
  shows "length (layers_bytes (map (kv_abs c) [0..<n])) =
    sum_list (take n (lengths c)) * (kv_head_count c * (4 * (key_dimension c + value_dimension c)))"
  using assms(2)
proof (induction n)
  case 0
  then show ?case by (simp add: layers_bytes_def)
next
  case (Suc n)
  have "length (concat (map token_bytes (kv_abs c n))) =
      length (kv_abs c n) * (kv_head_count c * (4 * (key_dimension c + value_dimension c)))"
    by (rule length_concat_const, rule length_token_bytes [OF assms(1)]) (use Suc.prems in auto)
  moreover have "take (Suc n) (lengths c) = take n (lengths c) @ [lengths c ! n]"
    using kv_inv_shape [OF assms(1)] Suc.prems by (simp add: kv_shape_def take_Suc_conv_app_nth)
  ultimately show ?case using Suc by (simp add: layers_bytes_def add_mult_distrib)
qed

lemma snapshot_payload_fold:
  "fold_res (\<lambda>tokens total.
     rbind (ok_or e1 (Option.bind (checked_mul tokens k) (\<lambda>v. checked_mul v 4))) (\<lambda>bytes.
     ok_or e2 (checked_add total bytes))) xs s = Inr t \<Longrightarrow> t = s + sum_list xs * k * 4"
proof (induction xs arbitrary: s)
  case (Cons x xs)
  then obtain u where "u = s + x * k * 4" "fold_res (\<lambda>tokens total.
     rbind (ok_or e1 (Option.bind (checked_mul tokens k) (\<lambda>v. checked_mul v 4))) (\<lambda>bytes.
     ok_or e2 (checked_add total bytes))) xs u = Inr t"
    by (auto simp: rbind_Inr ok_or_Inr bind_eq_Some_conv)
  from Cons.IH [OF this(2)] this(1) show ?case by (simp only: sum_list.Cons add_mult_distrib add.assoc)
qed simp

lemma length_snapshot_payload:
  assumes "kv_inv c" "snapshot_bytes c (length binding) = Inr announced"
  shows "length (snapshot_payload c binding) + KV_SNAPSHOT_DIGEST_BYTES = announced"
proof -
  have len: "length (lengths c) = layer_count c" using kv_inv_shape [OF assms(1)] by (simp add: kv_shape_def)
  have "announced = length KV_SNAPSHOT_MAGIC + 4 + length binding + 6 * 8 + layer_count c * 8 +
      KV_SNAPSHOT_DIGEST_BYTES +
      sum_list (lengths c) * (kv_head_count c * (key_dimension c + value_dimension c)) * 4"
    using assms(2)
    by (auto simp: snapshot_bytes_def rbind_Inr ok_or_Inr bind_eq_Some_conv dest!: snapshot_payload_fold)
  moreover have "length (concat (map u64_to_le xs)) = length xs * 8" for xs
    by (rule length_concat_const) simp
  ultimately show ?thesis
    using length_layers_bytes [OF assms(1) le_refl] len by (simp add: snapshot_payload_def)
qed

section \<open>What is read back\<close>

text \<open>The cursor at an offset where a known prefix begins.\<close>

lemma cur_take_prefix:
  assumes "drop offset bytes = x @ rest" "offset \<le> length bytes" "length bytes < u64_limit"
  shows "cur_take bytes offset (length x) = Inr (x, offset + length x)" "drop (offset + length x) bytes = rest"
    "offset + length x \<le> length bytes"
proof -
  have len: "length bytes = offset + length x + length rest"
    using arg_cong [OF assms(1), of length] assms(2) by simp
  then show "cur_take bytes offset (length x) = Inr (x, offset + length x)"
    using assms by (simp add: cur_take_def slice_def checked_add_def)
  have "drop (offset + length x) bytes = drop (length x) (drop offset bytes)" by (simp add: add.commute)
  then show "drop (offset + length x) bytes = rest" using assms(1) by simp
  show "offset + length x \<le> length bytes" using len by simp
qed

text \<open>The state of a reader: the rest of the input, at an offset inside it.\<close>

definition at :: "byte list \<Rightarrow> nat \<Rightarrow> byte list \<Rightarrow> bool" where
  "at bytes offset rest \<longleftrightarrow> offset \<le> length bytes \<and> length bytes < u64_limit \<and> drop offset bytes = rest"

lemma at_take: "at bytes offset (x @ rest) \<Longrightarrow> length x = n \<Longrightarrow>
    cur_take bytes offset n = Inr (x, offset + n) \<and> at bytes (offset + n) rest"
  using cur_take_prefix [of offset bytes x rest] by (auto simp: at_def)

lemma at_u32: "at bytes offset (u32_to_le v @ rest) \<Longrightarrow> v < 4294967296 \<Longrightarrow>
    cur_u32 bytes offset = Inr (v, offset + 4) \<and> at bytes (offset + 4) rest"
  using at_take [of bytes offset "u32_to_le v" rest 4] by (simp add: cur_u32_def u32_codec.dec_enc)

lemma at_u64: "at bytes offset (u64_to_le v @ rest) \<Longrightarrow> v < u64_limit \<Longrightarrow>
    cur_u64 bytes offset = Inr (v, offset + 8) \<and> at bytes (offset + 8) rest"
  using at_take [of bytes offset "u64_to_le v" rest 8] by (simp add: cur_u64_def u64_codec.dec_enc)

lemma at_f32: "at bytes offset (f32_to_le x @ rest) \<Longrightarrow>
    cur_f32 bytes offset = Inr (x, offset + 4) \<and> at bytes (offset + 4) rest"
proof -
  assume "at bytes offset (f32_to_le x @ rest)"
  moreover have "unat x < 4294967296" using unsigned_less [of x] by simp
  ultimately show ?thesis using at_u32 [of bytes offset "unat x" rest] by (simp add: f32_to_le_def cur_f32_def)
qed

lemma check_configuration_ok:
  "at bytes offset (concat (map (\<lambda>f. u64_to_le (snd f)) fs) @ rest) \<Longrightarrow> \<forall>f \<in> set fs. snd f < u64_limit \<Longrightarrow>
   check_configuration bytes fs offset = Inr (offset + 8 * length fs) \<and>
   at bytes (offset + 8 * length fs) rest"
proof (induction fs arbitrary: offset)
  case (Cons f fs)
  obtain field v where f: "f = (field, v)" by fastforce
  have "at bytes offset (u64_to_le v @ concat (map (\<lambda>f. u64_to_le (snd f)) fs) @ rest)" "v < u64_limit"
    using Cons.prems f by (simp_all add: comp_def)
  from at_u64 [OF this] Cons.IH [of "offset + 8"] Cons.prems(2) show ?case
    by (simp add: f u64_to_usize_def add.assoc)
qed simp

lemma read_lengths_ok:
  "at bytes offset (concat (map u64_to_le ns) @ rest) \<Longrightarrow> \<forall>n \<in> set ns. n \<le> capacity \<Longrightarrow> capacity < u64_limit \<Longrightarrow>
   length layers = length ns \<Longrightarrow>
   read_lengths bytes capacity layers offset = Inr (ns, offset + 8 * length ns) \<and>
   at bytes (offset + 8 * length ns) rest"
proof (induction ns arbitrary: offset layers)
  case (Cons n ns)
  obtain layer layers' where l: "layers = layer # layers'" using Cons.prems(4) by (cases layers) auto
  have "at bytes offset (u64_to_le n @ concat (map u64_to_le ns) @ rest)" "n < u64_limit"
    using Cons.prems by simp_all
  from at_u64 [OF this] Cons.IH [of "offset + 8" layers'] Cons.prems show ?case
    by (simp add: l u64_to_usize_def add.assoc)
qed simp

lemma splice_Cons:
  assumes "start < length buf"
  shows "splice buf start (x # xs) = splice (buf[start := x]) (Suc start) xs"
proof -
  have "take (Suc start) (buf[start := x]) = take start buf @ [x]"
    using assms by (simp add: take_Suc_conv_app_nth)
  then show ?thesis by (simp add: splice_def)
qed

lemma splice_append:
  "start + length xs + length ys \<le> length buf \<Longrightarrow>
   splice buf start (xs @ ys) = splice (splice buf start xs) (start + length xs) ys"
proof (induction xs arbitrary: buf start)
  case Nil
  then show ?case by (simp add: splice_def)
next
  case (Cons x xs)
  then show ?case using Cons.IH [of "Suc start" "buf[start := x]"] by (simp add: splice_Cons)
qed

lemma read_lanes_ok:
  "at bytes offset (concat (map f32_to_le xs) @ rest) \<Longrightarrow> start + a + length xs \<le> length buf \<Longrightarrow>
   fold_res (read_lane bytes start) [a..<a + length xs] (offset, buf) =
     Inr (offset + 4 * length xs, splice buf (start + a) xs) \<and> at bytes (offset + 4 * length xs) rest"
proof (induction xs arbitrary: offset a buf)
  case Nil
  then show ?case by (simp add: splice_def)
next
  case (Cons x xs)
  have "at bytes offset (f32_to_le x @ concat (map f32_to_le xs) @ rest)" using Cons.prems(1) by simp
  note hd = at_f32 [OF this]
  have upt: "[a..<a + length (x # xs)] = a # [Suc a..<Suc a + length xs]"
    by (simp add: upt_conv_Cons del: upt_Suc)
  have "read_lane bytes start a (offset, buf) = Inr (offset + 4, buf[start + a := x])"
    using hd by (simp add: read_lane_def)
  moreover have "splice buf (start + a) (x # xs) = splice (buf[start + a := x]) (start + Suc a) xs"
    using Cons.prems(2) by (simp add: splice_Cons)
  ultimately show ?case
    using Cons.IH [of "offset + 4" "Suc a" "buf[start + a := x]"] hd Cons.prems(2)
    unfolding upt by (simp add: add.assoc del: upt_Suc)
qed

lemma read_heads_ok:
  "at bytes offset (token_bytes rows @ rest) \<Longrightarrow>
   \<forall>r \<in> set rows. length (fst r) = k \<and> length (snd r) = v \<Longrightarrow>
   (a + length rows) * k \<le> length keys \<Longrightarrow> (a + length rows) * v \<le> length values \<Longrightarrow>
   fold_res (read_head bytes k v) [a..<a + length rows] (offset, keys, values) =
     Inr (offset + length (token_bytes rows), splice keys (a * k) (concat (map fst rows)),
       splice values (a * v) (concat (map snd rows))) \<and>
   at bytes (offset + length (token_bytes rows)) rest"
proof (induction rows arbitrary: offset a keys "values")
  case Nil
  then show ?case by (simp add: token_bytes_def splice_def)
next
  case (Cons r rows)
  let ?ks = "concat (map f32_to_le (fst r))" and ?vs = "concat (map f32_to_le (snd r))"
  have w: "length (fst r) = k" "length (snd r) = v" using Cons.prems(2) by auto
  have lens: "length ?ks = 4 * k" "length ?vs = 4 * v"
    using w by (simp_all add: length_concat comp_def sum_list_triv f32_codec.enc_length)
  have fit: "a * k + k \<le> length keys" "a * v + v \<le> length values"
    using Cons.prems(3,4) by (simp_all add: add_mult_distrib)
  have ks: "at bytes offset (?ks @ ?vs @ token_bytes rows @ rest)"
    using Cons.prems(1) by (simp add: token_bytes_def row_bytes_of_def)
  note k = read_lanes_ok [of bytes offset "fst r" "?vs @ token_bytes rows @ rest" "a * k" 0 keys, OF ks]
  note v = read_lanes_ok [of bytes "offset + 4 * k" "snd r" "token_bytes rows @ rest" "a * v" 0 "values"]
  have step: "read_head bytes k v a (offset, keys, values) =
      Inr (offset + 4 * k + 4 * v, splice keys (a * k) (fst r), splice values (a * v) (snd r))"
    and at: "at bytes (offset + 4 * k + 4 * v) (token_bytes rows @ rest)"
    using k v w fit by (simp_all add: read_head_def)
  have upt: "[a..<a + length (r # rows)] = a # [Suc a..<Suc a + length rows]"
    by (simp add: upt_conv_Cons del: upt_Suc)
  have tail: "length (splice keys (a * k) (fst r)) = length keys"
    "length (splice values (a * v) (snd r)) = length values"
    using fit w by (simp_all add: length_splice)
  have sk: "splice keys (a * k) (concat (map fst (r # rows))) =
      splice (splice keys (a * k) (fst r)) (Suc a * k) (concat (map fst rows))"
    and sv: "splice values (a * v) (concat (map snd (r # rows))) =
      splice (splice values (a * v) (snd r)) (Suc a * v) (concat (map snd rows))"
  proof -
    have "length (concat (map fst rows)) = length rows * k" "length (concat (map snd rows)) = length rows * v"
      using Cons.prems(2) by (simp_all add: length_concat_const)
    then show "splice keys (a * k) (concat (map fst (r # rows))) =
      splice (splice keys (a * k) (fst r)) (Suc a * k) (concat (map fst rows))"
      "splice values (a * v) (concat (map snd (r # rows))) =
      splice (splice values (a * v) (snd r)) (Suc a * v) (concat (map snd rows))"
      using Cons.prems(3,4) w splice_append [of "a * k" "fst r" "concat (map fst rows)" keys]
        splice_append [of "a * v" "snd r" "concat (map snd rows)" "values"]
      by (simp_all add: add_mult_distrib add.commute add.left_commute)
  qed
  have size: "offset + length (token_bytes (r # rows)) = offset + 4 * k + 4 * v + length (token_bytes rows)"
    using w by (simp add: token_bytes_def length_row_bytes_of)
  show ?case
    using Cons.IH [OF at, of "Suc a" "splice keys (a * k) (fst r)" "splice values (a * v) (snd r)"] Cons.prems(2-4) step tail
    unfolding upt sk sv size by (simp del: upt_Suc)
qed

lemma slice_concat:
  "\<forall>r \<in> set rows. length (f r) = k \<Longrightarrow> h < length rows \<Longrightarrow> slice (concat (map f rows)) (h * k) k = f (rows ! h)"
proof (induction rows arbitrary: h)
  case (Cons r rows)
  then show ?case by (cases h) (auto simp: slice_def)
qed simp

text \<open>A token of the target geometry with finite entries.\<close>

definition token_ok :: "kv_cache \<Rightarrow> (f32 list \<times> f32 list) list \<Rightarrow> bool" where
  "token_ok c rows \<longleftrightarrow> length rows = kv_head_count c \<and>
     (\<forall>r \<in> set rows. length (fst r) = key_dimension c \<and> length (snd r) = value_dimension c \<and>
        list_all f32_is_finite (fst r) \<and> list_all f32_is_finite (snd r))"

definition storage_ok :: "kv_cache \<Rightarrow> bool" where
  "storage_ok c \<longleftrightarrow> page_tokens c * kv_head_count c * key_dimension c < u64_limit \<and>
     page_tokens c * kv_head_count c * value_dimension c < u64_limit"

lemma input_rows_concat:
  assumes "length rows = heads" "\<forall>r \<in> set rows. length (fst r) = k \<and> length (snd r) = v"
  shows "input_rows heads k v (concat (map fst rows)) (concat (map snd rows)) 0 = rows"
  using assms slice_concat [of rows fst k] slice_concat [of rows snd v]
  by (intro nth_equalityI) (auto simp: input_rows_def)

lemma kv_append_granted:
  assumes inv: "kv_inv c" and st: "storage_ok c" and l: "l < layer_count c" and r: "token_ok c rows"
    and cap: "length (kv_abs c l) < token_capacity c"
  shows "\<exists>d i. kv_append (\<lambda>_ _. True) c l (concat (map fst rows)) (concat (map snd rows)) = (Inr i, d) \<and>
    kv_inv d \<and> config_of d = config_of c \<and>
    kv_abs d l = kv_abs c l @ [rows] \<and> (\<forall>l' < layer_count c. l' \<noteq> l \<longrightarrow> kv_abs d l' = kv_abs c l')"
proof -
  let ?ks = "concat (map fst rows)" and ?vs = "concat (map snd rows)"
  have len: "length ?ks = kv_head_count c * key_dimension c" "length ?vs = kv_head_count c * value_dimension c"
    using r by (simp_all add: token_ok_def length_concat_const)
  have ok: "append_ok c l 1 ?ks ?vs"
    using l r cap len by (auto simp: append_ok_def token_ok_def list_all_iff)
  have pt: "1 \<le> page_tokens c" using kv_inv_shape [OF inv] by (simp add: kv_shape_def)
  have "length ?ks \<le> page_tokens c * kv_head_count c * key_dimension c"
    "length ?vs \<le> page_tokens c * kv_head_count c * value_dimension c"
    using mult_le_mono1 [OF pt, of "kv_head_count c * key_dimension c"]
      mult_le_mono1 [OF pt, of "kv_head_count c * value_dimension c"] len by (simp_all add: mult.assoc)
  then have "fst (append_tokens (\<lambda>_ _. True) c l 1 ?ks ?vs) = Inr ()"
    using st by (intro append_granted inv ok) (auto simp: storage_ok_def)
  moreover have "input_rows (kv_head_count c) (key_dimension c) (value_dimension c) ?ks ?vs 0 = rows"
    using r by (intro input_rows_concat) (auto simp: token_ok_def)
  ultimately show ?thesis
    using append_tokens_cases [OF inv, of "\<lambda>_ _. True" l 1 ?ks ?vs]
    by (cases rule: append_tokens_cases [OF inv, of "\<lambda>_ _. True" l 1 ?ks ?vs]) (auto simp: kv_append_def)
qed

lemma config_ok_cong:
  "config_of d = config_of c \<Longrightarrow> token_ok d = token_ok c \<and> storage_ok d = storage_ok c"
  by (auto simp: config_of_eq token_ok_def storage_ok_def fun_eq_iff)

lemma splice_all: "length ys = length xs \<Longrightarrow> splice xs 0 ys = ys"
  by (simp add: splice_def)

lemma restore_token_ok:
  assumes at: "at bytes offset (token_bytes rows @ rest)" and inv: "kv_inv d" "storage_ok d" "l < layer_count d"
    and r: "token_ok d rows" and cap: "length (kv_abs d l) < token_capacity d"
    and len: "length keys = kv_head_count d * key_dimension d" "length values = kv_head_count d * value_dimension d"
  shows "\<exists>e. restore_token (\<lambda>_ _. True) bytes l (offset, keys, values, d) =
      Inr (offset + length (token_bytes rows), concat (map fst rows), concat (map snd rows), e) \<and>
    at bytes (offset + length (token_bytes rows)) rest \<and> kv_inv e \<and> config_of e = config_of d \<and>
    kv_abs e l = kv_abs d l @ [rows] \<and> (\<forall>l' < layer_count d. l' \<noteq> l \<longrightarrow> kv_abs e l' = kv_abs d l')"
proof -
  have w: "length rows = kv_head_count d"
    "\<forall>r \<in> set rows. length (fst r) = key_dimension d \<and> length (snd r) = value_dimension d"
    using r by (auto simp: token_ok_def)
  have lc: "length (concat (map fst rows)) = length keys" "length (concat (map snd rows)) = length values"
    using w len by (simp_all add: length_concat_const)
  have h: "fold_res (read_head bytes (key_dimension d) (value_dimension d)) [0..<kv_head_count d] (offset, keys, values) =
      Inr (offset + length (token_bytes rows), concat (map fst rows), concat (map snd rows)) \<and>
      at bytes (offset + length (token_bytes rows)) rest"
    using read_heads_ok [OF at w(2), of 0 keys "values"] len w(1) lc by (simp add: splice_all)
  obtain e i where e: "kv_append (\<lambda>_ _. True) d l (concat (map fst rows)) (concat (map snd rows)) = (Inr i, e)"
    "kv_inv e" "config_of e = config_of d" "kv_abs e l = kv_abs d l @ [rows]"
    "\<forall>l' < layer_count d. l' \<noteq> l \<longrightarrow> kv_abs e l' = kv_abs d l'"
    using kv_append_granted [OF inv r cap] by blast
  have "restore_token (\<lambda>_ _. True) bytes l (offset, keys, values, d) =
      Inr (offset + length (token_bytes rows), concat (map fst rows), concat (map snd rows), e)"
    using h e(1) by (simp add: restore_token_def)
  with h e(2-5) show ?thesis by blast
qed

lemma restore_tokens_ok:
  assumes "at bytes offset (concat (map token_bytes toks) @ rest)" "kv_inv d" "storage_ok d" "l < layer_count d"
    and "\<forall>rows \<in> set toks. token_ok d rows" "length (kv_abs d l) + length toks \<le> token_capacity d"
    and "length keys = kv_head_count d * key_dimension d" "length values = kv_head_count d * value_dimension d"
    and "length js = length toks"
  shows "\<exists>offset' keys' values' e. fold_res (\<lambda>_. restore_token (\<lambda>_ _. True) bytes l) js (offset, keys, values, d) =
      Inr (offset', keys', values', e) \<and> at bytes offset' rest \<and>
    length keys' = length keys \<and> length values' = length values \<and> kv_inv e \<and> config_of e = config_of d \<and>
    kv_abs e l = kv_abs d l @ toks \<and> (\<forall>l' < layer_count d. l' \<noteq> l \<longrightarrow> kv_abs e l' = kv_abs d l')"
  using assms
proof (induction toks arbitrary: offset keys "values" d js)
  case Nil
  then show ?case by simp
next
  case (Cons rows toks)
  obtain j js' where js: "js = j # js'" using Cons.prems(9) by (cases js) auto
  have a: "at bytes offset (token_bytes rows @ concat (map token_bytes toks) @ rest)"
    using Cons.prems(1) by simp
  have r: "token_ok d rows" and cap: "length (kv_abs d l) < token_capacity d" using Cons.prems(5,6) by auto
  from restore_token_ok [OF a Cons.prems(2-4) r cap Cons.prems(7,8)] obtain e where
    e: "restore_token (\<lambda>_ _. True) bytes l (offset, keys, values, d) =
      Inr (offset + length (token_bytes rows), concat (map fst rows), concat (map snd rows), e)"
    "at bytes (offset + length (token_bytes rows)) (concat (map token_bytes toks) @ rest)"
    "kv_inv e" "config_of e = config_of d" "kv_abs e l = kv_abs d l @ [rows]"
    "\<forall>l' < layer_count d. l' \<noteq> l \<longrightarrow> kv_abs e l' = kv_abs d l'" by blast
  have cfg: "layer_count e = layer_count d" "token_capacity e = token_capacity d" "kv_head_count e = kv_head_count d"
    "key_dimension e = key_dimension d" "value_dimension e = value_dimension d"
    using e(4) by (simp_all add: config_of_eq)
  have lens: "length (concat (map fst rows)) = kv_head_count d * key_dimension d"
    "length (concat (map snd rows)) = kv_head_count d * value_dimension d"
    using r by (auto simp: token_ok_def length_concat_const)
  have "\<forall>rows \<in> set toks. token_ok e rows" "storage_ok e"
    using config_ok_cong [OF e(4)] Cons.prems(3,5) by auto
  then obtain offset' keys' values' f where
    f: "fold_res (\<lambda>_. restore_token (\<lambda>_ _. True) bytes l) js'
        (offset + length (token_bytes rows), concat (map fst rows), concat (map snd rows), e) =
      Inr (offset', keys', values', f)" "at bytes offset' rest"
    "length keys' = kv_head_count d * key_dimension d" "length values' = kv_head_count d * value_dimension d"
    "kv_inv f" "config_of f = config_of e" "kv_abs f l = kv_abs e l @ toks"
    "\<forall>l' < layer_count e. l' \<noteq> l \<longrightarrow> kv_abs f l' = kv_abs e l'"
    using Cons.IH [OF e(2,3), of "concat (map fst rows)" "concat (map snd rows)" js'] Cons.prems(4,6,9) e(5) cfg lens js
    by auto
  have "fold_res (\<lambda>_. restore_token (\<lambda>_ _. True) bytes l) js (offset, keys, values, d) = Inr (offset', keys', values', f)"
    using e(1) f(1) js by simp
  moreover have "kv_abs f l = kv_abs d l @ rows # toks" using f(7) e(5) by simp
  moreover have "\<forall>l' < layer_count d. l' \<noteq> l \<longrightarrow> kv_abs f l' = kv_abs d l'" using f(8) e(6) cfg(1) by simp
  moreover have "config_of f = config_of d" using f(6) e(4) by simp
  ultimately show ?case using f(2-5) Cons.prems(7,8) by auto
qed

lemma restore_layers_ok:
  assumes "at bytes offset (layers_bytes lss @ rest)" "kv_inv d" "storage_ok d" "i + length lss \<le> layer_count d"
    and "\<forall>toks \<in> set lss. length toks \<le> token_capacity d \<and> (\<forall>rows \<in> set toks. token_ok d rows)"
    and "\<forall>l < layer_count d. i \<le> l \<longrightarrow> kv_abs d l = []"
    and "length keys = kv_head_count d * key_dimension d" "length values = kv_head_count d * value_dimension d"
  shows "\<exists>offset' keys' values' e.
      restore_layers (\<lambda>_ _. True) bytes (enumerate i (map length lss)) (offset, keys, values, d) =
      Inr (offset', keys', values', e) \<and> at bytes offset' rest \<and> kv_inv e \<and> config_of e = config_of d \<and>
    (\<forall>l < layer_count d. kv_abs e l = (if i \<le> l \<and> l < i + length lss then lss ! (l - i) else kv_abs d l))"
  using assms
proof (induction lss arbitrary: offset keys "values" d i)
  case Nil
  then show ?case by (auto simp: restore_layers_def layers_bytes_def)
next
  case (Cons toks lss)
  have a: "at bytes offset (concat (map token_bytes toks) @ layers_bytes lss @ rest)"
    using Cons.prems(1) by (simp add: layers_bytes_def)
  have i: "i < layer_count d" using Cons.prems(4) by simp
  have t: "\<forall>rows \<in> set toks. token_ok d rows" "length (kv_abs d i) + length toks \<le> token_capacity d"
    "kv_abs d i = []"
    using Cons.prems(5,6) i by auto
  from restore_tokens_ok [OF a Cons.prems(2,3) i t(1,2) Cons.prems(7,8), of "[0..<length toks]"]
  obtain offset1 keys1 values1 e where
    e: "fold_res (\<lambda>_. restore_token (\<lambda>_ _. True) bytes i) [0..<length toks] (offset, keys, values, d) =
      Inr (offset1, keys1, values1, e)" "at bytes offset1 (layers_bytes lss @ rest)"
    "length keys1 = length keys" "length values1 = length values" "kv_inv e" "config_of e = config_of d"
    "kv_abs e i = toks" "\<forall>l' < layer_count d. l' \<noteq> i \<longrightarrow> kv_abs e l' = kv_abs d l'"
    using t(3) by auto
  have cfg: "layer_count e = layer_count d" "token_capacity e = token_capacity d" "kv_head_count e = kv_head_count d"
    "key_dimension e = key_dimension d" "value_dimension e = value_dimension d"
    using e(6) by (simp_all add: config_of_eq)
  have "storage_ok e" "\<forall>toks \<in> set lss. length toks \<le> token_capacity e \<and> (\<forall>rows \<in> set toks. token_ok e rows)"
    using config_ok_cong [OF e(6)] Cons.prems(3,5) cfg by auto
  moreover have "\<forall>l < layer_count e. Suc i \<le> l \<longrightarrow> kv_abs e l = []"
    using e(8) Cons.prems(6) cfg by simp
  moreover have "Suc i + length lss \<le> layer_count e" using Cons.prems(4) cfg by simp
  ultimately obtain offset2 keys2 values2 f where
    f: "restore_layers (\<lambda>_ _. True) bytes (enumerate (Suc i) (map length lss)) (offset1, keys1, values1, e) =
      Inr (offset2, keys2, values2, f)" "at bytes offset2 rest" "kv_inv f" "config_of f = config_of e"
    "\<forall>l < layer_count e. kv_abs f l = (if Suc i \<le> l \<and> l < Suc i + length lss then lss ! (l - Suc i) else kv_abs e l)"
    using Cons.IH [OF e(2,5), of "Suc i" keys1 values1] e(3,4) Cons.prems(7,8) cfg by auto
  have "restore_layers (\<lambda>_ _. True) bytes (enumerate i (map length (toks # lss))) (offset, keys, values, d) =
      Inr (offset2, keys2, values2, f)"
    using e(1) f(1) by (simp add: restore_layers_def)
  moreover have "kv_abs f l = (if i \<le> l \<and> l < i + length (toks # lss) then (toks # lss) ! (l - i) else kv_abs d l)"
    if l: "l < layer_count d" for l
  proof (cases "l = i")
    case True
    then show ?thesis using f(5) l cfg(1) e(7) by simp
  next
    case False
    then have "Suc i \<le> l \<longleftrightarrow> i \<le> l" by auto
    then show ?thesis using f(5) l cfg(1) e(8) False by (auto simp: nth_Cons' Suc_diff_Suc)
  qed
  moreover have "config_of f = config_of d" using f(4) e(6) by simp
  ultimately show ?case using f(2,3) by blast
qed

section \<open>Finite rows\<close>

text \<open>Only finite numbers are ever committed, so a stored row passes the checks of a second append.\<close>

definition kv_finite :: "kv_cache \<Rightarrow> bool" where
  "kv_finite c \<longleftrightarrow> (\<forall>l < layer_count c. \<forall>rows \<in> set (kv_abs c l). token_ok c rows)"

lemma input_rows_ok:
  assumes ok: "append_ok c l n keys values" and t: "t < n"
  shows "token_ok c (input_rows (kv_head_count c) (key_dimension c) (value_dimension c) keys values t)"
proof -
  have sub: "set (slice xs s k) \<subseteq> set xs" for xs :: "f32 list" and s k
    unfolding slice_def by (meson order_trans set_drop_subset set_take_subset)
  have w: "length (slice keys ((t * kv_head_count c + h) * key_dimension c) (key_dimension c)) = key_dimension c \<and>
      length (slice values ((t * kv_head_count c + h) * value_dimension c) (value_dimension c)) = value_dimension c"
    if "h < kv_head_count c" for h
    using source_rows_ok [OF ok t that] by (simp add: source_ok_def source_key_def source_value_def)
  have "list_all f32_is_finite (slice xs s k)" if "list_all f32_is_finite xs" for xs s k
    using that sub [of xs s k] by (auto simp: list_all_iff)
  then show ?thesis
    using ok w by (auto simp: token_ok_def input_rows_def append_ok_def)
qed

lemma append_tokens_finite:
  assumes "kv_inv c" "kv_finite c" "append_tokens grant c l n keys values = (r, d)"
  shows "kv_finite d"
proof (cases rule: append_tokens_cases [OF assms(1), of grant l n keys "values"])
  case (1 e)
  then show ?thesis using assms by simp
next
  case (2 d')
  note ok = this
  have d: "d' = d" using ok(1) assms(3) by simp
  have "token_ok d rows" if "l' < layer_count c" "rows \<in> set (kv_abs d l')" for l' rows
  proof (cases "l' = l")
    case True
    then have "rows \<in> set (kv_abs c l) \<or>
        (\<exists>t < n. rows = input_rows (kv_head_count c) (key_dimension c) (value_dimension c) keys values t)"
      using that(2) ok(5) d by auto
    then have "token_ok c rows" using input_rows_ok [OF ok(2)] assms(2) that(1) True by (auto simp: kv_finite_def)
    then show ?thesis using config_ok_cong [OF ok(4)] d by simp
  next
    case False
    then have "token_ok c rows" using ok(6) [OF that(1) False] that assms(2) d by (auto simp: kv_finite_def)
    then show ?thesis using config_ok_cong [OF ok(4)] d by simp
  qed
  then show ?thesis using ok(4) d by (simp add: kv_finite_def config_of_eq)
qed

lemma prefix_finite:
  assumes "kv_finite c" "config_of d = config_of c" "\<And>l. l < layer_count c \<Longrightarrow> kv_abs d l = take n (kv_abs c l)"
  shows "kv_finite d"
  unfolding kv_finite_def
proof (intro allI impI ballI)
  fix l rows assume "l < layer_count d" "rows \<in> set (kv_abs d l)"
  then have "l < layer_count c" "rows \<in> set (kv_abs c l)"
    using assms(2,3) in_set_takeD by (auto simp: config_of_eq)
  then show "token_ok d rows" using assms(1) config_ok_cong [OF assms(2)] by (simp add: kv_finite_def)
qed

section \<open>Accepted snapshots\<close>

text \<open>\<open>span bytes s x e\<close>: the bytes from \<open>s\<close> up to \<open>e\<close> are \<open>x\<close>.\<close>

definition span :: "byte list \<Rightarrow> nat \<Rightarrow> byte list \<Rightarrow> nat \<Rightarrow> bool" where
  "span bytes s x e \<longleftrightarrow> e = s + length x \<and> e \<le> length bytes \<and> slice bytes s (length x) = x"

lemma span_Nil: "s \<le> length bytes \<Longrightarrow> span bytes s [] s"
  by (simp add: span_def slice_def)

lemma span_append: "span bytes s x m \<Longrightarrow> span bytes m y e \<Longrightarrow> span bytes s (x @ y) e"
  by (auto simp: span_def slice_def take_add add.commute [of s "length x"])

lemma span_end: "span bytes s x e \<Longrightarrow> e \<le> length bytes"
  by (simp add: span_def)

lemma span_whole: "span bytes 0 x e \<Longrightarrow> cur_remaining bytes e = 0 \<Longrightarrow> bytes = x"
  by (auto simp: span_def slice_def cur_remaining_def)

lemma cur_take_span: "cur_take bytes s n = Inr (x, e) \<Longrightarrow> span bytes s x e \<and> length x = n"
  by (auto simp: cur_take_def rbind_Inr ok_or_Inr span_def slice_def split: if_splits)

lemma cur_u32_span: "cur_u32 bytes s = Inr (v, e) \<Longrightarrow> span bytes s (u32_to_le v) e \<and> v < 4294967296"
  by (auto simp: cur_u32_def rbind_Inr u32_codec.enc_dec u32_codec.dec_valid dest!: cur_take_span)

lemma cur_u64_span: "cur_u64 bytes s = Inr (v, e) \<Longrightarrow> span bytes s (u64_to_le v) e"
  by (auto simp: cur_u64_def rbind_Inr u64_codec.enc_dec dest!: cur_take_span)

lemma cur_f32_span: "cur_f32 bytes s = Inr (x, e) \<Longrightarrow> span bytes s (f32_to_le x) e"
  by (auto simp: cur_f32_def rbind_Inr f32_to_le_def unat_word32 simp del: unsigned_of_nat dest!: cur_u32_span)

lemma check_configuration_span:
  "check_configuration bytes fs s = Inr e \<Longrightarrow> s \<le> length bytes \<Longrightarrow>
    span bytes s (concat (map (\<lambda>f. u64_to_le (snd f)) fs)) e"
proof (induction fs arbitrary: s)
  case (Cons f fs)
  obtain field v where f: "f = (field, v)" by fastforce
  obtain m where m: "cur_u64 bytes s = Inr (v, m)" "check_configuration bytes fs m = Inr e"
    using Cons.prems(1) by (auto simp: f rbind_Inr u64_to_usize_def split: if_splits)
  note c = cur_u64_span [OF m(1)]
  from span_append [OF c Cons.IH [OF m(2) span_end [OF c]]] show ?case by (simp add: f)
qed (simp add: span_Nil)

lemma read_lengths_span:
  "read_lengths bytes capacity layers s = Inr (ns, e) \<Longrightarrow> s \<le> length bytes \<Longrightarrow>
    span bytes s (concat (map u64_to_le ns)) e \<and> length ns = length layers"
proof (induction layers arbitrary: s ns)
  case (Cons layer layers)
  obtain n ms m where m: "cur_u64 bytes s = Inr (n, m)" "read_lengths bytes capacity layers m = Inr (ms, e)" "ns = n # ms"
    using Cons.prems(1) by (auto simp: rbind_Inr u64_to_usize_def split: if_splits prod.splits)
  note c = cur_u64_span [OF m(1)]
  from Cons.IH [OF m(2) span_end [OF c]] span_append [OF c] show ?case by (simp add: m(3))
qed (simp add: span_Nil)

text \<open>Every lane, head, token and layer that is read is what the bytes encode.\<close>

lemma read_lanes_span:
  "fold_res (read_lane bytes start) [a..<a + n] (s, buf) = Inr (e, buf') \<Longrightarrow> s \<le> length bytes \<Longrightarrow>
   start + a + n \<le> length buf \<Longrightarrow>
   \<exists>xs. length xs = n \<and> buf' = splice buf (start + a) xs \<and> span bytes s (concat (map f32_to_le xs)) e"
proof (induction n arbitrary: a s buf)
  case 0
  then show ?case by (simp add: splice_def span_Nil)
next
  case (Suc n)
  have upt: "[a..<a + Suc n] = a # [Suc a..<Suc a + n]" by (simp add: upt_conv_Cons del: upt_Suc)
  obtain p where p: "read_lane bytes start a (s, buf) = Inr p"
    "fold_res (read_lane bytes start) [Suc a..<Suc a + n] p = Inr (e, buf')"
    using Suc.prems(1) unfolding upt by (auto simp: rbind_Inr simp del: upt_Suc)
  then obtain x m where m: "cur_f32 bytes s = Inr (x, m)"
    "fold_res (read_lane bytes start) [Suc a..<Suc a + n] (m, buf[start + a := x]) = Inr (e, buf')"
    by (auto simp: rbind_Inr read_lane_def [of _ _ a])
  note c = cur_f32_span [OF m(1)]
  obtain xs where xs: "length xs = n" "buf' = splice (buf[start + a := x]) (start + Suc a) xs"
    "span bytes m (concat (map f32_to_le xs)) e"
    using Suc.IH [OF m(2) span_end [OF c]] Suc.prems(3) by auto
  show ?case
    by (rule exI [of _ "x # xs"]) (use xs span_append [OF c xs(3)] Suc.prems(3) in \<open>simp add: splice_Cons\<close>)
qed

lemma read_heads_span:
  "fold_res (read_head bytes k v) [a..<a + n] (s, keys, values) = Inr (e, keys', values') \<Longrightarrow> s \<le> length bytes \<Longrightarrow>
   (a + n) * k \<le> length keys \<Longrightarrow> (a + n) * v \<le> length values \<Longrightarrow>
   \<exists>rows. length rows = n \<and> (\<forall>r \<in> set rows. length (fst r) = k \<and> length (snd r) = v) \<and>
     keys' = splice keys (a * k) (concat (map fst rows)) \<and> values' = splice values (a * v) (concat (map snd rows)) \<and>
     span bytes s (token_bytes rows) e"
proof (induction n arbitrary: a s keys "values")
  case 0
  then show ?case by (simp add: splice_def token_bytes_def span_Nil)
next
  case (Suc n)
  have upt: "[a..<a + Suc n] = a # [Suc a..<Suc a + n]" by (simp add: upt_conv_Cons del: upt_Suc)
  obtain p where p: "read_head bytes k v a (s, keys, values) = Inr p"
    "fold_res (read_head bytes k v) [Suc a..<Suc a + n] p = Inr (e, keys', values')"
    using Suc.prems(1) unfolding upt by (auto simp: rbind_Inr simp del: upt_Suc)
  then obtain o1 ks o2 vs where o1: "fold_res (read_lane bytes (a * k)) [0..<0 + k] (s, keys) = Inr (o1, ks)"
    and o2: "fold_res (read_lane bytes (a * v)) [0..<0 + v] (o1, values) = Inr (o2, vs)"
    and rest: "fold_res (read_head bytes k v) [Suc a..<Suc a + n] (o2, ks, vs) = Inr (e, keys', values')"
    by (auto simp: rbind_Inr read_head_def [of _ _ _ a])
  have fit: "a * k + k \<le> length keys" "a * v + v \<le> length values"
    using Suc.prems(3,4) by (simp_all add: add_mult_distrib)
  obtain xs where xs: "length xs = k" "ks = splice keys (a * k) xs" "span bytes s (concat (map f32_to_le xs)) o1"
    using read_lanes_span [OF o1 Suc.prems(2)] fit by auto
  obtain ys where ys: "length ys = v" "vs = splice values (a * v) ys" "span bytes o1 (concat (map f32_to_le ys)) o2"
    using read_lanes_span [OF o2 span_end [OF xs(3)]] fit by auto
  have len: "length ks = length keys" "length vs = length values" using xs ys fit by (simp_all add: length_splice)
  obtain rows where rows: "length rows = n" "\<forall>r \<in> set rows. length (fst r) = k \<and> length (snd r) = v"
    "keys' = splice ks (Suc a * k) (concat (map fst rows))" "values' = splice vs (Suc a * v) (concat (map snd rows))"
    "span bytes o2 (token_bytes rows) e"
    using Suc.IH [OF rest span_end [OF ys(3)]] Suc.prems(3,4) len by auto
  have "length (concat (map fst rows)) = n * k" "length (concat (map snd rows)) = n * v"
    using rows(1,2) by (simp_all add: length_concat_const)
  then have "keys' = splice keys (a * k) (xs @ concat (map fst rows))"
    "values' = splice values (a * v) (ys @ concat (map snd rows))"
    using splice_append [of "a * k" xs "concat (map fst rows)" keys] splice_append [of "a * v" ys "concat (map snd rows)" "values"]
      xs(1,2) ys(1,2) rows(3,4) Suc.prems(3,4) by (simp_all add: add_mult_distrib add.commute add.left_commute)
  moreover have "span bytes s (token_bytes ((xs, ys) # rows)) e"
    using span_append [OF xs(3) span_append [OF ys(3) rows(5)]] by (simp add: token_bytes_def row_bytes_of_def)
  ultimately show ?case using xs(1) ys(1) rows(1,2) by (intro exI [of _ "(xs, ys) # rows"]) simp
qed

lemma restore_token_sound:
  assumes "restore_token grant bytes l (s, keys, values, d) = Inr (e, keys', values', d')" "kv_inv d" "s \<le> length bytes"
    and "length keys = kv_head_count d * key_dimension d" "length values = kv_head_count d * value_dimension d"
  shows "\<exists>rows. kv_inv d' \<and> config_of d' = config_of d \<and> kv_abs d' l = kv_abs d l @ [rows] \<and>
    (\<forall>l' < layer_count d. l' \<noteq> l \<longrightarrow> kv_abs d' l' = kv_abs d l') \<and> span bytes s (token_bytes rows) e \<and>
    length keys' = length keys \<and> length values' = length values"
proof -
  obtain o1 k1 v1 where h: "fold_res (read_head bytes (key_dimension d) (value_dimension d)) [0..<0 + kv_head_count d]
      (s, keys, values) = Inr (o1, k1, v1)"
    and a': "(case kv_append grant d l k1 v1 of (Inl e, _) \<Rightarrow> Inl e | (Inr _, d) \<Rightarrow> Inr (o1, k1, v1, d)) =
      (Inr (e, keys', values', d') :: kv_error + restore_state)"
    using assms(1) by (auto simp: restore_token_def rbind_Inr)
  then obtain i where a: "kv_append grant d l keys' values' = (Inr i, d')" "o1 = e" "k1 = keys'" "v1 = values'"
    by (cases "kv_append grant d l k1 v1"; cases "fst (kv_append grant d l k1 v1)") auto
  obtain rows where rows: "length rows = kv_head_count d"
    "\<forall>r \<in> set rows. length (fst r) = key_dimension d \<and> length (snd r) = value_dimension d"
    "keys' = splice keys 0 (concat (map fst rows))" "values' = splice values 0 (concat (map snd rows))"
    "span bytes s (token_bytes rows) e"
    using read_heads_span [OF h assms(3)] assms(4,5) a(2-4) by auto
  have "length (concat (map fst rows)) = length keys" "length (concat (map snd rows)) = length values"
    using rows(1,2) assms(4,5) by (simp_all add: length_concat_const)
  then have flat: "keys' = concat (map fst rows)" "values' = concat (map snd rows)"
    "length keys' = length keys" "length values' = length values"
    using rows(3,4) by (simp_all add: splice_all)
  have "append_tokens grant d l 1 keys' values' = (Inr (), d')"
    using a(1) by (auto simp: kv_append_def split: prod.splits sum.splits)
  then show ?thesis
    using rows(5) flat input_rows_concat [OF rows(1,2)]
    by (cases rule: append_tokens_cases [OF assms(2), of grant l 1 keys' values']) auto
qed

lemma restore_tokens_sound:
  assumes "fold_res (\<lambda>t. restore_token (g t) bytes l) js (s, keys, values, d) = Inr (e, keys', values', d')" "kv_inv d"
    and "s \<le> length bytes"
    and "length keys = kv_head_count d * key_dimension d" "length values = kv_head_count d * value_dimension d"
  shows "\<exists>toks. kv_inv d' \<and> config_of d' = config_of d \<and> kv_abs d' l = kv_abs d l @ toks \<and> length toks = length js \<and>
    (\<forall>l' < layer_count d. l' \<noteq> l \<longrightarrow> kv_abs d' l' = kv_abs d l') \<and> span bytes s (concat (map token_bytes toks)) e \<and>
    length keys' = length keys \<and> length values' = length values"
  using assms
proof (induction js arbitrary: s keys "values" d)
  case Nil
  then show ?case by (simp add: span_Nil)
next
  case (Cons j js)
  then obtain o1 k1 v1 d1 where r: "restore_token (g j) bytes l (s, keys, values, d) = Inr (o1, k1, v1, d1)"
    "fold_res (\<lambda>t. restore_token (g t) bytes l) js (o1, k1, v1, d1) = Inr (e, keys', values', d')"
    by (auto simp: rbind_Inr)
  from restore_token_sound [OF r(1) Cons.prems(2-5)] obtain rows where d1: "kv_inv d1" "config_of d1 = config_of d"
    "kv_abs d1 l = kv_abs d l @ [rows]" "\<forall>l' < layer_count d. l' \<noteq> l \<longrightarrow> kv_abs d1 l' = kv_abs d l'"
    "span bytes s (token_bytes rows) o1" "length k1 = length keys" "length v1 = length values" by blast
  obtain toks where toks: "kv_inv d'" "config_of d' = config_of d1" "kv_abs d' l = kv_abs d1 l @ toks" "length toks = length js"
    "\<forall>l' < layer_count d1. l' \<noteq> l \<longrightarrow> kv_abs d' l' = kv_abs d1 l'" "span bytes o1 (concat (map token_bytes toks)) e"
    "length keys' = length k1" "length values' = length v1"
    using Cons.IH [OF r(2) d1(1) span_end [OF d1(5)]] d1(2,6,7) Cons.prems(4,5) by (auto simp: config_of_eq)
  show ?case
    using toks d1(2-4,6,7) span_append [OF d1(5) toks(6)]
    by (intro exI [of _ "rows # toks"]) (auto simp: config_of_eq)
qed

lemma restore_layers_sound:
  assumes "restore_layers grant bytes (enumerate i ns) (s, keys, values, d) = Inr (e, keys', values', d')"
    "kv_inv d" "i + length ns \<le> layer_count d" "s \<le> length bytes"
    and "length keys = kv_head_count d * key_dimension d" "length values = kv_head_count d * value_dimension d"
    and "\<forall>l < layer_count d. i \<le> l \<longrightarrow> kv_abs d l = []"
  shows "kv_inv d' \<and> config_of d' = config_of d \<and> (\<forall>l < i. kv_abs d' l = kv_abs d l) \<and>
    map length (map (kv_abs d') [i..<i + length ns]) = ns \<and>
    span bytes s (layers_bytes (map (kv_abs d') [i..<i + length ns])) e"
  using assms
proof (induction ns arbitrary: s keys "values" d i)
  case Nil
  then show ?case by (simp add: restore_layers_def layers_bytes_def span_Nil)
next
  case (Cons n ns)
  then obtain o1 k1 v1 d1 where
    r: "fold_res (\<lambda>t. restore_token (at_step (at_step grant i) t) bytes i) [0..<n] (s, keys, values, d) = Inr (o1, k1, v1, d1)"
    "restore_layers grant bytes (enumerate (Suc i) ns) (o1, k1, v1, d1) = Inr (e, keys', values', d')"
    by (auto simp: restore_layers_def rbind_Inr)
  have i: "i < layer_count d" "kv_abs d i = []" using Cons.prems(3,7) by auto
  from restore_tokens_sound [OF r(1) Cons.prems(2,4-6)] i(2) obtain toks where d1: "kv_inv d1" "config_of d1 = config_of d"
    "kv_abs d1 i = toks" "length toks = n" "\<forall>l' < layer_count d. l' \<noteq> i \<longrightarrow> kv_abs d1 l' = kv_abs d l'"
    "span bytes s (concat (map token_bytes toks)) o1" "length k1 = length keys" "length v1 = length values" by auto
  have cfg: "layer_count d1 = layer_count d" "kv_head_count d1 = kv_head_count d" "key_dimension d1 = key_dimension d"
    "value_dimension d1 = value_dimension d" using d1(2) by (simp_all add: config_of_eq)
  have IH: "kv_inv d' \<and> config_of d' = config_of d1 \<and> (\<forall>l < Suc i. kv_abs d' l = kv_abs d1 l) \<and>
    map length (map (kv_abs d') [Suc i..<Suc i + length ns]) = ns \<and>
    span bytes o1 (layers_bytes (map (kv_abs d') [Suc i..<Suc i + length ns])) e"
    by (rule Cons.IH [OF r(2) d1(1)]) (use Cons.prems(3,5-7) cfg d1(5,7,8) span_end [OF d1(6)] in auto)
  have upt: "[i..<i + length (n # ns)] = i # [Suc i..<Suc i + length ns]" by (simp add: upt_conv_Cons del: upt_Suc)
  have "kv_abs d' i = toks" using IH d1(3) by simp
  moreover have "span bytes s (concat (map token_bytes toks) @ layers_bytes (map (kv_abs d') [Suc i..<Suc i + length ns])) e"
    using span_append [OF d1(6)] IH by blast
  ultimately show ?case
    using IH d1(2,4,5) i(1) unfolding upt by (simp add: layers_bytes_def del: upt_Suc length_kv_abs)
qed

lemma first_different_Inr: "first_different n i ns = Inr () \<longleftrightarrow> (\<forall>m \<in> set ns. m = n)"
  by (induction ns arbitrary: i) auto

lemma check_uniform_Inr: "check_uniform ns = Inr () \<Longrightarrow> i < length ns \<Longrightarrow> j < length ns \<Longrightarrow> ns ! i = ns ! j"
proof (cases ns)
  case (Cons n ms)
  assume "check_uniform ns = Inr ()" "i < length ns" "j < length ns"
  then have "\<forall>m \<in> set ns. m = n" by (simp add: check_uniform_def first_different_Inr Cons)
  then show "ns ! i = ns ! j" using \<open>i < length ns\<close> \<open>j < length ns\<close> nth_mem by metis
qed simp

lemma check_uniform_intro:
  assumes "\<forall>i < length ns. \<forall>j < length ns. ns ! i = ns ! j"
  shows "check_uniform ns = Inr ()"
proof (cases ns)
  case (Cons n ms)
  have "m = n" if m: "m \<in> set ns" for m
  proof -
    obtain i where i: "i < length ns" "ns ! i = m" using m by (meson in_set_conv_nth)
    have "ns ! i = ns ! 0" using assms i(1) Cons by blast
    then show ?thesis using i Cons by simp
  qed
  then show ?thesis unfolding check_uniform_def Cons by (simp add: first_different_Inr)
qed (simp add: check_uniform_def)

lemma restore_body_sound:
  assumes "restore_body grant c bytes uniform s = Inr d" "kv_inv c" "s \<le> length bytes"
  shows "kv_inv d \<and> config_of d = config_of c \<and>
    (uniform \<longrightarrow> (\<forall>i < layer_count c. \<forall>j < layer_count c. length (kv_abs d i) = length (kv_abs d j))) \<and>
    (\<exists>e. cur_remaining bytes e = 0 \<and> span bytes s (concat (map u64_to_le [layer_count d, kv_head_count d, key_dimension d,
       value_dimension d, page_tokens d, token_capacity d]) @
     concat (map u64_to_le (lengths d)) @ layers_bytes (map (kv_abs d) [0..<layer_count d])) e)"
proof -
  obtain o1 lens o2 fresh e k3 v3 where
    r: "check_configuration bytes [(''layer_count'', layer_count c), (''kv_head_count'', kv_head_count c),
        (''key_dimension'', key_dimension c), (''value_dimension'', value_dimension c), (''page_tokens'', page_tokens c),
        (''token_capacity'', token_capacity c)] s = Inr o1"
    "read_lengths bytes (token_capacity c) [0..<layer_count c] o1 = Inr (lens, o2)"
    "uniform \<longrightarrow> check_uniform lens = Inr ()"
    "kv_new_lazy grant (layer_count c) (kv_head_count c) (key_dimension c) (value_dimension c)
       (page_tokens c) (token_capacity c) = Inr fresh"
    "restore_layers grant bytes (enumerate 0 lens) (o2, replicate (kv_head_count c * key_dimension c) 0,
       replicate (kv_head_count c * value_dimension c) 0, fresh) = Inr (e, k3, v3, d)"
    "cur_remaining bytes e = 0"
    using assms(1) unfolding restore_body_def
    by (elim rbind_pair_InrE rbind_InrE)
       (auto simp: rbind_Inr check_Inr zeroed_vec_def ok_or_Inr simp del: check_configuration.simps split: if_splits prod.splits)
  note new = new_with_allocation_inv [OF r(4) [unfolded kv_new_lazy_def]]
  have cfg: "config_of fresh = config_of c"
    using new(2) kv_inv_shape [OF assms(2)] by (simp add: kv_shape_def config_of_def)
  have ff: "layer_count fresh = layer_count c" "kv_head_count fresh = kv_head_count c" "key_dimension fresh = key_dimension c"
    "value_dimension fresh = value_dimension c" using cfg by (simp_all add: config_of_eq)
  note s1 = check_configuration_span [OF r(1) assms(3)]
  from read_lengths_span [OF r(2) span_end [OF s1]]
  have s2: "span bytes o1 (concat (map u64_to_le lens)) o2" and len: "length lens = layer_count c" by simp_all
  have "kv_inv d \<and> config_of d = config_of fresh \<and> (\<forall>l < 0. kv_abs d l = kv_abs fresh l) \<and>
      map length (map (kv_abs d) [0..<0 + length lens]) = lens \<and>
      span bytes o2 (layers_bytes (map (kv_abs d) [0..<0 + length lens])) e"
    by (rule restore_layers_sound [OF r(5) new(1)]) (use new(3) len ff span_end [OF s2] in auto)
  then have d: "kv_inv d" "config_of d = config_of c" "map (\<lambda>l. length (kv_abs d l)) [0..<layer_count c] = lens"
      "span bytes o2 (layers_bytes (map (kv_abs d) [0..<layer_count c])) e"
    using cfg len by (simp_all add: comp_def)
  have dd: "layer_count d = layer_count c" "kv_head_count d = kv_head_count c" "key_dimension d = key_dimension c"
    "value_dimension d = value_dimension c" "page_tokens d = page_tokens c" "token_capacity d = token_capacity c"
    using d(2) by (simp_all add: config_of_eq)
  have lens: "lengths d = lens"
    using kv_inv_shape [OF d(1)] d(3) dd(1) by (auto simp: kv_shape_def intro!: nth_equalityI)
  have "length (kv_abs d l) = lens ! l" if "l < layer_count c" for l
    using that lens by simp
  then have "uniform \<longrightarrow> (\<forall>i < layer_count c. \<forall>j < layer_count c. length (kv_abs d i) = length (kv_abs d j))"
    using check_uniform_Inr [of lens] r(3) len by metis
  moreover have "span bytes s (concat (map u64_to_le [layer_count d, kv_head_count d, key_dimension d,
       value_dimension d, page_tokens d, token_capacity d]) @
     concat (map u64_to_le (lengths d)) @ layers_bytes (map (kv_abs d) [0..<layer_count d])) e"
    using span_append [OF s1 span_append [OF s2 d(4)]] lens dd by simp
  ultimately show ?thesis using d(1,2) r(6) by blast
qed

lemma kv_new_lazy_granted:
  assumes "0 < layers" "0 < heads" "0 < kdim" "0 < vdim" "0 < ptokens" "0 < capacity"
    "capacity + (ptokens - 1) < u64_limit"
  shows "\<exists>c. kv_new_lazy (\<lambda>_ _. True) layers heads kdim vdim ptokens capacity = Inr c"
  using assms
  by (simp add: kv_new_lazy_def new_with_allocation_def layer_table_def zeroed_vec_def checked_add_def Let_def
      map_res_total)

lemma restore_parse_sound:
  assumes "restore_parse sha grant c binding bytes maximum uniform = Inr d" "kv_inv c"
  shows "length bytes \<le> maximum \<and>
    bytes = snapshot_payload d binding @ sha (snapshot_payload d binding) \<and>
    length (sha (snapshot_payload d binding)) = KV_SNAPSHOT_DIGEST_BYTES \<and> kv_inv d \<and> config_of d = config_of c \<and>
    (uniform \<longrightarrow> (\<forall>i < layer_count c. \<forall>j < layer_count c. length (kv_abs d i) = length (kv_abs d j)))"
proof -
  let ?payload = "take (length bytes - KV_SNAPSHOT_DIGEST_BYTES) bytes"
  have b: "length bytes \<le> maximum" "KV_SNAPSHOT_DIGEST_BYTES \<le> length bytes"
    using assms(1) by (auto simp: restore_parse_def split: if_splits)
  obtain s1 s2 s3 where r: "sha ?payload = drop (length bytes - KV_SNAPSHOT_DIGEST_BYTES) bytes"
      "cur_take ?payload 0 (length KV_SNAPSHOT_MAGIC) = Inr (KV_SNAPSHOT_MAGIC, s1)"
      "cur_u32 ?payload s1 = Inr (KV_SNAPSHOT_VERSION, s2)" "cur_take ?payload s2 (length binding) = Inr (binding, s3)"
      "restore_body grant c ?payload uniform s3 = Inr d"
    using assms(1) by (auto simp: restore_parse_def rbind_Inr check_Inr Let_def split: if_splits)
  have s: "span ?payload 0 KV_SNAPSHOT_MAGIC s1" "span ?payload s1 (u32_to_le KV_SNAPSHOT_VERSION) s2" "span ?payload s2 binding s3"
    using cur_take_span [OF r(2)] cur_u32_span [OF r(3)] cur_take_span [OF r(4)] by blast+
  from restore_body_sound [OF r(5) assms(2) span_end [OF s(3)]]
  obtain e where d: "kv_inv d" "config_of d = config_of c"
    "uniform \<longrightarrow> (\<forall>i < layer_count c. \<forall>j < layer_count c. length (kv_abs d i) = length (kv_abs d j))"
    and e: "cur_remaining ?payload e = 0" "span ?payload s3 (concat (map u64_to_le [layer_count d, kv_head_count d,
       key_dimension d, value_dimension d, page_tokens d, token_capacity d]) @
     concat (map u64_to_le (lengths d)) @ layers_bytes (map (kv_abs d) [0..<layer_count d])) e"
    by blast
  have p: "?payload = snapshot_payload d binding"
    unfolding snapshot_payload_def
    by (rule span_whole [OF span_append [OF s(1) span_append [OF s(2) span_append [OF s(3) e(2)]]] e(1)])
  have "bytes = ?payload @ drop (length bytes - KV_SNAPSHOT_DIGEST_BYTES) bytes" by simp
  then have "bytes = snapshot_payload d binding @ sha (snapshot_payload d binding)" unfolding p using r(1) p by simp
  moreover have "length (sha (snapshot_payload d binding)) = KV_SNAPSHOT_DIGEST_BYTES" using r(1) b(2) p by simp
  ultimately show ?thesis using b(1) d by blast
qed

lemma restore_body_complete:
  assumes inv: "kv_inv c" "kv_finite c" "storage_ok c" "kv_inv d" "config_of d = config_of c"
    and small: "\<forall>v \<in> {layer_count c, kv_head_count c, key_dimension c, value_dimension c, page_tokens c, token_capacity c}.
       v < u64_limit"
    and room: "token_capacity c + (page_tokens c - 1) < u64_limit"
    and at: "at bytes offset (concat (map u64_to_le [layer_count c, kv_head_count c, key_dimension c,
        value_dimension c, page_tokens c, token_capacity c]) @
      concat (map u64_to_le (lengths c)) @ layers_bytes (map (kv_abs c) [0..<layer_count c]))"
    and u: "uniform \<longrightarrow> (\<forall>i < layer_count c. \<forall>j < layer_count c. length (kv_abs c i) = length (kv_abs c j))"
  shows "\<exists>e. restore_body (\<lambda>_ _. True) d bytes uniform offset = Inr e \<and> kv_inv e \<and> config_of e = config_of c \<and>
    (\<forall>l < layer_count c. kv_abs e l = kv_abs c l)"
proof -
  let ?lss = "map (kv_abs c) [0..<layer_count c]"
  let ?fs = "[(''layer_count'', layer_count c), (''kv_head_count'', kv_head_count c), (''key_dimension'', key_dimension c),
        (''value_dimension'', value_dimension c), (''page_tokens'', page_tokens c), (''token_capacity'', token_capacity c)]"
  have sh: "kv_shape c" by (rule kv_inv_shape [OF inv(1)])
  have len: "length (lengths c) = layer_count c" using sh by (simp add: kv_shape_def)
  have cfg: "layer_count d = layer_count c" "kv_head_count d = kv_head_count c" "key_dimension d = key_dimension c"
    "value_dimension d = value_dimension c" "page_tokens d = page_tokens c" "token_capacity d = token_capacity c"
    using inv(5) by (simp_all add: config_of_eq)
  have c1: "check_configuration bytes ?fs offset = Inr (offset + 48) \<and> at bytes (offset + 48)
      (concat (map u64_to_le (lengths c)) @ layers_bytes ?lss)"
    using check_configuration_ok [of bytes offset ?fs "concat (map u64_to_le (lengths c)) @ layers_bytes ?lss"] at small
    by simp
  have le: "\<forall>n \<in> set (lengths c). n \<le> token_capacity c"
    using kv_inv_length [OF inv(1)] len by (auto simp: in_set_conv_nth)
  have cap: "token_capacity c < u64_limit" using small by simp
  let ?o = "offset + 48 + 8 * layer_count c"
  have c2: "read_lengths bytes (token_capacity c) [0..<layer_count c] (offset + 48) = Inr (lengths c, ?o) \<and>
      at bytes ?o (layers_bytes ?lss)"
    using read_lengths_ok [OF conjunct2 [OF c1] le cap, of "[0..<layer_count c]"] len by simp
  have c3: "uniform \<longrightarrow> check_uniform (lengths c) = Inr ()"
    using u check_uniform_intro [of "lengths c"] unfolding length_kv_abs len by blast
  have pos: "0 < layer_count c" "0 < kv_head_count c" "0 < key_dimension c" "0 < value_dimension c"
    "0 < page_tokens c" "0 < token_capacity c"
    using sh by (simp_all add: kv_shape_def)
  obtain fresh where fresh: "kv_new_lazy (\<lambda>_ _. True) (layer_count c) (kv_head_count c) (key_dimension c)
      (value_dimension c) (page_tokens c) (token_capacity c) = Inr fresh"
    using kv_new_lazy_granted [OF pos room] by blast
  note new = new_with_allocation_inv [OF fresh [unfolded kv_new_lazy_def]]
  have cf: "config_of fresh = config_of c" using new(2) sh by (simp add: kv_shape_def config_of_def)
  have ff: "layer_count fresh = layer_count c" "kv_head_count fresh = kv_head_count c" "key_dimension fresh = key_dimension c"
    "value_dimension fresh = value_dimension c" "page_tokens fresh = page_tokens c" "token_capacity fresh = token_capacity c"
    using cf by (simp_all add: config_of_eq)
  have pt: "1 \<le> page_tokens c" using sh by (simp add: kv_shape_def)
  have mul: "kv_head_count c * key_dimension c < u64_limit" "kv_head_count c * value_dimension c < u64_limit"
    using le_less_trans [OF mult_le_mono1 [OF pt, of "kv_head_count c * key_dimension c"]]
      le_less_trans [OF mult_le_mono1 [OF pt, of "kv_head_count c * value_dimension c"]] inv(3)
    by (simp_all add: storage_ok_def mult.assoc)
  have toks: "\<forall>toks \<in> set ?lss. length toks \<le> token_capacity fresh \<and> (\<forall>rows \<in> set toks. token_ok fresh rows)"
    using inv(2) kv_inv_length [OF inv(1)] ff config_ok_cong [OF cf] by (auto simp: kv_finite_def)
  have at3: "at bytes ?o (layers_bytes ?lss @ [])" using c2 by simp
  obtain offset' keys' values' e where
    e: "restore_layers (\<lambda>_ _. True) bytes (enumerate 0 (map length ?lss))
        (?o, replicate (kv_head_count c * key_dimension c) 0, replicate (kv_head_count c * value_dimension c) 0, fresh) =
      Inr (offset', keys', values', e)" "at bytes offset' []" "kv_inv e" "config_of e = config_of fresh"
    "\<forall>l < layer_count fresh. kv_abs e l = (if 0 \<le> l \<and> l < 0 + length ?lss then ?lss ! (l - 0) else kv_abs fresh l)"
    using restore_layers_ok [OF at3 new(1) _ _ toks, of 0 "replicate (kv_head_count c * key_dimension c) 0"
        "replicate (kv_head_count c * value_dimension c) 0"] new(3) ff inv(3) config_ok_cong [OF cf]
    by (auto simp del: upt_Suc)
  have ml: "map length ?lss = lengths c" using len by (intro nth_equalityI) simp_all
  have "cur_remaining bytes offset' = 0" using e(2) by (simp add: at_def cur_remaining_def)
  then have "restore_body (\<lambda>_ _. True) d bytes uniform offset = Inr e"
    using c1 c2 c3 fresh mul e(1) unfolding ml
    by (simp add: restore_body_def cfg checked_mul_def zeroed_vec_def del: check_configuration.simps)
  with e cf ff show ?thesis by auto
qed

lemma restore_parse_complete:
  assumes c: "kv_inv c" "kv_finite c" "storage_ok c" "token_capacity c + (page_tokens c - 1) < u64_limit"
    and d: "kv_inv d" "config_of d = config_of c"
    and sha: "\<forall>x. length (sha x) = 32"
    and ex: "export_snapshot sha grant c binding maximum = Inr bytes" and small: "maximum < u64_limit"
    and u: "uniform \<longrightarrow> (\<forall>i < layer_count c. \<forall>j < layer_count c. length (kv_abs c i) = length (kv_abs c j))"
  shows "\<exists>e. restore_parse sha (\<lambda>_ _. True) d binding bytes maximum uniform = Inr e \<and> kv_inv e \<and>
    config_of e = config_of c \<and> (\<forall>l < layer_count c. kv_abs e l = kv_abs c l)"
proof -
  let ?p = "snapshot_payload c binding"
  note x = export_snapshot_Inr [OF c(1) ex]
  obtain announced where announced: "snapshot_bytes c (length binding) = Inr announced" "announced \<le> maximum"
    using x(3) by blast
  have len: "length ?p + 32 = announced"
    using length_snapshot_payload [OF c(1) announced(1)] by (simp add: KV_SNAPSHOT_DIGEST_BYTES_def)
  have bytes: "bytes = ?p @ sha ?p" by (rule x(1))
  have l: "length bytes = length ?p + 32" using bytes sha by simp
  have pay: "take (length bytes - 32) bytes = ?p" "drop (length bytes - 32) bytes = sha ?p"
    using l by (simp_all add: bytes)
  let ?rest = "concat (map u64_to_le [layer_count c, kv_head_count c, key_dimension c, value_dimension c,
       page_tokens c, token_capacity c]) @
     concat (map u64_to_le (lengths c)) @ layers_bytes (map (kv_abs c) [0..<layer_count c])"
  have a0: "at ?p 0 (KV_SNAPSHOT_MAGIC @ u32_to_le 1 @ binding @ ?rest)"
    using len announced(2) small by (simp add: at_def snapshot_payload_def KV_SNAPSHOT_VERSION_def)
  have t1: "cur_take ?p 0 8 = Inr (KV_SNAPSHOT_MAGIC, 8) \<and> at ?p 8 (u32_to_le 1 @ binding @ ?rest)"
    using at_take [OF a0, of 8] by (simp add: KV_SNAPSHOT_MAGIC_def)
  have t2: "cur_u32 ?p 8 = Inr (1, 12) \<and> at ?p 12 (binding @ ?rest)"
    using at_u32 [OF conjunct2 [OF t1]] by simp
  have t3: "cur_take ?p 12 (length binding) = Inr (binding, 12 + length binding) \<and> at ?p (12 + length binding) ?rest"
    by (rule at_take [OF conjunct2 [OF t2] refl])
  obtain e where e: "restore_body (\<lambda>_ _. True) d ?p uniform (12 + length binding) = Inr e" "kv_inv e"
    "config_of e = config_of c" "\<forall>l < layer_count c. kv_abs e l = kv_abs c l"
    using restore_body_complete [OF c(1-3) d x(2) c(4) conjunct2 [OF t3] u] by blast
  have m: "length KV_SNAPSHOT_MAGIC = 8" by (simp add: KV_SNAPSHOT_MAGIC_def)
  have ml: "maximum \<noteq> 0" "\<not> maximum < length bytes" "\<not> length bytes < 32" using x(4) announced(2) len l by auto
  have "restore_parse sha (\<lambda>_ _. True) d binding bytes maximum uniform = Inr e"
    using t1 t2 t3 e(1) ml
    by (simp add: restore_parse_def Let_def KV_SNAPSHOT_DIGEST_BYTES_def pay m KV_SNAPSHOT_VERSION_def)
  with e(2-4) show ?thesis by blast
qed

lemma export_snapshot_granted:
  assumes "kv_inv c" "snapshot_bytes c (length binding) = Inr n" "n \<le> maximum" "maximum \<noteq> 0"
    "\<forall>v \<in> {layer_count c, kv_head_count c, key_dimension c, value_dimension c, page_tokens c, token_capacity c}.
       v < u64_limit"
  shows "export_snapshot sha (\<lambda>_ _. True) c binding maximum =
    Inr (snapshot_payload c binding @ sha (snapshot_payload c binding))"
proof -
  have len: "length (lengths c) = layer_count c" using kv_inv_shape [OF assms(1)] by (simp add: kv_shape_def)
  have "\<forall>v \<in> set (lengths c). v < u64_limit"
  proof
    fix v assume "v \<in> set (lengths c)"
    then have "v \<le> token_capacity c" using kv_inv_length [OF assms(1)] len by (auto simp: in_set_conv_nth)
    then show "v < u64_limit" using assms(5) by auto
  qed
  then have "encode_u64s (lengths c) = Inr (concat (map u64_to_le (lengths c)))" by (rule encode_u64s_total)
  moreover have "encode_u64s [layer_count c, kv_head_count c, key_dimension c, value_dimension c, page_tokens c, token_capacity c] =
      Inr (concat (map u64_to_le [layer_count c, kv_head_count c, key_dimension c, value_dimension c, page_tokens c, token_capacity c]))"
    by (rule encode_u64s_total) (use assms(5) in simp)
  moreover obtain rows where "map_res (export_row c) (export_indices c) = Inr rows"
    "concat rows = layers_bytes (map (kv_abs c) [0..<layer_count c])"
    using export_rows_eq [OF assms(1)] by (auto simp: rbind_Inr)
  ultimately show ?thesis
    using assms(2-4) by (simp add: export_snapshot_def snapshot_payload_def Let_def)
qed

section \<open>Properties\<close>

lemma example_filled_inv: "kv_inv example_filled" "config_of example_filled = config_of example_cache"
  using append_tokens_inv [OF example_cache_inv example_append] by auto

lemma example_cache_finite: "kv_finite example_cache"
  by (simp add: kv_finite_def kv_abs_def example_cache_def)

lemma example_filled_finite: "kv_finite example_filled"
  by (rule append_tokens_finite [OF example_cache_inv example_cache_finite example_append])

lemma example_geometry:
  "layer_count example_filled = 1" "kv_head_count example_filled = 1" "key_dimension example_filled = 1"
  "value_dimension example_filled = 1" "page_tokens example_filled = 2" "token_capacity example_filled = 3"
  "lengths example_filled = [1]"
  by (simp_all add: example_filled_def example_cache_def)

definition example_snapshot :: "byte list" where
  "example_snapshot = snapshot_payload example_filled [] @ replicate 32 0"

lemma example_export: "export_snapshot (\<lambda>_. replicate 32 0) (\<lambda>_ _. True) example_filled [] 200 = Inr example_snapshot"
  unfolding example_snapshot_def
proof (rule export_snapshot_granted [OF example_filled_inv(1)])
  show "snapshot_bytes example_filled (length ([] :: byte list)) = Inr 108"
    by (simp add: snapshot_bytes_def example_geometry KV_SNAPSHOT_MAGIC_def KV_SNAPSHOT_DIGEST_BYTES_def
        checked_add_def checked_mul_def u64_limit_def)
qed (simp_all add: example_geometry u64_limit_def)

text \<open> C16.
  An exported snapshot restores: a cache of the same geometry that reads the bytes with the same
  binding and size limit ends up with exactly the committed rows of the exporting cache, whatever it
  held before (memory granted, SHA-256 giving 32 bytes).
\<close>

theorem snapshot_roundtrip:
  assumes "kv_inv c" "kv_finite c" "storage_ok c" "token_capacity c + (page_tokens c - 1) < u64_limit"
    and "kv_inv d" "config_of d = config_of c" "\<forall>x. length (sha x) = 32"
    and "export_snapshot sha grant c binding maximum = Inr bytes" "maximum < u64_limit"
  shows "\<exists>e. restore_snapshot sha (\<lambda>_ _. True) d binding bytes maximum = (Inr (), e) \<and> kv_inv e \<and>
    config_of e = config_of c \<and> (\<forall>l < layer_count c. kv_abs e l = kv_abs c l)"
  using restore_parse_complete [OF assms, of False]
  by (auto simp: restore_snapshot_def restore_snapshot_internal_def)

theorem snapshot_roundtrip_witness:
  "\<exists>e. restore_snapshot (\<lambda>_. replicate 32 0) (\<lambda>_ _. True) example_cache [] example_snapshot 200 = (Inr (), e) \<and>
     kv_abs e 0 = kv_abs example_filled 0"
proof -
  have "storage_ok example_filled" by (simp add: storage_ok_def example_geometry u64_limit_def)
  moreover have "token_capacity example_filled + (page_tokens example_filled - 1) < u64_limit" "(200 :: nat) < u64_limit"
    by (simp_all add: example_geometry u64_limit_def)
  ultimately show ?thesis
    using snapshot_roundtrip [OF example_filled_inv(1) example_filled_finite _ _ example_cache_inv
        example_filled_inv(2) [symmetric] _ example_export] example_geometry(1)
    by auto
qed

lemma snapshot_payload_header:
  "slice (snapshot_payload c binding @ x) 0 8 = KV_SNAPSHOT_MAGIC"
  "of_le_bytes (slice (snapshot_payload c binding @ x) 8 4) = KV_SNAPSHOT_VERSION"
  "slice (snapshot_payload c binding @ x) 12 (length binding) = binding"
proof -
  have m: "length KV_SNAPSHOT_MAGIC = 8" by (simp add: KV_SNAPSHOT_MAGIC_def)
  then show "slice (snapshot_payload c binding @ x) 0 8 = KV_SNAPSHOT_MAGIC"
    "of_le_bytes (slice (snapshot_payload c binding @ x) 8 4) = KV_SNAPSHOT_VERSION"
    by (simp_all add: snapshot_payload_def slice_def KV_SNAPSHOT_VERSION_def u32_codec.dec_enc)
  from m show "slice (snapshot_payload c binding @ x) 12 (length binding) = binding"
    by (simp add: snapshot_payload_def slice_def)
qed

text \<open> C28.
  A restore is atomic and only accepts what an export writes: when it fails the cache is untouched; when it
  succeeds the bytes were within the limit, and they are exactly the snapshot of the restored cache, header, model
  binding, geometry, lengths and rows, followed by its digest. So digest, magic, version, binding and geometry matched,
  and nothing that was restored differs from the bytes. The cache keeps its geometry and its invariant, and the
  uniform variant leaves all layers with the same number of tokens.
\<close>

theorem restore_sound:
  assumes "kv_inv c" "restore_snapshot_internal sha grant c binding bytes maximum uniform = (r, d)"
  shows "if r = Inr () then
      length bytes \<le> maximum \<and> KV_SNAPSHOT_DIGEST_BYTES \<le> length bytes \<and>
      bytes = snapshot_payload d binding @ sha (snapshot_payload d binding) \<and>
      sha (take (length bytes - KV_SNAPSHOT_DIGEST_BYTES) bytes) = drop (length bytes - KV_SNAPSHOT_DIGEST_BYTES) bytes \<and>
      slice bytes 0 8 = KV_SNAPSHOT_MAGIC \<and> of_le_bytes (slice bytes 8 4) = KV_SNAPSHOT_VERSION \<and>
      slice bytes 12 (length binding) = binding \<and> kv_inv d \<and> config_of d = config_of c \<and>
      (uniform \<longrightarrow> (\<forall>i < layer_count c. \<forall>j < layer_count c. length (kv_abs d i) = length (kv_abs d j)))
    else d = c"
proof (cases "restore_parse sha grant c binding bytes maximum uniform")
  case (Inl e)
  then show ?thesis using assms(2) by (auto simp: restore_snapshot_internal_def)
next
  case (Inr e)
  then have r: "r = Inr ()" "d = e" using assms(2) by (auto simp: restore_snapshot_internal_def)
  let ?p = "snapshot_payload d binding"
  note p = restore_parse_sound [OF Inr assms(1), folded r(2)]
  then have b: "bytes = ?p @ sha ?p" and n: "length (sha ?p) = KV_SNAPSHOT_DIGEST_BYTES" by blast+
  then have "sha (take (length bytes - KV_SNAPSHOT_DIGEST_BYTES) bytes) = drop (length bytes - KV_SNAPSHOT_DIGEST_BYTES) bytes"
    "KV_SNAPSHOT_DIGEST_BYTES \<le> length bytes" by simp_all
  moreover have "slice bytes 0 8 = KV_SNAPSHOT_MAGIC" "of_le_bytes (slice bytes 8 4) = KV_SNAPSHOT_VERSION"
    "slice bytes 12 (length binding) = binding"
    unfolding b by (rule snapshot_payload_header)+
  ultimately show ?thesis using p r(1) by (simp only: simp_thms if_True) blast
qed

text \<open>A snapshot that is accepted, and the same bytes refused by a cache with room for one token less.\<close>

theorem restore_sound_witness:
  "\<exists>d. restore_snapshot_internal (\<lambda>_. replicate 32 0) (\<lambda>_ _. True) example_cache [] example_snapshot 200 False = (Inr (), d) \<and>
     snapshot_payload d [] = snapshot_payload example_filled [] \<and>
   (\<exists>e. restore_snapshot_internal (\<lambda>_. replicate 32 0) (\<lambda>_ _. True) (example_cache\<lparr>token_capacity := 4\<rparr>) [] example_snapshot
      200 False = (Inl e, example_cache\<lparr>token_capacity := 4\<rparr>))"
proof -
  let ?sha = "\<lambda>_ :: byte list. replicate 32 (0 :: byte)" and ?c = "example_cache\<lparr>token_capacity := 4\<rparr>"
  have "storage_ok example_filled" by (simp add: storage_ok_def example_geometry u64_limit_def)
  moreover have room: "token_capacity example_filled + (page_tokens example_filled - 1) < u64_limit" "(200 :: nat) < u64_limit"
    by (simp_all add: example_geometry u64_limit_def)
  ultimately obtain d where d: "restore_snapshot_internal ?sha (\<lambda>_ _. True) example_cache [] example_snapshot 200 False = (Inr (), d)"
    using restore_parse_complete [OF example_filled_inv(1) example_filled_finite _ _ example_cache_inv
        example_filled_inv(2) [symmetric] _ example_export, of False]
    by (auto simp: restore_snapshot_internal_def)
  have inv: "kv_inv ?c"
    using example_cache_inv by (auto simp: kv_inv_def kv_shape_def example_cache_def page_ok_def backed_def u64_limit_def)
  obtain r e where e: "restore_snapshot_internal ?sha (\<lambda>_ _. True) ?c [] example_snapshot 200 False = (r, e)" by fastforce
  have "r \<noteq> Inr ()"
  proof
    assume "r = Inr ()"
    with restore_sound [OF inv e] have "snapshot_payload e [] = snapshot_payload example_filled []" "token_capacity e = 4"
      by (auto simp: example_snapshot_def config_of_eq)
    then have "u64_to_le 4 = u64_to_le 3" by (simp add: snapshot_payload_def example_geometry)
    then show False by (simp add: u64_codec.enc_inject u64_limit_def)
  qed
  then obtain f where "r = Inl f" by (cases r) auto
  with restore_sound [OF inv e] have "e = ?c" by simp
  with e \<open>r = Inl f\<close> have refused: "restore_snapshot_internal ?sha (\<lambda>_ _. True) ?c [] example_snapshot 200 False = (Inl f, ?c)"
    by simp
  have "example_snapshot = snapshot_payload d [] @ replicate 32 0"
    using restore_sound [OF example_cache_inv d] unfolding if_P [OF refl] by blast
  then have "snapshot_payload d [] = snapshot_payload example_filled []" unfolding example_snapshot_def append_same_eq by (rule sym)
  with d refused show ?thesis by blast
qed

text \<open>
  The size announced before writing (and checked against the limit) is exactly the size of the
  snapshot written, as the code's debug assertion says; the bytes are the header, the committed
  rows in layer, token and head order, and the digest of all that.
\<close>

theorem export_layout:
  assumes "kv_inv c" "\<forall>x. length (sha x) = 32" "export_snapshot sha grant c binding maximum = Inr bytes"
  shows "snapshot_bytes c (length binding) = Inr (length bytes) \<and> length bytes \<le> maximum \<and>
    bytes = snapshot_payload c binding @ sha (snapshot_payload c binding)"
proof -
  note x = export_snapshot_Inr [OF assms(1,3)]
  obtain announced where announced: "snapshot_bytes c (length binding) = Inr announced" "announced \<le> maximum" using x(3) by blast
  then show ?thesis
    using x(1) length_snapshot_payload [OF assms(1) announced(1)] assms(2) by (simp add: KV_SNAPSHOT_DIGEST_BYTES_def)
qed

theorem export_layout_witness: "length example_snapshot = 108"
proof -
  have "snapshot_bytes example_filled (length ([] :: byte list)) = Inr 108"
    by (simp add: snapshot_bytes_def example_geometry KV_SNAPSHOT_MAGIC_def KV_SNAPSHOT_DIGEST_BYTES_def
        checked_add_def checked_mul_def u64_limit_def)
  with export_layout [OF example_filled_inv(1) _ example_export] show ?thesis by simp
qed

end
