(* ===== verification/Expert_Cache.thy ===== *)
theory Expert_Cache
  imports Prelude "HOL-Library.AList" "HOL-Library.Multiset" "HOL-Library.Product_Lexorder"
begin

text \<open>
  The compressed-byte cache of \<^verbatim>\<open>crates/bridge-cache/src/lib.rs\<close>: a byte ceiling, pins held by leases,
  in-flight reservations, least-recently-used eviction, and request heat. The mutex makes every
  critical section atomic, so an operation is one function on the state, and
  \<^verbatim>\<open>get_or_try_insert\<close> is two of them (before and after the loader runs unlocked) plus the drop of
  its reservation. A \<^verbatim>\<open>HashMap\<close> is an association list with distinct keys: its order stands for the
  unspecified iteration order. Threads are the interleaving of steps of the relation \<open>cache_step\<close>,
  whose state also records the leases and the armed reservations that are alive.
\<close>

section \<open>Data\<close>

record cache_config =
  capacity_bytes :: nat
  admit_after_requests :: nat

datatype cache_error =
    ZeroCapacity
  | ZeroAdmissionThreshold
  | EmptyEntry
  | EntryTooLarge nat nat
  | CapacityPinned nat
  | LoadedSizeMismatch nat nat
  | ReservationLost
  | CachePoisoned
  | CacheArithmeticOverflow

datatype 'e load_error = LoadErrorLoader 'e | LoadErrorCache cache_error

datatype entry =
    Loading nat bool                   \<comment> \<open>expected bytes, resident\<close>
  | Ready "byte list" nat nat bool     \<comment> \<open>bytes, pins, last used, resident\<close>

record 'k cache_state =
  entries :: "('k \<times> entry) list"
  heat :: "('k \<times> nat) list"
  used_bytes :: nat
  reserved_bytes :: nat
  tick :: nat
  hits :: nat
  misses :: nat
  loads :: nat
  waits :: nat
  evictions :: nat

definition config_validate :: "cache_config \<Rightarrow> cache_error + unit" where
  "config_validate cfg =
     (if capacity_bytes cfg = 0 then Inl ZeroCapacity
      else if admit_after_requests cfg = 0 then Inl ZeroAdmissionThreshold
      else Inr ())"

definition cache_new :: "cache_config \<Rightarrow> cache_error + 'k cache_state" where
  "cache_new cfg = rbind (config_validate cfg) (\<lambda>_.
     Inr \<lparr>entries = [], heat = [], used_bytes = 0, reserved_bytes = 0, tick = 0,
          hits = 0, misses = 0, loads = 0, waits = 0, evictions = 0\<rparr>)"

section \<open>Operations\<close>

definition next_tick :: "'k cache_state \<Rightarrow> nat \<times> 'k cache_state" where
  "next_tick s = (let t = saturating_add (tick s) 1 in (t, s\<lparr>tick := t\<rparr>))"

text \<open>\<^verbatim>\<open>min_by_key\<close>: the first of the smallest elements.\<close>

fun min_by_key :: "('k \<times> nat) list \<Rightarrow> 'k option" where
  "min_by_key [] = None"
| "min_by_key [(k, v)] = Some k"
| "min_by_key ((k, v) # (k', v') # rest) = min_by_key ((if v' < v then (k', v') else (k, v)) # rest)"

text \<open>The \<^verbatim>\<open>filter_map\<close> over the entries: unpinned ready entries with their last use.\<close>

fun unpinned :: "('k \<times> entry) list \<Rightarrow> ('k \<times> nat) list" where
  "unpinned [] = []"
| "unpinned ((k, Loading expected resident) # es) = unpinned es"
| "unpinned ((k, Ready bytes pins last_used resident) # es) =
     (if pins = 0 then (k, last_used) # unpinned es else unpinned es)"

lemma min_by_key_mem: "min_by_key xs = Some k \<Longrightarrow> k \<in> fst ` set xs"
  by (induction xs rule: min_by_key.induct) (auto split: if_splits)

lemma set_unpinned:
  "(k, t) \<in> set (unpinned es) \<longleftrightarrow> (\<exists>bytes resident. (k, Ready bytes 0 t resident) \<in> set es)"
  by (induction es rule: unpinned.induct) auto

lemma length_delete_less: "k \<in> fst ` set es \<Longrightarrow> length (AList.delete k es) < length es"
  by (induction es) (auto simp: le_imp_less_Suc length_delete_le)

lemma candidate_less:
  "min_by_key (unpinned es) = Some k \<Longrightarrow> length (AList.delete k es) < length es"
  by (drule min_by_key_mem, rule length_delete_less) (force simp: set_unpinned)

text \<open>The eviction loop of a reservation.\<close>

function reserve_capacity :: "'k cache_state \<Rightarrow> nat \<Rightarrow> nat \<Rightarrow> (cache_error + unit) \<times> 'k cache_state" where
  "reserve_capacity s capacity requested =
     (case Option.bind (checked_add (used_bytes s) (reserved_bytes s)) (\<lambda>bytes. checked_add bytes requested) of
        None \<Rightarrow> (Inl CacheArithmeticOverflow, s)
      | Some committed \<Rightarrow>
          if committed \<le> capacity then (Inr (), s)
          else case min_by_key (unpinned (entries s)) of
            None \<Rightarrow> (Inl (CapacityPinned requested), s)
          | Some candidate \<Rightarrow>
              let removed = map_of (entries s) candidate;
                  s' = s\<lparr>entries := AList.delete candidate (entries s)\<rparr>
              in case removed of
                   Some (Ready bytes _ _ _) \<Rightarrow>
                     (case checked_sub (used_bytes s') (length bytes) of
                        None \<Rightarrow> (Inl CacheArithmeticOverflow, s')
                      | Some used \<Rightarrow>
                          reserve_capacity (s'\<lparr>used_bytes := used, evictions := saturating_add (evictions s') 1\<rparr>)
                            capacity requested)
                 | _ \<Rightarrow> reserve_capacity s' capacity requested)"
  by pat_completeness auto
termination
  by (relation "measure (\<lambda>(s, _, _). length (entries s))") (auto simp: candidate_less)

declare reserve_capacity.simps [simp del]

text \<open>A hit: one more pin, the tick of this call, and the bytes shared with the lease.\<close>

definition pin_entry ::
  "'k \<Rightarrow> byte list \<Rightarrow> nat \<Rightarrow> bool \<Rightarrow> nat \<Rightarrow> 'k cache_state \<Rightarrow> (cache_error + byte list) \<times> 'k cache_state" where
  "pin_entry key bytes pins resident t s =
     (case checked_add pins 1 of
        None \<Rightarrow> (Inl CacheArithmeticOverflow, s)
      | Some pins' \<Rightarrow> (Inr bytes, s\<lparr>entries := AList.update key (Ready bytes pins' t resident) (entries s),
                                  hits := saturating_add (hits s) 1\<rparr>))"

definition cache_get :: "'k \<Rightarrow> 'k cache_state \<Rightarrow> (cache_error + byte list option) \<times> 'k cache_state" where
  "cache_get key s0 =
     (let (t, s) = next_tick s0 in
      case map_of (entries s) key of
        None \<Rightarrow> (Inr None, s\<lparr>misses := saturating_add (misses s) 1\<rparr>)
      | Some (Loading _ _) \<Rightarrow> (Inr None, s)
      | Some (Ready bytes pins _ resident) \<Rightarrow>
          (case pin_entry key bytes pins resident t s of
             (Inl e, s') \<Rightarrow> (Inl e, s')
           | (Inr b, s') \<Rightarrow> (Inr (Some b), s')))"

definition load_precheck :: "cache_config \<Rightarrow> nat \<Rightarrow> cache_error + unit" where
  "load_precheck cfg expected =
     (if expected = 0 then Inl EmptyEntry
      else if capacity_bytes cfg < expected then Inl (EntryTooLarge expected (capacity_bytes cfg))
      else Inr ())"

text \<open>
  The first critical section of \<^verbatim>\<open>get_or_try_insert\<close>: a lease, a wait for another caller's load, or
  the obligation to run the loader under a reservation.
\<close>

datatype load_turn = LeaseGranted "byte list" | MustWait | MustLoad

definition count_request :: "'k \<Rightarrow> 'k cache_state \<Rightarrow> nat \<times> 'k cache_state" where
  "count_request key s =
     (let requests = saturating_add (case map_of (heat s) key of None \<Rightarrow> 0 | Some n \<Rightarrow> n) 1
      in (requests, s\<lparr>heat := AList.update key requests (heat s)\<rparr>))"

definition begin_load ::
  "cache_config \<Rightarrow> 'k \<Rightarrow> nat \<Rightarrow> 'k cache_state \<Rightarrow> (cache_error + load_turn) \<times> 'k cache_state" where
  "begin_load cfg key expected s0 =
     (let (t, s) = next_tick s0 in
      case map_of (entries s) key of
        Some (Ready bytes pins _ resident) \<Rightarrow>
          (case pin_entry key bytes pins resident t s of
             (Inl e, s') \<Rightarrow> (Inl e, s')
           | (Inr b, s') \<Rightarrow> (Inr (LeaseGranted b), s'))
      | Some (Loading _ _) \<Rightarrow> (Inr MustWait, s\<lparr>waits := saturating_add (waits s) 1\<rparr>)
      | None \<Rightarrow>
          (let s = s\<lparr>misses := saturating_add (misses s) 1\<rparr>;
               (requests, s) = count_request key s;
               resident = (admit_after_requests cfg \<le> requests)
           in case reserve_capacity s (capacity_bytes cfg) expected of
                (Inl e, s') \<Rightarrow> (Inl e, s')
              | (Inr _, s') \<Rightarrow>
                  (case checked_add (reserved_bytes s') expected of
                     None \<Rightarrow> (Inl CacheArithmeticOverflow, s')
                   | Some reserved \<Rightarrow>
                       (Inr MustLoad, s'\<lparr>reserved_bytes := reserved, loads := saturating_add (loads s') 1,
                          entries := AList.update key (Loading expected resident) (entries s')\<rparr>))))"

text \<open>The drop of an armed reservation.\<close>

definition reservation_drop :: "'k \<Rightarrow> nat \<Rightarrow> 'k cache_state \<Rightarrow> 'k cache_state" where
  "reservation_drop key expected s =
     (case map_of (entries s) key of
        Some (Loading expected' _) \<Rightarrow>
          if expected' = expected
          then s\<lparr>entries := AList.delete key (entries s), reserved_bytes := saturating_sub (reserved_bytes s) expected\<rparr>
          else s
      | _ \<Rightarrow> s)"

text \<open>The second critical section: the reservation becomes a ready entry with one pin.\<close>

definition complete_load ::
  "'k \<Rightarrow> nat \<Rightarrow> byte list \<Rightarrow> 'k cache_state \<Rightarrow> (cache_error + byte list) \<times> 'k cache_state" where
  "complete_load key expected bytes s =
     (case (case map_of (entries s) key of
              Some (Loading reserved resident) \<Rightarrow> if reserved = expected then Some resident else None
            | _ \<Rightarrow> None) of
        None \<Rightarrow> (Inl ReservationLost, s)
      | Some resident \<Rightarrow>
          (case checked_sub (reserved_bytes s) expected of
             None \<Rightarrow> (Inl CacheArithmeticOverflow, s)
           | Some reserved \<Rightarrow>
               (case checked_add (used_bytes s) expected of
                  None \<Rightarrow> (Inl CacheArithmeticOverflow, s)
                | Some used \<Rightarrow>
                    (let (t, s) = next_tick (s\<lparr>reserved_bytes := reserved, used_bytes := used\<rparr>)
                     in (Inr bytes, s\<lparr>entries := AList.update key (Ready bytes 1 t resident) (entries s)\<rparr>)))))"

text \<open>
  What follows the loader: its error, a wrong size and a failed completion leave through the drop of
  the still armed reservation.
\<close>

definition finish_load ::
  "'k \<Rightarrow> nat \<Rightarrow> 'e + byte list \<Rightarrow> 'k cache_state \<Rightarrow> ('e load_error + byte list) \<times> 'k cache_state" where
  "finish_load key expected loaded s =
     (case loaded of
        Inl e \<Rightarrow> (Inl (LoadErrorLoader e), reservation_drop key expected s)
      | Inr bytes \<Rightarrow>
          if length bytes \<noteq> expected
          then (Inl (LoadErrorCache (LoadedSizeMismatch expected (length bytes))), reservation_drop key expected s)
          else case complete_load key expected bytes s of
                 (Inl e, s') \<Rightarrow> (Inl (LoadErrorCache e), reservation_drop key expected s')
               | (Inr b, s') \<Rightarrow> (Inr b, s'))"

text \<open>
  The whole call of an uncontended caller, \<^verbatim>\<open>None\<close> when it has to wait for another load; contended
  calls are interleaved steps of \<open>cache_step\<close>.
\<close>

definition get_or_try_insert ::
  "cache_config \<Rightarrow> 'k \<Rightarrow> nat \<Rightarrow> (unit \<Rightarrow> 'e + byte list) \<Rightarrow> 'k cache_state \<Rightarrow>
   (('e load_error + byte list) \<times> 'k cache_state) option" where
  "get_or_try_insert cfg key expected loader s =
     (case load_precheck cfg expected of
        Inl e \<Rightarrow> Some (Inl (LoadErrorCache e), s)
      | Inr _ \<Rightarrow>
          (case begin_load cfg key expected s of
             (Inl e, s') \<Rightarrow> Some (Inl (LoadErrorCache e), s')
           | (Inr (LeaseGranted bytes), s') \<Rightarrow> Some (Inr bytes, s')
           | (Inr MustWait, s') \<Rightarrow> None
           | (Inr MustLoad, s') \<Rightarrow> Some (finish_load key expected (loader ()) s')))"

text \<open>The drop of a lease: one pin less, and an entry that was not admitted goes with its last pin.\<close>

definition lease_drop :: "'k \<Rightarrow> 'k cache_state \<Rightarrow> 'k cache_state" where
  "lease_drop key s =
     (case map_of (entries s) key of
        Some (Ready bytes pins last_used resident) \<Rightarrow>
          (let pins' = saturating_sub pins 1 in
           if pins' = 0 \<and> \<not> resident
           then s\<lparr>entries := AList.delete key (entries s), used_bytes := saturating_sub (used_bytes s) (length bytes)\<rparr>
           else s\<lparr>entries := AList.update key (Ready bytes pins' last_used resident) (entries s)\<rparr>)
      | _ \<Rightarrow> s)"

fun clear_keys :: "'k list \<Rightarrow> nat \<Rightarrow> 'k cache_state \<Rightarrow> (cache_error + nat) \<times> 'k cache_state" where
  "clear_keys [] removed s = (Inr removed, s)"
| "clear_keys (key # keys) removed s =
     (let s' = s\<lparr>entries := AList.delete key (entries s)\<rparr> in
      case map_of (entries s) key of
        Some (Ready bytes _ _ _) \<Rightarrow>
          (case checked_sub (used_bytes s') (length bytes) of
             None \<Rightarrow> (Inl CacheArithmeticOverflow, s')
           | Some used \<Rightarrow> clear_keys keys (removed + 1) (s'\<lparr>used_bytes := used\<rparr>))
      | _ \<Rightarrow> clear_keys keys removed s')"

definition clear_unpinned :: "'k cache_state \<Rightarrow> (cache_error + nat) \<times> 'k cache_state" where
  "clear_unpinned s = clear_keys (map fst (unpinned (entries s))) 0 s"

section \<open>Statistics and heat\<close>

record cache_stats =
  st_capacity_bytes :: nat
  st_used_bytes :: nat
  st_reserved_bytes :: nat
  st_resident_entries :: nat
  st_pinned_entries :: nat
  st_loading_entries :: nat
  st_heat_entries :: nat
  st_hits :: nat
  st_misses :: nat
  st_loads :: nat
  st_waits :: nat
  st_evictions :: nat

definition cache_stats_of :: "cache_config \<Rightarrow> 'k cache_state \<Rightarrow> cache_stats" where
  "cache_stats_of cfg s =
     (let (pinned, resident, loading) = fold (\<lambda>(_, e) (pinned, resident, loading).
            case e of
              Loading _ _ \<Rightarrow> (pinned, resident, loading + 1)
            | Ready _ pins _ r \<Rightarrow> (if 0 < pins then pinned + 1 else pinned,
                 if r then resident + 1 else resident, loading)) (entries s) (0, 0, 0)
      in \<lparr>st_capacity_bytes = capacity_bytes cfg, st_used_bytes = used_bytes s,
          st_reserved_bytes = reserved_bytes s, st_resident_entries = resident,
          st_pinned_entries = pinned, st_loading_entries = loading, st_heat_entries = length (heat s),
          st_hits = hits s, st_misses = misses s, st_loads = loads s, st_waits = waits s,
          st_evictions = evictions s\<rparr>)"

record 'k heat_snapshot =
  hs_format :: string
  hs_version :: nat
  hs_entries :: "('k \<times> nat) list"

datatype 'j heat_error =
    HeatCache cache_error
  | HeatJson 'j
  | HeatInputTooLarge nat nat
  | HeatWrongFormat string nat
  | HeatTooManyEntries nat nat
  | HeatZeroRequests

definition HEAT_FORMAT :: string where "HEAT_FORMAT = ''lightbridge-cache-heat''"
definition HEAT_VERSION :: nat where "HEAT_VERSION = 1"

text \<open>
  Descending by requests, then ascending by key. The keys of the heat map are distinct, so the order
  is total on the entries and the unstable sort has one result. JSON is the argument \<open>to_json\<close> or
  \<open>from_json\<close>.
\<close>

definition heat_snapshot_of :: "'k :: linorder cache_state \<Rightarrow> nat \<Rightarrow> 'k heat_snapshot" where
  "heat_snapshot_of s maximum_entries =
     \<lparr>hs_format = HEAT_FORMAT, hs_version = HEAT_VERSION,
      hs_entries = take maximum_entries (sort_key (\<lambda>(key, requests). (u64_max - requests, key)) (heat s))\<rparr>"

definition export_heat_json ::
  "('k heat_snapshot \<Rightarrow> 'j + byte list) \<Rightarrow> 'k :: linorder cache_state \<Rightarrow> nat \<Rightarrow> 'j heat_error + byte list" where
  "export_heat_json to_json s maximum_entries = map_err HeatJson (to_json (heat_snapshot_of s maximum_entries))"

fun merge_heat :: "('k \<times> nat) list \<Rightarrow> 'k cache_state \<Rightarrow> ('j heat_error + nat) \<times> 'k cache_state" where
  "merge_heat [] s = (Inr (length (heat s)), s)"
| "merge_heat ((key, requests) # rest) s =
     (if requests = 0 then (Inl HeatZeroRequests, s)
      else merge_heat rest (s\<lparr>heat := AList.update key
        (max (case map_of (heat s) key of None \<Rightarrow> 0 | Some n \<Rightarrow> n) requests) (heat s)\<rparr>))"

definition import_heat_json ::
  "(byte list \<Rightarrow> 'j + 'k heat_snapshot) \<Rightarrow> byte list \<Rightarrow> nat \<Rightarrow> nat \<Rightarrow> 'k cache_state \<Rightarrow>
   ('j heat_error + nat) \<times> 'k cache_state" where
  "import_heat_json from_json bytes maximum_json_bytes maximum_entries s =
     (if maximum_json_bytes < length bytes then (Inl (HeatInputTooLarge (length bytes) maximum_json_bytes), s)
      else case from_json bytes of
        Inl e \<Rightarrow> (Inl (HeatJson e), s)
      | Inr snapshot \<Rightarrow>
          if hs_format snapshot \<noteq> HEAT_FORMAT \<or> hs_version snapshot \<noteq> HEAT_VERSION
          then (Inl (HeatWrongFormat (hs_format snapshot) (hs_version snapshot)), s)
          else if maximum_entries < length (hs_entries snapshot)
          then (Inl (HeatTooManyEntries (length (hs_entries snapshot)) maximum_entries), s)
          else merge_heat (hs_entries snapshot) s)"

section \<open>Accounting over the entries\<close>

definition used_of :: "entry \<Rightarrow> nat" where
  "used_of e = (case e of Ready bytes _ _ _ \<Rightarrow> length bytes | Loading _ _ \<Rightarrow> 0)"

definition reserved_of :: "entry \<Rightarrow> nat" where
  "reserved_of e = (case e of Loading expected _ \<Rightarrow> expected | Ready _ _ _ _ \<Rightarrow> 0)"

definition pinned_of :: "entry \<Rightarrow> nat" where
  "pinned_of e = (case e of Ready bytes pins _ _ \<Rightarrow> if 0 < pins then length bytes else 0 | Loading _ _ \<Rightarrow> 0)"

lemma weight_simps [simp]:
  "used_of (Ready b p t r) = length b" "used_of (Loading n r) = 0"
  "reserved_of (Ready b p t r) = 0" "reserved_of (Loading n r) = n"
  "pinned_of (Ready b p t r) = (if 0 < p then length b else 0)" "pinned_of (Loading n r) = 0"
  by (simp_all add: used_of_def reserved_of_def pinned_of_def)

definition sum_entries :: "(entry \<Rightarrow> nat) \<Rightarrow> ('k \<times> entry) list \<Rightarrow> nat" where
  "sum_entries w es = sum_list (map (w \<circ> snd) es)"

lemma delete_absent: "k \<notin> fst ` set es \<Longrightarrow> AList.delete k es = es"
  by (induction es) auto

lemma sum_delete:
  "distinct (map fst es) \<Longrightarrow> map_of es k = Some e \<Longrightarrow> sum_entries w es = w e + sum_entries w (AList.delete k es)"
proof (induction es)
  case (Cons x es)
  show ?case
  proof (cases "fst x = k")
    case True
    then have "AList.delete k es = es" using Cons.prems(1) by (intro delete_absent) auto
    then show ?thesis using Cons.prems True by (simp add: sum_entries_def)
  next
    case False
    then show ?thesis using Cons by (auto simp: sum_entries_def)
  qed
qed simp

lemma sum_update_new: "map_of es k = None \<Longrightarrow> sum_entries w (AList.update k e es) = sum_entries w es + w e"
  by (induction es) (auto simp: sum_entries_def split: if_splits)

lemma sum_update_old:
  "map_of es k = Some e0 \<Longrightarrow> sum_entries w (AList.update k e es) + w e0 = sum_entries w es + w e"
  by (induction es) (auto simp: sum_entries_def split: if_splits)

lemma map_of_changes [simp]:
  "map_of (AList.update k v es) = (map_of es)(k \<mapsto> v)" "map_of (AList.delete k es) = (map_of es)(k := None)"
  by (simp_all add: AList.update_conv' AList.delete_conv')

lemma unpinned_map_of:
  "distinct (map fst es) \<Longrightarrow> (k, t) \<in> set (unpinned es) \<longleftrightarrow> (\<exists>b r. map_of es k = Some (Ready b 0 t r))"
  by (auto simp: set_unpinned map_of_eq_Some_iff)

lemma min_by_key_None: "min_by_key xs = None \<longleftrightarrow> xs = []"
  by (induction xs rule: min_by_key.induct) auto

lemma min_by_key_least: "min_by_key xs = Some k \<Longrightarrow> \<exists>v. (k, v) \<in> set xs \<and> (\<forall>(k', v') \<in> set xs. v \<le> v')"
proof (induction xs rule: min_by_key.induct)
  case (3 k1 v1 k2 v2 rest)
  show ?case
  proof (cases "v2 < v1")
    case True
    with 3 obtain v where "(k, v) \<in> set ((k2, v2) # rest)" "\<forall>(k', v') \<in> set ((k2, v2) # rest). v \<le> v'" by auto
    with True show ?thesis by (intro exI [of _ v]) auto
  next
    case False
    with 3 obtain v where "(k, v) \<in> set ((k1, v1) # rest)" "\<forall>(k', v') \<in> set ((k1, v1) # rest). v \<le> v'" by auto
    with False show ?thesis by (intro exI [of _ v]) auto
  qed
qed auto

section \<open>Invariant\<close>

text \<open>
  The reservations of a key, and what the leases and reservations that are alive say about its
  entry: a ready entry has exactly one pin per lease and is resident when unpinned, a loading entry
  has exactly one armed reservation of its size, an absent key has neither.
\<close>

definition pending :: "('k \<times> nat) multiset \<Rightarrow> 'k \<Rightarrow> ('k \<times> nat) multiset" where
  "pending R k = filter_mset (\<lambda>m. fst m = k) R"

definition slot_ok :: "'k multiset \<Rightarrow> ('k \<times> nat) multiset \<Rightarrow> 'k \<Rightarrow> entry option \<Rightarrow> bool" where
  "slot_ok L R k slot = (case slot of
      None \<Rightarrow> count L k = 0 \<and> pending R k = {#}
    | Some (Loading expected _) \<Rightarrow> count L k = 0 \<and> pending R k = {#(k, expected)#} \<and> 0 < expected
    | Some (Ready bytes pins _ resident) \<Rightarrow>
        pins = count L k \<and> (pins = 0 \<longrightarrow> resident) \<and> bytes \<noteq> [] \<and> pending R k = {#})"

lemma slot_ok_simps [simp]:
  "slot_ok L R k None \<longleftrightarrow> count L k = 0 \<and> pending R k = {#}"
  "slot_ok L R k (Some (Loading n r)) \<longleftrightarrow> count L k = 0 \<and> pending R k = {#(k, n)#} \<and> 0 < n"
  "slot_ok L R k (Some (Ready b p t res)) \<longleftrightarrow>
     p = count L k \<and> (p = 0 \<longrightarrow> res) \<and> b \<noteq> [] \<and> pending R k = {#}"
  by (auto simp: slot_ok_def)

definition books_ok :: "'k multiset \<Rightarrow> ('k \<times> nat) multiset \<Rightarrow> 'k cache_state \<Rightarrow> bool" where
  "books_ok L R s \<longleftrightarrow> distinct (map fst (entries s)) \<and>
     used_bytes s = sum_entries used_of (entries s) \<and>
     reserved_bytes s = sum_entries reserved_of (entries s) \<and>
     (\<forall>k. slot_ok L R k (map_of (entries s) k))"

definition cache_inv :: "cache_config \<Rightarrow> 'k multiset \<Rightarrow> ('k \<times> nat) multiset \<Rightarrow> 'k cache_state \<Rightarrow> bool" where
  "cache_inv cfg L R s \<longleftrightarrow> books_ok L R s \<and> used_bytes s + reserved_bytes s \<le> capacity_bytes cfg"

lemma pending_simps [simp]:
  "pending (add_mset (k, n) R) k' = (if k' = k then add_mset (k, n) (pending R k) else pending R k')"
  "pending {#} k = {#}"
  by (auto simp: pending_def)

lemma pending_remove:
  "(k, n) \<in># R \<Longrightarrow> pending (R - {#(k, n)#}) k' = (if k' = k then pending R k - {#(k, n)#} else pending R k')"
  by (auto simp: pending_def)

lemma pending_mem: "(k, n) \<in># R \<Longrightarrow> (k, n) \<in># pending R k"
  by (simp add: pending_def)

lemma books_slot: "books_ok L R s \<Longrightarrow> slot_ok L R k (map_of (entries s) k)"
  by (simp add: books_ok_def)

text \<open>Counters, ticks and heat play no role.\<close>

lemma books_cong:
  "entries s' = entries s \<Longrightarrow> used_bytes s' = used_bytes s \<Longrightarrow> reserved_bytes s' = reserved_bytes s \<Longrightarrow>
   books_ok L R s' = books_ok L R s"
  by (simp add: books_ok_def)

lemma books_parts:
  assumes "books_ok L R s" "map_of (entries s) k = Some e"
  shows "used_of e \<le> used_bytes s" "reserved_of e \<le> reserved_bytes s"
  using sum_delete [of "entries s" k e used_of] sum_delete [of "entries s" k e reserved_of] assms
  by (auto simp: books_ok_def)

text \<open>The ways an entry changes.\<close>

lemma books_delete:
  assumes "books_ok L R s" "map_of (entries s) k = Some e"
    and "entries s' = AList.delete k (entries s)" "used_bytes s' = used_bytes s - used_of e"
    and "reserved_bytes s' = reserved_bytes s - reserved_of e"
    and "slot_ok L' R' k None" "\<And>k' slot. k' \<noteq> k \<Longrightarrow> slot_ok L R k' slot \<Longrightarrow> slot_ok L' R' k' slot"
  shows "books_ok L' R' s'"
proof -
  have d: "distinct (map fst (entries s))" using assms(1) by (simp add: books_ok_def)
  have "\<forall>k'. slot_ok L' R' k' (map_of (entries s') k')"
    using assms(1,6,7) by (simp add: books_ok_def assms(3))
  moreover have "used_bytes s' = sum_entries used_of (entries s')" "reserved_bytes s' = sum_entries reserved_of (entries s')"
    using assms(1-5) sum_delete [OF d assms(2), of used_of] sum_delete [OF d assms(2), of reserved_of]
    by (simp_all add: books_ok_def)
  ultimately show ?thesis using d by (simp add: books_ok_def assms(3) distinct_delete)
qed

lemma books_replace:
  assumes "books_ok L R s" "map_of (entries s) k = Some e0"
    and "entries s' = AList.update k e (entries s)" "used_bytes s' + used_of e0 = used_bytes s + used_of e"
    and "reserved_bytes s' + reserved_of e0 = reserved_bytes s + reserved_of e"
    and "slot_ok L' R' k (Some e)" "\<And>k' slot. k' \<noteq> k \<Longrightarrow> slot_ok L R k' slot \<Longrightarrow> slot_ok L' R' k' slot"
  shows "books_ok L' R' s'"
proof -
  have d: "distinct (map fst (entries s))" using assms(1) by (simp add: books_ok_def)
  have "\<forall>k'. slot_ok L' R' k' (map_of (entries s') k')"
    using assms(1,6,7) by (simp add: books_ok_def assms(3))
  moreover have "used_bytes s' = sum_entries used_of (entries s')" "reserved_bytes s' = sum_entries reserved_of (entries s')"
    using assms(1-5) sum_update_old [OF assms(2), of used_of e] sum_update_old [OF assms(2), of reserved_of e]
    by (simp_all add: books_ok_def)
  ultimately show ?thesis using d by (simp add: books_ok_def assms(3) distinct_update)
qed

lemma books_insert:
  assumes "books_ok L R s" "map_of (entries s) k = None"
    and "entries s' = AList.update k e (entries s)" "used_bytes s' = used_bytes s + used_of e"
    and "reserved_bytes s' = reserved_bytes s + reserved_of e"
    and "slot_ok L' R' k (Some e)" "\<And>k' slot. k' \<noteq> k \<Longrightarrow> slot_ok L R k' slot \<Longrightarrow> slot_ok L' R' k' slot"
  shows "books_ok L' R' s'"
proof -
  have d: "distinct (map fst (entries s))" using assms(1) by (simp add: books_ok_def)
  have "\<forall>k'. slot_ok L' R' k' (map_of (entries s') k')"
    using assms(1,6,7) by (simp add: books_ok_def assms(3))
  moreover have "used_bytes s' = sum_entries used_of (entries s')" "reserved_bytes s' = sum_entries reserved_of (entries s')"
    using assms(1-5) sum_update_new [OF assms(2), of used_of e] sum_update_new [OF assms(2), of reserved_of e]
    by (simp_all add: books_ok_def)
  ultimately show ?thesis using d by (simp add: books_ok_def assms(3) distinct_update)
qed

lemma slot_ok_other:
  "count L' k = count L k \<Longrightarrow> pending R' k = pending R k \<Longrightarrow> slot_ok L R k slot \<Longrightarrow> slot_ok L' R' k slot"
  by (simp add: slot_ok_def split: option.splits entry.splits)

section \<open>Eviction\<close>

text \<open>What a run of the eviction loop leaves: some unpinned ready entries are gone, nothing else.\<close>

definition evicted_from :: "'k cache_state \<Rightarrow> 'k cache_state \<Rightarrow> bool" where
  "evicted_from s s' \<longleftrightarrow> used_bytes s' \<le> used_bytes s \<and> reserved_bytes s' = reserved_bytes s \<and> tick s' = tick s \<and> heat s' = heat s \<and>
     (\<forall>k. map_of (entries s') k = map_of (entries s) k \<or>
        map_of (entries s') k = None \<and> (\<exists>b t r. map_of (entries s) k = Some (Ready b 0 t r)))"

definition evicts_oldest :: "'k cache_state \<Rightarrow> 'k cache_state \<Rightarrow> bool" where
  "evicts_oldest s s' \<longleftrightarrow>
     (\<forall>k b t r k' b' t' r'. map_of (entries s) k = Some (Ready b 0 t r) \<longrightarrow> map_of (entries s') k = None \<longrightarrow>
        map_of (entries s') k' = Some (Ready b' 0 t' r') \<longrightarrow> t \<le> t')"

definition pinned_bytes :: "'k cache_state \<Rightarrow> nat" where
  "pinned_bytes s = sum_entries pinned_of (entries s)"

text \<open>One round evicts the least recently used unpinned entry.\<close>

lemma evict_candidate:
  assumes "books_ok L R s" "min_by_key (unpinned (entries s)) = Some c"
  obtains b t r where "map_of (entries s) c = Some (Ready b 0 t r)" "length b \<le> used_bytes s"
    "\<And>k b' t' r'. map_of (entries s) k = Some (Ready b' 0 t' r') \<Longrightarrow> t \<le> t'"
proof -
  have d: "distinct (map fst (entries s))" using assms(1) by (simp add: books_ok_def)
  obtain t where t: "(c, t) \<in> set (unpinned (entries s))" "\<forall>(k', t') \<in> set (unpinned (entries s)). t \<le> t'"
    using min_by_key_least [OF assms(2)] by blast
  obtain b r where c: "map_of (entries s) c = Some (Ready b 0 t r)" using t(1) unpinned_map_of [OF d] by blast
  have least: "t \<le> t'" if "map_of (entries s) k = Some (Ready b' 0 t' r')" for k b' t' r'
    using t(2) unpinned_map_of [OF d, of k t'] that by blast
  show ?thesis using books_parts(1) [OF assms(1) c] by (intro that [OF c _ least]) simp_all
qed

definition evict_one :: "'k cache_state \<Rightarrow> 'k \<Rightarrow> nat \<Rightarrow> 'k cache_state" where
  "evict_one s c n = s\<lparr>entries := AList.delete c (entries s), used_bytes := used_bytes s - n,
     evictions := saturating_add (evictions s) 1\<rparr>"

lemma reserve_capacity_step:
  assumes "books_ok L R s" "used_bytes s + reserved_bytes s + requested < u64_limit"
  shows "reserve_capacity s capacity requested =
    (if used_bytes s + reserved_bytes s + requested \<le> capacity then (Inr (), s)
     else case min_by_key (unpinned (entries s)) of
        None \<Rightarrow> (Inl (CapacityPinned requested), s)
      | Some c \<Rightarrow> reserve_capacity (evict_one s c (used_of (the (map_of (entries s) c)))) capacity requested)"
proof (cases "min_by_key (unpinned (entries s))")
  case None
  then show ?thesis using assms(2) by (subst reserve_capacity.simps) (simp add: checked_add_def)
next
  case (Some c)
  obtain b t r where "map_of (entries s) c = Some (Ready b 0 t r)" "length b \<le> used_bytes s"
    using evict_candidate [OF assms(1) Some] by metis
  then show ?thesis
    using assms(2) Some
    by (subst reserve_capacity.simps) (simp add: checked_add_def checked_sub_def evict_one_def Let_def)
qed

lemma evict_one_books:
  assumes "books_ok L R s" "map_of (entries s) c = Some (Ready b 0 t r)"
  shows "books_ok L R (evict_one s c (length b))"
  using assms books_slot [OF assms(1), of c]
  by (intro books_delete [OF assms]) (simp_all add: evict_one_def)

lemma reserve_capacity_effect:
  assumes "books_ok L R s" "used_bytes s + reserved_bytes s + requested < u64_limit"
    and "reserve_capacity s capacity requested = (r, s')"
  shows "books_ok L R s' \<and> evicted_from s s' \<and> evicts_oldest s s' \<and> pinned_bytes s' = pinned_bytes s \<and>
    (r = Inr () \<longrightarrow> used_bytes s' + reserved_bytes s' + requested \<le> capacity) \<and>
    (r \<noteq> Inr () \<longrightarrow> r = Inl (CapacityPinned requested) \<and> unpinned (entries s') = [] \<and>
       capacity < used_bytes s' + reserved_bytes s' + requested)"
  using assms
proof (induction "length (entries s)" arbitrary: s rule: less_induct)
  case less
  note step = reserve_capacity_step [OF less.prems(1,2), of capacity]
  consider (fits) "used_bytes s + reserved_bytes s + requested \<le> capacity"
    | (stuck) "capacity < used_bytes s + reserved_bytes s + requested" "min_by_key (unpinned (entries s)) = None"
    | (evict) c where "capacity < used_bytes s + reserved_bytes s + requested"
        "min_by_key (unpinned (entries s)) = Some c"
    by fastforce
  then show ?case
  proof cases
    case fits
    then have "s' = s" "r = Inr ()" using step less.prems(3) by auto
    then show ?thesis using less.prems(1) fits by (simp add: evicted_from_def evicts_oldest_def)
  next
    case stuck
    then have "s' = s" "r = Inl (CapacityPinned requested)" using step less.prems(3) by auto
    then show ?thesis using less.prems(1) stuck by (simp add: evicted_from_def evicts_oldest_def min_by_key_None)
  next
    case evict
    obtain b t res where c: "map_of (entries s) c = Some (Ready b 0 t res)" "length b \<le> used_bytes s"
      and least: "\<And>k b' t' r'. map_of (entries s) k = Some (Ready b' 0 t' r') \<Longrightarrow> t \<le> t'"
      using evict_candidate [OF less.prems(1) evict(2)] by metis
    let ?s = "evict_one s c (length b)"
    have run: "reserve_capacity ?s capacity requested = (r, s')" using step evict c(1) less.prems(3) by simp
    have books: "books_ok L R ?s" by (rule evict_one_books [OF less.prems(1) c(1)])
    have es: "entries ?s = AList.delete c (entries s)" "used_bytes ?s = used_bytes s - length b"
      "reserved_bytes ?s = reserved_bytes s" "tick ?s = tick s" "heat ?s = heat s" by (simp_all add: evict_one_def)
    have "length (entries ?s) < length (entries s)" using candidate_less [OF evict(2)] es by simp
    moreover have "used_bytes ?s + reserved_bytes ?s + requested < u64_limit" using less.prems(2) es by simp
    ultimately have IH: "books_ok L R s' \<and> evicted_from ?s s' \<and> evicts_oldest ?s s' \<and> pinned_bytes s' = pinned_bytes ?s \<and>
      (r = Inr () \<longrightarrow> used_bytes s' + reserved_bytes s' + requested \<le> capacity) \<and>
      (r \<noteq> Inr () \<longrightarrow> r = Inl (CapacityPinned requested) \<and> unpinned (entries s') = [] \<and>
         capacity < used_bytes s' + reserved_bytes s' + requested)"
      using less.hyps [OF _ books _ run] by blast
    have rel: "map_of (entries s') k = map_of (entries ?s) k \<or>
        map_of (entries s') k = None \<and> (\<exists>b t r. map_of (entries ?s) k = Some (Ready b 0 t r))" for k
      using IH by (simp add: evicted_from_def)
    have "map_of (entries s') k = map_of (entries s) k \<or>
        map_of (entries s') k = None \<and> (\<exists>b t r. map_of (entries s) k = Some (Ready b 0 t r))" for k
      using rel [of k] c(1) es(1) by (cases "k = c") auto
    moreover have "used_bytes s' \<le> used_bytes s - length b" using IH es(2) by (simp add: evicted_from_def)
    then have "used_bytes s' \<le> used_bytes s" by simp
    ultimately have ef: "evicted_from s s'" using IH es by (auto simp: evicted_from_def)
    have "t1 \<le> t2" if k: "map_of (entries s) k = Some (Ready b1 0 t1 r1)" "map_of (entries s') k = None"
      "map_of (entries s') k' = Some (Ready b2 0 t2 r2)" for k b1 t1 r1 k' b2 t2 r2
    proof (cases "k = c")
      case True
      have "map_of (entries ?s) k' = Some (Ready b2 0 t2 r2)" using rel [of k'] k(3) by auto
      then have "map_of (entries s) k' = Some (Ready b2 0 t2 r2)" using es(1) by (auto split: if_splits)
      then have "t \<le> t2" by (rule least)
      then show ?thesis using k(1) c(1) True by simp
    next
      case False
      then have "map_of (entries ?s) k = Some (Ready b1 0 t1 r1)" using k(1) es(1) by simp
      with IH k(2,3) show ?thesis unfolding evicts_oldest_def by blast
    qed
    then have eo: "evicts_oldest s s'" unfolding evicts_oldest_def by blast
    have "distinct (map fst (entries s))" using less.prems(1) by (simp add: books_ok_def)
    then have "pinned_bytes ?s = pinned_bytes s"
      using sum_delete [of "entries s" c "Ready b 0 t res" pinned_of] c(1) es(1) by (simp add: pinned_bytes_def)
    with IH ef eo show ?thesis by simp
  qed
qed

section \<open>Effect of the operations\<close>

lemma next_tick_state [simp]: "snd (next_tick s) = s\<lparr>tick := saturating_add (tick s) 1\<rparr>"
  by (simp add: next_tick_def Let_def)

lemma next_tick_eq: "next_tick s = (saturating_add (tick s) 1, s\<lparr>tick := saturating_add (tick s) 1\<rparr>)"
  by (simp add: next_tick_def Let_def)

lemma books_counters [simp]:
  "books_ok L R (s\<lparr>tick := t\<rparr>) = books_ok L R s" "books_ok L R (s\<lparr>misses := t\<rparr>) = books_ok L R s"
  "books_ok L R (s\<lparr>waits := t\<rparr>) = books_ok L R s" "books_ok L R (s\<lparr>heat := h\<rparr>) = books_ok L R s"
  by (simp_all add: books_ok_def)

text \<open>\<open>same_bytes\<close>: the byte accounts did not move.\<close>

definition same_bytes :: "'k cache_state \<Rightarrow> 'k cache_state \<Rightarrow> bool" where
  "same_bytes s s' \<longleftrightarrow> used_bytes s' = used_bytes s \<and> reserved_bytes s' = reserved_bytes s"

lemma pin_entry_effect:
  assumes "books_ok L R s" "map_of (entries s) key = Some (Ready b p t0 r)" "pin_entry key b p r t s = (res, s')"
  shows "same_bytes s s' \<and> (case res of Inl _ \<Rightarrow> books_ok L R s' | Inr b' \<Rightarrow> b' = b \<and> books_ok (add_mset key L) R s')"
proof (cases "Suc p < u64_limit")
  case False
  then have "res = Inl CacheArithmeticOverflow" "s' = s"
    using assms(3) by (simp_all add: pin_entry_def checked_add_def)
  then show ?thesis using assms(1) by (simp add: same_bytes_def)
next
  case True
  let ?s = "s\<lparr>entries := AList.update key (Ready b (Suc p) t r) (entries s), hits := saturating_add (hits s) 1\<rparr>"
  have res: "res = Inr b" "s' = ?s" using assms(3) True by (auto simp: pin_entry_def checked_add_def)
  have "books_ok (add_mset key L) R ?s"
    using books_slot [OF assms(1), of key] assms(2)
    by (intro books_replace [OF assms(1,2)]) (auto intro: slot_ok_other)
  then show ?thesis by (simp add: res same_bytes_def)
qed

lemma cache_get_effect:
  assumes "books_ok L R s" "cache_get key s = (res, s')"
  shows "same_bytes s s' \<and>
    (case res of Inr (Some b) \<Rightarrow> books_ok (add_mset key L) R s' | _ \<Rightarrow> books_ok L R s')"
proof -
  let ?s = "s\<lparr>tick := saturating_add (tick s) 1\<rparr>"
  have b: "books_ok L R ?s" using assms(1) by simp
  show ?thesis
  proof (cases "map_of (entries s) key")
    case None
    then have "res = Inr None" "s' = ?s\<lparr>misses := saturating_add (misses s) 1\<rparr>"
      using assms(2) by (auto simp: cache_get_def next_tick_eq)
    then show ?thesis using assms(1) by (simp add: same_bytes_def)
  next
    case (Some e)
    show ?thesis
    proof (cases e)
      case (Loading n r)
      then show ?thesis using assms(2) Some b by (auto simp: cache_get_def next_tick_eq same_bytes_def)
    next
      case (Ready bytes p t0 r)
      obtain r1 s1 where p: "pin_entry key bytes p r (saturating_add (tick s) 1) ?s = (r1, s1)" by fastforce
      have m: "map_of (entries ?s) key = Some (Ready bytes p t0 r)" using Some Ready by simp
      have "s' = s1" "res = (case r1 of Inl e \<Rightarrow> Inl e | Inr b \<Rightarrow> Inr (Some b))"
        using assms(2) Some Ready p by (auto simp: cache_get_def next_tick_eq split: sum.splits)
      then show ?thesis using pin_entry_effect [OF b m p] by (auto simp: same_bytes_def split: sum.splits)
    qed
  qed
qed

lemma count_request_eq:
  "count_request key s = (saturating_add (case map_of (heat s) key of None \<Rightarrow> 0 | Some n \<Rightarrow> n) 1,
     s\<lparr>heat := AList.update key (saturating_add (case map_of (heat s) key of None \<Rightarrow> 0 | Some n \<Rightarrow> n) 1) (heat s)\<rparr>)"
  by (simp add: count_request_def Let_def)

text \<open>The state in which a miss asks for room.\<close>

definition missed :: "'k \<Rightarrow> 'k cache_state \<Rightarrow> 'k cache_state" where
  "missed key s = snd (count_request key (s\<lparr>tick := saturating_add (tick s) 1, misses := saturating_add (misses s) 1\<rparr>))"

lemma missed_fields [simp]:
  "entries (missed key s) = entries s" "used_bytes (missed key s) = used_bytes s"
  "reserved_bytes (missed key s) = reserved_bytes s"
  "heat (missed key s) = AList.update key (saturating_add (case map_of (heat s) key of None \<Rightarrow> 0 | Some n \<Rightarrow> n) 1) (heat s)"
  by (simp_all add: missed_def count_request_eq)

lemma books_missed [simp]: "books_ok L R (missed key s) = books_ok L R s"
  by (rule books_cong) simp_all

lemma begin_load_miss:
  assumes "map_of (entries s) key = None"
  shows "begin_load cfg key expected s =
    (case reserve_capacity (missed key s) (capacity_bytes cfg) expected of
       (Inl e, s') \<Rightarrow> (Inl e, s')
     | (Inr _, s') \<Rightarrow>
        (case checked_add (reserved_bytes s') expected of
           None \<Rightarrow> (Inl CacheArithmeticOverflow, s')
         | Some reserved \<Rightarrow>
             (Inr MustLoad, s'\<lparr>reserved_bytes := reserved, loads := saturating_add (loads s') 1,
                entries := AList.update key (Loading expected (admit_after_requests cfg \<le>
                  saturating_add (case map_of (heat s) key of None \<Rightarrow> 0 | Some n \<Rightarrow> n) 1)) (entries s')\<rparr>)))"
proof -
  obtain r1 s1 where rc: "reserve_capacity (missed key s) (capacity_bytes cfg) expected = (r1, s1)" by fastforce
  show ?thesis
    using assms rc
    by (cases r1; cases "reserved_bytes s1 + expected < u64_limit")
      (simp_all add: begin_load_def next_tick_eq count_request_eq missed_def Let_def checked_add_def)
qed

lemma begin_load_effect:
  assumes inv: "cache_inv cfg L R s" and cap: "2 * capacity_bytes cfg < u64_limit"
    and pre: "load_precheck cfg expected = Inr ()" and run: "begin_load cfg key expected s = (res, s')"
  shows "case res of Inr (LeaseGranted b) \<Rightarrow> cache_inv cfg (add_mset key L) R s'
    | Inr MustLoad \<Rightarrow> cache_inv cfg L (add_mset (key, expected) R) s' | _ \<Rightarrow> cache_inv cfg L R s'"
proof -
  let ?s = "s\<lparr>tick := saturating_add (tick s) 1\<rparr>"
  have books: "books_ok L R s" and le: "used_bytes s + reserved_bytes s \<le> capacity_bytes cfg"
    using inv by (auto simp: cache_inv_def)
  have e: "0 < expected" "expected \<le> capacity_bytes cfg" using pre by (auto simp: load_precheck_def split: if_splits)
  show ?thesis
  proof (cases "map_of (entries s) key")
    case None
    obtain r1 s1 where rc: "reserve_capacity (missed key s) (capacity_bytes cfg) expected = (r1, s1)" by fastforce
    have "used_bytes (missed key s) + reserved_bytes (missed key s) + expected < u64_limit" using le e(2) cap by simp
    note eff = reserve_capacity_effect [OF _ this rc, of L R, simplified, OF books]
    show ?thesis
    proof (cases r1)
      case (Inl e)
      then have "res = Inl e" "s' = s1" using run rc by (auto simp: begin_load_miss [OF None])
      moreover have "used_bytes s1 + reserved_bytes s1 \<le> capacity_bytes cfg"
        using eff le by (simp add: evicted_from_def)
      ultimately show ?thesis using eff by (simp add: cache_inv_def)
    next
      case (Inr u)
      have fit: "used_bytes s1 + reserved_bytes s1 + expected \<le> capacity_bytes cfg" using eff Inr by simp
      then have ca: "checked_add (reserved_bytes s1) expected = Some (reserved_bytes s1 + expected)"
        using cap by (simp add: checked_add_def)
      have none: "map_of (entries s1) key = None"
        using eff None unfolding evicted_from_def missed_fields by metis
      obtain res' where s': "res = Inr MustLoad" "s' = s1\<lparr>reserved_bytes := reserved_bytes s1 + expected,
          loads := saturating_add (loads s1) 1, entries := AList.update key (Loading expected res') (entries s1)\<rparr>"
        using run rc Inr ca by (auto simp: begin_load_miss [OF None])
      have b1: "books_ok L R s1" using eff by simp
      have "books_ok L (add_mset (key, expected) R) s'"
        using books_slot [OF b1, of key] none e(1)
        by (intro books_insert [OF b1 none]) (auto simp: s' intro: slot_ok_other)
      then show ?thesis using fit by (simp add: s' cache_inv_def)
    qed
  next
    case (Some en)
    have b: "books_ok L R ?s" using books by simp
    show ?thesis
    proof (cases en)
      case (Loading n r)
      then have "res = Inr MustWait" "s' = ?s\<lparr>waits := saturating_add (waits s) 1\<rparr>"
        using run Some by (auto simp: begin_load_def next_tick_eq)
      then show ?thesis using books le by (simp add: cache_inv_def)
    next
      case (Ready bytes p t0 r)
      obtain r1 s1 where p: "pin_entry key bytes p r (saturating_add (tick s) 1) ?s = (r1, s1)" by fastforce
      have m: "map_of (entries ?s) key = Some (Ready bytes p t0 r)" using Some Ready by simp
      have "s' = s1" "res = (case r1 of Inl e \<Rightarrow> Inl e | Inr b \<Rightarrow> Inr (LeaseGranted b))"
        using run Some Ready p by (auto simp: begin_load_def next_tick_eq split: sum.splits)
      then show ?thesis using pin_entry_effect [OF b m p] le
        by (auto simp: same_bytes_def cache_inv_def split: sum.splits)
    qed
  qed
qed

lemma reserved_slot:
  assumes "books_ok L R s" "(key, n) \<in># R"
  obtains r where "map_of (entries s) key = Some (Loading n r)" "count L key = 0" "pending R key = {#(key, n)#}"
proof -
  have "(key, n) \<in># pending R key" using assms(2) by (rule pending_mem)
  then show thesis
    using books_slot [OF assms(1), of key] that
    by (cases "map_of (entries s) key"; cases "the (map_of (entries s) key)") auto
qed

lemma leased_slot:
  assumes "books_ok L R s" "key \<in># L"
  obtains b t r where "map_of (entries s) key = Some (Ready b (count L key) t r)" "b \<noteq> []" "pending R key = {#}"
proof -
  show thesis
    using books_slot [OF assms(1), of key] that assms(2)
    by (cases "map_of (entries s) key"; cases "the (map_of (entries s) key)") (auto simp: count_eq_zero_iff)
qed

lemma reservation_drop_effect:
  assumes "cache_inv cfg L R s" "(key, n) \<in># R"
  shows "cache_inv cfg L (R - {#(key, n)#}) (reservation_drop key n s)"
proof -
  have books: "books_ok L R s" using assms(1) by (simp add: cache_inv_def)
  obtain r where m: "map_of (entries s) key = Some (Loading n r)" "count L key = 0" "pending R key = {#(key, n)#}"
    by (rule reserved_slot [OF books assms(2)])
  have d: "reservation_drop key n s =
      s\<lparr>entries := AList.delete key (entries s), reserved_bytes := reserved_bytes s - n\<rparr>"
    using m(1) by (simp add: reservation_drop_def saturating_sub_def)
  have "books_ok L (R - {#(key, n)#}) (reservation_drop key n s)"
    using m unfolding d
    by (intro books_delete [OF books m(1)]) (auto intro: slot_ok_other simp: pending_remove [OF assms(2)])
  moreover have "used_bytes s + (reserved_bytes s - n) \<le> capacity_bytes cfg"
    using assms(1) by (auto simp: cache_inv_def)
  ultimately show ?thesis by (simp add: cache_inv_def d)
qed

lemma complete_load_effect:
  assumes "cache_inv cfg L R s" "(key, length bytes) \<in># R" "bytes \<noteq> []" "capacity_bytes cfg < u64_limit"
  shows "\<exists>s'. complete_load key (length bytes) bytes s = (Inr bytes, s') \<and>
    cache_inv cfg (add_mset key L) (R - {#(key, length bytes)#}) s'"
proof -
  let ?n = "length bytes"
  have books: "books_ok L R s" and le: "used_bytes s + reserved_bytes s \<le> capacity_bytes cfg"
    using assms(1) by (auto simp: cache_inv_def)
  obtain r where m: "map_of (entries s) key = Some (Loading ?n r)" "count L key = 0" "pending R key = {#(key, ?n)#}"
    by (rule reserved_slot [OF books assms(2)])
  have n: "?n \<le> reserved_bytes s" using books_parts(2) [OF books m(1)] by simp
  let ?t = "saturating_add (tick s) 1"
  let ?s = "s\<lparr>reserved_bytes := reserved_bytes s - ?n, used_bytes := used_bytes s + ?n, tick := ?t,
    entries := AList.update key (Ready bytes 1 ?t r) (entries s)\<rparr>"
  have "used_bytes s + ?n < u64_limit" using n le assms(4) by simp
  then have "complete_load key ?n bytes s = (Inr bytes, ?s)"
    using m(1) n by (simp add: complete_load_def checked_sub_def checked_add_def next_tick_eq)
  moreover have "books_ok (add_mset key L) (R - {#(key, ?n)#}) ?s"
    using m n assms(3)
    by (intro books_replace [OF books m(1)]) (auto intro: slot_ok_other simp: pending_remove [OF assms(2)])
  ultimately show ?thesis using le n by (simp add: cache_inv_def)
qed

lemma reserved_positive:
  assumes "books_ok L R s" "(key, n) \<in># R"
  shows "0 < n"
proof -
  obtain r where "map_of (entries s) key = Some (Loading n r)" by (rule reserved_slot [OF assms])
  with books_slot [OF assms(1), of key] show ?thesis by simp
qed

lemma finish_load_effect:
  assumes "cache_inv cfg L R s" "(key, n) \<in># R" "capacity_bytes cfg < u64_limit"
    and "finish_load key n loaded s = (res, s')"
  shows "case res of Inr b \<Rightarrow> cache_inv cfg (add_mset key L) (R - {#(key, n)#}) s'
    | Inl _ \<Rightarrow> cache_inv cfg L (R - {#(key, n)#}) s'"
    and "loaded = Inr bytes \<Longrightarrow> length bytes = n \<Longrightarrow> res = Inr bytes"
proof -
  have pos: "0 < n" using assms(1,2) by (auto simp: cache_inv_def intro: reserved_positive)
  have bad: "case res of Inr b \<Rightarrow> cache_inv cfg (add_mset key L) (R - {#(key, n)#}) s'
    | Inl _ \<Rightarrow> cache_inv cfg L (R - {#(key, n)#}) s'" if "res = Inl e" "s' = reservation_drop key n s" for e
    using reservation_drop_effect [OF assms(1,2)] that by simp
  show "case res of Inr b \<Rightarrow> cache_inv cfg (add_mset key L) (R - {#(key, n)#}) s'
    | Inl _ \<Rightarrow> cache_inv cfg L (R - {#(key, n)#}) s'"
  proof (cases loaded)
    case (Inl e)
    then show ?thesis using assms(4) by (intro bad [of "LoadErrorLoader e"]) (simp_all add: finish_load_def)
  next
    case (Inr b)
    show ?thesis
    proof (cases "length b = n")
      case False
      then show ?thesis using assms(4) Inr
        by (intro bad [of "LoadErrorCache (LoadedSizeMismatch n (length b))"]) (simp_all add: finish_load_def)
    next
      case True
      obtain s1 where "complete_load key (length b) b s = (Inr b, s1)"
        "cache_inv cfg (add_mset key L) (R - {#(key, length b)#}) s1"
        using complete_load_effect [OF assms(1) _ _ assms(3)] assms(2) True pos by fastforce
      then show ?thesis using assms(4) Inr True by (auto simp: finish_load_def)
    qed
  qed
  show "loaded = Inr bytes \<Longrightarrow> length bytes = n \<Longrightarrow> res = Inr bytes"
  proof -
    assume l: "loaded = Inr bytes" "length bytes = n"
    obtain s1 where "complete_load key (length bytes) bytes s = (Inr bytes, s1)"
      using complete_load_effect [OF assms(1) _ _ assms(3)] assms(2) l(2) pos by fastforce
    then show "res = Inr bytes" using assms(4) l by (auto simp: finish_load_def)
  qed
qed

lemma lease_drop_effect:
  assumes "cache_inv cfg L R s" "key \<in># L"
  shows "cache_inv cfg (L - {#key#}) R (lease_drop key s)"
proof -
  have books: "books_ok L R s" and le: "used_bytes s + reserved_bytes s \<le> capacity_bytes cfg"
    using assms(1) by (auto simp: cache_inv_def)
  obtain b t r where m: "map_of (entries s) key = Some (Ready b (count L key) t r)" "b \<noteq> []" "pending R key = {#}"
    by (rule leased_slot [OF books assms(2)])
  let ?p = "count L key - 1"
  show ?thesis
  proof (cases "?p = 0 \<and> \<not> r")
    case True
    then have d: "lease_drop key s =
        s\<lparr>entries := AList.delete key (entries s), used_bytes := used_bytes s - length b\<rparr>"
      using m(1) by (simp add: lease_drop_def saturating_sub_def)
    have "books_ok (L - {#key#}) R (lease_drop key s)"
      using m True unfolding d by (intro books_delete [OF books m(1)]) (auto intro: slot_ok_other)
    then show ?thesis using le by (simp add: cache_inv_def d)
  next
    case False
    then have d: "lease_drop key s = s\<lparr>entries := AList.update key (Ready b ?p t r) (entries s)\<rparr>"
      using m(1) by (auto simp: lease_drop_def saturating_sub_def Let_def)
    have "books_ok (L - {#key#}) R (lease_drop key s)"
      using m False unfolding d by (intro books_replace [OF books m(1)]) (auto intro: slot_ok_other)
    then show ?thesis using le by (simp add: cache_inv_def d)
  qed
qed

text \<open>Clearing removes exactly the unpinned ready entries and cannot underflow.\<close>

lemma clear_keys_effect:
  assumes "books_ok L R s" "\<forall>k \<in> set ks. \<exists>b t r. map_of (entries s) k = Some (Ready b 0 t r)" "distinct ks"
  shows "\<exists>s'. clear_keys ks n s = (Inr (n + length ks), s') \<and> books_ok L R s' \<and>
    used_bytes s' \<le> used_bytes s \<and> reserved_bytes s' = reserved_bytes s \<and>
    map_of (entries s') = (map_of (entries s)) |` (- set ks)"
  using assms
proof (induction ks arbitrary: n s)
  case Nil
  then show ?case by simp
next
  case (Cons k ks)
  obtain b t r where m: "map_of (entries s) k = Some (Ready b 0 t r)" using Cons.prems(2) by auto
  let ?s = "s\<lparr>entries := AList.delete k (entries s), used_bytes := used_bytes s - length b\<rparr>"
  have le: "length b \<le> used_bytes s" using books_parts(1) [OF Cons.prems(1) m] by simp
  have "books_ok L R ?s"
    using m books_slot [OF Cons.prems(1), of k] by (intro books_delete [OF Cons.prems(1) m]) auto
  have "\<forall>k' \<in> set ks. \<exists>b t r. map_of (entries ?s) k' = Some (Ready b 0 t r)"
    using Cons.prems(2,3) by auto
  from Cons.IH [OF \<open>books_ok L R ?s\<close> this, of "n + 1"] Cons.prems(3) obtain s' where s': "clear_keys ks (n + 1) ?s = (Inr (n + 1 + length ks), s')" "books_ok L R s'"
    "used_bytes s' \<le> used_bytes ?s" "reserved_bytes s' = reserved_bytes ?s"
    "map_of (entries s') = (map_of (entries ?s)) |` (- set ks)"
    by (simp only: distinct.simps) blast
  have "clear_keys (k # ks) n s = (Inr (n + length (k # ks)), s')"
    using s'(1) m le by (simp add: checked_sub_def Let_def)
  moreover have "map_of (entries s') = (map_of (entries s)) |` (- set (k # ks))"
    using s'(5) by (auto simp: restrict_map_def fun_eq_iff)
  ultimately show ?case using s' by auto
qed

lemma distinct_unpinned: "distinct (map fst es) \<Longrightarrow> distinct (map fst (unpinned es))"
proof (induction es rule: unpinned.induct)
  case (3 k b p t r es)
  have "fst ` set (unpinned es) \<subseteq> fst ` set es" by (force simp: set_unpinned)
  with 3 show ?case by auto
qed auto

lemma clear_unpinned_effect:
  assumes "books_ok L R s" "clear_unpinned s = (res, s')"
  shows "res = Inr (length (unpinned (entries s)))" "books_ok L R s'" "used_bytes s' \<le> used_bytes s"
    "reserved_bytes s' = reserved_bytes s"
    "map_of (entries s') k = (case map_of (entries s) k of
       Some (Ready _ pins _ _) \<Rightarrow> if pins = 0 then None else map_of (entries s) k | other \<Rightarrow> other)"
proof -
  have d: "distinct (map fst (entries s))" using assms(1) by (simp add: books_ok_def)
  have mem: "k \<in> set (map fst (unpinned (entries s))) \<longleftrightarrow> (\<exists>b t r. map_of (entries s) k = Some (Ready b 0 t r))" for k
    using unpinned_map_of [OF d] by force
  obtain s1 where s1: "clear_keys (map fst (unpinned (entries s))) 0 s = (Inr (0 + length (map fst (unpinned (entries s)))), s1)"
    "books_ok L R s1" "used_bytes s1 \<le> used_bytes s" "reserved_bytes s1 = reserved_bytes s"
    "map_of (entries s1) = (map_of (entries s)) |` (- set (map fst (unpinned (entries s))))"
    using clear_keys_effect [OF assms(1) _ distinct_unpinned [OF d], of 0] mem by blast
  then have "res = Inr (length (unpinned (entries s)))" "s' = s1"
    using assms(2) by (auto simp: clear_unpinned_def)
  then show "res = Inr (length (unpinned (entries s)))" "books_ok L R s'" "used_bytes s' \<le> used_bytes s"
    "reserved_bytes s' = reserved_bytes s"
    using s1 by auto
  show "map_of (entries s') k = (case map_of (entries s) k of
       Some (Ready _ pins _ _) \<Rightarrow> if pins = 0 then None else map_of (entries s) k | other \<Rightarrow> other)"
    using s1(5) mem [of k] \<open>s' = s1\<close>
    by (auto simp: restrict_map_def split: option.splits entry.splits)
qed

lemma merge_heat_fields:
  "merge_heat hs s = (res, s') \<Longrightarrow> entries s' = entries s \<and> used_bytes s' = used_bytes s \<and> reserved_bytes s' = reserved_bytes s"
  by (induction hs s rule: merge_heat.induct) (auto split: if_splits)

lemma import_heat_fields:
  "import_heat_json from_json bytes m n s = (res, s') \<Longrightarrow>
   entries s' = entries s \<and> used_bytes s' = used_bytes s \<and> reserved_bytes s' = reserved_bytes s"
  by (auto simp: import_heat_json_def split: if_splits sum.splits dest: merge_heat_fields)

section \<open>Interleaved callers\<close>

text \<open>
  A cache shared by any number of callers: the state behind the mutex, the leases that are alive and
  the reservations whose loaders are running. Every step is one critical section.
\<close>

record 'k cache_sys =
  shared :: "'k cache_state"
  leases :: "'k multiset"
  loading :: "('k \<times> nat) multiset"

inductive cache_step :: "cache_config \<Rightarrow> 'k cache_sys \<Rightarrow> 'k cache_sys \<Rightarrow> bool" for cfg where
  step_get_hit: "cache_get key (shared y) = (Inr (Some b), s) \<Longrightarrow>
     cache_step cfg y (y\<lparr>shared := s, leases := add_mset key (leases y)\<rparr>)"
| step_get_other: "cache_get key (shared y) = (res, s) \<Longrightarrow> (\<forall>b. res \<noteq> Inr (Some b)) \<Longrightarrow>
     cache_step cfg y (y\<lparr>shared := s\<rparr>)"
| step_begin_hit: "load_precheck cfg n = Inr () \<Longrightarrow> begin_load cfg key n (shared y) = (Inr (LeaseGranted b), s) \<Longrightarrow>
     cache_step cfg y (y\<lparr>shared := s, leases := add_mset key (leases y)\<rparr>)"
| step_begin_load: "load_precheck cfg n = Inr () \<Longrightarrow> begin_load cfg key n (shared y) = (Inr MustLoad, s) \<Longrightarrow>
     cache_step cfg y (y\<lparr>shared := s, loading := add_mset (key, n) (loading y)\<rparr>)"
| step_begin_other: "load_precheck cfg n = Inr () \<Longrightarrow> begin_load cfg key n (shared y) = (res, s) \<Longrightarrow>
     res = Inr MustWait \<or> (\<exists>e. res = Inl e) \<Longrightarrow> cache_step cfg y (y\<lparr>shared := s\<rparr>)"
| step_finish_ok: "(key, n) \<in># loading y \<Longrightarrow> finish_load key n (loaded :: string + byte list) (shared y) = (Inr b, s) \<Longrightarrow>
     cache_step cfg y (y\<lparr>shared := s, leases := add_mset key (leases y), loading := loading y - {#(key, n)#}\<rparr>)"
| step_finish_failed: "(key, n) \<in># loading y \<Longrightarrow> finish_load key n (loaded :: string + byte list) (shared y) = (Inl e, s) \<Longrightarrow>
     cache_step cfg y (y\<lparr>shared := s, loading := loading y - {#(key, n)#}\<rparr>)"
| step_drop: "key \<in># leases y \<Longrightarrow>
     cache_step cfg y (y\<lparr>shared := lease_drop key (shared y), leases := leases y - {#key#}\<rparr>)"
| step_clear: "clear_unpinned (shared y) = (res, s) \<Longrightarrow> cache_step cfg y (y\<lparr>shared := s\<rparr>)"
| step_import: "import_heat_json from_json bytes m n (shared y) = (res :: string heat_error + nat, s) \<Longrightarrow>
     cache_step cfg y (y\<lparr>shared := s\<rparr>)"

inductive cache_reachable :: "cache_config \<Rightarrow> 'k cache_sys \<Rightarrow> bool" for cfg where
  cache_initial: "cache_new cfg = Inr s \<Longrightarrow> cache_reachable cfg \<lparr>shared = s, leases = {#}, loading = {#}\<rparr>"
| cache_next: "cache_reachable cfg y \<Longrightarrow> cache_step cfg y z \<Longrightarrow> cache_reachable cfg z"

definition sys_inv :: "cache_config \<Rightarrow> 'k cache_sys \<Rightarrow> bool" where
  "sys_inv cfg y \<longleftrightarrow> cache_inv cfg (leases y) (loading y) (shared y)"

lemma cache_inv_same:
  "cache_inv cfg L R s \<Longrightarrow> same_bytes s s' \<Longrightarrow> books_ok L' R' s' \<Longrightarrow> cache_inv cfg L' R' s'"
  by (simp add: cache_inv_def same_bytes_def)

lemma cache_step_inv:
  assumes "cache_step cfg y z" "sys_inv cfg y" "2 * capacity_bytes cfg < u64_limit"
  shows "sys_inv cfg z"
proof -
  have inv: "cache_inv cfg (leases y) (loading y) (shared y)" using assms(2) by (simp add: sys_inv_def)
  then have books: "books_ok (leases y) (loading y) (shared y)" by (simp add: cache_inv_def)
  have cap: "capacity_bytes cfg < u64_limit" using assms(3) by simp
  show ?thesis
    using assms(1)
  proof cases
    case (step_get_hit key b s)
    then show ?thesis using cache_get_effect [OF books step_get_hit(2)] cache_inv_same [OF inv]
      by (simp add: sys_inv_def)
  next
    case (step_get_other key res s)
    have "books_ok (leases y) (loading y) s" "same_bytes (shared y) s"
      using cache_get_effect [OF books step_get_other(2)] step_get_other(3) by (auto split: sum.splits option.splits)
    then show ?thesis using cache_inv_same [OF inv] step_get_other(1) by (simp add: sys_inv_def)
  next
    case (step_begin_hit n key b s)
    then show ?thesis using begin_load_effect [OF inv assms(3) step_begin_hit(2,3)] by (simp add: sys_inv_def)
  next
    case (step_begin_load n key s)
    then show ?thesis using begin_load_effect [OF inv assms(3) step_begin_load(2,3)] by (simp add: sys_inv_def)
  next
    case (step_begin_other n key res s)
    then show ?thesis using begin_load_effect [OF inv assms(3) step_begin_other(2,3)] by (auto simp: sys_inv_def)
  next
    case (step_finish_ok key n loaded b s)
    then show ?thesis using finish_load_effect(1) [OF inv step_finish_ok(2) cap step_finish_ok(3)] by (simp add: sys_inv_def)
  next
    case (step_finish_failed key n loaded e s)
    then show ?thesis using finish_load_effect(1) [OF inv step_finish_failed(2) cap step_finish_failed(3)]
      by (simp add: sys_inv_def)
  next
    case (step_drop key)
    then show ?thesis using lease_drop_effect [OF inv step_drop(2)] by (simp add: sys_inv_def)
  next
    case (step_clear res s)
    have "books_ok (leases y) (loading y) s" "used_bytes s \<le> used_bytes (shared y)" "reserved_bytes s = reserved_bytes (shared y)"
      using clear_unpinned_effect(2-4) [OF books step_clear(2)] by auto
    then show ?thesis using inv step_clear(1) by (simp add: sys_inv_def cache_inv_def)
  next
    case (step_import from_json bytes m n res s)
    then show ?thesis using import_heat_fields [OF step_import(2)] inv books_cong [of s "shared y"]
      by (simp add: sys_inv_def cache_inv_def)
  qed
qed

lemma cache_reachable_inv:
  assumes "cache_reachable cfg y" "2 * capacity_bytes cfg < u64_limit"
  shows "sys_inv cfg y"
  using assms
proof induction
  case (cache_initial s)
  then show ?case
    by (auto simp: cache_new_def rbind_Inr sys_inv_def cache_inv_def books_ok_def sum_entries_def)
next
  case (cache_next y z)
  then show ?case by (blast intro: cache_step_inv)
qed

text \<open>A run for the witnesses: a 4-byte cache, a load of 3 bytes for key 7, and its completion.\<close>

definition demo_config :: cache_config where
  "demo_config = \<lparr>capacity_bytes = 4, admit_after_requests = 1\<rparr>"

definition demo_empty :: "nat cache_state" where
  "demo_empty = \<lparr>entries = [], heat = [], used_bytes = 0, reserved_bytes = 0, tick = 0,
     hits = 0, misses = 0, loads = 0, waits = 0, evictions = 0\<rparr>"

definition demo_reserved :: "nat cache_state" where
  "demo_reserved = \<lparr>entries = [(7, Loading 3 True)], heat = [(7, 1)], used_bytes = 0, reserved_bytes = 3, tick = 1,
     hits = 0, misses = 1, loads = 1, waits = 0, evictions = 0\<rparr>"

definition demo_ready :: "nat cache_state" where
  "demo_ready = \<lparr>entries = [(7, Ready [1, 2, 3] 1 2 True)], heat = [(7, 1)], used_bytes = 3, reserved_bytes = 0, tick = 2,
     hits = 0, misses = 1, loads = 1, waits = 0, evictions = 0\<rparr>"

lemma demo_begin: "begin_load demo_config 7 3 demo_empty = (Inr MustLoad, demo_reserved)"
  by (simp add: begin_load_def next_tick_def count_request_def demo_empty_def demo_config_def demo_reserved_def
      saturating_add_def u64_max_def checked_add_def u64_limit_def reserve_capacity.simps Let_def)

lemma demo_finish:
  "finish_load 7 3 (Inr [1, 2, 3] :: string + byte list) demo_reserved = (Inr [1, 2, 3], demo_ready)"
  by (simp add: finish_load_def complete_load_def next_tick_def demo_reserved_def demo_ready_def
      saturating_add_def u64_max_def checked_add_def checked_sub_def u64_limit_def Let_def)

lemma demo_reachable:
  "cache_reachable demo_config \<lparr>shared = demo_empty, leases = {#}, loading = {#}\<rparr>"
  "cache_reachable demo_config \<lparr>shared = demo_reserved, leases = {#}, loading = {#(7, 3)#}\<rparr>"
  "cache_reachable demo_config \<lparr>shared = demo_ready, leases = {#7#}, loading = {#}\<rparr>"
proof -
  show 1: "cache_reachable demo_config \<lparr>shared = demo_empty, leases = {#}, loading = {#}\<rparr>"
    by (rule cache_initial) (simp add: cache_new_def config_validate_def demo_config_def demo_empty_def)
  have p: "load_precheck demo_config 3 = Inr ()" by (simp add: load_precheck_def demo_config_def)
  show 2: "cache_reachable demo_config \<lparr>shared = demo_reserved, leases = {#}, loading = {#(7, 3)#}\<rparr>"
    using cache_next [OF 1 step_begin_load [OF p, of 7 _ demo_reserved]] demo_begin by simp
  show "cache_reachable demo_config \<lparr>shared = demo_ready, leases = {#7#}, loading = {#}\<rparr>"
    using cache_next [OF 2 step_finish_ok [of 7 3 _ "Inr [1, 2, 3]" "[1, 2, 3]" demo_ready]] demo_finish by simp
qed

lemma demo_capacity: "2 * capacity_bytes demo_config < u64_limit"
  by (simp add: demo_config_def u64_limit_def)

lemma pinned_le_used: "sum_entries pinned_of es \<le> sum_entries used_of es"
  by (induction es) (auto simp: sum_entries_def pinned_of_def used_of_def split: entry.splits)

lemma no_unpinned_sum: "unpinned es = [] \<Longrightarrow> sum_entries pinned_of es = sum_entries used_of es"
  by (induction es rule: unpinned.induct) (auto simp: sum_entries_def split: if_splits)

lemma length_unpinned_all:
  "\<forall>(k, e) \<in> set es. \<exists>b t. e = Ready b 0 t True \<Longrightarrow> length (unpinned es) = length es"
  by (induction es rule: unpinned.induct) auto

lemma sum_entries_zero: "(\<And>k e. (k, e) \<in> set es \<Longrightarrow> w e = 0) \<Longrightarrow> sum_entries w es = 0"
  by (auto simp: sum_entries_def)

section \<open>Properties\<close>

text \<open> C9.
  The ceiling and the accounts: in every state any interleaving of callers can reach, the ready bytes
  and the reserved bytes stay within the capacity together, both counters are exact, a ready entry
  has one pin per lease that is alive and is resident when it has none, and the entry of a lease is
  still there.
\<close>

theorem cache_accounts_exact:
  assumes "cache_reachable cfg y" "2 * capacity_bytes cfg < u64_limit"
  shows "used_bytes (shared y) + reserved_bytes (shared y) \<le> capacity_bytes cfg \<and>
    used_bytes (shared y) = sum_entries used_of (entries (shared y)) \<and>
    reserved_bytes (shared y) = sum_entries reserved_of (entries (shared y)) \<and>
    (\<forall>k b pins t resident. map_of (entries (shared y)) k = Some (Ready b pins t resident) \<longrightarrow>
       pins = count (leases y) k \<and> (pins = 0 \<longrightarrow> resident)) \<and>
    (\<forall>k \<in># leases y. \<exists>b t resident. map_of (entries (shared y)) k = Some (Ready b (count (leases y) k) t resident))"
proof -
  have inv: "cache_inv cfg (leases y) (loading y) (shared y)"
    using cache_reachable_inv [OF assms] by (simp add: sys_inv_def)
  then have books: "books_ok (leases y) (loading y) (shared y)" by (simp add: cache_inv_def)
  have "pins = count (leases y) k \<and> (pins = 0 \<longrightarrow> resident)"
    if "map_of (entries (shared y)) k = Some (Ready b pins t resident)" for k b pins t resident
    using books_slot [OF books, of k] that by simp
  moreover have "\<exists>b t resident. map_of (entries (shared y)) k = Some (Ready b (count (leases y) k) t resident)"
    if "k \<in># leases y" for k
    using leased_slot [OF books that] by metis
  moreover have "used_bytes (shared y) + reserved_bytes (shared y) \<le> capacity_bytes cfg"
    "used_bytes (shared y) = sum_entries used_of (entries (shared y))"
    "reserved_bytes (shared y) = sum_entries reserved_of (entries (shared y))"
    using inv unfolding cache_inv_def books_ok_def by blast+
  ultimately show ?thesis by blast
qed

theorem cache_accounts_exact_witness:
  "used_bytes demo_ready + reserved_bytes demo_ready \<le> 4 \<and> used_bytes demo_ready = 3"
  using cache_accounts_exact [OF demo_reachable(3) demo_capacity]
  by (simp add: demo_ready_def demo_config_def)

text \<open> C30.
  A load that was started is never lost: whatever other callers did meanwhile, a loader that returns
  the announced number of bytes completes with those bytes; the errors for a lost reservation and
  for arithmetic are unreachable.
\<close>

theorem load_completes:
  assumes "cache_reachable cfg y" "2 * capacity_bytes cfg < u64_limit" "(key, n) \<in># loading y" "length bytes = n"
  shows "\<exists>s. finish_load key n (Inr bytes :: 'e + byte list) (shared y) = (Inr bytes, s) \<and>
    (\<exists>t resident. map_of (entries s) key = Some (Ready bytes 1 t resident))"
proof -
  have inv: "cache_inv cfg (leases y) (loading y) (shared y)"
    using cache_reachable_inv [OF assms(1,2)] by (simp add: sys_inv_def)
  obtain r s where fin: "finish_load key n (Inr bytes :: 'e + byte list) (shared y) = (r, s)" by fastforce
  have cap: "capacity_bytes cfg < u64_limit" using assms(2) by simp
  have r: "r = Inr bytes" by (rule finish_load_effect(2) [OF inv assms(3) cap fin refl assms(4)])
  have "\<exists>t resident. map_of (entries s) key = Some (Ready bytes 1 t resident)"
    using fin r assms(4)
    by (auto simp: finish_load_def complete_load_def next_tick_eq split: option.splits entry.splits if_splits sum.splits prod.splits)
  with fin r show ?thesis by simp
qed

theorem load_completes_witness:
  "\<exists>s. finish_load 7 3 (Inr [4, 5, 6] :: string + byte list) demo_reserved = (Inr [4, 5, 6], s)"
  using load_completes [OF demo_reachable(2) demo_capacity, of 7 3 "[4, 5, 6]"] by auto

text \<open>
  Room is found exactly when it can be: a reservation succeeds if and only if the bytes of pinned
  entries, the reservations in flight and the request fit the capacity together; the only error is
  \<^verbatim>\<open>CapacityPinned\<close>.
\<close>

theorem reservation_exact:
  assumes "cache_inv cfg L R s" "2 * capacity_bytes cfg < u64_limit" "requested \<le> capacity_bytes cfg"
  shows "fst (reserve_capacity s (capacity_bytes cfg) requested) =
    (if pinned_bytes s + reserved_bytes s + requested \<le> capacity_bytes cfg then Inr ()
     else Inl (CapacityPinned requested))"
proof -
  obtain r s' where run: "reserve_capacity s (capacity_bytes cfg) requested = (r, s')" by fastforce
  have books: "books_ok L R s" and "used_bytes s + reserved_bytes s + requested < u64_limit"
    using assms by (auto simp: cache_inv_def)
  note eff = reserve_capacity_effect [OF this run]
  have u: "used_bytes s' = sum_entries used_of (entries s')" using eff by (simp add: books_ok_def)
  have res: "reserved_bytes s' = reserved_bytes s" using eff by (simp add: evicted_from_def)
  show ?thesis
  proof (cases "r = Inr ()")
    case True
    then show ?thesis using eff u res run pinned_le_used [of "entries s'"] by (auto simp: pinned_bytes_def)
  next
    case False
    then have "unpinned (entries s') = []" using eff by blast
    then have "pinned_bytes s' = used_bytes s'" using u by (simp add: pinned_bytes_def no_unpinned_sum)
    then show ?thesis using False eff u res run by auto
  qed
qed

theorem reservation_exact_witness:
  "fst (reserve_capacity demo_ready 4 2) = Inl (CapacityPinned 2)"
proof -
  have "cache_inv demo_config {#7#} {#} demo_ready"
    using cache_reachable_inv [OF demo_reachable(3) demo_capacity] by (simp add: sys_inv_def)
  from reservation_exact [OF this demo_capacity, of 2]
  show ?thesis by (simp add: demo_config_def demo_ready_def pinned_bytes_def sum_entries_def)
qed

text \<open> C29.
  Eviction is least recently used and spares what is in use: making room only removes ready entries
  without pins, leases and loads in flight keep their entries, and every removed entry was last used
  no later than each unpinned entry that stays.
\<close>

theorem eviction_lru:
  assumes "cache_inv cfg L R s" "2 * capacity_bytes cfg < u64_limit" "requested \<le> capacity_bytes cfg"
    and "reserve_capacity s (capacity_bytes cfg) requested = (r, s')"
  shows "(\<forall>k. map_of (entries s') k = map_of (entries s) k \<or>
      map_of (entries s') k = None \<and> (\<exists>b t resident. map_of (entries s) k = Some (Ready b 0 t resident))) \<and>
    (\<forall>k b t r k' b' t' r'. map_of (entries s) k = Some (Ready b 0 t r) \<longrightarrow> map_of (entries s') k = None \<longrightarrow>
      map_of (entries s') k' = Some (Ready b' 0 t' r') \<longrightarrow> t \<le> t')"
proof -
  have books: "books_ok L R s" and "used_bytes s + reserved_bytes s + requested < u64_limit"
    using assms(1-3) by (auto simp: cache_inv_def)
  from reserve_capacity_effect [OF this assms(4)] show ?thesis
    unfolding evicted_from_def evicts_oldest_def by blast
qed

theorem eviction_lru_witness:
  "\<exists>s'. reserve_capacity demo_ready 4 2 = (Inl (CapacityPinned 2), s') \<and>
     map_of (entries s') 7 = Some (Ready [1, 2, 3] 1 2 True)"
proof -
  have inv: "cache_inv demo_config {#7#} {#} demo_ready"
    using cache_reachable_inv [OF demo_reachable(3) demo_capacity] by (simp add: sys_inv_def)
  have run: "reserve_capacity demo_ready (capacity_bytes demo_config) 2 = (Inl (CapacityPinned 2), demo_ready)"
    by (simp add: reserve_capacity.simps demo_config_def demo_ready_def checked_add_def u64_limit_def)
  have "map_of (entries demo_ready) 7 = Some (Ready [1, 2, 3] 1 2 True)" by (simp add: demo_ready_def)
  then show ?thesis
    using eviction_lru [OF inv demo_capacity _ run] run by (simp add: demo_config_def)
qed

text \<open> C31.
  Loads are deduplicated: while a load of a key is in flight its entry is the loading marker with that
  one reservation, every other caller that asks for the key is told to wait, and a plain lookup
  finds nothing.
\<close>

theorem single_flight:
  assumes "cache_reachable cfg y" "2 * capacity_bytes cfg < u64_limit" "(key, n) \<in># loading y"
  shows "filter_mset (\<lambda>m. fst m = key) (loading y) = {#(key, n)#} \<and>
    fst (begin_load cfg key n' (shared y)) = Inr MustWait \<and> fst (cache_get key (shared y)) = Inr None"
proof -
  have books: "books_ok (leases y) (loading y) (shared y)"
    using cache_reachable_inv [OF assms(1,2)] by (simp add: sys_inv_def cache_inv_def)
  obtain r where m: "map_of (entries (shared y)) key = Some (Loading n r)" "pending (loading y) key = {#(key, n)#}"
    by (rule reserved_slot [OF books assms(3)])
  then show ?thesis by (simp add: begin_load_def cache_get_def next_tick_eq pending_def)
qed

theorem single_flight_witness: "fst (begin_load demo_config 7 3 demo_reserved) = Inr MustWait"
  using single_flight [OF demo_reachable(2) demo_capacity, of 7 3 3] by simp

text \<open>
  Nothing leaks: once all leases are dropped and no load is in flight, no byte is reserved and every
  entry left was admitted; clearing then reports one removal per entry and leaves the cache empty
  with zero used bytes.
\<close>

theorem idle_cache_drains:
  assumes "cache_reachable cfg y" "2 * capacity_bytes cfg < u64_limit" "leases y = {#}" "loading y = {#}"
  shows "reserved_bytes (shared y) = 0 \<and>
    (\<forall>k e. map_of (entries (shared y)) k = Some e \<longrightarrow> (\<exists>b t. e = Ready b 0 t True)) \<and>
    (\<exists>n s. clear_unpinned (shared y) = (Inr n, s) \<and> n = length (entries (shared y)) \<and> entries s = [] \<and> used_bytes s = 0)"
proof -
  have books: "books_ok {#} {#} (shared y)"
    using cache_reachable_inv [OF assms(1,2)] assms(3,4) by (simp add: sys_inv_def cache_inv_def)
  have slot: "\<exists>b t. e = Ready b 0 t True" if "map_of (entries (shared y)) k = Some e" for k e
    using books_slot [OF books, of k] that by (cases e) auto
  have d: "distinct (map fst (entries (shared y)))" using books by (simp add: books_ok_def)
  then have all: "\<exists>b t. e = Ready b 0 t True" if "(k, e) \<in> set (entries (shared y))" for k e
    using slot that by (meson map_of_is_SomeI)
  obtain r s where run: "clear_unpinned (shared y) = (r, s)" by fastforce
  note clear = clear_unpinned_effect [OF books run]
  have none: "map_of (entries s) k = None" for k
    using clear(5) [of k] slot [of k] by (auto split: option.splits entry.splits)
  have es: "entries s = []"
  proof (cases "entries s")
    case (Cons x xs)
    then show ?thesis using none [of "fst x"] by simp
  qed
  have "length (unpinned (entries (shared y))) = length (entries (shared y))"
    using all by (intro length_unpinned_all) auto
  moreover have "sum_entries reserved_of (entries (shared y)) = 0"
    using all by (intro sum_entries_zero) (metis weight_simps(3))
  then have "reserved_bytes (shared y) = 0" using books by (simp add: books_ok_def)
  moreover have "used_bytes s = 0" using clear(2) es by (simp add: books_ok_def sum_entries_def)
  ultimately show ?thesis using run clear(1) es slot by blast
qed

text \<open>The demo run once its lease is dropped.\<close>

lemma demo_dropped:
  "cache_reachable demo_config \<lparr>shared = lease_drop 7 demo_ready, leases = {#}, loading = {#}\<rparr>"
  using cache_next [OF demo_reachable(3) step_drop [of 7]] by simp

theorem idle_cache_drains_witness:
  "reserved_bytes (lease_drop 7 demo_ready) = 0 \<and> fst (clear_unpinned (lease_drop 7 demo_ready)) = Inr 1"
proof -
  have "length (entries (lease_drop 7 demo_ready)) = 1"
    by (simp add: lease_drop_def demo_ready_def saturating_sub_def)
  then show ?thesis using idle_cache_drains [OF demo_dropped demo_capacity] by auto
qed

text \<open>
  Admission follows heat: a miss raises the key's request count by one (saturating), and if the load
  is started its entry is marked resident exactly when the count has reached the admission
  threshold. Eviction does not forget heat.
\<close>

theorem admission_by_heat:
  assumes "cache_inv cfg L R s" "2 * capacity_bytes cfg < u64_limit" "load_precheck cfg n = Inr ()"
    and "map_of (entries s) key = None" "begin_load cfg key n s = (res, s')"
  shows "map_of (heat s') key = Some (saturating_add (case map_of (heat s) key of None \<Rightarrow> 0 | Some c \<Rightarrow> c) 1) \<and>
    (\<forall>k. k \<noteq> key \<longrightarrow> map_of (heat s') k = map_of (heat s) k) \<and>
    (res = Inr MustLoad \<longrightarrow>
      map_of (entries s') key = Some (Loading n (admit_after_requests cfg \<le> the (map_of (heat s') key))))"
proof -
  obtain r1 s1 where rc: "reserve_capacity (missed key s) (capacity_bytes cfg) n = (r1, s1)" by fastforce
  have "books_ok L R (missed key s)" "used_bytes (missed key s) + reserved_bytes (missed key s) + n < u64_limit"
    using assms(1-3) by (auto simp: cache_inv_def load_precheck_def split: if_splits)
  from reserve_capacity_effect [OF this rc] have h: "heat s1 = heat (missed key s)" by (simp add: evicted_from_def)
  have "heat s' = heat s1" "res = Inr MustLoad \<longrightarrow>
      map_of (entries s') key = Some (Loading n (admit_after_requests cfg \<le>
        saturating_add (case map_of (heat s) key of None \<Rightarrow> 0 | Some c \<Rightarrow> c) 1))"
    using assms(5) rc by (auto simp: begin_load_miss [OF assms(4)] split: sum.splits option.splits)
  then show ?thesis using h by simp
qed

theorem admission_by_heat_witness:
  "map_of (heat demo_reserved) 7 = Some 1 \<and> map_of (entries demo_reserved) 7 = Some (Loading 3 True)"
proof -
  have inv: "cache_inv demo_config {#} {#} demo_empty"
    using cache_reachable_inv [OF demo_reachable(1) demo_capacity] by (simp add: sys_inv_def)
  have "load_precheck demo_config 3 = Inr ()" by (simp add: load_precheck_def demo_config_def)
  from admission_by_heat [OF inv demo_capacity this _ demo_begin] show ?thesis
    by (simp add: demo_empty_def demo_reserved_def demo_config_def saturating_add_def u64_max_def)
qed

text \<open>
  An exported heat snapshot holds the hottest keys: at most the requested number of entries of the
  heat map, ordered by descending requests and then ascending key, and no key left out beats one
  that is in.
\<close>

theorem heat_export_hottest:
  fixes s :: "'k :: linorder cache_state"
  assumes "\<forall>(k, n) \<in> set (heat s). n \<le> u64_max" "distinct (map fst (heat s))"
  shows "let h = hs_entries (heat_snapshot_of s m) in
    length h = min m (length (heat s)) \<and> set h \<subseteq> set (heat s) \<and>
    sorted_wrt (\<lambda>(k, n) (k', n'). n' < n \<or> n' = n \<and> k < k') h \<and>
    (\<forall>(k, n) \<in> set h. \<forall>(k', n') \<in> set (heat s) - set h. n' < n \<or> n' = n \<and> k < k')"
proof -
  let ?f = "\<lambda>(key :: 'k, requests). (u64_max - requests, key)"
  let ?s = "sort_key ?f (heat s)"
  let ?less = "\<lambda>(k :: 'k, n) (k', n' :: nat). n' < n \<or> n' = n \<and> k < k'"
  have "distinct (map ?f (heat s))"
  proof -
    have "distinct (map (snd \<circ> ?f) (heat s))" using assms(2) by (simp add: case_prod_unfold comp_def)
    then show ?thesis using distinct_map [of snd "map ?f (heat s)"] by simp
  qed
  then have d: "distinct (map ?f ?s)" by (metis distinct_map distinct_sort set_sort)
  have sorted: "sorted (map ?f ?s)" by simp
  have "sorted_wrt (\<lambda>x y. ?f x < ?f y) ?s"
    using d sorted strict_sorted_iff [of "map ?f ?s"] by (simp add: sorted_wrt_map)
  then have w: "sorted_wrt ?less ?s"
  proof (rule sorted_wrt_mono_rel [rotated])
    fix x y assume "x \<in> set ?s" "y \<in> set ?s" "?f x < ?f y"
    then show "?less x y" using assms(1) by (force simp: less_prod_def split: prod.splits)
  qed
  have split: "?s = take m ?s @ drop m ?s" by (rule append_take_drop_id [symmetric])
  have "sorted_wrt ?less (take m ?s @ drop m ?s)" using w by (simp only: append_take_drop_id)
  then have "sorted_wrt ?less (take m ?s)" and cross: "\<forall>x \<in> set (take m ?s). \<forall>y \<in> set (drop m ?s). ?less x y"
    unfolding sorted_wrt_append by blast+
  have sub: "set (heat s) - set (take m ?s) \<subseteq> set (drop m ?s)"
    by (metis Diff_subset_conv set_append set_sort split subset_refl)
  have "n' < n \<or> n' = n \<and> k < k'" if "(k, n) \<in> set (take m ?s)" "(k', n') \<in> set (heat s) - set (take m ?s)"
    for k n k' n'
    using cross sub that by fast
  then have "\<forall>(k, n) \<in> set (take m ?s). \<forall>(k', n') \<in> set (heat s) - set (take m ?s). n' < n \<or> n' = n \<and> k < k'"
    by blast
  moreover have "set (take m ?s) \<subseteq> set (heat s)" by (metis set_sort set_take_subset)
  moreover have "length (take m ?s) = min m (length (heat s))" by simp
  moreover note \<open>sorted_wrt ?less (take m ?s)\<close>
  ultimately show ?thesis unfolding heat_snapshot_of_def Let_def cache_state.simps heat_snapshot.simps by blast
qed

theorem heat_export_hottest_witness:
  "length (hs_entries (heat_snapshot_of demo_ready 5)) = 1"
  using heat_export_hottest [of demo_ready 5] by (simp add: demo_ready_def u64_max_def Let_def)

end
