(* ===== verification/Gguf_Value.thy ===== *)
theory Gguf_Value
  imports Bytes Tensor_Desc
begin

text \<open>
  GGUF metadata values, file contents and errors: \<^verbatim>\<open>crates/bridge-gguf/src/value.rs\<close>,
  \<^verbatim>\<open>error.rs\<close> and the accessors of \<^verbatim>\<open>GgufFile\<close> in \<^verbatim>\<open>reader.rs\<close>. Unsigned values are naturals below
  their width, signed ones integers, floats their bit patterns; a string is its UTF-8 bytes as
  characters.
\<close>

datatype value_type = TU8 | TI8 | TU16 | TI16 | TU32 | TI32 | TF32 | TBool | TString | TArray | TU64 | TI64 | TF64

datatype gguf_value =
    GU8 nat
  | GI8 int
  | GU16 nat
  | GI16 int
  | GU32 nat
  | GI32 int
  | GF32 f32
  | GBool bool
  | GString string
  | GArray value_type "gguf_value list"
  | GU64 nat
  | GI64 int
  | GF64 "64 word"

primrec value_type_of :: "gguf_value \<Rightarrow> value_type" where
  "value_type_of (GU8 v) = TU8"
| "value_type_of (GI8 v) = TI8"
| "value_type_of (GU16 v) = TU16"
| "value_type_of (GI16 v) = TI16"
| "value_type_of (GU32 v) = TU32"
| "value_type_of (GI32 v) = TI32"
| "value_type_of (GF32 v) = TF32"
| "value_type_of (GBool v) = TBool"
| "value_type_of (GString v) = TString"
| "value_type_of (GArray t vs) = TArray"
| "value_type_of (GU64 v) = TU64"
| "value_type_of (GI64 v) = TI64"
| "value_type_of (GF64 v) = TF64"

datatype gguf_error =
    GgufIo
  | Truncated string
  | BadMagic "byte list"
  | UnsupportedVersion nat
  | LimitExceeded string nat nat
  | CountDoesNotFit string nat
  | GgufAllocationFailed string
  | InvalidUtf8 string "byte list"
  | InvalidBoolean nat
  | UnknownValueType nat
  | NestedArray
  | InvalidDimensionCount nat
  | InvalidDimensionLimit nat
  | DuplicateMetadataKey string
  | InvalidAlignment nat
  | AlignmentWrongType value_type
  | GgufArithmeticOverflow string
  | DataOffsetBeyondFile nat nat
  | TensorOffsetMismatch string nat nat nat
  | TensorPaddingOverflow string nat nat
  | TensorExtentOverflow string nat nat
  | TensorDataEndOverflow nat nat
  | TensorDataSectionTruncated nat nat nat
  | GgufCore core_error

datatype metadata_error =
    MissingKey string
  | WrongType string value_type value_type

definition value_type_try_from :: "nat \<Rightarrow> gguf_error + value_type" where
  "value_type_try_from v =
     (if v = 0 then Inr TU8 else if v = 1 then Inr TI8 else if v = 2 then Inr TU16
      else if v = 3 then Inr TI16 else if v = 4 then Inr TU32 else if v = 5 then Inr TI32
      else if v = 6 then Inr TF32 else if v = 7 then Inr TBool else if v = 8 then Inr TString
      else if v = 9 then Inr TArray else if v = 10 then Inr TU64 else if v = 11 then Inr TI64
      else if v = 12 then Inr TF64 else Inl (UnknownValueType v))"

text \<open>The discriminants of the \<^verbatim>\<open>repr(u32)\<close> enum.\<close>

primrec type_code :: "value_type \<Rightarrow> nat" where
  "type_code TU8 = 0" | "type_code TI8 = 1" | "type_code TU16 = 2" | "type_code TI16 = 3"
| "type_code TU32 = 4" | "type_code TI32 = 5" | "type_code TF32 = 6" | "type_code TBool = 7"
| "type_code TString = 8" | "type_code TArray = 9" | "type_code TU64 = 10" | "type_code TI64 = 11"
| "type_code TF64 = 12"

lemma value_type_of_code [simp]: "value_type_try_from (type_code t) = Inr t"
  by (cases t) (simp_all add: value_type_try_from_def)

lemma value_type_try_from_Inr: "value_type_try_from v = Inr t \<longleftrightarrow> v = type_code t"
  by (cases t) (auto simp: value_type_try_from_def split: if_splits)

datatype endianness = Little | Big

record gguf_file =
  version :: nat
  endian :: endianness
  metadata :: "(string \<times> gguf_value) list"
  tensors :: "tensor_desc list"
  alignment :: nat
  data_offset :: nat
  file_len :: nat

section \<open>Accessors\<close>

definition gguf_get :: "gguf_file \<Rightarrow> string \<Rightarrow> metadata_error + gguf_value" where
  "gguf_get f key = ok_or (MissingKey key) (map_of (metadata f) key)"

definition expect_type :: "gguf_file \<Rightarrow> string \<Rightarrow> value_type \<Rightarrow> metadata_error + gguf_value" where
  "expect_type f key expected =
     rbind (gguf_get f key) (\<lambda>v. let actual = value_type_of v in
       if actual = expected then Inr v else Inl (WrongType key expected actual))"

text \<open>The \<^verbatim>\<open>unreachable!()\<close> arms of the accessors are \<open>None\<close>.\<close>

definition get_u8 :: "gguf_file \<Rightarrow> string \<Rightarrow> (metadata_error + nat) option" where
  "get_u8 f key = (case expect_type f key TU8 of
     Inl e \<Rightarrow> Some (Inl e) | Inr (GU8 v) \<Rightarrow> Some (Inr v) | Inr _ \<Rightarrow> None)"

definition get_i8 :: "gguf_file \<Rightarrow> string \<Rightarrow> (metadata_error + int) option" where
  "get_i8 f key = (case expect_type f key TI8 of
     Inl e \<Rightarrow> Some (Inl e) | Inr (GI8 v) \<Rightarrow> Some (Inr v) | Inr _ \<Rightarrow> None)"

definition get_u16 :: "gguf_file \<Rightarrow> string \<Rightarrow> (metadata_error + nat) option" where
  "get_u16 f key = (case expect_type f key TU16 of
     Inl e \<Rightarrow> Some (Inl e) | Inr (GU16 v) \<Rightarrow> Some (Inr v) | Inr _ \<Rightarrow> None)"

definition get_i16 :: "gguf_file \<Rightarrow> string \<Rightarrow> (metadata_error + int) option" where
  "get_i16 f key = (case expect_type f key TI16 of
     Inl e \<Rightarrow> Some (Inl e) | Inr (GI16 v) \<Rightarrow> Some (Inr v) | Inr _ \<Rightarrow> None)"

definition get_u32 :: "gguf_file \<Rightarrow> string \<Rightarrow> (metadata_error + nat) option" where
  "get_u32 f key = (case expect_type f key TU32 of
     Inl e \<Rightarrow> Some (Inl e) | Inr (GU32 v) \<Rightarrow> Some (Inr v) | Inr _ \<Rightarrow> None)"

definition get_i32 :: "gguf_file \<Rightarrow> string \<Rightarrow> (metadata_error + int) option" where
  "get_i32 f key = (case expect_type f key TI32 of
     Inl e \<Rightarrow> Some (Inl e) | Inr (GI32 v) \<Rightarrow> Some (Inr v) | Inr _ \<Rightarrow> None)"

definition get_f32 :: "gguf_file \<Rightarrow> string \<Rightarrow> (metadata_error + f32) option" where
  "get_f32 f key = (case expect_type f key TF32 of
     Inl e \<Rightarrow> Some (Inl e) | Inr (GF32 v) \<Rightarrow> Some (Inr v) | Inr _ \<Rightarrow> None)"

definition get_bool :: "gguf_file \<Rightarrow> string \<Rightarrow> (metadata_error + bool) option" where
  "get_bool f key = (case expect_type f key TBool of
     Inl e \<Rightarrow> Some (Inl e) | Inr (GBool v) \<Rightarrow> Some (Inr v) | Inr _ \<Rightarrow> None)"

definition get_string :: "gguf_file \<Rightarrow> string \<Rightarrow> (metadata_error + string) option" where
  "get_string f key = (case expect_type f key TString of
     Inl e \<Rightarrow> Some (Inl e) | Inr (GString v) \<Rightarrow> Some (Inr v) | Inr _ \<Rightarrow> None)"

definition get_u64 :: "gguf_file \<Rightarrow> string \<Rightarrow> (metadata_error + nat) option" where
  "get_u64 f key = (case expect_type f key TU64 of
     Inl e \<Rightarrow> Some (Inl e) | Inr (GU64 v) \<Rightarrow> Some (Inr v) | Inr _ \<Rightarrow> None)"

definition get_i64 :: "gguf_file \<Rightarrow> string \<Rightarrow> (metadata_error + int) option" where
  "get_i64 f key = (case expect_type f key TI64 of
     Inl e \<Rightarrow> Some (Inl e) | Inr (GI64 v) \<Rightarrow> Some (Inr v) | Inr _ \<Rightarrow> None)"

definition get_f64 :: "gguf_file \<Rightarrow> string \<Rightarrow> (metadata_error + 64 word) option" where
  "get_f64 f key = (case expect_type f key TF64 of
     Inl e \<Rightarrow> Some (Inl e) | Inr (GF64 v) \<Rightarrow> Some (Inr v) | Inr _ \<Rightarrow> None)"

definition get_array :: "gguf_file \<Rightarrow> string \<Rightarrow> (metadata_error + value_type \<times> gguf_value list) option" where
  "get_array f key = (case expect_type f key TArray of
     Inl e \<Rightarrow> Some (Inl e) | Inr (GArray t vs) \<Rightarrow> Some (Inr (t, vs)) | Inr _ \<Rightarrow> None)"

lemmas getter_defs = get_u8_def get_i8_def get_u16_def get_i16_def get_u32_def get_i32_def get_f32_def get_bool_def get_string_def get_u64_def get_i64_def get_f64_def get_array_def

lemma expect_type_Inr: "expect_type f key t = Inr v \<Longrightarrow> value_type_of v = t \<and> map_of (metadata f) key = Some v"
  by (auto simp: expect_type_def rbind_Inr gguf_get_def ok_or_Inr Let_def split: if_splits)

lemma expect_type_shape:
  "map_of (metadata f) k = None \<Longrightarrow> expect_type f k t = Inl (MissingKey k)"
  "map_of (metadata f) k = Some v \<Longrightarrow> expect_type f k t = (if value_type_of v = t then Inr v else Inl (WrongType k t (value_type_of v)))"
  by (simp_all add: expect_type_def gguf_get_def ok_or_def Let_def)

text \<open>
  The typed accessors never reach their \<^verbatim>\<open>unreachable!()\<close> arm, and each returns a value exactly when the
  key is bound to a value of its own type, which is that value.
\<close>

theorem accessors_exact:
  "get_u8 f k \<noteq> None \<and> get_i8 f k \<noteq> None \<and> get_u16 f k \<noteq> None \<and> get_i16 f k \<noteq> None \<and>
   get_u32 f k \<noteq> None \<and> get_i32 f k \<noteq> None \<and> get_f32 f k \<noteq> None \<and> get_bool f k \<noteq> None \<and>
   get_string f k \<noteq> None \<and> get_u64 f k \<noteq> None \<and> get_i64 f k \<noteq> None \<and> get_f64 f k \<noteq> None \<and>
   get_array f k \<noteq> None \<and>
   (get_u8 f k = Some (Inr n1) \<longleftrightarrow> map_of (metadata f) k = Some (GU8 n1)) \<and>
   (get_i8 f k = Some (Inr i1) \<longleftrightarrow> map_of (metadata f) k = Some (GI8 i1)) \<and>
   (get_u16 f k = Some (Inr n2) \<longleftrightarrow> map_of (metadata f) k = Some (GU16 n2)) \<and>
   (get_i16 f k = Some (Inr i2) \<longleftrightarrow> map_of (metadata f) k = Some (GI16 i2)) \<and>
   (get_u32 f k = Some (Inr n3) \<longleftrightarrow> map_of (metadata f) k = Some (GU32 n3)) \<and>
   (get_i32 f k = Some (Inr i3) \<longleftrightarrow> map_of (metadata f) k = Some (GI32 i3)) \<and>
   (get_f32 f k = Some (Inr w1) \<longleftrightarrow> map_of (metadata f) k = Some (GF32 w1)) \<and>
   (get_bool f k = Some (Inr b) \<longleftrightarrow> map_of (metadata f) k = Some (GBool b)) \<and>
   (get_string f k = Some (Inr s) \<longleftrightarrow> map_of (metadata f) k = Some (GString s)) \<and>
   (get_u64 f k = Some (Inr n4) \<longleftrightarrow> map_of (metadata f) k = Some (GU64 n4)) \<and>
   (get_i64 f k = Some (Inr i4) \<longleftrightarrow> map_of (metadata f) k = Some (GI64 i4)) \<and>
   (get_f64 f k = Some (Inr w2) \<longleftrightarrow> map_of (metadata f) k = Some (GF64 w2)) \<and>
   (get_array f k = Some (Inr (t, vs)) \<longleftrightarrow> map_of (metadata f) k = Some (GArray t vs))"
proof (cases "map_of (metadata f) k")
  case None
  then show ?thesis by (simp add: getter_defs expect_type_shape(1))
next
  case (Some v)
  then show ?thesis by (cases v) (simp_all add: getter_defs expect_type_shape(2))
qed

end
