(* ===== verification/Gguf_Reader.thy ===== *)
theory Gguf_Reader
  imports Gguf_Value
begin

text \<open>
  The GGUF inspector of \<^verbatim>\<open>crates/bridge-gguf/src/reader.rs\<close>: a parser over the bytes of a file that
  enforces the limits while it reads, checks the tensor directory against the physical file, and
  never touches the payload. The seekable reader is the file's bytes and a position; the allocator
  is the argument \<open>grant\<close> (what is reserved and how much).
\<close>

section \<open>Reader state\<close>

record reader_limits =
  max_dimensions :: nat
  max_string_bytes :: nat
  max_array_elements :: nat
  max_tensors :: nat
  max_metadata_entries :: nat
  max_metadata_bytes :: nat

definition DEFAULT_ALIGNMENT :: nat where "DEFAULT_ALIGNMENT = 32"
definition GGML_MAX_DIMENSIONS :: nat where "GGML_MAX_DIMENSIONS = 4"

definition limits_default :: reader_limits where
  "limits_default = \<lparr>max_dimensions = GGML_MAX_DIMENSIONS, max_string_bytes = 1024 * 1024,
     max_array_elements = 1000000, max_tensors = 4000000, max_metadata_entries = 1000000,
     max_metadata_bytes = 64 * 1024 * 1024\<rparr>"

record reader =
  contents :: "byte list"
  limits :: reader_limits
  grants :: "string \<Rightarrow> nat \<Rightarrow> bool"
  rd_endianness :: endianness
  position :: nat
  metadata_bytes :: nat
  array_elements :: nat
  account_metadata :: bool

definition with_limits :: "byte list \<Rightarrow> (string \<Rightarrow> nat \<Rightarrow> bool) \<Rightarrow> reader_limits \<Rightarrow> reader" where
  "with_limits bytes grant lims =
     \<lparr>contents = bytes, limits = lims, grants = grant, rd_endianness = Little, position = 0,
      metadata_bytes = 0, array_elements = 0, account_metadata = False\<rparr>"

definition reader_new :: "byte list \<Rightarrow> (string \<Rightarrow> nat \<Rightarrow> bool) \<Rightarrow> reader" where
  "reader_new bytes grant = with_limits bytes grant limits_default"

type_synonym 'a parse = "gguf_error + ('a \<times> reader)"

section \<open>Primitive reads\<close>

definition account :: "nat \<Rightarrow> reader \<Rightarrow> gguf_error + reader" where
  "account n r =
     (if account_metadata r then
        rbind (ok_or (GgufArithmeticOverflow ''metadata bytes'') (checked_add (metadata_bytes r) n)) (\<lambda>next.
          if max_metadata_bytes (limits r) < next
          then Inl (LimitExceeded ''metadata bytes'' (max_metadata_bytes (limits r)) next)
          else Inr (r\<lparr>metadata_bytes := next\<rparr>))
      else Inr r)"

definition read_exact :: "nat \<Rightarrow> string \<Rightarrow> reader \<Rightarrow> byte list parse" where
  "read_exact n ctxt r =
     rbind (account n r) (\<lambda>r.
       if position r + n \<le> length (contents r)
       then Inr (take n (drop (position r) (contents r)), r\<lparr>position := position r + n\<rparr>)
       else Inl (Truncated ctxt))"

definition uint_of :: "endianness \<Rightarrow> byte list \<Rightarrow> nat" where
  "uint_of e bs = (case e of Little \<Rightarrow> of_le_bytes bs | Big \<Rightarrow> of_be_bytes bs)"

definition read_u8 :: "string \<Rightarrow> reader \<Rightarrow> nat parse" where
  "read_u8 ctxt r = rbind (read_exact 1 ctxt r) (\<lambda>(bs, r). Inr (unat (bs ! 0), r))"

definition read_u16 :: "string \<Rightarrow> reader \<Rightarrow> nat parse" where
  "read_u16 ctxt r = rbind (read_exact 2 ctxt r) (\<lambda>(bs, r). Inr (uint_of (rd_endianness r) bs, r))"

definition read_u32 :: "string \<Rightarrow> reader \<Rightarrow> nat parse" where
  "read_u32 ctxt r = rbind (read_exact 4 ctxt r) (\<lambda>(bs, r). Inr (uint_of (rd_endianness r) bs, r))"

definition read_u64 :: "string \<Rightarrow> reader \<Rightarrow> nat parse" where
  "read_u64 ctxt r = rbind (read_exact 8 ctxt r) (\<lambda>(bs, r). Inr (uint_of (rd_endianness r) bs, r))"

definition reserve :: "string \<Rightarrow> nat \<Rightarrow> reader \<Rightarrow> gguf_error + unit" where
  "reserve kind n r = check (grants r kind n) (GgufAllocationFailed kind)"

definition checked_count :: "nat \<Rightarrow> nat \<Rightarrow> string \<Rightarrow> gguf_error + nat" where
  "checked_count actual limit kind =
     (if limit < actual then Inl (LimitExceeded kind limit actual)
      else if u64_limit \<le> actual then Inl (CountDoesNotFit kind actual)
      else Inr actual)"

definition read_string :: "string \<Rightarrow> reader \<Rightarrow> string parse" where
  "read_string ctxt r =
     rbind (read_u64 ''string length'' r) (\<lambda>(n, r).
       if max_string_bytes (limits r) < n
       then Inl (LimitExceeded ''string bytes'' (max_string_bytes (limits r)) n)
       else rbind (if n < u64_limit then Inr n else Inl (CountDoesNotFit ''string bytes'' n)) (\<lambda>n.
            rbind (reserve ''string bytes'' n r) (\<lambda>_.
            rbind (read_exact n ctxt r) (\<lambda>(bs, r).
              if utf8_valid bs then Inr (str_of_bytes bs, r) else Inl (InvalidUtf8 ctxt bs)))))"

section \<open>Metadata values\<close>

text \<open>The fewest bytes an element of an array can take; no array is an element.\<close>

primrec minimum_element_bytes :: "value_type \<Rightarrow> gguf_error + nat" where
  "minimum_element_bytes TU8 = Inr 1" | "minimum_element_bytes TI8 = Inr 1"
| "minimum_element_bytes TBool = Inr 1"
| "minimum_element_bytes TU16 = Inr 2" | "minimum_element_bytes TI16 = Inr 2"
| "minimum_element_bytes TU32 = Inr 4" | "minimum_element_bytes TI32 = Inr 4"
| "minimum_element_bytes TF32 = Inr 4"
| "minimum_element_bytes TString = Inr 8" | "minimum_element_bytes TU64 = Inr 8"
| "minimum_element_bytes TI64 = Inr 8" | "minimum_element_bytes TF64 = Inr 8"
| "minimum_element_bytes TArray = Inl NestedArray"

definition check_array_budget :: "value_type \<Rightarrow> nat \<Rightarrow> reader \<Rightarrow> nat parse" where
  "check_array_budget element_type count r =
     rbind (ok_or (GgufArithmeticOverflow ''aggregate array elements'') (checked_add (array_elements r) count)) (\<lambda>aggregate.
       if max_array_elements (limits r) < aggregate
       then Inl (LimitExceeded ''array elements'' (max_array_elements (limits r)) aggregate)
       else
         rbind (minimum_element_bytes element_type) (\<lambda>minimum.
         rbind (ok_or (GgufArithmeticOverflow ''minimum encoded array bytes'') (checked_mul count minimum)) (\<lambda>payload.
         rbind (ok_or (GgufArithmeticOverflow ''metadata bytes'') (checked_add (metadata_bytes r) payload)) (\<lambda>least.
           if max_metadata_bytes (limits r) < least
           then Inl (LimitExceeded ''metadata bytes'' (max_metadata_bytes (limits r)) least)
           else if u64_limit \<le> count then Inl (CountDoesNotFit ''array elements'' count)
           else Inr (count, r\<lparr>array_elements := aggregate\<rparr>)))))"

text \<open>
  Every value but an array. The recursive call of \<^verbatim>\<open>read_value\<close> for the elements of an array is a
  call of this function, since \<open>TArray\<close> was refused before.
\<close>

definition read_scalar :: "value_type \<Rightarrow> reader \<Rightarrow> gguf_value parse" where
  "read_scalar ty r = (case ty of
      TU8 \<Rightarrow> rbind (read_u8 ''u8 metadata value'' r) (\<lambda>(v, r). Inr (GU8 v, r))
    | TI8 \<Rightarrow> rbind (read_u8 ''i8 metadata value'' r) (\<lambda>(v, r). Inr (GI8 (sint (word_of_nat v :: 8 word)), r))
    | TU16 \<Rightarrow> rbind (read_u16 ''u16 metadata value'' r) (\<lambda>(v, r). Inr (GU16 v, r))
    | TI16 \<Rightarrow> rbind (read_u16 ''i16 metadata value'' r) (\<lambda>(v, r). Inr (GI16 (sint (word_of_nat v :: 16 word)), r))
    | TU32 \<Rightarrow> rbind (read_u32 ''u32 metadata value'' r) (\<lambda>(v, r). Inr (GU32 v, r))
    | TI32 \<Rightarrow> rbind (read_u32 ''i32 metadata value'' r) (\<lambda>(v, r). Inr (GI32 (sint (word_of_nat v :: 32 word)), r))
    | TF32 \<Rightarrow> rbind (read_u32 ''f32 metadata value'' r) (\<lambda>(v, r). Inr (GF32 (word_of_nat v), r))
    | TBool \<Rightarrow> rbind (read_u8 ''boolean metadata value'' r) (\<lambda>(v, r).
        if v = 0 then Inr (GBool False, r) else if v = 1 then Inr (GBool True, r) else Inl (InvalidBoolean v))
    | TString \<Rightarrow> rbind (read_string ''string metadata value'' r) (\<lambda>(v, r). Inr (GString v, r))
    | TU64 \<Rightarrow> rbind (read_u64 ''u64 metadata value'' r) (\<lambda>(v, r). Inr (GU64 v, r))
    | TI64 \<Rightarrow> rbind (read_u64 ''i64 metadata value'' r) (\<lambda>(v, r). Inr (GI64 (sint (word_of_nat v :: 64 word)), r))
    | TF64 \<Rightarrow> rbind (read_u64 ''f64 metadata value'' r) (\<lambda>(v, r). Inr (GF64 (word_of_nat v), r))
    | TArray \<Rightarrow> Inl NestedArray)"

fun read_elements :: "value_type \<Rightarrow> nat \<Rightarrow> gguf_value list \<Rightarrow> reader \<Rightarrow> gguf_value list parse" where
  "read_elements ty 0 acc r = Inr (acc, r)"
| "read_elements ty (Suc n) acc r =
     rbind (read_scalar ty r) (\<lambda>(v, r).
     rbind (reserve ''array elements'' 1 r) (\<lambda>_. read_elements ty n (acc @ [v]) r))"

definition read_value :: "value_type \<Rightarrow> reader \<Rightarrow> gguf_value parse" where
  "read_value ty r =
     (if ty = TArray then
        rbind (read_u32 ''array element type'' r) (\<lambda>(code, r).
        rbind (value_type_try_from code) (\<lambda>element_type.
          if element_type = TArray then Inl NestedArray
          else
            rbind (read_u64 ''array element count'' r) (\<lambda>(count, r).
            rbind (check_array_budget element_type count r) (\<lambda>(count, r).
            rbind (read_elements element_type count [] r) (\<lambda>(vs, r). Inr (GArray element_type vs, r))))))
      else read_scalar ty r)"

fun read_metadata :: "nat \<Rightarrow> string set \<Rightarrow> (string \<times> gguf_value) list \<Rightarrow> reader \<Rightarrow> (string \<times> gguf_value) list parse" where
  "read_metadata 0 keys acc r = Inr (acc, r)"
| "read_metadata (Suc n) keys acc r =
     rbind (read_string ''metadata key'' r) (\<lambda>(key, r).
     rbind (read_u32 ''metadata value type'' r) (\<lambda>(code, r).
     rbind (value_type_try_from code) (\<lambda>ty.
     rbind (read_value ty r) (\<lambda>(v, r).
     rbind (reserve ''metadata key set'' 1 r) (\<lambda>_.
     rbind (reserve ''metadata key set'' (length key) r) (\<lambda>_.
       if key \<in> keys then Inl (DuplicateMetadataKey key)
       else rbind (reserve ''metadata entries'' 1 r) (\<lambda>_.
         read_metadata n (insert key keys) (acc @ [(key, v)]) r)))))))"

definition select_alignment :: "(string \<times> gguf_value) list \<Rightarrow> gguf_error + nat" where
  "select_alignment kvs =
     (case map_of kvs ''general.alignment'' of
        None \<Rightarrow> Inr DEFAULT_ALIGNMENT
      | Some (GU32 v) \<Rightarrow> if 0 < v \<and> is_power_of_two v then Inr v else Inl (InvalidAlignment v)
      | Some v \<Rightarrow> Inl (AlignmentWrongType (value_type_of v)))"

section \<open>The tensor directory\<close>

fun read_dimensions :: "nat \<Rightarrow> nat list \<Rightarrow> reader \<Rightarrow> nat list parse" where
  "read_dimensions 0 acc r = Inr (acc, r)"
| "read_dimensions (Suc n) acc r =
     rbind (read_u64 ''tensor dimension'' r) (\<lambda>(d, r). read_dimensions n (acc @ [d]) r)"

definition read_tensor :: "reader \<Rightarrow> tensor_desc parse" where
  "read_tensor r =
     rbind (read_string ''tensor name'' (r\<lparr>account_metadata := True\<rparr>)) (\<lambda>(name, r).
     rbind (read_u32 ''tensor dimension count'' (r\<lparr>account_metadata := False\<rparr>)) (\<lambda>(n_dims, r).
       if \<not> (1 \<le> n_dims \<and> n_dims \<le> GGML_MAX_DIMENSIONS) then Inl (InvalidDimensionCount n_dims)
       else if max_dimensions (limits r) < n_dims
       then Inl (LimitExceeded ''dimensions'' (max_dimensions (limits r)) n_dims)
       else
         rbind (reserve ''tensor dimensions'' n_dims r) (\<lambda>_.
         rbind (read_dimensions n_dims [] r) (\<lambda>(shape, r).
         rbind (read_u32 ''GGML type'' r) (\<lambda>(code, r).
         rbind (map_err GgufCore (from_discriminant code)) (\<lambda>ty.
         rbind (read_u64 ''tensor payload offset'' r) (\<lambda>(offset, r).
         rbind (map_err GgufCore (tensor_new name shape ty offset)) (\<lambda>t.
         rbind (reserve ''tensor descriptors'' 1 r) (\<lambda>_. Inr (t, r))))))))))"

fun read_tensors :: "nat \<Rightarrow> tensor_desc list \<Rightarrow> reader \<Rightarrow> tensor_desc list parse" where
  "read_tensors 0 acc r = Inr (acc, r)"
| "read_tensors (Suc n) acc r = rbind (read_tensor r) (\<lambda>(t, r). read_tensors n (acc @ [t]) r)"

definition align_up :: "nat \<Rightarrow> nat \<Rightarrow> gguf_error + nat" where
  "align_up v al = ok_or (GgufArithmeticOverflow ''GGUF data offset'') (round_up v al)"

text \<open>The loop over the descriptors: \<open>extent\<close> is the padded extent so far.\<close>

fun check_extents :: "nat \<Rightarrow> nat \<Rightarrow> nat \<Rightarrow> tensor_desc list \<Rightarrow> nat \<Rightarrow> gguf_error + nat" where
  "check_extents al offset len [] extent = Inr extent"
| "check_extents al offset len (t # ts) extent =
     (if td_relative_offset t \<noteq> extent
      then Inl (TensorOffsetMismatch (td_name t) (td_relative_offset t) extent al)
      else
        rbind (map_err GgufCore (encoded_bytes t)) (\<lambda>encoded.
        rbind (ok_or (TensorPaddingOverflow (td_name t) encoded al) (round_up encoded al)) (\<lambda>padded.
        rbind (ok_or (TensorExtentOverflow (td_name t) extent padded) (checked_add extent padded)) (\<lambda>extent'.
        rbind (map_err GgufCore (checked_absolute_range t offset len)) (\<lambda>_.
          check_extents al offset len ts extent')))))"

section \<open>Reading a file\<close>

definition gguf_read :: "reader \<Rightarrow> gguf_error + gguf_file" where
  "gguf_read r =
     (if GGML_MAX_DIMENSIONS < max_dimensions (limits r) then Inl (InvalidDimensionLimit (max_dimensions (limits r)))
      else
        rbind (read_exact 4 ''magic'' r) (\<lambda>(magic, r).
        rbind (if magic = bytes_of_str ''GGUF'' then Inr Little
               else if magic = bytes_of_str ''FUGG'' then Inr Big else Inl (BadMagic magic)) (\<lambda>e.
        let r = r\<lparr>rd_endianness := e\<rparr> in
        rbind (read_u32 ''version'' r) (\<lambda>(ver, r).
        if \<not> (2 \<le> ver \<and> ver \<le> 3) then Inl (UnsupportedVersion ver)
        else
        rbind (read_u64 ''tensor count'' r) (\<lambda>(tensor_count, r).
        rbind (read_u64 ''metadata count'' r) (\<lambda>(metadata_count, r).
        rbind (checked_count tensor_count (max_tensors (limits r)) ''tensors'') (\<lambda>tensor_count.
        rbind (checked_count metadata_count (max_metadata_entries (limits r)) ''metadata entries'') (\<lambda>metadata_count.
        rbind (read_metadata metadata_count {} [] (r\<lparr>account_metadata := True\<rparr>)) (\<lambda>(kvs, r).
        rbind (select_alignment kvs) (\<lambda>al.
        rbind (read_tensors tensor_count [] (r\<lparr>account_metadata := False\<rparr>)) (\<lambda>(ts, r).
        rbind (align_up (position r) al) (\<lambda>offset.
        let len = length (contents r) in
        if len < offset then Inl (DataOffsetBeyondFile offset len)
        else
        rbind (check_extents al offset len ts 0) (\<lambda>extent.
        rbind (ok_or (TensorDataEndOverflow offset extent) (checked_add offset extent)) (\<lambda>required_end.
        if len < required_end then Inl (TensorDataSectionTruncated offset required_end len)
        else Inr \<lparr>version = ver, endian = e, metadata = kvs, tensors = ts, alignment = al,
                  data_offset = offset, file_len = len\<rparr>))))))))))))))"

section \<open>What every successful read keeps\<close>

text \<open>
  The reader moves forward inside the file; file, limits and byte order stay; the counters of the
  budgets never exceed their limits.
\<close>

definition in_budget :: "reader \<Rightarrow> bool" where
  "in_budget r \<longleftrightarrow> metadata_bytes r \<le> max_metadata_bytes (limits r) \<and>
     array_elements r \<le> max_array_elements (limits r)"

definition follows :: "reader \<Rightarrow> reader \<Rightarrow> bool" where
  "follows r r' \<longleftrightarrow> contents r' = contents r \<and> limits r' = limits r \<and>
     rd_endianness r' = rd_endianness r \<and> position r \<le> position r' \<and>
     (position r \<le> length (contents r) \<longrightarrow> position r' \<le> length (contents r)) \<and>
     array_elements r \<le> array_elements r' \<and> (in_budget r \<longrightarrow> in_budget r')"

lemma follows_refl [simp]: "follows r r"
  by (simp add: follows_def)

lemma follows_trans: "follows r s \<Longrightarrow> follows s t \<Longrightarrow> follows r t"
  by (auto simp: follows_def)

lemma follows_account [simp]: "follows r (r\<lparr>account_metadata := b\<rparr>)"
  by (simp add: follows_def in_budget_def)

lemma read_exact_follows: "read_exact n ctxt r = Inr (bs, r') \<Longrightarrow>
    follows r r' \<and> length bs = n \<and> array_elements r' = array_elements r"
  by (auto simp: read_exact_def account_def rbind_Inr ok_or_Inr follows_def in_budget_def split: if_splits)

lemma uint_of_less: "length bs = n \<Longrightarrow> uint_of e bs < 256 ^ n"
  using of_le_bytes_less [of bs] of_be_bytes_less [of bs] by (auto simp: uint_of_def split: endianness.split)

lemma read_uint_follows:
  "read_u8 ctxt r = Inr (v, r') \<Longrightarrow> follows r r' \<and> array_elements r' = array_elements r \<and> v < 256"
  "read_u16 ctxt r = Inr (v, r') \<Longrightarrow> follows r r' \<and> array_elements r' = array_elements r \<and> v < 65536"
  "read_u32 ctxt r = Inr (v, r') \<Longrightarrow> follows r r' \<and> array_elements r' = array_elements r \<and> v < 4294967296"
  "read_u64 ctxt r = Inr (v, r') \<Longrightarrow> follows r r' \<and> array_elements r' = array_elements r \<and> v < u64_limit"
  using uint_of_less [of _ 2] uint_of_less [of _ 4] uint_of_less [of _ 8] unat_byte_less
  by (auto simp: read_u8_def read_u16_def read_u32_def read_u64_def rbind_Inr u64_limit_def dest!: read_exact_follows)

lemma read_string_follows:
  assumes "read_string ctxt r = Inr (s, r')"
  shows "follows r r' \<and> array_elements r' = array_elements r \<and> length s \<le> max_string_bytes (limits r)"
proof -
  obtain n r1 bs where r: "read_u64 ''string length'' r = Inr (n, r1)" "n \<le> max_string_bytes (limits r1)"
    "read_exact n ctxt r1 = Inr (bs, r')" "s = str_of_bytes bs"
    using assms by (auto simp: read_string_def rbind_Inr split: if_splits)
  have f: "follows r r1" "array_elements r1 = array_elements r" using read_uint_follows(4) [OF r(1)] by auto
  then have "limits r1 = limits r" by (simp add: follows_def)
  with r f read_exact_follows [OF r(3)] show ?thesis by (auto intro: follows_trans)
qed

text \<open>What the values a reader returns look like.\<close>

primrec scalar_ok :: "reader_limits \<Rightarrow> gguf_value \<Rightarrow> bool" where
  "scalar_ok lims (GU8 v) = (v < 256)" | "scalar_ok lims (GI8 v) = True" | "scalar_ok lims (GU16 v) = (v < 65536)"
| "scalar_ok lims (GI16 v) = True" | "scalar_ok lims (GU32 v) = (v < 4294967296)" | "scalar_ok lims (GI32 v) = True"
| "scalar_ok lims (GF32 v) = True" | "scalar_ok lims (GBool v) = True"
| "scalar_ok lims (GString s) = (length s \<le> max_string_bytes lims)"
| "scalar_ok lims (GArray t vs) = False"
| "scalar_ok lims (GU64 v) = (v < u64_limit)" | "scalar_ok lims (GI64 v) = True" | "scalar_ok lims (GF64 v) = True"

definition value_ok :: "reader_limits \<Rightarrow> gguf_value \<Rightarrow> bool" where
  "value_ok lims v = (case v of
      GArray t vs \<Rightarrow> t \<noteq> TArray \<and> (\<forall>x \<in> set vs. value_type_of x = t \<and> scalar_ok lims x)
    | _ \<Rightarrow> scalar_ok lims v)"

definition array_size :: "gguf_value \<Rightarrow> nat" where
  "array_size v = (case v of GArray t vs \<Rightarrow> length vs | _ \<Rightarrow> 0)"

lemma scalar_value: "scalar_ok lims v \<Longrightarrow> value_ok lims v \<and> array_size v = 0"
  by (cases v) (simp_all add: value_ok_def array_size_def)

lemma read_scalar_follows:
  "read_scalar ty r = Inr (v, r') \<Longrightarrow>
   follows r r' \<and> array_elements r' = array_elements r \<and> value_type_of v = ty \<and> scalar_ok (limits r) v"
  by (cases ty) (auto simp: read_scalar_def rbind_Inr split: if_splits
      dest!: read_uint_follows read_string_follows)

lemma read_elements_follows:
  "read_elements ty n acc r = Inr (vs, r') \<Longrightarrow> follows r r' \<and> array_elements r' = array_elements r \<and>
   (\<exists>new. vs = acc @ new \<and> length new = n \<and> (\<forall>v \<in> set new. value_type_of v = ty \<and> scalar_ok (limits r) v))"
proof (induction n arbitrary: acc r)
  case (Suc n)
  then obtain v r1 where v: "read_scalar ty r = Inr (v, r1)" "read_elements ty n (acc @ [v]) r1 = Inr (vs, r')"
    by (auto simp: rbind_Inr)
  note a = read_scalar_follows [OF v(1)]
  obtain new where new: "vs = (acc @ [v]) @ new" "length new = n"
    "\<forall>v \<in> set new. value_type_of v = ty \<and> scalar_ok (limits r1) v" "follows r1 r'" "array_elements r' = array_elements r1"
    using Suc.IH [OF v(2)] by blast
  have "limits r1 = limits r" using a by (simp add: follows_def)
  with new a show ?case by (intro conjI exI [of _ "v # new"]) (auto intro: follows_trans)
qed simp

lemma check_array_budget_follows:
  "check_array_budget ty n r = Inr (m, r') \<Longrightarrow> follows r r' \<and> m = n \<and> array_elements r' = array_elements r + n"
  by (auto simp: check_array_budget_def rbind_Inr ok_or_Inr follows_def in_budget_def split: if_splits)

lemma read_value_follows:
  assumes "read_value ty r = Inr (v, r')"
  shows "follows r r' \<and> array_elements r' = array_elements r + array_size v \<and> value_type_of v = ty \<and> value_ok (limits r) v"
proof (cases "ty = TArray")
  case False
  then show ?thesis using assms read_scalar_follows [of ty r v r'] scalar_value by (auto simp: read_value_def)
next
  case True
  obtain code r1 et count r2 m r3 vs where r:
    "read_u32 ''array element type'' r = Inr (code, r1)" "et \<noteq> TArray"
    "read_u64 ''array element count'' r1 = Inr (count, r2)" "check_array_budget et count r2 = Inr (m, r3)"
    "read_elements et m [] r3 = Inr (vs, r')" "v = GArray et vs"
    using assms True by (auto simp: read_value_def rbind_Inr split: if_splits)
  note f = read_uint_follows(3) [OF r(1)] read_uint_follows(4) [OF r(3)] check_array_budget_follows [OF r(4)]
    read_elements_follows [OF r(5)]
  have ff: "follows r r1" "follows r1 r2" "follows r2 r3" "follows r3 r'" using f by auto
  have "limits r3 = limits r" using ff by (simp add: follows_def)
  moreover have "follows r r'" using ff by (blast intro: follows_trans)
  ultimately show ?thesis using f r(2,6) True by (auto simp: value_ok_def array_size_def)
qed

lemma read_metadata_follows:
  "read_metadata n keys acc r = Inr (kvs, r') \<Longrightarrow> keys = fst ` set acc \<Longrightarrow> distinct (map fst acc) \<Longrightarrow>
   follows r r' \<and> (\<exists>new. kvs = acc @ new \<and> length new = n \<and> distinct (map fst kvs) \<and>
     array_elements r' = array_elements r + sum_list (map (array_size \<circ> snd) new) \<and>
     (\<forall>(k, v) \<in> set new. length k \<le> max_string_bytes (limits r) \<and> value_ok (limits r) v))"
proof (induction n arbitrary: keys acc r)
  case (Suc n)
  then obtain key r1 code r2 ty v r3 where s:
    "read_string ''metadata key'' r = Inr (key, r1)" "read_u32 ''metadata value type'' r1 = Inr (code, r2)"
    "read_value ty r2 = Inr (v, r3)" "key \<notin> keys"
    "read_metadata n (insert key keys) (acc @ [(key, v)]) r3 = Inr (kvs, r')"
    by (auto simp: rbind_Inr split: if_splits)
  note f = read_string_follows [OF s(1)] read_uint_follows(3) [OF s(2)] read_value_follows [OF s(3)]
  have ff: "follows r r1" "follows r1 r2" "follows r2 r3" using f by auto
  then have f3: "follows r r3" by (blast intro: follows_trans)
  have lim: "limits r3 = limits r" "limits r2 = limits r" using ff by (simp_all add: follows_def)
  have "insert key keys = fst ` set (acc @ [(key, v)])" "distinct (map fst (acc @ [(key, v)]))"
    using Suc.prems(2,3) s(4) by auto
  from Suc.IH [OF s(5) this] obtain new where new: "follows r3 r'" "kvs = (acc @ [(key, v)]) @ new" "length new = n"
    "distinct (map fst kvs)" "array_elements r' = array_elements r3 + sum_list (map (array_size \<circ> snd) new)"
    "\<forall>(k, v) \<in> set new. length k \<le> max_string_bytes (limits r3) \<and> value_ok (limits r3) v"
    by blast
  show ?case
    using new f f3 lim by (intro conjI exI [of _ "(key, v) # new"]) (auto intro: follows_trans simp: comp_def)
qed simp

lemma read_dimensions_follows:
  "read_dimensions n acc r = Inr (ds, r') \<Longrightarrow> follows r r' \<and> array_elements r' = array_elements r"
  by (induction n arbitrary: acc r) (auto simp: rbind_Inr dest!: read_uint_follows intro: follows_trans)

text \<open>A descriptor the directory yields was accepted by the descriptor constructor.\<close>

lemma read_tensor_follows:
  assumes "read_tensor r = Inr (t, r')"
  shows "follows r r' \<and> array_elements r' = array_elements r \<and> desc_ok t \<and>
    td_n_dims t \<le> max_dimensions (limits r) \<and> length (td_name t) \<le> max_string_bytes (limits r)"
proof -
  obtain name r1 n r2 shape r3 code r4 ty off where s:
    "read_string ''tensor name'' (r\<lparr>account_metadata := True\<rparr>) = Inr (name, r1)"
    "read_u32 ''tensor dimension count'' (r1\<lparr>account_metadata := False\<rparr>) = Inr (n, r2)"
    "n \<le> max_dimensions (limits r2)" "read_dimensions n [] r2 = Inr (shape, r3)"
    "read_u32 ''GGML type'' r3 = Inr (code, r4)" "read_u64 ''tensor payload offset'' r4 = Inr (off, r')"
    "tensor_new name shape ty off = Inr t"
    using assms by (auto simp: read_tensor_def rbind_Inr map_err_Inr split: if_splits)
  note f = read_string_follows [OF s(1)] read_uint_follows(3) [OF s(2)] read_dimensions_follows [OF s(4)]
    read_uint_follows(3) [OF s(5)] read_uint_follows(4) [OF s(6)]
  have ff: "follows r (r\<lparr>account_metadata := True\<rparr>)" "follows (r\<lparr>account_metadata := True\<rparr>) r1"
    "follows r1 (r1\<lparr>account_metadata := False\<rparr>)" "follows (r1\<lparr>account_metadata := False\<rparr>) r2"
    "follows r2 r3" "follows r3 r4" "follows r4 r'" using f by auto
  then have "follows r r'" by (blast intro: follows_trans)
  moreover have "limits r2 = limits r" using ff by (simp add: follows_def)
  moreover have "length shape = n"
  proof -
    have "read_dimensions n acc r = Inr (ds, r') \<Longrightarrow> length ds = length acc + n" for acc r ds r'
      by (induction n arbitrary: acc r) (auto simp: rbind_Inr)
    from this [OF s(4)] show ?thesis by simp
  qed
  moreover have "length (shape_of t) = td_n_dims t"
    using tensor_new_Inr(1) [OF s(7)] by (simp add: desc_ok_def shape_of_def)
  ultimately show ?thesis using tensor_new_Inr [OF s(7)] f s(3) by auto
qed

lemma read_tensors_follows:
  "read_tensors n acc r = Inr (ts, r') \<Longrightarrow> follows r r' \<and> array_elements r' = array_elements r \<and>
   (\<exists>new. ts = acc @ new \<and> length new = n \<and> (\<forall>t \<in> set new. desc_ok t))"
proof (induction n arbitrary: acc r)
  case (Suc n)
  then obtain t r1 where s: "read_tensor r = Inr (t, r1)" "read_tensors n (acc @ [t]) r1 = Inr (ts, r')"
    by (auto simp: rbind_Inr)
  note f = read_tensor_follows [OF s(1)]
  obtain new where "follows r1 r'" "array_elements r' = array_elements r1" "ts = (acc @ [t]) @ new" "length new = n"
    "\<forall>t \<in> set new. desc_ok t"
    using Suc.IH [OF s(2)] by blast
  then show ?case using f by (intro conjI exI [of _ "t # new"]) (auto intro: follows_trans)
qed simp

section \<open>The payload layout\<close>

definition payload_of :: "tensor_desc \<Rightarrow> nat" where
  "payload_of t = payload_bytes (td_ty t) (shape_of t)"

lemma check_extents_layout:
  assumes "check_extents al offset len ts extent = Inr extent'"
    and "is_power_of_two al" "al < u64_limit" "al dvd extent" "\<forall>t \<in> set ts. desc_ok t"
  shows "extent \<le> extent' \<and> al dvd extent' \<and>
    (\<forall>t \<in> set ts. extent \<le> td_relative_offset t \<and> al dvd td_relative_offset t \<and> 0 < payload_of t \<and>
       td_relative_offset t + payload_of t \<le> extent' \<and>
       checked_absolute_range t offset len =
         Inr (offset + td_relative_offset t, offset + td_relative_offset t + payload_of t) \<and>
       offset + td_relative_offset t + payload_of t \<le> len) \<and>
    sorted_wrt (\<lambda>s t. td_relative_offset s + payload_of s \<le> td_relative_offset t) ts"
  using assms(1,4,5)
proof (induction ts arbitrary: extent)
  case Nil
  then show ?case by simp
next
  case (Cons t ts)
  from Cons.prems(1) obtain encoded padded first stop where s: "td_relative_offset t = extent"
    "encoded_bytes t = Inr encoded" "round_up encoded al = Some padded" "extent + padded < u64_limit"
    "checked_absolute_range t offset len = Inr (first, stop)"
    "check_extents al offset len ts (extent + padded) = Inr extent'"
    by (auto simp: rbind_Inr ok_or_Inr split: if_splits)
  have enc: "encoded = payload_of t" "0 < encoded"
    using encoded_bytes_Inr [OF _ s(2)] Cons.prems(3) by (auto simp: payload_of_def)
  note up = round_up_Some [OF assms(2,3) s(3)]
  have range: "first = offset + extent" "stop = first + encoded" "stop \<le> len"
    using s(1,2,5) by (auto simp: checked_absolute_range_def rbind_Inr ok_or_Inr split: if_splits)
  have "al dvd extent + padded" using Cons.prems(2) up(2) by simp
  note IH = Cons.IH [OF s(6) this]
  show ?case using IH Cons.prems s(1,5) enc up(1) range by auto
qed

text \<open>The stages of a successful read.\<close>

lemma gguf_read_stages:
  assumes "gguf_read r = Inr g"
  obtains r0 r1 r2 m n extent where
    "follows (r\<lparr>rd_endianness := endian g\<rparr>) r0" "array_elements r0 = array_elements r"
    "2 \<le> version g" "version g \<le> 3" "n \<le> max_tensors (limits r0)" "m \<le> max_metadata_entries (limits r0)"
    "read_metadata m {} [] (r0\<lparr>account_metadata := True\<rparr>) = Inr (metadata g, r1)"
    "select_alignment (metadata g) = Inr (alignment g)"
    "read_tensors n [] (r1\<lparr>account_metadata := False\<rparr>) = Inr (tensors g, r2)"
    "align_up (position r2) (alignment g) = Inr (data_offset g)" "file_len g = length (contents r2)"
    "data_offset g \<le> file_len g" "check_extents (alignment g) (data_offset g) (file_len g) (tensors g) 0 = Inr extent"
    "data_offset g + extent \<le> file_len g"
proof -
  from assms obtain magic ra e rb rc r0 tc mc n m kvs r1 al ts r2 extent offset required where
    s: "read_exact 4 ''magic'' r = Inr (magic, ra)" "e = endian g"
    "read_u32 ''version'' (ra\<lparr>rd_endianness := e\<rparr>) = Inr (version g, rb)" "2 \<le> version g" "version g \<le> 3"
    "read_u64 ''tensor count'' rb = Inr (tc, rc)" "read_u64 ''metadata count'' rc = Inr (mc, r0)"
    "checked_count tc (max_tensors (limits r0)) ''tensors'' = Inr n"
    "checked_count mc (max_metadata_entries (limits r0)) ''metadata entries'' = Inr m"
    "read_metadata m {} [] (r0\<lparr>account_metadata := True\<rparr>) = Inr (metadata g, r1)"
    "select_alignment (metadata g) = Inr (alignment g)"
    "read_tensors n [] (r1\<lparr>account_metadata := False\<rparr>) = Inr (tensors g, r2)"
    "align_up (position r2) (alignment g) = Inr (data_offset g)" "file_len g = length (contents r2)"
    "data_offset g \<le> file_len g" "check_extents (alignment g) (data_offset g) (file_len g) (tensors g) 0 = Inr extent"
    "data_offset g + extent \<le> file_len g"
    unfolding gguf_read_def Let_def
    by (elim result_InrE) (auto simp: ok_or_Inr split: if_splits)
  have f: "follows r ra" "array_elements ra = array_elements r" using read_exact_follows [OF s(1)] by auto
  have a: "follows (r\<lparr>rd_endianness := e\<rparr>) (ra\<lparr>rd_endianness := e\<rparr>)" using f(1) by (auto simp: follows_def in_budget_def)
  note b = read_uint_follows(3) [OF s(3)] read_uint_follows(4) [OF s(6)] read_uint_follows(4) [OF s(7)]
  have bb: "follows (ra\<lparr>rd_endianness := e\<rparr>) rb" "follows rb rc" "follows rc r0" using b by auto
  have "follows (r\<lparr>rd_endianness := e\<rparr>) r0" using a bb by (blast intro: follows_trans)
  moreover have "array_elements r0 = array_elements r" using b f(2) by simp
  moreover have "n \<le> max_tensors (limits r0)" "m \<le> max_metadata_entries (limits r0)"
    using s(8,9) by (auto simp: checked_count_def split: if_splits)
  ultimately show thesis using s(2,4,5,10-17) by (intro that) simp_all
qed

lemma gguf_read_facts:
  assumes "gguf_read (with_limits bytes grant lims) = Inr g"
  shows "2 \<le> version g \<and> version g \<le> 3" "file_len g = length bytes"
    "is_power_of_two (alignment g) \<and> alignment g < u64_limit"
    "distinct (map fst (metadata g)) \<and> length (metadata g) \<le> max_metadata_entries lims \<and>
     sum_list (map (array_size \<circ> snd) (metadata g)) \<le> max_array_elements lims \<and>
     (\<forall>(k, v) \<in> set (metadata g). length k \<le> max_string_bytes lims \<and> value_ok lims v)"
    "length (tensors g) \<le> max_tensors lims \<and> (\<forall>t \<in> set (tensors g). desc_ok t)"
    "alignment g dvd data_offset g \<and> data_offset g \<le> file_len g"
    "\<exists>extent. check_extents (alignment g) (data_offset g) (file_len g) (tensors g) 0 = Inr extent \<and>
       data_offset g + extent \<le> file_len g"
proof -
  let ?r = "with_limits bytes grant lims"
  obtain r0 r1 r2 m n extent where
    s: "follows (?r\<lparr>rd_endianness := endian g\<rparr>) r0" "array_elements r0 = array_elements ?r"
    "2 \<le> version g" "version g \<le> 3" "n \<le> max_tensors (limits r0)" "m \<le> max_metadata_entries (limits r0)"
    "read_metadata m {} [] (r0\<lparr>account_metadata := True\<rparr>) = Inr (metadata g, r1)"
    "select_alignment (metadata g) = Inr (alignment g)"
    "read_tensors n [] (r1\<lparr>account_metadata := False\<rparr>) = Inr (tensors g, r2)"
    "align_up (position r2) (alignment g) = Inr (data_offset g)" "file_len g = length (contents r2)"
    "data_offset g \<le> file_len g" "check_extents (alignment g) (data_offset g) (file_len g) (tensors g) 0 = Inr extent"
    "data_offset g + extent \<le> file_len g"
    by (rule gguf_read_stages [OF assms]) blast
  have lim0: "limits r0 = lims" "contents r0 = bytes" using s(1) by (auto simp: follows_def with_limits_def)
  have b0: "in_budget (r0\<lparr>account_metadata := True\<rparr>)" "array_elements r0 = 0"
    using s(1,2) by (auto simp: follows_def in_budget_def with_limits_def)
  from read_metadata_follows [OF s(7)] have md: "follows (r0\<lparr>account_metadata := True\<rparr>) r1"
    "length (metadata g) = m" "distinct (map fst (metadata g))"
    "array_elements r1 = sum_list (map (array_size \<circ> snd) (metadata g))"
    "\<forall>(k, v) \<in> set (metadata g). length k \<le> max_string_bytes lims \<and> value_ok lims v"
    using lim0 b0(2) by auto
  have "in_budget r1" "limits r1 = lims" "contents r1 = bytes" using md(1) b0 lim0 by (auto simp: follows_def)
  then have "sum_list (map (array_size \<circ> snd) (metadata g)) \<le> max_array_elements lims"
    using md(4) by (simp add: in_budget_def)
  then show "distinct (map fst (metadata g)) \<and> length (metadata g) \<le> max_metadata_entries lims \<and>
     sum_list (map (array_size \<circ> snd) (metadata g)) \<le> max_array_elements lims \<and>
     (\<forall>(k, v) \<in> set (metadata g). length k \<le> max_string_bytes lims \<and> value_ok lims v)"
    using md s(6) lim0 by simp
  show "2 \<le> version g \<and> version g \<le> 3" using s by simp
  have ts: "follows (r1\<lparr>account_metadata := False\<rparr>) r2" "length (tensors g) = n" "\<forall>t \<in> set (tensors g). desc_ok t"
    using read_tensors_follows [OF s(9)] by auto
  then show "length (tensors g) \<le> max_tensors lims \<and> (\<forall>t \<in> set (tensors g). desc_ok t)"
    using s(5) lim0 by simp
  have "contents r2 = bytes" using ts(1) \<open>contents r1 = bytes\<close> by (simp add: follows_def)
  then show "file_len g = length bytes" using s(11) by simp
  show al: "is_power_of_two (alignment g) \<and> alignment g < u64_limit"
  proof (cases "map_of (metadata g) ''general.alignment''")
    case None
    have "is_power_of_two (2 ^ 5)" by (rule is_power_of_two_pow)
    with None s(8) show ?thesis by (auto simp: select_alignment_def DEFAULT_ALIGNMENT_def u64_limit_def)
  next
    case (Some v)
    then have "(''general.alignment'', v) \<in> set (metadata g)" by (rule map_of_SomeD)
    then have "value_ok lims v" using md(5) by blast
    with Some s(8) show ?thesis
      by (cases v) (auto simp: select_alignment_def value_ok_def u64_limit_def split: if_splits)
  qed
  have "round_up (position r2) (alignment g) = Some (data_offset g)"
    using s(10) by (simp add: align_up_def ok_or_Inr)
  then show "alignment g dvd data_offset g \<and> data_offset g \<le> file_len g"
    using round_up_Some(2) [of "alignment g"] al s(12) by blast
  show "\<exists>extent. check_extents (alignment g) (data_offset g) (file_len g) (tensors g) 0 = Inr extent \<and>
       data_offset g + extent \<le> file_len g"
    using s(13,14) by blast
qed

section \<open>Properties\<close>

text \<open>
  The payload layout of an accepted file: the alignment is a power of two that divides the data offset,
  and every tensor is a valid descriptor with an aligned, non-empty payload whose range, as the
  checked range operation returns it, lies inside the file; the payloads follow each other in
  directory order and never overlap.
\<close>

theorem gguf_layout_sound:
  assumes "gguf_read (with_limits bytes grant lims) = Inr g"
  shows "is_power_of_two (alignment g) \<and> alignment g dvd data_offset g \<and> data_offset g \<le> length bytes \<and>
    (\<forall>t \<in> set (tensors g). desc_ok t \<and> alignment g dvd td_relative_offset t \<and> 0 < payload_of t \<and>
       checked_absolute_range t (data_offset g) (file_len g) =
         Inr (data_offset g + td_relative_offset t, data_offset g + td_relative_offset t + payload_of t) \<and>
       data_offset g + td_relative_offset t + payload_of t \<le> length bytes) \<and>
    sorted_wrt (\<lambda>s t. td_relative_offset s + payload_of s \<le> td_relative_offset t) (tensors g)"
proof -
  note f = gguf_read_facts [OF assms]
  obtain extent where e: "check_extents (alignment g) (data_offset g) (file_len g) (tensors g) 0 = Inr extent"
    using f(7) by blast
  have "is_power_of_two (alignment g)" "alignment g < u64_limit" "\<forall>t \<in> set (tensors g). desc_ok t" using f(3,5) by auto
  from check_extents_layout [OF e this(1,2) _ this(3)] f(2,3,5,6) show ?thesis by auto
qed

text \<open>
  The metadata of an accepted file respects the limits the reader was given: distinct keys, no more
  entries, tensors, array elements in total or bytes per string than allowed, arrays are homogeneous
  and never nested, and unsigned values fit their type.
\<close>

theorem gguf_metadata_bounded:
  assumes "gguf_read (with_limits bytes grant lims) = Inr g"
  shows "distinct (map fst (metadata g)) \<and> length (metadata g) \<le> max_metadata_entries lims \<and>
    length (tensors g) \<le> max_tensors lims \<and>
    sum_list (map (array_size \<circ> snd) (metadata g)) \<le> max_array_elements lims \<and>
    (\<forall>(k, v) \<in> set (metadata g). length k \<le> max_string_bytes lims \<and> value_ok lims v)"
  using gguf_read_facts(4,5) [OF assms] by blast

end
