(* ===== verification/Gguf_Encode.thy ===== *)
theory Gguf_Encode
  imports Gguf_Reader
begin

text \<open>
  The GGUF format as the reader of \<^verbatim>\<open>Gguf_Reader\<close> understands it, written as an encoder for both byte
  orders, and the proof that the reader is its inverse: every well-formed file within the limits is
  accepted and read back exactly. The encoder is a specification; the repository only has one for
  tests.
\<close>

section \<open>The encoder\<close>

definition enc_uint :: "endianness \<Rightarrow> nat \<Rightarrow> nat \<Rightarrow> byte list" where
  "enc_uint e n v = (case e of Little \<Rightarrow> le_bytes n v | Big \<Rightarrow> rev (le_bytes n v))"

definition enc_string :: "endianness \<Rightarrow> string \<Rightarrow> byte list" where
  "enc_string e s = enc_uint e 8 (length s) @ bytes_of_str s"

primrec enc_scalar :: "endianness \<Rightarrow> gguf_value \<Rightarrow> byte list" where
  "enc_scalar e (GU8 v) = enc_uint e 1 v"
| "enc_scalar e (GI8 v) = enc_uint e 1 (unat (word_of_int v :: 8 word))"
| "enc_scalar e (GU16 v) = enc_uint e 2 v"
| "enc_scalar e (GI16 v) = enc_uint e 2 (unat (word_of_int v :: 16 word))"
| "enc_scalar e (GU32 v) = enc_uint e 4 v"
| "enc_scalar e (GI32 v) = enc_uint e 4 (unat (word_of_int v :: 32 word))"
| "enc_scalar e (GF32 v) = enc_uint e 4 (unat v)"
| "enc_scalar e (GBool v) = enc_uint e 1 (if v then 1 else 0)"
| "enc_scalar e (GString v) = enc_string e v"
| "enc_scalar e (GArray t vs) = []"
| "enc_scalar e (GU64 v) = enc_uint e 8 v"
| "enc_scalar e (GI64 v) = enc_uint e 8 (unat (word_of_int v :: 64 word))"
| "enc_scalar e (GF64 v) = enc_uint e 8 (unat v)"

definition enc_value :: "endianness \<Rightarrow> gguf_value \<Rightarrow> byte list" where
  "enc_value e v = (case v of
      GArray t vs \<Rightarrow> enc_uint e 4 (type_code t) @ enc_uint e 8 (length vs) @ concat (map (enc_scalar e) vs)
    | _ \<Rightarrow> enc_scalar e v)"

definition enc_entry :: "endianness \<Rightarrow> string \<times> gguf_value \<Rightarrow> byte list" where
  "enc_entry e kv = enc_string e (fst kv) @ enc_uint e 4 (type_code (value_type_of (snd kv))) @ enc_value e (snd kv)"

definition enc_tensor :: "endianness \<Rightarrow> tensor_desc \<Rightarrow> byte list" where
  "enc_tensor e t = enc_string e (td_name t) @ enc_uint e 4 (td_n_dims t) @
     concat (map (enc_uint e 8) (shape_of t)) @ enc_uint e 4 (discriminant (td_ty t)) @
     enc_uint e 8 (td_relative_offset t)"

definition enc_directory :: "gguf_file \<Rightarrow> byte list" where
  "enc_directory g = (case endian g of Little \<Rightarrow> bytes_of_str ''GGUF'' | Big \<Rightarrow> bytes_of_str ''FUGG'') @
     enc_uint (endian g) 4 (version g) @ enc_uint (endian g) 8 (length (tensors g)) @
     enc_uint (endian g) 8 (length (metadata g)) @
     concat (map (enc_entry (endian g)) (metadata g)) @ concat (map (enc_tensor (endian g)) (tensors g))"

section \<open>Well-formed files\<close>

definition string_valid :: "reader_limits \<Rightarrow> string \<Rightarrow> bool" where
  "string_valid lims s \<longleftrightarrow> utf8_valid (bytes_of_str s) \<and> length s \<le> max_string_bytes lims \<and> length s < u64_limit"

primrec scalar_valid :: "reader_limits \<Rightarrow> gguf_value \<Rightarrow> bool" where
  "scalar_valid lims (GU8 v) = (v < 256)"
| "scalar_valid lims (GI8 v) = (- 128 \<le> v \<and> v < 128)"
| "scalar_valid lims (GU16 v) = (v < 65536)"
| "scalar_valid lims (GI16 v) = (- 32768 \<le> v \<and> v < 32768)"
| "scalar_valid lims (GU32 v) = (v < 4294967296)"
| "scalar_valid lims (GI32 v) = (- 2147483648 \<le> v \<and> v < 2147483648)"
| "scalar_valid lims (GF32 v) = True"
| "scalar_valid lims (GBool v) = True"
| "scalar_valid lims (GString v) = string_valid lims v"
| "scalar_valid lims (GArray t vs) = False"
| "scalar_valid lims (GU64 v) = (v < u64_limit)"
| "scalar_valid lims (GI64 v) = (- 9223372036854775808 \<le> v \<and> v < 9223372036854775808)"
| "scalar_valid lims (GF64 v) = True"

definition value_valid :: "reader_limits \<Rightarrow> gguf_value \<Rightarrow> bool" where
  "value_valid lims v = (case v of
      GArray t vs \<Rightarrow> t \<noteq> TArray \<and> (\<forall>x \<in> set vs. value_type_of x = t \<and> scalar_valid lims x)
    | _ \<Rightarrow> scalar_valid lims v)"

definition tensor_valid :: "reader_limits \<Rightarrow> tensor_desc \<Rightarrow> bool" where
  "tensor_valid lims t \<longleftrightarrow> string_valid lims (td_name t) \<and>
     tensor_new (td_name t) (shape_of t) (td_ty t) (td_relative_offset t) = Inr t \<and>
     td_n_dims t \<le> max_dimensions lims \<and> (\<forall>d \<in> set (shape_of t). d < u64_limit) \<and> td_relative_offset t < u64_limit"

definition pad_to :: "nat \<Rightarrow> nat \<Rightarrow> nat" where
  "pad_to al n = (n + (al - 1)) div al * al"

text \<open>Each payload starts where the padded one before it ends.\<close>

fun laid_out :: "nat \<Rightarrow> tensor_desc list \<Rightarrow> nat \<Rightarrow> nat \<Rightarrow> bool" where
  "laid_out al [] start end \<longleftrightarrow> start = end"
| "laid_out al (t # ts) start end \<longleftrightarrow> td_relative_offset t = start \<and> laid_out al ts (start + pad_to al (payload_of t)) end"

definition well_formed :: "reader_limits \<Rightarrow> gguf_file \<Rightarrow> bool" where
  "well_formed lims g \<longleftrightarrow> 2 \<le> version g \<and> version g \<le> 3 \<and> max_dimensions lims \<le> 4 \<and>
     max_metadata_bytes lims < u64_limit \<and> max_array_elements lims < u64_limit \<and>
     length (tensors g) \<le> max_tensors lims \<and> length (metadata g) \<le> max_metadata_entries lims \<and>
     distinct (map fst (metadata g)) \<and>
     (\<forall>(k, v) \<in> set (metadata g). string_valid lims k \<and> value_valid lims v) \<and>
     sum_list (map (array_size \<circ> snd) (metadata g)) \<le> max_array_elements lims \<and>
     sum_list (map (length \<circ> enc_entry (endian g)) (metadata g)) +
       sum_list (map (\<lambda>t. length (enc_string (endian g) (td_name t))) (tensors g)) \<le> max_metadata_bytes lims \<and>
     select_alignment (metadata g) = Inr (alignment g) \<and>
     (\<forall>t \<in> set (tensors g). tensor_valid lims t) \<and>
     data_offset g = pad_to (alignment g) (length (enc_directory g)) \<and>
     (\<exists>extent. laid_out (alignment g) (tensors g) 0 extent \<and> data_offset g + extent \<le> file_len g) \<and>
     file_len g + alignment g \<le> u64_limit"

section \<open>Primitive reads\<close>

lemma enc_uint_length [simp]: "length (enc_uint e n v) = n"
  by (simp add: enc_uint_def split: endianness.split)

lemma uint_of_enc: "v < 256 ^ n \<Longrightarrow> uint_of e (enc_uint e n v) = v"
  by (simp add: uint_of_def enc_uint_def of_le_le_bytes of_be_bytes_def split: endianness.split)

definition skip_bytes :: "nat \<Rightarrow> reader \<Rightarrow> reader" where
  "skip_bytes n r = r\<lparr>position := position r + n,
     metadata_bytes := (if account_metadata r then metadata_bytes r + n else metadata_bytes r)\<rparr>"

definition ready :: "reader \<Rightarrow> byte list \<Rightarrow> bool" where
  "ready r bs \<longleftrightarrow> position r \<le> length (contents r) \<and> drop (position r) (contents r) = bs \<and>
     max_metadata_bytes (limits r) < u64_limit \<and> (\<forall>k n. grants r k n)"

definition fits :: "nat \<Rightarrow> reader \<Rightarrow> bool" where
  "fits n r \<longleftrightarrow> (account_metadata r \<longrightarrow> metadata_bytes r + n \<le> max_metadata_bytes (limits r))"

lemma skip_fields [simp]:
  "limits (skip_bytes n r) = limits r" "rd_endianness (skip_bytes n r) = rd_endianness r"
  "array_elements (skip_bytes n r) = array_elements r" "account_metadata (skip_bytes n r) = account_metadata r"
  "grants (skip_bytes n r) = grants r" "contents (skip_bytes n r) = contents r" "position (skip_bytes n r) = position r + n"
  by (simp_all add: skip_bytes_def)

lemma skip_skip [simp]: "skip_bytes b (skip_bytes a r) = skip_bytes (a + b) r"
  by (simp add: skip_bytes_def)

lemma skip_0 [simp]: "skip_bytes 0 r = r"
  by (simp add: skip_bytes_def)

lemma fits_skip [simp]: "fits b (skip_bytes a r) = fits (a + b) r"
  by (simp add: fits_def skip_bytes_def add.assoc)

lemma fits_less: "fits n r \<Longrightarrow> m \<le> n \<Longrightarrow> fits m r"
  by (auto simp: fits_def)

lemma reserve_ready [simp]: "ready r bs \<Longrightarrow> reserve kind n r = Inr ()"
  by (simp add: reserve_def ready_def)

lemma read_exact_ok:
  assumes "ready r (bs @ rest)" "fits n r" "length bs = n"
  shows "read_exact n ctxt r = Inr (bs, skip_bytes n r) \<and> ready (skip_bytes n r) rest"
proof -
  have "length (contents r) - position r = length (bs @ rest)" using assms(1) by (metis length_drop ready_def)
  moreover have "position r \<le> length (contents r)" using assms(1) by (simp add: ready_def)
  ultimately have len: "length (contents r) = position r + n + length rest" using assms(3) by simp
  have "account n r = Inr (if account_metadata r then r\<lparr>metadata_bytes := metadata_bytes r + n\<rparr> else r)"
    using assms(1,2) by (auto simp: account_def fits_def ready_def checked_add_def)
  moreover have "take n (drop (position r) (contents r)) = bs" using assms(1,3) by (simp add: ready_def)
  moreover have "drop n (drop (position r) (contents r)) = rest"
    using assms(1,3) by (simp add: ready_def del: drop_drop)
  then have "drop (position r + n) (contents r) = rest" by (simp add: add.commute)
  ultimately show ?thesis
    using len assms(1) by (auto simp: read_exact_def skip_bytes_def ready_def)
qed

lemma read_uint_ok:
  assumes "ready r (enc_uint (rd_endianness r) n v @ rest)" "fits n r" "v < 256 ^ n"
  shows "n = 2 \<Longrightarrow> read_u16 ctxt r = Inr (v, skip_bytes 2 r) \<and> ready (skip_bytes 2 r) rest"
    "n = 4 \<Longrightarrow> read_u32 ctxt r = Inr (v, skip_bytes 4 r) \<and> ready (skip_bytes 4 r) rest"
    "n = 8 \<Longrightarrow> read_u64 ctxt r = Inr (v, skip_bytes 8 r) \<and> ready (skip_bytes 8 r) rest"
  using read_exact_ok [OF assms(1,2) enc_uint_length, of ctxt] uint_of_enc [OF assms(3)]
  by (auto simp: read_u16_def read_u32_def read_u64_def)

lemma read_u8_ok:
  assumes "ready r (enc_uint (rd_endianness r) 1 v @ rest)" "fits 1 r" "v < 256"
  shows "read_u8 ctxt r = Inr (v, skip_bytes 1 r) \<and> ready (skip_bytes 1 r) rest"
proof -
  have "enc_uint (rd_endianness r) 1 v = [word_of_nat v]"
    using assms(3) by (simp add: enc_uint_def split: endianness.split)
  then show ?thesis
    using read_exact_ok [OF assms(1,2), of ctxt] assms(3)
    by (simp add: read_u8_def unat_of_nat take_bit_nat_eq_self)
qed

lemma read_string_ok:
  assumes "ready r (enc_string (rd_endianness r) s @ rest)" "fits (length (enc_string (rd_endianness r) s)) r"
    "string_valid (limits r) s"
  shows "read_string ctxt r = Inr (s, skip_bytes (8 + length s) r) \<and> ready (skip_bytes (8 + length s) r) rest"
proof -
  have v: "length s \<le> max_string_bytes (limits r)" "length s < 256 ^ 8" "length s < u64_limit" "utf8_valid (bytes_of_str s)"
    using assms(3) by (simp_all add: string_valid_def u64_limit_def)
  have a: "ready r (enc_uint (rd_endianness r) 8 (length s) @ bytes_of_str s @ rest)"
    using assms(1) by (simp add: enc_string_def)
  have f: "fits (8 + length s) r" using assms(2) by (simp add: enc_string_def)
  note n = read_uint_ok(3) [OF a fits_less [OF f] v(2) refl, of "''string length''"]
  have "read_exact (length s) ctxt (skip_bytes 8 r) = Inr (bytes_of_str s, skip_bytes (8 + length s) r) \<and>
      ready (skip_bytes (8 + length s) r) rest"
    using read_exact_ok [of "skip_bytes 8 r" "bytes_of_str s" rest "length s" ctxt] n f by simp
  with n v show ?thesis by (auto simp: read_string_def)
qed

section \<open>Metadata\<close>

lemma sint_word_of_int_8: "- 128 \<le> v \<Longrightarrow> v < 128 \<Longrightarrow> sint (word_of_int v :: 8 word) = v"
  by (simp add: sint_sbintrunc' signed_take_bit_int_eq_self)

lemma sint_word_of_int_16: "- 32768 \<le> v \<Longrightarrow> v < 32768 \<Longrightarrow> sint (word_of_int v :: 16 word) = v"
  by (simp add: sint_sbintrunc' signed_take_bit_int_eq_self)

lemma sint_word_of_int_32: "- 2147483648 \<le> v \<Longrightarrow> v < 2147483648 \<Longrightarrow> sint (word_of_int v :: 32 word) = v"
  by (simp add: sint_sbintrunc' signed_take_bit_int_eq_self)

lemma sint_word_of_int_64:
  "- 9223372036854775808 \<le> v \<Longrightarrow> v < 9223372036854775808 \<Longrightarrow> sint (word_of_int v :: 64 word) = v"
  by (simp add: sint_sbintrunc' signed_take_bit_int_eq_self)

lemma unat_bounds:
  "unat (w8 :: 8 word) < 256" "unat (w16 :: 16 word) < 256 ^ 2" "unat (w32 :: 32 word) < 256 ^ 4"
  "unat (w64 :: 64 word) < 256 ^ 8"
  using unsigned_less [of w8] unsigned_less [of w16] unsigned_less [of w32] unsigned_less [of w64] by simp_all

lemma read_scalar_ok:
  assumes r: "ready r (enc_scalar (rd_endianness r) v @ rest)" and f: "fits (length (enc_scalar (rd_endianness r) v)) r"
    and v: "scalar_valid (limits r) v"
  shows "read_scalar (value_type_of v) r = Inr (v, skip_bytes (length (enc_scalar (rd_endianness r) v)) r) \<and>
    ready (skip_bytes (length (enc_scalar (rd_endianness r) v)) r) rest"
proof (cases v)
  case (GU8 x)
  then show ?thesis using read_u8_ok [of r x rest] r f v by (simp add: read_scalar_def)
next
  case (GI8 x)
  then show ?thesis using read_u8_ok [of r _ rest, OF _ _ unat_bounds(1)] r f v
    by (simp add: read_scalar_def sint_word_of_int_8)
next
  case (GU16 x)
  then show ?thesis using read_uint_ok(1) [of r 2 x rest] r f v by (simp add: read_scalar_def)
next
  case (GI16 x)
  then show ?thesis using read_uint_ok(1) [of r 2 _ rest, OF _ _ unat_bounds(2)] r f v
    by (simp add: read_scalar_def sint_word_of_int_16)
next
  case (GU32 x)
  then show ?thesis using read_uint_ok(2) [of r 4 x rest] r f v by (simp add: read_scalar_def)
next
  case (GI32 x)
  then show ?thesis using read_uint_ok(2) [of r 4 _ rest, OF _ _ unat_bounds(3)] r f v
    by (simp add: read_scalar_def sint_word_of_int_32)
next
  case (GF32 x)
  then show ?thesis using read_uint_ok(2) [of r 4 _ rest, OF _ _ unat_bounds(3)] r f by (simp add: read_scalar_def)
next
  case (GBool x)
  then show ?thesis using read_u8_ok [of r "if x then 1 else 0" rest] r f by (cases x) (simp_all add: read_scalar_def)
next
  case (GString x)
  then show ?thesis using read_string_ok [of r x rest] r f v by (simp add: read_scalar_def enc_string_def)
next
  case (GArray t vs)
  then show ?thesis using v by simp
next
  case (GU64 x)
  then show ?thesis using read_uint_ok(3) [of r 8 x rest] r f v by (simp add: read_scalar_def u64_limit_def)
next
  case (GI64 x)
  then show ?thesis using read_uint_ok(3) [of r 8 _ rest, OF _ _ unat_bounds(4)] r f v
    by (simp add: read_scalar_def sint_word_of_int_64)
next
  case (GF64 x)
  then show ?thesis using read_uint_ok(3) [of r 8 _ rest, OF _ _ unat_bounds(4)] r f by (simp add: read_scalar_def)
qed

definition scalars_length :: "endianness \<Rightarrow> gguf_value list \<Rightarrow> nat" where
  "scalars_length e vs = length (concat (map (enc_scalar e) vs))"

lemma read_elements_ok:
  "ready r (concat (map (enc_scalar (rd_endianness r)) vs) @ rest) \<Longrightarrow>
   fits (scalars_length (rd_endianness r) vs) r \<Longrightarrow>
   \<forall>v \<in> set vs. value_type_of v = t \<and> scalar_valid (limits r) v \<Longrightarrow>
   read_elements t (length vs) acc r = Inr (acc @ vs, skip_bytes (scalars_length (rd_endianness r) vs) r) \<and>
   ready (skip_bytes (scalars_length (rd_endianness r) vs) r) rest"
proof (induction vs arbitrary: acc r)
  case Nil
  then show ?case by (simp add: scalars_length_def)
next
  case (Cons v vs)
  let ?e = "rd_endianness r"
  let ?n = "length (enc_scalar ?e v)"
  have a: "ready r (enc_scalar ?e v @ concat (map (enc_scalar ?e) vs) @ rest)" using Cons.prems(1) by simp
  have l: "scalars_length ?e (v # vs) = ?n + scalars_length ?e vs" by (simp add: scalars_length_def)
  have v: "value_type_of v = t" "scalar_valid (limits r) v" using Cons.prems(3) by simp_all
  have f: "fits ?n r" using Cons.prems(2) l by (auto intro: fits_less)
  note hd = read_scalar_ok [OF a f v(2), unfolded v(1)]
  have "ready (skip_bytes ?n r) (concat (map (enc_scalar (rd_endianness (skip_bytes ?n r))) vs) @ rest)"
    using hd by simp
  moreover have "fits (scalars_length (rd_endianness (skip_bytes ?n r)) vs) (skip_bytes ?n r)"
    using Cons.prems(2) l by simp
  moreover have "\<forall>v \<in> set vs. value_type_of v = t \<and> scalar_valid (limits (skip_bytes ?n r)) v"
    using Cons.prems(3) by simp
  ultimately have "read_elements t (length vs) (acc @ [v]) (skip_bytes ?n r) =
      Inr ((acc @ [v]) @ vs, skip_bytes (scalars_length ?e vs) (skip_bytes ?n r)) \<and>
      ready (skip_bytes (scalars_length ?e vs) (skip_bytes ?n r)) rest"
    using Cons.IH [of "skip_bytes ?n r" "acc @ [v]"] by simp
  then show ?case using hd l reserve_ready [OF conjunct2 [OF hd]] by simp
qed

text \<open>The minimum the budget check demands is never more than what the elements take.\<close>

lemma minimum_le_encoding:
  "value_type_of v = t \<Longrightarrow> t \<noteq> TArray \<Longrightarrow> \<exists>m. minimum_element_bytes t = Inr m \<and> m \<le> length (enc_scalar e v)"
  by (cases v) (auto simp: enc_string_def)

lemma minimum_total: "t \<noteq> TArray \<Longrightarrow> \<exists>m. minimum_element_bytes t = Inr m \<and> m \<le> 8"
  by (cases t) auto

lemma minimum_scalars:
  assumes "\<forall>v \<in> set vs. value_type_of v = t" "t \<noteq> TArray" "minimum_element_bytes t = Inr m"
  shows "length vs * m \<le> scalars_length e vs"
  using assms(1)
proof (induction vs)
  case (Cons v vs)
  then show ?case using minimum_le_encoding [of v t e] assms(2,3) by (auto simp: scalars_length_def)
qed simp

lemma read_value_ok:
  assumes r: "ready r (enc_value (rd_endianness r) v @ rest)" and f: "fits (length (enc_value (rd_endianness r) v)) r"
    and v: "value_valid (limits r) v" and acct: "account_metadata r"
    and n: "array_elements r + array_size v \<le> max_array_elements (limits r)" "max_array_elements (limits r) < u64_limit"
  shows "read_value (value_type_of v) r =
      Inr (v, (skip_bytes (length (enc_value (rd_endianness r) v)) r)\<lparr>array_elements := array_elements r + array_size v\<rparr>) \<and>
    ready (skip_bytes (length (enc_value (rd_endianness r) v)) r) rest"
proof (cases "\<exists>t vs. v = GArray t vs")
  case False
  then have e: "enc_value (rd_endianness r) v = enc_scalar (rd_endianness r) v" "value_type_of v \<noteq> TArray"
      "scalar_valid (limits r) v" "array_size v = 0"
    using v by (auto simp: enc_value_def value_valid_def array_size_def split: gguf_value.splits)
  then show ?thesis using read_scalar_ok [of r v rest] r f by (simp add: read_value_def skip_bytes_def)
next
  case True
  then obtain t vs where a: "v = GArray t vs" by blast
  let ?e = "rd_endianness r" and ?s = "scalars_length (rd_endianness r) vs"
  have t: "t \<noteq> TArray" and vs: "\<forall>x \<in> set vs. value_type_of x = t \<and> scalar_valid (limits r) x"
    using v a by (auto simp: value_valid_def)
  have len: "length (enc_value ?e v) = 12 + ?s" by (simp add: a enc_value_def scalars_length_def)
  have cnt: "length vs < 256 ^ 8" "array_elements r + length vs < u64_limit" "array_elements r + length vs \<le> max_array_elements (limits r)"
    using n a by (simp_all add: array_size_def u64_limit_def)
  have code: "type_code t < 256 ^ 4" by (cases t) simp_all
  have r0: "ready r (enc_uint ?e 4 (type_code t) @ enc_uint ?e 8 (length vs) @ concat (map (enc_scalar ?e) vs) @ rest)"
    using r by (simp add: a enc_value_def)
  have f0: "fits (12 + ?s) r" using f len by simp
  note s1 = read_uint_ok(2) [OF r0 fits_less [OF f0] code refl, of "''array element type''"]
  have s2: "read_u64 ''array element count'' (skip_bytes 4 r) = Inr (length vs, skip_bytes 12 r) \<and>
      ready (skip_bytes 12 r) (concat (map (enc_scalar ?e) vs) @ rest)"
    using read_uint_ok(3) [of "skip_bytes 4 r" 8 "length vs" "concat (map (enc_scalar ?e) vs) @ rest" "''array element count''"] s1 cnt(1) fits_less [OF f0]
    by simp
  obtain m where m: "minimum_element_bytes t = Inr m" using minimum_total [OF t] by blast
  have "length vs * m \<le> ?s" using minimum_scalars [of vs t m] vs t m by blast
  moreover have "metadata_bytes r + (12 + ?s) \<le> max_metadata_bytes (limits r)" "max_metadata_bytes (limits r) < u64_limit"
    using f0 acct r by (auto simp: fits_def ready_def)
  ultimately have bud: "check_array_budget t (length vs) (skip_bytes 12 r) =
      Inr (length vs, (skip_bytes 12 r)\<lparr>array_elements := array_elements r + length vs\<rparr>)"
    using m cnt acct n(2)
    by (simp add: check_array_budget_def checked_add_def checked_mul_def skip_bytes_def)
  let ?r = "(skip_bytes 12 r)\<lparr>array_elements := array_elements r + length vs\<rparr>"
  have "ready ?r (concat (map (enc_scalar (rd_endianness ?r)) vs) @ rest)" using s2 by (simp add: ready_def)
  moreover have "fits (scalars_length (rd_endianness ?r) vs) ?r"
    using f0 acct by (simp add: fits_def skip_bytes_def)
  moreover have "\<forall>v \<in> set vs. value_type_of v = t \<and> scalar_valid (limits ?r) v" using vs by simp
  ultimately have el: "read_elements t (length vs) [] ?r = Inr (vs, skip_bytes ?s ?r) \<and> ready (skip_bytes ?s ?r) rest"
    using read_elements_ok [of ?r vs rest t "[]"] by simp
  have fin: "skip_bytes ?s ?r = (skip_bytes (12 + ?s) r)\<lparr>array_elements := array_elements r + array_size v\<rparr>"
    by (simp add: skip_bytes_def a array_size_def)
  have "ready (skip_bytes (12 + ?s) r) rest" using el by (simp add: ready_def add.assoc)
  then show ?thesis
    using s1 s2 bud el t unfolding len fin by (simp add: read_value_def a)
qed

text \<open>Values nested in the state: the array counter moves, the position and the byte counter do not.\<close>

definition read_state :: "reader \<Rightarrow> nat \<Rightarrow> nat \<Rightarrow> reader" where
  "read_state r n k = (skip_bytes n r)\<lparr>array_elements := array_elements r + k\<rparr>"

lemma read_state_fields [simp]:
  "limits (read_state r n k) = limits r" "rd_endianness (read_state r n k) = rd_endianness r"
  "account_metadata (read_state r n k) = account_metadata r" "array_elements (read_state r n k) = array_elements r + k"
  "contents (read_state r n k) = contents r" "position (read_state r n k) = position r + n"
  by (simp_all add: read_state_def)

lemma read_state_compose [simp]:
  "read_state (read_state r n k) m l = read_state r (n + m) (k + l)"
  "read_state (skip_bytes n r) m l = read_state r (n + m) l"
  "skip_bytes m (read_state r n k) = read_state r (n + m) k"
  by (simp_all add: read_state_def skip_bytes_def add.assoc)

lemma ready_read_state [simp]: "ready (read_state r n k) bs = ready (skip_bytes n r) bs"
  by (simp add: read_state_def ready_def)

lemma fits_read_state [simp]: "fits m (read_state r n k) = fits (n + m) r"
  by (simp add: read_state_def fits_def skip_bytes_def add.assoc)

definition entries_length :: "endianness \<Rightarrow> (string \<times> gguf_value) list \<Rightarrow> nat" where
  "entries_length e kvs = length (concat (map (enc_entry e) kvs))"

definition arrays_size :: "(string \<times> gguf_value) list \<Rightarrow> nat" where
  "arrays_size kvs = sum_list (map (array_size \<circ> snd) kvs)"

lemma enc_entry_pair:
  "enc_entry e (k, v) = enc_string e k @ enc_uint e 4 (type_code (value_type_of v)) @ enc_value e v"
  by (simp add: enc_entry_def)

lemma read_metadata_ok:
  "ready r (concat (map (enc_entry (rd_endianness r)) kvs) @ rest) \<Longrightarrow>
   fits (entries_length (rd_endianness r) kvs) r \<Longrightarrow> account_metadata r \<Longrightarrow>
   \<forall>(k, v) \<in> set kvs. string_valid (limits r) k \<and> value_valid (limits r) v \<Longrightarrow>
   array_elements r + arrays_size kvs \<le> max_array_elements (limits r) \<Longrightarrow> max_array_elements (limits r) < u64_limit \<Longrightarrow>
   distinct (map fst kvs) \<Longrightarrow> keys \<inter> fst ` set kvs = {} \<Longrightarrow>
   read_metadata (length kvs) keys acc r =
     Inr (acc @ kvs, read_state r (entries_length (rd_endianness r) kvs) (arrays_size kvs)) \<and>
   ready (skip_bytes (entries_length (rd_endianness r) kvs) r) rest"
proof (induction kvs arbitrary: keys acc r)
  case Nil
  then show ?case by (simp add: entries_length_def arrays_size_def read_state_def)
next
  case (Cons kv kvs)
  obtain k v where kv: "kv = (k, v)" by fastforce
  let ?e = "rd_endianness r"
  let ?nv = "length (enc_value ?e v)"
  let ?n = "12 + length k + ?nv"
  have n: "entries_length ?e (kv # kvs) = ?n + entries_length ?e kvs"
    by (simp add: entries_length_def enc_entry_def enc_string_def kv)
  have v: "string_valid (limits r) k" "value_valid (limits r) v" using Cons.prems(4) kv by auto
  have sz: "arrays_size (kv # kvs) = array_size v + arrays_size kvs" by (simp add: arrays_size_def kv)
  have fit: "fits m r" if "m \<le> ?n" for m using fits_less [OF Cons.prems(2), of m] that n by simp
  let ?rest = "concat (map (enc_entry ?e) kvs) @ rest"
  have "ready r (enc_string ?e k @ enc_uint ?e 4 (type_code (value_type_of v)) @ enc_value ?e v @ ?rest)"
    using Cons.prems(1) by (simp add: enc_entry_pair kv)
  from read_string_ok [OF this _ v(1), of "''metadata key''"] fit [of "8 + length k"]
  have s1: "read_string ''metadata key'' r = Inr (k, skip_bytes (8 + length k) r) \<and>
      ready (skip_bytes (8 + length k) r) (enc_uint ?e 4 (type_code (value_type_of v)) @ enc_value ?e v @ ?rest)"
    by (simp add: enc_string_def)
  have code: "type_code (value_type_of v) < 256 ^ 4" by (cases "value_type_of v") simp_all
  have s2: "read_u32 ''metadata value type'' (skip_bytes (8 + length k) r) =
        Inr (type_code (value_type_of v), skip_bytes (12 + length k) r) \<and>
      ready (skip_bytes (12 + length k) r) (enc_value ?e v @ ?rest)"
    using read_uint_ok(2) [of "skip_bytes (8 + length k) r" 4 "type_code (value_type_of v)" "enc_value ?e v @ ?rest"
        "''metadata value type''"] s1 code fit [of "12 + length k"] by (simp add: add.commute)
  have s3: "read_value (value_type_of v) (skip_bytes (12 + length k) r) = Inr (v, read_state r ?n (array_size v)) \<and>
      ready (skip_bytes ?n r) ?rest"
    using read_value_ok [of "skip_bytes (12 + length k) r" v ?rest] s2 v(2) Cons.prems(3,5,6) sz fit [of ?n]
    by (simp add: read_state_def)
  have "ready (read_state r ?n (array_size v)) (concat (map (enc_entry (rd_endianness (read_state r ?n (array_size v)))) kvs) @ rest)"
    using s3 by simp
  moreover have "fits (entries_length (rd_endianness (read_state r ?n (array_size v))) kvs) (read_state r ?n (array_size v))"
    using Cons.prems(2) n by simp
  ultimately have s4: "read_metadata (length kvs) (insert k keys) (acc @ [(k, v)]) (read_state r ?n (array_size v)) =
      Inr ((acc @ [(k, v)]) @ kvs, read_state (read_state r ?n (array_size v)) (entries_length ?e kvs) (arrays_size kvs)) \<and>
      ready (skip_bytes (entries_length ?e kvs) (read_state r ?n (array_size v))) rest"
    using Cons.IH [of "read_state r ?n (array_size v)" "insert k keys" "acc @ [(k, v)]"] Cons.prems(3-8) kv sz by auto
  have nk: "k \<notin> keys" using Cons.prems(8) kv by auto
  have res: "reserve kind m (read_state r ?n (array_size v)) = Inr ()" for kind m
    by (rule reserve_ready [of _ ?rest]) (use s3 in simp)
  show ?case
    using s1 s2 s3 s4 nk res n sz by (simp add: kv add.assoc)
qed

section \<open>The tensor directory\<close>

lemma read_dimensions_ok:
  "ready r (concat (map (enc_uint (rd_endianness r) 8) ds) @ rest) \<Longrightarrow> fits (8 * length ds) r \<Longrightarrow>
   \<forall>d \<in> set ds. d < u64_limit \<Longrightarrow>
   read_dimensions (length ds) acc r = Inr (acc @ ds, skip_bytes (8 * length ds) r) \<and> ready (skip_bytes (8 * length ds) r) rest"
proof (induction ds arbitrary: acc r)
  case (Cons d ds)
  have a: "ready r (enc_uint (rd_endianness r) 8 d @ concat (map (enc_uint (rd_endianness r) 8) ds) @ rest)"
    using Cons.prems(1) by simp
  have d: "d < 256 ^ 8" using Cons.prems(3) by (simp add: u64_limit_def)
  have f: "fits 8 r" using Cons.prems(2) by (auto intro: fits_less)
  note hd = read_uint_ok(3) [OF a f d refl, of "''tensor dimension''"]
  then show ?case using Cons.IH [of "skip_bytes 8 r" "acc @ [d]"] Cons.prems(2,3) by simp
qed simp

definition name_bytes :: "endianness \<Rightarrow> tensor_desc list \<Rightarrow> nat" where
  "name_bytes e ts = sum_list (map (\<lambda>t. length (enc_string e (td_name t))) ts)"

definition after_tensors :: "reader \<Rightarrow> tensor_desc list \<Rightarrow> reader" where
  "after_tensors r ts = r\<lparr>account_metadata := False,
     position := position r + length (concat (map (enc_tensor (rd_endianness r)) ts)),
     metadata_bytes := metadata_bytes r + name_bytes (rd_endianness r) ts\<rparr>"

lemma after_tensors_fields [simp]:
  "limits (after_tensors r ts) = limits r" "rd_endianness (after_tensors r ts) = rd_endianness r"
  "account_metadata (after_tensors r ts) = False" "contents (after_tensors r ts) = contents r"
  "grants (after_tensors r ts) = grants r"
  by (simp_all add: after_tensors_def)

lemma after_tensors_Cons [simp]: "after_tensors (after_tensors r [t]) ts = after_tensors r (t # ts)"
  by (simp add: after_tensors_def name_bytes_def)

lemma ready_account [simp]: "ready (r\<lparr>account_metadata := b\<rparr>) bs = ready r bs"
  by (simp add: ready_def)

lemma read_tensor_ok:
  assumes r: "ready r (enc_tensor (rd_endianness r) t @ rest)" and t: "tensor_valid (limits r) t"
    and m: "metadata_bytes r + length (enc_string (rd_endianness r) (td_name t)) \<le> max_metadata_bytes (limits r)"
  shows "read_tensor r = Inr (t, after_tensors r [t]) \<and> ready (after_tensors r [t]) rest"
proof -
  let ?e = "rd_endianness r" and ?name = "td_name t" and ?ds = "shape_of t"
  have new: "tensor_new ?name ?ds (td_ty t) (td_relative_offset t) = Inr t" using t by (simp add: tensor_valid_def)
  have "desc_ok t" by (rule tensor_new_Inr(1) [OF new])
  then have dims: "1 \<le> td_n_dims t" "td_n_dims t \<le> 4" "length ?ds = td_n_dims t"
    by (auto simp: desc_ok_def shape_of_def)
  have valid: "string_valid (limits r) ?name" "td_n_dims t \<le> max_dimensions (limits r)" "\<forall>d \<in> set ?ds. d < u64_limit"
    "td_relative_offset t < 256 ^ 8"
    using t by (simp_all add: tensor_valid_def u64_limit_def)
  let ?rt = "r\<lparr>account_metadata := True\<rparr>" and ?ln = "8 + length ?name"
  let ?rest = "enc_uint ?e 4 (discriminant (td_ty t)) @ enc_uint ?e 8 (td_relative_offset t) @ rest"
  have "ready ?rt (enc_string (rd_endianness ?rt) ?name @ enc_uint ?e 4 (td_n_dims t) @
      concat (map (enc_uint ?e 8) ?ds) @ ?rest)"
    using r by (simp add: enc_tensor_def)
  moreover have "fits ?ln ?rt" using m by (simp add: fits_def enc_string_def)
  ultimately have s1: "read_string ''tensor name'' ?rt = Inr (?name, skip_bytes ?ln ?rt) \<and>
      ready (skip_bytes ?ln ?rt) (enc_uint ?e 4 (td_n_dims t) @ concat (map (enc_uint ?e 8) ?ds) @ ?rest)"
    using read_string_ok [of ?rt ?name _ "''tensor name''"] valid(1) by (simp add: enc_string_def)
  let ?r0 = "(skip_bytes ?ln ?rt)\<lparr>account_metadata := False\<rparr>"
  have fit: "fits n ?r0" for n by (simp add: fits_def)
  have "ready ?r0 (enc_uint (rd_endianness ?r0) 4 (td_n_dims t) @ concat (map (enc_uint ?e 8) ?ds) @ ?rest)"
    using s1 by simp
  from read_uint_ok(2) [OF this fit, of "''tensor dimension count''"] dims(2)
  have s2: "read_u32 ''tensor dimension count'' ?r0 = Inr (td_n_dims t, skip_bytes 4 ?r0) \<and>
      ready (skip_bytes 4 ?r0) (concat (map (enc_uint ?e 8) ?ds) @ ?rest)"
    by simp
  let ?l = "8 * length ?ds"
  have s3: "read_dimensions (td_n_dims t) [] (skip_bytes 4 ?r0) = Inr (?ds, skip_bytes (4 + ?l) ?r0) \<and>
      ready (skip_bytes (4 + ?l) ?r0) ?rest"
    using read_dimensions_ok [of "skip_bytes 4 ?r0" ?ds ?rest "[]"] s2 valid(3) fit dims(3) by simp
  have code: "discriminant (td_ty t) < 256 ^ 4" by (cases "td_ty t") simp_all
  have s4: "read_u32 ''GGML type'' (skip_bytes (4 + ?l) ?r0) = Inr (discriminant (td_ty t), skip_bytes (8 + ?l) ?r0) \<and>
      ready (skip_bytes (8 + ?l) ?r0) (enc_uint ?e 8 (td_relative_offset t) @ rest)"
    using read_uint_ok(2) [of "skip_bytes (4 + ?l) ?r0" 4 "discriminant (td_ty t)"
        "enc_uint ?e 8 (td_relative_offset t) @ rest" "''GGML type''"] s3 code fit by simp
  have s5: "read_u64 ''tensor payload offset'' (skip_bytes (8 + ?l) ?r0) =
        Inr (td_relative_offset t, skip_bytes (16 + ?l) ?r0) \<and> ready (skip_bytes (16 + ?l) ?r0) rest"
    using read_uint_ok(3) [of "skip_bytes (8 + ?l) ?r0" 8 "td_relative_offset t" rest "''tensor payload offset''"]
      s4 valid(4) fit by simp
  have fin: "skip_bytes (16 + ?l) ?r0 = after_tensors r [t]"
  proof -
    have "length (enc_tensor ?e t) = ?ln + 16 + ?l"
      by (simp add: enc_tensor_def enc_string_def length_concat comp_def sum_list_triv)
    then show ?thesis by (simp add: after_tensors_def skip_bytes_def name_bytes_def enc_string_def)
  qed
  have res: "reserve kind n (skip_bytes 4 ?r0) = Inr ()" "reserve kind n (after_tensors r [t]) = Inr ()" for kind n
    using reserve_ready [OF conjunct2 [OF s2]] reserve_ready [OF conjunct2 [OF s5]] fin by simp_all
  have "from_discriminant (discriminant (td_ty t)) = Inr (td_ty t)" by (simp add: from_discriminant_Inr)
  then have "read_tensor r = Inr (t, after_tensors r [t])"
    using s1 s2 s3 s4 s5 res dims valid(2) new unfolding fin
    by (simp add: read_tensor_def GGML_MAX_DIMENSIONS_def del: skip_skip)
  then show ?thesis using s5 fin by simp
qed

lemma read_tensors_ok:
  "ready r (concat (map (enc_tensor (rd_endianness r)) ts) @ rest) \<Longrightarrow> \<forall>t \<in> set ts. tensor_valid (limits r) t \<Longrightarrow>
   metadata_bytes r + name_bytes (rd_endianness r) ts \<le> max_metadata_bytes (limits r) \<Longrightarrow> ts \<noteq> [] \<or> \<not> account_metadata r \<Longrightarrow>
   read_tensors (length ts) acc r = Inr (acc @ ts, after_tensors r ts) \<and> ready (after_tensors r ts) rest"
proof (induction ts arbitrary: acc r)
  case Nil
  then show ?case by (simp add: after_tensors_def name_bytes_def)
next
  case (Cons t ts)
  let ?r = "after_tensors r [t]"
  have "ready r (enc_tensor (rd_endianness r) t @ concat (map (enc_tensor (rd_endianness r)) ts) @ rest)"
    using Cons.prems(1) by simp
  from read_tensor_ok [OF this] Cons.prems(2,3)
  have s1: "read_tensor r = Inr (t, ?r) \<and> ready ?r (concat (map (enc_tensor (rd_endianness ?r)) ts) @ rest)"
    by (simp add: name_bytes_def)
  have "metadata_bytes ?r + name_bytes (rd_endianness ?r) ts \<le> max_metadata_bytes (limits ?r)"
    using Cons.prems(3) by (simp add: after_tensors_def name_bytes_def)
  with s1 Cons.IH [of ?r "acc @ [t]"] Cons.prems(2) show ?case by simp
qed

section \<open>The payload section\<close>

lemma laid_out_mono: "laid_out al ts start end \<Longrightarrow> start \<le> end"
proof (induction ts arbitrary: start)
  case (Cons t ts)
  then have "start + pad_to al (payload_of t) \<le> end" by simp
  then show ?case by simp
qed simp

lemma check_extents_ok:
  assumes "laid_out al ts start extent" "\<forall>t \<in> set ts. desc_ok t" "is_power_of_two al" "al < u64_limit"
    and "offset + extent \<le> len" "len + al \<le> u64_limit"
  shows "check_extents al offset len ts start = Inr extent"
  using assms(1,2)
proof (induction ts arbitrary: start)
  case (Cons t ts)
  let ?n = "payload_of t"
  have al: "0 < al" by (rule is_power_of_two_pos [OF assms(3)])
  have le: "start + pad_to al ?n \<le> extent" using Cons.prems(1) laid_out_mono by auto
  have n: "?n \<le> pad_to al ?n" unfolding pad_to_def by (rule round_up_least(1) [OF al])
  have "?n < u64_limit" using n le al assms(5,6) by linarith
  then have enc: "encoded_bytes t = Inr ?n"
    using encoded_bytes_complete [of t] Cons.prems(2) by (simp add: payload_of_def)
  have up: "round_up ?n al = Some (pad_to al ?n)"
    using n le assms(5,6) al by (simp add: round_up_Some_iff [OF assms(3,4)] pad_to_def)
  have "checked_add start (pad_to al ?n) = Some (start + pad_to al ?n)"
    using le assms(5,6) al by (simp add: checked_add_def)
  moreover have "checked_absolute_range t offset len = Inr (offset + start, offset + start + ?n)"
    using enc n le assms(5,6) al Cons.prems(1) by (simp add: checked_absolute_range_def checked_add_def)
  ultimately show ?case
    using Cons enc up by (simp add: checked_add_def)
qed simp

section \<open>Whole files\<close>

lemma enc_directory_length:
  "length (enc_directory g) = 24 + entries_length (endian g) (metadata g) +
     length (concat (map (enc_tensor (endian g)) (tensors g)))"
  by (simp add: enc_directory_def entries_length_def bytes_of_str_def split: endianness.split)

lemma length_le_entries: "length kvs \<le> entries_length e kvs"
  by (induction kvs) (auto simp: entries_length_def enc_entry_def)

lemma length_le_names: "length ts \<le> name_bytes e ts"
  by (induction ts) (auto simp: name_bytes_def enc_string_def)

lemma select_alignment_power:
  assumes "select_alignment kvs = Inr al" "\<forall>(k, v) \<in> set kvs. value_valid lims v"
  shows "is_power_of_two al \<and> al < u64_limit"
proof (cases "map_of kvs ''general.alignment''")
  case None
  have "is_power_of_two (2 ^ 5)" by (rule is_power_of_two_pow)
  with None assms(1) show ?thesis by (auto simp: select_alignment_def DEFAULT_ALIGNMENT_def u64_limit_def)
next
  case (Some v)
  then have "value_valid lims v" using assms(2) map_of_SomeD by fastforce
  with Some assms(1) show ?thesis
    by (cases v) (auto simp: select_alignment_def value_valid_def u64_limit_def split: if_splits)
qed

lemma gguf_read_ok:
  assumes wf: "well_formed lims g" and len: "length (enc_directory g @ rest) = file_len g"
  shows "gguf_read (with_limits (enc_directory g @ rest) (\<lambda>_ _. True) lims) = Inr g"
proof -
  let ?bytes = "enc_directory g @ rest" and ?e = "endian g"
  let ?r = "with_limits ?bytes (\<lambda>_ _. True) lims"
  let ?kvs = "concat (map (enc_entry ?e) (metadata g))" and ?ts = "concat (map (enc_tensor ?e) (tensors g))"
  have w: "2 \<le> version g" "version g \<le> 3" "max_dimensions lims \<le> 4" "max_metadata_bytes lims < u64_limit"
    "max_array_elements lims < u64_limit" "length (tensors g) \<le> max_tensors lims"
    "length (metadata g) \<le> max_metadata_entries lims" "distinct (map fst (metadata g))"
    "\<forall>(k, v) \<in> set (metadata g). string_valid lims k \<and> value_valid lims v"
    "arrays_size (metadata g) \<le> max_array_elements lims"
    "entries_length ?e (metadata g) + name_bytes ?e (tensors g) \<le> max_metadata_bytes lims"
    "select_alignment (metadata g) = Inr (alignment g)" "\<forall>t \<in> set (tensors g). tensor_valid lims t"
    "data_offset g = pad_to (alignment g) (length (enc_directory g))" "file_len g + alignment g \<le> u64_limit"
    using wf by (simp_all add: well_formed_def arrays_size_def entries_length_def name_bytes_def length_concat comp_def)
  obtain extent where ext: "laid_out (alignment g) (tensors g) 0 extent" "data_offset g + extent \<le> file_len g"
    using wf by (auto simp: well_formed_def)
  let ?magic = "case ?e of Little \<Rightarrow> bytes_of_str ''GGUF'' | Big \<Rightarrow> bytes_of_str ''FUGG''"
  have noacct: "\<not> account_metadata ?r" by (simp add: with_limits_def)
  have fit: "fits n (r\<lparr>account_metadata := False\<rparr>)" "\<not> account_metadata r \<Longrightarrow> fits n r" for n r by (simp_all add: fits_def)
  have r0: "ready ?r (?magic @ enc_uint ?e 4 (version g) @ enc_uint ?e 8 (length (tensors g)) @
      enc_uint ?e 8 (length (metadata g)) @ ?kvs @ ?ts @ rest)"
    using w(4) by (simp add: ready_def with_limits_def enc_directory_def)
  have s0: "read_exact 4 ''magic'' ?r = Inr (?magic, skip_bytes 4 ?r)"
    "ready (skip_bytes 4 ?r) (enc_uint ?e 4 (version g) @ enc_uint ?e 8 (length (tensors g)) @
      enc_uint ?e 8 (length (metadata g)) @ ?kvs @ ?ts @ rest)"
    using read_exact_ok [OF r0, of 4 "''magic''"] fit(2) [OF noacct]
    by (simp_all add: bytes_of_str_def split: endianness.split)
  let ?r1 = "(skip_bytes 4 ?r)\<lparr>rd_endianness := ?e\<rparr>"
  let ?r2 = "skip_bytes 20 ?r1"
  have e1: "rd_endianness ?r1 = ?e" "\<not> account_metadata ?r1" "limits ?r1 = lims" by (simp_all add: with_limits_def)
  have cnt: "length (tensors g) < 256 ^ 8" "length (metadata g) < 256 ^ 8"
    using length_le_entries [of "metadata g" ?e] length_le_names [of "tensors g" ?e] w(4,11) by (simp_all add: u64_limit_def)
  have "ready ?r1 (enc_uint (rd_endianness ?r1) 4 (version g) @ enc_uint ?e 8 (length (tensors g)) @
      enc_uint ?e 8 (length (metadata g)) @ ?kvs @ ?ts @ rest)"
    using s0(2) by (simp add: ready_def)
  from read_uint_ok(2) [OF this fit(2) [OF e1(2)], of "''version''"] w(2)
  have s1: "read_u32 ''version'' ?r1 = Inr (version g, skip_bytes 4 ?r1)"
    "ready (skip_bytes 4 ?r1) (enc_uint ?e 8 (length (tensors g)) @ enc_uint ?e 8 (length (metadata g)) @ ?kvs @ ?ts @ rest)"
    by simp_all
  have s2: "read_u64 ''tensor count'' (skip_bytes 4 ?r1) = Inr (length (tensors g), skip_bytes 12 ?r1)"
    "ready (skip_bytes 12 ?r1) (enc_uint ?e 8 (length (metadata g)) @ ?kvs @ ?ts @ rest)"
    using read_uint_ok(3) [of "skip_bytes 4 ?r1" 8 "length (tensors g)"
        "enc_uint ?e 8 (length (metadata g)) @ ?kvs @ ?ts @ rest" "''tensor count''"] s1(2) cnt(1) fit(2) e1
    by simp_all
  have s3: "read_u64 ''metadata count'' (skip_bytes 12 ?r1) = Inr (length (metadata g), ?r2)"
    "ready ?r2 (?kvs @ ?ts @ rest)"
    using read_uint_ok(3) [of "skip_bytes 12 ?r1" 8 "length (metadata g)" "?kvs @ ?ts @ rest" "''metadata count''"]
      s2(2) cnt(2) fit(2) e1 by simp_all
  have counts: "checked_count (length (tensors g)) (max_tensors lims) ''tensors'' = Inr (length (tensors g))"
    "checked_count (length (metadata g)) (max_metadata_entries lims) ''metadata entries'' = Inr (length (metadata g))"
    using w(6,7) cnt by (simp_all add: checked_count_def u64_limit_def)
  let ?m = "?r2\<lparr>account_metadata := True\<rparr>"
  have mf: "rd_endianness ?m = ?e" "limits ?m = lims" "array_elements ?m = 0" "metadata_bytes ?m = 0" "position ?m = 24"
    "account_metadata ?m"
    by (simp_all add: with_limits_def skip_bytes_def)
  let ?k = "entries_length ?e (metadata g)" and ?z = "arrays_size (metadata g)"
  have s4: "read_metadata (length (metadata g)) {} [] ?m = Inr (metadata g, read_state ?m ?k ?z)"
    "ready (skip_bytes ?k ?m) (?ts @ rest)"
    using read_metadata_ok [of ?m "metadata g" "?ts @ rest" "{}" "[]"] s3(2) w(5,8-11) mf
    by (simp_all add: fits_def)
  let ?t = "(read_state ?m ?k ?z)\<lparr>account_metadata := False\<rparr>"
  have tf: "rd_endianness ?t = ?e" "limits ?t = lims" "metadata_bytes ?t = ?k" "position ?t = 24 + ?k" "contents ?t = ?bytes"
    using mf(1,2,4,5,6) by (simp_all add: read_state_def skip_bytes_def with_limits_def)
  have s5: "read_tensors (length (tensors g)) [] ?t = Inr (tensors g, after_tensors ?t (tensors g))"
    using read_tensors_ok [of ?t "tensors g" rest "[]"] s4(2) w(11,13) tf by simp
  have pos: "position (after_tensors ?t (tensors g)) = length (enc_directory g)"
    using tf(1,4) by (simp add: after_tensors_def enc_directory_length)
  have al: "is_power_of_two (alignment g)" "alignment g < u64_limit"
    using select_alignment_power [OF w(12), of lims] w(9) by auto
  have off: "align_up (length (enc_directory g)) (alignment g) = Inr (data_offset g)"
  proof -
    have "length (enc_directory g) \<le> file_len g" using len by simp
    then have "length (enc_directory g) + (alignment g - 1) < u64_limit"
      using w(15) is_power_of_two_pos [OF al(1)] by linarith
    then show ?thesis by (simp add: align_up_def round_up_Some_iff [OF al] w(14) pad_to_def ok_or_Inr)
  qed
  have desc: "\<forall>t \<in> set (tensors g). desc_ok t" using w(13) tensor_new_Inr(1) by (auto simp: tensor_valid_def)
  have s6: "check_extents (alignment g) (data_offset g) (file_len g) (tensors g) 0 = Inr extent"
    by (rule check_extents_ok [OF ext(1) desc al ext(2) w(15)])
  have fin: "checked_add (data_offset g) extent = Some (data_offset g + extent)"
    using ext(2) w(15) is_power_of_two_pos [OF al(1)] by (simp add: checked_add_def)
  have mg: "(if ?magic = bytes_of_str ''GGUF'' then Inr Little else if ?magic = bytes_of_str ''FUGG'' then Inr Big
      else Inl (BadMagic ?magic)) = (Inr ?e :: gguf_error + endianness)"
    by (cases ?e) (simp_all add: bytes_of_str_def)
  have l2: "limits ?r2 = lims" "limits ?r = lims" by (simp_all add: with_limits_def)
  show ?thesis
    using w(1-3) s0(1) s1(1) s2(1) s3(1) counts s4(1) s5 pos off s6 fin ext(2) len mg l2 tf(5) w(12)
    unfolding gguf_read_def Let_def
    by (simp add: GGML_MAX_DIMENSIONS_def checked_add_def del: skip_skip)
qed

section \<open>Properties\<close>

text \<open>A file with one metadata entry and two tensors, in either byte order.\<close>

definition example_tensor :: "string \<Rightarrow> nat \<Rightarrow> tensor_desc" where
  "example_tensor name off = \<lparr>td_name = name, td_shape = [3, 1, 1, 1], td_n_dims = 1, td_ty = F32,
     td_relative_offset = off, td_strides = [4, 0, 0, 0]\<rparr>"

definition example_file :: "endianness \<Rightarrow> gguf_file" where
  "example_file e = \<lparr>version = 3, endian = e, metadata = [(''general.alignment'', GU32 16)],
     tensors = [example_tensor ''a'' 0, example_tensor ''b'' 16], alignment = 16, data_offset = 128, file_len = 160\<rparr>"

lemma utf8_example: "utf8_valid (bytes_of_str ''general.alignment'')" "utf8_valid (bytes_of_str ''a'')"
  "utf8_valid (bytes_of_str ''b'')"
  by (simp_all add: bytes_of_str_def)

lemma example_tensor_valid:
  "s = ''a'' \<or> s = ''b'' \<Longrightarrow> off < 100 \<Longrightarrow> tensor_valid limits_default (example_tensor s off)"
  using utf8_example
  by (auto simp: tensor_valid_def example_tensor_def string_valid_def limits_default_def GGML_MAX_DIMENSIONS_def
      shape_of_def tensor_new_def compute_strides_def row_size_def checked_mul_def u64_limit_def Let_def numeral_3_eq_3)

lemma example_directory_length: "length (enc_directory (example_file e)) = 123"
  by (cases e) (simp_all add: enc_directory_def example_file_def example_tensor_def bytes_of_str_def enc_entry_def
      enc_tensor_def enc_string_def enc_value_def shape_of_def)

lemma example_laid_out: "laid_out 16 (tensors (example_file e)) 0 32"
  by (simp add: example_file_def example_tensor_def payload_of_def payload_bytes_def shape_of_def row_size_def pad_to_def numeral_2_eq_2)

lemma example_well_formed: "well_formed limits_default (example_file e)"
proof -
  have al: "is_power_of_two 16" using is_power_of_two_pow [of 4] by simp
  have len: "sum_list (map (length \<circ> enc_entry e) (metadata (example_file e))) +
      sum_list (map (\<lambda>t. length (enc_string e (td_name t))) (tensors (example_file e))) = 51"
    by (simp add: example_file_def example_tensor_def enc_entry_def enc_string_def bytes_of_str_def enc_value_def)
  have sel: "select_alignment (metadata (example_file e)) = Inr 16"
    using al by (simp add: select_alignment_def example_file_def)
  have "string_valid limits_default ''general.alignment''"
    using utf8_example by (simp add: string_valid_def limits_default_def u64_limit_def)
  then have meta: "\<forall>(k, v) \<in> set (metadata (example_file e)). string_valid limits_default k \<and> value_valid limits_default v"
    by (simp add: example_file_def value_valid_def)
  have tens: "\<forall>t \<in> set (tensors (example_file e)). tensor_valid limits_default t"
    by (simp add: example_file_def example_tensor_valid)
  have "\<exists>extent. laid_out 16 (tensors (example_file e)) 0 extent \<and> 128 + extent \<le> 160"
    using example_laid_out [of e] by (intro exI [of _ 32]) simp
  then show ?thesis
    unfolding well_formed_def using len sel meta tens example_directory_length [of e]
    by (simp add: example_file_def limits_default_def u64_limit_def GGML_MAX_DIMENSIONS_def array_size_def pad_to_def)
qed

lemma example_read: "gguf_read (with_limits (enc_directory (example_file e) @ replicate 37 0) (\<lambda>_ _. True) limits_default) =
    Inr (example_file e)"
  by (rule gguf_read_ok [OF example_well_formed]) (simp add: example_directory_length, simp add: example_file_def)

text \<open>The layout and the limits hold of the file the reader returns for these bytes.\<close>

lemma gguf_layout_sound_witness:
  "sorted_wrt (\<lambda>s t. td_relative_offset s + payload_of s \<le> td_relative_offset t) (tensors (example_file Little))"
  using gguf_layout_sound [OF example_read [of Little]] by blast

lemma gguf_metadata_bounded_witness: "distinct (map fst (metadata (example_file Little)))"
  using gguf_metadata_bounded [OF example_read [of Little]] by blast

text \<open> C8.
  The reader is complete for the format: any well-formed file, in either byte order and whatever its
  payload bytes are, is accepted within the limits and read back to exactly its contents.
\<close>

theorem gguf_roundtrip:
  assumes "well_formed lims g" "length (enc_directory g @ payload) = file_len g"
  shows "gguf_read (with_limits (enc_directory g @ payload) (\<lambda>_ _. True) lims) = Inr g"
  by (rule gguf_read_ok [OF assms])

lemma gguf_roundtrip_witness:
  "gguf_read (with_limits (enc_directory (example_file Big) @ replicate 37 0) (\<lambda>_ _. True) limits_default) =
     Inr (example_file Big)"
  by (rule gguf_roundtrip [OF example_well_formed]) (simp add: example_directory_length, simp add: example_file_def)

end
