(* ===== verification/Positioned_Io.thy ===== *)
theory Positioned_Io
  imports Prelude
begin

text \<open>
  Bounded positioned reads, \<^verbatim>\<open>crates/bridge-io-windows/src/lib.rs\<close>: opening a file, the range checks
  and the read loop with cancellation. The operating system is an argument: a file handle is a function
  from the time of the call, the offset and the size of the buffer to an error or the bytes it
  delivered, so that short reads, failures and a changing file are all included. The cancellation flag
  is a function of time too. Time advances at each poll of the flag.
\<close>

section \<open>Files, limits and errors\<close>

record read_limits =
  max_request_bytes :: nat

definition read_limits_default :: read_limits where
  "read_limits_default = \<lparr>max_request_bytes = 16 * 1024 * 1024\<rparr>"

type_synonym 'e os_file = "nat \<Rightarrow> nat \<Rightarrow> nat \<Rightarrow> 'e + byte list"

record 'e positioned_file =
  pf_file :: "'e os_file"
  pf_path :: string
  pf_length :: nat
  pf_limits :: read_limits

datatype 'e read_error =
    ReadZeroRequestLimit
  | ReadOpen string 'e
  | ReadMetadata string 'e
  | ReadNotAFile string
  | ReadInvertedRange nat nat
  | ReadRangeOutOfBounds nat nat nat
  | ReadRequestTooLarge nat nat
  | ReadFailed string nat 'e
  | ReadUnexpectedEof string nat nat nat
  | ReadCancelled
  | ReadArithmeticOverflow
  | ReadAllocationFailed nat

section \<open>Operations\<close>

text \<open>\<^verbatim>\<open>open\<close>: the handle and the metadata (a regular file? its length) come from the file system.\<close>

definition positioned_open ::
  "(string \<Rightarrow> 'e + 'e os_file) \<Rightarrow> (string \<Rightarrow> 'e + bool \<times> nat) \<Rightarrow> string \<Rightarrow> read_limits \<Rightarrow>
   'e read_error + 'e positioned_file" where
  "positioned_open fs_open fs_metadata path lims =
     (if max_request_bytes lims = 0 then Inl ReadZeroRequestLimit else
      rbind (map_err (ReadOpen path) (fs_open path)) (\<lambda>handle.
      rbind (map_err (ReadMetadata path) (fs_metadata path)) (\<lambda>(is_file, len).
        if \<not> is_file then Inl (ReadNotAFile path)
        else Inr \<lparr>pf_file = handle, pf_path = path, pf_length = len, pf_limits = lims\<rparr>)))"

definition validate_range :: "'e positioned_file \<Rightarrow> nat \<Rightarrow> nat \<Rightarrow> 'e read_error + nat" where
  "validate_range f s e =
     (if e < s then Inl (ReadInvertedRange s e)
      else if pf_length f < e then Inl (ReadRangeOutOfBounds s e (pf_length f))
      else let len = e - s in
        if max_request_bytes (pf_limits f) < len
        then Inl (ReadRequestTooLarge len (max_request_bytes (pf_limits f)))
        else Inr len)"

text \<open>What a call that delivers \<open>bs\<close> into \<^verbatim>\<open>&mut buf[completed..]\<close> leaves in the buffer.\<close>

definition fill_at :: "byte list \<Rightarrow> nat \<Rightarrow> byte list \<Rightarrow> byte list" where
  "fill_at buf completed bs = take (length buf) (take completed buf @ bs @ drop (completed + length bs) buf)"

lemma length_fill_at [simp]: "completed \<le> length buf \<Longrightarrow> length (fill_at buf completed bs) = length buf"
  by (simp add: fill_at_def)

text \<open>The read loop: the outcome, the buffer and the time after it.\<close>

function read_loop ::
  "'e positioned_file \<Rightarrow> (nat \<Rightarrow> bool) \<Rightarrow> nat \<Rightarrow> nat \<Rightarrow> byte list \<Rightarrow> nat \<Rightarrow>
   ('e read_error + unit) \<times> byte list \<times> nat" where
  "read_loop f cancelled offset completed buf t =
     (if \<not> completed < length buf then (Inr (), buf, t)
      else if cancelled t then (Inl ReadCancelled, buf, Suc t)
      else case checked_add offset completed of
        None \<Rightarrow> (Inl ReadArithmeticOverflow, buf, Suc t)
      | Some current \<Rightarrow>
          (case pf_file f t current (length buf - completed) of
             Inl e \<Rightarrow> (Inl (ReadFailed (pf_path f) current e), buf, Suc t)
           | Inr bs \<Rightarrow>
               if bs = [] then (Inl (ReadUnexpectedEof (pf_path f) offset (length buf) completed), buf, Suc t)
               else case checked_add completed (length bs) of
                 None \<Rightarrow> (Inl ReadArithmeticOverflow, buf, Suc t)
               | Some completed' \<Rightarrow> read_loop f cancelled offset completed' (fill_at buf completed bs) (Suc t)))"
  by pat_completeness auto
termination
  by (relation "measure (\<lambda>(f, cancelled, offset, completed, buf, t). length buf - completed)")
     (auto simp flip: length_greater_0_conv)

declare read_loop.simps [simp del]

definition read_exact_at_into ::
  "'e positioned_file \<Rightarrow> (nat \<Rightarrow> bool) \<Rightarrow> nat \<Rightarrow> byte list \<Rightarrow> nat \<Rightarrow> ('e read_error + unit) \<times> byte list \<times> nat" where
  "read_exact_at_into f cancelled offset buf t =
     (case rbind (ok_or ReadArithmeticOverflow (checked_add offset (length buf))) (\<lambda>end. validate_range f offset end) of
        Inl e \<Rightarrow> (Inl e, buf, t)
      | Inr _ \<Rightarrow>
          if cancelled t then (Inl ReadCancelled, buf, Suc t)
          else read_loop f cancelled offset 0 buf (Suc t))"

definition read_exact_at ::
  "(nat \<Rightarrow> bool) \<Rightarrow> (nat \<Rightarrow> bool) \<Rightarrow> 'e positioned_file \<Rightarrow> nat \<Rightarrow> nat \<Rightarrow> nat \<Rightarrow>
   ('e read_error + byte list) \<times> nat" where
  "read_exact_at grant cancelled f s e t =
     (case validate_range f s e of
        Inl err \<Rightarrow> (Inl err, t)
      | Inr len \<Rightarrow>
          if \<not> grant len then (Inl (ReadAllocationFailed len), t)
          else case read_exact_at_into f cancelled s (replicate len 0) t of
                 (Inl err, _, t') \<Rightarrow> (Inl err, t')
               | (Inr _, buf, t') \<Rightarrow> (Inr buf, t'))"

lemma read_loop_stop:
  "\<not> completed < length buf \<Longrightarrow> read_loop f cancelled offset completed buf t = (Inr (), buf, t)"
  "completed < length buf \<Longrightarrow> cancelled t \<Longrightarrow>
     read_loop f cancelled offset completed buf t = (Inl ReadCancelled, buf, Suc t)"
  "completed < length buf \<Longrightarrow> \<not> cancelled t \<Longrightarrow> u64_limit \<le> offset + completed \<Longrightarrow>
     read_loop f cancelled offset completed buf t = (Inl ReadArithmeticOverflow, buf, Suc t)"
  by (simp_all add: read_loop.simps [of f cancelled offset completed] checked_add_def)

lemma read_loop_step:
  assumes "completed < length buf" "\<not> cancelled t" "offset + completed < u64_limit"
  shows "read_loop f cancelled offset completed buf t =
    (case pf_file f t (offset + completed) (length buf - completed) of
       Inl e \<Rightarrow> (Inl (ReadFailed (pf_path f) (offset + completed) e), buf, Suc t)
     | Inr bs \<Rightarrow>
         if bs = [] then (Inl (ReadUnexpectedEof (pf_path f) offset (length buf) completed), buf, Suc t)
         else if u64_limit \<le> completed + length bs then (Inl ReadArithmeticOverflow, buf, Suc t)
         else read_loop f cancelled offset (completed + length bs) (fill_at buf completed bs) (Suc t))"
  using assms by (simp add: read_loop.simps [of _ _ _ completed] checked_add_def split: sum.split)

section \<open>Reads of a file that does not change\<close>

text \<open>
  The documented behaviour of a positioned read on a file with the contents \<open>data\<close>: at most the buffer
  is filled, with the bytes at the offset, and nothing is delivered only at the end of the file.
\<close>

definition faithful :: "'e positioned_file \<Rightarrow> byte list \<Rightarrow> bool" where
  "faithful f data \<longleftrightarrow> pf_length f = length data \<and> length data < u64_limit \<and>
     (\<forall>t off n bs. pf_file f t off n = Inr bs \<longrightarrow>
        length bs \<le> n \<and> bs = take (length bs) (drop off data) \<and> (bs = [] \<longrightarrow> n = 0 \<or> length data \<le> off))"

lemma faithful_call:
  assumes "faithful f data" "pf_file f t off n = Inr bs"
  shows "length bs \<le> n" "bs = take (length bs) (drop off data)" "bs = [] \<Longrightarrow> n = 0 \<or> length data \<le> off"
  using assms unfolding faithful_def by blast+

lemma validate_range_Inr:
  "validate_range f s e = Inr len \<longleftrightarrow>
   s \<le> e \<and> e \<le> pf_length f \<and> len = e - s \<and> len \<le> max_request_bytes (pf_limits f)"
  by (auto simp: validate_range_def Let_def)

lemma fill_at_extends:
  assumes "take completed buf = take completed window" "completed + length bs \<le> length buf"
    and "bs = take (length bs) (drop completed window)"
  shows "take (completed + length bs) (fill_at buf completed bs) = take (completed + length bs) window"
proof -
  have "take (completed + length bs) (fill_at buf completed bs) = take completed buf @ bs"
    using assms(2) by (cases bs) (simp_all add: fill_at_def min_def)
  also have "\<dots> = take completed window @ take (length bs) (drop completed window)"
    using assms(1,3) by simp
  also have "\<dots> = take (completed + length bs) window" by (simp add: take_add)
  finally show ?thesis .
qed

text \<open>How a read of an unchanging file may fail.\<close>

definition interrupted :: "'e positioned_file \<Rightarrow> (nat \<Rightarrow> bool) \<Rightarrow> nat \<Rightarrow> nat \<Rightarrow> nat \<Rightarrow> 'e read_error \<Rightarrow> bool" where
  "interrupted f cancelled s e t err \<longleftrightarrow>
     err = ReadCancelled \<and> (\<exists>u \<ge> t. cancelled u) \<or>
     (\<exists>u off n x. err = ReadFailed (pf_path f) off x \<and> s \<le> off \<and> off + n = e \<and> 0 < n \<and> pf_file f u off n = Inl x)"

lemma interrupted_later: "interrupted f cancelled s e (Suc t) err \<Longrightarrow> interrupted f cancelled s e t err"
  unfolding interrupted_def using Suc_leD by blast

lemma read_loop_faithful:
  assumes "faithful f data" "offset + length buf \<le> length data" "completed \<le> length buf"
    and "take completed buf = take completed (drop offset data)"
    and "read_loop f cancelled offset completed buf t = (r, out, t')"
  shows "(\<forall>err. r = Inl err \<longrightarrow> interrupted f cancelled offset (offset + length buf) t err) \<and>
    (r = Inr () \<longrightarrow> out = take (length buf) (drop offset data))"
  using assms
proof (induction f cancelled offset completed buf t rule: read_loop.induct)
  case (1 f cancelled offset completed buf t)
  note f = faithful_call [OF 1(2)]
  let ?window = "drop offset data"
  show ?case
  proof (cases "completed < length buf")
    case False
    then show ?thesis using 1(4-6) by (auto simp: read_loop.simps)
  next
    case more: True
    show ?thesis
    proof (cases "cancelled t")
      case True
      then show ?thesis using more 1(6) by (auto simp: read_loop.simps interrupted_def)
    next
      case go: False
      have small: "length data < u64_limit" using 1(2) by (simp add: faithful_def)
      have cur: "checked_add offset completed = Some (offset + completed)"
        using more 1(3) small by (simp add: checked_add_def)
      show ?thesis
      proof (cases "pf_file f t (offset + completed) (length buf - completed)")
        case (Inl x)
        then have "r = Inl (ReadFailed (pf_path f) (offset + completed) x)"
          using read_loop_step [of completed buf cancelled t offset f, OF more go] cur 1(6) Inl by simp
        moreover have "interrupted f cancelled offset (offset + length buf) t (ReadFailed (pf_path f) (offset + completed) x)"
          unfolding interrupted_def
          by (intro disjI2 exI [of _ t] exI [of _ "offset + completed"] exI [of _ "length buf - completed"] exI [of _ x])
             (use Inl more in simp)
        ultimately show ?thesis by simp
      next
        case (Inr bs)
        note bs = f [OF Inr]
        have ne: "bs \<noteq> []" using bs(3) more 1(3) by auto
        have fit: "completed + length bs \<le> length buf" using bs(1) more by simp
        have next': "checked_add completed (length bs) = Some (completed + length bs)"
          using fit 1(3) small by (simp add: checked_add_def)
        have step: "read_loop f cancelled offset (completed + length bs) (fill_at buf completed bs) (Suc t) = (r, out, t')"
          using read_loop_step [of completed buf cancelled t offset f, OF more go] cur 1(6) Inr ne next' by simp
        have len: "length (fill_at buf completed bs) = length buf" using more by simp
        have "take (completed + length bs) (fill_at buf completed bs) = take (completed + length bs) ?window"
          using fill_at_extends [OF 1(5) fit] bs(2) by (simp add: add.commute)
        note ih = 1(1) [OF _ go cur Inr ne next' 1(2) _ _ this step, unfolded len, OF _ 1(3) fit]
        have "(\<forall>err. r = Inl err \<longrightarrow> interrupted f cancelled offset (offset + length buf) (Suc t) err) \<and>
            (r = Inr () \<longrightarrow> out = take (length buf) ?window)" by (rule ih) (use more in blast)
        then show ?thesis using interrupted_later by blast
      qed
    qed
  qed
qed

lemma read_exact_at_faithful:
  assumes "faithful f data" "read_exact_at grant cancelled f s e t = (r, t')"
  shows "(\<forall>bs. r = Inr bs \<longrightarrow> s \<le> e \<and> e \<le> length data \<and> e - s \<le> max_request_bytes (pf_limits f) \<and>
      bs = take (e - s) (drop s data)) \<and>
    (s \<le> e \<and> e \<le> length data \<and> e - s \<le> max_request_bytes (pf_limits f) \<and> grant (e - s) \<longrightarrow>
      (\<forall>err. r = Inl err \<longrightarrow> interrupted f cancelled s e t err))"
proof (cases "validate_range f s e")
  case (Inl err)
  then have "\<not> (s \<le> e \<and> e \<le> length data \<and> e - s \<le> max_request_bytes (pf_limits f))"
    using assms(1) validate_range_Inr [of f s e "e - s"] by (auto simp: faithful_def)
  then show ?thesis using Inl assms(2) by (auto simp: read_exact_at_def)
next
  case (Inr len)
  then have v: "s \<le> e" "e \<le> pf_length f" "len = e - s" "len \<le> max_request_bytes (pf_limits f)"
    by (simp_all add: validate_range_Inr)
  have d: "pf_length f = length data" "length data < u64_limit" using assms(1) by (simp_all add: faithful_def)
  show ?thesis
  proof (cases "grant len \<and> \<not> cancelled t")
    case False
    then show ?thesis
      using Inr v d assms(2)
      by (auto simp: read_exact_at_def read_exact_at_into_def checked_add_def interrupted_def split: if_splits)
  next
    case True
    obtain r1 out t1 where loop: "read_loop f cancelled s 0 (replicate len 0) (Suc t) = (r1, out, t1)"
      by (metis prod_cases3)
    have "read_exact_at_into f cancelled s (replicate len 0) t = (r1, out, t1)"
      using True Inr v d loop by (simp add: read_exact_at_into_def checked_add_def)
    then have r: "r = (case r1 of Inl err \<Rightarrow> Inl err | Inr _ \<Rightarrow> Inr out)"
      using True Inr assms(2) by (auto simp: read_exact_at_def split: sum.splits)
    have "(\<forall>err. r1 = Inl err \<longrightarrow> interrupted f cancelled s e (Suc t) err) \<and>
        (r1 = Inr () \<longrightarrow> out = take len (drop s data))"
      using read_loop_faithful [OF assms(1) _ _ _ loop] v d by simp
    then show ?thesis using r v d interrupted_later by (auto split: sum.splits)
  qed
qed

section \<open>The interface of a source of byte ranges\<close>

text \<open>
  What the sidecar relies on: a read of a range that succeeds delivers that range of the contents.
\<close>

locale range_source =
  fixes read :: "'f \<Rightarrow> nat \<Rightarrow> nat \<Rightarrow> nat \<Rightarrow> ('e + byte list) \<times> nat"
    and backed :: "'f \<Rightarrow> byte list \<Rightarrow> bool"
  assumes read_sound: "backed f data \<Longrightarrow> read f s e t = (Inr bs, t') \<Longrightarrow>
    s \<le> e \<and> e \<le> length data \<and> bs = take (e - s) (drop s data)"
begin

lemma read_length: "backed f data \<Longrightarrow> read f s e t = (Inr bs, t') \<Longrightarrow> length bs = e - s"
  using read_sound [of f data s e t bs t'] by auto

lemma read_part:
  "backed f data \<Longrightarrow> read f s e t = (Inr bs, t') \<Longrightarrow> a + n \<le> e - s \<Longrightarrow>
   take n (drop a bs) = take n (drop (s + a) data)"
  using read_sound [of f data s e t bs t'] by (auto simp: drop_take add.commute min_def)

lemma read_extends:
  "backed f data \<Longrightarrow> read f s e t = (Inr bs, t') \<Longrightarrow> take s data @ bs = take e data"
  using read_sound [of f data s e t bs t'] by (auto simp flip: take_add)

end

interpretation positioned: range_source "read_exact_at grant cancelled" faithful for grant cancelled
  by unfold_locales (use read_exact_at_faithful in blast)

section \<open>Properties\<close>

text \<open>An eight byte file served three bytes at a time.\<close>

definition short_reads :: "byte list \<Rightarrow> unit os_file" where
  "short_reads data = (\<lambda>t off n. Inr (take (min n 3) (drop off data)))"

definition demo_file :: "unit positioned_file" where
  "demo_file = \<lparr>pf_file = short_reads [1, 2, 3, 4, 5, 6, 7, 8], pf_path = ''demo'', pf_length = 8,
     pf_limits = \<lparr>max_request_bytes = 7\<rparr>\<rparr>"

lemma demo_faithful: "faithful demo_file [1, 2, 3, 4, 5, 6, 7, 8]"
  by (auto simp: faithful_def demo_file_def short_reads_def u64_limit_def min_def)

text \<open>
  A positioned read of an unchanging file is exact: if it succeeds it returns the bytes of the range;
  and whatever short reads the system makes, a valid request within the limit whose buffer was granted
  fails only because it was cancelled or the system reported an error inside the range. In particular
  it never reports an unexpected end of file or an overflow.
\<close>

theorem positioned_read_exact:
  assumes "faithful f data" "read_exact_at grant cancelled f s e t = (r, t')"
  shows "(\<forall>bs. r = Inr bs \<longrightarrow> s \<le> e \<and> e \<le> length data \<and> e - s \<le> max_request_bytes (pf_limits f) \<and>
      bs = take (e - s) (drop s data)) \<and>
    (s \<le> e \<and> e \<le> length data \<and> e - s \<le> max_request_bytes (pf_limits f) \<and> grant (e - s) \<longrightarrow>
      (\<forall>err. r = Inl err \<longrightarrow> interrupted f cancelled s e t err))"
  by (rule read_exact_at_faithful [OF assms])

lemma positioned_read_exact_witness:
  "fst (read_exact_at (\<lambda>_. True) (\<lambda>_. False) demo_file 1 8 0) = Inr [2, 3, 4, 5, 6, 7, 8]"
proof (cases "read_exact_at (\<lambda>_. True) (\<lambda>_. False) demo_file 1 8 0")
  case (Pair r t')
  from positioned_read_exact [OF demo_faithful this] Pair show ?thesis
    by (cases r) (simp_all add: interrupted_def demo_file_def short_reads_def)
qed

lemma read_loop_agree:
  assumes "\<And>u off n. s \<le> off \<Longrightarrow> off + n = e \<Longrightarrow> pf_file f u off n = pf_file g u off n" "pf_path f = pf_path g"
    and "offset = s" "offset + length buf = e"
  shows "read_loop f cancelled offset completed buf t = read_loop g cancelled offset completed buf t"
  using assms
proof (induction f cancelled offset completed buf t rule: read_loop.induct)
  case (1 f cancelled offset completed buf t)
  show ?case
  proof (cases "completed < length buf \<and> \<not> cancelled t \<and> offset + completed < u64_limit")
    case False
    then consider "\<not> completed < length buf" | "completed < length buf" "cancelled t"
      | "completed < length buf" "\<not> cancelled t" "u64_limit \<le> offset + completed" by linarith
    then show ?thesis by cases (simp_all add: read_loop_stop)
  next
    case True
    then have same: "pf_file f t (offset + completed) (length buf - completed) = pf_file g t (offset + completed) (length buf - completed)"
      using 1(4,5) by (intro 1(2)) auto
    have cur: "checked_add offset completed = Some (offset + completed)" using True by (simp add: checked_add_def)
    have step: "read_loop f cancelled offset (completed + length bs) (fill_at buf completed bs) (Suc t) =
        read_loop g cancelled offset (completed + length bs) (fill_at buf completed bs) (Suc t)"
      if "pf_file f t (offset + completed) (length buf - completed) = Inr bs" "bs \<noteq> []" "completed + length bs < u64_limit" for bs
    proof -
      have len: "offset + length (fill_at buf completed bs) = e" using True 1(5) by simp
      have next': "checked_add completed (length bs) = Some (completed + length bs)"
        using that(3) by (simp add: checked_add_def)
      show ?thesis by (rule 1(1) [OF _ _ cur that(1,2) next' 1(2,3,4) len]) (use True in blast)+
    qed
    note unroll = read_loop_step [of completed buf cancelled t offset]
    show ?thesis
    proof (cases "pf_file f t (offset + completed) (length buf - completed)")
      case (Inl x)
      then show ?thesis using unroll [of f] unroll [of g] True same 1(3) by simp
    next
      case (Inr bs)
      then have "pf_file g t (offset + completed) (length buf - completed) = Inr bs" using same by simp
      with Inr step [OF Inr] show ?thesis
        by (cases "bs = []"; cases "completed + length bs < u64_limit")
           (simp_all add: unroll [of f] unroll [of g] True 1(3))
    qed
  qed
qed

text \<open>
  A read is confined to its range: the outcome depends on the file only through the calls that start at
  or after the first byte and end exactly at the last one, whatever the system answers; and a range the
  checks refuse is not read at all.
\<close>

theorem read_confined:
  assumes "\<And>u off n. s \<le> off \<Longrightarrow> off + n = e \<Longrightarrow> pf_file f u off n = pf_file g u off n"
    and "pf_path f = pf_path g" "pf_length f = pf_length g" "pf_limits f = pf_limits g"
  shows "read_exact_at grant cancelled f s e t = read_exact_at grant cancelled g s e t"
proof -
  have v: "validate_range f a b = validate_range g a b" for a b
    using assms(3,4) by (simp add: validate_range_def Let_def)
  show ?thesis
  proof (cases "validate_range g s e")
    case (Inl err)
    then show ?thesis by (simp add: read_exact_at_def v)
  next
    case (Inr len)
    then have "s + length (replicate len (0 :: byte)) = e" by (auto simp: validate_range_Inr)
    from read_loop_agree [OF assms(1,2) refl this]
    have "read_exact_at_into f cancelled s (replicate len 0) t = read_exact_at_into g cancelled s (replicate len 0) t"
      by (simp add: read_exact_at_into_def v [abs_def] split: sum.split)
    then show ?thesis by (simp add: read_exact_at_def v Inr)
  qed
qed

lemma read_confined_witness:
  "read_exact_at (\<lambda>_. True) (\<lambda>_. False) demo_file 1 4 0 =
   read_exact_at (\<lambda>_. True) (\<lambda>_. False) (demo_file\<lparr>pf_file := short_reads [9, 2, 3, 4]\<rparr>) 1 4 0"
proof (rule read_confined)
  fix u off n :: nat
  assume "1 \<le> off" "off + n = 4"
  then consider "off = 1 \<and> n = 3" | "off = 2 \<and> n = 2" | "off = 3 \<and> n = 1" | "off = 4 \<and> n = 0" by linarith
  then show "pf_file demo_file u off n = pf_file (demo_file\<lparr>pf_file := short_reads [9, 2, 3, 4]\<rparr>) u off n"
    by cases (simp_all add: demo_file_def short_reads_def)
qed (simp_all add: demo_file_def)

end
