(* ===== verification/Sidecar_Format.thy ===== *)
theory Sidecar_Format
  imports Bytes Positioned_Io
begin

text \<open>
  The expert sidecar, \<^verbatim>\<open>crates/bridge-format/src/lib.rs\<close>: the manifest and its validation, the binary
  header, opening a sidecar, the lookup and the read of an expert and the check of the data digest. JSON
  parsing, the file system and SHA-256 are arguments; positioned reads are those of \<^verbatim>\<open>Positioned_Io\<close>,
  used through its interface \<^verbatim>\<open>range_source\<close>.
\<close>

section \<open>Data\<close>

definition SIDECAR_FORMAT :: string where "SIDECAR_FORMAT = ''lightbridge-expert-sidecar''"
definition SIDECAR_FORMAT_VERSION :: nat where "SIDECAR_FORMAT_VERSION = 1"
definition QUANT_ABI_VERSION :: nat where "QUANT_ABI_VERSION = 1"
definition SIDECAR_HEADER_BYTES :: nat where "SIDECAR_HEADER_BYTES = 64"
definition MAX_MANIFEST_BYTES :: nat where "MAX_MANIFEST_BYTES = 32 * 1024 * 1024"
definition SIDECAR_MAGIC :: "byte list" where "SIDECAR_MAGIC = bytes_of_str ''LIGHTBRIDGE.EXP'' @ [0]"

datatype expert_layout = Sequential | FusedGateUp

datatype expert_key = ExpertKey (key_layer: nat) (key_expert: nat)

text \<open>The derived order: first by layer, then by expert.\<close>

instantiation expert_key :: linorder
begin

definition less_eq_expert_key :: "expert_key \<Rightarrow> expert_key \<Rightarrow> bool" where
  "less_eq_expert_key a b \<longleftrightarrow> key_layer a < key_layer b \<or> key_layer a = key_layer b \<and> key_expert a \<le> key_expert b"

definition less_expert_key :: "expert_key \<Rightarrow> expert_key \<Rightarrow> bool" where
  "less_expert_key a b \<longleftrightarrow> key_layer a < key_layer b \<or> key_layer a = key_layer b \<and> key_expert a < key_expert b"

instance
  by standard (auto simp: less_eq_expert_key_def less_expert_key_def expert_key.expand)

end

record segment =
  sg_offset :: nat
  sg_length :: nat
  sg_ggml_type :: string

record expert_record =
  er_key :: expert_key
  er_offset :: nat
  er_length :: nat
  er_gate :: segment
  er_up :: segment
  er_down :: segment

record source_file_identity =
  sf_ordinal :: nat
  sf_path :: string
  sf_length :: nat
  sf_sha256 :: string

record sidecar_file_identity =
  sd_length :: nat
  sd_sha256 :: string

record sidecar_manifest =
  sm_format :: string
  sm_format_version :: nat
  sm_engine_version :: string
  sm_quant_abi_version :: nat
  sm_alignment :: nat
  sm_layout :: expert_layout
  sm_source_files :: "source_file_identity list"
  sm_tensor_directory_sha256 :: string
  sm_sidecar :: sidecar_file_identity
  sm_records :: "expert_record list"

datatype format_error =
    WrongFormat string
  | WrongVersion nat nat
  | WrongQuantAbi nat nat
  | SidecarInvalidAlignment nat
  | InvalidSha256 string string
  | SidecarTooShort nat
  | NoSourceFiles
  | SourceOrdinal nat nat
  | RecordsNotStrictlyOrdered expert_key
  | UnalignedRecord expert_key nat nat
  | RecordOutOfBounds expert_key nat nat nat nat
  | SegmentOutOfBounds expert_key string
  | OverlappingSegments expert_key
  | UnalignedSegment expert_key
  | InvalidFusedLayout expert_key
  | HeaderLength nat nat
  | SidecarBadMagic
  | NonZeroReservedHeader
  | UnknownLayout nat
  | FormatArithmeticOverflow

primrec layout_code :: "expert_layout \<Rightarrow> nat" where
  "layout_code Sequential = 0"
| "layout_code FusedGateUp = 1"

definition layout_from_code :: "nat \<Rightarrow> format_error + expert_layout" where
  "layout_from_code code =
     (if code = 0 then Inr Sequential else if code = 1 then Inr FusedGateUp else Inl (UnknownLayout code))"

section \<open>Validation of a manifest\<close>

definition segment_range :: "segment \<Rightarrow> format_error + nat \<times> nat" where
  "segment_range g = rbind (ok_or FormatArithmeticOverflow (checked_add (sg_offset g) (sg_length g)))
     (\<lambda>end. Inr (sg_offset g, end))"

definition record_range :: "expert_record \<Rightarrow> format_error + nat \<times> nat" where
  "record_range r = rbind (ok_or FormatArithmeticOverflow (checked_add (er_offset r) (er_length r)))
     (\<lambda>end. Inr (er_offset r, end))"

definition sidecar_align_up :: "nat \<Rightarrow> nat \<Rightarrow> format_error + nat" where
  "sidecar_align_up v al =
     (if al = 0 \<or> \<not> is_power_of_two al then Inl (SidecarInvalidAlignment al)
      else ok_or FormatArithmeticOverflow (round_up v al))"

definition lower_hex :: "char \<Rightarrow> bool" where
  "lower_hex c \<longleftrightarrow> c \<in> set ''0123456789abcdef''"

definition validate_sha256 :: "string \<Rightarrow> string \<Rightarrow> format_error + unit" where
  "validate_sha256 v context = check (length v = 64 \<and> list_all lower_hex v) (InvalidSha256 context v)"

fun check_segments :: "expert_key \<Rightarrow> nat \<times> nat \<Rightarrow> (string \<times> nat \<times> nat) list \<Rightarrow> format_error + unit" where
  "check_segments key bounds [] = Inr ()"
| "check_segments key bounds ((name, start, end) # rest) =
     (if end \<le> start \<or> start < fst bounds \<or> snd bounds < end then Inl (SegmentOutOfBounds key name)
      else check_segments key bounds rest)"

definition validate_record_segments :: "expert_record \<Rightarrow> expert_layout \<Rightarrow> nat \<Rightarrow> format_error + unit" where
  "validate_record_segments r layout al =
     rbind (record_range r) (\<lambda>bounds.
     rbind (segment_range (er_gate r)) (\<lambda>gate.
     rbind (segment_range (er_up r)) (\<lambda>up.
     rbind (segment_range (er_down r)) (\<lambda>down.
     rbind (check_segments (er_key r) bounds [(''gate'', gate), (''up'', up), (''down'', down)]) (\<lambda>_.
     rbind (check (snd gate \<le> fst up \<and> snd up \<le> fst down) (OverlappingSegments (er_key r))) (\<lambda>_.
       case layout of
         Sequential \<Rightarrow>
           check (\<not> list_ex (\<lambda>offset. offset mod al \<noteq> 0) [fst gate, fst up, fst down]) (UnalignedSegment (er_key r))
       | FusedGateUp \<Rightarrow>
           check (\<not> (fst gate \<noteq> er_offset r \<or> fst up \<noteq> snd gate \<or> fst down mod al \<noteq> 0))
             (InvalidFusedLayout (er_key r))))))))"

fun validate_sources :: "nat \<Rightarrow> source_file_identity list \<Rightarrow> format_error + unit" where
  "validate_sources index [] = Inr ()"
| "validate_sources index (source # rest) =
     (if sf_ordinal source \<noteq> index then Inl (SourceOrdinal index (sf_ordinal source))
      else rbind (validate_sha256 (sf_sha256 source) ''source file'') (\<lambda>_. validate_sources (Suc index) rest))"

text \<open>The loop over the records carries the previous key and the end of the previous record.\<close>

fun validate_records ::
  "nat \<Rightarrow> expert_layout \<Rightarrow> nat \<Rightarrow> expert_key option \<Rightarrow> nat \<Rightarrow> expert_record list \<Rightarrow> format_error + unit" where
  "validate_records al layout len previous_key previous_end [] = Inr ()"
| "validate_records al layout len previous_key previous_end (r # rs) =
     (if (case previous_key of None \<Rightarrow> False | Some key \<Rightarrow> er_key r \<le> key) then Inl (RecordsNotStrictlyOrdered (er_key r))
      else if er_offset r mod al \<noteq> 0 then Inl (UnalignedRecord (er_key r) (er_offset r) al)
      else
        rbind (record_range r) (\<lambda>(start, end).
          if start < previous_end \<or> len < end then Inl (RecordOutOfBounds (er_key r) start end previous_end len)
          else rbind (validate_record_segments r layout al) (\<lambda>_.
            validate_records al layout len (Some (er_key r)) end rs)))"

definition manifest_validate :: "sidecar_manifest \<Rightarrow> format_error + unit" where
  "manifest_validate m =
     rbind (check (sm_format m = SIDECAR_FORMAT) (WrongFormat (sm_format m))) (\<lambda>_.
     rbind (check (sm_format_version m = SIDECAR_FORMAT_VERSION)
       (WrongVersion SIDECAR_FORMAT_VERSION (sm_format_version m))) (\<lambda>_.
     rbind (check (sm_quant_abi_version m = QUANT_ABI_VERSION)
       (WrongQuantAbi QUANT_ABI_VERSION (sm_quant_abi_version m))) (\<lambda>_.
     rbind (check (\<not> (sm_alignment m < 32 \<or> \<not> is_power_of_two (sm_alignment m)))
       (SidecarInvalidAlignment (sm_alignment m))) (\<lambda>_.
     rbind (validate_sha256 (sm_tensor_directory_sha256 m) ''tensor directory'') (\<lambda>_.
     rbind (validate_sha256 (sd_sha256 (sm_sidecar m)) ''sidecar'') (\<lambda>_.
     rbind (check (\<not> sd_length (sm_sidecar m) < SIDECAR_HEADER_BYTES) (SidecarTooShort (sd_length (sm_sidecar m)))) (\<lambda>_.
     rbind (check (sm_source_files m \<noteq> []) NoSourceFiles) (\<lambda>_.
     rbind (validate_sources 0 (sm_source_files m)) (\<lambda>_.
     rbind (sidecar_align_up SIDECAR_HEADER_BYTES (sm_alignment m)) (\<lambda>first.
       validate_records (sm_alignment m) (sm_layout m) (sd_length (sm_sidecar m)) None first (sm_records m)))))))))))"

section \<open>Lookup\<close>

text \<open>The search of \<^verbatim>\<open>binary_search_by_key\<close>: the window is halved until one element is left.\<close>

function bsearch :: "('a \<Rightarrow> 'k :: linorder) \<Rightarrow> 'a list \<Rightarrow> 'k \<Rightarrow> nat \<Rightarrow> nat \<Rightarrow> nat" where
  "bsearch key xs k base n =
     (if n \<le> 1 then base
      else let half = n div 2; mid = base + half in
        bsearch key xs k (if k < key (xs ! mid) then base else mid) (n - half))"
  by pat_completeness auto
termination
  by (relation "measure (\<lambda>(key, xs, k, base, n). n)") auto

declare bsearch.simps [simp del]

definition binary_search_by_key :: "('a \<Rightarrow> 'k :: linorder) \<Rightarrow> 'a list \<Rightarrow> 'k \<Rightarrow> nat option" where
  "binary_search_by_key key xs k =
     (if xs = [] then None
      else let base = bsearch key xs k 0 (length xs) in if key (xs ! base) = k then Some base else None)"

definition manifest_record :: "sidecar_manifest \<Rightarrow> expert_key \<Rightarrow> expert_record option" where
  "manifest_record m key =
     Option.bind (binary_search_by_key er_key (sm_records m) key)
       (\<lambda>index. if index < length (sm_records m) then Some (sm_records m ! index) else None)"

section \<open>The binary header\<close>

record sidecar_header =
  sh_format_version :: nat
  sh_layout :: expert_layout
  sh_alignment :: nat
  sh_record_count :: nat

definition header_new :: "expert_layout \<Rightarrow> nat \<Rightarrow> nat \<Rightarrow> sidecar_header" where
  "header_new layout al n =
     \<lparr>sh_format_version = SIDECAR_FORMAT_VERSION, sh_layout = layout, sh_alignment = al, sh_record_count = n\<rparr>"

definition header_encode :: "sidecar_header \<Rightarrow> byte list" where
  "header_encode h = SIDECAR_MAGIC @ u32_to_le (sh_format_version h) @ u32_to_le (layout_code (sh_layout h)) @
     u64_to_le (sh_alignment h) @ u64_to_le (sh_record_count h) @ replicate 24 0"

definition header_decode :: "byte list \<Rightarrow> format_error + sidecar_header" where
  "header_decode bytes =
     (if length bytes \<noteq> SIDECAR_HEADER_BYTES then Inl (HeaderLength SIDECAR_HEADER_BYTES (length bytes))
      else if take 16 bytes \<noteq> SIDECAR_MAGIC then Inl SidecarBadMagic
      else if list_ex (\<lambda>b. b \<noteq> 0) (drop 40 bytes) then Inl NonZeroReservedHeader
      else
        let format_version = of_le_bytes (take 4 (drop 16 bytes));
            layout_code = of_le_bytes (take 4 (drop 20 bytes));
            al = of_le_bytes (take 8 (drop 24 bytes));
            record_count = of_le_bytes (take 8 (drop 32 bytes))
        in rbind (layout_from_code layout_code) (\<lambda>layout.
             Inr \<lparr>sh_format_version = format_version, sh_layout = layout, sh_alignment = al, sh_record_count = record_count\<rparr>))"

section \<open>Opening and reading a sidecar\<close>

datatype ('e, 'j) sidecar_error =
    ManifestIo string 'e
  | ManifestNotAFile string
  | ManifestTooLarge nat nat
  | ManifestJson 'j
  | SidecarFormatError format_error
  | SidecarRead "'e read_error"
  | DataLength nat nat
  | HeaderManifestMismatch
  | MissingExpert expert_key
  | DataHash string string

text \<open>The file system and the JSON parser.\<close>

record ('e, 'j) sidecar_env =
  env_metadata :: "string \<Rightarrow> 'e + bool \<times> nat"
  env_read :: "string \<Rightarrow> 'e + byte list"
  env_open :: "string \<Rightarrow> 'e + 'e os_file"
  env_json :: "byte list \<Rightarrow> 'j + sidecar_manifest"

record 'e sidecar =
  sc_data :: "'e positioned_file"
  sc_manifest :: sidecar_manifest

definition maximum_record :: "sidecar_manifest \<Rightarrow> nat" where
  "maximum_record m = max (foldl max 0 (map er_length (sm_records m))) SIDECAR_HEADER_BYTES"

definition header_matches :: "sidecar_header \<Rightarrow> sidecar_manifest \<Rightarrow> bool" where
  "header_matches h m \<longleftrightarrow> \<not> (sh_format_version h \<noteq> sm_format_version m \<or> sh_layout h \<noteq> sm_layout m \<or>
     sh_alignment h \<noteq> sm_alignment m \<or> sh_record_count h \<noteq> length (sm_records m))"

definition sidecar_open ::
  "('e, 'j) sidecar_env \<Rightarrow> (nat \<Rightarrow> bool) \<Rightarrow> string \<Rightarrow> string \<Rightarrow> nat \<Rightarrow> (('e, 'j) sidecar_error + 'e sidecar)" where
  "sidecar_open env grant data_path manifest_path t =
     rbind (map_err (ManifestIo manifest_path) (env_metadata env manifest_path)) (\<lambda>(is_file, len).
     rbind (check is_file (ManifestNotAFile manifest_path)) (\<lambda>_.
     rbind (check (len \<le> MAX_MANIFEST_BYTES) (ManifestTooLarge len MAX_MANIFEST_BYTES)) (\<lambda>_.
     rbind (map_err (ManifestIo manifest_path) (env_read env manifest_path)) (\<lambda>bytes.
     rbind (map_err ManifestJson (env_json env bytes)) (\<lambda>manifest.
     rbind (map_err SidecarFormatError (manifest_validate manifest)) (\<lambda>_.
     rbind (map_err SidecarRead (positioned_open (env_open env) (env_metadata env) data_path
       \<lparr>max_request_bytes = maximum_record manifest\<rparr>)) (\<lambda>data.
     rbind (check (pf_length data = sd_length (sm_sidecar manifest))
       (DataLength (sd_length (sm_sidecar manifest)) (pf_length data))) (\<lambda>_.
     rbind (map_err SidecarRead (fst (read_exact_at grant (\<lambda>_. False) data 0 SIDECAR_HEADER_BYTES t))) (\<lambda>header_bytes.
     rbind (map_err SidecarFormatError (header_decode header_bytes)) (\<lambda>h.
     rbind (check (header_matches h manifest) HeaderManifestMismatch) (\<lambda>_.
       Inr \<lparr>sc_data = data, sc_manifest = manifest\<rparr>)))))))))))"

definition relative_range :: "expert_record \<Rightarrow> segment \<Rightarrow> format_error + nat \<times> nat" where
  "relative_range r g =
     rbind (ok_or FormatArithmeticOverflow (checked_sub (sg_offset g) (er_offset r))) (\<lambda>start.
     rbind (ok_or FormatArithmeticOverflow (checked_add start (sg_length g))) (\<lambda>end. Inr (start, end)))"

record expert_bytes =
  eb_bytes :: "byte list"
  eb_gate :: "nat \<times> nat"
  eb_up :: "nat \<times> nat"
  eb_down :: "nat \<times> nat"

text \<open>The accessors \<^verbatim>\<open>gate\<close>, \<^verbatim>\<open>up\<close> and \<^verbatim>\<open>down\<close>: indexing a slice by a range, \<open>None\<close> for its panic.\<close>

definition index_range :: "byte list \<Rightarrow> nat \<times> nat \<Rightarrow> byte list option" where
  "index_range bytes r = (if fst r \<le> snd r \<and> snd r \<le> length bytes then Some (take (snd r - fst r) (drop (fst r) bytes)) else None)"

definition expert_gate :: "expert_bytes \<Rightarrow> byte list option" where
  "expert_gate b = index_range (eb_bytes b) (eb_gate b)"

definition expert_up :: "expert_bytes \<Rightarrow> byte list option" where
  "expert_up b = index_range (eb_bytes b) (eb_up b)"

definition expert_down :: "expert_bytes \<Rightarrow> byte list option" where
  "expert_down b = index_range (eb_bytes b) (eb_down b)"

definition read_expert ::
  "(nat \<Rightarrow> bool) \<Rightarrow> (nat \<Rightarrow> bool) \<Rightarrow> 'e sidecar \<Rightarrow> expert_key \<Rightarrow> nat \<Rightarrow> ('e, 'j) sidecar_error + expert_bytes" where
  "read_expert grant cancelled sc key t =
     rbind (ok_or (MissingExpert key) (manifest_record (sc_manifest sc) key)) (\<lambda>record.
     rbind (map_err SidecarFormatError (record_range record)) (\<lambda>(s, e).
     rbind (map_err SidecarRead (fst (read_exact_at grant cancelled (sc_data sc) s e t))) (\<lambda>bytes.
     rbind (map_err SidecarFormatError (relative_range record (er_gate record))) (\<lambda>gate.
     rbind (map_err SidecarFormatError (relative_range record (er_up record))) (\<lambda>up.
     rbind (map_err SidecarFormatError (relative_range record (er_down record))) (\<lambda>down.
       Inr \<lparr>eb_bytes = bytes, eb_gate = gate, eb_up = up, eb_down = down\<rparr>))))))"

section \<open>The data digest\<close>

text \<open>
  The hashing loop. \<open>hashed\<close> is what was passed to \<^verbatim>\<open>update\<close> so far; a chunk size of zero would never
  end, which is \<open>None\<close>.
\<close>

partial_function (option) hash_loop ::
  "(nat \<Rightarrow> bool) \<Rightarrow> (nat \<Rightarrow> bool) \<Rightarrow> 'e positioned_file \<Rightarrow> nat \<Rightarrow> nat \<Rightarrow> byte list \<Rightarrow> nat \<Rightarrow>
   (('e, 'j) sidecar_error + byte list) option" where
  "hash_loop grant cancelled f chunk offset hashed t =
     (if \<not> offset < pf_length f then Some (Inr hashed)
      else let len = min (pf_length f - offset) chunk in
        case checked_add offset len of
          None \<Rightarrow> Some (Inl (SidecarFormatError FormatArithmeticOverflow))
        | Some end \<Rightarrow>
            (case read_exact_at grant cancelled f offset end t of
               (Inl e, t') \<Rightarrow> Some (Inl (SidecarRead e))
             | (Inr bytes, t') \<Rightarrow> hash_loop grant cancelled f chunk end (hashed @ bytes) t'))"

definition hex_digit :: "nat \<Rightarrow> char" where
  "hex_digit n = ''0123456789abcdef'' ! n"

definition lower_hex_of :: "byte list \<Rightarrow> string" where
  "lower_hex_of bs = concat (map (\<lambda>b. [hex_digit (unat b div 16), hex_digit (unat b mod 16)]) bs)"

definition verify_data_hash ::
  "(byte list \<Rightarrow> byte list) \<Rightarrow> (nat \<Rightarrow> bool) \<Rightarrow> (nat \<Rightarrow> bool) \<Rightarrow> 'e sidecar \<Rightarrow> nat \<Rightarrow>
   (('e, 'j) sidecar_error + unit) option" where
  "verify_data_hash sha grant cancelled sc t =
     (let chunk = min (max_request_bytes (pf_limits (sc_data sc))) (8 * 1024 * 1024) in
      map_option (\<lambda>res. rbind res (\<lambda>hashed.
          let actual = lower_hex_of (sha hashed); expected = sd_sha256 (sm_sidecar (sc_manifest sc)) in
          check (actual = expected) (DataHash expected actual)))
        (hash_loop grant cancelled (sc_data sc) chunk 0 [] t))"

section \<open>What a valid manifest promises\<close>

definition er_end :: "expert_record \<Rightarrow> nat" where "er_end r = er_offset r + er_length r"
definition sg_end :: "segment \<Rightarrow> nat" where "sg_end g = sg_offset g + sg_length g"

definition segment_inside :: "expert_record \<Rightarrow> segment \<Rightarrow> bool" where
  "segment_inside r g \<longleftrightarrow> 0 < sg_length g \<and> er_offset r \<le> sg_offset g \<and> sg_end g \<le> er_end r"

definition segments_ok :: "expert_layout \<Rightarrow> nat \<Rightarrow> expert_record \<Rightarrow> bool" where
  "segments_ok layout al r \<longleftrightarrow>
     segment_inside r (er_gate r) \<and> segment_inside r (er_up r) \<and> segment_inside r (er_down r) \<and>
     sg_end (er_gate r) \<le> sg_offset (er_up r) \<and> sg_end (er_up r) \<le> sg_offset (er_down r) \<and>
     al dvd sg_offset (er_down r) \<and>
     (case layout of
        Sequential \<Rightarrow> al dvd sg_offset (er_gate r) \<and> al dvd sg_offset (er_up r)
      | FusedGateUp \<Rightarrow> sg_offset (er_gate r) = er_offset r \<and> sg_offset (er_up r) = sg_end (er_gate r))"

definition layout_ok :: "sidecar_manifest \<Rightarrow> bool" where
  "layout_ok m \<longleftrightarrow>
     (\<forall>r \<in> set (sm_records m). sm_alignment m dvd er_offset r \<and> max 64 (sm_alignment m) \<le> er_offset r \<and>
        er_end r \<le> sd_length (sm_sidecar m) \<and> segments_ok (sm_layout m) (sm_alignment m) r) \<and>
     sorted_wrt (\<lambda>a b. er_key a < er_key b \<and> er_end a \<le> er_offset b) (sm_records m)"

definition identity_ok :: "sidecar_manifest \<Rightarrow> bool" where
  "identity_ok m \<longleftrightarrow> sm_format m = SIDECAR_FORMAT \<and> sm_format_version m = SIDECAR_FORMAT_VERSION \<and>
     sm_quant_abi_version m = QUANT_ABI_VERSION \<and> 32 \<le> sm_alignment m \<and> is_power_of_two (sm_alignment m) \<and>
     64 \<le> sd_length (sm_sidecar m) \<and> sm_source_files m \<noteq> [] \<and>
     map sf_ordinal (sm_source_files m) = [0..<length (sm_source_files m)] \<and>
     (\<forall>v \<in> {sm_tensor_directory_sha256 m, sd_sha256 (sm_sidecar m)} \<union> sf_sha256 ` set (sm_source_files m).
        length v = 64 \<and> list_all lower_hex v)"

lemma record_range_Inr [simp]: "record_range r = Inr se \<longleftrightarrow> er_end r < u64_limit \<and> se = (er_offset r, er_end r)"
  by (auto simp: record_range_def er_end_def rbind_Inr)

lemma segment_range_Inr [simp]: "segment_range g = Inr se \<longleftrightarrow> sg_end g < u64_limit \<and> se = (sg_offset g, sg_end g)"
  by (auto simp: segment_range_def sg_end_def rbind_Inr)

lemma segments_iff:
  assumes "er_end r < u64_limit"
  shows "validate_record_segments r layout al = Inr () \<longleftrightarrow> segments_ok layout al r"
proof
  assume "validate_record_segments r layout al = Inr ()"
  then show "segments_ok layout al r"
    unfolding validate_record_segments_def
    by (elim rbind_InrE, cases layout)
       (auto simp: segments_ok_def segment_inside_def sg_end_def er_end_def mod_eq_0_iff_dvd split: if_splits)
next
  assume ok: "segments_ok layout al r"
  then have "record_range r = Inr (er_offset r, er_end r)" "segment_range (er_gate r) = Inr (sg_offset (er_gate r), sg_end (er_gate r))"
    "segment_range (er_up r) = Inr (sg_offset (er_up r), sg_end (er_up r))"
    "segment_range (er_down r) = Inr (sg_offset (er_down r), sg_end (er_down r))"
    using assms by (auto simp: segments_ok_def segment_inside_def)
  with ok show "validate_record_segments r layout al = Inr ()"
    unfolding validate_record_segments_def
    by (cases layout) (auto simp: segments_ok_def segment_inside_def sg_end_def er_end_def mod_eq_0_iff_dvd simp del: record_range_Inr segment_range_Inr)
qed

lemma sources_iff:
  "validate_sources i sources = Inr () \<longleftrightarrow> map sf_ordinal sources = [i..<i + length sources] \<and>
     (\<forall>s \<in> set sources. length (sf_sha256 s) = 64 \<and> list_all lower_hex (sf_sha256 s))"
proof (induction sources arbitrary: i)
  case (Cons s ss)
  have "[i..<i + length (s # ss)] = i # [Suc i..<Suc i + length ss]" by (simp add: upt_conv_Cons del: upt_Suc)
  then show ?case using Cons.IH [of "Suc i"] by (auto simp: rbind_Inr validate_sha256_def simp del: upt_Suc)
qed simp

lemma records_iff:
  assumes "len < u64_limit"
  shows "validate_records al layout len prev start rs = Inr () \<longleftrightarrow>
    (\<forall>r \<in> set rs. al dvd er_offset r \<and> start \<le> er_offset r \<and> er_end r \<le> len \<and> segments_ok layout al r \<and>
       (case prev of None \<Rightarrow> True | Some k \<Rightarrow> k < er_key r)) \<and>
    sorted_wrt (\<lambda>a b. er_key a < er_key b \<and> er_end a \<le> er_offset b) rs"
proof (induction rs arbitrary: prev start)
  case (Cons r rs)
  have end': "er_offset r \<le> er_end r" by (simp add: er_end_def)
  have "validate_records al layout len prev start (r # rs) = Inr () \<longleftrightarrow>
      (case prev of None \<Rightarrow> True | Some k \<Rightarrow> k < er_key r) \<and> al dvd er_offset r \<and> start \<le> er_offset r \<and>
      er_end r \<le> len \<and> segments_ok layout al r \<and> validate_records al layout len (Some (er_key r)) (er_end r) rs = Inr ()"
    using assms by (cases prev) (auto simp: rbind_Inr not_le mod_eq_0_iff_dvd segments_iff)
  also have "\<dots> \<longleftrightarrow>
    (\<forall>r \<in> set (r # rs). al dvd er_offset r \<and> start \<le> er_offset r \<and> er_end r \<le> len \<and> segments_ok layout al r \<and>
       (case prev of None \<Rightarrow> True | Some k \<Rightarrow> k < er_key r)) \<and>
    sorted_wrt (\<lambda>a b. er_key a < er_key b \<and> er_end a \<le> er_offset b) (r # rs)"
    using end' by (cases prev) (auto simp: Cons.IH intro: order.trans less_trans)
  finally show ?case .
qed simp

lemma first_record_start:
  assumes "is_power_of_two al" "32 \<le> al" "al < u64_limit"
  shows "sidecar_align_up 64 al = Inr (max 64 al)"
proof -
  obtain k where k: "al = 2 ^ k" using assms(1) by (auto simp: is_power_of_two_iff)
  have "k < 64" using assms(3) unfolding k u64_limit_pow by (rule power_less_imp_less_exp [rotated]) simp
  then have "al \<le> 2 ^ 63" unfolding k by (intro power_increasing) auto
  then have small: "64 + (al - 1) < u64_limit" by (simp add: u64_limit_def)
  let ?r = "(64 + (al - 1)) div al * al"
  have al: "0 < al" using assms(2) by simp
  have "5 \<le> k"
  proof (rule ccontr)
    assume "\<not> 5 \<le> k"
    then have "(2 :: nat) ^ k \<le> 2 ^ 4" by (intro power_increasing) auto
    then show False using assms(2) k by simp
  qed
  have dvd: "al dvd max 64 al"
  proof (cases "al \<le> 64")
    case True
    have "k \<le> 6"
    proof (rule ccontr)
      assume "\<not> k \<le> 6"
      then have "(2 :: nat) ^ 7 \<le> 2 ^ k" by (intro power_increasing) auto
      then show False using True k by simp
    qed
    then have "al dvd 2 ^ 6" unfolding k by (rule le_imp_power_dvd)
    then show ?thesis using True by (simp add: max_def)
  qed (simp add: max_def)
  note r = round_up_least [OF al, where v = 64]
  have "0 < ?r" using r(1) by linarith
  then have "al \<le> ?r" by (rule dvd_imp_le [OF r(2)])
  with r(1) have "max 64 al \<le> ?r" by (rule max.boundedI)
  moreover have "?r \<le> max 64 al" by (rule r(4) [OF dvd]) simp
  ultimately have "?r = max 64 al" by (rule antisym [rotated])
  then show ?thesis
    using assms al small by (simp add: sidecar_align_up_def round_up_Some_iff)
qed

lemma manifest_valid_iff:
  assumes "sm_alignment m < u64_limit" "sd_length (sm_sidecar m) < u64_limit"
  shows "manifest_validate m = Inr () \<longleftrightarrow> identity_ok m \<and> layout_ok m"
proof (cases "32 \<le> sm_alignment m \<and> is_power_of_two (sm_alignment m)")
  case True
  then have "sidecar_align_up SIDECAR_HEADER_BYTES (sm_alignment m) = Inr (max 64 (sm_alignment m))"
    using assms(1) by (simp add: first_record_start SIDECAR_HEADER_BYTES_def)
  with True show ?thesis
    unfolding manifest_validate_def
    by (simp add: rbind_Inr records_iff [OF assms(2)] sources_iff validate_sha256_def layout_ok_def identity_ok_def
        SIDECAR_HEADER_BYTES_def not_less conj_ac)
next
  case False
  then show ?thesis by (auto simp: manifest_validate_def rbind_Inr identity_ok_def)
qed

section \<open>Lookup by binary search\<close>

lemma bsearch_finds:
  assumes "sorted_wrt (\<lambda>a b. key a < key b) xs" "key (xs ! i) = k" "base \<le> i" "i < base + n" "base + n \<le> length xs"
  shows "bsearch key xs k base n = i"
  using assms
proof (induction key xs k base n rule: bsearch.induct)
  case (1 key xs k base n)
  show ?case
  proof (cases "n \<le> 1")
    case True
    then show ?thesis using 1(4-6) by (simp add: bsearch.simps)
  next
    case False
    define mid where "mid = base + n div 2"
    have mid: "mid < length xs" using False 1(6) by (simp add: mid_def)
    have "k < key (xs ! mid) \<longleftrightarrow> i < mid"
    proof
      assume "i < mid"
      then show "k < key (xs ! mid)" using sorted_wrt_nth_less [OF 1(2)] mid 1(3) by auto
    next
      assume less: "k < key (xs ! mid)"
      show "i < mid"
      proof (rule ccontr)
        assume "\<not> i < mid"
        then have "mid = i \<or> key (xs ! mid) < key (xs ! i)"
          using sorted_wrt_nth_less [OF 1(2), of mid i] 1(5,6) by (cases "mid = i") auto
        then show False using less 1(3) by auto
      qed
    qed
    then have "bsearch key xs k (if k < key (xs ! mid) then base else mid) (n - n div 2) = i"
      using 1(1) [OF False refl refl] 1(2-6) False by (auto simp: mid_def)
    then show ?thesis
      using False by (cases "k < key (xs ! mid)") (simp_all add: bsearch.simps [of key xs k base n] Let_def flip: mid_def)
  qed
qed

lemma bsearch_bounds: "0 < n \<Longrightarrow> bsearch key xs k base n < base + n"
proof (induction key xs k base n rule: bsearch.induct)
  case (1 key xs k base n)
  show ?case
  proof (cases "n \<le> 1")
    case True
    then show ?thesis using 1(2) by (simp add: bsearch.simps)
  next
    case False
    have "bsearch key xs k (if k < key (xs ! (base + n div 2)) then base else base + n div 2) (n - n div 2) <
        (if k < key (xs ! (base + n div 2)) then base else base + n div 2) + (n - n div 2)"
      using 1(1) [OF False refl refl] False by simp
    also have "\<dots> \<le> base + n" by simp
    finally show ?thesis using False by (simp add: bsearch.simps [of key xs k base n] Let_def)
  qed
qed

lemma binary_search_exact:
  assumes "sorted_wrt (\<lambda>a b. key a < key b) xs"
  shows "binary_search_by_key key xs k = Some i \<longleftrightarrow> i < length xs \<and> key (xs ! i) = k"
    "binary_search_by_key key xs k = None \<longleftrightarrow> k \<notin> key ` set xs"
proof -
  have hit: "bsearch key xs k 0 (length xs) = j" if "j < length xs" "key (xs ! j) = k" for j
    by (rule bsearch_finds [OF assms that(2)]) (use that in auto)
  have bound: "xs \<noteq> [] \<Longrightarrow> bsearch key xs k 0 (length xs) < length xs"
    using bsearch_bounds [of "length xs" key xs k 0] by simp
  show "binary_search_by_key key xs k = Some i \<longleftrightarrow> i < length xs \<and> key (xs ! i) = k"
    using hit [of i] bound by (auto simp: binary_search_by_key_def Let_def)
  show "binary_search_by_key key xs k = None \<longleftrightarrow> k \<notin> key ` set xs"
  proof (cases "xs = []")
    case False
    have "key (xs ! bsearch key xs k 0 (length xs)) = k \<longleftrightarrow> k \<in> key ` set xs"
    proof
      assume "k \<in> key ` set xs"
      then obtain j where "j < length xs" "key (xs ! j) = k" by (auto simp: in_set_conv_nth)
      with hit show "key (xs ! bsearch key xs k 0 (length xs)) = k" by simp
    next
      assume "key (xs ! bsearch key xs k 0 (length xs)) = k"
      then show "k \<in> key ` set xs" using nth_mem [OF bound [OF False]] by (metis imageI)
    qed
    with False show ?thesis by (simp add: binary_search_by_key_def Let_def)
  qed (simp add: binary_search_by_key_def)
qed

lemma record_lookup:
  assumes "layout_ok m"
  shows "manifest_record m k = Some r \<longleftrightarrow> r \<in> set (sm_records m) \<and> er_key r = k"
    "manifest_record m k = None \<longleftrightarrow> k \<notin> er_key ` set (sm_records m)"
proof -
  have sorted: "sorted_wrt (\<lambda>a b. er_key a < er_key b) (sm_records m)"
  proof (rule sorted_wrt_mono_rel)
    show "sorted_wrt (\<lambda>a b. er_key a < er_key b \<and> er_end a \<le> er_offset b) (sm_records m)"
      using assms by (simp add: layout_ok_def)
  qed simp
  note search = binary_search_exact [OF sorted]
  show "manifest_record m k = None \<longleftrightarrow> k \<notin> er_key ` set (sm_records m)"
  proof (cases "binary_search_by_key er_key (sm_records m) k")
    case None
    then show ?thesis using search(2) [of k] by (simp add: manifest_record_def)
  next
    case (Some i)
    then show ?thesis using search(1) [of k i] search(2) [of k] by (simp add: manifest_record_def)
  qed
  show "manifest_record m k = Some r \<longleftrightarrow> r \<in> set (sm_records m) \<and> er_key r = k"
  proof
    assume found: "manifest_record m k = Some r"
    then obtain i where i: "binary_search_by_key er_key (sm_records m) k = Some i" "i < length (sm_records m)" "sm_records m ! i = r"
      by (auto simp: manifest_record_def bind_eq_Some_conv split: if_splits)
    then show "r \<in> set (sm_records m) \<and> er_key r = k" using search(1) [of k i] nth_mem by blast
  next
    assume "r \<in> set (sm_records m) \<and> er_key r = k"
    then obtain i where i: "i < length (sm_records m)" "sm_records m ! i = r" "er_key r = k" by (auto simp: in_set_conv_nth)
    then have "binary_search_by_key er_key (sm_records m) k = Some i" using search(1) [of k i] by blast
    then show "manifest_record m k = Some r" unfolding manifest_record_def using i(1,2) by simp
  qed
qed

section \<open>The header codec\<close>

definition header_ok :: "sidecar_header \<Rightarrow> bool" where
  "header_ok h \<longleftrightarrow> sh_format_version h < 4294967296 \<and> sh_alignment h < u64_limit \<and> sh_record_count h < u64_limit"

lemma layout_from_layout_code: "layout_from_code (layout_code l) = Inr l"
  by (cases l) (simp_all add: layout_from_code_def)

lemma layout_from_code_Inr: "layout_from_code c = Inr l \<Longrightarrow> c = layout_code l"
  by (auto simp: layout_from_code_def split: if_splits)

lemma layout_code_small: "layout_code l < 4294967296"
  by (cases l) simp_all

lemma length_magic: "length SIDECAR_MAGIC = 16"
  by (simp add: SIDECAR_MAGIC_def)

lemma length_header_encode: "length (header_encode h) = 64"
  by (simp add: header_encode_def length_magic)

lemma decode_encode:
  assumes "header_ok h"
  shows "header_decode (header_encode h) = Inr h"
proof -
  let ?e = "header_encode h"
  have parts: "take 16 ?e = SIDECAR_MAGIC" "take 4 (drop 16 ?e) = u32_to_le (sh_format_version h)"
    "take 4 (drop 20 ?e) = u32_to_le (layout_code (sh_layout h))" "take 8 (drop 24 ?e) = u64_to_le (sh_alignment h)"
    "take 8 (drop 32 ?e) = u64_to_le (sh_record_count h)" "drop 40 ?e = replicate 24 0"
    by (simp_all add: header_encode_def length_magic)
  have "\<not> list_ex (\<lambda>b. b \<noteq> 0) (replicate 24 (0 :: byte))" by (simp add: list_ex_iff)
  with assms show ?thesis
    unfolding header_decode_def Let_def length_header_encode parts
    by (simp add: SIDECAR_HEADER_BYTES_def header_ok_def u32_codec.dec_enc u64_codec.dec_enc layout_code_small
        layout_from_layout_code)
qed

lemma encode_decode:
  assumes "header_decode bs = Inr h"
  shows "header_encode h = bs \<and> header_ok h"
proof -
  have len: "length bs = 64" and magic: "take 16 bs = SIDECAR_MAGIC" and zero: "\<not> list_ex (\<lambda>b. b \<noteq> 0) (drop 40 bs)"
    using assms by (auto simp: header_decode_def SIDECAR_HEADER_BYTES_def split: if_splits)
  have h: "sh_format_version h = of_le_bytes (take 4 (drop 16 bs))" "layout_code (sh_layout h) = of_le_bytes (take 4 (drop 20 bs))"
    "sh_alignment h = of_le_bytes (take 8 (drop 24 bs))" "sh_record_count h = of_le_bytes (take 8 (drop 32 bs))"
    using assms layout_from_code_Inr by (auto simp: header_decode_def Let_def rbind_Inr split: if_splits)
  have z: "drop 40 bs = replicate 24 0"
    using zero len by (intro replicate_eqI) (auto simp: list_ex_iff)
  have enc: "u32_to_le (sh_format_version h) = take 4 (drop 16 bs)" "u32_to_le (layout_code (sh_layout h)) = take 4 (drop 20 bs)"
    "u64_to_le (sh_alignment h) = take 8 (drop 24 bs)" "u64_to_le (sh_record_count h) = take 8 (drop 32 bs)"
    unfolding h using len by (simp_all add: u32_codec.enc_dec u64_codec.enc_dec)
  have join: "take n (drop i bs) @ drop (i + n) bs = drop i bs" for i n
    by (metis append_take_drop_id drop_drop add.commute)
  have "header_encode h = take 16 bs @ take 4 (drop 16 bs) @ take 4 (drop 20 bs) @ take 8 (drop 24 bs) @
      take 8 (drop 32 bs) @ drop 40 bs"
    unfolding header_encode_def enc magic z ..
  also have "\<dots> = bs"
    using join [of 8 32] join [of 8 24] join [of 4 20] join [of 4 16] by simp
  finally have "header_encode h = bs" .
  moreover have "header_ok h"
    unfolding header_ok_def h using len by (simp add: u32_codec.dec_valid u64_codec.dec_valid)
  ultimately show ?thesis by simp
qed

section \<open>Reading through an opened sidecar\<close>

definition sidecar_ok :: "'e sidecar \<Rightarrow> byte list \<Rightarrow> bool" where
  "sidecar_ok sc data \<longleftrightarrow> manifest_validate (sc_manifest sc) = Inr () \<and> faithful (sc_data sc) data \<and>
     pf_length (sc_data sc) = sd_length (sm_sidecar (sc_manifest sc)) \<and>
     64 \<le> max_request_bytes (pf_limits (sc_data sc)) \<and>
     (\<forall>r \<in> set (sm_records (sc_manifest sc)). er_length r \<le> max_request_bytes (pf_limits (sc_data sc)))"

lemma valid_alignment: "manifest_validate m = Inr () \<Longrightarrow> sm_alignment m < u64_limit"
  unfolding manifest_validate_def
  by (elim rbind_InrE) (auto simp: sidecar_align_up_def round_up_def SIDECAR_HEADER_BYTES_def split: if_splits)

lemma sidecar_ok_layout:
  assumes "sidecar_ok sc data"
  shows "layout_ok (sc_manifest sc)" "sd_length (sm_sidecar (sc_manifest sc)) = length data" "length data < u64_limit"
proof -
  show d: "sd_length (sm_sidecar (sc_manifest sc)) = length data" "length data < u64_limit"
    using assms by (auto simp: sidecar_ok_def faithful_def)
  show "layout_ok (sc_manifest sc)"
    using assms manifest_valid_iff [OF valid_alignment] d by (auto simp: sidecar_ok_def)
qed

lemma relative_range_exact:
  assumes "segment_inside r g" "er_end r < u64_limit"
  shows "relative_range r g = Inr (sg_offset g - er_offset r, sg_end g - er_offset r)"
  using assms by (auto simp: relative_range_def segment_inside_def sg_end_def checked_add_def checked_sub_def)

text \<open>Here the sidecar uses the interface of the positioned reads only.\<close>

lemma index_part:
  assumes "faithful f data" "read_exact_at grant cancelled f (er_offset r) (er_end r) t = (Inr bs, t')" "segment_inside r g"
  shows "index_range bs (sg_offset g - er_offset r, sg_end g - er_offset r) = Some (take (sg_length g) (drop (sg_offset g) data))"
proof -
  have "length bs = er_end r - er_offset r" by (rule positioned.read_length [OF assms(1,2)])
  moreover have "take (sg_length g) (drop (sg_offset g - er_offset r) bs) = take (sg_length g) (drop (sg_offset g) data)"
    using positioned.read_part [OF assms(1,2), of "sg_offset g - er_offset r" "sg_length g"] assms(3)
    by (auto simp: segment_inside_def sg_end_def)
  ultimately show ?thesis
    using assms(3) by (auto simp: index_range_def segment_inside_def sg_end_def)
qed

lemma read_expert_effect:
  fixes out :: "('e, 'j) sidecar_error + expert_bytes"
  assumes "sidecar_ok sc data" "r \<in> set (sm_records (sc_manifest sc))" "er_key r = key"
    and "read_exact_at grant cancelled (sc_data sc) (er_offset r) (er_end r) t = (res, t')"
    and "read_expert grant cancelled sc key t = out"
  shows "(\<forall>err. res = Inl err \<longrightarrow> out = Inl (SidecarRead err)) \<and>
    (\<forall>bs. res = Inr bs \<longrightarrow> (\<exists>b. out = Inr b \<and>
      eb_bytes b = take (er_length r) (drop (er_offset r) data) \<and>
      expert_gate b = Some (take (sg_length (er_gate r)) (drop (sg_offset (er_gate r)) data)) \<and>
      expert_up b = Some (take (sg_length (er_up r)) (drop (sg_offset (er_up r)) data)) \<and>
      expert_down b = Some (take (sg_length (er_down r)) (drop (sg_offset (er_down r)) data))))"
proof -
  note lay = sidecar_ok_layout [OF assms(1)]
  have found: "manifest_record (sc_manifest sc) key = Some r"
    using record_lookup(1) [OF lay(1)] assms(2,3) by blast
  have ok: "er_end r < u64_limit" "segments_ok (sm_layout (sc_manifest sc)) (sm_alignment (sc_manifest sc)) r"
    using lay assms(2) by (auto simp: layout_ok_def)
  then have segs: "segment_inside r (er_gate r)" "segment_inside r (er_up r)" "segment_inside r (er_down r)"
    by (simp_all add: segments_ok_def)
  have range: "record_range r = Inr (er_offset r, er_end r)" using ok(1) by simp
  note rel = segs [THEN relative_range_exact, OF ok(1)]
  have backed: "faithful (sc_data sc) data" using assms(1) by (simp add: sidecar_ok_def)
  show ?thesis
  proof (cases res)
    case (Inl err)
    then show ?thesis using assms(4,5) found range by (auto simp add: read_expert_def simp del: record_range_Inr)
  next
    case (Inr bs)
    note rd = assms(4) [unfolded Inr]
    have "bs = take (er_length r) (drop (er_offset r) data)"
      using positioned.read_sound [OF backed rd] by (simp add: er_end_def)
    then show ?thesis
      using rd found range rel segs [THEN index_part [OF backed rd]] Inr assms(5)
      by (auto simp add: read_expert_def expert_gate_def expert_up_def expert_down_def simp del: record_range_Inr)
  qed
qed

lemma hash_loop_exact:
  fixes f :: "'e positioned_file"
  assumes "faithful f data" "0 < chunk" "chunk \<le> max_request_bytes (pf_limits f)" "offset \<le> length data"
  shows "\<exists>res :: ('e, 'j) sidecar_error + byte list.
    hash_loop grant cancelled f chunk offset (take offset data) t = Some res \<and>
    (case res of Inr hashed \<Rightarrow> hashed = data
     | Inl err \<Rightarrow> \<exists>e. err = SidecarRead e \<and>
         ((\<forall>n. grant n) \<longrightarrow> (\<exists>s e' u. interrupted f cancelled s e' u e)))"
  using assms(4)
proof (induction "length data - offset" arbitrary: offset t rule: less_induct)
  case less
  let ?loop = "hash_loop grant cancelled f chunk :: nat \<Rightarrow> byte list \<Rightarrow> nat \<Rightarrow> (('e, 'j) sidecar_error + byte list) option"
  have len: "pf_length f = length data" "length data < u64_limit" using assms(1) by (auto simp: faithful_def)
  show ?case
  proof (cases "offset < length data")
    case False
    then have "?loop offset (take offset data) t = Some (Inr data)"
      using less.prems len by (subst hash_loop.simps) simp
    then show ?thesis by simp
  next
    case True
    define k where "k = min (length data - offset) chunk"
    have k: "0 < k" "offset + k \<le> length data" "k \<le> chunk" using True assms(2) by (auto simp: k_def)
    have add: "offset + k < u64_limit" using k len by simp
    obtain r t' where rd: "read_exact_at grant cancelled f offset (offset + k) t = (r, t')" by fastforce
    show ?thesis
    proof (cases r)
      case (Inl e)
      have "?loop offset (take offset data) t = Some (Inl (SidecarRead e))"
        using True len add rd Inl by (simp add: checked_add_def hash_loop.simps [of _ _ _ _ offset] Let_def flip: k_def)
      moreover have "(\<forall>n. grant n) \<longrightarrow> interrupted f cancelled offset (offset + k) t e"
        using read_exact_at_faithful [OF assms(1) rd] Inl k assms(3) by auto
      ultimately show ?thesis by auto
    next
      case (Inr bs)
      have "take offset data @ bs = take (offset + k) data"
        using positioned.read_extends [OF assms(1) rd [unfolded Inr]] .
      then have "?loop offset (take offset data) t =
          ?loop (offset + k) (take (offset + k) data) t'"
        using True len add rd Inr by (simp add: checked_add_def hash_loop.simps [of _ _ _ _ offset] Let_def flip: k_def)
      then show ?thesis using less.hyps [of "offset + k" t'] k True by simp
    qed
  qed
qed

lemma foldl_max_bound: "a \<le> foldl max a xs" "x \<in> set xs \<Longrightarrow> x \<le> foldl max (a :: nat) xs"
proof (induction xs arbitrary: a)
  case (Cons y ys)
  {
    case 1
    show ?case using Cons.IH(1) [of "max a y"] by simp
  next
    case 2
    then show ?case using Cons.IH(1) [of "max a y"] Cons.IH(2) [of "max a y"] by auto
  }
qed simp_all

lemma open_facts:
  assumes "sidecar_open env grant data_path manifest_path t = Inr sc" "faithful (sc_data sc) data"
  shows "sidecar_ok sc data \<and> (\<exists>h. data = header_encode h @ drop 64 data \<and> header_matches h (sc_manifest sc))"
proof -
  obtain bytes h hb where m: "manifest_validate (sc_manifest sc) = Inr ()"
    and d: "positioned_open (env_open env) (env_metadata env) data_path \<lparr>max_request_bytes = maximum_record (sc_manifest sc)\<rparr> = Inr (sc_data sc)"
    and len: "pf_length (sc_data sc) = sd_length (sm_sidecar (sc_manifest sc))"
    and rd: "fst (read_exact_at grant (\<lambda>_. False) (sc_data sc) 0 SIDECAR_HEADER_BYTES t) = Inr hb"
    and h: "header_decode hb = Inr h" "header_matches h (sc_manifest sc)"
    using assms(1) unfolding sidecar_open_def by (elim result_InrE) (auto simp: rbind_Inr)
  have lim: "pf_limits (sc_data sc) = \<lparr>max_request_bytes = maximum_record (sc_manifest sc)\<rparr>"
    using d by (auto simp: positioned_open_def rbind_Inr split: if_splits dest!: sym [of _ "sc_data sc"])
  have "er_length r \<le> maximum_record (sc_manifest sc)" if "r \<in> set (sm_records (sc_manifest sc))" for r
    unfolding maximum_record_def
    using foldl_max_bound(2) [of "er_length r" "map er_length (sm_records (sc_manifest sc))" 0] that by simp
  then have ok: "sidecar_ok sc data"
    using m assms(2) len lim by (simp add: sidecar_ok_def maximum_record_def SIDECAR_HEADER_BYTES_def)
  obtain t' where "read_exact_at grant (\<lambda>_. False) (sc_data sc) 0 SIDECAR_HEADER_BYTES t = (Inr hb, t')"
    using rd by (metis prod.collapse)
  from positioned.read_sound [OF assms(2) this] have "hb = take 64 data" by (simp add: SIDECAR_HEADER_BYTES_def)
  with encode_decode [OF h(1)] have "header_encode h = take 64 data" by simp
  then have "data = header_encode h @ drop 64 data" by (simp only: append_take_drop_id)
  with ok h(2) show ?thesis by blast
qed

section \<open>Examples\<close>

definition demo_record :: expert_record where
  "demo_record = \<lparr>er_key = ExpertKey 0 3, er_offset = 64, er_length = 96,
     er_gate = \<lparr>sg_offset = 64, sg_length = 8, sg_ggml_type = ''F32''\<rparr>,
     er_up = \<lparr>sg_offset = 96, sg_length = 8, sg_ggml_type = ''F32''\<rparr>,
     er_down = \<lparr>sg_offset = 128, sg_length = 8, sg_ggml_type = ''F32''\<rparr>\<rparr>"

definition demo_manifest :: sidecar_manifest where
  "demo_manifest = \<lparr>sm_format = SIDECAR_FORMAT, sm_format_version = 1, sm_engine_version = ''0'', sm_quant_abi_version = 1,
     sm_alignment = 32, sm_layout = Sequential,
     sm_source_files = [\<lparr>sf_ordinal = 0, sf_path = ''a'', sf_length = 1, sf_sha256 = replicate 64 (CHR ''0'')\<rparr>],
     sm_tensor_directory_sha256 = replicate 64 (CHR ''0''),
     sm_sidecar = \<lparr>sd_length = 160, sd_sha256 = replicate 64 (CHR ''0'')\<rparr>, sm_records = [demo_record]\<rparr>"

definition demo_header :: sidecar_header where
  "demo_header = header_new Sequential 32 1"

definition demo_data :: "byte list" where
  "demo_data = header_encode demo_header @ replicate 96 7"

definition demo_sidecar :: "unit sidecar" where
  "demo_sidecar = \<lparr>sc_data = \<lparr>pf_file = short_reads demo_data, pf_path = ''d'', pf_length = 160,
      pf_limits = \<lparr>max_request_bytes = 96\<rparr>\<rparr>, sc_manifest = demo_manifest\<rparr>"

lemma demo_layout: "identity_ok demo_manifest \<and> layout_ok demo_manifest"
  by (simp add: identity_ok_def layout_ok_def demo_manifest_def demo_record_def segments_ok_def segment_inside_def
      sg_end_def er_end_def lower_hex_def is_power_of_two_pow [of 5, simplified] SIDECAR_FORMAT_VERSION_def QUANT_ABI_VERSION_def
      list_all_iff)

lemma demo_valid: "manifest_validate demo_manifest = Inr ()"
  using demo_layout manifest_valid_iff [of demo_manifest] by (simp add: demo_manifest_def u64_limit_def)

lemma demo_data_length: "length demo_data = 160"
  by (simp add: demo_data_def length_header_encode)

lemma short_reads_faithful:
  "pf_file f = short_reads data \<Longrightarrow> pf_length f = length data \<Longrightarrow> length data < u64_limit \<Longrightarrow> faithful f data"
  by (auto simp: faithful_def short_reads_def min_def)

lemma demo_sidecar_faithful: "faithful (sc_data demo_sidecar) demo_data"
  by (rule short_reads_faithful) (simp_all add: demo_sidecar_def demo_data_length u64_limit_def)

lemma demo_sidecar_ok: "sidecar_ok demo_sidecar demo_data"
  using demo_valid demo_sidecar_faithful
  by (simp add: sidecar_ok_def demo_sidecar_def) (simp add: demo_manifest_def demo_record_def)

section \<open>Properties\<close>

text \<open>
  The header codec is exact: decoding accepts precisely the encodings of headers whose fields fit their
  widths, so every other 64 bytes, magic and reserved area included, are refused.
\<close>

theorem header_roundtrip:
  "header_decode bs = Inr h \<longleftrightarrow> header_ok h \<and> bs = header_encode h"
  using decode_encode encode_decode by blast

text \<open> C33.
  Validation decides the format: a manifest (with 64-bit alignment and length) is accepted exactly when
  its identity fields are those of this version and its records are strictly ordered by key, aligned,
  behind the header, disjoint in file order, inside the file, with three ordered, disjoint, non-empty
  segments inside each record that are placed as the layout demands.
\<close>

theorem manifest_validation_exact:
  assumes "sm_alignment m < u64_limit" "sd_length (sm_sidecar m) < u64_limit"
  shows "manifest_validate m = Inr () \<longleftrightarrow> identity_ok m \<and> layout_ok m"
  by (rule manifest_valid_iff [OF assms])

lemma manifest_validation_exact_witness:
  "manifest_validate demo_manifest = Inr () \<and> manifest_validate (demo_manifest\<lparr>sm_records := [demo_record, demo_record]\<rparr>) \<noteq> Inr ()"
proof
  show "manifest_validate demo_manifest = Inr ()"
    using manifest_validation_exact [of demo_manifest] demo_layout by (simp add: demo_manifest_def u64_limit_def)
  show "manifest_validate (demo_manifest\<lparr>sm_records := [demo_record, demo_record]\<rparr>) \<noteq> Inr ()"
    using manifest_validation_exact [of "demo_manifest\<lparr>sm_records := [demo_record, demo_record]\<rparr>"]
    by (simp add: demo_manifest_def u64_limit_def layout_ok_def)
qed

text \<open>
  The binary search of a valid manifest finds the record of a key exactly when there is one.
\<close>

theorem record_lookup_exact:
  assumes "manifest_validate m = Inr ()" "sd_length (sm_sidecar m) < u64_limit"
  shows "(manifest_record m k = Some r \<longleftrightarrow> r \<in> set (sm_records m) \<and> er_key r = k) \<and>
    (manifest_record m k = None \<longleftrightarrow> k \<notin> er_key ` set (sm_records m))"
proof -
  have "layout_ok m" using manifest_valid_iff [OF valid_alignment [OF assms(1)] assms(2)] assms(1) by blast
  from record_lookup [OF this] show ?thesis by blast
qed

lemma record_lookup_exact_witness: "manifest_record demo_manifest (ExpertKey 0 3) = Some demo_record"
  using record_lookup_exact [OF demo_valid, of "ExpertKey 0 3" demo_record]
  by (simp add: demo_manifest_def demo_record_def u64_limit_def)

text \<open>
  Opening binds the three parts together: the manifest of an opened sidecar is valid, the data file has
  the announced length and, if it does not change, starts with the encoded header that agrees with the
  manifest; and every record fits the request limit chosen at opening.
\<close>

theorem sidecar_open_sound:
  assumes "sidecar_open env grant data_path manifest_path t = Inr sc" "faithful (sc_data sc) data"
  shows "sidecar_ok sc data \<and> (\<exists>h. data = header_encode h @ drop 64 data \<and> header_matches h (sc_manifest sc))"
  by (rule open_facts [OF assms])

definition demo_env :: "(unit, unit) sidecar_env" where
  "demo_env = \<lparr>env_metadata = \<lambda>path. Inr (True, 160), env_read = \<lambda>path. Inr [],
     env_open = \<lambda>path. Inr (short_reads demo_data), env_json = \<lambda>bytes. Inr demo_manifest\<rparr>"

lemma demo_header_read:
  "fst (read_exact_at (\<lambda>_. True) (\<lambda>_. False) (sc_data demo_sidecar) 0 64 0) = Inr (take 64 demo_data)"
proof (cases "read_exact_at (\<lambda>_. True) (\<lambda>_. False) (sc_data demo_sidecar) 0 64 0")
  case (Pair r t')
  from read_exact_at_faithful [OF demo_sidecar_faithful this] Pair show ?thesis
    by (cases r) (simp_all add: demo_data_length interrupted_def, simp_all add: demo_sidecar_def short_reads_def)
qed

lemma demo_opened: "sidecar_open demo_env (\<lambda>_. True) ''d'' ''m'' 0 = Inr demo_sidecar"
proof -
  have max': "maximum_record demo_manifest = 96"
    by (simp add: maximum_record_def SIDECAR_HEADER_BYTES_def demo_manifest_def demo_record_def)
  have data: "sc_data demo_sidecar = \<lparr>pf_file = short_reads demo_data, pf_path = ''d'', pf_length = 160,
      pf_limits = \<lparr>max_request_bytes = 96\<rparr>\<rparr>"
    by (simp add: demo_sidecar_def)
  have "take 64 demo_data = header_encode demo_header" by (simp add: demo_data_def length_header_encode)
  moreover have "header_ok demo_header" by (simp add: demo_header_def header_new_def header_ok_def SIDECAR_FORMAT_VERSION_def u64_limit_def)
  ultimately have h: "header_decode (take 64 demo_data) = Inr demo_header" by (simp add: decode_encode)
  have "header_matches demo_header demo_manifest"
    by (simp add: header_matches_def demo_header_def header_new_def demo_manifest_def SIDECAR_FORMAT_VERSION_def)
  then show ?thesis
    using demo_valid demo_header_read h max' unfolding data
    by (simp add: sidecar_open_def demo_env_def positioned_open_def MAX_MANIFEST_BYTES_def SIDECAR_HEADER_BYTES_def)
       (simp add: demo_sidecar_def demo_manifest_def)
qed

lemma sidecar_open_sound_witness: "\<exists>h. header_matches h (sc_manifest demo_sidecar) \<and> take 64 demo_data = header_encode h"
proof -
  obtain h where "demo_data = header_encode h @ drop 64 demo_data" "header_matches h (sc_manifest demo_sidecar)"
    using sidecar_open_sound [OF demo_opened demo_sidecar_faithful] by blast
  then show ?thesis by (metis append_eq_conv_conj length_header_encode)
qed

text \<open> C32.
  Reading an expert from an opened sidecar whose file does not change: an unknown key is reported as
  missing; otherwise the call fails only with the error of the one positioned read of the record, and a
  successful one yields the record's bytes, on which the three accessors do not panic and return exactly
  the bytes of their segments in the file.
\<close>

theorem read_expert_exact:
  fixes sc :: "'e sidecar" and res :: "('e, 'j) sidecar_error + expert_bytes"
  assumes "sidecar_ok sc data" "read_expert grant cancelled sc key t = res"
  shows "(\<forall>r \<in> set (sm_records (sc_manifest sc)). er_key r \<noteq> key) \<and>
      res = Inl (MissingExpert key) \<or>
    (\<exists>r \<in> set (sm_records (sc_manifest sc)). er_key r = key \<and>
      (case fst (read_exact_at grant cancelled (sc_data sc) (er_offset r) (er_end r) t) of
         Inl err \<Rightarrow> res = Inl (SidecarRead err)
       | Inr _ \<Rightarrow> \<exists>b. res = Inr b \<and>
           eb_bytes b = take (er_length r) (drop (er_offset r) data) \<and>
           expert_gate b = Some (take (sg_length (er_gate r)) (drop (sg_offset (er_gate r)) data)) \<and>
           expert_up b = Some (take (sg_length (er_up r)) (drop (sg_offset (er_up r)) data)) \<and>
           expert_down b = Some (take (sg_length (er_down r)) (drop (sg_offset (er_down r)) data))))"
proof (cases "key \<in> er_key ` set (sm_records (sc_manifest sc))")
  case False
  then have "manifest_record (sc_manifest sc) key = None"
    using record_lookup(2) [OF sidecar_ok_layout(1) [OF assms(1)]] by blast
  then have "res = Inl (MissingExpert key)" using assms(2) by (simp add: read_expert_def)
  with False show ?thesis by blast
next
  case True
  then obtain r where r: "r \<in> set (sm_records (sc_manifest sc))" "er_key r = key" by blast
  obtain rr t' where rd: "read_exact_at grant cancelled (sc_data sc) (er_offset r) (er_end r) t = (rr, t')" by fastforce
  note effect = read_expert_effect [OF assms(1) r rd assms(2)]
  show ?thesis
    using effect by (intro disjI2 bexI [OF _ r(1)] conjI r(2), unfold rd fst_conv) (cases rr; simp)
qed

lemma read_expert_exact_witness:
  "\<exists>b. read_expert (\<lambda>_. True) (\<lambda>_. False) demo_sidecar (ExpertKey 0 3) 0 = (Inr b :: (unit, unit) sidecar_error + expert_bytes) \<and>
     expert_gate b = Some (replicate 8 7)"
proof (cases "read_exact_at (\<lambda>_. True) (\<lambda>_. False) (sc_data demo_sidecar) 64 160 0")
  case (Pair res t')
  have "\<exists>bs. res = Inr bs"
    using read_exact_at_faithful [OF demo_sidecar_faithful Pair]
    by (cases res) (simp_all add: demo_data_length interrupted_def, simp_all add: demo_sidecar_def short_reads_def)
  moreover have "take 8 (drop 64 demo_data) = replicate 8 7"
    by (simp add: demo_data_def length_header_encode)
  moreover have rs: "sm_records (sc_manifest demo_sidecar) = [demo_record]" by (simp add: demo_sidecar_def demo_manifest_def)
  moreover have "er_key demo_record = ExpertKey 0 3" "er_offset demo_record = 64" "er_end demo_record = 160"
    "sg_length (er_gate demo_record) = 8" "sg_offset (er_gate demo_record) = 64" by (simp_all add: demo_record_def er_end_def)
  ultimately show ?thesis
    using read_expert_exact [OF demo_sidecar_ok refl, where grant = "\<lambda>_. True" and cancelled = "\<lambda>_. False" and
        key = "ExpertKey 0 3" and t = 0 and 'j = unit] Pair
    by (auto simp: rs)
qed

text \<open>
  Checking the data digest of an opened sidecar always ends, and hashes the whole file exactly once, in
  order: its result is the comparison of the digest of the contents with the manifest, unless a read was
  refused memory, cancelled or failed.
\<close>

theorem verify_hash_exact:
  fixes sc :: "'e sidecar"
  assumes "sidecar_ok sc data"
  shows "\<exists>res :: ('e, 'j) sidecar_error + unit. verify_data_hash sha grant cancelled sc t = Some res \<and>
    (let expected = sd_sha256 (sm_sidecar (sc_manifest sc)); actual = lower_hex_of (sha data) in
     res = (if actual = expected then Inr () else Inl (DataHash expected actual)) \<or>
     (\<exists>err. res = Inl (SidecarRead err) \<and>
        ((\<forall>n. grant n) \<longrightarrow> (\<exists>s e u. interrupted (sc_data sc) cancelled s e u err))))"
proof -
  let ?chunk = "min (max_request_bytes (pf_limits (sc_data sc))) (8 * 1024 * 1024)"
  have f: "faithful (sc_data sc) data" "0 < ?chunk" "?chunk \<le> max_request_bytes (pf_limits (sc_data sc))"
    using assms by (auto simp: sidecar_ok_def)
  obtain r :: "('e, 'j) sidecar_error + byte list" where
    r: "hash_loop grant cancelled (sc_data sc) ?chunk 0 [] t = Some r" and
    "case r of Inr hashed \<Rightarrow> hashed = data
     | Inl err \<Rightarrow> \<exists>e. err = SidecarRead e \<and>
         ((\<forall>n. grant n) \<longrightarrow> (\<exists>s e' u. interrupted (sc_data sc) cancelled s e' u e))"
    using hash_loop_exact [OF f, of 0 grant cancelled t, where 'j = 'j] by auto
  then show ?thesis by (cases r) (auto simp: verify_data_hash_def Let_def check_def)
qed

lemma verify_hash_exact_witness:
  "verify_data_hash (\<lambda>_. replicate 32 0) (\<lambda>_. True) (\<lambda>_. False) demo_sidecar 0 = Some (Inr () :: (unit, unit) sidecar_error + unit)"
proof -
  have "lower_hex_of (replicate n 0) = replicate (2 * n) (CHR ''0'')" for n
    by (induction n) (simp_all add: lower_hex_of_def hex_digit_def)
  from this [of 32] have "lower_hex_of (replicate 32 0) = replicate 64 (CHR ''0'')" by simp
  moreover have "sd_sha256 (sm_sidecar (sc_manifest demo_sidecar)) = replicate 64 (CHR ''0'')"
    by (simp add: demo_sidecar_def demo_manifest_def)
  moreover have "\<not> interrupted (sc_data demo_sidecar) (\<lambda>_. False) s e u err" for s e u err
    by (simp add: interrupted_def demo_sidecar_def short_reads_def)
  ultimately show ?thesis
    using verify_hash_exact [OF demo_sidecar_ok, of "\<lambda>_. replicate 32 0" "\<lambda>_. True" "\<lambda>_. False" 0, where 'j = unit]
    by (auto simp: Let_def)
qed

end
