(* ===== verification/Gguf_Split.thy ===== *)
theory Gguf_Split
  imports Gguf_Value
begin

text \<open>
  Sets of GGUF shards, \<^verbatim>\<open>crates/bridge-gguf-split\<close>: the numbered file names, the discovery of the shards
  of a model from any one of them, their split metadata, and the directory of all tensors. The file
  system and the reader of a file are arguments. A path is the list of its components, and a file name
  that is not UTF-8 does not occur; numbers are 32-bit as in the source.
\<close>

type_synonym path = "string list"

section \<open>Data\<close>

record gguf_shard =
  sh_path :: path
  sh_parsed :: gguf_file
  sh_ordinal :: nat
  sh_count :: nat

record tensor_location =
  tl_shard_index :: nat
  tl_descriptor :: tensor_desc
  tl_absolute_range :: "nat \<times> nat"

record tensor_directory =
  td_ordered :: "tensor_location list"
  td_by_name :: "(string \<times> nat) list"

record gguf_set =
  gs_files :: "gguf_shard list"
  gs_tensors :: tensor_directory

datatype 'e split_error =
    SplitIo 'e
  | SplitGguf gguf_error
  | SplitMetadata metadata_error
  | SplitNotAFile path
  | InvalidNumberedFilename string
  | MissingSplitMetadata path string
  | SplitMetadataDisagreement path string
  | NumberedSingleShard path
  | MissingShard path
  | ShardEscapesParent path
  | DuplicateTensorName string
  | HeterogeneousVersion path nat nat
  | HeterogeneousEndianness path endianness endianness
  | HeterogeneousAlignment path nat nat
  | UnalignedTensorOffset path string nat nat
  | NegativeAggregateTensorCount path
  | AggregateTensorCountDisagreement
  | AggregateTensorDirectoryDisagreement
  | SplitArithmeticOverflow string
  | SplitCore core_error

section \<open>Numbered names\<close>

record numbered_name =
  nn_prefix :: string
  nn_total :: nat

text \<open>\<^verbatim>\<open>rsplit_once\<close>: around the last occurrence of a pattern.\<close>

definition rsplit_once :: "string \<Rightarrow> string \<Rightarrow> (string \<times> string) option" where
  "rsplit_once pat s =
     (case find (\<lambda>i. take (length pat) (drop i s) = pat) (rev [0..<length s]) of
        None \<Rightarrow> None | Some i \<Rightarrow> Some (take i s, drop (i + length pat) s))"

definition strip_suffix :: "string \<Rightarrow> string \<Rightarrow> string option" where
  "strip_suffix suf s =
     (if length suf \<le> length s \<and> drop (length s - length suf) s = suf then Some (take (length s - length suf) s) else None)"

definition is_ascii_digit :: "char \<Rightarrow> bool" where
  "is_ascii_digit c \<longleftrightarrow> 48 \<le> (of_char c :: nat) \<and> (of_char c :: nat) \<le> 57"

definition dec_value :: "string \<Rightarrow> nat" where
  "dec_value s = foldl (\<lambda>n c. n * 10 + (of_char c - 48)) 0 s"

text \<open>\<^verbatim>\<open>parse::<u32>\<close> on text of digits.\<close>

definition parse_u32 :: "string \<Rightarrow> nat option" where
  "parse_u32 s = (if s \<noteq> [] \<and> list_all is_ascii_digit s \<and> dec_value s < 4294967296 then Some (dec_value s) else None)"

fun dec_string :: "nat \<Rightarrow> string" where
  "dec_string n = (if n < 10 then [char_of (48 + n)] else dec_string (n div 10) @ [char_of (48 + n mod 10)])"

declare dec_string.simps [simp del]

text \<open>The format \<^verbatim>\<open>{:0width$}\<close> with width 5.\<close>

definition zero_padded :: "nat \<Rightarrow> string" where
  "zero_padded n = replicate (5 - length (dec_string n)) (CHR ''0'') @ dec_string n"

definition numbered_filename :: "numbered_name \<Rightarrow> nat \<Rightarrow> string" where
  "numbered_filename n ordinal =
     nn_prefix n @ ''-'' @ zero_padded ordinal @ ''-of-'' @ zero_padded (nn_total n) @ ''.gguf''"

definition numbered_parse :: "path \<Rightarrow> 'e split_error + numbered_name option" where
  "numbered_parse p =
     (if p = [] then Inr None else
      let filename = last p in
      case strip_suffix ''.gguf'' filename of None \<Rightarrow> Inr None | Some stem \<Rightarrow>
      (case rsplit_once ''-of-'' stem of None \<Rightarrow> Inr None | Some (before_total, total_text) \<Rightarrow>
      (case rsplit_once ''-'' before_total of None \<Rightarrow> Inr None | Some (before, ordinal_text) \<Rightarrow>
        if length ordinal_text \<noteq> 5 \<or> length total_text \<noteq> 5 \<or> \<not> list_all is_ascii_digit ordinal_text \<or>
           \<not> list_all is_ascii_digit total_text
        then Inr None
        else
          rbind (ok_or (InvalidNumberedFilename filename) (parse_u32 ordinal_text)) (\<lambda>ordinal.
          rbind (ok_or (InvalidNumberedFilename filename) (parse_u32 total_text)) (\<lambda>total'.
            if ordinal = 0 \<or> total' = 0 \<or> total' < ordinal \<or> 65535 < total'
            then Inl (InvalidNumberedFilename filename)
            else Inr (Some \<lparr>nn_prefix = before, nn_total = total'\<rparr>))))))"

section \<open>Split metadata\<close>

text \<open>
  The accessors of \<^verbatim>\<open>Gguf_Value\<close> never reach their panicking arm, so \<open>the\<close> only removes the option.
\<close>

definition required_u16 :: "path \<Rightarrow> gguf_file \<Rightarrow> string \<Rightarrow> 'e split_error + nat" where
  "required_u16 p parsed key =
     map_err (\<lambda>err. case err of MissingKey _ \<Rightarrow> MissingSplitMetadata p key | _ \<Rightarrow> SplitMetadata err) (the (get_u16 parsed key))"

definition optional_u16 :: "gguf_file \<Rightarrow> string \<Rightarrow> 'e split_error + nat option" where
  "optional_u16 parsed key =
     (case the (get_u16 parsed key) of
        Inr v \<Rightarrow> Inr (Some v) | Inl (MissingKey _) \<Rightarrow> Inr None | Inl err \<Rightarrow> Inl (SplitMetadata err))"

definition validate_required_split_metadata ::
  "path \<Rightarrow> gguf_file \<Rightarrow> nat \<Rightarrow> nat \<Rightarrow> 'e split_error + unit" where
  "validate_required_split_metadata p parsed ordinal n =
     rbind (required_u16 p parsed ''split.no'') (\<lambda>metadata_ordinal.
     rbind (required_u16 p parsed ''split.count'') (\<lambda>metadata_count.
     rbind (check (n \<noteq> 1) (NumberedSingleShard p)) (\<lambda>_.
     rbind (check (metadata_ordinal = ordinal) (SplitMetadataDisagreement p ''split.no'')) (\<lambda>_.
       check (metadata_count = n) (SplitMetadataDisagreement p ''split.count'')))))"

definition validate_optional_split_metadata ::
  "path \<Rightarrow> gguf_file \<Rightarrow> nat \<Rightarrow> nat \<Rightarrow> 'e split_error + unit" where
  "validate_optional_split_metadata p parsed ordinal n =
     rbind (optional_u16 parsed ''split.no'') (\<lambda>no.
     rbind (check (no = None \<or> no = Some ordinal) (SplitMetadataDisagreement p ''split.no'')) (\<lambda>_.
     rbind (optional_u16 parsed ''split.count'') (\<lambda>cnt.
       check (cnt = None \<or> cnt = Some n) (SplitMetadataDisagreement p ''split.count''))))"

section \<open>Discovery\<close>

record 'e shard_fs =
  fs_is_file :: "path \<Rightarrow> bool"
  fs_canonicalize :: "path \<Rightarrow> 'e + path"
  fs_open_gguf :: "path \<Rightarrow> gguf_error + gguf_file"

definition path_parent :: "path \<Rightarrow> path option" where
  "path_parent p = (if p = [] then None else Some (butlast p))"

definition discover_single :: "'e shard_fs \<Rightarrow> path \<Rightarrow> 'e split_error + gguf_shard list" where
  "discover_single fs p =
     rbind (map_err SplitGguf (fs_open_gguf fs p)) (\<lambda>parsed.
     rbind (validate_optional_split_metadata p parsed 0 1) (\<lambda>_.
       Inr [\<lparr>sh_path = p, sh_parsed = parsed, sh_ordinal = 0, sh_count = 1\<rparr>]))"

definition discover_shard :: "'e shard_fs \<Rightarrow> path \<Rightarrow> numbered_name \<Rightarrow> nat \<Rightarrow> 'e split_error + gguf_shard" where
  "discover_shard fs parent numbered one_based =
     (let expected = parent @ [numbered_filename numbered one_based] in
      if \<not> fs_is_file fs expected then Inl (MissingShard expected) else
      rbind (map_err SplitIo (fs_canonicalize fs expected)) (\<lambda>p.
      rbind (check (path_parent p = Some parent) (ShardEscapesParent p)) (\<lambda>_.
      rbind (map_err SplitGguf (fs_open_gguf fs p)) (\<lambda>parsed.
      rbind (ok_or (SplitArithmeticOverflow ''zero-based shard ordinal'') (checked_sub one_based 1)) (\<lambda>ordinal.
      rbind (validate_required_split_metadata p parsed ordinal (nn_total numbered)) (\<lambda>_.
        Inr \<lparr>sh_path = p, sh_parsed = parsed, sh_ordinal = ordinal, sh_count = nn_total numbered\<rparr>))))))"

definition discover_numbered :: "'e shard_fs \<Rightarrow> path \<Rightarrow> numbered_name \<Rightarrow> 'e split_error + gguf_shard list" where
  "discover_numbered fs parent numbered = map_res (discover_shard fs parent numbered) [1..<Suc (nn_total numbered)]"

definition discover :: "'e shard_fs \<Rightarrow> path \<Rightarrow> 'e split_error + gguf_shard list" where
  "discover fs entry =
     (if \<not> fs_is_file fs entry then Inl (SplitNotAFile entry) else
      let parent = (case path_parent entry of Some (c # cs) \<Rightarrow> c # cs | _ \<Rightarrow> [''.'']) in
      rbind (map_err SplitIo (fs_canonicalize fs parent)) (\<lambda>lexical_parent.
      rbind (map_err SplitIo (fs_canonicalize fs entry)) (\<lambda>entry'.
      rbind (check (path_parent entry' = Some lexical_parent) (ShardEscapesParent entry')) (\<lambda>_.
      rbind (numbered_parse entry') (\<lambda>numbered.
        case numbered of Some n \<Rightarrow> discover_numbered fs lexical_parent n | None \<Rightarrow> discover_single fs entry')))))"

section \<open>The tensor directory\<close>

fun validate_common_with :: "gguf_shard \<Rightarrow> gguf_shard list \<Rightarrow> 'e split_error + unit" where
  "validate_common_with primary [] = Inr ()"
| "validate_common_with primary (s # ss) =
     (if version (sh_parsed s) \<noteq> version (sh_parsed primary)
      then Inl (HeterogeneousVersion (sh_path s) (version (sh_parsed primary)) (version (sh_parsed s)))
      else if endian (sh_parsed s) \<noteq> endian (sh_parsed primary)
      then Inl (HeterogeneousEndianness (sh_path s) (endian (sh_parsed primary)) (endian (sh_parsed s)))
      else if alignment (sh_parsed s) \<noteq> alignment (sh_parsed primary)
      then Inl (HeterogeneousAlignment (sh_path s) (alignment (sh_parsed primary)) (alignment (sh_parsed s)))
      else validate_common_with primary ss)"

definition validate_common_fields :: "gguf_shard list \<Rightarrow> 'e split_error + unit" where
  "validate_common_fields files = (case files of [] \<Rightarrow> Inr () | primary # rest \<Rightarrow> validate_common_with primary rest)"

definition optional_aggregate_count :: "gguf_shard \<Rightarrow> 'e split_error + int option" where
  "optional_aggregate_count s =
     (case the (get_i32 (sh_parsed s) ''split.tensors.count'') of
        Inr v \<Rightarrow> if 0 \<le> v then Inr (Some v) else Inl (NegativeAggregateTensorCount (sh_path s))
      | Inl (MissingKey _) \<Rightarrow> Inr None
      | Inl err \<Rightarrow> Inl (SplitMetadata err))"

fun add_tensors :: "nat \<Rightarrow> gguf_shard \<Rightarrow> tensor_desc list \<Rightarrow> tensor_directory \<Rightarrow> 'e split_error + tensor_directory" where
  "add_tensors i s [] d = Inr d"
| "add_tensors i s (t # ts) d =
     (let offset = td_relative_offset t; name = td_name t in
      if offset mod alignment (sh_parsed s) \<noteq> 0
      then Inl (UnalignedTensorOffset (sh_path s) name offset (alignment (sh_parsed s)))
      else
        rbind (map_err SplitCore (checked_absolute_range t (data_offset (sh_parsed s)) (file_len (sh_parsed s)))) (\<lambda>bounds.
          if map_of (td_by_name d) name \<noteq> None then Inl (DuplicateTensorName name)
          else add_tensors i s ts
            \<lparr>td_ordered = td_ordered d @ [\<lparr>tl_shard_index = i, tl_descriptor = t, tl_absolute_range = bounds\<rparr>],
             td_by_name = (name, length (td_ordered d)) # td_by_name d\<rparr>))"

definition declare_count :: "int option \<Rightarrow> int option \<Rightarrow> 'e split_error + int option" where
  "declare_count declared cnt =
     (case (cnt, declared) of
        (None, _) \<Rightarrow> Inr declared
      | (Some c, None) \<Rightarrow> Inr (Some c)
      | (Some c, Some previous) \<Rightarrow> if previous \<noteq> c then Inl AggregateTensorCountDisagreement else Inr declared)"

definition add_shard ::
  "nat \<times> gguf_shard \<Rightarrow> tensor_directory \<times> int option \<Rightarrow> 'e split_error + (tensor_directory \<times> int option)" where
  "add_shard ish st =
     (let (i, s) = ish; (d, declared) = st in
      rbind (optional_aggregate_count s) (\<lambda>cnt.
      rbind (declare_count declared cnt) (\<lambda>declared.
      rbind (add_tensors i s (tensors (sh_parsed s)) d) (\<lambda>d. Inr (d, declared)))))"

definition build_directory :: "gguf_shard list \<Rightarrow> 'e split_error + tensor_directory" where
  "build_directory files =
     rbind (validate_common_fields files) (\<lambda>_.
     rbind (fold_res add_shard (enumerate 0 files) (\<lparr>td_ordered = [], td_by_name = []\<rparr>, None)) (\<lambda>(d, declared).
       case declared of
         None \<Rightarrow> Inr d
       | Some c \<Rightarrow>
           if 2147483647 < length (td_ordered d) then Inl (SplitArithmeticOverflow ''aggregate tensor count'')
           else if c \<noteq> int (length (td_ordered d)) then Inl AggregateTensorDirectoryDisagreement
           else Inr d))"

definition directory_get :: "tensor_directory \<Rightarrow> string \<Rightarrow> tensor_location option" where
  "directory_get d name = Option.bind (map_of (td_by_name d) name)
     (\<lambda>i. if i < length (td_ordered d) then Some (td_ordered d ! i) else None)"

definition open_set :: "'e shard_fs \<Rightarrow> path \<Rightarrow> 'e split_error + gguf_set" where
  "open_set fs entry =
     rbind (discover fs entry) (\<lambda>files.
     rbind (build_directory files) (\<lambda>d. Inr \<lparr>gs_files = files, gs_tensors = d\<rparr>))"

section \<open>Decimal text\<close>

lemma digit_char [simp]: "d < 10 \<Longrightarrow> of_char (char_of (48 + d :: nat)) = 48 + d"
  by (simp add: take_bit_nat_eq_self)

lemma digit_is_digit: "d < 10 \<Longrightarrow> is_ascii_digit (char_of (48 + d :: nat))"
  using digit_char [of d] by (simp add: is_ascii_digit_def del: of_char_of digit_char)

lemma dec_value_snoc: "dec_value (s @ [c]) = dec_value s * 10 + (of_char c - 48)"
  by (simp add: dec_value_def)

lemma dec_string_digits: "list_all is_ascii_digit (dec_string n)"
proof (induction n rule: dec_string.induct)
  case (1 n)
  then show ?case by (cases "n < 10") (simp_all add: dec_string.simps [of n] digit_is_digit)
qed

lemma dec_value_dec_string: "dec_value (dec_string n) = n"
proof (induction n rule: dec_string.induct)
  case (1 n)
  show ?case
  proof (cases "n < 10")
    case True
    have "dec_value ([] @ [char_of (48 + n)]) = n" unfolding dec_value_snoc digit_char [OF True] by (simp add: dec_value_def)
    then show ?thesis using True by (simp add: dec_string.simps [of n])
  next
    case False
    have d: "n mod 10 < 10" by simp
    have "dec_value (dec_string n) = n div 10 * 10 + (of_char (char_of (48 + n mod 10)) - 48)"
      using 1 False by (simp add: dec_string.simps [of n] dec_value_snoc del: of_char_of)
    also have "\<dots> = n" unfolding digit_char [OF d] by simp
    finally show ?thesis .
  qed
qed

lemma dec_string_length: "0 < k \<Longrightarrow> n < 10 ^ k \<Longrightarrow> length (dec_string n) \<le> k"
proof (induction k arbitrary: n)
  case (Suc k)
  show ?case
  proof (cases "n < 10")
    case True
    then show ?thesis by (simp add: dec_string.simps)
  next
    case False
    then have "0 < k" using Suc.prems(2) by (cases k) auto
    moreover have "n div 10 < 10 ^ k" using Suc.prems(2) by simp
    ultimately have "length (dec_string (n div 10)) \<le> k" by (rule Suc.IH)
    then show ?thesis using False by (simp add: dec_string.simps [of n])
  qed
qed simp

lemma dec_value_zeros: "dec_value (replicate k (CHR ''0'') @ s) = dec_value s"
  by (induction k) (simp_all add: dec_value_def)

lemma zero_padded_facts:
  assumes "n < 100000"
  shows "length (zero_padded n) = 5" "list_all is_ascii_digit (zero_padded n)" "dec_value (zero_padded n) = n"
proof -
  have "length (dec_string n) \<le> 5" using dec_string_length [of 5 n] assms by simp
  then show "length (zero_padded n) = 5" by (simp add: zero_padded_def)
  have "is_ascii_digit (CHR ''0'')" by (simp add: is_ascii_digit_def)
  then show "list_all is_ascii_digit (zero_padded n)"
    using dec_string_digits by (auto simp: zero_padded_def list_all_iff)
  show "dec_value (zero_padded n) = n" by (simp add: zero_padded_def dec_value_zeros dec_value_dec_string)
qed

lemma dec_value_less: "list_all is_ascii_digit s \<Longrightarrow> dec_value s < 10 ^ length s"
proof (induction s rule: rev_induct)
  case (snoc c s)
  then have "dec_value s + 1 \<le> 10 ^ length s" "of_char c - 48 \<le> (9 :: nat)" by (auto simp: is_ascii_digit_def)
  then show ?case by (simp add: dec_value_snoc)
qed (simp add: dec_value_def)

lemma dec_value_inject:
  "length s = length s' \<Longrightarrow> list_all is_ascii_digit s \<Longrightarrow> list_all is_ascii_digit s' \<Longrightarrow> dec_value s = dec_value s' \<Longrightarrow> s = s'"
proof (induction s arbitrary: s' rule: rev_induct)
  case (snoc c s)
  then obtain t d where s': "s' = t @ [d]" by (metis append_butlast_last_id length_0_conv snoc_eq_iff_butlast)
  have c: "48 \<le> (of_char c :: nat)" "(of_char c :: nat) \<le> 57" "48 \<le> (of_char d :: nat)" "(of_char d :: nat) \<le> 57"
    using snoc.prems(2,3) s' by (auto simp: is_ascii_digit_def)
  have eq: "dec_value s * 10 + (of_char c - 48) = dec_value t * 10 + (of_char d - 48)"
    using snoc.prems(4) by (simp add: s' dec_value_snoc)
  moreover have "of_char c - 48 \<le> (9 :: nat)" "of_char d - 48 \<le> (9 :: nat)" using c by linarith+
  ultimately have v: "dec_value s = dec_value t" by linarith
  with eq have "of_char c - 48 = (of_char d - 48 :: nat)" by linarith
  then have "(of_char c :: nat) = of_char d" using c by linarith
  then have "c = d" by (metis char_of_char)
  with v show ?case using snoc s' by simp
qed simp

lemma zero_padded_dec_value: "length s = 5 \<Longrightarrow> list_all is_ascii_digit s \<Longrightarrow> zero_padded (dec_value s) = s"
  using dec_value_less [of s] zero_padded_facts [of "dec_value s"] by (intro dec_value_inject) simp_all

section \<open>Splitting at the last occurrence\<close>

lemma find_rev_upt:
  "find P (rev [0..<n]) = Some i \<longleftrightarrow> i < n \<and> P i \<and> (\<forall>j. i < j \<and> j < n \<longrightarrow> \<not> P j)"
proof (induction n)
  case (Suc n)
  show ?case
    using Suc by (cases "P n") (auto simp: less_Suc_eq)
qed simp

lemma rsplit_once_join:
  assumes "rsplit_once pat s = Some (a, b)"
  shows "s = a @ pat @ b"
proof -
  obtain i where i: "take (length pat) (drop i s) = pat" "a = take i s" "b = drop (i + length pat) s"
    using assms by (auto simp: rsplit_once_def find_rev_upt split: option.splits)
  have "s = take i s @ take (length pat) (drop i s) @ drop (length pat) (drop i s)"
    by (simp only: append_take_drop_id)
  then show ?thesis using i by (simp add: add.commute)
qed

lemma rsplit_once_last:
  assumes "pat \<noteq> []" "\<And>k. 0 < k \<Longrightarrow> k \<le> length pat + length b \<Longrightarrow> take (length pat) (drop k (pat @ b)) \<noteq> pat"
  shows "rsplit_once pat (a @ pat @ b) = Some (a, b)"
proof -
  let ?s = "a @ pat @ b"
  have "find (\<lambda>i. take (length pat) (drop i ?s) = pat) (rev [0..<length ?s]) = Some (length a)"
    unfolding find_rev_upt
  proof (intro conjI allI impI)
    show "length a < length ?s" using assms(1) by simp
    fix j assume j: "length a < j \<and> j < length ?s"
    then have "drop j ?s = drop (j - length a) (pat @ b)" by simp
    then show "take (length pat) (drop j ?s) \<noteq> pat" using assms(2) [of "j - length a"] j by auto
  qed simp
  then show ?thesis by (simp add: rsplit_once_def)
qed

lemma no_dash: "list_all is_ascii_digit b \<Longrightarrow> CHR ''-'' \<notin> set b"
  by (auto simp: list_all_iff is_ascii_digit_def)

lemma split_dash:
  assumes "list_all is_ascii_digit b"
  shows "rsplit_once ''-'' (a @ ''-'' @ b) = Some (a, b)"
proof (rule rsplit_once_last)
  fix k assume "0 < k" "k \<le> length ''-'' + length b"
  then show "take (length ''-'') (drop k (''-'' @ b)) \<noteq> ''-''"
    using no_dash [OF assms] set_drop_subset [of "k - 1" b]
    by (cases k; cases "drop (k - 1) b") auto
qed simp

lemma split_of:
  assumes "list_all is_ascii_digit b"
  shows "rsplit_once ''-of-'' (a @ ''-of-'' @ b) = Some (a, b)"
proof (rule rsplit_once_last)
  fix k assume k: "0 < k" "k \<le> length ''-of-'' + length b"
  have o: "CHR ''o'' \<notin> set b" using assms by (auto simp: list_all_iff is_ascii_digit_def)
  consider "k = 1" | "k = 2" | "k = 3" | "4 \<le> k" using k by linarith
  then show "take (length ''-of-'') (drop k (''-of-'' @ b)) \<noteq> ''-of-''"
  proof cases
    case 3
    then show ?thesis using o by (cases b) (auto simp: numeral_eq_Suc)
  next
    case 4
    then obtain m where "k = 4 + m" using le_Suc_ex by blast
    then show ?thesis
      using no_dash [OF assms] set_drop_subset [of m b] by (cases "drop m b") (auto simp: numeral_eq_Suc)
  qed (simp_all add: numeral_eq_Suc)
qed simp

lemma strip_suffix_Some: "strip_suffix suf s = Some t \<longleftrightarrow> s = t @ suf"
proof
  assume s: "strip_suffix suf s = Some t"
  then have d: "drop (length s - length suf) s = suf" "t = take (length s - length suf) s"
    by (simp_all add: strip_suffix_def split: if_splits)
  then show "s = t @ suf" by (metis append_take_drop_id)
qed (simp add: strip_suffix_def)

section \<open>Names and shards\<close>

lemma parse_filename:
  assumes "1 \<le> ordinal" "ordinal \<le> nn_total n" "nn_total n \<le> 65535"
  shows "numbered_parse (dir @ [numbered_filename n ordinal]) = Inr (Some n)"
proof -
  let ?o = "zero_padded ordinal" and ?t = "zero_padded (nn_total n)"
  have ord: "ordinal < 100000" and tot: "nn_total n < 100000" using assms by linarith+
  note o = zero_padded_facts [OF ord] and t = zero_padded_facts [OF tot]
  have "numbered_filename n ordinal = (nn_prefix n @ ''-'' @ ?o @ ''-of-'' @ ?t) @ ''.gguf''"
    by (simp add: numbered_filename_def)
  then have s1: "strip_suffix ''.gguf'' (numbered_filename n ordinal) = Some (nn_prefix n @ ''-'' @ ?o @ ''-of-'' @ ?t)"
    by (simp only: strip_suffix_Some)
  have s2: "rsplit_once ''-of-'' (nn_prefix n @ ''-'' @ ?o @ ''-of-'' @ ?t) = Some (nn_prefix n @ ''-'' @ ?o, ?t)"
    using split_of [OF t(2), of "nn_prefix n @ ''-'' @ ?o"] by simp
  have "?o \<noteq> []" "?t \<noteq> []" using o(1) t(1) by force+
  then have p: "parse_u32 ?o = Some ordinal" "parse_u32 ?t = Some (nn_total n)"
    using o t ord tot by (simp_all add: parse_u32_def)
  show ?thesis
    unfolding numbered_parse_def Let_def last_snoc s1 option.case s2 prod.case split_dash [OF o(2)]
    using o t p assms by simp
qed

lemma parse_sound:
  assumes "numbered_parse p = Inr (Some n)"
  shows "\<exists>ordinal. 1 \<le> ordinal \<and> ordinal \<le> nn_total n \<and> nn_total n \<le> 65535 \<and> p \<noteq> [] \<and> last p = numbered_filename n ordinal"
proof -
  have ne: "p \<noteq> []" using assms by (auto simp: numbered_parse_def)
  obtain stem before_total tt before ot ordinal where s: "strip_suffix ''.gguf'' (last p) = Some stem"
    "rsplit_once ''-of-'' stem = Some (before_total, tt)" "rsplit_once ''-'' before_total = Some (before, ot)"
    "length ot = 5" "length tt = 5" "list_all is_ascii_digit ot" "list_all is_ascii_digit tt"
    "parse_u32 ot = Some ordinal" "parse_u32 tt = Some (nn_total n)"
    "ordinal \<noteq> 0" "ordinal \<le> nn_total n" "nn_total n \<le> 65535" "nn_prefix n = before"
    using assms ne by (auto simp: numbered_parse_def Let_def rbind_Inr split: option.splits if_splits)
  have "ordinal = dec_value ot" "nn_total n = dec_value tt" using s(8,9) by (auto simp: parse_u32_def split: if_splits)
  then have z: "zero_padded ordinal = ot" "zero_padded (nn_total n) = tt" using s(4-7) zero_padded_dec_value by auto
  have "last p = (before_total @ ''-of-'' @ tt) @ ''.gguf''"
    using s(1) rsplit_once_join [OF s(2)] strip_suffix_Some [of "''.gguf''" "last p" stem] by blast
  also have "before_total = before @ ''-'' @ ot" by (rule rsplit_once_join [OF s(3)])
  finally have "last p = numbered_filename n ordinal" by (simp add: numbered_filename_def z s(13))
  then show ?thesis using s(10-12) ne by (intro exI [of _ ordinal]) simp
qed

lemma map_res_upt:
  assumes "map_res f [a..<b] = Inr ys" "a \<le> b"
  shows "length ys = b - a \<and> (\<forall>i < length ys. f (a + i) = Inr (ys ! i))"
  using assms by (auto simp: map_res_Inr list_all2_conv_all_nth)

definition shard_ok :: "'e shard_fs \<Rightarrow> path \<Rightarrow> numbered_name \<Rightarrow> nat \<Rightarrow> gguf_shard \<Rightarrow> bool" where
  "shard_ok fs parent n i s \<longleftrightarrow>
     fs_canonicalize fs (parent @ [numbered_filename n (i + 1)]) = Inr (sh_path s) \<and>
     path_parent (sh_path s) = Some parent \<and> fs_open_gguf fs (sh_path s) = Inr (sh_parsed s) \<and>
     sh_ordinal s = i \<and> sh_count s = nn_total n \<and>
     map_of (metadata (sh_parsed s)) ''split.no'' = Some (GU16 i) \<and>
     map_of (metadata (sh_parsed s)) ''split.count'' = Some (GU16 (nn_total n))"

lemma required_u16_Inr: "required_u16 p f k = Inr v \<longleftrightarrow> map_of (metadata f) k = Some (GU16 v)"
proof (cases "map_of (metadata f) k")
  case (Some w)
  then show ?thesis by (cases w) (simp_all add: required_u16_def get_u16_def expect_type_shape(2))
qed (simp add: required_u16_def get_u16_def expect_type_shape(1))

lemma discover_shard_ok: "discover_shard fs parent n (Suc i) = Inr s \<Longrightarrow> shard_ok fs parent n i s"
  unfolding discover_shard_def validate_required_split_metadata_def Let_def
  by (elim result_InrE) (auto simp: rbind_Inr shard_ok_def required_u16_Inr)

lemma discover_numbered_shards:
  assumes "discover_numbered fs parent n = Inr files"
  shows "length files = nn_total n \<and> (\<forall>i < nn_total n. shard_ok fs parent n i (files ! i))"
proof -
  have "length files = nn_total n \<and> (\<forall>i < length files. discover_shard fs parent n (1 + i) = Inr (files ! i))"
    using map_res_upt [OF assms [unfolded discover_numbered_def]] by simp
  then show ?thesis using discover_shard_ok [of fs parent n] by auto
qed

section \<open>The directory\<close>

definition location :: "nat \<Rightarrow> gguf_shard \<Rightarrow> tensor_desc \<Rightarrow> tensor_location" where
  "location i s t = \<lparr>tl_shard_index = i, tl_descriptor = t,
     tl_absolute_range = (case checked_absolute_range t (data_offset (sh_parsed s)) (file_len (sh_parsed s)) of
       Inr b \<Rightarrow> b | Inl _ \<Rightarrow> (0, 0))\<rparr>"

abbreviation location_name :: "tensor_location \<Rightarrow> string" where
  "location_name l \<equiv> td_name (tl_descriptor l)"

definition names_ok :: "tensor_directory \<Rightarrow> bool" where
  "names_ok d \<longleftrightarrow> (\<forall>name i. map_of (td_by_name d) name = Some i \<longleftrightarrow>
     i < length (td_ordered d) \<and> location_name (td_ordered d ! i) = name)"

definition tensor_placed :: "gguf_shard \<Rightarrow> tensor_desc \<Rightarrow> bool" where
  "tensor_placed s t \<longleftrightarrow> alignment (sh_parsed s) dvd td_relative_offset t \<and>
     is_ok (checked_absolute_range t (data_offset (sh_parsed s)) (file_len (sh_parsed s)))"

lemma add_tensors_effect:
  assumes "(add_tensors i s ts d :: 'e split_error + tensor_directory) = Inr d'" "names_ok d"
  shows "names_ok d' \<and> td_ordered d' = td_ordered d @ map (location i s) ts \<and> (\<forall>t \<in> set ts. tensor_placed s t)"
  using assms
proof (induction i s ts d rule: add_tensors.induct)
  case (2 i s t ts d)
  obtain bounds where c: "\<not> td_relative_offset t mod alignment (sh_parsed s) \<noteq> 0"
    "checked_absolute_range t (data_offset (sh_parsed s)) (file_len (sh_parsed s)) = Inr bounds"
    "map_of (td_by_name d) (td_name t) = None"
    using 2(2) by (auto simp: Let_def rbind_Inr split: if_splits)
  define d1 where "d1 = \<lparr>td_ordered = td_ordered d @ [\<lparr>tl_shard_index = i, tl_descriptor = t, tl_absolute_range = bounds\<rparr>],
             td_by_name = (td_name t, length (td_ordered d)) # td_by_name d\<rparr>"
  have run: "(add_tensors i s ts d1 :: 'e split_error + tensor_directory) = Inr d'" using 2(2) c by (simp add: Let_def d1_def)
  have "location_name (td_ordered d ! j) \<noteq> td_name t" if "j < length (td_ordered d)" for j
    using 2(3) c(3) that unfolding names_ok_def by (metis option.distinct(1))
  then have "names_ok d1"
    using 2(3) unfolding names_ok_def d1_def by (auto simp: nth_append less_Suc_eq)
  with 2(1) [OF refl refl c(1) _ run [unfolded d1_def]] c(3)
  have "names_ok d' \<and> td_ordered d' = td_ordered d1 @ map (location i s) ts \<and> (\<forall>t \<in> set ts. tensor_placed s t)"
    by (simp add: d1_def)
  moreover have "td_ordered d1 = td_ordered d @ [location i s t]" using c(2) by (simp add: d1_def location_def)
  moreover have "tensor_placed s t" using c by (auto simp: tensor_placed_def)
  ultimately show ?case by simp
qed simp

lemma optional_aggregate_count_Inr:
  "optional_aggregate_count s = Inr (Some c) \<longleftrightarrow> 0 \<le> c \<and> map_of (metadata (sh_parsed s)) ''split.tensors.count'' = Some (GI32 c)"
  "optional_aggregate_count s = Inr None \<longleftrightarrow> map_of (metadata (sh_parsed s)) ''split.tensors.count'' = None"
proof -
  let ?m = "map_of (metadata (sh_parsed s)) ''split.tensors.count''"
  have "(optional_aggregate_count s = Inr (Some c) \<longleftrightarrow> 0 \<le> c \<and> ?m = Some (GI32 c)) \<and>
      (optional_aggregate_count s = Inr None \<longleftrightarrow> ?m = None)"
  proof (cases ?m)
    case (Some w)
    then show ?thesis by (cases w) (auto simp: optional_aggregate_count_def get_i32_def expect_type_shape(2))
  qed (simp add: optional_aggregate_count_def get_i32_def expect_type_shape(1))
  then show "optional_aggregate_count s = Inr (Some c) \<longleftrightarrow> 0 \<le> c \<and> ?m = Some (GI32 c)"
    "optional_aggregate_count s = Inr None \<longleftrightarrow> ?m = None" by blast+
qed

definition declares :: "gguf_shard \<Rightarrow> int \<Rightarrow> bool" where
  "declares s c \<longleftrightarrow> map_of (metadata (sh_parsed s)) ''split.tensors.count'' = Some (GI32 c)"

lemma add_shards_effect:
  assumes "(fold_res add_shard (enumerate k files) (d, declared) :: 'e split_error + tensor_directory \<times> int option) = Inr (d', declared')"
    and "names_ok d"
  shows "names_ok d' \<and>
    td_ordered d' = td_ordered d @ concat (map (\<lambda>(i, s). map (location i s) (tensors (sh_parsed s))) (enumerate k files)) \<and>
    (\<forall>s \<in> set files. \<forall>t \<in> set (tensors (sh_parsed s)). tensor_placed s t) \<and>
    (\<forall>c. declared = Some c \<longrightarrow> declared' = Some c) \<and> (\<forall>s \<in> set files. \<forall>c. declares s c \<longrightarrow> declared' = Some c)"
  using assms
proof (induction files arbitrary: k d declared)
  case (Cons s files)
  obtain declared1 d1 where first: "(add_shard (k, s) (d, declared) :: 'e split_error + _) = Inr (d1, declared1)"
    and rest: "(fold_res add_shard (enumerate (Suc k) files) (d1, declared1) :: 'e split_error + _) = Inr (d', declared')"
    using Cons.prems(1) by (auto simp: rbind_Inr)
  obtain cnt where c: "(optional_aggregate_count s :: 'e split_error + _) = Inr cnt"
    "(declare_count declared cnt :: 'e split_error + _) = Inr declared1"
    "(add_tensors k s (tensors (sh_parsed s)) d :: 'e split_error + _) = Inr d1"
    using first by (auto simp: add_shard_def rbind_Inr)
  note step = add_tensors_effect [OF c(3) Cons.prems(2)]
  note ih = Cons.IH [OF rest conjunct1 [OF step]]
  have "\<forall>c. declared = Some c \<longrightarrow> declared1 = Some c"
    using c(2) by (auto simp: declare_count_def split: option.splits if_splits)
  moreover have "\<forall>c. declares s c \<longrightarrow> declared1 = Some c"
  proof (intro allI impI)
    fix c' assume "declares s c'"
    then have "cnt = Some c'"
      using c(1) by (cases cnt) (simp_all add: declares_def optional_aggregate_count_Inr)
    then show "declared1 = Some c'"
      using c(2) by (auto simp: declare_count_def split: option.splits if_splits)
  qed
  ultimately show ?case using step ih by auto
qed simp

lemma common_fields:
  "validate_common_with p files = Inr () \<Longrightarrow>
   \<forall>s \<in> set files. version (sh_parsed s) = version (sh_parsed p) \<and> endian (sh_parsed s) = endian (sh_parsed p) \<and>
     alignment (sh_parsed s) = alignment (sh_parsed p)"
  by (induction files) (auto split: if_splits)

lemma names_ok_get:
  assumes "names_ok d"
  shows "directory_get d name = Some l \<longleftrightarrow> l \<in> set (td_ordered d) \<and> location_name l = name"
    "distinct (map location_name (td_ordered d))"
proof -
  have hit: "map_of (td_by_name d) name = Some i \<longleftrightarrow> i < length (td_ordered d) \<and> location_name (td_ordered d ! i) = name" for name i
    using assms by (simp add: names_ok_def)
  show "directory_get d name = Some l \<longleftrightarrow> l \<in> set (td_ordered d) \<and> location_name l = name"
  proof
    assume "directory_get d name = Some l"
    then obtain i where "map_of (td_by_name d) name = Some i" "i < length (td_ordered d)" "td_ordered d ! i = l"
      by (auto simp: directory_get_def bind_eq_Some_conv split: if_splits)
    then show "l \<in> set (td_ordered d) \<and> location_name l = name" using hit [of name i] by auto
  next
    assume "l \<in> set (td_ordered d) \<and> location_name l = name"
    then obtain i where i: "i < length (td_ordered d)" "td_ordered d ! i = l" "location_name l = name" by (auto simp: in_set_conv_nth)
    then have "map_of (td_by_name d) name = Some i" using hit [of name i] by blast
    then show "directory_get d name = Some l" unfolding directory_get_def using i by simp
  qed
  show "distinct (map location_name (td_ordered d))"
    unfolding distinct_conv_nth
  proof (intro allI impI)
    fix i j assume "i < length (map location_name (td_ordered d))" "j < length (map location_name (td_ordered d))" "i \<noteq> j"
    then show "map location_name (td_ordered d) ! i \<noteq> map location_name (td_ordered d) ! j"
      using hit [of "location_name (td_ordered d ! i)" i] hit [of "location_name (td_ordered d ! i)" j] by auto
  qed
qed

section \<open>Properties\<close>

text \<open>A model in two shards: the file system serves both, each with its split metadata and one tensor.\<close>

definition demo_shard :: "nat \<Rightarrow> string \<Rightarrow> gguf_file" where
  "demo_shard i name = \<lparr>version = 3, endian = Little,
     metadata = [(''split.no'', GU16 i), (''split.count'', GU16 2), (''split.tensors.count'', GI32 2)],
     tensors = [\<lparr>td_name = name, td_shape = [3, 1, 1, 1], td_n_dims = 1, td_ty = F32, td_relative_offset = 0, td_strides = [4, 0, 0, 0]\<rparr>],
     alignment = 32, data_offset = 96, file_len = 128\<rparr>"

definition demo_name :: numbered_name where
  "demo_name = \<lparr>nn_prefix = ''a-b-of-c'', nn_total = 2\<rparr>"

definition demo_path :: "nat \<Rightarrow> path" where
  "demo_path i = [''m'', numbered_filename demo_name i]"

definition demo_fs :: "unit shard_fs" where
  "demo_fs = \<lparr>fs_is_file = \<lambda>p. True, fs_canonicalize = Inr,
     fs_open_gguf = \<lambda>p. Inr (if p = demo_path 1 then demo_shard 0 ''x'' else demo_shard 1 ''y'')\<rparr>"

definition demo_files :: "gguf_shard list" where
  "demo_files = [\<lparr>sh_path = demo_path 1, sh_parsed = demo_shard 0 ''x'', sh_ordinal = 0, sh_count = 2\<rparr>,
     \<lparr>sh_path = demo_path 2, sh_parsed = demo_shard 1 ''y'', sh_ordinal = 1, sh_count = 2\<rparr>]"

lemma demo_paths_differ: "demo_path 2 \<noteq> demo_path 1"
  by (simp add: demo_path_def numbered_filename_def zero_padded_def dec_string.simps)

lemma demo_parsed: "numbered_parse (demo_path 1) = Inr (Some demo_name)"
  using parse_filename [of 1 demo_name "[''m'']"] by (simp add: demo_name_def demo_path_def)

lemma demo_discovered: "discover demo_fs (demo_path 1) = Inr demo_files"
proof -
  have p: "numbered_parse (demo_path 1) = (Inr (Some demo_name) :: unit split_error + _)" by (rule demo_parsed)
  have q: "path_parent (demo_path 1) = Some [''m'']" by (simp add: path_parent_def demo_path_def)
  have u: "[1..<Suc (nn_total demo_name)] = [1, 2]" by (simp add: demo_name_def upt_rec)
  have "discover_shard demo_fs [''m''] demo_name 1 = Inr (demo_files ! 0)"
    "discover_shard demo_fs [''m''] demo_name 2 = Inr (demo_files ! 1)"
    using demo_paths_differ
    by (simp_all add: discover_shard_def demo_fs_def demo_files_def path_parent_def demo_path_def checked_sub_def
        validate_required_split_metadata_def required_u16_def getter_defs expect_type_shape demo_shard_def demo_name_def)
  then have "discover_numbered demo_fs [''m''] demo_name = Inr demo_files"
    unfolding discover_numbered_def u by (simp add: demo_files_def)
  moreover have "fs_is_file demo_fs = (\<lambda>p. True)" "fs_canonicalize demo_fs = Inr" by (simp_all add: demo_fs_def)
  ultimately show ?thesis using p q by (simp add: discover_def)
qed

text \<open>
  Shard names are recognised exactly: a path is parsed as a numbered shard if and only if its last
  component is the name the program itself generates for some ordinal from one to the total, whatever
  dashes or \<^verbatim>\<open>-of-\<close> the prefix contains; so generating and parsing are inverse.
\<close>

theorem shard_name_exact:
  "numbered_parse p = Inr (Some n) \<longleftrightarrow>
   p \<noteq> [] \<and> nn_total n \<le> 65535 \<and> (\<exists>ordinal. 1 \<le> ordinal \<and> ordinal \<le> nn_total n \<and> last p = numbered_filename n ordinal)"
proof
  assume "numbered_parse p = Inr (Some n)"
  from parse_sound [OF this] show "p \<noteq> [] \<and> nn_total n \<le> 65535 \<and>
      (\<exists>ordinal. 1 \<le> ordinal \<and> ordinal \<le> nn_total n \<and> last p = numbered_filename n ordinal)" by blast
next
  assume "p \<noteq> [] \<and> nn_total n \<le> 65535 \<and> (\<exists>ordinal. 1 \<le> ordinal \<and> ordinal \<le> nn_total n \<and> last p = numbered_filename n ordinal)"
  then obtain ordinal where "1 \<le> ordinal" "ordinal \<le> nn_total n" "nn_total n \<le> 65535"
    "butlast p @ [numbered_filename n ordinal] = p" using append_butlast_last_id by metis
  with parse_filename show "numbered_parse p = Inr (Some n)" by metis
qed

text \<open>
  Discovery is complete and consistent: from any numbered shard it returns every shard of the set in
  order, each the canonical file of its generated name inside the same directory, opened, and with
  split metadata that states exactly its position and the number of shards. A set of one numbered
  shard is refused.
\<close>

theorem discovery_complete:
  fixes fs :: "'e shard_fs"
  assumes "discover fs entry = Inr files" "fs_canonicalize fs entry = Inr entry'" "numbered_parse entry' = (Inr (Some n) :: 'e split_error + _)"
  shows "length files = nn_total n \<and> 2 \<le> nn_total n \<and>
    (\<forall>i < nn_total n. shard_ok fs (butlast entry') n i (files ! i))"
proof -
  obtain parent where parent: "path_parent entry' = Some parent" and run: "discover_numbered fs parent n = Inr files"
    using assms by (auto simp: discover_def Let_def rbind_Inr split: if_splits)
  have b: "parent = butlast entry'" using parent by (auto simp: path_parent_def split: if_splits)
  note shards = discover_numbered_shards [OF run]
  obtain ordinal where "1 \<le> ordinal" "ordinal \<le> nn_total n" using parse_sound [OF assms(3)] by blast
  moreover have "nn_total n \<noteq> 1"
  proof
    assume "nn_total n = 1"
    then have "\<exists>s. discover_shard fs parent n 1 = Inr s"
      using run by (auto simp: discover_numbered_def rbind_Inr)
    then show False
      using \<open>nn_total n = 1\<close> by (auto simp: discover_shard_def validate_required_split_metadata_def Let_def rbind_Inr split: if_splits)
  qed
  ultimately show ?thesis using shards b by auto
qed

lemma discovery_complete_witness: "shard_ok demo_fs [''m''] demo_name 1 (demo_files ! 1)"
proof -
  have p: "numbered_parse (demo_path 1) = (Inr (Some demo_name) :: unit split_error + _)" by (rule demo_parsed)
  have c: "fs_canonicalize demo_fs (demo_path 1) = Inr (demo_path 1)" by (simp add: demo_fs_def)
  have "nn_total demo_name = 2" "butlast (demo_path 1) = [''m'']" by (simp_all add: demo_name_def demo_path_def)
  with discovery_complete [OF demo_discovered c p] show ?thesis by simp
qed

text \<open>
  The tensor directory of a set lists every tensor of every shard once, in file order: all shards agree
  on version, byte order and alignment; names are unique across the set and looking a name up finds
  exactly the tensor with that name; every tensor is aligned and its range was checked against its own
  shard; and a total that a shard declares is the number of tensors.
\<close>

theorem directory_exact:
  assumes "build_directory files = Inr d"
  shows "td_ordered d = concat (map (\<lambda>(i, s). map (location i s) (tensors (sh_parsed s))) (enumerate 0 files)) \<and>
    (\<forall>s \<in> set files. version (sh_parsed s) = version (sh_parsed (hd files)) \<and>
       endian (sh_parsed s) = endian (sh_parsed (hd files)) \<and> alignment (sh_parsed s) = alignment (sh_parsed (hd files)) \<and>
       (\<forall>t \<in> set (tensors (sh_parsed s)). tensor_placed s t) \<and>
       (\<forall>c. declares s c \<longrightarrow> c = int (length (td_ordered d)))) \<and>
    distinct (map location_name (td_ordered d)) \<and>
    (\<forall>name l. directory_get d name = Some l \<longleftrightarrow> l \<in> set (td_ordered d) \<and> location_name l = name)"
proof -
  obtain declared where common: "(validate_common_fields files :: 'a split_error + unit) = Inr ()"
    and run: "(fold_res add_shard (enumerate 0 files) (\<lparr>td_ordered = [], td_by_name = []\<rparr>, None) :: 'a split_error + _) = Inr (d, declared)"
    and total': "\<forall>c. declared = Some c \<longrightarrow> c = int (length (td_ordered d))"
    using assms by (auto simp: build_directory_def rbind_Inr split: option.splits if_splits)
  have "names_ok \<lparr>td_ordered = [], td_by_name = []\<rparr>" by (simp add: names_ok_def)
  note shards = add_shards_effect [OF run this]
  have "\<forall>s \<in> set files. version (sh_parsed s) = version (sh_parsed (hd files)) \<and>
       endian (sh_parsed s) = endian (sh_parsed (hd files)) \<and> alignment (sh_parsed s) = alignment (sh_parsed (hd files))"
  proof (cases files)
    case (Cons p rest)
    then show ?thesis using common common_fields [of p rest] by (auto simp: validate_common_fields_def)
  qed simp
  with shards names_ok_get [of d] total' show ?thesis by simp
qed

lemma directory_exact_witness:
  "\<exists>d. build_directory demo_files = (Inr d :: unit split_error + _) \<and> distinct (map location_name (td_ordered d)) \<and> length (td_ordered d) = 2"
proof -
  have range: "checked_absolute_range \<lparr>td_name = n, td_shape = [3, 1, 1, 1], td_n_dims = 1, td_ty = F32, td_relative_offset = 0,
      td_strides = [4, 0, 0, 0]\<rparr> 96 128 = Inr (96, 108)" for n
    by (simp add: checked_absolute_range_def encoded_bytes_def row_bytes_def row_size_def checked_mul_def checked_add_def
        u64_limit_def Let_def)
  have "\<exists>d. build_directory demo_files = (Inr d :: unit split_error + _) \<and> length (td_ordered d) = 2"
    using range
    by (simp add: build_directory_def validate_common_fields_def demo_files_def demo_shard_def add_shard_def
        optional_aggregate_count_def get_i32_def expect_type_shape declare_count_def Let_def)
  then obtain d where "build_directory demo_files = (Inr d :: unit split_error + _)" "length (td_ordered d) = 2" by blast
  with directory_exact [OF this(1)] show ?thesis by blast
qed

end
