(* ===== verification/Str_Ops.thy ===== *)
theory Str_Ops
  imports Bytes
begin

text \<open>
  The operations of \<^verbatim>\<open>str\<close> the text components call: substring search, \<^verbatim>\<open>split_once\<close>, \<^verbatim>\<open>strip_prefix\<close>,
  \<^verbatim>\<open>trim_start_matches\<close>, \<^verbatim>\<open>trim_matches\<close> and \<^verbatim>\<open>char_indices\<close>, on strings that are lists of UTF-8 bytes. Each operation
  comes with the characterisation its users rely on.
\<close>

section \<open>Character boundaries\<close>

text \<open>\<^verbatim>\<open>char_indices\<close> yields the offsets of the bytes that are not UTF-8 continuation bytes.\<close>

definition char_start :: "char \<Rightarrow> bool" where
  "char_start c \<longleftrightarrow> (of_char c :: nat) < 128 \<or> 192 \<le> (of_char c :: nat)"

definition begins_char :: "string \<Rightarrow> bool" where
  "begins_char s = (case s of [] \<Rightarrow> True | c # _ \<Rightarrow> char_start c)"

definition char_indices :: "string \<Rightarrow> nat list" where
  "char_indices s = filter (\<lambda>i. char_start (s ! i)) [0..<length s]"

lemma begins_char_simps [simp]: "begins_char []" "begins_char (c # s) \<longleftrightarrow> char_start c"
  by (simp_all add: begins_char_def)

lemma set_char_indices: "i \<in> set (char_indices s) \<longleftrightarrow> i < length s \<and> char_start (s ! i)"
  by (auto simp: char_indices_def)

lemma begins_char_drop: "begins_char (drop i s) \<longleftrightarrow> length s \<le> i \<or> char_start (s ! i)"
proof (cases "i < length s")
  case True
  then have "drop i s = s ! i # drop (Suc i) s" by (rule Cons_nth_drop_Suc [symmetric])
  then show ?thesis using True by simp
qed simp

lemma of_char_less: "(of_char c :: nat) < 256"
  using of_char_of [of "of_char c :: nat"] by simp

lemma utf8_begins_char: "utf8_valid (bytes_of_str s) \<Longrightarrow> begins_char s"
proof (cases s)
  case (Cons c t)
  assume v: "utf8_valid (bytes_of_str s)"
  have u: "unat (word_of_nat (of_char c) :: byte) = of_char c" using of_char_less [of c] by simp
  show ?thesis
  proof (rule ccontr)
    assume "\<not> begins_char s"
    then have n: "128 \<le> (of_char c :: nat)" "(of_char c :: nat) < 192" by (auto simp: Cons char_start_def)
    have "\<not> (word_of_nat (of_char c) :: byte) \<le> 0x7F" "\<not> 0xC2 \<le> (word_of_nat (of_char c) :: byte)"
      "\<not> 0xE0 \<le> (word_of_nat (of_char c) :: byte)" "\<not> 0xF0 \<le> (word_of_nat (of_char c) :: byte)"
      using n by (simp_all add: word_le_nat_alt u)
    with v show False by (simp add: Cons bytes_of_str_def)
  qed
qed simp

section \<open>Substring search\<close>

text \<open>\<^verbatim>\<open>str::find\<close>: the offset of the first occurrence.\<close>

fun find_str :: "string \<Rightarrow> string \<Rightarrow> nat option" where
  "find_str [] p = (if p = [] then Some 0 else None)"
| "find_str (c # t) p = (if prefix p (c # t) then Some 0 else map_option Suc (find_str t p))"

lemma find_str_Some:
  "find_str t p = Some i \<longleftrightarrow> i \<le> length t \<and> prefix p (drop i t) \<and> (\<forall>j<i. \<not> prefix p (drop j t))"
proof (induction t p arbitrary: i rule: find_str.induct)
  case (2 c t p)
  show ?case
  proof (cases "prefix p (c # t)")
    case True
    then show ?thesis by (cases i) auto
  next
    case False
    then have f: "find_str (c # t) p = map_option Suc (find_str t p)" by simp
    show ?thesis
    proof (cases i)
      case 0
      then show ?thesis using False by (simp add: f)
    next
      case (Suc k)
      have "(\<forall>j<Suc k. \<not> prefix p (drop j (c # t))) \<longleftrightarrow> (\<forall>j<k. \<not> prefix p (drop j t))"
        using False by (auto simp: less_Suc_eq_0_disj)
      then show ?thesis unfolding f Suc using 2 [OF False, of k] by auto
    qed
  qed
qed auto

lemma find_str_None: "find_str t p = None \<longleftrightarrow> (\<forall>j \<le> length t. \<not> prefix p (drop j t))"
proof (induction t p rule: find_str.induct)
  case (2 c t p)
  show ?case
  proof (cases "prefix p (c # t)")
    case False
    have "(\<forall>j \<le> length (c # t). \<not> prefix p (drop j (c # t))) \<longleftrightarrow> (\<forall>j \<le> length t. \<not> prefix p (drop j t))"
    proof
      assume l: "\<forall>j \<le> length (c # t). \<not> prefix p (drop j (c # t))"
      show "\<forall>j \<le> length t. \<not> prefix p (drop j t)"
      proof (intro allI impI)
        fix j assume "j \<le> length t"
        with l [rule_format, of "Suc j"] show "\<not> prefix p (drop j t)" by simp
      qed
    next
      assume r: "\<forall>j \<le> length t. \<not> prefix p (drop j t)"
      show "\<forall>j \<le> length (c # t). \<not> prefix p (drop j (c # t))"
      proof (intro allI impI)
        fix j assume "j \<le> length (c # t)"
        with r False show "\<not> prefix p (drop j (c # t))" by (cases j) auto
      qed
    qed
    then show ?thesis using False 2 [OF False] by simp
  qed (auto intro: exI [of _ 0])
qed auto

lemma find_str_split: "find_str t p = Some i \<Longrightarrow> t = take i t @ p @ drop (i + length p) t"
proof -
  assume "find_str t p = Some i"
  then have "prefix p (drop i t)" by (simp add: find_str_Some)
  then obtain r where r: "drop i t = p @ r" by (auto simp: prefix_def)
  have "drop (i + length p) t = drop (length p) (drop i t)" by (simp add: add.commute)
  also have "\<dots> = r" by (simp add: r)
  finally show ?thesis using r by (metis append_take_drop_id)
qed

text \<open>\<^verbatim>\<open>split_once\<close>: the parts around the first occurrence.\<close>

definition split_once :: "string \<Rightarrow> string \<Rightarrow> (string \<times> string) option" where
  "split_once t p = map_option (\<lambda>i. (take i t, drop (i + length p) t)) (find_str t p)"

lemma split_once_Some: "split_once t p = Some (a, b) \<Longrightarrow> t = a @ p @ b"
  by (auto simp: split_once_def dest: find_str_split)

text \<open>\<^verbatim>\<open>strip_prefix\<close>.\<close>

definition strip_prefix :: "string \<Rightarrow> string \<Rightarrow> string option" where
  "strip_prefix t p = (if prefix p t then Some (drop (length p) t) else None)"

lemma strip_prefix_append [simp]: "strip_prefix (p @ t) p = Some t"
  by (simp add: strip_prefix_def)

lemma strip_prefix_Some: "strip_prefix t p = Some r \<longleftrightarrow> t = p @ r"
  by (auto simp: strip_prefix_def prefix_def)

end
