(* ===== verification/Stop_Filter.thy ===== *)
theory Stop_Filter
  imports Str_Ops
begin

text \<open>
  Stop sequences of the chat engine (\<^verbatim>\<open>TextStopFilter\<close> and \<^verbatim>\<open>truncate_at_first_stop\<close> in
  \<^verbatim>\<open>bridge-runtime/src/chat_engine.rs\<close>). The filter receives the decoded text chunk by chunk and withholds
  the longest suffix that may still become a stop sequence; the truncation cuts a complete text.
  The lemmas show that the two agree on every chunking, and that what was emitted is never to be
  taken back.
\<close>

section \<open>Definitions\<close>

fun min_opt :: "nat list \<Rightarrow> nat option" where
  "min_opt [] = None"
| "min_opt (x # xs) = (case min_opt xs of None \<Rightarrow> Some x | Some y \<Rightarrow> Some (min x y))"

fun max_or_zero :: "nat list \<Rightarrow> nat" where
  "max_or_zero [] = 0"
| "max_or_zero (x # xs) = max x (max_or_zero xs)"

definition first_stop :: "string list \<Rightarrow> string \<Rightarrow> nat option" where
  "first_stop stops t = min_opt (List.map_filter (find_str t) stops)"

definition truncate_at_first_stop :: "string \<Rightarrow> string list \<Rightarrow> string" where
  "truncate_at_first_stop t stops = take (case first_stop stops t of None \<Rightarrow> length t | Some i \<Rightarrow> i) t"

record text_stop_filter =
  stop_sequences :: "string list"
  pending :: string

record text_stop_update =
  up_text :: string
  up_stopped :: bool

definition filter_new :: "string list \<Rightarrow> text_stop_filter" where
  "filter_new stops = \<lparr>stop_sequences = stops, pending = []\<rparr>"

text \<open>The prefixes of a stop sequence that end at a character boundary, the whole included.\<close>

definition stop_prefixes :: "string \<Rightarrow> string list" where
  "stop_prefixes stop = map (\<lambda>n. take n stop) (drop 1 (char_indices stop) @ [length stop])"

definition held_back :: "string list \<Rightarrow> string \<Rightarrow> nat" where
  "held_back stops p =
     max_or_zero (map length (filter (\<lambda>q. suffix q p) (concat (map stop_prefixes stops))))"

definition filter_push :: "text_stop_filter \<Rightarrow> string \<Rightarrow> text_stop_update \<times> text_stop_filter" where
  "filter_push f chunk =
     (let p = pending f @ chunk
      in case first_stop (stop_sequences f) p of
           Some i \<Rightarrow> (\<lparr>up_text = take i p, up_stopped = True\<rparr>, f\<lparr>pending := []\<rparr>)
         | None \<Rightarrow>
             let emit_len = length p - held_back (stop_sequences f) p
             in (\<lparr>up_text = take emit_len p, up_stopped = False\<rparr>, f\<lparr>pending := drop emit_len p\<rparr>))"

definition filter_finish :: "text_stop_filter \<Rightarrow> string \<times> text_stop_filter" where
  "filter_finish f = (pending f, f\<lparr>pending := []\<rparr>)"

text \<open>The pushes of a completion: the caller stops at the first update that is \<^verbatim>\<open>stopped\<close>.\<close>

fun push_all :: "text_stop_filter \<Rightarrow> string list \<Rightarrow> string \<times> bool \<times> text_stop_filter \<times> string list" where
  "push_all f [] = ([], False, f, [])"
| "push_all f (c # cs) =
     (let (u, f') = filter_push f c
      in if up_stopped u then (up_text u, True, f', cs)
         else let (t, st, g, rest) = push_all f' cs in (up_text u @ t, st, g, rest))"

section \<open>The earliest occurrence\<close>

definition stops_at :: "string list \<Rightarrow> string \<Rightarrow> nat \<Rightarrow> bool" where
  "stops_at stops t i \<longleftrightarrow> (\<exists>p \<in> set stops. prefix p (drop i t))"

lemma min_opt_Some: "min_opt xs = Some m \<longleftrightarrow> m \<in> set xs \<and> (\<forall>x \<in> set xs. m \<le> x)"
proof (induction xs arbitrary: m)
  case (Cons x xs)
  show ?case
  proof (cases "min_opt xs")
    case None
    then have "xs = []" by (cases xs) (auto split: option.splits)
    then show ?thesis by auto
  next
    case (Some y)
    then have "y \<in> set xs" "\<forall>x \<in> set xs. y \<le> x" using Cons by blast+
    then show ?thesis using Some by (auto simp: min_def intro: le_antisym)
  qed
qed simp

lemma min_opt_None [simp]: "min_opt xs = None \<longleftrightarrow> xs = []"
  by (cases xs) (auto split: option.splits)

lemma max_or_zero_le: "x \<in> set xs \<Longrightarrow> x \<le> max_or_zero xs"
  by (induction xs) auto

lemma max_or_zero_in: "max_or_zero xs \<noteq> 0 \<Longrightarrow> max_or_zero xs \<in> set xs"
proof (induction xs)
  case (Cons x xs)
  then show ?case by (cases "max_or_zero xs = 0") (auto simp: max_def)
qed simp

lemma set_map_filter_find:
  "i \<in> set (List.map_filter (find_str t) stops) \<longleftrightarrow> (\<exists>p \<in> set stops. find_str t p = Some i)"
  by (force simp: List.map_filter_def)

lemma first_stop_Some:
  "first_stop stops t = Some i \<longleftrightarrow> i \<le> length t \<and> stops_at stops t i \<and> (\<forall>j<i. \<not> stops_at stops t j)"
proof
  assume "first_stop stops t = Some i"
  then have i: "i \<in> set (List.map_filter (find_str t) stops)"
    and least: "\<forall>k \<in> set (List.map_filter (find_str t) stops). i \<le> k"
    by (simp_all add: first_stop_def min_opt_Some)
  from i obtain p where p: "p \<in> set stops" "find_str t p = Some i" by (auto simp: set_map_filter_find)
  have "\<not> stops_at stops t j" if "j < i" for j
  proof
    assume "stops_at stops t j"
    then obtain q where q: "q \<in> set stops" "prefix q (drop j t)" by (auto simp: stops_at_def)
    have "j \<le> length t" using p(2) \<open>j < i\<close> by (simp add: find_str_Some)
    with q(2) obtain k where k: "find_str t q = Some k" by (metis find_str_None not_None_eq)
    then have "k \<le> j" using q(2) by (metis find_str_Some leI)
    moreover have "i \<le> k" using least k q(1) by (auto simp: set_map_filter_find)
    ultimately show False using \<open>j < i\<close> by simp
  qed
  then show "i \<le> length t \<and> stops_at stops t i \<and> (\<forall>j<i. \<not> stops_at stops t j)"
    using p by (auto simp: find_str_Some stops_at_def)
next
  assume r: "i \<le> length t \<and> stops_at stops t i \<and> (\<forall>j<i. \<not> stops_at stops t j)"
  then obtain p where p: "p \<in> set stops" "prefix p (drop i t)" by (auto simp: stops_at_def)
  have "find_str t p = Some i" using p r by (auto simp: find_str_Some stops_at_def)
  moreover have "i \<le> k" if "find_str t q = Some k" "q \<in> set stops" for q k
  proof (rule ccontr)
    assume "\<not> i \<le> k"
    then have "\<not> stops_at stops t k" using r by simp
    moreover have "prefix q (drop k t)" using that(1) by (simp add: find_str_Some)
    ultimately show False using that(2) by (auto simp: stops_at_def)
  qed
  ultimately show "first_stop stops t = Some i"
    using p(1) by (auto simp: first_stop_def min_opt_Some set_map_filter_find)
qed

lemma first_stop_None: "first_stop stops t = None \<longleftrightarrow> (\<forall>j \<le> length t. \<not> stops_at stops t j)"
proof -
  have "first_stop stops t = None \<longleftrightarrow> (\<forall>i. i \<notin> set (List.map_filter (find_str t) stops))"
    by (auto simp: first_stop_def)
  also have "\<dots> \<longleftrightarrow> (\<forall>p \<in> set stops. find_str t p = None)" by (simp add: set_map_filter_find) (metis not_None_eq)
  finally show ?thesis by (auto simp: find_str_None stops_at_def)
qed

section \<open>What is withheld\<close>

lemma char_indices_tail:
  assumes "begins_char q" "0 < n" "n < length q" "char_start (q ! n)"
  shows "n \<in> set (drop 1 (char_indices q))"
proof -
  from assms obtain c t where q: "q = c # t" "char_start c" by (cases q) auto
  have "char_indices q = 0 # filter (\<lambda>i. char_start (q ! i)) [1..<length q]"
    using q by (simp add: char_indices_def upt_conv_Cons [of 0] del: upt_Suc)
  then show ?thesis using assms by simp
qed

lemma stop_prefixes_in:
  assumes "begins_char q" "q = a @ b" "begins_char b" "a \<noteq> []"
  shows "a \<in> set (stop_prefixes q)"
proof (cases "b = []")
  case True
  then show ?thesis using assms by (simp add: stop_prefixes_def)
next
  case False
  then have "char_start (q ! length a)" using assms(2,3) by (cases b) (auto simp: nth_append)
  then have "length a \<in> set (drop 1 (char_indices q))"
    using assms False by (intro char_indices_tail) auto
  moreover have "take (length a) q = a" using assms(2) by simp
  ultimately show ?thesis unfolding stop_prefixes_def by (metis imageI list.set_map UnI1 set_append)
qed

lemma stop_prefixes_split: "a \<in> set (stop_prefixes q) \<Longrightarrow> \<exists>b. q = a @ b \<and> begins_char b"
proof -
  assume "a \<in> set (stop_prefixes q)"
  then obtain n where n: "a = take n q" "n \<in> set (drop 1 (char_indices q)) \<or> n = length q"
    unfolding stop_prefixes_def set_map set_append by (elim imageE) (simp only: Un_iff list.set insert_iff empty_iff, blast)
  then have "begins_char (drop n q)"
    using set_drop_subset [of 1 "char_indices q"] by (auto simp: begins_char_drop set_char_indices)
  then show ?thesis using n(1) by (metis append_take_drop_id)
qed

lemma held_back_longest:
  assumes "q \<in> set stops" "a \<in> set (stop_prefixes q)" "suffix a p"
  shows "length a \<le> held_back stops p"
  unfolding held_back_def using assms by (intro max_or_zero_le) auto

text \<open>Text that some stop sequence continues.\<close>

definition undecided :: "string list \<Rightarrow> string \<Rightarrow> bool" where
  "undecided stops p \<longleftrightarrow> p = [] \<or> (\<exists>q \<in> set stops. \<exists>u. q = p @ u \<and> begins_char u)"

lemma held_back_undecided:
  "held_back stops p \<le> length p \<and> undecided stops (drop (length p - held_back stops p) p)"
proof (cases "held_back stops p = 0")
  case False
  from max_or_zero_in [OF False [unfolded held_back_def]]
  obtain q a where q: "q \<in> set stops" "a \<in> set (stop_prefixes q)" "suffix a p" "held_back stops p = length a"
    by (auto simp: held_back_def)
  from q(3) obtain b where "p = b @ a" by (auto simp: suffix_def)
  then show ?thesis using q stop_prefixes_split [OF q(2)] by (auto simp: undecided_def)
qed (simp add: undecided_def)

lemma held_back_le: "held_back stops p \<le> length p"
  using held_back_undecided [of stops p] ..

text \<open>A stop sequence that begins at an offset and is not yet complete.\<close>

definition may_start :: "string list \<Rightarrow> string \<Rightarrow> nat \<Rightarrow> bool" where
  "may_start stops t j \<longleftrightarrow> (\<exists>p \<in> set stops. \<exists>u. p = drop j t @ u \<and> begins_char u)"

text \<open>
  The invariant of the filter: nothing emitted belongs to a stop sequence, complete or not, and the
  received text holds no complete one.
\<close>

definition settled :: "string list \<Rightarrow> string \<Rightarrow> string \<Rightarrow> bool" where
  "settled stops e p \<longleftrightarrow>
     first_stop stops (e @ p) = None \<and> (\<forall>j < length e. \<not> may_start stops (e @ p) j)"

lemma settled_not_stops:
  "settled stops e p \<Longrightarrow> j < length e \<Longrightarrow> \<not> stops_at stops (e @ p) j"
  by (simp add: settled_def first_stop_None)

lemma settled_extend:
  assumes s: "settled stops e p" and c: "begins_char c" and j: "j < length e"
  shows "\<not> stops_at stops (e @ p @ c) j" "\<not> may_start stops (e @ p @ c) j"
proof -
  have d: "drop j (e @ p @ c) = drop j (e @ p) @ c" using j by simp
  have m: "\<not> may_start stops (e @ p) j" using s j by (simp add: settled_def)
  show "\<not> stops_at stops (e @ p @ c) j"
  proof
    assume "stops_at stops (e @ p @ c) j"
    then obtain q where q: "q \<in> set stops" "prefix q (drop j (e @ p) @ c)"
      unfolding stops_at_def d by blast
    from q(2) consider "prefix q (drop j (e @ p))" | us where "q = drop j (e @ p) @ us" "prefix us c"
      unfolding prefix_append by blast
    then show False
    proof cases
      case 1
      with q(1) settled_not_stops [OF s j] show False by (auto simp: stops_at_def)
    next
      case 2
      from 2(2) c have "begins_char us" by (cases us) (auto simp: prefix_def)
      with 2(1) q(1) m show False by (auto simp: may_start_def)
    qed
  qed
  show "\<not> may_start stops (e @ p @ c) j"
  proof
    assume "may_start stops (e @ p @ c) j"
    then obtain q u where "q \<in> set stops" "q = drop j (e @ p) @ c @ u" "begins_char u"
      unfolding may_start_def d append_assoc by blast
    moreover then have "begins_char (c @ u)" using c by (cases c) auto
    ultimately show False using m by (auto simp: may_start_def)
  qed
qed

lemma stops_at_shift: "length e \<le> j \<Longrightarrow> stops_at stops (e @ p) j = stops_at stops p (j - length e)"
  by (simp add: stops_at_def)

lemma first_stop_shift:
  assumes "\<forall>j < length e. \<not> stops_at stops (e @ x) j"
  shows "first_stop stops (e @ x) = map_option ((+) (length e)) (first_stop stops x)"
proof (cases "first_stop stops x")
  case None
  have "\<not> stops_at stops (e @ x) j" if "j \<le> length (e @ x)" for j
    using None assms that by (cases "j < length e") (auto simp: first_stop_None stops_at_shift)
  then have "first_stop stops (e @ x) = None" by (simp only: first_stop_None) blast
  then show ?thesis using None by simp
next
  case (Some i)
  then have i: "i \<le> length x" "stops_at stops x i" "\<forall>j<i. \<not> stops_at stops x j"
    by (simp_all add: first_stop_Some)
  have "\<not> stops_at stops (e @ x) j" if "j < length e + i" for j
    using i(3) assms that by (cases "j < length e") (auto simp: stops_at_shift)
  then have "first_stop stops (e @ x) = Some (length e + i)"
    using i by (simp add: first_stop_Some stops_at_shift)
  then show ?thesis using Some by simp
qed

lemma filter_push_settled:
  assumes s: "settled stops e (pending f)" and f: "stop_sequences f = stops"
    and v: "\<forall>q \<in> set stops. begins_char q" and c: "begins_char c"
    and push: "filter_push f c = (u, f')"
  shows "stop_sequences f' = stops" and "up_stopped u \<longleftrightarrow> first_stop stops (e @ pending f @ c) \<noteq> None"
    and "e @ up_text u @ pending f' = truncate_at_first_stop (e @ pending f @ c) stops"
    and "\<not> up_stopped u \<Longrightarrow> settled stops (e @ up_text u) (pending f')"
proof -
  let ?p = "pending f @ c"
  let ?t = "e @ pending f @ c"
  have shift: "first_stop stops ?t = map_option ((+) (length e)) (first_stop stops ?p)"
    using settled_extend(1) [OF s c] by (intro first_stop_shift) simp
  have *: "stop_sequences f' = stops \<and> (up_stopped u \<longleftrightarrow> first_stop stops ?t \<noteq> None) \<and>
    e @ up_text u @ pending f' = truncate_at_first_stop ?t stops \<and>
    (\<not> up_stopped u \<longrightarrow> settled stops (e @ up_text u) (pending f'))"
  proof (cases "first_stop stops ?p")
    case (Some i)
    then have "u = \<lparr>up_text = take i ?p, up_stopped = True\<rparr>" "f' = f\<lparr>pending := []\<rparr>"
      using push f by (simp_all add: filter_push_def Let_def)
    then show ?thesis using Some shift f by (simp add: truncate_at_first_stop_def)
  next
    case None
    let ?n = "length ?p - held_back stops ?p"
    have u: "u = \<lparr>up_text = take ?n ?p, up_stopped = False\<rparr>" "f' = f\<lparr>pending := drop ?n ?p\<rparr>"
      using push f None by (simp_all add: filter_push_def Let_def)
    have nt: "first_stop stops ?t = None" using None shift by simp
    have "\<not> may_start stops ?t j" if j: "j < length (e @ take ?n ?p)" for j
    proof (cases "j < length e")
      case True
      then show ?thesis using settled_extend(2) [OF s c] by simp
    next
      case False
      define k where "k = j - length e"
      have k: "k < ?n" "k < length ?p" using j False by (auto simp: k_def)
      show ?thesis
      proof
        assume "may_start stops ?t j"
        then obtain q w where q: "q \<in> set stops" "q = drop k ?p @ w" "begins_char w"
          using False by (auto simp: may_start_def k_def)
        have "drop k ?p \<in> set (stop_prefixes q)"
          using q v k(2) by (intro stop_prefixes_in [of q _ w]) auto
        then have "length (drop k ?p) \<le> held_back stops ?p"
          using q(1) suffix_drop by (intro held_back_longest [of q])
        then show False using k by (simp add: held_back_le)
      qed
    qed
    moreover have "(e @ take ?n ?p) @ drop ?n ?p = ?t" by (simp only: append_assoc append_take_drop_id)
    ultimately have "settled stops (e @ take ?n ?p) (drop ?n ?p)"
      using nt by (simp only: settled_def) blast
    then show ?thesis
      using u f nt by (simp add: truncate_at_first_stop_def del: take_append drop_append)
  qed
  from * show "stop_sequences f' = stops" "up_stopped u \<longleftrightarrow> first_stop stops ?t \<noteq> None"
    "e @ up_text u @ pending f' = truncate_at_first_stop ?t stops"
    "\<not> up_stopped u \<Longrightarrow> settled stops (e @ up_text u) (pending f')" by auto
qed

lemma push_all_settled:
  assumes "settled stops e (pending f)" "stop_sequences f = stops"
    and "\<forall>q \<in> set stops. begins_char q" "\<forall>c \<in> set cs. begins_char c"
    and "push_all f cs = (t, st, g, rest)"
  shows "\<exists>used. cs = used @ rest \<and>
    e @ t @ pending g = truncate_at_first_stop (e @ pending f @ concat used) stops \<and>
    (st \<longleftrightarrow> first_stop stops (e @ pending f @ concat used) \<noteq> None) \<and>
    (\<not> st \<longrightarrow> rest = [] \<and> settled stops (e @ t) (pending g)) \<and>
    (\<forall>pre. strict_prefix pre used \<longrightarrow> first_stop stops (e @ pending f @ concat pre) = None)"
  using assms
proof (induction cs arbitrary: e f t)
  case Nil
  then show ?case by (auto simp: settled_def truncate_at_first_stop_def)
next
  case (Cons c cs)
  obtain u f' where push: "filter_push f c = (u, f')" by (cases "filter_push f c")
  from Cons.prems have c: "begins_char c" and cs: "\<forall>c \<in> set cs. begins_char c" by auto
  note step = filter_push_settled [OF Cons.prems(1,2,3) c push]
  have n0: "first_stop stops (e @ pending f) = None" using Cons.prems(1) by (simp add: settled_def)
  show ?case
  proof (cases "up_stopped u")
    case True
    then have r: "t = up_text u" "st" "g = f'" "rest = cs" using Cons.prems(5) push by auto
    have "first_stop stops (e @ pending f @ concat pre) = None" if "strict_prefix pre [c]" for pre
      using that n0 by (cases pre) (auto simp: strict_prefix_def prefix_Cons)
    then show ?thesis using step True r by (intro exI [of _ "[c]"]) auto
  next
    case False
    obtain t' where t': "push_all f' cs = (t', st, g, rest)" "t = up_text u @ t'"
      using Cons.prems(5) push False by (auto split: prod.splits)
    have eq: "(e @ up_text u) @ pending f' @ x = e @ pending f @ c @ x" for x
      using step(2,3) False by (simp add: truncate_at_first_stop_def)
    from Cons.IH [OF step(4) [OF False] step(1) Cons.prems(3) cs t'(1)]
    obtain used where used: "cs = used @ rest"
      "(e @ up_text u) @ t' @ pending g = truncate_at_first_stop (e @ pending f @ c @ concat used) stops"
      "st \<longleftrightarrow> first_stop stops (e @ pending f @ c @ concat used) \<noteq> None"
      "\<not> st \<longrightarrow> rest = [] \<and> settled stops ((e @ up_text u) @ t') (pending g)"
      "\<forall>pre. strict_prefix pre used \<longrightarrow> first_stop stops (e @ pending f @ c @ concat pre) = None"
      unfolding eq by blast
    have "first_stop stops (e @ pending f @ concat pre) = None" if "strict_prefix pre (c # used)" for pre
    proof (cases pre)
      case Nil
      then show ?thesis using n0 by simp
    next
      case (Cons d pre')
      with that have "d = c" "strict_prefix pre' used" by (auto simp: strict_prefix_def)
      then show ?thesis using used(5) Cons by simp
    qed
    then show ?thesis using used t'(2) by (intro exI [of _ "c # used"]) auto
  qed
qed

lemma settled_new: "\<forall>q \<in> set stops. q \<noteq> [] \<Longrightarrow> settled stops [] []"
  by (auto simp: settled_def first_stop_None stops_at_def)

lemma filter_push_undecided:
  assumes "filter_push f c = (u, f')"
  shows "undecided (stop_sequences f) (pending f')"
  using assms held_back_undecided [of "stop_sequences f" "pending f @ c"]
  by (auto simp: filter_push_def Let_def undecided_def split: option.splits simp del: drop_append)

lemma push_all_undecided:
  assumes "undecided (stop_sequences f) (pending f)" "push_all f cs = (t, st, g, rest)"
  shows "undecided (stop_sequences f) (pending g) \<and> stop_sequences g = stop_sequences f"
  using assms
proof (induction cs arbitrary: f t)
  case (Cons c cs)
  obtain u f' where push: "filter_push f c = (u, f')" by (cases "filter_push f c")
  then have s: "stop_sequences f' = stop_sequences f"
    by (auto simp: filter_push_def Let_def split: option.splits)
  note und = filter_push_undecided [OF push]
  show ?case using Cons.prems(2) push s und Cons.IH [of f']
    by (auto split: if_splits prod.splits)
qed simp

section \<open>Properties\<close>

text \<open>
  Streaming agrees with cutting the complete text, for every way the decoded text falls into
  chunks: what was emitted, together with what \<^verbatim>\<open>finish\<close> releases, is the received text cut before
  its earliest stop sequence. The stream ends at the first chunk that completes a stop sequence and
  at no earlier one, and it reports a stop exactly when the received text holds a stop sequence.
\<close>

theorem stop_filter_streams:
  assumes "\<forall>s \<in> set stops. s \<noteq> [] \<and> utf8_valid (bytes_of_str s)"
    and "\<forall>c \<in> set chunks. utf8_valid (bytes_of_str c)"
    and "push_all (filter_new stops) chunks = (emitted, st, f, rest)"
  shows "\<exists>received. chunks = received @ rest \<and>
    emitted @ fst (filter_finish f) = truncate_at_first_stop (concat received) stops \<and>
    (st \<longleftrightarrow> first_stop stops (concat received) \<noteq> None) \<and>
    (\<not> st \<longrightarrow> rest = []) \<and>
    (\<forall>earlier. strict_prefix earlier received \<longrightarrow> first_stop stops (concat earlier) = None)"
  using push_all_settled [of stops "[]" "filter_new stops" chunks emitted st f rest] settled_new [of stops] assms
  by (auto simp: filter_new_def filter_finish_def utf8_begins_char)

lemma stop_filter_streams_witness:
  "\<exists>received. [''ab</'', ''done>x'', ''y''] = received @ [''y''] \<and>
    ''ab'' @ fst (filter_finish (filter_new [''</done>''])) =
      truncate_at_first_stop (concat received) [''</done>''] \<and>
    (True \<longleftrightarrow> first_stop [''</done>''] (concat received) \<noteq> None) \<and>
    (\<not> True \<longrightarrow> [''y''] = []) \<and>
    (\<forall>earlier. strict_prefix earlier received \<longrightarrow> first_stop [''</done>''] (concat earlier) = None)"
  by (rule stop_filter_streams) code_simp+

text \<open>
  Emitted text is final and nothing is withheld without need. As long as no stop sequence is
  complete, every text that can follow leaves the emitted part in front of the first stop
  sequence; and when text is withheld, one continuation turns it into a stop sequence that starts
  exactly there, so that emitting a single byte more would have been wrong.
\<close>

theorem stop_filter_final:
  assumes "\<forall>s \<in> set stops. s \<noteq> [] \<and> utf8_valid (bytes_of_str s)"
    and "\<forall>c \<in> set chunks. utf8_valid (bytes_of_str c)"
    and "push_all (filter_new stops) chunks = (emitted, False, f, rest)"
  shows "(\<forall>more. utf8_valid (bytes_of_str more) \<longrightarrow>
      prefix emitted (truncate_at_first_stop (concat chunks @ more) stops)) \<and>
    (pending f = [] \<or> (\<exists>s \<in> set stops. \<exists>more. s = pending f @ more \<and>
      truncate_at_first_stop (concat chunks @ more) stops = emitted))"
proof -
  have v: "\<forall>q \<in> set stops. begins_char q" "\<forall>c \<in> set chunks. begins_char c" "settled stops [] []"
    using assms(1,2) settled_new [of stops] by (auto simp: utf8_begins_char)
  from push_all_settled [of stops "[]" "filter_new stops" chunks emitted False f rest] v assms(3)
  have s: "settled stops emitted (pending f)" and t: "emitted @ pending f = concat chunks"
    by (auto simp: filter_new_def truncate_at_first_stop_def)
  have keep: "prefix emitted (truncate_at_first_stop (concat chunks @ more) stops)" if "begins_char more" for more
    using first_stop_shift [of emitted stops "pending f @ more"] settled_extend(1) [OF s that]
    by (auto simp: truncate_at_first_stop_def t [symmetric] split: option.splits)
  have "undecided stops (pending f)"
    using push_all_undecided [OF _ assms(3)] by (simp add: filter_new_def undecided_def)
  then consider "pending f = []" | q more where "q \<in> set stops" "q = pending f @ more" "begins_char more"
    by (auto simp: undecided_def)
  then show ?thesis
  proof cases
    case 1
    then show ?thesis using keep by (auto simp: utf8_begins_char)
  next
    case 2
    have "stops_at stops (pending f @ more) 0" using 2(1,2) by (auto simp: stops_at_def)
    then have "first_stop stops (pending f @ more) = Some 0" by (simp add: first_stop_Some)
    then have "truncate_at_first_stop (concat chunks @ more) stops = emitted"
      using first_stop_shift [of emitted stops "pending f @ more"] settled_extend(1) [OF s 2(3)]
      by (simp add: truncate_at_first_stop_def t [symmetric])
    then show ?thesis using keep 2(1,2) by (auto simp: utf8_begins_char)
  qed
qed

lemma stop_filter_final_witness:
  "prefix ''a '' (truncate_at_first_stop (concat [''a st''] @ ''ar'') [''stop'']) \<and>
    (\<exists>more. ''stop'' = ''st'' @ more \<and>
      truncate_at_first_stop (concat [''a st''] @ more) [''stop''] = ''a '')"
proof -
  let ?f = "\<lparr>stop_sequences = [''stop''], pending = ''st''\<rparr>"
  have h: "\<forall>s \<in> set [''stop'']. s \<noteq> [] \<and> utf8_valid (bytes_of_str s)"
    "\<forall>c \<in> set [''a st'']. utf8_valid (bytes_of_str c)"
    "push_all (filter_new [''stop'']) [''a st''] = (''a '', False, ?f, [])" by code_simp+
  have "utf8_valid (bytes_of_str ''ar'')" by code_simp
  then show ?thesis using stop_filter_final [OF h] by simp
qed

end
