(* ===== verification/Ieee.thy ===== *)
theory Ieee
  imports Bytes
begin

text \<open>
  IEEE 754 binary arithmetic as \<^verbatim>\<open>f16\<close>, \<^verbatim>\<open>f32\<close> and \<^verbatim>\<open>f64\<close> use it: a value is its bit pattern, decoded to a
  sign, a significand and an exponent, and every operation computes the exact result on integers
  and rounds it once, to nearest with ties to even. An operation that yields a NaN yields the
  canonical quiet NaN; the sign and payload of a NaN are not specified by the language, and the
  modelled code inspects them nowhere.

  The elementary functions (\<^verbatim>\<open>exp\<close>, \<^verbatim>\<open>ln\<close>, \<^verbatim>\<open>powf\<close>, \<^verbatim>\<open>sin\<close>, \<^verbatim>\<open>cos\<close>), whose results the standard library leaves
  to the platform, are parameters of the definitions that use them.
\<close>

type_synonym f64 = "64 word"

section \<open>Decoded values\<close>

text \<open>
  \<^verbatim>\<open>FFin s m e\<close> is the number \<^verbatim>\<open>(-1)^s * m * 2^e\<close>. A format has \<^verbatim>\<open>mb\<close> mantissa bits and \<^verbatim>\<open>eb\<close> exponent
  bits; \<^verbatim>\<open>emin\<close> is the exponent of the last place of its subnormal numbers.
\<close>

datatype fval = FNaN | FInf bool | FFin bool nat int

definition bias :: "nat \<Rightarrow> int" where "bias eb = 2 ^ (eb - 1) - 1"

definition emin :: "nat \<Rightarrow> nat \<Rightarrow> int" where "emin mb eb = 1 - bias eb - int mb"

definition fdecode :: "nat \<Rightarrow> nat \<Rightarrow> nat \<Rightarrow> fval" where
  "fdecode mb eb n =
     (let s = odd (n div 2 ^ (mb + eb)); e = n div 2 ^ mb mod 2 ^ eb; m = n mod 2 ^ mb
      in if e = 2 ^ eb - 1 then (if m = 0 then FInf s else FNaN)
         else if e = 0 then FFin s m (emin mb eb)
         else FFin s (m + 2 ^ mb) (emin mb eb + int e - 1))"

definition with_sign :: "nat \<Rightarrow> nat \<Rightarrow> bool \<Rightarrow> nat \<Rightarrow> nat" where
  "with_sign mb eb s n = (if s then 2 ^ (mb + eb) + n else n)"

definition inf_bits :: "nat \<Rightarrow> nat \<Rightarrow> nat" where
  "inf_bits mb eb = (2 ^ eb - 1) * 2 ^ mb"

definition nan_bits :: "nat \<Rightarrow> nat \<Rightarrow> nat" where
  "nan_bits mb eb = inf_bits mb eb + 2 ^ (mb - 1)"

section \<open>Rounding\<close>

fun bit_len :: "nat \<Rightarrow> nat" where
  "bit_len n = (if n = 0 then 0 else Suc (bit_len (n div 2)))"

declare bit_len.simps [simp del]

text \<open>
  The integer nearest to \<^verbatim>\<open>m / 2^d\<close>, ties to even; \<^verbatim>\<open>sticky\<close> says that the exact value exceeds \<^verbatim>\<open>m\<close> by
  less than one.
\<close>

definition shift_round :: "nat \<Rightarrow> nat \<Rightarrow> bool \<Rightarrow> nat" where
  "shift_round m d sticky =
     (let k = m div 2 ^ d; r = m mod 2 ^ d
      in if d = 0 then k
         else if 2 ^ (d - 1) < r \<or> r = 2 ^ (d - 1) \<and> (sticky \<or> odd k) then Suc k else k)"

text \<open>
  The pattern nearest to \<^verbatim>\<open>m * 2^e\<close>, without its sign. The significand and the exponent are adjacent
  bit fields, so a carry out of the significand increments the exponent.
\<close>

definition fround :: "nat \<Rightarrow> nat \<Rightarrow> nat \<Rightarrow> int \<Rightarrow> bool \<Rightarrow> nat" where
  "fround mb eb m e sticky =
     (let q = max (emin mb eb) (e + int (bit_len m) - int (Suc mb));
          k = (if q \<le> e then m * 2 ^ nat (e - q) else shift_round m (nat (q - e)) sticky)
      in min (nat (q - emin mb eb) * 2 ^ mb + k) (inf_bits mb eb))"

definition fencode :: "nat \<Rightarrow> nat \<Rightarrow> fval \<Rightarrow> nat" where
  "fencode mb eb v =
     (case v of FNaN \<Rightarrow> nan_bits mb eb
      | FInf s \<Rightarrow> with_sign mb eb s (inf_bits mb eb)
      | FFin s m e \<Rightarrow> with_sign mb eb s (if m = 0 then 0 else fround mb eb m e False))"

section \<open>Operations on decoded values\<close>

definition signed :: "bool \<Rightarrow> nat \<Rightarrow> int" where
  "signed s m = (if s then - int m else int m)"

fun vadd :: "fval \<Rightarrow> fval \<Rightarrow> fval" where
  "vadd FNaN _ = FNaN"
| "vadd _ FNaN = FNaN"
| "vadd (FInf s) (FInf t) = (if s = t then FInf s else FNaN)"
| "vadd (FInf s) (FFin _ _ _) = FInf s"
| "vadd (FFin _ _ _) (FInf t) = FInf t"
| "vadd (FFin s m e) (FFin t n f) =
     (let g = min e f; v = signed s (m * 2 ^ nat (e - g)) + signed t (n * 2 ^ nat (f - g))
      in if v = 0 then FFin (s \<and> t) 0 g else FFin (v < 0) (nat \<bar>v\<bar>) g)"

fun vneg :: "fval \<Rightarrow> fval" where
  "vneg FNaN = FNaN"
| "vneg (FInf s) = FInf (\<not> s)"
| "vneg (FFin s m e) = FFin (\<not> s) m e"

fun vmul :: "fval \<Rightarrow> fval \<Rightarrow> fval" where
  "vmul FNaN _ = FNaN"
| "vmul _ FNaN = FNaN"
| "vmul (FInf s) (FInf t) = FInf (s \<noteq> t)"
| "vmul (FInf s) (FFin t n f) = (if n = 0 then FNaN else FInf (s \<noteq> t))"
| "vmul (FFin s m e) (FInf t) = (if m = 0 then FNaN else FInf (s \<noteq> t))"
| "vmul (FFin s m e) (FFin t n f) = FFin (s \<noteq> t) (m * n) (e + f)"

text \<open>
  Division and square root are not exact on such values: they produce enough bits of the result and
  whether a remainder is left.
\<close>

fun fdiv :: "nat \<Rightarrow> nat \<Rightarrow> fval \<Rightarrow> fval \<Rightarrow> nat" where
  "fdiv mb eb FNaN _ = nan_bits mb eb"
| "fdiv mb eb _ FNaN = nan_bits mb eb"
| "fdiv mb eb (FInf s) (FInf t) = nan_bits mb eb"
| "fdiv mb eb (FInf s) (FFin t _ _) = with_sign mb eb (s \<noteq> t) (inf_bits mb eb)"
| "fdiv mb eb (FFin s _ _) (FInf t) = with_sign mb eb (s \<noteq> t) 0"
| "fdiv mb eb (FFin s m e) (FFin t n f) =
     (if n = 0 then (if m = 0 then nan_bits mb eb else with_sign mb eb (s \<noteq> t) (inf_bits mb eb))
      else if m = 0 then with_sign mb eb (s \<noteq> t) 0
      else let k = mb + 3 + bit_len n; a = m * 2 ^ k
           in with_sign mb eb (s \<noteq> t) (fround mb eb (a div n) (e - f - int k) (a mod n \<noteq> 0)))"

fun isqrt :: "nat \<Rightarrow> nat" where
  "isqrt n = (if n = 0 then 0
     else let r = 2 * isqrt (n div 4) in if (r + 1) * (r + 1) \<le> n then r + 1 else r)"

declare isqrt.simps [simp del]

fun fsqrt :: "nat \<Rightarrow> nat \<Rightarrow> fval \<Rightarrow> nat" where
  "fsqrt mb eb FNaN = nan_bits mb eb"
| "fsqrt mb eb (FInf s) = (if s then nan_bits mb eb else inf_bits mb eb)"
| "fsqrt mb eb (FFin s m e) =
     (if m = 0 then with_sign mb eb s 0
      else if s then nan_bits mb eb
      else let k = 2 * (mb + 3) + nat (e mod 2); a = m * 2 ^ k; r = isqrt a
           in fround mb eb r ((e - int k) div 2) (r * r \<noteq> a))"

text \<open>Rounding to an integer: \<^verbatim>\<open>floor\<close> and \<^verbatim>\<open>ceil\<close> keep the sign of a zero result.\<close>

fun vfloor :: "fval \<Rightarrow> fval" where
  "vfloor (FFin s m e) =
     (if 0 \<le> e then FFin s m e
      else let d = nat (- e); q = m div 2 ^ d; up = s \<and> m mod 2 ^ d \<noteq> 0
           in FFin s (if up then Suc q else q) 0)"
| "vfloor v = v"

definition vceil :: "fval \<Rightarrow> fval" where
  "vceil v = vneg (vfloor (vneg v))"

section \<open>Comparison\<close>

text \<open>
  The patterns of a format are ordered as sign and magnitude. Numbers compare by \<^verbatim>\<open>fkey\<close>, where both
  zeros are equal; \<^verbatim>\<open>total_cmp\<close> compares by \<^verbatim>\<open>ftotal\<close>, which separates them and orders NaNs as well.
\<close>

definition fmagnitude :: "nat \<Rightarrow> nat \<Rightarrow> nat \<Rightarrow> nat" where
  "fmagnitude mb eb n = n mod 2 ^ (mb + eb)"

definition fsign :: "nat \<Rightarrow> nat \<Rightarrow> nat \<Rightarrow> bool" where
  "fsign mb eb n = odd (n div 2 ^ (mb + eb))"

definition fkey :: "nat \<Rightarrow> nat \<Rightarrow> nat \<Rightarrow> int" where
  "fkey mb eb n = signed (fsign mb eb n) (fmagnitude mb eb n)"

definition ftotal :: "nat \<Rightarrow> nat \<Rightarrow> nat \<Rightarrow> int" where
  "ftotal mb eb n = (if fsign mb eb n then - int (fmagnitude mb eb n) - 1 else int (fmagnitude mb eb n))"

definition fnan :: "nat \<Rightarrow> nat \<Rightarrow> nat \<Rightarrow> bool" where
  "fnan mb eb n \<longleftrightarrow> inf_bits mb eb < fmagnitude mb eb n"

section \<open>Single precision\<close>

definition f32_val :: "f32 \<Rightarrow> fval" where "f32_val x = fdecode 23 8 (unat x)"
definition f32_make :: "nat \<Rightarrow> f32" where "f32_make n = word_of_nat n"
definition f32_of_val :: "fval \<Rightarrow> f32" where "f32_of_val v = f32_make (fencode 23 8 v)"

definition f32_add :: "f32 \<Rightarrow> f32 \<Rightarrow> f32" where
  "f32_add x y = f32_of_val (vadd (f32_val x) (f32_val y))"
definition f32_neg :: "f32 \<Rightarrow> f32" where "f32_neg x = x XOR 0x80000000"
definition f32_sub :: "f32 \<Rightarrow> f32 \<Rightarrow> f32" where
  "f32_sub x y = f32_of_val (vadd (f32_val x) (vneg (f32_val y)))"
definition f32_mul :: "f32 \<Rightarrow> f32 \<Rightarrow> f32" where
  "f32_mul x y = f32_of_val (vmul (f32_val x) (f32_val y))"
definition f32_div :: "f32 \<Rightarrow> f32 \<Rightarrow> f32" where
  "f32_div x y = f32_make (fdiv 23 8 (f32_val x) (f32_val y))"
definition f32_sqrt :: "f32 \<Rightarrow> f32" where "f32_sqrt x = f32_make (fsqrt 23 8 (f32_val x))"
definition f32_abs :: "f32 \<Rightarrow> f32" where "f32_abs x = x AND 0x7fffffff"
definition f32_floor :: "f32 \<Rightarrow> f32" where "f32_floor x = f32_of_val (vfloor (f32_val x))"
definition f32_ceil :: "f32 \<Rightarrow> f32" where "f32_ceil x = f32_of_val (vceil (f32_val x))"

text \<open>\<^verbatim>\<open>as f32\<close> of an integer.\<close>

definition f32_of_int :: "int \<Rightarrow> f32" where
  "f32_of_int i = f32_of_val (FFin (i < 0) (nat \<bar>i\<bar>) 0)"

definition f32_is_nan :: "f32 \<Rightarrow> bool" where "f32_is_nan x = fnan 23 8 (unat x)"
definition f32_key :: "f32 \<Rightarrow> int" where "f32_key x = fkey 23 8 (unat x)"
definition f32_total :: "f32 \<Rightarrow> int" where "f32_total x = ftotal 23 8 (unat x)"

definition f32_lt :: "f32 \<Rightarrow> f32 \<Rightarrow> bool" where
  "f32_lt x y \<longleftrightarrow> \<not> f32_is_nan x \<and> \<not> f32_is_nan y \<and> f32_key x < f32_key y"
definition f32_le :: "f32 \<Rightarrow> f32 \<Rightarrow> bool" where
  "f32_le x y \<longleftrightarrow> \<not> f32_is_nan x \<and> \<not> f32_is_nan y \<and> f32_key x \<le> f32_key y"
definition f32_eq :: "f32 \<Rightarrow> f32 \<Rightarrow> bool" where
  "f32_eq x y \<longleftrightarrow> \<not> f32_is_nan x \<and> \<not> f32_is_nan y \<and> f32_key x = f32_key y"

text \<open>\<^verbatim>\<open>f32::max\<close> and \<^verbatim>\<open>f32::min\<close> return the other argument when one is a NaN.\<close>

definition f32_max :: "f32 \<Rightarrow> f32 \<Rightarrow> f32" where
  "f32_max x y = (if f32_is_nan x \<or> f32_lt x y then y else x)"
definition f32_min :: "f32 \<Rightarrow> f32 \<Rightarrow> f32" where
  "f32_min x y = (if f32_is_nan x \<or> f32_lt y x then y else x)"

definition f32_zero :: f32 where "f32_zero = 0"
definition f32_one :: f32 where "f32_one = 0x3f800000"
definition f32_inf :: f32 where "f32_inf = 0x7f800000"
definition f32_neg_inf :: f32 where "f32_neg_inf = 0xff800000"

section \<open>Double precision and conversions\<close>

definition f64_val :: "f64 \<Rightarrow> fval" where "f64_val x = fdecode 52 11 (unat x)"
definition f64_make :: "nat \<Rightarrow> f64" where "f64_make n = word_of_nat n"
definition f64_of_val :: "fval \<Rightarrow> f64" where "f64_of_val v = f64_make (fencode 52 11 v)"

definition f64_add :: "f64 \<Rightarrow> f64 \<Rightarrow> f64" where
  "f64_add x y = f64_of_val (vadd (f64_val x) (f64_val y))"
definition f64_sub :: "f64 \<Rightarrow> f64 \<Rightarrow> f64" where
  "f64_sub x y = f64_of_val (vadd (f64_val x) (vneg (f64_val y)))"
definition f64_mul :: "f64 \<Rightarrow> f64 \<Rightarrow> f64" where
  "f64_mul x y = f64_of_val (vmul (f64_val x) (f64_val y))"
definition f64_div :: "f64 \<Rightarrow> f64 \<Rightarrow> f64" where
  "f64_div x y = f64_make (fdiv 52 11 (f64_val x) (f64_val y))"
definition f64_abs :: "f64 \<Rightarrow> f64" where "f64_abs x = x AND 0x7fffffffffffffff"

definition f64_is_nan :: "f64 \<Rightarrow> bool" where "f64_is_nan x = fnan 52 11 (unat x)"
definition f64_is_finite :: "f64 \<Rightarrow> bool" where
  "f64_is_finite x \<longleftrightarrow> fmagnitude 52 11 (unat x) < inf_bits 52 11"
definition f64_key :: "f64 \<Rightarrow> int" where "f64_key x = fkey 52 11 (unat x)"
definition f64_lt :: "f64 \<Rightarrow> f64 \<Rightarrow> bool" where
  "f64_lt x y \<longleftrightarrow> \<not> f64_is_nan x \<and> \<not> f64_is_nan y \<and> f64_key x < f64_key y"
definition f64_le :: "f64 \<Rightarrow> f64 \<Rightarrow> bool" where
  "f64_le x y \<longleftrightarrow> \<not> f64_is_nan x \<and> \<not> f64_is_nan y \<and> f64_key x \<le> f64_key y"

definition f64_zero :: f64 where "f64_zero = 0"
definition f64_one :: f64 where "f64_one = 0x3ff0000000000000"

definition f64_of_f32 :: "f32 \<Rightarrow> f64" where "f64_of_f32 x = f64_of_val (f32_val x)"
definition f32_of_f64 :: "f64 \<Rightarrow> f32" where "f32_of_f64 x = f32_of_val (f64_val x)"

definition f16_val :: "16 word \<Rightarrow> fval" where "f16_val x = fdecode 10 5 (unat x)"
definition f32_of_f16 :: "16 word \<Rightarrow> f32" where "f32_of_f16 x = f32_of_val (f16_val x)"

section \<open>Orders on patterns\<close>

lemma ftotal_inject:
  assumes "m < 2 * 2 ^ (mb + eb)" "n < 2 * 2 ^ (mb + eb)"
  shows "ftotal mb eb m = ftotal mb eb n \<longleftrightarrow> m = n"
proof -
  have split: "k = (if fsign mb eb k then 2 ^ (mb + eb) else 0) + fmagnitude mb eb k"
    if "k < 2 * 2 ^ (mb + eb)" for k :: nat
  proof -
    have "k div 2 ^ (mb + eb) < 2" using that by (simp add: less_mult_imp_div_less mult.commute)
    then have "k div 2 ^ (mb + eb) = (if fsign mb eb k then 1 else 0)"
      by (cases "k div 2 ^ (mb + eb)") (auto simp: fsign_def)
    moreover have "k = k div 2 ^ (mb + eb) * 2 ^ (mb + eb) + fmagnitude mb eb k"
      by (simp only: fmagnitude_def div_mult_mod_eq)
    ultimately show ?thesis by (metis (full_types) add_0 mult_0 mult_1)
  qed
  show ?thesis
  proof
    assume e: "ftotal mb eb m = ftotal mb eb n"
    then have "fsign mb eb m = fsign mb eb n" "fmagnitude mb eb m = fmagnitude mb eb n"
      by (auto simp: ftotal_def split: if_splits)
    then show "m = n" using split [OF assms(1)] split [OF assms(2)] by metis
  qed simp
qed

lemma f32_total_inject: "f32_total x = f32_total y \<longleftrightarrow> x = y"
proof -
  have "unat x < 2 * 2 ^ (23 + 8)" "unat y < 2 * 2 ^ (23 + 8)"
    using unsigned_less [of x] unsigned_less [of y] by simp_all
  from ftotal_inject [OF this] show ?thesis by (simp only: f32_total_def word_unat_eq_iff)
qed

text \<open>On numbers the total order refines the numeric one; the two zeros are the only difference.\<close>

lemma f32_key_total: "f32_total x \<le> f32_total y \<Longrightarrow> f32_key x \<le> f32_key y"
  by (auto simp: f32_total_def ftotal_def f32_key_def fkey_def signed_def split: if_splits)

lemma f32_eq_refl: "\<not> f32_is_nan x \<Longrightarrow> f32_eq x x"
  by (simp add: f32_eq_def)

section \<open>Numbers are never turned into NaNs\<close>

lemma fround_le: "fround mb eb m e sticky \<le> inf_bits mb eb"
  by (simp add: fround_def Let_def)

lemma fencode_not_nan: "v \<noteq> FNaN \<Longrightarrow> fmagnitude mb eb (fencode mb eb v) \<le> inf_bits mb eb"
proof -
  assume v: "v \<noteq> FNaN"
  have w: "fmagnitude mb eb (with_sign mb eb s n) \<le> n" for s n
  proof -
    have "(2 ^ (mb + eb) + n) mod 2 ^ (mb + eb) = n mod 2 ^ (mb + eb)" by simp
    then show ?thesis by (simp add: fmagnitude_def with_sign_def)
  qed
  have "fmagnitude mb eb (with_sign mb eb s n) \<le> inf_bits mb eb" if "n \<le> inf_bits mb eb" for s n
    using w [of s n] that by (rule order_trans)
  then show ?thesis using v fround_le by (cases v) (auto simp: fencode_def)
qed

lemma fmagnitude_split: "fmagnitude mb eb n = n div 2 ^ mb mod 2 ^ eb * 2 ^ mb + n mod 2 ^ mb"
  by (simp add: fmagnitude_def power_add mod_mult2_eq)

lemma fdecode_nan: "fdecode mb eb n = FNaN \<longleftrightarrow> fnan mb eb n"
proof -
  let ?e = "n div 2 ^ mb mod 2 ^ eb" and ?m = "n mod 2 ^ mb"
  have e: "?e \<le> 2 ^ eb - 1" by (simp add: less_eq_iff_succ_less Suc_leI le_diff_conv)
  have m: "?m < 2 ^ mb" by simp
  have "inf_bits mb eb < ?e * 2 ^ mb + ?m \<longleftrightarrow> ?e = 2 ^ eb - 1 \<and> ?m \<noteq> 0"
  proof (cases "?e = 2 ^ eb - 1")
    case False
    then have "Suc ?e \<le> 2 ^ eb - 1" using e by simp
    then have "Suc ?e * 2 ^ mb \<le> inf_bits mb eb" unfolding inf_bits_def by (rule mult_le_mono1)
    then have "?e * 2 ^ mb + 2 ^ mb \<le> inf_bits mb eb" by (simp only: mult_Suc add.commute)
    then have "?e * 2 ^ mb + ?m < inf_bits mb eb" using m by linarith
    then show ?thesis using False by linarith
  qed (simp add: inf_bits_def)
  then show ?thesis by (simp add: fnan_def fmagnitude_split fdecode_def Let_def)
qed

lemma f32_nan_val: "f32_is_nan x \<longleftrightarrow> f32_val x = FNaN"
  by (simp add: f32_is_nan_def f32_val_def fdecode_nan)

lemma f32_make_nan: "fmagnitude 23 8 n \<le> inf_bits 23 8 \<Longrightarrow> \<not> f32_is_nan (f32_make n)"
  by (simp add: f32_is_nan_def f32_make_def fnan_def fmagnitude_def unat_of_nat mod_mod_cancel)

lemma f32_of_val_nan: "v \<noteq> FNaN \<Longrightarrow> \<not> f32_is_nan (f32_of_val v)"
  unfolding f32_of_val_def by (intro f32_make_nan fencode_not_nan)

lemma unat_f32_less: "unat (x :: f32) < 4294967296"
  using unsigned_less [of x] by simp

lemma f32_is_finite_iff: "f32_is_finite x \<longleftrightarrow> fmagnitude 23 8 (unat x) < inf_bits 23 8"
proof -
  have m: "(0x7f800000 :: f32) = push_bit 23 (mask 8)" by (simp add: mask_eq_exp_minus_1 push_bit_eq_mult)
  have a: "x AND push_bit 23 (mask 8) = push_bit 23 (take_bit 8 (drop_bit 23 x))"
    by (rule bit_eqI) (auto simp: bit_simps)
  have inj: "push_bit 23 (take_bit 8 w) = push_bit 23 (mask 8 :: f32) \<longleftrightarrow> take_bit 8 w = mask 8" for w :: f32
  proof
    assume e: "push_bit 23 (take_bit 8 w) = push_bit 23 (mask 8 :: f32)"
    show "take_bit 8 w = mask 8"
    proof (rule bit_eqI)
      fix n
      have "bit (push_bit 23 (take_bit 8 w)) (n + 23) = bit (push_bit 23 (mask 8 :: f32)) (n + 23)" by (simp add: e)
      then show "bit (take_bit 8 w) n = bit (mask 8 :: f32) n" by (auto simp: bit_simps)
    qed
  qed simp
  have "take_bit 8 (drop_bit 23 x) = mask 8 \<longleftrightarrow> unat (take_bit 8 (drop_bit 23 x)) = unat (mask 8 :: f32)"
    by (rule word_unat_eq_iff)
  also have "\<dots> \<longleftrightarrow> unat x div 2 ^ 23 mod 2 ^ 8 = 255"
    unfolding unsigned_take_bit_eq unsigned_drop_bit_eq
    using unat_f32_less [of x] by (simp add: take_bit_eq_mod drop_bit_eq_div mask_eq_exp_minus_1)
  finally have f: "f32_is_finite x \<longleftrightarrow> unat x div 2 ^ 23 mod 2 ^ 8 \<noteq> 255"
    unfolding f32_is_finite_def m a inj by simp
  have "unat x div 2 ^ 23 mod 2 ^ 8 < 256" "unat x mod 2 ^ 23 < 2 ^ 23" by simp_all
  then show ?thesis unfolding f fmagnitude_split inf_bits_def by simp linarith
qed

lemma f32_finite_val: "f32_is_finite x \<longleftrightarrow> (\<exists>s m e. f32_val x = FFin s m e)"
proof -
  have "f32_is_finite x \<longleftrightarrow> unat x div 2 ^ 23 mod 2 ^ 8 \<noteq> 255"
  proof -
    have "unat x div 2 ^ 23 mod 2 ^ 8 < 256" "unat x mod 2 ^ 23 < 2 ^ 23" by simp_all
    then show ?thesis unfolding f32_is_finite_iff fmagnitude_split inf_bits_def by simp linarith
  qed
  then show ?thesis by (auto simp: f32_val_def fdecode_def Let_def)
qed

lemma f32_finite_not_nan: "f32_is_finite x \<Longrightarrow> \<not> f32_is_nan x"
  by (auto simp: f32_finite_val f32_nan_val)

text \<open>A significand is zero exactly at the zeros.\<close>

lemma f32_val_zero: "f32_val x = FFin s m e \<Longrightarrow> m = 0 \<longleftrightarrow> f32_key x = 0"
  by (auto simp: f32_val_def fdecode_def Let_def f32_key_def fkey_def fmagnitude_split signed_def split: if_splits)

section \<open>Widening single to double precision\<close>

lemma bit_len_le: "bit_len n \<le> k \<longleftrightarrow> n < 2 ^ k"
proof (induction n arbitrary: k rule: bit_len.induct)
  case (1 n)
  show ?case
  proof (cases "n = 0")
    case False
    note b = bit_len.simps [of n]
    show ?thesis
    proof (cases k)
      case 0
      then show ?thesis using False by (simp add: b)
    next
      case (Suc j)
      then show ?thesis using 1 [OF False, of j] False by (simp add: b) linarith
    qed
  qed (simp add: bit_len.simps)
qed

lemma bit_len_0 [simp]: "bit_len 0 = 0"
  by (simp add: bit_len.simps)

lemma bit_len_pos: "0 < n \<Longrightarrow> 0 < bit_len n"
  by (simp add: bit_len.simps [of n])

lemma less_bit_len: "n < 2 ^ bit_len n"
  using bit_len_le [of n "bit_len n"] by simp

lemma bit_len_ge: "0 < n \<Longrightarrow> 2 ^ (bit_len n - 1) \<le> n"
  using bit_len_le [of n "bit_len n - 1"] bit_len_pos [of n] by linarith

text \<open>
  A number whose significand fits the target format and whose exponent is in range is represented
  exactly.
\<close>

lemma fround_normal:
  assumes m: "0 < m" "bit_len m \<le> Suc mb" and lo: "emin mb eb \<le> e + int (bit_len m) - int (Suc mb)"
    and hi: "nat (e + int (bit_len m) - int (Suc mb) - emin mb eb) + 2 < 2 ^ eb"
  defines "k \<equiv> m * 2 ^ (Suc mb - bit_len m)"
  shows "fround mb eb m e st = nat (e + int (bit_len m) - int (Suc mb) - emin mb eb) * 2 ^ mb + k"
    and "2 ^ mb \<le> k" and "k < 2 * 2 ^ mb"
proof -
  let ?l = "bit_len m"
  let ?q = "e + int ?l - int (Suc mb)"
  have "2 ^ (?l - 1) * 2 ^ (Suc mb - ?l) \<le> k" "k < 2 ^ ?l * 2 ^ (Suc mb - ?l)"
    unfolding k_def using bit_len_ge [OF m(1)] less_bit_len [of m] by simp_all
  moreover have "2 ^ (?l - 1) * 2 ^ (Suc mb - ?l) = (2 :: nat) ^ mb"
    using bit_len_pos [OF m(1)] m(2) by (simp flip: power_add)
  moreover have "2 ^ ?l * 2 ^ (Suc mb - ?l) = (2 :: nat) ^ Suc mb"
    using m(2) by (simp only: flip: power_add) simp
  ultimately show k: "2 ^ mb \<le> k" "k < 2 * 2 ^ mb" by simp_all
  have q: "max (emin mb eb) ?q = ?q" "?q \<le> e" using lo m(2) by simp_all
  have n: "nat (e - ?q) = Suc mb - ?l" using m(2) by simp
  have "(nat (?q - emin mb eb) + 2) * 2 ^ mb \<le> (2 ^ eb - 1) * 2 ^ mb"
    using hi by (intro mult_le_mono1) simp
  then have "nat (?q - emin mb eb) * 2 ^ mb + k \<le> inf_bits mb eb"
    using k(2) by (simp add: inf_bits_def algebra_simps)
  then show "fround mb eb m e st = nat (?q - emin mb eb) * 2 ^ mb + k"
    unfolding fround_def Let_def q(1) by (simp only: q(2) if_True n k_def [symmetric] min_absorb1)
qed

text \<open>Decoding what was composed from a biased exponent and a significand.\<close>

lemma fdecode_compose:
  assumes "2 ^ mb \<le> k" "k < 2 * 2 ^ mb" "Suc x < 2 ^ eb - 1"
  shows "fdecode mb eb (with_sign mb eb s (x * 2 ^ mb + k)) = FFin s k (emin mb eb + int x)"
proof -
  define m where "m = k - 2 ^ mb"
  have m: "m < 2 ^ mb" "k = m + 2 ^ mb" using assms(1,2) by (auto simp: m_def)
  have n: "x * 2 ^ mb + k = Suc x * 2 ^ mb + m" by (simp add: m(2))
  have lt: "Suc x * 2 ^ mb + m < 2 ^ (mb + eb)"
  proof -
    have "Suc (Suc x) * 2 ^ mb \<le> 2 ^ eb * 2 ^ mb" using assms(3) by (intro mult_le_mono1) simp
    then show ?thesis using m(1) by (simp add: power_add mult.commute)
  qed
  let ?n = "with_sign mb eb s (x * 2 ^ mb + k)"
  have "odd (with_sign mb eb s y div 2 ^ (mb + eb)) = s" if "y < 2 ^ (mb + eb)" for y
    using that by (cases s) (simp_all add: with_sign_def div_add_self1)
  from this [OF lt] have s: "odd (?n div 2 ^ (mb + eb)) = s" by (simp only: n)
  have low: "?n mod 2 ^ mb = m"
  proof -
    have "(2::nat) ^ (mb + eb) = 2 ^ eb * 2 ^ mb" by (simp add: power_add)
    then have "?n = m + ((if s then 2 ^ eb else 0) + Suc x) * 2 ^ mb"
      unfolding n with_sign_def by (simp add: algebra_simps)
    then show ?thesis using m(1) by (simp only: mod_mult_self1 mod_less)
  qed
  have e: "?n div 2 ^ mb mod 2 ^ eb = Suc x"
  proof -
    have "(2::nat) ^ (mb + eb) = 2 ^ eb * 2 ^ mb" by (simp add: power_add)
    then have "?n = m + ((if s then 2 ^ eb else 0) + Suc x) * 2 ^ mb"
      unfolding n with_sign_def by (simp add: algebra_simps)
    moreover have "(m + a * 2 ^ mb) div 2 ^ mb = a" for a :: nat using m(1) by simp
    ultimately have "?n div 2 ^ mb = (if s then 2 ^ eb else 0) + Suc x" by (simp only:)
    moreover have "Suc x < 2 ^ eb" using assms(3) by simp
    then have "((if s then 2 ^ eb else 0) + Suc x) mod 2 ^ eb = Suc x"
      by (cases s) (simp_all only: if_True if_False mod_add_self1 add_0 mod_less)
    ultimately show ?thesis by (simp only:)
  qed
  show ?thesis using assms(3) unfolding fdecode_def Let_def e low s by (simp add: m(2))
qed

lemma f32_val_bounds:
  "f32_val x = FFin s m e \<Longrightarrow> m < 2 ^ 24 \<and> - 149 \<le> e \<and> e \<le> 104"
proof -
  assume a: "f32_val x = FFin s m e"
  have "unat x mod 8388608 < 8388608" "unat x div 8388608 mod 256 < 256" by simp_all
  with a show ?thesis
    by (auto simp: f32_val_def fdecode_def Let_def emin_def bias_def split: if_splits)
qed

lemma unat_f64_make: "n < 2 ^ 64 \<Longrightarrow> unat (f64_make n) = n"
  by (simp add: f64_make_def unat_of_nat)

lemma f64_of_f32_val:
  assumes "f32_val x = FFin s m e"
  shows "\<exists>m' e'. f64_val (f64_of_f32 x) = FFin s m' e' \<and> (m' = 0 \<longleftrightarrow> m = 0)"
proof (cases "m = 0")
  case True
  show ?thesis
    using assms True
    by (auto simp: f64_of_f32_def f64_of_val_def fencode_def f64_val_def unat_f64_make with_sign_def fdecode_def)
next
  case False
  note b = f32_val_bounds [OF assms]
  have l: "bit_len m \<le> 24" "0 < bit_len m" using b False bit_len_le [of m 24] bit_len_pos by auto
  define x' where "x' = nat (e + int (bit_len m) + 1021)"
  define k where "k = m * 2 ^ (53 - bit_len m)"
  have em: "emin 52 11 = - 1074" by (simp add: emin_def bias_def)
  have h: "nat (e + (int (bit_len m) + 1021)) < 2046" using l b by linarith
  have r: "fround 52 11 m e False = x' * 2 ^ 52 + k" "2 ^ 52 \<le> k" "k < 2 * 2 ^ 52" and x: "Suc x' < 2 ^ 11 - 1"
    using fround_normal [where m = m and mb = 52 and eb = 11 and e = e] False l b h
    by (simp_all add: em x'_def k_def algebra_simps)
  have "x' * 2 ^ 52 + k < 2 ^ 63"
  proof -
    have "(x' + 2) * 2 ^ 52 \<le> 2 ^ 11 * 2 ^ 52" using x by (intro mult_le_mono1) simp
    then show ?thesis using r(3) by simp
  qed
  then have "with_sign 52 11 s (x' * 2 ^ 52 + k) < 2 ^ 64" by (simp add: with_sign_def)
  then have "f64_val (f64_of_f32 x) = FFin s k (emin 52 11 + int x')"
    using assms False r x
    by (simp add: f64_of_f32_def f64_of_val_def fencode_def f64_val_def unat_f64_make fdecode_compose
        del: power_numeral)
  then show ?thesis using False r(2) by auto
qed

text \<open>Evaluation of comparisons on concrete patterns.\<close>

lemmas f32_compare = f32_lt_def f32_le_def f32_eq_def f32_is_nan_def f32_key_def f32_total_def fkey_def ftotal_def
  fnan_def fsign_def fmagnitude_def inf_bits_def signed_def f32_zero_def f32_one_def f32_inf_def f32_neg_inf_def
  f32_is_finite_def

lemma bit_len_numeral: "bit_len (numeral k) = Suc (bit_len (numeral k div 2))" "bit_len (Suc 0) = 1"
  by (simp_all add: bit_len.simps [of "numeral k"] bit_len.simps [of "Suc 0"])

lemmas f64_compare = f64_lt_def f64_le_def f64_is_nan_def f64_key_def f64_is_finite_def fkey_def fnan_def fsign_def
  fmagnitude_def inf_bits_def signed_def f64_zero_def f64_one_def

lemmas fval_eval = fdecode_def fencode_def Let_def emin_def bias_def signed_def with_sign_def fround_def shift_round_def
  inf_bits_def bit_len_numeral

section \<open>Exact results\<close>

lemma bit_len_scale: "0 < m \<Longrightarrow> bit_len (m * 2 ^ j) = bit_len m + j"
proof (induction j)
  case (Suc j)
  have "m * 2 ^ Suc j div 2 = m * 2 ^ j" by simp
  then have "bit_len (m * 2 ^ Suc j) = Suc (bit_len (m * 2 ^ j))"
    using Suc.prems bit_len.simps [of "m * 2 ^ Suc j"] by simp
  then show ?case using Suc by simp
qed simp

lemma shift_round_scale: "shift_round (m * 2 ^ j) (d + j) False = shift_round m d False"
proof (cases "d = 0")
  case False
  have p: "(2 :: nat) ^ (d + j) = 2 ^ d * 2 ^ j" by (simp add: power_add)
  have h: "(2 :: nat) ^ (d + j - 1) = 2 ^ (d - 1) * 2 ^ j" using False by (cases d) (simp_all add: power_add)
  show ?thesis
    unfolding shift_round_def Let_def p h by (simp only: div_mult_mult2 mod_mult_mult2) (use False in simp)
qed (cases j, auto simp: shift_round_def Let_def)

lemma shift_round_exact: "d \<le> j \<Longrightarrow> shift_round (m * 2 ^ j) d False = m * 2 ^ (j - d)"
  using shift_round_scale [of "m * 2 ^ (j - d)" d 0]
  by (cases "j - d = 0") (auto simp: shift_round_def Let_def mult.assoc simp flip: power_add)

text \<open>Rounding depends on the represented number only, not on how it is written.\<close>

lemma fround_scale:
  assumes "0 < m"
  shows "fround mb eb (m * 2 ^ j) (e - int j) False = fround mb eb m e False"
proof -
  define q where "q = max (emin mb eb) (e + int (bit_len m) - int (Suc mb))"
  have q: "max (emin mb eb) (e - int j + int (bit_len (m * 2 ^ j)) - int (Suc mb)) = q"
    by (simp add: q_def bit_len_scale [OF assms])
  consider "q \<le> e - int j" | "e - int j < q" "q \<le> e" | "e < q" by linarith
  then have "(if q \<le> e - int j then m * 2 ^ j * 2 ^ nat (e - int j - q)
        else shift_round (m * 2 ^ j) (nat (q - (e - int j))) False) =
      (if q \<le> e then m * 2 ^ nat (e - q) else shift_round m (nat (q - e)) False)"
  proof cases
    case 1
    then have "nat (e - q) = j + nat (e - int j - q)" by simp
    then show ?thesis using 1 by (simp add: power_add mult.assoc)
  next
    case 2
    then have "nat (q - (e - int j)) \<le> j" "j - nat (q - (e - int j)) = nat (e - q)" by auto
    then show ?thesis using 2 shift_round_exact [of "nat (q - (e - int j))" j m] by simp
  next
    case 3
    then have "nat (q - (e - int j)) = nat (q - e) + j" by simp
    then show ?thesis using 3 shift_round_scale [of m j "nat (q - e)"] by simp
  qed
  then show ?thesis unfolding fround_def Let_def q by (simp only: flip: q_def)
qed

text \<open>A pattern is the encoding of what it decodes to.\<close>

lemma fencode_fdecode:
  assumes "n < 2 * 2 ^ (mb + eb)" "fdecode mb eb n = FFin s m e"
  shows "fencode mb eb (FFin s m e) = n"
proof -
  define x where "x = n div 2 ^ mb mod 2 ^ eb"
  define y where "y = n mod 2 ^ mb"
  have y: "y < 2 ^ mb" by (simp add: y_def)
  have s: "s = fsign mb eb n" and x: "x \<noteq> 2 ^ eb - 1"
    and me: "m = (if x = 0 then y else y + 2 ^ mb)" "e = (if x = 0 then emin mb eb else emin mb eb + int x - 1)"
    using assms(2) by (auto simp: fdecode_def Let_def x_def y_def fsign_def split: if_splits)
  have "x < 2 ^ eb" by (simp add: x_def)
  with x have x2: "Suc x < 2 ^ eb \<or> x = 0 \<and> eb = 0" by (cases "eb = 0") auto
  have mag: "fmagnitude mb eb n = x * 2 ^ mb + y" by (simp add: fmagnitude_split x_def y_def)
  have n: "with_sign mb eb s (fmagnitude mb eb n) = n"
  proof -
    have "n div 2 ^ (mb + eb) < 2" using assms(1) by (simp add: less_mult_imp_div_less mult.commute)
    then have "n div 2 ^ (mb + eb) = (if s then 1 else 0)"
      by (cases "n div 2 ^ (mb + eb)") (auto simp: s fsign_def)
    then show ?thesis
      unfolding with_sign_def fmagnitude_def by (metis (full_types) add_0 div_mult_mod_eq mult_0 mult_1)
  qed
  have inf: "x * 2 ^ mb + y \<le> inf_bits mb eb"
  proof (cases "eb = 0")
    case False
    then have "Suc x * 2 ^ mb \<le> (2 ^ eb - 1) * 2 ^ mb" using x2 by (intro mult_le_mono1) linarith
    then show ?thesis using y by (simp add: inf_bits_def)
  next
    case True
    then have "x = 0" by (simp add: x_def)
    with x True show ?thesis by simp
  qed
  have "fround mb eb m e False = x * 2 ^ mb + y" if m: "m \<noteq> 0"
  proof (cases "x = 0")
    case True
    then have "bit_len m \<le> mb" using y me by (simp add: bit_len_le)
    then have "max (emin mb eb) (e + int (bit_len m) - int (Suc mb)) = emin mb eb" using True me by simp
    then show ?thesis using True me inf by (simp add: fround_def Let_def)
  next
    case False
    then have "bit_len m \<le> Suc mb" "\<not> bit_len m \<le> mb" using y me by (simp_all add: bit_len_le)
    then have l: "bit_len m = Suc mb" by simp
    then have "max (emin mb eb) (e + int (bit_len m) - int (Suc mb)) = e" using False me by simp
    moreover have "nat (e - emin mb eb) * 2 ^ mb + m = x * 2 ^ mb + y"
    proof -
      have "nat (e - emin mb eb) = x - 1" using False me by simp
      then show ?thesis using False me by (cases x) simp_all
    qed
    ultimately show ?thesis using inf by (simp add: fround_def Let_def)
  qed
  moreover have "m = 0 \<Longrightarrow> x * 2 ^ mb + y = 0" using me by (auto split: if_splits)
  ultimately show ?thesis using n mag by (auto simp: fencode_def)
qed

lemma unat_f64_less: "unat (x :: f64) < 18446744073709551616"
  using unsigned_less [of x] by simp

lemma f64_of_val_val: "f64_val x = FFin s m e \<Longrightarrow> f64_of_val (FFin s m e) = x"
  using fencode_fdecode [of "unat x" 52 11 s m e] unat_f64_less [of x]
  by (simp add: f64_val_def f64_of_val_def f64_make_def)

lemma f32_of_val_val: "f32_val x = FFin s m e \<Longrightarrow> f32_of_val (FFin s m e) = x"
  using fencode_fdecode [of "unat x" 23 8 s m e] unat_f32_less [of x]
  by (simp add: f32_val_def f32_of_val_def f32_make_def)

lemma fencode_scale:
  "0 < m \<Longrightarrow> fencode mb eb (FFin s (m * 2 ^ j) (e - int j)) = fencode mb eb (FFin s m e)"
  by (simp add: fencode_def fround_scale)

text \<open>Adding a positive zero to a nonzero number, and subtracting a number from itself.\<close>

lemma f64_zero_val: "f64_val f64_zero = FFin False 0 (- 1074)"
  by (simp add: f64_val_def fdecode_def emin_def bias_def f64_zero_def)

lemma f64_zero_add:
  assumes "f64_val x = FFin s m e" "0 < m"
  shows "f64_add f64_zero x = x"
proof -
  let ?g = "min (- 1074) e"
  have "signed s (m * 2 ^ nat (e - ?g)) \<noteq> 0" using assms(2) by (simp add: signed_def)
  moreover have "nat \<bar>signed s (m * 2 ^ nat (e - ?g))\<bar> = m * 2 ^ nat (e - ?g)"
    "signed s (m * 2 ^ nat (e - ?g)) < 0 \<longleftrightarrow> s" using assms(2) by (simp_all add: signed_def nat_mult_distrib not_less)
  ultimately have "vadd (FFin False 0 (- 1074)) (FFin s m e) = FFin s (m * 2 ^ nat (e - ?g)) ?g"
    by (simp add: Let_def signed_def)
  moreover have "?g = e - int (nat (e - ?g))" by simp
  ultimately show ?thesis
    using fencode_scale [OF assms(2), of 52 11 s "nat (e - ?g)" e] f64_of_val_val [OF assms(1)]
    by (simp add: f64_add_def f64_zero_val assms(1) f64_of_val_def)
qed

lemma f64_sub_self: "f64_val x = FFin s m e \<Longrightarrow> f64_sub x x = f64_zero"
  by (auto simp: f64_sub_def signed_def f64_of_val_def fencode_def with_sign_def f64_make_def f64_zero_def)

lemma f64_one_val: "f64_val f64_one = FFin False 4503599627370496 (- 52)"
  by (simp add: f64_val_def fdecode_def Let_def emin_def bias_def f64_one_def)

lemma f64_unit:
  "f64_add f64_zero f64_one = f64_one" "f64_is_finite f64_one"
  "f64_lt f64_zero f64_one" "\<not> f64_le f64_one f64_zero"
  by (rule f64_zero_add [OF f64_one_val], simp) (simp_all add: f64_compare)

lemma f64_zero_mul_one: "f64_mul f64_zero f64_one = f64_zero"
  unfolding f64_mul_def f64_zero_val f64_one_val
  by (simp add: f64_of_val_def fencode_def with_sign_def f64_make_def f64_zero_def)

end
