(* ===== verification/Sampling.thy ===== *)
theory Sampling
  imports Ieee "HOL-Library.Product_Lexorder"
begin

text \<open>
  The token sampler (\<^verbatim>\<open>bridge-runtime/src/sampling.rs\<close>): validation of the configuration, repetition
  penalty, ranking of the candidates, greedy choice, top-k and top-p truncation and the draw.
  The generator \<^verbatim>\<open>ChaCha8Rng\<close> and the exponential function are arguments: \<^verbatim>\<open>seed_from_u64\<close> and
  \<^verbatim>\<open>rng_gen\<close> (\<^verbatim>\<open>gen::<f64>\<close>) stand for the generator, \<^verbatim>\<open>exp64\<close> for \<^verbatim>\<open>f64::exp\<close>, and \<^verbatim>\<open>grant\<close> says
  which reservations the allocator serves. A \<^verbatim>\<open>BTreeSet<u32>\<close> is the ascending list of its elements.
\<close>

section \<open>Configuration\<close>

record sampling_config =
  max_new_tokens :: nat
  temperature :: f32
  top_k :: nat
  top_p :: f32
  seed :: nat
  repetition_penalty :: f32
  repeat_last_n :: nat
  stop_tokens :: "nat list"
  emit_stop_token :: bool

definition default_sampling_config :: sampling_config where
  "default_sampling_config =
     \<lparr>max_new_tokens = 256, temperature = 0x3f666666, top_k = 0, top_p = f32_one, seed = 0,
      repetition_penalty = f32_one, repeat_last_n = 64, stop_tokens = [], emit_stop_token = False\<rparr>"

datatype sampling_error =
    EmptyVocabulary
  | InvalidTemperature f32
  | InvalidTopP f32
  | InvalidRepetitionPenalty f32
  | StopTokenOutOfRange nat nat
  | LogitCountMismatch nat nat
  | NanLogit nat
  | NoCandidate
  | SamplerAllocationFailed

definition validate_sampling :: "sampling_config \<Rightarrow> nat \<Rightarrow> sampling_error + unit" where
  "validate_sampling c vocabulary =
     (if vocabulary = 0 then Inl EmptyVocabulary
      else if \<not> f32_is_finite (temperature c) \<or> f32_lt (temperature c) f32_zero
        then Inl (InvalidTemperature (temperature c))
      else if \<not> (f32_is_finite (top_p c) \<and> f32_lt f32_zero (top_p c) \<and> f32_le (top_p c) f32_one)
        then Inl (InvalidTopP (top_p c))
      else if \<not> f32_is_finite (repetition_penalty c) \<or> f32_le (repetition_penalty c) f32_zero
        then Inl (InvalidRepetitionPenalty (repetition_penalty c))
      else case find (\<lambda>t. vocabulary \<le> t) (stop_tokens c) of
        Some t \<Rightarrow> Inl (StopTokenOutOfRange t vocabulary)
      | None \<Rightarrow> Inr ())"

section \<open>The sampler\<close>

record candidate =
  token_id :: nat
  logit :: f32
  weight :: f64

record 'r sampler =
  sm_config :: sampling_config
  sm_vocabulary :: nat
  sm_rng :: 'r
  sm_candidates :: "candidate list"
  sm_repeated :: "bool list"

definition sampler_new ::
  "(nat \<Rightarrow> bool) \<Rightarrow> (nat \<Rightarrow> 'r) \<Rightarrow> sampling_config \<Rightarrow> nat \<Rightarrow> sampling_error + 'r sampler" where
  "sampler_new grant seed_from_u64 c vocabulary =
     rbind (validate_sampling c vocabulary) (\<lambda>_.
     rbind (check (grant vocabulary) SamplerAllocationFailed) (\<lambda>_.
     Inr \<lparr>sm_config = c, sm_vocabulary = vocabulary, sm_rng = seed_from_u64 (seed c),
          sm_candidates = [], sm_repeated = replicate vocabulary False\<rparr>))"

text \<open>The tokens of the last \<^verbatim>\<open>repeat_last_n\<close> positions of the history are marked.\<close>

definition mark_repeated :: "nat list \<Rightarrow> bool list \<Rightarrow> bool list" where
  "mark_repeated recent flags =
     fold (\<lambda>t fs. if t < length fs then fs[t := True] else fs) recent flags"

definition repeated_flags :: "sampling_config \<Rightarrow> nat list \<Rightarrow> bool list \<Rightarrow> bool list" where
  "repeated_flags c history flags =
     (let cleared = replicate (length flags) False
      in if \<not> f32_eq (repetition_penalty c) f32_one \<and> 0 < repeat_last_n c
         then mark_repeated (drop (saturating_sub (length history) (repeat_last_n c)) history) cleared
         else cleared)"

definition apply_repetition_penalty :: "f32 \<Rightarrow> f32 \<Rightarrow> f32" where
  "apply_repetition_penalty x penalty =
     (if f32_lt x f32_zero then f32_mul x penalty else f32_div x penalty)"

definition penalised :: "sampling_config \<Rightarrow> bool list \<Rightarrow> f32 list \<Rightarrow> nat \<Rightarrow> f32" where
  "penalised c flags logits t =
     (if flags ! t then apply_repetition_penalty (logits ! t) (repetition_penalty c) else logits ! t)"

text \<open>
  \<^verbatim>\<open>sort_unstable_by\<close> with descending \<^verbatim>\<open>total_cmp\<close> and ascending token ids. No two candidates compare
  equal, so the sorted sequence is determined.
\<close>

definition candidate_rank :: "candidate \<Rightarrow> int \<times> nat" where
  "candidate_rank x = (- f32_total (logit x), token_id x)"

definition ranked :: "sampling_config \<Rightarrow> bool list \<Rightarrow> f32 list \<Rightarrow> candidate list" where
  "ranked c flags logits =
     sort_key candidate_rank
       (map (\<lambda>t. \<lparr>token_id = t, logit = penalised c flags logits t, weight = f64_zero\<rparr>) [0..<length logits])"

fun cumulate :: "f64 \<Rightarrow> f64 list \<Rightarrow> f64 list" where
  "cumulate acc [] = []"
| "cumulate acc (w # ws) = (let s = f64_add acc w in s # cumulate s ws)"

definition f64_sum :: "f64 list \<Rightarrow> f64" where
  "f64_sum ws = fold (\<lambda>w acc. f64_add acc w) ws f64_zero"

text \<open>The number of candidates up to the one whose cumulated weight reaches the threshold.\<close>

fun nucleus :: "f64 \<Rightarrow> f64 \<Rightarrow> f64 list \<Rightarrow> nat" where
  "nucleus threshold acc [] = 0"
| "nucleus threshold acc (w # ws) =
     (let s = f64_add acc w in if f64_le threshold s then 1 else Suc (nucleus threshold s ws))"

definition apply_top_p :: "f32 \<Rightarrow> candidate list \<Rightarrow> candidate list" where
  "apply_top_p p cs =
     (if f32_le f32_one p \<or> length cs \<le> 1 then cs
      else let threshold = f64_mul (f64_sum (map weight cs)) (f64_of_f32 p)
           in take (max (nucleus threshold f64_zero (map weight cs)) 1) cs)"

text \<open>The first candidate whose cumulated weight exceeds the target.\<close>

fun draw :: "f64 \<Rightarrow> f64 \<Rightarrow> candidate list \<Rightarrow> nat option" where
  "draw target acc [] = None"
| "draw target acc (c # cs) =
     (let s = f64_add acc (weight c) in if f64_lt target s then Some (token_id c) else draw target s cs)"

definition weighted ::
  "(f64 \<Rightarrow> f64) \<Rightarrow> f32 \<Rightarrow> candidate list \<Rightarrow> sampling_error + candidate list" where
  "weighted exp64 temp cs =
     (let infinite = takeWhile (\<lambda>x. f32_eq (logit x) f32_inf) cs
      in if infinite \<noteq> [] then Inr (map (\<lambda>x. x\<lparr>weight := f64_one\<rparr>) infinite)
         else case cs of [] \<Rightarrow> Inl NoCandidate
         | best # _ \<Rightarrow>
             if f32_eq (logit best) f32_neg_inf then Inl NoCandidate
             else Inr (map (\<lambda>x. x\<lparr>weight :=
               exp64 (f64_div (f64_sub (f64_of_f32 (logit x)) (f64_of_f32 (logit best))) (f64_of_f32 temp))\<rparr>) cs))"

definition pick_token ::
  "('r \<Rightarrow> f64 \<times> 'r) \<Rightarrow> candidate list \<Rightarrow> 'r \<Rightarrow> (sampling_error + nat) \<times> 'r" where
  "pick_token rng_gen cs rng =
     (let total_weight = f64_sum (map weight cs)
      in if \<not> f64_is_finite total_weight \<or> f64_le total_weight f64_zero then (Inl NoCandidate, rng)
         else let (u, rng') = rng_gen rng
              in ((case draw (f64_mul u total_weight) f64_zero cs of
                     Some t \<Rightarrow> Inr t
                   | None \<Rightarrow> if cs = [] then Inl NoCandidate else Inr (token_id (last cs))), rng'))"

definition greedy :: "candidate list \<Rightarrow> sampling_error + nat" where
  "greedy cs =
     (case cs of [] \<Rightarrow> Inl NoCandidate
      | best # _ \<Rightarrow> if f32_eq (logit best) f32_neg_inf then Inl NoCandidate else Inr (token_id best))"

definition first_nan :: "f32 list \<Rightarrow> nat option" where
  "first_nan logits = find (\<lambda>t. f32_is_nan (logits ! t)) [0..<length logits]"

definition top_k_cut :: "sampling_config \<Rightarrow> candidate list \<Rightarrow> candidate list" where
  "top_k_cut c cs = take (if top_k c = 0 then length cs else min (top_k c) (length cs)) cs"

definition sample ::
  "(f64 \<Rightarrow> f64) \<Rightarrow> ('r \<Rightarrow> f64 \<times> 'r) \<Rightarrow> 'r sampler \<Rightarrow> f32 list \<Rightarrow> nat list \<Rightarrow>
    (sampling_error + nat) \<times> 'r sampler" where
  "sample exp64 rng_gen s logits history =
     (if length logits \<noteq> sm_vocabulary s
        then (Inl (LogitCountMismatch (sm_vocabulary s) (length logits)), s)
      else case first_nan logits of Some t \<Rightarrow> (Inl (NanLogit t), s)
      | None \<Rightarrow>
        let c = sm_config s;
            flags = repeated_flags c history (sm_repeated s);
            cs = ranked c flags logits;
            s1 = s\<lparr>sm_repeated := flags, sm_candidates := cs\<rparr>
        in if f32_eq (temperature c) f32_zero then (greedy cs, s1)
           else let kept = top_k_cut c cs
                in case weighted exp64 (temperature c) kept of
                     Inl e \<Rightarrow> (Inl e, s1\<lparr>sm_candidates := kept\<rparr>)
                   | Inr ws \<Rightarrow>
                       let nuc = apply_top_p (top_p c) ws;
                           (r, rng') = pick_token rng_gen nuc (sm_rng s)
                       in (r, s1\<lparr>sm_candidates := nuc, sm_rng := rng'\<rparr>))"

section \<open>The ranking\<close>

definition sampler_ok :: "'r sampler \<Rightarrow> bool" where
  "sampler_ok s \<longleftrightarrow> length (sm_repeated s) = sm_vocabulary s \<and> is_ok (validate_sampling (sm_config s) (sm_vocabulary s))"

lemma sampler_new_ok: "sampler_new grant sd c v = Inr s \<Longrightarrow> sampler_ok s \<and> sm_config s = c \<and> sm_vocabulary s = v"
  by (auto simp: sampler_new_def sampler_ok_def rbind_Inr)

text \<open>The penalised logit of a token, read off the history.\<close>

definition adjusted :: "sampling_config \<Rightarrow> f32 list \<Rightarrow> nat list \<Rightarrow> nat \<Rightarrow> f32" where
  "adjusted c logits history t =
     (if \<not> f32_eq (repetition_penalty c) f32_one \<and> t \<in> set (drop (length history - repeat_last_n c) history)
      then apply_repetition_penalty (logits ! t) (repetition_penalty c) else logits ! t)"

lemma mark_repeated_nth:
  "t < length flags \<Longrightarrow> mark_repeated recent flags ! t \<longleftrightarrow> flags ! t \<or> t \<in> set recent"
  and length_mark_repeated: "length (mark_repeated recent flags) = length flags"
  unfolding mark_repeated_def by (induction recent arbitrary: flags) (auto simp: nth_list_update)

lemma length_repeated_flags [simp]: "length (repeated_flags c history flags) = length flags"
  by (simp add: repeated_flags_def length_mark_repeated Let_def)

lemma penalised_adjusted:
  assumes "t < length flags"
  shows "penalised c (repeated_flags c history flags) logits t = adjusted c logits history t"
proof -
  have "repeated_flags c history flags ! t \<longleftrightarrow>
      \<not> f32_eq (repetition_penalty c) f32_one \<and> t \<in> set (drop (length history - repeat_last_n c) history)"
    using assms by (auto simp: repeated_flags_def Let_def mark_repeated_nth saturating_sub_def)
  then show ?thesis by (simp add: penalised_def adjusted_def)
qed

definition plain_candidate :: "(nat \<Rightarrow> f32) \<Rightarrow> nat \<Rightarrow> candidate" where
  "plain_candidate adj t = \<lparr>token_id = t, logit = adj t, weight = f64_zero\<rparr>"

definition ranking :: "(nat \<Rightarrow> f32) \<Rightarrow> nat \<Rightarrow> candidate list" where
  "ranking adj n = sort_key candidate_rank (map (plain_candidate adj) [0..<n])"

lemma ranked_ranking:
  assumes "length flags = length logits"
  shows "ranked c (repeated_flags c history flags) logits =
    ranking (adjusted c logits history) (length logits)"
  unfolding ranked_def ranking_def
  by (intro arg_cong [where f = "sort_key candidate_rank"] map_cong refl)
     (use assms in \<open>simp add: plain_candidate_def penalised_adjusted\<close>)

lemma set_ranking: "x \<in> set (ranking adj n) \<longleftrightarrow> (\<exists>t<n. x = plain_candidate adj t)"
  by (auto simp: ranking_def)

lemma length_ranking [simp]: "length (ranking adj n) = n"
  by (simp add: ranking_def)

lemma sorted_ranking: "sorted (map candidate_rank (ranking adj n))"
  by (simp add: ranking_def)

lemma distinct_ranking: "distinct (map token_id (ranking adj n))"
  by (auto simp: ranking_def distinct_map inj_on_def plain_candidate_def)

text \<open>\<^verbatim>\<open>beats adj t u\<close>: token \<^verbatim>\<open>t\<close> is ranked in front of token \<^verbatim>\<open>u\<close>.\<close>

definition beats :: "(nat \<Rightarrow> f32) \<Rightarrow> nat \<Rightarrow> nat \<Rightarrow> bool" where
  "beats adj t u \<longleftrightarrow> f32_total (adj u) < f32_total (adj t) \<or> adj u = adj t \<and> t < u"

lemma beats_rank:
  "beats adj t u \<longleftrightarrow> candidate_rank (plain_candidate adj t) < candidate_rank (plain_candidate adj u)"
  by (auto simp: beats_def candidate_rank_def plain_candidate_def f32_total_inject)

lemma beats_linear: "t \<noteq> u \<Longrightarrow> beats adj t u \<or> beats adj u t"
  unfolding beats_def using f32_total_inject [of "adj t" "adj u"] by (metis linorder_less_linear)

text \<open>The candidate at a position is beaten by exactly the tokens in front of it.\<close>

lemma ranking_nth:
  assumes "i < n"
  shows "\<exists>t<n. ranking adj n ! i = plain_candidate adj t \<and> card {u. u < n \<and> beats adj u t} = i"
proof -
  let ?r = "ranking adj n"
  from assms obtain t where t: "t < n" "?r ! i = plain_candidate adj t"
    using nth_mem [of i ?r] by (auto simp: set_ranking)
  have d: "distinct (map token_id ?r)" by (rule distinct_ranking)
  have id: "token_id (?r ! j) < n \<and> ?r ! j = plain_candidate adj (token_id (?r ! j))" if "j < n" for j
    using that nth_mem [of j ?r] by (auto simp: set_ranking plain_candidate_def)
  have le: "candidate_rank (?r ! j) \<le> candidate_rank (?r ! k)" if "j \<le> k" "k < n" for j k
    using sorted_nth_mono [OF sorted_ranking [of adj n], of j k] that by simp
  have "{u. u < n \<and> beats adj u t} = (\<lambda>j. token_id (?r ! j)) ` {..<i}"
  proof (intro equalityI subsetI)
    fix u assume u: "u \<in> {u. u < n \<and> beats adj u t}"
    then have "plain_candidate adj u \<in> set ?r" by (auto simp: set_ranking)
    then obtain j where j: "j < n" "?r ! j = plain_candidate adj u" by (metis in_set_conv_nth length_ranking)
    have "\<not> i \<le> j"
      using u le [of i j] j t(2) by (auto simp: beats_rank)
    then show "u \<in> (\<lambda>j. token_id (?r ! j)) ` {..<i}"
      using j(2) by (auto simp: plain_candidate_def intro!: image_eqI [of _ _ j])
  next
    fix u assume "u \<in> (\<lambda>j. token_id (?r ! j)) ` {..<i}"
    then obtain j where j: "j < i" "u = token_id (?r ! j)" by auto
    then have jn: "j < n" using assms by simp
    have rj: "?r ! j = plain_candidate adj u" "u < n" using id [OF jn] j(2) by auto
    have "u \<noteq> t"
    proof
      assume "u = t"
      then have "map token_id ?r ! j = map token_id ?r ! i"
        using j t(2) jn assms by (simp add: plain_candidate_def)
      then show False using nth_eq_iff_index_eq [OF d, of j i] jn assms j(1) by simp
    qed
    moreover have "\<not> beats adj t u" using le [of j i] j(1) assms rj t(2) by (auto simp: beats_rank)
    ultimately show "u \<in> {u. u < n \<and> beats adj u t}" using beats_linear [of u t adj] rj by auto
  qed
  moreover have "inj_on (\<lambda>j. token_id (?r ! j)) {..<i}"
  proof (rule inj_onI)
    fix x y assume xy: "x \<in> {..<i}" "y \<in> {..<i}" "token_id (?r ! x) = token_id (?r ! y)"
    then have "map token_id ?r ! x = map token_id ?r ! y" using assms by simp
    then show "x = y" using nth_eq_iff_index_eq [OF d, of x y] xy assms by simp
  qed
  ultimately show ?thesis using t by (auto simp: card_image)
qed

section \<open>Sampling without NaN\<close>

lemma first_nan_None: "first_nan logits = None \<longleftrightarrow> (\<forall>t < length logits. \<not> f32_is_nan (logits ! t))"
  by (auto simp: first_nan_def find_None_iff)

lemma sample_greedy_unfold:
  assumes "sampler_ok s" "f32_eq (temperature (sm_config s)) f32_zero" "length logits = sm_vocabulary s"
    and "first_nan logits = None"
  shows "fst (sample exp64 rng_gen s logits history) =
    greedy (ranking (adjusted (sm_config s) logits history) (sm_vocabulary s))"
  using assms by (simp add: sample_def Let_def ranked_ranking sampler_ok_def)

lemma ranking_hd:
  assumes "0 < n"
  shows "\<exists>t<n. ranking adj n = plain_candidate adj t # tl (ranking adj n) \<and>
    (\<forall>u<n. u \<noteq> t \<longrightarrow> beats adj t u)"
proof -
  from ranking_nth [OF assms, of adj] obtain t where t: "t < n" "ranking adj n ! 0 = plain_candidate adj t"
    "card {u. u < n \<and> beats adj u t} = 0" by blast
  from t(3) have "{u. u < n \<and> beats adj u t} = {}" by simp
  then have "\<forall>u<n. u \<noteq> t \<longrightarrow> beats adj t u" using beats_linear by blast
  moreover have "ranking adj n \<noteq> []" using assms by (metis length_ranking list.size(3) less_irrefl)
  ultimately show ?thesis using t(1,2) by (metis hd_conv_nth list.collapse)
qed

lemma beats_asym: "beats adj t u \<Longrightarrow> \<not> beats adj u t"
  by (auto simp: beats_def)

lemma greedy_ranking:
  "greedy (ranking adj n) = Inr t \<longleftrightarrow>
    t < n \<and> \<not> f32_eq (adj t) f32_neg_inf \<and> (\<forall>u<n. u \<noteq> t \<longrightarrow> beats adj t u)"
proof (cases "n = 0")
  case True
  then show ?thesis by (simp add: greedy_def ranking_def)
next
  case False
  then obtain b where b: "b < n" "ranking adj n = plain_candidate adj b # tl (ranking adj n)"
    "\<forall>u<n. u \<noteq> b \<longrightarrow> beats adj b u" using ranking_hd [of n adj] by auto
  have g: "greedy (ranking adj n) = (if f32_eq (adj b) f32_neg_inf then Inl NoCandidate else Inr b)"
    by (subst b(2)) (simp add: greedy_def plain_candidate_def)
  show ?thesis unfolding g using b(1,3) beats_asym by auto metis+
qed

section \<open>The nucleus and the draw\<close>

lemma nucleus_below:
  "Suc j < nucleus threshold acc ws \<Longrightarrow> \<not> f64_le threshold (cumulate acc ws ! j)"
proof (induction ws arbitrary: acc j)
  case (Cons w ws)
  then show ?case by (cases j) (auto simp: Let_def split: if_splits)
qed simp

lemma draw_in: "draw target acc cs = Some t \<Longrightarrow> \<exists>i < length cs. token_id (cs ! i) = t"
  by (induction cs arbitrary: acc) (fastforce simp: Let_def nth_Cons' split: if_splits)+

lemma pick_token_in:
  assumes "fst (pick_token rng_gen cs rng) = Inr t"
  shows "\<exists>i < length cs. token_id (cs ! i) = t"
proof (cases "draw (f64_mul (fst (rng_gen rng)) (f64_sum (map weight cs))) f64_zero cs")
  case None
  then have "cs \<noteq> []" "token_id (last cs) = t"
    using assms by (auto simp: pick_token_def Let_def split: if_splits prod.splits)
  then show ?thesis by (intro exI [of _ "length cs - 1"]) (auto simp: last_conv_nth)
next
  case (Some u)
  then have "u = t" using assms by (auto simp: pick_token_def Let_def split: if_splits prod.splits)
  with Some show ?thesis by (auto dest: draw_in)
qed

lemma apply_top_p_nth:
  assumes "i < length (apply_top_p p ws)"
  shows "i < length ws \<and> apply_top_p p ws ! i = ws ! i \<and>
    (f32_lt p f32_one \<longrightarrow> (\<forall>j<i. \<not> f64_le (f64_mul (f64_sum (map weight ws)) (f64_of_f32 p))
      (cumulate f64_zero (map weight ws) ! j)))"
proof (cases "f32_le f32_one p \<or> length ws \<le> 1")
  case True
  have "\<not> (f32_le f32_one p \<and> f32_lt p f32_one)" by (auto simp: f32_le_def f32_lt_def)
  then show ?thesis using True assms by (auto simp: apply_top_p_def)
next
  case False
  let ?m = "nucleus (f64_mul (f64_sum (map weight ws)) (f64_of_f32 p)) f64_zero (map weight ws)"
  have eq: "apply_top_p p ws = take (max ?m 1) ws" using False by (simp add: apply_top_p_def Let_def)
  from assms have i: "i < length ws" "i < max ?m 1" by (simp_all add: eq)
  have "\<not> f64_le (f64_mul (f64_sum (map weight ws)) (f64_of_f32 p))
      (cumulate f64_zero (map weight ws) ! j)" if "j < i" for j
    using i(2) that by (intro nucleus_below) simp
  then show ?thesis using i by (simp add: eq)
qed

lemma weighted_nth:
  assumes "weighted exp64 temp cs = Inr ws" "i < length ws"
  shows "i < length cs \<and> token_id (ws ! i) = token_id (cs ! i) \<and> logit (ws ! i) = logit (cs ! i) \<and>
    (f32_eq (logit (cs ! 0)) f32_inf \<longrightarrow> f32_eq (logit (cs ! i)) f32_inf)"
proof -
  let ?inf = "takeWhile (\<lambda>x. f32_eq (logit x) f32_inf) cs"
  show ?thesis
  proof (cases "?inf = []")
    case False
    then have ws: "ws = map (\<lambda>x. x\<lparr>weight := f64_one\<rparr>) ?inf"
      using assms(1) by (simp add: weighted_def Let_def)
    with assms(2) have i: "i < length ?inf" by simp
    then have "i < length cs" by (meson length_takeWhile_le order.strict_trans2)
    moreover have "?inf ! i = cs ! i" using i by (rule takeWhile_nth)
    moreover have "f32_eq (logit (?inf ! i)) f32_inf" using i by (metis nth_mem set_takeWhileD)
    ultimately show ?thesis using i by (simp add: ws)
  next
    case True
    then obtain b r where cs: "cs = b # r" using assms by (cases cs) (auto simp: weighted_def Let_def)
    have f: "ws = map (\<lambda>x. x\<lparr>weight :=
        exp64 (f64_div (f64_sub (f64_of_f32 (logit x)) (f64_of_f32 (logit b))) (f64_of_f32 temp))\<rparr>) cs"
      using assms(1) True unfolding cs by (auto simp: weighted_def Let_def split: if_splits)
    have "i < length cs" using assms(2) by (simp add: f)
    moreover have "\<not> f32_eq (logit (cs ! 0)) f32_inf" using True by (auto simp: cs split: if_splits)
    ultimately show ?thesis by (simp add: f)
  qed
qed

section \<open>Penalised logits are numbers\<close>

lemma apply_repetition_penalty_nan:
  assumes "\<not> f32_is_nan x" "f32_is_finite p" "\<not> f32_le p f32_zero"
  shows "\<not> f32_is_nan (apply_repetition_penalty x p)"
proof -
  obtain s m e where p: "f32_val p = FFin s m e" using assms(2) by (auto simp: f32_finite_val)
  have "f32_key p \<noteq> 0"
    using assms(3) f32_finite_not_nan [OF assms(2)]
    by (auto simp: f32_le_def f32_zero_def f32_is_nan_def f32_key_def fkey_def signed_def fsign_def fmagnitude_def fnan_def)
  then have m: "m \<noteq> 0" using f32_val_zero [OF p] by simp
  have x: "f32_val x \<noteq> FNaN" using assms(1) by (simp add: f32_nan_val)
  have "vmul (f32_val x) (f32_val p) \<noteq> FNaN" using x m by (cases "f32_val x") (auto simp: p)
  then have "\<not> f32_is_nan (f32_mul x p)" by (simp add: f32_mul_def f32_of_val_nan)
  moreover have "\<not> f32_is_nan (f32_div x p)"
  proof -
    have w: "fmagnitude 23 8 (with_sign 23 8 t n) \<le> inf_bits 23 8" if "n \<le> inf_bits 23 8" for t n
      using that by (auto simp: with_sign_def fmagnitude_def inf_bits_def)
    have "fmagnitude 23 8 (fdiv 23 8 (f32_val x) (f32_val p)) \<le> inf_bits 23 8"
      using x m by (cases "f32_val x") (auto simp: p Let_def fround_le intro!: w)
    then show ?thesis unfolding f32_div_def by (rule f32_make_nan)
  qed
  ultimately show ?thesis by (simp add: apply_repetition_penalty_def)
qed

lemma adjusted_nan:
  assumes "is_ok (validate_sampling c v)" "\<not> f32_is_nan (logits ! t)"
  shows "\<not> f32_is_nan (adjusted c logits history t)"
proof -
  have "f32_is_finite (repetition_penalty c)" "\<not> f32_le (repetition_penalty c) f32_zero"
    using assms(1) by (auto simp: validate_sampling_def is_ok_def split: if_splits)
  then show ?thesis using assms(2) by (simp add: adjusted_def apply_repetition_penalty_nan)
qed

text \<open>\<^verbatim>\<open>f32_inf\<close> is the largest number.\<close>

lemma f32_total_inf: "\<not> f32_is_nan x \<Longrightarrow> f32_total x \<le> f32_total f32_inf"
  by (auto simp: f32_total_def ftotal_def f32_is_nan_def fnan_def f32_inf_def inf_bits_def fsign_def fmagnitude_def)

lemma f32_eq_inf: "f32_eq x f32_inf \<longleftrightarrow> x = f32_inf"
proof
  assume "f32_eq x f32_inf"
  then have "f32_total x = f32_total f32_inf"
    by (auto simp: f32_eq_def f32_key_def fkey_def signed_def f32_total_def ftotal_def f32_inf_def fsign_def
        fmagnitude_def split: if_splits)
  then show "x = f32_inf" by (simp add: f32_total_inject)
qed (simp add: f32_eq_def f32_is_nan_def fnan_def f32_inf_def fmagnitude_def inf_bits_def)

section \<open>Properties\<close>

text \<open>
  At temperature zero the sampler is the argmax: it returns a token exactly when no logit is NaN,
  and then the token whose penalised logit is the largest of the vocabulary, the lowest id winning a
  tie; when even that logit is negative infinity there is no candidate.
\<close>

theorem sample_greedy:
  assumes "sampler_ok s" "f32_eq (temperature (sm_config s)) f32_zero" "length logits = sm_vocabulary s"
  shows "fst (sample exp64 rng_gen s logits history) = Inr t \<longleftrightarrow>
    (\<forall>u < sm_vocabulary s. \<not> f32_is_nan (logits ! u)) \<and> t < sm_vocabulary s \<and>
    \<not> f32_eq (adjusted (sm_config s) logits history t) f32_neg_inf \<and>
    (\<forall>u < sm_vocabulary s. u \<noteq> t \<longrightarrow> beats (adjusted (sm_config s) logits history) t u)"
proof (cases "first_nan logits")
  case None
  then show ?thesis
    using sample_greedy_unfold [OF assms None, of exp64 rng_gen history] first_nan_None [of logits] assms(3)
    by (simp add: greedy_ranking)
next
  case (Some u)
  then have "\<exists>u < sm_vocabulary s. f32_is_nan (logits ! u)"
    using first_nan_None [of logits] assms(3) by auto
  then show ?thesis using Some assms(3) by (auto simp: sample_def)
qed

definition toy_sampler :: "f32 \<Rightarrow> nat sampler" where
  "toy_sampler temp =
     \<lparr>sm_config = default_sampling_config\<lparr>temperature := temp, top_k := 2\<rparr>, sm_vocabulary = 3, sm_rng = 0,
      sm_candidates = [], sm_repeated = [False, False, False]\<rparr>"

lemma sample_greedy_witness:
  "sampler_ok (toy_sampler 0) \<and> (fst (sample id (\<lambda>r. (0, r)) (toy_sampler 0) [0, f32_one, f32_one] []) = Inr 1 \<longleftrightarrow>
    (\<forall>u < sm_vocabulary (toy_sampler 0). \<not> f32_is_nan ([0, f32_one, f32_one] ! u)) \<and>
    1 < sm_vocabulary (toy_sampler 0) \<and>
    \<not> f32_eq (adjusted (sm_config (toy_sampler 0)) [0, f32_one, f32_one] [] 1) f32_neg_inf \<and>
    (\<forall>u < sm_vocabulary (toy_sampler 0). u \<noteq> 1 \<longrightarrow>
      beats (adjusted (sm_config (toy_sampler 0)) [0, f32_one, f32_one] []) 1 u))"
proof -
  have 1: "sampler_ok (toy_sampler 0)"
    by (simp add: sampler_ok_def toy_sampler_def default_sampling_config_def validate_sampling_def f32_compare)
  have 2: "f32_eq (temperature (sm_config (toy_sampler 0))) f32_zero" by (simp add: toy_sampler_def f32_compare)
  have 3: "length [0, f32_one, f32_one] = sm_vocabulary (toy_sampler 0)" by (simp add: toy_sampler_def)
  show ?thesis using 1 sample_greedy [OF 1 2 3, of id "\<lambda>r. (0, r)" "[]" 1] by blast
qed

lemma sampled_candidates:
  assumes s: "sampler_ok s" and t: "\<not> f32_eq (temperature (sm_config s)) f32_zero"
    and r: "fst (sample exp64 rng_gen s logits history) = Inr tok"
  shows "length logits = sm_vocabulary s \<and> first_nan logits = None \<and> (\<exists>ws.
    weighted exp64 (temperature (sm_config s)) (top_k_cut (sm_config s)
      (ranking (adjusted (sm_config s) logits history) (sm_vocabulary s))) = Inr ws \<and>
    fst (pick_token rng_gen (apply_top_p (top_p (sm_config s)) ws) (sm_rng s)) = Inr tok)"
proof -
  let ?c = "sm_config s"
  have l: "length logits = sm_vocabulary s" and n: "first_nan logits = None"
    using r by (auto simp: sample_def split: if_splits option.splits)
  have rk: "ranked ?c (repeated_flags ?c history (sm_repeated s)) logits =
      ranking (adjusted ?c logits history) (sm_vocabulary s)"
    using s l by (simp add: ranked_ranking sampler_ok_def)
  show ?thesis
    using r t l n by (auto simp: sample_def Let_def rk split: sum.splits prod.splits)
qed

lemma sample_at_temperature:
  assumes "sampler_ok s" "\<not> f32_eq (temperature (sm_config s)) f32_zero"
    and "fst (sample exp64 rng_gen s logits history) = Inr t"
  defines "adj \<equiv> adjusted (sm_config s) logits history" and "n \<equiv> sm_vocabulary s"
  shows "length logits = n \<and> (\<forall>u<n. \<not> f32_is_nan (logits ! u)) \<and> t < n \<and>
    (top_k (sm_config s) \<noteq> 0 \<longrightarrow> card {u. u < n \<and> beats adj u t} < top_k (sm_config s)) \<and>
    ((\<exists>u<n. adj u = f32_inf) \<longrightarrow> adj t = f32_inf) \<and>
    (\<exists>ws i. weighted exp64 (temperature (sm_config s)) (top_k_cut (sm_config s) (ranking adj n)) = Inr ws \<and>
      i < length ws \<and> token_id (ws ! i) = t \<and>
      (f32_lt (top_p (sm_config s)) f32_one \<longrightarrow> (\<forall>j<i.
        \<not> f64_le (f64_mul (f64_sum (map weight ws)) (f64_of_f32 (top_p (sm_config s))))
          (cumulate f64_zero (map weight ws) ! j))))"
proof -
  let ?c = "sm_config s"
  let ?cs = "top_k_cut ?c (ranking adj n)"
  from sampled_candidates [OF assms(1-3)] obtain ws where l: "length logits = n" "first_nan logits = None"
    and ws: "weighted exp64 (temperature ?c) ?cs = Inr ws"
    and p: "fst (pick_token rng_gen (apply_top_p (top_p ?c) ws) (sm_rng s)) = Inr t"
    by (auto simp: adj_def n_def)
  from pick_token_in [OF p] obtain i where i: "i < length (apply_top_p (top_p ?c) ws)"
    "token_id (apply_top_p (top_p ?c) ws ! i) = t" by blast
  note top = apply_top_p_nth [OF i(1)]
  then have wi: "i < length ws" "token_id (ws ! i) = t" using i(2) by simp_all
  note w = weighted_nth [OF ws wi(1)]
  then have ci: "i < length ?cs" "token_id (?cs ! i) = t" using wi(2) by simp_all
  then have rn: "i < n" "?cs ! i = ranking adj n ! i" and k: "top_k ?c \<noteq> 0 \<Longrightarrow> i < top_k ?c"
    by (auto simp: top_k_cut_def split: if_splits)
  from ranking_nth [OF rn(1), of adj] obtain u where u: "u < n" "ranking adj n ! i = plain_candidate adj u"
    "card {v. v < n \<and> beats adj v u} = i" by blast
  then have ut: "u = t" using ci(2) rn(2) by (simp add: plain_candidate_def)
  have nn: "\<forall>u<n. \<not> f32_is_nan (logits ! u)" using l by (simp add: first_nan_None)
  have "adj t = f32_inf" if inf: "\<exists>u<n. adj u = f32_inf"
  proof -
    have n0: "0 < n" using u(1) by simp
    from ranking_hd [OF n0, of adj] obtain b where b: "b < n" "ranking adj n = plain_candidate adj b # tl (ranking adj n)"
      "\<forall>u<n. u \<noteq> b \<longrightarrow> beats adj b u" by blast
    from inf obtain v where v: "v < n" "adj v = f32_inf" by blast
    have "\<not> f32_is_nan (adj b)"
      unfolding adj_def using assms(1) nn b(1) by (intro adjusted_nan [of _ n]) (auto simp: sampler_ok_def n_def)
    then have "f32_total (adj b) \<le> f32_total f32_inf" by (rule f32_total_inf)
    then have "adj b = f32_inf" using b(3) v by (cases "v = b") (auto simp: beats_def)
    moreover have "ranking adj n ! 0 = plain_candidate adj b" by (metis b(2) nth_Cons_0)
    moreover have "0 < length ?cs" using ci(1) by linarith
    then have "?cs ! 0 = ranking adj n ! 0" by (simp add: top_k_cut_def)
    ultimately have "f32_eq (logit (?cs ! 0)) f32_inf" by (simp add: plain_candidate_def f32_eq_inf)
    with w have "f32_eq (logit (?cs ! i)) f32_inf" by blast
    then show ?thesis using rn(2) u(2) ut by (simp add: plain_candidate_def f32_eq_inf)
  qed
  moreover have "t < n" "card {v. v < n \<and> beats adj v t} = i" using u ut by simp_all
  moreover have "length ws > i" "token_id (ws ! i) = t" by (rule wi)+
  ultimately show ?thesis using l(1) nn k ws top by (intro conjI exI [of _ ws] exI [of _ i]) simp_all
qed

text \<open> C34.
  Every sampled token is one the configuration allows. None is sampled from logits with a NaN or of another
  length, and what is returned is in the vocabulary. At temperature zero its penalised logit is not negative
  infinity and it beats every other token, by its logit or, in a tie, by its lower id. At any other temperature fewer than
  \<^verbatim>\<open>top_k\<close> tokens are ranked in front of it (when \<^verbatim>\<open>top_k\<close> is set), its logit is positive infinity when any
  token's is, and the candidates in front of it do not reach the \<^verbatim>\<open>top_p\<close> mass of the kept weights (when
  \<^verbatim>\<open>top_p\<close> is below one).
\<close>

theorem sample_support:
  assumes "sampler_ok s" "fst (sample exp64 rng_gen s logits history) = Inr t"
  defines "adj \<equiv> adjusted (sm_config s) logits history" and "n \<equiv> sm_vocabulary s"
  shows "length logits = n \<and> (\<forall>u<n. \<not> f32_is_nan (logits ! u)) \<and> t < n \<and>
    (if f32_eq (temperature (sm_config s)) f32_zero
     then \<not> f32_eq (adj t) f32_neg_inf \<and> (\<forall>u<n. u \<noteq> t \<longrightarrow> beats adj t u)
     else
      (top_k (sm_config s) \<noteq> 0 \<longrightarrow> card {u. u < n \<and> beats adj u t} < top_k (sm_config s)) \<and>
      ((\<exists>u<n. adj u = f32_inf) \<longrightarrow> adj t = f32_inf) \<and>
      (\<exists>ws i. weighted exp64 (temperature (sm_config s)) (top_k_cut (sm_config s) (ranking adj n)) = Inr ws \<and>
        i < length ws \<and> token_id (ws ! i) = t \<and>
        (f32_lt (top_p (sm_config s)) f32_one \<longrightarrow> (\<forall>j<i.
          \<not> f64_le (f64_mul (f64_sum (map weight ws)) (f64_of_f32 (top_p (sm_config s))))
            (cumulate f64_zero (map weight ws) ! j)))))"
proof (cases "f32_eq (temperature (sm_config s)) f32_zero")
  case True
  have "length logits = sm_vocabulary s" using assms(2) by (simp add: sample_def split: if_splits)
  with sample_greedy [OF assms(1) True this, of exp64 rng_gen history t] assms(2) True show ?thesis
    by (simp add: adj_def n_def)
next
  case False
  from sample_at_temperature [OF assms(1) False assms(2)] False show ?thesis
    unfolding adj_def n_def if_not_P [OF False] by blast
qed

lemma toy_support:
  "fst (sample (\<lambda>_. f64_one) (\<lambda>r. (f64_zero, r)) (toy_sampler f32_one) [0, f32_inf, f32_one] []) = Inr 1"
proof -
  have "first_nan [0, f32_inf, f32_one] = None"
    by (auto simp: first_nan_None f32_compare less_Suc_eq)
  moreover have "ranked (sm_config (toy_sampler f32_one)) (repeated_flags (sm_config (toy_sampler f32_one)) []
      (sm_repeated (toy_sampler f32_one))) [0, f32_inf, f32_one] =
     map (plain_candidate (\<lambda>t. [0, f32_inf, f32_one] ! t)) [1, 2, 0]"
    by (simp add: ranked_def upt_rec toy_sampler_def default_sampling_config_def repeated_flags_def
        penalised_def candidate_rank_def plain_candidate_def f32_compare)
  ultimately show ?thesis
    by (simp add: sample_def Let_def)
       (simp add: toy_sampler_def default_sampling_config_def f32_compare top_k_cut_def weighted_def
         plain_candidate_def apply_top_p_def pick_token_def f64_sum_def f64_unit f64_zero_mul_one)
qed

lemma sample_support_witness:
  "(1 :: nat) < 3 \<and> card {u. u < 3 \<and> beats (adjusted (sm_config (toy_sampler f32_one)) [0, f32_inf, f32_one] []) u 1} < 2"
proof -
  have 1: "sampler_ok (toy_sampler f32_one)"
    by (simp add: sampler_ok_def toy_sampler_def default_sampling_config_def validate_sampling_def f32_compare)
  have 2: "\<not> f32_eq (temperature (sm_config (toy_sampler f32_one))) f32_zero"
    by (simp add: toy_sampler_def f32_compare)
  from sample_support [OF 1 toy_support] 2 show ?thesis by (simp add: toy_sampler_def)
qed

lemma finite_candidate_weight:
  assumes x: "f32_val x = FFin s m e" and t: "f32_val temp = FFin False n f" "n \<noteq> 0"
  shows "f64_div (f64_sub (f64_of_f32 x) (f64_of_f32 x)) (f64_of_f32 temp) = f64_zero"
proof -
  from f64_of_f32_val [OF x] obtain m' e' where "f64_val (f64_of_f32 x) = FFin s m' e'" by blast
  then have z: "f64_sub (f64_of_f32 x) (f64_of_f32 x) = f64_zero" by (rule f64_sub_self)
  from f64_of_f32_val [OF t(1)] t(2) obtain n' f' where "f64_val (f64_of_f32 temp) = FFin False n' f'" "n' \<noteq> 0"
    by blast
  then show ?thesis
    unfolding z f64_div_def f64_zero_val by (simp add: with_sign_def f64_make_def f64_zero_def)
qed

lemma positive_temperature:
  assumes "is_ok (validate_sampling c v)" "\<not> f32_eq (temperature c) f32_zero"
  shows "\<exists>n f. f32_val (temperature c) = FFin False n f \<and> n \<noteq> 0"
proof -
  let ?t = "temperature c"
  have f: "f32_is_finite ?t" and nl: "\<not> f32_lt ?t f32_zero"
    using assms(1) by (auto simp: validate_sampling_def is_ok_def split: if_splits)
  note nn = f32_finite_not_nan [OF f]
  from f obtain s n e where v: "f32_val ?t = FFin s n e" by (auto simp: f32_finite_val)
  have z: "\<not> f32_is_nan f32_zero" "f32_key f32_zero = 0" by (simp_all add: f32_compare)
  have k: "0 < f32_key ?t" using nl assms(2) nn z by (auto simp: f32_lt_def f32_eq_def)
  then have "\<not> fsign 23 8 (unat ?t)" by (auto simp: f32_key_def fkey_def signed_def split: if_splits)
  moreover have "s = fsign 23 8 (unat ?t)"
    using v by (auto simp: f32_val_def fdecode_def Let_def fsign_def split: if_splits)
  ultimately show ?thesis using v f32_val_zero [OF v] k by auto
qed

lemma pick_single:
  "fst (pick_token rng_gen [x\<lparr>weight := f64_one\<rparr>] rng) = Inr (token_id x)"
  by (simp add: pick_token_def f64_sum_def f64_unit Let_def split: prod.splits)

lemma f32_val_cases:
  assumes "\<not> f32_is_nan x" "\<not> f32_eq x f32_inf" "\<not> f32_eq x f32_neg_inf"
  shows "\<exists>s m e. f32_val x = FFin s m e"
proof (rule ccontr)
  assume "\<not> ?thesis"
  then have "\<not> f32_is_finite x" by (simp add: f32_finite_val)
  then have "fmagnitude 23 8 (unat x) = inf_bits 23 8"
    using assms(1) by (simp add: f32_is_finite_iff f32_is_nan_def fnan_def)
  then show False using assms by (auto simp: f32_compare split: if_splits)
qed

text \<open>
  With \<^verbatim>\<open>top_k\<close> equal to one, sampling at any positive temperature is the greedy choice: the same token
  or the same error, whatever the random generator, the penalty and the \<^verbatim>\<open>top_p\<close> mass. The exponential
  function is only assumed to be one at zero.
\<close>

theorem sample_top1_greedy:
  assumes "sampler_ok s" "\<not> f32_eq (temperature (sm_config s)) f32_zero" "top_k (sm_config s) = 1"
    and "exp64 f64_zero = f64_one"
  shows "fst (sample exp64 rng_gen s logits history) =
    fst (sample exp64 rng_gen (s\<lparr>sm_config := (sm_config s)\<lparr>temperature := f32_zero\<rparr>\<rparr>) logits history)"
proof (cases "length logits = sm_vocabulary s \<and> first_nan logits = None")
  case False
  then show ?thesis by (auto simp: sample_def split: option.splits)
next
  case True
  let ?c = "sm_config s" and ?n = "sm_vocabulary s"
  let ?adj = "adjusted ?c logits history"
  have rk: "ranked ?c (repeated_flags ?c history (sm_repeated s)) logits = ranking ?adj ?n"
    using assms(1) True by (simp add: ranked_ranking sampler_ok_def)
  have z: "f32_eq f32_zero f32_zero" by (simp add: f32_compare)
  have rk0: "ranked (?c\<lparr>temperature := f32_zero\<rparr>) (repeated_flags (?c\<lparr>temperature := f32_zero\<rparr>) history (sm_repeated s))
      logits = ranking ?adj ?n"
  proof -
    have "repeated_flags (c\<lparr>temperature := x\<rparr>) = repeated_flags c" "ranked (c\<lparr>temperature := x\<rparr>) = ranked c"
      for c :: sampling_config and x
      by (intro ext, simp add: repeated_flags_def Let_def cong: if_cong)
        (intro ext, simp add: ranked_def penalised_def cong: if_cong)
    then show ?thesis using rk by (simp only:)
  qed
  have g: "fst (sample exp64 rng_gen (s\<lparr>sm_config := ?c\<lparr>temperature := f32_zero\<rparr>\<rparr>) logits history) =
      greedy (ranking ?adj ?n)"
    using True by (simp add: sample_def Let_def z rk0)
  have "0 < ?n" using assms(1) by (cases "?n = 0") (auto simp: sampler_ok_def validate_sampling_def)
  from ranking_hd [OF this, of ?adj] obtain b where b: "b < ?n" "ranking ?adj ?n = plain_candidate ?adj b # tl (ranking ?adj ?n)"
    by blast
  let ?b = "plain_candidate ?adj b"
  have cut: "top_k_cut ?c (ranking ?adj ?n) = [?b]"
    by (subst b(2)) (simp add: top_k_cut_def assms(3))
  have nan: "\<not> f32_is_nan (?adj b)"
    using assms(1) True b(1) by (intro adjusted_nan [of _ ?n]) (auto simp: sampler_ok_def first_nan_None)
  have gr: "greedy (ranking ?adj ?n) = (if f32_eq (?adj b) f32_neg_inf then Inl NoCandidate else Inr b)"
    by (subst b(2)) (simp add: greedy_def plain_candidate_def)
  have id: "token_id ?b = b" "logit ?b = ?adj b" by (simp_all add: plain_candidate_def)
  have top: "apply_top_p p [x] = [x]" for p and x :: candidate by (simp add: apply_top_p_def)
  have sm: "fst (sample exp64 rng_gen s logits history) =
      (case weighted exp64 (temperature ?c) [?b] of Inl e \<Rightarrow> Inl e
       | Inr ws \<Rightarrow> fst (pick_token rng_gen (apply_top_p (top_p ?c) ws) (sm_rng s)))"
    using True assms(2) by (auto simp: sample_def Let_def rk cut split: sum.splits prod.splits)
  have w: "weighted exp64 (temperature ?c) [?b] =
      (if f32_eq (?adj b) f32_neg_inf then Inl NoCandidate else Inr [?b\<lparr>weight := f64_one\<rparr>])"
  proof (cases "f32_eq (?adj b) f32_inf \<or> f32_eq (?adj b) f32_neg_inf")
    case True
    then have "f32_eq (?adj b) f32_inf \<Longrightarrow> \<not> f32_eq (?adj b) f32_neg_inf" by (auto simp: f32_eq_inf f32_compare)
    then show ?thesis using True by (auto simp: weighted_def id)
  next
    case False
    then obtain sg m e where "f32_val (?adj b) = FFin sg m e" using f32_val_cases [OF nan] by blast
    moreover obtain n f where "f32_val (temperature ?c) = FFin False n f" "n \<noteq> 0"
      using positive_temperature [OF _ assms(2), of ?n] assms(1) unfolding sampler_ok_def by blast
    ultimately have "exp64 (f64_div (f64_sub (f64_of_f32 (?adj b)) (f64_of_f32 (?adj b)))
        (f64_of_f32 (temperature ?c))) = f64_one"
      using assms(4) by (simp add: finite_candidate_weight)
    then show ?thesis using False by (simp add: weighted_def id)
  qed
  show ?thesis unfolding g gr sm w by (auto simp: top pick_single id)
qed

lemma sample_top1_greedy_witness:
  "fst (sample (\<lambda>_. f64_one) (\<lambda>r. (f64_zero, r)) ((toy_sampler f32_one)\<lparr>sm_config := default_sampling_config\<lparr>top_k := 1\<rparr>\<rparr>)
     [f32_zero, f32_one, f32_one] [1]) =
   fst (sample (\<lambda>_. f64_one) (\<lambda>r. (f64_zero, r))
     ((toy_sampler f32_one)\<lparr>sm_config := default_sampling_config\<lparr>top_k := 1, temperature := f32_zero\<rparr>\<rparr>)
     [f32_zero, f32_one, f32_one] [1])"
proof -
  let ?s = "(toy_sampler f32_one)\<lparr>sm_config := default_sampling_config\<lparr>top_k := 1\<rparr>\<rparr>"
  have 1: "sampler_ok ?s"
    by (simp add: sampler_ok_def toy_sampler_def default_sampling_config_def validate_sampling_def f32_compare)
  have 2: "\<not> f32_eq (temperature (sm_config ?s)) f32_zero"
    by (simp add: default_sampling_config_def f32_compare)
  have 3: "top_k (sm_config ?s) = 1" by simp
  show ?thesis
    using sample_top1_greedy [OF 1 2 3, of "\<lambda>_. f64_one" "\<lambda>r. (f64_zero, r)"] by simp
qed

end
