(* ===== verification/Ieee_Round.thy ===== *)
theory Ieee_Round
  imports Ieee Complex_Main
begin

text \<open>
  Correctness of the rounding of \<^verbatim>\<open>Ieee\<close>: the real value of a pattern, its monotonicity, and the two
  bounds that characterise rounding to a neighbour. A pattern below the exact value stays below the
  result, a pattern above it stays above. Bounds on the magnitude of computed values follow.
\<close>

section \<open>The value of a pattern\<close>

definition two :: "int \<Rightarrow> real" where "two e = 2 powi e"

lemma two_pos [simp]: "0 < two e" "0 \<le> two e" "two e \<noteq> 0"
  by (simp_all add: two_def)

lemma two_add: "two (a + b) = two a * two b"
  by (simp add: two_def power_int_add)

lemma two_nat: "two (int n) = 2 ^ n"
  by (simp add: two_def)

lemma two_le [simp]: "two a \<le> two b \<longleftrightarrow> a \<le> b"
proof (cases "a \<le> b")
  case True
  then show ?thesis by (simp add: two_def power_int_increasing)
next
  case False
  then have "two b < two a" unfolding two_def by (intro power_int_strict_increasing) simp_all
  then show ?thesis using False by simp
qed

lemma two_0 [simp]: "two 0 = 1" and two_1 [simp]: "two 1 = 2"
  by (simp_all add: two_def)

lemma two_shift: "a \<le> b \<Longrightarrow> two b = two a * 2 ^ nat (b - a)"
  using two_add [of a "b - a"] two_nat [of "nat (b - a)"] by simp

definition mag_val :: "nat \<Rightarrow> nat \<Rightarrow> nat \<Rightarrow> real" where
  "mag_val mb eb n =
     (let x = n div 2 ^ mb; y = n mod 2 ^ mb
      in if x = 0 then real y * two (emin mb eb) else real (y + 2 ^ mb) * two (emin mb eb + int x - 1))"

lemma mag_val_compose:
  assumes "k \<le> 2 * 2 ^ mb" "a = 0 \<or> 2 ^ mb \<le> k"
  shows "mag_val mb eb (a * 2 ^ mb + k) = real k * two (emin mb eb + int a)"
proof -
  let ?n = "a * 2 ^ mb + k"
  consider "k < 2 ^ mb" | j where "k = 2 ^ mb + j" "j < 2 ^ mb" | "k = 2 * 2 ^ mb"
    using assms(1) by (metis add_diff_inverse_nat le_neq_implies_less mult_2 nat_add_left_cancel_less)
  then show ?thesis
  proof cases
    case 1
    then show ?thesis using assms(2) by (auto simp: mag_val_def)
  next
    case 2
    then have "?n = j + Suc a * 2 ^ mb" by simp
    then have "?n div 2 ^ mb = Suc a" "?n mod 2 ^ mb = j" using 2(2) by (simp_all del: mult_Suc)
    then show ?thesis using 2(1) by (simp add: mag_val_def Let_def add.commute)
  next
    case 3
    then have "?n = Suc (Suc a) * 2 ^ mb" by simp
    then have "?n div 2 ^ mb = Suc (Suc a)" "?n mod 2 ^ mb = 0" by (simp_all del: mult_Suc)
    moreover have "emin mb eb + int (Suc (Suc a)) - 1 = (emin mb eb + int a) + 1" by simp
    ultimately show ?thesis using 3 by (simp add: mag_val_def Let_def two_add)
  qed
qed

lemma mag_split:
  fixes n :: nat
  obtains a k where "n = a * 2 ^ mb + k" "k < 2 * 2 ^ mb" "a = 0 \<or> 2 ^ mb \<le> k"
proof -
  have n: "n = n div 2 ^ mb * 2 ^ mb + n mod 2 ^ mb" by (simp only: div_mult_mod_eq)
  have m: "n mod 2 ^ mb < 2 ^ mb" by simp
  show ?thesis
  proof (cases "n div 2 ^ mb")
    case 0
    show ?thesis by (rule that [of 0 n]) (use n m 0 in simp_all)
  next
    case (Suc a)
    show ?thesis by (rule that [of a "2 ^ mb + n mod 2 ^ mb"]) (use n m Suc in simp_all)
  qed
qed

lemma mag_val_Suc: "mag_val mb eb n < mag_val mb eb (Suc n)"
proof -
  obtain a k where n: "n = a * 2 ^ mb + k" "k < 2 * 2 ^ mb" "a = 0 \<or> 2 ^ mb \<le> k" by (rule mag_split)
  have "mag_val mb eb (a * 2 ^ mb + Suc k) = real (Suc k) * two (emin mb eb + int a)"
    by (rule mag_val_compose) (use n in auto)
  moreover have "mag_val mb eb n = real k * two (emin mb eb + int a)"
    unfolding n(1) by (rule mag_val_compose) (use n in auto)
  ultimately show ?thesis by (simp add: n(1))
qed

lemma mag_val_less: "mag_val mb eb m < mag_val mb eb n \<longleftrightarrow> m < n"
proof -
  have lt: "m < n \<Longrightarrow> mag_val mb eb m < mag_val mb eb n" for m n
    by (rule lift_Suc_mono_less [of "mag_val mb eb"]) (rule mag_val_Suc)
  show ?thesis using lt [of m n] lt [of n m] by (cases m n rule: linorder_cases) auto
qed

lemma mag_val_le: "mag_val mb eb m \<le> mag_val mb eb n \<longleftrightarrow> m \<le> n"
  by (simp add: mag_val_less flip: not_less)

section \<open>Rounding\<close>

text \<open>The rounded quotient is within one half of the exact one.\<close>

lemma shift_round_near:
  assumes w: "real m \<le> w" "w < real m + 1" "\<not> st \<Longrightarrow> w = real m" and d: "st \<Longrightarrow> 0 < d"
  shows "\<bar>real (shift_round m d st) - w / 2 ^ d\<bar> \<le> 1 / 2"
proof (cases "d = 0")
  case True
  then have "\<not> st" using d by auto
  then show ?thesis using w(3) True by (simp add: shift_round_def)
next
  case False
  define k r h where "k = m div 2 ^ d" and "r = m mod 2 ^ d" and "h = (2 :: nat) ^ (d - 1)"
  have h: "(2 :: nat) ^ d = 2 * h" using False by (cases d) (simp_all add: h_def)
  have m: "m = k * (2 * h) + r" unfolding k_def r_def h [symmetric] by (simp only: div_mult_mod_eq)
  have r: "r < 2 * h" unfolding r_def h [symmetric] by simp
  have h0: "0 < h" by (simp add: h_def)
  have hd: "(2 :: real) ^ d = 2 * real h" using h by (metis of_nat_mult of_nat_numeral of_nat_power)
  have s: "shift_round m d st = (if h < r \<or> r = h \<and> (st \<or> odd k) then Suc k else k)"
    using False by (simp add: shift_round_def Let_def k_def r_def h_def)
  have mr: "real m = real k * (2 * real h) + real r" by (simp add: m)
  show ?thesis
  proof (cases "h < r \<or> r = h \<and> (st \<or> odd k)")
    case True
    then have "real h \<le> real r" "real r + 1 \<le> 2 * real h" using r by linarith+
    then have "real k * (2 * real h) + real h \<le> w" "w \<le> real k * (2 * real h) + 2 * real h"
      using w(1,2) mr by linarith+
    then have "real k + 1 / 2 \<le> w / (2 * real h)" "w / (2 * real h) \<le> real k + 1"
      using h0 by (simp_all add: field_simps)
    then show ?thesis using True by (simp add: s hd abs_le_iff)
  next
    case nup: False
    then have "r < h \<or> r = h \<and> \<not> st" by auto
    then have "w \<le> real k * (2 * real h) + real h"
    proof
      assume "r < h"
      then have "real r + 1 \<le> real h" by linarith
      then show ?thesis using w(2) mr by linarith
    qed (use w(3) mr in auto)
    moreover have "real k * (2 * real h) \<le> w" using w(1) mr by linarith
    ultimately have "real k \<le> w / (2 * real h)" "w / (2 * real h) \<le> real k + 1 / 2"
      using h0 by (simp_all add: field_simps)
    then show ?thesis using nup by (simp add: s hd abs_le_iff)
  qed
qed

text \<open>
  The rounded pattern before saturation: its exponent \<^verbatim>\<open>emin + a\<close> and significand \<^verbatim>\<open>k\<close>, and how far they
  are from the exact value \<^verbatim>\<open>v\<close>, which lies in the last place of \<^verbatim>\<open>m * 2^e\<close>.
\<close>

lemma fround_shape:
  assumes m: "0 < m" and v: "real m * two e \<le> v" "v < (real m + 1) * two e" "\<not> st \<Longrightarrow> v = real m * two e"
    and st: "st \<Longrightarrow> int (Suc mb) < int (bit_len m)"
  obtains a k where "fround mb eb m e st = min (a * 2 ^ mb + k) (inf_bits mb eb)"
    "k \<le> 2 * 2 ^ mb" "a = 0 \<or> 2 ^ mb \<le> k" "\<bar>real k * two (emin mb eb + int a) - v\<bar> \<le> two (emin mb eb + int a) / 2"
    "0 < a \<longrightarrow> real (2 ^ mb) * two (emin mb eb + int a) \<le> v"
proof -
  define q where "q = max (emin mb eb) (e + int (bit_len m) - int (Suc mb))"
  define a where "a = nat (q - emin mb eb)"
  define k where "k = (if q \<le> e then m * 2 ^ nat (e - q) else shift_round m (nat (q - e)) st)"
  have q: "q = emin mb eb + int a" by (simp add: a_def q_def)
  have fr: "fround mb eb m e st = min (a * 2 ^ mb + k) (inf_bits mb eb)"
    by (simp only: fround_def Let_def flip: q_def k_def a_def)
  have near: "\<bar>real k - v / two q\<bar> \<le> 1 / 2"
  proof (cases "q \<le> e")
    case True
    then have ns: "\<not> st" using st by (auto simp: q_def)
    have "two e = two q * 2 ^ nat (e - q)" using True by (rule two_shift)
    then show ?thesis using True v(3) [OF ns] by (simp add: k_def)
  next
    case False
    have t: "two q = two e * 2 ^ nat (q - e)" using False by (intro two_shift) simp
    let ?w = "v / two e"
    have "real m \<le> ?w" "?w < real m + 1" "\<not> st \<Longrightarrow> ?w = real m" using v by (simp_all add: field_simps)
    from shift_round_near [OF this, where d = "nat (q - e)"] False show ?thesis by (simp add: k_def t)
  qed
  have "real m + 1 \<le> 2 ^ bit_len m" using less_bit_len [of m] by (metis Suc_leI of_nat_Suc of_nat_le_iff of_nat_numeral of_nat_power add.commute)
  then have "(real m + 1) * two e \<le> 2 ^ bit_len m * two e" by (intro mult_right_mono) auto
  with v(2) have "v < 2 ^ bit_len m * two e" by (rule less_le_trans)
  then have "v < two (e + int (bit_len m))" by (simp add: two_add two_nat mult.commute)
  also have "\<dots> \<le> two (q + int (Suc mb))" by (simp add: q_def)
  finally have "v / two q < 2 * 2 ^ mb" unfolding two_add two_nat by (simp add: field_simps)
  then have k1: "k \<le> 2 * 2 ^ mb"
  proof -
    assume "v / two q < 2 * 2 ^ mb"
    moreover have "real k \<le> v / two q + 1 / 2" using near unfolding abs_le_iff by linarith
    ultimately have "real k < 2 * 2 ^ mb + 1" by linarith
    then have "real k < real (2 * 2 ^ mb + 1)" by simp
    then show ?thesis unfolding of_nat_less_iff by simp
  qed
  have low: "real (2 ^ mb) * two q \<le> v" if "0 < a"
  proof -
    have "q = e + int (bit_len m) - int (Suc mb)" using that by (auto simp: a_def q_def)
    then have qm: "q + int mb = e + int (bit_len m - 1)" using bit_len_pos [OF m] by simp
    have "real (2 ^ mb) * two q = two (e + int (bit_len m - 1))"
      unfolding qm [symmetric] two_add two_nat by simp
    also have "\<dots> = real (2 ^ (bit_len m - 1)) * two e" unfolding two_add two_nat by simp
    also have "\<dots> \<le> real m * two e"
      using bit_len_ge [OF m] by (intro mult_right_mono) (simp_all only: of_nat_le_iff two_pos)
    finally show ?thesis using v(1) by linarith
  qed
  have k2: "a = 0 \<or> 2 ^ mb \<le> k"
  proof (cases "a = 0")
    case False
    then have "real (2 ^ mb) \<le> v / two q" using low by (simp add: field_simps)
    moreover have "v / two q \<le> real k + 1 / 2" using near unfolding abs_le_iff by linarith
    ultimately have "real (2 ^ mb) < real (k + 1)" by simp
    then show ?thesis unfolding of_nat_less_iff by simp
  qed simp
  have "\<bar>real k * two q - v\<bar> = \<bar>real k - v / two q\<bar> * two q"
    using abs_mult [of "real k - v / two q" "two q"] by (simp add: field_simps)
  also have "\<dots> \<le> 1 / 2 * two q" using near by (intro mult_right_mono) auto
  finally have "\<bar>real k * two q - v\<bar> \<le> two q / 2" by simp
  then show ?thesis using that [OF fr k1 k2] low by (simp add: q)
qed

theorem fround_lower:
  assumes "0 < m" "real m * two e \<le> v" "v < (real m + 1) * two e" "\<not> st \<Longrightarrow> v = real m * two e"
    and "st \<Longrightarrow> int (Suc mb) < int (bit_len m)" and p: "mag_val mb eb p \<le> v" "p \<le> inf_bits mb eb"
  shows "p \<le> fround mb eb m e st"
proof -
  obtain a k where fr: "fround mb eb m e st = min (a * 2 ^ mb + k) (inf_bits mb eb)"
    and k: "k \<le> 2 * 2 ^ mb" "a = 0 \<or> 2 ^ mb \<le> k"
    and near: "\<bar>real k * two (emin mb eb + int a) - v\<bar> \<le> two (emin mb eb + int a) / 2"
    by (rule fround_shape [OF assms(1-5), where eb = eb])
  let ?q = "emin mb eb + int a"
  have next_val: "(real k + 1) * two ?q \<le> mag_val mb eb (Suc (a * 2 ^ mb + k))"
  proof (cases "k = 2 * 2 ^ mb")
    case True
    then have e: "Suc (a * 2 ^ mb + k) = Suc a * 2 ^ mb + Suc (2 ^ mb)" by simp
    have ae: "emin mb eb + int (Suc a) = ?q + 1" by simp
    have c: "mag_val mb eb (Suc a * 2 ^ mb + Suc (2 ^ mb)) = real (Suc (2 ^ mb)) * two (?q + 1)"
      unfolding ae [symmetric] by (rule mag_val_compose) simp_all
    have "(real k + 1) * two ?q \<le> real (Suc (2 ^ mb)) * two (?q + 1)"
      using True by (simp add: two_add algebra_simps)
    then show ?thesis unfolding e c .
  next
    case False
    then have "mag_val mb eb (a * 2 ^ mb + Suc k) = real (Suc k) * two ?q"
      using k by (intro mag_val_compose) auto
    then show ?thesis by (simp add: add.commute)
  qed
  have "(real k + 1) * two ?q = real k * two ?q + two ?q" by (simp add: algebra_simps)
  with near two_pos(1) [of ?q] have "v < (real k + 1) * two ?q" unfolding abs_le_iff by linarith
  with next_val p(1) have "mag_val mb eb p < mag_val mb eb (Suc (a * 2 ^ mb + k))" by linarith
  then have "p \<le> a * 2 ^ mb + k" by (simp add: mag_val_less)
  then show ?thesis using p(2) by (simp add: fr)
qed

theorem fround_upper:
  assumes "0 < m" "real m * two e \<le> v" "v < (real m + 1) * two e" "\<not> st \<Longrightarrow> v = real m * two e"
    and "st \<Longrightarrow> int (Suc mb) < int (bit_len m)" and p: "v \<le> mag_val mb eb p"
  shows "fround mb eb m e st \<le> p"
proof -
  obtain a k where fr: "fround mb eb m e st = min (a * 2 ^ mb + k) (inf_bits mb eb)"
    and k: "k \<le> 2 * 2 ^ mb" "a = 0 \<or> 2 ^ mb \<le> k"
    and near: "\<bar>real k * two (emin mb eb + int a) - v\<bar> \<le> two (emin mb eb + int a) / 2"
    and low: "0 < a \<longrightarrow> real (2 ^ mb) * two (emin mb eb + int a) \<le> v"
    by (rule fround_shape [OF assms(1-5), where eb = eb])
  let ?q = "emin mb eb + int a"
  let ?n = "a * 2 ^ mb + k"
  have "?n \<le> p"
  proof (rule ccontr)
    assume "\<not> ?n \<le> p"
    then have pn: "p \<le> ?n - 1" "0 < ?n" by linarith+
    show False
    proof (cases "0 < a \<and> k = 2 ^ mb")
      case True
      then have "mag_val mb eb ?n = real k * two ?q" using k by (intro mag_val_compose) auto
      then have "mag_val mb eb ?n \<le> v" using low True by simp
      moreover have "mag_val mb eb p < mag_val mb eb ?n" using \<open>\<not> ?n \<le> p\<close> by (simp add: mag_val_less)
      ultimately show False using p by linarith
    next
      case False
      have k0: "0 < k"
      proof (cases "a = 0")
        case True
        then show ?thesis using pn(2) by simp
      next
        case False
        then have "2 ^ mb \<le> k" using k(2) by simp
        then show ?thesis by (rule less_le_trans [rotated]) simp
      qed
      then have "mag_val mb eb (a * 2 ^ mb + (k - 1)) = real (k - 1) * two ?q"
        using k False by (intro mag_val_compose) auto
      moreover have "mag_val mb eb p \<le> mag_val mb eb (a * 2 ^ mb + (k - 1))"
        using pn(1) k0 by (simp add: mag_val_le)
      moreover have "(real k - 1) * two ?q < v"
      proof -
        have "(real k - 1) * two ?q = real k * two ?q - two ?q" by (simp add: algebra_simps)
        with near two_pos(1) [of ?q] show ?thesis unfolding abs_le_iff by linarith
      qed
      ultimately show False using p k0 by (simp add: of_nat_diff)
    qed
  qed
  then show ?thesis by (simp add: fr)
qed

section \<open>Magnitudes of computed values\<close>

lemma fdecode_mag:
  assumes "fdecode mb eb n = FFin s m e"
  shows "real m * two e = mag_val mb eb (fmagnitude mb eb n)"
proof -
  have d: "fmagnitude mb eb n div 2 ^ mb = n div 2 ^ mb mod 2 ^ eb" and m: "fmagnitude mb eb n mod 2 ^ mb = n mod 2 ^ mb"
    unfolding fmagnitude_split by simp_all
  show ?thesis
    using assms by (auto simp: fdecode_def mag_val_def d m Let_def split: if_splits)
qed

lemma inf_bits_val: "mag_val mb (Suc eb) (inf_bits mb (Suc eb)) = two (2 ^ eb)"
proof -
  define a where "a = 2 ^ Suc eb - (2 :: nat)"
  have a: "2 ^ Suc eb - 1 = Suc a" "int a = 2 * 2 ^ eb - 2"
    using one_le_power [of "2 :: nat" eb] unfolding a_def power_Suc
    by (linarith, simp add: of_nat_diff del: one_le_power)
  have "mag_val mb (Suc eb) (a * 2 ^ mb + 2 ^ mb) = real (2 ^ mb) * two (emin mb (Suc eb) + int a)"
    by (rule mag_val_compose) simp_all
  also have "\<dots> = two (int mb + (emin mb (Suc eb) + int a))" unfolding two_add two_nat by simp
  also have "int mb + (emin mb (Suc eb) + int a) = 2 ^ eb" unfolding a(2) by (simp add: emin_def bias_def)
  finally show ?thesis unfolding inf_bits_def a(1) by (simp add: add.commute)
qed

text \<open>\<^verbatim>\<open>f32_within x k\<close>: a number of magnitude at most \<^verbatim>\<open>2^k\<close>, for an exponent in the range of the format.\<close>

definition f32_within :: "f32 \<Rightarrow> nat \<Rightarrow> bool" where
  "f32_within x k \<longleftrightarrow> fmagnitude 23 8 (unat x) \<le> (127 + k) * 2 ^ 23"

lemma pow_pattern: "mag_val 23 8 ((127 + k) * 2 ^ 23) = two (int k)"
proof -
  have e: "emin 23 8 + int (126 + k) + 23 = int k" by (simp add: emin_def bias_def)
  have "mag_val 23 8 ((126 + k) * 2 ^ 23 + 2 ^ 23) = real (2 ^ 23) * two (emin 23 8 + int (126 + k))"
    by (rule mag_val_compose) simp_all
  also have "\<dots> = two (emin 23 8 + int (126 + k) + 23)" unfolding two_add using two_nat [of 23] by simp
  finally show ?thesis unfolding e by (simp add: algebra_simps)
qed

lemma within_finite: "f32_within x k \<Longrightarrow> k \<le> 127 \<Longrightarrow> f32_is_finite x"
  by (simp add: f32_within_def f32_is_finite_iff inf_bits_def)

lemma within_mono: "f32_within x j \<Longrightarrow> j \<le> k \<Longrightarrow> f32_within x k"
  by (simp add: f32_within_def)

lemma within_val:
  assumes "f32_val x = FFin s m e"
  shows "f32_within x k \<longleftrightarrow> real m * two e \<le> two (int k)"
  using fdecode_mag [of 23 8 "unat x" s m e] assms
  unfolding f32_within_def f32_val_def pow_pattern [symmetric] by (simp only: mag_val_le)

lemma within_cases:
  assumes "f32_within x k" "k \<le> 127"
  obtains s m e where "f32_val x = FFin s m e" "real m * two e \<le> two (int k)"
  using within_finite [OF assms] within_val assms(1) unfolding f32_finite_val by blast

lemma within_of_val:
  assumes v: "real m * two e \<le> two (int k)" and k: "k \<le> 127"
  shows "f32_within (f32_of_val (FFin s m e)) k"
proof -
  define n where "n = (if m = 0 then 0 else fround 23 8 m e False)"
  have n: "n \<le> (127 + k) * 2 ^ 23"
  proof (cases "m = 0")
    case False
    have "real m * two e < (real m + 1) * two e" by (simp add: algebra_simps)
    with False v show ?thesis unfolding pow_pattern [symmetric]
      by (simp add: n_def del: pow_pattern) (rule fround_upper [where v = "real m * two e"], auto)
  qed (simp add: n_def)
  also have "\<dots> < 2 ^ 31" using k by simp
  finally have "n < 2 ^ 31" .
  then have "fmagnitude 23 8 (unat (f32_make (with_sign 23 8 s n))) = n"
    by (simp add: fmagnitude_def f32_make_def with_sign_def unat_of_nat)
  then show ?thesis using n by (simp add: f32_within_def f32_of_val_def fencode_def n_def)
qed

lemma within_mul:
  assumes x: "f32_within x j" and y: "f32_within y k" and jk: "j + k \<le> 127"
  shows "f32_within (f32_mul x y) (j + k)"
proof -
  obtain s m e where xs: "f32_val x = FFin s m e" "real m * two e \<le> two (int j)"
    using jk by (auto intro: within_cases [OF x])
  obtain t n f where ys: "f32_val y = FFin t n f" "real n * two f \<le> two (int k)"
    using jk by (auto intro: within_cases [OF y])
  have "real (m * n) * two (e + f) = (real m * two e) * (real n * two f)" by (simp add: two_add)
  also have "\<dots> \<le> two (int j) * two (int k)" using xs(2) ys(2) by (intro mult_mono) auto
  finally have "real (m * n) * two (e + f) \<le> two (int (j + k))" by (simp add: two_add)
  then show ?thesis using within_of_val [OF _ jk] by (simp add: f32_mul_def xs(1) ys(1))
qed

lemma within_vadd:
  assumes "real m * two e \<le> two (int k)" "real n * two f \<le> two (int k)" "Suc k \<le> 127"
  shows "f32_within (f32_of_val (vadd (FFin s m e) (FFin t n f))) (Suc k)"
proof -
  define g where "g = min e f"
  define v where "v = signed s (m * 2 ^ nat (e - g)) + signed t (n * 2 ^ nat (f - g))"
  have two: "real m * two e = real (m * 2 ^ nat (e - g)) * two g" "real n * two f = real (n * 2 ^ nat (f - g)) * two g"
    using two_shift [of g e] two_shift [of g f] by (simp_all add: g_def)
  have "nat \<bar>v\<bar> \<le> m * 2 ^ nat (e - g) + n * 2 ^ nat (f - g)" unfolding v_def
    by (simp add: signed_def nat_le_iff abs_le_iff)
  then have "real (nat \<bar>v\<bar>) * two g \<le> real (m * 2 ^ nat (e - g) + n * 2 ^ nat (f - g)) * two g"
    by (intro mult_right_mono) (simp_all only: of_nat_le_iff two_pos)
  also have "\<dots> = real m * two e + real n * two f" by (simp only: two of_nat_add distrib_right)
  also have "\<dots> \<le> two (int (Suc k))"
    using assms(1,2) two_add [of "int k" 1] by (simp add: add.commute)
  finally have b: "real (nat \<bar>v\<bar>) * two g \<le> two (int (Suc k))" .
  have "vadd (FFin s m e) (FFin t n f) = (if v = 0 then FFin (s \<and> t) 0 g else FFin (v < 0) (nat \<bar>v\<bar>) g)"
    by (simp add: Let_def v_def g_def)
  then show ?thesis using within_of_val [OF b assms(3)] within_of_val [of 0 g "Suc k" "s \<and> t"] assms(3) by simp
qed

lemma within_add_sub:
  assumes x: "f32_within x k" and y: "f32_within y k" and k: "Suc k \<le> 127"
  shows "f32_within (f32_add x y) (Suc k)" "f32_within (f32_sub x y) (Suc k)"
proof -
  obtain s m e where xs: "f32_val x = FFin s m e" "real m * two e \<le> two (int k)"
    using k by (auto intro: within_cases [OF x])
  obtain t n f where ys: "f32_val y = FFin t n f" "real n * two f \<le> two (int k)"
    using k by (auto intro: within_cases [OF y])
  show "f32_within (f32_add x y) (Suc k)" "f32_within (f32_sub x y) (Suc k)"
    using within_vadd [OF xs(2) ys(2) k] by (simp_all add: f32_add_def f32_sub_def xs(1) ys(1) del: vadd.simps)
qed

lemma within_of_int:
  assumes "\<bar>i\<bar> \<le> 2 ^ k" "k \<le> 127"
  shows "f32_within (f32_of_int i) k"
proof -
  have "real (nat \<bar>i\<bar>) \<le> 2 ^ k"
    using assms(1) by (metis nat_le_iff of_nat_le_iff of_nat_numeral of_nat_power)
  then show ?thesis using within_of_val [of "nat \<bar>i\<bar>" 0 k] assms(2) by (simp add: f32_of_int_def two_nat)
qed

text \<open>A finite half-precision number is smaller than \<^verbatim>\<open>2^16\<close>.\<close>

lemma within_of_f16:
  assumes "fmagnitude 10 5 (unat x) < inf_bits 10 5"
  shows "f32_within (f32_of_f16 x) 16"
proof -
  obtain s m e where v: "fdecode 10 5 (unat x) = FFin s m e"
    using assms unfolding fdecode_def fmagnitude_split inf_bits_def Let_def
    by (cases "unat x div 2 ^ 10 mod 2 ^ 5 = 0") auto
  have "real m * two e \<le> mag_val 10 (Suc 4) (inf_bits 10 (Suc 4))"
    using fdecode_mag [OF v] assms mag_val_le [of 10 5 "fmagnitude 10 5 (unat x)" "inf_bits 10 5"] by simp
  then have "real m * two e \<le> two 16" unfolding inf_bits_val by simp
  then show ?thesis using within_of_val [of m e 16] by (simp add: f32_of_f16_def f16_val_def v)
qed

end
