(* ===== verification/Quant_Decode.thy ===== *)
theory Quant_Decode
  imports Quant_Tables Ieee_Round Ggml_Type
begin

text \<open>
  The packed-block decoders of \<^verbatim>\<open>crates/bridge-quant-layout\<close> (\<^verbatim>\<open>k_quants.rs\<close>, \<^verbatim>\<open>iq2_s.rs\<close>, \<^verbatim>\<open>iq3_s.rs\<close>):
  block layouts, the checks of lengths and scales, and the scalar decoders of \<^verbatim>\<open>F32\<close>, \<^verbatim>\<open>Q4_K\<close>, \<^verbatim>\<open>Q5_K\<close>,
  \<^verbatim>\<open>IQ2_S\<close> and \<^verbatim>\<open>IQ3_S\<close>. A decoder that writes lane after lane of a caller's slice is a function that
  returns the lanes in that order; a caller's slice enters with its length only.
  \<^verbatim>\<open>half::f16\<close> is the IEEE binary16 format.
\<close>

section \<open>Layouts and checks\<close>

datatype quant_error =
    UnsupportedType ggml_type
  | ZeroLogicalElements
  | LogicalElementsNotDivisible ggml_type nat nat
  | QuantArithmeticOverflow string
  | IntegerConversionOverflow string nat
  | EncodedLengthMismatch ggml_type nat nat
  | OutputLengthMismatch ggml_type nat nat
  | NonFiniteScale ggml_type nat string nat
  | NonFiniteActivation nat f32
  | NonFiniteQ8Scale nat f32

record quant_layout =
  ql_ty :: ggml_type
  block_elements :: nat
  block_bytes :: nat

definition checked_usize :: "nat \<Rightarrow> string \<Rightarrow> quant_error + nat" where
  "checked_usize v field = (if v < u64_limit then Inr v else Inl (IntegerConversionOverflow field v))"

text \<open>\<^verbatim>\<open>layout\<close>; its \<^verbatim>\<open>debug_assert_eq\<close> compares the core sizes with the constants of the decoders.\<close>

definition expected_layout :: "ggml_type \<Rightarrow> (nat \<times> nat) option" where
  "expected_layout ty =
     (case ty of F32 \<Rightarrow> Some (1, 4) | Q4_K \<Rightarrow> Some (256, 144) | Q5_K \<Rightarrow> Some (256, 176)
      | IQ2_S \<Rightarrow> Some (256, 82) | IQ3_S \<Rightarrow> Some (256, 110) | _ \<Rightarrow> None)"

definition quant_layout_of :: "ggml_type \<Rightarrow> quant_error + quant_layout" where
  "quant_layout_of ty =
     rbind (ok_or (UnsupportedType ty) (expected_layout ty)) (\<lambda>_.
     rbind (checked_usize (block_size ty) ''block elements'') (\<lambda>elements.
     rbind (checked_usize (type_size ty) ''block bytes'') (\<lambda>bytes.
     Inr \<lparr>ql_ty = ty, block_elements = elements, block_bytes = bytes\<rparr>)))"

definition checked_row_lengths :: "nat \<Rightarrow> nat \<Rightarrow> nat \<Rightarrow> quant_error + nat \<times> nat" where
  "checked_row_lengths count bytes elements =
     rbind (ok_or (QuantArithmeticOverflow ''encoded row length'') (checked_mul count bytes)) (\<lambda>encoded.
     rbind (ok_or (QuantArithmeticOverflow ''logical row length'') (checked_mul count elements)) (\<lambda>out.
     Inr (encoded, out)))"

definition validate_lengths :: "ggml_type \<Rightarrow> nat \<Rightarrow> nat \<Rightarrow> nat \<Rightarrow> nat \<Rightarrow> quant_error + unit" where
  "validate_lengths ty encoded_actual encoded_expected output_actual output_expected =
     (if encoded_actual \<noteq> encoded_expected then Inl (EncodedLengthMismatch ty encoded_expected encoded_actual)
      else if output_actual \<noteq> output_expected then Inl (OutputLengthMismatch ty output_expected output_actual)
      else Inr ())"

text \<open>Little-endian reads; \<^verbatim>\<open>f16::is_finite\<close> is an exponent field that is not all ones.\<close>

definition u16_at :: "byte list \<Rightarrow> nat \<Rightarrow> nat" where
  "u16_at bs i = of_le_bytes [bs ! i, bs ! (i + 1)]"

definition f16_at :: "byte list \<Rightarrow> nat \<Rightarrow> 16 word" where
  "f16_at bs i = word_of_nat (u16_at bs i)"

definition f16_is_finite :: "16 word \<Rightarrow> bool" where
  "f16_is_finite x \<longleftrightarrow> fmagnitude 10 5 (unat x) < inf_bits 10 5"

definition scale_fields :: "ggml_type \<Rightarrow> (string \<times> nat) list option" where
  "scale_fields ty =
     (case ty of Q4_K \<Rightarrow> Some [(''d'', 0), (''dmin'', 2)] | Q5_K \<Rightarrow> Some [(''d'', 0), (''dmin'', 2)]
      | IQ2_S \<Rightarrow> Some [(''d'', 0)] | IQ3_S \<Rightarrow> Some [(''d'', 0)] | _ \<Rightarrow> None)"

fun check_fields :: "ggml_type \<Rightarrow> byte list \<Rightarrow> nat \<Rightarrow> nat \<Rightarrow> (string \<times> nat) list \<Rightarrow> quant_error + unit" where
  "check_fields ty encoded index start [] = Inr ()"
| "check_fields ty encoded index start ((field, offset) # fs) =
     (if f16_is_finite (f16_at encoded (start + offset)) then check_fields ty encoded index start fs
      else Inl (NonFiniteScale ty index field (u16_at encoded (start + offset))))"

fun check_blocks :: "ggml_type \<Rightarrow> byte list \<Rightarrow> nat \<Rightarrow> (string \<times> nat) list \<Rightarrow> nat list \<Rightarrow> quant_error + unit" where
  "check_blocks ty encoded bytes fs [] = Inr ()"
| "check_blocks ty encoded bytes fs (index # rest) =
     rbind (check_fields ty encoded index (index * bytes) fs) (\<lambda>_. check_blocks ty encoded bytes fs rest)"

definition validate_scales :: "ggml_type \<Rightarrow> byte list \<Rightarrow> nat \<Rightarrow> nat \<Rightarrow> quant_error + unit" where
  "validate_scales ty encoded count bytes =
     (if ty = F32 then Inr ()
      else rbind (ok_or (UnsupportedType ty) (scale_fields ty)) (\<lambda>fs.
        check_blocks ty encoded bytes fs [0..<count]))"

section \<open>The decoders\<close>

definition f32_of_byte :: "byte \<Rightarrow> f32" where
  "f32_of_byte b = f32_of_int (uint b)"

definition finite_scale :: "byte list \<Rightarrow> nat \<Rightarrow> f32" where
  "finite_scale encoded i = f32_of_f16 (f16_at encoded i)"

definition decode_f32_validated :: "byte list \<Rightarrow> f32 list" where
  "decode_f32_validated encoded = [f32_of_le (take 4 encoded)]"

text \<open>The six-bit scale and minimum of a sub-block, packed in twelve bytes.\<close>

definition scale_min :: "byte list \<Rightarrow> nat \<Rightarrow> byte \<times> byte" where
  "scale_min scales index =
     (if index < 4 then (scales ! index AND 0x3f, scales ! (index + 4) AND 0x3f)
      else ((scales ! (index + 4) AND 0x0f) OR push_bit 4 (drop_bit 6 (scales ! (index - 4))),
            drop_bit 4 (scales ! (index + 4)) OR push_bit 4 (drop_bit 6 (scales ! index))))"

text \<open>One group of 64 lanes: 32 low nibbles under the first scale, 32 high nibbles under the second.\<close>

definition k_lane :: "f32 \<Rightarrow> f32 \<Rightarrow> byte \<Rightarrow> f32" where
  "k_lane d m q = f32_sub (f32_mul d (f32_of_byte q)) m"

definition k_group :: "byte list \<Rightarrow> f32 \<Rightarrow> f32 \<Rightarrow> nat \<Rightarrow> (nat \<Rightarrow> byte) \<Rightarrow> (nat \<Rightarrow> byte) \<Rightarrow> f32 list" where
  "k_group scales d dmin grp low high =
     (let (scale1, min1) = scale_min scales (grp * 2);
          d1 = f32_mul d (f32_of_byte scale1); m1 = f32_mul dmin (f32_of_byte min1);
          (scale2, min2) = scale_min scales (grp * 2 + 1);
          d2 = f32_mul d (f32_of_byte scale2); m2 = f32_mul dmin (f32_of_byte min2)
      in map (\<lambda>lane. k_lane d1 m1 (low lane)) [0..<32] @ map (\<lambda>lane. k_lane d2 m2 (high lane)) [0..<32])"

definition decode_q4_k_validated :: "byte list \<Rightarrow> f32 list" where
  "decode_q4_k_validated encoded =
     (let d = finite_scale encoded 0; dmin = finite_scale encoded 2;
          scales = take 12 (drop 4 encoded); quants = take 128 (drop 16 encoded)
      in concat (map (\<lambda>grp. k_group scales d dmin grp
           (\<lambda>lane. quants ! (grp * 32 + lane) AND 0x0f)
           (\<lambda>lane. drop_bit 4 (quants ! (grp * 32 + lane)))) [0..<4]))"

text \<open>The fifth bit of a \<^verbatim>\<open>Q5_K\<close> lane: \<^verbatim>\<open>low_mask\<close> and \<^verbatim>\<open>high_mask\<close> move two bits per grp.\<close>

definition fifth_bit :: "byte list \<Rightarrow> nat \<Rightarrow> byte \<Rightarrow> byte" where
  "fifth_bit high_bits lane m = (if high_bits ! lane AND m \<noteq> 0 then 16 else 0)"

definition decode_q5_k_validated :: "byte list \<Rightarrow> f32 list" where
  "decode_q5_k_validated encoded =
     (let d = finite_scale encoded 0; dmin = finite_scale encoded 2;
          scales = take 12 (drop 4 encoded); high_bits = take 32 (drop 16 encoded);
          quants = take 128 (drop 48 encoded)
      in concat (map (\<lambda>grp. k_group scales d dmin grp
           (\<lambda>lane. (quants ! (grp * 32 + lane) AND 0x0f) + fifth_bit high_bits lane (push_bit (2 * grp) 1))
           (\<lambda>lane. drop_bit 4 (quants ! (grp * 32 + lane)) + fifth_bit high_bits lane (push_bit (2 * grp) 2)))
         [0..<4]))"

text \<open>
  The codebook formats: a table index from eight low bits and one or two high bits, a sign bit per
  lane.
\<close>

definition grid_sign :: "byte \<Rightarrow> nat \<Rightarrow> f32" where
  "grid_sign signs lane = (if signs AND KMASK_IQ2XS ! lane = 0 then f32_one else 0xbf800000)"

definition grid_lane :: "f32 \<Rightarrow> byte \<Rightarrow> f32 \<Rightarrow> f32" where
  "grid_lane scale g sign = f32_mul (f32_mul scale (f32_of_byte g)) sign"

definition grid_bytes2 :: "nat \<Rightarrow> byte list" where
  "grid_bytes2 index = le_bytes 8 (unat (IQ2S_GRID ! index))"

definition grid_bytes3 :: "nat \<Rightarrow> byte list" where
  "grid_bytes3 index = le_bytes 4 (unat (IQ3S_GRID ! index))"

definition iq2_index :: "byte list \<Rightarrow> nat \<Rightarrow> nat \<Rightarrow> nat" where
  "iq2_index encoded grp lane_group =
     (let high = unat (encoded ! (66 + grp)); low = unat (encoded ! (2 + grp * 4 + lane_group))
      in low OR (push_bit (8 - 2 * lane_group) high AND 0x300))"

definition decode_iq2_s_validated :: "byte list \<Rightarrow> f32 list" where
  "decode_iq2_s_validated encoded =
     (let d = f32_of_f16 (f16_at encoded 0)
      in concat (map (\<lambda>grp.
           let scale = encoded ! (74 + grp);
               block_scales =
                 [f32_mul (f32_mul d (f32_add 0x3f000000 (f32_of_byte (scale AND 0x0f)))) 0x3e800000,
                  f32_mul (f32_mul d (f32_add 0x3f000000 (f32_of_byte (drop_bit 4 scale)))) 0x3e800000]
           in concat (map (\<lambda>lane_group.
                let grid = grid_bytes2 (iq2_index encoded grp lane_group);
                    signs = encoded ! (34 + grp * 4 + lane_group)
                in map (\<lambda>lane. grid_lane (block_scales ! (lane_group div 2)) (grid ! lane) (grid_sign signs lane))
                     [0..<8]) [0..<4])) [0..<8]))"

definition iq3_index :: "byte list \<Rightarrow> nat \<Rightarrow> nat \<Rightarrow> nat \<Rightarrow> nat" where
  "iq3_index encoded grp lane_group second =
     (let high = unat (encoded ! (66 + grp)); low = unat (encoded ! (2 + grp * 8 + lane_group * 2 + second))
      in low OR (push_bit (8 - second - 2 * lane_group) high AND 0x100))"

definition decode_iq3_s_validated :: "byte list \<Rightarrow> f32 list" where
  "decode_iq3_s_validated encoded =
     (let d = f32_of_f16 (f16_at encoded 0)
      in concat (map (\<lambda>pair.
           let packed_scale = encoded ! (106 + pair);
               scales = [f32_mul d (f32_of_byte (1 + 2 * (packed_scale AND 0x0f))),
                         f32_mul d (f32_of_byte (1 + 2 * drop_bit 4 packed_scale))]
           in concat (map (\<lambda>half. let grp = pair * 2 + half in concat (map (\<lambda>lane_group.
                let grid1 = grid_bytes3 (iq3_index encoded grp lane_group 0);
                    grid2 = grid_bytes3 (iq3_index encoded grp lane_group 1);
                    signs = encoded ! (74 + grp * 4 + lane_group)
                in map (\<lambda>lane. grid_lane (scales ! half) (grid1 ! lane) (grid_sign signs lane)) [0..<4] @
                   map (\<lambda>lane. grid_lane (scales ! half) (grid2 ! lane) (grid_sign signs (lane + 4))) [0..<4])
                [0..<4])) [0..<2])) [0..<4]))"

definition decode_validated_block :: "ggml_type \<Rightarrow> byte list \<Rightarrow> quant_error + f32 list" where
  "decode_validated_block ty encoded =
     (case ty of F32 \<Rightarrow> Inr (decode_f32_validated encoded) | Q4_K \<Rightarrow> Inr (decode_q4_k_validated encoded)
      | Q5_K \<Rightarrow> Inr (decode_q5_k_validated encoded) | IQ2_S \<Rightarrow> Inr (decode_iq2_s_validated encoded)
      | IQ3_S \<Rightarrow> Inr (decode_iq3_s_validated encoded) | _ \<Rightarrow> Inl (UnsupportedType ty))"

definition decode_block :: "ggml_type \<Rightarrow> byte list \<Rightarrow> nat \<Rightarrow> quant_error + f32 list" where
  "decode_block ty encoded output_length =
     rbind (quant_layout_of ty) (\<lambda>l.
     rbind (validate_lengths ty (length encoded) (block_bytes l) output_length (block_elements l)) (\<lambda>_.
     rbind (validate_scales ty encoded 1 (block_bytes l)) (\<lambda>_.
     decode_validated_block ty encoded)))"

definition decode_row :: "ggml_type \<Rightarrow> byte list \<Rightarrow> nat \<Rightarrow> nat \<Rightarrow> quant_error + f32 list" where
  "decode_row ty encoded logical output_length =
     rbind (quant_layout_of ty) (\<lambda>l.
     if logical = 0 then Inl ZeroLogicalElements
     else if logical mod block_elements l \<noteq> 0 then Inl (LogicalElementsNotDivisible ty logical (block_elements l))
     else let count = logical div block_elements l
       in rbind (checked_row_lengths count (block_bytes l) (block_elements l)) (\<lambda>(expected_encoded, expected_output).
          rbind (validate_lengths ty (length encoded) expected_encoded output_length expected_output) (\<lambda>_.
          rbind (validate_scales ty encoded count (block_bytes l)) (\<lambda>_.
          rbind (map_res (\<lambda>i. decode_validated_block ty (take (block_bytes l) (drop (i * block_bytes l) encoded)))
            [0..<count]) (\<lambda>blocks. Inr (concat blocks))))))"

section \<open>Magnitudes\<close>

lemma within_byte: "f32_within (f32_of_byte b) 8"
proof -
  have "uint b < 2 ^ 8" using uint_bounded [of b] by simp
  then show ?thesis unfolding f32_of_byte_def by (intro within_of_int) simp_all
qed

lemma within_constants:
  "f32_within f32_one 0" "f32_within 0xbf800000 0" "f32_within 0x3f000000 0" "f32_within 0x3e800000 0"
  by (simp_all add: f32_within_def f32_one_def fmagnitude_def)

lemma within_k_group:
  assumes d: "f32_within d 16" "f32_within dmin 16" and y: "y \<in> set (k_group scales d dmin grp low high)"
  shows "f32_within y 33"
proof -
  have "f32_within (k_lane (f32_mul d (f32_of_byte a)) (f32_mul dmin (f32_of_byte b)) q) 33" for a b q
  proof -
    have dm: "f32_within (f32_mul d (f32_of_byte a)) 24" "f32_within (f32_mul dmin (f32_of_byte b)) 32"
      using within_mul [OF d(1) within_byte] within_mono [OF within_mul [OF d(2) within_byte]] by simp_all
    have "f32_within (f32_mul (f32_mul d (f32_of_byte a)) (f32_of_byte q)) 32"
      using within_mul [OF dm(1) within_byte] by simp
    from within_add_sub(2) [OF this dm(2)] show ?thesis by (simp add: k_lane_def)
  qed
  with y show ?thesis by (auto simp: k_group_def Let_def split: prod.splits)
qed

lemma within_grid_lane:
  assumes "f32_within scale 25"
  shows "f32_within (grid_lane scale g (grid_sign signs lane)) 33"
proof -
  have "f32_within (grid_sign signs lane) 0" using within_constants by (simp add: grid_sign_def)
  from within_mul [OF within_mul [OF assms within_byte, of g] this] show ?thesis by (simp add: grid_lane_def)
qed

lemma within_iq2_scale:
  assumes "f32_within d 16"
  shows "f32_within (f32_mul (f32_mul d (f32_add 0x3f000000 (f32_of_byte b))) 0x3e800000) 25"
proof -
  have "f32_within (f32_add 0x3f000000 (f32_of_byte b)) 9"
    using within_add_sub(1) [OF within_mono [OF within_constants(3)] within_byte [of b]] by simp
  from within_mul [OF within_mul [OF assms this] within_constants(4)] show ?thesis by simp
qed

lemma within_finite_scale: "f16_is_finite (f16_at bs i) \<Longrightarrow> f32_within (finite_scale bs i) 16"
  unfolding finite_scale_def by (rule within_of_f16) (simp add: f16_is_finite_def)

lemma length_k_group [simp]: "length (k_group scales d dmin grp low high) = 64"
  by (simp add: k_group_def Let_def split: prod.splits)

lemma decoded_length:
  "decode_validated_block ty bs = Inr ys \<Longrightarrow> \<exists>e b. expected_layout ty = Some (e, b) \<and> length ys = e"
  by (cases ty) (auto simp: decode_validated_block_def expected_layout_def decode_f32_validated_def
      decode_q4_k_validated_def decode_q5_k_validated_def decode_iq2_s_validated_def decode_iq3_s_validated_def
      Let_def length_concat sum_list_triv comp_def)

section \<open>Packed scales\<close>

lemma low_six_high_two:
  fixes a b :: byte
  assumes "a AND 0x3f = b AND 0x3f" "drop_bit 6 a = drop_bit 6 b"
  shows "a = b"
proof -
  have "take_bit 6 a = take_bit 6 b" using assms(1) by (simp add: take_bit_eq_mask mask_eq_exp_minus_1)
  then show ?thesis using assms(2) by (metis bits_ident)
qed

lemma low_four_high_four:
  fixes a b :: byte
  assumes "a AND 0x0f = b AND 0x0f" "drop_bit 4 a = drop_bit 4 b"
  shows "a = b"
proof -
  have "take_bit 4 a = take_bit 4 b" using assms(1) by (simp add: take_bit_eq_mask mask_eq_exp_minus_1)
  then show ?thesis using assms(2) by (metis bits_ident)
qed

lemma nibble_pair:
  fixes a b c d :: byte
  assumes "a OR push_bit 4 c = b OR push_bit 4 d" "take_bit 4 a = a" "take_bit 4 b = b" "take_bit 4 c = c" "take_bit 4 d = d"
  shows "a = b \<and> c = d"
proof -
  have "take_bit 4 (a OR push_bit 4 c) = a" "take_bit 4 (b OR push_bit 4 d) = b"
    using assms(2,3) by (simp_all add: take_bit_push_bit)
  moreover have high: "drop_bit 4 (x OR push_bit 4 y) = y" if "take_bit 4 x = x" "take_bit 4 y = y" for x y :: byte
  proof (rule bit_word_eqI)
    fix n
    assume "n < LENGTH(8)"
    have "bit x (4 + n) \<longleftrightarrow> False" "bit y n \<longleftrightarrow> n < 4 \<and> bit y n"
      using bit_take_bit_iff [of 4 x "4 + n"] bit_take_bit_iff [of 4 y n] unfolding that by simp_all
    then show "bit (drop_bit 4 (x OR push_bit 4 y)) n \<longleftrightarrow> bit y n" by (auto simp: bit_simps)
  qed
  moreover note high [OF assms(2,4)] high [OF assms(3,5)]
  ultimately show ?thesis using assms(1) by metis
qed

lemma high_bits_short: "take_bit 4 (drop_bit 4 b) = drop_bit 4 b" "take_bit 4 (drop_bit 6 b) = drop_bit 6 b"
  and low_bits_short: "take_bit 4 (b AND 0x0f) = b AND 0x0f"
  for b :: byte
proof -
  show "take_bit 4 (drop_bit 4 b) = drop_bit 4 b" "take_bit 4 (drop_bit 6 b) = drop_bit 6 b"
    by (rule bit_word_eqI, auto simp: bit_simps dest: bit_imp_le_length)+
  have "b AND 0x0f = take_bit 4 b" by (simp add: take_bit_eq_mask mask_eq_exp_minus_1)
  then show "take_bit 4 (b AND 0x0f) = b AND 0x0f" by simp
qed

text \<open>
  The twelve scale bytes of a K-quant block are exactly sixteen six-bit numbers: every scale and
  minimum is below 64, and two packings that read the same are the same bytes, so that no bit of the
  twelve bytes is ignored and none is used twice in contradiction.
\<close>

theorem scale_min_lossless:
  assumes len: "length s = 12" "length t = 12" and same: "\<forall>i < 8. scale_min s i = scale_min t i"
  shows "s = t"
proof (rule nth_equalityI)
  have low: "s ! i AND 0x3f = t ! i AND 0x3f" "s ! (i + 4) AND 0x3f = t ! (i + 4) AND 0x3f" if "i < 4" for i
    using same that by (auto simp: scale_min_def dest!: spec [of _ i])
  have high: "(s ! (j + 8) AND 0x0f) = (t ! (j + 8) AND 0x0f) \<and> drop_bit 6 (s ! j) = drop_bit 6 (t ! j)"
    "drop_bit 4 (s ! (j + 8)) = drop_bit 4 (t ! (j + 8)) \<and> drop_bit 6 (s ! (j + 4)) = drop_bit 6 (t ! (j + 4))"
    if j: "j < 4" for j
  proof -
    have "scale_min s (j + 4) = scale_min t (j + 4)" using same j by simp
    then have "(s ! (j + 8) AND 0x0f) OR push_bit 4 (drop_bit 6 (s ! j)) = (t ! (j + 8) AND 0x0f) OR push_bit 4 (drop_bit 6 (t ! j))"
      "drop_bit 4 (s ! (j + 8)) OR push_bit 4 (drop_bit 6 (s ! (j + 4))) = drop_bit 4 (t ! (j + 8)) OR push_bit 4 (drop_bit 6 (t ! (j + 4)))"
      by (simp_all add: scale_min_def add.assoc)
    from this [THEN nibble_pair] show "(s ! (j + 8) AND 0x0f) = (t ! (j + 8) AND 0x0f) \<and> drop_bit 6 (s ! j) = drop_bit 6 (t ! j)"
      "drop_bit 4 (s ! (j + 8)) = drop_bit 4 (t ! (j + 8)) \<and> drop_bit 6 (s ! (j + 4)) = drop_bit 6 (t ! (j + 4))"
      by (simp_all only: high_bits_short low_bits_short)
  qed
  have "s ! i = t ! i" "s ! (i + 4) = t ! (i + 4)" "s ! (i + 8) = t ! (i + 8)" if "i < 4" for i
    using low [OF that] high [OF that] by (auto intro: low_six_high_two low_four_high_four)
  note same3 = this
  fix i
  assume "i < length s"
  then have "i < 4 \<or> (\<exists>j < 4. i = j + 4) \<or> (\<exists>j < 4. i = j + 8)" using len by (intro disjCI) (auto, presburger)
  then show "s ! i = t ! i" using same3 by auto
qed (use len in simp)

lemma scale_min_lossless_witness:
  "scale_min [1, 2, 3, 4, 5, 6, 7, 8, 9, 10, 11, 255] 7 = (15, 15) \<and>
    [1, 2, 3, 4, 5, 6, 7, 8, 9, 10, 11, 255] = rev [255, 11, 10, 9, 8, 7, 6, 5, 4, 3, 2, 1 :: byte]"
  by (rule conjI, code_simp) (rule scale_min_lossless; simp add: numeral_nat)

section \<open>Rows and blocks\<close>

lemma block_fits: "i < n \<Longrightarrow> i * b + b \<le> n * b" "i < n \<Longrightarrow> b + i * b \<le> n * b" for i n b :: nat
  by (metis Suc_leI add.commute mult_Suc mult_le_mono1)+

lemma check_fields_Inr:
  "check_fields ty bs index start fs = Inr u \<longleftrightarrow> (\<forall>(f, off) \<in> set fs. f16_is_finite (f16_at bs (start + off)))"
  by (induction fs) (auto split: if_splits)

lemma check_blocks_Inr:
  "check_blocks ty bs bytes fs is = Inr u \<longleftrightarrow>
     (\<forall>i \<in> set is. \<forall>(f, off) \<in> set fs. f16_is_finite (f16_at bs (i * bytes + off)))"
  by (induction "is") (auto simp: rbind_Inr check_fields_Inr)

lemma f16_at_block: "off + 1 < b \<Longrightarrow> i * b + b \<le> length bs \<Longrightarrow> f16_at (take b (drop (i * b) bs)) off = f16_at bs (i * b + off)"
  by (simp add: f16_at_def u16_at_def add.assoc)

lemma quant_layout_of_Inr:
  "quant_layout_of ty = Inr l \<longleftrightarrow>
     (\<exists>e b. expected_layout ty = Some (e, b) \<and> l = \<lparr>ql_ty = ty, block_elements = e, block_bytes = b\<rparr>)"
  by (cases ty) (auto simp: quant_layout_of_def expected_layout_def checked_usize_def result_simps block_size_def type_size_def u64_limit_def)

text \<open>The scales that a layout has, and their place in the block.\<close>

lemma scale_fields_layout:
  "expected_layout ty = Some (e, b) \<Longrightarrow> ty \<noteq> F32 \<Longrightarrow> \<exists>fs. scale_fields ty = Some fs \<and> (\<forall>(f, off) \<in> set fs. off + 1 < b)"
  by (cases ty) (auto simp: expected_layout_def scale_fields_def)

lemma validate_scales_blocks:
  assumes "expected_layout ty = Some (e, b)" "length bs = n * b"
  shows "validate_scales ty bs n b = Inr u \<longleftrightarrow> (\<forall>i < n. validate_scales ty (take b (drop (i * b) bs)) 1 b = Inr u)"
proof (cases "ty = F32")
  case False
  then obtain fs where fs: "scale_fields ty = Some fs" "\<forall>(f, off) \<in> set fs. off + 1 < b"
    using scale_fields_layout [OF assms(1)] by blast
  have fit: "i * b + b \<le> length bs" if "i < n" for i
    using block_fits(1) [OF that] assms(2) by simp
  have eq: "f16_at (take b (drop (i * b) bs)) off = f16_at bs (i * b + off)" if "i < n" "(f, off) \<in> set fs" for i f off
    using fs(2) that(2) by (intro f16_at_block fit that(1)) auto
  then have "(\<forall>(f, off) \<in> set fs. f16_is_finite (f16_at (take b (drop (i * b) bs)) off)) \<longleftrightarrow>
      (\<forall>(f, off) \<in> set fs. f16_is_finite (f16_at bs (i * b + off)))" if "i < n" for i
    using that by (intro ball_cong refl) auto
  then show ?thesis using False fs(1) by (auto simp: validate_scales_def check_blocks_Inr rbind_Inr check_fields_Inr)
qed (simp add: validate_scales_def)

lemma decode_block_Inr:
  assumes "expected_layout ty = Some (e, b)"
  shows "decode_block ty bs out = Inr ys \<longleftrightarrow>
    length bs = b \<and> out = e \<and> validate_scales ty bs 1 b = Inr () \<and> decode_validated_block ty bs = Inr ys"
  using assms by (auto simp: decode_block_def validate_lengths_def rbind_Inr quant_layout_of_Inr split: if_splits)

lemma decode_total: "expected_layout ty = Some (e, b) \<Longrightarrow> \<exists>ys. decode_validated_block ty bs = Inr ys \<and> length ys = e"
  using decoded_length [of ty bs]
  by (cases ty) (auto simp: decode_validated_block_def expected_layout_def)

lemma blocks_concat:
  assumes "\<forall>i < n. length (f i) = e"
  shows "length (concat (map f [0..<n])) = n * e" "i < n \<Longrightarrow> take e (drop (i * e) (concat (map f [0..<n]))) = f i"
  using assms by (induction n) (auto simp: less_Suc_eq block_fits)

lemma concat_blocks: "length ys = n * e \<Longrightarrow> concat (map (\<lambda>i. take e (drop (i * e) ys)) [0..<n]) = ys"
proof (induction n arbitrary: ys)
  case (Suc n)
  have "concat (map (\<lambda>i. take e (drop (i * e) (take (n * e) ys))) [0..<n]) = take (n * e) ys"
    by (rule Suc.IH) (use Suc.prems in simp)
  moreover have "take e (drop (i * e) (take (n * e) ys)) = take e (drop (i * e) ys)" if "i < n" for i
  proof -
    show ?thesis using block_fits(1) [OF that, of e] by (simp add: drop_take min_def)
  qed
  ultimately have "concat (map (\<lambda>i. take e (drop (i * e) ys)) [0..<n]) = take (n * e) ys"
    by (metis (no_types, lifting) atLeastLessThan_iff map_eq_conv set_upt)
  then show ?case using Suc.prems append_take_drop_id [of "n * e" ys] by simp
qed simp

text \<open>
  Decoding a row is decoding its blocks one by one. The row decoder succeeds exactly when the type is
  one of the five supported ones, the number of elements is a positive multiple of the block size, the
  two buffers have exactly the sizes of the row, and the block decoder accepts every block of the
  row; block \<^verbatim>\<open>i\<close> of the result is what the block decoder makes of block \<^verbatim>\<open>i\<close> of the input.
\<close>

theorem decode_row_blocks:
  assumes "length encoded < u64_limit" "logical < u64_limit"
  shows "decode_row ty encoded logical out = Inr ys \<longleftrightarrow>
    (\<exists>e b. expected_layout ty = Some (e, b) \<and> 0 < logical \<and> logical mod e = 0 \<and> out = logical \<and>
       length encoded = logical div e * b \<and> length ys = logical \<and>
       (\<forall>i < logical div e. decode_block ty (take b (drop (i * b) encoded)) e = Inr (take e (drop (i * e) ys))))"
proof (cases "expected_layout ty")
  case None
  then show ?thesis by (simp add: decode_row_def quant_layout_of_def)
next
  case (Some p)
  then obtain e b where l: "expected_layout ty = Some (e, b)" by (cases p) auto
  let ?blk = "\<lambda>i. take b (drop (i * b) encoded)"
  define n where "n = logical div e"
  have ln: "logical mod e = 0 \<longleftrightarrow> logical = n * e" unfolding n_def by (metis div_mult_mod_eq mod_mult_self2_is_0 add.right_neutral)
  define dec where "dec = (\<lambda>i. projr (decode_validated_block ty (?blk i)))"
  have dec: "decode_validated_block ty (?blk i) = Inr (dec i) \<and> length (dec i) = e" for i
    using decode_total [OF l, of "?blk i"] by (auto simp: dec_def)
  have fit: "length (?blk i) = b" if "length encoded = n * b" "i < n" for i
  proof -
    show ?thesis using block_fits(1) [OF that(2), of b] that(1) by simp
  qed
  have "map_res (\<lambda>i. decode_validated_block ty (?blk i)) [0..<n] = Inr (map dec [0..<n])"
    using dec by (simp add: map_res_Inr list_all2_conv_all_nth)
  then have row: "decode_row ty encoded logical out = Inr ys \<longleftrightarrow>
      0 < logical \<and> logical = n * e \<and> length encoded = n * b \<and> out = logical \<and>
      validate_scales ty encoded n b = Inr () \<and> ys = concat (map dec [0..<n])"
    using assms l unfolding decode_row_def ln [symmetric]
    by (auto simp: rbind_Inr quant_layout_of_Inr checked_row_lengths_def validate_lengths_def n_def [symmetric] ln
        split: if_splits)
  have "validate_scales ty encoded n b = Inr () \<and> ys = concat (map dec [0..<n]) \<longleftrightarrow>
      length ys = logical \<and> (\<forall>i < n. decode_block ty (?blk i) e = Inr (take e (drop (i * e) ys)))"
    if h: "logical = n * e" "length encoded = n * b"
  proof -
    have blk: "decode_block ty (?blk i) e = Inr zs \<longleftrightarrow> validate_scales ty (?blk i) 1 b = Inr () \<and> zs = dec i" if "i < n" for i zs
      using fit [OF h(2) that] dec [of i] by (auto simp: decode_block_Inr [OF l])
    have "ys = concat (map dec [0..<n]) \<longleftrightarrow> length ys = logical \<and> (\<forall>i < n. take e (drop (i * e) ys) = dec i)"
    proof (intro iffI conjI)
      assume "length ys = logical \<and> (\<forall>i < n. take e (drop (i * e) ys) = dec i)"
      then show "ys = concat (map dec [0..<n])"
        using concat_blocks [of ys n e] h(1) by (metis (no_types, lifting) atLeastLessThan_iff map_eq_conv set_upt)
    qed (use blocks_concat [of n dec e] dec h(1) in auto)
    then show ?thesis using blk validate_scales_blocks [OF l h(2)] by auto
  qed
  then show ?thesis unfolding row using l by (auto simp: ln n_def [symmetric])
qed

text \<open>
  A decoded block holds one number per element, and for the quantised types every one of them is
  finite, of magnitude at most \<^verbatim>\<open>2^33\<close>: the checks of the scales exclude every overflow, infinity and
  NaN in the arithmetic of the decoders.
\<close>

theorem decode_block_finite:
  assumes ok: "decode_block ty encoded out = Inr ys" and ty: "ty \<noteq> F32"
  shows "length ys = out \<and> (\<forall>y \<in> set ys. f32_is_finite y \<and> f32_within y 33)"
proof -
  obtain e b where l: "expected_layout ty = Some (e, b)"
    using ok by (auto simp: decode_block_def rbind_Inr quant_layout_of_Inr)
  note parts = ok [unfolded decode_block_Inr [OF l]]
  have n: "length ys = out" using decoded_length [of ty encoded ys] parts l by auto
  have "\<forall>(f, off) \<in> set fs. f16_is_finite (f16_at encoded off)" if "scale_fields ty = Some fs" for fs
    using parts ty that by (simp add: validate_scales_def rbind_Inr check_fields_Inr)
  then have d: "f32_within (finite_scale encoded 0) 16" "ty \<in> {Q4_K, Q5_K} \<longrightarrow> f32_within (finite_scale encoded 2) 16"
    using l ty by (auto simp: scale_fields_def expected_layout_def split: ggml_type.splits intro!: within_finite_scale)
  have "f32_within y 33" if y: "y \<in> set ys" for y
  proof -
    from l ty consider "ty = Q4_K" | "ty = Q5_K" | "ty = IQ2_S" | "ty = IQ3_S"
      by (auto simp: expected_layout_def split: ggml_type.splits)
    then show ?thesis
    proof cases
      case 1
      then show ?thesis using parts y d
        by (auto simp: decode_validated_block_def decode_q4_k_validated_def Let_def intro: within_k_group)
    next
      case 2
      then show ?thesis using parts y d
        by (auto simp: decode_validated_block_def decode_q5_k_validated_def Let_def intro: within_k_group)
    next
      case 3
      then show ?thesis using parts y d(1)
        by (auto simp: decode_validated_block_def decode_iq2_s_validated_def Let_def finite_scale_def
            less_2_cases_iff nth_Cons' intro!: within_grid_lane within_iq2_scale)
    next
      case 4
      then show ?thesis using parts y within_mul [OF d(1) within_byte]
        by (auto simp: decode_validated_block_def decode_iq3_s_validated_def Let_def finite_scale_def
            less_2_cases_iff nth_Cons' intro!: within_grid_lane within_mono [of _ 24 25])
    qed
  qed
  then show ?thesis using n within_finite [of _ 33] by auto
qed

lemma decode_row_blocks_witness:
  "decode_row F32 [0, 0, 0x80, 0x3f, 0, 0, 0, 0x40] 2 2 = Inr [0x3f800000, 0x40000000]"
  by (subst decode_row_blocks) (auto simp: u64_limit_def expected_layout_def decode_block_def validate_lengths_def
      quant_layout_of_def checked_usize_def block_size_def type_size_def validate_scales_def decode_validated_block_def
      decode_f32_validated_def f32_of_le_def less_2_cases_iff)

lemma decode_block_finite_witness:
  "\<exists>ys. decode_block Q4_K (replicate 144 0) 256 = Inr ys \<and>
     length ys = 256 \<and> (\<forall>y \<in> set ys. f32_is_finite y \<and> f32_within y 33)"
proof -
  have l: "expected_layout Q4_K = Some (256, 144)" by (simp add: expected_layout_def)
  have "validate_scales Q4_K (replicate 144 0) 1 144 = Inr ()"
    by (simp add: validate_scales_def scale_fields_def f16_at_def u16_at_def f16_is_finite_def
        fmagnitude_def inf_bits_def)
  then obtain ys where ys: "decode_block Q4_K (replicate 144 0) 256 = Inr ys"
    using decode_total [OF l, of "replicate 144 0"] by (auto simp: decode_block_Inr [OF l])
  from decode_block_finite [OF this] show ?thesis using ys by auto
qed

end
