(* ===== verification/Q8_Dot.thy ===== *)
theory Q8_Dot
  imports Quant_Decode
begin

text \<open>
  Integer dot products of packed weight rows with \<^verbatim>\<open>Q8_K\<close> activation rows
  (\<^verbatim>\<open>bridge-quant-layout/src/q8_k.rs\<close>): the checks, the scalar kernels and the AVX2 kernels. The scalar
  \<^verbatim>\<open>i32\<close> sums are integers; \<^verbatim>\<open>dot_sums_fit\<close> shows that none of them overflows. The vector registers are
  lists of machine words and each intrinsic is a function on them, so that their wrap-around is kept.
\<close>

section \<open>Checks\<close>

definition validate_logical_elements :: "ggml_type \<Rightarrow> nat \<Rightarrow> quant_error + nat" where
  "validate_logical_elements ty logical =
     (if logical = 0 then Inl ZeroLogicalElements
      else if logical mod 256 \<noteq> 0 then Inl (LogicalElementsNotDivisible ty logical 256)
      else Inr (logical div 256))"

definition checked_bytes :: "nat \<Rightarrow> nat \<Rightarrow> string \<Rightarrow> quant_error + nat" where
  "checked_bytes count bytes operation = ok_or (QuantArithmeticOverflow operation) (checked_mul count bytes)"

definition f32_at :: "byte list \<Rightarrow> nat \<Rightarrow> f32" where
  "f32_at bs i = f32_of_le (take 4 (drop i bs))"

fun q8_scales_from :: "byte list \<Rightarrow> nat list \<Rightarrow> quant_error + unit" where
  "q8_scales_from encoded [] = Inr ()"
| "q8_scales_from encoded (i # is) =
     (if f32_is_finite (f32_at encoded (i * 292)) then q8_scales_from encoded is
      else Inl (NonFiniteQ8Scale i (f32_at encoded (i * 292))))"

definition validate_q8_scales :: "byte list \<Rightarrow> nat \<Rightarrow> quant_error + unit" where
  "validate_q8_scales encoded count = q8_scales_from encoded [0..<count]"

definition validate_vec_dot_q8_k_inner :: "ggml_type \<Rightarrow> byte list \<Rightarrow> byte list \<Rightarrow> nat \<Rightarrow> quant_error + nat" where
  "validate_vec_dot_q8_k_inner ty weights q8 logical =
     (if ty \<notin> {Q4_K, Q5_K, IQ2_S, IQ3_S} then Inl (UnsupportedType ty)
      else rbind (validate_logical_elements ty logical) (\<lambda>count.
        rbind (quant_layout_of ty) (\<lambda>l.
        rbind (checked_bytes count (block_bytes l) ''packed dot weight row length'') (\<lambda>expected_weights.
        if length weights \<noteq> expected_weights then Inl (EncodedLengthMismatch ty expected_weights (length weights))
        else rbind (checked_bytes count 292 ''packed dot Q8_K row length'') (\<lambda>expected_q8.
          if length q8 \<noteq> expected_q8 then Inl (EncodedLengthMismatch Q8_K expected_q8 (length q8))
          else rbind (validate_scales ty weights count (block_bytes l)) (\<lambda>_.
               rbind (validate_q8_scales q8 count) (\<lambda>_. Inr count)))))))"

section \<open>The scalar kernels\<close>

definition i8_at :: "byte list \<Rightarrow> nat \<Rightarrow> int" where "i8_at bs i = sint (bs ! i)"

definition i16_at :: "byte list \<Rightarrow> nat \<Rightarrow> int" where "i16_at bs i = sint (f16_at bs i)"

definition row_block :: "nat \<Rightarrow> byte list \<Rightarrow> nat \<Rightarrow> byte list" where
  "row_block bytes row i = take bytes (drop (i * bytes) row)"

text \<open>The unpacked weights of a K-quant block, as signed bytes.\<close>

definition k_quants :: "ggml_type \<Rightarrow> byte list \<Rightarrow> byte list" where
  "k_quants ty weight =
     (if ty = Q4_K
      then concat (map (\<lambda>grp.
             map (\<lambda>lane. weight ! (16 + grp * 32 + lane) AND 0x0f) [0..<32] @
             map (\<lambda>lane. drop_bit 4 (weight ! (16 + grp * 32 + lane))) [0..<32]) [0..<4])
      else let high_bits = take 32 (drop 16 weight) in concat (map (\<lambda>grp.
             map (\<lambda>lane. (weight ! (48 + grp * 32 + lane) AND 0x0f) +
               fifth_bit high_bits lane (push_bit (2 * grp) 1)) [0..<32] @
             map (\<lambda>lane. drop_bit 4 (weight ! (48 + grp * 32 + lane)) +
               fifth_bit high_bits lane (push_bit (2 * grp) 2)) [0..<32]) [0..<4]))"

definition k_scale :: "byte list \<Rightarrow> nat \<Rightarrow> int" where
  "k_scale weight i = uint (fst (scale_min (take 12 (drop 4 weight)) i))"

definition k_min :: "byte list \<Rightarrow> nat \<Rightarrow> int" where
  "k_min weight i = uint (snd (scale_min (take 12 (drop 4 weight)) i))"

definition k_minimum_sum :: "byte list \<Rightarrow> byte list \<Rightarrow> int" where
  "k_minimum_sum weight activation =
     (\<Sum>grp \<leftarrow> [0..<16]. i16_at activation (260 + grp * 2) * k_min weight (grp div 2))"

definition k_lane_sum :: "byte list \<Rightarrow> byte list \<Rightarrow> byte list \<Rightarrow> nat \<Rightarrow> int" where
  "k_lane_sum weight quants activation lane =
     (\<Sum>s \<leftarrow> [0..<8]. \<Sum>r \<leftarrow> [0..<4].
        k_scale weight s * i8_at activation (4 + (s * 32 + r * 8) + lane) * sint (quants ! (s * 32 + r * 8 + lane)))"

definition k_accumulate :: "byte list \<Rightarrow> byte list \<Rightarrow> int list \<Rightarrow> f32 list \<times> f32 \<Rightarrow> f32 list \<times> f32" where
  "k_accumulate weight activation lanes acc =
     (let scale = f32_mul (finite_scale weight 0) (f32_at activation 0);
          minimum_scale = f32_mul (finite_scale weight 2) (f32_at activation 0)
      in (map2 (\<lambda>s l. f32_add s (f32_mul scale (f32_of_int l))) (fst acc) lanes,
          f32_sub (snd acc) (f32_mul minimum_scale (f32_of_int (k_minimum_sum weight activation)))))"

definition k_finish :: "f32 list \<times> f32 \<Rightarrow> f32" where
  "k_finish acc = fold (\<lambda>lane_sum s. f32_add s lane_sum) (fst acc) (snd acc)"

definition dot_q4_or_q5_k :: "ggml_type \<Rightarrow> byte list \<Rightarrow> byte list \<Rightarrow> nat \<Rightarrow> f32" where
  "dot_q4_or_q5_k ty weights q8 count =
     (let bytes = block_bytes (projr (quant_layout_of ty))
      in k_finish (fold (\<lambda>i acc.
           let weight = row_block bytes weights i; activation = row_block 292 q8 i
           in k_accumulate weight activation (map (k_lane_sum weight (k_quants ty weight) activation) [0..<8]) acc)
         [0..<count] (replicate 8 f32_zero, f32_zero)))"

definition lane_sign :: "byte \<Rightarrow> nat \<Rightarrow> int" where
  "lane_sign signs lane = (if signs AND KMASK_IQ2XS ! lane = 0 then 1 else -1)"

definition iq2_lane :: "byte list \<Rightarrow> byte list \<Rightarrow> nat \<Rightarrow> nat \<Rightarrow> nat \<Rightarrow> int" where
  "iq2_lane weight activation grp lane_group lane =
     i8_at activation (4 + grp * 32 + lane_group * 8 + lane) *
       uint (grid_bytes2 (iq2_index weight grp lane_group) ! lane) *
       lane_sign (weight ! (34 + grp * 4 + lane_group)) lane"

definition iq2_sum :: "byte list \<Rightarrow> byte list \<Rightarrow> nat \<Rightarrow> nat \<Rightarrow> int" where
  "iq2_sum weight activation grp half =
     (\<Sum>lane_group \<leftarrow> filter (\<lambda>lg. lg div 2 = half) [0..<4]. \<Sum>lane \<leftarrow> [0..<8].
        iq2_lane weight activation grp lane_group lane)"

definition iq2_scale :: "byte list \<Rightarrow> nat \<Rightarrow> nat \<Rightarrow> int" where
  "iq2_scale weight grp half =
     uint (1 + 2 * (if half = 0 then weight ! (74 + grp) AND 0x0f else drop_bit 4 (weight ! (74 + grp))))"

definition iq2_block_sum :: "byte list \<Rightarrow> byte list \<Rightarrow> int" where
  "iq2_block_sum weight activation =
     (\<Sum>grp \<leftarrow> [0..<8]. iq2_scale weight grp 0 * iq2_sum weight activation grp 0 +
        iq2_scale weight grp 1 * iq2_sum weight activation grp 1)"

definition iq_rows :: "nat \<Rightarrow> (byte list \<Rightarrow> byte list \<Rightarrow> int) \<Rightarrow> byte list \<Rightarrow> byte list \<Rightarrow> nat \<Rightarrow> f32" where
  "iq_rows bytes block_sum weights q8 count =
     fold (\<lambda>i sum. let weight = row_block bytes weights i; activation = row_block 292 q8 i;
                scale = f32_mul (finite_scale weight 0) (f32_at activation 0)
            in f32_add sum (f32_mul scale (f32_of_int (block_sum weight activation)))) [0..<count] f32_zero"

definition dot_iq2_s :: "byte list \<Rightarrow> byte list \<Rightarrow> nat \<Rightarrow> f32" where
  "dot_iq2_s weights q8 count = f32_mul 0x3e000000 (iq_rows 82 iq2_block_sum weights q8 count)"

definition iq3_lane :: "byte list \<Rightarrow> byte list \<Rightarrow> nat \<Rightarrow> nat \<Rightarrow> nat \<Rightarrow> nat \<Rightarrow> int" where
  "iq3_lane weight activation grp lane_group second lane =
     i8_at activation (4 + grp * 32 + lane_group * 8 + (lane + 4 * second)) *
       uint (grid_bytes3 (iq3_index weight grp lane_group second) ! lane) *
       lane_sign (weight ! (74 + grp * 4 + lane_group)) (lane + 4 * second)"

definition iq3_group_sum :: "byte list \<Rightarrow> byte list \<Rightarrow> nat \<Rightarrow> int" where
  "iq3_group_sum weight activation grp =
     (\<Sum>lane_group \<leftarrow> [0..<4]. \<Sum>lane \<leftarrow> [0..<4].
        iq3_lane weight activation grp lane_group 0 lane + iq3_lane weight activation grp lane_group 1 lane)"

definition iq3_scale :: "byte list \<Rightarrow> nat \<Rightarrow> nat \<Rightarrow> int" where
  "iq3_scale weight pair half =
     uint (2 * (if half = 0 then weight ! (106 + pair) AND 0x0f else drop_bit 4 (weight ! (106 + pair))) + 1)"

definition iq3_block_sum :: "byte list \<Rightarrow> byte list \<Rightarrow> int" where
  "iq3_block_sum weight activation =
     (\<Sum>pair \<leftarrow> [0..<4]. \<Sum>half \<leftarrow> [0..<2]. iq3_group_sum weight activation (pair * 2 + half) * iq3_scale weight pair half)"

definition dot_iq3_s :: "byte list \<Rightarrow> byte list \<Rightarrow> nat \<Rightarrow> f32" where
  "dot_iq3_s weights q8 count = iq_rows 110 iq3_block_sum weights q8 count"

definition dot_scalar :: "ggml_type \<Rightarrow> byte list \<Rightarrow> byte list \<Rightarrow> nat \<Rightarrow> f32" where
  "dot_scalar ty weights q8 count =
     (if ty = IQ2_S then dot_iq2_s weights q8 count else if ty = IQ3_S then dot_iq3_s weights q8 count
      else dot_q4_or_q5_k ty weights q8 count)"

definition vec_dot_q8_k :: "ggml_type \<Rightarrow> byte list \<Rightarrow> byte list \<Rightarrow> nat \<Rightarrow> quant_error + f32" where
  "vec_dot_q8_k ty weights q8 logical =
     rbind (validate_vec_dot_q8_k_inner ty weights q8 logical) (\<lambda>count. Inr (dot_scalar ty weights q8 count))"

section \<open>The AVX2 kernels\<close>

text \<open>
  The intrinsics, as functions on lists of lanes: an unaligned 16-byte load, sign extension, the
  low 16 bits of products, the two halves of a register, 32-bit additions, and the sums of adjacent
  products.
\<close>

definition mm_loadu_si128 :: "byte list \<Rightarrow> nat \<Rightarrow> byte list" where
  "mm_loadu_si128 bs offset = take 16 (drop offset bs)"

definition mm256_cvtepi8_epi16 :: "byte list \<Rightarrow> 16 word list" where
  "mm256_cvtepi8_epi16 = map scast"

definition mm256_mullo_epi16 :: "16 word list \<Rightarrow> 16 word list \<Rightarrow> 16 word list" where
  "mm256_mullo_epi16 = map2 (\<lambda>x y. x * y)"

definition mm256_cvtepi16_epi32 :: "16 word list \<Rightarrow> 32 word list" where
  "mm256_cvtepi16_epi32 = map scast"

definition mm256_add_epi32 :: "32 word list \<Rightarrow> 32 word list \<Rightarrow> 32 word list" where
  "mm256_add_epi32 = map2 (\<lambda>x y. x + y)"

fun mm256_madd_epi16 :: "16 word list \<Rightarrow> 16 word list \<Rightarrow> 32 word list" where
  "mm256_madd_epi16 (x0 # x1 # xs) (y0 # y1 # ys) = (scast x0 * scast y0 + scast x1 * scast y1) # mm256_madd_epi16 xs ys"
| "mm256_madd_epi16 _ _ = []"

definition products_i16 :: "byte list \<Rightarrow> byte list \<Rightarrow> nat \<Rightarrow> 16 word list" where
  "products_i16 weights activations offset =
     mm256_mullo_epi16 (mm256_cvtepi8_epi16 (mm_loadu_si128 weights offset))
       (mm256_cvtepi8_epi16 (mm_loadu_si128 activations offset))"

definition lane_sums_i8_32 :: "byte list \<Rightarrow> byte list \<Rightarrow> int list" where
  "lane_sums_i8_32 weights activations =
     map sint (fold (\<lambda>offset accumulated.
         let product = products_i16 weights activations offset
         in mm256_add_epi32 (mm256_add_epi32 accumulated (mm256_cvtepi16_epi32 (take 8 product)))
              (mm256_cvtepi16_epi32 (drop 8 product))) [0, 16] (replicate 8 0))"

definition dot_i8_32 :: "byte list \<Rightarrow> byte list \<Rightarrow> int" where
  "dot_i8_32 weights activations = sum_list (lane_sums_i8_32 weights activations)"

definition dot_i8_16 :: "byte list \<Rightarrow> byte list \<Rightarrow> int" where
  "dot_i8_16 weights activations =
     sum_list (map sint (mm256_madd_epi16 (products_i16 weights activations 0) (replicate 16 1)))"

definition k_lane_sums_avx2 :: "byte list \<Rightarrow> byte list \<Rightarrow> byte list \<Rightarrow> int list" where
  "k_lane_sums_avx2 weight quants activation =
     fold (\<lambda>s lanes. map2 (\<lambda>l raw. l + k_scale weight s * raw) lanes
         (lane_sums_i8_32 (take 32 (drop (s * 32) quants)) (take 32 (drop (4 + s * 32) activation))))
       [0..<8] (replicate 8 0)"

definition dot_q4_or_q5_k_avx2 :: "ggml_type \<Rightarrow> byte list \<Rightarrow> byte list \<Rightarrow> nat \<Rightarrow> f32" where
  "dot_q4_or_q5_k_avx2 ty weights q8 count =
     (let bytes = block_bytes (projr (quant_layout_of ty))
      in k_finish (fold (\<lambda>i acc.
           let weight = row_block bytes weights i; activation = row_block 292 q8 i
           in k_accumulate weight activation (k_lane_sums_avx2 weight (k_quants ty weight) activation) acc)
         [0..<count] (replicate 8 f32_zero, f32_zero)))"

definition signed_lane :: "byte \<Rightarrow> nat \<Rightarrow> byte \<Rightarrow> byte" where
  "signed_lane signs lane magnitude = (if signs AND KMASK_IQ2XS ! lane = 0 then magnitude else - magnitude)"

definition signed_grid2 :: "byte list \<Rightarrow> nat \<Rightarrow> byte list" where
  "signed_grid2 weight grp = concat (map (\<lambda>lane_group. map (\<lambda>lane.
     signed_lane (weight ! (34 + grp * 4 + lane_group)) lane (grid_bytes2 (iq2_index weight grp lane_group) ! lane))
     [0..<8]) [0..<4])"

definition iq2_block_sum_avx2 :: "byte list \<Rightarrow> byte list \<Rightarrow> int" where
  "iq2_block_sum_avx2 weight activation =
     (\<Sum>grp \<leftarrow> [0..<8].
        let grid = signed_grid2 weight grp; start = 4 + grp * 32
        in iq2_scale weight grp 0 * dot_i8_16 (take 16 grid) (take 16 (drop start activation)) +
           iq2_scale weight grp 1 * dot_i8_16 (drop 16 grid) (take 16 (drop (start + 16) activation)))"

definition dot_iq2_s_avx2 :: "byte list \<Rightarrow> byte list \<Rightarrow> nat \<Rightarrow> f32" where
  "dot_iq2_s_avx2 weights q8 count = f32_mul 0x3e000000 (iq_rows 82 iq2_block_sum_avx2 weights q8 count)"

definition signed_grid3 :: "byte list \<Rightarrow> nat \<Rightarrow> byte list" where
  "signed_grid3 weight grp = concat (map (\<lambda>lane_group.
     let signs = weight ! (74 + grp * 4 + lane_group)
     in map (\<lambda>lane. signed_lane signs lane (grid_bytes3 (iq3_index weight grp lane_group 0) ! lane)) [0..<4] @
        map (\<lambda>lane. signed_lane signs (lane + 4) (grid_bytes3 (iq3_index weight grp lane_group 1) ! lane)) [0..<4])
     [0..<4])"

definition iq3_block_sum_avx2 :: "byte list \<Rightarrow> byte list \<Rightarrow> int" where
  "iq3_block_sum_avx2 weight activation =
     (\<Sum>pair \<leftarrow> [0..<4]. \<Sum>half \<leftarrow> [0..<2].
        let grp = pair * 2 + half
        in dot_i8_32 (signed_grid3 weight grp) (take 32 (drop (4 + grp * 32) activation)) * iq3_scale weight pair half)"

definition dot_iq3_s_avx2 :: "byte list \<Rightarrow> byte list \<Rightarrow> nat \<Rightarrow> f32" where
  "dot_iq3_s_avx2 weights q8 count = iq_rows 110 iq3_block_sum_avx2 weights q8 count"

definition dot_avx2 :: "ggml_type \<Rightarrow> byte list \<Rightarrow> byte list \<Rightarrow> nat \<Rightarrow> f32" where
  "dot_avx2 ty weights q8 count =
     (if ty = IQ2_S then dot_iq2_s_avx2 weights q8 count else if ty = IQ3_S then dot_iq3_s_avx2 weights q8 count
      else dot_q4_or_q5_k_avx2 ty weights q8 count)"

definition vec_dot_q8_k_cpu :: "bool \<Rightarrow> ggml_type \<Rightarrow> byte list \<Rightarrow> byte list \<Rightarrow> nat \<Rightarrow> quant_error + f32" where
  "vec_dot_q8_k_cpu avx2_detected ty weights q8 logical =
     rbind (validate_vec_dot_q8_k_inner ty weights q8 logical) (\<lambda>count.
       Inr (if avx2_detected then dot_avx2 ty weights q8 count else dot_scalar ty weights q8 count))"

section \<open>Signed lanes\<close>

lemma sint_i16: "- (2 ^ 15) \<le> x \<Longrightarrow> x < 2 ^ 15 \<Longrightarrow> sint (word_of_int x :: 16 word) = x"
  and sint_i32: "- (2 ^ 31) \<le> x \<Longrightarrow> x < 2 ^ 31 \<Longrightarrow> sint (word_of_int x :: 32 word) = x"
  and sint_i8: "- (2 ^ 7) \<le> x \<Longrightarrow> x < 2 ^ 7 \<Longrightarrow> sint (word_of_int x :: byte) = x"
  by (simp_all add: signed_of_int signed_take_bit_int_eq_self)

lemma sint_byte: "- 128 \<le> sint b" "sint b \<le> 127" for b :: byte
  using sint_ge [of b] sint_lt [of b] by simp_all

lemma byte_product: "- 16384 \<le> sint a * sint b" "sint a * sint b \<le> 16384" for a b :: byte
proof -
  have "\<bar>sint a\<bar> * \<bar>sint b\<bar> \<le> 128 * 128"
    using sint_byte [of a] sint_byte [of b] by (intro mult_mono) auto
  then have "\<bar>sint a * sint b\<bar> \<le> 16384" by (simp add: abs_mult)
  then show "- 16384 \<le> sint a * sint b" "sint a * sint b \<le> 16384" by linarith+
qed

definition lane_product :: "byte list \<Rightarrow> byte list \<Rightarrow> nat \<Rightarrow> int" where
  "lane_product w a i = sint (w ! i) * sint (a ! i)"

lemma lane_product_bounds: "- 16384 \<le> lane_product w a i" "lane_product w a i \<le> 16384"
  unfolding lane_product_def by (rule byte_product)+

text \<open>No product of two signed bytes wraps in sixteen bits.\<close>

lemma products_i16_eq:
  assumes "off + 16 \<le> length w" "off + 16 \<le> length a"
  shows "products_i16 w a off = map (\<lambda>i. word_of_int (lane_product w a (off + i))) [0..<16]"
proof (rule nth_equalityI)
  fix i
  assume "i < length (products_i16 w a off)"
  then have i: "i < 16"
    by (simp add: products_i16_def mm_loadu_si128_def mm256_mullo_epi16_def mm256_cvtepi8_epi16_def del: upt_rec_numeral)
  have "(scast (w ! (off + i)) :: 16 word) * scast (a ! (off + i)) = word_of_int (lane_product w a (off + i))"
    by (simp only: scast_eq lane_product_def wi_hom_mult)
  then show "products_i16 w a off ! i = map (\<lambda>i. word_of_int (lane_product w a (off + i))) [0..<16] ! i"
    using i assms
    by (simp add: products_i16_def mm_loadu_si128_def mm256_mullo_epi16_def mm256_cvtepi8_epi16_def del: upt_rec_numeral)
qed (use assms in \<open>simp add: products_i16_def mm_loadu_si128_def mm256_mullo_epi16_def mm256_cvtepi8_epi16_def\<close>)

lemma scast_product: "scast (word_of_int (lane_product w a i) :: 16 word) = (word_of_int (lane_product w a i) :: 32 word)"
  using lane_product_bounds [of w a i] by (simp add: scast_eq sint_i16)

lemma upt4: "[0..<4] = [0, 1, 2, 3]"
  by code_simp

lemma lane_sums_eq:
  assumes "length w = 32" "length a = 32"
  shows "lane_sums_i8_32 w a = map (\<lambda>l. \<Sum>r \<leftarrow> [0..<4]. lane_product w a (r * 8 + l)) [0..<8]"
proof -
  let ?p = "lane_product w a"
  have halves: "mm256_cvtepi16_epi32 (take 8 (products_i16 w a off)) = map (\<lambda>l. word_of_int (?p (off + l))) [0..<8]"
    "mm256_cvtepi16_epi32 (drop 8 (products_i16 w a off)) = map (\<lambda>l. word_of_int (?p (off + (8 + l)))) [0..<8]"
    if "off + 16 \<le> 32" for off
  proof -
    have "map (\<lambda>l. (word_of_int (?p (off + l)) :: 32 word)) [8..<16] = map (\<lambda>l. word_of_int (?p (off + (8 + l)))) [0..<8]"
      by (rule nth_equalityI) (simp_all add: add.assoc del: upt_rec_numeral)
    then show "mm256_cvtepi16_epi32 (take 8 (products_i16 w a off)) = map (\<lambda>l. word_of_int (?p (off + l))) [0..<8]"
      "mm256_cvtepi16_epi32 (drop 8 (products_i16 w a off)) = map (\<lambda>l. word_of_int (?p (off + (8 + l)))) [0..<8]"
      using that assms
      by (simp_all add: products_i16_eq mm256_cvtepi16_epi32_def take_map drop_map scast_product comp_def del: upt_rec_numeral)
  qed
  have zero: "replicate 8 (0 :: 32 word) = map (\<lambda>l. 0) [0..<8]" by (simp add: map_replicate_const)
  have "lane_sums_i8_32 w a =
      map (\<lambda>l. sint (word_of_int (?p l) + word_of_int (?p (8 + l)) + word_of_int (?p (16 + l)) +
        word_of_int (?p (24 + l)) :: 32 word)) [0..<8]"
    unfolding lane_sums_i8_32_def zero
    by (simp add: Let_def halves mm256_add_epi32_def map2_map_map comp_def add.assoc del: upt_rec_numeral)
  moreover have "sint (word_of_int (?p l) + word_of_int (?p (8 + l)) + word_of_int (?p (16 + l)) +
        word_of_int (?p (24 + l)) :: 32 word) =
      (\<Sum>r \<leftarrow> [0..<4]. ?p (r * 8 + l))" for l
    using lane_product_bounds [of w a l] lane_product_bounds [of w a "8 + l"] lane_product_bounds [of w a "16 + l"]
      lane_product_bounds [of w a "24 + l"]
    by (subst wi_hom_add)+ (subst sint_i32, simp_all add: upt4)
  ultimately show ?thesis by simp
qed

lemma sum_list_swap: "(\<Sum>a \<leftarrow> xs. \<Sum>b \<leftarrow> ys. f a b) = (\<Sum>b \<leftarrow> ys. \<Sum>a \<leftarrow> xs. (f a b :: int))"
  by (induction xs) (simp_all add: sum_list_addf)

lemma sum_list_blocks: "(\<Sum>i \<leftarrow> [0..<n * m]. f i) = (\<Sum>a \<leftarrow> [0..<n]. \<Sum>b \<leftarrow> [0..<m]. (f (a * m + b) :: int))"
proof (induction n)
  case (Suc n)
  have "[0..<Suc n * m] = [0..<n * m] @ [n * m..<n * m + m]"
    using upt_add_eq_append [of 0 "n * m" m] by (simp add: add.commute)
  moreover have "[n * m..<n * m + m] = map (\<lambda>b. n * m + b) [0..<m]" by (rule nth_equalityI) simp_all
  ultimately show ?case using Suc by (simp add: comp_def)
qed simp

lemma dot_i8_32_eq:
  assumes "length w = 32" "length a = 32"
  shows "dot_i8_32 w a = (\<Sum>i \<leftarrow> [0..<32]. lane_product w a i)"
  using sum_list_blocks [of "lane_product w a" 4 8] sum_list_swap [of "\<lambda>l r. lane_product w a (r * 8 + l)" "[0..<4]" "[0..<8]"]
  by (simp add: dot_i8_32_def lane_sums_eq [OF assms] del: upt_rec_numeral)

lemma dot_i8_16_eq:
  assumes "length w = 16" "length a = 16"
  shows "dot_i8_16 w a = (\<Sum>i \<leftarrow> [0..<16]. lane_product w a i)"
proof -
  have one: "scast (1 :: 16 word) = (1 :: 32 word)" by simp
  have pair: "sint (word_of_int (lane_product w a i) + word_of_int (lane_product w a j) :: 32 word) =
      lane_product w a i + lane_product w a j" for i j
    using lane_product_bounds [of w a i] lane_product_bounds [of w a j]
    by (subst wi_hom_add) (subst sint_i32, simp_all)
  have ones: "replicate 16 (1 :: 16 word) = [1, 1, 1, 1, 1, 1, 1, 1, 1, 1, 1, 1, 1, 1, 1, 1]" by (simp add: numeral_eq_Suc)
  have upt: "[0..<16] = [0, 1, 2, 3, 4, 5, 6, 7, 8, 9, 10, 11, 12, 13, 14, 15]" by code_simp
  have "products_i16 w a 0 = map (\<lambda>i. word_of_int (lane_product w a i)) [0..<16]"
    using products_i16_eq [of 0 w a] assms by simp
  then show ?thesis
    by (simp only: dot_i8_16_def upt ones list.map mm256_madd_epi16.simps scast_product one mult_1_right pair
        sum_list.Cons sum_list.Nil add.assoc)
qed

section \<open>The two families agree\<close>

lemma fold_lanes:
  "fold (\<lambda>s lanes. map2 (\<lambda>l raw. l + c s * raw) lanes (map (f s) [0..<n])) ss (map g [0..<n]) =
     map (\<lambda>l. g l + (\<Sum>s \<leftarrow> ss. c s * f s l :: int)) [0..<n]"
  by (induction ss arbitrary: g) (simp_all add: map2_map_map comp_def add.assoc del: upt_rec_numeral)

lemma length_k_quants: "length (k_quants ty weight) = 256"
  by (simp add: k_quants_def Let_def length_concat comp_def sum_list_triv)

lemma k_lanes_agree:
  assumes "length activation = 292" "length quants = 256"
  shows "k_lane_sums_avx2 weight quants activation = map (k_lane_sum weight quants activation) [0..<8]"
proof -
  let ?f = "\<lambda>s l. \<Sum>r \<leftarrow> [0..<4]. i8_at activation (4 + (s * 32 + r * 8) + l) * sint (quants ! (s * 32 + r * 8 + l))"
  have raw: "lane_sums_i8_32 (take 32 (drop (s * 32) quants)) (take 32 (drop (4 + s * 32) activation)) =
      map (?f s) [0..<8]" if s: "s < 8" for s
  proof -
    have len: "s * 32 + 32 \<le> 256" using s by simp
    show ?thesis
    proof (subst lane_sums_eq)
      show "map (\<lambda>l. \<Sum>r \<leftarrow> [0..<4]. lane_product (take 32 (drop (s * 32) quants)) (take 32 (drop (4 + s * 32) activation)) (r * 8 + l)) [0..<8] =
          map (?f s) [0..<8]"
        using len assms by (intro map_cong refl arg_cong [of _ _ sum_list])
          (simp add: lane_product_def i8_at_def mult.commute add_ac)
    qed (use len assms in simp_all)
  qed
  have "k_lane_sums_avx2 weight quants activation =
      fold (\<lambda>s lanes. map2 (\<lambda>l raw. l + k_scale weight s * raw) lanes (map (?f s) [0..<8])) [0..<8] (map (\<lambda>l. 0) [0..<8])"
    unfolding k_lane_sums_avx2_def map_replicate_const [symmetric] using raw
    by (intro fold_cong) (simp_all add: map_replicate_const del: upt_rec_numeral)
  then show ?thesis
    unfolding fold_lanes by (simp add: k_lane_sum_def sum_list_const_mult mult.assoc del: upt_rec_numeral)
qed

lemma nth_concat_uniform:
  assumes "\<forall>i < n. length (f i) = e" "i < n" "j < e"
  shows "concat (map f [0..<n]) ! (i * e + j) = f i ! j"
proof -
  have "f i ! j = take e (drop (i * e) (concat (map f [0..<n]))) ! j" using blocks_concat(2) [OF assms(1,2)] by simp
  also have "\<dots> = concat (map f [0..<n]) ! (i * e + j)"
  proof -
    have "i * e \<le> length (concat (map f [0..<n]))"
      using block_fits(1) [OF assms(2), of e] unfolding blocks_concat(1) [OF assms(1)] by linarith
    then show ?thesis using assms(3) by (simp del: length_concat)
  qed
  finally show ?thesis by simp
qed

lemma nth_le_bytes: "i < n \<Longrightarrow> le_bytes n v ! i = word_of_nat (v div 256 ^ i)"
proof (induction n arbitrary: v i)
  case (Suc n)
  then show ?case by (cases i) (simp_all add: div_mult2_eq)
qed simp

lemma byte_positive:
  fixes w :: "'a :: len word"
  assumes "\<not> bit w (8 * i + 7)" "i < n"
  shows "uint (le_bytes n (unat w) ! i) < 128"
proof -
  let ?b = "le_bytes n (unat w) ! i"
  have "(256 :: nat) ^ i = 2 ^ (8 * i)" by (simp add: power_mult)
  then have b: "?b = word_of_nat (unat w div 2 ^ (8 * i))" using nth_le_bytes [OF assms(2)] by simp
  have "\<not> bit ?b 7" using assms(1) unfolding b
    by (simp add: bit_simps flip: drop_bit_eq_div)
  then have "take_bit 7 ?b = ?b"
    by (intro bit_word_eqI) (auto simp: bit_simps less_Suc_eq numeral_eq_Suc)
  then have "uint ?b = take_bit 7 (uint ?b)" by (metis unsigned_take_bit_eq)
  also have "\<dots> < 2 ^ 7" by (rule take_bit_int_less_exp)
  finally show ?thesis by simp
qed

lemma grid_entry:
  fixes m :: "'a :: len word"
  assumes "list_all (\<lambda>w. w AND m = 0) ws" "k < length ws" "bit m j"
  shows "\<not> bit (ws ! k) j"
proof -
  have "ws ! k AND m = 0" using assms(1,2) by (simp add: list_all_length)
  then have "\<not> bit (ws ! k AND m) j" by simp
  then show ?thesis using assms(3) by (simp only: bit_and_iff simp_thms)
qed

lemma top_bits: "i < 8 \<Longrightarrow> bit (0x8080808080808080 :: 64 word) (8 * i + 7)"
  "i < 4 \<Longrightarrow> bit (0x80808080 :: 32 word) (8 * i + 7)"
  by (auto simp: less_Suc_eq numeral_eq_Suc)

lemma grid2_positive: "k < 1024 \<Longrightarrow> lane < 8 \<Longrightarrow> uint (grid_bytes2 k ! lane) < 128"
  unfolding grid_bytes2_def
  by (intro byte_positive grid_entry [OF IQ2S_GRID_positive] top_bits) (simp_all add: length_IQ2S_GRID)

lemma grid3_positive: "k < 512 \<Longrightarrow> lane < 4 \<Longrightarrow> uint (grid_bytes3 k ! lane) < 128"
  unfolding grid_bytes3_def
  by (intro byte_positive grid_entry [OF IQ3S_GRID_positive] top_bits) (simp_all add: length_IQ3S_GRID)

lemma or_masked_less:
  assumes "a < 2 ^ n" "m < 2 ^ n"
  shows "a OR (x AND m) < (2 ^ n :: nat)"
proof -
  have "take_bit n (a OR (x AND m)) = take_bit n a OR (take_bit n x AND take_bit n m)"
    by (simp add: take_bit_or take_bit_and)
  also have "\<dots> = a OR (take_bit n x AND m)" using assms by (simp add: take_bit_nat_eq_self)
  also have "\<dots> = a OR (x AND m)"
  proof -
    have "take_bit n x AND m = take_bit n x AND take_bit n m" "x AND m = x AND take_bit n m"
      using assms(2) by (simp_all add: take_bit_nat_eq_self)
    moreover have "take_bit n x AND take_bit n m = x AND take_bit n m" 
      by (rule bit_eqI) (auto simp: bit_simps)
    ultimately show ?thesis by simp
  qed
  finally show ?thesis unfolding take_bit_nat_eq_self_iff .
qed

lemma unat_byte: "unat b < 256" for b :: byte
  using unsigned_less [of b] by simp

lemma iq_indices: "iq2_index w grp lg < 1024" "iq3_index w grp lg second < 512"
proof -
  have "unat b < 2 ^ 10" "unat b < 2 ^ 9" for b :: byte using unat_byte [of b] by simp_all
  then show "iq2_index w grp lg < 1024" "iq3_index w grp lg second < 512"
    using or_masked_less [of _ 10 "0x300"] or_masked_less [of _ 9 "0x100"]
    by (simp_all add: iq2_index_def iq3_index_def Let_def)
qed

lemma sint_signed_lane: "uint g < 128 \<Longrightarrow> sint (signed_lane signs lane g) = uint g * lane_sign signs lane"
proof -
  assume g: "uint g < 128"
  have "0 \<le> uint g" by simp
  then have "- 128 \<le> uint g" "- uint g < 128" by linarith+
  then have "sint (word_of_int (uint g) :: byte) = uint g" "sint (word_of_int (- uint g) :: byte) = - uint g"
    using g by (subst sint_i8; simp)+
  then have "sint g = uint g" "sint (- g) = - uint g" by simp_all
  then show ?thesis by (simp add: signed_lane_def lane_sign_def)
qed

lemma length_signed_grids [simp]: "length (signed_grid2 w grp) = 32" "length (signed_grid3 w grp) = 32"
  by (simp_all add: signed_grid2_def signed_grid3_def Let_def length_concat comp_def sum_list_triv)

lemma signed_grid2_nth:
  assumes "lg < 4" "lane < 8"
  shows "sint (signed_grid2 w grp ! (lg * 8 + lane)) =
    uint (grid_bytes2 (iq2_index w grp lg) ! lane) * lane_sign (w ! (34 + grp * 4 + lg)) lane"
proof -
  have "signed_grid2 w grp ! (lg * 8 + lane) =
      map (\<lambda>lane. signed_lane (w ! (34 + grp * 4 + lg)) lane (grid_bytes2 (iq2_index w grp lg) ! lane)) [0..<8] ! lane"
    unfolding signed_grid2_def using assms by (intro nth_concat_uniform) simp_all
  then show ?thesis using assms grid2_positive [OF iq_indices(1)] by (simp add: sint_signed_lane)
qed

lemma signed_grid3_nth:
  assumes "lg < 4" "lane < 4" "second < 2"
  shows "sint (signed_grid3 w grp ! (lg * 8 + (lane + 4 * second))) =
    uint (grid_bytes3 (iq3_index w grp lg second) ! lane) * lane_sign (w ! (74 + grp * 4 + lg)) (lane + 4 * second)"
proof -
  let ?signs = "w ! (74 + grp * 4 + lg)"
  have "signed_grid3 w grp ! (lg * 8 + (lane + 4 * second)) =
      (map (\<lambda>lane. signed_lane ?signs lane (grid_bytes3 (iq3_index w grp lg 0) ! lane)) [0..<4] @
       map (\<lambda>lane. signed_lane ?signs (lane + 4) (grid_bytes3 (iq3_index w grp lg 1) ! lane)) [0..<4]) ! (lane + 4 * second)"
    unfolding signed_grid3_def Let_def using assms by (intro nth_concat_uniform) auto
  then have "signed_grid3 w grp ! (lg * 8 + (lane + 4 * second)) =
      signed_lane ?signs (lane + 4 * second) (grid_bytes3 (iq3_index w grp lg second) ! lane)"
    using assms by (auto simp: less_2_cases_iff nth_append)
  then show ?thesis using grid3_positive [OF iq_indices(2) assms(2)] by (simp add: sint_signed_lane)
qed

lemma groups_of_half: "filter (\<lambda>lg. lg div 2 = 0) [0..<4] = [0, 1]" "filter (\<lambda>lg. lg div 2 = Suc 0) [0..<4] = [2, 3 :: nat]"
  by code_simp+

lemma upt2: "[0..<2] = [0, 1]"
  by code_simp

lemma iq2_block_agree:
  assumes "length activation = 292"
  shows "iq2_block_sum_avx2 weight activation = iq2_block_sum weight activation"
proof -
  have lanes: "dot_i8_16 (take 16 (drop (h * 16) (signed_grid2 weight grp)))
        (take 16 (drop (4 + grp * 32 + h * 16) activation)) = iq2_sum weight activation grp h"
    if g: "grp < 8" and h: "h < 2" for grp h
  proof -
    let ?w = "take 16 (drop (h * 16) (signed_grid2 weight grp))"
    let ?a = "take 16 (drop (4 + grp * 32 + h * 16) activation)"
    have len: "length ?w = 16" "length ?a = 16" using g h assms by auto
    have lane: "lane_product ?w ?a (a * 8 + b) = iq2_lane weight activation grp (2 * h + a) b" if ab: "a < 2" "b < 8" for a b
    proof -
      have nth: "?w ! (a * 8 + b) = signed_grid2 weight grp ! ((2 * h + a) * 8 + b)"
        "?a ! (a * 8 + b) = activation ! (4 + grp * 32 + (2 * h + a) * 8 + b)"
        using g h ab assms by (simp_all add: algebra_simps)
      have "2 * h + a < 4" using h ab(1) by linarith
      from signed_grid2_nth [OF this ab(2)] show ?thesis
        unfolding lane_product_def nth iq2_lane_def i8_at_def by (simp only: mult_ac)
    qed
    have "dot_i8_16 ?w ?a = (\<Sum>a \<leftarrow> [0..<2]. \<Sum>b \<leftarrow> [0..<8]. lane_product ?w ?a (a * 8 + b))"
      using sum_list_blocks [of "lane_product ?w ?a" 2 8] by (simp add: dot_i8_16_eq [OF len] del: upt_rec_numeral)
    also have "\<dots> = (\<Sum>a \<leftarrow> [0..<2]. \<Sum>b \<leftarrow> [0..<8]. iq2_lane weight activation grp (2 * h + a) b)"
      using lane by (intro arg_cong [of _ _ sum_list] map_cong refl) auto
    also have "\<dots> = iq2_sum weight activation grp h"
      using h by (auto simp: iq2_sum_def groups_of_half upt2 less_2_cases_iff)
    finally show ?thesis .
  qed
  show ?thesis unfolding iq2_block_sum_avx2_def iq2_block_sum_def
    using lanes [where h = 0] lanes [where h = 1]
    by (intro arg_cong [of _ _ sum_list] map_cong refl) (auto simp: Let_def)
qed

lemma iq3_block_agree:
  assumes "length activation = 292"
  shows "iq3_block_sum_avx2 weight activation = iq3_block_sum weight activation"
proof -
  have lanes: "dot_i8_32 (signed_grid3 weight grp) (take 32 (drop (4 + grp * 32) activation)) =
      iq3_group_sum weight activation grp" if g: "grp < 8" for grp
  proof -
    let ?w = "signed_grid3 weight grp"
    let ?a = "take 32 (drop (4 + grp * 32) activation)"
    have len: "length ?w = 32" "length ?a = 32" using g assms by auto
    have lane: "lane_product ?w ?a (lg * 8 + (lane + 4 * second)) = iq3_lane weight activation grp lg second lane"
      if i: "lg < 4" "second < 2" "lane < 4" for lg second lane
    proof -
      have "lg * 8 + (lane + 4 * second) < 32" using i by linarith
      then have "?a ! (lg * 8 + (lane + 4 * second)) = activation ! (4 + grp * 32 + lg * 8 + (lane + 4 * second))"
        using g assms by (simp add: add.assoc)
      then show ?thesis using i by (simp add: lane_product_def iq3_lane_def i8_at_def signed_grid3_nth)
    qed
    have "dot_i8_32 ?w ?a = (\<Sum>lg \<leftarrow> [0..<4]. \<Sum>b \<leftarrow> [0..<2 * 4]. lane_product ?w ?a (lg * 8 + b))"
      using sum_list_blocks [of "lane_product ?w ?a" 4 8] by (simp add: dot_i8_32_eq [OF len] del: upt_rec_numeral)
    also have "\<dots> = (\<Sum>lg \<leftarrow> [0..<4]. \<Sum>second \<leftarrow> [0..<2]. \<Sum>lane \<leftarrow> [0..<4]. lane_product ?w ?a (lg * 8 + (second * 4 + lane)))"
      unfolding sum_list_blocks by simp
    also have "\<dots> = (\<Sum>lg \<leftarrow> [0..<4]. \<Sum>second \<leftarrow> [0..<2]. \<Sum>lane \<leftarrow> [0..<4]. iq3_lane weight activation grp lg second lane)"
    proof (intro arg_cong [of _ _ sum_list] map_cong refl)
      fix lg second lane
      assume "lg \<in> set [0..<4]" "second \<in> set [0..<2]" "lane \<in> set [0..<4]"
      then show "lane_product ?w ?a (lg * 8 + (second * 4 + lane)) = iq3_lane weight activation grp lg second lane"
        using lane [of lg second lane] by (simp add: add.commute mult.commute)
    qed
    also have "\<dots> = iq3_group_sum weight activation grp"
      by (simp add: iq3_group_sum_def upt2 sum_list_addf)
    finally show ?thesis .
  qed
  show ?thesis unfolding iq3_block_sum_avx2_def iq3_block_sum_def
    unfolding Let_def
    by (intro arg_cong [of _ _ sum_list] map_cong refl) (subst lanes, auto)
qed

section \<open>Properties\<close>

lemma validated_row:
  assumes "validate_vec_dot_q8_k_inner ty weights q8 logical = Inr count"
  shows "length q8 = count * 292" "i < count \<Longrightarrow> length (row_block 292 q8 i) = 292"
proof -
  show q: "length q8 = count * 292"
    using assms by (auto simp: validate_vec_dot_q8_k_inner_def rbind_Inr checked_bytes_def split: if_splits)
  show "i < count \<Longrightarrow> length (row_block 292 q8 i) = 292"
    using block_fits(1) [of i count 292] q by (simp add: row_block_def)
qed

lemma vec_dot_cpu_eq:
  "vec_dot_q8_k_cpu avx2_detected ty weights q8 logical = vec_dot_q8_k ty weights q8 logical"
proof (cases "validate_vec_dot_q8_k_inner ty weights q8 logical")
  case (Inr count)
  note row = validated_row(2) [OF Inr]
  have iq: "iq_rows bytes f weights q8 count = iq_rows bytes g weights q8 count"
    if "\<And>w a. length a = 292 \<Longrightarrow> f w a = g w a" for bytes f g
    unfolding iq_rows_def Let_def using that row by (intro fold_cong) auto
  have "dot_q4_or_q5_k_avx2 ty weights q8 count = dot_q4_or_q5_k ty weights q8 count"
    unfolding dot_q4_or_q5_k_avx2_def dot_q4_or_q5_k_def Let_def
    using row k_lanes_agree [OF _ length_k_quants] by (intro arg_cong [of _ _ k_finish] fold_cong) auto
  then have "dot_avx2 ty weights q8 count = dot_scalar ty weights q8 count"
    using iq [OF iq2_block_agree] iq [OF iq3_block_agree]
    by (simp add: dot_avx2_def dot_scalar_def dot_iq2_s_avx2_def dot_iq2_s_def dot_iq3_s_avx2_def dot_iq3_s_def)
  then show ?thesis using Inr by (simp add: vec_dot_q8_k_cpu_def vec_dot_q8_k_def)
qed (simp add: vec_dot_q8_k_cpu_def vec_dot_q8_k_def)

text \<open> C26.
  The dispatched kernel computes the same value, bit for bit, as the scalar oracle, and fails with the
  same error, whether or not the processor has AVX2: no 16-bit product, no 32-bit lane and no negated
  codebook byte wraps, for every weight row and every activation row.
\<close>

theorem vec_dot_cpu_agrees:
  "vec_dot_q8_k_cpu avx2_detected ty weights q8 logical = vec_dot_q8_k ty weights q8 logical"
  by (rule vec_dot_cpu_eq)

lemma sum_list_bound:
  fixes f :: "'a \<Rightarrow> int"
  shows "\<forall>x \<in> set xs. f x \<le> b \<Longrightarrow> (\<Sum>x \<leftarrow> xs. f x) \<le> int (length xs) * b"
  by (induction xs) (auto simp: algebra_simps)

lemma uint_byte: "0 \<le> uint b" "uint b \<le> 255" for b :: byte
  using uint_bounded [of b] by simp_all

lemma abs_factors:
  "\<bar>i8_at bs i\<bar> \<le> 128" "\<bar>sint b\<bar> \<le> 128" "\<bar>i16_at bs i\<bar> \<le> 32768" "\<bar>uint b\<bar> \<le> 255" "\<bar>k_scale w s\<bar> \<le> 255" "\<bar>k_min w s\<bar> \<le> 255"
  "\<bar>lane_sign signs lane\<bar> \<le> 1" "\<bar>iq2_scale w grp half\<bar> \<le> 255" "\<bar>iq3_scale w grp half\<bar> \<le> 255"
  for b :: byte
proof -
  show "\<bar>i8_at bs i\<bar> \<le> 128" "\<bar>sint b\<bar> \<le> 128"
    using sint_byte [of "bs ! i"] sint_byte [of b] by (auto simp: i8_at_def)
  show "\<bar>i16_at bs i\<bar> \<le> 32768"
    using sint_ge [of "f16_at bs i"] sint_lt [of "f16_at bs i"] by (simp add: i16_at_def)
qed (use uint_byte in \<open>auto simp: k_scale_def k_min_def lane_sign_def iq2_scale_def iq3_scale_def abs_le_iff
  intro: order_trans [OF _ uint_byte(1)]\<close>)

lemma abs_product: "\<bar>x\<bar> \<le> a \<Longrightarrow> \<bar>y\<bar> \<le> b \<Longrightarrow> \<bar>x * y\<bar> \<le> a * (b :: int)"
  unfolding abs_mult by (rule mult_mono) auto

text \<open>
  No \<^verbatim>\<open>i32\<close> sum of the dot products overflows, at any point of the accumulation: already the sums of
  the absolute values of all their terms stay below \<^verbatim>\<open>2^31\<close>, for every content of the two blocks.
\<close>

theorem dot_sums_fit:
  "(\<Sum>s \<leftarrow> [0..<8]. \<Sum>r \<leftarrow> [0..<4].
      \<bar>k_scale w s * i8_at a (4 + (s * 32 + r * 8) + lane) * sint (k_quants ty w ! (s * 32 + r * 8 + lane))\<bar>) < 2 ^ 31 \<and>
   (\<Sum>grp \<leftarrow> [0..<16]. \<bar>i16_at a (260 + grp * 2) * k_min w (grp div 2)\<bar>) < 2 ^ 31 \<and>
   (\<Sum>grp \<leftarrow> [0..<8]. \<Sum>half \<leftarrow> [0..<2]. \<bar>iq2_scale w grp half\<bar> *
      (\<Sum>lg \<leftarrow> filter (\<lambda>lg. lg div 2 = half) [0..<4]. \<Sum>lane \<leftarrow> [0..<8]. \<bar>iq2_lane w a grp lg lane\<bar>)) < 2 ^ 31 \<and>
   (\<Sum>pair \<leftarrow> [0..<4]. \<Sum>half \<leftarrow> [0..<2].
      (\<Sum>lg \<leftarrow> [0..<4]. \<Sum>lane \<leftarrow> [0..<4]. \<bar>iq3_lane w a (pair * 2 + half) lg 0 lane\<bar> + \<bar>iq3_lane w a (pair * 2 + half) lg 1 lane\<bar>) *
        \<bar>iq3_scale w pair half\<bar>) < 2 ^ 31"
proof (intro conjI)
  have lanes: "\<bar>iq2_lane w a grp lg lane\<bar> \<le> 32640" "\<bar>iq3_lane w a grp lg second lane\<bar> \<le> 32640" for grp lg second lane
  proof -
    have "\<bar>i8_at a i * uint b * lane_sign signs lane\<bar> \<le> 128 * 255 * 1" for i lane and b signs :: byte
      by (intro abs_product abs_factors)
    then show "\<bar>iq2_lane w a grp lg lane\<bar> \<le> 32640" "\<bar>iq3_lane w a grp lg second lane\<bar> \<le> 32640"
      by (simp_all add: iq2_lane_def iq3_lane_def)
  qed
  have "\<bar>k_scale w s * i8_at a i * sint b\<bar> \<le> 255 * 128 * 128" for s i and b :: byte
    by (intro abs_product abs_factors)
  then have "(\<Sum>r \<leftarrow> [0..<4]. \<bar>k_scale w s * i8_at a (4 + (s * 32 + r * 8) + lane) *
      sint (k_quants ty w ! (s * 32 + r * 8 + lane))\<bar>) \<le> int (length [0..<4]) * (255 * 128 * 128)" for s
    by (intro sum_list_bound) auto
  then show "(\<Sum>s \<leftarrow> [0..<8]. \<Sum>r \<leftarrow> [0..<4]. \<bar>k_scale w s * i8_at a (4 + (s * 32 + r * 8) + lane) *
      sint (k_quants ty w ! (s * 32 + r * 8 + lane))\<bar>) < 2 ^ 31"
    by (intro le_less_trans [OF sum_list_bound [where b = "int (length [0..<4]) * (255 * 128 * 128)"]]) auto
  have "\<bar>i16_at a i * k_min w j\<bar> \<le> 32768 * 255" for i j by (intro abs_product abs_factors)
  then show "(\<Sum>grp \<leftarrow> [0..<16]. \<bar>i16_at a (260 + grp * 2) * k_min w (grp div 2)\<bar>) < 2 ^ 31"
    by (intro le_less_trans [OF sum_list_bound [where b = "32768 * 255"]]) auto
  have two: "(\<Sum>lg \<leftarrow> filter (\<lambda>lg. lg div 2 = half) [0..<4]. \<Sum>lane \<leftarrow> [0..<8]. \<bar>iq2_lane w a grp lg lane\<bar>) \<le> 2 * (8 * 32640)"
    if "half < 2" for grp half
  proof -
    have "(\<Sum>lane \<leftarrow> [0..<8]. \<bar>iq2_lane w a grp lg lane\<bar>) \<le> 8 * 32640" for lg
      using sum_list_bound [of "[0..<8]" "\<lambda>lane. \<bar>iq2_lane w a grp lg lane\<bar>" 32640] lanes(1) by (simp del: upt_rec_numeral)
    then have "(\<Sum>lg \<leftarrow> filter (\<lambda>lg. lg div 2 = half) [0..<4]. \<Sum>lane \<leftarrow> [0..<8]. \<bar>iq2_lane w a grp lg lane\<bar>) \<le>
        int (length (filter (\<lambda>lg. lg div 2 = half) [0..<4])) * (8 * 32640)"
      by (intro sum_list_bound) auto
    moreover have "length (filter (\<lambda>lg. lg div 2 = half) [0..<4]) = 2"
      using that by (auto simp: less_2_cases_iff groups_of_half)
    ultimately show ?thesis by simp
  qed
  have "\<bar>iq2_scale w grp half\<bar> * (\<Sum>lg \<leftarrow> filter (\<lambda>lg. lg div 2 = half) [0..<4]. \<Sum>lane \<leftarrow> [0..<8]. \<bar>iq2_lane w a grp lg lane\<bar>) \<le>
      255 * (2 * (8 * 32640))" if "half < 2" for grp half
  proof -
    have "0 \<le> (\<Sum>lane \<leftarrow> [0..<8]. \<bar>iq2_lane w a grp lg lane\<bar>)" for lg by (intro sum_list_nonneg) auto
    then show ?thesis using two [OF that] abs_factors(8) by (intro mult_mono sum_list_nonneg) auto
  qed
  then have "(\<Sum>half \<leftarrow> [0..<2]. \<bar>iq2_scale w grp half\<bar> *
      (\<Sum>lg \<leftarrow> filter (\<lambda>lg. lg div 2 = half) [0..<4]. \<Sum>lane \<leftarrow> [0..<8]. \<bar>iq2_lane w a grp lg lane\<bar>)) \<le>
      int (length [0..<2]) * (255 * (2 * (8 * 32640)))" for grp
    by (intro sum_list_bound) auto
  then show "(\<Sum>grp \<leftarrow> [0..<8]. \<Sum>half \<leftarrow> [0..<2]. \<bar>iq2_scale w grp half\<bar> *
      (\<Sum>lg \<leftarrow> filter (\<lambda>lg. lg div 2 = half) [0..<4]. \<Sum>lane \<leftarrow> [0..<8]. \<bar>iq2_lane w a grp lg lane\<bar>)) < 2 ^ 31"
    by (intro le_less_trans [OF sum_list_bound [where b = "int (length [0..<2]) * (255 * (2 * (8 * 32640)))"]]) auto
  have "\<bar>iq3_lane w a grp lg 0 lane\<bar> + \<bar>iq3_lane w a grp lg 1 lane\<bar> \<le> 2 * 32640" for grp lg lane
    using lanes(2) [of grp lg 0 lane] lanes(2) [of grp lg 1 lane] by simp
  then have "(\<Sum>lane \<leftarrow> [0..<4]. \<bar>iq3_lane w a grp lg 0 lane\<bar> + \<bar>iq3_lane w a grp lg 1 lane\<bar>) \<le>
      int (length [0..<4]) * (2 * 32640)" for grp lg
    by (intro sum_list_bound) auto
  then have "(\<Sum>lg \<leftarrow> [0..<4]. \<Sum>lane \<leftarrow> [0..<4]. \<bar>iq3_lane w a grp lg 0 lane\<bar> + \<bar>iq3_lane w a grp lg 1 lane\<bar>) \<le>
      int (length [0..<4]) * (int (length [0..<4]) * (2 * 32640))" for grp
    by (intro sum_list_bound) auto
  then have "(\<Sum>lg \<leftarrow> [0..<4]. \<Sum>lane \<leftarrow> [0..<4]. \<bar>iq3_lane w a grp lg 0 lane\<bar> + \<bar>iq3_lane w a grp lg 1 lane\<bar>) *
      \<bar>iq3_scale w pair half\<bar> \<le> 1044480 * 255" for grp pair half
    using abs_factors(9) by (intro mult_mono) auto
  then have "(\<Sum>half \<leftarrow> [0..<2]. (\<Sum>lg \<leftarrow> [0..<4]. \<Sum>lane \<leftarrow> [0..<4]. \<bar>iq3_lane w a (pair * 2 + half) lg 0 lane\<bar> +
      \<bar>iq3_lane w a (pair * 2 + half) lg 1 lane\<bar>) * \<bar>iq3_scale w pair half\<bar>) \<le> int (length [0..<2]) * (1044480 * 255)" for pair
    by (intro sum_list_bound) auto
  then show "(\<Sum>pair \<leftarrow> [0..<4]. \<Sum>half \<leftarrow> [0..<2].
      (\<Sum>lg \<leftarrow> [0..<4]. \<Sum>lane \<leftarrow> [0..<4]. \<bar>iq3_lane w a (pair * 2 + half) lg 0 lane\<bar> + \<bar>iq3_lane w a (pair * 2 + half) lg 1 lane\<bar>) *
        \<bar>iq3_scale w pair half\<bar>) < 2 ^ 31"
    by (intro le_less_trans [OF sum_list_bound [where b = "int (length [0..<2]) * (1044480 * 255)"]]) auto
qed

end
