(* ===== verification/Q8_Quantize.thy ===== *)
theory Q8_Quantize
  imports Q8_Dot
begin

text \<open>
  Quantisation of activation rows to \<^verbatim>\<open>Q8_K\<close> blocks (\<^verbatim>\<open>quantize_row_q8_k_into\<close> and \<^verbatim>\<open>nearest_int\<close> of
  \<^verbatim>\<open>bridge-quant-layout/src/q8_k.rs\<close>), as the release build runs it; \<^verbatim>\<open>nearest_int_asserted\<close> is the
  condition of its \<^verbatim>\<open>debug_assert\<close>.
\<close>

section \<open>Definitions\<close>

text \<open>Adding \<^verbatim>\<open>1.5 * 2^23\<close> leaves the rounded integer in the low bits of the significand.\<close>

definition nearest_int :: "f32 \<Rightarrow> int" where
  "nearest_int value = int (unat (f32_add value 0x4b400000 AND 0x007fffff)) - 0x00400000"

definition nearest_int_asserted :: "f32 \<Rightarrow> bool" where
  "nearest_int_asserted value \<longleftrightarrow> f32_le (f32_abs value) 0x4a7ffffc"

text \<open>The value of largest magnitude, with its sign, and that magnitude.\<close>

definition extreme_value :: "f32 list \<Rightarrow> f32 \<times> f32" where
  "extreme_value vs =
     fold (\<lambda>v (mx, absolute_max). if f32_lt absolute_max (f32_abs v) then (v, f32_abs v) else (mx, absolute_max))
       vs (f32_zero, f32_zero)"

definition quant_lane :: "f32 \<Rightarrow> f32 \<Rightarrow> byte" where
  "quant_lane inverse_scale v = word_of_int (min (nearest_int (f32_mul inverse_scale v)) 127)"

definition lane_group_sum :: "byte list \<Rightarrow> nat \<Rightarrow> int" where
  "lane_group_sum quants grp = (\<Sum>lane \<leftarrow> [0..<16]. sint (quants ! (grp * 16 + lane)))"

definition i16_to_le :: "int \<Rightarrow> byte list" where
  "i16_to_le v = le_bytes 2 (unat (word_of_int v :: 16 word))"

definition quantize_block :: "f32 list \<Rightarrow> byte list" where
  "quantize_block vs =
     (let (mx, absolute_max) = extreme_value vs
      in if f32_eq absolute_max f32_zero then replicate 292 0
         else let inverse_scale = f32_div (f32_of_int (-127)) mx;
                  quants = map (quant_lane inverse_scale) vs
           in f32_to_le (f32_div f32_one inverse_scale) @ quants @
              concat (map (\<lambda>grp. i16_to_le (lane_group_sum quants grp)) [0..<16]))"

fun finite_activations :: "nat \<Rightarrow> f32 list \<Rightarrow> quant_error + unit" where
  "finite_activations index [] = Inr ()"
| "finite_activations index (v # vs) =
     (if f32_is_finite v then finite_activations (Suc index) vs else Inl (NonFiniteActivation index v))"

definition quantize_row_q8_k :: "f32 list \<Rightarrow> nat \<Rightarrow> quant_error + byte list" where
  "quantize_row_q8_k input encoded_length =
     rbind (validate_logical_elements Q8_K (length input)) (\<lambda>count.
     rbind (checked_bytes count 292 ''Q8_K encoded row length'') (\<lambda>expected.
     if encoded_length \<noteq> expected then Inl (EncodedLengthMismatch Q8_K expected encoded_length)
     else rbind (finite_activations 0 input) (\<lambda>_.
       Inr (concat (map (\<lambda>i. quantize_block (take 256 (drop (i * 256) input))) [0..<count])))))"

section \<open>The shape of a block\<close>

text \<open>The \<^verbatim>\<open>expect\<close> on the conversion of a group sum to \<^verbatim>\<open>i16\<close> cannot fail.\<close>

lemma lane_group_sum_bounds: "- 2048 \<le> lane_group_sum quants grp \<and> lane_group_sum quants grp \<le> 2032"
proof -
  have "(\<Sum>lane \<leftarrow> [0..<16]. sint (quants ! (grp * 16 + lane))) \<le> int (length [0..<16]) * 127"
    using sint_byte by (intro sum_list_bound) auto
  moreover have "(\<Sum>lane \<leftarrow> [0..<16]. - sint (quants ! (grp * 16 + lane))) \<le> int (length [0..<16]) * 128"
    using sint_byte(1) by (intro sum_list_bound) (auto simp: le_minus_iff minus_le_iff [of _ 128])
  ultimately show ?thesis by (simp add: lane_group_sum_def uminus_sum_list_map [symmetric, unfolded comp_def])
qed

lemma length_quantize_block: "length vs = 256 \<Longrightarrow> length (quantize_block vs) = 292"
  by (simp add: quantize_block_def Let_def i16_to_le_def length_concat comp_def sum_list_triv f32_codec.enc_length
      split: prod.split)

end
