(* ===== verification/Kernel_Matrix.thy ===== *)
theory Kernel_Matrix
  imports Q8_Quantize Kv_Append
begin

text \<open>
  Packed matrices and matrix-vector products of \<^verbatim>\<open>crates/bridge-kernels-reference\<close> (\<^verbatim>\<open>error.rs\<close>,
  \<^verbatim>\<open>matrix.rs\<close>, \<^verbatim>\<open>gemv.rs\<close>). A kernel that writes a caller's slice is a function that returns the written
  values; a slice that it only fills and reads itself (decoded blocks, the \<^verbatim>\<open>Q8_K\<close> row) enters with its
  length. The rows of the parallel loops are independent and are computed in order.
\<close>

section \<open>Errors\<close>

text \<open>\<^verbatim>\<open>KernelError\<close>; the routing message is the routing error itself.\<close>

datatype routing_error =
    RoutingLength string nat nat
  | RoutingTopK nat nat
  | NonFiniteRoutingValue string nat f32

datatype kernel_error =
    KBigEndianPayload
  | KTensorRank nat nat
  | KZeroDimension nat
  | KShapeRankTooLarge nat nat
  | KUnsupportedType ggml_type
  | KArithmeticOverflow string
  | KEncodedLengthMismatch nat nat
  | KDimensionMismatch string nat nat
  | KScratchTooSmall string nat nat
  | KNonFiniteValue string nat f32
  | KRoutedExpertOrder nat nat
  | KDuplicateRoutedExpert nat
  | KInvalidParameter string string
  | KAllocationFailed string nat
  | KRouting routing_error
  | KPositionOutOfRange nat nat
  | KQuant quant_error
  | KKv kv_error

text \<open>The three local helpers \<^verbatim>\<open>require_equal\<close>, \<^verbatim>\<open>validate_finite_value\<close> and \<^verbatim>\<open>validate_finite_slice\<close>.\<close>

definition require_equal :: "string \<Rightarrow> nat \<Rightarrow> nat \<Rightarrow> kernel_error + unit" where
  "require_equal field expected actual =
     (if expected = actual then Inr () else Inl (KDimensionMismatch field expected actual))"

definition finite_value :: "string \<Rightarrow> nat \<Rightarrow> f32 \<Rightarrow> kernel_error + unit" where
  "finite_value field index v = (if f32_is_finite v then Inr () else Inl (KNonFiniteValue field index v))"

fun finite_from :: "string \<Rightarrow> nat \<Rightarrow> f32 list \<Rightarrow> kernel_error + unit" where
  "finite_from field index [] = Inr ()"
| "finite_from field index (v # vs) = rbind (finite_value field index v) (\<lambda>_. finite_from field (Suc index) vs)"

definition finite_slice :: "string \<Rightarrow> f32 list \<Rightarrow> kernel_error + unit" where
  "finite_slice field vs = finite_from field 0 vs"

section \<open>Matrices\<close>

datatype payload_endian = PayloadLittle | PayloadBig

record encoded_view =
  ev_ty :: ggml_type
  ev_endian :: payload_endian
  ev_shape :: "nat list"
  ev_bytes :: "byte list"

definition fixed_row_bytes :: "ggml_type \<Rightarrow> string \<Rightarrow> nat \<Rightarrow> kernel_error + nat" where
  "fixed_row_bytes ty field width =
     (case row_size ty width of
        Inl _ \<Rightarrow> Inl (KDimensionMismatch field (block_size ty) width)
      | Inr bytes \<Rightarrow> Inr bytes)"

fun row_count_of :: "nat \<Rightarrow> nat list \<Rightarrow> kernel_error + nat" where
  "row_count_of acc [] = Inr acc"
| "row_count_of acc (d # ds) =
     rbind (ok_or (KArithmeticOverflow ''tensor row count'') (checked_mul acc d)) (\<lambda>n. row_count_of n ds)"

definition encoded_view_new :: "ggml_type \<Rightarrow> payload_endian \<Rightarrow> nat list \<Rightarrow> byte list \<Rightarrow> kernel_error + encoded_view" where
  "encoded_view_new ty endian shape bytes =
     (if shape = [] \<or> 3 < length shape then Inl (KShapeRankTooLarge 3 (length shape))
      else case find (\<lambda>d. shape ! d = 0) [0..<length shape] of
        Some d \<Rightarrow> Inl (KZeroDimension d)
      | None \<Rightarrow>
          rbind (fixed_row_bytes ty ''block-aligned leading tensor dimension'' (hd shape)) (\<lambda>row_bytes.
          rbind (row_count_of 1 (tl shape)) (\<lambda>row_count.
          rbind (ok_or (KArithmeticOverflow ''tensor encoded byte length'') (checked_mul row_bytes row_count)) (\<lambda>expected.
          if length bytes \<noteq> expected then Inl (KEncodedLengthMismatch expected (length bytes))
          else Inr \<lparr>ev_ty = ty, ev_endian = endian, ev_shape = shape, ev_bytes = bytes\<rparr>))))"

record packed_matrix =
  pm_ty :: ggml_type
  pm_input_width :: nat
  pm_output_width :: nat
  pm_row_bytes :: nat
  pm_bytes :: "byte list"

definition packed_new :: "encoded_view \<Rightarrow> kernel_error + packed_matrix" where
  "packed_new v =
     (if ev_endian v \<noteq> PayloadLittle then Inl KBigEndianPayload
      else if length (ev_shape v) \<noteq> 2 then Inl (KTensorRank 2 (length (ev_shape v)))
      else if ev_ty v \<notin> {F32, Q4_K, Q5_K, IQ2_S, IQ3_S} then Inl (KUnsupportedType (ev_ty v))
      else rbind (fixed_row_bytes (ev_ty v) ''block-aligned matrix input width'' (ev_shape v ! 0)) (\<lambda>row_bytes.
        Inr \<lparr>pm_ty = ev_ty v, pm_input_width = ev_shape v ! 0, pm_output_width = ev_shape v ! 1,
             pm_row_bytes = row_bytes, pm_bytes = ev_bytes v\<rparr>))"

definition from_parts :: "ggml_type \<Rightarrow> payload_endian \<Rightarrow> nat \<Rightarrow> nat \<Rightarrow> byte list \<Rightarrow> kernel_error + packed_matrix" where
  "from_parts ty endian input_width output_width bytes =
     rbind (encoded_view_new ty endian [input_width, output_width] bytes) packed_new"

definition matrix_row :: "packed_matrix \<Rightarrow> nat \<Rightarrow> byte list" where
  "matrix_row m index = take (pm_row_bytes m) (drop (index * pm_row_bytes m) (pm_bytes m))"

section \<open>Matrix-vector products\<close>

datatype execution_mode = DequantF32 | LlamaQ8K | CpuParallelQ8K

definition required_q8_k_bytes :: "nat \<Rightarrow> kernel_error + nat" where
  "required_q8_k_bytes width =
     (if width = 0 \<or> width mod 256 \<noteq> 0 then Inl (KDimensionMismatch ''Q8_K input width'' 256 width)
      else ok_or (KArithmeticOverflow ''Q8_K scratch byte length'') (checked_mul (width div 256) 292))"

definition validate_dimensions :: "packed_matrix \<Rightarrow> f32 list \<Rightarrow> nat \<Rightarrow> kernel_error + unit" where
  "validate_dimensions m input output_length =
     rbind (require_equal ''GEMV input'' (pm_input_width m) (length input)) (\<lambda>_.
     rbind (require_equal ''GEMV output'' (pm_output_width m) output_length) (\<lambda>_.
     finite_slice ''GEMV input'' input))"

text \<open>The blocks of a row, and their values.\<close>

definition decode_matrix_block :: "packed_matrix \<Rightarrow> quant_layout \<Rightarrow> nat \<Rightarrow> nat \<Rightarrow> kernel_error + f32 list" where
  "decode_matrix_block m l row block =
     map_err KQuant (decode_block (pm_ty m)
       (take (block_bytes l) (drop (block * block_bytes l) (matrix_row m row))) (block_elements l))"

definition prepare_dequant :: "packed_matrix \<Rightarrow> f32 list \<Rightarrow> nat \<Rightarrow> nat \<Rightarrow> kernel_error + unit" where
  "prepare_dequant m input output_length decoded_length =
     rbind (validate_dimensions m input output_length) (\<lambda>_.
     rbind (map_err KQuant (quant_layout_of (pm_ty m))) (\<lambda>l.
     if decoded_length < block_elements l
       then Inl (KScratchTooSmall ''decoded block'' (block_elements l) decoded_length)
     else rbind (map_res (\<lambda>row. map_res (\<lambda>block.
            rbind (decode_matrix_block m l row block) (\<lambda>decoded. finite_slice ''GEMV weights'' decoded))
            [0..<pm_input_width m div block_elements l]) [0..<pm_output_width m]) (\<lambda>_. Inr ())))"

definition dot_values :: "f32 list \<Rightarrow> f32 list \<Rightarrow> f32" where
  "dot_values ws xs = fold (\<lambda>(w, x) sum. f32_add sum (f32_mul w x)) (zip ws xs) f32_zero"

definition dot_f32_row :: "packed_matrix \<Rightarrow> nat \<Rightarrow> f32 list \<Rightarrow> kernel_error + f32" where
  "dot_f32_row m row input =
     (if pm_ty m \<noteq> F32 then Inl (KUnsupportedType (pm_ty m))
      else Inr (dot_values (map (\<lambda>lane. f32_at (matrix_row m row) (lane * 4)) [0..<length input]) input))"

definition dot_dequant_row :: "packed_matrix \<Rightarrow> nat \<Rightarrow> f32 list \<Rightarrow> kernel_error + f32" where
  "dot_dequant_row m row input =
     rbind (map_err KQuant (quant_layout_of (pm_ty m))) (\<lambda>l.
     rbind (map_res (decode_matrix_block m l row) [0..<pm_input_width m div block_elements l]) (\<lambda>blocks.
     Inr (dot_values (concat blocks) input)))"

definition gemv_dequant_f32 :: "packed_matrix \<Rightarrow> f32 list \<Rightarrow> nat \<Rightarrow> nat \<Rightarrow> kernel_error + f32 list" where
  "gemv_dequant_f32 m input output_length decoded_length =
     rbind (prepare_dequant m input output_length decoded_length) (\<lambda>_.
     map_res (\<lambda>row. dot_dequant_row m row input) [0..<output_length])"

definition prepare_llama_q8k :: "packed_matrix \<Rightarrow> f32 list \<Rightarrow> nat \<Rightarrow> nat \<Rightarrow> kernel_error + byte list" where
  "prepare_llama_q8k m input output_length q8_length =
     rbind (validate_dimensions m input output_length) (\<lambda>_.
     if pm_ty m \<notin> {Q4_K, Q5_K, IQ2_S, IQ3_S} then Inl (KUnsupportedType (pm_ty m))
     else rbind (required_q8_k_bytes (pm_input_width m)) (\<lambda>required.
       if q8_length < required then Inl (KScratchTooSmall ''Q8_K row'' required q8_length)
       else rbind (map_err KQuant (quantize_row_q8_k input required)) (\<lambda>q8.
         rbind (map_res (\<lambda>row. map_err KQuant
             (validate_vec_dot_q8_k_inner (pm_ty m) (matrix_row m row) q8 (pm_input_width m)))
           [0..<pm_output_width m]) (\<lambda>_. Inr q8))))"

definition gemv_llama_q8k :: "packed_matrix \<Rightarrow> f32 list \<Rightarrow> nat \<Rightarrow> nat \<Rightarrow> kernel_error + f32 list" where
  "gemv_llama_q8k m input output_length q8_length =
     rbind (prepare_llama_q8k m input output_length q8_length) (\<lambda>q8.
     map_res (\<lambda>row. map_err KQuant (vec_dot_q8_k (pm_ty m) (matrix_row m row) q8 (pm_input_width m))) [0..<output_length])"

definition gemv_cpu_parallel_q8k :: "bool \<Rightarrow> packed_matrix \<Rightarrow> f32 list \<Rightarrow> nat \<Rightarrow> nat \<Rightarrow> kernel_error + f32 list" where
  "gemv_cpu_parallel_q8k avx2 m input output_length q8_length =
     rbind (prepare_llama_q8k m input output_length q8_length) (\<lambda>q8.
     map_res (\<lambda>row. map_err KQuant (vec_dot_q8_k_cpu avx2 (pm_ty m) (matrix_row m row) q8 (pm_input_width m)))
       [0..<output_length])"

definition gemv_cpu_parallel_f32 :: "packed_matrix \<Rightarrow> f32 list \<Rightarrow> nat \<Rightarrow> nat \<Rightarrow> kernel_error + f32 list" where
  "gemv_cpu_parallel_f32 m input output_length decoded_length =
     rbind (prepare_dequant m input output_length decoded_length) (\<lambda>_.
     map_res (\<lambda>row. dot_f32_row m row input) [0..<output_length])"

text \<open>The lengths of the two work buffers, and whether the processor has AVX2.\<close>

record gemv_env =
  decoded_length :: nat
  q8_length :: nat
  avx2_detected :: bool

definition gemv :: "gemv_env \<Rightarrow> execution_mode \<Rightarrow> packed_matrix \<Rightarrow> f32 list \<Rightarrow> nat \<Rightarrow> kernel_error + f32 list" where
  "gemv env mode m input output_length =
     (if pm_ty m = F32
      then if mode = CpuParallelQ8K then gemv_cpu_parallel_f32 m input output_length (decoded_length env)
           else gemv_dequant_f32 m input output_length (decoded_length env)
      else case mode of
        DequantF32 \<Rightarrow> gemv_dequant_f32 m input output_length (decoded_length env)
      | LlamaQ8K \<Rightarrow> gemv_llama_q8k m input output_length (q8_length env)
      | CpuParallelQ8K \<Rightarrow> gemv_cpu_parallel_q8k (avx2_detected env) m input output_length (q8_length env))"

text \<open>\<^verbatim>\<open>destination += scale * row\<close> for every row, in one of five ways of computing a row.\<close>

definition accumulate_rows :: "f32 \<Rightarrow> f32 list \<Rightarrow> (nat \<Rightarrow> kernel_error + f32) \<Rightarrow> kernel_error + f32 list" where
  "accumulate_rows scale destination row_dot =
     map_res (\<lambda>row. rbind (row_dot row) (\<lambda>v. Inr (f32_add (destination ! row) (f32_mul scale v))))
       [0..<length destination]"

definition gemv_accumulate_scaled ::
  "gemv_env \<Rightarrow> execution_mode \<Rightarrow> packed_matrix \<Rightarrow> f32 list \<Rightarrow> f32 list \<Rightarrow> f32 \<Rightarrow> kernel_error + f32 list" where
  "gemv_accumulate_scaled env mode m input destination scale =
     rbind (finite_value ''accumulation scale'' 0 scale) (\<lambda>_.
     rbind (finite_slice ''destination'' destination) (\<lambda>_.
     if pm_ty m = F32
     then rbind (prepare_dequant m input (length destination) (decoded_length env)) (\<lambda>_.
       accumulate_rows scale destination (\<lambda>row. dot_f32_row m row input))
     else case mode of
       DequantF32 \<Rightarrow> rbind (prepare_dequant m input (length destination) (decoded_length env)) (\<lambda>_.
         accumulate_rows scale destination (\<lambda>row. dot_dequant_row m row input))
     | LlamaQ8K \<Rightarrow> rbind (prepare_llama_q8k m input (length destination) (q8_length env)) (\<lambda>q8.
         accumulate_rows scale destination (\<lambda>row.
           map_err KQuant (vec_dot_q8_k (pm_ty m) (matrix_row m row) q8 (pm_input_width m))))
     | CpuParallelQ8K \<Rightarrow> rbind (prepare_llama_q8k m input (length destination) (q8_length env)) (\<lambda>q8.
         accumulate_rows scale destination (\<lambda>row.
           map_err KQuant (vec_dot_q8_k_cpu (avx2_detected env) (pm_ty m) (matrix_row m row) q8 (pm_input_width m))))))"

section \<open>The parallel mode\<close>

lemma finite_from_Inr: "finite_from field i vs = Inr u \<longleftrightarrow> (\<forall>v \<in> set vs. f32_is_finite v)"
  by (induction vs arbitrary: i) (auto simp: rbind_Inr finite_value_def)

lemma finite_slice_Inr [result_simps]: "finite_slice field vs = Inr u \<longleftrightarrow> (\<forall>v \<in> set vs. f32_is_finite v)"
  by (simp add: finite_slice_def finite_from_Inr)

lemma require_equal_Inr [result_simps]: "require_equal field a b = Inr u \<longleftrightarrow> a = b"
  by (simp add: require_equal_def)

lemma map_res_cong: "(\<And>x. x \<in> set xs \<Longrightarrow> f x = g x) \<Longrightarrow> map_res f xs = map_res g xs"
  by (induction xs) auto

lemma map_res_elem: "map_res f xs = Inr ys \<Longrightarrow> x \<in> set xs \<Longrightarrow> \<exists>y \<in> set ys. f x = Inr y"
  by (induction xs arbitrary: ys) (auto simp: rbind_Inr)

lemma map_res_map: "(\<And>x. x \<in> set xs \<Longrightarrow> f x = Inr (g x)) \<Longrightarrow> map_res f xs = Inr (map g xs)"
  by (induction xs) auto

lemma f32_layout: "quant_layout_of F32 = Inr \<lparr>ql_ty = F32, block_elements = 1, block_bytes = 4\<rparr>"
  by (simp add: quant_layout_of_Inr expected_layout_def)

lemma decode_f32_block: "decode_block F32 bs 1 = Inr ys \<longleftrightarrow> length bs = 4 \<and> ys = [f32_of_le bs]"
  by (subst decode_block_Inr [where e = 1 and b = 4])
     (auto simp: expected_layout_def validate_scales_def decode_validated_block_def decode_f32_validated_def)

text \<open>A prepared single-precision matrix has the same row products in both routines.\<close>

lemma f32_rows_agree:
  assumes m: "pm_ty m = F32" and p: "prepare_dequant m input n d = Inr u" and row: "row < n"
  shows "dot_dequant_row m row input = dot_f32_row m row input"
proof -
  have w: "pm_input_width m = length input" "pm_output_width m = n"
    using p by (auto simp: prepare_dequant_def validate_dimensions_def rbind_Inr require_equal_Inr)
  let ?l = "\<lparr>ql_ty = F32, block_elements = 1, block_bytes = 4\<rparr>"
  have dec: "decode_matrix_block m ?l row block = Inr [f32_at (matrix_row m row) (block * 4)]"
    if "block < length input" for block
  proof -
    from p obtain units where "map_res (\<lambda>row. map_res (\<lambda>block. rbind (decode_matrix_block m ?l row block)
        (finite_slice ''GEMV weights'')) [0..<length input]) [0..<n] = Inr units"
      by (auto simp: prepare_dequant_def rbind_Inr m f32_layout w split: if_splits)
    from map_res_elem [OF this, of row] row obtain us where
      "map_res (\<lambda>block. rbind (decode_matrix_block m ?l row block) (finite_slice ''GEMV weights'')) [0..<length input] = Inr us"
      by auto
    from map_res_elem [OF this, of block] that obtain ws where d: "decode_matrix_block m ?l row block = Inr ws"
      by (auto simp: rbind_Inr)
    then have "ws = [f32_at (matrix_row m row) (block * 4)]"
      using decode_f32_block [of "take 4 (drop (block * 4) (matrix_row m row))" ws]
      by (simp add: decode_matrix_block_def m f32_at_def)
    with d show ?thesis by simp
  qed
  have "map_res (decode_matrix_block m ?l row) [0..<length input] =
      Inr (map (\<lambda>block. [f32_at (matrix_row m row) (block * 4)]) [0..<length input])"
    by (rule map_res_map) (use dec in auto)
  then show ?thesis by (simp add: dot_dequant_row_def dot_f32_row_def m f32_layout w concat_map_singleton)
qed

lemma gemv_modes_eq: "gemv env CpuParallelQ8K m input n = gemv env LlamaQ8K m input n"
proof (cases "pm_ty m = F32")
  case True
  have "rbind (prepare_dequant m input n d) (\<lambda>_. map_res (\<lambda>row. dot_f32_row m row input) [0..<n]) =
      rbind (prepare_dequant m input n d) (\<lambda>_. map_res (\<lambda>row. dot_dequant_row m row input) [0..<n])" for d
    using f32_rows_agree [OF True] by (cases "prepare_dequant m input n d") (auto intro!: map_res_cong)
  then show ?thesis by (simp add: gemv_def True gemv_cpu_parallel_f32_def gemv_dequant_f32_def)
qed (simp add: gemv_def gemv_cpu_parallel_q8k_def gemv_llama_q8k_def vec_dot_cpu_eq)

lemma gemv_accumulate_modes_eq:
  "gemv_accumulate_scaled env CpuParallelQ8K m input destination scale =
   gemv_accumulate_scaled env LlamaQ8K m input destination scale"
  by (simp add: gemv_accumulate_scaled_def vec_dot_cpu_eq)

lemma gemv_length: "gemv env mode m input n = Inr out \<Longrightarrow> length out = n \<and> pm_output_width m = n \<and> pm_input_width m = length input"
  by (cases mode)
     (auto simp: gemv_def gemv_cpu_parallel_f32_def gemv_dequant_f32_def gemv_cpu_parallel_q8k_def gemv_llama_q8k_def
        prepare_dequant_def prepare_llama_q8k_def validate_dimensions_def rbind_Inr require_equal_Inr map_res_Inr
        split: if_splits dest!: list_all2_lengthD)

end
