(* ===== verification/Kernel_Ops.thy ===== *)
theory Kernel_Ops
  imports Kernel_Matrix
begin

text \<open>
  The token-wise kernels of \<^verbatim>\<open>crates/bridge-kernels-reference\<close>: RMS norms (\<^verbatim>\<open>norm.rs\<close>), softmax
  (\<^verbatim>\<open>softmax.rs\<close>), SwiGLU experts (\<^verbatim>\<open>activation.rs\<close>), rotary positions (\<^verbatim>\<open>rope.rs\<close>) and the mixture of
  experts (\<^verbatim>\<open>moe.rs\<close>). The functions of \<^verbatim>\<open>libm\<close> are arguments; they need not be correctly rounded.
\<close>

record libm =
  lm_exp :: "f32 \<Rightarrow> f32"
  lm_ln :: "f32 \<Rightarrow> f32"
  lm_powf :: "f32 \<Rightarrow> f32 \<Rightarrow> f32"
  lm_sin :: "f32 \<Rightarrow> f32"
  lm_cos :: "f32 \<Rightarrow> f32"

definition f32_of_nat :: "nat \<Rightarrow> f32" where "f32_of_nat n = f32_of_int (int n)"

section \<open>Norms and residuals\<close>

definition rms_scale :: "f32 list \<Rightarrow> f32 \<Rightarrow> kernel_error + f32" where
  "rms_scale vs epsilon =
     (let sum = fold (\<lambda>v s. f32_add s (f32_mul v v)) vs f32_zero;
          mean = f32_div sum (f32_of_nat (length vs));
          scale = f32_div f32_one (f32_sqrt (f32_add mean epsilon))
      in rbind (finite_value ''RMSNorm scale'' 0 scale) (\<lambda>_. Inr scale))"

definition validate_epsilon :: "f32 \<Rightarrow> kernel_error + unit" where
  "validate_epsilon epsilon =
     rbind (finite_value ''RMSNorm epsilon'' 0 epsilon) (\<lambda>_.
     if f32_le epsilon f32_zero then Inl (KInvalidParameter ''RMSNorm epsilon'' ''must be greater than zero'')
     else Inr ())"

definition validate_norm_lengths :: "f32 list \<Rightarrow> f32 list \<Rightarrow> kernel_error + unit" where
  "validate_norm_lengths input weight =
     (if input = [] then Inl (KInvalidParameter ''RMSNorm input'' ''must not be empty'')
      else if length weight \<noteq> length input then Inl (KDimensionMismatch ''RMSNorm weight'' (length input) (length weight))
      else Inr ())"

definition normalized :: "f32 \<Rightarrow> f32 list \<Rightarrow> f32 list \<Rightarrow> f32 list" where
  "normalized scale vs weight = map2 (\<lambda>v w. f32_mul (f32_mul v scale) w) vs weight"

definition weighted_rms_norm :: "f32 list \<Rightarrow> f32 list \<Rightarrow> f32 \<Rightarrow> nat \<Rightarrow> kernel_error + f32 list" where
  "weighted_rms_norm input weight epsilon output_length =
     rbind (validate_norm_lengths input weight) (\<lambda>_.
     if output_length \<noteq> length input then Inl (KDimensionMismatch ''RMSNorm output'' (length input) output_length)
     else rbind (validate_epsilon epsilon) (\<lambda>_.
       rbind (finite_slice ''RMSNorm input'' input) (\<lambda>_.
       rbind (finite_slice ''RMSNorm weight'' weight) (\<lambda>_.
       rbind (rms_scale input epsilon) (\<lambda>scale.
       rbind (finite_slice ''RMSNorm output'' (normalized scale input weight)) (\<lambda>_.
       Inr (normalized scale input weight)))))))"

definition weighted_rms_norm_in_place :: "f32 list \<Rightarrow> f32 list \<Rightarrow> f32 \<Rightarrow> kernel_error + f32 list" where
  "weighted_rms_norm_in_place vs weight epsilon =
     rbind (validate_norm_lengths vs weight) (\<lambda>_.
     rbind (validate_epsilon epsilon) (\<lambda>_.
     rbind (finite_slice ''RMSNorm input'' vs) (\<lambda>_.
     rbind (finite_slice ''RMSNorm weight'' weight) (\<lambda>_.
     rbind (rms_scale vs epsilon) (\<lambda>scale.
     rbind (finite_slice ''RMSNorm output'' (normalized scale vs weight)) (\<lambda>_.
     Inr (normalized scale vs weight)))))))"

definition chunks :: "nat \<Rightarrow> 'a list \<Rightarrow> 'a list list" where
  "chunks d xs = map (\<lambda>i. take d (drop (i * d) xs)) [0..<length xs div d]"

definition weighted_head_rms_norm :: "f32 list \<Rightarrow> f32 list \<Rightarrow> nat \<Rightarrow> f32 \<Rightarrow> kernel_error + f32 list" where
  "weighted_head_rms_norm vs weight head_dimension epsilon =
     (if head_dimension = 0 then Inl (KInvalidParameter ''head_dimension'' ''must be greater than zero'')
      else if length weight \<noteq> head_dimension
        then Inl (KDimensionMismatch ''per-head RMSNorm weight'' head_dimension (length weight))
      else if length vs mod head_dimension \<noteq> 0
        then Inl (KDimensionMismatch ''per-head RMSNorm values'' head_dimension (length vs))
      else rbind (validate_epsilon epsilon) (\<lambda>_.
        rbind (finite_slice ''per-head RMSNorm input'' vs) (\<lambda>_.
        rbind (finite_slice ''per-head RMSNorm weight'' weight) (\<lambda>_.
        rbind (map_res (\<lambda>head. rbind (rms_scale head epsilon) (\<lambda>scale.
            rbind (finite_slice ''per-head RMSNorm output'' (normalized scale head weight)) (\<lambda>_.
            Inr (normalized scale head weight)))) (chunks head_dimension vs)) (\<lambda>heads.
        Inr (concat heads))))))"

definition residual_add :: "f32 list \<Rightarrow> f32 list \<Rightarrow> kernel_error + f32 list" where
  "residual_add destination residual =
     (if length destination \<noteq> length residual
        then Inl (KDimensionMismatch ''residual'' (length destination) (length residual))
      else rbind (finite_slice ''residual destination'' destination) (\<lambda>_.
        rbind (finite_slice ''residual source'' residual) (\<lambda>_.
        rbind (finite_slice ''residual output'' (map2 f32_add destination residual)) (\<lambda>_.
        Inr (map2 f32_add destination residual)))))"

section \<open>Softmax\<close>

definition f32_maximum :: "f32 list \<Rightarrow> f32" where
  "f32_maximum vs = fold (\<lambda>v m. f32_max m v) vs f32_neg_inf"

definition causal_softmax :: "libm \<Rightarrow> f32 list \<Rightarrow> nat \<Rightarrow> nat \<Rightarrow> kernel_error + f32 list" where
  "causal_softmax m logits unmasked output_length =
     (if output_length \<noteq> length logits then Inl (KDimensionMismatch ''softmax output'' (length logits) output_length)
      else if length logits < unmasked then Inl (KDimensionMismatch ''softmax unmasked prefix'' (length logits) unmasked)
      else rbind (finite_slice ''softmax logits'' (take unmasked logits)) (\<lambda>_.
        if unmasked = 0 then Inr (replicate output_length f32_zero)
        else let maximum = f32_maximum (take unmasked logits);
                 es = map (\<lambda>x. lm_exp m (f32_sub x maximum)) (take unmasked logits);
                 sum = fold (\<lambda>e s. f32_add s e) es f32_zero
             in rbind (finite_value ''softmax denominator'' 0 sum) (\<lambda>_.
                if f32_eq sum f32_zero then Inl (KInvalidParameter ''softmax denominator'' ''must be greater than zero'')
                else Inr (map (\<lambda>e. f32_div e sum) es @ replicate (output_length - unmasked) f32_zero))))"

definition softmax :: "libm \<Rightarrow> f32 list \<Rightarrow> nat \<Rightarrow> kernel_error + f32 list" where
  "softmax m logits output_length = causal_softmax m logits (length logits) output_length"

section \<open>SwiGLU experts\<close>

record swiglu_expert =
  sg_gate :: packed_matrix
  sg_up :: packed_matrix
  sg_down :: packed_matrix

definition swiglu_expert_new :: "packed_matrix \<Rightarrow> packed_matrix \<Rightarrow> packed_matrix \<Rightarrow> kernel_error + swiglu_expert" where
  "swiglu_expert_new g u d =
     rbind (require_equal ''SwiGLU gate/up input width'' (pm_input_width g) (pm_input_width u)) (\<lambda>_.
     rbind (require_equal ''SwiGLU gate/up hidden width'' (pm_output_width g) (pm_output_width u)) (\<lambda>_.
     rbind (require_equal ''SwiGLU down input width'' (pm_output_width g) (pm_input_width d)) (\<lambda>_.
     Inr \<lparr>sg_gate = g, sg_up = u, sg_down = d\<rparr>)))"

definition ex_input_width :: "swiglu_expert \<Rightarrow> nat" where "ex_input_width e = pm_input_width (sg_gate e)"
definition ex_hidden_width :: "swiglu_expert \<Rightarrow> nat" where "ex_hidden_width e = pm_output_width (sg_gate e)"
definition ex_output_width :: "swiglu_expert \<Rightarrow> nat" where "ex_output_width e = pm_output_width (sg_down e)"

text \<open>The work buffers of an expert: those of the products, and the one for the gate and up values.\<close>

record swiglu_env = gemv_env +
  activation_length :: nat

definition validate_expert_call :: "swiglu_env \<Rightarrow> swiglu_expert \<Rightarrow> nat \<Rightarrow> nat \<Rightarrow> kernel_error + unit" where
  "validate_expert_call env e input_length output_length =
     rbind (require_equal ''SwiGLU input'' (ex_input_width e) input_length) (\<lambda>_.
     rbind (require_equal ''SwiGLU output'' (ex_output_width e) output_length) (\<lambda>_.
     rbind (ok_or (KArithmeticOverflow ''SwiGLU gate/up scratch length'') (checked_mul (ex_hidden_width e) 2)) (\<lambda>required.
     if activation_length env < required
       then Inl (KScratchTooSmall ''SwiGLU gate/up'' required (activation_length env))
     else Inr ())))"

fun swiglu_from :: "libm \<Rightarrow> nat \<Rightarrow> (f32 \<times> f32) list \<Rightarrow> kernel_error + f32 list" where
  "swiglu_from m index [] = Inr []"
| "swiglu_from m index ((g, u) # rest) =
     (let activated = f32_div g (f32_add f32_one (lm_exp m (f32_neg g)));
          value = f32_mul activated u
      in rbind (finite_value ''SwiGLU activation'' index value) (\<lambda>_.
         rbind (swiglu_from m (Suc index) rest) (\<lambda>vs. Inr (value # vs))))"

definition apply_swiglu :: "libm \<Rightarrow> f32 list \<Rightarrow> f32 list \<Rightarrow> kernel_error + f32 list" where
  "apply_swiglu m gate up = swiglu_from m 0 (zip gate up)"

definition swiglu_hidden ::
  "swiglu_env \<Rightarrow> libm \<Rightarrow> execution_mode \<Rightarrow> swiglu_expert \<Rightarrow> f32 list \<Rightarrow> kernel_error + f32 list" where
  "swiglu_hidden env m mode e input =
     rbind (gemv (gemv_env.truncate env) mode (sg_gate e) input (ex_hidden_width e)) (\<lambda>gate_values.
     rbind (gemv (gemv_env.truncate env) mode (sg_up e) input (ex_hidden_width e)) (\<lambda>up_values.
     apply_swiglu m gate_values up_values))"

definition swiglu_project ::
  "swiglu_env \<Rightarrow> libm \<Rightarrow> execution_mode \<Rightarrow> swiglu_expert \<Rightarrow> f32 list \<Rightarrow> nat \<Rightarrow> kernel_error + f32 list" where
  "swiglu_project env m mode e input output_length =
     rbind (validate_expert_call env e (length input) output_length) (\<lambda>_.
     rbind (swiglu_hidden env m mode e input) (\<lambda>activated.
     gemv (gemv_env.truncate env) mode (sg_down e) activated output_length))"

definition expert_swiglu_accumulate ::
  "swiglu_env \<Rightarrow> libm \<Rightarrow> execution_mode \<Rightarrow> swiglu_expert \<Rightarrow> f32 list \<Rightarrow> f32 list \<Rightarrow> f32 \<Rightarrow> kernel_error + f32 list" where
  "expert_swiglu_accumulate env m mode e input destination coefficient =
     rbind (finite_value ''expert coefficient'' 0 coefficient) (\<lambda>_.
     rbind (validate_expert_call env e (length input) (length destination)) (\<lambda>_.
     rbind (swiglu_hidden env m mode e input) (\<lambda>activated.
     gemv_accumulate_scaled (gemv_env.truncate env) mode (sg_down e) activated destination coefficient)))"

section \<open>Rotary positions\<close>

record rope_params =
  rp_head_dimension :: nat
  rp_context_length :: nat
  rp_original_context_length :: nat
  rp_frequency_base :: f32
  rp_frequency_scale :: f32
  rp_extension_factor :: f32
  rp_attention_factor :: f32
  rp_beta_fast :: f32
  rp_beta_slow :: f32

definition rope_validate :: "rope_params \<Rightarrow> kernel_error + unit" where
  "rope_validate p =
     (if rp_head_dimension p = 0 \<or> rp_head_dimension p mod 2 \<noteq> 0
        then Inl (KInvalidParameter ''RoPE head dimension'' ''must be positive and even'')
      else if rp_context_length p = 0 \<or> rp_original_context_length p = 0
        then Inl (KInvalidParameter ''RoPE context'' ''must be positive'')
      else rbind (map_res (\<lambda>(field, v). finite_value field 0 v)
          [(''RoPE frequency base'', rp_frequency_base p), (''RoPE frequency scale'', rp_frequency_scale p),
           (''RoPE extension factor'', rp_extension_factor p), (''RoPE attention factor'', rp_attention_factor p),
           (''RoPE beta fast'', rp_beta_fast p), (''RoPE beta slow'', rp_beta_slow p)]) (\<lambda>_.
        if f32_le (rp_frequency_base p) f32_zero \<or> f32_le (rp_frequency_scale p) f32_zero \<or>
           f32_lt (rp_extension_factor p) f32_zero \<or> f32_le (rp_attention_factor p) f32_zero \<or>
           f32_le (rp_beta_fast p) f32_zero \<or> f32_le (rp_beta_slow p) f32_zero
        then Inl (KInvalidParameter ''RoPE parameters''
          ''base, scale, attention, and betas must be positive; extension must be non-negative'')
        else Inr ()))"

text \<open>\<^verbatim>\<open>std::f32::consts::PI\<close>, and the literals \<^verbatim>\<open>0.1\<close> and \<^verbatim>\<open>0.001\<close>.\<close>

definition f32_pi :: f32 where "f32_pi = 0x40490fdb"
definition f32_two :: f32 where "f32_two = 0x40000000"

definition rope_correction :: "libm \<Rightarrow> rope_params \<Rightarrow> f32 \<Rightarrow> f32" where
  "rope_correction m p rotations =
     f32_div (f32_mul (f32_of_nat (rp_head_dimension p))
         (lm_ln m (f32_div (f32_of_nat (rp_original_context_length p)) (f32_mul (f32_mul rotations f32_two) f32_pi))))
       (f32_mul f32_two (lm_ln m (rp_frequency_base p)))"

definition correction_dimensions :: "libm \<Rightarrow> rope_params \<Rightarrow> f32 \<times> f32" where
  "correction_dimensions m p =
     (f32_max (f32_floor (rope_correction m p (rp_beta_fast p))) f32_zero,
      f32_min (f32_ceil (rope_correction m p (rp_beta_slow p))) (f32_sub (f32_of_nat (rp_head_dimension p)) f32_one))"

definition f32_clamp :: "f32 \<Rightarrow> f32 \<Rightarrow> f32 \<Rightarrow> f32" where
  "f32_clamp x lo hi = (if f32_lt x lo then lo else if f32_lt hi x then hi else x)"

definition yarn_ramp :: "f32 \<Rightarrow> f32 \<Rightarrow> nat \<Rightarrow> f32" where
  "yarn_ramp low high i0 =
     (let interpolation = f32_div (f32_sub (f32_of_nat (i0 div 2)) low) (f32_max (f32_sub high low) 0x3a83126f)
      in f32_sub f32_one (f32_clamp interpolation f32_zero f32_one))"

definition magnitude_scale :: "libm \<Rightarrow> rope_params \<Rightarrow> f32" where
  "magnitude_scale m p =
     (if f32_eq (rp_extension_factor p) f32_zero then rp_attention_factor p
      else f32_mul (rp_attention_factor p)
        (f32_add f32_one (f32_mul 0x3dcccccd (lm_ln m (f32_div f32_one (rp_frequency_scale p))))))"

text \<open>The cosine and sine of every pair of a head, from the running extrapolated angle.\<close>

fun rope_angles :: "libm \<Rightarrow> rope_params \<Rightarrow> nat \<Rightarrow> nat \<Rightarrow> f32 \<Rightarrow> (f32 \<times> f32) list" where
  "rope_angles m p pair 0 theta_extrapolated = []"
| "rope_angles m p pair (Suc n) theta_extrapolated =
     (let theta_interpolated = f32_mul (rp_frequency_scale p) theta_extrapolated;
          ramp = yarn_ramp (fst (correction_dimensions m p)) (snd (correction_dimensions m p)) (pair * 2);
          mix = f32_mul ramp (rp_extension_factor p);
          theta = f32_add (f32_mul theta_interpolated (f32_sub f32_one mix)) (f32_mul theta_extrapolated mix);
          theta_scale = lm_powf m (rp_frequency_base p) (f32_div (f32_of_int (-2)) (f32_of_nat (rp_head_dimension p)))
      in (f32_mul (lm_cos m theta) (magnitude_scale m p), f32_mul (lm_sin m theta) (magnitude_scale m p)) #
         rope_angles m p (Suc pair) n (f32_mul theta_extrapolated theta_scale))"

definition rotate_pair :: "f32 \<times> f32 \<Rightarrow> f32 \<Rightarrow> f32 \<Rightarrow> f32 \<times> f32" where
  "rotate_pair angle first second =
     (f32_sub (f32_mul first (fst angle)) (f32_mul second (snd angle)),
      f32_add (f32_mul first (snd angle)) (f32_mul second (fst angle)))"

definition rope_head :: "(f32 \<times> f32) list \<Rightarrow> nat \<Rightarrow> f32 list \<Rightarrow> kernel_error + f32 list" where
  "rope_head angles half head =
     rbind (map_res (\<lambda>pair. let (a, b) = rotate_pair (angles ! pair) (head ! pair) (head ! (pair + half))
         in rbind (finite_value ''RoPE output'' pair a) (\<lambda>_.
            rbind (finite_value ''RoPE output'' (pair + half) b) (\<lambda>_. Inr (a, b)))) [0..<half]) (\<lambda>pairs.
     Inr (map fst pairs @ map snd pairs))"

definition apply_neox_yarn_rope ::
  "libm \<Rightarrow> f32 list \<Rightarrow> nat \<Rightarrow> nat \<Rightarrow> rope_params \<Rightarrow> kernel_error + f32 list" where
  "apply_neox_yarn_rope m vs head_count position p =
     rbind (rope_validate p) (\<lambda>_.
     if rp_context_length p \<le> position then Inl (KPositionOutOfRange position (rp_context_length p))
     else rbind (ok_or (KArithmeticOverflow ''RoPE head value count'') (checked_mul head_count (rp_head_dimension p))) (\<lambda>expected.
       if length vs \<noteq> expected then Inl (KDimensionMismatch ''RoPE values'' expected (length vs))
       else rbind (finite_slice ''RoPE input'' vs) (\<lambda>_.
         let half = rp_head_dimension p div 2;
             angles = rope_angles m p 0 half (f32_of_nat position)
         in rbind (map_res (rope_head angles half) (chunks (rp_head_dimension p) vs)) (\<lambda>heads. Inr (concat heads)))))"

section \<open>Mixture of experts\<close>

record routed_expert =
  re_expert_id :: nat
  re_coefficient :: f32

record selected_expert =
  se_expert_id :: nat
  se_coefficient :: f32
  se_expert :: swiglu_expert

text \<open>The ascending order of the identifiers, checked against the previous one.\<close>

definition order_check :: "nat option \<Rightarrow> nat \<Rightarrow> kernel_error + unit" where
  "order_check previous expert_id =
     (case previous of None \<Rightarrow> Inr ()
      | Some previous_id \<Rightarrow>
          if expert_id = previous_id then Inl (KDuplicateRoutedExpert expert_id)
          else if expert_id < previous_id then Inl (KRoutedExpertOrder previous_id expert_id)
          else Inr ())"

fun check_routed :: "swiglu_expert \<Rightarrow> nat option \<Rightarrow> selected_expert list \<Rightarrow> kernel_error + unit" where
  "check_routed shared previous [] = Inr ()"
| "check_routed shared previous (s # rest) =
     rbind (finite_value ''routed expert coefficient'' 0 (se_coefficient s)) (\<lambda>_.
     rbind (order_check previous (se_expert_id s)) (\<lambda>_.
     rbind (require_equal ''routed expert input width'' (ex_input_width shared) (ex_input_width (se_expert s))) (\<lambda>_.
     rbind (require_equal ''routed expert output width'' (ex_output_width shared) (ex_output_width (se_expert s))) (\<lambda>_.
     check_routed shared (Some (se_expert_id s)) rest))))"

definition moe_shape :: "nat \<Rightarrow> swiglu_expert \<Rightarrow> nat \<Rightarrow> nat \<Rightarrow> nat \<Rightarrow> kernel_error + unit" where
  "moe_shape routed_count shared input_length output_length preflight_length =
     (if routed_count = 0 then Inl (KDimensionMismatch ''selected routed expert count'' 1 0)
      else rbind (require_equal ''MoE input'' (ex_input_width shared) input_length) (\<lambda>_.
        rbind (require_equal ''MoE output'' (ex_output_width shared) output_length) (\<lambda>_.
        if preflight_length < output_length
          then Inl (KScratchTooSmall ''MoE preflight output'' output_length preflight_length)
        else Inr ())))"

definition validate_structure ::
  "selected_expert list \<Rightarrow> swiglu_expert \<Rightarrow> nat \<Rightarrow> nat \<Rightarrow> nat \<Rightarrow> kernel_error + unit" where
  "validate_structure routed shared input_length output_length preflight_length =
     rbind (moe_shape (length routed) shared input_length output_length preflight_length) (\<lambda>_.
     check_routed shared None routed)"

text \<open>The accepted pass: routed experts in order, then the shared expert with coefficient one.\<close>

definition accumulate_experts ::
  "swiglu_env \<Rightarrow> libm \<Rightarrow> execution_mode \<Rightarrow> (swiglu_expert \<times> f32) list \<Rightarrow> swiglu_expert \<Rightarrow> f32 list \<Rightarrow> nat \<Rightarrow>
    kernel_error + f32 list" where
  "accumulate_experts env m mode routed shared input output_length =
     rbind (fold_res (\<lambda>(e, coefficient) out. expert_swiglu_accumulate env m mode e input out coefficient) routed
       (replicate output_length f32_zero)) (\<lambda>out.
     expert_swiglu_accumulate env m mode shared input out f32_one)"

definition moe_selected ::
  "swiglu_env \<Rightarrow> libm \<Rightarrow> execution_mode \<Rightarrow> selected_expert list \<Rightarrow> swiglu_expert \<Rightarrow> f32 list \<Rightarrow> nat \<Rightarrow> nat \<Rightarrow>
    kernel_error + f32 list" where
  "moe_selected env m mode routed shared input output_length preflight_length =
     rbind (validate_structure routed shared (length input) output_length preflight_length) (\<lambda>_.
     rbind (map_res (\<lambda>s. rbind (swiglu_project env m mode (se_expert s) input output_length) (\<lambda>out.
         finite_slice ''routed expert output'' out)) routed) (\<lambda>_.
     rbind (swiglu_project env m mode shared input output_length) (\<lambda>out.
     rbind (finite_slice ''shared expert output'' out) (\<lambda>_.
     accumulate_experts env m mode (map (\<lambda>s. (se_expert s, se_coefficient s)) routed) shared input output_length))))"

fun preflight_by_id ::
  "swiglu_env \<Rightarrow> libm \<Rightarrow> execution_mode \<Rightarrow> swiglu_expert list \<Rightarrow> swiglu_expert \<Rightarrow> f32 list \<Rightarrow> nat \<Rightarrow> nat option \<Rightarrow>
    routed_expert list \<Rightarrow> kernel_error + unit" where
  "preflight_by_id env m mode experts shared input output_length previous [] = Inr ()"
| "preflight_by_id env m mode experts shared input output_length previous (s # rest) =
     rbind (finite_value ''routed expert coefficient'' 0 (re_coefficient s)) (\<lambda>_.
     rbind (order_check previous (re_expert_id s)) (\<lambda>_.
     if length experts \<le> re_expert_id s
       then Inl (KInvalidParameter ''routed expert ID'' ''must index an available expert'')
     else let e = experts ! re_expert_id s
       in rbind (require_equal ''routed expert input width'' (ex_input_width shared) (ex_input_width e)) (\<lambda>_.
          rbind (require_equal ''routed expert output width'' (ex_output_width shared) (ex_output_width e)) (\<lambda>_.
          rbind (swiglu_project env m mode e input output_length) (\<lambda>_.
          preflight_by_id env m mode experts shared input output_length (Some (re_expert_id s)) rest)))))"

definition moe_routed_by_id ::
  "swiglu_env \<Rightarrow> libm \<Rightarrow> execution_mode \<Rightarrow> routed_expert list \<Rightarrow> swiglu_expert list \<Rightarrow> swiglu_expert \<Rightarrow> f32 list \<Rightarrow>
    nat \<Rightarrow> nat \<Rightarrow> kernel_error + f32 list" where
  "moe_routed_by_id env m mode routed experts shared input output_length preflight_length =
     rbind (moe_shape (length routed) shared (length input) output_length preflight_length) (\<lambda>_.
     rbind (preflight_by_id env m mode experts shared input output_length None routed) (\<lambda>_.
     rbind (swiglu_project env m mode shared input output_length) (\<lambda>_.
     accumulate_experts env m mode (map (\<lambda>s. (experts ! re_expert_id s, re_coefficient s)) routed) shared input
       output_length)))"

end
