(* ===== verification/Hy3_Config.thy ===== *)
theory Hy3_Config
  imports Gguf_Split Kernel_Ops Str_Ops
begin

text \<open>
  The Hy3 model configuration (\<^verbatim>\<open>bridge-model-hy3/src/config.rs\<close>, the comparisons of \<^verbatim>\<open>profile.rs\<close>) and
  the RoPE parameters derived from it (\<^verbatim>\<open>Hy3RopeParams::from_config\<close>). Unsigned fields are naturals below
  their width; the display texts an error carries are left out.
\<close>

section \<open>Data\<close>

record hy3_config =
  hc_block_count :: nat
  hc_context_length :: nat
  hc_embedding_length :: nat
  hc_dense_ffn_length :: nat
  hc_expert_ffn_length :: nat
  hc_shared_expert_ffn_length :: nat
  hc_attention_head_count :: nat
  hc_attention_kv_head_count :: nat
  hc_key_length :: nat
  hc_value_length :: nat
  hc_rms_epsilon :: f32
  hc_expert_count :: nat
  hc_expert_used_count :: nat
  hc_expert_weights_norm :: bool
  hc_expert_gating_func :: nat
  hc_expert_weights_scale :: f32
  hc_rope_base :: f32
  hc_rope_scaling_type :: string
  hc_yarn_factor :: f32
  hc_yarn_original_context :: nat
  hc_vocabulary_size :: nat

datatype hy3_error =
    MissingMetadataType string value_type
  | MetadataStoredType string value_type value_type
  | MetadataValue string
  | MetadataArrayElementType string value_type value_type
  | NonFiniteMetadata string f32 f32
  | InvalidTensorName string
  | MissingTensor string "nat list" ggml_type
  | UnexpectedTensor string
  | DuplicateTensor string
  | TensorShape string "nat list" "nat list"
  | TensorType string ggml_type ggml_type
  | TensorRank string nat nat
  | ExpertDimension string nat nat
  | ExpertPayloadNotDivisible string nat nat
  | ExpertIndexOutOfRange string nat nat
  | Hy3Arithmetic string string
  | EmptySet
  | PartialShardMetadata nat string
  | ShardMetadata nat hy3_error
  | ConfigOutOfRange string nat nat nat
  | ConfigRelation string
  | TensorDirectoryCount nat nat
  | Hy3AllocationFailed string nat

section \<open>Resolving the metadata\<close>

definition ARCHITECTURE :: string where "ARCHITECTURE = ''general.architecture''"
definition TOKENS :: string where "TOKENS = ''tokenizer.ggml.tokens''"

definition SELECTED_METADATA_KEYS :: "string list" where
  "SELECTED_METADATA_KEYS =
     [ARCHITECTURE, ''hy_v3.block_count'', ''hy_v3.context_length'', ''hy_v3.embedding_length'',
      ''hy_v3.feed_forward_length'', ''hy_v3.expert_feed_forward_length'',
      ''hy_v3.expert_shared_feed_forward_length'', ''hy_v3.attention.head_count'',
      ''hy_v3.attention.head_count_kv'', ''hy_v3.attention.key_length'', ''hy_v3.attention.value_length'',
      ''hy_v3.attention.layer_norm_rms_epsilon'', ''hy_v3.expert_count'', ''hy_v3.expert_used_count'',
      ''hy_v3.expert_weights_norm'', ''hy_v3.expert_gating_func'', ''hy_v3.expert_weights_scale'',
      ''hy_v3.rope.freq_base'', ''hy_v3.rope.scaling.type'', ''hy_v3.rope.scaling.factor'',
      ''hy_v3.rope.scaling.original_context_length'', TOKENS]"

definition map_metadata :: "metadata_error + 'a \<Rightarrow> value_type \<Rightarrow> hy3_error + 'a" where
  "map_metadata r expected =
     map_err (\<lambda>e. case e of MissingKey key \<Rightarrow> MissingMetadataType key expected
                  | WrongType key _ actual \<Rightarrow> MetadataStoredType key expected actual) r"

text \<open>The accessors never reach their panicking arm, so \<open>the\<close> only removes the option.\<close>

definition hy3_get_u32 :: "gguf_file \<Rightarrow> string \<Rightarrow> hy3_error + nat" where
  "hy3_get_u32 f key = map_metadata (the (get_u32 f key)) TU32"

definition hy3_get_f32 :: "gguf_file \<Rightarrow> string \<Rightarrow> hy3_error + f32" where
  "hy3_get_f32 f key = map_metadata (the (get_f32 f key)) TF32"

definition hy3_get_bool :: "gguf_file \<Rightarrow> string \<Rightarrow> hy3_error + bool" where
  "hy3_get_bool f key = map_metadata (the (get_bool f key)) TBool"

definition hy3_get_string :: "gguf_file \<Rightarrow> string \<Rightarrow> hy3_error + string" where
  "hy3_get_string f key = map_metadata (the (get_string f key)) TString"

definition hy3_get_array :: "gguf_file \<Rightarrow> string \<Rightarrow> hy3_error + value_type \<times> gguf_value list" where
  "hy3_get_array f key = map_metadata (the (get_array f key)) TArray"

definition finite_f32 :: "gguf_file \<Rightarrow> string \<Rightarrow> f32 \<Rightarrow> hy3_error + f32" where
  "finite_f32 f key selected_expected =
     rbind (hy3_get_f32 f key) (\<lambda>actual.
       if f32_is_finite actual then Inr actual else Inl (NonFiniteMetadata key selected_expected actual))"

text \<open>The constants \<open>1.0e-5\<close>, \<open>2.826\<close>, \<open>11_158_840.0\<close> and \<open>4.0\<close>.\<close>

definition selected_epsilon :: f32 where "selected_epsilon = 0x3727c5ac"
definition selected_weights_scale :: f32 where "selected_weights_scale = 0x4034dd2f"
definition selected_rope_base :: f32 where "selected_rope_base = 0x4b2a4538"
definition selected_yarn_factor :: f32 where "selected_yarn_factor = 0x40800000"

definition resolve_config :: "gguf_file \<Rightarrow> hy3_error + hy3_config" where
  "resolve_config f =
     rbind (hy3_get_string f ARCHITECTURE) (\<lambda>architecture.
     rbind (check (architecture = ''hy_v3'') (MetadataValue ARCHITECTURE)) (\<lambda>_.
     rbind (finite_f32 f ''hy_v3.attention.layer_norm_rms_epsilon'' selected_epsilon) (\<lambda>rms_epsilon.
     rbind (finite_f32 f ''hy_v3.expert_weights_scale'' selected_weights_scale) (\<lambda>weights_scale.
     rbind (finite_f32 f ''hy_v3.rope.freq_base'' selected_rope_base) (\<lambda>rope_base.
     rbind (finite_f32 f ''hy_v3.rope.scaling.factor'' selected_yarn_factor) (\<lambda>yarn_factor.
     rbind (hy3_get_array f TOKENS) (\<lambda>(element_type, toks).
     rbind (check (element_type = TString) (MetadataArrayElementType TOKENS TString element_type)) (\<lambda>_.
     rbind (check (length toks < 4294967296) (MetadataValue TOKENS)) (\<lambda>_.
     rbind (hy3_get_u32 f ''hy_v3.block_count'') (\<lambda>block_count.
     rbind (hy3_get_u32 f ''hy_v3.context_length'') (\<lambda>context.
     rbind (hy3_get_u32 f ''hy_v3.embedding_length'') (\<lambda>embedding.
     rbind (hy3_get_u32 f ''hy_v3.feed_forward_length'') (\<lambda>dense.
     rbind (hy3_get_u32 f ''hy_v3.expert_feed_forward_length'') (\<lambda>expert_ffn.
     rbind (hy3_get_u32 f ''hy_v3.expert_shared_feed_forward_length'') (\<lambda>shared_ffn.
     rbind (hy3_get_u32 f ''hy_v3.attention.head_count'') (\<lambda>heads.
     rbind (hy3_get_u32 f ''hy_v3.attention.head_count_kv'') (\<lambda>kv_heads.
     rbind (hy3_get_u32 f ''hy_v3.attention.key_length'') (\<lambda>key_length.
     rbind (hy3_get_u32 f ''hy_v3.attention.value_length'') (\<lambda>value_length.
     rbind (hy3_get_u32 f ''hy_v3.expert_count'') (\<lambda>expert_count.
     rbind (hy3_get_u32 f ''hy_v3.expert_used_count'') (\<lambda>expert_used.
     rbind (hy3_get_bool f ''hy_v3.expert_weights_norm'') (\<lambda>weights_norm.
     rbind (hy3_get_u32 f ''hy_v3.expert_gating_func'') (\<lambda>gating.
     rbind (hy3_get_string f ''hy_v3.rope.scaling.type'') (\<lambda>scaling_type.
     rbind (hy3_get_u32 f ''hy_v3.rope.scaling.original_context_length'') (\<lambda>original.
     Inr \<lparr>hc_block_count = block_count, hc_context_length = context, hc_embedding_length = embedding,
          hc_dense_ffn_length = dense, hc_expert_ffn_length = expert_ffn, hc_shared_expert_ffn_length = shared_ffn,
          hc_attention_head_count = heads, hc_attention_kv_head_count = kv_heads, hc_key_length = key_length,
          hc_value_length = value_length, hc_rms_epsilon = rms_epsilon, hc_expert_count = expert_count,
          hc_expert_used_count = expert_used, hc_expert_weights_norm = weights_norm,
          hc_expert_gating_func = gating, hc_expert_weights_scale = weights_scale, hc_rope_base = rope_base,
          hc_rope_scaling_type = scaling_type, hc_yarn_factor = yarn_factor,
          hc_yarn_original_context = original, hc_vocabulary_size = length toks\<rparr>)))))))))))))))))))))))))"

section \<open>Comparing configurations\<close>

definition same :: "string \<Rightarrow> 'a \<Rightarrow> 'a \<Rightarrow> hy3_error + unit" where
  "same key expected actual = (if expected = actual then Inr () else Inl (MetadataValue key))"

text \<open>The comparisons of the \<^verbatim>\<open>compare!\<close> macro on \<^verbatim>\<open>f32\<close> fields are IEEE equality.\<close>

definition same_f32 :: "string \<Rightarrow> f32 \<Rightarrow> f32 \<Rightarrow> hy3_error + unit" where
  "same_f32 key expected actual = (if f32_eq expected actual then Inr () else Inl (MetadataValue key))"

definition validate_exact_replica :: "hy3_config \<Rightarrow> hy3_config \<Rightarrow> hy3_error + unit" where
  "validate_exact_replica a r =
     rbind (same ''hy_v3.block_count'' (hc_block_count a) (hc_block_count r)) (\<lambda>_.
     rbind (same ''hy_v3.context_length'' (hc_context_length a) (hc_context_length r)) (\<lambda>_.
     rbind (same ''hy_v3.embedding_length'' (hc_embedding_length a) (hc_embedding_length r)) (\<lambda>_.
     rbind (same ''hy_v3.feed_forward_length'' (hc_dense_ffn_length a) (hc_dense_ffn_length r)) (\<lambda>_.
     rbind (same ''hy_v3.expert_feed_forward_length'' (hc_expert_ffn_length a) (hc_expert_ffn_length r)) (\<lambda>_.
     rbind (same ''hy_v3.expert_shared_feed_forward_length'' (hc_shared_expert_ffn_length a) (hc_shared_expert_ffn_length r)) (\<lambda>_.
     rbind (same ''hy_v3.attention.head_count'' (hc_attention_head_count a) (hc_attention_head_count r)) (\<lambda>_.
     rbind (same ''hy_v3.attention.head_count_kv'' (hc_attention_kv_head_count a) (hc_attention_kv_head_count r)) (\<lambda>_.
     rbind (same ''hy_v3.attention.key_length'' (hc_key_length a) (hc_key_length r)) (\<lambda>_.
     rbind (same ''hy_v3.attention.value_length'' (hc_value_length a) (hc_value_length r)) (\<lambda>_.
     rbind (same_f32 ''hy_v3.attention.layer_norm_rms_epsilon'' (hc_rms_epsilon a) (hc_rms_epsilon r)) (\<lambda>_.
     rbind (same ''hy_v3.expert_count'' (hc_expert_count a) (hc_expert_count r)) (\<lambda>_.
     rbind (same ''hy_v3.expert_used_count'' (hc_expert_used_count a) (hc_expert_used_count r)) (\<lambda>_.
     rbind (same ''hy_v3.expert_weights_norm'' (hc_expert_weights_norm a) (hc_expert_weights_norm r)) (\<lambda>_.
     rbind (same ''hy_v3.expert_gating_func'' (hc_expert_gating_func a) (hc_expert_gating_func r)) (\<lambda>_.
     rbind (same_f32 ''hy_v3.expert_weights_scale'' (hc_expert_weights_scale a) (hc_expert_weights_scale r)) (\<lambda>_.
     rbind (same_f32 ''hy_v3.rope.freq_base'' (hc_rope_base a) (hc_rope_base r)) (\<lambda>_.
     rbind (same ''hy_v3.rope.scaling.type'' (hc_rope_scaling_type a) (hc_rope_scaling_type r)) (\<lambda>_.
     rbind (same_f32 ''hy_v3.rope.scaling.factor'' (hc_yarn_factor a) (hc_yarn_factor r)) (\<lambda>_.
     rbind (same ''hy_v3.rope.scaling.original_context_length'' (hc_yarn_original_context a) (hc_yarn_original_context r)) (\<lambda>_.
     same ''tokenizer.ggml.tokens'' (hc_vocabulary_size a) (hc_vocabulary_size r)))))))))))))))))))))"

text \<open>The tolerance \<^verbatim>\<open>(expected.abs() * 1.0e-6).clamp(1.0e-12, 1.0e-4)\<close>.\<close>

definition tolerance :: "f32 \<Rightarrow> f32" where
  "tolerance expected = f32_clamp (f32_mul (f32_abs expected) 0x358637bd) 0x2b8cbccc 0x38d1b717"

definition compare_float :: "string \<Rightarrow> f32 \<Rightarrow> f32 \<Rightarrow> hy3_error + unit" where
  "compare_float key expected actual =
     (if \<not> f32_is_finite actual then Inl (NonFiniteMetadata key expected actual)
      else if f32_le (f32_abs (f32_sub actual expected)) (tolerance expected) then Inr ()
      else Inl (MetadataValue key))"

definition profile_compare :: "hy3_config \<Rightarrow> hy3_config \<Rightarrow> hy3_error + unit" where
  "profile_compare e a =
     rbind (same ''hy_v3.block_count'' (hc_block_count e) (hc_block_count a)) (\<lambda>_.
     rbind (same ''hy_v3.context_length'' (hc_context_length e) (hc_context_length a)) (\<lambda>_.
     rbind (same ''hy_v3.embedding_length'' (hc_embedding_length e) (hc_embedding_length a)) (\<lambda>_.
     rbind (same ''hy_v3.feed_forward_length'' (hc_dense_ffn_length e) (hc_dense_ffn_length a)) (\<lambda>_.
     rbind (same ''hy_v3.expert_feed_forward_length'' (hc_expert_ffn_length e) (hc_expert_ffn_length a)) (\<lambda>_.
     rbind (same ''hy_v3.expert_shared_feed_forward_length'' (hc_shared_expert_ffn_length e) (hc_shared_expert_ffn_length a)) (\<lambda>_.
     rbind (same ''hy_v3.attention.head_count'' (hc_attention_head_count e) (hc_attention_head_count a)) (\<lambda>_.
     rbind (same ''hy_v3.attention.head_count_kv'' (hc_attention_kv_head_count e) (hc_attention_kv_head_count a)) (\<lambda>_.
     rbind (same ''hy_v3.attention.key_length'' (hc_key_length e) (hc_key_length a)) (\<lambda>_.
     rbind (same ''hy_v3.attention.value_length'' (hc_value_length e) (hc_value_length a)) (\<lambda>_.
     rbind (compare_float ''hy_v3.attention.layer_norm_rms_epsilon'' (hc_rms_epsilon e) (hc_rms_epsilon a)) (\<lambda>_.
     rbind (same ''hy_v3.expert_count'' (hc_expert_count e) (hc_expert_count a)) (\<lambda>_.
     rbind (same ''hy_v3.expert_used_count'' (hc_expert_used_count e) (hc_expert_used_count a)) (\<lambda>_.
     rbind (same ''hy_v3.expert_weights_norm'' (hc_expert_weights_norm e) (hc_expert_weights_norm a)) (\<lambda>_.
     rbind (same ''hy_v3.expert_gating_func'' (hc_expert_gating_func e) (hc_expert_gating_func a)) (\<lambda>_.
     rbind (compare_float ''hy_v3.expert_weights_scale'' (hc_expert_weights_scale e) (hc_expert_weights_scale a)) (\<lambda>_.
     rbind (compare_float ''hy_v3.rope.freq_base'' (hc_rope_base e) (hc_rope_base a)) (\<lambda>_.
     rbind (same ''hy_v3.rope.scaling.type'' (hc_rope_scaling_type e) (hc_rope_scaling_type a)) (\<lambda>_.
     rbind (compare_float ''hy_v3.rope.scaling.factor'' (hc_yarn_factor e) (hc_yarn_factor a)) (\<lambda>_.
     rbind (same ''hy_v3.rope.scaling.original_context_length'' (hc_yarn_original_context e) (hc_yarn_original_context a)) (\<lambda>_.
     same ''tokenizer.ggml.tokens'' (hc_vocabulary_size e) (hc_vocabulary_size a)))))))))))))))))))))"

definition selected_config :: hy3_config where
  "selected_config = \<lparr>hc_block_count = 80, hc_context_length = 1048576, hc_embedding_length = 4096,
     hc_dense_ffn_length = 13312, hc_expert_ffn_length = 1536, hc_shared_expert_ffn_length = 1536,
     hc_attention_head_count = 64, hc_attention_kv_head_count = 8, hc_key_length = 128, hc_value_length = 128,
     hc_rms_epsilon = selected_epsilon, hc_expert_count = 192, hc_expert_used_count = 8,
     hc_expert_weights_norm = True, hc_expert_gating_func = 2, hc_expert_weights_scale = selected_weights_scale,
     hc_rope_base = selected_rope_base, hc_rope_scaling_type = ''yarn'', hc_yarn_factor = selected_yarn_factor,
     hc_yarn_original_context = 262144, hc_vocabulary_size = 120832\<rparr>"

section \<open>RoPE parameters\<close>

text \<open>\<^verbatim>\<open>value as u64\<close>: truncation towards zero, saturating, zero for a NaN.\<close>

definition u64_of_f32 :: "f32 \<Rightarrow> nat" where
  "u64_of_f32 x =
     (case f32_val x of
        FNaN \<Rightarrow> 0
      | FInf s \<Rightarrow> if s then 0 else u64_max
      | FFin s m e \<Rightarrow> if s then 0 else if 0 \<le> e then min u64_max (m * 2 ^ nat e) else m div 2 ^ nat (- e))"

definition rope_from_config :: "hy3_config \<Rightarrow> kernel_error + rope_params" where
  "rope_from_config c =
     (if hc_key_length c \<noteq> hc_value_length c
        then Inl (KDimensionMismatch ''Hy3 key/value head dimension'' (hc_key_length c) (hc_value_length c))
      else if hc_key_length c = 0 \<or> hc_key_length c mod 2 \<noteq> 0
        then Inl (KInvalidParameter ''Hy3 RoPE head dimension'' ''must be positive and even'')
      else rbind (finite_value ''Hy3 RoPE frequency base'' 0 (hc_rope_base c)) (\<lambda>_.
      rbind (finite_value ''Hy3 YaRN factor'' 0 (hc_yarn_factor c)) (\<lambda>_.
      if f32_le (hc_rope_base c) f32_zero \<or> f32_le (hc_yarn_factor c) f32_zero
        then Inl (KInvalidParameter ''Hy3 RoPE scale'' ''frequency base and YaRN factor must be positive'')
      else if hc_yarn_original_context c = 0 \<or> hc_context_length c = 0
        then Inl (KInvalidParameter ''Hy3 RoPE context'' ''context lengths must be positive'')
      else rbind (ok_or (KArithmeticOverflow ''Hy3 scaled context length'')
             (checked_mul (hc_yarn_original_context c) (u64_of_f32 (hc_yarn_factor c)))) (\<lambda>expected_context.
      if expected_context \<noteq> hc_context_length c
        then Inl (KDimensionMismatch ''Hy3 scaled context length'' expected_context (hc_context_length c))
      else
        (let params = \<lparr>rp_head_dimension = hc_key_length c, rp_context_length = hc_context_length c,
               rp_original_context_length = hc_yarn_original_context c, rp_frequency_base = hc_rope_base c,
               rp_frequency_scale = f32_div f32_one (hc_yarn_factor c), rp_extension_factor = f32_one,
               rp_attention_factor = f32_one, rp_beta_fast = 0x42000000, rp_beta_slow = f32_one\<rparr>
         in rbind (rope_validate params) (\<lambda>_. Inr params))))))"

section \<open>What a configuration says of the metadata\<close>

lemma getter_Inr [result_simps]:
  "hy3_get_u32 f k = Inr n \<longleftrightarrow> map_of (metadata f) k = Some (GU32 n)"
  "hy3_get_f32 f k = Inr w \<longleftrightarrow> map_of (metadata f) k = Some (GF32 w)"
  "hy3_get_bool f k = Inr b \<longleftrightarrow> map_of (metadata f) k = Some (GBool b)"
  "hy3_get_string f k = Inr s \<longleftrightarrow> map_of (metadata f) k = Some (GString s)"
  "hy3_get_array f k = Inr (t, vs) \<longleftrightarrow> map_of (metadata f) k = Some (GArray t vs)"
proof -
  have some: "x \<noteq> None \<Longrightarrow> the x = Inr v \<longleftrightarrow> x = Some (Inr v)" for x and v :: 'v by auto
  note exact = accessors_exact [of f k]
  show "hy3_get_u32 f k = Inr n \<longleftrightarrow> map_of (metadata f) k = Some (GU32 n)"
    unfolding hy3_get_u32_def map_metadata_def map_err_Inr using exact by (subst some) blast+
  show "hy3_get_f32 f k = Inr w \<longleftrightarrow> map_of (metadata f) k = Some (GF32 w)"
    unfolding hy3_get_f32_def map_metadata_def map_err_Inr using exact by (subst some) blast+
  show "hy3_get_bool f k = Inr b \<longleftrightarrow> map_of (metadata f) k = Some (GBool b)"
    unfolding hy3_get_bool_def map_metadata_def map_err_Inr using exact by (subst some) blast+
  show "hy3_get_string f k = Inr s \<longleftrightarrow> map_of (metadata f) k = Some (GString s)"
    unfolding hy3_get_string_def map_metadata_def map_err_Inr using exact by (subst some) blast+
  show "hy3_get_array f k = Inr (t, vs) \<longleftrightarrow> map_of (metadata f) k = Some (GArray t vs)"
    unfolding hy3_get_array_def map_metadata_def map_err_Inr using exact by (subst some) blast+
qed

lemma finite_f32_Inr [result_simps]:
  "finite_f32 f k e = Inr w \<longleftrightarrow> map_of (metadata f) k = Some (GF32 w) \<and> f32_is_finite w"
  by (auto simp: finite_f32_def rbind_Inr getter_Inr split: if_splits)

text \<open>The metadata a configuration stands for: every key but the architecture and the tokens.\<close>

definition config_entries :: "hy3_config \<Rightarrow> (string \<times> gguf_value) list" where
  "config_entries c =
     [(ARCHITECTURE, GString ''hy_v3''),
      (''hy_v3.attention.layer_norm_rms_epsilon'', GF32 (hc_rms_epsilon c)),
      (''hy_v3.expert_weights_scale'', GF32 (hc_expert_weights_scale c)),
      (''hy_v3.rope.freq_base'', GF32 (hc_rope_base c)),
      (''hy_v3.rope.scaling.factor'', GF32 (hc_yarn_factor c)),
      (''hy_v3.block_count'', GU32 (hc_block_count c)),
      (''hy_v3.context_length'', GU32 (hc_context_length c)),
      (''hy_v3.embedding_length'', GU32 (hc_embedding_length c)),
      (''hy_v3.feed_forward_length'', GU32 (hc_dense_ffn_length c)),
      (''hy_v3.expert_feed_forward_length'', GU32 (hc_expert_ffn_length c)),
      (''hy_v3.expert_shared_feed_forward_length'', GU32 (hc_shared_expert_ffn_length c)),
      (''hy_v3.attention.head_count'', GU32 (hc_attention_head_count c)),
      (''hy_v3.attention.head_count_kv'', GU32 (hc_attention_kv_head_count c)),
      (''hy_v3.attention.key_length'', GU32 (hc_key_length c)),
      (''hy_v3.attention.value_length'', GU32 (hc_value_length c)),
      (''hy_v3.expert_count'', GU32 (hc_expert_count c)),
      (''hy_v3.expert_used_count'', GU32 (hc_expert_used_count c)),
      (''hy_v3.expert_weights_norm'', GBool (hc_expert_weights_norm c)),
      (''hy_v3.expert_gating_func'', GU32 (hc_expert_gating_func c)),
      (''hy_v3.rope.scaling.type'', GString (hc_rope_scaling_type c)),
      (''hy_v3.rope.scaling.original_context_length'', GU32 (hc_yarn_original_context c))]"

definition config_floats :: "hy3_config \<Rightarrow> f32 list" where
  "config_floats c = [hc_rms_epsilon c, hc_expert_weights_scale c, hc_rope_base c, hc_yarn_factor c]"

definition has_tokens :: "gguf_file \<Rightarrow> nat \<Rightarrow> bool" where
  "has_tokens f n \<longleftrightarrow> n < 4294967296 \<and>
     (case map_of (metadata f) TOKENS of Some (GArray t toks) \<Rightarrow> t = TString \<and> length toks = n | _ \<Rightarrow> False)"

lemma resolve_config_iff:
  "resolve_config f = Inr c \<longleftrightarrow>
     list_all (\<lambda>(k, v). map_of (metadata f) k = Some v) (config_entries c) \<and>
     list_all f32_is_finite (config_floats c) \<and> has_tokens f (hc_vocabulary_size c)"
  (is "?l = ?r")
proof
  assume ?l
  then show ?r
    unfolding resolve_config_def rbind_Inr
    by (clarsimp simp: result_simps config_entries_def config_floats_def has_tokens_def)
next
  assume ?r
  then obtain toks where toks: "map_of (metadata f) TOKENS = Some (GArray TString toks)"
    "length toks = hc_vocabulary_size c" "length toks < 4294967296"
    by (auto simp: has_tokens_def split: option.splits gguf_value.splits)
  have ent: "map_of (metadata f) k = Some v" if "(k, v) \<in> set (config_entries c)" for k v
    using \<open>?r\<close> that by (auto simp: list_all_iff)
  have fin: "f32_is_finite (hc_rms_epsilon c)" "f32_is_finite (hc_expert_weights_scale c)"
    "f32_is_finite (hc_rope_base c)" "f32_is_finite (hc_yarn_factor c)"
    using \<open>?r\<close> by (simp_all add: config_floats_def)
  note e = ent [unfolded config_entries_def, simplified]
  have get: "hy3_get_string f ARCHITECTURE = Inr ''hy_v3''"
    "finite_f32 f ''hy_v3.attention.layer_norm_rms_epsilon'' selected_epsilon = Inr (hc_rms_epsilon c)"
    "finite_f32 f ''hy_v3.expert_weights_scale'' selected_weights_scale = Inr (hc_expert_weights_scale c)"
    "finite_f32 f ''hy_v3.rope.freq_base'' selected_rope_base = Inr (hc_rope_base c)"
    "finite_f32 f ''hy_v3.rope.scaling.factor'' selected_yarn_factor = Inr (hc_yarn_factor c)"
    "hy3_get_array f TOKENS = Inr (TString, toks)"
    "hy3_get_u32 f ''hy_v3.block_count'' = Inr (hc_block_count c)"
    "hy3_get_u32 f ''hy_v3.context_length'' = Inr (hc_context_length c)"
    "hy3_get_u32 f ''hy_v3.embedding_length'' = Inr (hc_embedding_length c)"
    "hy3_get_u32 f ''hy_v3.feed_forward_length'' = Inr (hc_dense_ffn_length c)"
    "hy3_get_u32 f ''hy_v3.expert_feed_forward_length'' = Inr (hc_expert_ffn_length c)"
    "hy3_get_u32 f ''hy_v3.expert_shared_feed_forward_length'' = Inr (hc_shared_expert_ffn_length c)"
    "hy3_get_u32 f ''hy_v3.attention.head_count'' = Inr (hc_attention_head_count c)"
    "hy3_get_u32 f ''hy_v3.attention.head_count_kv'' = Inr (hc_attention_kv_head_count c)"
    "hy3_get_u32 f ''hy_v3.attention.key_length'' = Inr (hc_key_length c)"
    "hy3_get_u32 f ''hy_v3.attention.value_length'' = Inr (hc_value_length c)"
    "hy3_get_u32 f ''hy_v3.expert_count'' = Inr (hc_expert_count c)"
    "hy3_get_u32 f ''hy_v3.expert_used_count'' = Inr (hc_expert_used_count c)"
    "hy3_get_bool f ''hy_v3.expert_weights_norm'' = Inr (hc_expert_weights_norm c)"
    "hy3_get_u32 f ''hy_v3.expert_gating_func'' = Inr (hc_expert_gating_func c)"
    "hy3_get_string f ''hy_v3.rope.scaling.type'' = Inr (hc_rope_scaling_type c)"
    "hy3_get_u32 f ''hy_v3.rope.scaling.original_context_length'' = Inr (hc_yarn_original_context c)"
    unfolding result_simps by (simp_all add: e fin toks)
  show ?l unfolding resolve_config_def get rbind_simps prod.case using toks(3) by (simp add: toks(2))
qed

text \<open>
  A configuration is resolved exactly from the files whose metadata holds every selected key with the
  type and the value the configuration has, a finite value for each floating-point key, and a token array
  of strings as long as the vocabulary; every other file is an error.
\<close>

theorem config_resolved_exactly:
  "resolve_config f = Inr c \<longleftrightarrow>
     list_all (\<lambda>(k, v). map_of (metadata f) k = Some v) (config_entries c) \<and>
     list_all f32_is_finite (config_floats c) \<and> has_tokens f (hc_vocabulary_size c)"
  by (rule resolve_config_iff)

end
