(* ===== verification/Hy3_Schema.thy ===== *)
theory Hy3_Schema
  imports Hy3_Config "HOL-Library.Multiset"
begin

text \<open>
  The tensor roles and the exact tensor schema of a Hy3 model (\<^verbatim>\<open>bridge-model-hy3/src/tensor_role.rs\<close>,
  \<^verbatim>\<open>schema.rs\<close>, the profile of \<^verbatim>\<open>profile.rs\<close> and the validation of \<^verbatim>\<open>lib.rs\<close>): which tensor names are accepted,
  which directory a configuration demands, and where the slab of an expert lies in its tensor. Whether an
  allocation succeeds, and the iteration order of a \<^verbatim>\<open>HashMap\<close>, are arguments.
\<close>

section \<open>Roles\<close>

datatype tensor_role =
    TokenEmbedding | OutputNorm | OutputMatrix
  | AttentionNorm nat | AttentionQ nat | AttentionQNorm nat | AttentionK nat | AttentionKNorm nat
  | AttentionV nat | AttentionOutput nat | FfnNorm nat
  | DenseGate nat | DenseUp nat | DenseDown nat
  | RouterInput nat | RouterSelectionBias nat | RoutedGate nat | RoutedUp nat | RoutedDown nat
  | SharedGate nat | SharedUp nat | SharedDown nat

definition suffix_role :: "nat \<Rightarrow> string \<Rightarrow> tensor_role option" where
  "suffix_role layer suffix_text =
     (if suffix_text = ''attn_norm.weight'' then Some (AttentionNorm layer)
      else if suffix_text = ''attn_q.weight'' then Some (AttentionQ layer)
      else if suffix_text = ''attn_q_norm.weight'' then Some (AttentionQNorm layer)
      else if suffix_text = ''attn_k.weight'' then Some (AttentionK layer)
      else if suffix_text = ''attn_k_norm.weight'' then Some (AttentionKNorm layer)
      else if suffix_text = ''attn_v.weight'' then Some (AttentionV layer)
      else if suffix_text = ''attn_output.weight'' then Some (AttentionOutput layer)
      else if suffix_text = ''ffn_norm.weight'' then Some (FfnNorm layer)
      else if suffix_text = ''ffn_gate.weight'' \<and> layer = 0 then Some (DenseGate layer)
      else if suffix_text = ''ffn_up.weight'' \<and> layer = 0 then Some (DenseUp layer)
      else if suffix_text = ''ffn_down.weight'' \<and> layer = 0 then Some (DenseDown layer)
      else if suffix_text = ''ffn_gate_inp.weight'' \<and> 0 < layer then Some (RouterInput layer)
      else if suffix_text = ''exp_probs_b'' \<and> 0 < layer then Some (RouterSelectionBias layer)
      else if suffix_text = ''ffn_gate_exps.weight'' \<and> 0 < layer then Some (RoutedGate layer)
      else if suffix_text = ''ffn_up_exps.weight'' \<and> 0 < layer then Some (RoutedUp layer)
      else if suffix_text = ''ffn_down_exps.weight'' \<and> 0 < layer then Some (RoutedDown layer)
      else if suffix_text = ''ffn_gate_shexp.weight'' \<and> 0 < layer then Some (SharedGate layer)
      else if suffix_text = ''ffn_up_shexp.weight'' \<and> 0 < layer then Some (SharedUp layer)
      else if suffix_text = ''ffn_down_shexp.weight'' \<and> 0 < layer then Some (SharedDown layer)
      else None)"

definition classify_layer :: "string \<Rightarrow> nat \<Rightarrow> tensor_role option" where
  "classify_layer name block_count =
     Option.bind (strip_prefix name ''blk.'') (\<lambda>remainder.
     Option.bind (split_once remainder ''.'') (\<lambda>(layer_text, suffix_text).
       if layer_text = [] \<or> \<not> list_all is_ascii_digit layer_text \<or>
          (1 < length layer_text \<and> hd layer_text = CHR ''0'')
       then None
       else Option.bind (parse_u32 layer_text) (\<lambda>layer.
         if block_count \<le> layer then None else suffix_role layer suffix_text)))"

definition classify :: "string \<Rightarrow> nat \<Rightarrow> hy3_error + tensor_role" where
  "classify name block_count =
     (if name = ''token_embd.weight'' then Inr TokenEmbedding
      else if name = ''output_norm.weight'' then Inr OutputNorm
      else if name = ''output.weight'' then Inr OutputMatrix
      else ok_or (InvalidTensorName name) (classify_layer name block_count))"

fun is_routed_expert :: "tensor_role \<Rightarrow> bool" where
  "is_routed_expert (RoutedGate _) = True"
| "is_routed_expert (RoutedUp _) = True"
| "is_routed_expert (RoutedDown _) = True"
| "is_routed_expert _ = False"

section \<open>The schema of a configuration\<close>

record tensor_spec =
  ts_name :: string
  ts_role :: tensor_role
  ts_shape :: "nat list"
  ts_ty :: ggml_type

definition spec :: "string \<Rightarrow> tensor_role \<Rightarrow> nat list \<Rightarrow> ggml_type \<Rightarrow> tensor_spec" where
  "spec name role shape ty = \<lparr>ts_name = name, ts_role = role, ts_shape = shape, ts_ty = ty\<rparr>"

definition MAX_BLOCK_COUNT :: nat where "MAX_BLOCK_COUNT = 1024"
definition MAX_MODEL_DIMENSION :: nat where "MAX_MODEL_DIMENSION = 16777216"
definition MAX_HEAD_COUNT :: nat where "MAX_HEAD_COUNT = 4096"
definition MAX_HEAD_DIMENSION :: nat where "MAX_HEAD_DIMENSION = 65536"
definition MAX_EXPERT_COUNT :: nat where "MAX_EXPERT_COUNT = 65536"
definition MAX_SCHEMA_TENSOR_COUNT :: nat where "MAX_SCHEMA_TENSOR_COUNT = 16382"

definition check_range :: "string \<Rightarrow> nat \<Rightarrow> nat \<Rightarrow> nat \<Rightarrow> hy3_error + unit" where
  "check_range field actual minimum maximum =
     (if minimum \<le> actual \<and> actual \<le> maximum then Inr () else Inl (ConfigOutOfRange field minimum maximum actual))"

definition validate_schema_config :: "hy3_config \<Rightarrow> hy3_error + unit" where
  "validate_schema_config c =
     rbind (check_range ''block_count'' (hc_block_count c) 1 MAX_BLOCK_COUNT) (\<lambda>_.
     rbind (check_range ''embedding_length'' (hc_embedding_length c) 1 MAX_MODEL_DIMENSION) (\<lambda>_.
     rbind (check_range ''dense_ffn_length'' (hc_dense_ffn_length c) 1 MAX_MODEL_DIMENSION) (\<lambda>_.
     rbind (check_range ''expert_ffn_length'' (hc_expert_ffn_length c) 1 MAX_MODEL_DIMENSION) (\<lambda>_.
     rbind (check_range ''shared_expert_ffn_length'' (hc_shared_expert_ffn_length c) 1 MAX_MODEL_DIMENSION) (\<lambda>_.
     rbind (check_range ''attention_head_count'' (hc_attention_head_count c) 1 MAX_HEAD_COUNT) (\<lambda>_.
     rbind (check_range ''attention_kv_head_count'' (hc_attention_kv_head_count c) 1 MAX_HEAD_COUNT) (\<lambda>_.
     rbind (check_range ''key_length'' (hc_key_length c) 1 MAX_HEAD_DIMENSION) (\<lambda>_.
     rbind (check_range ''value_length'' (hc_value_length c) 1 MAX_HEAD_DIMENSION) (\<lambda>_.
     rbind (check_range ''expert_count'' (hc_expert_count c) 1 MAX_EXPERT_COUNT) (\<lambda>_.
     rbind (check_range ''expert_used_count'' (hc_expert_used_count c) 1 (hc_expert_count c)) (\<lambda>_.
     rbind (check_range ''vocabulary_size'' (hc_vocabulary_size c) 1 MAX_MODEL_DIMENSION) (\<lambda>_.
     if hc_attention_head_count c < hc_attention_kv_head_count c
     then Inl (ConfigRelation ''attention_kv_head_count'') else Inr ()))))))))))))"

definition hy3_checked_mul :: "string \<Rightarrow> nat \<Rightarrow> nat \<Rightarrow> hy3_error + nat" where
  "hy3_checked_mul name left right =
     ok_or (Hy3Arithmetic name ''derived tensor dimension'') (checked_mul left right)"

definition block_name :: "nat \<Rightarrow> string \<Rightarrow> string" where
  "block_name layer suffix_text = ''blk.'' @ dec_string layer @ ''.'' @ suffix_text"

text \<open>The entries every block has, then those of its feed-forward part, in the order they are pushed.\<close>

definition attention_specs :: "hy3_config \<Rightarrow> nat \<Rightarrow> nat \<Rightarrow> nat \<Rightarrow> nat \<Rightarrow> nat \<Rightarrow> tensor_spec list" where
  "attention_specs c q_width k_width v_width output_width layer =
     (let hidden = hc_embedding_length c; nm = block_name layer in
      [spec (nm ''attn_k.weight'') (AttentionK layer) [hidden, k_width] IQ2_S,
       spec (nm ''attn_k_norm.weight'') (AttentionKNorm layer) [hc_key_length c] F32,
       spec (nm ''attn_norm.weight'') (AttentionNorm layer) [hidden] F32,
       spec (nm ''attn_output.weight'') (AttentionOutput layer) [output_width, hidden] IQ3_S,
       spec (nm ''attn_q.weight'') (AttentionQ layer) [hidden, q_width] IQ2_S,
       spec (nm ''attn_q_norm.weight'') (AttentionQNorm layer) [hc_key_length c] F32,
       spec (nm ''attn_v.weight'') (AttentionV layer) [hidden, v_width] Q4_K,
       spec (nm ''ffn_norm.weight'') (FfnNorm layer) [hidden] F32])"

definition feed_forward_specs :: "hy3_config \<Rightarrow> nat \<Rightarrow> tensor_spec list" where
  "feed_forward_specs c layer =
     (let hidden = hc_embedding_length c; nm = block_name layer in
      if layer = 0 then
        [spec (nm ''ffn_down.weight'') (DenseDown layer) [hc_dense_ffn_length c, hidden] IQ3_S,
         spec (nm ''ffn_gate.weight'') (DenseGate layer) [hidden, hc_dense_ffn_length c] IQ2_S,
         spec (nm ''ffn_up.weight'') (DenseUp layer) [hidden, hc_dense_ffn_length c] IQ2_S]
      else
        (let experts = hc_expert_count c; expert_ffn = hc_expert_ffn_length c;
             shared_ffn = hc_shared_expert_ffn_length c in
         [spec (nm ''exp_probs_b'') (RouterSelectionBias layer) [experts] F32,
          spec (nm ''ffn_gate_inp.weight'') (RouterInput layer) [hidden, experts] F32,
          spec (nm ''ffn_gate_exps.weight'') (RoutedGate layer) [hidden, expert_ffn, experts] IQ2_S,
          spec (nm ''ffn_up_exps.weight'') (RoutedUp layer) [hidden, expert_ffn, experts] IQ2_S,
          spec (nm ''ffn_down_exps.weight'') (RoutedDown layer) [expert_ffn, hidden, experts]
            (if layer \<le> 5 then IQ3_S else IQ2_S),
          spec (nm ''ffn_gate_shexp.weight'') (SharedGate layer) [hidden, shared_ffn] IQ2_S,
          spec (nm ''ffn_up_shexp.weight'') (SharedUp layer) [hidden, shared_ffn] IQ2_S,
          spec (nm ''ffn_down_shexp.weight'') (SharedDown layer) [shared_ffn, hidden]
            (if layer \<le> 4 then IQ3_S else IQ2_S)]))"

text \<open>Whether the allocator grants a reservation, by its context and element count; each context is requested once.\<close>

type_synonym schema_grant = "string \<Rightarrow> nat \<Rightarrow> bool"

definition hy3_reserve :: "schema_grant \<Rightarrow> string \<Rightarrow> nat \<Rightarrow> hy3_error + unit" where
  "hy3_reserve grant what requested = check (grant what requested) (Hy3AllocationFailed what requested)"

definition generate_schema :: "schema_grant \<Rightarrow> hy3_config \<Rightarrow> hy3_error + tensor_spec list" where
  "generate_schema grant c =
     rbind (validate_schema_config c) (\<lambda>_.
     rbind (hy3_checked_mul ''blk.*.attn_q.weight'' (hc_attention_head_count c) (hc_key_length c)) (\<lambda>q_width.
     rbind (hy3_checked_mul ''blk.*.attn_k.weight'' (hc_attention_kv_head_count c) (hc_key_length c)) (\<lambda>k_width.
     rbind (hy3_checked_mul ''blk.*.attn_v.weight'' (hc_attention_kv_head_count c) (hc_value_length c)) (\<lambda>v_width.
     rbind (hy3_checked_mul ''blk.*.attn_output.weight'' (hc_attention_head_count c) (hc_value_length c)) (\<lambda>output_width.
     rbind (ok_or (Hy3Arithmetic ''generated schema'' ''schema entry capacity'')
        (Option.bind (checked_sub (hc_block_count c) 1) (\<lambda>moe_blocks.
         Option.bind (checked_mul moe_blocks 16) (\<lambda>moe_entries. checked_add moe_entries 14)))) (\<lambda>capacity.
     rbind (hy3_reserve grant ''generated tensor schema'' capacity) (\<lambda>_.
     Inr ([spec ''token_embd.weight'' TokenEmbedding [hc_embedding_length c, hc_vocabulary_size c] IQ3_S,
           spec ''output_norm.weight'' OutputNorm [hc_embedding_length c] F32,
           spec ''output.weight'' OutputMatrix [hc_embedding_length c, hc_vocabulary_size c] Q5_K] @
          concat (map (\<lambda>layer. attention_specs c q_width k_width v_width output_width layer @
                               feed_forward_specs c layer) [0..<hc_block_count c])))))))))"

definition generate_selected_iq2_m_schema :: "schema_grant \<Rightarrow> hy3_config \<Rightarrow> hy3_error + tensor_spec list" where
  "generate_selected_iq2_m_schema grant c =
     rbind (profile_compare selected_config c) (\<lambda>_. generate_schema grant c)"

section \<open>Validating a directory\<close>

definition validate_routed_shape :: "tensor_desc \<Rightarrow> nat \<Rightarrow> hy3_error + unit" where
  "validate_routed_shape t expert_count =
     (if length (shape_of t) \<noteq> 3 then Inl (TensorRank (td_name t) 3 (length (shape_of t)))
      else if shape_of t ! 2 \<noteq> expert_count then Inl (ExpertDimension (td_name t) expert_count (shape_of t ! 2))
      else Inr ())"

type_synonym descriptor_index = "(string \<times> tensor_desc) list"

fun index_descriptors :: "tensor_desc list \<Rightarrow> descriptor_index \<Rightarrow> hy3_error + descriptor_index" where
  "index_descriptors [] index = Inr index"
| "index_descriptors (t # ts) index =
     (if map_of index (td_name t) \<noteq> None then Inl (DuplicateTensor (td_name t))
      else index_descriptors ts ((td_name t, t) # index))"

definition match_spec :: "nat \<Rightarrow> tensor_spec \<Rightarrow> tensor_desc \<Rightarrow> hy3_error + unit" where
  "match_spec expert_count e t =
     rbind (if is_routed_expert (ts_role e) then validate_routed_shape t expert_count else Inr ()) (\<lambda>_.
       if shape_of t \<noteq> ts_shape e then Inl (TensorShape (ts_name e) (ts_shape e) (shape_of t))
       else if td_ty t \<noteq> ts_ty e then Inl (TensorType (ts_name e) (ts_ty e) (td_ty t))
       else Inr ())"

fun match_specs :: "nat \<Rightarrow> tensor_spec list \<Rightarrow> descriptor_index \<Rightarrow> hy3_error + descriptor_index" where
  "match_specs expert_count [] index = Inr index"
| "match_specs expert_count (e # es) index =
     (case map_of index (ts_name e) of
        None \<Rightarrow> Inl (MissingTensor (ts_name e) (ts_shape e) (ts_ty e))
      | Some t \<Rightarrow> rbind (match_spec expert_count e t) (\<lambda>_.
          match_specs expert_count es (filter (\<lambda>(k, _). k \<noteq> ts_name e) index)))"

text \<open>\<^verbatim>\<open>into_iter().next()\<close> on what is left: \<open>pick\<close> is the iteration order.\<close>

definition validate_against ::
  "schema_grant \<Rightarrow> (descriptor_index \<Rightarrow> string) \<Rightarrow> hy3_config \<Rightarrow> tensor_spec list \<Rightarrow> tensor_desc list \<Rightarrow> hy3_error + unit" where
  "validate_against grant pick c schema ts =
     (if MAX_SCHEMA_TENSOR_COUNT < length ts then Inl (TensorDirectoryCount (length schema) (length ts))
      else rbind (hy3_reserve grant ''tensor validation index'' (length ts)) (\<lambda>_.
        rbind (index_descriptors ts []) (\<lambda>index.
        rbind (match_specs (hc_expert_count c) schema index) (\<lambda>rest.
          if rest = [] then Inr () else Inl (UnexpectedTensor (pick rest))))))"

definition validate_selected_iq2_m_tensor_descriptors ::
  "schema_grant \<Rightarrow> (descriptor_index \<Rightarrow> string) \<Rightarrow> hy3_config \<Rightarrow> tensor_desc list \<Rightarrow> hy3_error + unit" where
  "validate_selected_iq2_m_tensor_descriptors grant pick c ts =
     rbind (profile_compare selected_config c) (\<lambda>_.
     rbind (generate_schema grant c) (\<lambda>schema. validate_against grant pick c schema ts))"

text \<open>An explicit schema: distinct names, each classifying to its role, sound shapes.\<close>

fun check_explicit :: "hy3_config \<Rightarrow> tensor_spec list \<Rightarrow> string list \<Rightarrow> hy3_error + unit" where
  "check_explicit c [] names = Inr ()"
| "check_explicit c (e # es) names =
     (if ts_name e \<in> set names then Inl (DuplicateTensor (ts_name e))
      else rbind (classify (ts_name e) (hc_block_count c)) (\<lambda>classified.
        if classified \<noteq> ts_role e then Inl (InvalidTensorName (ts_name e))
        else if ts_shape e = [] \<or> 3 < length (ts_shape e) \<or> 0 \<in> set (ts_shape e)
        then Inl (TensorShape (ts_name e) [1] (ts_shape e))
        else if is_routed_expert (ts_role e) \<and> (length (ts_shape e) \<noteq> 3 \<or> ts_shape e ! 2 \<noteq> hc_expert_count c)
        then Inl (ExpertDimension (ts_name e) (hc_expert_count c)
               (if 2 < length (ts_shape e) then ts_shape e ! 2 else 0))
        else check_explicit c es (ts_name e # names)))"

definition validate_explicit_schema :: "schema_grant \<Rightarrow> hy3_config \<Rightarrow> tensor_spec list \<Rightarrow> hy3_error + unit" where
  "validate_explicit_schema grant c schema =
     rbind (validate_schema_config c) (\<lambda>_.
       if schema = [] \<or> MAX_SCHEMA_TENSOR_COUNT < length schema then Inl (TensorDirectoryCount 1 (length schema))
       else rbind (hy3_reserve grant ''explicit profile schema names'' (length schema)) (\<lambda>_.
         check_explicit c schema []))"

section \<open>Profiles\<close>

datatype profile_schema = SelectedIq2M | Explicit "tensor_spec list"

record hy3_profile =
  pf_expected :: hy3_config
  pf_schema :: profile_schema

definition selected_iq2_m :: hy3_profile where
  "selected_iq2_m = \<lparr>pf_expected = selected_config, pf_schema = SelectedIq2M\<rparr>"

definition profile_explicit :: "schema_grant \<Rightarrow> hy3_config \<Rightarrow> tensor_spec list \<Rightarrow> hy3_error + hy3_profile" where
  "profile_explicit grant expected schema =
     rbind (validate_explicit_schema grant expected schema) (\<lambda>_.
       Inr \<lparr>pf_expected = expected, pf_schema = Explicit schema\<rparr>)"

definition profile_validate :: "hy3_profile \<Rightarrow> hy3_config \<Rightarrow> hy3_error + unit" where
  "profile_validate p actual = profile_compare (pf_expected p) actual"

definition tensor_schema :: "schema_grant \<Rightarrow> hy3_profile \<Rightarrow> hy3_error + tensor_spec list" where
  "tensor_schema grant p =
     (case pf_schema p of SelectedIq2M \<Rightarrow> generate_schema grant (pf_expected p) | Explicit schema \<Rightarrow> Inr schema)"

section \<open>Expert slabs\<close>

record expert_slab =
  es_expert :: nat
  es_relative_range :: "nat \<times> nat"

definition checked_expert_slab :: "string \<Rightarrow> nat list \<Rightarrow> nat \<Rightarrow> nat \<Rightarrow> nat \<Rightarrow> hy3_error + expert_slab" where
  "checked_expert_slab name shape payload expert_count expert =
     (if length shape \<noteq> 3 then Inl (TensorRank name 3 (length shape))
      else if shape ! 2 \<noteq> expert_count then Inl (ExpertDimension name expert_count (shape ! 2))
      else if expert_count \<le> expert then Inl (ExpertIndexOutOfRange name expert expert_count)
      else if expert_count = 0 \<or> payload mod expert_count \<noteq> 0
      then Inl (ExpertPayloadNotDivisible name payload expert_count)
      else
        (let slab_bytes = payload div expert_count in
         rbind (ok_or (Hy3Arithmetic name ''expert index times slab bytes'') (checked_mul expert slab_bytes)) (\<lambda>start.
         rbind (ok_or (Hy3Arithmetic name ''expert slab end'') (checked_add start slab_bytes)) (\<lambda>stop.
           if payload < stop then Inl (Hy3Arithmetic name ''expert slab within payload'')
           else Inr \<lparr>es_expert = expert, es_relative_range = (start, stop)\<rparr>))))"

section \<open>Validated models\<close>

record hy3_tensor =
  ht_role :: tensor_role
  ht_location :: tensor_location

record validated_model =
  vm_config :: hy3_config
  vm_tensors :: "hy3_tensor list"
  vm_has_mtp :: bool

definition tensor_expert_slab :: "hy3_tensor \<Rightarrow> nat \<Rightarrow> nat \<Rightarrow> hy3_error + expert_slab" where
  "tensor_expert_slab t expert_count expert =
     (let (start, stop) = tl_absolute_range (ht_location t); d = tl_descriptor (ht_location t) in
      rbind (ok_or (Hy3Arithmetic (td_name d) ''tensor payload length'') (checked_sub stop start)) (\<lambda>payload.
        checked_expert_slab (td_name d) (shape_of d) payload expert_count expert))"

definition tensor_for_role :: "validated_model \<Rightarrow> tensor_role \<Rightarrow> hy3_tensor option" where
  "tensor_for_role m role = find (\<lambda>t. ht_role t = role) (vm_tensors m)"

definition later_shard :: "hy3_config \<Rightarrow> nat \<times> gguf_shard \<Rightarrow> hy3_error + unit" where
  "later_shard authoritative ish =
     (let (shard_index, shard) = ish;
          present = (\<lambda>key. list_ex (\<lambda>(candidate, _). candidate = key) (metadata (sh_parsed shard)))
      in if filter present SELECTED_METADATA_KEYS = [] then Inr ()
         else case find (\<lambda>key. \<not> present key) SELECTED_METADATA_KEYS of
           Some missing_key \<Rightarrow> Inl (PartialShardMetadata shard_index missing_key)
         | None \<Rightarrow>
             rbind (map_err (ShardMetadata shard_index) (resolve_config (sh_parsed shard))) (\<lambda>replica.
               map_err (ShardMetadata shard_index) (validate_exact_replica authoritative replica)))"

definition validate_later_shard_metadata :: "gguf_set \<Rightarrow> hy3_config \<Rightarrow> hy3_error + unit" where
  "validate_later_shard_metadata st authoritative =
     rbind (map_res (later_shard authoritative) (drop 1 (enumerate 0 (gs_files st)))) (\<lambda>_. Inr ())"

definition place_spec :: "tensor_directory \<Rightarrow> tensor_spec \<Rightarrow> hy3_error + hy3_tensor" where
  "place_spec directory e =
     rbind (ok_or (MissingTensor (ts_name e) (ts_shape e) (ts_ty e)) (directory_get directory (ts_name e))) (\<lambda>loc.
       Inr \<lparr>ht_role = ts_role e, ht_location = loc\<rparr>)"

definition validate_model_with_profile ::
  "schema_grant \<Rightarrow> (descriptor_index \<Rightarrow> string) \<Rightarrow> gguf_set \<Rightarrow> hy3_profile \<Rightarrow> hy3_error + validated_model" where
  "validate_model_with_profile grant pick st profile =
     (case gs_files st of
        [] \<Rightarrow> Inl EmptySet
      | first # _ \<Rightarrow>
          rbind (resolve_config (sh_parsed first)) (\<lambda>c.
          rbind (profile_validate profile c) (\<lambda>_.
          rbind (validate_later_shard_metadata st c) (\<lambda>_.
          rbind (tensor_schema grant profile) (\<lambda>schema.
            let directory = td_ordered (gs_tensors st) in
            if length directory \<noteq> length schema then Inl (TensorDirectoryCount (length schema) (length directory))
            else rbind (validate_against grant pick c schema (map tl_descriptor directory)) (\<lambda>_.
              rbind (hy3_reserve grant ''validated semantic tensors'' (length schema)) (\<lambda>_.
              rbind (map_res (place_spec (gs_tensors st)) schema) (\<lambda>ts.
                Inr \<lparr>vm_config = c, vm_tensors = ts, vm_has_mtp = False\<rparr>))))))))"

definition validate_selected_model ::
  "schema_grant \<Rightarrow> (descriptor_index \<Rightarrow> string) \<Rightarrow> gguf_set \<Rightarrow> hy3_error + validated_model" where
  "validate_selected_model grant pick st = validate_model_with_profile grant pick st selected_iq2_m"

section \<open>Canonical decimal text\<close>

definition canonical_digits :: "string \<Rightarrow> bool" where
  "canonical_digits s \<longleftrightarrow> s \<noteq> [] \<and> list_all is_ascii_digit s \<and> \<not> (1 < length s \<and> hd s = CHR ''0'')"

lemma dec_string_not_Nil [simp]: "dec_string n \<noteq> []"
  by (cases "n < 10") (simp_all add: dec_string.simps [of n])

lemma dec_string_hd: "0 < n \<Longrightarrow> hd (dec_string n) \<noteq> CHR ''0''"
proof (induction n rule: dec_string.induct)
  case (1 n)
  show ?case
  proof (cases "n < 10")
    case True
    have "char_of (48 + n) \<noteq> CHR ''0''"
    proof
      assume "char_of (48 + n) = CHR ''0''"
      then have "(of_char (char_of (48 + n) :: char) :: nat) = of_char (CHR ''0'')" by (rule arg_cong)
      then show False using digit_char [OF True] 1(2) by (simp del: of_char_of digit_char)
    qed
    then show ?thesis using True by (simp add: dec_string.simps [of n])
  next
    case False
    then show ?thesis using 1 by (simp add: dec_string.simps [of n])
  qed
qed

lemma dec_string_canonical: "canonical_digits (dec_string n)"
proof (cases "0 < n")
  case True
  then show ?thesis using dec_string_hd [of n] by (simp add: canonical_digits_def dec_string_digits)
qed (simp add: canonical_digits_def dec_string.simps is_ascii_digit_def)

lemma digit_value:
  assumes "is_ascii_digit c"
  shows "char_of (48 + (of_char c - 48 :: nat)) = c" "(of_char c - 48 :: nat) < 10"
  using assms by (auto simp: is_ascii_digit_def)

lemma dec_string_dec_value: "canonical_digits s \<Longrightarrow> dec_string (dec_value s) = s"
proof (induction s rule: rev_induct)
  case (snoc c t)
  then have c: "is_ascii_digit c" and t: "list_all is_ascii_digit t" by (simp_all add: canonical_digits_def)
  note dv = digit_value [OF c]
  show ?case
  proof (cases "t = []")
    case True
    then show ?thesis using dv by (simp add: dec_value_def dec_string.simps)
  next
    case False
    then have "canonical_digits t" "hd t \<noteq> CHR ''0''"
      using snoc.prems by (cases t; simp add: canonical_digits_def)+
    then have ih: "dec_string (dec_value t) = t" using snoc.IH by simp
    have pos: "dec_value t \<noteq> 0"
    proof
      assume "dec_value t = 0"
      moreover have "char_of (48 :: nat) = CHR ''0''"
        using char_of_char [where ?'a = nat, of "CHR ''0''"] by (simp del: char_of_char)
      ultimately have "t = ''0''" using ih by (simp add: dec_string.simps)
      then show False using \<open>hd t \<noteq> CHR ''0''\<close> by simp
    qed
    have "\<not> dec_value t * 10 + (of_char c - 48) < 10" using pos by simp
    moreover have "(dec_value t * 10 + (of_char c - 48)) div 10 = dec_value t"
      "(dec_value t * 10 + (of_char c - 48)) mod 10 = of_char c - 48" using dv(2) by simp_all
    ultimately show ?thesis using dv(1) ih by (simp add: dec_value_snoc dec_string.simps [of "_ + _"])
  qed
qed (simp add: canonical_digits_def)

lemma parse_canonical:
  "canonical_digits s \<Longrightarrow> parse_u32 s = Some n \<longleftrightarrow> s = dec_string n \<and> n < 4294967296"
  using dec_string_dec_value [of s] by (auto simp: parse_u32_def canonical_digits_def dec_value_dec_string)

lemma split_first:
  assumes "CHR ''.'' \<notin> set a"
  shows "split_once (a @ ''.'' @ b) ''.'' = Some (a, b)"
proof -
  have "\<not> prefix ''.'' (drop j (a @ ''.'' @ b))" if "j < length a" for j
  proof -
    have "drop j (a @ ''.'' @ b) = a ! j # drop (Suc j) a @ ''.'' @ b"
      using that by (simp add: Cons_nth_drop_Suc [symmetric])
    moreover have "a ! j \<noteq> CHR ''.''" using assms that by (metis nth_mem)
    ultimately show ?thesis by simp
  qed
  then have "find_str (a @ ''.'' @ b) ''.'' = Some (length a)" by (simp add: find_str_Some)
  then show ?thesis by (simp add: split_once_def)
qed

section \<open>Names and roles\<close>

text \<open>The name of each role, and the roles a model of \<open>n\<close> blocks has.\<close>

primrec role_name :: "tensor_role \<Rightarrow> string" where
  "role_name TokenEmbedding = ''token_embd.weight''"
| "role_name OutputNorm = ''output_norm.weight''"
| "role_name OutputMatrix = ''output.weight''"
| "role_name (AttentionNorm l) = block_name l ''attn_norm.weight''"
| "role_name (AttentionQ l) = block_name l ''attn_q.weight''"
| "role_name (AttentionQNorm l) = block_name l ''attn_q_norm.weight''"
| "role_name (AttentionK l) = block_name l ''attn_k.weight''"
| "role_name (AttentionKNorm l) = block_name l ''attn_k_norm.weight''"
| "role_name (AttentionV l) = block_name l ''attn_v.weight''"
| "role_name (AttentionOutput l) = block_name l ''attn_output.weight''"
| "role_name (FfnNorm l) = block_name l ''ffn_norm.weight''"
| "role_name (DenseGate l) = block_name l ''ffn_gate.weight''"
| "role_name (DenseUp l) = block_name l ''ffn_up.weight''"
| "role_name (DenseDown l) = block_name l ''ffn_down.weight''"
| "role_name (RouterInput l) = block_name l ''ffn_gate_inp.weight''"
| "role_name (RouterSelectionBias l) = block_name l ''exp_probs_b''"
| "role_name (RoutedGate l) = block_name l ''ffn_gate_exps.weight''"
| "role_name (RoutedUp l) = block_name l ''ffn_up_exps.weight''"
| "role_name (RoutedDown l) = block_name l ''ffn_down_exps.weight''"
| "role_name (SharedGate l) = block_name l ''ffn_gate_shexp.weight''"
| "role_name (SharedUp l) = block_name l ''ffn_up_shexp.weight''"
| "role_name (SharedDown l) = block_name l ''ffn_down_shexp.weight''"

definition attention_roles :: "nat \<Rightarrow> tensor_role list" where
  "attention_roles l = [AttentionK l, AttentionKNorm l, AttentionNorm l, AttentionOutput l, AttentionQ l,
     AttentionQNorm l, AttentionV l, FfnNorm l]"

definition feed_forward_roles :: "nat \<Rightarrow> tensor_role list" where
  "feed_forward_roles l =
     (if l = 0 then [DenseDown l, DenseGate l, DenseUp l]
      else [RouterSelectionBias l, RouterInput l, RoutedGate l, RoutedUp l, RoutedDown l, SharedGate l, SharedUp l, SharedDown l])"

definition block_roles :: "nat \<Rightarrow> tensor_role list" where
  "block_roles l = attention_roles l @ feed_forward_roles l"

definition model_roles :: "nat \<Rightarrow> tensor_role list" where
  "model_roles n = [TokenEmbedding, OutputNorm, OutputMatrix] @ concat (map block_roles [0..<n])"

lemmas role_list_defs = attention_roles_def feed_forward_roles_def block_roles_def

lemma block_name_inject: "block_name l s = block_name l t \<longleftrightarrow> s = t"
  by (simp add: block_name_def)

lemma suffix_role_exact:
  "suffix_role l s = Some r \<longleftrightarrow> r \<in> set (block_roles l) \<and> role_name r = block_name l s"
proof
  assume "suffix_role l s = Some r"
  then show "r \<in> set (block_roles l) \<and> role_name r = block_name l s"
    by (simp only: suffix_role_def split: if_split_asm) (clarsimp simp: role_list_defs)+
next
  assume "r \<in> set (block_roles l) \<and> role_name r = block_name l s"
  then show "suffix_role l s = Some r"
    by (auto simp: role_list_defs block_name_inject split: if_split_asm) (simp_all add: suffix_role_def)
qed

lemma classify_layer_exact:
  "classify_layer name n = Some r \<longleftrightarrow> (\<exists>l < min n 4294967296. r \<in> set (block_roles l) \<and> name = role_name r)"
proof
  assume "classify_layer name n = Some r"
  then obtain remainder lt s l where h: "strip_prefix name ''blk.'' = Some remainder"
    "split_once remainder ''.'' = Some (lt, s)" "canonical_digits lt" "parse_u32 lt = Some l" "l < n" "suffix_role l s = Some r"
    by (auto simp: classify_layer_def bind_eq_Some_conv canonical_digits_def split: if_splits)
  have lt: "lt = dec_string l" "l < 4294967296" using h(3,4) parse_canonical by auto
  have "name = block_name l s" using h(1) split_once_Some [OF h(2)] lt by (simp add: strip_prefix_Some block_name_def)
  then show "\<exists>l < min n 4294967296. r \<in> set (block_roles l) \<and> name = role_name r"
    using h(5,6) lt(2) by (auto simp: suffix_role_exact)
next
  assume "\<exists>l < min n 4294967296. r \<in> set (block_roles l) \<and> name = role_name r"
  then obtain l where l: "l < n" "l < 4294967296" "r \<in> set (block_roles l)" "name = role_name r" by auto
  then obtain s where s: "role_name r = block_name l s" by (auto simp: role_list_defs split: if_splits)
  have strip: "strip_prefix name ''blk.'' = Some (dec_string l @ ''.'' @ s)"
    using s l(4) by (simp add: block_name_def strip_prefix_Some)
  have "CHR ''.'' \<notin> set (dec_string l)"
    using dec_string_digits [of l] by (auto simp: list_all_iff is_ascii_digit_def)
  then have "split_once (dec_string l @ ''.'' @ s) ''.'' = Some (dec_string l, s)" by (rule split_first)
  moreover have "canonical_digits (dec_string l)" by (rule dec_string_canonical)
  moreover have "suffix_role l s = Some r" using l(3) s by (simp add: suffix_role_exact)
  moreover have "parse_u32 (dec_string l) = Some l" using l(2) by (simp add: parse_canonical [OF dec_string_canonical])
  ultimately show "classify_layer name n = Some r"
    unfolding classify_layer_def strip bind.bind_lunit using l(1) by (simp add: canonical_digits_def del: append.simps)
qed

lemma block_role_name: "r \<in> set (block_roles l) \<Longrightarrow> prefix ''blk.'' (role_name r)"
  by (auto simp: role_list_defs block_name_def split: if_splits)

lemma set_model_roles:
  "r \<in> set (model_roles n) \<longleftrightarrow> r \<in> {TokenEmbedding, OutputNorm, OutputMatrix} \<or> (\<exists>l < n. r \<in> set (block_roles l))"
  by (auto simp: model_roles_def)

lemma classify_sound:
  "classify name n = Inr r \<longleftrightarrow> r \<in> set (model_roles (min n 4294967296)) \<and> name = role_name r"
proof (cases "name \<in> {''token_embd.weight'', ''output_norm.weight'', ''output.weight''}")
  case True
  then have "\<not> prefix ''blk.'' name" by auto
  then have "\<not> (\<exists>l. r \<in> set (block_roles l) \<and> name = role_name r)" using block_role_name by blast
  moreover have "classify name n = Inr r \<longleftrightarrow> r \<in> {TokenEmbedding, OutputNorm, OutputMatrix} \<and> name = role_name r"
    using True by (elim insertE emptyE) (auto simp: classify_def)
  ultimately show ?thesis unfolding set_model_roles by blast
next
  case False
  then have c: "classify name n = ok_or (InvalidTensorName name) (classify_layer name n)" by (simp add: classify_def)
  have "r \<in> {TokenEmbedding, OutputNorm, OutputMatrix} \<Longrightarrow> name \<noteq> role_name r" using False by auto
  then show ?thesis unfolding c ok_or_Inr classify_layer_exact set_model_roles by blast
qed

text \<open>
  A tensor name is classified exactly when it is the full name of a role that a model with that many
  blocks has -- decimal layer without leading zeros, dense feed-forward tensors in block 0 only, router and
  expert tensors in the later blocks only -- and then as that role, so no two roles share a name.
\<close>

theorem classify_exact:
  "classify name block_count = Inr role \<longleftrightarrow>
     role \<in> set (model_roles (min block_count 4294967296)) \<and> name = role_name role"
  by (rule classify_sound)

section \<open>Generated and explicit schemas\<close>

definition config_in_range :: "hy3_config \<Rightarrow> bool" where
  "config_in_range c \<longleftrightarrow>
     hc_block_count c \<in> {1..1024} \<and> hc_embedding_length c \<in> {1..16777216} \<and> hc_dense_ffn_length c \<in> {1..16777216} \<and>
     hc_expert_ffn_length c \<in> {1..16777216} \<and> hc_shared_expert_ffn_length c \<in> {1..16777216} \<and>
     hc_attention_head_count c \<in> {1..4096} \<and> hc_attention_kv_head_count c \<in> {1..4096} \<and>
     hc_key_length c \<in> {1..65536} \<and> hc_value_length c \<in> {1..65536} \<and> hc_expert_count c \<in> {1..65536} \<and>
     hc_expert_used_count c \<in> {1..hc_expert_count c} \<and> hc_vocabulary_size c \<in> {1..16777216} \<and>
     hc_attention_kv_head_count c \<le> hc_attention_head_count c"

lemma check_range_Inr: "check_range f a lo hi = Inr u \<longleftrightarrow> a \<in> {lo..hi}"
  by (simp add: check_range_def)

lemma validate_schema_config_Inr [result_simps]: "validate_schema_config c = Inr u \<longleftrightarrow> config_in_range c"
  unfolding validate_schema_config_def rbind_Inr check_range_Inr config_in_range_def
    MAX_BLOCK_COUNT_def MAX_MODEL_DIMENSION_def MAX_HEAD_COUNT_def MAX_HEAD_DIMENSION_def MAX_EXPERT_COUNT_def
  by (auto split: if_splits)

definition schema_of :: "hy3_config \<Rightarrow> tensor_spec list" where
  "schema_of c =
     [spec ''token_embd.weight'' TokenEmbedding [hc_embedding_length c, hc_vocabulary_size c] IQ3_S,
      spec ''output_norm.weight'' OutputNorm [hc_embedding_length c] F32,
      spec ''output.weight'' OutputMatrix [hc_embedding_length c, hc_vocabulary_size c] Q5_K] @
     concat (map (\<lambda>layer. attention_specs c (hc_attention_head_count c * hc_key_length c)
         (hc_attention_kv_head_count c * hc_key_length c) (hc_attention_kv_head_count c * hc_value_length c)
         (hc_attention_head_count c * hc_value_length c) layer @ feed_forward_specs c layer) [0..<hc_block_count c])"

lemma small_product: "a \<le> 4096 \<Longrightarrow> b \<le> 65536 \<Longrightarrow> a * b < u64_limit"
  using mult_le_mono [of a 4096 b 65536] by (simp add: u64_limit_def)

lemma generate_schema_Inr:
  "generate_schema grant c = Inr schema \<longleftrightarrow>
     config_in_range c \<and> grant ''generated tensor schema'' ((hc_block_count c - 1) * 16 + 14) \<and> schema = schema_of c"
proof -
  have "hc_attention_head_count c * hc_key_length c < u64_limit" "hc_attention_kv_head_count c * hc_key_length c < u64_limit"
    "hc_attention_kv_head_count c * hc_value_length c < u64_limit" "hc_attention_head_count c * hc_value_length c < u64_limit"
    "(hc_block_count c - 1) * 16 + 14 < u64_limit" "1 \<le> hc_block_count c"
    if "config_in_range c"
    using that by (auto simp: config_in_range_def u64_limit_def intro!: small_product [unfolded u64_limit_def])
  then show ?thesis
    unfolding generate_schema_def rbind_Inr hy3_checked_mul_def ok_or_Inr hy3_reserve_def check_Inr
      validate_schema_config_Inr checked_mul_Some checked_sub_Some checked_add_Some bind_eq_Some_conv schema_of_def
    by auto
qed

lemma attention_specs_roles:
  "map ts_role (attention_specs c q k v w l) = attention_roles l"
  "map ts_name (attention_specs c q k v w l) = map role_name (attention_roles l)"
  by (simp_all add: attention_specs_def attention_roles_def Let_def spec_def)

lemma feed_forward_specs_roles:
  "map ts_role (feed_forward_specs c l) = feed_forward_roles l"
  "map ts_name (feed_forward_specs c l) = map role_name (feed_forward_roles l)"
  by (simp_all add: feed_forward_specs_def feed_forward_roles_def Let_def spec_def)

lemma schema_of_roles:
  "map ts_role (schema_of c) = model_roles (hc_block_count c)"
  "map ts_name (schema_of c) = map role_name (model_roles (hc_block_count c))"
  by (simp_all add: schema_of_def model_roles_def map_concat comp_def attention_specs_roles feed_forward_specs_roles
      block_roles_def [abs_def] spec_def)

lemma block_roles_layer: "r \<in> set (block_roles l) \<Longrightarrow> r \<in> set (block_roles l') \<Longrightarrow> l = l'"
  by (auto simp: role_list_defs split: if_split_asm)

lemma distinct_block_roles: "distinct (block_roles l)"
  by (simp add: role_list_defs)

lemma distinct_model_roles: "distinct (model_roles n)"
proof -
  have "distinct (concat (map block_roles [0..<n]))"
  proof (induction n)
    case (Suc n)
    have "set (concat (map block_roles [0..<n])) \<inter> set (block_roles n) = {}"
      using block_roles_layer by fastforce
    then show ?case using Suc distinct_block_roles by simp
  qed simp
  moreover have "\<not> r \<in> {TokenEmbedding, OutputNorm, OutputMatrix}" if "r \<in> set (block_roles l)" for r l
    using that by (auto simp: role_list_defs split: if_split_asm)
  ultimately show ?thesis by (auto simp: model_roles_def)
qed

lemma role_name_inject:
  assumes "r \<in> set (model_roles n)" "s \<in> set (model_roles n)" "n \<le> 4294967296" "role_name r = role_name s"
  shows "r = s"
  using classify_sound [of "role_name r" n r] classify_sound [of "role_name s" n s] assms by simp

lemma distinct_schema_names: "n \<le> 4294967296 \<Longrightarrow> distinct (map role_name (model_roles n))"
  by (auto simp: distinct_map distinct_model_roles inj_on_def intro: role_name_inject)

text \<open>What \<open>check_explicit\<close> accepts.\<close>

definition spec_sound :: "hy3_config \<Rightarrow> tensor_spec \<Rightarrow> bool" where
  "spec_sound c e \<longleftrightarrow> classify (ts_name e) (hc_block_count c) = Inr (ts_role e) \<and>
     ts_shape e \<noteq> [] \<and> length (ts_shape e) \<le> 3 \<and> 0 \<notin> set (ts_shape e) \<and>
     (is_routed_expert (ts_role e) \<longrightarrow> length (ts_shape e) = 3 \<and> ts_shape e ! 2 = hc_expert_count c)"

lemma check_explicit_Inr:
  "check_explicit c schema names = Inr u \<longleftrightarrow>
     distinct (map ts_name schema) \<and> set names \<inter> set (map ts_name schema) = {} \<and> list_all (spec_sound c) schema"
proof (induction schema arbitrary: names)
  case (Cons e es)
  then show ?case by (auto simp: spec_sound_def rbind_Inr not_le split: if_splits)
qed simp

lemma schema_spec_shape:
  assumes "config_in_range c" "e \<in> set (schema_of c)"
  shows "ts_shape e \<noteq> [] \<and> length (ts_shape e) \<le> 3 \<and> 0 \<notin> set (ts_shape e) \<and>
     (is_routed_expert (ts_role e) \<longrightarrow> length (ts_shape e) = 3 \<and> ts_shape e ! 2 = hc_expert_count c)"
proof -
  have pos: "0 < hc_embedding_length c" "0 < hc_vocabulary_size c" "0 < hc_dense_ffn_length c" "0 < hc_expert_ffn_length c"
    "0 < hc_shared_expert_ffn_length c" "0 < hc_attention_head_count c" "0 < hc_attention_kv_head_count c"
    "0 < hc_key_length c" "0 < hc_value_length c" "0 < hc_expert_count c"
    using assms(1) by (auto simp: config_in_range_def)
  consider (head) "e \<in> {spec ''token_embd.weight'' TokenEmbedding [hc_embedding_length c, hc_vocabulary_size c] IQ3_S,
      spec ''output_norm.weight'' OutputNorm [hc_embedding_length c] F32,
      spec ''output.weight'' OutputMatrix [hc_embedding_length c, hc_vocabulary_size c] Q5_K}"
    | (attn) l where "e \<in> set (attention_specs c (hc_attention_head_count c * hc_key_length c)
         (hc_attention_kv_head_count c * hc_key_length c) (hc_attention_kv_head_count c * hc_value_length c)
         (hc_attention_head_count c * hc_value_length c) l)"
    | (ffn) l where "e \<in> set (feed_forward_specs c l)"
    using assms(2) by (fastforce simp: schema_of_def)
  then show ?thesis
  proof cases
    case head
    then show ?thesis using pos by (auto simp: spec_def)
  next
    case attn
    then show ?thesis using pos by (auto simp: attention_specs_def spec_def Let_def)
  next
    case ffn
    then show ?thesis using pos by (auto simp: feed_forward_specs_def spec_def Let_def split: if_splits)
  qed
qed

lemma schema_of_sound:
  assumes "config_in_range c"
  shows "distinct (map ts_name (schema_of c)) \<and> list_all (spec_sound c) (schema_of c)"
proof
  have n: "hc_block_count c \<le> 4294967296" using assms by (simp add: config_in_range_def)
  show "distinct (map ts_name (schema_of c))" unfolding schema_of_roles by (rule distinct_schema_names [OF n])
  show "list_all (spec_sound c) (schema_of c)"
    unfolding list_all_iff
  proof
    fix e assume e: "e \<in> set (schema_of c)"
    then obtain i where i: "i < length (schema_of c)" "e = schema_of c ! i" by (auto simp: in_set_conv_nth)
    have "ts_role e = map ts_role (schema_of c) ! i" "ts_name e = map ts_name (schema_of c) ! i" using i by simp_all
    moreover have len: "length (model_roles (hc_block_count c)) = length (schema_of c)"
      using arg_cong [OF schema_of_roles(1) [of c], of length] by simp
    ultimately have "ts_name e = role_name (ts_role e)" "ts_role e \<in> set (model_roles (hc_block_count c))"
      using i(1) by (simp_all add: schema_of_roles)
    then have "classify (ts_name e) (hc_block_count c) = Inr (ts_role e)"
      using n by (simp add: classify_sound)
    then show "spec_sound c e" using schema_spec_shape [OF assms e] by (simp add: spec_sound_def)
  qed
qed

lemma length_schema_of: "0 < hc_block_count c \<Longrightarrow> length (schema_of c) = 14 + 16 * (hc_block_count c - 1)"
proof -
  assume "0 < hc_block_count c"
  then have split: "[0..<hc_block_count c] = 0 # [1..<hc_block_count c]" by (simp add: upt_conv_Cons)
  have later: "length (block_roles l) = 16" if "l \<in> set [1..<n]" for l n using that by (simp add: role_list_defs)
  have "length (concat (map block_roles [1..<hc_block_count c])) = sum_list (map (\<lambda>l. 16) [1..<hc_block_count c])"
    unfolding length_concat map_map comp_def using later by (metis (mono_tags, lifting) map_cong)
  then have "length (model_roles (hc_block_count c)) = 14 + 16 * (hc_block_count c - 1)"
    unfolding model_roles_def split by (simp add: sum_list_triv role_list_defs)
  then show ?thesis using arg_cong [OF schema_of_roles(1) [of c], of length] by simp
qed

text \<open> C37.
  The schema generated for a configuration has exactly one entry for every role of a model with that
  many blocks, in order, under the role's own name; it is well-formed in the sense of an explicit profile --
  distinct names that classify to their roles, one to three positive dimensions, the expert dimension of
  the routed tensors equal to the expert count -- and as long as the capacity reserved for it, and it
  exists exactly when the configuration is in range and the allocation succeeds.
\<close>

theorem generated_schema_well_formed:
  "case generate_schema grant c of
     Inl e \<Rightarrow> \<not> (config_in_range c \<and> grant ''generated tensor schema'' ((hc_block_count c - 1) * 16 + 14))
   | Inr schema \<Rightarrow>
       map ts_role schema = model_roles (hc_block_count c) \<and> distinct (map ts_role schema) \<and>
       map ts_name schema = map role_name (model_roles (hc_block_count c)) \<and>
       length schema = (hc_block_count c - 1) * 16 + 14 \<and>
       check_explicit c schema [] = Inr ()"
proof (cases "generate_schema grant c")
  case (Inl e)
  then show ?thesis using generate_schema_Inr [of grant c "schema_of c"] by auto
next
  case (Inr schema)
  then have s: "schema = schema_of c" "config_in_range c" by (simp_all add: generate_schema_Inr)
  then have "0 < hc_block_count c" by (simp add: config_in_range_def)
  then show ?thesis using Inr schema_of_sound [OF s(2)]
    by (simp add: s(1) schema_of_roles distinct_model_roles length_schema_of check_explicit_Inr)
qed

section \<open>Directories against a schema\<close>

definition desc_key :: "tensor_desc \<Rightarrow> string \<times> nat list \<times> ggml_type" where
  "desc_key t = (td_name t, shape_of t, td_ty t)"

definition spec_key :: "tensor_spec \<Rightarrow> string \<times> nat list \<times> ggml_type" where
  "spec_key e = (ts_name e, ts_shape e, ts_ty e)"

definition routed_sound :: "nat \<Rightarrow> tensor_spec \<Rightarrow> bool" where
  "routed_sound n e \<longleftrightarrow> (if is_routed_expert (ts_role e) then length (ts_shape e) = 3 \<and> ts_shape e ! 2 = n else True)"

lemma match_spec_Inr:
  "ts_name e = td_name t \<Longrightarrow> match_spec n e t = Inr u \<longleftrightarrow> spec_key e = desc_key t \<and> routed_sound n e"
  by (auto simp: match_spec_def rbind_Inr validate_routed_shape_def spec_key_def desc_key_def routed_sound_def)

lemma index_descriptors_Inr:
  "index_descriptors ts index = Inr result \<longleftrightarrow>
     distinct (map td_name ts) \<and> set (map td_name ts) \<inter> fst ` set index = {} \<and>
     result = rev (map (\<lambda>t. (td_name t, t)) ts) @ index"
proof (induction ts arbitrary: index)
  case (Cons t ts)
  have "map_of index (td_name t) = None \<longleftrightarrow> td_name t \<notin> fst ` set index" by (rule map_of_eq_None_iff)
  then show ?case using Cons by (auto simp: image_iff)
qed auto

text \<open>The descriptors an index holds, each under its own name.\<close>

definition named_index :: "tensor_desc list \<Rightarrow> descriptor_index" where
  "named_index ts = map (\<lambda>t. (td_name t, t)) ts"

lemma map_of_named_index:
  "distinct (map td_name ts) \<Longrightarrow> map_of (named_index ts) n = Some t \<longleftrightarrow> t \<in> set ts \<and> td_name t = n"
  by (subst map_of_eq_Some_iff) (auto simp: named_index_def comp_def)

lemma filter_named_index:
  "filter (\<lambda>(k, _). k \<noteq> n) (named_index ts) = named_index (filter (\<lambda>t. td_name t \<noteq> n) ts)"
  by (induction ts) (simp_all add: named_index_def)

lemma mset_remove_named:
  assumes "distinct (map td_name ts)" "t \<in> set ts" "td_name t = n"
  shows "mset ts = add_mset t (mset (filter (\<lambda>t. td_name t \<noteq> n) ts))"
  using assms
proof (induction ts)
  case (Cons s ts)
  show ?case
  proof (cases "s = t")
    case True
    then have "filter (\<lambda>t. td_name t \<noteq> n) ts = ts" 
      using Cons.prems True by (intro filter_True) (auto simp: image_iff)
    then show ?thesis using True Cons.prems by simp
  next
    case False
    then have "td_name s \<noteq> n" "t \<in> set ts" using Cons.prems by auto
    then show ?thesis using Cons by simp
  qed
qed simp

lemma match_specs_Inr:
  assumes "distinct (map td_name ts)"
  shows "match_specs n es (named_index ts) = Inr [] \<longleftrightarrow>
     mset (map spec_key es) = mset (map desc_key ts) \<and> list_all (routed_sound n) es"
  using assms
proof (induction es arbitrary: ts)
  case Nil
  then show ?case by (auto simp: named_index_def)
next
  case (Cons e es)
  show ?case
  proof (cases "map_of (named_index ts) (ts_name e)")
    case None
    then have "ts_name e \<notin> td_name ` set ts" by (simp add: map_of_eq_None_iff named_index_def image_image)
    then have "spec_key e \<notin> set (map desc_key ts)" by (auto simp: spec_key_def desc_key_def)
    then have "mset (map spec_key (e # es)) \<noteq> mset (map desc_key ts)"
      by (metis list.set_intros(1) list.simps(9) set_mset_mset)
    then show ?thesis using None by simp
  next
    case (Some t)
    then have t: "t \<in> set ts" "td_name t = ts_name e" using map_of_named_index [OF Cons.prems] by auto
    let ?rest = "filter (\<lambda>t. td_name t \<noteq> ts_name e) ts"
    have d: "distinct (map td_name ?rest)" using Cons.prems by (rule distinct_map_filter)
    have m: "mset (map desc_key ts) = add_mset (desc_key t) (mset (map desc_key ?rest))"
      using arg_cong [OF mset_remove_named [OF Cons.prems t], of "image_mset desc_key"] by simp
    have "spec_key e = desc_key t" if eq: "add_mset (spec_key e) (mset (map spec_key es)) = add_mset (desc_key t) (mset (map desc_key ?rest))"
    proof (rule ccontr)
      assume "spec_key e \<noteq> desc_key t"
      then have "spec_key e \<in># mset (map desc_key ?rest)" using eq by (metis insert_noteq_member)
      then show False by (auto simp: spec_key_def desc_key_def)
    qed
    then have "mset (map spec_key (e # es)) = mset (map desc_key ts) \<longleftrightarrow>
        spec_key e = desc_key t \<and> mset (map spec_key es) = mset (map desc_key ?rest)"
      unfolding m by auto
    then show ?thesis
      using Some Cons.IH [OF d] match_spec_Inr [OF t(2) [symmetric], of n "()"]
      by (auto simp: rbind_Inr filter_named_index)
  qed
qed

lemma validate_against_Inr:
  "validate_against grant pick c schema ts = Inr () \<longleftrightarrow>
     length ts \<le> MAX_SCHEMA_TENSOR_COUNT \<and> grant ''tensor validation index'' (length ts) \<and>
     distinct (map td_name ts) \<and> mset (map spec_key schema) = mset (map desc_key ts) \<and>
     list_all (routed_sound (hc_expert_count c)) schema"
proof -
  have index: "rev (map (\<lambda>t. (td_name t, t)) ts) @ [] = named_index (rev ts)" by (simp add: named_index_def rev_map)
  have "match_specs (hc_expert_count c) schema (named_index (rev ts)) = Inr [] \<longleftrightarrow>
      mset (map spec_key schema) = mset (map desc_key ts) \<and> list_all (routed_sound (hc_expert_count c)) schema"
    if "distinct (map td_name ts)"
    using match_specs_Inr [of "rev ts"] that by (simp add: rev_map [symmetric])
  then show ?thesis
    unfolding validate_against_def hy3_reserve_def
    by (auto simp: rbind_Inr index_descriptors_Inr index [simplified] split: if_splits)
qed

text \<open>
  A directory is accepted against a schema exactly when it fits the count limit and the allocation, its
  names are distinct, and it lists the very entries of the schema -- name, shape and type, in any order,
  none missing and none extra -- with every routed tensor of the schema three-dimensional with the expert
  count last. The answer does not depend on the iteration order of the hash map.
\<close>

theorem directory_validation_exact:
  "validate_against grant pick c schema ts = Inr () \<longleftrightarrow>
     length ts \<le> MAX_SCHEMA_TENSOR_COUNT \<and> grant ''tensor validation index'' (length ts) \<and>
     distinct (map td_name ts) \<and> mset (map spec_key schema) = mset (map desc_key ts) \<and>
     list_all (routed_sound (hc_expert_count c)) schema"
  by (rule validate_against_Inr)

section \<open>Slabs of the experts\<close>

text \<open> C36.
  The slab of an expert: for a payload that a 64-bit length holds and that divides among the experts of a
  three-dimensional tensor, expert \<open>e\<close> gets bytes \<open>e * k\<close> up to \<open>e * k + k\<close>, so the slabs of consecutive
  experts meet, the first starts at 0 and the last ends with the payload; no arithmetic error can occur, and
  any other request is an error.
\<close>

theorem expert_slabs_partition:
  assumes "payload < u64_limit"
  shows "checked_expert_slab name shape payload n e =
    (if length shape = 3 \<and> shape ! 2 = n \<and> e < n \<and> payload mod n = 0
     then Inr \<lparr>es_expert = e, es_relative_range = (e * (payload div n), Suc e * (payload div n))\<rparr>
     else Inl (if length shape \<noteq> 3 then TensorRank name 3 (length shape)
               else if shape ! 2 \<noteq> n then ExpertDimension name n (shape ! 2)
               else if n \<le> e then ExpertIndexOutOfRange name e n
               else ExpertPayloadNotDivisible name payload n)) \<and>
    (payload mod n = 0 \<and> 0 < n \<longleftrightarrow> n * (payload div n) = payload \<and> 0 < n)"
proof -
  have le: "Suc e * (payload div n) \<le> payload" if "e < n"
  proof -
    have "Suc e * (payload div n) \<le> n * (payload div n)" using that by (intro mult_le_mono1) simp
    then show ?thesis using times_div_less_eq_dividend [of n payload] by linarith
  qed
  moreover have "payload mod n = 0 \<and> 0 < n \<longleftrightarrow> n * (payload div n) = payload \<and> 0 < n"
    using mult_div_mod_eq [of n payload] by linarith
  ultimately show ?thesis
    using assms by (auto simp: checked_expert_slab_def Let_def checked_mul_def checked_add_def algebra_simps)
qed

theorem expert_slabs_partition_witness:
  "checked_expert_slab ''w'' [4, 2, 3] 30 3 2 = Inr \<lparr>es_expert = 2, es_relative_range = (20, 30)\<rparr>"
  using expert_slabs_partition [of 30 "''w''" "[4, 2, 3]" 3 2] by (simp add: u64_limit_def)

end
