(* ===== verification/Hy3_Model.thy ===== *)
theory Hy3_Model
  imports Hy3_Schema
begin

text \<open>
  Validated Hy3 models (\<^verbatim>\<open>validate_model_with_profile\<close> in \<^verbatim>\<open>bridge-model-hy3/src/lib.rs\<close>): what a model
  that passed validation is known to hold, for the profile of the selected checkpoint and for explicit ones.
\<close>

section \<open>Validated models\<close>

text \<open>The profile schemas a profile can be built with: the generated one, or an explicit one that was checked.\<close>

definition profile_ok :: "hy3_profile \<Rightarrow> bool" where
  "profile_ok p = (case pf_schema p of
      SelectedIq2M \<Rightarrow> True
    | Explicit schema \<Rightarrow> config_in_range (pf_expected p) \<and> distinct (map ts_name schema) \<and>
        list_all (spec_sound (pf_expected p)) schema)"

lemma selected_profile_ok: "profile_ok selected_iq2_m"
  by (simp add: profile_ok_def selected_iq2_m_def)

lemma profile_explicit_ok: "profile_explicit grant c schema = Inr p \<Longrightarrow> profile_ok p"
  by (auto simp: profile_explicit_def validate_explicit_schema_def rbind_Inr validate_schema_config_Inr
      check_explicit_Inr profile_ok_def hy3_reserve_def split: if_splits)

lemma tensor_schema_distinct:
  assumes "tensor_schema grant p = Inr schema" "profile_ok p"
  shows "distinct (map ts_name schema)"
  using assms schema_of_sound [of "pf_expected p"]
  by (auto simp: tensor_schema_def generate_schema_Inr profile_ok_def split: profile_schema.splits)

lemma place_specs:
  assumes "map_res (place_spec d) schema = Inr ts"
  shows "map ht_role ts = map ts_role schema \<and>
    (\<forall>i < length schema. directory_get d (ts_name (schema ! i)) = Some (ht_location (ts ! i)))"
proof -
  have l: "length ts = length schema" and each: "\<And>i. i < length schema \<Longrightarrow> place_spec d (schema ! i) = Inr (ts ! i)"
    using assms by (auto simp: map_res_Inr list_all2_conv_all_nth)
  have "ht_role (ts ! i) = ts_role (schema ! i) \<and> directory_get d (ts_name (schema ! i)) = Some (ht_location (ts ! i))"
    if "i < length schema" for i
    using arg_cong [OF each [OF that], of "map_sum id ht_role"] arg_cong [OF each [OF that], of "map_sum id ht_location"]
    by (cases "directory_get d (ts_name (schema ! i))") (simp_all add: place_spec_def)
  then show ?thesis using l by (auto intro: nth_equalityI)
qed

lemma place_specs_total:
  assumes "\<And>e. e \<in> set schema \<Longrightarrow> directory_get d (ts_name e) \<noteq> None"
  shows "\<exists>ts. map_res (place_spec d) schema = Inr ts"
  using assms
proof (induction schema)
  case (Cons e es)
  then obtain l where "directory_get d (ts_name e) = Some l" by fastforce
  moreover have "\<exists>ts. map_res (place_spec d) es = Inr ts" using Cons by simp
  moreover obtain t where "place_spec d e = Inr t" using calculation(1) by (simp add: place_spec_def)
  ultimately show ?case by auto
qed simp

lemma validate_model_cases:
  assumes "validate_model_with_profile grant pick st p = Inr m"
  obtains first rest schema where "gs_files st = first # rest" "resolve_config (sh_parsed first) = Inr (vm_config m)"
    "profile_validate p (vm_config m) = Inr ()" "tensor_schema grant p = Inr schema"
    "length (td_ordered (gs_tensors st)) = length schema"
    "validate_against grant pick (vm_config m) schema (map tl_descriptor (td_ordered (gs_tensors st))) = Inr ()"
    "map_res (place_spec (gs_tensors st)) schema = Inr (vm_tensors m)"
  using assms
  by (auto simp: validate_model_with_profile_def rbind_Inr Let_def hy3_reserve_def split: list.splits if_splits)

text \<open>The tensor of a validated model that the schema entry \<open>e\<close> asks for.\<close>

definition realises :: "tensor_spec \<Rightarrow> hy3_tensor \<Rightarrow> bool" where
  "realises e t \<longleftrightarrow> ht_role t = ts_role e \<and> td_name (tl_descriptor (ht_location t)) = ts_name e \<and>
     shape_of (tl_descriptor (ht_location t)) = ts_shape e \<and> td_ty (tl_descriptor (ht_location t)) = ts_ty e"

lemma realised_entry:
  assumes names: "names_ok d" and keys: "mset (map spec_key schema) = mset (map desc_key (map tl_descriptor (td_ordered d)))"
    and e: "e \<in> set schema" "directory_get d (ts_name e) = Some l"
  shows "l \<in> set (td_ordered d) \<and> spec_key e = desc_key (tl_descriptor l)"
proof -
  have l: "l \<in> set (td_ordered d)" "location_name l = ts_name e" using names_ok_get(1) [OF names] e(2) by auto
  have "spec_key e \<in> set (map desc_key (map tl_descriptor (td_ordered d)))"
    using e(1) keys by (metis image_eqI list.set_map set_mset_mset)
  then obtain l' where l': "l' \<in> set (td_ordered d)" "spec_key e = desc_key (tl_descriptor l')" by auto
  then have "location_name l' = ts_name e" by (simp add: spec_key_def desc_key_def)
  then have "l' = l" using names_ok_get(1) [OF names, of "ts_name e"] l l'(1) by (metis option.inject)
  then show ?thesis using l(1) l'(2) by simp
qed

lemma find_role:
  assumes "distinct (map ht_role ts)" "t \<in> set ts"
  shows "find (\<lambda>u. ht_role u = ht_role t) ts = Some t"
  using assms by (induction ts) auto

lemma validated_model_realises:
  assumes "validate_model_with_profile grant pick st p = Inr m" "names_ok (gs_tensors st)" "tensor_schema grant p = Inr schema"
  shows "list_all2 realises schema (vm_tensors m)"
proof -
  obtain first rest where v: "validate_against grant pick (vm_config m) schema (map tl_descriptor (td_ordered (gs_tensors st))) = Inr ()"
    "map_res (place_spec (gs_tensors st)) schema = Inr (vm_tensors m)"
    using validate_model_cases [OF assms(1)] assms(3) by (metis sum.inject(2))
  note keys = v(1) [unfolded validate_against_Inr, THEN conjunct2, THEN conjunct2, THEN conjunct2, THEN conjunct1]
  note placed = place_specs [OF v(2)]
  have len: "length (vm_tensors m) = length schema" using arg_cong [OF conjunct1 [OF placed], of length] by simp
  show ?thesis
    unfolding list_all2_conv_all_nth
  proof (intro conjI allI impI)
    fix i assume i: "i < length schema"
    then have "directory_get (gs_tensors st) (ts_name (schema ! i)) = Some (ht_location (vm_tensors m ! i))"
      using placed by blast
    from realised_entry [OF assms(2) keys nth_mem [OF i] this]
    have "spec_key (schema ! i) = desc_key (tl_descriptor (ht_location (vm_tensors m ! i)))" by simp
    moreover have "ht_role (vm_tensors m ! i) = ts_role (schema ! i)"
      using placed i len by (metis nth_map)
    ultimately show "realises (schema ! i) (vm_tensors m ! i)" by (simp add: realises_def spec_key_def desc_key_def)
  qed (simp add: len)
qed

lemma build_directory_names:
  assumes "build_directory files = Inr d"
  shows "names_ok d"
proof -
  obtain declared where run: "(fold_res add_shard (enumerate 0 files) (\<lparr>td_ordered = [], td_by_name = []\<rparr>, None) :: 'a split_error + _) = Inr (d, declared)"
    using assms by (auto simp: build_directory_def rbind_Inr split: option.splits if_splits)
  have "names_ok \<lparr>td_ordered = [], td_by_name = []\<rparr>" by (simp add: names_ok_def)
  then show ?thesis using add_shards_effect [OF run] by blast
qed

text \<open>No two tensors of a schema have the same role, because a name has one role only.\<close>

lemma schema_roles_distinct:
  assumes "tensor_schema grant p = Inr schema" "profile_ok p"
  shows "distinct (map ts_role schema)"
proof (cases "pf_schema p")
  case SelectedIq2M
  then show ?thesis using assms by (auto simp: tensor_schema_def generate_schema_Inr schema_of_roles distinct_model_roles)
next
  case (Explicit es)
  then have e: "schema = es" "distinct (map ts_name es)" "list_all (spec_sound (pf_expected p)) es"
    using assms by (simp_all add: tensor_schema_def profile_ok_def)
  have name: "ts_name e = role_name (ts_role e)" if "e \<in> set es" for e
    using e(3) that by (auto simp: list_all_iff spec_sound_def classify_sound)
  then have "map ts_name es = map role_name (map ts_role es)" by simp
  then show ?thesis using e(1,2) by (metis distinct_map)
qed

section \<open>Where the bytes are\<close>

text \<open>
  A tensor lies inside its shard: the shard exists and declares its descriptor, its range starts at the offset
  the descriptor gives in the data of the shard, is as long as its shape and type ask for, and ends in the file.
\<close>

definition inside_shard :: "gguf_shard list \<Rightarrow> hy3_tensor \<Rightarrow> bool" where
  "inside_shard files t \<longleftrightarrow>
     (let l = ht_location t; d = tl_descriptor l; f = sh_parsed (files ! tl_shard_index l) in
      tl_shard_index l < length files \<and> d \<in> set (tensors f) \<and>
      fst (tl_absolute_range l) = data_offset f + td_relative_offset d \<and>
      snd (tl_absolute_range l) = fst (tl_absolute_range l) + payload_bytes (td_ty d) (shape_of d) \<and>
      snd (tl_absolute_range l) \<le> file_len f)"

text \<open>
  The slabs of \<open>n\<close> experts fill a tensor: the request for each of them succeeds, with \<open>k\<close> bytes that begin
  where those of the expert before it end, the \<open>n\<close> slabs are as long as the tensor, and none ends behind it.
\<close>

definition slabs_fill :: "nat \<Rightarrow> hy3_tensor \<Rightarrow> bool" where
  "slabs_fill n t \<longleftrightarrow>
     (let (start, stop) = tl_absolute_range (ht_location t); k = (stop - start) div n in
      start + n * k = stop \<and>
      (\<forall>e < n. tensor_expert_slab t n e = Inr \<lparr>es_expert = e, es_relative_range = (e * k, Suc e * k)\<rparr> \<and>
         start + Suc e * k \<le> stop))"

lemma directory_entry_placed:
  assumes "build_directory files = Inr d" "l \<in> set (td_ordered d)"
  shows "\<exists>i t. i < length files \<and> t \<in> set (tensors (sh_parsed (files ! i))) \<and> l = location i (files ! i) t \<and>
    tensor_placed (files ! i) t"
proof -
  obtain declared where run: "(fold_res add_shard (enumerate 0 files) (\<lparr>td_ordered = [], td_by_name = []\<rparr>, None) :: 'a split_error + _) = Inr (d, declared)"
    using assms(1) by (auto simp: build_directory_def rbind_Inr split: option.splits if_splits)
  have "names_ok \<lparr>td_ordered = [], td_by_name = []\<rparr>" by (simp add: names_ok_def)
  note effect = add_shards_effect [OF run this]
  then obtain i s t where p: "(i, s) \<in> set (enumerate 0 files)" "t \<in> set (tensors (sh_parsed s))" "l = location i s t"
    using assms(2) by auto
  then have i: "i < length files" "s = files ! i" by (simp_all add: in_set_enumerate_eq)
  then have "tensor_placed s t" using p(2) effect nth_mem [OF i(1)] by blast
  then show ?thesis using p(2,3) i by blast
qed

lemma entry_inside_shard:
  assumes "build_directory files = Inr d" "ht_location t \<in> set (td_ordered d)"
    and "\<forall>s \<in> set files. \<forall>e \<in> set (tensors (sh_parsed s)). desc_ok e"
  shows "inside_shard files t" "desc_ok (tl_descriptor (ht_location t))" "snd (tl_absolute_range (ht_location t)) < u64_limit"
proof -
  obtain i e where p: "i < length files" "e \<in> set (tensors (sh_parsed (files ! i)))"
    "ht_location t = location i (files ! i) e" "tensor_placed (files ! i) e"
    using directory_entry_placed [OF assms(1,2)] by blast
  let ?f = "sh_parsed (files ! i)"
  have ok: "desc_ok e" using assms(3) p(2) nth_mem [OF p(1)] by blast
  obtain a b where range: "checked_absolute_range e (data_offset ?f) (file_len ?f) = Inr (a, b)"
    using p(4) by (auto simp: tensor_placed_def is_ok_def split: sum.splits)
  then have "a = data_offset ?f + td_relative_offset e \<and> b = a + payload_bytes (td_ty e) (shape_of e) \<and> b \<le> file_len ?f \<and> b < u64_limit"
    using encoded_bytes_Inr [OF ok] by (auto simp: checked_absolute_range_def rbind_Inr not_less split: if_splits)
  moreover have "ht_location t = \<lparr>tl_shard_index = i, tl_descriptor = e, tl_absolute_range = (a, b)\<rparr>"
    using p(3) range by (simp add: location_def)
  ultimately show "inside_shard files t" "desc_ok (tl_descriptor (ht_location t))"
    "snd (tl_absolute_range (ht_location t)) < u64_limit"
    using p(1,2) ok by (simp_all add: inside_shard_def)
qed

lemma expert_slabs_fill:
  assumes "inside_shard files t" "desc_ok (tl_descriptor (ht_location t))" "snd (tl_absolute_range (ht_location t)) < u64_limit"
    and "length (shape_of (tl_descriptor (ht_location t))) = 3" "shape_of (tl_descriptor (ht_location t)) ! 2 = n"
  shows "slabs_fill n t"
proof -
  let ?d = "tl_descriptor (ht_location t)"
  obtain a b where ab: "tl_absolute_range (ht_location t) = (a, b)" by fastforce
  obtain x y where shape: "shape_of ?d = [x, y, n]"
    using assms(4,5) by (auto simp: numeral_3_eq_3 length_Suc_conv)
  have len: "b = a + payload_bytes (td_ty ?d) [x, y, n]" "b < u64_limit"
    using assms(1,3) by (simp_all add: inside_shard_def Let_def ab shape)
  let ?k = "(b - a) div n"
  have pos: "0 < n" using assms(2) by (auto simp: desc_ok_def shape list_all_iff)
  have whole: "n * ?k = b - a" using len(1) by (simp add: payload_bytes_def)
  have le: "Suc e * ?k \<le> b - a" if "e < n" for e
    using mult_le_mono1 [of "Suc e" n ?k] that whole by linarith
  have "tensor_expert_slab t n e = Inr \<lparr>es_expert = e, es_relative_range = (e * ?k, Suc e * ?k)\<rparr> \<and> a + Suc e * ?k \<le> b"
    if e: "e < n" for e
  proof -
    have "(b - a) mod n = 0" using whole by (metis mod_mult_self1_is_0)
    moreover have "e * ?k + ?k \<le> b - a" using le [OF e] by simp
    ultimately show ?thesis
      using e pos len le [OF e]
      by (simp add: tensor_expert_slab_def ab shape checked_expert_slab_def Let_def checked_sub_def checked_mul_def
          checked_add_def add.commute)
  qed
  then show ?thesis using whole len(1) by (simp add: slabs_fill_def ab Let_def)
qed

lemma validated_tensor_bytes:
  assumes "build_directory files = Inr d" "profile_ok p" "tensor_schema grant p = Inr schema"
    and "validate_model_with_profile grant pick \<lparr>gs_files = files, gs_tensors = d\<rparr> p = Inr m"
    and "\<forall>s \<in> set files. \<forall>e \<in> set (tensors (sh_parsed s)). desc_ok e" "t \<in> set (vm_tensors m)"
  shows "inside_shard files t \<and> (is_routed_expert (ht_role t) \<longrightarrow> slabs_fill (hc_expert_count (vm_config m)) t)"
proof -
  let ?st = "\<lparr>gs_files = files, gs_tensors = d\<rparr>"
  have names: "names_ok d" by (rule build_directory_names [OF assms(1)])
  obtain first rest where v: "validate_against grant pick (vm_config m) schema (map tl_descriptor (td_ordered d)) = Inr ()"
    "map_res (place_spec d) schema = Inr (vm_tensors m)"
    using validate_model_cases [OF assms(4)] assms(3) by (metis sum.inject(2) gguf_set.select_convs(2))
  note valid = v(1) [unfolded validate_against_Inr]
  obtain i where i: "i < length (vm_tensors m)" "t = vm_tensors m ! i" using assms(6) by (auto simp: in_set_conv_nth)
  have len: "length (vm_tensors m) = length schema" using arg_cong [OF conjunct1 [OF place_specs [OF v(2)]], of length] by simp
  let ?e = "schema ! i"
  have e: "?e \<in> set schema" "directory_get d (ts_name ?e) = Some (ht_location t)"
    using place_specs [OF v(2)] i len by auto
  have "list_all2 realises schema (vm_tensors m)"
    by (rule validated_model_realises [OF assms(4) _ assms(3)]) (simp add: names)
  then have real: "realises ?e t" using i len by (simp add: list_all2_conv_all_nth)
  have "ht_location t \<in> set (td_ordered d)" using realised_entry [OF names _ e] valid by blast
  note place = entry_inside_shard [OF assms(1) this assms(5)]
  have "slabs_fill (hc_expert_count (vm_config m)) t" if r: "is_routed_expert (ht_role t)"
  proof -
    have "routed_sound (hc_expert_count (vm_config m)) ?e" using valid e(1) by (simp add: list_all_iff)
    then have "length (ts_shape ?e) = 3 \<and> ts_shape ?e ! 2 = hc_expert_count (vm_config m)"
      using r real by (simp add: routed_sound_def realises_def)
    then show ?thesis using expert_slabs_fill [OF place] real by (simp add: realises_def)
  qed
  then show ?thesis using place(1) by blast
qed

text \<open> C17.
  A model that passes validation -- of a set whose directory the program built from shards with the descriptors
  of their constructor, against the selected profile or an explicit one it accepted -- has exactly the tensors
  of the profile's schema, in order, each located at the directory entry of its name with the shape and type
  the schema asks for; nothing else is in the directory; looking a role up succeeds exactly for the roles of
  the schema and finds the tensor with that role, which is the only one; every tensor of the model lies in the
  shard it names, at the offset its descriptor gives, as long as its shape and type ask for, before the end of
  the file; and for every routed tensor the slab of each expert of the model can be had, the slabs following
  each other from the beginning of the tensor to its end, and so inside the file.
\<close>

theorem validated_model_complete:
  assumes "build_directory files = Inr d" "profile_ok p" "tensor_schema grant p = Inr schema"
    and "validate_model_with_profile grant pick \<lparr>gs_files = files, gs_tensors = d\<rparr> p = Inr m"
    and descs: "\<forall>s \<in> set files. \<forall>e \<in> set (tensors (sh_parsed s)). desc_ok e"
  shows "list_all2 realises schema (vm_tensors m) \<and>
    mset (map spec_key schema) = mset (map (desc_key \<circ> tl_descriptor) (td_ordered d)) \<and>
    (tensor_for_role m role = None \<longleftrightarrow> role \<notin> set (map ts_role schema)) \<and>
    (tensor_for_role m role = Some t \<longleftrightarrow> t \<in> set (vm_tensors m) \<and> ht_role t = role) \<and>
    (\<forall>u \<in> set (vm_tensors m). inside_shard files u \<and>
       (is_routed_expert (ht_role u) \<longrightarrow> slabs_fill (hc_expert_count (vm_config m)) u))"
proof -
  have names: "names_ok (gs_tensors \<lparr>gs_files = files, gs_tensors = d\<rparr>)" using build_directory_names [OF assms(1)] by simp
  have real: "list_all2 realises schema (vm_tensors m)" by (rule validated_model_realises [OF assms(4) names assms(3)])
  have "validate_against grant pick (vm_config m) schema (map tl_descriptor (td_ordered d)) = Inr ()"
    using validate_model_cases [OF assms(4)] assms(3) by (metis sum.inject(2) gguf_set.select_convs(2))
  then have keys: "mset (map spec_key schema) = mset (map (desc_key \<circ> tl_descriptor) (td_ordered d))"
    by (simp add: validate_against_Inr)
  have roles: "map ht_role (vm_tensors m) = map ts_role schema"
    using real by (auto simp: list_all2_conv_all_nth realises_def intro: nth_equalityI)
  then have dist: "distinct (map ht_role (vm_tensors m))" using schema_roles_distinct [OF assms(3,2)] by simp
  have "tensor_for_role m role = Some t \<longleftrightarrow> t \<in> set (vm_tensors m) \<and> ht_role t = role"
    using find_role [OF dist, of t] by (auto simp: tensor_for_role_def find_Some_iff)
  moreover have "tensor_for_role m role = None \<longleftrightarrow> role \<notin> set (map ts_role schema)"
    unfolding roles [symmetric] tensor_for_role_def find_None_iff by auto
  moreover have "inside_shard files u \<and> (is_routed_expert (ht_role u) \<longrightarrow> slabs_fill (hc_expert_count (vm_config m)) u)"
    if "u \<in> set (vm_tensors m)" for u
    using validated_tensor_bytes [OF assms that] .
  ultimately show ?thesis using real keys by blast
qed

section \<open>A model of one tensor\<close>

lemma f32_sub_self: "f32_is_finite x \<Longrightarrow> f32_sub x x = 0"
  by (auto simp: f32_finite_val f32_sub_def signed_def f32_of_val_def fencode_def with_sign_def f32_make_def)

lemma tolerance_nonneg: "f32_is_finite x \<Longrightarrow> f32_le 0 (tolerance x)"
  unfolding tolerance_def
proof -
  assume "f32_is_finite x"
  have lo: "f32_le 0 0x2b8cbccc" and hi: "f32_le 0 0x38d1b717"
    by (simp_all add: f32_compare fnan_def fsign_def fmagnitude_def inf_bits_def)
  let ?y = "f32_mul (f32_abs x) 0x358637bd"
  have "f32_is_finite (f32_abs x)" using \<open>f32_is_finite x\<close> by (simp add: f32_is_finite_def f32_abs_def and.assoc)
  moreover have "f32_is_finite 0x358637bd" by (simp add: f32_is_finite_def)
  ultimately obtain s m e t n g where "f32_val (f32_abs x) = FFin s m e" "f32_val 0x358637bd = FFin t n g"
    by (meson f32_finite_val)
  then have "\<not> f32_is_nan ?y" by (simp add: f32_mul_def f32_of_val_nan)
  then have "f32_le 0 ?y" if "\<not> f32_lt ?y 0x2b8cbccc" using that lo by (auto simp: f32_le_def f32_lt_def)
  then show "f32_le 0 (f32_clamp ?y 0x2b8cbccc 0x38d1b717)" using lo hi by (simp add: f32_clamp_def)
qed

text \<open>A configuration with finite numbers passes the comparison with itself.\<close>

lemma compare_float_refl: "f32_is_finite x \<Longrightarrow> compare_float key x x = Inr ()"
  using tolerance_nonneg [of x] by (simp add: compare_float_def f32_sub_self f32_abs_def)

lemma profile_compare_refl: "list_all f32_is_finite (config_floats c) \<Longrightarrow> profile_compare c c = Inr ()"
  by (simp add: profile_compare_def same_def compare_float_refl config_floats_def)

definition tiny_config :: hy3_config where
  "tiny_config = \<lparr>hc_block_count = 1, hc_context_length = 8, hc_embedding_length = 4, hc_dense_ffn_length = 4,
     hc_expert_ffn_length = 4, hc_shared_expert_ffn_length = 4, hc_attention_head_count = 2,
     hc_attention_kv_head_count = 1, hc_key_length = 2, hc_value_length = 2, hc_rms_epsilon = f32_one,
     hc_expert_count = 2, hc_expert_used_count = 1, hc_expert_weights_norm = True, hc_expert_gating_func = 2,
     hc_expert_weights_scale = f32_one, hc_rope_base = f32_one, hc_rope_scaling_type = ''yarn'',
     hc_yarn_factor = f32_one, hc_yarn_original_context = 8, hc_vocabulary_size = 1\<rparr>"

definition tiny_desc :: tensor_desc where
  "tiny_desc = \<lparr>td_name = ''output_norm.weight'', td_shape = [4, 1, 1, 1], td_n_dims = 1, td_ty = F32,
     td_relative_offset = 0, td_strides = [4, 0, 0, 0]\<rparr>"

definition tiny_file :: gguf_file where
  "tiny_file = \<lparr>version = 3, endian = Little,
     metadata = config_entries tiny_config @ [(TOKENS, GArray TString [GString ''a''])],
     tensors = [tiny_desc], alignment = 32, data_offset = 96, file_len = 128\<rparr>"

definition tiny_files :: "gguf_shard list" where
  "tiny_files = [\<lparr>sh_path = [''m.gguf''], sh_parsed = tiny_file, sh_ordinal = 0, sh_count = 1\<rparr>]"

definition tiny_location :: tensor_location where
  "tiny_location = \<lparr>tl_shard_index = 0, tl_descriptor = tiny_desc, tl_absolute_range = (96, 112)\<rparr>"

definition tiny_directory :: tensor_directory where
  "tiny_directory = \<lparr>td_ordered = [tiny_location], td_by_name = [(''output_norm.weight'', 0)]\<rparr>"

definition tiny_schema :: "tensor_spec list" where
  "tiny_schema = [spec ''output_norm.weight'' OutputNorm [4] F32]"

definition tiny_profile :: hy3_profile where
  "tiny_profile = \<lparr>pf_expected = tiny_config, pf_schema = Explicit tiny_schema\<rparr>"

definition tiny_model :: validated_model where
  "tiny_model = \<lparr>vm_config = tiny_config, vm_tensors = [\<lparr>ht_role = OutputNorm, ht_location = tiny_location\<rparr>],
     vm_has_mtp = False\<rparr>"

lemma finite_one: "f32_is_finite f32_one"
  by (simp add: f32_is_finite_def f32_one_def)

lemma tiny_floats: "list_all f32_is_finite (config_floats tiny_config)"
  by (simp add: config_floats_def tiny_config_def finite_one)

lemma tiny_entries_distinct: "distinct (map fst (config_entries c @ [(TOKENS, v)]))"
  by (simp add: config_entries_def ARCHITECTURE_def TOKENS_def)

lemma map_of_entries: "(k, v) \<in> set (config_entries c) \<Longrightarrow> map_of (config_entries c @ [(TOKENS, w)]) k = Some v"
  using map_of_eq_Some_iff [OF tiny_entries_distinct [of c w], of k v] by simp

lemma tiny_tokens: "map_of (config_entries c @ [(TOKENS, w)]) TOKENS = Some w"
  using map_of_eq_Some_iff [OF tiny_entries_distinct [of c w], of TOKENS w] by simp

lemma entries_resolved:
  assumes "metadata f = config_entries c @ [(TOKENS, GArray TString [GString ''a''])]" "hc_vocabulary_size c = 1"
    and "list_all f32_is_finite (config_floats c)"
  shows "resolve_config f = Inr c"
  unfolding resolve_config_iff
proof (intro conjI)
  show "list_all (\<lambda>(k, v). map_of (metadata f) k = Some v) (config_entries c)"
    unfolding assms(1) by (auto simp: list_all_iff map_of_entries simp del: map_of_append)
  show "has_tokens f (hc_vocabulary_size c)"
    unfolding has_tokens_def assms(1) tiny_tokens by (simp add: assms(2))
qed (rule assms(3))

lemma tiny_resolved: "resolve_config tiny_file = Inr tiny_config"
  by (rule entries_resolved [OF _ _ tiny_floats]) (simp_all add: tiny_file_def tiny_config_def)

lemma tiny_built: "build_directory tiny_files = (Inr tiny_directory :: unit split_error + _)"
proof -
  have range: "checked_absolute_range tiny_desc 96 128 = Inr (96, 112)"
    by (simp add: tiny_desc_def checked_absolute_range_def encoded_bytes_def row_bytes_def row_size_def checked_mul_def
        checked_add_def u64_limit_def Let_def)
  have "map_of (metadata tiny_file) ''split.tensors.count'' = None"
    by (simp add: tiny_file_def config_entries_def ARCHITECTURE_def TOKENS_def)
  then have cnt: "optional_aggregate_count \<lparr>sh_path = p, sh_parsed = tiny_file, sh_ordinal = 0, sh_count = Suc 0\<rparr> = (Inr None :: unit split_error + _)" for p
    by (simp add: optional_aggregate_count_Inr)
  have fields: "tensors tiny_file = [tiny_desc]" "alignment tiny_file = 32" "data_offset tiny_file = 96" "file_len tiny_file = 128"
    "td_relative_offset tiny_desc = 0" "td_name tiny_desc = ''output_norm.weight''"
    by (simp_all add: tiny_file_def tiny_desc_def)
  show ?thesis
    using range cnt
    by (simp add: build_directory_def validate_common_fields_def tiny_files_def add_shard_def declare_count_def
        tiny_directory_def tiny_location_def Let_def fields)
qed

lemma tiny_validated:
  "validate_model_with_profile (\<lambda>_ _. True) (\<lambda>_. []) \<lparr>gs_files = tiny_files, gs_tensors = tiny_directory\<rparr> tiny_profile
   = Inr tiny_model"
proof -
  let ?st = "\<lparr>gs_files = tiny_files, gs_tensors = tiny_directory\<rparr>"
  have later: "validate_later_shard_metadata ?st tiny_config = Inr ()"
    by (simp add: validate_later_shard_metadata_def tiny_files_def)
  have profile: "profile_validate tiny_profile tiny_config = Inr ()"
    using profile_compare_refl [OF tiny_floats] by (simp add: profile_validate_def tiny_profile_def)
  have "validate_against (\<lambda>_ _. True) (\<lambda>_. []) tiny_config tiny_schema [tiny_desc] = Inr ()"
    by (simp add: validate_against_Inr tiny_schema_def spec_def spec_key_def desc_key_def tiny_desc_def shape_of_def
        routed_sound_def MAX_SCHEMA_TENSOR_COUNT_def)
  moreover have "map_res (place_spec tiny_directory) tiny_schema = Inr (vm_tensors tiny_model)"
    by (simp add: tiny_schema_def spec_def place_spec_def directory_get_def tiny_directory_def tiny_model_def)
  ultimately show ?thesis
    using tiny_resolved later profile
    by (simp add: validate_model_with_profile_def tiny_files_def tensor_schema_def tiny_profile_def tiny_directory_def
        tiny_location_def hy3_reserve_def tiny_schema_def tiny_model_def)
qed

section \<open>A model with routed experts\<close>

definition moe_config :: hy3_config where
  "moe_config = tiny_config\<lparr>hc_block_count := 2\<rparr>"

definition gate_desc :: tensor_desc where
  "gate_desc = \<lparr>td_name = ''blk.1.ffn_gate_exps.weight'', td_shape = [4, 3, 2, 1], td_n_dims = 3, td_ty = F32,
     td_relative_offset = 32, td_strides = [4, 16, 48, 0]\<rparr>"

definition moe_file :: gguf_file where
  "moe_file = tiny_file\<lparr>metadata := config_entries moe_config @ [(TOKENS, GArray TString [GString ''a''])],
     tensors := [tiny_desc, gate_desc], file_len := 224\<rparr>"

definition moe_files :: "gguf_shard list" where
  "moe_files = [\<lparr>sh_path = [''m.gguf''], sh_parsed = moe_file, sh_ordinal = 0, sh_count = 1\<rparr>]"

definition gate_location :: tensor_location where
  "gate_location = \<lparr>tl_shard_index = 0, tl_descriptor = gate_desc, tl_absolute_range = (128, 224)\<rparr>"

definition moe_directory :: tensor_directory where
  "moe_directory = \<lparr>td_ordered = [tiny_location, gate_location],
     td_by_name = [(''blk.1.ffn_gate_exps.weight'', 1), (''output_norm.weight'', 0)]\<rparr>"

definition moe_schema :: "tensor_spec list" where
  "moe_schema = [spec ''output_norm.weight'' OutputNorm [4] F32,
     spec ''blk.1.ffn_gate_exps.weight'' (RoutedGate 1) [4, 3, 2] F32]"

definition moe_profile :: hy3_profile where
  "moe_profile = \<lparr>pf_expected = moe_config, pf_schema = Explicit moe_schema\<rparr>"

definition moe_model :: validated_model where
  "moe_model = \<lparr>vm_config = moe_config, vm_tensors = [\<lparr>ht_role = OutputNorm, ht_location = tiny_location\<rparr>,
     \<lparr>ht_role = RoutedGate 1, ht_location = gate_location\<rparr>], vm_has_mtp = False\<rparr>"

lemmas moe_fields = moe_file_def tiny_file_def gate_desc_def tiny_desc_def

lemma moe_built: "build_directory moe_files = (Inr moe_directory :: unit split_error + _)"
proof -
  have range: "checked_absolute_range tiny_desc 96 224 = Inr (96, 112)" "checked_absolute_range gate_desc 96 224 = Inr (128, 224)"
    by (simp_all add: tiny_desc_def gate_desc_def checked_absolute_range_def encoded_bytes_def row_bytes_def row_size_def
        checked_mul_def checked_add_def u64_limit_def Let_def)
  have "map_of (metadata moe_file) ''split.tensors.count'' = None"
    by (simp add: moe_file_def config_entries_def ARCHITECTURE_def TOKENS_def)
  then have cnt: "optional_aggregate_count \<lparr>sh_path = p, sh_parsed = moe_file, sh_ordinal = 0, sh_count = Suc 0\<rparr> = (Inr None :: unit split_error + _)" for p
    by (simp add: optional_aggregate_count_Inr)
  have fields: "tensors moe_file = [tiny_desc, gate_desc]" "alignment moe_file = 32" "data_offset moe_file = 96"
    "file_len moe_file = 224" "td_relative_offset tiny_desc = 0" "td_name tiny_desc = ''output_norm.weight''"
    "td_relative_offset gate_desc = 32" "td_name gate_desc = ''blk.1.ffn_gate_exps.weight''"
    by (simp_all add: moe_fields)
  show ?thesis
    using range cnt
    by (simp add: build_directory_def validate_common_fields_def moe_files_def add_shard_def declare_count_def
        moe_directory_def tiny_location_def gate_location_def Let_def fields)
qed

lemma moe_floats: "list_all f32_is_finite (config_floats moe_config)"
  by (simp add: config_floats_def moe_config_def tiny_config_def finite_one)

lemma moe_validated:
  "validate_model_with_profile (\<lambda>_ _. True) (\<lambda>_. []) \<lparr>gs_files = moe_files, gs_tensors = moe_directory\<rparr> moe_profile
   = Inr moe_model"
proof -
  let ?st = "\<lparr>gs_files = moe_files, gs_tensors = moe_directory\<rparr>"
  have resolved: "resolve_config moe_file = Inr moe_config"
    by (rule entries_resolved [OF _ _ moe_floats]) (simp_all add: moe_file_def moe_config_def tiny_config_def)
  have later: "validate_later_shard_metadata ?st moe_config = Inr ()"
    by (simp add: validate_later_shard_metadata_def moe_files_def)
  have profile: "profile_validate moe_profile moe_config = Inr ()"
    using profile_compare_refl [OF moe_floats] by (simp add: profile_validate_def moe_profile_def)
  have "validate_against (\<lambda>_ _. True) (\<lambda>_. []) moe_config moe_schema [tiny_desc, gate_desc] = Inr ()"
    by (simp add: validate_against_Inr moe_schema_def spec_def spec_key_def desc_key_def tiny_desc_def gate_desc_def
        shape_of_def routed_sound_def MAX_SCHEMA_TENSOR_COUNT_def moe_config_def tiny_config_def)
  moreover have "map_res (place_spec moe_directory) moe_schema = Inr (vm_tensors moe_model)"
    by (simp add: moe_schema_def spec_def place_spec_def directory_get_def moe_directory_def moe_model_def)
  ultimately show ?thesis
    using resolved later profile
    by (simp add: validate_model_with_profile_def moe_files_def tensor_schema_def moe_profile_def moe_directory_def
        tiny_location_def gate_location_def hy3_reserve_def moe_schema_def moe_model_def)
qed

theorem validated_model_complete_witness:
  "tensor_for_role moe_model OutputNorm = Some \<lparr>ht_role = OutputNorm, ht_location = tiny_location\<rparr> \<and>
   tensor_for_role moe_model TokenEmbedding = None \<and>
   (let gate = \<lparr>ht_role = RoutedGate 1, ht_location = gate_location\<rparr> in
    inside_shard moe_files gate \<and>
    tensor_expert_slab gate 2 0 = Inr \<lparr>es_expert = 0, es_relative_range = (0, 48)\<rparr> \<and>
    tensor_expert_slab gate 2 1 = Inr \<lparr>es_expert = 1, es_relative_range = (48, 96)\<rparr>)"
proof -
  have s: "tensor_schema (\<lambda>_ _. True) moe_profile = Inr moe_schema" by (simp add: tensor_schema_def moe_profile_def)
  have one: "dec_string (Suc 0) = ''1''" by code_simp
  have "RoutedGate 1 \<in> set (block_roles 1)" by (simp add: role_list_defs)
  then have "classify (role_name (RoutedGate 1)) 2 = Inr (RoutedGate 1)"
    unfolding classify_sound set_model_roles by (intro conjI disjI2 exI [of _ 1]) simp_all
  then have "classify ''blk.1.ffn_gate_exps.weight'' 2 = Inr (RoutedGate 1)"
    using one by (simp add: block_name_def)
  moreover have "classify ''output_norm.weight'' 2 = Inr OutputNorm" by (simp add: classify_def)
  ultimately have ok: "profile_ok moe_profile"
    by (simp add: profile_ok_def moe_profile_def moe_schema_def spec_def spec_sound_def)
      (simp add: config_in_range_def moe_config_def tiny_config_def)
  have descs: "\<forall>s \<in> set moe_files. \<forall>e \<in> set (tensors (sh_parsed s)). desc_ok e"
    by (auto simp: moe_files_def moe_fields desc_ok_def shape_of_def payload_bytes_def u64_limit_def less_Suc_eq
        numeral_3_eq_3 numeral_2_eq_2)
  note all = validated_model_complete [OF moe_built ok s moe_validated descs]
  have n: "hc_expert_count (vm_config moe_model) = 2" by (simp add: moe_model_def moe_config_def tiny_config_def)
  let ?gate = "\<lparr>ht_role = RoutedGate 1, ht_location = gate_location\<rparr>"
  have "?gate \<in> set (vm_tensors moe_model)" by (simp add: moe_model_def)
  then have gate: "inside_shard moe_files ?gate" "slabs_fill 2 ?gate" using all [of OutputNorm] n by auto
  have "tensor_expert_slab ?gate 2 e = Inr \<lparr>es_expert = e, es_relative_range = (e * 48, Suc e * 48)\<rparr>" if "e < 2" for e
    using gate(2) that by (simp add: slabs_fill_def gate_location_def Let_def)
  from this [of 0] this [of 1]
  show ?thesis
    using all [of OutputNorm] all [of TokenEmbedding] gate(1) by (simp add: moe_model_def moe_schema_def spec_def)
qed

text \<open>
  The profile of the selected checkpoint is consistent: its own configuration passes the comparison, lies
  in the permitted ranges, and generates a schema of 1278 tensors; and its context length is the original
  one scaled by the YaRN factor.
\<close>

theorem selected_profile_consistent:
  "profile_validate selected_iq2_m selected_config = Inr () \<and>
   (case tensor_schema (\<lambda>_ _. True) selected_iq2_m of Inr schema \<Rightarrow> length schema = 1278 | Inl _ \<Rightarrow> False) \<and>
   hc_context_length selected_config = hc_yarn_original_context selected_config * u64_of_f32 (hc_yarn_factor selected_config)"
proof (intro conjI)
  have "list_all f32_is_finite (config_floats selected_config)"
    by (simp add: config_floats_def selected_config_def f32_is_finite_def selected_epsilon_def
        selected_weights_scale_def selected_rope_base_def selected_yarn_factor_def)
  then show "profile_validate selected_iq2_m selected_config = Inr ()"
    using profile_compare_refl by (simp add: profile_validate_def selected_iq2_m_def)
  have r: "config_in_range selected_config" by (simp add: config_in_range_def selected_config_def)
  then have g: "generate_schema (\<lambda>_ _. True) selected_config = Inr (schema_of selected_config)"
    by (simp add: generate_schema_Inr)
  have "length (schema_of selected_config) = 1278"
    using length_schema_of [of selected_config] by (simp add: selected_config_def)
  then show "case tensor_schema (\<lambda>_ _. True) selected_iq2_m of Inr schema \<Rightarrow> length schema = 1278 | Inl _ \<Rightarrow> False"
    by (simp add: tensor_schema_def selected_iq2_m_def g)
  show "hc_context_length selected_config = hc_yarn_original_context selected_config * u64_of_f32 (hc_yarn_factor selected_config)"
    by (simp add: selected_config_def selected_yarn_factor_def u64_of_f32_def f32_val_def fdecode_def Let_def emin_def bias_def u64_max_def)
qed

end
