(* ===== verification/Expert_Source.thy ===== *)
theory Expert_Source
  imports Hy3_Model Sidecar_Format Expert_Cache
begin

text \<open>
  Where the bytes of a routed expert come from: the direct index and store of
  \<^verbatim>\<open>bridge-prepare/src/lib.rs\<close>, which reads the three slabs of an expert from the GGUF shards, and the
  \<^verbatim>\<open>ExpertSource\<close> of \<^verbatim>\<open>bridge-runtime/src/hy3_scalar.rs\<close>, which reads them from the shards or from a
  sidecar into one tight payload and cuts it into matrices again. Files are the positioned readers of
  \<open>Positioned_Io\<close>; the cancellation flag of these reads is never raised.
\<close>

section \<open>The direct index\<close>

record payload_segment =
  sr_shard_index :: nat
  sr_range :: "nat \<times> nat"
  sr_ggml_type :: string

definition segment_length :: "payload_segment \<Rightarrow> nat" where
  "segment_length g = snd (sr_range g) - fst (sr_range g)"

record direct_record =
  dr_key :: expert_key
  dr_gate :: payload_segment
  dr_up :: payload_segment
  dr_down :: payload_segment

datatype ('e, 'j) prepare_error =
    PrepHy3 hy3_error
  | PrepRead "'e read_error"
  | PrepFormat format_error
  | PrepSidecar "('e, 'j) sidecar_error"
  | NoMoeLayers
  | PrepMissingTensorRole tensor_role
  | PrepMissingExpert expert_key
  | PrepShardIndexOutOfRange nat
  | SegmentLengthMismatch expert_key nat nat
  | InvalidHashChunk nat nat
  | SourceIo string string 'e
  | OutputIo string string 'e
  | CommitIo string string 'e
  | OutputCollision string
  | OutputOverwritesSource string
  | OutputExists string
  | OutputNotAFile string
  | ManifestSerialization 'j
  | PrepManifestTooLarge nat nat
  | SourceCountMismatch nat nat
  | SourceIdentityMismatch nat nat nat string string
  | DirectoryHashMismatch string string
  | InvalidOutputPath string
  | ClockBeforeEpoch
  | PrepCancelled
  | PrepArithmeticOverflow
  | PrepAllocationFailed nat

definition prep_required_tensor :: "validated_model \<Rightarrow> tensor_role \<Rightarrow> ('e, 'j) prepare_error + hy3_tensor" where
  "prep_required_tensor m role = ok_or (PrepMissingTensorRole role) (tensor_for_role m role)"

definition source_segment :: "hy3_tensor \<Rightarrow> nat \<Rightarrow> nat \<Rightarrow> ('e, 'j) prepare_error + payload_segment" where
  "source_segment t expert_count expert =
     rbind (map_err PrepHy3 (tensor_expert_slab t expert_count expert)) (\<lambda>slab.
     let tensor_start = fst (tl_absolute_range (ht_location t)) in
     rbind (ok_or PrepArithmeticOverflow (checked_add tensor_start (fst (es_relative_range slab)))) (\<lambda>start.
     rbind (ok_or PrepArithmeticOverflow (checked_add tensor_start (snd (es_relative_range slab)))) (\<lambda>stop.
     Inr \<lparr>sr_shard_index = tl_shard_index (ht_location t), sr_range = (start, stop),
          sr_ggml_type = ggml_name (td_ty (tl_descriptor (ht_location t)))\<rparr>)))"

definition expert_record_of ::
  "hy3_config \<Rightarrow> nat \<Rightarrow> hy3_tensor \<Rightarrow> hy3_tensor \<Rightarrow> hy3_tensor \<Rightarrow> nat \<Rightarrow> ('e, 'j) prepare_error + direct_record" where
  "expert_record_of c layer gate up down expert =
     rbind (source_segment gate (hc_expert_count c) expert) (\<lambda>g.
     rbind (source_segment up (hc_expert_count c) expert) (\<lambda>u.
     rbind (source_segment down (hc_expert_count c) expert) (\<lambda>d.
     Inr \<lparr>dr_key = ExpertKey layer expert, dr_gate = g, dr_up = u, dr_down = d\<rparr>)))"

definition layer_records :: "validated_model \<Rightarrow> nat \<Rightarrow> ('e, 'j) prepare_error + direct_record list" where
  "layer_records m layer =
     rbind (prep_required_tensor m (RoutedGate layer)) (\<lambda>gate.
     rbind (prep_required_tensor m (RoutedUp layer)) (\<lambda>up.
     rbind (prep_required_tensor m (RoutedDown layer)) (\<lambda>down.
     map_res (expert_record_of (vm_config m) layer gate up down) [0..<hc_expert_count (vm_config m)])))"

definition direct_index_build :: "(nat \<Rightarrow> bool) \<Rightarrow> validated_model \<Rightarrow> ('e, 'j) prepare_error + direct_record list" where
  "direct_index_build grant m =
     (let c = vm_config m in
     rbind (ok_or NoMoeLayers (checked_sub (hc_block_count c) 1)) (\<lambda>moe_layer_count.
     rbind (ok_or PrepArithmeticOverflow (checked_mul moe_layer_count (hc_expert_count c))) (\<lambda>capacity.
     rbind (check (grant capacity) (PrepAllocationFailed capacity)) (\<lambda>_.
     rbind (map_res (layer_records m) [1..<hc_block_count c]) (\<lambda>rows. Inr (concat rows))))))"

definition direct_index_get :: "direct_record list \<Rightarrow> expert_key \<Rightarrow> direct_record option" where
  "direct_index_get records key =
     Option.bind (binary_search_by_key dr_key records key)
       (\<lambda>i. if i < length records then Some (records ! i) else None)"

definition maximum_segment_bytes :: "direct_record list \<Rightarrow> nat" where
  "maximum_segment_bytes records =
     foldl max 0 (map segment_length (concat (map (\<lambda>r. [dr_gate r, dr_up r, dr_down r]) records)))"

section \<open>The direct store\<close>

text \<open>Opening a shard file with a request limit.\<close>

type_synonym 'e shard_opener = "path \<Rightarrow> read_limits \<Rightarrow> 'e read_error + 'e positioned_file"

record 'e direct_store =
  ds_readers :: "'e positioned_file list"
  ds_index :: "direct_record list"

record expert_segments =
  xb_gate :: "byte list"
  xb_up :: "byte list"
  xb_down :: "byte list"

definition direct_store_open ::
  "(nat \<Rightarrow> bool) \<Rightarrow> 'e shard_opener \<Rightarrow> gguf_set \<Rightarrow> validated_model \<Rightarrow> ('e, 'j) prepare_error + 'e direct_store" where
  "direct_store_open grant opener st m =
     rbind (direct_index_build grant m) (\<lambda>index.
     let maximum = max (maximum_segment_bytes index) 1 in
     rbind (check (grant (length (gs_files st))) (PrepAllocationFailed (length (gs_files st)))) (\<lambda>_.
     rbind (map_res (\<lambda>shard. map_err PrepRead (opener (sh_path shard) \<lparr>max_request_bytes = maximum\<rparr>)) (gs_files st)) (\<lambda>readers.
     Inr \<lparr>ds_readers = readers, ds_index = index\<rparr>)))"

definition read_segment ::
  "(nat \<Rightarrow> bool) \<Rightarrow> 'e direct_store \<Rightarrow> payload_segment \<Rightarrow> nat \<Rightarrow> (('e, 'j) prepare_error + byte list) \<times> nat" where
  "read_segment grant store g t =
     (if sr_shard_index g < length (ds_readers store)
      then (case read_exact_at grant (\<lambda>_. False) (ds_readers store ! sr_shard_index g) (fst (sr_range g)) (snd (sr_range g)) t of
              (r, t') \<Rightarrow> (map_err PrepRead r, t'))
      else (Inl (PrepShardIndexOutOfRange (sr_shard_index g)), t))"

definition direct_read_expert ::
  "(nat \<Rightarrow> bool) \<Rightarrow> 'e direct_store \<Rightarrow> expert_key \<Rightarrow> nat \<Rightarrow> ('e, 'j) prepare_error + expert_segments" where
  "direct_read_expert grant store key t =
     rbind (ok_or (PrepMissingExpert key) (direct_index_get (ds_index store) key)) (\<lambda>r.
       case read_segment grant store (dr_gate r) t of
         (Inl e, _) \<Rightarrow> Inl e
       | (Inr gate, t1) \<Rightarrow>
           (case read_segment grant store (dr_up r) t1 of
              (Inl e, _) \<Rightarrow> Inl e
            | (Inr up, t2) \<Rightarrow>
                (case read_segment grant store (dr_down r) t2 of
                   (Inl e, _) \<Rightarrow> Inl e
                 | (Inr down, _) \<Rightarrow> Inr \<lparr>xb_gate = gate, xb_up = up, xb_down = down\<rparr>)))"

section \<open>Payload layouts\<close>

record matrix_layout =
  ml_ty :: ggml_type
  ml_input_width :: nat
  ml_output_width :: nat
  ml_bytes :: nat

record payload_layout =
  pl_gate :: matrix_layout
  pl_up :: matrix_layout
  pl_down :: matrix_layout

datatype ('e, 'j) expert_read_error =
    ReadDirect "('e, 'j) prepare_error"
  | ReadSidecar "('e, 'j) sidecar_error"
  | ReadSegmentLength string nat nat
  | ReadExpertOverflow
  | ReadExpertAllocation nat

datatype 'j cpu_error = CpuZeroThreads | CpuBuild 'j

text \<open>
  \<^verbatim>\<open>Hy3ScalarError\<close> in three groups: the errors of the parts, those of opening and loading a model, and
  those of running it. The texts of a failed rollback are the two errors themselves.
\<close>

datatype load_fault =
    SelectedModelShardCount nat
  | SelectedModelLength nat nat
  | SparseModelPayload path nat nat
  | IntegrityFileCount nat nat
  | IntegrityHash path string string
  | BigEndianPayload path
  | MissingTensorRole tensor_role
  | ScTensorRank tensor_role nat nat
  | ScTensorType tensor_role ggml_type ggml_type
  | F32PayloadLength tensor_role nat nat
  | NonFiniteF32 tensor_role nat f32
  | ShardIndexOutOfRange nat
  | InvalidContextCapacity nat nat
  | ZeroKvPageTokens
  | ExpertCacheTooSmall nat nat
  | SidecarDirectoryHash string string
  | InsufficientPhysicalMemory nat nat nat nat nat nat

datatype run_fault =
    MissingDenseLayer
  | MissingMoeScratch
  | MissingExpertSource
  | ExpertPayloadLength nat nat
  | ScTokenOutOfRange nat nat
  | ContextExhausted nat nat
  | LogitLength nat nat
  | InconsistentKvLength nat nat nat
  | ScArithmeticOverflow
  | ScAllocationFailed string nat

datatype ('e, 'j) scalar_error =
    ScSplit "'e split_error"
  | ScModel hy3_error
  | ScRead "'e read_error"
  | ScKernel kernel_error
  | ScCpu "'j cpu_error"
  | ScKv kv_error
  | ScQuant quant_error
  | ScPrepare "('e, 'j) prepare_error"
  | ScSidecar "('e, 'j) sidecar_error"
  | ScCache cache_error
  | ScCacheHeat "'j heat_error"
  | ScExpertCache "('e, 'j) expert_read_error load_error"
  | StorageInspection path 'e
  | ScLoad load_fault
  | ScRun run_fault
  | SessionRollback "('e, 'j) scalar_error" "('e, 'j) scalar_error"

definition sc_required_tensor :: "validated_model \<Rightarrow> tensor_role \<Rightarrow> ('e, 'j) scalar_error + hy3_tensor" where
  "sc_required_tensor m role = ok_or (ScLoad (MissingTensorRole role)) (tensor_for_role m role)"

definition matrix_layout_of :: "hy3_tensor \<Rightarrow> nat \<Rightarrow> ('e, 'j) scalar_error + matrix_layout" where
  "matrix_layout_of t expert_count =
     (let d = tl_descriptor (ht_location t); shape = shape_of d in
      if length shape \<noteq> 3 then Inl (ScLoad (ScTensorRank (ht_role t) 3 (length shape)))
      else rbind (map_err ScModel (tensor_expert_slab t expert_count 0)) (\<lambda>slab.
        Inr \<lparr>ml_ty = td_ty d, ml_input_width = shape ! 0, ml_output_width = shape ! 1,
             ml_bytes = snd (es_relative_range slab) - fst (es_relative_range slab)\<rparr>))"

definition payload_layout_from_model :: "validated_model \<Rightarrow> nat \<Rightarrow> ('e, 'j) scalar_error + payload_layout" where
  "payload_layout_from_model m layer =
     (let n = hc_expert_count (vm_config m) in
      rbind (rbind (sc_required_tensor m (RoutedGate layer)) (\<lambda>t. matrix_layout_of t n)) (\<lambda>gate.
      rbind (rbind (sc_required_tensor m (RoutedUp layer)) (\<lambda>t. matrix_layout_of t n)) (\<lambda>up.
      rbind (rbind (sc_required_tensor m (RoutedDown layer)) (\<lambda>t. matrix_layout_of t n)) (\<lambda>down.
      Inr \<lparr>pl_gate = gate, pl_up = up, pl_down = down\<rparr>))))"

definition total_bytes :: "payload_layout \<Rightarrow> nat option" where
  "total_bytes l = Option.bind (checked_add (ml_bytes (pl_gate l)) (ml_bytes (pl_up l)))
     (\<lambda>t. checked_add t (ml_bytes (pl_down l)))"

text \<open>One of the three matrices, over its part of the payload.\<close>

definition layout_matrix :: "matrix_layout \<Rightarrow> byte list \<Rightarrow> ('e, 'j) scalar_error + packed_matrix" where
  "layout_matrix l bytes = map_err ScKernel (from_parts (ml_ty l) PayloadLittle (ml_input_width l) (ml_output_width l) bytes)"

definition payload_view :: "payload_layout \<Rightarrow> byte list \<Rightarrow> ('e, 'j) scalar_error + swiglu_expert" where
  "payload_view l bytes =
     rbind (ok_or (ScRun ScArithmeticOverflow) (total_bytes l)) (\<lambda>total.
     if length bytes \<noteq> total then Inl (ScRun (ExpertPayloadLength total (length bytes)))
     else let gate_end = ml_bytes (pl_gate l) in
       rbind (ok_or (ScRun ScArithmeticOverflow) (checked_add gate_end (ml_bytes (pl_up l)))) (\<lambda>up_end.
       rbind (layout_matrix (pl_gate l) (take gate_end bytes)) (\<lambda>gate.
       rbind (layout_matrix (pl_up l) (take (up_end - gate_end) (drop gate_end bytes))) (\<lambda>up.
       rbind (layout_matrix (pl_down l) (drop up_end bytes)) (\<lambda>down.
       map_err ScKernel (swiglu_expert_new gate up down))))))"

section \<open>The expert source\<close>

datatype 'e expert_source = DirectSource "'e direct_store" | SidecarSource "'e sidecar"

definition append_checked :: "byte list \<Rightarrow> byte list \<Rightarrow> nat \<Rightarrow> string \<Rightarrow> ('e, 'j) expert_read_error + byte list" where
  "append_checked buffer bytes expected part =
     (if length bytes \<noteq> expected then Inl (ReadSegmentLength part expected (length bytes)) else Inr (buffer @ bytes))"

definition append_segments ::
  "payload_layout \<Rightarrow> byte list \<Rightarrow> byte list \<Rightarrow> byte list \<Rightarrow> ('e, 'j) expert_read_error + byte list" where
  "append_segments l gate up down =
     rbind (append_checked [] gate (ml_bytes (pl_gate l)) ''gate'') (\<lambda>buffer.
     rbind (append_checked buffer up (ml_bytes (pl_up l)) ''up'') (\<lambda>buffer.
     append_checked buffer down (ml_bytes (pl_down l)) ''down''))"

text \<open>
  \<^verbatim>\<open>read_tight\<close>. The accessors of sidecar bytes slice by ranges that the manifest check put inside the
  record, so \<open>the\<close> only removes the option of their panic (see \<open>sidecar_read_exact\<close>).
\<close>

definition read_tight ::
  "(nat \<Rightarrow> bool) \<Rightarrow> 'e expert_source \<Rightarrow> expert_key \<Rightarrow> payload_layout \<Rightarrow> nat \<Rightarrow> ('e, 'j) expert_read_error + byte list" where
  "read_tight grant source key l t =
     rbind (ok_or ReadExpertOverflow (total_bytes l)) (\<lambda>expected.
     rbind (check (grant expected) (ReadExpertAllocation expected)) (\<lambda>_.
     case source of
       DirectSource store \<Rightarrow>
         rbind (map_err ReadDirect (direct_read_expert grant store key t)) (\<lambda>bytes.
           append_segments l (xb_gate bytes) (xb_up bytes) (xb_down bytes))
     | SidecarSource sidecar \<Rightarrow>
         rbind (map_err ReadSidecar (read_expert grant (\<lambda>_. False) sidecar key t)) (\<lambda>bytes.
           append_segments l (the (expert_gate bytes)) (the (expert_up bytes)) (the (expert_down bytes)))))"

section \<open>What the index holds\<close>

lemma checked_expert_slab_Inr:
  assumes "checked_expert_slab name shape payload n e = Inr s"
  shows "length shape = 3 \<and> shape ! 2 = n \<and> e < n \<and> payload mod n = 0 \<and>
    s = \<lparr>es_expert = e, es_relative_range = (e * (payload div n), e * (payload div n) + payload div n)\<rparr> \<and>
    e * (payload div n) + payload div n \<le> payload"
  using assms by (auto simp: checked_expert_slab_def Let_def rbind_Inr split: if_splits)

text \<open>The slab of expert \<open>e\<close> in the tensor of a role: its bytes in the shard of that tensor.\<close>

definition slab_bytes_of :: "nat \<Rightarrow> hy3_tensor \<Rightarrow> nat" where
  "slab_bytes_of n t = (snd (tl_absolute_range (ht_location t)) - fst (tl_absolute_range (ht_location t))) div n"

definition slab_range :: "nat \<Rightarrow> hy3_tensor \<Rightarrow> nat \<Rightarrow> nat \<times> nat" where
  "slab_range n t e =
     (fst (tl_absolute_range (ht_location t)) + e * slab_bytes_of n t,
      fst (tl_absolute_range (ht_location t)) + e * slab_bytes_of n t + slab_bytes_of n t)"

definition slab_of :: "validated_model \<Rightarrow> tensor_role \<Rightarrow> nat \<Rightarrow> payload_segment \<Rightarrow> bool" where
  "slab_of m role e g \<longleftrightarrow> (case tensor_for_role m role of
      None \<Rightarrow> False
    | Some t \<Rightarrow>
        g = \<lparr>sr_shard_index = tl_shard_index (ht_location t), sr_range = slab_range (hc_expert_count (vm_config m)) t e,
             sr_ggml_type = ggml_name (td_ty (tl_descriptor (ht_location t)))\<rparr> \<and>
        snd (sr_range g) \<le> snd (tl_absolute_range (ht_location t)))"

lemma source_segment_Inr:
  assumes "source_segment t n e = Inr g"
  shows "g = \<lparr>sr_shard_index = tl_shard_index (ht_location t), sr_range = slab_range n t e,
      sr_ggml_type = ggml_name (td_ty (tl_descriptor (ht_location t)))\<rparr> \<and>
    snd (sr_range g) \<le> snd (tl_absolute_range (ht_location t)) \<and> e < n"
proof -
  obtain a b where ab: "tl_absolute_range (ht_location t) = (a, b)" by fastforce
  obtain s where s: "tensor_expert_slab t n e = Inr s"
    and g: "g = \<lparr>sr_shard_index = tl_shard_index (ht_location t),
        sr_range = (a + fst (es_relative_range s), a + snd (es_relative_range s)),
        sr_ggml_type = ggml_name (td_ty (tl_descriptor (ht_location t)))\<rparr>"
    using assms by (auto simp: source_segment_def rbind_Inr Let_def ab)
  obtain name shape where le: "a \<le> b" and c: "checked_expert_slab name shape (b - a) n e = Inr s"
    using s by (auto simp: tensor_expert_slab_def ab rbind_Inr Let_def)
  have "e * ((b - a) div n) + (b - a) div n \<le> b - a" using checked_expert_slab_Inr [OF c] by blast
  then have "a + (e * ((b - a) div n) + (b - a) div n) \<le> b" using le by linarith
  then show ?thesis
    using checked_expert_slab_Inr [OF c] by (simp add: g ab slab_range_def slab_bytes_of_def)
qed

lemma layer_records_Inr:
  assumes "(layer_records m l :: ('e, 'j) prepare_error + _) = Inr rs"
  shows "map dr_key rs = map (ExpertKey l) [0..<hc_expert_count (vm_config m)] \<and>
    (\<forall>r \<in> set rs. \<forall>e. dr_key r = ExpertKey l e \<longrightarrow>
       slab_of m (RoutedGate l) e (dr_gate r) \<and> slab_of m (RoutedUp l) e (dr_up r) \<and> slab_of m (RoutedDown l) e (dr_down r))"
proof -
  let ?n = "hc_expert_count (vm_config m)"
  obtain g u d where t: "tensor_for_role m (RoutedGate l) = Some g" "tensor_for_role m (RoutedUp l) = Some u"
    "tensor_for_role m (RoutedDown l) = Some d"
    and r: "map_res (expert_record_of (vm_config m) l g u d :: nat \<Rightarrow> ('e, 'j) prepare_error + _) [0..<?n] = Inr rs"
    using assms by (auto simp: layer_records_def prep_required_tensor_def rbind_Inr)
  from r have each: "list_all2 (\<lambda>e r. (expert_record_of (vm_config m) l g u d e :: ('e, 'j) prepare_error + _) = Inr r) [0..<?n] rs" by (simp add: map_res_Inr)
  have one: "dr_key r = ExpertKey l e \<and> slab_of m (RoutedGate l) e (dr_gate r) \<and> slab_of m (RoutedUp l) e (dr_up r) \<and>
      slab_of m (RoutedDown l) e (dr_down r)" if "(expert_record_of (vm_config m) l g u d e :: ('e, 'j) prepare_error + _) = Inr r" for e r
    using that t by (auto simp: expert_record_of_def rbind_Inr slab_of_def dest!: source_segment_Inr)
  have "map dr_key rs = map (ExpertKey l) [0..<?n]"
    using each one by (auto simp: list_all2_conv_all_nth intro!: nth_equalityI)
  moreover have "slab_of m (RoutedGate l) e (dr_gate r) \<and> slab_of m (RoutedUp l) e (dr_up r) \<and> slab_of m (RoutedDown l) e (dr_down r)"
    if "r \<in> set rs" "dr_key r = ExpertKey l e" for r e
  proof -
    from that(1) each obtain e' where "(expert_record_of (vm_config m) l g u d e' :: ('e, 'j) prepare_error + _) = Inr r"
      by (auto simp: list_all2_conv_all_nth in_set_conv_nth)
    with one [OF this] that(2) show ?thesis by simp
  qed
  ultimately show ?thesis by blast
qed

definition expert_keys :: "nat \<Rightarrow> nat \<Rightarrow> expert_key list" where
  "expert_keys block_count n = concat (map (\<lambda>l. map (ExpertKey l) [0..<n]) [1..<block_count])"

lemma set_expert_keys: "ExpertKey l e \<in> set (expert_keys b n) \<longleftrightarrow> 1 \<le> l \<and> l < b \<and> e < n"
  by (auto simp: expert_keys_def image_iff Bex_def)

lemma expert_keys_sorted: "sorted_wrt (<) (expert_keys b n)"
proof (induction b)
  case (Suc b)
  have row: "sorted_wrt (<) (map (ExpertKey l) [0..<n])" for l
    by (simp add: sorted_wrt_map less_expert_key_def sorted_wrt_upt)
  have "k < k'" if "k \<in> set (expert_keys b n)" "k' \<in> set (map (ExpertKey b) [0..<n])" for k k'
    using that set_expert_keys [of "key_layer k" "key_expert k" b n] by (auto simp: less_expert_key_def)
  then show ?case
    using Suc row by (cases b) (auto simp: expert_keys_def sorted_wrt_append)
qed (simp add: expert_keys_def)

lemma direct_index_Inr:
  assumes "(direct_index_build grant m :: ('e, 'j) prepare_error + _) = Inr records"
  shows "map dr_key records = expert_keys (hc_block_count (vm_config m)) (hc_expert_count (vm_config m))"
    "r \<in> set records \<Longrightarrow> dr_key r = ExpertKey l e \<Longrightarrow>
       slab_of m (RoutedGate l) e (dr_gate r) \<and> slab_of m (RoutedUp l) e (dr_up r) \<and> slab_of m (RoutedDown l) e (dr_down r)"
proof -
  obtain rows where rows: "map_res (layer_records m :: nat \<Rightarrow> ('e, 'j) prepare_error + _) [1..<hc_block_count (vm_config m)] = Inr rows" "records = concat rows"
    using assms by (auto simp: direct_index_build_def Let_def rbind_Inr)
  then have each: "list_all2 (\<lambda>l rs. (layer_records m l :: ('e, 'j) prepare_error + _) = Inr rs) [1..<hc_block_count (vm_config m)] rows" by (simp add: map_res_Inr)
  then have "map (map dr_key) rows = map (\<lambda>l. map (ExpertKey l) [0..<hc_expert_count (vm_config m)]) [1..<hc_block_count (vm_config m)]"
    using layer_records_Inr by (induction rule: list_all2_induct) auto
  then show "map dr_key records = expert_keys (hc_block_count (vm_config m)) (hc_expert_count (vm_config m))"
    by (simp add: rows(2) map_concat expert_keys_def)
  show "slab_of m (RoutedGate l) e (dr_gate r) \<and> slab_of m (RoutedUp l) e (dr_up r) \<and> slab_of m (RoutedDown l) e (dr_down r)"
    if r: "r \<in> set records" "dr_key r = ExpertKey l e"
  proof -
    from r(1) rows(2) obtain rs where in_rows: "rs \<in> set rows" "r \<in> set rs" by auto
    from in_rows(1) obtain i where "i < length rows" "rows ! i = rs" by (auto simp: in_set_conv_nth)
    then have "(layer_records m ([1..<hc_block_count (vm_config m)] ! i) :: ('e, 'j) prepare_error + _) = Inr rs"
      using list_all2_nthD2 [OF each] by blast
    then obtain l' where "(layer_records m l' :: ('e, 'j) prepare_error + _) = Inr rs" by blast
    note rs = this in_rows(2)
    from layer_records_Inr [OF rs(1)] have keys: "map dr_key rs = map (ExpertKey l') [0..<hc_expert_count (vm_config m)]" by blast
    have "dr_key r \<in> set (map dr_key rs)" using rs(2) by simp
    then have "l' = l" using r(2) unfolding keys by auto
    then show ?thesis using layer_records_Inr [OF rs(1)] rs(2) r(2) by blast
  qed
qed

lemma index_lookup:
  assumes "map dr_key records = expert_keys b n"
  shows "direct_index_get records k = Some r \<longleftrightarrow> r \<in> set records \<and> dr_key r = k"
    "direct_index_get records k = None \<longleftrightarrow> k \<notin> set (expert_keys b n)"
proof -
  have "sorted_wrt (\<lambda>a b. dr_key a < dr_key b) records"
    using expert_keys_sorted [of b n] unfolding assms [symmetric] by (simp add: sorted_wrt_map)
  note search = binary_search_exact [OF this]
  have keys: "dr_key ` set records = set (expert_keys b n)" by (metis assms list.set_map)
  show "direct_index_get records k = None \<longleftrightarrow> k \<notin> set (expert_keys b n)"
    unfolding keys [symmetric] using search(1) [of k] search(2) [of k]
    by (cases "binary_search_by_key dr_key records k") (auto simp: direct_index_get_def)
  show "direct_index_get records k = Some r \<longleftrightarrow> r \<in> set records \<and> dr_key r = k"
  proof
    assume "direct_index_get records k = Some r"
    then obtain i where i: "binary_search_by_key dr_key records k = Some i" "i < length records" "records ! i = r"
      by (auto simp: direct_index_get_def bind_eq_Some_conv split: if_splits)
    then show "r \<in> set records \<and> dr_key r = k" using search(1) [of k i] nth_mem by blast
  next
    assume "r \<in> set records \<and> dr_key r = k"
    then obtain i where i: "i < length records" "records ! i = r" "dr_key r = k" by (auto simp: in_set_conv_nth)
    then have "binary_search_by_key dr_key records k = Some i" using search(1) [of k i] by blast
    then show "direct_index_get records k = Some r" unfolding direct_index_get_def using i(1,2) by simp
  qed
qed

text \<open>
  The direct index of a model is exact: its keys are those of every expert of every block after the first, in
  order; the binary search finds a record exactly for those keys; and the record of an expert names, for
  each of its three matrices, the shard and the absolute range of that expert's slab of the routed tensor,
  which stays inside the tensor.
\<close>

theorem direct_index_exact:
  assumes "direct_index_build grant m = Inr records"
  shows "map dr_key records = expert_keys (hc_block_count (vm_config m)) (hc_expert_count (vm_config m)) \<and>
    (case direct_index_get records (ExpertKey l e) of
       None \<Rightarrow> \<not> (1 \<le> l \<and> l < hc_block_count (vm_config m) \<and> e < hc_expert_count (vm_config m))
     | Some r \<Rightarrow> 1 \<le> l \<and> l < hc_block_count (vm_config m) \<and> e < hc_expert_count (vm_config m) \<and>
         dr_key r = ExpertKey l e \<and> slab_of m (RoutedGate l) e (dr_gate r) \<and> slab_of m (RoutedUp l) e (dr_up r) \<and>
         slab_of m (RoutedDown l) e (dr_down r))"
proof -
  note built = direct_index_Inr [OF assms]
  note look = index_lookup [OF built(1)]
  show ?thesis
  proof (cases "direct_index_get records (ExpertKey l e)")
    case None
    then show ?thesis using built(1) look(2) [of "ExpertKey l e"] by (simp add: set_expert_keys)
  next
    case (Some r)
    then have r: "r \<in> set records" "dr_key r = ExpertKey l e" using look(1) by blast+
    have "ExpertKey l e \<in> set (expert_keys (hc_block_count (vm_config m)) (hc_expert_count (vm_config m)))"
      using look(2) [of "ExpertKey l e"] Some by simp
    then show ?thesis using built(1) built(2) [OF r] Some r by (simp add: set_expert_keys)
  qed
qed

section \<open>Reading the slabs\<close>

text \<open>The bytes of an expert's slab, in the shard files \<open>datas\<close>.\<close>

definition segment_data :: "byte list list \<Rightarrow> payload_segment \<Rightarrow> byte list" where
  "segment_data datas g = take (segment_length g) (drop (fst (sr_range g)) (datas ! sr_shard_index g))"

definition readers_faithful :: "'e direct_store \<Rightarrow> byte list list \<Rightarrow> bool" where
  "readers_faithful store datas \<longleftrightarrow> list_all2 faithful (ds_readers store) datas"

lemma read_segment_Inr:
  fixes grant :: "nat \<Rightarrow> bool"
  assumes "readers_faithful store datas" "read_segment grant store g t = (Inr bs, t')"
  shows "bs = segment_data datas g"
proof -
  let ?i = "sr_shard_index g"
  have i: "?i < length (ds_readers store)"
    and r: "read_exact_at grant (\<lambda>_. False) (ds_readers store ! ?i) (fst (sr_range g)) (snd (sr_range g)) t = (Inr bs, t')"
    using assms(2) by (auto simp: read_segment_def split: if_splits prod.splits)
  have f: "faithful (ds_readers store ! ?i) (datas ! ?i)"
    using assms(1) i by (simp add: readers_faithful_def list_all2_conv_all_nth)
  have len: "length bs = segment_length g" using positioned.read_length [OF f r] by (simp add: segment_length_def)
  then show ?thesis
    using positioned.read_part [OF f r, of 0 "segment_length g"] by (simp add: segment_data_def segment_length_def)
qed

lemma direct_read_Inr:
  assumes "readers_faithful store datas" "(direct_read_expert grant store key t :: ('e, 'j) prepare_error + _) = Inr b"
  shows "\<exists>r. direct_index_get (ds_index store) key = Some r \<and> xb_gate b = segment_data datas (dr_gate r) \<and>
    xb_up b = segment_data datas (dr_up r) \<and> xb_down b = segment_data datas (dr_down r)"
proof -
  obtain r where r: "direct_index_get (ds_index store) key = Some r"
    using assms(2) by (auto simp: direct_read_expert_def rbind_Inr)
  obtain g t1 where g: "(read_segment grant store (dr_gate r) t :: (('e, 'j) prepare_error + _) \<times> nat) = (g, t1)" by fastforce
  obtain u t2 where u: "(read_segment grant store (dr_up r) t1 :: (('e, 'j) prepare_error + _) \<times> nat) = (u, t2)" by fastforce
  obtain d t3 where d: "(read_segment grant store (dr_down r) t2 :: (('e, 'j) prepare_error + _) \<times> nat) = (d, t3)" by fastforce
  obtain gb ub db where "g = Inr gb" "u = Inr ub" "d = Inr db" "b = \<lparr>xb_gate = gb, xb_up = ub, xb_down = db\<rparr>"
    using assms(2) by (auto simp: direct_read_expert_def r g u d split: sum.splits)
  then show ?thesis using r g u d read_segment_Inr [OF assms(1)] by fastforce
qed

section \<open>Tight payloads\<close>

lemma append_segments_Inr:
  "append_segments l gate up down = Inr bytes \<longleftrightarrow>
     length gate = ml_bytes (pl_gate l) \<and> length up = ml_bytes (pl_up l) \<and> length down = ml_bytes (pl_down l) \<and>
     bytes = gate @ up @ down"
  by (auto simp: append_segments_def append_checked_def rbind_Inr)

lemma total_bytes_Some:
  "total_bytes l = Some n \<longleftrightarrow>
     n = ml_bytes (pl_gate l) + ml_bytes (pl_up l) + ml_bytes (pl_down l) \<and> n < u64_limit"
  by (auto simp: total_bytes_def bind_eq_Some_conv)

lemma payload_view_append:
  assumes "append_segments l gate up down = (Inr bytes :: ('e, 'j) expert_read_error + _)" "length bytes < u64_limit"
  shows "payload_view l bytes =
    rbind (layout_matrix (pl_gate l) gate) (\<lambda>g. rbind (layout_matrix (pl_up l) up) (\<lambda>u.
    rbind (layout_matrix (pl_down l) down) (\<lambda>d. map_err ScKernel (swiglu_expert_new g u d))))"
proof -
  have b: "length gate = ml_bytes (pl_gate l)" "length up = ml_bytes (pl_up l)" "length down = ml_bytes (pl_down l)"
    "bytes = gate @ up @ down" using assms(1) by (simp_all add: append_segments_Inr)
  have t: "total_bytes l = Some (length bytes)" using assms(2) b by (simp add: total_bytes_Some)
  have add: "checked_add (ml_bytes (pl_gate l)) (ml_bytes (pl_up l)) = Some (length gate + length up)"
    using assms(2) b by simp
  show ?thesis unfolding payload_view_def t Let_def add ok_or_simps rbind_simps by (simp add: b)
qed

lemma payload_view_length:
  assumes "total_bytes l = Some n"
  shows "(payload_view l other :: ('e, 'j) scalar_error + _) = Inl (ScRun (ExpertPayloadLength n (length other))) \<longleftrightarrow>
    length other \<noteq> n"
proof -
  have add: "checked_add (ml_bytes (pl_gate l)) (ml_bytes (pl_up l)) = Some (ml_bytes (pl_gate l) + ml_bytes (pl_up l))"
    using assms by (simp add: total_bytes_Some)
  have kernel: "map_err ScKernel r = Inl (ScRun f) \<longleftrightarrow> False" for r :: "kernel_error + 'x" and f by (cases r) auto
  show ?thesis
    unfolding payload_view_def assms Let_def ok_or_simps rbind_simps add
    by (auto simp: rbind_Inl layout_matrix_def kernel)
qed

lemma read_tight_Inr:
  assumes "read_tight grant (DirectSource store) key l t = Inr bytes" "readers_faithful store datas"
  shows "\<exists>r. direct_index_get (ds_index store) key = Some r \<and>
    bytes = segment_data datas (dr_gate r) @ segment_data datas (dr_up r) @ segment_data datas (dr_down r) \<and>
    total_bytes l = Some (length bytes)"
  using assms(1) direct_read_Inr [OF assms(2)]
  by (fastforce simp: read_tight_def rbind_Inr append_segments_Inr total_bytes_Some)

section \<open>A model with two experts\<close>

definition pair_tensor :: "tensor_role \<Rightarrow> nat \<Rightarrow> hy3_tensor" where
  "pair_tensor role start = \<lparr>ht_role = role, ht_location = \<lparr>tl_shard_index = 0,
     tl_descriptor = \<lparr>td_name = role_name role, td_shape = [1, 1, 2, 1], td_n_dims = 3, td_ty = F32,
       td_relative_offset = start, td_strides = [4, 4, 4, 0]\<rparr>,
     tl_absolute_range = (start, start + 8)\<rparr>\<rparr>"

definition pair_model :: validated_model where
  "pair_model = \<lparr>vm_config = tiny_config\<lparr>hc_block_count := 2\<rparr>,
     vm_tensors = [pair_tensor (RoutedGate 1) 0, pair_tensor (RoutedUp 1) 8, pair_tensor (RoutedDown 1) 16], vm_has_mtp = False\<rparr>"

definition pair_segment :: "nat \<Rightarrow> payload_segment" where
  "pair_segment start = \<lparr>sr_shard_index = 0, sr_range = (start, start + 4), sr_ggml_type = ''F32''\<rparr>"

definition pair_records :: "direct_record list" where
  "pair_records = map (\<lambda>e. \<lparr>dr_key = ExpertKey 1 e, dr_gate = pair_segment (4 * e), dr_up = pair_segment (8 + 4 * e),
     dr_down = pair_segment (16 + 4 * e)\<rparr>) [0, 1]"

lemma pair_tensors:
  "tensor_for_role pair_model (RoutedGate 1) = Some (pair_tensor (RoutedGate 1) 0)"
  "tensor_for_role pair_model (RoutedUp 1) = Some (pair_tensor (RoutedUp 1) 8)"
  "tensor_for_role pair_model (RoutedDown 1) = Some (pair_tensor (RoutedDown 1) 16)"
  by (simp_all add: tensor_for_role_def pair_model_def pair_tensor_def)

lemma pair_config: "hc_block_count (vm_config pair_model) = 2" "hc_expert_count (vm_config pair_model) = 2"
  by (simp_all add: pair_model_def tiny_config_def)

lemma pair_source:
  "e < 2 \<Longrightarrow> start < 100 \<Longrightarrow> source_segment (pair_tensor role start) 2 e = Inr (pair_segment (start + 4 * e))"
  by (simp add: source_segment_def tensor_expert_slab_def checked_expert_slab_def pair_tensor_def shape_of_def
      checked_sub_def checked_mul_def checked_add_def u64_limit_def pair_segment_def Let_def mult.commute)

lemma pair_index: "direct_index_build (\<lambda>_. True) pair_model = (Inr pair_records :: (unit, unit) prepare_error + _)"
proof -
  have "layer_records pair_model 1 = (Inr pair_records :: (unit, unit) prepare_error + _)"
    unfolding layer_records_def prep_required_tensor_def pair_tensors ok_or_simps rbind_simps pair_config
    by (simp add: expert_record_of_def pair_config pair_source upt_rec pair_records_def)
  then show ?thesis
    unfolding direct_index_build_def Let_def pair_config
    by (simp add: checked_sub_def checked_mul_def u64_limit_def upt_rec)
qed

theorem direct_index_exact_witness:
  "case direct_index_get pair_records (ExpertKey 1 1) of None \<Rightarrow> False | Some r \<Rightarrow> slab_of pair_model (RoutedUp 1) 1 (dr_up r)"
  using direct_index_exact [OF pair_index, of 1 1] by (auto simp: pair_config split: option.splits)

end
