(* ===== verification/Source_Binding.thy ===== *)
theory Source_Binding
  imports Expert_Source
begin

text \<open>
  The digests that bind a sidecar and a cache snapshot to the GGUF shards they were made from
  (\<^verbatim>\<open>tensor_directory_sha256\<close>, \<^verbatim>\<open>hash_source_files\<close> and \<^verbatim>\<open>verify_source_bindings\<close> of
  \<^verbatim>\<open>bridge-prepare/src/lib.rs\<close>; \<^verbatim>\<open>verify_file_hashes\<close> and \<^verbatim>\<open>build_model_fingerprint\<close> of
  \<^verbatim>\<open>bridge-runtime/src/hy3_scalar.rs\<close>). SHA-256 is the argument \<open>sha\<close>, a function of the bytes that were
  passed to \<^verbatim>\<open>update\<close>.
\<close>

section \<open>The tensor directory\<close>

definition hash_u64 :: "nat \<Rightarrow> byte list" where "hash_u64 v = u64_to_le v"

definition hash_bytes :: "byte list \<Rightarrow> byte list" where "hash_bytes bs = hash_u64 (length bs) @ bs"

definition location_input :: "tensor_location \<Rightarrow> byte list" where
  "location_input l =
     (let d = tl_descriptor l in
      hash_bytes (bytes_of_str (td_name d)) @ hash_u64 (tl_shard_index l) @
      hash_u64 (fst (tl_absolute_range l)) @ hash_u64 (snd (tl_absolute_range l)) @
      hash_u64 (td_n_dims d) @ concat (map hash_u64 (shape_of d)) @ concat (map hash_u64 (td_strides d)) @
      hash_bytes (bytes_of_str (ggml_name (td_ty d))))"

definition directory_input :: "tensor_directory \<Rightarrow> byte list" where
  "directory_input d =
     bytes_of_str ''lightbridge-tensor-directory-v1'' @ [0] @ concat (map location_input (td_ordered d))"

definition tensor_directory_sha256 :: "(byte list \<Rightarrow> byte list) \<Rightarrow> gguf_set \<Rightarrow> string" where
  "tensor_directory_sha256 sha st = lower_hex_of (sha (directory_input (gs_tensors st)))"

definition model_fingerprint :: "(byte list \<Rightarrow> byte list) \<Rightarrow> gguf_set \<Rightarrow> string list \<Rightarrow> byte list" where
  "model_fingerprint sha st source_sha256 =
     sha (bytes_of_str ''lightbridge-hy3-kv-v1'' @ [0] @ bytes_of_str (tensor_directory_sha256 sha st) @
          concat (map (\<lambda>h. [0] @ bytes_of_str h) source_sha256))"

section \<open>Whole files\<close>

definition MAX_HASH_CHUNK_BYTES :: nat where "MAX_HASH_CHUNK_BYTES = 64 * 1024 * 1024"

definition validate_hash_chunk :: "nat \<Rightarrow> ('e, 'j) prepare_error + unit" where
  "validate_hash_chunk chunk_size =
     (if chunk_size = 0 \<or> MAX_HASH_CHUNK_BYTES < chunk_size then Inl (InvalidHashChunk chunk_size MAX_HASH_CHUNK_BYTES)
      else Inr ())"

text \<open>
  The loop over a file: \<open>hashed\<close> is what was passed to \<^verbatim>\<open>update\<close>. Only a chunk of zero bytes would never
  end, which is \<open>None\<close>. The buffer is overwritten before it is hashed, so its old contents do not matter.
\<close>

partial_function (option) source_hash_loop ::
  "(nat \<Rightarrow> bool) \<Rightarrow> 'e positioned_file \<Rightarrow> nat \<Rightarrow> nat \<Rightarrow> byte list \<Rightarrow> nat \<Rightarrow>
   ((('e, 'j) prepare_error + byte list) \<times> nat) option" where
  "source_hash_loop cancelled f chunk offset hashed t =
     (if \<not> offset < pf_length f then Some (Inr hashed, t)
      else if cancelled t then Some (Inl PrepCancelled, Suc t)
      else let len = min (pf_length f - offset) chunk in
        case read_exact_at_into f cancelled offset (replicate len 0) (Suc t) of
          (Inl e, _, t') \<Rightarrow> Some (Inl (PrepRead e), t')
        | (Inr _, buf, t') \<Rightarrow>
            (case checked_add offset len of
               None \<Rightarrow> Some (Inl PrepArithmeticOverflow, t')
             | Some stop \<Rightarrow> source_hash_loop cancelled f chunk stop (hashed @ buf) t'))"

text \<open>
  One source file: its canonical path (as text), an opened reader, a granted buffer, its hash.
\<close>

definition hash_source_file ::
  "(byte list \<Rightarrow> byte list) \<Rightarrow> (nat \<Rightarrow> bool) \<Rightarrow> (path \<Rightarrow> 'e + path) \<Rightarrow> (path \<Rightarrow> string) \<Rightarrow> 'e shard_opener \<Rightarrow>
    (nat \<Rightarrow> bool) \<Rightarrow> nat \<Rightarrow> nat \<times> gguf_shard \<Rightarrow> nat \<Rightarrow> ((('e, 'j) prepare_error + source_file_identity) \<times> nat) option" where
  "hash_source_file sha grant canonicalize display opener cancelled chunk ish t =
     (let (index, shard) = ish in
      case rbind (map_err (SourceIo (display (sh_path shard)) ''canonicalize source'') (canonicalize (sh_path shard))) (\<lambda>p.
           rbind (map_err PrepRead (opener p \<lparr>max_request_bytes = chunk\<rparr>)) (\<lambda>f.
           rbind (check (grant chunk) (PrepAllocationFailed chunk)) (\<lambda>_. Inr (p, f)))) of
        Inl e \<Rightarrow> Some (Inl e, t)
      | Inr (p, f) \<Rightarrow>
          map_option (\<lambda>(r, t'). (rbind r (\<lambda>hashed.
            if 4294967296 \<le> index then Inl PrepArithmeticOverflow
            else Inr \<lparr>sf_ordinal = index, sf_path = display p, sf_length = pf_length f,
                      sf_sha256 = lower_hex_of (sha hashed)\<rparr>), t'))
            (source_hash_loop cancelled f chunk 0 [] t))"

fun hash_source_list ::
  "(nat \<times> gguf_shard \<Rightarrow> nat \<Rightarrow> ((('e, 'j) prepare_error + source_file_identity) \<times> nat) option) \<Rightarrow>
    (nat \<times> gguf_shard) list \<Rightarrow> nat \<Rightarrow> ((('e, 'j) prepare_error + source_file_identity list) \<times> nat) option" where
  "hash_source_list one [] t = Some (Inr [], t)"
| "hash_source_list one (ish # rest) t =
     Option.bind (one ish t) (\<lambda>(r, t1).
       case r of Inl e \<Rightarrow> Some (Inl e, t1)
       | Inr identity \<Rightarrow> map_option (\<lambda>(rs, t2). (map_sum id (\<lambda>ids. identity # ids) rs, t2)) (hash_source_list one rest t1))"

definition hash_source_files ::
  "(byte list \<Rightarrow> byte list) \<Rightarrow> (nat \<Rightarrow> bool) \<Rightarrow> (path \<Rightarrow> 'e + path) \<Rightarrow> (path \<Rightarrow> string) \<Rightarrow> 'e shard_opener \<Rightarrow>
    (nat \<Rightarrow> bool) \<Rightarrow> gguf_set \<Rightarrow> nat \<Rightarrow> nat \<Rightarrow> ((('e, 'j) prepare_error + source_file_identity list) \<times> nat) option" where
  "hash_source_files sha grant canonicalize display opener cancelled st chunk t =
     (case rbind (validate_hash_chunk chunk) (\<lambda>_.
        check (grant (length (gs_files st))) (PrepAllocationFailed (length (gs_files st)))) of
        Inl e \<Rightarrow> Some (Inl e, t)
      | Inr _ \<Rightarrow> hash_source_list (hash_source_file sha grant canonicalize display opener cancelled chunk)
          (enumerate 0 (gs_files st)) t)"

fun compare_sources :: "source_file_identity list \<Rightarrow> source_file_identity list \<Rightarrow> ('e, 'j) prepare_error + unit" where
  "compare_sources (e # es) (a # rest) =
     (if sf_ordinal e \<noteq> sf_ordinal a \<or> sf_length e \<noteq> sf_length a \<or> sf_sha256 e \<noteq> sf_sha256 a
      then Inl (SourceIdentityMismatch (sf_ordinal e) (sf_length e) (sf_length a) (sf_sha256 e) (sf_sha256 a))
      else compare_sources es rest)"
| "compare_sources _ _ = Inr ()"

definition verify_source_bindings ::
  "(byte list \<Rightarrow> byte list) \<Rightarrow> (nat \<Rightarrow> bool) \<Rightarrow> (path \<Rightarrow> 'e + path) \<Rightarrow> (path \<Rightarrow> string) \<Rightarrow> 'e shard_opener \<Rightarrow>
    (nat \<Rightarrow> bool) \<Rightarrow> gguf_set \<Rightarrow> sidecar_manifest \<Rightarrow> nat \<Rightarrow> nat \<Rightarrow> ((('e, 'j) prepare_error + unit) \<times> nat) option" where
  "verify_source_bindings sha grant canonicalize display opener cancelled st manifest chunk t =
     (let directory = tensor_directory_sha256 sha st in
      case rbind (validate_hash_chunk chunk) (\<lambda>_.
        check (directory = sm_tensor_directory_sha256 manifest)
          (DirectoryHashMismatch (sm_tensor_directory_sha256 manifest) directory)) of
        Inl e \<Rightarrow> Some (Inl e, t)
      | Inr _ \<Rightarrow>
          map_option (\<lambda>(r, t'). (rbind r (\<lambda>actual.
            rbind (check (length actual = length (sm_source_files manifest))
              (SourceCountMismatch (length (sm_source_files manifest)) (length actual))) (\<lambda>_.
            compare_sources (sm_source_files manifest) actual)), t'))
            (hash_source_files sha grant canonicalize display opener cancelled st chunk t))"

section \<open>The encoding of a directory\<close>

text \<open>The field widths of the source types: 64-bit numbers, four strides, one dimension per rank.\<close>

definition location_sized :: "tensor_location \<Rightarrow> bool" where
  "location_sized l \<longleftrightarrow>
     (let d = tl_descriptor l in
      length (td_name d) < u64_limit \<and> tl_shard_index l < u64_limit \<and> fst (tl_absolute_range l) < u64_limit \<and>
      snd (tl_absolute_range l) < u64_limit \<and> td_n_dims d < u64_limit \<and> length (shape_of d) = td_n_dims d \<and>
      length (td_strides d) = 4 \<and> (\<forall>v \<in> set (shape_of d) \<union> set (td_strides d). v < u64_limit))"

text \<open>What the digest covers of a tensor.\<close>

definition location_identity ::
  "tensor_location \<Rightarrow> string \<times> nat \<times> (nat \<times> nat) \<times> nat list \<times> nat list \<times> ggml_type" where
  "location_identity l =
     (let d = tl_descriptor l in
      (td_name d, tl_shard_index l, tl_absolute_range l, shape_of d, td_strides d, td_ty d))"

lemma hash_u64_cut: "x < u64_limit \<Longrightarrow> y < u64_limit \<Longrightarrow> hash_u64 x @ r = hash_u64 y @ s \<longleftrightarrow> x = y \<and> r = s"
proof
  assume v: "x < u64_limit" "y < u64_limit" "hash_u64 x @ r = hash_u64 y @ s"
  have "length (hash_u64 x) = length (hash_u64 y)" by (simp add: hash_u64_def)
  then have e: "hash_u64 x = hash_u64 y" "r = s" using v(3) by auto
  show "x = y \<and> r = s"
    using u64_codec.enc_inject [OF v(1,2)] e unfolding hash_u64_def by blast
qed simp

lemma hash_list_cut:
  "length xs = length ys \<Longrightarrow> \<forall>v \<in> set xs \<union> set ys. v < u64_limit \<Longrightarrow>
   concat (map hash_u64 xs) @ r = concat (map hash_u64 ys) @ s \<longleftrightarrow> xs = ys \<and> r = s"
  by (induction xs ys rule: list_induct2) (auto simp: hash_u64_cut)

lemma hash_bytes_cut:
  "length a < u64_limit \<Longrightarrow> length b < u64_limit \<Longrightarrow> hash_bytes a @ r = hash_bytes b @ s \<longleftrightarrow> a = b \<and> r = s"
  by (auto simp: hash_bytes_def hash_u64_cut)

lemma ggml_name_inject: "ggml_name a = ggml_name b \<longleftrightarrow> a = b"
  by (cases a; cases b) simp_all

lemma bytes_of_str_inject: "bytes_of_str a = bytes_of_str b \<longleftrightarrow> a = b"
  by (metis str_of_bytes_of_str)

lemma ggml_name_short: "length (ggml_name ty) < u64_limit"
  by (cases ty) (simp_all add: u64_limit_def)

lemma location_cut:
  assumes "location_sized l" "location_sized k"
  shows "location_input l @ r = location_input k @ s \<longleftrightarrow> location_identity l = location_identity k \<and> r = s"
proof -
  obtain a b where ab: "tl_absolute_range l = (a, b)" by fastforce
  obtain c d where cd: "tl_absolute_range k = (c, d)" by fastforce
  note sized = assms [unfolded location_sized_def Let_def ab cd fst_conv snd_conv]
  show ?thesis
  proof (cases "td_n_dims (tl_descriptor l) = td_n_dims (tl_descriptor k)")
    case True
    then have len: "length (shape_of (tl_descriptor l)) = length (shape_of (tl_descriptor k))"
      "length (td_strides (tl_descriptor l)) = length (td_strides (tl_descriptor k))" using sized by simp_all
    have small: "\<forall>v \<in> set (shape_of (tl_descriptor l)) \<union> set (shape_of (tl_descriptor k)). v < u64_limit"
      "\<forall>v \<in> set (td_strides (tl_descriptor l)) \<union> set (td_strides (tl_descriptor k)). v < u64_limit"
      using sized by auto
    show ?thesis
      unfolding location_input_def location_identity_def Let_def ab cd fst_conv snd_conv append_assoc
      using sized True
      by (simp add: hash_bytes_cut hash_u64_cut hash_list_cut [OF len(1) small(1)] hash_list_cut [OF len(2) small(2)]
          bytes_of_str_inject ggml_name_inject ggml_name_short del: append_assoc)
  next
    case False
    then have "location_identity l \<noteq> location_identity k" using sized by (auto simp: location_identity_def Let_def)
    moreover have "location_input l @ r \<noteq> location_input k @ s"
      unfolding location_input_def Let_def ab cd fst_conv snd_conv append_assoc
      using sized False by (simp add: hash_bytes_cut hash_u64_cut)
    ultimately show ?thesis by blast
  qed
qed

lemma location_input_not_Nil: "location_input l \<noteq> []"
proof -
  have "0 < length (location_input l)" by (simp add: location_input_def Let_def hash_bytes_def hash_u64_def)
  then show ?thesis by force
qed

lemma locations_inject:
  "list_all location_sized ls \<Longrightarrow> list_all location_sized ks \<Longrightarrow>
   concat (map location_input ls) = concat (map location_input ks) \<longleftrightarrow> map location_identity ls = map location_identity ks"
proof (induction ls arbitrary: ks)
  case Nil
  then show ?case by (cases ks) (simp_all add: location_input_not_Nil)
next
  case (Cons l ls)
  then show ?case by (cases ks) (simp_all add: location_input_not_Nil location_cut)
qed

text \<open> C38.
  The bytes that are hashed for a tensor directory determine it: two directories are hashed from the same
  bytes exactly when they list the same tensors in the same order, with the same names, shards, ranges,
  shapes, strides and types. So directories that differ in any of these have equal digests only if SHA-256
  itself collides.
\<close>

theorem directory_digest_injective:
  assumes "list_all location_sized (td_ordered d)" "list_all location_sized (td_ordered d')"
  shows "directory_input d = directory_input d' \<longleftrightarrow>
    map location_identity (td_ordered d) = map location_identity (td_ordered d')"
  by (simp add: directory_input_def locations_inject [OF assms])

theorem directory_digest_injective_witness:
  "directory_input tiny_directory \<noteq> directory_input (tiny_directory\<lparr>td_ordered := [tiny_location\<lparr>tl_absolute_range := (96, 113)\<rparr>]\<rparr>)"
  using directory_digest_injective [of tiny_directory "tiny_directory\<lparr>td_ordered := [tiny_location\<lparr>tl_absolute_range := (96, 113)\<rparr>]\<rparr>"]
  by (simp add: tiny_directory_def tiny_location_def tiny_desc_def location_sized_def location_identity_def shape_of_def
      u64_limit_def Let_def)

end
