(* ===== verification/Kernel_Attention.thy ===== *)
theory Kernel_Attention
  imports Kernel_Ops
begin

text \<open>
  Causal grouped-query attention over the paged cache (\<^verbatim>\<open>crates/bridge-kernels-reference/src/attention.rs\<close>).
  The keys and values of a token come from the cache when it is stored there and from the call's own rows
  otherwise; the rows are appended after every token has been evaluated. The reference \<open>attend\<close> is stated
  over plain lists of rows.
\<close>

section \<open>The kernel\<close>

record attention_input =
  ai_token_count :: nat
  ai_query_head_count :: nat
  ai_queries :: "f32 list"
  ai_keys :: "f32 list"
  ai_values :: "f32 list"

text \<open>The lengths of the two work slices of \<^verbatim>\<open>AttentionScratch\<close>.\<close>

record attention_scratch =
  scores_length :: nat
  staging_length :: nat

definition checked_product3 :: "nat \<Rightarrow> nat \<Rightarrow> nat \<Rightarrow> string \<Rightarrow> kernel_error + nat" where
  "checked_product3 a b c operation =
     ok_or (KArithmeticOverflow operation) (Option.bind (checked_mul a b) (\<lambda>v. checked_mul v c))"

definition validate_call ::
  "kv_cache \<Rightarrow> nat \<Rightarrow> attention_input \<Rightarrow> nat \<Rightarrow> attention_scratch \<Rightarrow> kernel_error + nat" where
  "validate_call c layer inp output_length scratch =
     rbind (map_err KKv (stored_tokens c layer)) (\<lambda>base.
     if ai_token_count inp = 0 then Inl (KInvalidParameter ''attention token_count'' ''must be greater than zero'')
     else if ai_query_head_count inp = 0 \<or> ai_query_head_count inp mod kv_head_count c \<noteq> 0
       then Inl (KInvalidParameter ''attention query heads'' ''must be a positive multiple of KV heads'')
     else
     rbind (checked_product3 (ai_token_count inp) (ai_query_head_count inp) (key_dimension c) ''attention query length'') (\<lambda>expected_queries.
     rbind (checked_product3 (ai_token_count inp) (kv_head_count c) (key_dimension c) ''attention key length'') (\<lambda>expected_keys.
     rbind (checked_product3 (ai_token_count inp) (kv_head_count c) (value_dimension c) ''attention value length'') (\<lambda>expected_values.
     rbind (checked_product3 (ai_token_count inp) (ai_query_head_count inp) (value_dimension c) ''attention output length'') (\<lambda>expected_output.
     rbind (require_equal ''attention queries'' expected_queries (length (ai_queries inp))) (\<lambda>_.
     rbind (require_equal ''attention keys'' expected_keys (length (ai_keys inp))) (\<lambda>_.
     rbind (require_equal ''attention values'' expected_values (length (ai_values inp))) (\<lambda>_.
     rbind (require_equal ''attention output'' expected_output output_length) (\<lambda>_.
     rbind (finite_slice ''attention queries'' (ai_queries inp)) (\<lambda>_.
     rbind (finite_slice ''attention keys'' (ai_keys inp)) (\<lambda>_.
     rbind (finite_slice ''attention values'' (ai_values inp)) (\<lambda>_.
     rbind (ok_or (KArithmeticOverflow ''attention total token count'') (checked_add base (ai_token_count inp))) (\<lambda>total_tokens.
     if token_capacity c < total_tokens
       then Inl (KKv (CapacityExhausted layer base (ai_token_count inp) (token_capacity c)))
     else if scores_length scratch < total_tokens
       then Inl (KScratchTooSmall ''attention scores'' total_tokens (scores_length scratch))
     else if staging_length scratch < expected_output
       then Inl (KScratchTooSmall ''attention output'' expected_output (staging_length scratch))
     else Inr base)))))))))))))"

definition attention_key ::
  "kv_cache \<Rightarrow> nat \<Rightarrow> attention_input \<Rightarrow> nat \<Rightarrow> nat \<Rightarrow> nat \<Rightarrow> kernel_error + f32 list" where
  "attention_key c layer inp base source kv_head =
     (if source < base then map_err KKv (kv_key c layer source kv_head)
      else Inr (slice (ai_keys inp) (((source - base) * kv_head_count c + kv_head) * key_dimension c) (key_dimension c)))"

definition attention_value ::
  "kv_cache \<Rightarrow> nat \<Rightarrow> attention_input \<Rightarrow> nat \<Rightarrow> nat \<Rightarrow> nat \<Rightarrow> kernel_error + f32 list" where
  "attention_value c layer inp base source kv_head =
     (if source < base then map_err KKv (kv_value c layer source kv_head)
      else Inr (slice (ai_values inp) (((source - base) * kv_head_count c + kv_head) * value_dimension c) (value_dimension c)))"

definition attention_scale :: "nat \<Rightarrow> f32" where
  "attention_scale kdim = f32_div f32_one (f32_sqrt (f32_of_nat kdim))"

definition attention_scores ::
  "kv_cache \<Rightarrow> nat \<Rightarrow> attention_input \<Rightarrow> nat \<Rightarrow> nat \<Rightarrow> nat \<Rightarrow> f32 list \<Rightarrow> kernel_error + f32 list" where
  "attention_scores c layer inp base allowed kv_head query =
     map_res (\<lambda>source.
       rbind (attention_key c layer inp base source kv_head) (\<lambda>key.
       let score = f32_mul (dot_values query key) (attention_scale (key_dimension c))
       in rbind (finite_value ''attention score'' source score) (\<lambda>_. Inr score))) [0..<allowed]"

text \<open>The unnormalised weights of a head and their sum.\<close>

definition head_weights :: "libm \<Rightarrow> f32 list \<Rightarrow> kernel_error + f32 list \<times> f32" where
  "head_weights m scores =
     (let maximum = f32_maximum scores;
          es = map (\<lambda>s. lm_exp m (f32_sub s maximum)) scores;
          denominator = fold (\<lambda>e d. f32_add d e) es f32_zero
      in rbind (finite_value ''attention softmax denominator'' 0 denominator) (\<lambda>_. Inr (es, denominator)))"

definition attention_lane ::
  "kv_cache \<Rightarrow> nat \<Rightarrow> attention_input \<Rightarrow> nat \<Rightarrow> nat \<Rightarrow> f32 list \<Rightarrow> f32 \<Rightarrow> nat \<Rightarrow> kernel_error + f32" where
  "attention_lane c layer inp base kv_head es denominator lane =
     fold_res (\<lambda>(source, e) attended.
       rbind (attention_value c layer inp base source kv_head) (\<lambda>row.
       Inr (f32_add attended (f32_mul (f32_div e denominator) (row ! lane))))) (enumerate 0 es) f32_zero"

definition attention_head ::
  "libm \<Rightarrow> kv_cache \<Rightarrow> nat \<Rightarrow> attention_input \<Rightarrow> nat \<Rightarrow> nat \<Rightarrow> nat \<Rightarrow> kernel_error + f32 list" where
  "attention_head m c layer inp base token query_head =
     (let kv_head = query_head div (ai_query_head_count inp div kv_head_count c);
          row = token * ai_query_head_count inp + query_head;
          query = slice (ai_queries inp) (row * key_dimension c) (key_dimension c)
      in rbind (attention_scores c layer inp base (base + token + 1) kv_head query) (\<lambda>scores.
         rbind (head_weights m scores) (\<lambda>(es, denominator).
         map_res (\<lambda>lane.
           rbind (attention_lane c layer inp base kv_head es denominator lane) (\<lambda>attended.
           rbind (finite_value ''attention output'' (row * value_dimension c + lane) attended) (\<lambda>_.
           Inr attended))) [0..<value_dimension c])))"

definition attention_rows ::
  "libm \<Rightarrow> kv_cache \<Rightarrow> nat \<Rightarrow> attention_input \<Rightarrow> nat \<Rightarrow> kernel_error + f32 list list" where
  "attention_rows m c layer inp base =
     rbind (map_res (\<lambda>token. map_res (attention_head m c layer inp base token) [0..<ai_query_head_count inp])
       [0..<ai_token_count inp]) (\<lambda>rows. Inr (concat rows))"

definition causal_gqa_attention ::
  "grant \<Rightarrow> libm \<Rightarrow> kv_cache \<Rightarrow> nat \<Rightarrow> attention_input \<Rightarrow> nat \<Rightarrow> attention_scratch \<Rightarrow>
    (kernel_error + f32 list) \<times> kv_cache" where
  "causal_gqa_attention grant m c layer inp output_length scratch =
     (case rbind (validate_call c layer inp output_length scratch) (attention_rows m c layer inp) of
        Inl e \<Rightarrow> (Inl e, c)
      | Inr rows \<Rightarrow>
          (case append_tokens grant c layer (ai_token_count inp) (ai_keys inp) (ai_values inp) of
             (Inl e, c') \<Rightarrow> (Inl (KKv e), c')
           | (Inr _, c') \<Rightarrow> (Inr (concat rows), c')))"

section \<open>The reference\<close>

text \<open>One query against the rows it may see, and a batch of queries against the growing list of rows.\<close>

definition attend :: "libm \<Rightarrow> nat \<Rightarrow> f32 list \<Rightarrow> (f32 list \<times> f32 list) list \<Rightarrow> f32 list option" where
  "attend m vdim query rows =
     (let scores = map (\<lambda>(key, _). f32_mul (dot_values query key) (attention_scale (length query))) rows;
          es = map (\<lambda>s. lm_exp m (f32_sub s (f32_maximum scores))) scores;
          denominator = fold (\<lambda>e d. f32_add d e) es f32_zero;
          out = map (\<lambda>lane. fold (\<lambda>(e, _, row) acc. f32_add acc (f32_mul (f32_div e denominator) (row ! lane)))
            (zip es rows) f32_zero) [0..<vdim]
      in if list_all f32_is_finite (scores @ denominator # out) then Some out else None)"

definition attend_batch ::
  "libm \<Rightarrow> nat \<Rightarrow> nat \<Rightarrow> nat \<Rightarrow> nat \<Rightarrow> f32 list \<Rightarrow> (f32 list \<times> f32 list) list list \<Rightarrow> nat \<Rightarrow> nat \<Rightarrow> f32 list option list" where
  "attend_batch m query_heads heads kdim vdim queries context base n =
     concat (map (\<lambda>token. map (\<lambda>query_head.
       attend m vdim (slice queries ((token * query_heads + query_head) * kdim) kdim)
         (map (\<lambda>rows. rows ! (query_head div (query_heads div heads))) (take (base + token + 1) context)))
       [0..<query_heads]) [0..<n])"

section \<open>The kernel computes the reference\<close>

lemma map_res_finite:
  assumes "\<And>x. x \<in> set xs \<Longrightarrow> F x = rbind (finite_value field (i x) (g x)) (\<lambda>_. Inr (g x))"
  shows "map_res F xs = Inr ys \<longleftrightarrow> ys = map g xs \<and> list_all f32_is_finite ys"
  using assms
  by (induction xs arbitrary: ys) (auto simp: rbind_Inr finite_value_def)

lemma fold_res_total: "(\<And>x s. x \<in> set xs \<Longrightarrow> f x s = Inr (g x s)) \<Longrightarrow> fold_res f xs s = Inr (fold g xs s)"
  by (induction xs arbitrary: s) auto

lemma enumerate_rows: "length rows = length es \<Longrightarrow> map (\<lambda>(i, e). (e, rows ! i)) (enumerate 0 es) = zip es rows"
  by (auto intro!: nth_equalityI simp: nth_enumerate_eq)

text \<open>The rows one head may look at, as the kernel fetches them.\<close>

definition head_rows_ok ::
  "kv_cache \<Rightarrow> nat \<Rightarrow> attention_input \<Rightarrow> nat \<Rightarrow> nat \<Rightarrow> (f32 list \<times> f32 list) list \<Rightarrow> bool" where
  "head_rows_ok c layer inp base kv_head rows \<longleftrightarrow>
     (\<forall>i < length rows. attention_key c layer inp base i kv_head = Inr (fst (rows ! i)) \<and>
        attention_value c layer inp base i kv_head = Inr (snd (rows ! i)))"

lemma attention_scores_eq:
  assumes "head_rows_ok c layer inp base kv_head rows" "length query = key_dimension c"
  shows "attention_scores c layer inp base (length rows) kv_head query = Inr scores \<longleftrightarrow>
    scores = map (\<lambda>(key, _). f32_mul (dot_values query key) (attention_scale (length query))) rows \<and>
    list_all f32_is_finite scores"
proof -
  let ?g = "\<lambda>i. f32_mul (dot_values query (fst (rows ! i))) (attention_scale (key_dimension c))"
  have "attention_scores c layer inp base (length rows) kv_head query = Inr scores \<longleftrightarrow>
      scores = map ?g [0..<length rows] \<and> list_all f32_is_finite scores"
    unfolding attention_scores_def
    by (rule map_res_finite [where i = "\<lambda>i. i" and field = "''attention score''"])
       (use assms(1) in \<open>simp add: head_rows_ok_def Let_def\<close>)
  moreover have "map ?g [0..<length rows] =
      map (\<lambda>(key, _). f32_mul (dot_values query key) (attention_scale (length query))) rows"
    by (rule nth_equalityI) (simp_all add: assms(2) split: prod.split)
  ultimately show ?thesis by simp
qed

lemma attention_lane_eq:
  assumes "head_rows_ok c layer inp base kv_head rows" "length es = length rows"
  shows "attention_lane c layer inp base kv_head es denominator lane =
    Inr (fold (\<lambda>(e, _, row) acc. f32_add acc (f32_mul (f32_div e denominator) (row ! lane))) (zip es rows) f32_zero)"
proof -
  let ?g = "\<lambda>(i, e) acc. f32_add acc (f32_mul (f32_div e denominator) (snd (rows ! i) ! lane))"
  let ?h = "\<lambda>(e, _, row) acc. f32_add acc (f32_mul (f32_div e denominator) (row ! lane))"
  have "attention_lane c layer inp base kv_head es denominator lane = Inr (fold ?g (enumerate 0 es) f32_zero)"
    unfolding attention_lane_def
    by (rule fold_res_total)
       (use assms in \<open>auto simp: head_rows_ok_def in_set_enumerate_eq\<close>)
  moreover have "fold ?g (enumerate 0 es) f32_zero = fold ?h (map (\<lambda>(i, e). (e, rows ! i)) (enumerate 0 es)) f32_zero"
    by (simp add: fold_map comp_def case_prod_unfold)
  ultimately show ?thesis by (simp add: enumerate_rows assms(2))
qed

lemma attention_head_eq:
  assumes rows: "head_rows_ok c layer inp base (query_head div (ai_query_head_count inp div kv_head_count c)) rows"
    and n: "length rows = base + token + 1"
    and q: "query = slice (ai_queries inp) ((token * ai_query_head_count inp + query_head) * key_dimension c) (key_dimension c)"
    "length query = key_dimension c"
  shows "attention_head m c layer inp base token query_head = Inr out \<longleftrightarrow>
    attend m (value_dimension c) query rows = Some out"
proof -
  let ?kv = "query_head div (ai_query_head_count inp div kv_head_count c)"
  define scores where "scores = map (\<lambda>(key, _). f32_mul (dot_values query key) (attention_scale (length query))) rows"
  define es where "es = map (\<lambda>s. lm_exp m (f32_sub s (f32_maximum scores))) scores"
  define denominator where "denominator = fold (\<lambda>e d. f32_add d e) es f32_zero"
  let ?h = "\<lambda>lane. fold (\<lambda>(e, _, row) acc. f32_add acc (f32_mul (f32_div e denominator) (row ! lane))) (zip es rows) f32_zero"
  let ?row = "token * ai_query_head_count inp + query_head"
  have le: "length es = length rows" by (simp add: es_def scores_def)
  have lanes: "map_res (\<lambda>lane.
           rbind (attention_lane c layer inp base ?kv es denominator lane) (\<lambda>attended.
           rbind (finite_value ''attention output'' (?row * value_dimension c + lane) attended) (\<lambda>_.
           Inr attended))) [0..<value_dimension c] = Inr out \<longleftrightarrow>
      out = map ?h [0..<value_dimension c] \<and> list_all f32_is_finite out"
    by (rule map_res_finite [where i = "\<lambda>lane. ?row * value_dimension c + lane" and field = "''attention output''"])
       (simp add: attention_lane_eq [OF rows le])
  show ?thesis
    unfolding attention_head_def Let_def q(1) [symmetric] n [symmetric]
  proof (cases "list_all f32_is_finite scores")
    case True
    then have s: "attention_scores c layer inp base (length rows) ?kv query = Inr scores"
      using attention_scores_eq [OF rows q(2)] by (simp add: scores_def)
    show "(rbind (attention_scores c layer inp base (length rows) ?kv query) (\<lambda>scores.
         rbind (head_weights m scores) (\<lambda>(es, denominator).
         map_res (\<lambda>lane.
           rbind (attention_lane c layer inp base ?kv es denominator lane) (\<lambda>attended.
           rbind (finite_value ''attention output'' (?row * value_dimension c + lane) attended) (\<lambda>_.
           Inr attended))) [0..<value_dimension c])) = Inr out) = (attend m (value_dimension c) query rows = Some out)"
      using True lanes
      by (simp add: s head_weights_def attend_def Let_def es_def denominator_def finite_value_def
          scores_def [symmetric]) auto
  next
    case False
    then have s: "attention_scores c layer inp base (length rows) ?kv query \<noteq> Inr scores'" for scores'
      using attention_scores_eq [OF rows q(2)] by (auto simp: scores_def)
    then obtain e where "attention_scores c layer inp base (length rows) ?kv query = Inl e"
      by (cases "attention_scores c layer inp base (length rows) ?kv query") auto
    with False show "(rbind (attention_scores c layer inp base (length rows) ?kv query) (\<lambda>scores.
         rbind (head_weights m scores) (\<lambda>(es, denominator).
         map_res (\<lambda>lane.
           rbind (attention_lane c layer inp base ?kv es denominator lane) (\<lambda>attended.
           rbind (finite_value ''attention output'' (?row * value_dimension c + lane) attended) (\<lambda>_.
           Inr attended))) [0..<value_dimension c])) = Inr out) = (attend m (value_dimension c) query rows = Some out)"
      by (simp add: attend_def Let_def scores_def)
  qed
qed

lemma map_res_append: "map_res f (xs @ ys) = rbind (map_res f xs) (\<lambda>a. rbind (map_res f ys) (\<lambda>b. Inr (a @ b)))"
  by (induction xs) (auto simp: rbind_def split: sum.splits)

lemma map_res_image: "map_res f (map g xs) = map_res (\<lambda>x. f (g x)) xs"
  by (induction xs) auto

lemma map_res_concat:
  "rbind (map_res (\<lambda>t. map_res (f t) hs) ts) (\<lambda>rows. Inr (concat rows)) =
   map_res (\<lambda>(t, h). f t h) (concat (map (\<lambda>t. map (Pair t) hs) ts))"
proof (induction ts)
  case (Cons t ts)
  show ?case unfolding list.map concat.simps map_res_append Cons.IH [symmetric]
    by (auto simp: map_res_image rbind_def split: sum.splits)
qed simp

lemma map_res_options:
  "(\<And>x y. x \<in> set xs \<Longrightarrow> F x = Inr y \<longleftrightarrow> G x = Some y) \<Longrightarrow> map_res F xs = Inr ys \<longleftrightarrow> map G xs = map Some ys"
proof (induction xs arbitrary: ys)
  case (Cons x xs)
  have "map_res F (x # xs) = Inr ys \<longleftrightarrow> (\<exists>y zs. F x = Inr y \<and> map_res F xs = Inr zs \<and> ys = y # zs)"
    by (auto simp: rbind_Inr)
  also have "\<dots> \<longleftrightarrow> (\<exists>y zs. G x = Some y \<and> map G xs = map Some zs \<and> ys = y # zs)"
    using Cons by auto
  also have "\<dots> \<longleftrightarrow> map G (x # xs) = map Some ys" by (cases ys) auto
  finally show ?case .
qed auto

text \<open>A call the checks accept.\<close>

definition call_ok :: "kv_cache \<Rightarrow> nat \<Rightarrow> attention_input \<Rightarrow> nat \<Rightarrow> attention_scratch \<Rightarrow> bool" where
  "call_ok c layer inp output_length scratch \<longleftrightarrow>
     layer < layer_count c \<and> 0 < ai_token_count inp \<and> 0 < ai_query_head_count inp \<and>
     kv_head_count c dvd ai_query_head_count inp \<and>
     length (ai_queries inp) = ai_token_count inp * ai_query_head_count inp * key_dimension c \<and>
     length (ai_keys inp) = ai_token_count inp * kv_head_count c * key_dimension c \<and>
     length (ai_values inp) = ai_token_count inp * kv_head_count c * value_dimension c \<and>
     output_length = ai_token_count inp * ai_query_head_count inp * value_dimension c \<and>
     length (ai_queries inp) < u64_limit \<and> length (ai_keys inp) < u64_limit \<and> length (ai_values inp) < u64_limit \<and>
     output_length < u64_limit \<and>
     list_all f32_is_finite (ai_queries inp @ ai_keys inp @ ai_values inp) \<and>
     lengths c ! layer + ai_token_count inp \<le> token_capacity c \<and>
     lengths c ! layer + ai_token_count inp \<le> scores_length scratch \<and> output_length \<le> staging_length scratch"

lemma checked_product3_Inr:
  "0 < c \<Longrightarrow> checked_product3 a b c operation = Inr v \<longleftrightarrow> v = a * b * c \<and> v < u64_limit"
proof -
  assume "0 < c"
  then have "a * b \<le> a * b * c" by simp
  then have "a * b < u64_limit" if "a * b * c < u64_limit" using that by linarith
  then show ?thesis
    by (auto simp: checked_product3_def ok_or_Inr checked_mul_def bind_eq_Some_conv split: if_splits)
qed

lemma if_Inl_Inr: "(if b then Inl e else x) = Inr y \<longleftrightarrow> \<not> b \<and> x = Inr y"
  by simp

lemma validate_call_iff:
  assumes "kv_shape c"
  shows "validate_call c layer inp output_length scratch = Inr base \<longleftrightarrow>
    call_ok c layer inp output_length scratch \<and> base = lengths c ! layer"
proof -
  have pos: "0 < kv_head_count c" "0 < key_dimension c" "0 < value_dimension c" "token_capacity c < u64_limit"
    using assms by (auto simp: kv_shape_def)
  show ?thesis
  proof
    assume "validate_call c layer inp output_length scratch = Inr base"
    then show "call_ok c layer inp output_length scratch \<and> base = lengths c ! layer"
      unfolding validate_call_def stored_tokens_def validate_layer_def
      by (simp only: rbind_Inr checked_product3_Inr pos require_equal_Inr finite_slice_Inr ok_or_Inr check_Inr map_err_Inr
          checked_add_Some if_Inl_Inr)
         (clarsimp simp: call_ok_def list_all_iff mod_eq_0_iff_dvd, blast)
  next
    assume "call_ok c layer inp output_length scratch \<and> base = lengths c ! layer"
    then show "validate_call c layer inp output_length scratch = Inr base"
      unfolding validate_call_def stored_tokens_def validate_layer_def
      by (simp only: rbind_Inr checked_product3_Inr pos require_equal_Inr finite_slice_Inr ok_or_Inr check_Inr map_err_Inr
          checked_add_Some if_Inl_Inr)
         (use pos(4) in \<open>simp add: call_ok_def list_all_iff mod_eq_0_iff_dvd\<close>)
  qed
qed

text \<open>The tokens a call sees: those of the cache, then its own.\<close>

definition context_rows :: "kv_cache \<Rightarrow> nat \<Rightarrow> attention_input \<Rightarrow> (f32 list \<times> f32 list) list list" where
  "context_rows c layer inp = kv_abs c layer @
     map (input_rows (kv_head_count c) (key_dimension c) (value_dimension c) (ai_keys inp) (ai_values inp))
       [0..<ai_token_count inp]"

lemma slice_row_length:
  "i < n \<Longrightarrow> length xs = n * d \<Longrightarrow> length (slice xs (i * d) d) = d"
proof -
  assume i: "i < n" and l: "length xs = n * d"
  from i have "Suc i * d \<le> n * d" by (intro mult_le_mono1) simp
  then show ?thesis using l by (simp add: slice_def)
qed

lemma head_rows:
  assumes inv: "kv_inv c" and ok: "call_ok c layer inp output_length scratch"
    and t: "token < ai_token_count inp" and h: "kv_head < kv_head_count c"
  defines "rows \<equiv> map (\<lambda>r. r ! kv_head) (take (lengths c ! layer + token + 1) (context_rows c layer inp))"
  shows "head_rows_ok c layer inp (lengths c ! layer) kv_head rows" "length rows = lengths c ! layer + token + 1"
proof -
  have l: "layer < layer_count c" using ok by (simp add: call_ok_def)
  show len: "length rows = lengths c ! layer + token + 1" using t by (simp add: rows_def context_rows_def)
  have r: "rows ! i = (if i < lengths c ! layer then kv_abs c layer ! i ! kv_head
      else input_rows (kv_head_count c) (key_dimension c) (value_dimension c) (ai_keys inp) (ai_values inp)
        (i - lengths c ! layer) ! kv_head)" if "i < length rows" for i
  proof -
    have i: "i < lengths c ! layer + token + 1" using that unfolding len .
    then have "i < length (context_rows c layer inp)" "\<not> i < lengths c ! layer \<Longrightarrow> i - lengths c ! layer < ai_token_count inp"
      using t by (auto simp: context_rows_def)
    then have "rows ! i = context_rows c layer inp ! i ! kv_head" using i len by (simp add: rows_def)
    then show ?thesis using i t by (auto simp: context_rows_def nth_append)
  qed
  show "head_rows_ok c layer inp (lengths c ! layer) kv_head rows"
    unfolding head_rows_ok_def
    using l h by (simp add: r attention_key_def attention_value_def kv_key_eq [OF inv] kv_value_eq [OF inv] input_rows_def)
qed

lemma attention_rows_eq:
  assumes inv: "kv_inv c" and ok: "call_ok c layer inp output_length scratch"
  shows "attention_rows m c layer inp (lengths c ! layer) = Inr rows \<longleftrightarrow>
    attend_batch m (ai_query_head_count inp) (kv_head_count c) (key_dimension c) (value_dimension c) (ai_queries inp)
      (context_rows c layer inp) (lengths c ! layer) (ai_token_count inp) = map Some rows"
proof -
  let ?qh = "ai_query_head_count inp" and ?pairs = "concat (map (\<lambda>t. map (Pair t) [0..<ai_query_head_count inp]) [0..<ai_token_count inp])"
  let ?G = "\<lambda>(token, query_head). attend m (value_dimension c)
      (slice (ai_queries inp) ((token * ?qh + query_head) * key_dimension c) (key_dimension c))
      (map (\<lambda>rows. rows ! (query_head div (?qh div kv_head_count c)))
        (take (lengths c ! layer + token + 1) (context_rows c layer inp)))"
  have pos: "0 < ?qh" "kv_head_count c dvd ?qh" and q: "length (ai_queries inp) = ai_token_count inp * ?qh * key_dimension c"
    using ok by (auto simp: call_ok_def)
  have "attention_head m c layer inp (lengths c ! layer) token query_head = Inr y \<longleftrightarrow> ?G (token, query_head) = Some y"
    if t: "token < ai_token_count inp" and h: "query_head < ?qh" for token query_head y
  proof -
    from pos obtain k where k: "?qh = kv_head_count c * k" by (auto elim: dvdE)
    then have hk: "0 < kv_head_count c" "0 < k" using pos(1) by auto
    have kv: "query_head div (?qh div kv_head_count c) < kv_head_count c"
      using h by (simp add: k hk less_mult_imp_div_less)
    have "Suc token * ?qh \<le> ai_token_count inp * ?qh" using t by (intro mult_le_mono1) simp
    then have "token * ?qh + query_head < ai_token_count inp * ?qh" using h by simp
    then have ql: "length (slice (ai_queries inp) ((token * ?qh + query_head) * key_dimension c) (key_dimension c)) = key_dimension c"
      using q by (rule slice_row_length)
    note hr = head_rows [OF inv ok t kv]
    show ?thesis using attention_head_eq [OF hr(1) hr(2) refl ql] by simp
  qed
  then have "map_res (\<lambda>(t, h). attention_head m c layer inp (lengths c ! layer) t h) ?pairs = Inr rows \<longleftrightarrow>
      map ?G ?pairs = map Some rows"
    by (intro map_res_options) auto
  moreover have "map ?G ?pairs = attend_batch m ?qh (kv_head_count c) (key_dimension c) (value_dimension c) (ai_queries inp)
      (context_rows c layer inp) (lengths c ! layer) (ai_token_count inp)"
    by (simp add: attend_batch_def map_concat comp_def)
  ultimately show ?thesis by (simp add: attention_rows_def map_res_concat)
qed

text \<open>The outcomes of a call.\<close>

lemma attention_cases:
  assumes inv: "kv_inv c"
  obtains (error) e where "causal_gqa_attention grant m c layer inp n scratch = (Inl e, c)"
  | (ok) rows d where "causal_gqa_attention grant m c layer inp n scratch = (Inr (concat rows), d)"
      "call_ok c layer inp n scratch"
      "append_tokens grant c layer (ai_token_count inp) (ai_keys inp) (ai_values inp) = (Inr (), d)"
      "attend_batch m (ai_query_head_count inp) (kv_head_count c) (key_dimension c) (value_dimension c) (ai_queries inp)
        (context_rows c layer inp) (lengths c ! layer) (ai_token_count inp) = map Some rows"
      "kv_inv d" "config_of d = config_of c" "kv_abs d layer = context_rows c layer inp"
      "\<And>l. l < layer_count c \<Longrightarrow> l \<noteq> layer \<Longrightarrow> kv_abs d l = kv_abs c l"
proof (cases "rbind (validate_call c layer inp n scratch) (attention_rows m c layer inp)")
  case (Inl e)
  then show ?thesis by (intro error) (simp add: causal_gqa_attention_def)
next
  case (Inr rows)
  then have guard: "call_ok c layer inp n scratch" and r: "attention_rows m c layer inp (lengths c ! layer) = Inr rows"
    by (auto simp: rbind_Inr validate_call_iff [OF kv_inv_shape [OF inv]])
  show ?thesis
  proof (cases rule: append_tokens_cases [OF inv, of grant layer "ai_token_count inp" "ai_keys inp" "ai_values inp"])
    case (1 e)
    then show ?thesis using Inr by (intro error) (simp add: causal_gqa_attention_def)
  next
    case (2 d)
    show ?thesis
      by (rule ok [of rows d]) (use Inr 2 guard r attention_rows_eq [OF inv guard] in
          \<open>simp_all add: causal_gqa_attention_def context_rows_def\<close>)
  qed
qed

lemma attention_Inr:
  assumes "kv_inv c" "causal_gqa_attention grant m c layer inp n scratch = (Inr out, d)"
  obtains rows where "out = concat rows" "call_ok c layer inp n scratch"
    "attend_batch m (ai_query_head_count inp) (kv_head_count c) (key_dimension c) (value_dimension c) (ai_queries inp)
        (context_rows c layer inp) (lengths c ! layer) (ai_token_count inp) = map Some rows"
    "kv_inv d" "config_of d = config_of c" "kv_abs d layer = context_rows c layer inp"
    "\<And>l. l < layer_count c \<Longrightarrow> l \<noteq> layer \<Longrightarrow> kv_abs d l = kv_abs c l"
  by (rule attention_cases [OF assms(1), of grant m layer inp n scratch]) (use assms(2) in auto)

lemma attention_granted:
  assumes inv: "kv_inv c" and ok: "call_ok c layer inp n scratch"
    and rows: "attend_batch m (ai_query_head_count inp) (kv_head_count c) (key_dimension c) (value_dimension c)
      (ai_queries inp) (context_rows c layer inp) (lengths c ! layer) (ai_token_count inp) = map Some rows"
    and page: "page_tokens c * kv_head_count c * key_dimension c < u64_limit"
      "page_tokens c * kv_head_count c * value_dimension c < u64_limit"
  shows "\<exists>d. causal_gqa_attention (\<lambda>_ _. True) m c layer inp n scratch = (Inr (concat rows), d)"
proof -
  have "append_ok c layer (ai_token_count inp) (ai_keys inp) (ai_values inp)"
    using ok by (auto simp: append_ok_def call_ok_def mult.assoc)
  moreover have "length (ai_keys inp) < u64_limit" "length (ai_values inp) < u64_limit"
    using ok by (auto simp: call_ok_def)
  ultimately have "fst (append_tokens (\<lambda>_ _. True) c layer (ai_token_count inp) (ai_keys inp) (ai_values inp)) = Inr ()"
    using page by (intro append_granted [OF inv])
  then obtain d where "append_tokens (\<lambda>_ _. True) c layer (ai_token_count inp) (ai_keys inp) (ai_values inp) = (Inr (), d)"
    by (metis prod.collapse)
  moreover have "validate_call c layer inp n scratch = Inr (lengths c ! layer)"
    using ok validate_call_iff [OF kv_inv_shape [OF inv]] by simp
  moreover have "attention_rows m c layer inp (lengths c ! layer) = Inr rows"
    using attention_rows_eq [OF inv ok] rows by blast
  ultimately show ?thesis by (simp add: causal_gqa_attention_def)
qed

section \<open>Batches and chunks\<close>

text \<open>The tokens \<open>a\<close> to \<open>a + b\<close> of a call, as a call of their own.\<close>

definition chunk_input :: "kv_cache \<Rightarrow> attention_input \<Rightarrow> nat \<Rightarrow> nat \<Rightarrow> attention_input" where
  "chunk_input c inp a b = inp\<lparr>ai_token_count := b,
     ai_queries := slice (ai_queries inp) (a * (ai_query_head_count inp * key_dimension c)) (b * (ai_query_head_count inp * key_dimension c)),
     ai_keys := slice (ai_keys inp) (a * (kv_head_count c * key_dimension c)) (b * (kv_head_count c * key_dimension c)),
     ai_values := slice (ai_values inp) (a * (kv_head_count c * value_dimension c)) (b * (kv_head_count c * value_dimension c))\<rparr>"

lemma slice_slice: "i + w \<le> n \<Longrightarrow> slice (slice xs s n) i w = slice xs (s + i) w"
  by (simp add: slice_def drop_take min_absorb1 add.commute)

lemma slice_chunk_row:
  assumes "t < b" "h < H"
  shows "slice (slice xs (a * (H * w)) (b * (H * w))) ((t * H + h) * w) w = slice xs (((a + t) * H + h) * w) w"
proof -
  have "Suc t * H \<le> b * H" using assms(1) by (intro mult_le_mono1) simp
  then have "(t * H + h) + 1 \<le> b * H" using assms(2) by simp
  then have "((t * H + h) + 1) * w \<le> b * H * w" by (rule mult_le_mono1)
  then have "(t * H + h) * w + w \<le> b * (H * w)" by (simp add: algebra_simps)
  then have "slice (slice xs (a * (H * w)) (b * (H * w))) ((t * H + h) * w) w = slice xs (a * (H * w) + (t * H + h) * w) w"
    by (rule slice_slice)
  also have "a * (H * w) + (t * H + h) * w = ((a + t) * H + h) * w" by (simp add: algebra_simps)
  finally show ?thesis .
qed

lemma chunk_rows:
  assumes "t < b"
  shows "input_rows H kd vd (slice keys (a * (H * kd)) (b * (H * kd))) (slice vals (a * (H * vd)) (b * (H * vd))) t =
    input_rows H kd vd keys vals (a + t)"
  by (simp add: input_rows_def slice_chunk_row [OF assms])

lemma map_upt_shift: "map f [a..<a + b] = map (\<lambda>t. f (a + t)) [0..<b]"
  by (rule nth_equalityI) simp_all

lemma chunk_context_first:
  "a \<le> ai_token_count inp \<Longrightarrow> context_rows c layer (chunk_input c inp 0 a) = take (lengths c ! layer + a) (context_rows c layer inp)"
  using chunk_rows [of _ a "kv_head_count c" "key_dimension c" "value_dimension c" "ai_keys inp" 0 "ai_values inp"]
  by (simp add: context_rows_def chunk_input_def take_map)

lemma chunk_context_rest:
  assumes "config_of d = config_of c" "kv_abs d layer = context_rows c layer (chunk_input c inp 0 a)"
    and "ai_token_count inp = a + b"
  shows "context_rows d layer (chunk_input c inp a b) = context_rows c layer inp"
proof -
  let ?R = "input_rows (kv_head_count c) (key_dimension c) (value_dimension c) (ai_keys inp) (ai_values inp)"
  have "context_rows d layer (chunk_input c inp a b) =
      take (lengths c ! layer + a) (context_rows c layer inp) @ map (\<lambda>t. ?R (a + t)) [0..<b]"
    using assms chunk_rows [of _ b "kv_head_count c" "key_dimension c" "value_dimension c" "ai_keys inp" a "ai_values inp"]
    by (simp add: context_rows_def [of d] config_of_eq chunk_context_first) (simp add: chunk_input_def)
  also have "\<dots> = kv_abs c layer @ map ?R [0..<a] @ map ?R [a..<a + b]"
    by (simp add: map_upt_shift context_rows_def assms(3) take_map)
  also have "\<dots> = context_rows c layer inp"
    by (simp add: context_rows_def assms(3) upt_add_eq_append [of 0 a b])
  finally show ?thesis .
qed

lemma attend_batch_split:
  "attend_batch m Q H kd vd queries ctx base (a + b) =
   attend_batch m Q H kd vd (slice queries 0 (a * (Q * kd))) (take (base + a) ctx) base a @
   attend_batch m Q H kd vd (slice queries (a * (Q * kd)) (b * (Q * kd))) ctx (base + a) b"
proof -
  let ?F = "\<lambda>token. map (\<lambda>h. attend m vd (slice queries ((token * Q + h) * kd) kd)
       (map (\<lambda>rows. rows ! (h div (Q div H))) (take (base + token + 1) ctx))) [0..<Q]"
  have "attend_batch m Q H kd vd queries ctx base (a + b) = concat (map ?F [0..<a]) @ concat (map (\<lambda>t. ?F (a + t)) [0..<b])"
    by (simp add: attend_batch_def upt_add_eq_append [of 0 a b] map_upt_shift)
  also have "map ?F [0..<a] = map (\<lambda>token. map (\<lambda>h. attend m vd (slice (slice queries 0 (a * (Q * kd))) ((token * Q + h) * kd) kd)
       (map (\<lambda>rows. rows ! (h div (Q div H))) (take (base + token + 1) (take (base + a) ctx)))) [0..<Q]) [0..<a]"
    using slice_chunk_row [of _ a _ Q queries 0 kd] by (simp add: min_absorb1)
  also have "map (\<lambda>t. ?F (a + t)) [0..<b] = map (\<lambda>token. map (\<lambda>h. attend m vd
       (slice (slice queries (a * (Q * kd)) (b * (Q * kd))) ((token * Q + h) * kd) kd)
       (map (\<lambda>rows. rows ! (h div (Q div H))) (take (base + a + token + 1) ctx))) [0..<Q]) [0..<b]"
    using slice_chunk_row [of _ b _ Q queries a kd] by (simp add: add.assoc)
  finally show ?thesis by (simp add: attend_batch_def)
qed

section \<open>Properties\<close>

lemma call_ok_chunk:
  assumes "call_ok c layer inp n scratch" "a + b \<le> ai_token_count inp" "0 < b"
    and d: "config_of d = config_of c" "lengths d ! layer = lengths c ! layer + a"
  shows "call_ok d layer (chunk_input c inp a b) (b * ai_query_head_count inp * value_dimension c) scratch"
proof -
  let ?n = "ai_token_count inp"
  have part: "length (slice xs (a * w) (b * w)) = b * w" if "length xs = ?n * w" for xs :: "f32 list" and w
  proof -
    have "(a + b) * w \<le> ?n * w" using assms(2) by (rule mult_le_mono1)
    then have "a * w + b * w \<le> ?n * w" by (simp add: add_mult_distrib)
    then show ?thesis using that by (simp add: slice_def)
  qed
  have fin: "list_all f32_is_finite (slice xs i w)" if "list_all f32_is_finite xs" for xs i w
    using that by (auto simp: slice_def list_all_iff dest!: in_set_takeD in_set_dropD)
  have b: "b \<le> ?n" using assms(2) by simp
  have le: "b * w \<le> ?n * w" for w using b by (rule mult_le_mono1)
  from assms(1) have len: "length (ai_queries inp) = ?n * (ai_query_head_count inp * key_dimension c)"
    "length (ai_keys inp) = ?n * (kv_head_count c * key_dimension c)"
    "length (ai_values inp) = ?n * (kv_head_count c * value_dimension c)"
    "n = ?n * (ai_query_head_count inp * value_dimension c)"
    by (simp_all add: call_ok_def mult.assoc)
  have small: "?n * w < k \<Longrightarrow> b * w < k" "?n * w \<le> k \<Longrightarrow> b * w \<le> k" for w k
    using le [of w] by linarith+
  show ?thesis
    using assms
    unfolding call_ok_def chunk_input_def config_of_eq
    by (simp add: part len fin mult.assoc small)
qed

text \<open> C10.
  A call of the attention kernel either leaves the cache as it was, or returns the attention of every query
  against exactly the rows at or before its own token and commits the call's rows to that layer alone.
\<close>

theorem attention_refines:
  assumes "kv_inv c" "causal_gqa_attention grant m c layer inp n scratch = (r, d)"
  shows "case r of Inl _ \<Rightarrow> d = c
    | Inr out \<Rightarrow> (\<exists>rows. out = concat rows \<and>
        attend_batch m (ai_query_head_count inp) (kv_head_count c) (key_dimension c) (value_dimension c) (ai_queries inp)
          (context_rows c layer inp) (lengths c ! layer) (ai_token_count inp) = map Some rows) \<and>
        kv_inv d \<and> config_of d = config_of c \<and>
        (\<forall>l < layer_count c. kv_abs d l = (if l = layer then context_rows c layer inp else kv_abs c l))"
  by (cases rule: attention_cases [OF assms(1), of grant m layer inp n scratch]) (use assms(2) in auto)

text \<open> C24.
  Prefilling a batch of tokens is the same as prefilling any split of it in turn: the two calls on the parts
  succeed, their outputs are the batch's output, and they leave the same rows in every layer. The page
  geometry is assumed to fit the address space, and memory to be available.
\<close>

theorem attention_chunked:
  assumes "kv_inv c" "page_tokens c * kv_head_count c * key_dimension c < u64_limit"
    "page_tokens c * kv_head_count c * value_dimension c < u64_limit"
    and "causal_gqa_attention (\<lambda>_ _. True) m c layer inp n scratch = (Inr out, d)"
    and "ai_token_count inp = a + b" "0 < a" "0 < b"
  shows "\<exists>out1 d1 out2 d2.
    causal_gqa_attention (\<lambda>_ _. True) m c layer (chunk_input c inp 0 a)
      (a * ai_query_head_count inp * value_dimension c) scratch = (Inr out1, d1) \<and>
    causal_gqa_attention (\<lambda>_ _. True) m d1 layer (chunk_input c inp a b)
      (b * ai_query_head_count inp * value_dimension c) scratch = (Inr out2, d2) \<and>
    out = out1 @ out2 \<and> (\<forall>l < layer_count c. kv_abs d2 l = kv_abs d l)"
proof -
  let ?Q = "ai_query_head_count inp" and ?x = "chunk_input c inp 0 a" and ?y = "chunk_input c inp a b"
  let ?len = "lengths c ! layer" and ?batch = "attend_batch m (ai_query_head_count inp) (kv_head_count c) (key_dimension c) (value_dimension c)"
  from attention_Inr [OF assms(1,4)]
  obtain rows where ok: "call_ok c layer inp n scratch" and out: "out = concat rows"
    and r: "?batch (ai_queries inp) (context_rows c layer inp) ?len (a + b) = map Some rows"
    and d: "config_of d = config_of c" "kv_abs d layer = context_rows c layer inp"
      "\<And>l. l < layer_count c \<Longrightarrow> l \<noteq> layer \<Longrightarrow> kv_abs d l = kv_abs c l"
    unfolding assms(5) by blast
  have layer: "layer < layer_count c" using ok by (simp add: call_ok_def)
  have x: "ai_query_head_count ?x = ?Q" "ai_token_count ?x = a" "ai_query_head_count ?y = ?Q" "ai_token_count ?y = b"
    "ai_queries ?x = slice (ai_queries inp) 0 (a * (?Q * key_dimension c))"
    "ai_queries ?y = slice (ai_queries inp) (a * (?Q * key_dimension c)) (b * (?Q * key_dimension c))"
    by (simp_all add: chunk_input_def)
  from r [unfolded attend_batch_split]
  obtain rows1 rows2 where rows: "rows = rows1 @ rows2"
    and r1: "?batch (ai_queries ?x) (take (?len + a) (context_rows c layer inp)) ?len a = map Some rows1"
    and r2: "?batch (ai_queries ?y) (context_rows c layer inp) (?len + a) b = map Some rows2"
    unfolding x append_eq_map_conv by blast
  have ok1: "call_ok c layer ?x (a * ?Q * value_dimension c) scratch"
    by (rule call_ok_chunk [OF ok]) (use assms(5,6) in auto)
  have "\<exists>d1. causal_gqa_attention (\<lambda>_ _. True) m c layer ?x (a * ?Q * value_dimension c) scratch = (Inr (concat rows1), d1)"
    by (rule attention_granted [OF assms(1) ok1 _ assms(2,3)]) (use r1 in \<open>simp add: x chunk_context_first assms(5)\<close>)
  then obtain d1 where call1: "causal_gqa_attention (\<lambda>_ _. True) m c layer ?x (a * ?Q * value_dimension c) scratch = (Inr (concat rows1), d1)"
    by blast
  from attention_Inr [OF assms(1) call1]
  have d1: "kv_inv d1" "config_of d1 = config_of c" "kv_abs d1 layer = context_rows c layer ?x"
      "\<And>l. l < layer_count c \<Longrightarrow> l \<noteq> layer \<Longrightarrow> kv_abs d1 l = kv_abs c l"
    by blast+
  have ctx: "context_rows d1 layer ?y = context_rows c layer inp" by (rule chunk_context_rest [OF d1(2,3) assms(5)])
  have len1: "lengths d1 ! layer = ?len + a"
    using arg_cong [OF d1(3), of length] by (simp add: context_rows_def x)
  have cfg: "kv_head_count d1 = kv_head_count c" "key_dimension d1 = key_dimension c"
    "value_dimension d1 = value_dimension c" "page_tokens d1 = page_tokens c" "layer_count d1 = layer_count c"
    using d1(2) by (auto simp: config_of_eq)
  have ok2: "call_ok d1 layer ?y (b * ?Q * value_dimension c) scratch"
    by (rule call_ok_chunk [OF ok _ assms(7) d1(2) len1]) (simp add: assms(5))
  have "\<exists>d2. causal_gqa_attention (\<lambda>_ _. True) m d1 layer ?y (b * ?Q * value_dimension c) scratch = (Inr (concat rows2), d2)"
    by (rule attention_granted [OF d1(1) ok2]) (use r2 assms(2,3) in \<open>simp_all add: x cfg len1 ctx\<close>)
  then obtain d2 where call2: "causal_gqa_attention (\<lambda>_ _. True) m d1 layer ?y (b * ?Q * value_dimension c) scratch = (Inr (concat rows2), d2)"
    by blast
  from attention_Inr [OF d1(1) call2]
  have d2: "kv_abs d2 layer = context_rows d1 layer ?y"
      "\<And>l. l < layer_count d1 \<Longrightarrow> l \<noteq> layer \<Longrightarrow> kv_abs d2 l = kv_abs d1 l"
    by blast+
  have "kv_abs d2 l = kv_abs d l" if "l < layer_count c" for l
    using that d2 d1(4) d(2,3) ctx cfg(5) by (cases "l = layer") auto
  with call1 call2 show ?thesis by (intro exI conjI) (auto simp: out rows)
qed

text \<open>Two tokens of zero rows, with a constant exponential.\<close>

definition even_libm :: libm where
  "even_libm = \<lparr>lm_exp = (\<lambda>_. f32_one), lm_ln = (\<lambda>_. f32_one), lm_powf = (\<lambda>_ _. f32_one), lm_sin = (\<lambda>_. f32_zero),
     lm_cos = (\<lambda>_. f32_one)\<rparr>"

definition example_input :: attention_input where
  "example_input = \<lparr>ai_token_count = 2, ai_query_head_count = 1, ai_queries = [0, 0], ai_keys = [0, 0], ai_values = [0, 0]\<rparr>"

definition example_scratch :: attention_scratch where
  "example_scratch = \<lparr>scores_length = 2, staging_length = 2\<rparr>"

lemma unit_vals:
  "f32_val f32_one = FFin False 8388608 (- 23)" "f32_val 0 = FFin False 0 (- 149)"
  "f32_val 0x40000000 = FFin False 8388608 (- 22)" "f32_val 0x3f000000 = FFin False 8388608 (- 24)"
  by (simp_all add: f32_val_def f32_one_def fval_eval)

lemma unit_bit_len: "bit_len 8388608 = 24" "bit_len (Suc 0) = 1" "bit_len 1125899906842624 = 51" "bit_len 274877906944 = 39"
  by (simp_all add: bit_len.simps)

lemma unit_fround:
  "fround 23 8 1125899906842624 (- 50) False = 1065353216" "fround 23 8 1125899906842624 (- 51) False = 1056964608"
  "fround 23 8 274877906944 (- 38) False = 1065353216"
  by (simp_all add: fval_eval unit_bit_len inf_bits_def)

lemma unit_isqrt: "isqrt 75557863725914323419136 = 274877906944"
  by (simp add: isqrt.simps)

lemma unit_sums: "f32_add 0 0 = 0" "f32_add 0 f32_one = f32_one" "f32_add f32_one f32_one = 0x40000000"
  by (simp_all add: f32_add_def f32_of_val_def f32_make_def unit_vals fval_eval unit_bit_len) (simp add: f32_one_def)

lemma unit_products: "f32_mul 0 0 = 0" "f32_mul 0 f32_one = 0" "f32_mul f32_one 0 = 0" "f32_mul 0x3f000000 0 = 0"
  by (simp_all add: f32_mul_def f32_of_val_def f32_make_def unit_vals fval_eval)

lemma unit_quotients: "f32_div f32_one f32_one = f32_one" "f32_div f32_one 0x40000000 = 0x3f000000"
  by (simp_all add: f32_div_def f32_make_def unit_vals unit_bit_len) (simp_all add: unit_fround with_sign_def f32_one_def)

lemma unit_scale: "attention_scale 1 = f32_one"
proof -
  have "f32_of_nat 1 = f32_one"
    by (simp add: f32_of_nat_def f32_of_int_def f32_of_val_def f32_make_def fval_eval unit_bit_len) (simp add: f32_one_def)
  moreover have "f32_sqrt f32_one = f32_one"
    by (simp add: f32_sqrt_def f32_make_def unit_vals unit_isqrt unit_fround) (simp add: f32_one_def)
  ultimately show ?thesis by (simp add: attention_scale_def unit_quotients)
qed

lemmas unit_arith = unit_sums unit_products unit_quotients unit_scale [simplified]

lemma unit_finite: "f32_is_finite 0" "f32_is_finite f32_one" "f32_is_finite 0x40000000"
  by (simp_all add: f32_is_finite_iff fmagnitude_def inf_bits_def f32_one_def)

lemma example_attend: "attend even_libm 1 [0] [([0], [0])] = Some [0]" "attend even_libm 1 [0] [([0], [0]), ([0], [0])] = Some [0]"
  by (simp_all add: attend_def Let_def dot_values_def f32_zero_def even_libm_def unit_arith unit_finite)

lemma example_call_ok: "call_ok example_cache 0 example_input 2 example_scratch"
  by (simp add: call_ok_def example_cache_def example_input_def example_scratch_def u64_limit_def unit_finite)

lemma example_attention:
  "\<exists>d. causal_gqa_attention (\<lambda>_ _. True) even_libm example_cache 0 example_input 2 example_scratch = (Inr [0, 0], d)"
proof -
  have "context_rows example_cache 0 example_input = [[([0], [0])], [([0], [0])]]"
    by (simp add: context_rows_def kv_abs_def example_cache_def example_input_def input_rows_def slice_def upt_rec)
  then have rows: "attend_batch even_libm (ai_query_head_count example_input) (kv_head_count example_cache)
      (key_dimension example_cache) (value_dimension example_cache) (ai_queries example_input)
      (context_rows example_cache 0 example_input) (lengths example_cache ! 0) (ai_token_count example_input) =
    map Some [[0], [0]]"
    using example_attend by (simp add: attend_batch_def example_input_def example_cache_def slice_def upt_rec)
  show ?thesis
    using attention_granted [OF example_cache_inv example_call_ok rows]
    by (simp add: example_cache_def u64_limit_def)
qed

lemma attention_refines_witness:
  "\<exists>d. causal_gqa_attention (\<lambda>_ _. True) even_libm example_cache 0 example_input 2 example_scratch = (Inr [0, 0], d) \<and>
    kv_abs d 0 = context_rows example_cache 0 example_input"
proof -
  from example_attention obtain d
    where d: "causal_gqa_attention (\<lambda>_ _. True) even_libm example_cache 0 example_input 2 example_scratch = (Inr [0, 0], d)"
    by blast
  from attention_refines [OF example_cache_inv d] have "kv_abs d 0 = context_rows example_cache 0 example_input"
    by (simp add: example_cache_def)
  with d show ?thesis by blast
qed

lemma attention_chunked_witness:
  "\<exists>out1 d1 out2 d2.
    causal_gqa_attention (\<lambda>_ _. True) even_libm example_cache 0 (chunk_input example_cache example_input 0 1) 1 example_scratch =
      (Inr out1, d1) \<and>
    causal_gqa_attention (\<lambda>_ _. True) even_libm d1 0 (chunk_input example_cache example_input 1 1) 1 example_scratch =
      (Inr out2, d2) \<and> [0, 0] = out1 @ out2"
proof -
  from example_attention obtain d
    where d: "causal_gqa_attention (\<lambda>_ _. True) even_libm example_cache 0 example_input 2 example_scratch = (Inr [0, 0], d)"
    by blast
  have "ai_token_count example_input = 1 + 1" "ai_query_head_count example_input = 1" "value_dimension example_cache = 1"
    "page_tokens example_cache * kv_head_count example_cache * key_dimension example_cache < u64_limit"
    "page_tokens example_cache * kv_head_count example_cache * value_dimension example_cache < u64_limit"
    by (simp_all add: example_input_def example_cache_def u64_limit_def)
  from attention_chunked [OF example_cache_inv this(4,5) d this(1)] this(2,3) show ?thesis by auto
qed

end
