(* ===== verification/Hy3_Routing.thy ===== *)
theory Hy3_Routing
  imports Kernel_Ops "HOL-Library.Product_Lexorder" "HOL-Library.Multiset"
begin

text \<open>
  Expert routing (\<^verbatim>\<open>bridge-model-hy3/src/routing.rs\<close>): sigmoid weights, selection by biased score, and
  normalised coefficients. The scores are finite when the candidates are sorted, so \<^verbatim>\<open>partial_cmp\<close> is
  the order of \<^verbatim>\<open>f32_key\<close>.
\<close>

section \<open>Definitions\<close>

definition ROUTING_SUM_FLOOR :: f32 where "ROUTING_SUM_FLOOR = 0x38800000"

record route_candidate =
  rc_expert_id :: nat
  rc_selection_score :: f32
  rc_unbiased_weight :: f32

definition sigmoid :: "libm \<Rightarrow> f32 \<Rightarrow> f32" where
  "sigmoid m v = f32_div f32_one (f32_add f32_one (lm_exp m (f32_neg v)))"

definition routing_finite :: "string \<Rightarrow> nat \<Rightarrow> f32 \<Rightarrow> routing_error + unit" where
  "routing_finite field index v = (if f32_is_finite v then Inr () else Inl (NonFiniteRoutingValue field index v))"

fun check_scores :: "libm \<Rightarrow> nat \<Rightarrow> (f32 \<times> f32) list \<Rightarrow> routing_error + unit" where
  "check_scores m index [] = Inr ()"
| "check_scores m index ((logit, sbias) # rest) =
     rbind (routing_finite ''logits'' index logit) (\<lambda>_.
     rbind (routing_finite ''selection_bias'' index sbias) (\<lambda>_.
     rbind (routing_finite ''selection_score'' index (f32_add (sigmoid m logit) sbias)) (\<lambda>_.
     check_scores m (Suc index) rest)))"

definition route_candidates :: "libm \<Rightarrow> f32 list \<Rightarrow> f32 list \<Rightarrow> route_candidate list" where
  "route_candidates m logits sbias =
     map (\<lambda>i. \<lparr>rc_expert_id = i, rc_selection_score = f32_add (sigmoid m (logits ! i)) (sbias ! i),
              rc_unbiased_weight = sigmoid m (logits ! i)\<rparr>) [0..<length logits]"

definition route_rank :: "route_candidate \<Rightarrow> int \<times> nat" where
  "route_rank c = (- f32_key (rc_selection_score c), rc_expert_id c)"

definition weight_total :: "route_candidate list \<Rightarrow> f32" where
  "weight_total chosen =
     f32_max (fold (\<lambda>c s. f32_add s (rc_unbiased_weight c)) chosen f32_zero) ROUTING_SUM_FLOOR"

definition route_experts ::
  "libm \<Rightarrow> f32 list \<Rightarrow> f32 list \<Rightarrow> nat \<Rightarrow> f32 \<Rightarrow> nat \<Rightarrow> nat \<Rightarrow> routing_error + routed_expert list" where
  "route_experts m logits sbias used weight_scale candidates_length selected_length =
     (let count = length logits
      in if 4294967295 < count then Inl (RoutingLength ''logits representable expert IDs'' 4294967295 count)
         else if length sbias \<noteq> count then Inl (RoutingLength ''selection_bias'' count (length sbias))
         else if used = 0 \<or> count < used then Inl (RoutingTopK count used)
         else if candidates_length \<noteq> count then Inl (RoutingLength ''candidates'' count candidates_length)
         else if selected_length \<noteq> used then Inl (RoutingLength ''selected'' used selected_length)
         else rbind (routing_finite ''weight_scale'' 0 weight_scale) (\<lambda>_.
           rbind (check_scores m 0 (zip logits sbias)) (\<lambda>_.
           let chosen = take used (sort_key route_rank (route_candidates m logits sbias));
               total_weight = weight_total chosen
           in Inr (sort_key re_expert_id (map (\<lambda>c. \<lparr>re_expert_id = rc_expert_id c,
                re_coefficient = f32_mul (f32_div (rc_unbiased_weight c) total_weight) weight_scale\<rparr>) chosen)))))"

section \<open>The selection\<close>

text \<open>Expert \<^verbatim>\<open>i\<close> is preferred to expert \<^verbatim>\<open>j\<close>: a larger biased score, or an equal one and a smaller number.\<close>

definition biased_score :: "libm \<Rightarrow> f32 list \<Rightarrow> f32 list \<Rightarrow> nat \<Rightarrow> f32" where
  "biased_score m logits sbias i = f32_add (sigmoid m (logits ! i)) (sbias ! i)"

definition preferred :: "libm \<Rightarrow> f32 list \<Rightarrow> f32 list \<Rightarrow> nat \<Rightarrow> nat \<Rightarrow> bool" where
  "preferred m logits sbias i j \<longleftrightarrow>
     f32_key (biased_score m logits sbias j) < f32_key (biased_score m logits sbias i) \<or>
     f32_key (biased_score m logits sbias j) = f32_key (biased_score m logits sbias i) \<and> i < j"

lemma sorted_distinct_strict: "sorted xs \<Longrightarrow> distinct xs \<Longrightarrow> sorted_wrt (<) (xs :: 'a :: linorder list)"
  by (simp add: strict_sorted_iff)

lemma candidate_ids: "map rc_expert_id (route_candidates m logits sbias) = [0..<length logits]"
  by (simp add: route_candidates_def comp_def)

lemma candidate_in:
  "c \<in> set (route_candidates m logits sbias) \<longleftrightarrow> (\<exists>i < length logits.
     c = \<lparr>rc_expert_id = i, rc_selection_score = biased_score m logits sbias i, rc_unbiased_weight = sigmoid m (logits ! i)\<rparr>)"
  by (auto simp: route_candidates_def biased_score_def)

definition ranked_candidates :: "libm \<Rightarrow> f32 list \<Rightarrow> f32 list \<Rightarrow> route_candidate list" where
  "ranked_candidates m logits sbias = sort_key route_rank (route_candidates m logits sbias)"

lemma ranked_in:
  "c \<in> set (ranked_candidates m logits sbias) \<longleftrightarrow> (\<exists>i < length logits.
     c = \<lparr>rc_expert_id = i, rc_selection_score = biased_score m logits sbias i, rc_unbiased_weight = sigmoid m (logits ! i)\<rparr>)"
  by (simp add: ranked_candidates_def candidate_in)

lemma ranked_ids: "mset (map rc_expert_id (ranked_candidates m logits sbias)) = mset [0..<length logits]"
  by (metis candidate_ids mset_map mset_sort ranked_candidates_def)

lemma ranked_ids_distinct: "distinct (map rc_expert_id (ranked_candidates m logits sbias))"
  using ranked_ids distinct_upt by (metis mset_eq_imp_distinct_iff)

lemma ranked_ids_set: "set (map rc_expert_id (ranked_candidates m logits sbias)) = {..<length logits}"
  using arg_cong [OF ranked_ids, of set_mset] by (auto simp: atLeast0LessThan)

text \<open>The candidates are ranked by preference.\<close>

lemma ranked_order: "sorted_wrt (preferred m logits sbias) (map rc_expert_id (ranked_candidates m logits sbias))"
proof -
  have "sorted_wrt (\<lambda>x y. route_rank x \<le> route_rank y \<and> rc_expert_id x \<noteq> rc_expert_id y) (ranked_candidates m logits sbias)"
    using ranked_ids_distinct [of m logits sbias] sorted_sort_key [of route_rank "route_candidates m logits sbias"]
    by (auto simp: ranked_candidates_def [symmetric] sorted_map distinct_map distinct_conv_nth inj_on_def sorted_wrt_iff_nth_less)
  then have "sorted_wrt (\<lambda>x y. preferred m logits sbias (rc_expert_id x) (rc_expert_id y)) (ranked_candidates m logits sbias)"
    by (rule sorted_wrt_mono_rel [rotated])
       (auto simp: ranked_in route_rank_def preferred_def less_eq_prod_def)
  then show ?thesis by (simp add: sorted_wrt_map)
qed

lemma ranked_take_order:
  assumes "i \<in> rc_expert_id ` set (take n (ranked_candidates m logits sbias))"
    and "j < length logits" "j \<notin> rc_expert_id ` set (take n (ranked_candidates m logits sbias))"
  shows "preferred m logits sbias i j"
proof -
  let ?ids = "map rc_expert_id (ranked_candidates m logits sbias)"
  have "j \<in> set (take n ?ids @ drop n ?ids)" using assms(2) ranked_ids_set by simp
  then have "j \<in> set (drop n ?ids)" using assms(3) by (simp add: take_map)
  moreover have "i \<in> set (take n ?ids)" using assms(1) by (simp add: take_map)
  moreover have "sorted_wrt (preferred m logits sbias) (take n ?ids @ drop n ?ids)" using ranked_order by simp
  ultimately show ?thesis unfolding sorted_wrt_append by blast
qed

lemma ranked_weight:
  "c \<in> set (ranked_candidates m logits sbias) \<Longrightarrow> rc_unbiased_weight c = sigmoid m (logits ! rc_expert_id c)"
  by (auto simp: ranked_in)

lemma ranked_total:
  "set cs \<subseteq> set (ranked_candidates m logits sbias) \<Longrightarrow>
    fold (\<lambda>i s. f32_add s (sigmoid m (logits ! i))) (map rc_expert_id cs) z = fold (\<lambda>c s. f32_add s (rc_unbiased_weight c)) cs z"
  by (induction cs arbitrary: z) (simp_all add: ranked_weight [of _ m logits sbias])

text \<open> C35.
  Routing is a deterministic top-k selection. A successful call returns exactly \<^verbatim>\<open>used\<close> experts in
  strictly ascending order of their numbers, all within range, and they are the preferred ones: every
  expert left out has a smaller biased score, or the same score and a larger number. The bias decides
  nothing else: each coefficient is the unbiased weight, divided by the floored sum of the chosen
  unbiased weights and scaled.
\<close>

theorem routing_exact:
  assumes "route_experts m logits sbias used weight_scale cl sl = Inr routed"
  shows "length routed = used \<and> sorted_wrt (<) (map re_expert_id routed) \<and>
    (\<forall>r \<in> set routed. re_expert_id r < length logits \<and>
       (\<forall>j < length logits. j \<notin> re_expert_id ` set routed \<longrightarrow> preferred m logits sbias (re_expert_id r) j)) \<and>
    (\<exists>order. mset order = mset (map re_expert_id routed) \<and> sorted_wrt (preferred m logits sbias) order \<and>
       (let s = f32_max (fold (\<lambda>i s. f32_add s (sigmoid m (logits ! i))) order f32_zero) ROUTING_SUM_FLOOR
        in \<forall>r \<in> set routed. re_coefficient r =
          f32_mul (f32_div (sigmoid m (logits ! re_expert_id r)) s) weight_scale))"
proof -
  define chosen where "chosen = take used (ranked_candidates m logits sbias)"
  define mk :: "route_candidate \<Rightarrow> routed_expert" where "mk = (\<lambda>c. \<lparr>re_expert_id = rc_expert_id c,
    re_coefficient = f32_mul (f32_div (rc_unbiased_weight c) (weight_total chosen)) weight_scale\<rparr>)"
  have u: "used \<le> length logits" and routed: "routed = sort_key re_expert_id (map mk chosen)"
    using assms by (auto simp: route_experts_def Let_def rbind_Inr chosen_def ranked_candidates_def mk_def split: if_splits)
  have sub: "set chosen \<subseteq> set (ranked_candidates m logits sbias)" by (simp add: chosen_def set_take_subset)
  have ms: "mset (map re_expert_id routed) = mset (map rc_expert_id chosen)"
    by (simp add: routed mk_def image_mset.compositionality comp_def)
  have ids: "re_expert_id ` set routed = rc_expert_id ` set chosen" using arg_cong [OF ms, of set_mset] by simp
  have "distinct (map rc_expert_id chosen)"
    using ranked_ids_distinct by (simp add: chosen_def distinct_take flip: take_map)
  then have "distinct (map re_expert_id routed)" using ms by (metis mset_eq_imp_distinct_iff)
  then have 1: "sorted_wrt (<) (map re_expert_id routed)" by (intro sorted_distinct_strict) (simp_all add: routed)
  have 2: "length routed = used"
    using u arg_cong [OF ranked_ids, of size] by (simp add: routed chosen_def)
  have 3: "re_expert_id r < length logits \<and>
      (\<forall>j < length logits. j \<notin> re_expert_id ` set routed \<longrightarrow> preferred m logits sbias (re_expert_id r) j)"
    if "r \<in> set routed" for r
  proof -
    have r: "re_expert_id r \<in> rc_expert_id ` set chosen" using that ids by blast
    then have "re_expert_id r \<in> set (map rc_expert_id (ranked_candidates m logits sbias))" using sub by auto
    then show ?thesis using ranked_take_order r unfolding ids ranked_ids_set chosen_def by blast
  qed
  have coeff: "re_coefficient r = f32_mul (f32_div (sigmoid m (logits ! re_expert_id r)) (weight_total chosen)) weight_scale"
    if "r \<in> set routed" for r
    using that sub by (auto simp: routed mk_def dest!: ranked_weight [OF subsetD])
  have order: "sorted_wrt (preferred m logits sbias) (map rc_expert_id chosen)"
    using ranked_order by (simp add: chosen_def sorted_wrt_take flip: take_map)
  show ?thesis
    using 1 2 3 coeff ms order ranked_total [OF sub]
    by (intro conjI exI [of _ "map rc_expert_id chosen"]) (simp_all add: Let_def weight_total_def)
qed

definition flat_libm :: libm where
  "flat_libm = \<lparr>lm_exp = (\<lambda>_. f32_inf), lm_ln = (\<lambda>_. f32_one), lm_powf = (\<lambda>_ _. f32_one), lm_sin = (\<lambda>_. f32_zero),
     lm_cos = (\<lambda>_. f32_one)\<rparr>"

lemma flat_sigmoid: "sigmoid flat_libm v = 0" and zero_sum: "f32_add 0 0 = 0"
proof -
  have v: "f32_val f32_one = FFin False 8388608 (- 23)" "f32_val f32_inf = FInf False" "f32_val 0 = FFin False 0 (- 149)"
    by (simp_all add: f32_val_def f32_one_def f32_inf_def fval_eval)
  have "f32_add f32_one f32_inf = f32_inf"
    by (simp add: f32_add_def v f32_of_val_def f32_make_def fencode_def with_sign_def inf_bits_def)
       (simp add: f32_inf_def)
  then show "sigmoid flat_libm v = 0"
    by (simp add: sigmoid_def flat_libm_def f32_div_def v f32_make_def with_sign_def)
  show "f32_add 0 0 = 0" by (simp add: f32_add_def v f32_of_val_def f32_make_def fval_eval)
qed

lemma routing_exact_witness:
  "\<exists>r. route_experts flat_libm [0, 0] [0, 0] 1 f32_one 2 1 = Inr [r] \<and> re_expert_id r < 2"
proof -
  have "\<exists>routed. route_experts flat_libm [0, 0] [0, 0] 1 f32_one 2 1 = Inr routed"
    by (simp add: route_experts_def routing_finite_def flat_sigmoid zero_sum Let_def f32_is_finite_iff fmagnitude_def
        inf_bits_def f32_one_def)
  then obtain routed where r: "route_experts flat_libm [0, 0] [0, 0] 1 f32_one 2 1 = Inr routed" by blast
  from routing_exact [OF r] have "length routed = 1" "\<forall>r \<in> set routed. re_expert_id r < 2" by auto
  then show ?thesis using r by (auto simp: length_Suc_conv)
qed

end
