(* ===== verification/Hy3_Block.thy ===== *)
theory Hy3_Block
  imports Kernel_Attention Hy3_Routing
begin

text \<open>
  One transformer block on one token (\<^verbatim>\<open>crates/bridge-kernels-reference/src/layer.rs\<close>): the resident
  block, and the streaming block in two phases, where only the routed experts have to be loaded between
  them. The workspace is a record of the lengths of its buffers together with the contents that survive a
  call; what a failed call leaves in a buffer is not modelled, because no later call reads it.
\<close>

section \<open>Weights\<close>

record attention_weights =
  aw_input_norm :: "f32 list"
  aw_query :: packed_matrix
  aw_query_norm :: "f32 list"
  aw_key :: packed_matrix
  aw_key_norm :: "f32 list"
  aw_value :: packed_matrix
  aw_output :: packed_matrix
  aw_query_head_count :: nat
  aw_kv_head_count :: nat
  aw_key_dimension :: nat
  aw_value_dimension :: nat

record moe_weights =
  mw_router :: packed_matrix
  mw_selection_bias :: "f32 list"
  mw_routed_experts :: "swiglu_expert list"
  mw_shared_expert :: swiglu_expert
  mw_expert_used_count :: nat
  mw_weight_scale :: f32

record streaming_weights =
  st_attention :: attention_weights
  st_ffn_norm :: "f32 list"
  st_router :: packed_matrix
  st_selection_bias :: "f32 list"
  st_shared_expert :: swiglu_expert
  st_expert_count :: nat
  st_expert_used_count :: nat
  st_weight_scale :: f32

datatype feed_forward = DenseFeedForward swiglu_expert | MoeFeedForward moe_weights

record block_weights =
  bw_attention :: attention_weights
  bw_ffn_norm :: "f32 list"
  bw_feed_forward :: feed_forward

record block_execution =
  bx_mode :: execution_mode
  bx_layer :: nat
  bx_position :: nat
  bx_rope :: rope_params
  bx_rms_epsilon :: f32

section \<open>Workspace\<close>

record block_scratch =
  sc_attention_normalized :: nat
  sc_queries :: nat
  sc_keys :: nat
  sc_values :: nat
  sc_attention_context :: nat
  sc_attention_staging :: nat
  sc_attention_delta :: nat
  sc_attention_residual :: nat
  sc_ffn_delta :: nat
  sc_preflight_output :: nat
  sc_swiglu_activation :: nat
  sc_decoded_block :: nat
  sc_q8 :: nat
  sc_scores :: nat
  sc_router_logits :: nat
  sc_route_candidates :: nat
  sc_ffn_normalized :: "f32 list"
  sc_routed :: "routed_expert list"
  sc_routed_len :: nat
  sc_pending :: bool

definition checked_product2 :: "nat \<Rightarrow> nat \<Rightarrow> string \<Rightarrow> kernel_error + nat" where
  "checked_product2 a b operation = ok_or (KArithmeticOverflow operation) (checked_mul a b)"

definition validate_attention :: "attention_weights \<Rightarrow> f32 list \<Rightarrow> kernel_error + unit" where
  "validate_attention aw ffn_norm =
     (let hidden = pm_input_width (aw_query aw) in
     rbind (require_equal ''attention norm weight'' hidden (length (aw_input_norm aw))) (\<lambda>_.
     rbind (require_equal ''attention key input'' hidden (pm_input_width (aw_key aw))) (\<lambda>_.
     rbind (require_equal ''attention value input'' hidden (pm_input_width (aw_value aw))) (\<lambda>_.
     if aw_query_head_count aw = 0 \<or> aw_kv_head_count aw = 0 \<or> aw_query_head_count aw mod aw_kv_head_count aw \<noteq> 0 \<or>
        aw_key_dimension aw = 0 \<or> aw_value_dimension aw = 0
     then Inl (KInvalidParameter ''Hy3 attention dimensions''
       ''head counts and dimensions must be positive and query heads must group over KV heads'')
     else
     rbind (checked_product2 (aw_query_head_count aw) (aw_key_dimension aw) ''query projection output'') (\<lambda>q.
     rbind (require_equal ''query projection output'' q (pm_output_width (aw_query aw))) (\<lambda>_.
     rbind (checked_product2 (aw_kv_head_count aw) (aw_key_dimension aw) ''key projection output'') (\<lambda>k.
     rbind (require_equal ''key projection output'' k (pm_output_width (aw_key aw))) (\<lambda>_.
     rbind (checked_product2 (aw_kv_head_count aw) (aw_value_dimension aw) ''value projection output'') (\<lambda>v.
     rbind (require_equal ''value projection output'' v (pm_output_width (aw_value aw))) (\<lambda>_.
     rbind (checked_product2 (aw_query_head_count aw) (aw_value_dimension aw) ''attention output projection input'') (\<lambda>i.
     rbind (require_equal ''attention output projection input'' i (pm_input_width (aw_output aw))) (\<lambda>_.
     rbind (require_equal ''attention output width'' hidden (pm_output_width (aw_output aw))) (\<lambda>_.
     rbind (require_equal ''query norm weight'' (aw_key_dimension aw) (length (aw_query_norm aw))) (\<lambda>_.
     rbind (require_equal ''key norm weight'' (aw_key_dimension aw) (length (aw_key_norm aw))) (\<lambda>_.
     require_equal ''FFN norm weight'' hidden (length ffn_norm))))))))))))))))"

definition validate_expert_dimensions :: "nat \<Rightarrow> swiglu_expert \<Rightarrow> kernel_error + unit" where
  "validate_expert_dimensions hidden e =
     rbind (require_equal ''expert input width'' hidden (ex_input_width e)) (\<lambda>_.
     require_equal ''expert output width'' hidden (ex_output_width e))"

definition validate_router ::
  "nat \<Rightarrow> packed_matrix \<Rightarrow> f32 list \<Rightarrow> nat \<Rightarrow> nat \<Rightarrow> f32 \<Rightarrow> swiglu_expert \<Rightarrow> kernel_error + unit" where
  "validate_router hidden router selection_bias expert_count used weight_scale shared =
     rbind (require_equal ''router input'' hidden (pm_input_width router)) (\<lambda>_.
     rbind (require_equal ''router output'' expert_count (pm_output_width router)) (\<lambda>_.
     rbind (require_equal ''router selection bias'' expert_count (length selection_bias)) (\<lambda>_.
     if used = 0 \<or> expert_count < used
       then Inl (KInvalidParameter ''MoE selected expert count'' ''must be within the available routed expert count'')
     else if \<not> f32_is_finite weight_scale then Inl (KNonFiniteValue ''MoE weight scale'' 0 weight_scale)
     else validate_expert_dimensions hidden shared)))"

fun validate_routed_experts :: "nat \<Rightarrow> swiglu_expert \<Rightarrow> swiglu_expert list \<Rightarrow> kernel_error + unit" where
  "validate_routed_experts hidden shared [] = Inr ()"
| "validate_routed_experts hidden shared (e # es) =
     rbind (validate_expert_dimensions hidden e) (\<lambda>_.
     rbind (require_equal ''routed/shared expert hidden width'' (ex_hidden_width shared) (ex_hidden_width e)) (\<lambda>_.
     validate_routed_experts hidden shared es))"

definition validate_block :: "block_weights \<Rightarrow> kernel_error + unit" where
  "validate_block b =
     (let hidden = pm_input_width (aw_query (bw_attention b)) in
     rbind (validate_attention (bw_attention b) (bw_ffn_norm b)) (\<lambda>_.
     case bw_feed_forward b of
       DenseFeedForward e \<Rightarrow> validate_expert_dimensions hidden e
     | MoeFeedForward moe \<Rightarrow>
         rbind (validate_router hidden (mw_router moe) (mw_selection_bias moe) (length (mw_routed_experts moe))
           (mw_expert_used_count moe) (mw_weight_scale moe) (mw_shared_expert moe)) (\<lambda>_.
         validate_routed_experts hidden (mw_shared_expert moe) (mw_routed_experts moe))))"

definition validate_streaming_moe :: "streaming_weights \<Rightarrow> kernel_error + unit" where
  "validate_streaming_moe b =
     rbind (validate_attention (st_attention b) (st_ffn_norm b)) (\<lambda>_.
     validate_router (pm_input_width (aw_query (st_attention b))) (st_router b) (st_selection_bias b) (st_expert_count b)
       (st_expert_used_count b) (st_weight_scale b) (st_shared_expert b))"

definition zeroed :: "grant \<Rightarrow> string \<times> nat \<Rightarrow> kernel_error + nat" where
  "zeroed grant a = (case a of (ctxt, requested) \<Rightarrow>
     if grant (ctxt, []) requested then Inr requested else Inl (KAllocationFailed ctxt requested))"

definition block_scratch_sized ::
  "grant \<Rightarrow> attention_weights \<Rightarrow> nat \<Rightarrow> nat \<Rightarrow> nat \<Rightarrow> nat \<Rightarrow> nat \<Rightarrow> kernel_error + block_scratch" where
  "block_scratch_sized grant aw router_input ffn_hidden expert_count used context_capacity =
     (let hidden = pm_input_width (aw_query aw) in
     rbind (checked_product2 (aw_query_head_count aw) (aw_key_dimension aw) ''query scratch length'') (\<lambda>query_values.
     rbind (checked_product2 (aw_kv_head_count aw) (aw_key_dimension aw) ''key scratch length'') (\<lambda>key_values.
     rbind (checked_product2 (aw_kv_head_count aw) (aw_value_dimension aw) ''value scratch length'') (\<lambda>value_values.
     rbind (checked_product2 (aw_query_head_count aw) (aw_value_dimension aw) ''attention scratch length'') (\<lambda>attention_values.
     rbind (ok_or (KArithmeticOverflow ''SwiGLU activation scratch'') (checked_mul ffn_hidden 2)) (\<lambda>activation_values.
     let maximum_input = max (max hidden attention_values) (max ffn_hidden router_input) in
     rbind (if 256 \<le> maximum_input then required_q8_k_bytes maximum_input else Inr 0) (\<lambda>q8_bytes.
     rbind (map_res (zeroed grant)
       [(''attention normalized'', hidden), (''queries'', query_values), (''keys'', key_values), (''values'', value_values),
        (''attention context'', attention_values), (''attention staging'', attention_values), (''attention delta'', hidden),
        (''attention residual'', hidden), (''FFN normalized'', hidden), (''FFN delta'', hidden),
        (''MoE preflight output'', hidden), (''SwiGLU activation'', activation_values), (''decoded quant block'', 256),
        (''Q8_K activation'', q8_bytes), (''attention scores'', context_capacity), (''router logits'', expert_count),
        (''route candidates'', expert_count), (''routed experts'', used)]) (\<lambda>_.
     Inr \<lparr>sc_attention_normalized = hidden, sc_queries = query_values, sc_keys = key_values, sc_values = value_values,
       sc_attention_context = attention_values, sc_attention_staging = attention_values, sc_attention_delta = hidden,
       sc_attention_residual = hidden, sc_ffn_delta = hidden, sc_preflight_output = hidden,
       sc_swiglu_activation = activation_values, sc_decoded_block = 256, sc_q8 = q8_bytes, sc_scores = context_capacity,
       sc_router_logits = expert_count, sc_route_candidates = expert_count,
       sc_ffn_normalized = replicate hidden f32_zero,
       sc_routed = replicate used \<lparr>re_expert_id = 0, re_coefficient = f32_zero\<rparr>,
       sc_routed_len = 0, sc_pending = False\<rparr>))))))))"

definition block_scratch_new :: "grant \<Rightarrow> block_weights \<Rightarrow> nat \<Rightarrow> kernel_error + block_scratch" where
  "block_scratch_new grant b context_capacity =
     rbind (validate_block b) (\<lambda>_.
     if context_capacity = 0 then Inl (KInvalidParameter ''block scratch context capacity'' ''must be greater than zero'')
     else case bw_feed_forward b of
       DenseFeedForward e \<Rightarrow>
         block_scratch_sized grant (bw_attention b) (ex_input_width e) (ex_hidden_width e) 0 0 context_capacity
     | MoeFeedForward moe \<Rightarrow>
         block_scratch_sized grant (bw_attention b) (pm_input_width (mw_router moe)) (ex_hidden_width (mw_shared_expert moe))
           (length (mw_routed_experts moe)) (mw_expert_used_count moe) context_capacity)"

definition new_streaming_moe :: "grant \<Rightarrow> streaming_weights \<Rightarrow> nat \<Rightarrow> kernel_error + block_scratch" where
  "new_streaming_moe grant b context_capacity =
     rbind (validate_streaming_moe b) (\<lambda>_.
     if context_capacity = 0 then Inl (KInvalidParameter ''block scratch context capacity'' ''must be greater than zero'')
     else block_scratch_sized grant (st_attention b) (pm_input_width (st_router b)) (ex_hidden_width (st_shared_expert b))
       (st_expert_count b) (st_expert_used_count b) context_capacity)"

definition scratch_reset :: "block_scratch \<Rightarrow> block_scratch" where
  "scratch_reset sc = sc\<lparr>sc_routed_len := 0, sc_pending := False\<rparr>"

definition scratch_routed :: "block_scratch \<Rightarrow> routed_expert list" where
  "scratch_routed sc = take (sc_routed_len sc) (sc_routed sc)"

section \<open>One token\<close>

text \<open>The processor and library a block runs on.\<close>

record machine =
  mc_libm :: libm
  mc_avx2 :: bool
  mc_grant :: grant

definition block_env :: "machine \<Rightarrow> block_scratch \<Rightarrow> swiglu_env" where
  "block_env mc sc = \<lparr>decoded_length = sc_decoded_block sc, q8_length = sc_q8 sc, avx2_detected = mc_avx2 mc,
     activation_length = sc_swiglu_activation sc\<rparr>"

definition block_gemv ::
  "machine \<Rightarrow> block_scratch \<Rightarrow> execution_mode \<Rightarrow> packed_matrix \<Rightarrow> f32 list \<Rightarrow> nat \<Rightarrow> kernel_error + f32 list" where
  "block_gemv mc sc mode m input n = gemv (gemv_env.truncate (block_env mc sc)) mode m input n"

definition validate_cache ::
  "attention_weights \<Rightarrow> kv_cache \<Rightarrow> nat \<Rightarrow> nat \<Rightarrow> f32 list \<Rightarrow> block_scratch \<Rightarrow> kernel_error + unit" where
  "validate_cache aw c layer position hidden_state sc =
     rbind (require_equal ''block hidden state'' (pm_input_width (aw_query aw)) (length hidden_state)) (\<lambda>_.
     rbind (require_equal ''KV query heads'' (aw_kv_head_count aw) (kv_head_count c)) (\<lambda>_.
     rbind (require_equal ''KV key dimension'' (aw_key_dimension aw) (key_dimension c)) (\<lambda>_.
     rbind (require_equal ''KV value dimension'' (aw_value_dimension aw) (value_dimension c)) (\<lambda>_.
     rbind (map_err KKv (stored_tokens c layer)) (\<lambda>stored.
     rbind (require_equal ''KV position'' stored position) (\<lambda>_.
     require_equal ''block scratch hidden width'' (length hidden_state) (sc_attention_normalized sc)))))))"

definition validate_runtime ::
  "block_weights \<Rightarrow> kv_cache \<Rightarrow> nat \<Rightarrow> nat \<Rightarrow> f32 list \<Rightarrow> block_scratch \<Rightarrow> kernel_error + unit" where
  "validate_runtime b c layer position hidden_state sc =
     rbind (validate_block b) (\<lambda>_. validate_cache (bw_attention b) c layer position hidden_state sc)"

definition validate_streaming_runtime ::
  "streaming_weights \<Rightarrow> kv_cache \<Rightarrow> nat \<Rightarrow> nat \<Rightarrow> f32 list \<Rightarrow> block_scratch \<Rightarrow> kernel_error + unit" where
  "validate_streaming_runtime b c layer position hidden_state sc =
     rbind (validate_streaming_moe b) (\<lambda>_.
     rbind (validate_cache (st_attention b) c layer position hidden_state sc) (\<lambda>_.
     rbind (require_equal ''block scratch expert count'' (st_expert_count b) (sc_router_logits sc)) (\<lambda>_.
     require_equal ''block scratch selected expert count'' (st_expert_used_count b) (length (sc_routed sc)))))"

definition attention_projections ::
  "machine \<Rightarrow> block_execution \<Rightarrow> attention_weights \<Rightarrow> f32 list \<Rightarrow> block_scratch \<Rightarrow>
    kernel_error + f32 list \<times> f32 list \<times> f32 list" where
  "attention_projections mc x aw hidden_state sc =
     rbind (weighted_rms_norm hidden_state (aw_input_norm aw) (bx_rms_epsilon x) (sc_attention_normalized sc)) (\<lambda>normed.
     rbind (block_gemv mc sc (bx_mode x) (aw_query aw) normed (sc_queries sc)) (\<lambda>q.
     rbind (block_gemv mc sc (bx_mode x) (aw_key aw) normed (sc_keys sc)) (\<lambda>k.
     rbind (block_gemv mc sc (bx_mode x) (aw_value aw) normed (sc_values sc)) (\<lambda>v.
     rbind (weighted_head_rms_norm q (aw_query_norm aw) (aw_key_dimension aw) (bx_rms_epsilon x)) (\<lambda>q.
     rbind (weighted_head_rms_norm k (aw_key_norm aw) (aw_key_dimension aw) (bx_rms_epsilon x)) (\<lambda>k.
     rbind (apply_neox_yarn_rope (mc_libm mc) q (aw_query_head_count aw) (bx_position x) (bx_rope x)) (\<lambda>q.
     rbind (apply_neox_yarn_rope (mc_libm mc) k (aw_kv_head_count aw) (bx_position x) (bx_rope x)) (\<lambda>k.
     Inr (q, k, v)))))))))"

definition token_input :: "attention_weights \<Rightarrow> f32 list \<Rightarrow> f32 list \<Rightarrow> f32 list \<Rightarrow> attention_input" where
  "token_input aw q k v =
     \<lparr>ai_token_count = 1, ai_query_head_count = aw_query_head_count aw, ai_queries = q, ai_keys = k, ai_values = v\<rparr>"

text \<open>
  The part both blocks share: up to the normalised feed-forward input. The result is that input, or the
  error, with the cache and the hidden state the code leaves behind.
\<close>

definition attention_phase ::
  "machine \<Rightarrow> block_execution \<Rightarrow> attention_weights \<Rightarrow> f32 list \<Rightarrow> kv_cache \<Rightarrow> f32 list \<Rightarrow> block_scratch \<Rightarrow>
    (kernel_error + f32 list) \<times> kv_cache \<times> f32 list" where
  "attention_phase mc x aw ffn_norm c hidden_state sc =
     (case attention_projections mc x aw hidden_state sc of
        Inl e \<Rightarrow> (Inl e, c, hidden_state)
      | Inr (q, k, v) \<Rightarrow>
     (case causal_gqa_attention (mc_grant mc) (mc_libm mc) c (bx_layer x) (token_input aw q k v) (sc_attention_context sc)
         \<lparr>scores_length = sc_scores sc, staging_length = sc_attention_staging sc\<rparr> of
        (Inl e, c') \<Rightarrow> (Inl e, c', hidden_state)
      | (Inr ctxt, c') \<Rightarrow>
     (case rbind (block_gemv mc sc (bx_mode x) (aw_output aw) ctxt (sc_attention_delta sc)) (residual_add hidden_state) of
        Inl e \<Rightarrow> (Inl e, c', hidden_state)
      | Inr residual \<Rightarrow>
          (weighted_rms_norm residual ffn_norm (bx_rms_epsilon x) (length (sc_ffn_normalized sc)), c', residual))))"

definition route_token ::
  "machine \<Rightarrow> block_execution \<Rightarrow> packed_matrix \<Rightarrow> f32 list \<Rightarrow> nat \<Rightarrow> f32 \<Rightarrow> f32 list \<Rightarrow> block_scratch \<Rightarrow>
    kernel_error + routed_expert list" where
  "route_token mc x router selection_bias used weight_scale normed sc =
     rbind (block_gemv mc sc (bx_mode x) router normed (sc_router_logits sc)) (\<lambda>logits.
     map_err KRouting (route_experts (mc_libm mc) logits selection_bias used weight_scale (sc_route_candidates sc)
       (length (sc_routed sc))))"

text \<open>The state a block call changes: cache, hidden state, workspace.\<close>

type_synonym block_state = "kv_cache \<times> f32 list \<times> block_scratch"

definition feed_forward_delta ::
  "machine \<Rightarrow> block_execution \<Rightarrow> feed_forward \<Rightarrow> f32 list \<Rightarrow> block_scratch \<Rightarrow> (kernel_error + f32 list) \<times> block_scratch" where
  "feed_forward_delta mc x ff normed sc =
     (case ff of
        DenseFeedForward e \<Rightarrow> (swiglu_project (block_env mc sc) (mc_libm mc) (bx_mode x) e normed (sc_ffn_delta sc), sc)
      | MoeFeedForward moe \<Rightarrow>
          (case route_token mc x (mw_router moe) (mw_selection_bias moe) (mw_expert_used_count moe) (mw_weight_scale moe) normed sc of
             Inl e \<Rightarrow> (Inl e, sc)
           | Inr routed \<Rightarrow>
               (moe_routed_by_id (block_env mc sc) (mc_libm mc) (bx_mode x) routed (mw_routed_experts moe)
                  (mw_shared_expert moe) normed (sc_ffn_delta sc) (sc_preflight_output sc),
                sc\<lparr>sc_routed := routed, sc_routed_len := mw_expert_used_count moe\<rparr>)))"

definition hy3_block_forward_token ::
  "machine \<Rightarrow> block_execution \<Rightarrow> block_weights \<Rightarrow> kv_cache \<Rightarrow> f32 list \<Rightarrow> block_scratch \<Rightarrow>
    (kernel_error + unit) \<times> block_state" where
  "hy3_block_forward_token mc x b c hidden_state sc0 =
     (case validate_runtime b c (bx_layer x) (bx_position x) hidden_state sc0 of
        Inl e \<Rightarrow> (Inl e, c, hidden_state, sc0)
      | Inr _ \<Rightarrow>
     (let sc = scratch_reset sc0 in
      case attention_phase mc x (bw_attention b) (bw_ffn_norm b) c hidden_state sc of
        (Inl e, c', h) \<Rightarrow> (Inl e, c', h, sc)
      | (Inr normed, c', h) \<Rightarrow>
     (case feed_forward_delta mc x (bw_feed_forward b) normed (sc\<lparr>sc_ffn_normalized := normed\<rparr>) of
        (Inl e, sc') \<Rightarrow> (Inl e, c', h, sc')
      | (Inr delta, sc') \<Rightarrow>
     (case residual_add h delta of
        Inl e \<Rightarrow> (Inl e, c', h, sc')
      | Inr h' \<Rightarrow> (Inr (), c', h', sc')))))"

definition hy3_moe_route_token ::
  "machine \<Rightarrow> block_execution \<Rightarrow> streaming_weights \<Rightarrow> kv_cache \<Rightarrow> f32 list \<Rightarrow> block_scratch \<Rightarrow>
    (kernel_error + unit) \<times> block_state" where
  "hy3_moe_route_token mc x b c hidden_state sc0 =
     (case validate_streaming_runtime b c (bx_layer x) (bx_position x) hidden_state sc0 of
        Inl e \<Rightarrow> (Inl e, c, hidden_state, sc0)
      | Inr _ \<Rightarrow>
      if sc_pending sc0
      then (Inl (KInvalidParameter ''streaming MoE phase''
        ''the previous routed phase must be completed before routing again''), c, hidden_state, sc0)
      else let sc = sc0\<lparr>sc_routed_len := 0\<rparr> in
      case attention_phase mc x (st_attention b) (st_ffn_norm b) c hidden_state sc of
        (Inl e, c', h) \<Rightarrow> (Inl e, c', h, sc)
      | (Inr normed, c', h) \<Rightarrow>
     (case route_token mc x (st_router b) (st_selection_bias b) (st_expert_used_count b) (st_weight_scale b) normed sc of
        Inl e \<Rightarrow> (Inl e, c', h, sc\<lparr>sc_ffn_normalized := normed\<rparr>)
      | Inr routed \<Rightarrow> (Inr (), c', h, sc\<lparr>sc_ffn_normalized := normed, sc_routed := routed,
          sc_routed_len := st_expert_used_count b, sc_pending := True\<rparr>)))"

fun same_routing :: "routed_expert list \<Rightarrow> selected_expert list \<Rightarrow> bool" where
  "same_routing (r # rs) (s # ss) \<longleftrightarrow>
     re_expert_id r = se_expert_id s \<and> re_coefficient r = se_coefficient s \<and> same_routing rs ss"
| "same_routing _ _ \<longleftrightarrow> True"

definition hy3_moe_finish_token ::
  "machine \<Rightarrow> execution_mode \<Rightarrow> selected_expert list \<Rightarrow> swiglu_expert \<Rightarrow> f32 list \<Rightarrow> block_scratch \<Rightarrow>
    (kernel_error + unit) \<times> f32 list \<times> block_scratch" where
  "hy3_moe_finish_token mc mode selected shared hidden_state sc =
     (if \<not> sc_pending sc
      then (Inl (KInvalidParameter ''streaming MoE phase'' ''routing must run exactly once before completion''), hidden_state, sc)
      else if length selected \<noteq> length (scratch_routed sc)
      then (Inl (KDimensionMismatch ''streaming selected expert count'' (length (scratch_routed sc)) (length selected)),
        hidden_state, sc)
      else if \<not> same_routing (scratch_routed sc) selected
      then (Inl (KInvalidParameter ''streaming selected expert identity''
        ''IDs and coefficients must match authoritative routing exactly''), hidden_state, sc)
      else case rbind (moe_selected (block_env mc sc) (mc_libm mc) mode selected shared (sc_ffn_normalized sc)
             (sc_ffn_delta sc) (sc_preflight_output sc)) (residual_add hidden_state) of
        Inl e \<Rightarrow> (Inl e, hidden_state, sc)
      | Inr h \<Rightarrow> (Inr (), h, sc\<lparr>sc_pending := False\<rparr>))"

end
