(* ===== verification/Hy3_Streaming.thy ===== *)
theory Hy3_Streaming
  imports Hy3_Block
begin

text \<open>
  Correctness of the transformer block of \<^verbatim>\<open>Hy3_Block\<close>: what a call does to the cache, the agreement of the
  execution modes, the protocol of the two streaming phases, and the agreement of the streamed block with
  the resident one. The last section runs a small block.
\<close>

section \<open>The effect on the cache\<close>

text \<open>One token of rows may have been appended to one layer; the rest of the cache is as before.\<close>

definition grows_at_most :: "nat \<Rightarrow> kv_cache \<Rightarrow> kv_cache \<Rightarrow> bool" where
  "grows_at_most layer c d \<longleftrightarrow> kv_inv d \<and> config_of d = config_of c \<and>
     (\<forall>l < layer_count c. l \<noteq> layer \<longrightarrow> kv_abs d l = kv_abs c l) \<and>
     (kv_abs d layer = kv_abs c layer \<or> (\<exists>row. kv_abs d layer = kv_abs c layer @ [row]))"

definition grows :: "nat \<Rightarrow> kv_cache \<Rightarrow> kv_cache \<Rightarrow> bool" where
  "grows layer c d \<longleftrightarrow> grows_at_most layer c d \<and> layer < layer_count c \<and>
     (\<exists>row. kv_abs d layer = kv_abs c layer @ [row])"

lemma grows_at_most_refl [intro]: "kv_inv c \<Longrightarrow> grows_at_most layer c c"
  by (simp add: grows_at_most_def)

lemma attention_grows:
  assumes "kv_inv c"
  shows "causal_gqa_attention grant m c layer (token_input aw q k v) n scratch = (Inl e, d) \<Longrightarrow> d = c"
    "causal_gqa_attention grant m c layer (token_input aw q k v) n scratch = (Inr out, d) \<Longrightarrow> grows layer c d"
proof -
  show "d = c" if "causal_gqa_attention grant m c layer (token_input aw q k v) n scratch = (Inl e, d)"
    by (rule attention_cases [OF assms(1), of grant m layer "token_input aw q k v" n scratch]) (use that in auto)
  assume "causal_gqa_attention grant m c layer (token_input aw q k v) n scratch = (Inr out, d)"
  from attention_Inr [OF assms(1) this]
  have d: "kv_inv d" "config_of d = config_of c" "call_ok c layer (token_input aw q k v) n scratch"
    "kv_abs d layer = context_rows c layer (token_input aw q k v)"
    "\<And>l. l < layer_count c \<Longrightarrow> l \<noteq> layer \<Longrightarrow> kv_abs d l = kv_abs c l" by blast+
  have "\<exists>row. kv_abs d layer = kv_abs c layer @ [row]"
    by (simp add: d(4) context_rows_def token_input_def)
  then show "grows layer c d" using d by (simp add: grows_def grows_at_most_def call_ok_def)
qed

lemma grows_less: "grows layer c d \<Longrightarrow> grows_at_most layer c d"
  by (simp add: grows_def)

lemma attention_phase_grows:
  assumes "kv_inv c" "attention_phase mc x aw ffn_norm c h sc = (r, d, h')"
  shows "grows_at_most (bx_layer x) c d" "r = Inr normed \<Longrightarrow> grows (bx_layer x) c d"
  using assms
  by (auto simp: attention_phase_def split: sum.splits prod.splits dest: attention_grows [OF assms(1)] grows_less)

lemma forward_grows:
  assumes "kv_inv c" "hy3_block_forward_token mc x b c h sc = (r, d, h', sc')"
  shows "grows_at_most (bx_layer x) c d" "r = Inr u \<Longrightarrow> grows (bx_layer x) c d"
  using assms
  by (auto simp: hy3_block_forward_token_def Let_def split: sum.splits prod.splits dest: attention_phase_grows [OF assms(1)])

lemma route_grows:
  assumes "kv_inv c" "hy3_moe_route_token mc x b c h sc = (r, d, h', sc')"
  shows "grows_at_most (bx_layer x) c d" "r = Inr u \<Longrightarrow> grows (bx_layer x) c d"
  using assms
  by (auto simp: hy3_moe_route_token_def Let_def split: sum.splits prod.splits if_splits dest: attention_phase_grows [OF assms(1)])

section \<open>Execution modes\<close>

text \<open>The parallel mode, with or without AVX2, and the scalar mode compute the same bits.\<close>

lemma gemv_machine_eq:
  assumes "decoded_length env = decoded_length env'" "q8_length env = q8_length env'"
  shows "gemv env CpuParallelQ8K m input n = gemv env' LlamaQ8K m input n"
  using assms gemv_modes_eq [of env m input n] by (simp add: gemv_def)

lemma gemv_accumulate_machine_eq:
  assumes "decoded_length env = decoded_length env'" "q8_length env = q8_length env'"
  shows "gemv_accumulate_scaled env CpuParallelQ8K m input destination scale =
    gemv_accumulate_scaled env' LlamaQ8K m input destination scale"
  using assms gemv_accumulate_modes_eq [of env m input destination scale] by (simp add: gemv_accumulate_scaled_def)

definition same_buffers :: "swiglu_env \<Rightarrow> swiglu_env \<Rightarrow> bool" where
  "same_buffers env env' \<longleftrightarrow> decoded_length env = decoded_length env' \<and> q8_length env = q8_length env' \<and>
     activation_length env = activation_length env'"

lemma swiglu_machine_eq:
  assumes "same_buffers env env'"
  shows "swiglu_project env m CpuParallelQ8K e input n = swiglu_project env' m LlamaQ8K e input n"
    "expert_swiglu_accumulate env m CpuParallelQ8K e input destination coefficient =
     expert_swiglu_accumulate env' m LlamaQ8K e input destination coefficient"
proof -
  have g: "gemv (gemv_env.truncate env) CpuParallelQ8K w v n = gemv (gemv_env.truncate env') LlamaQ8K w v n" for w v n
    by (rule gemv_machine_eq) (use assms in \<open>simp_all add: same_buffers_def gemv_env.defs\<close>)
  have a: "gemv_accumulate_scaled (gemv_env.truncate env) CpuParallelQ8K w v d s =
      gemv_accumulate_scaled (gemv_env.truncate env') LlamaQ8K w v d s" for w v d s
    by (rule gemv_accumulate_machine_eq) (use assms in \<open>simp_all add: same_buffers_def gemv_env.defs\<close>)
  have v: "validate_expert_call env = validate_expert_call env'"
    by (intro ext) (use assms in \<open>simp add: validate_expert_call_def same_buffers_def cong: if_cong\<close>)
  show "swiglu_project env m CpuParallelQ8K e input n = swiglu_project env' m LlamaQ8K e input n"
    "expert_swiglu_accumulate env m CpuParallelQ8K e input destination coefficient =
     expert_swiglu_accumulate env' m LlamaQ8K e input destination coefficient"
    by (simp_all add: swiglu_project_def expert_swiglu_accumulate_def swiglu_hidden_def g a v)
qed

lemma moe_machine_eq:
  assumes "same_buffers env env'"
  shows "moe_selected env m CpuParallelQ8K routed shared input n p = moe_selected env' m LlamaQ8K routed shared input n p"
    "moe_routed_by_id env m CpuParallelQ8K ids experts shared input n p =
     moe_routed_by_id env' m LlamaQ8K ids experts shared input n p"
proof -
  note sw = swiglu_machine_eq [OF assms]
  have acc: "accumulate_experts env m CpuParallelQ8K rs shared input n = accumulate_experts env' m LlamaQ8K rs shared input n" for rs
    by (simp add: accumulate_experts_def sw)
  have pre: "preflight_by_id env m CpuParallelQ8K experts shared input n previous ids =
      preflight_by_id env' m LlamaQ8K experts shared input n previous ids" for previous
    by (induction ids arbitrary: previous) (simp_all add: sw)
  show "moe_selected env m CpuParallelQ8K routed shared input n p = moe_selected env' m LlamaQ8K routed shared input n p"
    "moe_routed_by_id env m CpuParallelQ8K ids experts shared input n p =
     moe_routed_by_id env' m LlamaQ8K ids experts shared input n p"
    by (simp_all add: moe_selected_def moe_routed_by_id_def sw acc pre)
qed

text \<open>Two runs of a block: in parallel on any processor, and with the scalar kernels.\<close>

definition same_run :: "machine \<Rightarrow> block_execution \<Rightarrow> machine \<Rightarrow> block_execution \<Rightarrow> bool" where
  "same_run mc x mc' x' \<longleftrightarrow> mc_libm mc = mc_libm mc' \<and> mc_grant mc = mc_grant mc' \<and>
     x' = x\<lparr>bx_mode := LlamaQ8K\<rparr> \<and> bx_mode x = CpuParallelQ8K"

lemma block_gemv_eq: "block_gemv mc sc CpuParallelQ8K m input n = block_gemv mc' sc LlamaQ8K m input n"
  unfolding block_gemv_def by (rule gemv_machine_eq) (simp_all add: block_env_def gemv_env.defs)

lemma block_env_buffers: "same_buffers (block_env mc sc) (block_env mc' sc)"
  by (simp add: same_buffers_def block_env_def)

lemmas block_machine_eq = block_gemv_eq [where mc = mc and mc' = mc'] swiglu_machine_eq [OF block_env_buffers [of mc _ mc']]
  moe_machine_eq [OF block_env_buffers [of mc _ mc']] for mc mc'

lemma phase_machine_eq:
  assumes "same_run mc x mc' x'"
  shows "attention_phase mc x aw ffn_norm c h sc = attention_phase mc' x' aw ffn_norm c h sc"
    "route_token mc x router sbias used scale normed sc = route_token mc' x' router sbias used scale normed sc"
    "feed_forward_delta mc x ff normed sc = feed_forward_delta mc' x' ff normed sc"
proof -
  have run: "mc_libm mc' = mc_libm mc" "mc_grant mc' = mc_grant mc" "bx_layer x' = bx_layer x"
    "bx_position x' = bx_position x" "bx_rope x' = bx_rope x" "bx_rms_epsilon x' = bx_rms_epsilon x"
    and mode: "bx_mode x = CpuParallelQ8K" "bx_mode x' = LlamaQ8K"
    using assms by (auto simp: same_run_def)
  have g: "block_gemv mc sc (bx_mode x) m input n = block_gemv mc' sc (bx_mode x') m input n" for sc m input n
    unfolding mode by (rule block_gemv_eq)
  have ff: "swiglu_project (block_env mc sc) lm (bx_mode x) = swiglu_project (block_env mc' sc) lm (bx_mode x')"
    "moe_routed_by_id (block_env mc sc) lm (bx_mode x) = moe_routed_by_id (block_env mc' sc) lm (bx_mode x')" for lm sc
    unfolding mode
    by (intro ext; rule swiglu_machine_eq [OF block_env_buffers] moe_machine_eq [OF block_env_buffers])+
  have r: "route_token mc x router sbias used scale normed sc = route_token mc' x' router sbias used scale normed sc"
    for router sbias used scale sc
    unfolding route_token_def g run ..
  show "route_token mc x router sbias used scale normed sc = route_token mc' x' router sbias used scale normed sc" by (rule r)
  show "attention_phase mc x aw ffn_norm c h sc = attention_phase mc' x' aw ffn_norm c h sc"
    unfolding attention_phase_def attention_projections_def g run ..
  show "feed_forward_delta mc x ff normed sc = feed_forward_delta mc' x' ff normed sc"
    unfolding feed_forward_delta_def r ff run ..
qed

lemma block_runs_eq:
  assumes "same_run mc x mc' x'"
  shows "hy3_block_forward_token mc x b c h sc = hy3_block_forward_token mc' x' b c h sc"
    "hy3_moe_route_token mc x sb c h sc = hy3_moe_route_token mc' x' sb c h sc"
    "hy3_moe_finish_token mc CpuParallelQ8K selected shared h sc = hy3_moe_finish_token mc' LlamaQ8K selected shared h sc"
proof -
  have x: "bx_layer x' = bx_layer x" "bx_position x' = bx_position x" "mc_libm mc = mc_libm mc'"
    using assms by (auto simp: same_run_def)
  note eq = phase_machine_eq [OF assms] x
  show "hy3_block_forward_token mc x b c h sc = hy3_block_forward_token mc' x' b c h sc"
    unfolding hy3_block_forward_token_def eq ..
  show "hy3_moe_route_token mc x sb c h sc = hy3_moe_route_token mc' x' sb c h sc"
    unfolding hy3_moe_route_token_def eq ..
  show "hy3_moe_finish_token mc CpuParallelQ8K selected shared h sc = hy3_moe_finish_token mc' LlamaQ8K selected shared h sc"
    by (simp add: hy3_moe_finish_token_def block_machine_eq [where mc = mc and mc' = mc'] x)
qed

section \<open>Streaming and resident experts\<close>

lemma route_experts_length: "route_experts m logits sbias used scale cands sel = Inr routed \<Longrightarrow> length routed = used"
  by (auto simp: route_experts_def rbind_Inr Let_def min_def route_candidates_def split: if_splits)

text \<open>The selected experts are the resident ones the routing names.\<close>

definition loaded_from :: "swiglu_expert list \<Rightarrow> routed_expert \<Rightarrow> selected_expert \<Rightarrow> bool" where
  "loaded_from experts r s \<longleftrightarrow> re_expert_id r = se_expert_id s \<and> re_coefficient r = se_coefficient s \<and>
     se_expert_id s < length experts \<and> se_expert s = experts ! se_expert_id s"

lemma preflight_loaded:
  assumes "list_all2 (loaded_from experts) routed selected" "check_routed shared previous selected = Inr u"
    and "\<forall>s \<in> set selected. \<exists>out. swiglu_project env m mode (se_expert s) input n = Inr out"
  shows "preflight_by_id env m mode experts shared input n previous routed = Inr ()"
  using assms
proof (induction routed selected arbitrary: previous rule: list_all2_induct)
  case (Cons r rs s ss)
  then have 1: "re_expert_id r = se_expert_id s" "re_coefficient r = se_coefficient s" "se_expert_id s < length experts"
    "experts ! re_expert_id r = se_expert s"
    by (simp_all add: loaded_from_def)
  from Cons.prems(1) have 2: "finite_value ''routed expert coefficient'' 0 (se_coefficient s) = Inr ()"
    "order_check previous (se_expert_id s) = Inr ()"
    "require_equal ''routed expert input width'' (ex_input_width shared) (ex_input_width (se_expert s)) = Inr ()"
    "require_equal ''routed expert output width'' (ex_output_width shared) (ex_output_width (se_expert s)) = Inr ()"
    "check_routed shared (Some (se_expert_id s)) ss = Inr u"
    by (auto simp: rbind_Inr)
  obtain out where "swiglu_project env m mode (se_expert s) input n = Inr out" using Cons.prems(2) by auto
  moreover have "preflight_by_id env m mode experts shared input n (Some (se_expert_id s)) rs = Inr ()"
    using 2(5) Cons.prems(2) by (intro Cons.IH) auto
  ultimately show ?case using 1(3) by (simp add: 1(1,2) 1(4) [unfolded 1(1)] 2 Let_def)
qed simp

lemma moe_loaded:
  assumes "list_all2 (loaded_from experts) routed selected"
    and "moe_selected env m mode selected shared input n p = Inr out"
  shows "moe_routed_by_id env m mode routed experts shared input n p = Inr out"
proof -
  from assms(2) obtain u outs w where v: "validate_structure selected shared (length input) n p = Inr u"
    and pre: "map_res (\<lambda>s. rbind (swiglu_project env m mode (se_expert s) input n) (\<lambda>out.
         finite_slice ''routed expert output'' out)) selected = Inr outs"
    and sh: "swiglu_project env m mode shared input n = Inr w"
    and acc: "accumulate_experts env m mode (map (\<lambda>s. (se_expert s, se_coefficient s)) selected) shared input n = Inr out"
    by (auto simp: moe_selected_def rbind_Inr)
  have len: "length routed = length selected" using assms(1) by (rule list_all2_lengthD)
  have "\<forall>s \<in> set selected. \<exists>out. swiglu_project env m mode (se_expert s) input n = Inr out"
    using map_res_elem [OF pre] by (fastforce simp: rbind_Inr)
  then have "preflight_by_id env m mode experts shared input n None routed = Inr ()"
    using v by (intro preflight_loaded [OF assms(1)]) (auto simp: validate_structure_def rbind_Inr)
  moreover have "map (\<lambda>s. (experts ! re_expert_id s, re_coefficient s)) routed =
      map (\<lambda>s. (se_expert s, se_coefficient s)) selected"
    using assms(1) by (induction rule: list_all2_induct) (auto simp: loaded_from_def)
  ultimately show ?thesis
    using v sh acc len by (simp add: moe_routed_by_id_def validate_structure_def rbind_Inr)
qed

text \<open>The streaming block with its experts kept in memory.\<close>

definition resident :: "streaming_weights \<Rightarrow> swiglu_expert list \<Rightarrow> block_weights" where
  "resident b experts = \<lparr>bw_attention = st_attention b, bw_ffn_norm = st_ffn_norm b,
     bw_feed_forward = MoeFeedForward \<lparr>mw_router = st_router b, mw_selection_bias = st_selection_bias b,
       mw_routed_experts = experts, mw_shared_expert = st_shared_expert b,
       mw_expert_used_count = st_expert_used_count b, mw_weight_scale = st_weight_scale b\<rparr>\<rparr>"

text \<open>What the caller hands to the second phase: the resident experts under the routed numbers.\<close>

definition load_selected :: "swiglu_expert list \<Rightarrow> routed_expert list \<Rightarrow> selected_expert list" where
  "load_selected experts routed = map (\<lambda>r. \<lparr>se_expert_id = re_expert_id r, se_coefficient = re_coefficient r,
     se_expert = experts ! re_expert_id r\<rparr>) routed"

lemma route_token_ids:
  assumes "route_token mc x router sbias used scale normed sc = Inr routed" "r \<in> set routed"
  shows "re_expert_id r < sc_router_logits sc"
proof -
  from assms(1) obtain logits where l: "block_gemv mc sc (bx_mode x) router normed (sc_router_logits sc) = Inr logits"
    and r: "route_experts (mc_libm mc) logits sbias used scale (sc_route_candidates sc) (length (sc_routed sc)) = Inr routed"
    by (auto simp: route_token_def rbind_Inr)
  have "length logits = sc_router_logits sc" using gemv_length l by (auto simp: block_gemv_def)
  moreover have "re_expert_id r < length logits"
    using r assms(2)
    by (auto simp: route_experts_def rbind_Inr Let_def route_candidates_def split: if_splits dest!: in_set_takeD)
  ultimately show ?thesis by simp
qed

section \<open>Properties\<close>

lemma same_routing_iff:
  "length rs = length ss \<Longrightarrow> same_routing rs ss \<longleftrightarrow>
    map (\<lambda>s. (se_expert_id s, se_coefficient s)) ss = map (\<lambda>r. (re_expert_id r, re_coefficient r)) rs"
  by (induction rs ss rule: list_induct2) auto

text \<open>
  The two phases of a streamed block alternate. Routing succeeds only when no routed token is pending and
  leaves one pending; finishing succeeds only when one is pending and only with exactly the routed experts,
  by number and coefficient and in order, and clears it. A failed finish changes neither the hidden state
  nor the workspace, and a failed routing never leaves a token pending that was not pending before.
\<close>

theorem streaming_protocol:
  "(case hy3_moe_route_token mc x b c h sc of (r, c', h', sc') \<Rightarrow>
      if is_ok r then \<not> sc_pending sc \<and> sc_pending sc' \<and> length (scratch_routed sc') = st_expert_used_count b
      else sc_pending sc' = sc_pending sc) \<and>
   (case hy3_moe_finish_token mc mode selected shared h sc of (r, h', sc') \<Rightarrow>
      if is_ok r then sc_pending sc \<and> \<not> sc_pending sc' \<and>
        map (\<lambda>s. (se_expert_id s, se_coefficient s)) selected =
        map (\<lambda>r. (re_expert_id r, re_coefficient r)) (scratch_routed sc)
      else h' = h \<and> sc' = sc)"
proof
  show "case hy3_moe_route_token mc x b c h sc of (r, c', h', sc') \<Rightarrow>
      if is_ok r then \<not> sc_pending sc \<and> sc_pending sc' \<and> length (scratch_routed sc') = st_expert_used_count b
      else sc_pending sc' = sc_pending sc"
    using route_experts_length
    by (auto simp: hy3_moe_route_token_def Let_def scratch_routed_def route_token_def rbind_Inr
        split: sum.split prod.split)
  show "case hy3_moe_finish_token mc mode selected shared h sc of (r, h', sc') \<Rightarrow>
      if is_ok r then sc_pending sc \<and> \<not> sc_pending sc' \<and>
        map (\<lambda>s. (se_expert_id s, se_coefficient s)) selected =
        map (\<lambda>r. (re_expert_id r, re_coefficient r)) (scratch_routed sc)
      else h' = h \<and> sc' = sc"
    using same_routing_iff [of "scratch_routed sc" selected]
    by (auto simp: hy3_moe_finish_token_def split: sum.split)
qed

text \<open> C25.
  The execution modes agree to the bit: the parallel mode, on a processor with or without AVX2, and the
  scalar quantised mode give the same results, the same errors and the same states for a whole block, a
  routed phase and a finishing phase.
\<close>

theorem block_modes_agree:
  "hy3_block_forward_token (mc\<lparr>mc_avx2 := a\<rparr>) (x\<lparr>bx_mode := CpuParallelQ8K\<rparr>) b c h sc =
     hy3_block_forward_token mc (x\<lparr>bx_mode := LlamaQ8K\<rparr>) b c h sc \<and>
   hy3_moe_route_token (mc\<lparr>mc_avx2 := a\<rparr>) (x\<lparr>bx_mode := CpuParallelQ8K\<rparr>) sb c h sc =
     hy3_moe_route_token mc (x\<lparr>bx_mode := LlamaQ8K\<rparr>) sb c h sc \<and>
   hy3_moe_finish_token (mc\<lparr>mc_avx2 := a\<rparr>) CpuParallelQ8K selected shared h sc =
     hy3_moe_finish_token mc LlamaQ8K selected shared h sc"
proof -
  have "same_run (mc\<lparr>mc_avx2 := a\<rparr>) (x\<lparr>bx_mode := CpuParallelQ8K\<rparr>) mc (x\<lparr>bx_mode := LlamaQ8K\<rparr>)"
    by (simp add: same_run_def)
  from block_runs_eq [OF this] show ?thesis by blast
qed

lemma loaded_selected:
  "\<forall>r \<in> set routed. re_expert_id r < length experts \<Longrightarrow>
    list_all2 (loaded_from experts) routed (load_selected experts routed)"
  by (auto simp: load_selected_def list_all2_conv_all_nth loaded_from_def)

lemma route_token_Inr:
  assumes "hy3_moe_route_token mc x b c h sc = (Inr (), c1, h1, sc1)"
  obtains normed routed where
    "validate_streaming_runtime b c (bx_layer x) (bx_position x) h sc = Inr ()" "\<not> sc_pending sc"
    "attention_phase mc x (st_attention b) (st_ffn_norm b) c h (scratch_reset sc) = (Inr normed, c1, h1)"
    "route_token mc x (st_router b) (st_selection_bias b) (st_expert_used_count b) (st_weight_scale b) normed
       (scratch_reset sc) = Inr routed"
    "sc1 = (scratch_reset sc)\<lparr>sc_ffn_normalized := normed, sc_routed := routed,
       sc_routed_len := st_expert_used_count b, sc_pending := True\<rparr>"
proof -
  have reset: "scratch_reset sc = sc\<lparr>sc_routed_len := 0\<rparr>" if "\<not> sc_pending sc"
    using that by (cases sc) (simp add: scratch_reset_def)
  from assms have "validate_streaming_runtime b c (bx_layer x) (bx_position x) h sc = Inr ()" "\<not> sc_pending sc"
    by (auto simp: hy3_moe_route_token_def split: sum.splits if_splits)
  with assms that show ?thesis
    by (auto simp: hy3_moe_route_token_def Let_def reset split: sum.splits prod.splits)
qed

text \<open> C13.
  Streaming is faithful to the resident model: when the routed phase of a block succeeds and the finishing
  phase succeeds with the experts the routing names, evaluating the block with all its experts in memory
  succeeds too and gives the same cache, hidden state and workspace.
\<close>

theorem streaming_matches_resident:
  assumes "hy3_moe_route_token mc x b c h sc = (Inr (), c1, h1, sc1)"
    and "hy3_moe_finish_token mc (bx_mode x) (load_selected experts (scratch_routed sc1)) (st_shared_expert b) h1 sc1 =
      (Inr (), h2, sc2)"
    and "length experts = st_expert_count b"
    and "validate_routed_experts (pm_input_width (aw_query (st_attention b))) (st_shared_expert b) experts = Inr ()"
  shows "hy3_block_forward_token mc x (resident b experts) c h sc = (Inr (), c1, h2, sc2)"
proof -
  let ?sc = "scratch_reset sc"
  from route_token_Inr [OF assms(1)] obtain normed routed
    where v: "validate_streaming_runtime b c (bx_layer x) (bx_position x) h sc = Inr ()"
      and phase: "attention_phase mc x (st_attention b) (st_ffn_norm b) c h ?sc = (Inr normed, c1, h1)"
      and route: "route_token mc x (st_router b) (st_selection_bias b) (st_expert_used_count b) (st_weight_scale b) normed
        ?sc = Inr routed"
      and sc1: "sc1 = ?sc\<lparr>sc_ffn_normalized := normed, sc_routed := routed,
        sc_routed_len := st_expert_used_count b, sc_pending := True\<rparr>"
    by metis
  have len: "length routed = st_expert_used_count b"
    using route by (auto simp: route_token_def rbind_Inr dest: route_experts_length)
  then have sr: "scratch_routed sc1 = routed" by (simp add: scratch_routed_def sc1)
  have count: "sc_router_logits sc = st_expert_count b"
    using v by (auto simp: validate_streaming_runtime_def rbind_Inr require_equal_Inr)
  have "\<forall>r \<in> set routed. re_expert_id r < length experts"
    using route_token_ids [OF route] by (simp add: assms(3) count scratch_reset_def)
  note loaded = loaded_selected [OF this]
  have env: "block_env mc sc1 = block_env mc ?sc" by (simp add: block_env_def sc1)
  from assms(2) obtain delta where delta: "moe_selected (block_env mc ?sc) (mc_libm mc) (bx_mode x) (load_selected experts routed)
      (st_shared_expert b) normed (sc_ffn_delta ?sc) (sc_preflight_output ?sc) = Inr delta"
    and h2: "residual_add h1 delta = Inr h2" and sc2: "sc2 = sc1\<lparr>sc_pending := False\<rparr>"
    by (auto simp: hy3_moe_finish_token_def sr env rbind_Inr split: if_splits sum.splits) (auto simp: sc1)
  note by_id = moe_loaded [OF loaded delta]
  have valid: "validate_runtime (resident b experts) c (bx_layer x) (bx_position x) h sc = Inr ()"
    using v assms(3,4)
    by (auto simp: validate_runtime_def validate_block_def resident_def validate_streaming_runtime_def
        validate_streaming_moe_def rbind_Inr Let_def)
  have route': "route_token mc x (st_router b) (st_selection_bias b) (st_expert_used_count b) (st_weight_scale b) normed
      (?sc\<lparr>sc_ffn_normalized := normed\<rparr>) = Inr routed"
    using route by (simp add: route_token_def block_gemv_def block_env_def)
  have env': "block_env mc (?sc\<lparr>sc_ffn_normalized := normed\<rparr>) = block_env mc ?sc" by (simp add: block_env_def)
  have ff: "feed_forward_delta mc x (bw_feed_forward (resident b experts)) normed (?sc\<lparr>sc_ffn_normalized := normed\<rparr>) =
      (Inr delta, ?sc\<lparr>sc_ffn_normalized := normed, sc_routed := routed, sc_routed_len := st_expert_used_count b\<rparr>)"
    by (simp add: feed_forward_delta_def resident_def route' env' by_id)
  have parts: "bw_attention (resident b experts) = st_attention b" "bw_ffn_norm (resident b experts) = st_ffn_norm b"
    by (simp_all add: resident_def)
  show ?thesis
    by (simp add: hy3_block_forward_token_def valid Let_def parts phase ff h2) (simp add: sc2 sc1 scratch_reset_def)
qed

text \<open>
  Whatever a block call returns, it leaves a well-formed cache of the same geometry in which at most one
  token has been appended, to its own layer; a successful call has appended exactly one.
\<close>

theorem block_cache_effect:
  assumes "kv_inv c"
  shows "(case hy3_block_forward_token mc x b c h sc of (r, d, h', sc') \<Rightarrow>
      grows_at_most (bx_layer x) c d \<and> (if is_ok r then grows (bx_layer x) c d else True)) \<and>
    (case hy3_moe_route_token mc x sb c h sc of (r, d, h', sc') \<Rightarrow>
      grows_at_most (bx_layer x) c d \<and> (if is_ok r then grows (bx_layer x) c d else True))"
  using forward_grows [OF assms] route_grows [OF assms] by (auto simp: is_ok_def split: sum.split)


section \<open>A run\<close>

lemma more_bit_len: "bit_len 70368744177664 = 47" "bit_len 4194304 = 23" "bit_len 2 = 2" "bit_len 194368031998 = 38"
  "bit_len 11863283 = 24" "bit_len 796131472690931 = 50"
  by (simp_all add: bit_len.simps)

lemma unit_extra:
  "f32_div 0 f32_one = 0" "f32_div 0 0x40000000 = 0" "f32_sub 0 0 = 0" "f32_mul f32_one f32_one = f32_one"
  "f32_add 0 0x3f000000 = 0x3f000000" "f32_add 0x3f000000 0 = 0x3f000000" "f32_div 0x3f000000 0x3f000000 = f32_one"
  "f32_sqrt f32_one = f32_one" "f32_of_nat (Suc 0) = f32_one" "f32_of_nat 2 = 0x40000000"
proof -
  show "f32_div 0 f32_one = 0" "f32_div 0 0x40000000 = 0"
    by (simp_all add: f32_div_def f32_make_def unit_vals with_sign_def)
  show "f32_sub 0 0 = 0" by (simp add: f32_sub_def f32_of_val_def f32_make_def unit_vals fval_eval)
  show "f32_mul f32_one f32_one = f32_one"
    by (simp add: f32_mul_def f32_of_val_def f32_make_def unit_vals fval_eval more_bit_len) (simp add: f32_one_def)
  show "f32_add 0 0x3f000000 = 0x3f000000" "f32_add 0x3f000000 0 = 0x3f000000"
    by (simp_all add: f32_add_def f32_of_val_def f32_make_def unit_vals fval_eval unit_bit_len)
  show "f32_div 0x3f000000 0x3f000000 = f32_one"
    by (simp_all add: f32_div_def f32_make_def unit_vals unit_bit_len) (simp_all add: unit_fround with_sign_def f32_one_def)
  show "f32_sqrt f32_one = f32_one"
    by (simp add: f32_sqrt_def f32_make_def unit_vals unit_isqrt unit_fround) (simp add: f32_one_def)
  show "f32_of_nat (Suc 0) = f32_one"
    by (simp add: f32_of_nat_def f32_of_int_def f32_of_val_def f32_make_def fval_eval unit_bit_len) (simp add: f32_one_def)
  show "f32_of_nat 2 = 0x40000000"
    by (simp add: f32_of_nat_def f32_of_int_def f32_of_val_def f32_make_def fval_eval more_bit_len)
qed

lemma unit_order: "\<not> f32_le f32_one f32_zero" "\<not> f32_lt f32_one f32_zero" "\<not> f32_lt f32_zero f32_zero" "f32_eq f32_zero f32_zero"
  "f32_max 0x3f000000 ROUTING_SUM_FLOOR = 0x3f000000"
  by (simp_all add: f32_le_def f32_lt_def f32_eq_def f32_max_def f32_key_def f32_is_nan_def f32_one_def f32_zero_def ROUTING_SUM_FLOOR_def
   fkey_def fnan_def fmagnitude_def inf_bits_def signed_def fsign_def)

lemma scale_two: "attention_scale 2 = 0x3f3504f3"
proof -
  have "isqrt 37778931862957161709568 = 194368031998" by (simp add: isqrt.simps)
  then have s: "f32_sqrt 0x40000000 = 0x3fb504f3"
    by (simp add: f32_sqrt_def f32_make_def unit_vals) (simp add: fval_eval more_bit_len inf_bits_def)
  have v: "f32_val 0x3fb504f3 = FFin False 11863283 (- 23)" by (simp add: f32_val_def fval_eval)
  show ?thesis
    by (simp add: attention_scale_def unit_extra s f32_div_def f32_make_def unit_vals v more_bit_len)
      (simp add: fval_eval more_bit_len inf_bits_def)
qed


text \<open>A block of width one with one expert, all weights zero.\<close>

definition zero_matrix :: "nat \<Rightarrow> nat \<Rightarrow> packed_matrix" where
  "zero_matrix i n = \<lparr>pm_ty = F32, pm_input_width = i, pm_output_width = n, pm_row_bytes = 4 * i,
     pm_bytes = replicate (4 * i * n) 0\<rparr>"

definition zero_expert :: swiglu_expert where
  "zero_expert = \<lparr>sg_gate = zero_matrix 1 1, sg_up = zero_matrix 1 1, sg_down = zero_matrix 1 1\<rparr>"

definition zero_streaming :: streaming_weights where
  "zero_streaming = \<lparr>st_attention = \<lparr>aw_input_norm = [0], aw_query = zero_matrix 1 2, aw_query_norm = [0, 0],
       aw_key = zero_matrix 1 2, aw_key_norm = [0, 0], aw_value = zero_matrix 1 1, aw_output = zero_matrix 1 1,
       aw_query_head_count = 1, aw_kv_head_count = 1, aw_key_dimension = 2, aw_value_dimension = 1\<rparr>,
     st_ffn_norm = [0], st_router = zero_matrix 1 1, st_selection_bias = [0], st_shared_expert = zero_expert,
     st_expert_count = 1, st_expert_used_count = 1, st_weight_scale = f32_one\<rparr>"

definition zero_machine :: machine where
  "zero_machine = \<lparr>mc_libm = even_libm, mc_avx2 = False, mc_grant = (\<lambda>_ _. True)\<rparr>"

definition zero_rope :: rope_params where
  "zero_rope = \<lparr>rp_head_dimension = 2, rp_context_length = 3, rp_original_context_length = 3, rp_frequency_base = f32_one,
     rp_frequency_scale = f32_one, rp_extension_factor = f32_zero, rp_attention_factor = f32_one, rp_beta_fast = f32_one,
     rp_beta_slow = f32_one\<rparr>"

definition zero_execution :: block_execution where
  "zero_execution = \<lparr>bx_mode = DequantF32, bx_layer = 0, bx_position = 0, bx_rope = zero_rope, bx_rms_epsilon = f32_one\<rparr>"

definition zero_cache :: kv_cache where
  "zero_cache = \<lparr>layer_count = 1, kv_head_count = 1, key_dimension = 2, value_dimension = 1,
     page_tokens = 2, page_count = 2, token_capacity = 3, lengths = [0], pages = [[None, None]]\<rparr>"

definition zero_scratch :: block_scratch where
  "zero_scratch = \<lparr>sc_attention_normalized = 1, sc_queries = 2, sc_keys = 2, sc_values = 1, sc_attention_context = 1,
     sc_attention_staging = 1, sc_attention_delta = 1, sc_attention_residual = 1, sc_ffn_delta = 1, sc_preflight_output = 1,
     sc_swiglu_activation = 2, sc_decoded_block = 256, sc_q8 = 0, sc_scores = 3, sc_router_logits = 1, sc_route_candidates = 1,
     sc_ffn_normalized = [0], sc_routed = [\<lparr>re_expert_id = 0, re_coefficient = f32_zero\<rparr>], sc_routed_len = 0,
     sc_pending = False\<rparr>"

lemma zero_scratch_new: "new_streaming_moe (\<lambda>_ _. True) zero_streaming 3 = Inr zero_scratch"
  by (simp add: new_streaming_moe_def validate_streaming_moe_def validate_attention_def validate_router_def
      validate_expert_dimensions_def block_scratch_sized_def checked_product2_def zeroed_def require_equal_def
      zero_streaming_def zero_expert_def zero_matrix_def ex_input_width_def ex_output_width_def ex_hidden_width_def
      checked_mul_def u64_limit_def unit_finite zero_scratch_def f32_zero_def Let_def)

lemma zero_cache_inv: "kv_inv zero_cache"
proof -
  have "kv_new_lazy (\<lambda>_ _. True) 1 1 2 1 2 3 = Inr zero_cache"
    by (simp add: kv_new_lazy_def new_with_allocation_def layer_table_def zeroed_vec_def zero_cache_def
      checked_add_def u64_limit_def replicate_2 Let_def)
  then show ?thesis using new_with_allocation_inv(1) unfolding kv_new_lazy_def by blast
qed

lemma zero_gemv:
  assumes "decoded_length env \<noteq> 0"
  shows "gemv env DequantF32 (zero_matrix 1 1) [0] (Suc 0) = Inr [0]" "gemv env DequantF32 (zero_matrix 1 2) [0] 2 = Inr [0, 0]"
    "gemv_accumulate_scaled env DequantF32 (zero_matrix 1 1) [0] [0] f32_one = Inr [0]"
proof -
  have four: "replicate 4 x = [x, x, x, x]" "replicate 8 x = [x, x, x, x, x, x, x, x]" for x :: byte
    by (simp_all add: numeral_eq_Suc)
  have dec: "decode_block F32 [0, 0, 0, 0] (Suc 0) = Inr [0]"
    using decode_f32_block [of "[0, 0, 0, 0]" "[0]"] by (simp add: f32_of_le_def)
  show "gemv env DequantF32 (zero_matrix 1 1) [0] (Suc 0) = Inr [0]" "gemv env DequantF32 (zero_matrix 1 2) [0] 2 = Inr [0, 0]"
    "gemv_accumulate_scaled env DequantF32 (zero_matrix 1 1) [0] [0] f32_one = Inr [0]"
    using assms
    by (simp_all add: gemv_def gemv_accumulate_scaled_def gemv_dequant_f32_def prepare_dequant_def dot_dequant_row_def
        validate_dimensions_def decode_matrix_block_def zero_matrix_def f32_layout matrix_row_def four dec require_equal_def
        finite_slice_def finite_value_def unit_finite dot_values_def unit_arith f32_zero_def accumulate_rows_def
        dot_f32_row_def f32_at_def f32_of_le_def upt_rec)
qed


lemma zero_norm: "weighted_rms_norm [0] [0] f32_one (Suc 0) = Inr [0]" "weighted_head_rms_norm [0, 0] [0, 0] 2 f32_one = Inr [0, 0]"
  by (simp_all add: weighted_rms_norm_def weighted_head_rms_norm_def validate_norm_lengths_def validate_epsilon_def
      finite_slice_def finite_value_def unit_finite unit_order rms_scale_def normalized_def unit_extra unit_arith f32_zero_def
      unit_order [unfolded f32_zero_def] chunks_def Let_def unit_extra(10) [unfolded numeral_2_eq_2])

lemma zero_rope_head: "apply_neox_yarn_rope even_libm [0, 0] (Suc 0) 0 zero_rope = Inr [0, 0]"
proof -
  have "rope_validate zero_rope = Inr ()"
    by (simp add: rope_validate_def zero_rope_def finite_value_def unit_finite unit_order) (simp add: f32_zero_def unit_finite)
  moreover have "rope_angles even_libm zero_rope 0 1 t = [(f32_one, 0)]" for t
    by (simp add: Let_def even_libm_def magnitude_scale_def zero_rope_def unit_order unit_extra)
       (simp add: f32_zero_def unit_arith)
  ultimately show ?thesis
    by (simp add: apply_neox_yarn_rope_def zero_rope_def checked_mul_def u64_limit_def finite_slice_def finite_value_def
        unit_finite chunks_def rope_head_def rotate_pair_def unit_arith unit_extra Let_def)
qed

lemma zero_residual: "residual_add [0] [0] = Inr [0]"
  by (simp add: residual_add_def finite_slice_def finite_value_def unit_finite unit_arith)

lemma zero_buffers: "decoded_length (block_env zero_machine zero_scratch) \<noteq> 0"
  by (simp add: block_env_def zero_scratch_def)

lemma zero_projections:
  "attention_projections zero_machine zero_execution (st_attention zero_streaming) [0] zero_scratch = Inr ([0, 0], [0, 0], [0])"
  by (simp add: attention_projections_def block_gemv_def block_env_def gemv_env.defs zero_gemv [simplified] zero_streaming_def zero_execution_def
      zero_scratch_def zero_norm zero_rope_head zero_machine_def)

lemma zero_attention:
  "\<exists>d. causal_gqa_attention (\<lambda>_ _. True) even_libm zero_cache 0 (token_input (st_attention zero_streaming) [0, 0] [0, 0] [0]) 1
    \<lparr>scores_length = 3, staging_length = 1\<rparr> = (Inr [0], d)"
proof -
  let ?in = "token_input (st_attention zero_streaming) [0, 0] [0, 0] [0]"
  have m: "f32_mul 0 0x3f3504f3 = 0" 
    by (simp add: f32_mul_def f32_of_val_def f32_make_def unit_vals) (simp add: f32_val_def fval_eval)
  have att: "attend even_libm 1 [0, 0] [([0, 0], [0])] = Some [0]"
    by (simp add: attend_def Let_def dot_values_def f32_zero_def even_libm_def unit_arith unit_finite scale_two [unfolded numeral_2_eq_2] m)
  have ok: "call_ok zero_cache 0 ?in 1 \<lparr>scores_length = 3, staging_length = 1\<rparr>"
    by (simp add: call_ok_def zero_cache_def token_input_def zero_streaming_def u64_limit_def unit_finite)
  have "context_rows zero_cache 0 ?in = [[([0, 0], [0])]]"
    by (simp add: context_rows_def kv_abs_def zero_cache_def token_input_def input_rows_def slice_def)
  then have "attend_batch even_libm (ai_query_head_count ?in) (kv_head_count zero_cache)
      (key_dimension zero_cache) (value_dimension zero_cache) (ai_queries ?in)
      (context_rows zero_cache 0 ?in) (lengths zero_cache ! 0) (ai_token_count ?in) = map Some [[0]]"
    using att by (simp add: attend_batch_def token_input_def zero_streaming_def zero_cache_def slice_def)
  from attention_granted [OF zero_cache_inv ok this] show ?thesis by (simp add: zero_cache_def u64_limit_def)
qed


lemma zero_phase:
  "\<exists>d. attention_phase zero_machine zero_execution (st_attention zero_streaming) [0] zero_cache [0] zero_scratch = (Inr [0], d, [0])"
proof -
  obtain d where d: "causal_gqa_attention (\<lambda>_ _. True) even_libm zero_cache 0
      (token_input (st_attention zero_streaming) [0, 0] [0, 0] [0]) 1 \<lparr>scores_length = 3, staging_length = 1\<rparr> = (Inr [0], d)"
    using zero_attention by blast
  have fields: "bx_layer zero_execution = 0" "mc_grant zero_machine = (\<lambda>_ _. True)" "mc_libm zero_machine = even_libm"
    "sc_attention_context zero_scratch = 1" "sc_scores zero_scratch = 3" "sc_attention_staging zero_scratch = 1"
    "bx_mode zero_execution = DequantF32" "aw_output (st_attention zero_streaming) = zero_matrix 1 1"
    "sc_attention_delta zero_scratch = 1" "bx_rms_epsilon zero_execution = f32_one" "sc_ffn_normalized zero_scratch = [0]"
    by (simp_all add: zero_execution_def zero_machine_def zero_scratch_def zero_streaming_def)
  have g: "block_gemv zero_machine zero_scratch DequantF32 (zero_matrix 1 1) [0] 1 = Inr [0]"
    by (simp add: block_gemv_def block_env_def gemv_env.defs zero_gemv [simplified] zero_scratch_def)
  show ?thesis
    by (rule exI [of _ d]) (simp only: attention_phase_def zero_projections fields d g sum.case prod.case rbind_simps zero_residual,
      simp add: zero_norm)
qed

lemma zero_route:
  "route_token zero_machine zero_execution (st_router zero_streaming) (st_selection_bias zero_streaming) 1 f32_one [0] zero_scratch =
    Inr [\<lparr>re_expert_id = 0, re_coefficient = f32_one\<rparr>]"
proof -
  have "block_gemv zero_machine zero_scratch DequantF32 (zero_matrix 1 1) [0] 1 = Inr [0]"
    by (simp add: block_gemv_def block_env_def gemv_env.defs zero_gemv [simplified] zero_scratch_def)
  moreover have "sigmoid even_libm 0 = 0x3f000000" by (simp add: sigmoid_def even_libm_def unit_arith)
  moreover have "f32_is_finite 0x3f000000" by (simp add: f32_is_finite_iff fmagnitude_def inf_bits_def)
  ultimately show ?thesis
    by (simp add: route_token_def zero_streaming_def zero_execution_def zero_scratch_def route_experts_def routing_finite_def
        unit_finite unit_extra unit_order weight_total_def f32_zero_def route_candidates_def zero_machine_def Let_def)
qed

lemma zero_finish:
  "moe_selected (block_env zero_machine zero_scratch) even_libm DequantF32
    [\<lparr>se_expert_id = 0, se_coefficient = f32_one, se_expert = zero_expert\<rparr>] zero_expert [0] 1 1 = Inr [0]"
proof -
  have env: "gemv_env.truncate (block_env zero_machine zero_scratch) = \<lparr>decoded_length = 256, q8_length = 0, avx2_detected = False\<rparr>"
    "activation_length (block_env zero_machine zero_scratch) = 2"
    by (simp_all add: block_env_def gemv_env.defs zero_scratch_def zero_machine_def)
  have ex: "ex_input_width zero_expert = 1" "ex_hidden_width zero_expert = 1" "ex_output_width zero_expert = 1"
    "sg_gate zero_expert = zero_matrix 1 1" "sg_up zero_expert = zero_matrix 1 1" "sg_down zero_expert = zero_matrix 1 1"
    by (simp_all add: ex_input_width_def ex_hidden_width_def ex_output_width_def zero_expert_def zero_matrix_def)
  have hid: "swiglu_hidden (block_env zero_machine zero_scratch) even_libm DequantF32 zero_expert [0] = Inr [0]"
    by (simp add: swiglu_hidden_def env ex zero_gemv [simplified] apply_swiglu_def Let_def)
       (simp add: even_libm_def unit_arith unit_extra finite_value_def unit_finite)
  have proj: "swiglu_project (block_env zero_machine zero_scratch) even_libm DequantF32 zero_expert [0] 1 = Inr [0]"
    by (simp add: swiglu_project_def validate_expert_call_def require_equal_def env ex hid checked_mul_def u64_limit_def
        zero_gemv [simplified])
  have acc: "expert_swiglu_accumulate (block_env zero_machine zero_scratch) even_libm DequantF32 zero_expert [0] [0] f32_one = Inr [0]"
    by (simp add: expert_swiglu_accumulate_def validate_expert_call_def require_equal_def env ex hid checked_mul_def u64_limit_def
        zero_gemv [simplified] finite_value_def unit_finite)
  show ?thesis
    using proj acc
    by (simp add: moe_selected_def validate_structure_def moe_shape_def require_equal_def ex finite_value_def unit_finite
        order_check_def finite_slice_def accumulate_experts_def f32_zero_def)
qed


lemma zero_valid: "validate_streaming_runtime zero_streaming zero_cache 0 0 [0] zero_scratch = Inr ()"
  by (simp add: validate_streaming_runtime_def validate_streaming_moe_def validate_attention_def validate_router_def
      validate_expert_dimensions_def validate_cache_def checked_product2_def require_equal_def stored_tokens_def
      validate_layer_def check_def zero_cache_def zero_streaming_def zero_expert_def zero_matrix_def ex_input_width_def
      ex_output_width_def checked_mul_def u64_limit_def unit_finite zero_scratch_def Let_def)

text \<open>The two phases on the zero block.\<close>

definition zero_routed :: block_scratch where
  "zero_routed = zero_scratch\<lparr>sc_ffn_normalized := [0], sc_routed := [\<lparr>re_expert_id = 0, re_coefficient = f32_one\<rparr>],
     sc_routed_len := 1, sc_pending := True\<rparr>"

lemma zero_routed_experts: "scratch_routed zero_routed = [\<lparr>re_expert_id = 0, re_coefficient = f32_one\<rparr>]"
  by (simp add: scratch_routed_def zero_routed_def)

lemma zero_routes:
  "\<exists>d. hy3_moe_route_token zero_machine zero_execution zero_streaming zero_cache [0] zero_scratch = (Inr (), d, [0], zero_routed)"
proof -
  obtain d where ph: "attention_phase zero_machine zero_execution (st_attention zero_streaming) [0] zero_cache [0] zero_scratch =
      (Inr [0], d, [0])"
    using zero_phase by blast
  have parts: "st_ffn_norm zero_streaming = [0]" "st_expert_used_count zero_streaming = 1" "st_weight_scale zero_streaming = f32_one"
    "zero_scratch\<lparr>sc_routed_len := 0\<rparr> = zero_scratch" "\<not> sc_pending zero_scratch" "bx_layer zero_execution = 0"
    "bx_position zero_execution = 0"
    by (simp_all add: zero_streaming_def zero_scratch_def zero_execution_def)
  show ?thesis
    by (rule exI [of _ d]) (simp add: hy3_moe_route_token_def parts zero_valid ph zero_route [simplified] Let_def zero_routed_def)
qed

lemma zero_finishes:
  "hy3_moe_finish_token zero_machine DequantF32 [\<lparr>se_expert_id = 0, se_coefficient = f32_one, se_expert = zero_expert\<rparr>]
     zero_expert [0] zero_routed = (Inr (), [0], zero_routed\<lparr>sc_pending := False\<rparr>)"
proof -
  have parts: "sc_pending zero_routed" "sc_ffn_normalized zero_routed = [0]" "sc_ffn_delta zero_routed = 1"
    "sc_preflight_output zero_routed = 1" "mc_libm zero_machine = even_libm"
    "block_env zero_machine zero_routed = block_env zero_machine zero_scratch"
    by (simp_all add: zero_scratch_def zero_machine_def block_env_def zero_routed_def)
  show ?thesis
    by (simp add: hy3_moe_finish_token_def zero_routed_experts parts zero_finish [simplified] zero_residual)
qed

lemma streaming_matches_resident_witness:
  "\<exists>d sc. hy3_block_forward_token zero_machine zero_execution (resident zero_streaming [zero_expert]) zero_cache [0] zero_scratch =
    (Inr (), d, [0], sc)"
proof -
  obtain d where 1: "hy3_moe_route_token zero_machine zero_execution zero_streaming zero_cache [0] zero_scratch =
      (Inr (), d, [0], zero_routed)"
    using zero_routes by blast
  have 2: "hy3_moe_finish_token zero_machine (bx_mode zero_execution) (load_selected [zero_expert] (scratch_routed zero_routed))
      (st_shared_expert zero_streaming) [0] zero_routed = (Inr (), [0], zero_routed\<lparr>sc_pending := False\<rparr>)"
    using zero_finishes by (simp add: zero_routed_experts load_selected_def zero_execution_def zero_streaming_def)
  have 3: "length [zero_expert] = st_expert_count zero_streaming"
    "validate_routed_experts (pm_input_width (aw_query (st_attention zero_streaming))) (st_shared_expert zero_streaming) [zero_expert] = Inr ()"
    by (simp_all add: zero_streaming_def validate_expert_dimensions_def require_equal_def ex_input_width_def ex_output_width_def
        zero_expert_def zero_matrix_def)
  from streaming_matches_resident [OF 1 2 3] show ?thesis by blast
qed

lemma block_cache_effect_witness:
  "case hy3_moe_route_token zero_machine zero_execution zero_streaming zero_cache [0] zero_scratch of (r, d, h', sc') \<Rightarrow>
      grows_at_most 0 zero_cache d"
  using block_cache_effect [OF zero_cache_inv, where mc = zero_machine and x = zero_execution and sb = zero_streaming and
      h = "[0]" and sc = zero_scratch]
  by (auto simp: zero_execution_def)

end
