(* ===== verification/Hy3_Weights.thy ===== *)
theory Hy3_Weights
  imports Source_Binding Hy3_Streaming
begin

text \<open>
  The loaded model of \<^verbatim>\<open>bridge-runtime/src/hy3_scalar.rs\<close>: options, the memory budget, the resident
  weights and their views as kernel matrices, the loader that reads them from the shards, the integrity
  hashes, and the construction of the model. The CPU backend (\<^verbatim>\<open>bridge-kernels-cpu\<close>) is its configuration
  and what the processor supports. The time at which a tensor is read is an argument.
\<close>

section \<open>The CPU backend\<close>

record cpu_backend =
  cb_threads :: nat
  cb_avx2 :: bool

definition cpu_backend_new :: "(nat \<Rightarrow> 'j + unit) \<Rightarrow> bool \<Rightarrow> nat \<Rightarrow> 'j cpu_error + cpu_backend" where
  "cpu_backend_new build_pool avx2 threads =
     (if threads = 0 then Inl CpuZeroThreads
      else rbind (map_err CpuBuild (build_pool threads)) (\<lambda>_. Inr \<lparr>cb_threads = threads, cb_avx2 = avx2\<rparr>))"

definition cpu_backend_name :: "cpu_backend \<Rightarrow> string" where
  "cpu_backend_name b = (if cb_avx2 b then ''cpu_parallel_avx2_q8_k'' else ''cpu_parallel_scalar_q8_k'')"

definition recommended_thread_count :: "nat option \<Rightarrow> nat" where
  "recommended_thread_count parallelism = max (case parallelism of None \<Rightarrow> 1 | Some n \<Rightarrow> (n + 1) div 2) 1"

section \<open>Options and the memory budget\<close>

datatype source_options = DirectOption | SidecarOption string string bool bool

record scalar_options =
  op_context_capacity :: nat
  op_kv_page_tokens :: nat
  op_expert_cache_bytes :: nat
  op_admit_after :: nat
  op_execution_mode :: execution_mode
  op_cpu_threads :: nat
  op_headroom_bytes :: nat
  op_expert_source :: source_options

definition options_default :: "nat option \<Rightarrow> scalar_options" where
  "options_default parallelism = \<lparr>op_context_capacity = 2048, op_kv_page_tokens = 64,
     op_expert_cache_bytes = 2 * 1024 * 1024 * 1024, op_admit_after = 2, op_execution_mode = CpuParallelQ8K,
     op_cpu_threads = recommended_thread_count parallelism, op_headroom_bytes = 512 * 1024 * 1024,
     op_expert_source = DirectOption\<rparr>"

record memory_budget =
  mb_resident :: nat
  mb_expert_cache :: nat
  mb_first_kv_page :: nat
  mb_headroom :: nat
  mb_required :: nat

definition payload_length :: "hy3_tensor \<Rightarrow> nat" where
  "payload_length t = snd (tl_absolute_range (ht_location t)) - fst (tl_absolute_range (ht_location t))"

fun checked_sum :: "nat \<Rightarrow> nat list \<Rightarrow> nat option" where
  "checked_sum acc [] = Some acc"
| "checked_sum acc (x # xs) = Option.bind (checked_add acc x) (\<lambda>t. checked_sum t xs)"

definition budget_for_validated :: "validated_model \<Rightarrow> scalar_options \<Rightarrow> ('e, 'j) scalar_error + memory_budget" where
  "budget_for_validated m opts =
     (let overflow = ScRun ScArithmeticOverflow; c = vm_config m in
     rbind (ok_or overflow (checked_sum 0 (map payload_length (filter (\<lambda>t. \<not> is_routed_expert (ht_role t)) (vm_tensors m))))) (\<lambda>res.
     let page_tokens = min (op_kv_page_tokens opts) (op_context_capacity opts) in
     rbind (ok_or overflow
       (Option.bind (checked_mul (hc_block_count c) (hc_attention_kv_head_count c)) (\<lambda>v.
        Option.bind (checked_mul v (hc_key_length c + hc_value_length c)) (\<lambda>v.
        Option.bind (checked_mul v 4) (\<lambda>v. checked_mul v page_tokens))))) (\<lambda>page.
     rbind (ok_or overflow
       (Option.bind (checked_add res (op_expert_cache_bytes opts)) (\<lambda>v.
        Option.bind (checked_add v page) (\<lambda>v. checked_add v (op_headroom_bytes opts))))) (\<lambda>required.
     Inr \<lparr>mb_resident = res, mb_expert_cache = op_expert_cache_bytes opts, mb_first_kv_page = page,
          mb_headroom = op_headroom_bytes opts, mb_required = required\<rparr>))))"

definition ensure_available :: "memory_budget \<Rightarrow> nat \<Rightarrow> ('e, 'j) scalar_error + unit" where
  "ensure_available b available =
     (if available = 0 \<or> mb_required b \<le> available then Inr ()
      else Inl (ScLoad (InsufficientPhysicalMemory (mb_required b) available (mb_resident b) (mb_expert_cache b)
        (mb_first_kv_page b) (mb_headroom b))))"

fun largest_expert :: "validated_model \<Rightarrow> nat list \<Rightarrow> nat \<Rightarrow> ('e, 'j) scalar_error + nat" where
  "largest_expert m [] maximum = Inr maximum"
| "largest_expert m (layer # layers) maximum =
     rbind (payload_layout_from_model m layer) (\<lambda>l.
     rbind (ok_or (ScRun ScArithmeticOverflow) (total_bytes l)) (\<lambda>n. largest_expert m layers (max maximum n)))"

definition scalar_cache_config :: "scalar_options \<Rightarrow> cache_config" where
  "scalar_cache_config opts = \<lparr>capacity_bytes = op_expert_cache_bytes opts, admit_after_requests = op_admit_after opts\<rparr>"

definition scalar_validate_options :: "validated_model \<Rightarrow> scalar_options \<Rightarrow> ('e, 'j) scalar_error + unit" where
  "scalar_validate_options m opts =
     (let c = vm_config m in
      if op_context_capacity opts = 0 \<or> hc_context_length c < op_context_capacity opts
        then Inl (ScLoad (InvalidContextCapacity (hc_context_length c) (op_context_capacity opts)))
      else if op_kv_page_tokens opts = 0 then Inl (ScLoad ZeroKvPageTokens)
      else rbind (map_err ScCache (config_validate (scalar_cache_config opts))) (\<lambda>_.
        if 1 < hc_block_count c
        then rbind (largest_expert m [1..<hc_block_count c] 0) (\<lambda>maximum_expert.
          if op_expert_cache_bytes opts < maximum_expert
          then Inl (ScLoad (ExpertCacheTooSmall maximum_expert (op_expert_cache_bytes opts))) else Inr ())
        else Inr ()))"

section \<open>Resident weights\<close>

record owned_matrix =
  om_ty :: ggml_type
  om_input_width :: nat
  om_output_width :: nat
  om_bytes :: "byte list"

definition owned_view :: "owned_matrix \<Rightarrow> ('e, 'j) scalar_error + packed_matrix" where
  "owned_view m = map_err ScKernel (from_parts (om_ty m) PayloadLittle (om_input_width m) (om_output_width m) (om_bytes m))"

record owned_attention =
  oa_input_norm :: "f32 list"
  oa_query :: owned_matrix
  oa_query_norm :: "f32 list"
  oa_key :: owned_matrix
  oa_key_norm :: "f32 list"
  oa_value :: owned_matrix
  oa_output :: owned_matrix

definition attention_view :: "owned_attention \<Rightarrow> hy3_config \<Rightarrow> ('e, 'j) scalar_error + attention_weights" where
  "attention_view a c =
     rbind (owned_view (oa_query a)) (\<lambda>q.
     rbind (owned_view (oa_key a)) (\<lambda>k.
     rbind (owned_view (oa_value a)) (\<lambda>v.
     rbind (owned_view (oa_output a)) (\<lambda>out.
     Inr \<lparr>aw_input_norm = oa_input_norm a, aw_query = q, aw_query_norm = oa_query_norm a, aw_key = k,
          aw_key_norm = oa_key_norm a, aw_value = v, aw_output = out,
          aw_query_head_count = hc_attention_head_count c, aw_kv_head_count = hc_attention_kv_head_count c,
          aw_key_dimension = hc_key_length c, aw_value_dimension = hc_value_length c\<rparr>))))"

definition attention_resident_bytes :: "owned_attention \<Rightarrow> nat option" where
  "attention_resident_bytes a =
     Option.bind (checked_add (length (oa_input_norm a)) (length (oa_query_norm a))) (\<lambda>v.
     Option.bind (checked_add v (length (oa_key_norm a))) (\<lambda>v.
     Option.bind (checked_mul v 4) (\<lambda>v.
     Option.bind (checked_add v (length (om_bytes (oa_query a)))) (\<lambda>v.
     Option.bind (checked_add v (length (om_bytes (oa_key a)))) (\<lambda>v.
     Option.bind (checked_add v (length (om_bytes (oa_value a)))) (\<lambda>v.
     checked_add v (length (om_bytes (oa_output a)))))))))"

record owned_expert =
  ow_gate :: owned_matrix
  ow_up :: owned_matrix
  ow_down :: owned_matrix

definition expert_view :: "owned_expert \<Rightarrow> ('e, 'j) scalar_error + swiglu_expert" where
  "expert_view e =
     rbind (owned_view (ow_gate e)) (\<lambda>g.
     rbind (owned_view (ow_up e)) (\<lambda>u.
     rbind (owned_view (ow_down e)) (\<lambda>d. map_err ScKernel (swiglu_expert_new g u d))))"

definition expert_resident_bytes :: "owned_expert \<Rightarrow> nat option" where
  "expert_resident_bytes e =
     Option.bind (checked_add (length (om_bytes (ow_gate e))) (length (om_bytes (ow_up e)))) (\<lambda>v.
     checked_add v (length (om_bytes (ow_down e))))"

record owned_moe =
  on_router :: owned_matrix
  on_selection_bias :: "f32 list"
  on_shared :: owned_expert
  on_layout :: payload_layout

definition streaming_view ::
  "owned_moe \<Rightarrow> owned_attention \<Rightarrow> f32 list \<Rightarrow> hy3_config \<Rightarrow> ('e, 'j) scalar_error + streaming_weights" where
  "streaming_view moe a ffn_norm c =
     rbind (attention_view a c) (\<lambda>aw.
     rbind (owned_view (on_router moe)) (\<lambda>router.
     rbind (expert_view (on_shared moe)) (\<lambda>shared_expert.
     Inr \<lparr>st_attention = aw, st_ffn_norm = ffn_norm, st_router = router, st_selection_bias = on_selection_bias moe,
          st_shared_expert = shared_expert, st_expert_count = hc_expert_count c,
          st_expert_used_count = hc_expert_used_count c, st_weight_scale = hc_expert_weights_scale c\<rparr>)))"

definition moe_resident_bytes :: "owned_moe \<Rightarrow> nat option" where
  "moe_resident_bytes moe =
     Option.bind (checked_mul (length (on_selection_bias moe)) 4) (\<lambda>b.
     Option.bind (checked_add (length (om_bytes (on_router moe))) b) (\<lambda>v.
     Option.bind (expert_resident_bytes (on_shared moe)) (\<lambda>s. checked_add v s)))"

datatype ff_weights = DenseWeights owned_expert | MoeWeights owned_moe

record layer_weights =
  lw_attention :: owned_attention
  lw_ffn_norm :: "f32 list"
  lw_feed_forward :: ff_weights

definition layer_resident_bytes :: "layer_weights \<Rightarrow> nat option" where
  "layer_resident_bytes l =
     Option.bind (attention_resident_bytes (lw_attention l)) (\<lambda>a.
     Option.bind (checked_mul (length (lw_ffn_norm l)) 4) (\<lambda>n.
     Option.bind (checked_add a n) (\<lambda>base.
     Option.bind (case lw_feed_forward l of
         DenseWeights e \<Rightarrow> expert_resident_bytes e | MoeWeights moe \<Rightarrow> moe_resident_bytes moe) (\<lambda>f. checked_add base f))))"

section \<open>Loading tensors\<close>

text \<open>
  What the loader uses from outside: granted allocations, opening a shard, and the time at which the
  tensor of a role is read.
\<close>

record 'e loader_env =
  le_grant :: "string \<Rightarrow> nat \<Rightarrow> bool"
  le_read_grant :: "nat \<Rightarrow> bool"
  le_open :: "'e shard_opener"
  le_time :: "tensor_role \<Rightarrow> nat"

definition tensor_loader_open ::
  "'e loader_env \<Rightarrow> gguf_set \<Rightarrow> validated_model \<Rightarrow> ('e, 'j) scalar_error + 'e positioned_file list" where
  "tensor_loader_open env st m =
     (let lengths = map payload_length (filter (\<lambda>t. \<not> is_routed_expert (ht_role t)) (vm_tensors m));
          maximum = (if lengths = [] then 1 else foldl max 0 lengths);
          n = length (gs_files st)
      in rbind (check (le_grant env ''static tensor readers'' n) (ScRun (ScAllocationFailed ''static tensor readers'' n))) (\<lambda>_.
         map_res (\<lambda>shard. map_err ScRead (le_open env (sh_path shard) \<lparr>max_request_bytes = max maximum 1\<rparr>)) (gs_files st)))"

definition loader_read ::
  "'e loader_env \<Rightarrow> 'e positioned_file list \<Rightarrow> hy3_tensor \<Rightarrow> ('e, 'j) scalar_error + byte list" where
  "loader_read env readers t =
     (let i = tl_shard_index (ht_location t) in
      if i < length readers
      then map_err ScRead (fst (read_exact_at (le_read_grant env) (\<lambda>_. False) (readers ! i)
        (fst (tl_absolute_range (ht_location t))) (snd (tl_absolute_range (ht_location t))) (le_time env (ht_role t))))
      else Inl (ScLoad (ShardIndexOutOfRange i)))"

definition load_matrix ::
  "'e loader_env \<Rightarrow> 'e positioned_file list \<Rightarrow> validated_model \<Rightarrow> tensor_role \<Rightarrow> ('e, 'j) scalar_error + owned_matrix" where
  "load_matrix env readers m role =
     rbind (sc_required_tensor m role) (\<lambda>t.
     let shape = shape_of (tl_descriptor (ht_location t)) in
     if length shape \<noteq> 2 then Inl (ScLoad (ScTensorRank role 2 (length shape)))
     else rbind (loader_read env readers t) (\<lambda>bytes.
       let matrix = \<lparr>om_ty = td_ty (tl_descriptor (ht_location t)), om_input_width = shape ! 0,
                     om_output_width = shape ! 1, om_bytes = bytes\<rparr>
       in rbind (owned_view matrix) (\<lambda>_. Inr matrix)))"

fun finite_values :: "tensor_role \<Rightarrow> nat \<Rightarrow> f32 list \<Rightarrow> ('e, 'j) scalar_error + unit" where
  "finite_values role index [] = Inr ()"
| "finite_values role index (v # vs) =
     (if f32_is_finite v then finite_values role (Suc index) vs else Inl (ScLoad (NonFiniteF32 role index v)))"

definition f32_chunks :: "byte list \<Rightarrow> nat \<Rightarrow> f32 list" where
  "f32_chunks bytes n = map (\<lambda>i. f32_of_le (take 4 (drop (i * 4) bytes))) [0..<n]"

definition load_f32_vector ::
  "'e loader_env \<Rightarrow> 'e positioned_file list \<Rightarrow> validated_model \<Rightarrow> tensor_role \<Rightarrow> ('e, 'j) scalar_error + f32 list" where
  "load_f32_vector env readers m role =
     rbind (sc_required_tensor m role) (\<lambda>t.
     let d = tl_descriptor (ht_location t) in
     if length (shape_of d) \<noteq> 1 then Inl (ScLoad (ScTensorRank role 1 (length (shape_of d))))
     else if td_ty d \<noteq> F32 then Inl (ScLoad (ScTensorType role F32 (td_ty d)))
     else rbind (loader_read env readers t) (\<lambda>bytes.
       let expected = shape_of d ! 0 in
       rbind (ok_or (ScRun ScArithmeticOverflow) (checked_mul expected 4)) (\<lambda>expected_bytes.
       if length bytes \<noteq> expected_bytes then Inl (ScLoad (F32PayloadLength role expected_bytes (length bytes)))
       else rbind (check (le_grant env ''F32 tensor'' expected) (ScRun (ScAllocationFailed ''F32 tensor'' expected))) (\<lambda>_.
         let vs = f32_chunks bytes expected in rbind (finite_values role 0 vs) (\<lambda>_. Inr vs)))))"

definition load_attention ::
  "'e loader_env \<Rightarrow> 'e positioned_file list \<Rightarrow> validated_model \<Rightarrow> nat \<Rightarrow> ('e, 'j) scalar_error + owned_attention" where
  "load_attention env readers m l =
     rbind (load_f32_vector env readers m (AttentionNorm l)) (\<lambda>input_norm.
     rbind (load_matrix env readers m (AttentionQ l)) (\<lambda>q.
     rbind (load_f32_vector env readers m (AttentionQNorm l)) (\<lambda>q_norm.
     rbind (load_matrix env readers m (AttentionK l)) (\<lambda>k.
     rbind (load_f32_vector env readers m (AttentionKNorm l)) (\<lambda>k_norm.
     rbind (load_matrix env readers m (AttentionV l)) (\<lambda>v.
     rbind (load_matrix env readers m (AttentionOutput l)) (\<lambda>out.
     Inr \<lparr>oa_input_norm = input_norm, oa_query = q, oa_query_norm = q_norm, oa_key = k, oa_key_norm = k_norm,
          oa_value = v, oa_output = out\<rparr>)))))))"

definition load_expert ::
  "'e loader_env \<Rightarrow> 'e positioned_file list \<Rightarrow> validated_model \<Rightarrow> tensor_role \<Rightarrow> tensor_role \<Rightarrow> tensor_role \<Rightarrow>
    ('e, 'j) scalar_error + owned_expert" where
  "load_expert env readers m gate up down =
     rbind (load_matrix env readers m gate) (\<lambda>g.
     rbind (load_matrix env readers m up) (\<lambda>u.
     rbind (load_matrix env readers m down) (\<lambda>d. Inr \<lparr>ow_gate = g, ow_up = u, ow_down = d\<rparr>)))"

definition load_layer ::
  "'e loader_env \<Rightarrow> 'e positioned_file list \<Rightarrow> validated_model \<Rightarrow> nat \<Rightarrow> ('e, 'j) scalar_error + layer_weights" where
  "load_layer env readers m l =
     rbind (load_attention env readers m l) (\<lambda>attention.
     rbind (load_f32_vector env readers m (FfnNorm l)) (\<lambda>ffn_norm.
     rbind (if l = 0
       then rbind (load_expert env readers m (DenseGate l) (DenseUp l) (DenseDown l)) (\<lambda>e. Inr (DenseWeights e))
       else rbind (load_matrix env readers m (RouterInput l)) (\<lambda>router.
         rbind (load_f32_vector env readers m (RouterSelectionBias l)) (\<lambda>selection_bias.
         rbind (load_expert env readers m (SharedGate l) (SharedUp l) (SharedDown l)) (\<lambda>shared_expert.
         rbind (payload_layout_from_model m l) (\<lambda>layout.
         Inr (MoeWeights \<lparr>on_router = router, on_selection_bias = selection_bias, on_shared = shared_expert,
           on_layout = layout\<rparr>)))))) (\<lambda>ff.
     Inr \<lparr>lw_attention = attention, lw_ffn_norm = ffn_norm, lw_feed_forward = ff\<rparr>)))"

section \<open>The model\<close>

record 'e hy3_model =
  hm_config :: hy3_config
  hm_context_capacity :: nat
  hm_execution_mode :: execution_mode
  hm_cpu_backend :: "cpu_backend option"
  hm_kv_page_tokens :: nat
  hm_source_paths :: "path list"
  hm_source_sha256 :: "string list"
  hm_fingerprint :: "byte list"
  hm_resident_bytes :: nat
  hm_embeddings :: owned_matrix
  hm_layers :: "layer_weights list"
  hm_output_norm :: "f32 list"
  hm_output :: owned_matrix
  hm_rope :: rope_params
  hm_expert_source :: "'e expert_source option"
  hm_cache_config :: cache_config
  hm_expert_cache :: "expert_key cache_state"

text \<open>Everything else that opening a model uses from outside.\<close>

record ('e, 'j) open_env =
  oe_loader :: "'e loader_env"
  oe_sidecar :: "('e, 'j) sidecar_env"
  oe_sidecar_time :: nat
  oe_integrity_time :: nat
  oe_pick :: "descriptor_index \<Rightarrow> string"
  oe_sha :: "byte list \<Rightarrow> byte list"
  oe_canonicalize :: "path \<Rightarrow> 'e + path"
  oe_display :: "path \<Rightarrow> string"
  oe_build_pool :: "nat \<Rightarrow> 'j + unit"
  oe_avx2 :: bool
  oe_available_physical :: nat

definition expert_source_open ::
  "('e, 'j) open_env \<Rightarrow> gguf_set \<Rightarrow> validated_model \<Rightarrow> source_options \<Rightarrow>
    (('e, 'j) scalar_error + 'e expert_source) option" where
  "expert_source_open env st m opts =
     (let ld = oe_loader env; t = oe_sidecar_time env in
      case opts of
        DirectOption \<Rightarrow> Some (map_err ScPrepare (map_sum id DirectSource (direct_store_open (le_read_grant ld) (le_open ld) st m)))
      | SidecarOption data_path manifest_path verify_data verify_bindings \<Rightarrow>
          (let directory = tensor_directory_sha256 (oe_sha env) st in
           case rbind (map_err ScSidecar (sidecar_open (oe_sidecar env) (le_read_grant ld) data_path manifest_path t)) (\<lambda>sidecar.
                rbind (check (sm_tensor_directory_sha256 (sc_manifest sidecar) = directory)
                  (ScLoad (SidecarDirectoryHash (sm_tensor_directory_sha256 (sc_manifest sidecar)) directory))) (\<lambda>_. Inr sidecar)) of
             Inl e \<Rightarrow> Some (Inl e)
           | Inr sidecar \<Rightarrow>
               Option.bind (if verify_bindings
                 then map_option (map_err ScPrepare \<circ> fst) (verify_source_bindings (oe_sha env) (le_read_grant ld)
                   (oe_canonicalize env) (oe_display env) (le_open ld) (\<lambda>_. False) st (sc_manifest sidecar) (8 * 1024 * 1024) t)
                 else Some (Inr ())) (\<lambda>bindings.
               case bindings of
                 Inl e \<Rightarrow> Some (Inl e)
               | Inr _ \<Rightarrow>
                   (if verify_data
                    then map_option (\<lambda>r. rbind (map_err ScSidecar r) (\<lambda>_. Inr (SidecarSource sidecar)))
                      (verify_data_hash (oe_sha env) (le_read_grant ld) (\<lambda>_. False) sidecar t)
                    else Some (Inr (SidecarSource sidecar))))))"

definition model_resident_bytes :: "owned_matrix \<Rightarrow> owned_matrix \<Rightarrow> f32 list \<Rightarrow> layer_weights list \<Rightarrow> nat option" where
  "model_resident_bytes embeddings out output_norm layers =
     Option.bind (checked_add (length (om_bytes embeddings)) (length (om_bytes out))) (\<lambda>v.
     Option.bind (checked_mul (length output_norm) 4) (\<lambda>n.
     Option.bind (checked_add v n) (\<lambda>v.
     foldl (\<lambda>acc l. Option.bind acc (\<lambda>sum. Option.bind (layer_resident_bytes l) (checked_add sum))) (Some v) layers)))"

text \<open>The checks before any tensor is read, with the backend they set up.\<close>

definition load_preflight ::
  "('e, 'j) open_env \<Rightarrow> gguf_set \<Rightarrow> validated_model \<Rightarrow> scalar_options \<Rightarrow> bool \<Rightarrow>
    ('e, 'j) scalar_error + cpu_backend option" where
  "load_preflight env st m opts enforce =
     rbind (scalar_validate_options m opts) (\<lambda>_.
     rbind (if enforce then rbind (budget_for_validated m opts) (\<lambda>b. ensure_available b (oe_available_physical env)) else Inr ()) (\<lambda>_.
     rbind (case find (\<lambda>shard. endian (sh_parsed shard) \<noteq> Little) (gs_files st) of
         Some shard \<Rightarrow> Inl (ScLoad (BigEndianPayload (sh_path shard))) | None \<Rightarrow> Inr ()) (\<lambda>_.
     case op_execution_mode opts of
       CpuParallelQ8K \<Rightarrow> rbind (map_err ScCpu (cpu_backend_new (oe_build_pool env) (oe_avx2 env) (op_cpu_threads opts))) (\<lambda>b. Inr (Some b))
     | _ \<Rightarrow> Inr None)))"

text \<open>The resident part: embeddings, output norm and matrix, and every layer.\<close>

definition load_resident ::
  "'e loader_env \<Rightarrow> gguf_set \<Rightarrow> validated_model \<Rightarrow>
    ('e, 'j) scalar_error + owned_matrix \<times> f32 list \<times> owned_matrix \<times> layer_weights list" where
  "load_resident env st m =
     rbind (tensor_loader_open env st m) (\<lambda>readers.
     rbind (load_matrix env readers m TokenEmbedding) (\<lambda>embeddings.
     rbind (load_f32_vector env readers m OutputNorm) (\<lambda>output_norm.
     rbind (load_matrix env readers m OutputMatrix) (\<lambda>out.
     let n = hc_block_count (vm_config m) in
     rbind (check (le_grant env ''Hy3 layer table'' n) (ScRun (ScAllocationFailed ''Hy3 layer table'' n))) (\<lambda>_.
     rbind (map_res (load_layer env readers m) [0..<n]) (\<lambda>layers.
     Inr (embeddings, output_norm, out, layers)))))))"

definition load_validated ::
  "('e, 'j) open_env \<Rightarrow> gguf_set \<Rightarrow> validated_model \<Rightarrow> string list \<Rightarrow> scalar_options \<Rightarrow> bool \<Rightarrow>
    (('e, 'j) scalar_error + 'e hy3_model) option" where
  "load_validated env st m source_sha256 opts enforce =
     (let c = vm_config m in
      case rbind (load_preflight env st m opts enforce) (\<lambda>backend.
           rbind (load_resident (oe_loader env) st m) (\<lambda>(embeddings, output_norm, out, layers).
           rbind (ok_or (ScRun ScArithmeticOverflow) (model_resident_bytes embeddings out output_norm layers)) (\<lambda>res.
           Inr (backend, embeddings, output_norm, out, layers, res)))) of
        Inl e \<Rightarrow> Some (Inl e)
      | Inr (backend, embeddings, output_norm, out, layers, res) \<Rightarrow>
          map_option (\<lambda>r. rbind r (\<lambda>source.
            rbind (map_err ScKernel (rope_from_config c)) (\<lambda>rope.
            rbind (map_err ScCache (cache_new (scalar_cache_config opts))) (\<lambda>cache.
            Inr \<lparr>hm_config = c, hm_context_capacity = op_context_capacity opts, hm_execution_mode = op_execution_mode opts,
                 hm_cpu_backend = backend, hm_kv_page_tokens = op_kv_page_tokens opts,
                 hm_source_paths = map sh_path (gs_files st), hm_source_sha256 = source_sha256,
                 hm_fingerprint = model_fingerprint (oe_sha env) st source_sha256, hm_resident_bytes = res,
                 hm_embeddings = embeddings, hm_layers = layers, hm_output_norm = output_norm, hm_output = out,
                 hm_rope = rope, hm_expert_source = source, hm_cache_config = scalar_cache_config opts,
                 hm_expert_cache = cache\<rparr>))))
            (if 1 < hc_block_count c
             then map_option (map_sum id Some) (expert_source_open env st m (op_expert_source opts))
             else Some (Inr None)))"

definition backend_name :: "'e hy3_model \<Rightarrow> string" where
  "backend_name hm =
     (case hm_execution_mode hm of
        DequantF32 \<Rightarrow> ''scalar_reference_dequant_f32''
      | LlamaQ8K \<Rightarrow> ''scalar_reference_q8_k''
      | CpuParallelQ8K \<Rightarrow> (case hm_cpu_backend hm of None \<Rightarrow> ''cpu_parallel_scalar_q8_k'' | Some b \<Rightarrow> cpu_backend_name b))"


section \<open>Payload integrity\<close>

definition SELECTED_HY3_IQ2_M_BYTES :: nat where "SELECTED_HY3_IQ2_M_BYTES = 96019311104"

definition SELECTED_HY3_IQ2_M_SHA256 :: string where
  "SELECTED_HY3_IQ2_M_SHA256 = ''1c02c57e4dc8b55a254a5329c6c248fa7bf741644b6936898793f272d3292ea7''"

definition HASH_CHUNK_BYTES :: nat where "HASH_CHUNK_BYTES = 8 * 1024 * 1024"

text \<open>The bytes passed to the hash of one file, chunk by chunk. The cancellation is never requested.\<close>

function integrity_loop ::
  "'e positioned_file \<Rightarrow> nat \<Rightarrow> byte list \<Rightarrow> nat \<Rightarrow> (('e, 'j) scalar_error + byte list) \<times> nat" where
  "integrity_loop f offset hashed t =
     (if \<not> offset < pf_length f then (Inr hashed, t)
      else let len = min (pf_length f - offset) HASH_CHUNK_BYTES in
        case read_exact_at_into f (\<lambda>_. False) offset (replicate len 0) t of
          (Inl e, _, t') \<Rightarrow> (Inl (ScRead e), t')
        | (Inr _, buf, t') \<Rightarrow>
            (case checked_add offset len of
               None \<Rightarrow> (Inl (ScRun ScArithmeticOverflow), t')
             | Some stop \<Rightarrow> integrity_loop f stop (hashed @ buf) t'))"
  by pat_completeness auto
termination
  by (relation "measure (\<lambda>(f, offset, hashed, t). pf_length f - offset)")
     (auto simp: checked_add_def HASH_CHUNK_BYTES_def split: if_splits)

declare integrity_loop.simps [simp del]

fun integrity_files ::
  "(byte list \<Rightarrow> byte list) \<Rightarrow> 'e shard_opener \<Rightarrow> (gguf_shard \<times> string) list \<Rightarrow> nat \<Rightarrow>
    ('e, 'j) scalar_error + string list" where
  "integrity_files sha opener [] t = Inr []"
| "integrity_files sha opener ((shard, expected) # rest) t =
     rbind (map_err ScRead (opener (sh_path shard) \<lparr>max_request_bytes = HASH_CHUNK_BYTES\<rparr>)) (\<lambda>f.
     let (r, t') = integrity_loop f 0 [] t in
     rbind r (\<lambda>hashed.
     let actual = lower_hex_of (sha hashed) in
     rbind (check (actual = expected) (ScLoad (IntegrityHash (sh_path shard) expected actual))) (\<lambda>_.
     rbind (integrity_files sha opener rest t') (\<lambda>hashes. Inr (actual # hashes)))))"

definition verify_file_hashes ::
  "('e, 'j) open_env \<Rightarrow> gguf_set \<Rightarrow> string list \<Rightarrow> ('e, 'j) scalar_error + string list" where
  "verify_file_hashes env st expected =
     (let ld = oe_loader env in
      if length (gs_files st) \<noteq> length expected
      then Inl (ScLoad (IntegrityFileCount (length expected) (length (gs_files st))))
      else rbind (check (le_grant ld ''source hashes'' (length expected))
          (ScRun (ScAllocationFailed ''source hashes'' (length expected)))) (\<lambda>_.
        rbind (check (le_grant ld ''integrity hash buffer'' HASH_CHUNK_BYTES)
          (ScRun (ScAllocationFailed ''integrity hash buffer'' HASH_CHUNK_BYTES))) (\<lambda>_.
        integrity_files (oe_sha env) (le_open ld) (zip (gs_files st) expected) (oe_integrity_time env))))"

text \<open>What the operating system reports of a file's storage.\<close>

record file_storage =
  fst_logical_bytes :: nat
  fst_allocated_bytes :: nat
  fst_is_sparse :: bool
  fst_is_compressed :: bool

record payload_file =
  spf_path :: path
  spf_logical_bytes :: nat
  spf_allocated_bytes :: nat
  spf_sparse :: bool
  spf_compressed :: bool
  spf_sha256 :: string

record payload_report =
  spr_schema_valid :: bool
  spr_files :: "payload_file list"

text \<open>One shard, of the selected length, stored completely: the checks before the hash.\<close>

definition selected_count :: "gguf_set \<Rightarrow> ('e, 'j) scalar_error + unit" where
  "selected_count st =
     check (length (gs_files st) = 1) (ScLoad (SelectedModelShardCount (length (gs_files st))))"

definition selected_storage ::
  "(path \<Rightarrow> 'e + file_storage) \<Rightarrow> gguf_set \<Rightarrow> ('e, 'j) scalar_error + file_storage" where
  "selected_storage storage_of st =
     (let shard = gs_files st ! 0; len = file_len (sh_parsed shard); p = sh_path shard in
      rbind (check (len = SELECTED_HY3_IQ2_M_BYTES) (ScLoad (SelectedModelLength SELECTED_HY3_IQ2_M_BYTES len))) (\<lambda>_.
      rbind (map_err (StorageInspection p) (storage_of p)) (\<lambda>storage.
      rbind (check (\<not> (fst_is_sparse storage \<and> fst_allocated_bytes storage < fst_logical_bytes storage))
        (ScLoad (SparseModelPayload p (fst_logical_bytes storage) (fst_allocated_bytes storage)))) (\<lambda>_.
      Inr storage))))"

definition validate_selected_payload ::
  "('e, 'j) open_env \<Rightarrow> 'e shard_fs \<Rightarrow> (path \<Rightarrow> 'e + file_storage) \<Rightarrow> path \<Rightarrow>
    ('e, 'j) scalar_error + payload_report" where
  "validate_selected_payload env fs storage_of entry =
     rbind (map_err ScSplit (open_set fs entry)) (\<lambda>st.
     rbind (selected_count st) (\<lambda>_.
     rbind (map_err ScModel (validate_selected_model (le_grant (oe_loader env)) (oe_pick env) st)) (\<lambda>_.
     rbind (selected_storage storage_of st) (\<lambda>storage.
     rbind (verify_file_hashes env st [SELECTED_HY3_IQ2_M_SHA256]) (\<lambda>hashes.
     Inr \<lparr>spr_schema_valid = True, spr_files = [\<lparr>spf_path = sh_path (gs_files st ! 0),
       spf_logical_bytes = fst_logical_bytes storage, spf_allocated_bytes = fst_allocated_bytes storage,
       spf_sparse = fst_is_sparse storage, spf_compressed = fst_is_compressed storage,
       spf_sha256 = hashes ! 0\<rparr>]\<rparr>)))))"

definition open_selected ::
  "('e, 'j) open_env \<Rightarrow> 'e shard_fs \<Rightarrow> (path \<Rightarrow> 'e + file_storage) \<Rightarrow> path \<Rightarrow> scalar_options \<Rightarrow>
    (('e, 'j) scalar_error + 'e hy3_model) option" where
  "open_selected env fs storage_of entry opts =
     (case rbind (map_err ScSplit (open_set fs entry)) (\<lambda>st.
           rbind (selected_count st) (\<lambda>_.
           rbind (selected_storage storage_of st) (\<lambda>_.
           rbind (verify_file_hashes env st [SELECTED_HY3_IQ2_M_SHA256]) (\<lambda>hashes.
           rbind (map_err ScModel (validate_selected_model (le_grant (oe_loader env)) (oe_pick env) st)) (\<lambda>m. Inr (st, m, hashes)))))) of
        Inl e \<Rightarrow> Some (Inl e)
      | Inr (st, m, hashes) \<Rightarrow> load_validated env st m hashes opts True)"

definition open_profile_for_testing ::
  "('e, 'j) open_env \<Rightarrow> 'e shard_fs \<Rightarrow> path \<Rightarrow> hy3_profile \<Rightarrow> scalar_options \<Rightarrow>
    (('e, 'j) scalar_error + 'e hy3_model) option" where
  "open_profile_for_testing env fs entry profile opts =
     (case rbind (map_err ScSplit (open_set fs entry)) (\<lambda>st.
           rbind (map_err ScModel (validate_model_with_profile (le_grant (oe_loader env)) (oe_pick env) st profile)) (\<lambda>m. Inr (st, m))) of
        Inl e \<Rightarrow> Some (Inl e)
      | Inr (st, m) \<Rightarrow> load_validated env st m [] opts False)"

end
