(* ===== verification/Expert_Payload.thy ===== *)
theory Expert_Payload
  imports Expert_Source
begin

text \<open>
  What the cache does for a single caller, and what an expert's key stands for: the bytes of its three
  matrices in the model files or in the sidecar, read into one tight payload and cut out of it again. The lemmas
  here are shared by the proofs about sessions.
\<close>

section \<open>The cache under one caller\<close>

text \<open>Without another caller's reservation a load never waits.\<close>

lemma begin_load_no_wait:
  assumes "cache_inv cfg L {#} s" "begin_load cfg key n s = (Inr MustWait, s')"
  shows False
proof (cases "map_of (entries s) key")
  case None
  then show ?thesis using assms(2) by (auto simp: begin_load_miss split: prod.splits sum.splits option.splits)
next
  case (Some e)
  then show ?thesis
    using assms(2) books_slot [of L "{#}" s key] assms(1)
    by (cases e) (auto simp: begin_load_def next_tick_eq cache_inv_def pin_entry_def split: option.splits)
qed

lemma load_exclusive:
  assumes "cache_inv cfg L {#} s" "2 * capacity_bytes cfg < u64_limit"
  obtains r s' where "get_or_try_insert cfg key n loader s = Some (r, s')"
    "case r of Inl _ \<Rightarrow> cache_inv cfg L {#} s' | Inr b \<Rightarrow> cache_inv cfg (add_mset key L) {#} s'"
proof (cases "load_precheck cfg n")
  case (Inl e)
  then show thesis using that [of "Inl (LoadErrorCache e)" s] assms(1) by (simp add: get_or_try_insert_def)
next
  case (Inr u)
  obtain q s1 where b: "begin_load cfg key n s = (q, s1)" by fastforce
  have pre: "load_precheck cfg n = Inr ()" using Inr by simp
  note eff = begin_load_effect [OF assms pre b]
  have cap: "capacity_bytes cfg < u64_limit" using assms(2) by simp
  consider (err) e where "q = Inl e" | (hit) bs where "q = Inr (LeaseGranted bs)" | (load) "q = Inr MustLoad"
    using b begin_load_no_wait [OF assms(1)] by (metis load_turn.exhaust sum.exhaust)
  then show thesis
  proof cases
    case err
    then show thesis using that [of "Inl (LoadErrorCache e)" s1] pre b eff by (simp add: get_or_try_insert_def)
  next
    case hit
    then show thesis using that [of "Inr bs" s1] pre b eff by (simp add: get_or_try_insert_def)
  next
    case load
    obtain r s' where f: "finish_load key n (loader ()) s1 = (r, s')" by fastforce
    have "cache_inv cfg L (add_mset (key, n) {#}) s1" using eff load by simp
    then have "case r of Inl _ \<Rightarrow> cache_inv cfg L {#} s' | Inr b \<Rightarrow> cache_inv cfg (add_mset key L) {#} s'"
      using finish_load_effect(1) [OF _ _ cap f, of L "{#(key, n)#}"] unfolding diff_cancel by simp
    then show thesis using that [of r s'] pre b load f by (simp add: get_or_try_insert_def)
  qed
qed

text \<open>Every ready entry holds what its key stands for.\<close>

definition coherent :: "('k \<Rightarrow> byte list) \<Rightarrow> 'k cache_state \<Rightarrow> bool" where
  "coherent payload s \<longleftrightarrow> (\<forall>k b p t r. map_of (entries s) k = Some (Ready b p t r) \<longrightarrow> b = payload k)"

lemma coherent_entries:
  assumes "coherent payload s"
    and "\<And>k b p t r. map_of (entries s') k = Some (Ready b p t r) \<Longrightarrow>
      b = payload k \<or> (\<exists>p t r. map_of (entries s) k = Some (Ready b p t r))"
  shows "coherent payload s'"
  using assms unfolding coherent_def by blast

lemma coherent_begin:
  assumes "cache_inv cfg L R s" "2 * capacity_bytes cfg < u64_limit" "load_precheck cfg n = Inr ()"
    and "coherent payload s" "begin_load cfg key n s = (q, s')"
  shows "coherent payload s' \<and> (\<forall>b. q = Inr (LeaseGranted b) \<longrightarrow> b = payload key)"
proof (cases "map_of (entries s) key")
  case None
  obtain r1 s1 where rc: "reserve_capacity (missed key s) (capacity_bytes cfg) n = (r1, s1)" by fastforce
  have "used_bytes (missed key s) + reserved_bytes (missed key s) + n < u64_limit"
    using assms(1-3) by (auto simp: cache_inv_def load_precheck_def split: if_splits)
  moreover have "books_ok L R (missed key s)" using assms(1) by (simp add: cache_inv_def)
  ultimately have "evicted_from (missed key s) s1" using reserve_capacity_effect [OF _ _ rc] by blast
  then have "map_of (entries s1) k = Some v \<Longrightarrow> map_of (entries s) k = Some v" for k v
    unfolding evicted_from_def missed_fields by (metis option.distinct(1))
  then have "coherent payload s1" using assms(4) unfolding coherent_def by blast
  then show ?thesis using assms(5) rc
    by (auto simp: begin_load_miss [OF None] coherent_def split: sum.splits option.splits if_splits)
next
  case (Some e)
  then show ?thesis using assms(4,5)
    by (cases e) (auto simp: begin_load_def next_tick_eq coherent_def pin_entry_def split: option.splits if_splits)
qed

lemma coherent_complete:
  assumes "coherent payload s" "complete_load key n b s = (r, s')" "b = payload key"
  shows "coherent payload s' \<and> (\<forall>b'. r = Inr b' \<longrightarrow> b' = b)"
  using assms
  by (auto simp: complete_load_def next_tick_eq coherent_def split: option.splits entry.splits if_splits)

lemma coherent_reservation_drop: "coherent payload s \<Longrightarrow> coherent payload (reservation_drop key n s)"
  by (auto simp: reservation_drop_def coherent_def split: option.split entry.split)

lemma coherent_finish:
  assumes "coherent payload s" "\<And>b. loaded = Inr b \<Longrightarrow> b = payload key" "finish_load key n loaded s = (r, s')"
  shows "coherent payload s' \<and> (\<forall>b. r = Inr b \<longrightarrow> b = payload key)"
proof (cases loaded)
  case (Inl e)
  then show ?thesis using assms(1,3) by (auto simp: finish_load_def intro: coherent_reservation_drop)
next
  case (Inr b)
  obtain q s1 where c: "complete_load key n b s = (q, s1)" by fastforce
  note cc = coherent_complete [OF assms(1) c assms(2) [OF Inr]]
  show ?thesis
  proof (cases "length b = n")
    case False
    then show ?thesis using assms(1,3) Inr by (auto simp: finish_load_def intro: coherent_reservation_drop)
  next
    case True
    then show ?thesis using assms(2,3) Inr c cc
      by (cases q) (auto simp: finish_load_def intro: coherent_reservation_drop)
  qed
qed

lemma coherent_load:
  assumes "cache_inv cfg L R s" "2 * capacity_bytes cfg < u64_limit" "coherent payload s"
    and "\<And>b. loader () = Inr b \<Longrightarrow> b = payload key" "get_or_try_insert cfg key n loader s = Some (r, s')"
  shows "coherent payload s' \<and> (\<forall>b. r = Inr b \<longrightarrow> b = payload key)"
proof (cases "load_precheck cfg n")
  case (Inl e)
  then show ?thesis using assms(3,5) by (auto simp: get_or_try_insert_def)
next
  case (Inr u)
  then have pre: "load_precheck cfg n = Inr ()" by simp
  obtain q s1 where b: "begin_load cfg key n s = (q, s1)" by fastforce
  note c = coherent_begin [OF assms(1,2) pre assms(3) b]
  show ?thesis using assms(5) c pre b coherent_finish [of payload s1 "loader ()" key n r s'] assms(4)
    by (auto simp: get_or_try_insert_def split: sum.splits load_turn.splits)
qed

lemma coherent_drop: "coherent payload s \<Longrightarrow> coherent payload (lease_drop key s)"
  by (auto simp: lease_drop_def coherent_def Let_def split: option.split entry.split)

section \<open>What a key stands for\<close>

text \<open>
  The payload of an expert: its three slabs in the shard files \<open>datas\<close>, or its three segments in the
  sidecar's data file, which is then \<open>hd datas\<close>.
\<close>

definition sidecar_segment :: "byte list \<Rightarrow> segment \<Rightarrow> byte list" where
  "sidecar_segment data g = take (sg_length g) (drop (sg_offset g) data)"

fun source_payload :: "byte list list \<Rightarrow> 'e expert_source \<Rightarrow> expert_key \<Rightarrow> byte list" where
  "source_payload datas (DirectSource store) key =
     (case direct_index_get (ds_index store) key of
        None \<Rightarrow> []
      | Some r \<Rightarrow> segment_data datas (dr_gate r) @ segment_data datas (dr_up r) @ segment_data datas (dr_down r))"
| "source_payload datas (SidecarSource sidecar) key =
     (case manifest_record (sc_manifest sidecar) key of
        None \<Rightarrow> []
      | Some r \<Rightarrow> sidecar_segment (hd datas) (er_gate r) @ sidecar_segment (hd datas) (er_up r) @
          sidecar_segment (hd datas) (er_down r))"

text \<open>The files do not change while they are read.\<close>

fun source_faithful :: "byte list list \<Rightarrow> 'e expert_source \<Rightarrow> bool" where
  "source_faithful datas (DirectSource store) \<longleftrightarrow> readers_faithful store datas"
| "source_faithful datas (SidecarSource sidecar) \<longleftrightarrow> sidecar_ok sidecar (hd datas)"

lemma sidecar_read_exact:
  assumes "sidecar_ok sidecar data" "(read_expert grant cancelled sidecar key t :: ('e, 'j) sidecar_error + _) = Inr b"
  shows "\<exists>r. manifest_record (sc_manifest sidecar) key = Some r \<and> expert_gate b = Some (sidecar_segment data (er_gate r)) \<and>
    expert_up b = Some (sidecar_segment data (er_up r)) \<and> expert_down b = Some (sidecar_segment data (er_down r))"
proof -
  from assms(2) obtain r where r: "manifest_record (sc_manifest sidecar) key = Some r"
    by (auto simp: read_expert_def rbind_Inr)
  obtain res t' where rd: "read_exact_at grant cancelled (sc_data sidecar) (er_offset r) (er_end r) t = (res, t')" by fastforce
  have m: "r \<in> set (sm_records (sc_manifest sidecar))" "er_key r = key"
    using record_lookup(1) [OF sidecar_ok_layout(1) [OF assms(1)]] r by auto
  from read_expert_effect [OF assms(1) m rd assms(2)] r show ?thesis
    by (cases res) (auto simp: sidecar_segment_def)
qed

lemma append_segments_payload:
  "append_segments l gate up down = Inr b \<Longrightarrow> b = gate @ up @ down"
  by (auto simp: append_segments_def append_checked_def rbind_Inr split: if_splits)

lemma read_tight_payload:
  assumes "source_faithful datas source" "(read_tight grant source key l t :: ('e, 'j) expert_read_error + _) = Inr b"
  shows "b = source_payload datas source key"
proof (cases source)
  case (DirectSource store)
  have "readers_faithful store datas" using assms(1) DirectSource by simp
  from read_tight_Inr [OF assms(2) [unfolded DirectSource] this] DirectSource show ?thesis by auto
next
  case (SidecarSource sidecar)
  from assms(2) obtain eb where eb: "(read_expert grant (\<lambda>_. False) sidecar key t :: ('e, 'j) sidecar_error + _) = Inr eb"
    and b: "b = the (expert_gate eb) @ the (expert_up eb) @ the (expert_down eb)"
    by (auto simp: read_tight_def SidecarSource rbind_Inr dest: append_segments_payload)
  have "sidecar_ok sidecar (hd datas)" using assms(1) SidecarSource by simp
  from sidecar_read_exact [OF this eb] b SidecarSource show ?thesis by auto
qed

section \<open>Tight payloads\<close>

text \<open>The three segments of an expert that a source names, in the files it reads.\<close>

fun source_segments :: "byte list list \<Rightarrow> 'e expert_source \<Rightarrow> expert_key \<Rightarrow> (byte list \<times> byte list \<times> byte list) option" where
  "source_segments datas (DirectSource store) key = map_option
     (\<lambda>r. (segment_data datas (dr_gate r), segment_data datas (dr_up r), segment_data datas (dr_down r)))
     (direct_index_get (ds_index store) key)"
| "source_segments datas (SidecarSource sidecar) key = map_option
     (\<lambda>r. (sidecar_segment (hd datas) (er_gate r), sidecar_segment (hd datas) (er_up r), sidecar_segment (hd datas) (er_down r)))
     (manifest_record (sc_manifest sidecar) key)"

lemma read_tight_segments:
  assumes "source_faithful datas source" "(read_tight grant source key l t :: ('e, 'j) expert_read_error + _) = Inr bytes"
  shows "\<exists>gate up down. source_segments datas source key = Some (gate, up, down) \<and>
    (append_segments l gate up down :: ('e, 'j) expert_read_error + _) = Inr bytes \<and> total_bytes l = Some (length bytes)"
proof -
  have total: "total_bytes l = Some (length bytes)" if "append_segments l gate up down = (Inr bytes :: ('e, 'j) expert_read_error + _)"
    for gate up down
    using that assms(2) by (auto simp: read_tight_def rbind_Inr append_segments_Inr total_bytes_Some)
  show ?thesis
  proof (cases source)
    case (DirectSource store)
    then obtain b where b: "(direct_read_expert grant store key t :: ('e, 'j) prepare_error + _) = Inr b"
      "(append_segments l (xb_gate b) (xb_up b) (xb_down b) :: ('e, 'j) expert_read_error + _) = Inr bytes"
      using assms(2) by (auto simp: read_tight_def rbind_Inr)
    have "readers_faithful store datas" using assms(1) DirectSource by simp
    from direct_read_Inr [OF this b(1)] show ?thesis using DirectSource b(2) total [OF b(2)] by auto
  next
    case (SidecarSource sidecar)
    then obtain b where b: "(read_expert grant (\<lambda>_. False) sidecar key t :: ('e, 'j) sidecar_error + _) = Inr b"
      "(append_segments l (the (expert_gate b)) (the (expert_up b)) (the (expert_down b)) :: ('e, 'j) expert_read_error + _) = Inr bytes"
      using assms(2) by (auto simp: read_tight_def rbind_Inr)
    have "sidecar_ok sidecar (hd datas)" using assms(1) SidecarSource by simp
    from sidecar_read_exact [OF this b(1)] show ?thesis using SidecarSource b(2) total [OF b(2)] by auto
  qed
qed

text \<open> C21.
  Reading an expert tightly, from the model files or from a sidecar that do not change meanwhile: what is
  returned are the three segments the index or the manifest names for the expert, gate, up and down, one after
  the other, each of the length its layout gives; the view of that payload is the three matrices over these
  very segments, put together as an expert; and a payload of any other length is refused.
\<close>

theorem tight_payload_roundtrip:
  assumes "source_faithful datas source" "(read_tight grant source key l t :: ('e, 'j) expert_read_error + _) = Inr bytes"
  shows "case source_segments datas source key of
      None \<Rightarrow> False
    | Some (gate, up, down) \<Rightarrow>
        bytes = gate @ up @ down \<and>
        length gate = ml_bytes (pl_gate l) \<and> length up = ml_bytes (pl_up l) \<and> length down = ml_bytes (pl_down l) \<and>
        (payload_view l bytes :: ('e, 'j) scalar_error + _) =
          rbind (layout_matrix (pl_gate l) gate) (\<lambda>g. rbind (layout_matrix (pl_up l) up) (\<lambda>u.
          rbind (layout_matrix (pl_down l) down) (\<lambda>d. map_err ScKernel (swiglu_expert_new g u d)))) \<and>
        ((payload_view l other :: ('e, 'j) scalar_error + _) =
           Inl (ScRun (ExpertPayloadLength (length bytes) (length other))) \<longleftrightarrow> length other \<noteq> length bytes)"
proof -
  obtain gate up down where s: "source_segments datas source key = Some (gate, up, down)"
    "(append_segments l gate up down :: ('e, 'j) expert_read_error + _) = Inr bytes" "total_bytes l = Some (length bytes)"
    using read_tight_segments [OF assms] by blast
  then have "length bytes < u64_limit" by (simp add: total_bytes_Some)
  note view = payload_view_append [OF s(2) this]
  have parts: "bytes = gate @ up @ down \<and> length gate = ml_bytes (pl_gate l) \<and> length up = ml_bytes (pl_up l) \<and>
      length down = ml_bytes (pl_down l)"
    using s(2) by (simp add: append_segments_Inr)
  show ?thesis
    unfolding s(1) option.case prod.case using parts view payload_view_length [OF s(3)] by blast
qed

text \<open>The two experts of \<open>pair_model\<close> in a file of 24 bytes, which is read in calls of at most three bytes.\<close>

definition pair_layout :: payload_layout where
  "pair_layout = (let l = \<lparr>ml_ty = F32, ml_input_width = 1, ml_output_width = 1, ml_bytes = 4\<rparr>
     in \<lparr>pl_gate = l, pl_up = l, pl_down = l\<rparr>)"

definition pair_bytes :: "byte list" where
  "pair_bytes = map word_of_nat [0..<24]"

definition pair_reader :: "unit positioned_file" where
  "pair_reader = \<lparr>pf_file = (\<lambda>_ off n. Inr (take (min 3 n) (drop off pair_bytes))), pf_path = ''m.gguf'', pf_length = 24,
     pf_limits = \<lparr>max_request_bytes = 4\<rparr>\<rparr>"

definition pair_store :: "unit direct_store" where
  "pair_store = \<lparr>ds_readers = [pair_reader], ds_index = pair_records\<rparr>"

lemma pair_faithful: "faithful pair_reader pair_bytes"
  by (auto simp: faithful_def pair_reader_def pair_bytes_def u64_limit_def min_def)

lemma pair_segment_read:
  assumes "start \<le> 20"
  obtains bs t' where "(read_segment (\<lambda>_. True) pair_store (pair_segment start) t :: ((unit, unit) prepare_error + _) \<times> nat) = (Inr bs, t')"
    "length bs = 4"
proof -
  obtain r t' where r: "read_exact_at (\<lambda>_. True) (\<lambda>_. False) pair_reader start (start + 4) t = (r, t')" by fastforce
  from read_exact_at_faithful [OF pair_faithful r] assms
  have "(\<forall>bs. r = Inr bs \<longrightarrow> length bs = 4) \<and> (\<forall>err. r = Inl err \<longrightarrow> interrupted pair_reader (\<lambda>_. False) start (start + 4) t err)"
    by (auto simp: pair_bytes_def pair_reader_def)
  then obtain bs where "r = Inr bs" "length bs = 4" by (cases r) (auto simp: interrupted_def pair_reader_def)
  with r show thesis by (intro that [of bs t']) (simp_all add: read_segment_def pair_store_def pair_segment_def)
qed

lemma pair_tight:
  "\<exists>bytes. (read_tight (\<lambda>_. True) (DirectSource pair_store) (ExpertKey 1 1) pair_layout t :: (unit, unit) expert_read_error + _) = Inr bytes"
proof -
  have "direct_index_get pair_records (ExpertKey 1 1) = Some (pair_records ! 1)"
    by (simp add: pair_records_def direct_index_get_def binary_search_by_key_def bsearch.simps less_expert_key_def Let_def)
  then have get: "direct_index_get (ds_index pair_store) (ExpertKey 1 1) = Some \<lparr>dr_key = ExpertKey 1 1,
      dr_gate = pair_segment 4, dr_up = pair_segment 12, dr_down = pair_segment 20\<rparr>"
    by (simp add: pair_store_def pair_records_def)
  obtain g t1 where g: "(read_segment (\<lambda>_. True) pair_store (pair_segment 4) t :: ((unit, unit) prepare_error + _) \<times> nat) = (Inr g, t1)" "length g = 4"
    using pair_segment_read [of 4 t] by auto
  obtain u t2 where u: "(read_segment (\<lambda>_. True) pair_store (pair_segment 12) t1 :: ((unit, unit) prepare_error + _) \<times> nat) = (Inr u, t2)" "length u = 4"
    using pair_segment_read [of 12 t1] by auto
  obtain d t3 where d: "(read_segment (\<lambda>_. True) pair_store (pair_segment 20) t2 :: ((unit, unit) prepare_error + _) \<times> nat) = (Inr d, t3)" "length d = 4"
    using pair_segment_read [of 20 t2] by auto
  have "direct_read_expert (\<lambda>_. True) pair_store (ExpertKey 1 1) t = (Inr \<lparr>xb_gate = g, xb_up = u, xb_down = d\<rparr> :: (unit, unit) prepare_error + _)"
    unfolding direct_read_expert_def get ok_or_simps rbind_simps by (simp add: g u d)
  moreover have "total_bytes pair_layout = Some 12"
    by (simp add: pair_layout_def total_bytes_Some u64_limit_def Let_def)
  ultimately show ?thesis
    using g(2) u(2) d(2) by (simp add: read_tight_def append_segments_def append_checked_def pair_layout_def Let_def)
qed

theorem tight_payload_roundtrip_witness:
  "read_tight (\<lambda>_. True) (DirectSource pair_store) (ExpertKey 1 1) pair_layout 0 =
     (Inr [4, 5, 6, 7, 12, 13, 14, 15, 20, 21, 22, 23] :: (unit, unit) expert_read_error + _) \<and>
   (payload_view pair_layout [] :: (unit, unit) scalar_error + _) = Inl (ScRun (ExpertPayloadLength 12 0))"
proof -
  obtain bytes where r: "(read_tight (\<lambda>_. True) (DirectSource pair_store) (ExpertKey 1 1) pair_layout 0 :: (unit, unit) expert_read_error + _) = Inr bytes"
    using pair_tight by blast
  have f: "source_faithful [pair_bytes] (DirectSource pair_store)"
    using pair_faithful by (simp add: readers_faithful_def pair_store_def)
  have "direct_index_get (ds_index pair_store) (ExpertKey 1 1) = Some \<lparr>dr_key = ExpertKey 1 1,
      dr_gate = pair_segment 4, dr_up = pair_segment 12, dr_down = pair_segment 20\<rparr>"
    by (simp add: pair_store_def pair_records_def direct_index_get_def binary_search_by_key_def bsearch.simps
        less_expert_key_def Let_def)
  then have s: "source_segments [pair_bytes] (DirectSource pair_store) (ExpertKey 1 1) =
      Some ([4, 5, 6, 7], [12, 13, 14, 15], [20, 21, 22, 23])"
    by (simp add: segment_data_def pair_segment_def segment_length_def pair_bytes_def upt_rec)
  note all = tight_payload_roundtrip [OF f r, of "[]", unfolded s option.case prod.case]
  have bytes: "bytes = [4, 5, 6, 7, 12, 13, 14, 15, 20, 21, 22, 23]" using all by simp
  have "(payload_view pair_layout [] :: (unit, unit) scalar_error + _) =
      Inl (ScRun (ExpertPayloadLength (length bytes) (length ([] :: byte list))))"
    using all unfolding bytes by simp
  then show ?thesis using r by (simp add: bytes)
qed

end
