(* ===== verification/Hy3_Session.thy ===== *)
theory Hy3_Session
  imports Hy3_Weights Kv_Snapshot Expert_Payload
begin

text \<open>
  Sessions of \<^verbatim>\<open>bridge-runtime/src/hy3_scalar.rs\<close>: the mutable state of one conversation, the evaluation
  of a token through all layers with the routed experts taken from the shared cache, the rollback after a
  failure, reset, and the snapshots of the key/value cache.

  The cache of compressed experts belongs to the model and is threaded through: a call gets its state and
  returns it changed. \<open>None\<close> is a call that waits for another caller's load. The prefetch of the parallel
  mode is given one of its schedules, the order of the routes. Buffers that are only written before they are
  read (\<^verbatim>\<open>decoded_block\<close>, \<^verbatim>\<open>q8\<close>) enter with their lengths. A product that fails has written nothing: its
  checks precede its first write.
\<close>

section \<open>State\<close>

type_synonym lease = "expert_key \<times> byte list"

record session =
  ss_cache :: kv_cache
  ss_dense_scratch :: block_scratch
  ss_moe_scratch :: "block_scratch option"
  ss_hidden :: "f32 list"
  ss_final_normalized :: "f32 list"
  ss_decoded_block :: nat
  ss_q8 :: nat
  ss_leases :: "lease list"
  ss_position :: nat

type_synonym expert_cache = "expert_key cache_state"

text \<open>The machine, the allocator, and the time at which an expert is read at a position.\<close>

record run_env =
  rn_machine :: machine
  rn_grant :: grant
  rn_read_grant :: "nat \<Rightarrow> bool"
  rn_time :: "nat \<Rightarrow> expert_key \<Rightarrow> nat"

definition drop_leases :: "lease list \<Rightarrow> expert_cache \<Rightarrow> expert_cache" where
  "drop_leases held cs = fold (\<lambda>l. lease_drop (fst l)) held cs"

definition clear_leases :: "session \<Rightarrow> expert_cache \<Rightarrow> session \<times> expert_cache" where
  "clear_leases ss cs = (ss\<lparr>ss_leases := []\<rparr>, drop_leases (ss_leases ss) cs)"

definition fallible_zeroed :: "grant \<Rightarrow> nat \<Rightarrow> string \<Rightarrow> ('e, 'j) scalar_error + nat" where
  "fallible_zeroed grant n ctxt = (if grant (ctxt, []) n then Inr n else Inl (ScRun (ScAllocationFailed ctxt n)))"

section \<open>Construction, reset, rollback\<close>

definition dense_view :: "hy3_config \<Rightarrow> owned_attention \<Rightarrow> f32 list \<Rightarrow> owned_expert \<Rightarrow> ('e, 'j) scalar_error + block_weights" where
  "dense_view c a ffn_norm e =
     rbind (attention_view a c) (\<lambda>aw.
     rbind (expert_view e) (\<lambda>ev.
     Inr \<lparr>bw_attention = aw, bw_ffn_norm = ffn_norm, bw_feed_forward = DenseFeedForward ev\<rparr>))"

fun first_moe :: "layer_weights list \<Rightarrow> (layer_weights \<times> owned_moe) option" where
  "first_moe [] = None"
| "first_moe (l # ls) = (case lw_feed_forward l of MoeWeights moe \<Rightarrow> Some (l, moe) | DenseWeights _ \<Rightarrow> first_moe ls)"

definition session_moe_scratch :: "run_env \<Rightarrow> 'f hy3_model \<Rightarrow> ('e, 'j) scalar_error + block_scratch option" where
  "session_moe_scratch env hm =
     (case first_moe (hm_layers hm) of
        None \<Rightarrow> Inr None
      | Some (l, moe) \<Rightarrow>
          rbind (streaming_view moe (lw_attention l) (lw_ffn_norm l) (hm_config hm)) (\<lambda>weights.
          rbind (map_err ScKernel (new_streaming_moe (rn_grant env) weights (hm_context_capacity hm))) (\<lambda>sc.
          Inr (Some sc))))"

definition new_session :: "run_env \<Rightarrow> 'f hy3_model \<Rightarrow> ('e, 'j) scalar_error + session" where
  "new_session env hm =
     (let c = hm_config hm; width = hc_embedding_length c; grant = rn_grant env in
      case hm_layers hm of
        [] \<Rightarrow> Inl (ScRun MissingDenseLayer)
      | dense # _ \<Rightarrow>
          (case lw_feed_forward dense of
             MoeWeights _ \<Rightarrow> Inl (ScRun MissingDenseLayer)
           | DenseWeights e \<Rightarrow>
               rbind (dense_view c (lw_attention dense) (lw_ffn_norm dense) e) (\<lambda>weights.
               rbind (session_moe_scratch env hm) (\<lambda>moe_scratch.
               rbind (map_err ScKv (kv_new_lazy grant (hc_block_count c) (hc_attention_kv_head_count c) (hc_key_length c)
                 (hc_value_length c) (hm_kv_page_tokens hm) (hm_context_capacity hm))) (\<lambda>cache.
               rbind (map_err ScKernel (block_scratch_new grant weights (hm_context_capacity hm))) (\<lambda>dense_scratch.
               rbind (fallible_zeroed grant width ''hidden state'') (\<lambda>hidden.
               rbind (fallible_zeroed grant width ''final normalized state'') (\<lambda>final.
               rbind (fallible_zeroed grant 256 ''output decoded block'') (\<lambda>decoded.
               rbind (map_err ScKernel (required_q8_k_bytes width)) (\<lambda>q8_bytes.
               rbind (fallible_zeroed grant q8_bytes ''output Q8_K row'') (\<lambda>q8.
               Inr \<lparr>ss_cache = cache, ss_dense_scratch = dense_scratch, ss_moe_scratch = moe_scratch,
                    ss_hidden = replicate hidden f32_zero, ss_final_normalized = replicate final f32_zero,
                    ss_decoded_block = decoded, ss_q8 = q8, ss_leases = [], ss_position = 0\<rparr>)))))))))))"

definition zero_fill :: "f32 list \<Rightarrow> f32 list" where "zero_fill xs = replicate (length xs) f32_zero"

definition reset_session :: "session \<times> expert_cache \<Rightarrow> session \<times> expert_cache" where
  "reset_session st =
     (let (ss, cs) = st; (ss', cs') = clear_leases ss cs in
      (ss'\<lparr>ss_cache := kv_reset (ss_cache ss), ss_dense_scratch := scratch_reset (ss_dense_scratch ss),
         ss_moe_scratch := map_option scratch_reset (ss_moe_scratch ss), ss_hidden := zero_fill (ss_hidden ss),
         ss_final_normalized := zero_fill (ss_final_normalized ss), ss_position := 0\<rparr>, cs'))"

definition rollback_to ::
  "session \<times> expert_cache \<Rightarrow> nat \<Rightarrow> (('e, 'j) scalar_error + unit) \<times> session \<times> expert_cache" where
  "rollback_to st committed =
     (let (ss, cs) = st in
      case rewind_all (ss_cache ss) committed of
        (Inl e, c) \<Rightarrow> (Inl (ScKv e), ss\<lparr>ss_cache := c\<rparr>, cs)
      | (Inr _, c) \<Rightarrow>
          (let (ss', cs') = clear_leases ss cs in
           (Inr (), ss'\<lparr>ss_cache := c, ss_dense_scratch := scratch_reset (ss_dense_scratch ss),
              ss_moe_scratch := map_option scratch_reset (ss_moe_scratch ss), ss_hidden := zero_fill (ss_hidden ss),
              ss_final_normalized := zero_fill (ss_final_normalized ss), ss_position := committed\<rparr>, cs')))"

definition kv_stored_tokens :: "session \<Rightarrow> nat \<Rightarrow> ('e, 'j) scalar_error + nat" where
  "kv_stored_tokens ss layer = map_err ScKv (stored_tokens (ss_cache ss) layer)"

section \<open>Routed experts\<close>

definition load_route ::
  "run_env \<Rightarrow> 'e hy3_model \<Rightarrow> nat \<Rightarrow> payload_layout \<Rightarrow> nat \<Rightarrow> routed_expert \<Rightarrow> expert_cache \<Rightarrow>
    ((('e, 'j) scalar_error + lease) \<times> expert_cache) option" where
  "load_route env hm layer layout position route cs =
     (let key = ExpertKey layer (re_expert_id route) in
      case rbind (ok_or (ScRun ScArithmeticOverflow) (total_bytes layout)) (\<lambda>expected.
           rbind (ok_or (ScRun MissingExpertSource) (hm_expert_source hm)) (\<lambda>source. Inr (expected, source))) of
        Inl e \<Rightarrow> Some (Inl e, cs)
      | Inr (expected, source) \<Rightarrow>
          map_option (\<lambda>(r, cs'). (map_err ScExpertCache (map_sum id (Pair key) r), cs'))
            (get_or_try_insert (hm_cache_config hm) key expected
              (\<lambda>_. read_tight (rn_read_grant env) source key layout (rn_time env position key)) cs))"

text \<open>A failed load drops the leases taken before it.\<close>

fun load_routes ::
  "(routed_expert \<Rightarrow> expert_cache \<Rightarrow> (('x + lease) \<times> expert_cache) option) \<Rightarrow> routed_expert list \<Rightarrow> lease list \<Rightarrow>
    expert_cache \<Rightarrow> (('x + lease list) \<times> expert_cache) option" where
  "load_routes one [] held cs = Some (Inr held, cs)"
| "load_routes one (r # rs) held cs =
     Option.bind (one r cs) (\<lambda>(res, cs').
       case res of
         Inl e \<Rightarrow> Some (Inl e, drop_leases held cs')
       | Inr lease \<Rightarrow> load_routes one rs (held @ [lease]) cs')"

definition select_experts ::
  "payload_layout \<Rightarrow> routed_expert list \<Rightarrow> lease list \<Rightarrow> ('e, 'j) scalar_error + selected_expert list" where
  "select_experts layout routes held =
     map_res (\<lambda>(route, lease). rbind (payload_view layout (snd lease)) (\<lambda>expert.
       Inr \<lparr>se_expert_id = re_expert_id route, se_coefficient = re_coefficient route, se_expert = expert\<rparr>))
       (zip routes held)"

section \<open>One token\<close>

type_synonym ('e, 'j) stepped = "((('e, 'j) scalar_error + unit) \<times> session \<times> expert_cache) option"

definition layer_execution :: "'f hy3_model \<Rightarrow> nat \<Rightarrow> session \<Rightarrow> block_execution" where
  "layer_execution hm layer ss =
     \<lparr>bx_mode = hm_execution_mode hm, bx_layer = layer, bx_position = ss_position ss, bx_rope = hm_rope hm,
      bx_rms_epsilon = hc_rms_epsilon (hm_config hm)\<rparr>"

definition dense_layer ::
  "run_env \<Rightarrow> 'f hy3_model \<Rightarrow> nat \<Rightarrow> layer_weights \<Rightarrow> owned_expert \<Rightarrow> session \<Rightarrow>
    (('e, 'j) scalar_error + unit) \<times> session" where
  "dense_layer env hm layer l e ss =
     (case dense_view (hm_config hm) (lw_attention l) (lw_ffn_norm l) e of
        Inl err \<Rightarrow> (Inl err, ss)
      | Inr weights \<Rightarrow>
          (case hy3_block_forward_token (rn_machine env) (layer_execution hm layer ss) weights (ss_cache ss)
             (ss_hidden ss) (ss_dense_scratch ss) of
             (r, c, h, sc) \<Rightarrow> (map_err ScKernel r, ss\<lparr>ss_cache := c, ss_hidden := h, ss_dense_scratch := sc\<rparr>)))"

text \<open>The routing half of a streamed layer: the routed experts, or an error.\<close>

definition moe_route ::
  "run_env \<Rightarrow> 'f hy3_model \<Rightarrow> nat \<Rightarrow> layer_weights \<Rightarrow> owned_moe \<Rightarrow> session \<Rightarrow>
    (('e, 'j) scalar_error + routed_expert list) \<times> session" where
  "moe_route env hm layer l moe ss =
     (case rbind (streaming_view moe (lw_attention l) (lw_ffn_norm l) (hm_config hm)) (\<lambda>weights.
           rbind (ok_or (ScRun MissingMoeScratch) (ss_moe_scratch ss)) (\<lambda>sc. Inr (weights, sc))) of
        Inl err \<Rightarrow> (Inl err, ss)
      | Inr (weights, sc) \<Rightarrow>
          (case hy3_moe_route_token (rn_machine env) (layer_execution hm layer ss) weights (ss_cache ss) (ss_hidden ss) sc of
             (r, c, h, sc') \<Rightarrow>
               (rbind (map_err ScKernel r) (\<lambda>_. Inr (scratch_routed sc')),
                ss\<lparr>ss_cache := c, ss_hidden := h, ss_moe_scratch := Some sc'\<rparr>)))"

text \<open>The leases of the routed experts; the serial loop reserves its table first.\<close>

definition moe_load ::
  "run_env \<Rightarrow> 'e hy3_model \<Rightarrow> nat \<Rightarrow> owned_moe \<Rightarrow> routed_expert list \<Rightarrow> session \<times> expert_cache \<Rightarrow> ('e, 'j) stepped" where
  "moe_load env hm layer moe routes st =
     (let (ss, cs) = (case st of (ss, cs) \<Rightarrow> clear_leases ss cs); n = length routes in
      case check (hm_cpu_backend hm \<noteq> None \<or> rn_grant env (''selected expert leases'', []) n)
             (ScRun (ScAllocationFailed ''selected expert leases'' n)) of
        Inl err \<Rightarrow> Some (Inl err, ss, cs)
      | Inr _ \<Rightarrow>
          map_option (\<lambda>(r, cs'). case r of
              Inl err \<Rightarrow> (Inl err, ss, cs')
            | Inr held \<Rightarrow> (Inr (), ss\<lparr>ss_leases := held\<rparr>, cs'))
            (load_routes (load_route env hm layer (on_layout moe) (ss_position ss)) routes [] cs))"

definition moe_finish ::
  "run_env \<Rightarrow> 'f hy3_model \<Rightarrow> owned_moe \<Rightarrow> routed_expert list \<Rightarrow> session \<Rightarrow> (('e, 'j) scalar_error + unit) \<times> session" where
  "moe_finish env hm moe routes ss =
     (let n = length routes in
      case rbind (check (rn_grant env (''selected expert views'', []) n)
             (ScRun (ScAllocationFailed ''selected expert views'' n))) (\<lambda>_.
           rbind (select_experts (on_layout moe) routes (ss_leases ss)) (\<lambda>selected.
           rbind (expert_view (on_shared moe)) (\<lambda>shared_view. Inr (selected, shared_view)))) of
        Inl err \<Rightarrow> (Inl err, ss)
      | Inr (selected, shared_view) \<Rightarrow>
          (case hy3_moe_finish_token (rn_machine env) (hm_execution_mode hm) selected shared_view (ss_hidden ss)
             (the (ss_moe_scratch ss)) of
             (r, h, sc) \<Rightarrow> (map_err ScKernel r, ss\<lparr>ss_hidden := h, ss_moe_scratch := Some sc\<rparr>)))"

definition moe_layer ::
  "run_env \<Rightarrow> 'e hy3_model \<Rightarrow> nat \<Rightarrow> layer_weights \<Rightarrow> owned_moe \<Rightarrow> session \<times> expert_cache \<Rightarrow> ('e, 'j) stepped" where
  "moe_layer env hm layer l moe st =
     (case moe_route env hm layer l moe (fst st) of
        (Inl err, ss) \<Rightarrow> Some (Inl err, ss, snd st)
      | (Inr routes, ss) \<Rightarrow>
          map_option (\<lambda>(r, ss1, cs1). case r of
              Inl err \<Rightarrow> (Inl err, ss1, cs1)
            | Inr _ \<Rightarrow> (case moe_finish env hm moe routes ss1 of
                (Inl err, ss2) \<Rightarrow> (Inl err, ss2, cs1)
              | (Inr _, ss2) \<Rightarrow> (Inr (), clear_leases ss2 cs1)))
            (moe_load env hm layer moe routes (ss, snd st)))"

definition evaluate_layer ::
  "run_env \<Rightarrow> 'e hy3_model \<Rightarrow> nat \<Rightarrow> layer_weights \<Rightarrow> session \<times> expert_cache \<Rightarrow> ('e, 'j) stepped" where
  "evaluate_layer env hm layer l st =
     (if 4294967296 \<le> layer then Some (Inl (ScRun ScArithmeticOverflow), st)
      else case lw_feed_forward l of
        DenseWeights e \<Rightarrow> Some (case dense_layer env hm layer l e (fst st) of (r, ss) \<Rightarrow> (r, ss, snd st))
      | MoeWeights moe \<Rightarrow> moe_layer env hm layer l moe st)"

fun evaluate_layers ::
  "run_env \<Rightarrow> 'e hy3_model \<Rightarrow> nat \<Rightarrow> layer_weights list \<Rightarrow> session \<times> expert_cache \<Rightarrow> ('e, 'j) stepped" where
  "evaluate_layers env hm layer [] st = Some (Inr (), st)"
| "evaluate_layers env hm layer (l # ls) st =
     Option.bind (evaluate_layer env hm layer l st) (\<lambda>(r, st').
       case r of Inl err \<Rightarrow> Some (Inl err, st') | Inr _ \<Rightarrow> evaluate_layers env hm (Suc layer) ls st')"

definition output_env :: "run_env \<Rightarrow> session \<Rightarrow> gemv_env" where
  "output_env env ss =
     \<lparr>decoded_length = ss_decoded_block ss, q8_length = ss_q8 ss, avx2_detected = mc_avx2 (rn_machine env)\<rparr>"

text \<open>The final norm and the output product.\<close>

definition evaluate_output ::
  "run_env \<Rightarrow> 'f hy3_model \<Rightarrow> session \<Rightarrow> nat \<Rightarrow> (('e, 'j) scalar_error + f32 list) \<times> session" where
  "evaluate_output env hm ss logit_length =
     (case weighted_rms_norm (ss_hidden ss) (hm_output_norm hm) (hc_rms_epsilon (hm_config hm))
        (length (ss_final_normalized ss)) of
        Inl err \<Rightarrow> (Inl (ScKernel err), ss)
      | Inr normed \<Rightarrow>
          (let ss' = ss\<lparr>ss_final_normalized := normed\<rparr> in
           case rbind (owned_view (hm_output hm)) (\<lambda>m.
             map_err ScKernel (gemv (output_env env ss) (hm_execution_mode hm) m normed logit_length)) of
             Inl err \<Rightarrow> (Inl err, ss')
           | Inr logits \<Rightarrow> (Inr logits, ss'\<lparr>ss_position := ss_position ss + 1\<rparr>)))"

text \<open>The checks before anything is written, with the embedding of the token.\<close>

definition embed_token :: "'f hy3_model \<Rightarrow> session \<Rightarrow> nat \<Rightarrow> nat \<Rightarrow> ('e, 'j) scalar_error + f32 list" where
  "embed_token hm ss tok logit_length =
     (let vocabulary = hc_vocabulary_size (hm_config hm) in
      rbind (check (logit_length = vocabulary) (ScRun (LogitLength vocabulary logit_length))) (\<lambda>_.
      rbind (check (tok < vocabulary) (ScRun (ScTokenOutOfRange tok vocabulary))) (\<lambda>_.
      rbind (check (ss_position ss < hm_context_capacity hm)
        (ScRun (ContextExhausted (ss_position ss) (hm_context_capacity hm)))) (\<lambda>_.
      rbind (owned_view (hm_embeddings hm)) (\<lambda>m.
      map_err ScQuant (decode_row (om_ty (hm_embeddings hm)) (matrix_row m tok) (om_input_width (hm_embeddings hm))
        (length (ss_hidden ss))))))))"

type_synonym ('e, 'j) evaluated = "((('e, 'j) scalar_error + unit) \<times> (session \<times> expert_cache) \<times> f32 list) option"

definition evaluate_inner ::
  "run_env \<Rightarrow> 'e hy3_model \<Rightarrow> session \<times> expert_cache \<Rightarrow> nat \<Rightarrow> f32 list \<Rightarrow> ('e, 'j) evaluated" where
  "evaluate_inner env hm st tok logits =
     (case embed_token hm (fst st) tok (length logits) of
        Inl err \<Rightarrow> Some (Inl err, st, logits)
      | Inr hidden \<Rightarrow>
          map_option (\<lambda>(r, ss, cs). case r of
              Inl err \<Rightarrow> (Inl err, (ss, cs), logits)
            | Inr _ \<Rightarrow> (case evaluate_output env hm ss (length logits) of
                (Inl err, ss') \<Rightarrow> (Inl err, (ss', cs), logits)
              | (Inr out, ss') \<Rightarrow> (Inr (), (ss', cs), out)))
            (evaluate_layers env hm 0 (hm_layers hm) ((fst st)\<lparr>ss_hidden := hidden\<rparr>, snd st)))"

definition evaluate ::
  "run_env \<Rightarrow> 'e hy3_model \<Rightarrow> session \<times> expert_cache \<Rightarrow> nat \<Rightarrow> f32 list \<Rightarrow> ('e, 'j) evaluated" where
  "evaluate env hm st tok logits =
     map_option (\<lambda>(r, st', logits'). case r of
         Inr _ \<Rightarrow> (Inr (), st', logits')
       | Inl err \<Rightarrow> (case rollback_to st' (ss_position (fst st)) of
           (Inl rollback, st'') \<Rightarrow> (Inl (SessionRollback err rollback), st'', logits')
         | (Inr _, st'') \<Rightarrow> (Inl err, st'', logits')))
       (evaluate_inner env hm st tok logits)"

section \<open>Snapshots\<close>

definition layers_at_position :: "session \<Rightarrow> nat \<Rightarrow> ('e, 'j) scalar_error + unit" where
  "layers_at_position ss layer =
     rbind (kv_stored_tokens ss layer) (\<lambda>actual.
     check (actual = ss_position ss) (ScRun (InconsistentKvLength layer (ss_position ss) actual)))"

definition export_kv_snapshot ::
  "(byte list \<Rightarrow> byte list) \<Rightarrow> run_env \<Rightarrow> 'f hy3_model \<Rightarrow> session \<Rightarrow> nat \<Rightarrow> ('e, 'j) scalar_error + byte list" where
  "export_kv_snapshot sha env hm ss maximum_bytes =
     rbind (map_res (layers_at_position ss) [0..<hc_block_count (hm_config hm)]) (\<lambda>_.
     map_err ScKv (export_snapshot sha (rn_grant env) (ss_cache ss) (hm_fingerprint hm) maximum_bytes))"

definition restore_kv_snapshot ::
  "(byte list \<Rightarrow> byte list) \<Rightarrow> run_env \<Rightarrow> 'f hy3_model \<Rightarrow> session \<times> expert_cache \<Rightarrow> byte list \<Rightarrow> nat \<Rightarrow>
    (('e, 'j) scalar_error + unit) \<times> session \<times> expert_cache" where
  "restore_kv_snapshot sha env hm st bytes maximum_bytes =
     (case restore_uniform_snapshot sha (rn_grant env) (ss_cache (fst st)) (hm_fingerprint hm) bytes maximum_bytes of
        (Inl e, c) \<Rightarrow> (Inl (ScKv e), (fst st)\<lparr>ss_cache := c\<rparr>, snd st)
      | (Inr _, c) \<Rightarrow>
          (let ss = (fst st)\<lparr>ss_cache := c\<rparr> in
           case kv_stored_tokens ss 0 of
             Inl e \<Rightarrow> (Inl e, ss, snd st)
           | Inr position \<Rightarrow> rollback_to (ss, snd st) position))"

section \<open>What the steps of an evaluation change\<close>

definition lease_keys :: "session \<Rightarrow> expert_key multiset" where
  "lease_keys ss = mset (map fst (ss_leases ss))"

text \<open>The cache accounts for exactly the leases of the session, and nobody is loading.\<close>

definition accounted :: "'f hy3_model \<Rightarrow> session \<times> expert_cache \<Rightarrow> bool" where
  "accounted hm st \<longleftrightarrow> cache_inv (hm_cache_config hm) (lease_keys (fst st)) {#} (snd st)"

definition cache_sized :: "'f hy3_model \<Rightarrow> bool" where
  "cache_sized hm \<longleftrightarrow> 2 * capacity_bytes (hm_cache_config hm) < u64_limit"

lemma drop_leases_inv:
  "cache_inv cfg (L + mset (map fst held)) R cs \<Longrightarrow> cache_inv cfg L R (drop_leases held cs)"
proof (induction held arbitrary: cs)
  case (Cons l held)
  have "cache_inv cfg (L + mset (map fst (l # held)) - {#fst l#}) R (lease_drop (fst l) cs)"
    by (rule lease_drop_effect [OF Cons.prems]) simp
  then show ?case using Cons.IH [of "lease_drop (fst l) cs"] by (simp add: drop_leases_def)
qed (simp add: drop_leases_def)

lemma clear_leases_accounted:
  assumes "accounted hm (ss, cs)"
  shows "accounted hm (clear_leases ss cs)" "fst (clear_leases ss cs) = ss\<lparr>ss_leases := []\<rparr>"
  using assms drop_leases_inv [of "hm_cache_config hm" "{#}" "ss_leases ss" "{#}" cs]
  by (simp_all add: accounted_def clear_leases_def lease_keys_def)

lemma load_route_runs:
  fixes hm :: "'e hy3_model"
  assumes "cache_sized hm" "cache_inv (hm_cache_config hm) L {#} cs"
  obtains res :: "('e, 'j) scalar_error + lease" and cs' where "load_route env hm layer layout position route cs = Some (res, cs')"
    "case res of Inl _ \<Rightarrow> cache_inv (hm_cache_config hm) L {#} cs'
     | Inr lease \<Rightarrow> cache_inv (hm_cache_config hm) (add_mset (fst lease) L) {#} cs'"
proof -
  let ?key = "ExpertKey layer (re_expert_id route)"
  show thesis
  proof (cases "rbind (ok_or (ScRun ScArithmeticOverflow) (total_bytes layout)) (\<lambda>expected.
           rbind (ok_or (ScRun MissingExpertSource) (hm_expert_source hm)) (\<lambda>source. Inr (expected, source)))
           :: ('e, 'j) scalar_error + _")
    case (Inl e)
    then show thesis using that [of "Inl e" cs] assms(2) by (simp add: load_route_def)
  next
    case (Inr p)
    obtain expected source where p: "p = (expected, source)" by fastforce
    let ?loader = "\<lambda>_. read_tight (rn_read_grant env) source ?key layout (rn_time env position ?key) :: ('e, 'j) expert_read_error + _"
    obtain r cs' where r: "get_or_try_insert (hm_cache_config hm) ?key expected ?loader cs = Some (r, cs')"
      "case r of Inl _ \<Rightarrow> cache_inv (hm_cache_config hm) L {#} cs'
       | Inr b \<Rightarrow> cache_inv (hm_cache_config hm) (add_mset ?key L) {#} cs'"
      using load_exclusive [OF assms(2) assms(1) [unfolded cache_sized_def]] by metis
    show thesis
      using that [of "map_err ScExpertCache (map_sum id (Pair ?key) r)" cs'] r Inr p
      by (cases r) (simp_all add: load_route_def)
  qed
qed

lemma load_routes_run:
  fixes hm :: "'e hy3_model"
  assumes "cache_sized hm" "cache_inv (hm_cache_config hm) (mset (map fst held)) {#} cs"
  shows "\<exists>(r :: ('e, 'j) scalar_error + lease list) cs'. load_routes (load_route env hm layer layout position) routes held cs = Some (r, cs') \<and>
    (case r of Inl _ \<Rightarrow> cache_inv (hm_cache_config hm) {#} {#} cs'
     | Inr all \<Rightarrow> cache_inv (hm_cache_config hm) (mset (map fst all)) {#} cs')"
  using assms(2)
proof (induction routes arbitrary: held cs)
  case (Cons route routes)
  obtain res :: "('e, 'j) scalar_error + lease" and cs1 where one: "load_route env hm layer layout position route cs = Some (res, cs1)"
    "case res of Inl _ \<Rightarrow> cache_inv (hm_cache_config hm) (mset (map fst held)) {#} cs1
     | Inr lease \<Rightarrow> cache_inv (hm_cache_config hm) (add_mset (fst lease) (mset (map fst held))) {#} cs1"
    using load_route_runs [OF assms(1) Cons.prems] by metis
  show ?case
  proof (cases res)
    case (Inl e)
    then show ?thesis using one drop_leases_inv [of "hm_cache_config hm" "{#}" held "{#}" cs1] by simp
  next
    case (Inr lease)
    then have "cache_inv (hm_cache_config hm) (mset (map fst (held @ [lease]))) {#} cs1" using one(2) by simp
    from Cons.IH [OF this] show ?thesis using one(1) Inr by simp
  qed
qed simp

text \<open>What one layer does to a session that holds no leases, whether it succeeds or not.\<close>

definition layer_effect :: "nat \<Rightarrow> session \<Rightarrow> bool \<Rightarrow> session \<Rightarrow> bool" where
  "layer_effect layer ss ok ss' \<longleftrightarrow> grows_at_most layer (ss_cache ss) (ss_cache ss') \<and>
     ss_position ss' = ss_position ss \<and> length (ss_final_normalized ss') = length (ss_final_normalized ss) \<and>
     (if ok then grows layer (ss_cache ss) (ss_cache ss') \<and> ss_leases ss' = [] else True)"

lemma dense_layer_effect:
  fixes r :: "('e, 'j) scalar_error + unit"
  assumes "kv_inv (ss_cache ss)" "ss_leases ss = []" "dense_layer env hm layer l e ss = (r, ss')"
  shows "layer_effect layer ss (is_ok r) ss' \<and> ss_leases ss' = []"
proof (cases "dense_view (hm_config hm) (lw_attention l) (lw_ffn_norm l) e :: ('e, 'j) scalar_error + _")
  case (Inl err)
  then show ?thesis using assms by (auto simp: dense_layer_def layer_effect_def is_ok_def)
next
  case (Inr weights)
  obtain q c h sc where f: "hy3_block_forward_token (rn_machine env) (layer_execution hm layer ss) weights (ss_cache ss)
      (ss_hidden ss) (ss_dense_scratch ss) = (q, c, h, sc)" by (metis prod.exhaust)
  have r: "r = map_err ScKernel q" "ss' = ss\<lparr>ss_cache := c, ss_hidden := h, ss_dense_scratch := sc\<rparr>"
    using assms(3) Inr f by (auto simp: dense_layer_def)
  have "bx_layer (layer_execution hm layer ss) = layer" by (simp add: layer_execution_def)
  then show ?thesis
    using forward_grows [OF assms(1) f] assms(2) by (cases q) (auto simp: r layer_effect_def is_ok_def)
qed

lemma moe_route_effect:
  fixes r :: "('e, 'j) scalar_error + routed_expert list"
  assumes "kv_inv (ss_cache ss)" "ss_leases ss = []" "moe_route env hm layer l moe ss = (r, ss')"
  shows "layer_effect layer ss (is_ok r) ss' \<and> ss_leases ss' = []"
proof (cases "rbind (streaming_view moe (lw_attention l) (lw_ffn_norm l) (hm_config hm)) (\<lambda>weights.
           rbind (ok_or (ScRun MissingMoeScratch) (ss_moe_scratch ss)) (\<lambda>sc. Inr (weights, sc))) :: ('e, 'j) scalar_error + _")
  case (Inl err)
  then show ?thesis using assms by (auto simp: moe_route_def layer_effect_def is_ok_def)
next
  case (Inr ws)
  obtain weights sc where ws: "ws = (weights, sc)" by fastforce
  obtain q c h sc' where f: "hy3_moe_route_token (rn_machine env) (layer_execution hm layer ss) weights (ss_cache ss)
      (ss_hidden ss) sc = (q, c, h, sc')" by (metis prod.exhaust)
  have r: "r = rbind (map_err ScKernel q) (\<lambda>_. Inr (scratch_routed sc'))"
    "ss' = ss\<lparr>ss_cache := c, ss_hidden := h, ss_moe_scratch := Some sc'\<rparr>"
    using assms(3) Inr f by (auto simp: moe_route_def ws)
  have "bx_layer (layer_execution hm layer ss) = layer" by (simp add: layer_execution_def)
  then show ?thesis
    using route_grows [OF assms(1) f] assms(2) by (cases q) (auto simp: r layer_effect_def is_ok_def)
qed

lemma moe_finish_effect:
  assumes "moe_finish env hm moe routes ss = (r, ss')"
  shows "\<exists>h sc. ss' = ss\<lparr>ss_hidden := h, ss_moe_scratch := sc\<rparr>"
proof -
  have same: "\<exists>h sc. ss = ss\<lparr>ss_hidden := h, ss_moe_scratch := sc\<rparr>"
    by (intro exI [of _ "ss_hidden ss"] exI [of _ "ss_moe_scratch ss"]) simp
  show ?thesis using assms same by (auto simp: moe_finish_def Let_def split: sum.splits prod.splits)
qed

lemma moe_load_runs:
  fixes hm :: "'e hy3_model"
  assumes "cache_sized hm" "accounted hm (ss, cs)"
  obtains r :: "('e, 'j) scalar_error + unit" and held cs' where
    "moe_load env hm layer moe routes (ss, cs) = Some (r, ss\<lparr>ss_leases := held\<rparr>, cs')"
    "accounted hm (ss\<lparr>ss_leases := held\<rparr>, cs')"
proof -
  obtain cs0 where cl: "clear_leases ss cs = (ss\<lparr>ss_leases := []\<rparr>, cs0)"
    and acc: "accounted hm (ss\<lparr>ss_leases := []\<rparr>, cs0)"
    using clear_leases_accounted [OF assms(2)] by (cases "clear_leases ss cs") auto
  show thesis
  proof (cases "check (hm_cpu_backend hm \<noteq> None \<or> rn_grant env (''selected expert leases'', []) (length routes))
      (ScRun (ScAllocationFailed ''selected expert leases'' (length routes))) :: ('e, 'j) scalar_error + unit")
    case (Inl err)
    then show thesis using that [of "Inl err" "[]" cs0] acc by (simp add: moe_load_def cl Let_def del: check_Inl)
  next
    case (Inr u)
    have "cache_inv (hm_cache_config hm) (mset (map fst [])) {#} cs0" using acc by (simp add: accounted_def lease_keys_def)
    from load_routes_run [OF assms(1) this] obtain q :: "('e, 'j) scalar_error + lease list" and cs'
      where q: "load_routes (load_route env hm layer (on_layout moe) (ss_position ss)) routes [] cs0 = Some (q, cs')"
      and inv: "case q of Inl _ \<Rightarrow> cache_inv (hm_cache_config hm) {#} {#} cs'
        | Inr all \<Rightarrow> cache_inv (hm_cache_config hm) (mset (map fst all)) {#} cs'" by metis
    show thesis
    proof (cases q)
      case (Inl err)
      then show thesis
        using that [of "Inl err" "[]" cs'] q inv Inr
        by (simp add: moe_load_def cl Let_def accounted_def lease_keys_def del: check_Inr)
    next
      case (Inr held)
      then show thesis
        using that [of "Inr ()" held cs'] q inv \<open>check _ _ = Inr u\<close>
        by (simp add: moe_load_def cl Let_def accounted_def lease_keys_def del: check_Inr)
    qed
  qed
qed

lemma layer_effect_leases:
  "layer_effect layer ss ok ss' \<Longrightarrow> layer_effect layer ss False (ss'\<lparr>ss_hidden := h, ss_moe_scratch := sc, ss_leases := held\<rparr>)"
  by (simp add: layer_effect_def)

lemma evaluate_layer_runs:
  fixes hm :: "'e hy3_model"
  assumes "cache_sized hm" "accounted hm (ss, cs)" "kv_inv (ss_cache ss)" "ss_leases ss = []"
  shows "\<exists>(r :: ('e, 'j) scalar_error + unit) ss' cs'. evaluate_layer env hm layer l (ss, cs) = Some (r, ss', cs') \<and>
    accounted hm (ss', cs') \<and> layer_effect layer ss (is_ok r) ss'"
proof -
  have same: "layer_effect layer ss False ss" using assms(3) by (auto simp: layer_effect_def)
  have acc: "accounted hm (s, cs)" if "ss_leases s = []" for s
    using assms(2,4) that by (simp add: accounted_def lease_keys_def)
  show ?thesis
  proof (cases "4294967296 \<le> layer")
    case True
    then show ?thesis using assms(2) same by (simp add: evaluate_layer_def is_ok_def)
  next
    case small: False
    show ?thesis
    proof (cases "lw_feed_forward l")
      case (DenseWeights e)
      obtain r :: "('e, 'j) scalar_error + unit" and ss' where d: "dense_layer env hm layer l e ss = (r, ss')" by fastforce
      show ?thesis
        using dense_layer_effect [OF assms(3,4) d] acc small DenseWeights d by (simp add: evaluate_layer_def)
    next
      case (MoeWeights moe)
      obtain q :: "('e, 'j) scalar_error + routed_expert list" and ss1
        where q: "moe_route env hm layer l moe ss = (q, ss1)" by fastforce
      note route = moe_route_effect [OF assms(3,4) q]
      have ev: "evaluate_layer env hm layer l (ss, cs) = moe_layer env hm layer l moe (ss, cs)"
        using small MoeWeights by (simp add: evaluate_layer_def)
      show ?thesis
      proof (cases q)
        case (Inl err)
        then show ?thesis using route acc q by (simp add: ev moe_layer_def is_ok_def)
      next
        case (Inr routes)
        have "accounted hm (ss1, cs)" using acc route by simp
        from moe_load_runs [OF assms(1) this] obtain w :: "('e, 'j) scalar_error + unit" and held cs1
          where w: "moe_load env hm layer moe routes (ss1, cs) = Some (w, ss1\<lparr>ss_leases := held\<rparr>, cs1)"
          and acc1: "accounted hm (ss1\<lparr>ss_leases := held\<rparr>, cs1)" by metis
        let ?ss2 = "ss1\<lparr>ss_leases := held\<rparr>"
        obtain f :: "('e, 'j) scalar_error + unit" and ss3 where f: "moe_finish env hm moe routes ?ss2 = (f, ss3)" by fastforce
        from moe_finish_effect [OF f] obtain h sc where ss3: "ss3 = ?ss2\<lparr>ss_hidden := h, ss_moe_scratch := sc\<rparr>" by blast
        have e1: "layer_effect layer ss True ss1" using route Inr by (simp add: is_ok_def)
        have acc3: "accounted hm (ss3, cs1)" using acc1 by (simp add: ss3 accounted_def lease_keys_def)
        show ?thesis
        proof (cases w)
          case (Inl err)
          then show ?thesis using e1 w q Inr acc1 by (simp add: ev moe_layer_def is_ok_def layer_effect_def)
        next
          case w': (Inr u)
          show ?thesis
          proof (cases f)
            case (Inl err)
            then show ?thesis using e1 w w' q Inr acc3 f by (simp add: ev moe_layer_def is_ok_def layer_effect_def ss3)
          next
            case f': (Inr v)
            obtain cs2 where "clear_leases ss3 cs1 = (ss3\<lparr>ss_leases := []\<rparr>, cs2)" "accounted hm (ss3\<lparr>ss_leases := []\<rparr>, cs2)"
              using clear_leases_accounted [OF acc3] by (cases "clear_leases ss3 cs1") auto
            then show ?thesis using e1 w w' q Inr f f' by (simp add: ev moe_layer_def is_ok_def layer_effect_def ss3)
          qed
        qed
      qed
    qed
  qed
qed

text \<open>
  Layers \<open>A\<close> of the cache have one more token, layers outside \<open>B\<close> are unchanged, and none has gained more
  than one.
\<close>

definition advanced :: "nat set \<Rightarrow> nat set \<Rightarrow> kv_cache \<Rightarrow> kv_cache \<Rightarrow> bool" where
  "advanced A B c d \<longleftrightarrow> kv_inv d \<and> config_of d = config_of c \<and>
     (\<forall>l < layer_count c. (l \<in> A \<longrightarrow> (\<exists>row. kv_abs d l = kv_abs c l @ [row])) \<and> (l \<notin> B \<longrightarrow> kv_abs d l = kv_abs c l) \<and>
        (kv_abs d l = kv_abs c l \<or> (\<exists>row. kv_abs d l = kv_abs c l @ [row])))"

lemma advanced_refl: "kv_inv c \<Longrightarrow> advanced {} B c c"
  by (simp add: advanced_def)

lemma advanced_layers: "advanced A B c d \<Longrightarrow> layer_count d = layer_count c"
  by (simp add: advanced_def config_of_eq)

lemma advanced_once:
  assumes "grows_at_most layer c d" "layer \<in> B"
  shows "advanced {} B c d"
  using assms unfolding advanced_def grows_at_most_def by blast

lemma advanced_step:
  assumes "grows layer c d" "advanced A B d e" "layer \<notin> B"
  shows "advanced (insert layer A) (insert layer B) c e" "A = {} \<Longrightarrow> advanced {} (insert layer B) c e"
proof -
  have lc: "layer_count d = layer_count c" using assms(1) by (simp add: grows_def grows_at_most_def config_of_eq)
  have one: "config_of e = config_of c" "kv_inv e" using assms(1,2) by (auto simp: advanced_def grows_def grows_at_most_def)
  have at: "\<exists>row. kv_abs e layer = kv_abs c layer @ [row]"
    using assms lc by (auto simp: advanced_def grows_def)
  have other: "kv_abs d l = kv_abs c l" if "l < layer_count c" "l \<noteq> layer" for l
    using assms(1) that by (auto simp: grows_def grows_at_most_def)
  have "(l \<in> insert layer A \<longrightarrow> (\<exists>row. kv_abs e l = kv_abs c l @ [row])) \<and> (l \<notin> insert layer B \<longrightarrow> kv_abs e l = kv_abs c l) \<and>
      (kv_abs e l = kv_abs c l \<or> (\<exists>row. kv_abs e l = kv_abs c l @ [row]))" if "l < layer_count c" for l
  proof (cases "l = layer")
    case True
    then show ?thesis using at by simp
  next
    case False
    then show ?thesis using assms(2) other [OF that False] that lc unfolding advanced_def by (metis insert_iff)
  qed
  then show "advanced (insert layer A) (insert layer B) c e" "A = {} \<Longrightarrow> advanced {} (insert layer B) c e"
    using one unfolding advanced_def by auto
qed

definition layers_effect :: "nat \<Rightarrow> nat \<Rightarrow> session \<Rightarrow> bool \<Rightarrow> session \<Rightarrow> bool" where
  "layers_effect layer n ss ok ss' \<longleftrightarrow>
     advanced (if ok then {layer..<layer + n} else {}) {layer..<layer + n} (ss_cache ss) (ss_cache ss') \<and>
     ss_position ss' = ss_position ss \<and> length (ss_final_normalized ss') = length (ss_final_normalized ss) \<and>
     (if ok then ss_leases ss' = [] else True)"

lemma layers_effect_step:
  assumes "layer_effect layer ss True ss1" "layers_effect (Suc layer) n ss1 ok ss'"
  shows "layers_effect layer (Suc n) ss ok ss'"
proof -
  have range: "insert layer {Suc layer..<Suc layer + n} = {layer..<layer + Suc n}" by auto
  show ?thesis
    using advanced_step [of layer "ss_cache ss" "ss_cache ss1" _ "{Suc layer..<Suc layer + n}" "ss_cache ss'"] assms
    unfolding layers_effect_def layer_effect_def range [symmetric] by (cases ok) auto
qed

lemma evaluate_layers_run:
  fixes hm :: "'e hy3_model"
  assumes "cache_sized hm" "accounted hm (ss, cs)" "kv_inv (ss_cache ss)" "ss_leases ss = []"
  shows "\<exists>(r :: ('e, 'j) scalar_error + unit) ss' cs'. evaluate_layers env hm layer ls (ss, cs) = Some (r, ss', cs') \<and>
    accounted hm (ss', cs') \<and> layers_effect layer (length ls) ss (is_ok r) ss'"
  using assms(2-4)
proof (induction ls arbitrary: layer ss cs)
  case Nil
  then show ?case by (simp add: layers_effect_def advanced_refl is_ok_def)
next
  case (Cons l ls)
  obtain r :: "('e, 'j) scalar_error + unit" and ss1 cs1 where
    one: "evaluate_layer env hm layer l (ss, cs) = Some (r, ss1, cs1)" "accounted hm (ss1, cs1)" "layer_effect layer ss (is_ok r) ss1"
    using evaluate_layer_runs [OF assms(1) Cons.prems] by metis
  show ?case
  proof (cases r)
    case (Inl err)
    have "advanced {} {layer..<layer + length (l # ls)} (ss_cache ss) (ss_cache ss1)"
      using one(3) by (intro advanced_once [of layer]) (auto simp: layer_effect_def)
    then show ?thesis using one Inl by (simp add: layers_effect_def layer_effect_def is_ok_def)
  next
    case (Inr u)
    then have e1: "layer_effect layer ss True ss1" using one(3) by (simp add: is_ok_def)
    then have "kv_inv (ss_cache ss1)" "ss_leases ss1 = []" by (auto simp: layer_effect_def grows_def grows_at_most_def)
    from Cons.IH [OF one(2) this, of "Suc layer"] obtain q :: "('e, 'j) scalar_error + unit" and ss2 cs2 where
      "evaluate_layers env hm (Suc layer) ls (ss1, cs1) = Some (q, ss2, cs2)" "accounted hm (ss2, cs2)"
      "layers_effect (Suc layer) (length ls) ss1 (is_ok q) ss2" by metis
    then show ?thesis using one(1) Inr layers_effect_step [OF e1, of "length ls" "is_ok q" ss2] by simp
  qed
qed

section \<open>The session invariant\<close>

text \<open>No routed token waits for its experts.\<close>

definition moe_idle :: "session \<Rightarrow> bool" where
  "moe_idle ss \<longleftrightarrow> (case ss_moe_scratch ss of None \<Rightarrow> True | Some sc \<Rightarrow> \<not> sc_pending sc)"

lemma moe_finish_idle: "moe_finish env hm moe routes ss = (Inr u, ss') \<Longrightarrow> moe_idle ss'"
  by (auto simp: moe_finish_def Let_def moe_idle_def hy3_moe_finish_token_def split: sum.splits prod.splits if_splits)

lemma moe_layer_Inr:
  fixes hm :: "'e hy3_model"
  assumes "(moe_layer env hm layer l moe st :: ('e, 'j) stepped) = Some (Inr u, st')"
  obtains routes ss ss1 cs1 ss2 where
    "moe_route env hm layer l moe (fst st) = (Inr routes :: ('e, 'j) scalar_error + _, ss)"
    "moe_load env hm layer moe routes (ss, snd st) = Some (Inr () :: ('e, 'j) scalar_error + unit, ss1, cs1)"
    "moe_finish env hm moe routes ss1 = (Inr () :: ('e, 'j) scalar_error + unit, ss2)" "st' = clear_leases ss2 cs1"
proof (cases "moe_route env hm layer l moe (fst st) :: (('e, 'j) scalar_error + _) \<times> _")
  case (Pair q ss)
  then obtain routes where q: "q = Inr routes" using assms by (cases q) (auto simp: moe_layer_def)
  obtain w :: "('e, 'j) scalar_error + unit" and ss1 cs1 where w: "moe_load env hm layer moe routes (ss, snd st) = Some (w, ss1, cs1)"
    using assms Pair q by (auto simp: moe_layer_def)
  then obtain v where w': "w = Inr v" using assms Pair q by (cases w) (auto simp: moe_layer_def)
  obtain f :: "('e, 'j) scalar_error + unit" and ss2 where f: "moe_finish env hm moe routes ss1 = (f, ss2)" by fastforce
  then obtain v' where "f = Inr v'" using assms Pair q w w' by (cases f) (auto simp: moe_layer_def)
  with assms Pair q w w' f show thesis by (intro that [of routes ss ss1 cs1 ss2]) (auto simp: moe_layer_def)
qed

lemma evaluate_layer_idle:
  fixes hm :: "'e hy3_model"
  assumes "(evaluate_layer env hm layer l st :: ('e, 'j) stepped) = Some (Inr u, st')" "moe_idle (fst st)"
  shows "moe_idle (fst st')"
proof (cases "lw_feed_forward l")
  case (DenseWeights e)
  then show ?thesis using assms
    by (auto simp: evaluate_layer_def dense_layer_def moe_idle_def split: if_splits sum.splits prod.splits)
next
  case (MoeWeights moe)
  then have "(moe_layer env hm layer l moe st :: ('e, 'j) stepped) = Some (Inr u, st')"
    using assms(1) by (simp add: evaluate_layer_def split: if_splits)
  then obtain routes ss1 ss2 cs1 where f: "moe_finish env hm moe routes ss1 = (Inr () :: ('e, 'j) scalar_error + unit, ss2)" and st': "st' = clear_leases ss2 cs1"
    using moe_layer_Inr by metis
  from moe_finish_idle [OF f] show ?thesis by (simp add: st' clear_leases_def moe_idle_def)
qed

lemma evaluate_layers_idle:
  "evaluate_layers env hm layer ls st = Some (Inr u, st') \<Longrightarrow> moe_idle (fst st) \<Longrightarrow> moe_idle (fst st')"
  by (induction ls arbitrary: layer st)
     (fastforce split: bind_splits sum.splits prod.splits dest: evaluate_layer_idle)+

definition session_ok :: "'f hy3_model \<Rightarrow> session \<times> expert_cache \<Rightarrow> bool" where
  "session_ok hm st \<longleftrightarrow>
     (let ss = fst st; c = ss_cache ss in
      kv_inv c \<and> layer_count c = length (hm_layers hm) \<and> token_capacity c = hm_context_capacity hm \<and>
      (\<forall>l < length (hm_layers hm). length (kv_abs c l) = ss_position ss) \<and>
      ss_leases ss = [] \<and> moe_idle ss \<and> accounted hm st)"

text \<open>The rows stored for every layer of the model.\<close>

definition stored_rows :: "'f hy3_model \<Rightarrow> session \<Rightarrow> (f32 list \<times> f32 list) list list list" where
  "stored_rows hm ss = map (kv_abs (ss_cache ss)) [0..<length (hm_layers hm)]"

lemma kv_geometry: "config_of d = config_of c \<Longrightarrow> layer_count d = layer_count c \<and> token_capacity d = token_capacity c"
  by (simp add: config_of_eq)

lemma rollback_runs:
  assumes "kv_inv (ss_cache ss)" "layer_count (ss_cache ss) = length (hm_layers hm)"
    and "token_capacity (ss_cache ss) = hm_context_capacity hm" "accounted hm (ss, cs)"
    and "\<forall>l < length (hm_layers hm). n \<le> length (kv_abs (ss_cache ss) l)"
  obtains ss' cs' where "rollback_to (ss, cs) n = (Inr (), ss', cs')" "session_ok hm (ss', cs')" "ss_position ss' = n"
    "stored_rows hm ss' = map (take n) (stored_rows hm ss)"
proof -
  obtain d where rw: "rewind_all (ss_cache ss) n = (Inr (), d)"
    using rewind_all_effect(2) [OF assms(1), of n] assms(2,5) by auto
  note d = rewind_all_effect(1) [OF assms(1) rw]
  have rows: "kv_abs d l = take n (kv_abs (ss_cache ss) l)" if "l < length (hm_layers hm)" for l
    using rewind_all_effect(4) [OF assms(1) rw] that assms(2) by simp
  obtain cs' where cl: "clear_leases ss cs = (ss\<lparr>ss_leases := []\<rparr>, cs')" and acc: "accounted hm (ss\<lparr>ss_leases := []\<rparr>, cs')"
    using clear_leases_accounted [OF assms(4)] by (cases "clear_leases ss cs") auto
  let ?ss = "ss\<lparr>ss_leases := [], ss_cache := d, ss_dense_scratch := scratch_reset (ss_dense_scratch ss),
    ss_moe_scratch := map_option scratch_reset (ss_moe_scratch ss), ss_hidden := zero_fill (ss_hidden ss),
    ss_final_normalized := zero_fill (ss_final_normalized ss), ss_position := n\<rparr>"
  show thesis
  proof (rule that)
    show "rollback_to (ss, cs) n = (Inr (), ?ss, cs')" by (simp add: rollback_to_def rw cl)
    have "moe_idle ?ss" by (simp add: moe_idle_def scratch_reset_def split: option.split)
    moreover have "accounted hm (?ss, cs')" using acc by (simp add: accounted_def lease_keys_def)
    moreover have "length (kv_abs d l) = n" if "l < length (hm_layers hm)" for l
      using rows [OF that] assms(5) that by simp
    ultimately show "session_ok hm (?ss, cs')"
      using d assms(2,3) kv_geometry [of d "ss_cache ss"] by (simp add: session_ok_def Let_def)
    show "ss_position ?ss = n" by simp
    show "stored_rows hm ?ss = map (take n) (stored_rows hm ss)" using rows by (simp add: stored_rows_def)
  qed
qed

text \<open>Resetting, and starting.\<close>

lemma reset_session_ok:
  assumes "session_ok hm st"
  shows "session_ok hm (reset_session st) \<and> ss_position (fst (reset_session st)) = 0"
proof -
  obtain ss cs where st: "st = (ss, cs)" by fastforce
  have k: "kv_inv (ss_cache ss)" "ss_leases ss = []" "accounted hm (ss, cs)" using assms by (auto simp: st session_ok_def Let_def)
  note r = kv_reset_effect [OF k(1)] kv_geometry [OF kv_reset_effect(2) [OF k(1)]]
  have cl: "clear_leases ss cs = (ss, cs)" using k(2) by (cases ss) (simp add: clear_leases_def drop_leases_def)
  show ?thesis
    using assms r k
    by (auto simp: reset_session_def st cl session_ok_def Let_def moe_idle_def accounted_def lease_keys_def
        scratch_reset_def simp del: length_kv_abs split: option.splits)
qed

lemma new_session_ok:
  assumes "new_session env hm = (Inr ss :: ('e, 'j) scalar_error + session)"
    and "length (hm_layers hm) = hc_block_count (hm_config hm)" "cache_inv (hm_cache_config hm) {#} {#} cs"
  shows "session_ok hm (ss, cs) \<and> ss_position ss = 0"
proof -
  obtain dense rest where layers: "hm_layers hm = dense # rest" using assms(1) by (cases "hm_layers hm") (auto simp: new_session_def)
  obtain e where ff: "lw_feed_forward dense = DenseWeights e"
    using assms(1) layers by (cases "lw_feed_forward dense") (auto simp: new_session_def)
  obtain msc where msc: "session_moe_scratch env hm = (Inr msc :: ('e, 'j) scalar_error + block_scratch option)"
    and parts: "ss_moe_scratch ss = msc" "ss_leases ss = []" "ss_position ss = 0"
    and kv: "kv_new_lazy (rn_grant env) (hc_block_count (hm_config hm)) (hc_attention_kv_head_count (hm_config hm))
      (hc_key_length (hm_config hm)) (hc_value_length (hm_config hm)) (hm_kv_page_tokens hm) (hm_context_capacity hm) =
      Inr (ss_cache ss)"
    using assms(1) layers ff by (auto simp: new_session_def rbind_Inr Let_def)
  have "msc = Some sc \<Longrightarrow> \<not> sc_pending sc" for sc
    using msc
    by (auto simp: session_moe_scratch_def rbind_Inr new_streaming_moe_def block_scratch_sized_def Let_def
        split: option.splits if_splits prod.splits)
  then have "moe_idle ss" using parts(1) by (auto simp: moe_idle_def split: option.split)
  moreover note new_with_allocation_inv [OF kv [unfolded kv_new_lazy_def]]
  ultimately show ?thesis
    using parts assms(2,3) by (auto simp: session_ok_def Let_def accounted_def lease_keys_def config_of_def simp del: length_kv_abs)
qed

lemma evaluate_output_effect:
  assumes "evaluate_output env hm ss n = (r, ss')"
  shows "\<exists>normed. ss' = ss\<lparr>ss_final_normalized := normed, ss_position := (if is_ok r then ss_position ss + 1 else ss_position ss)\<rparr>"
    and "r = Inr out \<Longrightarrow> length out = n"
proof -
  have same: "\<exists>normed. ss = ss\<lparr>ss_final_normalized := normed\<rparr>" by (rule exI [of _ "ss_final_normalized ss"]) simp
  show "\<exists>normed. ss' = ss\<lparr>ss_final_normalized := normed, ss_position := (if is_ok r then ss_position ss + 1 else ss_position ss)\<rparr>"
    using assms same by (auto simp: evaluate_output_def Let_def is_ok_def split: sum.splits)
  show "r = Inr out \<Longrightarrow> length out = n"
    using assms gemv_length by (auto simp: evaluate_output_def Let_def rbind_Inr split: sum.splits)
qed

lemma embed_token_Inr:
  "embed_token hm ss tok n = Inr h \<Longrightarrow> tok < hc_vocabulary_size (hm_config hm) \<and> ss_position ss < hm_context_capacity hm \<and>
    n = hc_vocabulary_size (hm_config hm)"
  by (auto simp: embed_token_def Let_def rbind_Inr)

text \<open>What an evaluation does to a session that satisfies the invariant.\<close>

definition evaluation_effect :: "'f hy3_model \<Rightarrow> session \<Rightarrow> nat \<Rightarrow> bool \<Rightarrow> session \<Rightarrow> bool" where
  "evaluation_effect hm ss tok ok ss' \<longleftrightarrow>
     (if ok then ss_position ss' = Suc (ss_position ss) \<and> ss_position ss < hm_context_capacity hm \<and>
        tok < hc_vocabulary_size (hm_config hm) \<and>
        list_all2 (\<lambda>old new. \<exists>row. new = old @ [row]) (stored_rows hm ss) (stored_rows hm ss')
      else ss_position ss' = ss_position ss \<and> stored_rows hm ss' = stored_rows hm ss)"

lemma evaluate_inner_runs:
  fixes hm :: "'e hy3_model"
  assumes "cache_sized hm" "session_ok hm (ss, cs)"
  shows "\<exists>(r :: ('e, 'j) scalar_error + unit) ss' cs' logits'.
    evaluate_inner env hm (ss, cs) tok logits = Some (r, (ss', cs'), logits') \<and> accounted hm (ss', cs') \<and>
    length logits' = length logits \<and> advanced {} UNIV (ss_cache ss) (ss_cache ss') \<and>
    (if is_ok r then session_ok hm (ss', cs') \<and> evaluation_effect hm ss tok True ss' else True)"
proof -
  have k: "kv_inv (ss_cache ss)" "ss_leases ss = []" "accounted hm (ss, cs)" "moe_idle ss"
    "layer_count (ss_cache ss) = length (hm_layers hm)" "token_capacity (ss_cache ss) = hm_context_capacity hm"
    "\<forall>l < length (hm_layers hm). length (kv_abs (ss_cache ss) l) = ss_position ss"
    using assms(2) by (auto simp: session_ok_def Let_def)
  show ?thesis
  proof (cases "embed_token hm ss tok (length logits) :: ('e, 'j) scalar_error + _")
    case (Inl err)
    then show ?thesis using k advanced_refl by (auto simp: evaluate_inner_def is_ok_def)
  next
    case (Inr h)
    let ?ss0 = "ss\<lparr>ss_hidden := h\<rparr>"
    have "accounted hm (?ss0, cs)" using k(3) by (simp add: accounted_def lease_keys_def)
    then obtain r :: "('e, 'j) scalar_error + unit" and ss1 cs1 where
      run: "evaluate_layers env hm 0 (hm_layers hm) (?ss0, cs) = Some (r, ss1, cs1)" and acc: "accounted hm (ss1, cs1)"
      and eff: "layers_effect 0 (length (hm_layers hm)) ?ss0 (is_ok r) ss1"
      using evaluate_layers_run [OF assms(1), of ?ss0 cs env 0 "hm_layers hm"] k by auto
    have any: "advanced {} UNIV (ss_cache ss) (ss_cache ss1)" using eff by (auto simp: layers_effect_def advanced_def)
    show ?thesis
    proof (cases r)
      case (Inl err)
      then show ?thesis using Inr run acc any by (simp add: evaluate_inner_def is_ok_def)
    next
      case r: (Inr u)
      obtain q :: "('e, 'j) scalar_error + f32 list" and ss2 where out: "evaluate_output env hm ss1 (length logits) = (q, ss2)"
        by fastforce
      from evaluate_output_effect(1) [OF out] obtain normed where
        ss2: "ss2 = ss1\<lparr>ss_final_normalized := normed, ss_position := (if is_ok q then ss_position ss1 + 1 else ss_position ss1)\<rparr>"
        by blast
      have acc2: "accounted hm (ss2, cs1)" using acc by (simp add: ss2 accounted_def lease_keys_def)
      show ?thesis
      proof (cases q)
        case (Inl err)
        then show ?thesis using Inr r run out acc2 any by (simp add: evaluate_inner_def is_ok_def ss2)
      next
        case q: (Inr logits')
        have e: "advanced {0..<length (hm_layers hm)} {0..<length (hm_layers hm)} (ss_cache ss) (ss_cache ss1)"
          "ss_position ss1 = ss_position ss" "ss_leases ss1 = []"
          using eff r by (simp_all add: layers_effect_def is_ok_def)
        have grown: "\<exists>row. kv_abs (ss_cache ss1) l = kv_abs (ss_cache ss) l @ [row]" if "l < length (hm_layers hm)" for l
          using e(1) that k(5) by (simp add: advanced_def)
        then have len: "length (kv_abs (ss_cache ss1) l) = Suc (ss_position ss)" if "l < length (hm_layers hm)" for l
          using that k(7) by (metis length_append_singleton)
        have "moe_idle ss1"
          using evaluate_layers_idle [of env hm 0 "hm_layers hm" "(?ss0, cs)" u "(ss1, cs1)", where 'b = 'j] run r k(4)
          by (simp add: moe_idle_def)
        then have "session_ok hm (ss2, cs1)"
          using e acc2 k len kv_geometry [of "ss_cache ss1" "ss_cache ss"] q
          by (simp add: session_ok_def Let_def ss2 is_ok_def moe_idle_def advanced_def del: length_kv_abs)
        moreover have "evaluation_effect hm ss tok True ss2"
          using embed_token_Inr [OF Inr] grown e q
          by (simp add: evaluation_effect_def ss2 is_ok_def stored_rows_def list_all2_conv_all_nth)
        moreover have "length logits' = length logits" using evaluate_output_effect(2) [OF out] q by simp
        ultimately show ?thesis using Inr r q run out any acc2 by (simp add: evaluate_inner_def is_ok_def ss2)
      qed
    qed
  qed
qed

lemma evaluate_runs:
  fixes hm :: "'e hy3_model"
  assumes "cache_sized hm" "session_ok hm (ss, cs)"
  shows "\<exists>(r :: ('e, 'j) scalar_error + unit) ss' cs' logits'.
    evaluate env hm (ss, cs) tok logits = Some (r, (ss', cs'), logits') \<and> session_ok hm (ss', cs') \<and>
    length logits' = length logits \<and> evaluation_effect hm ss tok (is_ok r) ss' \<and>
    (\<exists>st1. evaluate_inner env hm (ss, cs) tok logits = Some (r, st1, logits') \<and>
      (if is_ok r then st1 = (ss', cs')
       else rollback_to st1 (ss_position ss) = (Inr () :: ('e, 'j) scalar_error + unit, ss', cs')))"
proof -
  obtain r :: "('e, 'j) scalar_error + unit" and ss1 cs1 logits' where
    run: "evaluate_inner env hm (ss, cs) tok logits = Some (r, (ss1, cs1), logits')" and acc: "accounted hm (ss1, cs1)"
    and len: "length logits' = length logits" and adv: "advanced {} UNIV (ss_cache ss) (ss_cache ss1)"
    and ok: "if is_ok r then session_ok hm (ss1, cs1) \<and> evaluation_effect hm ss tok True ss1 else True"
    using evaluate_inner_runs [OF assms, of env tok logits] by metis
  show ?thesis
  proof (cases r)
    case (Inr u)
    then show ?thesis using run len ok by (simp add: evaluate_def is_ok_def)
  next
    case (Inl err)
    have k: "layer_count (ss_cache ss) = length (hm_layers hm)" "token_capacity (ss_cache ss) = hm_context_capacity hm"
      "\<forall>l < length (hm_layers hm). length (kv_abs (ss_cache ss) l) = ss_position ss"
      using assms(2) by (auto simp: session_ok_def Let_def)
    have d: "kv_inv (ss_cache ss1)" "config_of (ss_cache ss1) = config_of (ss_cache ss)" using adv by (simp_all add: advanced_def)
    note g = kv_geometry [OF d(2)]
    have rows: "take (ss_position ss) (kv_abs (ss_cache ss1) l) = kv_abs (ss_cache ss) l \<and>
        ss_position ss \<le> length (kv_abs (ss_cache ss1) l)" if "l < length (hm_layers hm)" for l
    proof -
      from adv that k(1) have "kv_abs (ss_cache ss1) l = kv_abs (ss_cache ss) l \<or>
          (\<exists>row. kv_abs (ss_cache ss1) l = kv_abs (ss_cache ss) l @ [row])" by (simp add: advanced_def)
      then show ?thesis using k(3) that by (auto simp del: length_kv_abs)
    qed
    obtain ss' cs' where rb: "rollback_to (ss1, cs1) (ss_position ss) = (Inr () :: ('e, 'j) scalar_error + unit, ss', cs')"
      "session_ok hm (ss', cs')" "ss_position ss' = ss_position ss"
      "stored_rows hm ss' = map (take (ss_position ss)) (stored_rows hm ss1)"
      using rollback_runs [OF d(1) _ _ acc, of "ss_position ss"] k g rows by (metis (no_types, lifting))
    have "stored_rows hm ss' = stored_rows hm ss" using rb(4) rows by (simp add: stored_rows_def)
    then show ?thesis using Inl run rb len by (simp add: evaluate_def evaluation_effect_def is_ok_def)
  qed
qed

end
