(* ===== verification/Hy3_Cached.thy ===== *)
theory Hy3_Cached
  imports Hy3_Session
begin

text \<open>
  Evaluation without a cache, as the specification of the evaluation with one: every routed expert is what
  its key stands for in the model files. The theorems of this theory say that the expert cache, whatever it
  holds and however it is sized, changes no result, that evaluation keeps the session invariant, and what creating,
  resetting, restoring and rolling back a session do.
\<close>

section \<open>Evaluation without a cache\<close>

definition model_payload :: "byte list list \<Rightarrow> 'f hy3_model \<Rightarrow> expert_key \<Rightarrow> byte list" where
  "model_payload datas hm key = (case hm_expert_source hm of None \<Rightarrow> [] | Some source \<Rightarrow> source_payload datas source key)"

definition model_faithful :: "byte list list \<Rightarrow> 'f hy3_model \<Rightarrow> bool" where
  "model_faithful datas hm \<longleftrightarrow> (case hm_expert_source hm of None \<Rightarrow> True | Some source \<Rightarrow> source_faithful datas source)"

definition direct_leases :: "(expert_key \<Rightarrow> byte list) \<Rightarrow> nat \<Rightarrow> routed_expert list \<Rightarrow> lease list" where
  "direct_leases payload layer routes =
     map (\<lambda>r. (ExpertKey layer (re_expert_id r), payload (ExpertKey layer (re_expert_id r)))) routes"

definition direct_layer ::
  "run_env \<Rightarrow> 'f hy3_model \<Rightarrow> (expert_key \<Rightarrow> byte list) \<Rightarrow> nat \<Rightarrow> layer_weights \<Rightarrow> session \<Rightarrow>
    (('e, 'j) scalar_error + unit) \<times> session" where
  "direct_layer env hm payload layer l ss =
     (if 4294967296 \<le> layer then (Inl (ScRun ScArithmeticOverflow), ss)
      else case lw_feed_forward l of
        DenseWeights e \<Rightarrow> dense_layer env hm layer l e ss
      | MoeWeights moe \<Rightarrow>
          (case moe_route env hm layer l moe ss of
             (Inl err, ss1) \<Rightarrow> (Inl err, ss1)
           | (Inr routes, ss1) \<Rightarrow>
               (case moe_finish env hm moe routes (ss1\<lparr>ss_leases := direct_leases payload layer routes\<rparr>) of
                  (r, ss2) \<Rightarrow> (r, ss2\<lparr>ss_leases := []\<rparr>))))"

fun direct_layers ::
  "run_env \<Rightarrow> 'f hy3_model \<Rightarrow> (expert_key \<Rightarrow> byte list) \<Rightarrow> nat \<Rightarrow> layer_weights list \<Rightarrow> session \<Rightarrow>
    (('e, 'j) scalar_error + unit) \<times> session" where
  "direct_layers env hm payload layer [] ss = (Inr (), ss)"
| "direct_layers env hm payload layer (l # ls) ss =
     (case direct_layer env hm payload layer l ss of
        (Inl err, ss') \<Rightarrow> (Inl err, ss')
      | (Inr _, ss') \<Rightarrow> direct_layers env hm payload (Suc layer) ls ss')"

definition direct_token ::
  "run_env \<Rightarrow> 'f hy3_model \<Rightarrow> (expert_key \<Rightarrow> byte list) \<Rightarrow> session \<Rightarrow> nat \<Rightarrow> nat \<Rightarrow>
    (('e, 'j) scalar_error + f32 list) \<times> session" where
  "direct_token env hm payload ss tok n =
     (case embed_token hm ss tok n of
        Inl err \<Rightarrow> (Inl err, ss)
      | Inr hidden \<Rightarrow>
          (case direct_layers env hm payload 0 (hm_layers hm) (ss\<lparr>ss_hidden := hidden\<rparr>) of
             (Inl err, ss') \<Rightarrow> (Inl err, ss')
           | (Inr _, ss') \<Rightarrow> evaluate_output env hm ss' n))"

text \<open>The errors of fetching an expert: the cache, the reader, and the reservation of the lease table.\<close>

definition loading_error :: "('e, 'j) scalar_error \<Rightarrow> bool" where
  "loading_error err \<longleftrightarrow>
     (case err of
        ScExpertCache _ \<Rightarrow> True
      | ScRun f \<Rightarrow> f = MissingExpertSource \<or> f = ScArithmeticOverflow \<or>
          (case f of ScAllocationFailed ctxt _ \<Rightarrow> ctxt = ''selected expert leases'' | _ \<Rightarrow> False)
      | _ \<Rightarrow> False)"

section \<open>The cache changes nothing\<close>

lemma load_route_coherent:
  fixes hm :: "'e hy3_model"
  assumes "cache_sized hm" "cache_inv (hm_cache_config hm) L {#} cs" "model_faithful datas hm"
    and "coherent (model_payload datas hm) cs"
    and "load_route env hm layer layout position route cs = Some (r :: ('e, 'j) scalar_error + lease, cs')"
  shows "coherent (model_payload datas hm) cs' \<and> (case r of
      Inl err \<Rightarrow> loading_error err
    | Inr lease \<Rightarrow> lease = (ExpertKey layer (re_expert_id route), model_payload datas hm (ExpertKey layer (re_expert_id route))))"
proof -
  let ?key = "ExpertKey layer (re_expert_id route)"
  show ?thesis
  proof (cases "rbind (ok_or (ScRun ScArithmeticOverflow) (total_bytes layout)) (\<lambda>expected.
           rbind (ok_or (ScRun MissingExpertSource) (hm_expert_source hm)) (\<lambda>source. Inr (expected, source)))
           :: ('e, 'j) scalar_error + _")
    case (Inl err)
    then have "r = Inl err" "cs' = cs" using assms(5) by (simp_all add: load_route_def)
    moreover have "loading_error err" using Inl by (auto simp: rbind_Inl loading_error_def)
    ultimately show ?thesis using assms(4) by simp
  next
    case (Inr p)
    obtain expected source where p: "p = (expected, source)" by fastforce
    have src: "hm_expert_source hm = Some source" using Inr p by (auto simp: rbind_Inr)
    let ?loader = "\<lambda>_. read_tight (rn_read_grant env) source ?key layout (rn_time env position ?key) :: ('e, 'j) expert_read_error + _"
    obtain q where q: "get_or_try_insert (hm_cache_config hm) ?key expected ?loader cs = Some (q, cs')"
      and r: "r = map_err ScExpertCache (map_sum id (Pair ?key) q)"
      using assms(5) [unfolded load_route_def Let_def Inr p] by auto
    have load: "b = model_payload datas hm ?key" if "?loader () = Inr b" for b
      using read_tight_payload [of datas source, OF _ that] assms(3) src
      by (simp add: model_faithful_def model_payload_def)
    note coherent_load [OF assms(2) assms(1) [unfolded cache_sized_def] assms(4) load q]
    then show ?thesis by (cases q) (simp_all add: r loading_error_def)
  qed
qed

lemma load_routes_coherent:
  fixes hm :: "'e hy3_model"
  assumes "cache_sized hm" "cache_inv (hm_cache_config hm) (mset (map fst held)) {#} cs" "model_faithful datas hm"
    and "coherent (model_payload datas hm) cs"
    and "load_routes (load_route env hm layer layout position) routes held cs = Some (r :: ('e, 'j) scalar_error + lease list, cs')"
  shows "coherent (model_payload datas hm) cs' \<and> (case r of
      Inl err \<Rightarrow> loading_error err | Inr all \<Rightarrow> all = held @ direct_leases (model_payload datas hm) layer routes)"
  using assms(2,4,5)
proof (induction routes arbitrary: held cs)
  case Nil
  then show ?case by (auto simp: direct_leases_def)
next
  case (Cons route routes)
  obtain res :: "('e, 'j) scalar_error + lease" and cs1 where one: "load_route env hm layer layout position route cs = Some (res, cs1)"
    and inv: "case res of Inl _ \<Rightarrow> cache_inv (hm_cache_config hm) (mset (map fst held)) {#} cs1
     | Inr lease \<Rightarrow> cache_inv (hm_cache_config hm) (add_mset (fst lease) (mset (map fst held))) {#} cs1"
    using load_route_runs [OF assms(1) Cons.prems(1)] by metis
  note coh = load_route_coherent [OF assms(1) Cons.prems(1) assms(3) Cons.prems(2) one]
  show ?case
  proof (cases res)
    case (Inl e)
    have "coherent payload (drop_leases ls c)" if "coherent payload c" for payload ls c
      using that by (induction ls arbitrary: c) (auto simp: drop_leases_def intro: coherent_drop)
    then show ?thesis using Cons.prems(3) one Inl coh by auto
  next
    case (Inr lease)
    then have "cache_inv (hm_cache_config hm) (mset (map fst (held @ [lease]))) {#} cs1" using inv by simp
    from Cons.IH [OF this] Cons.prems(3) one Inr coh show ?thesis by (auto simp: direct_leases_def split: sum.splits)
  qed
qed

lemma coherent_clear: "coherent payload cs \<Longrightarrow> coherent payload (snd (clear_leases ss cs))"
proof -
  have "coherent payload (drop_leases ls c)" if "coherent payload c" for ls c
    using that by (induction ls arbitrary: c) (auto simp: drop_leases_def intro: coherent_drop)
  then show "coherent payload cs \<Longrightarrow> coherent payload (snd (clear_leases ss cs))" by (simp add: clear_leases_def)
qed

lemma moe_load_coherent:
  fixes hm :: "'e hy3_model"
  assumes "cache_sized hm" "accounted hm (ss, cs)" "model_faithful datas hm" "coherent (model_payload datas hm) cs"
    and "moe_load env hm layer moe routes (ss, cs) = Some (r :: ('e, 'j) scalar_error + unit, ss', cs')"
  shows "coherent (model_payload datas hm) cs' \<and> (case r of
      Inl err \<Rightarrow> loading_error err | Inr _ \<Rightarrow> ss' = ss\<lparr>ss_leases := direct_leases (model_payload datas hm) layer routes\<rparr>)"
proof -
  obtain cs0 where cl: "clear_leases ss cs = (ss\<lparr>ss_leases := []\<rparr>, cs0)"
    and acc: "accounted hm (ss\<lparr>ss_leases := []\<rparr>, cs0)" and c0: "coherent (model_payload datas hm) cs0"
    using clear_leases_accounted [OF assms(2)] coherent_clear [OF assms(4), of ss] by (cases "clear_leases ss cs") auto
  show ?thesis
  proof (cases "check (hm_cpu_backend hm \<noteq> None \<or> rn_grant env (''selected expert leases'', []) (length routes))
      (ScRun (ScAllocationFailed ''selected expert leases'' (length routes))) :: ('e, 'j) scalar_error + unit")
    case (Inl err)
    then have "r = Inl err" "cs' = cs0" using assms(5) by (simp_all add: moe_load_def cl Let_def del: check_Inl)
    moreover have "loading_error err" using Inl by (auto simp: loading_error_def)
    ultimately show ?thesis using c0 by simp
  next
    case (Inr u)
    note run = assms(5) [unfolded moe_load_def cl Let_def prod.case Inr sum.case]
    obtain q :: "('e, 'j) scalar_error + lease list" and cs1 where
      q': "load_routes (load_route env hm layer (on_layout moe) (ss_position ss)) routes [] cs0 = Some (q, cs1)"
      using run by (auto simp del: load_routes.simps)
    have "cs1 = cs'" and r: "(r, ss') = (case q of Inl err \<Rightarrow> (Inl err, ss\<lparr>ss_leases := []\<rparr>) | Inr held \<Rightarrow> (Inr (), ss\<lparr>ss_leases := held\<rparr>))"
      using run q' by (cases q; simp)+
    note q = q' [unfolded \<open>cs1 = cs'\<close>]
    have "cache_inv (hm_cache_config hm) (mset (map fst [])) {#} cs0" using acc by (simp add: accounted_def lease_keys_def)
    from load_routes_coherent [OF assms(1) this assms(3) c0 q] r show ?thesis by (cases q) auto
  qed
qed

lemma leases_unchanged: "moe_finish env hm moe routes ss = (r, ss') \<Longrightarrow> ss_leases ss' = ss_leases ss"
  using moe_finish_effect by fastforce

lemma evaluate_layer_direct:
  fixes hm :: "'e hy3_model"
  assumes "cache_sized hm" "accounted hm (ss, cs)" "kv_inv (ss_cache ss)" "ss_leases ss = []"
    and "model_faithful datas hm" "coherent (model_payload datas hm) cs"
    and "evaluate_layer env hm layer l (ss, cs) = Some (r :: ('e, 'j) scalar_error + unit, ss', cs')"
  shows "coherent (model_payload datas hm) cs' \<and> (case r of
      Inl err \<Rightarrow> loading_error err \<or> (\<exists>s. direct_layer env hm (model_payload datas hm) layer l ss = (Inl err, s))
    | Inr _ \<Rightarrow> direct_layer env hm (model_payload datas hm) layer l ss = (Inr () :: ('e, 'j) scalar_error + unit, ss'))"
proof (cases "4294967296 \<le> layer")
  case True
  then show ?thesis using assms(6,7) by (auto simp: evaluate_layer_def loading_error_def)
next
  case small: False
  show ?thesis
  proof (cases "lw_feed_forward l")
    case (DenseWeights e)
    then show ?thesis using assms(6,7) small
      by (auto simp: evaluate_layer_def direct_layer_def split: prod.splits sum.splits)
  next
    case (MoeWeights moe)
    have run: "moe_layer env hm layer l moe (ss, cs) = Some (r, ss', cs')"
      using assms(7) small MoeWeights by (simp add: evaluate_layer_def)
    obtain q :: "('e, 'j) scalar_error + routed_expert list" and ss1 where q: "moe_route env hm layer l moe ss = (q, ss1)" by fastforce
    show ?thesis
    proof (cases q)
      case (Inl err)
      then have "r = Inl err" "cs' = cs" using run q by (auto simp: moe_layer_def)
      then show ?thesis using Inl q small MoeWeights assms(6) by (simp add: direct_layer_def)
    next
      case (Inr routes)
      have acc: "accounted hm (ss1, cs)"
        using moe_route_effect [OF assms(3,4) q] assms(2,4) by (simp add: accounted_def lease_keys_def)
      obtain w :: "('e, 'j) scalar_error + unit" and ss2 cs2 where
        w: "moe_load env hm layer moe routes (ss1, cs) = Some (w, ss2, cs2)"
        using run q Inr by (auto simp: moe_layer_def)
      note load = moe_load_coherent [OF assms(1) acc assms(5,6) w]
      show ?thesis
      proof (cases w)
        case (Inl err)
        then have "r = Inl err" "cs' = cs2" using run q Inr w by (auto simp: moe_layer_def)
        then show ?thesis using load Inl by simp
      next
        case w': (Inr u)
        then have ss2: "ss2 = ss1\<lparr>ss_leases := direct_leases (model_payload datas hm) layer routes\<rparr>" using load by simp
        obtain f :: "('e, 'j) scalar_error + unit" and ss3 where f: "moe_finish env hm moe routes ss2 = (f, ss3)" by fastforce
        have d: "direct_layer env hm (model_payload datas hm) layer l ss = (f, ss3\<lparr>ss_leases := []\<rparr>)"
          using small MoeWeights q Inr f by (simp add: direct_layer_def ss2)
        show ?thesis
        proof (cases f)
          case (Inl err)
          then have "r = Inl err" "cs' = cs2" using run q Inr w w' f by (auto simp: moe_layer_def)
          then show ?thesis using load d Inl by simp
        next
          case (Inr v)
          then have "r = Inr ()" "(ss', cs') = clear_leases ss3 cs2"
            using run q \<open>q = Inr routes\<close> w w' f by (auto simp: moe_layer_def)
          then show ?thesis using load d Inr coherent_clear [of "model_payload datas hm" cs2 ss3]
            by (auto simp: clear_leases_def)
        qed
      qed
    qed
  qed
qed

lemma evaluate_layers_direct:
  fixes hm :: "'e hy3_model"
  assumes "cache_sized hm" "model_faithful datas hm"
    and "accounted hm (ss, cs)" "kv_inv (ss_cache ss)" "ss_leases ss = []" "coherent (model_payload datas hm) cs"
    and "evaluate_layers env hm layer ls (ss, cs) = Some (r :: ('e, 'j) scalar_error + unit, ss', cs')"
  shows "coherent (model_payload datas hm) cs' \<and> (case r of
      Inl err \<Rightarrow> loading_error err \<or> (\<exists>s. direct_layers env hm (model_payload datas hm) layer ls ss = (Inl err, s))
    | Inr _ \<Rightarrow> direct_layers env hm (model_payload datas hm) layer ls ss = (Inr () :: ('e, 'j) scalar_error + unit, ss'))"
  using assms(3-7)
proof (induction ls arbitrary: layer ss cs)
  case Nil
  then show ?case by auto
next
  case (Cons l ls)
  obtain q :: "('e, 'j) scalar_error + unit" and ss1 cs1 where
    one: "evaluate_layer env hm layer l (ss, cs) = Some (q, ss1, cs1)" and acc: "accounted hm (ss1, cs1)"
    and eff: "layer_effect layer ss (is_ok q) ss1"
    using evaluate_layer_runs [OF assms(1) Cons.prems(1-3)] by metis
  note d = evaluate_layer_direct [OF assms(1) Cons.prems(1-3) assms(2) Cons.prems(4) one]
  show ?case
  proof (cases q)
    case (Inl err)
    then show ?thesis using Cons.prems(5) one d by auto
  next
    case (Inr u)
    then have ok: "kv_inv (ss_cache ss1)" "ss_leases ss1 = []"
      using eff by (auto simp: layer_effect_def is_ok_def grows_def grows_at_most_def)
    have rest: "evaluate_layers env hm (Suc layer) ls (ss1, cs1) = Some (r, ss', cs')"
      using Cons.prems(5) one Inr by simp
    have coh: "coherent (model_payload datas hm) cs1" using d by simp
    from Cons.IH [OF acc ok coh rest] d Inr show ?thesis by (auto split: sum.splits)
  qed
qed

section \<open>Snapshots of a session\<close>

text \<open>Rewinding a uniform cache to the length it has changes nothing.\<close>

lemma rewind_all_same:
  assumes "kv_inv c" "\<forall>l < layer_count c. lengths c ! l = n"
  shows "rewind_all c n = (Inr (), c)"
proof -
  have len: "length (lengths c) = layer_count c" using assms(1) by (simp add: kv_inv_def kv_shape_def)
  then have "lengths c = replicate (length (lengths c)) n" using assms(2) by (intro nth_equalityI) simp_all
  moreover have "rewind_check 0 n (lengths c) = Inr ()"
    using assms(2) by (simp add: rewind_check_iff all_set_conv_all_nth len)
  ultimately show ?thesis by (simp add: rewind_all_def)
qed

lemma restore_kv_snapshot_runs:
  fixes st :: "session \<times> expert_cache"
  assumes "session_ok hm st" "hm_layers hm \<noteq> []"
    and "restore_kv_snapshot sha env hm st bytes maximum = (r :: ('e, 'j) scalar_error + unit, st')"
  shows "session_ok hm st' \<and> (if is_ok r
    then restore_parse sha (rn_grant env) (ss_cache (fst st)) (hm_fingerprint hm) bytes maximum True = Inr (ss_cache (fst st')) \<and>
      bytes = snapshot_payload (ss_cache (fst st')) (hm_fingerprint hm) @ sha (snapshot_payload (ss_cache (fst st')) (hm_fingerprint hm)) \<and>
      config_of (ss_cache (fst st')) = config_of (ss_cache (fst st)) \<and> length bytes \<le> maximum
    else st' = st \<and> (\<exists>e. restore_parse sha (rn_grant env) (ss_cache (fst st)) (hm_fingerprint hm) bytes maximum True = Inl e))"
proof -
  obtain ss cs where st: "st = (ss, cs)" by fastforce
  have k: "kv_inv (ss_cache ss)" "layer_count (ss_cache ss) = length (hm_layers hm)" "accounted hm (ss, cs)"
    "token_capacity (ss_cache ss) = hm_context_capacity hm"
    using assms(1) by (auto simp: st session_ok_def Let_def)
  show ?thesis
  proof (cases "restore_parse sha (rn_grant env) (ss_cache ss) (hm_fingerprint hm) bytes maximum True")
    case (Inl e)
    then have "r = Inl (ScKv e)" "st' = (ss, cs)"
      using assms(3) by (auto simp: st restore_kv_snapshot_def restore_uniform_snapshot_def restore_snapshot_internal_def)
    then show ?thesis using assms(1) Inl by (simp add: st is_ok_def)
  next
    case (Inr d)
    from restore_parse_sound [OF Inr k(1)] have d: "kv_inv d" "config_of d = config_of (ss_cache ss)"
      and bytes: "bytes = snapshot_payload d (hm_fingerprint hm) @ sha (snapshot_payload d (hm_fingerprint hm))" "length bytes \<le> maximum"
      and u: "\<forall>i < layer_count (ss_cache ss). \<forall>j < layer_count (ss_cache ss). length (kv_abs d i) = length (kv_abs d j)"
      by (simp_all only: simp_thms) blast+
    note g = kv_geometry [OF d(2)]
    let ?ss = "ss\<lparr>ss_cache := d\<rparr>"
    have "kv_stored_tokens ?ss 0 = (Inr (length (kv_abs d 0)) :: ('e, 'j) scalar_error + nat)"
      using assms(2) k(2) g by (simp add: kv_stored_tokens_def stored_tokens_def validate_layer_def)
    then have run: "rollback_to (?ss, cs) (length (kv_abs d 0)) = (r, st')"
      using assms(3) Inr
      by (simp add: st restore_kv_snapshot_def restore_uniform_snapshot_def restore_snapshot_internal_def)
    have same: "length (kv_abs d l) = length (kv_abs d 0)" if "l < length (hm_layers hm)" for l
      using u k(2) that assms(2) by (metis length_greater_0_conv)
    have acc: "accounted hm (?ss, cs)" using k(3) by (simp add: accounted_def lease_keys_def)
    have fields: "kv_inv (ss_cache ?ss)" "layer_count (ss_cache ?ss) = length (hm_layers hm)"
      "token_capacity (ss_cache ?ss) = hm_context_capacity hm"
      "\<forall>l < length (hm_layers hm). length (kv_abs d 0) \<le> length (kv_abs (ss_cache ?ss) l)"
      using d g k same by simp_all
    from rollback_runs [OF fields(1-3) acc fields(4)]
    obtain ss' cs' where undone: "rollback_to (?ss, cs) (length (kv_abs d 0)) = (Inr () :: ('e, 'j) scalar_error + unit, ss', cs')"
      "session_ok hm (ss', cs')" by metis
    have "rewind_all d (length (kv_abs d 0)) = (Inr (), d)"
      using rewind_all_same [OF d(1)] same k(2) g by simp
    then have "ss_cache ss' = d"
      using undone(1) by (auto simp: rollback_to_def clear_leases_def)
    moreover have eq: "r = Inr ()" "st' = (ss', cs')" using run undone(1) by simp_all
    moreover have ok: "is_ok r" by (simp add: eq is_ok_def)
    ultimately show ?thesis
      unfolding st eq(2) fst_conv if_P [OF ok] using Inr undone(2) d(2) bytes by blast
  qed
qed

section \<open>A model of one layer\<close>

text \<open>The zero block as the only layer of a model with a vocabulary of two and its one expert in the cache.\<close>

definition zero_owned :: "nat \<Rightarrow> nat \<Rightarrow> owned_matrix" where
  "zero_owned i n = \<lparr>om_ty = F32, om_input_width = i, om_output_width = n, om_bytes = replicate (4 * i * n) 0\<rparr>"

definition zero_owned_expert :: owned_expert where
  "zero_owned_expert = \<lparr>ow_gate = zero_owned 1 1, ow_up = zero_owned 1 1, ow_down = zero_owned 1 1\<rparr>"

definition zero_layer :: layer_weights where
  "zero_layer = \<lparr>lw_attention = \<lparr>oa_input_norm = [0], oa_query = zero_owned 1 2, oa_query_norm = [0, 0],
       oa_key = zero_owned 1 2, oa_key_norm = [0, 0], oa_value = zero_owned 1 1, oa_output = zero_owned 1 1\<rparr>,
     lw_ffn_norm = [0],
     lw_feed_forward = MoeWeights \<lparr>on_router = zero_owned 1 1, on_selection_bias = [0], on_shared = zero_owned_expert,
       on_layout = \<lparr>pl_gate = \<lparr>ml_ty = F32, ml_input_width = 1, ml_output_width = 1, ml_bytes = 4\<rparr>,
         pl_up = \<lparr>ml_ty = F32, ml_input_width = 1, ml_output_width = 1, ml_bytes = 4\<rparr>,
         pl_down = \<lparr>ml_ty = F32, ml_input_width = 1, ml_output_width = 1, ml_bytes = 4\<rparr>\<rparr>\<rparr>\<rparr>"

definition zero_segment :: "nat \<Rightarrow> payload_segment" where
  "zero_segment i = \<lparr>sr_shard_index = 0, sr_range = (4 * i, 4 * i + 4), sr_ggml_type = ''F32''\<rparr>"

definition zero_store :: "unit direct_store" where
  "zero_store = \<lparr>ds_readers = [\<lparr>pf_file = (\<lambda>t off n. Inr (take n (drop off (replicate 12 0)))), pf_path = ''m'',
       pf_length = 12, pf_limits = read_limits_default\<rparr>],
     ds_index = [\<lparr>dr_key = ExpertKey 0 0, dr_gate = zero_segment 0, dr_up = zero_segment 1, dr_down = zero_segment 2\<rparr>]\<rparr>"

definition zero_expert_cache :: expert_cache where
  "zero_expert_cache = \<lparr>entries = [(ExpertKey 0 0, Ready (replicate 12 0) 0 1 True)], heat = [], used_bytes = 12,
     reserved_bytes = 0, tick = 1, hits = 0, misses = 0, loads = 0, waits = 0, evictions = 0\<rparr>"

definition zero_model :: "unit hy3_model" where
  "zero_model = \<lparr>hm_config = tiny_config\<lparr>hc_block_count := 1, hc_attention_head_count := 1, hc_attention_kv_head_count := 1,
       hc_key_length := 2, hc_value_length := 1, hc_rms_epsilon := f32_one, hc_expert_count := 1, hc_expert_used_count := 1,
       hc_expert_weights_scale := f32_one, hc_vocabulary_size := 2\<rparr>,
     hm_context_capacity = 3, hm_execution_mode = DequantF32, hm_cpu_backend = None, hm_kv_page_tokens = 2,
     hm_source_paths = [], hm_source_sha256 = [], hm_fingerprint = [], hm_resident_bytes = 0,
     hm_embeddings = zero_owned 1 2, hm_layers = [zero_layer], hm_output_norm = [0], hm_output = zero_owned 1 2,
     hm_rope = zero_rope, hm_expert_source = Some (DirectSource zero_store),
     hm_cache_config = \<lparr>capacity_bytes = 100, admit_after_requests = 1\<rparr>, hm_expert_cache = zero_expert_cache\<rparr>"

definition zero_session :: session where
  "zero_session = \<lparr>ss_cache = zero_cache, ss_dense_scratch = zero_scratch, ss_moe_scratch = Some zero_scratch,
     ss_hidden = [0], ss_final_normalized = [0], ss_decoded_block = 256, ss_q8 = 0, ss_leases = [], ss_position = 0\<rparr>"

definition zero_env :: run_env where
  "zero_env = \<lparr>rn_machine = zero_machine, rn_grant = (\<lambda>_ _. True), rn_read_grant = (\<lambda>_. True), rn_time = (\<lambda>_ _. 0)\<rparr>"

lemma zero_sized: "cache_sized zero_model"
  by (simp add: cache_sized_def zero_model_def u64_limit_def)

lemma zero_session_ok: "session_ok zero_model (zero_session, zero_expert_cache)"
proof -
  have "books_ok {#} {#} zero_expert_cache"
    by (auto simp: books_ok_def zero_expert_cache_def sum_entries_def)
  then have "accounted zero_model (zero_session, zero_expert_cache)"
    by (simp add: accounted_def cache_inv_def lease_keys_def zero_session_def zero_model_def)
      (simp add: zero_expert_cache_def)
  moreover have "layer_count zero_cache = 1" "token_capacity zero_cache = 3" "lengths zero_cache = [0]"
    by (simp_all add: zero_cache_def)
  ultimately show ?thesis
    using zero_cache_inv
    by (simp add: session_ok_def Let_def zero_session_def moe_idle_def) (simp add: zero_model_def zero_scratch_def)
qed

definition zero_moe :: owned_moe where
  "zero_moe = (case lw_feed_forward zero_layer of MoeWeights moe \<Rightarrow> moe)"

lemma zero_layer_parts: "lw_feed_forward zero_layer = MoeWeights zero_moe" "lw_ffn_norm zero_layer = [0]"
  "hm_layers zero_model = [zero_layer]" "hm_execution_mode zero_model = DequantF32" "hm_rope zero_model = zero_rope"
  "hc_rms_epsilon (hm_config zero_model) = f32_one" "hm_cpu_backend zero_model = None" "hm_output_norm zero_model = [0]"
  by (simp_all add: zero_moe_def zero_layer_def zero_model_def)

lemma zero_parts: "from_parts F32 PayloadLittle 1 n (replicate (4 * n) 0) = Inr (zero_matrix 1 n)" if "n = 1 \<or> n = 2"
  using that
  by (auto simp: from_parts_def encoded_view_new_def packed_new_def fixed_row_bytes_def row_size_def checked_mul_def
      u64_limit_def zero_matrix_def Let_def upt_rec)

lemma zero_views:
  "owned_view (zero_owned (Suc 0) (Suc 0)) = (Inr (zero_matrix 1 1) :: ('e, 'j) scalar_error + _)"
  "owned_view (zero_owned (Suc 0) 2) = (Inr (zero_matrix 1 2) :: ('e, 'j) scalar_error + _)"
  using zero_parts [of 1] zero_parts [of 2] by (simp_all add: owned_view_def zero_owned_def)

lemma zero_expert_view: "expert_view zero_owned_expert = (Inr zero_expert :: ('e, 'j) scalar_error + _)"
  by (simp add: expert_view_def zero_owned_expert_def zero_views)
    (simp add: swiglu_expert_new_def require_equal_def zero_matrix_def zero_expert_def)

lemma zero_payload_view: "payload_view (on_layout zero_moe) (replicate 12 0) = (Inr zero_expert :: ('e, 'j) scalar_error + _)"
proof -
  have cut: "take 4 (replicate 12 x) = replicate 4 x" "drop 4 (replicate 12 x) = replicate 8 x"
    "take 4 (replicate 8 x) = replicate 4 x" "drop 8 (replicate 12 x) = replicate 4 x" for x :: byte by simp_all
  have m: "layout_matrix \<lparr>ml_ty = F32, ml_input_width = 1, ml_output_width = 1, ml_bytes = 4\<rparr> (replicate 4 0) =
      (Inr (zero_matrix 1 1) :: ('e, 'j) scalar_error + _)"
    using zero_parts [of 1] by (simp add: layout_matrix_def)
  show ?thesis
    by (simp add: payload_view_def zero_moe_def zero_layer_def total_bytes_def checked_add_def u64_limit_def Let_def m [simplified])
      (simp add: swiglu_expert_new_def require_equal_def zero_matrix_def zero_expert_def)
qed

lemma zero_streaming_view:
  "streaming_view zero_moe (lw_attention zero_layer) (lw_ffn_norm zero_layer) (hm_config zero_model) =
    (Inr zero_streaming :: ('e, 'j) scalar_error + _)"
  by (simp add: streaming_view_def attention_view_def zero_moe_def zero_layer_def zero_views zero_expert_view)
    (simp add: zero_streaming_def zero_model_def)

lemma zero_executes: "layer_execution zero_model 0 ss = zero_execution" if "ss_position ss = 0"
  using that by (simp add: layer_execution_def zero_layer_parts zero_execution_def)

lemma zero_embeds: "embed_token zero_model zero_session 0 2 = (Inr [0] :: ('e, 'j) scalar_error + _)"
proof -
  have four: "replicate 4 x = [x, x, x, x]" for x :: byte by (simp add: numeral_eq_Suc)
  have "decode_row F32 (replicate 4 0) 1 1 = Inr [0]"
    by (simp add: decode_row_def f32_layout checked_row_lengths_def checked_usize_def checked_mul_def u64_limit_def
        validate_lengths_def validate_scales_def scale_fields_def decode_validated_block_def decode_f32_validated_def f32_at_def
        f32_of_le_def four Let_def)
  moreover have "matrix_row (zero_matrix 1 2) 0 = replicate 4 0" by (simp add: matrix_row_def zero_matrix_def)
  moreover have "owned_view (hm_embeddings zero_model) = (Inr (zero_matrix 1 2) :: ('e, 'j) scalar_error + _)"
    using zero_views(2) by (simp add: zero_model_def)
  ultimately show ?thesis
    by (simp add: embed_token_def) (simp add: zero_model_def zero_session_def zero_owned_def)
qed

lemma zero_moe_routes:
  "\<exists>d. moe_route zero_env zero_model 0 zero_layer zero_moe (zero_session\<lparr>ss_hidden := [0]\<rparr>) =
    (Inr [\<lparr>re_expert_id = 0, re_coefficient = f32_one\<rparr>] :: ('e, 'j) scalar_error + _,
     zero_session\<lparr>ss_cache := d, ss_hidden := [0], ss_moe_scratch := Some zero_routed\<rparr>)"
proof -
  obtain d where d: "hy3_moe_route_token zero_machine zero_execution zero_streaming zero_cache [0] zero_scratch =
      (Inr (), d, [0], zero_routed)"
    using zero_routes by blast
  have "ss_position (zero_session\<lparr>ss_hidden := [0]\<rparr>) = 0" "ss_cache zero_session = zero_cache"
    "ss_moe_scratch zero_session = Some zero_scratch" "rn_machine zero_env = zero_machine"
    by (simp_all add: zero_session_def zero_env_def)
  then show ?thesis
    by (intro exI [of _ d]) (simp add: moe_route_def zero_streaming_view zero_executes d zero_routed_experts)
qed

lemma zero_loads:
  assumes "ss_leases ss = []"
  shows "\<exists>cs. moe_load zero_env zero_model 0 zero_moe [\<lparr>re_expert_id = 0, re_coefficient = f32_one\<rparr>] (ss, zero_expert_cache) =
    Some (Inr () :: (unit, 'j) scalar_error + unit, ss\<lparr>ss_leases := [(ExpertKey 0 0, replicate 12 0)]\<rparr>, cs)"
proof -
  have layout: "total_bytes (on_layout zero_moe) = Some 12"
    by (simp add: zero_moe_def zero_layer_def total_bytes_def checked_add_def u64_limit_def)
  have config: "hm_cache_config zero_model = \<lparr>capacity_bytes = 100, admit_after_requests = 1\<rparr>" by (simp add: zero_model_def)
  have src: "hm_expert_source zero_model = Some (DirectSource zero_store)" by (simp add: zero_model_def)
  have "\<exists>cs. get_or_try_insert (hm_cache_config zero_model) (ExpertKey 0 0) 12 loader zero_expert_cache = Some (Inr (replicate 12 0), cs)"
    for loader :: "unit \<Rightarrow> (unit, 'j) expert_read_error + byte list"
    by (simp add: get_or_try_insert_def load_precheck_def begin_load_def next_tick_eq zero_expert_cache_def pin_entry_def
        checked_add_def u64_limit_def config)
  then obtain cs where hit: "get_or_try_insert (hm_cache_config zero_model) (ExpertKey 0 0) 12
      (\<lambda>_. read_tight (rn_read_grant zero_env) (DirectSource zero_store) (ExpertKey 0 0) (on_layout zero_moe)
        (rn_time zero_env (ss_position ss) (ExpertKey 0 0)) :: (unit, 'j) expert_read_error + byte list) zero_expert_cache =
      Some (Inr (replicate 12 0), cs)" by blast
  have one: "load_route zero_env zero_model 0 (on_layout zero_moe) (ss_position ss) \<lparr>re_expert_id = 0, re_coefficient = f32_one\<rparr>
      zero_expert_cache = Some (Inr (ExpertKey 0 0, replicate 12 0) :: (unit, 'j) scalar_error + lease, cs)"
    by (simp add: load_route_def layout src hit Let_def)
  have clear: "clear_leases ss zero_expert_cache = (ss, zero_expert_cache)"
    using assms by (cases ss) (simp add: clear_leases_def drop_leases_def)
  have granted: "rn_grant zero_env = (\<lambda>_ _. True)" by (simp add: zero_env_def)
  show ?thesis
    by (rule exI [of _ cs]) (simp add: moe_load_def clear granted one Let_def)
qed

lemma zero_evaluation:
  "\<exists>st. evaluate zero_env zero_model (zero_session, zero_expert_cache) 0 [7, 7] =
    Some (Inr () :: (unit, unit) scalar_error + unit, st, [0, 0])"
proof -
  obtain d where route: "moe_route zero_env zero_model 0 zero_layer zero_moe (zero_session\<lparr>ss_hidden := [0]\<rparr>) =
    (Inr [\<lparr>re_expert_id = 0, re_coefficient = f32_one\<rparr>] :: (unit, unit) scalar_error + _,
     zero_session\<lparr>ss_cache := d, ss_hidden := [0], ss_moe_scratch := Some zero_routed\<rparr>)"
    using zero_moe_routes by blast
  let ?ss1 = "zero_session\<lparr>ss_cache := d, ss_hidden := [0], ss_moe_scratch := Some zero_routed\<rparr>"
  let ?routes = "[\<lparr>re_expert_id = 0, re_coefficient = f32_one\<rparr>]"
  have "ss_leases ?ss1 = []" by (simp add: zero_session_def)
  from zero_loads [OF this, where 'j = unit] obtain cs where load: "moe_load zero_env zero_model 0 zero_moe ?routes (?ss1, zero_expert_cache) =
    Some (Inr () :: (unit, unit) scalar_error + unit, ?ss1\<lparr>ss_leases := [(ExpertKey 0 0, replicate 12 0)]\<rparr>, cs)" by blast
  let ?ss2 = "?ss1\<lparr>ss_leases := [(ExpertKey 0 0, replicate 12 0)]\<rparr>"
  have parts: "rn_machine zero_env = zero_machine" "rn_grant zero_env = (\<lambda>_ _. True)" "on_shared zero_moe = zero_owned_expert"
    "ss_position ?ss2 = 0" "ss_final_normalized ?ss2 = [0]" "ss_decoded_block ?ss2 = 256"
    by (simp_all add: zero_env_def zero_moe_def zero_layer_def zero_session_def)
  have fin: "moe_finish zero_env zero_model zero_moe ?routes ?ss2 =
      (Inr () :: (unit, unit) scalar_error + unit, ?ss2\<lparr>ss_moe_scratch := Some (zero_routed\<lparr>sc_pending := False\<rparr>)\<rparr>)"
    by (simp add: moe_finish_def select_experts_def zero_payload_view zero_expert_view parts zero_layer_parts zero_finishes Let_def)
  obtain ss3 cs3 where lay: "evaluate_layers zero_env zero_model 0 [zero_layer] (zero_session\<lparr>ss_hidden := [0]\<rparr>, zero_expert_cache) =
      Some (Inr () :: (unit, unit) scalar_error + unit, ss3, cs3)"
    and ss3: "ss_hidden ss3 = [0]" "ss_final_normalized ss3 = [0]" "ss_decoded_block ss3 = 256" "ss_position ss3 = 0"
    using parts
    by (simp add: evaluate_layer_def zero_layer_parts moe_layer_def route load fin clear_leases_def)
  have out: "evaluate_output zero_env zero_model ss3 2 =
      (Inr [0, 0] :: (unit, unit) scalar_error + _, ss3\<lparr>ss_final_normalized := [0], ss_position := 1\<rparr>)"
  proof -
    have "owned_view (hm_output zero_model) = (Inr (zero_matrix 1 2) :: (unit, unit) scalar_error + _)"
      using zero_views(2) by (simp add: zero_model_def)
    moreover have "gemv (output_env zero_env ss3) DequantF32 (zero_matrix 1 2) [0] 2 = Inr [0, 0]"
      by (rule zero_gemv(2)) (simp add: output_env_def ss3)
    ultimately show ?thesis
      by (simp add: evaluate_output_def zero_layer_parts ss3 zero_norm Let_def)
  qed
  have "evaluate_inner zero_env zero_model (zero_session, zero_expert_cache) 0 [7, 7] =
      Some (Inr () :: (unit, unit) scalar_error + unit, (ss3\<lparr>ss_final_normalized := [0], ss_position := 1\<rparr>, cs3), [0, 0])"
    using zero_embeds [where 'e = unit and 'j = unit] lay out
    by (simp add: evaluate_inner_def zero_layer_parts numeral_2_eq_2)
  then show ?thesis by (simp add: evaluate_def)
qed

section \<open>Properties\<close>

text \<open> C3.
  Evaluating a token always returns (it never waits when no other caller is loading) and keeps the session
  well-formed: every layer stores exactly as many tokens as the position says, no lease is held, no routed
  token is pending, and the expert cache's accounts are exact. A success advances the position by one inside
  the context and appends one row of keys and values to every layer; a failure, wherever it happens, leaves
  the position and all stored rows as they were.
\<close>

theorem evaluation_keeps_session:
  fixes hm :: "'e hy3_model"
  assumes "cache_sized hm" "session_ok hm st"
  shows "case (evaluate env hm st tok logits :: ('e, 'j) evaluated) of
      None \<Rightarrow> False
    | Some (r, st', logits') \<Rightarrow> session_ok hm st' \<and> length logits' = length logits \<and>
        evaluation_effect hm (fst st) tok (is_ok r) (fst st')"
proof -
  obtain r :: "('e, 'j) scalar_error + unit" and ss' cs' logits' where
    "evaluate env hm (fst st, snd st) tok logits = Some (r, (ss', cs'), logits')" "session_ok hm (ss', cs')"
    "length logits' = length logits" "evaluation_effect hm (fst st) tok (is_ok r) ss'"
    using evaluate_runs [OF assms(1), of "fst st" "snd st" env tok logits, where 'j = 'j] assms(2) by auto
  then show ?thesis by simp
qed

theorem evaluation_keeps_session_witness:
  "\<exists>st. evaluate zero_env zero_model (zero_session, zero_expert_cache) 0 [7, 7] = Some (Inr () :: (unit, unit) scalar_error + unit, st, [0, 0]) \<and>
     session_ok zero_model st \<and> ss_position (fst st) = 1"
proof -
  obtain st where st: "evaluate zero_env zero_model (zero_session, zero_expert_cache) 0 [7, 7] =
      Some (Inr () :: (unit, unit) scalar_error + unit, st, [0, 0])"
    using zero_evaluation by blast
  have "ss_position zero_session = 0" by (simp add: zero_session_def)
  with st evaluation_keeps_session [OF zero_sized zero_session_ok, where env = zero_env and tok = 0 and logits = "[7, 7]" and 'j = unit] show ?thesis
    by (auto simp: evaluation_effect_def is_ok_def)
qed

lemma evaluate_direct:
  fixes hm :: "'e hy3_model"
  assumes "cache_sized hm" "session_ok hm (ss, cs)" "model_faithful datas hm" "coherent (model_payload datas hm) cs"
    and "evaluate env hm (ss, cs) tok logits = Some (r :: ('e, 'j) scalar_error + unit, (ss', cs'), out)"
  shows "coherent (model_payload datas hm) cs' \<and> (case r of
      Inr _ \<Rightarrow> direct_token env hm (model_payload datas hm) ss tok (length logits) = (Inr out :: ('e, 'j) scalar_error + f32 list, ss')
    | Inl err \<Rightarrow> loading_error err \<or> fst (direct_token env hm (model_payload datas hm) ss tok (length logits)) = Inl err)"
proof -
  obtain r' :: "('e, 'j) scalar_error + unit" and ss3 cs3 out3 ss1 cs1 where
    e: "evaluate env hm (ss, cs) tok logits = Some (r', (ss3, cs3), out3)"
    and inner: "evaluate_inner env hm (ss, cs) tok logits = Some (r', (ss1, cs1), out3)"
    and after: "if is_ok r' then (ss1, cs1) = (ss3, cs3)
      else rollback_to (ss1, cs1) (ss_position ss) = (Inr () :: ('e, 'j) scalar_error + unit, ss3, cs3)"
    using evaluate_runs [OF assms(1,2), of env tok logits, where 'j = 'j] by fast
  have same: "r' = r" "ss3 = ss'" "cs3 = cs'" "out3 = out" using e assms(5) by simp_all
  note inner = inner [unfolded same] and after = after [unfolded same]
  have k: "kv_inv (ss_cache ss)" "ss_leases ss = []" "accounted hm (ss, cs)" using assms(2) by (auto simp: session_ok_def Let_def)
  have goal: "coherent (model_payload datas hm) cs1 \<and> (case r of
      Inr _ \<Rightarrow> direct_token env hm (model_payload datas hm) ss tok (length logits) = (Inr out :: ('e, 'j) scalar_error + f32 list, ss1)
    | Inl err \<Rightarrow> loading_error err \<or> fst (direct_token env hm (model_payload datas hm) ss tok (length logits)) = Inl err)"
  proof (cases "embed_token hm ss tok (length logits) :: ('e, 'j) scalar_error + _")
    case (Inl err)
    then show ?thesis using inner assms(4) by (auto simp: evaluate_inner_def direct_token_def)
  next
    case (Inr h)
    let ?ss0 = "ss\<lparr>ss_hidden := h\<rparr>"
    have acc: "accounted hm (?ss0, cs)" using k(3) by (simp add: accounted_def lease_keys_def)
    have k0: "kv_inv (ss_cache ?ss0)" "ss_leases ?ss0 = []" using k by simp_all
    obtain w :: "('e, 'j) scalar_error + unit" and ss2 cs2 where
      run: "evaluate_layers env hm 0 (hm_layers hm) (?ss0, cs) = Some (w, ss2, cs2)"
      using evaluate_layers_run [OF assms(1) acc k0] by metis
    note d = evaluate_layers_direct [OF assms(1,3) acc k0 assms(4) run]
    have i: "Some (r, (ss1, cs1), out) = map_option (\<lambda>(r, ss, cs). case r of
              Inl err \<Rightarrow> (Inl err, (ss, cs), logits)
            | Inr _ \<Rightarrow> (case evaluate_output env hm ss (length logits) of
                (Inl err, ss') \<Rightarrow> (Inl err, (ss', cs), logits)
              | (Inr out, ss') \<Rightarrow> (Inr (), (ss', cs), out)))
            (Some (w, ss2, cs2))"
      using inner unfolding evaluate_inner_def fst_conv snd_conv Inr sum.case run by simp
    show ?thesis
      using i d Inr by (cases w) (auto simp: direct_token_def split: sum.splits prod.splits)
  qed
  show ?thesis
  proof (cases r)
    case (Inr u)
    then show ?thesis using goal after by (simp add: is_ok_def)
  next
    case (Inl err)
    then have rb: "rollback_to (ss1, cs1) (ss_position ss) = (Inr () :: ('e, 'j) scalar_error + unit, ss', cs')"
      using after by (simp add: is_ok_def)
    have "coherent (model_payload datas hm) cs'"
      using rb goal coherent_clear [of "model_payload datas hm" cs1 ss1]
      by (auto simp: rollback_to_def split: prod.splits sum.splits)
    then show ?thesis using goal Inl by simp
  qed
qed

text \<open> C2.
  The expert cache changes no result. Whatever a coherent cache holds, an evaluation that succeeds gives the
  logits and the session of the evaluation that takes every routed expert straight from the model files; one
  that fails for another reason than fetching an expert fails there with the same error. The cache stays
  coherent.
\<close>

theorem cached_evaluation_exact:
  fixes hm :: "'e hy3_model"
  assumes "cache_sized hm" "session_ok hm st" "model_faithful datas hm" "coherent (model_payload datas hm) (snd st)"
  shows "case (evaluate env hm st tok logits :: ('e, 'j) evaluated) of
      None \<Rightarrow> False
    | Some (r, st', out) \<Rightarrow> coherent (model_payload datas hm) (snd st') \<and>
        (let direct = direct_token env hm (model_payload datas hm) (fst st) tok (length logits) in
         case r of
           Inr _ \<Rightarrow> direct = (Inr out :: ('e, 'j) scalar_error + f32 list, fst st')
         | Inl err \<Rightarrow> loading_error err \<or> fst direct = Inl err)"
proof -
  have ok: "session_ok hm (fst st, snd st)" using assms(2) by simp
  obtain r :: "('e, 'j) scalar_error + unit" and ss' cs' out where
    e: "evaluate env hm (fst st, snd st) tok logits = Some (r, (ss', cs'), out)"
    using evaluate_runs [OF assms(1) ok, of env tok logits, where 'j = 'j] by fast
  from evaluate_direct [OF assms(1) ok assms(3,4) e] e show ?thesis
    by (cases r) (simp_all add: Let_def)
qed

lemma zero_coherent:
  "model_faithful [replicate 12 0] zero_model" "coherent (model_payload [replicate 12 0] zero_model) zero_expert_cache"
proof -
  have src: "hm_expert_source zero_model = Some (DirectSource zero_store)" by (simp add: zero_model_def)
  show "model_faithful [replicate 12 0] zero_model"
    by (simp add: model_faithful_def src readers_faithful_def zero_store_def faithful_def u64_limit_def) fastforce
  have "direct_index_get (ds_index zero_store) (ExpertKey 0 0) =
      Some \<lparr>dr_key = ExpertKey 0 0, dr_gate = zero_segment 0, dr_up = zero_segment 1, dr_down = zero_segment 2\<rparr>"
  proof -
    have "sorted_wrt (\<lambda>a b. dr_key a < dr_key b) (ds_index zero_store)" by (simp add: zero_store_def)
    from binary_search_exact(1) [OF this, of "ExpertKey 0 0" 0] show ?thesis
      by (simp add: direct_index_get_def zero_store_def)
  qed
  moreover have "segment_data [replicate 12 0] (zero_segment i) = replicate 4 0" if "i < 3" for i
    using that by (simp add: segment_data_def zero_segment_def segment_length_def min_def)
  ultimately have "model_payload [replicate 12 0] zero_model (ExpertKey 0 0) = replicate 12 0"
    by (simp add: model_payload_def src flip: replicate_add)
  then show "coherent (model_payload [replicate 12 0] zero_model) zero_expert_cache"
    by (simp add: coherent_def zero_expert_cache_def)
qed

theorem cached_evaluation_exact_witness:
  "fst (direct_token zero_env zero_model (model_payload [replicate 12 0] zero_model) zero_session 0 2) =
    (Inr [0, 0] :: (unit, unit) scalar_error + f32 list)"
proof -
  obtain st where st: "evaluate zero_env zero_model (zero_session, zero_expert_cache) 0 [7, 7] =
      Some (Inr () :: (unit, unit) scalar_error + unit, st, [0, 0])"
    using zero_evaluation by blast
  have "coherent (model_payload [replicate 12 0] zero_model) (snd (zero_session, zero_expert_cache))"
    using zero_coherent(2) by simp
  from cached_evaluation_exact [OF zero_sized zero_session_ok zero_coherent(1) this,
      where env = zero_env and tok = 0 and logits = "[7, 7]" and 'j = unit] st
  show ?thesis by (simp add: numeral_2_eq_2)
qed

text \<open>
  The state in the middle of an evaluation: the cache is well-formed and has the geometry of the model, and the
  expert cache accounts for the leases held; the layers need not agree on their length.
\<close>

definition session_open :: "'f hy3_model \<Rightarrow> session \<times> expert_cache \<Rightarrow> bool" where
  "session_open hm st \<longleftrightarrow>
     (let c = ss_cache (fst st) in
      kv_inv c \<and> layer_count c = length (hm_layers hm) \<and> token_capacity c = hm_context_capacity hm \<and> accounted hm st)"

lemma session_ok_open: "session_ok hm st \<Longrightarrow> session_open hm st"
  by (simp add: session_ok_def session_open_def Let_def)

lemma rollback_exact:
  assumes "session_open hm st" "rollback_to st n = (r :: ('e, 'j) scalar_error + unit, st')"
  shows "if list_all (\<lambda>rows. n \<le> length rows) (stored_rows hm (fst st))
    then r = Inr () \<and> session_ok hm st' \<and> ss_position (fst st') = n \<and>
      stored_rows hm (fst st') = map (take n) (stored_rows hm (fst st))
    else \<not> is_ok r \<and> st' = st"
proof -
  obtain ss cs where st: "st = (ss, cs)" by fastforce
  have o: "kv_inv (ss_cache ss)" "layer_count (ss_cache ss) = length (hm_layers hm)"
    "token_capacity (ss_cache ss) = hm_context_capacity hm" "accounted hm (ss, cs)"
    using assms(1) by (simp_all add: session_open_def st Let_def)
  have all: "list_all (\<lambda>rows. n \<le> length rows) (stored_rows hm ss) \<longleftrightarrow> (\<forall>l < length (hm_layers hm). n \<le> length (kv_abs (ss_cache ss) l))"
    by (auto simp: stored_rows_def list_all_iff simp del: length_kv_abs)
  show ?thesis
  proof (cases "\<forall>l < length (hm_layers hm). n \<le> length (kv_abs (ss_cache ss) l)")
    case True
    from rollback_runs [OF o True] obtain ss' cs' where
      "rollback_to (ss, cs) n = (Inr () :: ('e, 'j) scalar_error + unit, ss', cs')" "session_ok hm (ss', cs')"
      "ss_position ss' = n" "stored_rows hm ss' = map (take n) (stored_rows hm ss)" by metis
    then show ?thesis using assms(2) True all by (auto simp: st)
  next
    case False
    obtain q d where rw: "rewind_all (ss_cache ss) n = (q, d)" by fastforce
    then have "\<not> is_ok q" using rewind_all_effect(2) [OF o(1), of n] False o(2) by (cases q) (auto simp: is_ok_def)
    then obtain e where q: "q = Inl e" by (cases q) (auto simp: is_ok_def)
    have "d = ss_cache ss" using rewind_all_effect(3) [OF o(1)] rw q by blast
    then show ?thesis using assms(2) False all rw q by (auto simp: st rollback_to_def is_ok_def)
  qed
qed

text \<open> C18.
  Sessions start and restart empty, a snapshot is restored as a whole or not at all, and a rollback goes back
  exactly: a new session and a reset one are well-formed at position zero; restoring keeps the session
  well-formed, a failed restore changes nothing at all, and after a successful one the cache is the one whose
  encoding the snapshot is and the position is the number of tokens every layer then stores. A rollback to
  \<open>n\<close> tokens, from a session in any state an evaluation can leave it in the middle, succeeds exactly when every
  layer stores that many; then every layer keeps its first \<open>n\<close> rows, the position is \<open>n\<close>, and the session
  is well-formed again, its leases given back and no routed token pending; otherwise nothing at all changes.
\<close>

theorem session_lifecycle:
  fixes st :: "session \<times> expert_cache"
  assumes "session_ok hm st" "hm_layers hm \<noteq> []" "length (hm_layers hm) = hc_block_count (hm_config hm)"
    and "session_open hm mid"
  shows "(case (new_session env hm :: ('e, 'j) scalar_error + session) of
        Inl e \<Rightarrow> True | Inr ss \<Rightarrow> session_ok hm (ss, snd st) \<and> ss_position ss = 0) \<and>
    session_ok hm (reset_session st) \<and> ss_position (fst (reset_session st)) = 0 \<and>
    (case restore_kv_snapshot sha env hm st bytes maximum of (r :: ('e, 'j) scalar_error + unit, st') \<Rightarrow>
      session_ok hm st' \<and> (if is_ok r then list_all (\<lambda>rows. length rows = ss_position (fst st')) (stored_rows hm (fst st')) \<and>
          bytes = snapshot_payload (ss_cache (fst st')) (hm_fingerprint hm) @
            sha (snapshot_payload (ss_cache (fst st')) (hm_fingerprint hm))
        else st' = st)) \<and>
    (case rollback_to mid n of (r :: ('e, 'j) scalar_error + unit, mid') \<Rightarrow>
      if list_all (\<lambda>rows. n \<le> length rows) (stored_rows hm (fst mid))
      then r = Inr () \<and> session_ok hm mid' \<and> ss_position (fst mid') = n \<and>
        stored_rows hm (fst mid') = map (take n) (stored_rows hm (fst mid))
      else \<not> is_ok r \<and> mid' = mid)"
proof -
  have leases: "ss_leases (fst st) = []" "accounted hm st" using assms(1) by (auto simp: session_ok_def Let_def)
  then have inv: "cache_inv (hm_cache_config hm) {#} {#} (snd st)" by (simp add: accounted_def lease_keys_def)
  have new: "session_ok hm (ss, snd st) \<and> ss_position ss = 0"
    if "(new_session env hm :: ('e, 'j) scalar_error + session) = Inr ss" for ss
    by (rule new_session_ok [OF that assms(3) inv])
  obtain r :: "('e, 'j) scalar_error + unit" and st' where run: "restore_kv_snapshot sha env hm st bytes maximum = (r, st')"
    by (cases "restore_kv_snapshot sha env hm st bytes maximum :: (('e, 'j) scalar_error + unit) \<times> _") blast
  note restored = restore_kv_snapshot_runs [OF assms(1,2) run]
  have "list_all (\<lambda>rows. length rows = ss_position (fst st')) (stored_rows hm (fst st'))" if "session_ok hm st'"
    using that by (auto simp: session_ok_def Let_def stored_rows_def list_all_iff simp del: length_kv_abs)
  then have restore: "session_ok hm st' \<and> (if is_ok r then list_all (\<lambda>rows. length rows = ss_position (fst st')) (stored_rows hm (fst st')) \<and>
          bytes = snapshot_payload (ss_cache (fst st')) (hm_fingerprint hm) @
            sha (snapshot_payload (ss_cache (fst st')) (hm_fingerprint hm))
        else st' = st)"
    using restored by (cases "is_ok r") auto
  obtain q :: "('e, 'j) scalar_error + unit" and mid' where undo: "rollback_to mid n = (q, mid')"
    by (cases "rollback_to mid n :: (('e, 'j) scalar_error + unit) \<times> _") blast
  note rollback = rollback_exact [OF assms(4) undo]
  have start: "case (new_session env hm :: ('e, 'j) scalar_error + session) of
      Inl e \<Rightarrow> True | Inr ss \<Rightarrow> session_ok hm (ss, snd st) \<and> ss_position ss = 0"
    using new by (simp split: sum.split)
  show ?thesis
    unfolding run undo prod.case using start restore rollback reset_session_ok [OF assms(1)] by blast
qed

text \<open>After one token the session can be rolled back to its beginning, and not to two tokens.\<close>

theorem session_lifecycle_witness:
  "session_ok zero_model (reset_session (zero_session, zero_expert_cache)) \<and>
   (\<exists>st. evaluate zero_env zero_model (zero_session, zero_expert_cache) 0 [7, 7] =
       Some (Inr () :: (unit, unit) scalar_error + unit, st, [0, 0]) \<and> ss_position (fst st) = 1 \<and>
     (case rollback_to st 0 of (r :: (unit, unit) scalar_error + unit, start) \<Rightarrow>
        r = Inr () \<and> session_ok zero_model start \<and> ss_position (fst start) = 0) \<and>
     snd (rollback_to st 2 :: ((unit, unit) scalar_error + unit) \<times> _) = st)"
proof -
  have layers: "hm_layers zero_model \<noteq> []" "length (hm_layers zero_model) = hc_block_count (hm_config zero_model)"
    by (simp_all add: zero_model_def)
  obtain st where st: "evaluate zero_env zero_model (zero_session, zero_expert_cache) 0 [7, 7] =
      Some (Inr () :: (unit, unit) scalar_error + unit, st, [0, 0])"
    using zero_evaluation by blast
  obtain r :: "(unit, unit) scalar_error + unit" and ss' cs' out where
    e: "evaluate zero_env zero_model (zero_session, zero_expert_cache) 0 [7, 7] = Some (r, (ss', cs'), out)"
      "session_ok zero_model (ss', cs')" "evaluation_effect zero_model zero_session 0 (is_ok r) ss'"
    using evaluate_runs [OF zero_sized zero_session_ok, of zero_env 0 "[7, 7]", where 'j = unit] by blast
  with st have eq: "st = (ss', cs')" "r = Inr ()" by simp_all
  then have pos: "ss_position (fst st) = 1" using e(3) by (simp add: evaluation_effect_def is_ok_def zero_session_def)
  have ok: "session_ok zero_model st" using e(2) eq by simp
  have rows: "list_all (\<lambda>rows. length rows = 1) (stored_rows zero_model (fst st))" "stored_rows zero_model (fst st) \<noteq> []"
    using ok pos layers(1) by (auto simp: session_ok_def Let_def stored_rows_def list_all_iff simp del: length_kv_abs)
  note life = session_lifecycle [OF zero_session_ok layers session_ok_open [OF ok], where 'e = unit and 'j = unit]
  note all = life [THEN conjunct2, THEN conjunct2, THEN conjunct2, THEN conjunct2]
  have "case rollback_to st 0 of (r :: (unit, unit) scalar_error + unit, start) \<Rightarrow>
        r = Inr () \<and> session_ok zero_model start \<and> ss_position (fst start) = 0"
    using all [of 0] rows by (auto simp: list_all_iff split: prod.splits if_splits)
  moreover have "\<not> list_all (\<lambda>rows. 2 \<le> length rows) (stored_rows zero_model (fst st))"
    using rows by (cases "stored_rows zero_model (fst st)") auto
  then have "snd (rollback_to st 2 :: ((unit, unit) scalar_error + unit) \<times> _) = st"
    using all [of 2] by (auto split: prod.splits)
  ultimately show ?thesis using st pos by (intro conjI exI [of _ st] conjunct1 [OF conjunct2 [OF life]])
qed

end
