(* ===== verification/Generation.thy ===== *)
theory Generation
  imports Sampling
begin

text \<open>
  Bounded autoregressive generation (\<^verbatim>\<open>bridge-runtime/src/generation.rs\<close>): the interface of a causal
  model, generation sessions, prefill and decode loops, stop reasons, cancellation and poisoning.

  The trait \<^verbatim>\<open>CausalModel\<close> is a record of its operations; a session type \<^verbatim>\<open>'s\<close> carries whatever state
  they read and write. The shared cancellation flag is read at numbered polls, \<^verbatim>\<open>cancelled t\<close> being what
  poll \<^verbatim>\<open>t\<close> sees. The \<^verbatim>\<open>emit\<close> callback is a function on its own state that returns whether it breaks.
  Durations are not modelled. \<^verbatim>\<open>grant\<close> says which reservations the allocator serves.
\<close>

section \<open>The model interface and the session\<close>

record ('s, 'e) causal_model =
  vocabulary_size :: nat
  context_length :: nat
  new_model_session :: "'e + 's"
  reset_model_session :: "'s \<Rightarrow> 's"
  model_position :: "'s \<Rightarrow> nat"
  evaluate_token :: "'s \<Rightarrow> nat \<Rightarrow> f32 list \<Rightarrow> ('e + unit) \<times> 's \<times> f32 list"

record 's generation_session =
  gs_model :: 's
  gs_history :: "nat list"
  gs_logits :: "f32 list"
  gs_has_logits :: bool
  gs_healthy :: bool

datatype 'e generation_error =
    GenModel 'e
  | GenSampling sampling_error
  | SessionPoisoned
  | GenTokenOutOfRange nat nat
  | PromptExceedsContext nat nat nat
  | EmptyPrompt
  | GenArithmeticOverflow
  | GenAllocationFailed

datatype stop_reason = StopToken nat | StopSequence | MaxTokens | ContextLength | Cancelled | Callback

record generated_token =
  gt_token_id :: nat
  gt_index :: nat

record generation_outcome =
  token_ids :: "nat list"
  stopped_by :: stop_reason
  prompt_tokens :: nat
  generated_tokens :: nat

text \<open>What the sampler needs from outside: \<^verbatim>\<open>f64::exp\<close> and the random generator.\<close>

record 'r sampler_env =
  env_exp :: "f64 \<Rightarrow> f64"
  env_seed :: "nat \<Rightarrow> 'r"
  env_gen :: "'r \<Rightarrow> f64 \<times> 'r"

definition outcome :: "nat list \<Rightarrow> stop_reason \<Rightarrow> nat \<Rightarrow> generation_outcome" where
  "outcome toks reason prompt =
     \<lparr>token_ids = toks, stopped_by = reason, prompt_tokens = prompt, generated_tokens = length toks\<rparr>"

definition generator_new :: "('s, 'e) causal_model \<Rightarrow> sampling_error + ('s, 'e) causal_model" where
  "generator_new M = rbind (validate_sampling default_sampling_config (vocabulary_size M)) (\<lambda>_. Inr M)"

definition generator_new_session ::
  "(nat \<Rightarrow> bool) \<Rightarrow> ('s, 'e) causal_model \<Rightarrow> 'e generation_error + 's generation_session" where
  "generator_new_session grant M =
     rbind (map_err GenModel (new_model_session M)) (\<lambda>m.
     rbind (check (grant (vocabulary_size M)) GenAllocationFailed) (\<lambda>_.
     Inr \<lparr>gs_model = m, gs_history = [], gs_logits = replicate (vocabulary_size M) f32_zero,
          gs_has_logits = False, gs_healthy = True\<rparr>))"

definition generator_reset ::
  "('s, 'e) causal_model \<Rightarrow> 's generation_session \<Rightarrow> 's generation_session" where
  "generator_reset M s =
     s\<lparr>gs_model := reset_model_session M (gs_model s), gs_history := [],
       gs_logits := replicate (length (gs_logits s)) f32_zero, gs_has_logits := False, gs_healthy := True\<rparr>"

definition restore_metadata ::
  "'s generation_session \<Rightarrow> nat list \<Rightarrow> f32 list \<Rightarrow> bool \<Rightarrow> 's generation_session" where
  "restore_metadata s history logits has_logits =
     s\<lparr>gs_history := history, gs_logits := logits, gs_has_logits := has_logits, gs_healthy := True\<rparr>"

section \<open>Evaluation and the two loops\<close>

text \<open>One token: a model failure poisons the session, a success extends its history.\<close>

definition gen_evaluate ::
  "('s, 'e) causal_model \<Rightarrow> 's generation_session \<Rightarrow> nat \<Rightarrow>
    ('e generation_error + unit) \<times> 's generation_session" where
  "gen_evaluate M s tok =
     (case evaluate_token M (gs_model s) tok (gs_logits s) of (r, m, l) \<Rightarrow>
        (case r of
           Inl e \<Rightarrow> (Inl (GenModel e), s\<lparr>gs_model := m, gs_logits := l, gs_healthy := False, gs_has_logits := False\<rparr>)
         | Inr _ \<Rightarrow> (Inr (), s\<lparr>gs_model := m, gs_logits := l, gs_history := gs_history s @ [tok], gs_has_logits := True\<rparr>)))"

text \<open>The prefill loop; \<^verbatim>\<open>Inr True\<close> says that it was cancelled. The last component counts the polls.\<close>

fun prefill ::
  "('s, 'e) causal_model \<Rightarrow> (nat \<Rightarrow> bool) \<Rightarrow> nat list \<Rightarrow> 's generation_session \<Rightarrow> nat \<Rightarrow>
    ('e generation_error + bool) \<times> 's generation_session \<times> nat" where
  "prefill M cancelled [] s t = (Inr False, s, t)"
| "prefill M cancelled (tok # toks) s t =
     (if cancelled t then (Inr True, s, Suc t)
      else case gen_evaluate M s tok of
        (Inl e, s') \<Rightarrow> (Inl e, s', Suc t)
      | (Inr _, s') \<Rightarrow> prefill M cancelled toks s' (Suc t))"

record ('s, 'r, 'c) decode_state =
  ds_session :: "'s generation_session"
  ds_sampler :: "'r sampler"
  ds_generated :: "nat list"
  ds_callback :: 'c
  ds_polls :: nat

text \<open>
  The decode loop: \<^verbatim>\<open>n\<close> rounds are left and the round has number \<^verbatim>\<open>index\<close>. \<^verbatim>\<open>Inr None\<close> says that the
  loop ran out of rounds.
\<close>

fun decode_loop ::
  "('s, 'e) causal_model \<Rightarrow> 'r sampler_env \<Rightarrow> (nat \<Rightarrow> bool) \<Rightarrow> ('c \<Rightarrow> generated_token \<Rightarrow> 'c \<times> bool) \<Rightarrow>
    sampling_config \<Rightarrow> nat \<Rightarrow> nat \<Rightarrow> ('s, 'r, 'c) decode_state \<Rightarrow>
    ('e generation_error + stop_reason option) \<times> ('s, 'r, 'c) decode_state" where
  "decode_loop M env cancelled emit c 0 index d = (Inr None, d)"
| "decode_loop M env cancelled emit c (Suc n) index d =
     (let d0 = d\<lparr>ds_polls := Suc (ds_polls d)\<rparr>
      in if cancelled (ds_polls d) then (Inr (Some Cancelled), d0)
         else case sample (env_exp env) (env_gen env) (ds_sampler d)
                (gs_logits (ds_session d)) (gs_history (ds_session d)) of
           (Inl e, smp) \<Rightarrow> (Inl (GenSampling e), d0\<lparr>ds_sampler := smp\<rparr>)
         | (Inr tok, smp) \<Rightarrow>
             (case gen_evaluate M (ds_session d) tok of
                (Inl e, s) \<Rightarrow> (Inl e, d0\<lparr>ds_sampler := smp, ds_session := s\<rparr>)
              | (Inr _, s) \<Rightarrow>
                  let is_stop = tok \<in> set (stop_tokens c);
                      shown = (\<not> is_stop \<or> emit_stop_token c);
                      d1 = d0\<lparr>ds_sampler := smp, ds_session := s,
                             ds_generated := (if shown then ds_generated d @ [tok] else ds_generated d)\<rparr>;
                      (cb, brk) = (if shown then emit (ds_callback d) \<lparr>gt_token_id = tok, gt_index = index\<rparr>
                                   else (ds_callback d, False));
                      d2 = d1\<lparr>ds_callback := cb\<rparr>
                  in if shown \<and> brk then (Inr (Some Callback), d2)
                     else if is_stop then (Inr (Some (StopToken tok)), d2)
                     else decode_loop M env cancelled emit c n (Suc index) d2))"

definition tokens_in_range :: "nat list \<Rightarrow> nat \<Rightarrow> 'e generation_error + unit" where
  "tokens_in_range toks vocabulary =
     (case find (\<lambda>t. vocabulary \<le> t) toks of
        Some t \<Rightarrow> Inl (GenTokenOutOfRange t vocabulary) | None \<Rightarrow> Inr ())"

text \<open>The checks in front of the first model call, with the number of rounds they allow.\<close>

definition admit ::
  "(nat \<Rightarrow> bool) \<Rightarrow> ('s, 'e) causal_model \<Rightarrow> sampling_config \<Rightarrow> 's generation_session \<Rightarrow> nat list \<Rightarrow>
    'e generation_error + nat" where
  "admit grant M c s prompt =
     rbind (map_err GenSampling (validate_sampling c (vocabulary_size M))) (\<lambda>_.
     rbind (check (gs_healthy s) SessionPoisoned) (\<lambda>_.
     rbind (tokens_in_range prompt (vocabulary_size M)) (\<lambda>_.
     let position = model_position M (gs_model s); context = context_length M
     in if context < position \<or> context - position < length prompt
          then Inl (PromptExceedsContext position (length prompt) context)
        else if prompt = [] \<and> \<not> gs_has_logits s then Inl EmptyPrompt
        else let limit = min (max_new_tokens c) (context - position - length prompt)
             in rbind (ok_or GenArithmeticOverflow (checked_add (length prompt) limit)) (\<lambda>requested.
                rbind (check (grant requested) GenAllocationFailed) (\<lambda>_.
                rbind (check (grant limit) GenAllocationFailed) (\<lambda>_. Inr limit))))))"

definition generate_stream ::
  "(nat \<Rightarrow> bool) \<Rightarrow> 'r sampler_env \<Rightarrow> (nat \<Rightarrow> bool) \<Rightarrow> ('c \<Rightarrow> generated_token \<Rightarrow> 'c \<times> bool) \<Rightarrow>
    ('s, 'e) causal_model \<Rightarrow> sampling_config \<Rightarrow> nat list \<Rightarrow> 's generation_session \<Rightarrow> 'c \<Rightarrow> nat \<Rightarrow>
    ('e generation_error + generation_outcome) \<times> 's generation_session \<times> 'c \<times> nat" where
  "generate_stream grant env cancelled emit M c prompt s cb t =
     (case admit grant M c s prompt of
        Inl e \<Rightarrow> (Inl e, s, cb, t)
      | Inr limit \<Rightarrow>
          if cancelled t then (Inr (outcome [] Cancelled (length prompt)), s, cb, Suc t)
          else case prefill M cancelled prompt s (Suc t) of
            (Inl e, s1, t1) \<Rightarrow> (Inl e, s1, cb, t1)
          | (Inr True, s1, t1) \<Rightarrow> (Inr (outcome [] Cancelled (length (gs_history s1))), s1, cb, t1)
          | (Inr False, s1, t1) \<Rightarrow>
              (case sampler_new grant (env_seed env) c (vocabulary_size M) of
                 Inl e \<Rightarrow> (Inl (GenSampling e), s1, cb, t1)
               | Inr smp \<Rightarrow>
                   (case decode_loop M env cancelled emit c limit 0
                      \<lparr>ds_session = s1, ds_sampler = smp, ds_generated = [], ds_callback = cb, ds_polls = t1\<rparr> of
                      (Inl e, d) \<Rightarrow> (Inl e, ds_session d, ds_callback d, ds_polls d)
                    | (Inr reason, d) \<Rightarrow>
                        (Inr (outcome (ds_generated d)
                           (case reason of Some r \<Rightarrow> r
                            | None \<Rightarrow> if limit < max_new_tokens c then ContextLength else MaxTokens)
                           (length prompt)),
                         ds_session d, ds_callback d, ds_polls d))))"

definition generate ::
  "(nat \<Rightarrow> bool) \<Rightarrow> 'r sampler_env \<Rightarrow> (nat \<Rightarrow> bool) \<Rightarrow> ('s, 'e) causal_model \<Rightarrow> sampling_config \<Rightarrow> nat list \<Rightarrow>
    's generation_session \<Rightarrow> nat \<Rightarrow> ('e generation_error + generation_outcome) \<times> 's generation_session \<times> nat" where
  "generate grant env cancelled M c prompt s t =
     (case generate_stream grant env cancelled (\<lambda>_ _. ((), False)) M c prompt s () t of
        (r, s', _, t') \<Rightarrow> (r, s', t'))"

section \<open>The contract of a model\<close>

text \<open>
  The session invariant: the history is exactly the evaluated tokens, and logits are available
  exactly when the last evaluation of a healthy session succeeded. \<^verbatim>\<open>ok\<close> is the invariant of the model.
\<close>

definition generation_inv :: "('s, 'e) causal_model \<Rightarrow> ('s \<Rightarrow> bool) \<Rightarrow> 's generation_session \<Rightarrow> bool" where
  "generation_inv M ok s \<longleftrightarrow> ok (gs_model s) \<and> length (gs_history s) = model_position M (gs_model s) \<and>
     length (gs_logits s) = vocabulary_size M \<and> (\<forall>t \<in> set (gs_history s). t < vocabulary_size M) \<and>
     (gs_has_logits s \<longleftrightarrow> gs_healthy s \<and> gs_history s \<noteq> [])"

text \<open>The tokens a callback is shown, the state it reaches on them, and how a decode loop can end.\<close>

definition shown :: "sampling_config \<Rightarrow> nat list \<Rightarrow> nat list" where
  "shown c sampled = filter (\<lambda>t. t \<notin> set (stop_tokens c) \<or> emit_stop_token c) sampled"

definition emissions :: "('c \<Rightarrow> generated_token \<Rightarrow> 'c \<times> bool) \<Rightarrow> nat \<Rightarrow> nat list \<Rightarrow> 'c \<Rightarrow> 'c" where
  "emissions emit index toks cb =
     fold (\<lambda>(i, t) cb. fst (emit cb \<lparr>gt_token_id = t, gt_index = i\<rparr>)) (enumerate index toks) cb"

definition decode_end ::
  "sampling_config \<Rightarrow> bool \<Rightarrow> nat \<Rightarrow> nat list \<Rightarrow> bool \<Rightarrow> 'e generation_error + stop_reason option \<Rightarrow> bool" where
  "decode_end c was_cancelled n sampled healthy r \<longleftrightarrow>
     (case r of
        Inl e \<Rightarrow> (\<forall>t \<in> set sampled. t \<notin> set (stop_tokens c)) \<and>
          ((\<exists>e'. e = GenModel e') \<and> \<not> healthy \<or> (\<exists>e'. e = GenSampling e') \<and> healthy)
      | Inr reason \<Rightarrow> healthy \<and>
          (case reason of
             None \<Rightarrow> length sampled = n \<and> (\<forall>t \<in> set sampled. t \<notin> set (stop_tokens c))
           | Some (StopToken t) \<Rightarrow> sampled \<noteq> [] \<and> last sampled = t \<and> t \<in> set (stop_tokens c)
           | Some Callback \<Rightarrow> sampled \<noteq> []
           | Some Cancelled \<Rightarrow> (\<forall>t \<in> set sampled. t \<notin> set (stop_tokens c)) \<and> was_cancelled
           | Some _ \<Rightarrow> False))"

lemma decode_end_Cons:
  assumes "decode_end c wc n sampled healthy r" "tok \<notin> set (stop_tokens c)" "wc \<Longrightarrow> wc'"
  shows "decode_end c wc' (Suc n) (tok # sampled) healthy r"
  using assms unfolding decode_end_def by (auto split: sum.splits option.splits stop_reason.splits)

text \<open>
  What the generator relies on: sessions start and restart at position zero; an evaluation keeps the
  session usable and the length of the logit buffer, and advances the position by one exactly when
  it succeeds, which it does only for a token of the vocabulary inside the context window.
\<close>

locale causal_model_laws =
  fixes M :: "('s, 'e) causal_model"
    and ok :: "'s \<Rightarrow> bool"
  assumes new_law: "new_model_session M = Inr m \<Longrightarrow> ok m \<and> model_position M m = 0"
    and reset_law: "ok m \<Longrightarrow> ok (reset_model_session M m) \<and> model_position M (reset_model_session M m) = 0"
    and eval_law: "ok m \<Longrightarrow> evaluate_token M m tok l = (r, m', l') \<Longrightarrow>
      ok m' \<and> length l' = length l \<and> model_position M m' = model_position M m + (if is_ok r then 1 else 0)"
    and eval_bound: "ok m \<Longrightarrow> evaluate_token M m tok l = (Inr (), m', l') \<Longrightarrow>
      model_position M m < context_length M \<and> tok < vocabulary_size M"
begin

lemma new_session_inv: "generator_new_session grant M = Inr s \<Longrightarrow> generation_inv M ok s \<and> gs_history s = [] \<and> gs_healthy s"
  using new_law by (auto simp: generator_new_session_def rbind_Inr generation_inv_def)

lemma reset_inv: "generation_inv M ok s \<Longrightarrow>
    generation_inv M ok (generator_reset M s) \<and> gs_history (generator_reset M s) = [] \<and> gs_healthy (generator_reset M s)"
  using reset_law by (auto simp: generator_reset_def generation_inv_def)

lemma evaluate_inv:
  assumes "generation_inv M ok s" "gs_healthy s" "gen_evaluate M s tok = (r, s')"
  shows "generation_inv M ok s' \<and> (case r of
      Inl e \<Rightarrow> (\<exists>e'. e = GenModel e') \<and> \<not> gs_healthy s' \<and> gs_history s' = gs_history s
    | Inr _ \<Rightarrow> gs_healthy s' \<and> gs_has_logits s' \<and> gs_history s' = gs_history s @ [tok] \<and>
        length (gs_history s) < context_length M \<and> tok < vocabulary_size M)"
proof -
  obtain q m l where e: "evaluate_token M (gs_model s) tok (gs_logits s) = (q, m, l)"
    using prod_cases3 by blast
  from assms(1) have o: "ok (gs_model s)" by (simp add: generation_inv_def)
  note law = eval_law [OF o e]
  show ?thesis
  proof (cases q)
    case (Inl x)
    then show ?thesis using assms law by (auto simp: gen_evaluate_def e generation_inv_def)
  next
    case (Inr u)
    then have "evaluate_token M (gs_model s) tok (gs_logits s) = (Inr (), m, l)" using e by simp
    note bound = eval_bound [OF o this]
    show ?thesis using assms law bound Inr by (auto simp: gen_evaluate_def e generation_inv_def)
  qed
qed

lemma prefill_inv:
  assumes "generation_inv M ok s" "gs_healthy s" "prefill M cancelled toks s t = (r, s', t')"
  shows "generation_inv M ok s' \<and> (\<exists>evaluated. gs_history s' = gs_history s @ evaluated \<and> (case r of
      Inl e \<Rightarrow> (\<exists>e'. e = GenModel e') \<and> \<not> gs_healthy s' \<and> strict_prefix evaluated toks
    | Inr True \<Rightarrow> gs_healthy s' \<and> strict_prefix evaluated toks \<and> (\<exists>u \<ge> t. cancelled u)
    | Inr False \<Rightarrow> gs_healthy s' \<and> evaluated = toks))"
  using assms
proof (induction toks arbitrary: s t)
  case Nil
  then show ?case by auto
next
  case (Cons tok toks)
  show ?case
  proof (cases "cancelled t")
    case True
    then show ?thesis using Cons.prems by (auto intro: exI [of _ "[]"])
  next
    case False
    obtain q s1 where e: "gen_evaluate M s tok = (q, s1)" by (cases "gen_evaluate M s tok")
    note ev = evaluate_inv [OF Cons.prems(1,2) e]
    show ?thesis
    proof (cases q)
      case (Inl x)
      then show ?thesis using Cons.prems(3) False e ev by (auto intro: exI [of _ "[]"])
    next
      case (Inr u)
      then have p: "prefill M cancelled toks s1 (Suc t) = (r, s', t')" using Cons.prems(3) False e by simp
      from ev Inr have s1: "generation_inv M ok s1" "gs_healthy s1" "gs_history s1 = gs_history s @ [tok]" by auto
      from Cons.IH [OF s1(1,2) p] obtain ev' where ev':
        "generation_inv M ok s'" "gs_history s' = gs_history s1 @ ev'"
        "case r of Inl e \<Rightarrow> (\<exists>e'. e = GenModel e') \<and> \<not> gs_healthy s' \<and> strict_prefix ev' toks
         | Inr True \<Rightarrow> gs_healthy s' \<and> strict_prefix ev' toks \<and> (\<exists>u \<ge> Suc t. cancelled u)
         | Inr False \<Rightarrow> gs_healthy s' \<and> ev' = toks" by blast
      then show ?thesis using s1(3)
        by (intro conjI exI [of _ "tok # ev'"])
           (auto simp: strict_prefix_def split: sum.splits bool.splits intro: Suc_leD)
    qed
  qed
qed

lemma decode_inv:
  assumes "generation_inv M ok (ds_session d)" "gs_healthy (ds_session d)"
    and "decode_loop M env cancelled emit c n index d = (r, d')"
  shows "generation_inv M ok (ds_session d') \<and> (\<exists>sampled.
    gs_history (ds_session d') = gs_history (ds_session d) @ sampled \<and> length sampled \<le> n \<and>
    ds_generated d' = ds_generated d @ shown c sampled \<and>
    ds_callback d' = emissions emit index (shown c sampled) (ds_callback d) \<and>
    (\<forall>t \<in> set (butlast sampled). t \<notin> set (stop_tokens c)) \<and>
    decode_end c (\<exists>u \<ge> ds_polls d. cancelled u) n sampled (gs_healthy (ds_session d')) r)"
  using assms
proof (induction n arbitrary: index d)
  case 0
  then show ?case by (auto simp: shown_def emissions_def decode_end_def)
next
  case (Suc n)
  let ?d0 = "d\<lparr>ds_polls := Suc (ds_polls d)\<rparr>"
  have none: ?case if "gs_history (ds_session d') = gs_history (ds_session d)" "generation_inv M ok (ds_session d')"
    "ds_generated d' = ds_generated d" "ds_callback d' = ds_callback d"
    "decode_end c (\<exists>u \<ge> ds_polls d. cancelled u) (Suc n) [] (gs_healthy (ds_session d')) r"
    using that by (intro conjI exI [of _ "[]"]) (simp_all add: shown_def emissions_def)
  show ?case
  proof (cases "cancelled (ds_polls d)")
    case True
    then show ?thesis using Suc.prems by (intro none) (auto simp: decode_end_def)
  next
    case nc: False
    obtain x smp where sm: "sample (env_exp env) (env_gen env) (ds_sampler d)
        (gs_logits (ds_session d)) (gs_history (ds_session d)) = (x, smp)" by fastforce
    show ?thesis
    proof (cases x)
      case (Inl e)
      then show ?thesis using Suc.prems nc sm by (intro none) (auto simp: Let_def decode_end_def)
    next
      case x: (Inr tok)
      obtain q s1 where ev: "gen_evaluate M (ds_session d) tok = (q, s1)" by fastforce
      note ei = evaluate_inv [OF Suc.prems(1,2) ev]
      show ?thesis
      proof (cases q)
        case (Inl e)
        then show ?thesis using Suc.prems nc sm ev x ei by (intro none) (auto simp: Let_def decode_end_def)
      next
        case (Inr u)
        with ei have s1: "generation_inv M ok s1" "gs_healthy s1" "gs_history s1 = gs_history (ds_session d) @ [tok]"
          by auto
        obtain cb brk where em: "emit (ds_callback d) \<lparr>gt_token_id = tok, gt_index = index\<rparr> = (cb, brk)" by fastforce
        let ?show = "tok \<notin> set (stop_tokens c) \<or> emit_stop_token c"
        define d2 where "d2 = d\<lparr>ds_polls := Suc (ds_polls d), ds_sampler := smp, ds_session := s1,
          ds_generated := (if ?show then ds_generated d @ [tok] else ds_generated d),
          ds_callback := (if ?show then cb else ds_callback d)\<rparr>"
        have loop: "decode_loop M env cancelled emit c (Suc n) index d =
            (if ?show \<and> brk then (Inr (Some Callback), d2)
             else if tok \<in> set (stop_tokens c) then (Inr (Some (StopToken tok)), d2)
             else decode_loop M env cancelled emit c n (Suc index) d2)"
          using nc sm ev x Inr em by (auto simp: Let_def d2_def split: prod.splits)
        have d2: "ds_session d2 = s1" "ds_polls d2 = Suc (ds_polls d)" "ds_generated d2 = ds_generated d @ shown c [tok]"
          "ds_callback d2 = emissions emit index (shown c [tok]) (ds_callback d)"
          by (simp_all add: d2_def em shown_def emissions_def)
        consider (last) "d' = d2" "decode_end c (\<exists>u \<ge> ds_polls d. cancelled u) (Suc n) [tok] True r"
          | (more) "tok \<notin> set (stop_tokens c)" "decode_loop M env cancelled emit c n (Suc index) d2 = (r, d')"
          using Suc.prems(3) unfolding loop by (auto simp: decode_end_def split: if_splits)
        then show ?thesis
        proof cases
          case last
          then show ?thesis using s1 d2 by (intro conjI exI [of _ "[tok]"]) auto
        next
          case more
          from Suc.IH [OF _ _ more(2)] s1 d2(1) obtain sampled where ih: "generation_inv M ok (ds_session d')"
            "gs_history (ds_session d') = gs_history s1 @ sampled" "length sampled \<le> n"
            "ds_generated d' = ds_generated d2 @ shown c sampled"
            "ds_callback d' = emissions emit (Suc index) (shown c sampled) (ds_callback d2)"
            "\<forall>t \<in> set (butlast sampled). t \<notin> set (stop_tokens c)"
            "decode_end c (\<exists>u \<ge> ds_polls d2. cancelled u) n sampled (gs_healthy (ds_session d')) r" by auto
          have "shown c (tok # sampled) = tok # shown c sampled" "shown c [tok] = [tok]"
            using more(1) by (simp_all add: shown_def)
          moreover from this have "ds_callback d' = emissions emit index (tok # shown c sampled) (ds_callback d)"
            using ih(5) d2(4) by (simp add: emissions_def)
          moreover have "decode_end c (\<exists>u \<ge> ds_polls d. cancelled u) (Suc n) (tok # sampled) (gs_healthy (ds_session d')) r"
            using ih(7) more(1) by (rule decode_end_Cons) (use d2(2) in \<open>auto intro: Suc_leD\<close>)
          ultimately show ?thesis using ih s1(3) d2(3) more(1) by (intro conjI exI [of _ "tok # sampled"]) auto
        qed
      qed
    qed
  qed
qed

end

section \<open>A whole generation\<close>

text \<open>How the parts of a generation relate to its result.\<close>

definition generation_report ::
  "('s, 'e) causal_model \<Rightarrow> sampling_config \<Rightarrow> ('c \<Rightarrow> generated_token \<Rightarrow> 'c \<times> bool) \<Rightarrow> bool \<Rightarrow> nat list \<Rightarrow>
    's generation_session \<Rightarrow> 'c \<Rightarrow> 'e generation_error + generation_outcome \<Rightarrow> 's generation_session \<Rightarrow> 'c \<Rightarrow> bool" where
  "generation_report M c emit was_cancelled prompt s cb r s' cb' \<longleftrightarrow>
     (\<exists>evaluated sampled. gs_history s' = gs_history s @ evaluated @ sampled \<and> prefix evaluated prompt \<and>
        (sampled \<noteq> [] \<longrightarrow> evaluated = prompt) \<and> cb' = emissions emit 0 (shown c sampled) cb \<and>
        (\<forall>t \<in> set (butlast sampled). t \<notin> set (stop_tokens c)) \<and>
        length sampled \<le> max_new_tokens c \<and>
        (case r of
           Inl e \<Rightarrow> (\<forall>t \<in> set sampled. t \<notin> set (stop_tokens c)) \<and>
             (gs_healthy s' \<longleftrightarrow> gs_healthy s \<and> \<not> (\<exists>e'. e = GenModel e'))
         | Inr out \<Rightarrow> gs_healthy s \<and> gs_healthy s' \<and> token_ids out = shown c sampled \<and>
             generated_tokens out = length (token_ids out) \<and> length (gs_history s') \<le> context_length M \<and>
             (stopped_by out \<noteq> Cancelled \<longrightarrow> evaluated = prompt \<and> prompt_tokens out = length prompt) \<and>
             (case stopped_by out of
                StopToken t \<Rightarrow> sampled \<noteq> [] \<and> last sampled = t \<and> t \<in> set (stop_tokens c)
              | StopSequence \<Rightarrow> False
              | MaxTokens \<Rightarrow> length sampled = max_new_tokens c \<and> (\<forall>t \<in> set sampled. t \<notin> set (stop_tokens c))
              | ContextLength \<Rightarrow> length sampled < max_new_tokens c \<and> length (gs_history s') = context_length M \<and>
                  (\<forall>t \<in> set sampled. t \<notin> set (stop_tokens c))
              | Cancelled \<Rightarrow> was_cancelled \<and> (\<forall>t \<in> set sampled. t \<notin> set (stop_tokens c))
              | Callback \<Rightarrow> sampled \<noteq> [])))"

lemma admit_Inr:
  assumes "admit grant M c s prompt = Inr limit"
  shows "gs_healthy s \<and> (\<forall>t \<in> set prompt. t < vocabulary_size M) \<and>
    model_position M (gs_model s) + length prompt + limit \<le> context_length M \<and>
    limit = min (max_new_tokens c) (context_length M - model_position M (gs_model s) - length prompt) \<and>
    (prompt = [] \<longrightarrow> gs_has_logits s) \<and> is_ok (validate_sampling c (vocabulary_size M))"
  using assms
  by (auto simp: admit_def rbind_Inr Let_def tokens_in_range_def is_ok_def find_None_iff not_less
      split: if_splits option.splits sum.splits)

lemma admit_not_model: "admit grant M c s prompt \<noteq> Inl (GenModel e)"
  by (auto simp: admit_def rbind_Inl Let_def tokens_in_range_def check_def split: if_splits option.splits)

text \<open>The generations that never reach the decode loop.\<close>

lemma report_without_decode:
  assumes "gs_history s' = gs_history s @ ev" "prefix ev prompt"
    and "case r of
        Inl e \<Rightarrow> gs_healthy s' \<longleftrightarrow> gs_healthy s \<and> \<not> (\<exists>e'. e = GenModel e')
      | Inr out \<Rightarrow> gs_healthy s \<and> gs_healthy s' \<and> wc \<and> length (gs_history s') \<le> context_length M \<and>
          (\<exists>n. out = outcome [] Cancelled n)"
  shows "generation_report M c emit wc prompt s cb r s' cb"
  unfolding generation_report_def using assms
  by (intro exI [of _ ev] exI [of _ "[]"]) (auto simp: shown_def emissions_def outcome_def split: sum.splits)

text \<open>The generations whose prompt was evaluated.\<close>

lemma report_decode:
  assumes "gs_history s' = gs_history s @ prompt @ sampled" "length sampled \<le> limit"
    and "\<forall>t \<in> set (butlast sampled). t \<notin> set (stop_tokens c)" "cb' = emissions emit 0 (shown c sampled) cb"
    and "decode_end c wc limit sampled (gs_healthy s') w" "gs_healthy s"
    and "limit = min (max_new_tokens c) (context_length M - length (gs_history s) - length prompt)"
      "length (gs_history s) + length prompt + limit \<le> context_length M"
    and "r = (case w of Inl e \<Rightarrow> Inl e
      | Inr reason \<Rightarrow> Inr (outcome (shown c sampled) (case reason of Some x \<Rightarrow> x
          | None \<Rightarrow> if limit < max_new_tokens c then ContextLength else MaxTokens) (length prompt)))"
  shows "generation_report M c emit wc prompt s cb r s' cb'"
proof -
  have bound: "length sampled \<le> max_new_tokens c" "length (gs_history s') \<le> context_length M"
    using assms(1,2,7,8) by auto
  show ?thesis
  proof (cases w)
    case (Inl e)
    then show ?thesis
      unfolding generation_report_def using assms bound
      by (intro exI [of _ prompt] exI [of _ sampled]) (auto simp: decode_end_def)
  next
    case (Inr reason)
    have "length (gs_history s') = context_length M" if "length sampled = limit" "limit < max_new_tokens c"
      using that assms(1,7,8) by auto
    with assms(5,7) Inr have "case (case reason of Some x \<Rightarrow> x
        | None \<Rightarrow> if limit < max_new_tokens c then ContextLength else MaxTokens) of
          StopToken t \<Rightarrow> sampled \<noteq> [] \<and> last sampled = t \<and> t \<in> set (stop_tokens c)
        | StopSequence \<Rightarrow> False
        | MaxTokens \<Rightarrow> length sampled = max_new_tokens c \<and> (\<forall>t \<in> set sampled. t \<notin> set (stop_tokens c))
        | ContextLength \<Rightarrow> length sampled < max_new_tokens c \<and>
            length (gs_history s') = context_length M \<and> (\<forall>t \<in> set sampled. t \<notin> set (stop_tokens c))
        | Cancelled \<Rightarrow> wc \<and> (\<forall>t \<in> set sampled. t \<notin> set (stop_tokens c))
        | Callback \<Rightarrow> sampled \<noteq> []"
      by (auto simp: decode_end_def split: option.splits stop_reason.splits)
    moreover have "gs_healthy s'" using assms(5) Inr by (simp add: decode_end_def)
    ultimately show ?thesis
      unfolding generation_report_def using assms(1,3,4,6,9) bound Inr
      by (intro exI [of _ prompt] exI [of _ sampled]) (simp add: outcome_def)
  qed
qed

lemma prefill_polls: "prefill M cancelled toks s t = (r, s', t') \<Longrightarrow> t \<le> t'"
  by (induction toks arbitrary: s t) (auto split: prod.splits sum.splits if_splits dest: Suc_leD)

context causal_model_laws
begin

lemma generate_exact:
  assumes inv: "generation_inv M ok s"
    and run: "generate_stream grant env cancelled emit M c prompt s cb t = (r, s', cb', t')"
  shows "generation_inv M ok s' \<and> generation_report M c emit (\<exists>u \<ge> t. cancelled u) prompt s cb r s' cb'"
proof (cases "admit grant M c s prompt")
  case (Inl e)
  then have "r = Inl e" "s' = s" "cb' = cb" using run by (auto simp: generate_stream_def)
  then show ?thesis using inv Inl admit_not_model [of grant M c s prompt]
    by (auto intro!: report_without_decode [of _ _ "[]"])
next
  case (Inr limit)
  have len: "length (gs_history s) = model_position M (gs_model s)" using inv by (simp add: generation_inv_def)
  note ad = admit_Inr [OF Inr, folded len]
  then have healthy: "gs_healthy s" by simp
  show ?thesis
  proof (cases "cancelled t")
    case True
    then have "r = Inr (outcome [] Cancelled (length prompt))" "s' = s" "cb' = cb"
      using run Inr by (auto simp: generate_stream_def)
    then show ?thesis using inv ad True by (auto intro!: report_without_decode [of _ _ "[]"])
  next
    case nc: False
    obtain q s1 t1 where pf: "prefill M cancelled prompt s (Suc t) = (q, s1, t1)" using prod_cases3 by blast
    from prefill_inv [OF inv healthy pf] obtain ev where s1: "generation_inv M ok s1" "gs_history s1 = gs_history s @ ev"
      and q: "case q of
        Inl e \<Rightarrow> (\<exists>e'. e = GenModel e') \<and> \<not> gs_healthy s1 \<and> strict_prefix ev prompt
      | Inr True \<Rightarrow> gs_healthy s1 \<and> strict_prefix ev prompt \<and> (\<exists>u \<ge> Suc t. cancelled u)
      | Inr False \<Rightarrow> gs_healthy s1 \<and> ev = prompt" by blast
    have pre: "prefix ev prompt" using q by (auto simp: strict_prefix_def split: sum.splits bool.splits)
    then have l1: "length (gs_history s1) \<le> context_length M" using ad s1(2) prefix_length_le [OF pre] by simp
    have smp: ?thesis if "r = Inl e" "s' = s1" "cb' = cb" "gs_healthy s1 \<longleftrightarrow> \<not> (\<exists>e'. e = GenModel e')" for e
      using that s1 pre healthy by (auto intro!: report_without_decode [of _ _ ev])
    consider (err) e where "q = Inl e" | (can) "q = Inr True"
      | (new) e where "q = Inr False" "sampler_new grant (env_seed env) c (vocabulary_size M) = Inl e"
      | (full) smp where "q = Inr False" "sampler_new grant (env_seed env) c (vocabulary_size M) = Inr smp"
      by (cases q; cases "sampler_new grant (env_seed env) c (vocabulary_size M)") auto
    then show ?thesis
    proof cases
      case err
      then show ?thesis using run Inr nc pf q by (intro smp [of e]) (auto simp: generate_stream_def)
    next
      case can
      then have "r = Inr (outcome [] Cancelled (length (gs_history s1)))" "s' = s1" "cb' = cb"
        using run Inr nc pf by (auto simp: generate_stream_def)
      moreover have "gs_healthy s1" "\<exists>u \<ge> t. cancelled u" using q can by (auto dest: Suc_leD)
      ultimately show ?thesis using s1 healthy pre l1 by (auto simp del: length_append intro!: report_without_decode [of _ _ ev])
    next
      case new
      then show ?thesis using run Inr nc pf q by (intro smp [of "GenSampling e"]) (auto simp: generate_stream_def)
    next
      case full
      let ?d = "\<lparr>ds_session = s1, ds_sampler = smp, ds_generated = [], ds_callback = cb, ds_polls = t1\<rparr>"
      obtain w d where loop: "decode_loop M env cancelled emit c limit 0 ?d = (w, d)" by fastforce
      have h1: "gs_healthy s1" "ev = prompt" using q full(1) by auto
      from decode_inv [OF _ _ loop] s1 h1(1) obtain sampled where d: "generation_inv M ok (ds_session d)"
        "gs_history (ds_session d) = gs_history s1 @ sampled" "length sampled \<le> limit"
        "ds_generated d = shown c sampled" "ds_callback d = emissions emit 0 (shown c sampled) cb"
        "\<forall>t \<in> set (butlast sampled). t \<notin> set (stop_tokens c)"
        "decode_end c (\<exists>u \<ge> t1. cancelled u) limit sampled (gs_healthy (ds_session d)) w" by auto
      have rs: "s' = ds_session d" "cb' = ds_callback d" "r = (case w of Inl e \<Rightarrow> Inl e
        | Inr reason \<Rightarrow> Inr (outcome (shown c sampled) (case reason of Some x \<Rightarrow> x
            | None \<Rightarrow> if limit < max_new_tokens c then ContextLength else MaxTokens) (length prompt)))"
        using run Inr nc pf full loop d(4) by (auto simp: generate_stream_def split: sum.splits)
      have "t \<le> t1" using prefill_polls [OF pf] by simp
      then have "decode_end c (\<exists>u \<ge> t. cancelled u) limit sampled (gs_healthy (ds_session d)) w"
        using d(7) by (auto simp: decode_end_def split: sum.splits option.splits stop_reason.splits intro: order_trans)
      then have "generation_report M c emit (\<exists>u \<ge> t. cancelled u) prompt s cb r s' cb'"
        unfolding rs(1) using d s1(2) h1(2) ad rs(2)
        by (intro report_decode [OF _ d(3) d(6) _ _ healthy _ _ rs(3)]) auto
      then show ?thesis using d(1) rs(1) by simp
    qed
  qed
qed

end

section \<open>Continuing a session\<close>

text \<open>Without cancellation the number of polls has no influence.\<close>

lemma prefill_append:
  "prefill M cancelled (p @ q) s t =
     (case prefill M cancelled p s t of (Inr False, s1, t1) \<Rightarrow> prefill M cancelled q s1 t1 | other \<Rightarrow> other)"
  by (induction p arbitrary: s t) (auto split: prod.splits sum.splits bool.splits)

lemma prefill_any_poll:
  "fst (prefill M (\<lambda>_. False) p s t) = fst (prefill M (\<lambda>_. False) p s u) \<and>
   fst (snd (prefill M (\<lambda>_. False) p s t)) = fst (snd (prefill M (\<lambda>_. False) p s u))"
  by (induction p arbitrary: s t u) (auto split: prod.splits sum.splits)

definition no_polls :: "('s, 'r, 'c) decode_state \<Rightarrow> ('s, 'r, 'c) decode_state" where
  "no_polls d = d\<lparr>ds_polls := 0\<rparr>"

lemma decode_loop_any_poll:
  "no_polls d = no_polls e \<Longrightarrow>
    map_prod id no_polls (decode_loop M env (\<lambda>_. False) emit c n index d) =
    map_prod id no_polls (decode_loop M env (\<lambda>_. False) emit c n index e)"
proof (induction n arbitrary: d e index)
  case 0
  then show ?case by simp
next
  case (Suc n)
  obtain s smp g cb t where d: "d = \<lparr>ds_session = s, ds_sampler = smp, ds_generated = g, ds_callback = cb, ds_polls = t\<rparr>"
    by (cases d)
  then obtain u where e: "e = \<lparr>ds_session = s, ds_sampler = smp, ds_generated = g, ds_callback = cb, ds_polls = u\<rparr>"
    using Suc.prems by (cases e) (auto simp: no_polls_def)
  obtain x smp' where sm: "sample (env_exp env) (env_gen env) smp (gs_logits s) (gs_history s) = (x, smp')" by fastforce
  show ?case
  proof (cases x)
    case (Inl y)
    then show ?thesis by (simp add: d e sm no_polls_def)
  next
    case (Inr tok)
    obtain q s1 where ev: "gen_evaluate M s tok = (q, s1)" by fastforce
    obtain cb' brk where em: "emit cb \<lparr>gt_token_id = tok, gt_index = index\<rparr> = (cb', brk)" by fastforce
    show ?thesis
      using Inr Suc.IH [unfolded no_polls_def id_def, of _ _ "Suc index"]
      by (cases q) (auto simp: d e sm ev em no_polls_def Let_def id_def)
  qed
qed

context causal_model_laws
begin

lemma admit_continue:
  assumes inv: "generation_inv M ok s" "gs_healthy s" and p: "prefill M cancelled p s t = (Inr False, s1, t1)"
    and a: "admit (\<lambda>_. True) M c s (p @ q) = Inr limit"
  shows "admit (\<lambda>_. True) M c s1 q = Inr limit"
proof -
  from prefill_inv [OF inv p] have s1: "generation_inv M ok s1" "gs_healthy s1" "gs_history s1 = gs_history s @ p"
    by auto
  have pos: "model_position M (gs_model s1) = model_position M (gs_model s) + length p"
    using inv(1) s1(1,3) by (simp add: generation_inv_def)
  have logits: "q = [] \<Longrightarrow> gs_has_logits s1"
    using admit_Inr [OF a] s1 inv by (cases "p = []") (auto simp: generation_inv_def)
  note ad = admit_Inr [OF a]
  from a have v: "validate_sampling c (vocabulary_size M) = Inr ()"
    and lim: "length (p @ q) + limit < u64_limit"
    by (auto simp: admit_def rbind_Inr Let_def split: if_splits)
  have "find (\<lambda>t. vocabulary_size M \<le> t) q = None"
    using ad unfolding find_None_iff by (metis Un_iff not_less set_append)
  moreover have "model_position M (gs_model s1) + length q \<le> context_length M" using ad pos by simp
  then have "\<not> (context_length M < model_position M (gs_model s1) \<or>
      context_length M - model_position M (gs_model s1) < length q)" by linarith
  moreover have "context_length M - model_position M (gs_model s1) - length q =
      context_length M - model_position M (gs_model s) - length (p @ q)"
    using pos by simp
  moreover have "length q + limit < u64_limit" using lim by simp
  ultimately show ?thesis
    using v s1(2) logits ad unfolding admit_def by (simp add: tokens_in_range_def Let_def checked_add_def)
qed

text \<open>Generating after an evaluated prefix is generating from the whole prompt.\<close>

lemma generate_continue:
  assumes inv: "generation_inv M ok s" "gs_healthy s" and p: "prefill M (\<lambda>_. False) p s t0 = (Inr False, s1, t1)"
    and a: "admit (\<lambda>_. True) M c s (p @ q) = Inr limit"
    and whole: "generate_stream (\<lambda>_. True) env (\<lambda>_. False) emit M c (p @ q) s cb t = (r, s', cb', t')"
    and rest: "generate_stream (\<lambda>_. True) env (\<lambda>_. False) emit M c q s1 cb u = (r2, s2, cb2, u2)"
  shows "s' = s2 \<and> cb' = cb2 \<and>
    (case r of Inl e \<Rightarrow> r2 = Inl e | Inr out \<Rightarrow> r2 = Inr (out\<lparr>prompt_tokens := length q\<rparr>))"
proof -
  note a2 = admit_continue [OF inv p a]
  obtain x w v where q: "prefill M (\<lambda>_. False) q s1 t1 = (x, w, v)" using prod_cases3 by blast
  obtain v1 where "prefill M (\<lambda>_. False) p s (Suc t) = (Inr False, s1, v1)"
    using prefill_any_poll [of M p s "Suc t" t0] p by (metis fst_conv prod.exhaust_sel snd_conv)
  then obtain v2 where p2: "prefill M (\<lambda>_. False) (p @ q) s (Suc t) = (x, w, v2)"
    using prefill_any_poll [of M q s1 v1 t1] q by (simp add: prefill_append) (metis fst_conv prod.exhaust_sel snd_conv)
  obtain v3 where q2: "prefill M (\<lambda>_. False) q s1 (Suc u) = (x, w, v3)"
    using prefill_any_poll [of M q s1 "Suc u" t1] q by (metis fst_conv prod.exhaust_sel snd_conv)
  consider e where "x = Inl e" | "x = Inr True" | "x = Inr False" by (cases x) auto
  then show ?thesis
  proof cases
    case 2
    have "generation_inv M ok s1" "gs_healthy s1" using prefill_inv [OF inv p] by auto
    from prefill_inv [OF this q] 2 show ?thesis by auto
  next
    case 3
    show ?thesis
    proof (cases "sampler_new (\<lambda>_. True) (env_seed env) c (vocabulary_size M)")
      case (Inr smp)
      let ?d = "\<lambda>n. \<lparr>ds_session = w, ds_sampler = smp, ds_generated = [], ds_callback = cb, ds_polls = n\<rparr>"
      obtain y d where d: "decode_loop M env (\<lambda>_. False) emit c limit 0 (?d v2) = (y, d)" by fastforce
      obtain y' d' where d': "decode_loop M env (\<lambda>_. False) emit c limit 0 (?d v3) = (y', d')" by fastforce
      have "y = y'" "ds_session d = ds_session d'" "ds_generated d = ds_generated d'" "ds_callback d = ds_callback d'"
        using decode_loop_any_poll [of "?d v2" "?d v3" M env emit c limit 0]
        by (cases d; cases d'; simp add: d d' no_polls_def)+
      then show ?thesis
        using whole rest a a2 p2 q2 3 Inr d d'
        by (auto simp: generate_stream_def outcome_def split: sum.splits)
    qed (use whole rest a a2 p2 q2 3 in \<open>auto simp: generate_stream_def\<close>)
  qed (use whole rest a a2 p2 q2 in \<open>auto simp: generate_stream_def\<close>)
qed

end

text \<open>A poisoned session refuses every generation and is left as it is.\<close>

lemma generate_poisoned:
  "\<not> gs_healthy s \<Longrightarrow> validate_sampling c (vocabulary_size M) = Inr () \<Longrightarrow>
    generate_stream grant env cancelled emit M c prompt s cb t = (Inl SessionPoisoned, s, cb, t)"
  by (simp add: generate_stream_def admit_def)

end
