(* ===== verification/Hy3_Generation.thy ===== *)
theory Hy3_Generation
  imports Hy3_Cached Generation
begin

text \<open>
  The Hy3 model as a \<^verbatim>\<open>CausalModel\<close> (\<^verbatim>\<open>bridge-runtime/src/hy3_scalar.rs\<close>) and generation over it
  (\<^verbatim>\<open>bridge-runtime/src/generation.rs\<close>): the laws the generator relies on hold of the model, so what is
  proved of the generator holds of generation with a loaded checkpoint.
\<close>

section \<open>The model interface\<close>

text \<open>
  The session type carries the expert cache, which is shared: \<open>cs0\<close> is its state when a session is created.
  The generator's interface has no value for a call that waits for ever; such a call is given an error here,
  and \<open>evaluation_keeps_session\<close> says that it does not happen in a session that satisfies its invariant.
\<close>

definition hy3_causal ::
  "run_env \<Rightarrow> 'e hy3_model \<Rightarrow> expert_cache \<Rightarrow> (session \<times> expert_cache, ('e, 'j) scalar_error) causal_model" where
  "hy3_causal env hm cs0 =
     \<lparr>vocabulary_size = hc_vocabulary_size (hm_config hm), context_length = hm_context_capacity hm,
      new_model_session = map_sum id (\<lambda>ss. (ss, cs0)) (new_session env hm),
      reset_model_session = reset_session,
      model_position = (\<lambda>st. ss_position (fst st)),
      evaluate_token = (\<lambda>st tok logits. case evaluate env hm st tok logits of
          Some result \<Rightarrow> result
        | None \<Rightarrow> (Inl (ScExpertCache (LoadErrorCache ReservationLost)), st, logits))\<rparr>"

definition model_ready :: "'f hy3_model \<Rightarrow> expert_cache \<Rightarrow> bool" where
  "model_ready hm cs0 \<longleftrightarrow> cache_sized hm \<and> length (hm_layers hm) = hc_block_count (hm_config hm) \<and>
     cache_inv (hm_cache_config hm) {#} {#} cs0"

definition runnable :: "'f hy3_model \<Rightarrow> expert_cache \<Rightarrow> session \<times> expert_cache \<Rightarrow> bool" where
  "runnable hm cs0 st \<longleftrightarrow> (model_ready hm cs0 \<longrightarrow> session_ok hm st)"

section \<open>Positions\<close>

text \<open>Only the end of a successful evaluation, a rollback and a reset move the position.\<close>

lemma step_positions:
  fixes r :: "('e, 'j) scalar_error + unit" and q :: "('e, 'j) scalar_error + routed_expert list"
  shows "dense_layer env hm layer l e ss = (r, ss') \<Longrightarrow> ss_position ss' = ss_position ss"
    and "moe_route env hm layer l moe ss = (q, ss') \<Longrightarrow> ss_position ss' = ss_position ss"
    and "moe_finish env hm moe routes ss = (r, ss') \<Longrightarrow> ss_position ss' = ss_position ss"
  using moe_finish_effect [of env hm moe routes ss r ss']
  by (auto simp: dense_layer_def moe_route_def split: sum.splits prod.splits)

lemma moe_load_position:
  fixes r :: "('e, 'j) scalar_error + unit"
  assumes "moe_load env hm layer moe routes (ss, cs) = Some (r, ss', cs')"
  shows "ss_position ss' = ss_position ss"
proof (cases "check (hm_cpu_backend hm \<noteq> None \<or> rn_grant env (''selected expert leases'', []) (length routes))
      (ScRun (ScAllocationFailed ''selected expert leases'' (length routes))) :: ('e, 'j) scalar_error + unit")
  case (Inl err)
  then show ?thesis using assms by (auto simp: moe_load_def clear_leases_def Let_def simp del: check_Inl)
next
  case (Inr u)
  note run = assms [unfolded moe_load_def clear_leases_def Let_def prod.case Inr sum.case]
  then obtain q :: "('e, 'j) scalar_error + lease list" and cs1 where
    "load_routes (load_route env hm layer (on_layout moe) (ss_position ss)) routes [] (drop_leases (ss_leases ss) cs) = Some (q, cs1)"
    by (auto simp del: load_routes.simps)
  then show ?thesis using run by (cases q) auto
qed

lemma evaluate_layer_position:
  fixes r :: "('e, 'j) scalar_error + unit"
  assumes "evaluate_layer env hm layer l (ss, cs) = Some (r, ss', cs')"
  shows "ss_position ss' = ss_position ss"
proof (cases "4294967296 \<le> layer")
  case True
  then show ?thesis using assms by (simp add: evaluate_layer_def)
next
  case small: False
  show ?thesis
  proof (cases "lw_feed_forward l")
    case (DenseWeights e)
    then show ?thesis
      using assms small step_positions(1)
      by (auto simp: evaluate_layer_def split: prod.splits)
  next
    case (MoeWeights moe)
    have run: "moe_layer env hm layer l moe (ss, cs) = Some (r, ss', cs')"
      using assms small MoeWeights by (simp add: evaluate_layer_def)
    obtain q :: "('e, 'j) scalar_error + routed_expert list" and ss1 where q: "moe_route env hm layer l moe ss = (q, ss1)" by fastforce
    note p1 = step_positions(2) [OF q]
    show ?thesis
    proof (cases q)
      case (Inl err)
      then show ?thesis using run q p1 by (auto simp: moe_layer_def)
    next
      case (Inr routes)
      obtain w :: "('e, 'j) scalar_error + unit" and ss2 cs2 where
        w: "moe_load env hm layer moe routes (ss1, cs) = Some (w, ss2, cs2)"
        using run q Inr by (auto simp: moe_layer_def)
      obtain f :: "('e, 'j) scalar_error + unit" and ss3 where f: "moe_finish env hm moe routes ss2 = (f, ss3)" by fastforce
      show ?thesis
        using run q Inr w f p1 moe_load_position [OF w] step_positions(3) [OF f]
        by (cases w; cases f) (auto simp: moe_layer_def clear_leases_def)
    qed
  qed
qed

lemma evaluate_layers_position:
  fixes r :: "('e, 'j) scalar_error + unit"
  shows "evaluate_layers env hm layer ls (ss, cs) = Some (r, ss', cs') \<Longrightarrow> ss_position ss' = ss_position ss"
proof (induction ls arbitrary: layer ss cs)
  case (Cons l ls)
  obtain q :: "('e, 'j) scalar_error + unit" and ss1 cs1 where
    one: "evaluate_layer env hm layer l (ss, cs) = Some (q, ss1, cs1)"
    using Cons.prems by (auto split: bind_splits)
  show ?case
  proof (cases q)
    case (Inl err)
    then show ?thesis using Cons.prems one evaluate_layer_position [OF one] by auto
  next
    case (Inr u)
    then show ?thesis using Cons.prems one Cons.IH [of "Suc layer" ss1 cs1] evaluate_layer_position [OF one] by auto
  qed
qed simp

lemma evaluate_inner_position:
  fixes r :: "('e, 'j) scalar_error + unit"
  assumes "evaluate_inner env hm (ss, cs) tok logits = Some (r, (ss', cs'), out)"
  shows "ss_position ss' = ss_position ss + (if is_ok r then 1 else 0) \<and> length out = length logits \<and>
    (if is_ok r then ss_position ss < hm_context_capacity hm \<and> tok < hc_vocabulary_size (hm_config hm) else True)"
proof (cases "embed_token hm ss tok (length logits) :: ('e, 'j) scalar_error + _")
  case (Inl err)
  then show ?thesis using assms by (auto simp: evaluate_inner_def is_ok_def)
next
  case (Inr h)
  obtain w :: "('e, 'j) scalar_error + unit" and ss2 cs2 where
    run: "evaluate_layers env hm 0 (hm_layers hm) (ss\<lparr>ss_hidden := h\<rparr>, cs) = Some (w, ss2, cs2)"
    using assms Inr by (auto simp: evaluate_inner_def)
  note p = evaluate_layers_position [OF run, simplified]
  obtain q :: "('e, 'j) scalar_error + f32 list" and ss3 where out: "evaluate_output env hm ss2 (length logits) = (q, ss3)"
    by fastforce
  show ?thesis
    using assms Inr run out p evaluate_output_effect [OF out] embed_token_Inr [OF Inr]
    by (cases w; cases q) (auto simp: evaluate_inner_def is_ok_def)
qed

lemma evaluate_position:
  fixes r :: "('e, 'j) scalar_error + unit"
  assumes "evaluate env hm (ss, cs) tok logits = Some (r, (ss', cs'), out)"
  shows "ss_position ss' = ss_position ss + (if is_ok r then 1 else 0) \<and> length out = length logits \<and>
    (if is_ok r then ss_position ss < hm_context_capacity hm \<and> tok < hc_vocabulary_size (hm_config hm) else True)"
proof -
  obtain q :: "('e, 'j) scalar_error + unit" and ss1 cs1 out1 where
    inner: "evaluate_inner env hm (ss, cs) tok logits = Some (q, (ss1, cs1), out1)"
    using assms by (auto simp: evaluate_def)
  note p = evaluate_inner_position [OF inner]
  show ?thesis
  proof (cases q)
    case (Inr u)
    then show ?thesis using assms inner p by (auto simp: evaluate_def)
  next
    case (Inl err)
    obtain b :: "('e, 'j) scalar_error + unit" and ss2 cs2 where rb: "rollback_to (ss1, cs1) (ss_position ss) = (b, ss2, cs2)"
      by (metis prod.exhaust)
    have "ss_position ss2 = ss_position ss"
      using rb p Inl by (auto simp: rollback_to_def clear_leases_def is_ok_def split: prod.splits sum.splits)
    then show ?thesis using assms inner p Inl rb by (cases b) (auto simp: evaluate_def is_ok_def)
  qed
qed

section \<open>The laws of the interface\<close>

lemma new_session_position: "new_session env hm = (Inr ss :: ('e, 'j) scalar_error + session) \<Longrightarrow> ss_position ss = 0"
  by (auto simp: new_session_def rbind_Inr Let_def split: list.splits ff_weights.splits)

lemma reset_session_position: "ss_position (fst (reset_session st)) = 0"
  by (simp add: reset_session_def clear_leases_def split: prod.split)

lemma hy3_new_law:
  assumes "new_model_session (hy3_causal env hm cs0 :: (_, ('e, 'j) scalar_error) causal_model) = Inr m"
  shows "runnable hm cs0 m \<and> ss_position (fst m) = 0"
proof -
  obtain ss where ss: "new_session env hm = (Inr ss :: ('e, 'j) scalar_error + session)" "m = (ss, cs0)"
    using assms by (cases "new_session env hm :: ('e, 'j) scalar_error + session") (auto simp: hy3_causal_def)
  then show ?thesis
    using new_session_ok [OF ss(1), of cs0] new_session_position [OF ss(1)] by (auto simp: runnable_def model_ready_def)
qed

lemma hy3_eval_law:
  fixes r :: "('e, 'j) scalar_error + unit"
  assumes "runnable hm cs0 m" "evaluate_token (hy3_causal env hm cs0) m tok l = (r, m', l')"
  shows "runnable hm cs0 m' \<and> length l' = length l \<and> ss_position (fst m') = ss_position (fst m) + (if is_ok r then 1 else 0) \<and>
    (if is_ok r then ss_position (fst m) < hm_context_capacity hm \<and> tok < hc_vocabulary_size (hm_config hm) else True)"
proof -
  obtain ss cs where m: "m = (ss, cs)" by fastforce
  obtain ss' cs' where m': "m' = (ss', cs')" by fastforce
  have run: "(case evaluate env hm (ss, cs) tok l :: ('e, 'j) evaluated of Some result \<Rightarrow> result
      | None \<Rightarrow> (Inl (ScExpertCache (LoadErrorCache ReservationLost)), (ss, cs), l)) = (r, (ss', cs'), l')"
    using assms(2) by (simp add: hy3_causal_def m m')
  show ?thesis
  proof (cases "evaluate env hm (ss, cs) tok l :: ('e, 'j) evaluated")
    case None
    then show ?thesis using run assms(1) by (auto simp: m m' is_ok_def)
  next
    case (Some res)
    then have e: "evaluate env hm (ss, cs) tok l = Some (r, (ss', cs'), l')" using run by simp
    have "session_ok hm (ss', cs')" if "model_ready hm cs0"
    proof -
      have "cache_sized hm" "session_ok hm (ss, cs)" using that assms(1) by (simp_all add: model_ready_def runnable_def m)
      from evaluate_runs [OF this, of env tok l, where 'j = 'j] e show ?thesis by fastforce
    qed
    then show ?thesis using evaluate_position [OF e] by (auto simp: runnable_def m m')
  qed
qed

lemma hy3_laws: "causal_model_laws (hy3_causal env hm cs0 :: (_, ('e, 'j) scalar_error) causal_model) (runnable hm cs0)"
proof (rule causal_model_laws.intro)
  let ?M = "hy3_causal env hm cs0 :: (_, ('e, 'j) scalar_error) causal_model"
  have pos: "model_position ?M m = ss_position (fst m)" "vocabulary_size ?M = hc_vocabulary_size (hm_config hm)"
    "context_length ?M = hm_context_capacity hm" for m
    by (simp_all add: hy3_causal_def)
  show "new_model_session ?M = Inr m \<Longrightarrow> runnable hm cs0 m \<and> model_position ?M m = 0" for m
    unfolding pos by (rule hy3_new_law)
  show "runnable hm cs0 m \<Longrightarrow> runnable hm cs0 (reset_model_session ?M m) \<and> model_position ?M (reset_model_session ?M m) = 0" for m
    using reset_session_ok [of hm m] reset_session_position [of m] by (auto simp: pos runnable_def) (simp_all add: hy3_causal_def)
  show "runnable hm cs0 m' \<and> length l' = length l \<and> model_position ?M m' = model_position ?M m + (if is_ok r then 1 else 0)"
    if "runnable hm cs0 m" "evaluate_token ?M m tok l = (r, m', l')" for m tok l r m' l'
    using hy3_eval_law [OF that] by (simp add: pos)
  show "model_position ?M m < context_length ?M \<and> tok < vocabulary_size ?M"
    if "runnable hm cs0 m" "evaluate_token ?M m tok l = (Inr (), m', l')" for m tok l m' l'
    using hy3_eval_law [OF that] by (simp add: pos is_ok_def)
qed

interpretation hy3: causal_model_laws "hy3_causal env hm cs0" "runnable hm cs0" for env hm cs0
  by (rule hy3_laws)

section \<open>Generation with a loaded model\<close>

type_synonym ('e, 'j) hy3_interface = "(session \<times> expert_cache, ('e, 'j) scalar_error) causal_model"

definition hy3_inv :: "run_env \<Rightarrow> 'e hy3_model \<Rightarrow> expert_cache \<Rightarrow> 'j itself \<Rightarrow> (session \<times> expert_cache) generation_session \<Rightarrow> bool" where
  "hy3_inv env hm cs0 j s \<longleftrightarrow>
     generation_inv (hy3_causal env hm cs0 :: ('e, 'j) hy3_interface) (runnable hm cs0) s"

lemma hy3_inv_session:
  assumes "model_ready hm cs0" "hy3_inv env hm cs0 j s"
  shows "session_ok hm (gs_model s)"
    "list_all (\<lambda>rows. length rows = length (gs_history s)) (stored_rows hm (fst (gs_model s)))"
proof -
  show ok: "session_ok hm (gs_model s)" using assms by (simp add: hy3_inv_def generation_inv_def runnable_def)
  have "length (gs_history s) = ss_position (fst (gs_model s))"
    using assms(2) by (simp add: hy3_inv_def generation_inv_def hy3_causal_def)
  then show "list_all (\<lambda>rows. length rows = length (gs_history s)) (stored_rows hm (fst (gs_model s)))"
    using ok by (auto simp: session_ok_def Let_def stored_rows_def list_all_iff simp del: length_kv_abs)
qed

text \<open> C1.
  A generation with a loaded checkpoint. Whatever ends it, the history is the old one with the evaluated part
  of the prompt and the sampled tokens, every layer of the key/value cache stores exactly as many tokens as
  the history has, the callback has seen exactly the shown tokens in order, nothing is evaluated after a stop
  token, and the reported reason is the true one; a model failure (and nothing else) poisons the session.
\<close>

theorem hy3_generation_exact:
  fixes hm :: "'e hy3_model"
  assumes "model_ready hm cs0" "hy3_inv env hm cs0 TYPE('j) s"
  shows "case generate_stream grant smp cancelled emit (hy3_causal env hm cs0 :: ('e, 'j) hy3_interface) c prompt s cb t of
    (r, s', cb', t') \<Rightarrow> hy3_inv env hm cs0 TYPE('j) s' \<and> session_ok hm (gs_model s') \<and>
      list_all (\<lambda>rows. length rows = length (gs_history s')) (stored_rows hm (fst (gs_model s'))) \<and>
      generation_report (hy3_causal env hm cs0 :: ('e, 'j) hy3_interface) c emit (\<exists>u \<ge> t. cancelled u) prompt s cb r s' cb'"
proof (cases "generate_stream grant smp cancelled emit (hy3_causal env hm cs0 :: ('e, 'j) hy3_interface) c prompt s cb t")
  case (fields r s' cb' t')
  from hy3.generate_exact [OF assms(2) [unfolded hy3_inv_def] fields]
  have "hy3_inv env hm cs0 TYPE('j) s'"
    "generation_report (hy3_causal env hm cs0 :: ('e, 'j) hy3_interface) c emit (\<exists>u \<ge> t. cancelled u) prompt s cb r s' cb'"
    by (simp_all add: hy3_inv_def)
  with hy3_inv_session [OF assms(1) this(1)] show ?thesis by (simp add: fields)
qed

definition zero_generation :: "(session \<times> expert_cache) generation_session" where
  "zero_generation = \<lparr>gs_model = (zero_session, zero_expert_cache), gs_history = [], gs_logits = [7, 7],
     gs_has_logits = False, gs_healthy = True\<rparr>"

definition zero_sampler :: "unit sampler_env" where
  "zero_sampler = \<lparr>env_exp = \<lambda>x. x, env_seed = \<lambda>_. (), env_gen = \<lambda>_. (0, ())\<rparr>"

lemma zero_ready: "model_ready zero_model zero_expert_cache"
proof -
  have "accounted zero_model (zero_session, zero_expert_cache)" using zero_session_ok by (simp add: session_ok_def Let_def)
  then have "cache_inv (hm_cache_config zero_model) {#} {#} zero_expert_cache"
    by (simp add: accounted_def lease_keys_def) (simp add: zero_session_def)
  then show ?thesis using zero_sized by (simp add: model_ready_def) (simp add: zero_model_def)
qed

lemma zero_generation_inv: "hy3_inv zero_env zero_model zero_expert_cache j zero_generation"
proof -
  have "runnable zero_model zero_expert_cache (zero_session, zero_expert_cache)" using zero_session_ok by (simp add: runnable_def)
  then show ?thesis
    by (simp add: hy3_inv_def generation_inv_def zero_generation_def hy3_causal_def) (simp add: zero_session_def zero_model_def)
qed

theorem hy3_generation_exact_witness:
  "\<exists>r s' cb' t'. generate_stream (\<lambda>_. True) zero_sampler (\<lambda>_. False) (\<lambda>_ _. ((), False))
      (hy3_causal zero_env zero_model zero_expert_cache :: (unit, unit) hy3_interface) default_sampling_config [0]
      zero_generation () 0 = (r, s', cb', t') \<and> session_ok zero_model (gs_model s')"
  using hy3_generation_exact [OF zero_ready zero_generation_inv, where grant = "\<lambda>_. True" and smp = zero_sampler and
      cancelled = "\<lambda>_. False" and emit = "\<lambda>_ _. ((), False)" and c = default_sampling_config and prompt = "[0]" and cb = "()" and t = 0
      and 'j = unit]
  by (auto split: prod.splits)

text \<open> C12.
  Generating in pieces is generating at once: after a prefix of the prompt has been evaluated, generating from
  the rest gives the same tokens, the same stop reason, the same session and the same callback state as
  generating from the whole prompt; only the reported prompt length differs.
\<close>

theorem hy3_generation_continues:
  fixes hm :: "'e hy3_model"
  assumes "hy3_inv env hm cs0 TYPE('j) s" "gs_healthy s"
    and "prefill (hy3_causal env hm cs0 :: ('e, 'j) hy3_interface) (\<lambda>_. False) p s t0 = (Inr False, s1, t1)"
    and "admit (\<lambda>_. True) (hy3_causal env hm cs0 :: ('e, 'j) hy3_interface) c s (p @ q) = Inr limit"
  shows "case (generate_stream (\<lambda>_. True) smp (\<lambda>_. False) emit (hy3_causal env hm cs0 :: ('e, 'j) hy3_interface) c (p @ q) s cb t,
        generate_stream (\<lambda>_. True) smp (\<lambda>_. False) emit (hy3_causal env hm cs0 :: ('e, 'j) hy3_interface) c q s1 cb u) of
      ((r, s', cb', t'), (r2, s2, cb2, u2)) \<Rightarrow> s' = s2 \<and> cb' = cb2 \<and>
        (case r of Inl e \<Rightarrow> r2 = Inl e | Inr out \<Rightarrow> r2 = Inr (out\<lparr>prompt_tokens := length q\<rparr>))"
proof -
  obtain r s' cb' t' where whole: "generate_stream (\<lambda>_. True) smp (\<lambda>_. False) emit (hy3_causal env hm cs0 :: ('e, 'j) hy3_interface)
      c (p @ q) s cb t = (r, s', cb', t')" by (rule prod_cases4)
  obtain r2 s2 cb2 u2 where rest: "generate_stream (\<lambda>_. True) smp (\<lambda>_. False) emit (hy3_causal env hm cs0 :: ('e, 'j) hy3_interface)
      c q s1 cb u = (r2, s2, cb2, u2)" by (rule prod_cases4)
  from hy3.generate_continue [OF assms(1) [unfolded hy3_inv_def] assms(2-4) whole rest] show ?thesis
    unfolding whole rest prod.case .
qed

lemma zero_prefill:
  "\<exists>s1 t1. prefill (hy3_causal zero_env zero_model zero_expert_cache :: (unit, unit) hy3_interface) (\<lambda>_. False) [0]
     zero_generation 0 = (Inr False, s1, t1)"
proof -
  obtain st where "evaluate zero_env zero_model (zero_session, zero_expert_cache) 0 [7, 7] =
      Some (Inr () :: (unit, unit) scalar_error + unit, st, [0, 0])"
    using zero_evaluation by blast
  then show ?thesis by (simp add: gen_evaluate_def hy3_causal_def zero_generation_def)
qed

lemma zero_admits:
  "admit (\<lambda>_. True) (hy3_causal zero_env zero_model zero_expert_cache :: (unit, unit) hy3_interface) default_sampling_config
     zero_generation ([0] @ []) = Inr 2"
proof -
  have "hc_vocabulary_size (hm_config zero_model) = 2" "hm_context_capacity zero_model = 3" by (simp_all add: zero_model_def)
  then show ?thesis
    by (simp add: admit_def hy3_causal_def zero_generation_def zero_session_def tokens_in_range_def default_sampling_config_def
        validate_sampling_def f32_compare checked_add_def u64_limit_def Let_def)
qed

theorem hy3_generation_continues_witness:
  "\<exists>s1 t1 r s' cb t' r2 cb2 u2.
     generate_stream (\<lambda>_. True) zero_sampler (\<lambda>_. False) (\<lambda>_ _. ((), False)) (hy3_causal zero_env zero_model zero_expert_cache :: (unit, unit) hy3_interface)
       default_sampling_config [0] zero_generation () 0 = (r, s', cb, t') \<and>
     prefill (hy3_causal zero_env zero_model zero_expert_cache :: (unit, unit) hy3_interface) (\<lambda>_. False) [0] zero_generation 0 =
       (Inr False, s1, t1) \<and>
     generate_stream (\<lambda>_. True) zero_sampler (\<lambda>_. False) (\<lambda>_ _. ((), False)) (hy3_causal zero_env zero_model zero_expert_cache :: (unit, unit) hy3_interface)
       default_sampling_config [] s1 () 0 = (r2, s', cb2, u2)"
proof -
  obtain s1 t1 where p: "prefill (hy3_causal zero_env zero_model zero_expert_cache :: (unit, unit) hy3_interface) (\<lambda>_. False) [0]
     zero_generation 0 = (Inr False, s1, t1)"
    using zero_prefill by blast
  have h: "gs_healthy zero_generation" by (simp add: zero_generation_def)
  from hy3_generation_continues [OF zero_generation_inv h p zero_admits, where smp = zero_sampler and emit = "\<lambda>_ _. ((), False)" and
      cb = "()" and t = 0 and u = 0] p
  show ?thesis by (auto split: prod.splits)
qed

text \<open>
  Sessions of the generator start and restart empty and healthy, on a well-formed model session at position
  zero.
\<close>

theorem hy3_sessions_start:
  fixes hm :: "'e hy3_model"
  assumes "hy3_inv env hm cs0 TYPE('j) s"
  shows "(case generator_new_session grant (hy3_causal env hm cs0 :: ('e, 'j) hy3_interface) of
      Inl e \<Rightarrow> True
    | Inr s' \<Rightarrow> hy3_inv env hm cs0 TYPE('j) s' \<and> gs_history s' = [] \<and> gs_healthy s') \<and>
    (let s' = generator_reset (hy3_causal env hm cs0 :: ('e, 'j) hy3_interface) s in
      hy3_inv env hm cs0 TYPE('j) s' \<and> gs_history s' = [] \<and> gs_healthy s')"
proof -
  have "hy3_inv env hm cs0 TYPE('j) s' \<and> gs_history s' = [] \<and> gs_healthy s'"
    if "generator_new_session grant (hy3_causal env hm cs0 :: ('e, 'j) hy3_interface) = Inr s'" for s'
    using hy3.new_session_inv [OF that] by (simp add: hy3_inv_def)
  then show ?thesis
    using hy3.reset_inv [OF assms [unfolded hy3_inv_def]] by (auto simp: hy3_inv_def Let_def split: sum.split)
qed

theorem hy3_sessions_start_witness:
  "gs_history (generator_reset (hy3_causal zero_env zero_model zero_expert_cache :: (unit, unit) hy3_interface) zero_generation) = []"
  using hy3_sessions_start [OF zero_generation_inv, where 'j = unit]
  by (simp add: Let_def)

end
