(* ===== verification/Output_Commit.thy ===== *)
theory Output_Commit
  imports Source_Binding
begin

text \<open>
  Writing the outputs of \<^verbatim>\<open>crates/bridge-prepare/src/lib.rs\<close>: output paths, the checks of the targets, the
  commit of the two finished files by renaming, with backups of what they replace, the restoration of the
  backups, and the removal of the temporary files.

  The directory tree is a map from paths to nodes. Every call that changes it takes one tick of the disk's
  clock, at which the operating system may report a fault; a call that fails changes nothing, except that a
  failed write may have written a part of its bytes.
\<close>

section \<open>A disk with faults\<close>

datatype node = FileNode "byte list" | OtherNode

record disk =
  dk_nodes :: "path \<Rightarrow> node option"
  dk_time :: nat

text \<open>
  The faults of mutating calls and of inspections, the bytes a failing write still wrote, and the error of
  a call whose operand is missing, present or not a file.
\<close>

record 'e disk_env =
  de_fault :: "nat \<Rightarrow> 'e option"
  de_stat :: "nat \<Rightarrow> 'e option"
  de_partial :: "nat \<Rightarrow> nat"
  de_refused :: 'e

definition tick :: "disk \<Rightarrow> disk" where "tick d = d\<lparr>dk_time := Suc (dk_time d)\<rparr>"

text \<open>\<^verbatim>\<open>fs::rename\<close> replaces a file at the destination.\<close>

definition fs_rename :: "'e disk_env \<Rightarrow> path \<Rightarrow> path \<Rightarrow> disk \<Rightarrow> ('e + unit) \<times> disk" where
  "fs_rename env source target d =
     (case de_fault env (dk_time d) of
        Some e \<Rightarrow> (Inl e, tick d)
      | None \<Rightarrow>
          (case dk_nodes d source of
             None \<Rightarrow> (Inl (de_refused env), tick d)
           | Some node \<Rightarrow>
               (if dk_nodes d target = Some OtherNode then (Inl (de_refused env), tick d)
                else (Inr (), (tick d)\<lparr>dk_nodes := (dk_nodes d)(source := None, target \<mapsto> node)\<rparr>))))"

definition fs_remove :: "'e disk_env \<Rightarrow> path \<Rightarrow> disk \<Rightarrow> ('e + unit) \<times> disk" where
  "fs_remove env p d =
     (case de_fault env (dk_time d) of
        Some e \<Rightarrow> (Inl e, tick d)
      | None \<Rightarrow>
          (case dk_nodes d p of
             Some (FileNode _) \<Rightarrow> (Inr (), (tick d)\<lparr>dk_nodes := (dk_nodes d)(p := None)\<rparr>)
           | _ \<Rightarrow> (Inl (de_refused env), tick d)))"

text \<open>\<^verbatim>\<open>OpenOptions::create_new\<close>, \<^verbatim>\<open>write_all\<close> on the file it opened, and the flush and sync of it.\<close>

definition fs_create_new :: "'e disk_env \<Rightarrow> path \<Rightarrow> disk \<Rightarrow> ('e + unit) \<times> disk" where
  "fs_create_new env p d =
     (case de_fault env (dk_time d) of
        Some e \<Rightarrow> (Inl e, tick d)
      | None \<Rightarrow> (if dk_nodes d p = None then (Inr (), (tick d)\<lparr>dk_nodes := (dk_nodes d)(p \<mapsto> FileNode [])\<rparr>)
                else (Inl (de_refused env), tick d)))"

definition written_at :: "disk \<Rightarrow> path \<Rightarrow> byte list" where
  "written_at d p = (case dk_nodes d p of Some (FileNode bytes) \<Rightarrow> bytes | _ \<Rightarrow> [])"

definition fs_append :: "'e disk_env \<Rightarrow> path \<Rightarrow> byte list \<Rightarrow> disk \<Rightarrow> ('e + unit) \<times> disk" where
  "fs_append env p bytes d =
     (case de_fault env (dk_time d) of
        Some e \<Rightarrow> (Inl e, (tick d)\<lparr>dk_nodes := (dk_nodes d)(p \<mapsto> FileNode (written_at d p @ take (de_partial env (dk_time d)) bytes))\<rparr>)
      | None \<Rightarrow> (Inr (), (tick d)\<lparr>dk_nodes := (dk_nodes d)(p \<mapsto> FileNode (written_at d p @ bytes))\<rparr>))"

definition fs_sync :: "'e disk_env \<Rightarrow> disk \<Rightarrow> ('e + unit) \<times> disk" where
  "fs_sync env d = (case de_fault env (dk_time d) of Some e \<Rightarrow> (Inl e, tick d) | None \<Rightarrow> (Inr (), tick d))"

text \<open>\<^verbatim>\<open>Path::exists\<close> is false when the inspection fails; \<^verbatim>\<open>fs::metadata\<close> reports it.\<close>

definition fs_exists :: "'e disk_env \<Rightarrow> path \<Rightarrow> disk \<Rightarrow> bool \<times> disk" where
  "fs_exists env p d = (dk_nodes d p \<noteq> None \<and> de_stat env (dk_time d) = None, tick d)"

definition fs_is_file_at :: "'e disk_env \<Rightarrow> path \<Rightarrow> disk \<Rightarrow> ('e + bool) \<times> disk" where
  "fs_is_file_at env p d =
     (case de_stat env (dk_time d) of
        Some e \<Rightarrow> (Inl e, tick d)
      | None \<Rightarrow> (case dk_nodes d p of
          None \<Rightarrow> (Inl (de_refused env), tick d) | Some node \<Rightarrow> (Inr (node \<noteq> OtherNode), tick d)))"

text \<open>Chains of calls that may fail on a state they have changed.\<close>

definition then_do :: "('x + 'a) \<times> 's \<Rightarrow> ('a \<Rightarrow> 's \<Rightarrow> ('x + 'b) \<times> 's) \<Rightarrow> ('x + 'b) \<times> 's" where
  "then_do r f = (case r of (Inl e, s) \<Rightarrow> (Inl e, s) | (Inr a, s) \<Rightarrow> f a s)"

definition fail_as :: "('e \<Rightarrow> 'x) \<Rightarrow> ('e + 'a) \<times> 's \<Rightarrow> ('x + 'a) \<times> 's" where
  "fail_as f r = (map_err f (fst r), snd r)"

section \<open>Paths\<close>

definition file_name :: "path \<Rightarrow> string option" where
  "file_name p = (if p = [] \<or> last p \<in> {''/'', ''.'', ''..''} then None else Some (last p))"

definition with_file_name :: "path \<Rightarrow> string \<Rightarrow> path" where
  "with_file_name p name = butlast p @ [name]"

definition temporary_path :: "(path \<Rightarrow> string) \<Rightarrow> path \<Rightarrow> string \<Rightarrow> nat \<Rightarrow> ('e, 'j) prepare_error + path" where
  "temporary_path display target kind nonce =
     rbind (ok_or (InvalidOutputPath (display target)) (file_name target)) (\<lambda>name.
     Inr (with_file_name target (''.'' @ name @ ''.lightbridge-'' @ kind @ ''-'' @ dec_string nonce @ ''.tmp'')))"

definition absolute_output_path ::
  "(path \<Rightarrow> string) \<Rightarrow> (path \<Rightarrow> 'e + path) \<Rightarrow> path \<Rightarrow> ('e, 'j) prepare_error + path" where
  "absolute_output_path display canonicalize p =
     rbind (ok_or (InvalidOutputPath (display p)) (file_name p)) (\<lambda>name.
     let parent = (if butlast p = [] then [''.''] else butlast p) in
     rbind (map_err (OutputIo (display parent) ''canonicalize output directory'') (canonicalize parent)) (\<lambda>parent.
     Inr (parent @ [name])))"

section \<open>The targets\<close>

definition check_source ::
  "(path \<Rightarrow> string) \<Rightarrow> (path \<Rightarrow> 'e + path) \<Rightarrow> path \<Rightarrow> path \<Rightarrow> gguf_shard \<Rightarrow> ('e, 'j) prepare_error + unit" where
  "check_source display canonicalize data manifest shard =
     rbind (map_err (SourceIo (display (sh_path shard)) ''canonicalize source'') (canonicalize (sh_path shard))) (\<lambda>source.
     check (\<not> (data = source \<or> manifest = source)) (OutputOverwritesSource (display source)))"

definition check_target ::
  "'e disk_env \<Rightarrow> (path \<Rightarrow> string) \<Rightarrow> bool \<Rightarrow> path \<Rightarrow> disk \<Rightarrow> (('e, 'j) prepare_error + unit) \<times> disk" where
  "check_target env display overwrite target d =
     (case fs_exists env target d of
        (False, d1) \<Rightarrow> (Inr (), d1)
      | (True, d1) \<Rightarrow>
          then_do (fail_as (OutputIo (display target) ''inspect output target'') (fs_is_file_at env target d1)) (\<lambda>is_file d2.
            (if \<not> is_file then Inl (OutputNotAFile (display target))
             else if \<not> overwrite then Inl (OutputExists (display target)) else Inr (), d2)))"

definition validate_output_targets ::
  "'e disk_env \<Rightarrow> (path \<Rightarrow> string) \<Rightarrow> (path \<Rightarrow> 'e + path) \<Rightarrow> gguf_set \<Rightarrow> path \<Rightarrow> path \<Rightarrow> bool \<Rightarrow> disk \<Rightarrow>
    (('e, 'j) prepare_error + unit) \<times> disk" where
  "validate_output_targets env display canonicalize st data manifest overwrite d =
     (case rbind (check (data \<noteq> manifest) (OutputCollision (display data))) (\<lambda>_.
           map_res (check_source display canonicalize data manifest) (gs_files st)) of
        Inl e \<Rightarrow> (Inl e, d)
      | Inr _ \<Rightarrow> then_do (check_target env display overwrite data d) (\<lambda>_. check_target env display overwrite manifest))"

section \<open>Committing\<close>

definition restore_backups ::
  "'e disk_env \<Rightarrow> path \<Rightarrow> path \<Rightarrow> path \<Rightarrow> path \<Rightarrow> bool \<Rightarrow> bool \<Rightarrow> disk \<Rightarrow> disk" where
  "restore_backups env data manifest backup_data backup_manifest data_backed_up manifest_backed_up d =
     (let d1 = (if data_backed_up then snd (fs_rename env backup_data data d) else d) in
      if manifest_backed_up then snd (fs_rename env backup_manifest manifest d1) else d1)"

text \<open>Moving an existing target out of the way; the result says whether there was one.\<close>

definition back_up ::
  "'e disk_env \<Rightarrow> bool \<Rightarrow> path \<Rightarrow> path \<Rightarrow> disk \<Rightarrow> ('e + bool) \<times> disk" where
  "back_up env overwrite target backup d =
     (if overwrite then
        (case fs_exists env target d of
           (False, d1) \<Rightarrow> (Inr False, d1)
         | (True, d1) \<Rightarrow> then_do (fs_rename env target backup d1) (\<lambda>_ d2. (Inr True, d2)))
      else (Inr False, d))"

text \<open>The two renames that put the finished files in place.\<close>

definition put_in_place ::
  "'e disk_env \<Rightarrow> (path \<Rightarrow> string) \<Rightarrow> path \<Rightarrow> path \<Rightarrow> path \<Rightarrow> path \<Rightarrow> (disk \<Rightarrow> disk) \<Rightarrow> disk \<Rightarrow>
    (('e, 'j) prepare_error + unit) \<times> disk" where
  "put_in_place env display temporary_data temporary_manifest data manifest restore d =
     (case fs_rename env temporary_data data d of
        (Inl e, d1) \<Rightarrow> (Inl (CommitIo ''commit sidecar'' (display data) e), restore d1)
      | (Inr _, d1) \<Rightarrow>
          (case fs_rename env temporary_manifest manifest d1 of
             (Inl e, d2) \<Rightarrow> (Inl (CommitIo ''commit manifest'' (display manifest) e), restore (snd (fs_remove env data d2)))
           | (Inr _, d2) \<Rightarrow> (Inr (), d2)))"

definition commit_outputs ::
  "'e disk_env \<Rightarrow> (path \<Rightarrow> string) \<Rightarrow> path \<Rightarrow> path \<Rightarrow> path \<Rightarrow> path \<Rightarrow> bool \<Rightarrow> nat \<Rightarrow> disk \<Rightarrow>
    (('e, 'j) prepare_error + unit) \<times> disk" where
  "commit_outputs env display temporary_data temporary_manifest data manifest overwrite nonce d =
     (case rbind (temporary_path display data ''data-backup'' nonce) (\<lambda>backup_data.
           rbind (temporary_path display manifest ''manifest-backup'' nonce) (\<lambda>backup_manifest.
           Inr (backup_data, backup_manifest))) of
        Inl e \<Rightarrow> (Inl e, d)
      | Inr (backup_data, backup_manifest) \<Rightarrow>
          then_do (fail_as (CommitIo ''back up existing sidecar'' (display data)) (back_up env overwrite data backup_data d))
            (\<lambda>data_backed_up d1.
             case back_up env overwrite manifest backup_manifest d1 of
               (Inl e, d2) \<Rightarrow>
                 (Inl (CommitIo ''back up existing manifest'' (display manifest) e),
                  if data_backed_up then snd (fs_rename env backup_data data d2) else d2)
             | (Inr manifest_backed_up, d2) \<Rightarrow>
                 then_do (put_in_place env display temporary_data temporary_manifest data manifest
                     (restore_backups env data manifest backup_data backup_manifest data_backed_up manifest_backed_up) d2)
                   (\<lambda>_ d3.
                    let d4 = (if data_backed_up then snd (fs_remove env backup_data d3) else d3) in
                    (Inr (), if manifest_backed_up then snd (fs_remove env backup_manifest d4) else d4))))"

text \<open>The drop of \<^verbatim>\<open>TemporaryOutputs\<close> while it is armed.\<close>

definition drop_temporaries :: "'e disk_env \<Rightarrow> path \<Rightarrow> path \<Rightarrow> disk \<Rightarrow> disk" where
  "drop_temporaries env temporary_data temporary_manifest d =
     snd (fs_remove env temporary_manifest (snd (fs_remove env temporary_data d)))"

section \<open>What a commit guarantees\<close>

lemma tick_simps [simp]: "dk_nodes (tick d) = dk_nodes d" "dk_time (tick d) = Suc (dk_time d)"
  by (simp_all add: tick_def)

lemma then_do_simps [simp]: "then_do (Inl e, s) f = (Inl e, s)" "then_do (Inr a, s) f = f a s"
  by (simp_all add: then_do_def)

lemma fail_as_simps [simp]: "fail_as f (Inl e, s) = (Inl (f e), s)" "fail_as f (Inr a, s) = (Inr a, s)"
  by (simp_all add: fail_as_def)

text \<open>
  The situation of a commit: six different paths, finished temporary files, no backups of this run, targets
  that are files or absent, and absent where nothing may be replaced.
\<close>

definition staged :: "path \<Rightarrow> path \<Rightarrow> path \<Rightarrow> path \<Rightarrow> path \<Rightarrow> path \<Rightarrow> bool \<Rightarrow> disk \<Rightarrow> bool" where
  "staged td tm data manifest bd bm overwrite d \<longleftrightarrow>
     distinct [td, tm, data, manifest, bd, bm] \<and>
     dk_nodes d td \<notin> {None, Some OtherNode} \<and> dk_nodes d tm \<notin> {None, Some OtherNode} \<and>
     dk_nodes d bd = None \<and> dk_nodes d bm = None \<and>
     dk_nodes d data \<noteq> Some OtherNode \<and> dk_nodes d manifest \<noteq> Some OtherNode \<and>
     (overwrite \<or> dk_nodes d data = None \<and> dk_nodes d manifest = None)"

definition one_fault :: "'e disk_env \<Rightarrow> bool" where
  "one_fault env \<longleftrightarrow> (\<forall>t u. de_fault env t \<noteq> None \<longrightarrow> de_fault env u \<noteq> None \<longrightarrow> t = u)"

text \<open>What a disk holds after a commit, and what it still holds after a failed one.\<close>

definition committed :: "path \<Rightarrow> path \<Rightarrow> path \<Rightarrow> path \<Rightarrow> path \<Rightarrow> path \<Rightarrow> disk \<Rightarrow> disk \<Rightarrow> bool" where
  "committed td tm data manifest bd bm d d' \<longleftrightarrow>
     dk_nodes d' data = dk_nodes d td \<and> dk_nodes d' manifest = dk_nodes d tm \<and>
     dk_nodes d' td = None \<and> dk_nodes d' tm = None \<and>
     (\<forall>p. p \<notin> {td, tm, data, manifest, bd, bm} \<longrightarrow> dk_nodes d' p = dk_nodes d p)"

definition nothing_lost :: "path \<Rightarrow> path \<Rightarrow> path \<Rightarrow> path \<Rightarrow> path \<Rightarrow> disk \<Rightarrow> disk \<Rightarrow> bool" where
  "nothing_lost td data manifest bd bm d d' \<longleftrightarrow>
     (dk_nodes d data \<noteq> None \<longrightarrow> dk_nodes d' data = dk_nodes d data \<or> dk_nodes d' bd = dk_nodes d data) \<and>
     (dk_nodes d manifest \<noteq> None \<longrightarrow> dk_nodes d' manifest = dk_nodes d manifest \<or> dk_nodes d' bm = dk_nodes d manifest) \<and>
     (\<forall>p. p \<notin> {td, data, manifest, bd, bm} \<longrightarrow> dk_nodes d' p = dk_nodes d p)"

lemma rename_effect:
  assumes "fs_rename env a b d = (r, d')"
  shows "dk_time d' = Suc (dk_time d) \<and>
    (case r of Inl _ \<Rightarrow> dk_nodes d' = dk_nodes d \<and>
        (de_fault env (dk_time d) \<noteq> None \<or> dk_nodes d a = None \<or> dk_nodes d b = Some OtherNode)
     | Inr _ \<Rightarrow> dk_nodes d a \<noteq> None \<and> de_fault env (dk_time d) = None \<and>
        dk_nodes d' = (dk_nodes d)(a := None, b := dk_nodes d a))"
  using assms by (auto simp: fs_rename_def split: option.splits if_splits)

lemma remove_effect:
  assumes "fs_remove env p d = (r, d')"
  shows "dk_time d' = Suc (dk_time d) \<and>
    (case r of Inl _ \<Rightarrow> dk_nodes d' = dk_nodes d \<and>
        (de_fault env (dk_time d) \<noteq> None \<or> dk_nodes d p = None \<or> dk_nodes d p = Some OtherNode)
     | Inr _ \<Rightarrow> de_fault env (dk_time d) = None \<and> dk_nodes d' = (dk_nodes d)(p := None))"
  using assms by (auto simp: fs_remove_def split: option.splits node.splits if_splits)

text \<open>Backing up keeps the old node at one of the two places.\<close>

lemma back_up_effect:
  assumes "back_up env overwrite target backup d = (r, d')" "dk_nodes d backup = None" "\<And>t. de_stat env t = None"
    "target \<noteq> backup"
  shows "dk_time d \<le> dk_time d' \<and>
    (case r of
       Inl _ \<Rightarrow> dk_nodes d' = dk_nodes d \<and> (\<exists>t. dk_time d \<le> t \<and> t < dk_time d' \<and> de_fault env t \<noteq> None)
     | Inr moved \<Rightarrow> moved = (overwrite \<and> dk_nodes d target \<noteq> None) \<and>
         dk_nodes d' = (if moved then (dk_nodes d)(target := None, backup := dk_nodes d target) else dk_nodes d))"
proof (cases "overwrite \<and> dk_nodes d target \<noteq> None")
  case False
  then show ?thesis using assms by (auto simp: back_up_def fs_exists_def split: if_splits)
next
  case True
  obtain q d2 where q: "fs_rename env target backup (tick d) = (q, d2)" by fastforce
  show ?thesis using True assms q rename_effect [OF q]
    by (cases q) (auto simp: back_up_def fs_exists_def intro!: exI [of _ "Suc (dk_time d)"])
qed

text \<open>Putting one backup back, when there is one.\<close>

lemma put_back_effect:
  assumes "a \<noteq> b" "up = (old \<noteq> None)" "dk_nodes d a = old" "dk_nodes d b \<noteq> Some OtherNode"
    and "d' = (if up then snd (fs_rename env a b d) else d)"
  shows "(old = None \<or> dk_nodes d' b = old \<or> dk_nodes d' a = old) \<and> dk_time d \<le> dk_time d' \<and>
    (\<forall>p. p \<notin> {a, b} \<longrightarrow> dk_nodes d' p = dk_nodes d p) \<and>
    ((\<forall>t \<ge> dk_time d. de_fault env t = None) \<and> (up \<or> dk_nodes d b = None) \<longrightarrow>
       dk_nodes d' b = old \<and> dk_nodes d' a = None)"
proof (cases up)
  case False
  then show ?thesis using assms by auto
next
  case True
  obtain r e where r: "fs_rename env a b d = (r, e)" by fastforce
  then have "d' = e" using assms(5) True by simp
  with rename_effect [OF r] show ?thesis using True assms(1-4) by (cases r) auto
qed

lemma restore_effect:
  assumes "distinct [data, manifest, bd, bm]" "data_up = (n data \<noteq> None)" "manifest_up = (n manifest \<noteq> None)"
    and "dk_nodes d bd = n data" "dk_nodes d bm = n manifest"
    and "dk_nodes d data \<noteq> Some OtherNode" "dk_nodes d manifest \<noteq> Some OtherNode"
    and "d' = restore_backups env data manifest bd bm data_up manifest_up d"
  shows "(n data = None \<or> dk_nodes d' data = n data \<or> dk_nodes d' bd = n data) \<and>
    (n manifest = None \<or> dk_nodes d' manifest = n manifest \<or> dk_nodes d' bm = n manifest) \<and>
    (\<forall>p. p \<notin> {data, manifest, bd, bm} \<longrightarrow> dk_nodes d' p = dk_nodes d p) \<and>
    ((\<forall>t \<ge> dk_time d. de_fault env t = None) \<and> (data_up \<or> dk_nodes d data = None) \<and>
       (manifest_up \<or> dk_nodes d manifest = None) \<longrightarrow>
      dk_nodes d' data = n data \<and> dk_nodes d' manifest = n manifest \<and> dk_nodes d' bd = None \<and> dk_nodes d' bm = None)"
proof -
  define e where "e = (if data_up then snd (fs_rename env bd data d) else d)"
  have d': "d' = (if manifest_up then snd (fs_rename env bm manifest e) else e)"
    using assms(8) by (simp add: restore_backups_def e_def Let_def)
  have "bd \<noteq> data" "bm \<noteq> manifest" using assms(1) by auto
  note 1 = put_back_effect [OF this(1) assms(2,4,6) e_def]
  have e: "dk_nodes e bm = n manifest" "dk_nodes e manifest = dk_nodes d manifest"
    using 1 assms(1,5) by auto
  have m: "dk_nodes e manifest \<noteq> Some OtherNode" using e assms(7) by simp
  note 2 = put_back_effect [OF \<open>bm \<noteq> manifest\<close> assms(3) e(1) m d']
  have out: "dk_nodes d' data = dk_nodes e data" "dk_nodes d' bd = dk_nodes e bd"
    using 2 assms(1) by auto
  have rest: "dk_nodes d' p = dk_nodes d p" if "p \<notin> {data, manifest, bd, bm}" for p using 1 2 that by auto
  have later: "(\<forall>t \<ge> dk_time d. de_fault env t = None) \<Longrightarrow> (\<forall>t \<ge> dk_time e. de_fault env t = None)" using 1 by auto
  show ?thesis
  proof (intro conjI impI allI)
    show "n data = None \<or> dk_nodes d' data = n data \<or> dk_nodes d' bd = n data" using 1 out by simp
    show "n manifest = None \<or> dk_nodes d' manifest = n manifest \<or> dk_nodes d' bm = n manifest" using 2 by blast
  qed (use rest 1 2 out later e in auto)
qed

text \<open>The two renames: both done, or one failed with its fault and the backups are put back.\<close>

lemma put_effect:
  fixes r :: "('e, 'j) prepare_error + unit"
  assumes "distinct [td, tm, data, manifest, bd, bm]" "data_up = (n data \<noteq> None)" "manifest_up = (n manifest \<noteq> None)"
    and "dk_nodes d bd = n data" "dk_nodes d bm = n manifest" "dk_nodes d data = None" "dk_nodes d manifest = None"
    and "dk_nodes d td = Some (FileNode x)" "dk_nodes d tm = Some (FileNode y)"
    and "put_in_place env display td tm data manifest (restore_backups env data manifest bd bm data_up manifest_up) d = (r, d')"
  shows "case r of
      Inr _ \<Rightarrow> dk_nodes d' = (dk_nodes d)(td := None, tm := None, data := Some (FileNode x), manifest := Some (FileNode y))
    | Inl _ \<Rightarrow>
       (n data = None \<or> dk_nodes d' data = n data \<or> dk_nodes d' bd = n data) \<and>
       (n manifest = None \<or> dk_nodes d' manifest = n manifest \<or> dk_nodes d' bm = n manifest) \<and>
       (\<forall>p. p \<notin> {td, data, manifest, bd, bm} \<longrightarrow> dk_nodes d' p = dk_nodes d p) \<and>
       (one_fault env \<longrightarrow> (\<forall>p. p \<notin> {td, data, manifest, bd, bm} \<longrightarrow> dk_nodes d' p = dk_nodes d p) \<and>
          dk_nodes d' data = n data \<and> dk_nodes d' manifest = n manifest \<and> dk_nodes d' bd = None \<and> dk_nodes d' bm = None)"
proof -
  let ?restore = "restore_backups env data manifest bd bm data_up manifest_up"
  obtain r1 d1 where 1: "fs_rename env td data d = (r1, d1)" by fastforce
  note e1 = rename_effect [OF 1]
  show ?thesis
  proof (cases r1)
    case (Inl e)
    then have d': "d' = ?restore d1" and r: "is_ok r = False" using assms(10) 1 by (auto simp: put_in_place_def)
    have n1: "dk_nodes d1 = dk_nodes d" "dk_time d1 = Suc (dk_time d)" and f: "de_fault env (dk_time d) \<noteq> None"
      using e1 assms Inl by auto
    have later: "one_fault env \<Longrightarrow> \<forall>t \<ge> dk_time d1. de_fault env t = None"
      using f n1 unfolding one_fault_def by (metis Suc_n_not_le_n)
    show ?thesis using restore_effect [OF _ assms(2,3) _ _ _ _ d'] assms(1,4-7) n1 later r
      by (cases r) (auto simp: fun_eq_iff)
  next
    case (Inr u)
    then have n1: "dk_nodes d1 = (dk_nodes d)(td := None, data := Some (FileNode x))" using e1 assms(8) by simp
    obtain r2 d2 where 2: "fs_rename env tm manifest d1 = (r2, d2)" by fastforce
    note e2 = rename_effect [OF 2]
    show ?thesis
    proof (cases r2)
      case (Inr u')
      have "r = Inr ()" "d' = d2" using assms(10) 1 2 \<open>r1 = Inr u\<close> Inr by (auto simp: put_in_place_def)
      moreover have "dk_nodes d2 = (dk_nodes d)(td := None, tm := None, data := Some (FileNode x), manifest := Some (FileNode y))"
        using e2 Inr n1 assms(1,9) by (auto simp: fun_eq_iff)
      ultimately show ?thesis by simp
    next
      case (Inl e)
      obtain r3 d3 where 3: "fs_remove env data d2 = (r3, d3)" by fastforce
      note e3 = remove_effect [OF 3]
      have d': "d' = ?restore d3" and r: "is_ok r = False"
        using assms(10) 1 2 3 \<open>r1 = Inr u\<close> Inl by (auto simp: put_in_place_def)
      have n2: "dk_nodes d2 = dk_nodes d1" "dk_time d2 = Suc (dk_time d1)" and f: "de_fault env (dk_time d1) \<noteq> None"
        using e2 n1 assms Inl by auto
      have later: "one_fault env \<Longrightarrow> \<forall>t \<ge> dk_time d2. de_fault env t = None"
        using f n2 unfolding one_fault_def by (metis Suc_n_not_le_n)
      have n3: "dk_nodes d3 = (dk_nodes d)(td := None, data := None) \<or>
          dk_nodes d3 = (dk_nodes d)(td := None, data := Some (FileNode x)) \<and> \<not> one_fault env" "dk_time d2 \<le> dk_time d3"
        using e3 n2 n1 later by (cases r3; auto simp: fun_eq_iff)+
      show ?thesis using restore_effect [OF _ assms(2,3) _ _ _ _ d'] assms(1,4-7) n3 later r
        by (cases r) (auto simp: fun_eq_iff)
    qed
  qed
qed

text \<open>A whole commit.\<close>

lemma temporary_path_Inr: "(temporary_path display p kind nonce :: ('e, 'j) prepare_error + _) = Inr q \<Longrightarrow>
    (temporary_path display' p kind nonce :: ('e2, 'j2) prepare_error + _) = Inr q"
  by (auto simp: temporary_path_def rbind_Inr)

text \<open>The manifest could not be backed up: the backup of the data is put back.\<close>

lemma first_backup_effect:
  assumes "distinct [td, tm, data, manifest, bd, bm]" "du = (dk_nodes d data \<noteq> None)" "dk_nodes d bd = None"
    and n2: "dk_nodes d2 = (dk_nodes d)(data := None, bd := dk_nodes d data)"
    and f: "\<exists>t < dk_time d2. de_fault env t \<noteq> None"
    and d': "d' = (if du then snd (fs_rename env bd data d2) else d2)"
  shows "nothing_lost td data manifest bd bm d d'" "one_fault env \<Longrightarrow> dk_nodes d' = dk_nodes d"
proof -
  have later: "one_fault env \<Longrightarrow> \<forall>t \<ge> dk_time d2. de_fault env t = None"
    using f unfolding one_fault_def by (metis leD)
  have backup: "dk_nodes d2 bd = dk_nodes d data" "dk_nodes d2 data \<noteq> Some OtherNode" "dk_nodes d2 data = None"
    using n2 assms(1) by auto
  have ne: "bd \<noteq> data" using assms(1) by auto
  note putb = put_back_effect [OF ne assms(2) backup(1,2) d']
  have rest: "dk_nodes d' p = dk_nodes d p" if "p \<notin> {bd, data}" for p using putb that n2 by auto
  show "nothing_lost td data manifest bd bm d d'" using putb rest assms(1) by (auto simp: nothing_lost_def)
  show "dk_nodes d' = dk_nodes d" if "one_fault env"
  proof
    fix p show "dk_nodes d' p = dk_nodes d p"
      using putb later [OF that] backup(3) rest [of p] assms(3) by (cases "p \<in> {bd, data}") auto
  qed
qed

text \<open>Both files are in place: the backups are removed, which may fail without harm.\<close>

lemma backups_removed:
  assumes "bd \<noteq> bm" "du = (dk_nodes d3 bd \<noteq> None)" "mu = (dk_nodes d3 bm \<noteq> None)"
    and "dk_nodes d3 bd \<noteq> Some OtherNode" "dk_nodes d3 bm \<noteq> Some OtherNode"
    and e4: "e4 = (if du then snd (fs_remove env bd d3) else d3)" and d': "d' = (if mu then snd (fs_remove env bm e4) else e4)"
  shows "p \<notin> {bd, bm} \<Longrightarrow> dk_nodes d' p = dk_nodes d3 p"
    "\<forall>t. de_fault env t = None \<Longrightarrow> dk_nodes d' bd = None \<and> dk_nodes d' bm = None"
proof -
  obtain r4 d4 where 4: "fs_remove env bd d3 = (r4, d4)" by fastforce
  obtain r5 d5 where 5: "fs_remove env bm e4 = (r5, d5)" by fastforce
  have n4: "dk_nodes e4 p = dk_nodes d3 p" if "p \<noteq> bd" for p
    using remove_effect [OF 4] that by (cases r4) (auto simp: e4 4)
  have n5: "dk_nodes d' p = dk_nodes e4 p" if "p \<noteq> bm" for p
    using remove_effect [OF 5] that by (cases r5) (auto simp: d' 5)
  show "dk_nodes d' p = dk_nodes d3 p" if "p \<notin> {bd, bm}" using n4 [of p] n5 [of p] that by auto
  assume ok: "\<forall>t. de_fault env t = None"
  have "dk_nodes e4 bd = None"
    using remove_effect [OF 4] ok assms(2,4) by (cases r4) (auto simp: e4 4)
  moreover have "dk_nodes d' bm = None"
    using remove_effect [OF 5] ok assms(1,3,5) n4 [of bm] by (cases r5) (auto simp: d' 5)
  ultimately show "dk_nodes d' bd = None \<and> dk_nodes d' bm = None" using n5 [of bd] assms(1) by auto
qed

lemma outputs_commit_effect:
  fixes r :: "('e, 'j) prepare_error + unit"
  assumes staged: "staged td tm data manifest bd bm overwrite d" and stat: "\<And>t. de_stat env t = None"
    and paths: "(temporary_path display data ''data-backup'' nonce :: ('e, 'j) prepare_error + _) = Inr bd"
      "(temporary_path display manifest ''manifest-backup'' nonce :: ('e, 'j) prepare_error + _) = Inr bm"
    and run: "commit_outputs env display td tm data manifest overwrite nonce d = (r, d')"
  shows "case r of
      Inr _ \<Rightarrow> committed td tm data manifest bd bm d d' \<and>
        (if \<forall>t. de_fault env t = None then dk_nodes d' bd = None \<and> dk_nodes d' bm = None else True)
    | Inl _ \<Rightarrow> nothing_lost td data manifest bd bm d d' \<and>
        (if one_fault env then dk_nodes d' = (dk_nodes d)(td := dk_nodes d' td) else True)"
proof -
  let ?n = "dk_nodes d"
  have dist: "distinct [td, tm, data, manifest, bd, bm]" using staged by (simp add: staged_def)
  obtain x y where xy: "?n td = Some (FileNode x)" "?n tm = Some (FileNode y)"
    using staged by (cases "?n td"; cases "?n tm") (auto simp: staged_def split: node.splits, (metis node.exhaust)+)
  have absent: "?n bd = None" "?n bm = None" using staged by (simp_all add: staged_def)
  have files: "?n data \<noteq> Some OtherNode" "?n manifest \<noteq> Some OtherNode" using staged by (simp_all add: staged_def)
  have over: "(overwrite \<and> ?n data \<noteq> None) = (?n data \<noteq> None)" "(overwrite \<and> ?n manifest \<noteq> None) = (?n manifest \<noteq> None)"
    using staged by (auto simp: staged_def)
  obtain r1 d1 where 1: "back_up env overwrite data bd d = (r1, d1)" by fastforce
  note e1 = back_up_effect [OF 1 absent(1) stat]
  show ?thesis
  proof (cases r1)
    case (Inl e)
    then have "dk_nodes d' = ?n" "is_ok r = False" using run paths 1 e1 dist by (auto simp: commit_outputs_def)
    then show ?thesis by (cases r) (auto simp: nothing_lost_def)
  next
    case (Inr du)
    have du: "du = (?n data \<noteq> None)" using e1 Inr over(1) dist by auto
    have n1: "dk_nodes d1 = ?n(data := None, bd := ?n data)"
      using e1 Inr du dist absent(1) by (auto simp: fun_eq_iff split: if_splits)
    obtain r2 d2 where 2: "back_up env overwrite manifest bm d1 = (r2, d2)" by fastforce
    have n1': "dk_nodes d1 bm = None" "dk_nodes d1 manifest = ?n manifest" using n1 dist absent by auto
    note e2 = back_up_effect [OF 2 n1'(1) stat, unfolded n1'(2)]
    show ?thesis
    proof (cases r2)
      case (Inl e)
      have d': "d' = (if du then snd (fs_rename env bd data d2) else d2)" and r: "is_ok r = False"
        using run paths 1 2 \<open>r1 = Inr du\<close> Inl by (auto simp: commit_outputs_def)
      have n2: "dk_nodes d2 = ?n(data := None, bd := ?n data)" and f: "\<exists>t < dk_time d2. de_fault env t \<noteq> None"
        using e2 Inl dist n1 by auto
      note undone = first_backup_effect [OF dist du absent(1) n2 f d']
      show ?thesis using undone r by (cases r) simp_all
    next
      case (Inr mu)
      have mu: "mu = (?n manifest \<noteq> None)" using e2 Inr over(2) dist by auto
      have n2: "dk_nodes d2 = ?n(data := None, manifest := None, bd := ?n data, bm := ?n manifest)"
        using e2 Inr mu n1 n1' dist absent by (auto simp: fun_eq_iff split: if_splits)
      obtain r3 d3 where 3: "(put_in_place env display td tm data manifest
          (restore_backups env data manifest bd bm du mu) d2 :: (('e, 'j) prepare_error + unit) \<times> disk) = (r3, d3)" by fastforce
      have pre: "dk_nodes d2 bd = ?n data" "dk_nodes d2 bm = ?n manifest" "dk_nodes d2 data = None" "dk_nodes d2 manifest = None"
        "dk_nodes d2 td = Some (FileNode x)" "dk_nodes d2 tm = Some (FileNode y)" using n2 dist xy by auto
      note e3 = put_effect [OF dist du mu pre 3]
      show ?thesis
      proof (cases r3)
        case (Inl e)
        have r: "r = Inl e" "d' = d3" using run paths 1 2 3 \<open>r1 = Inr du\<close> \<open>r2 = Inr mu\<close> Inl by (auto simp: commit_outputs_def)
        have rest: "dk_nodes d3 p = ?n p" if "p \<notin> {td, data, manifest, bd, bm}" for p using e3 Inl that n2 by auto
        have lost: "nothing_lost td data manifest bd bm d d3" using e3 Inl rest by (auto simp: nothing_lost_def)
        have exact: "dk_nodes d3 = ?n(td := dk_nodes d3 td)" if "one_fault env"
        proof
          fix p show "dk_nodes d3 p = (?n(td := dk_nodes d3 td)) p"
            using e3 Inl that rest [of p] absent by (cases "p \<in> {td, data, manifest, bd, bm}") auto
        qed
        from lost exact show ?thesis by (simp add: r)
      next
        case (Inr u)
        define e4 where "e4 = (if du then snd (fs_remove env bd d3) else d3)"
        have r: "r = Inr ()" and d': "d' = (if mu then snd (fs_remove env bm e4) else e4)"
          using run paths 1 2 3 \<open>r1 = Inr du\<close> \<open>r2 = Inr mu\<close> Inr by (auto simp: commit_outputs_def e4_def Let_def)
        have n3: "dk_nodes d3 = (dk_nodes d2)(td := None, tm := None, data := Some (FileNode x), manifest := Some (FileNode y))"
          using e3 Inr by simp
        have b: "dk_nodes d3 bd = ?n data" "dk_nodes d3 bm = ?n manifest" using n3 pre dist by auto
        have ne: "bd \<noteq> bm" using dist by auto
        note removed = backups_removed [OF ne du [folded b(1)] mu [folded b(2)] files [folded b] e4_def d']
        have "committed td tm data manifest bd bm d d'"
          unfolding committed_def using removed(1) n3 n2 xy dist by auto
        then show ?thesis using removed(2) by (simp add: r)
      qed
    qed
  qed
qed

section \<open>Properties\<close>


text \<open>Replacing two files; the rename of the new manifest fails.\<close>

definition demo_disk :: disk where
  "demo_disk = \<lparr>dk_nodes = [[''s''] \<mapsto> FileNode [1], [''m''] \<mapsto> FileNode [2], [''x''] \<mapsto> FileNode [3], [''y''] \<mapsto> FileNode [4]],
     dk_time = 0\<rparr>"

definition demo_faults :: "unit disk_env" where
  "demo_faults = \<lparr>de_fault = (\<lambda>t. if t = 5 then Some () else None), de_stat = (\<lambda>_. None), de_partial = (\<lambda>_. 0), de_refused = ()\<rparr>"


end
