(* ===== verification/Prepare.thy ===== *)
theory Prepare
  imports Output_Commit Expert_Payload
begin

text \<open>
  Preparing a sidecar, \<^verbatim>\<open>prepare_sidecar\<close> of \<^verbatim>\<open>crates/bridge-prepare/src/lib.rs\<close>: the records of the direct
  index are copied from the shards into one data file, each segment at the alignment its layout asks for; the
  manifest describes them; both files are written under temporary names, optionally verified, and committed.
  The writer's state is the disk, the bytes passed to the hash and the clock of reads and polls.
\<close>

section \<open>Options, report, environment\<close>

record prepare_options =
  pr_layout :: expert_layout
  pr_alignment :: nat
  pr_overwrite :: bool
  pr_verify_after_write :: bool
  pr_hash_chunk_bytes :: nat

definition prepare_options_default :: prepare_options where
  "prepare_options_default = \<lparr>pr_layout = FusedGateUp, pr_alignment = 4096, pr_overwrite = False,
     pr_verify_after_write = True, pr_hash_chunk_bytes = 8 * 1024 * 1024\<rparr>"

record prepare_report =
  rp_data_path :: path
  rp_manifest_path :: path
  rp_source_bytes_hashed :: nat
  rp_expert_payload_bytes :: nat
  rp_sidecar_bytes :: nat
  rp_record_count :: nat
  rp_sidecar_sha256 :: string
  rp_tensor_directory_sha256 :: string

text \<open>
  What the preparation uses from outside: the disk, how paths are shown and canonicalised, the shards, the
  allocator, SHA-256, the cancellation flag, the system clock and process id, the package version, the JSON
  serialiser, and how the files of a disk are seen by the reader of sidecars.
\<close>

record ('e, 'j) prepare_env =
  pe_disk :: "'e disk_env"
  pe_display :: "path \<Rightarrow> string"
  pe_canonicalize :: "path \<Rightarrow> 'e + path"
  pe_open :: "'e shard_opener"
  pe_grant :: "nat \<Rightarrow> bool"
  pe_sha :: "byte list \<Rightarrow> byte list"
  pe_cancelled :: "nat \<Rightarrow> bool"
  pe_nanos :: "nat option"
  pe_process_id :: nat
  pe_version :: string
  pe_json :: "sidecar_manifest \<Rightarrow> 'j + byte list"
  pe_view :: "disk \<Rightarrow> ('e, 'j) sidecar_env"

record writer =
  wr_disk :: disk
  wr_hashed :: "byte list"
  wr_clock :: nat

type_synonym ('e, 'j, 'a) written = "(('e, 'j) prepare_error + 'a) \<times> writer"

section \<open>Writing the data file\<close>

definition validate_prepare_options :: "prepare_options \<Rightarrow> ('e, 'j) prepare_error + unit" where
  "validate_prepare_options opts =
     rbind (map_err PrepFormat (sidecar_align_up 0 (pr_alignment opts))) (\<lambda>_. validate_hash_chunk (pr_hash_chunk_bytes opts))"

definition unique_nonce :: "('e, 'j) prepare_env \<Rightarrow> ('e, 'j) prepare_error + nat" where
  "unique_nonce env =
     rbind (ok_or ClockBeforeEpoch (pe_nanos env)) (\<lambda>nanos.
     Inr (unat ((word_of_nat nanos :: 128 word) XOR word_of_nat (pe_process_id env))))"

definition write_hashed :: "('e, 'j) prepare_env \<Rightarrow> path \<Rightarrow> byte list \<Rightarrow> writer \<Rightarrow> ('e, 'j, unit) written" where
  "write_hashed env p bytes w =
     (case fs_append (pe_disk env) p bytes (wr_disk w) of
        (Inl e, d) \<Rightarrow> (Inl (OutputIo (pe_display env p) ''write sidecar data'' e), w\<lparr>wr_disk := d\<rparr>)
      | (Inr _, d) \<Rightarrow> (Inr (), w\<lparr>wr_disk := d, wr_hashed := wr_hashed w @ bytes\<rparr>))"

function write_zeroes :: "('e, 'j) prepare_env \<Rightarrow> path \<Rightarrow> nat \<Rightarrow> writer \<Rightarrow> ('e, 'j, unit) written" where
  "write_zeroes env p remaining w =
     (if remaining = 0 then (Inr (), w)
      else let n = min remaining 8192 in
        case write_hashed env p (replicate n 0) w of
          (Inl e, w') \<Rightarrow> (Inl e, w')
        | (Inr _, w') \<Rightarrow> write_zeroes env p (remaining - n) w')"
  by pat_completeness auto
termination
  by (relation "measure (\<lambda>(env, p, remaining, w). remaining)") auto

declare write_zeroes.simps [simp del]

definition pad_to_alignment :: "('e, 'j) prepare_env \<Rightarrow> path \<Rightarrow> nat \<Rightarrow> nat \<Rightarrow> writer \<Rightarrow> ('e, 'j, nat) written" where
  "pad_to_alignment env p al position w =
     (case map_err PrepFormat (sidecar_align_up position al) of
        Inl e \<Rightarrow> (Inl e, w)
      | Inr aligned \<Rightarrow> then_do (write_zeroes env p (aligned - position) w) (\<lambda>_ w'. (Inr aligned, w')))"

definition copy_segment ::
  "('e, 'j) prepare_env \<Rightarrow> 'e direct_store \<Rightarrow> path \<Rightarrow> expert_key \<Rightarrow> payload_segment \<Rightarrow> nat \<Rightarrow> writer \<Rightarrow>
    ('e, 'j, segment \<times> nat) written" where
  "copy_segment env store p key source position w =
     (let i = sr_shard_index source in
      if i < length (ds_readers store)
      then (case read_exact_at (pe_grant env) (pe_cancelled env) (ds_readers store ! i) (fst (sr_range source))
              (snd (sr_range source)) (wr_clock w) of
              (r, t) \<Rightarrow>
                (let w1 = w\<lparr>wr_clock := t\<rparr> in
                 case rbind (map_err PrepRead r) (\<lambda>bytes.
                      rbind (check (length bytes = segment_length source)
                        (SegmentLengthMismatch key (segment_length source) (length bytes))) (\<lambda>_. Inr bytes)) of
                   Inl e \<Rightarrow> (Inl e, w1)
                 | Inr bytes \<Rightarrow>
                     then_do (write_hashed env p bytes w1) (\<lambda>_ w2.
                       (rbind (ok_or PrepArithmeticOverflow (checked_add position (length bytes))) (\<lambda>next.
                          Inr (\<lparr>sg_offset = position, sg_length = length bytes, sg_ggml_type = sr_ggml_type source\<rparr>, next)), w2))))
      else (Inl (PrepShardIndexOutOfRange i), w))"

definition write_record ::
  "('e, 'j) prepare_env \<Rightarrow> 'e direct_store \<Rightarrow> path \<Rightarrow> expert_layout \<Rightarrow> nat \<Rightarrow> direct_record \<Rightarrow> nat \<Rightarrow> writer \<Rightarrow>
    ('e, 'j, expert_record \<times> nat) written" where
  "write_record env store p layout al source position w =
     (let pad = pad_to_alignment env p al; copy = copy_segment env store p (dr_key source) in
      then_do (pad position w) (\<lambda>record_start w.
      then_do (copy (dr_gate source) record_start w) (\<lambda>(gate, position) w.
      then_do (if layout = Sequential then pad position w else (Inr position, w)) (\<lambda>position w.
      then_do (copy (dr_up source) position w) (\<lambda>(up, position) w.
      then_do (pad position w) (\<lambda>position w.
      then_do (copy (dr_down source) position w) (\<lambda>(down, position) w.
      then_do (pad position w) (\<lambda>position w.
        (rbind (ok_or PrepArithmeticOverflow (checked_sub position record_start)) (\<lambda>len.
           Inr (\<lparr>er_key = dr_key source, er_offset = record_start, er_length = len, er_gate = gate, er_up = up,
                 er_down = down\<rparr>, position)), w)))))))))"

definition add_payload :: "nat \<Rightarrow> expert_record \<Rightarrow> ('e, 'j) prepare_error + nat" where
  "add_payload payload r =
     ok_or PrepArithmeticOverflow
       (Option.bind (checked_add payload (sg_length (er_gate r))) (\<lambda>v.
        Option.bind (checked_add v (sg_length (er_up r))) (\<lambda>v. checked_add v (sg_length (er_down r)))))"

fun write_records ::
  "('e, 'j) prepare_env \<Rightarrow> 'e direct_store \<Rightarrow> path \<Rightarrow> expert_layout \<Rightarrow> nat \<Rightarrow> direct_record list \<Rightarrow> nat \<Rightarrow> nat \<Rightarrow> writer \<Rightarrow>
    ('e, 'j, expert_record list \<times> nat \<times> nat) written" where
  "write_records env store p layout al [] position payload w = (Inr ([], position, payload), w)"
| "write_records env store p layout al (source # rest) position payload w =
     (if pe_cancelled env (wr_clock w) then (Inl PrepCancelled, w\<lparr>wr_clock := Suc (wr_clock w)\<rparr>)
      else then_do (write_record env store p layout al source position (w\<lparr>wr_clock := Suc (wr_clock w)\<rparr>)) (\<lambda>(r, position') w1.
        case add_payload payload r of
          Inl e \<Rightarrow> (Inl e, w1)
        | Inr payload' \<Rightarrow>
            then_do (write_records env store p layout al rest position' payload' w1) (\<lambda>(rs, final, total) w2.
              (Inr (r # rs, final, total), w2))))"

text \<open>The whole data file: create it, write the header and the records, flush it.\<close>

definition write_data ::
  "('e, 'j) prepare_env \<Rightarrow> 'e direct_store \<Rightarrow> path \<Rightarrow> prepare_options \<Rightarrow> disk \<Rightarrow> nat \<Rightarrow>
    ('e, 'j, expert_record list \<times> nat \<times> nat) written" where
  "write_data env store p opts d t =
     (let n = length (ds_index store); header = header_encode (header_new (pr_layout opts) (pr_alignment opts) n);
          io = (\<lambda>what r. (map_err (OutputIo (pe_display env p) what) (fst r), snd r)) in
      case io ''create temporary sidecar'' (fs_create_new (pe_disk env) p d) of
        (Inl e, d1) \<Rightarrow> (Inl e, \<lparr>wr_disk = d1, wr_hashed = [], wr_clock = t\<rparr>)
      | (Inr _, d1) \<Rightarrow>
          then_do (write_hashed env p header \<lparr>wr_disk = d1, wr_hashed = [], wr_clock = t\<rparr>) (\<lambda>_ w.
          then_do (pad_to_alignment env p (pr_alignment opts) (length header) w) (\<lambda>position w.
          then_do (check (pe_grant env n) (PrepAllocationFailed n), w) (\<lambda>_ w.
          then_do (write_records env store p (pr_layout opts) (pr_alignment opts) (ds_index store) position 0 w) (\<lambda>out w.
          case io ''flush temporary sidecar'' (fs_sync (pe_disk env) (wr_disk w)) of
            (Inl e, d2) \<Rightarrow> (Inl e, w\<lparr>wr_disk := d2\<rparr>)
          | (Inr _, d2) \<Rightarrow> (Inr out, w\<lparr>wr_disk := d2\<rparr>))))))"

section \<open>The manifest and the commit\<close>

definition prepared_manifest ::
  "('e, 'j) prepare_env \<Rightarrow> prepare_options \<Rightarrow> source_file_identity list \<Rightarrow> string \<Rightarrow> expert_record list \<Rightarrow> nat \<Rightarrow> string \<Rightarrow>
    sidecar_manifest" where
  "prepared_manifest env opts files directory records len digest =
     \<lparr>sm_format = SIDECAR_FORMAT, sm_format_version = SIDECAR_FORMAT_VERSION, sm_engine_version = pe_version env,
      sm_quant_abi_version = QUANT_ABI_VERSION, sm_alignment = pr_alignment opts, sm_layout = pr_layout opts,
      sm_source_files = files, sm_tensor_directory_sha256 = directory,
      sm_sidecar = \<lparr>sd_length = len, sd_sha256 = digest\<rparr>, sm_records = records\<rparr>"

definition manifest_bytes :: "('e, 'j) prepare_env \<Rightarrow> sidecar_manifest \<Rightarrow> ('e, 'j) prepare_error + byte list" where
  "manifest_bytes env manifest =
     rbind (map_err PrepFormat (manifest_validate manifest)) (\<lambda>_.
     rbind (map_err ManifestSerialization (pe_json env manifest)) (\<lambda>bytes.
     rbind (check (length bytes \<le> MAX_MANIFEST_BYTES) (PrepManifestTooLarge (length bytes) MAX_MANIFEST_BYTES)) (\<lambda>_.
     Inr bytes)))"

definition write_manifest ::
  "('e, 'j) prepare_env \<Rightarrow> path \<Rightarrow> byte list \<Rightarrow> disk \<Rightarrow> (('e, 'j) prepare_error + unit) \<times> disk" where
  "write_manifest env p bytes d =
     then_do (fail_as (OutputIo (pe_display env p) ''create temporary manifest'') (fs_create_new (pe_disk env) p d)) (\<lambda>_ d.
     fail_as (OutputIo (pe_display env p) ''write temporary manifest'')
       (then_do (fs_append (pe_disk env) p bytes d) (\<lambda>_ d. fs_sync (pe_disk env) d)))"

definition verify_written ::
  "('e, 'j) prepare_env \<Rightarrow> path \<Rightarrow> path \<Rightarrow> disk \<Rightarrow> nat \<Rightarrow> (('e, 'j) prepare_error + unit) option" where
  "verify_written env data manifest d t =
     (case sidecar_open (pe_view env d) (pe_grant env) (pe_display env data) (pe_display env manifest) t of
        Inl e \<Rightarrow> Some (Inl (PrepSidecar e))
      | Inr sidecar \<Rightarrow>
          map_option (map_err PrepSidecar) (verify_data_hash (pe_sha env) (pe_grant env) (pe_cancelled env) sidecar t))"

text \<open>Everything that happens while the temporary outputs are armed.\<close>

definition prepare_outputs ::
  "('e, 'j) prepare_env \<Rightarrow> 'e direct_store \<Rightarrow> source_file_identity list \<Rightarrow> nat \<Rightarrow> string \<Rightarrow> prepare_options \<Rightarrow> nat \<Rightarrow>
    path \<Rightarrow> path \<Rightarrow> path \<Rightarrow> path \<Rightarrow> disk \<Rightarrow> nat \<Rightarrow> ((('e, 'j) prepare_error + prepare_report) \<times> disk) option" where
  "prepare_outputs env store files source_bytes directory opts nonce td tm data manifest d t =
     (case write_data env store td opts d t of
        (Inl e, w) \<Rightarrow> Some (Inl e, wr_disk w)
      | (Inr (records, position, payload), w) \<Rightarrow>
          (let digest = lower_hex_of (pe_sha env (wr_hashed w));
               m = prepared_manifest env opts files directory records position digest in
           case manifest_bytes env m of
             Inl e \<Rightarrow> Some (Inl e, wr_disk w)
           | Inr bytes \<Rightarrow>
               (case write_manifest env tm bytes (wr_disk w) of
                  (Inl e, d2) \<Rightarrow> Some (Inl e, d2)
                | (Inr _, d2) \<Rightarrow>
                    Option.bind (if pr_verify_after_write opts then verify_written env td tm d2 (wr_clock w) else Some (Inr ()))
                      (\<lambda>verified. Some
                        (then_do (verified, d2) (\<lambda>_ d2.
                         then_do (commit_outputs (pe_disk env) (pe_display env) td tm data manifest (pr_overwrite opts) nonce d2) (\<lambda>_ d3.
                         (Inr \<lparr>rp_data_path = data, rp_manifest_path = manifest, rp_source_bytes_hashed = source_bytes,
                               rp_expert_payload_bytes = payload, rp_sidecar_bytes = position,
                               rp_record_count = length (ds_index store), rp_sidecar_sha256 = digest,
                               rp_tensor_directory_sha256 = directory\<rparr>, d3))))))))"

text \<open>The sources: the direct store, and the identity of every source file.\<close>

definition prepare_sources ::
  "('e, 'j) prepare_env \<Rightarrow> gguf_set \<Rightarrow> validated_model \<Rightarrow> prepare_options \<Rightarrow> nat \<Rightarrow>
    ((('e, 'j) prepare_error + 'e direct_store \<times> source_file_identity list \<times> nat) \<times> nat) option" where
  "prepare_sources env st m opts t =
     (case direct_store_open (pe_grant env) (pe_open env) st m of
        Inl e \<Rightarrow> Some (Inl e, t)
      | Inr store \<Rightarrow>
          map_option (\<lambda>(r, t'). (rbind r (\<lambda>files.
              rbind (ok_or PrepArithmeticOverflow (fold (\<lambda>f acc. Option.bind acc (\<lambda>v. checked_add v (sf_length f))) files (Some 0)))
                (\<lambda>total. Inr (store, files, total))), t'))
            (hash_source_files (pe_sha env) (pe_grant env) (pe_canonicalize env) (pe_display env) (pe_open env)
              (pe_cancelled env) st (pr_hash_chunk_bytes opts) t))"

definition output_paths ::
  "('e, 'j) prepare_env \<Rightarrow> path \<Rightarrow> path \<Rightarrow> prepare_options \<Rightarrow> ('e, 'j) prepare_error + path \<times> path" where
  "output_paths env data_path manifest_path opts =
     rbind (validate_prepare_options opts) (\<lambda>_.
     rbind (absolute_output_path (pe_display env) (pe_canonicalize env) data_path) (\<lambda>data.
     rbind (absolute_output_path (pe_display env) (pe_canonicalize env) manifest_path) (\<lambda>manifest.
     Inr (data, manifest))))"

definition temporary_paths ::
  "('e, 'j) prepare_env \<Rightarrow> path \<Rightarrow> path \<Rightarrow> ('e, 'j) prepare_error + nat \<times> path \<times> path" where
  "temporary_paths env data manifest =
     rbind (unique_nonce env) (\<lambda>nonce.
     rbind (temporary_path (pe_display env) data ''data'' nonce) (\<lambda>td.
     rbind (temporary_path (pe_display env) manifest ''manifest'' nonce) (\<lambda>tm. Inr (nonce, td, tm))))"

definition prepare_sidecar ::
  "('e, 'j) prepare_env \<Rightarrow> gguf_set \<Rightarrow> validated_model \<Rightarrow> path \<Rightarrow> path \<Rightarrow> prepare_options \<Rightarrow> disk \<Rightarrow> nat \<Rightarrow>
    ((('e, 'j) prepare_error + prepare_report) \<times> disk) option" where
  "prepare_sidecar env st m data_path manifest_path opts d t =
     (case output_paths env data_path manifest_path opts of
        Inl e \<Rightarrow> Some (Inl e, d)
      | Inr (data, manifest) \<Rightarrow>
          (case validate_output_targets (pe_disk env) (pe_display env) (pe_canonicalize env) st data manifest (pr_overwrite opts) d of
             (Inl e, d1) \<Rightarrow> Some (Inl e, d1)
           | (Inr _, d1) \<Rightarrow>
               (if pe_cancelled env t then Some (Inl PrepCancelled, d1)
                else Option.bind (prepare_sources env st m opts (Suc t)) (\<lambda>(sources, t1).
                  case rbind sources (\<lambda>s. rbind (temporary_paths env data manifest) (\<lambda>paths. Inr (s, paths))) of
                    Inl e \<Rightarrow> Some (Inl e, d1)
                  | Inr ((store, files, source_bytes), nonce, td, tm) \<Rightarrow>
                      map_option (\<lambda>(r, d2). case r of
                          Inl e \<Rightarrow> (Inl e, drop_temporaries (pe_disk env) td tm d2)
                        | Inr report \<Rightarrow> (Inr report, d2))
                        (prepare_outputs env store files source_bytes (tensor_directory_sha256 (pe_sha env) st) opts nonce
                          td tm data manifest d1 t1)))))"

section \<open>Every preparation returns\<close>

declare source_hash_loop.simps [code] hash_loop.simps [code]

lemma source_hash_loop_returns:
  assumes "0 < chunk"
  shows "source_hash_loop cancelled f chunk offset hashed t \<noteq> None"
proof (induction "pf_length f - offset" arbitrary: offset hashed t rule: less_induct)
  case less
  show ?case
  proof (cases "offset < pf_length f")
    case True
    define n where "n = min (pf_length f - offset) chunk"
    have "pf_length f - (offset + n) < pf_length f - offset" using True assms by (simp add: n_def)
    note IH = less [OF this]
    obtain r buf t' where rd: "read_exact_at_into f cancelled offset (replicate n 0) (Suc t) = (r, buf, t')"
      by (metis prod.exhaust)
    then show ?thesis using True IH
      by (subst source_hash_loop.simps) (cases r; auto simp: checked_add_def Let_def simp flip: n_def)
  qed (subst source_hash_loop.simps, simp)
qed

lemma hash_loop_returns:
  assumes "0 < chunk"
  shows "hash_loop grant cancelled f chunk offset hashed t \<noteq> None"
proof (induction "pf_length f - offset" arbitrary: offset hashed t rule: less_induct)
  case less
  show ?case
  proof (cases "offset < pf_length f")
    case True
    define n where "n = min (pf_length f - offset) chunk"
    have "pf_length f - (offset + n) < pf_length f - offset" using True assms by (simp add: n_def)
    note IH = less [OF this]
    obtain r t' where rd: "read_exact_at grant cancelled f offset (offset + n) t = (r, t')" by fastforce
    then show ?thesis using True IH
      by (subst hash_loop.simps) (cases r; auto simp: checked_add_def Let_def simp flip: n_def)
  qed (subst hash_loop.simps, simp)
qed

lemma bind_None: "Option.bind a f = None \<longleftrightarrow> a = None \<or> (\<exists>v. a = Some v \<and> f v = None)"
  by (cases a) auto

lemma hash_source_list_returns: "\<forall>ish t. one ish t \<noteq> None \<Longrightarrow> hash_source_list one xs t \<noteq> None"
  by (induction xs arbitrary: t) (auto simp: bind_None iff del: not_None_eq split: sum.splits)

lemma hash_source_files_returns: "hash_source_files sha grant canonicalize display opener cancelled st chunk t \<noteq> None"
proof (cases "0 < chunk")
  case True
  have "hash_source_file sha grant canonicalize display opener cancelled chunk ish t \<noteq> None" for ish t
    by (auto simp: hash_source_file_def source_hash_loop_returns [OF True] iff del: not_None_eq split: prod.splits sum.splits)
  then have "\<forall>ish t. hash_source_file sha grant canonicalize display opener cancelled chunk ish t \<noteq> None" by blast
  from hash_source_list_returns [OF this] show ?thesis
    by (auto simp: hash_source_files_def iff del: not_None_eq split: sum.split)
qed (simp add: hash_source_files_def validate_hash_chunk_def)

lemma verify_written_returns: "verify_written env data manifest d t \<noteq> None"
proof (cases "sidecar_open (pe_view env d) (pe_grant env) (pe_display env data) (pe_display env manifest) t")
  case (Inr sidecar)
  then have "64 \<le> max_request_bytes (pf_limits (sc_data sidecar))"
    by (auto simp: sidecar_open_def positioned_open_def rbind_Inr maximum_record_def SIDECAR_HEADER_BYTES_def split: sum.splits if_splits)
  then have "0 < min (max_request_bytes (pf_limits (sc_data sidecar))) (8 * 1024 * 1024)" by simp
  from hash_loop_returns [OF this] Inr show ?thesis
    by (simp add: verify_written_def verify_data_hash_def Let_def)
qed (simp add: verify_written_def)

lemma prepare_outputs_returns:
  "prepare_outputs env store files source_bytes directory opts nonce td tm data manifest d t \<noteq> None"
  by (auto simp: prepare_outputs_def Let_def verify_written_returns bind_None iff del: not_None_eq
      split: sum.split prod.split)

lemma prepare_sources_returns: "prepare_sources env st m opts t \<noteq> None"
  by (auto simp: prepare_sources_def hash_source_files_returns iff del: not_None_eq split: sum.split)

text \<open> C39.
  A preparation always returns, whatever the options, the shards, the disk, the faults and the cancellation
  flag are: the loops over the source files and over the written data file make progress because a chunk of
  zero bytes is refused first, and a sidecar that opens can be read 64 bytes at a time.
\<close>

theorem prepare_returns:
  "\<exists>r d'. prepare_sidecar env st m data_path manifest_path opts d t = Some (r, d')"
proof -
  have "prepare_sidecar env st m data_path manifest_path opts d t \<noteq> None"
    by (auto simp: prepare_sidecar_def prepare_sources_returns prepare_outputs_returns bind_None
        iff del: not_None_eq split: sum.split prod.split)
  then show ?thesis by auto
qed

end
