(* ===== verification/Prepare_Copy.thy ===== *)
theory Prepare_Copy
  imports Prepare
begin

text \<open>
  What a prepared sidecar holds: the data file is the hashed bytes, every segment of its records is the slab
  the direct store would read, and therefore an expert has the same payload in both sources.
\<close>

section \<open>Writing and hashing in step\<close>

lemma then_do_Inr: "then_do r f = (Inr b, s') \<longleftrightarrow> (\<exists>a s. r = (Inr a, s) \<and> f a s = (Inr b, s'))"
  by (cases r; cases "fst r") (auto simp: then_do_def)

definition in_step :: "path \<Rightarrow> writer \<Rightarrow> bool" where
  "in_step p w \<longleftrightarrow> dk_nodes (wr_disk w) p = Some (FileNode (wr_hashed w))"

text \<open>From \<open>w\<close> to \<open>w'\<close>, \<open>bs\<close> was written to \<open>p\<close> and hashed, and nothing else was written.\<close>

definition writes :: "path \<Rightarrow> writer \<Rightarrow> byte list \<Rightarrow> writer \<Rightarrow> bool" where
  "writes p w bs w' \<longleftrightarrow> (in_step p w \<longrightarrow> in_step p w') \<and> wr_hashed w' = wr_hashed w @ bs \<and>
     (\<forall>q. q \<noteq> p \<longrightarrow> dk_nodes (wr_disk w') q = dk_nodes (wr_disk w) q)"

lemma writes_refl: "writes p w [] w" "writes p (w\<lparr>wr_clock := t\<rparr>) bs w' \<Longrightarrow> writes p w bs w'"
  by (auto simp: writes_def in_step_def)

lemma writes_trans: "writes p w xs w1 \<Longrightarrow> writes p w1 ys w2 \<Longrightarrow> writes p w (xs @ ys) w2"
  by (auto simp: writes_def)

lemma write_hashed_Inr: "write_hashed env p bs w = (Inr u, w') \<Longrightarrow> writes p w bs w'"
  by (auto simp: write_hashed_def fs_append_def writes_def in_step_def written_at_def split: option.splits prod.splits sum.splits)

lemma write_zeroes_Inr: "write_zeroes env p n w = (Inr u, w') \<Longrightarrow> writes p w (replicate n 0) w'"
proof (induction env p n w rule: write_zeroes.induct)
  case (1 env p n w)
  show ?case
  proof (cases "n = 0")
    case True
    then show ?thesis using "1.prems" by (simp add: write_zeroes.simps [of _ _ 0] writes_refl)
  next
    case False
    let ?k = "min n 8192"
    obtain r w1 where h: "write_hashed env p (replicate ?k 0) w = (r, w1)" by fastforce
    then have "r = Inr ()" and rest: "write_zeroes env p (n - ?k) w1 = (Inr u, w')"
      using "1.prems" False by (auto simp: write_zeroes.simps [of _ _ n] Let_def split: sum.splits)
    note later = "1.IH" [OF False refl h [symmetric] \<open>r = Inr ()\<close> rest]
    have "replicate n 0 = replicate ?k (0 :: byte) @ replicate (n - ?k) 0"
      by (simp flip: replicate_add)
    with writes_trans [OF write_hashed_Inr later] h \<open>r = Inr ()\<close> show ?thesis by simp
  qed
qed

text \<open>The position of the writer is the number of hashed bytes.\<close>

lemma pad_Inr:
  assumes "pad_to_alignment env p al position w = (Inr aligned, w')" "position = length (wr_hashed w)"
    and "wr_hashed w \<noteq> []"
  shows "\<exists>zs. writes p w zs w' \<and> aligned = length (wr_hashed w')"
proof -
  obtain n where n: "is_power_of_two al" "round_up position al = Some n" "aligned = n" "write_zeroes env p (n - position) w = (Inr (), w')"
    using assms(1) by (auto simp: pad_to_alignment_def then_do_Inr sidecar_align_up_def split: sum.splits if_splits option.splits)
  have "position + (al - 1) < u64_limit" using n(2) by (auto simp: round_up_def)
  then have "al < u64_limit" using assms(2,3) by (cases "wr_hashed w") auto
  from round_up_Some(1) [OF n(1) this n(2)] have "position \<le> n" .
  then show ?thesis using write_zeroes_Inr [OF n(4)] assms(2) n(3) by (auto simp: writes_def)
qed

lemma copy_segment_Inr:
  assumes "copy_segment env store p key source position w = (Inr (g, next), w')" "position = length (wr_hashed w)"
    and "readers_faithful store datas"
  shows "writes p w (segment_data datas source) w'"
    "g = \<lparr>sg_offset = position, sg_length = length (segment_data datas source), sg_ggml_type = sr_ggml_type source\<rparr>"
    "next = length (wr_hashed w')"
proof -
  let ?i = "sr_shard_index source"
  obtain r t where rd: "read_exact_at (pe_grant env) (pe_cancelled env) (ds_readers store ! ?i) (fst (sr_range source))
              (snd (sr_range source)) (wr_clock w) = (r, t)" by fastforce
  obtain bs where i: "?i < length (ds_readers store)" and bs: "r = Inr bs"
    and wr: "write_hashed env p bs (w\<lparr>wr_clock := t\<rparr>) = (Inr (), w')"
    and g: "next = position + length bs" "g = \<lparr>sg_offset = position, sg_length = length bs, sg_ggml_type = sr_ggml_type source\<rparr>"
    using assms(1) rd
    by (auto simp: copy_segment_def Let_def then_do_Inr rbind_Inr split: if_splits sum.splits)
  have f: "faithful (ds_readers store ! ?i) (datas ! ?i)"
    using assms(3) i by (simp add: readers_faithful_def list_all2_conv_all_nth)
  note r = rd [unfolded bs]
  have len: "length bs = segment_length source" using positioned.read_length [OF f r] by (simp add: segment_length_def)
  then have data: "bs = segment_data datas source"
    using positioned.read_part [OF f r, of 0 "segment_length source"] by (simp add: segment_data_def segment_length_def)
  show w: "writes p w (segment_data datas source) w'" using writes_refl(2) [OF write_hashed_Inr [OF wr]] data by simp
  show "g = \<lparr>sg_offset = position, sg_length = length (segment_data datas source), sg_ggml_type = sr_ggml_type source\<rparr>"
    using g data by simp
  show "next = length (wr_hashed w')" using w g data assms(2) by (simp add: writes_def)
qed

section \<open>A record, all records\<close>

text \<open>The segments of a record hold the three slabs.\<close>

definition holds :: "byte list \<Rightarrow> byte list list \<Rightarrow> direct_record \<Rightarrow> expert_record \<Rightarrow> bool" where
  "holds bytes datas source r \<longleftrightarrow> er_key r = dr_key source \<and>
     (\<forall>(g, s) \<in> set [(er_gate r, dr_gate source), (er_up r, dr_up source), (er_down r, dr_down source)].
        sg_end g \<le> length bytes \<and> sidecar_segment bytes g = segment_data datas s \<and> sg_ggml_type g = sr_ggml_type s)"

lemma sidecar_segment_written:
  "sidecar_segment (xs @ bs @ ys) \<lparr>sg_offset = length xs, sg_length = length bs, sg_ggml_type = ty\<rparr> = bs"
  by (simp add: sidecar_segment_def)

lemma holds_later: "holds bytes datas source r \<Longrightarrow> holds (bytes @ ys) datas source r"
  by (auto simp: holds_def sidecar_segment_def sg_end_def)

lemma write_record_Inr:
  assumes "write_record env store p layout al source position w = (Inr (r, final), w')" "position = length (wr_hashed w)"
    and "wr_hashed w \<noteq> []" "readers_faithful store datas"
  shows "\<exists>bs. writes p w bs w'" "final = length (wr_hashed w')" "holds (wr_hashed w') datas source r"
proof -
  let ?pad = "pad_to_alignment env p al" and ?copy = "copy_segment env store p (dr_key source)"
  obtain start w1 g p2 w2 p3 w3 u p4 w4 p5 w5 d p6 w6 where
    1: "?pad position w = (Inr start, w1)" and 2: "?copy (dr_gate source) start w1 = (Inr (g, p2), w2)"
    and 3: "(if layout = Sequential then ?pad p2 w2 else (Inr p2, w2)) = (Inr p3, w3)"
    and 4: "?copy (dr_up source) p3 w3 = (Inr (u, p4), w4)" and 5: "?pad p4 w4 = (Inr p5, w5)"
    and 6: "?copy (dr_down source) p5 w5 = (Inr (d, p6), w6)" and 7: "?pad p6 w6 = (Inr final, w')"
    and r: "er_key r = dr_key source" "er_gate r = g" "er_up r = u" "er_down r = d"
    using assms(1) by (auto simp: write_record_def Let_def then_do_Inr rbind_Inr)
  obtain z1 where w1: "writes p w z1 w1" "start = length (wr_hashed w1)" using pad_Inr [OF 1 assms(2,3)] by blast
  have ne1: "wr_hashed w1 \<noteq> []" using w1 assms(3) by (simp add: writes_def)
  note w2 = copy_segment_Inr [OF 2 w1(2) assms(4)]
  have ne2: "wr_hashed w2 \<noteq> []" using w2 ne1 by (simp add: writes_def)
  obtain z3 where w3: "writes p w2 z3 w3" "p3 = length (wr_hashed w3)"
    using 3 pad_Inr [of env p al p2 w2] w2(3) ne2 writes_refl(1) [of p w2] by (cases "layout = Sequential") auto
  have ne3: "wr_hashed w3 \<noteq> []" using w3 ne2 by (simp add: writes_def)
  note w4 = copy_segment_Inr [OF 4 w3(2) assms(4)]
  have ne4: "wr_hashed w4 \<noteq> []" using w4 ne3 by (simp add: writes_def)
  obtain z5 where w5: "writes p w4 z5 w5" "p5 = length (wr_hashed w5)" using pad_Inr [OF 5 w4(3) ne4] by blast
  have ne5: "wr_hashed w5 \<noteq> []" using w5 ne4 by (simp add: writes_def)
  note w6 = copy_segment_Inr [OF 6 w5(2) assms(4)]
  have ne6: "wr_hashed w6 \<noteq> []" using w6 ne5 by (simp add: writes_def)
  obtain z7 where w7: "writes p w6 z7 w'" "final = length (wr_hashed w')" using pad_Inr [OF 7 w6(3) ne6] by blast
  show "\<exists>bs. writes p w bs w'" 
    using writes_trans [OF writes_trans [OF writes_trans [OF writes_trans [OF writes_trans [OF writes_trans [OF w1(1) w2(1)]
      w3(1)] w4(1)] w5(1)] w6(1)] w7(1)] by (rule exI)
  show "final = length (wr_hashed w')" by (rule w7(2))
  let ?g = "segment_data datas (dr_gate source)" and ?u = "segment_data datas (dr_up source)"
    and ?d = "segment_data datas (dr_down source)"
  have all: "wr_hashed w' = wr_hashed w1 @ ?g @ z3 @ ?u @ z5 @ ?d @ z7" "wr_hashed w3 = wr_hashed w1 @ ?g @ z3"
    "wr_hashed w5 = wr_hashed w1 @ ?g @ z3 @ ?u @ z5"
    using w2 w3 w4 w5 w6 w7 by (simp_all add: writes_def)
  have "sidecar_segment (wr_hashed w') g = ?g" unfolding all(1) w2(2) w1(2) by (rule sidecar_segment_written)
  moreover have "sidecar_segment (wr_hashed w') u = ?u"
    using sidecar_segment_written [of "wr_hashed w3" ?u "z5 @ ?d @ z7"] unfolding all w4(2) w3(2) by simp
  moreover have "sidecar_segment (wr_hashed w') d = ?d"
    using sidecar_segment_written [of "wr_hashed w5" ?d z7] unfolding all w6(2) w5(2) by simp
  ultimately show "holds (wr_hashed w') datas source r"
    unfolding holds_def using r w2(2) w4(2) w6(2) w1(2) w3(2) w5(2) all by (simp add: sg_end_def)
qed

lemma write_records_Inr:
  assumes "write_records env store p layout al sources position payload w = (Inr (rs, final, tot), w')"
    and "position = length (wr_hashed w)" "wr_hashed w \<noteq> []" "readers_faithful store datas"
  shows "(\<exists>bs. writes p w bs w') \<and> final = length (wr_hashed w') \<and> list_all2 (holds (wr_hashed w') datas) sources rs"
  using assms
proof (induction sources arbitrary: position payload w rs tot)
  case Nil
  then show ?case using writes_refl(1) by auto
next
  case (Cons source rest)
  let ?w = "w\<lparr>wr_clock := Suc (wr_clock w)\<rparr>"
  have live: "\<not> pe_cancelled env (wr_clock w)" using Cons.prems(1) by auto
  note run = Cons.prems(1) [unfolded write_records.simps if_not_P [OF live]]
  obtain r position' w1 where 1: "write_record env store p layout al source position ?w = (Inr (r, position'), w1)"
    and run1: "(case add_payload payload r of Inl e \<Rightarrow> (Inl e, w1) | Inr payload' \<Rightarrow>
      then_do (write_records env store p layout al rest position' payload' w1) (\<lambda>(rs, final, tot) w2.
        (Inr (r # rs, final, tot), w2))) = (Inr (rs, final, tot), w')"
    using run [unfolded then_do_Inr [of "write_record env store p layout al source position ?w"]] by auto
  obtain payload' rs' tot' where
    2: "write_records env store p layout al rest position' payload' w1 = (Inr (rs', final, tot'), w')"
    and rs: "rs = r # rs'"
    using run1 by (auto simp: then_do_Inr split: sum.split_asm)
  have w: "position = length (wr_hashed ?w)" "wr_hashed ?w \<noteq> []" using Cons.prems by simp_all
  note one = write_record_Inr [OF 1 w Cons.prems(4)]
  obtain bs where bs: "writes p ?w bs w1" using one(1) by blast
  then have ne: "wr_hashed w1 \<noteq> []" using w(2) by (simp add: writes_def)
  note IH = Cons.IH [OF 2 one(2) ne Cons.prems(4)]
  obtain cs where cs: "writes p w1 cs w'" using IH by blast
  then have "wr_hashed w' = wr_hashed w1 @ cs" by (simp add: writes_def)
  with holds_later [OF one(3)] have "holds (wr_hashed w') datas source r" by simp
  then show ?case using IH writes_trans [OF writes_refl(2) [OF bs] cs] rs by auto
qed

section \<open>The finished file\<close>

lemma write_data_Inr:
  fixes env :: "('e, 'j) prepare_env"
  assumes "write_data env store p opts d t = (Inr (rs, final, payload), w')" "readers_faithful store datas"
  shows "in_step p w' \<and> final = length (wr_hashed w') \<and> list_all2 (holds (wr_hashed w') datas) (ds_index store) rs \<and>
    dk_nodes d p = None \<and> (\<forall>q. q \<noteq> p \<longrightarrow> dk_nodes (wr_disk w') q = dk_nodes d q)"
proof -
  let ?n = "length (ds_index store)" and ?al = "pr_alignment opts"
  let ?header = "header_encode (header_new (pr_layout opts) ?al ?n)"
  obtain d1 where d1: "fs_create_new (pe_disk env) p d = (Inr (), d1)"
    using assms(1) by (cases "fs_create_new (pe_disk env) p d"; cases "fst (fs_create_new (pe_disk env) p d)") (auto simp: write_data_def Let_def)
  let ?w = "\<lparr>wr_disk = d1, wr_hashed = [], wr_clock = t\<rparr>"
  have start: "in_step p ?w" "dk_nodes d p = None" "\<And>q. q \<noteq> p \<Longrightarrow> dk_nodes d1 q = dk_nodes d q"
    using d1 by (auto simp: fs_create_new_def in_step_def split: option.splits if_splits)
  obtain u w1 position w2 v w2' out w3 where 1: "write_hashed env p ?header ?w = (Inr u, w1)"
    and 2: "pad_to_alignment env p ?al (length ?header) w1 = (Inr position, w2)"
    and v: "(check (pe_grant env ?n) (PrepAllocationFailed ?n) :: ('e, 'j) prepare_error + unit, w2) = (Inr v, w2')"
    and 3: "write_records env store p (pr_layout opts) ?al (ds_index store) position 0 w2' = (Inr out, w3)"
    and 4: "(case map_err (OutputIo (pe_display env p) ''flush temporary sidecar'' :: 'e \<Rightarrow> ('e, 'j) prepare_error) (fst (fs_sync (pe_disk env) (wr_disk w3))) of
          Inl e \<Rightarrow> (Inl e, w3\<lparr>wr_disk := snd (fs_sync (pe_disk env) (wr_disk w3))\<rparr>)
        | Inr _ \<Rightarrow> (Inr out, w3\<lparr>wr_disk := snd (fs_sync (pe_disk env) (wr_disk w3))\<rparr>)) = (Inr (rs, final, payload), w')"
    using assms(1) unfolding write_data_def Let_def d1 fst_conv snd_conv map_err_simps sum.case prod.case then_do_Inr
    by blast
  have v: "w2' = w2" using v by simp
  have out: "out = (rs, final, payload)" "wr_hashed w' = wr_hashed w3" "dk_nodes (wr_disk w') = dk_nodes (wr_disk w3)"
    using 4 by (auto simp: fs_sync_def split: option.splits sum.splits)
  note w1 = write_hashed_Inr [OF 1]
  have h: "wr_hashed w1 = ?header" "?header \<noteq> []" using w1 by (simp_all add: writes_def header_encode_def SIDECAR_MAGIC_def)
  obtain zs where w2: "writes p w1 zs w2" "position = length (wr_hashed w2)" using pad_Inr [OF 2] h by metis
  have ne: "wr_hashed w2 \<noteq> []" using w2 h by (simp add: writes_def)
  note w3 = write_records_Inr [OF 3 [unfolded out(1) v] w2(2) ne assms(2)]
  obtain bs where "writes p w2 bs w3" using w3 by blast
  with writes_trans [OF w1 writes_trans [OF w2(1)]] have "writes p ?w (?header @ zs @ bs) w3" by blast
  with start have "in_step p w3" "\<And>q. q \<noteq> p \<Longrightarrow> dk_nodes (wr_disk w3) q = dk_nodes d q" by (simp_all add: writes_def)
  then show ?thesis using w3 out start(2) by (simp add: in_step_def)
qed

section \<open>The same experts\<close>

lemma bsearch_keys:
  assumes "map f xs = map g ys" "base + n \<le> length xs" "0 < n"
  shows "bsearch f xs k base n = bsearch g ys k base n \<and> bsearch f xs k base n < length xs"
  using assms(2,3)
proof (induction n arbitrary: base rule: less_induct)
  case (less n)
  have len: "length xs = length ys" using assms(1) map_eq_imp_length_eq by blast
  show ?case
  proof (cases "n \<le> 1")
    case True
    then show ?thesis using less.prems by (simp add: bsearch.simps)
  next
    case False
    let ?mid = "base + n div 2"
    have mid: "?mid < length xs" using False less.prems by auto
    then have key: "f (xs ! ?mid) = g (ys ! ?mid)" using assms(1) len by (metis nth_map)
    have "base + (n - n div 2) \<le> length xs" using less.prems by linarith
    then show ?thesis using less.IH [of "n - n div 2" base] less.IH [of "n - n div 2" ?mid] False less.prems key
      by (simp add: bsearch.simps [of _ _ _ _ n] Let_def)
  qed
qed

lemma search_keys:
  assumes "map f xs = map g ys"
  shows "binary_search_by_key f xs k = binary_search_by_key g ys k"
proof (cases "xs = []")
  case True
  then show ?thesis using assms by (simp add: binary_search_by_key_def)
next
  case False
  have len: "length xs = length ys" using assms map_eq_imp_length_eq by blast
  with False have "ys \<noteq> []" by auto
  from False have "0 + length xs \<le> length xs" "0 < length xs" by simp_all
  note b = bsearch_keys [OF assms this, of k]
  have "f (xs ! i) = g (ys ! i)" if "i < length xs" for i using assms len that by (metis nth_map)
  from this [of "bsearch f xs k 0 (length xs)"] b len \<open>ys \<noteq> []\<close> False show ?thesis
    by (simp add: binary_search_by_key_def Let_def)
qed

lemma list_all2_keys: "list_all2 (holds bytes datas) sources rs \<Longrightarrow> map er_key rs = map dr_key sources"
  by (induction rule: list_all2_induct) (auto simp: holds_def)

lemma holds_payload:
  assumes "list_all2 (holds bytes datas) (ds_index store) (sm_records (sc_manifest sc))"
  shows "source_payload [bytes] (SidecarSource sc) key = source_payload datas (DirectSource store) key"
proof -
  let ?rs = "sm_records (sc_manifest sc)"
  have search: "binary_search_by_key er_key ?rs key = binary_search_by_key dr_key (ds_index store) key"
    by (rule search_keys [OF list_all2_keys [OF assms]])
  have len: "length (ds_index store) = length ?rs" using assms by (rule list_all2_lengthD)
  show ?thesis
  proof (cases "binary_search_by_key dr_key (ds_index store) key")
    case None
    then show ?thesis using search by (simp add: manifest_record_def direct_index_get_def)
  next
    case (Some i)
    show ?thesis
    proof (cases "i < length ?rs")
      case True
      then have "holds bytes datas (ds_index store ! i) (?rs ! i)" using assms len by (simp add: list_all2_conv_all_nth)
      then show ?thesis using Some search True len by (simp add: manifest_record_def direct_index_get_def holds_def)
    next
      case False
      then show ?thesis using Some search len by (simp add: manifest_record_def direct_index_get_def)
    qed
  qed
qed

section \<open>From the shards to the committed files\<close>

lemma write_manifest_Inr:
  assumes "write_manifest env p bytes d = (Inr u, d')"
  shows "dk_nodes d' = (dk_nodes d)(p \<mapsto> FileNode bytes)"
  using assms
  by (auto simp: write_manifest_def then_do_Inr fail_as_def fs_create_new_def fs_append_def fs_sync_def written_at_def
      then_do_def split: option.splits if_splits)

lemma back_up_other:
  assumes "back_up env overwrite target backup d = (Inr m, d')" "q \<notin> {target, backup}"
  shows "dk_nodes d' q = dk_nodes d q"
proof (cases "fst (fs_exists env target d) \<and> overwrite")
  case True
  then obtain r e where r: "fs_rename env target backup (tick d) = (r, e)" "r = Inr ()" "d' = e"
    using assms(1) by (cases "fs_rename env target backup (tick d)"; cases "fst (fs_rename env target backup (tick d))")
      (auto simp: back_up_def fs_exists_def then_do_Inr)
  then show ?thesis using rename_effect [OF r(1)] assms(2) by auto
qed (use assms in \<open>auto simp: back_up_def fs_exists_def split: if_splits bool.splits\<close>)

lemma commit_success:
  fixes env :: "'e disk_env"
  assumes run: "commit_outputs env display td tm data manifest overwrite nonce d = (Inr u :: ('e, 'j) prepare_error + unit, d')"
    and paths: "(temporary_path display data ''data-backup'' nonce :: ('e, 'j) prepare_error + _) = Inr bd"
      "(temporary_path display manifest ''manifest-backup'' nonce :: ('e, 'j) prepare_error + _) = Inr bm"
    and "data \<noteq> manifest" "{data, manifest} \<inter> {td, tm, bd, bm} = {}" "{td, tm} \<inter> {bd, bm} = {}" "td \<noteq> tm"
  shows "dk_nodes d' data = dk_nodes d td" "dk_nodes d' manifest = dk_nodes d tm"
proof -
  obtain du d1 where 1: "back_up env overwrite data bd d = (Inr du, d1)"
    using run paths by (cases "back_up env overwrite data bd d"; cases "fst (back_up env overwrite data bd d)") (auto simp: commit_outputs_def)
  obtain mu d2 where 2: "back_up env overwrite manifest bm d1 = (Inr mu, d2)"
    using run paths 1
    by (cases "back_up env overwrite manifest bm d1"; cases "fst (back_up env overwrite manifest bm d1)") (auto simp: commit_outputs_def)
  let ?put = "put_in_place env display td tm data manifest (restore_backups env data manifest bd bm du mu) d2
    :: (('e, 'j) prepare_error + unit) \<times> disk"
  obtain d3 where 3: "?put = (Inr (), d3)"
    using run paths 1 2 by (cases ?put; cases "fst ?put") (auto simp: commit_outputs_def)
  obtain e where r1: "fs_rename env td data d2 = (Inr (), e)"
    using 3 by (cases "fs_rename env td data d2"; cases "fst (fs_rename env td data d2)") (auto simp: put_in_place_def)
  have r2: "fs_rename env tm manifest e = (Inr (), d3)"
    using 3 r1 by (cases "fs_rename env tm manifest e"; cases "fst (fs_rename env tm manifest e)") (auto simp: put_in_place_def)
  have n3: "dk_nodes d3 data = dk_nodes d td" "dk_nodes d3 manifest = dk_nodes d tm"
    using rename_effect [OF r1] rename_effect [OF r2] back_up_other [OF 1, of td] back_up_other [OF 1, of tm]
      back_up_other [OF 2, of td] back_up_other [OF 2, of tm] assms(4-7) by auto
  define e4 where "e4 = (if du then snd (fs_remove env bd d3) else d3)"
  have d': "d' = (if mu then snd (fs_remove env bm e4) else e4)"
    using run paths 1 2 3 by (auto simp: commit_outputs_def e4_def Let_def)
  have keep: "dk_nodes (snd (fs_remove env b x)) q = dk_nodes x q" if "q \<noteq> b" for b q x
    using remove_effect [of env b x] that by (cases "fs_remove env b x"; cases "fst (fs_remove env b x)") auto
  show "dk_nodes d' data = dk_nodes d td" "dk_nodes d' manifest = dk_nodes d tm"
    using n3 keep assms(5) by (auto simp: d' e4_def)
qed

text \<open>The names the run works with cannot meet the output names, which do not begin with a dot, nor each other.\<close>

definition plain_name :: "path \<Rightarrow> bool" where "plain_name p \<longleftrightarrow> take 1 (last p) \<noteq> ''.''"

lemma temporary_path_form:
  "(temporary_path display p kind nonce :: ('e, 'j) prepare_error + _) = Inr q \<Longrightarrow>
   q = butlast p @ [''.'' @ last p @ ''.lightbridge-'' @ kind @ ''-'' @ dec_string nonce @ ''.tmp'']"
  by (auto simp: temporary_path_def rbind_Inr file_name_def with_file_name_def split: if_splits)

lemma work_names_differ:
  assumes "(temporary_path display p kind nonce :: ('e, 'j) prepare_error + _) = Inr q"
    and "(temporary_path display' p' kind' nonce :: ('e, 'j) prepare_error + _) = Inr q'"
    and "last kind \<noteq> last kind'" "kind \<noteq> []" "kind' \<noteq> []"
  shows "q \<noteq> q'"
proof
  assume "q = q'"
  then have "(last p @ ''.lightbridge-'' @ kind) @ (''-'' @ dec_string nonce @ ''.tmp'') =
      (last p' @ ''.lightbridge-'' @ kind') @ (''-'' @ dec_string nonce @ ''.tmp'')"
    using temporary_path_form [OF assms(1)] temporary_path_form [OF assms(2)] by simp
  then have "last p @ ''.lightbridge-'' @ kind = last p' @ ''.lightbridge-'' @ kind'" by blast
  then have "last (last p @ ''.lightbridge-'' @ kind) = last (last p' @ ''.lightbridge-'' @ kind')" by (rule arg_cong)
  then show False using assms(3-5) by simp
qed

lemma work_name_hidden:
  "(temporary_path display p kind nonce :: ('e, 'j) prepare_error + _) = Inr q \<Longrightarrow> plain_name p' \<Longrightarrow> q \<noteq> p'"
  by (auto dest!: temporary_path_form simp: plain_name_def)

lemma output_path_plain:
  "(absolute_output_path display canonicalize p :: ('e, 'j) prepare_error + _) = Inr q \<Longrightarrow> plain_name p \<Longrightarrow> plain_name q"
  by (auto simp: absolute_output_path_def rbind_Inr file_name_def plain_name_def Let_def split: if_splits)

text \<open>What the two committed files are.\<close>

definition committed_sidecar ::
  "('e, 'j) prepare_env \<Rightarrow> byte list list \<Rightarrow> 'e direct_store \<Rightarrow> prepare_report \<Rightarrow> disk \<Rightarrow> sidecar_manifest \<Rightarrow> byte list \<Rightarrow> bool" where
  "committed_sidecar env datas store report d m bytes \<longleftrightarrow>
     dk_nodes d (rp_data_path report) = Some (FileNode bytes) \<and>
     map_option FileNode (case pe_json env m of Inl _ \<Rightarrow> None | Inr doc \<Rightarrow> Some doc) = dk_nodes d (rp_manifest_path report) \<and>
     dk_nodes d (rp_manifest_path report) \<noteq> None \<and>
     (manifest_validate m) = Inr () \<and> sm_sidecar m = \<lparr>sd_length = length bytes, sd_sha256 = lower_hex_of (pe_sha env bytes)\<rparr> \<and>
     rp_sidecar_bytes report = length bytes \<and> rp_record_count report = length (sm_records m) \<and>
     list_all2 (holds bytes datas) (ds_index store) (sm_records m)"

lemma prepare_outputs_Inr:
  fixes env :: "('e, 'j) prepare_env"
  assumes run: "prepare_outputs env store files source_bytes directory opts nonce td tm data manifest d t = Some (Inr report, d')"
    and names: "(temporary_path display data ''data'' nonce :: ('e, 'j) prepare_error + _) = Inr td"
      "(temporary_path display' manifest ''manifest'' nonce :: ('e, 'j) prepare_error + _) = Inr tm"
    and plain: "plain_name data" "plain_name manifest" "data \<noteq> manifest" and "readers_faithful store datas"
  shows "\<exists>m bytes. committed_sidecar env datas store report d' m bytes"
proof -
  obtain rs final payload w where w: "write_data env store td opts d t = (Inr (rs, final, payload), w)"
    using run by (cases "write_data env store td opts d t"; cases "fst (write_data env store td opts d t)") (auto simp: prepare_outputs_def)
  note data = write_data_Inr [OF w assms(7)]
  define m where "m = prepared_manifest env opts files directory rs final (lower_hex_of (pe_sha env (wr_hashed w)))"
  obtain doc where doc: "manifest_bytes env m = Inr doc"
    using run w by (cases "manifest_bytes env m") (auto simp: prepare_outputs_def Let_def m_def)
  obtain d2 where d2: "write_manifest env tm doc (wr_disk w) = (Inr (), d2)"
    using run w doc by (cases "write_manifest env tm doc (wr_disk w)"; cases "fst (write_manifest env tm doc (wr_disk w))")
      (auto simp: prepare_outputs_def Let_def m_def)
  have c: "commit_outputs (pe_disk env) (pe_display env) td tm data manifest (pr_overwrite opts) nonce d2
      = (Inr () :: ('e, 'j) prepare_error + unit, d')"
    and report: "report = \<lparr>rp_data_path = data, rp_manifest_path = manifest, rp_source_bytes_hashed = source_bytes,
       rp_expert_payload_bytes = payload, rp_sidecar_bytes = final,
       rp_record_count = length (ds_index store), rp_sidecar_sha256 = lower_hex_of (pe_sha env (wr_hashed w)),
       rp_tensor_directory_sha256 = directory\<rparr>"
    using run w doc d2
    by (auto simp: prepare_outputs_def Let_def m_def bind_eq_Some_conv then_do_Inr split: if_splits)
  obtain bd bm where backups: "(temporary_path (pe_display env) data ''data-backup'' nonce :: ('e, 'j) prepare_error + _) = Inr bd"
      "(temporary_path (pe_display env) manifest ''manifest-backup'' nonce :: ('e, 'j) prepare_error + _) = Inr bm"
    using names by (auto simp: temporary_path_def rbind_Inr)
  have hidden: "{data, manifest} \<inter> {td, tm, bd, bm} = {}"
    using plain work_name_hidden [OF names(1)] work_name_hidden [OF names(2)] work_name_hidden [OF backups(1)]
      work_name_hidden [OF backups(2)] by blast
  have work: "td \<noteq> tm" "{td, tm} \<inter> {bd, bm} = {}"
    using work_names_differ [OF names(1,2)] work_names_differ [OF names(1) backups(1)] work_names_differ [OF names(1) backups(2)]
      work_names_differ [OF names(2) backups(1)] work_names_differ [OF names(2) backups(2)] by auto
  note placed = commit_success [OF c backups plain(3) hidden work(2,1)]
  have files: "dk_nodes d2 tm = Some (FileNode doc)" "dk_nodes d2 td = Some (FileNode (wr_hashed w))"
    using write_manifest_Inr [OF d2] data work(1) by (auto simp: in_step_def)
  have json: "pe_json env m = Inr doc" "manifest_validate m = Inr ()" using doc by (auto simp: manifest_bytes_def rbind_Inr)
  have "committed_sidecar env datas store report d' m (wr_hashed w)"
    using placed files json data list_all2_lengthD [of "holds (wr_hashed w) datas" "ds_index store" rs]
    by (simp add: committed_sidecar_def report m_def prepared_manifest_def)
  then show ?thesis by blast
qed

lemma prepare_sidecar_Inr:
  fixes env :: "('e, 'j) prepare_env"
  assumes run: "prepare_sidecar env st m data_path manifest_path opts d t = Some (Inr report, d')"
    and plain: "plain_name data_path" "plain_name manifest_path"
    and faithful: "\<And>store. (direct_store_open (pe_grant env) (pe_open env) st m :: ('e, 'j) prepare_error + _) = Inr store \<Longrightarrow>
      readers_faithful store datas"
  shows "\<exists>store mf bytes. (direct_store_open (pe_grant env) (pe_open env) st m :: ('e, 'j) prepare_error + _) = Inr store \<and>
    committed_sidecar env datas store report d' mf bytes"
proof -
  obtain data manifest where paths: "output_paths env data_path manifest_path opts = Inr (data, manifest)"
    using run by (cases "output_paths env data_path manifest_path opts") (auto simp: prepare_sidecar_def)
  let ?check = "validate_output_targets (pe_disk env) (pe_display env) (pe_canonicalize env) st data manifest (pr_overwrite opts) d
    :: (('e, 'j) prepare_error + unit) \<times> disk"
  obtain d1 where d1: "?check = (Inr (), d1)"
    using run paths by (cases ?check; cases "fst ?check") (auto simp: prepare_sidecar_def)
  have live: "\<not> pe_cancelled env t" using run paths d1 by (auto simp: prepare_sidecar_def)
  obtain found t1 where found: "prepare_sources env st m opts (Suc t) = Some (found, t1)"
    using prepare_sources_returns by fastforce
  note run' = run [unfolded prepare_sidecar_def paths d1 found sum.case prod.case if_not_P [OF live] bind.simps]
  obtain store files source_bytes where s: "found = Inr (store, files, source_bytes)" using run' by (cases found) auto
  obtain nonce td tm where temps: "temporary_paths env data manifest = Inr (nonce, td, tm)"
    using run' s by (cases "temporary_paths env data manifest") auto
  note sources = found [unfolded s]
  obtain r d2 where run2: "prepare_outputs env store files source_bytes (tensor_directory_sha256 (pe_sha env) st) opts nonce
      td tm data manifest d1 t1 = Some (r, d2)" using prepare_outputs_returns by fastforce
  have "r = Inr report \<and> d2 = d'" using run' s temps run2 by (cases r) auto
  with run2 have outputs: "prepare_outputs env store files source_bytes (tensor_directory_sha256 (pe_sha env) st) opts nonce
      td tm data manifest d1 t1 = Some (Inr report, d')" by simp
  have store: "(direct_store_open (pe_grant env) (pe_open env) st m :: ('e, 'j) prepare_error + _) = Inr store"
    using sources by (auto simp: prepare_sources_def rbind_Inr split: sum.split_asm)
  have names: "(temporary_path (pe_display env) data ''data'' nonce :: ('e, 'j) prepare_error + _) = Inr td"
    "(temporary_path (pe_display env) manifest ''manifest'' nonce :: ('e, 'j) prepare_error + _) = Inr tm"
    using temps by (auto simp: temporary_paths_def rbind_Inr)
  have "plain_name data" "plain_name manifest"
    using paths output_path_plain plain by (auto simp: output_paths_def rbind_Inr)
  moreover have "data \<noteq> manifest"
    using d1 by (auto simp: validate_output_targets_def split: sum.split_asm)
  ultimately show ?thesis using prepare_outputs_Inr [OF outputs names _ _ _ faithful [OF store]] store by blast
qed

section \<open>Properties\<close>

text \<open> C6.
  A successful preparation leaves a sidecar that is as good as the shards: both outputs are in place, the
  manifest is valid and describes exactly the bytes of the data file (length and digest), and every expert has
  the same payload in the sidecar as in the shards, whatever key is asked for. The shards are assumed not to
  change while they are copied, and the output names not to begin with a dot, as the names of the temporary
  files and backups do.
\<close>

theorem prepared_sidecar_equivalent:
  fixes env :: "('e, 'j) prepare_env"
  assumes "prepare_sidecar env st m data_path manifest_path opts d t = Some (Inr report, d')"
    and "plain_name data_path" "plain_name manifest_path"
    and "\<And>store. (direct_store_open (pe_grant env) (pe_open env) st m :: ('e, 'j) prepare_error + _) = Inr store \<Longrightarrow>
      readers_faithful store datas"
  shows "\<exists>store mf bytes doc.
    (direct_store_open (pe_grant env) (pe_open env) st m :: ('e, 'j) prepare_error + _) = Inr store \<and>
    dk_nodes d' (rp_data_path report) = Some (FileNode bytes) \<and>
    dk_nodes d' (rp_manifest_path report) = Some (FileNode doc) \<and> pe_json env mf = Inr doc \<and>
    manifest_validate mf = Inr () \<and>
    sm_sidecar mf = \<lparr>sd_length = length bytes, sd_sha256 = lower_hex_of (pe_sha env bytes)\<rparr> \<and>
    (\<forall>f key. source_payload [bytes] (SidecarSource (\<lparr>sc_data = f, sc_manifest = mf\<rparr> :: 'e sidecar)) key =
       source_payload datas (DirectSource store) key)"
proof -
  obtain store mf bytes where store: "(direct_store_open (pe_grant env) (pe_open env) st m :: ('e, 'j) prepare_error + _) = Inr store"
    and c: "committed_sidecar env datas store report d' mf bytes"
    using prepare_sidecar_Inr [OF assms] by blast
  from c obtain doc where "dk_nodes d' (rp_manifest_path report) = Some (FileNode doc)" "pe_json env mf = Inr doc"
    by (cases "pe_json env mf") (auto simp: committed_sidecar_def)
  moreover have "source_payload [bytes] (SidecarSource (\<lparr>sc_data = f, sc_manifest = mf\<rparr> :: 'e sidecar)) key =
      source_payload datas (DirectSource store) key" for f key
    by (rule holds_payload) (use c in \<open>simp add: committed_sidecar_def\<close>)
  ultimately show ?thesis using store c unfolding committed_sidecar_def by blast
qed

text \<open>Two experts copied from a shard of 24 bytes that is read three bytes at a time.\<close>

definition shard_bytes :: "byte list" where "shard_bytes = map word_of_nat [100..<124]"

definition demo_reader :: "read_limits \<Rightarrow> unit positioned_file" where
  "demo_reader lims = \<lparr>pf_file = short_reads shard_bytes, pf_path = ''m.gguf'', pf_length = 24, pf_limits = lims\<rparr>"

definition demo_prepare :: "(unit, unit) prepare_env" where
  "demo_prepare = \<lparr>pe_disk = \<lparr>de_fault = (\<lambda>_. None), de_stat = (\<lambda>_. None), de_partial = (\<lambda>_. 0), de_refused = ()\<rparr>,
     pe_display = concat, pe_canonicalize = Inr, pe_open = (\<lambda>_ lims. Inr (demo_reader lims)), pe_grant = (\<lambda>_. True),
     pe_sha = (\<lambda>_. replicate 32 0), pe_cancelled = (\<lambda>_. False), pe_nanos = Some 7, pe_process_id = 0,
     pe_version = ''0.1.0'', pe_json = (\<lambda>_. Inr [7]),
     pe_view = (\<lambda>_. \<lparr>env_metadata = (\<lambda>_. Inl ()), env_read = (\<lambda>_. Inl ()), env_open = (\<lambda>_. Inl ()), env_json = (\<lambda>_. Inl ())\<rparr>)\<rparr>"

definition demo_options :: prepare_options where
  "demo_options = \<lparr>pr_layout = FusedGateUp, pr_alignment = 32, pr_overwrite = False, pr_verify_after_write = False,
     pr_hash_chunk_bytes = 32\<rparr>"

definition demo_set :: gguf_set where
  "demo_set = \<lparr>gs_files = tiny_files, gs_tensors = tiny_directory\<rparr>"

definition empty_disk :: disk where "empty_disk = \<lparr>dk_nodes = (\<lambda>_. None), dk_time = 0\<rparr>"

lemmas demo_defs = demo_prepare_def demo_options_def demo_set_def tiny_files_def

lemma demo_pow: "is_power_of_two 32" using is_power_of_two_pow [of 5] by simp

lemma demo_round: "round_up position 32 = (if position + 31 < u64_limit then Some ((position + 31) div 32 * 32) else None)"
  using round_up_Some_iff [OF demo_pow, of position "(position + 31) div 32 * 32"]
  by (auto simp: u64_limit_def round_up_def checked_add_def)

lemma demo_paths: "output_paths demo_prepare [''s''] [''j''] demo_options = Inr ([''.'', ''s''], [''.'', ''j''])"
  by (simp add: output_paths_def demo_defs validate_prepare_options_def validate_hash_chunk_def MAX_HASH_CHUNK_BYTES_def
      sidecar_align_up_def absolute_output_path_def file_name_def demo_round demo_pow u64_limit_def)

lemma demo_targets:
  "validate_output_targets (pe_disk demo_prepare) (pe_display demo_prepare) (pe_canonicalize demo_prepare) demo_set
     [''.'', ''s''] [''.'', ''j''] (pr_overwrite demo_options) empty_disk
   = (Inr () :: (unit, unit) prepare_error + unit, empty_disk\<lparr>dk_time := 2\<rparr>)"
  by (simp add: validate_output_targets_def demo_defs check_source_def check_target_def fs_exists_def empty_disk_def tick_def)

lemma demo_faithful_reader: "faithful (demo_reader lims) shard_bytes"
  by (auto simp: faithful_def demo_reader_def short_reads_def shard_bytes_def u64_limit_def min_def)

lemma demo_read:
  assumes "s \<le> e" "e \<le> 24" "e - s \<le> max_request_bytes lims"
  shows "\<exists>bs t'. read_exact_at (\<lambda>_. True) (\<lambda>_. False) (demo_reader lims) s e t = (Inr bs, t') \<and> length bs = e - s"
proof -
  obtain r t' where r: "read_exact_at (\<lambda>_. True) (\<lambda>_. False) (demo_reader lims) s e t = (r, t')" by fastforce
  from read_exact_at_faithful [OF demo_faithful_reader r] assms
  have "(\<forall>bs. r = Inr bs \<longrightarrow> length bs = e - s) \<and> (\<forall>err. r = Inl err \<longrightarrow> interrupted (demo_reader lims) (\<lambda>_. False) s e t err)"
    by (auto simp: shard_bytes_def demo_reader_def)
  with r show ?thesis by (cases r) (auto simp: interrupted_def demo_reader_def short_reads_def)
qed

lemma demo_loop:
  "\<exists>buf t'. read_loop (demo_reader lims) (\<lambda>_. False) 0 0 (replicate 24 0) t = (Inr (), buf, t')"
proof -
  obtain r buf t' where r: "read_loop (demo_reader lims) (\<lambda>_. False) 0 0 (replicate 24 0) t = (r, buf, t')" by (metis prod_cases3)
  have "\<forall>err. r = Inl err \<longrightarrow> interrupted (demo_reader lims) (\<lambda>_. False) 0 24 t err"
    using read_loop_faithful [OF demo_faithful_reader _ _ _ r] by (simp add: shard_bytes_def)
  with r show ?thesis by (cases r) (auto simp: interrupted_def demo_reader_def short_reads_def)
qed

lemma demo_hash: "\<exists>h t'. source_hash_loop (\<lambda>_. False) (demo_reader \<lparr>max_request_bytes = 32\<rparr>) 32 0 [] t
    = Some (Inr h :: (unit, unit) prepare_error + _, t')"
proof -
  obtain buf t' where l: "read_loop (demo_reader \<lparr>max_request_bytes = 32\<rparr>) (\<lambda>_. False) 0 0 (replicate 24 0) (Suc (Suc t)) = (Inr (), buf, t')"
    using demo_loop by blast
  have len: "pf_length (demo_reader \<lparr>max_request_bytes = 32\<rparr>) = 24" "pf_limits (demo_reader \<lparr>max_request_bytes = 32\<rparr>) = \<lparr>max_request_bytes = 32\<rparr>"
    by (simp_all add: demo_reader_def)
  show ?thesis
    apply (subst source_hash_loop.simps)
    apply (simp add: len read_exact_at_into_def validate_range_def l checked_add_def u64_limit_def)
    apply (subst source_hash_loop.simps)
    apply (simp add: len)
    done
qed

definition demo_store :: "unit direct_store" where
  "demo_store = \<lparr>ds_readers = [demo_reader \<lparr>max_request_bytes = 4\<rparr>], ds_index = pair_records\<rparr>"

lemma demo_open: "(direct_store_open (pe_grant demo_prepare) (pe_open demo_prepare) demo_set pair_model :: (unit, unit) prepare_error + _) = Inr demo_store"
  by (simp add: direct_store_open_def demo_defs pair_index pair_records_def pair_segment_def maximum_segment_bytes_def
     segment_length_def demo_store_def)

lemma demo_length: "pf_length (demo_reader lims) = 24" by (simp add: demo_reader_def)

definition demo_identity :: source_file_identity where
  "demo_identity = \<lparr>sf_ordinal = 0, sf_path = ''m.gguf'', sf_length = 24, sf_sha256 = lower_hex_of (replicate 32 0)\<rparr>"

lemma demo_sources: "\<exists>t'. prepare_sources demo_prepare demo_set pair_model demo_options t =
  Some (Inr (demo_store, [demo_identity], 24), t')"
proof -
  obtain h t' where l: "source_hash_loop (\<lambda>_. False) (demo_reader \<lparr>max_request_bytes = 32\<rparr>) 32 0 [] t
    = Some (Inr h :: (unit, unit) prepare_error + _, t')" using demo_hash by blast
  have "hash_source_file (pe_sha demo_prepare) (pe_grant demo_prepare) (pe_canonicalize demo_prepare) (pe_display demo_prepare)
      (pe_open demo_prepare) (pe_cancelled demo_prepare) 32 (0, hd tiny_files) t = Some (Inr demo_identity :: (unit, unit) prepare_error + _, t')"
    by (simp add: hash_source_file_def demo_defs l demo_identity_def demo_length)
  then show ?thesis
    unfolding prepare_sources_def demo_open sum.case hash_source_files_def
    by (simp add: demo_options_def demo_set_def tiny_files_def validate_hash_chunk_def MAX_HASH_CHUNK_BYTES_def demo_prepare_def
     enumerate_eq_zip checked_add_def u64_limit_def demo_identity_def)
qed

lemma demo_write: "\<exists>w'. write_hashed demo_prepare p bs w = (Inr (), w')"
  by (simp add: write_hashed_def fs_append_def demo_prepare_def)

lemma demo_zeroes: "\<exists>w'. write_zeroes demo_prepare p n w = (Inr (), w')"
proof (induction n arbitrary: w rule: less_induct)
  case (less n)
  show ?case
  proof (cases "n = 0")
    case False
    obtain w1 where w1: "write_hashed demo_prepare p (replicate (min n 8192) 0) w = (Inr (), w1)" using demo_write by blast
    with less.IH [of "n - min n 8192" w1] False show ?thesis
      by (simp add: write_zeroes.simps [of _ _ n] Let_def)
  qed (simp add: write_zeroes.simps [of _ _ 0])
qed

lemma demo_pad:
  "position < 1000 \<Longrightarrow> \<exists>w'. pad_to_alignment demo_prepare p 32 position w = (Inr ((position + 31) div 32 * 32), w')"
  using demo_zeroes [of p "(position + 31) div 32 * 32 - position" w]
  by (auto simp: pad_to_alignment_def sidecar_align_up_def demo_round demo_pow u64_limit_def)

lemma demo_copy:
  assumes "start \<le> 20" "position < 1000"
  shows "\<exists>w'. copy_segment demo_prepare demo_store p key (pair_segment start) position w =
    (Inr (\<lparr>sg_offset = position, sg_length = 4, sg_ggml_type = ''F32''\<rparr>, position + 4), w')"
proof -
  obtain bs t' where r: "read_exact_at (\<lambda>_. True) (\<lambda>_. False) (demo_reader \<lparr>max_request_bytes = 4\<rparr>) start (start + 4) (wr_clock w)
      = (Inr bs, t')" "length bs = 4" using demo_read [of start "start + 4" "\<lparr>max_request_bytes = 4\<rparr>" "wr_clock w"] assms by auto
  obtain w' where "write_hashed demo_prepare p bs (w\<lparr>wr_clock := t'\<rparr>) = (Inr (), w')" using demo_write by blast
  moreover have env: "pe_grant demo_prepare = (\<lambda>_. True)" "pe_cancelled demo_prepare = (\<lambda>_. False)" by (simp_all add: demo_prepare_def)
  ultimately show ?thesis using r assms
    by (simp add: copy_segment_def env demo_store_def pair_segment_def segment_length_def checked_add_def u64_limit_def)
qed

definition demo_expert :: "nat \<Rightarrow> expert_record" where
  "demo_expert e = (let pos = 64 + 64 * e; seg = (\<lambda>offset. \<lparr>sg_offset = offset, sg_length = 4, sg_ggml_type = ''F32''\<rparr>) in
     \<lparr>er_key = ExpertKey 1 e, er_offset = pos, er_length = 64, er_gate = seg pos, er_up = seg (pos + 4), er_down = seg (pos + 32)\<rparr>)"

lemma demo_write_record:
  assumes "e < 2"
  shows "\<exists>w'. write_record demo_prepare demo_store p FusedGateUp 32 (pair_records ! e) (64 + 64 * e) w
    = (Inr (demo_expert e, 128 + 64 * e), w')"
proof -
  let ?pad = "pad_to_alignment demo_prepare p 32" and ?copy = "copy_segment demo_prepare demo_store p (ExpertKey 1 e)"
  let ?seg = "\<lambda>offset. \<lparr>sg_offset = offset, sg_length = 4, sg_ggml_type = ''F32''\<rparr>"
  obtain w1 where 1: "?pad (64 + 64 * e) w = (Inr (64 + 64 * e), w1)"
    using demo_pad [of "64 + 64 * e" p w] assms by (auto simp: less_2_cases_iff)
  obtain w2 where 2: "?copy (pair_segment (4 * e)) (64 + 64 * e) w1 = (Inr (?seg (64 + 64 * e), 68 + 64 * e), w2)"
    using demo_copy [of "4 * e" "64 + 64 * e" p _ w1] assms by (auto simp: add.commute)
  obtain w3 where 3: "?copy (pair_segment (8 + 4 * e)) (68 + 64 * e) w2 = (Inr (?seg (68 + 64 * e), 72 + 64 * e), w3)"
    using demo_copy [of "8 + 4 * e" "68 + 64 * e" p _ w2] assms by (auto simp: add.commute)
  have "(72 + 64 * e + 31) div 32 * 32 = 96 + 64 * e" "(100 + 64 * e + 31) div 32 * 32 = 128 + 64 * e"
    using assms by (auto simp: less_2_cases_iff)
  then obtain w4 where 4: "?pad (72 + 64 * e) w3 = (Inr (96 + 64 * e), w4)" and r: "(131 + 64 * e) div 32 * 32 = 128 + 64 * e"
    using demo_pad [of "72 + 64 * e" p w3] assms by auto
  obtain w5 where 5: "?copy (pair_segment (16 + 4 * e)) (96 + 64 * e) w4 = (Inr (?seg (96 + 64 * e), 100 + 64 * e), w5)"
    using demo_copy [of "16 + 4 * e" "96 + 64 * e" p _ w4] assms by (auto simp: add.commute)
  obtain w6 where 6: "?pad (100 + 64 * e) w5 = (Inr (128 + 64 * e), w6)"
    using demo_pad [of "100 + 64 * e" p w5] assms r by auto
  have source: "pair_records ! e = \<lparr>dr_key = ExpertKey 1 e, dr_gate = pair_segment (4 * e), dr_up = pair_segment (8 + 4 * e),
     dr_down = pair_segment (16 + 4 * e)\<rparr>" using assms by (cases e) (auto simp: pair_records_def)
  have "write_record demo_prepare demo_store p FusedGateUp 32 (pair_records ! e) (64 + 64 * e) w
    = (Inr (demo_expert e, 128 + 64 * e), w6)"
    unfolding source write_record_def Let_def
    by (simp add: 1 2 3 4 5 6 checked_sub_def demo_expert_def Let_def del: One_nat_def)
  then show ?thesis by blast
qed

lemma demo_write_data:
  assumes "dk_nodes d p = None"
  shows "\<exists>w'. write_data demo_prepare demo_store p demo_options d t = (Inr ([demo_expert 0, demo_expert 1], 192, 24), w')"
proof -
  let ?header = "header_encode (header_new FusedGateUp 32 (length [pair_records ! 0, pair_records ! 1]))"
  have env: "pe_grant demo_prepare = (\<lambda>_. True)" "pe_cancelled demo_prepare = (\<lambda>_. False)"
    "de_fault (pe_disk demo_prepare) = (\<lambda>_. None)" by (simp_all add: demo_prepare_def)
  have opts: "pr_layout demo_options = FusedGateUp" "pr_alignment demo_options = 32" by (simp_all add: demo_options_def)
  have store: "ds_index demo_store = [pair_records ! 0, pair_records ! 1]" by (simp add: demo_store_def pair_records_def)
  obtain d1 where d1: "fs_create_new (pe_disk demo_prepare) p d = (Inr (), d1)" using assms by (simp add: fs_create_new_def env)
  have len: "length ?header = 64" by (simp add: header_encode_def header_new_def SIDECAR_MAGIC_def)
  obtain w1 where 1: "write_hashed demo_prepare p ?header \<lparr>wr_disk = d1, wr_hashed = [], wr_clock = t\<rparr> = (Inr (), w1)"
    using demo_write by blast
  obtain w2 where 2: "pad_to_alignment demo_prepare p 32 64 w1 = (Inr 64, w2)" using demo_pad [of 64 p w1] by auto
  obtain w3 where 3: "write_record demo_prepare demo_store p FusedGateUp 32 (pair_records ! 0) 64 (w2\<lparr>wr_clock := Suc (wr_clock w2)\<rparr>)
      = (Inr (demo_expert 0, 128), w3)" using demo_write_record [of 0] by auto
  obtain w4 where 4: "write_record demo_prepare demo_store p FusedGateUp 32 (pair_records ! 1) 128 (w3\<lparr>wr_clock := Suc (wr_clock w3)\<rparr>)
      = (Inr (demo_expert 1, 192), w4)" using demo_write_record [of 1] by auto
  have "add_payload n (demo_expert e) = (Inr (n + 12) :: (unit, unit) prepare_error + _)" if "n < 100" for n e
    using that by (simp add: add_payload_def demo_expert_def Let_def checked_add_def u64_limit_def)
  note pay = this [of 0 0] this [of 12 1]
  have "write_records demo_prepare demo_store p FusedGateUp 32 [pair_records ! 0, pair_records ! 1] 64 0 w2 =
      (Inr ([demo_expert 0, demo_expert 1], 192, 24), w4)"
    using 3 4 pay by (simp add: env)
  then show ?thesis unfolding write_data_def opts store
    by (simp add: Let_def d1 len [simplified] 1 [simplified] 2 env fs_sync_def del: write_records.simps One_nat_def)
qed

lemma zero_hex: "lower_hex_of (replicate n 0) = replicate (2 * n) (CHR ''0'')"
  by (induction n) (simp_all add: lower_hex_of_def hex_digit_def)

lemma zero_sha256: "validate_sha256 (lower_hex_of (replicate 32 0)) c = Inr ()"
  by (simp add: zero_hex validate_sha256_def lower_hex_def list_all_iff)

lemma demo_manifest_valid:
  assumes "digest = lower_hex_of (replicate 32 0)"
  shows "manifest_validate (prepared_manifest demo_prepare demo_options [demo_identity] digest [demo_expert 0, demo_expert 1] 192 digest) = Inr ()"
  unfolding assms
  by (simp add: manifest_validate_def prepared_manifest_def demo_options_def demo_identity_def zero_sha256
      SIDECAR_HEADER_BYTES_def sidecar_align_up_def demo_round demo_pow demo_expert_def u64_limit_def Let_def
      record_range_def segment_range_def checked_add_def validate_record_segments_def less_eq_expert_key_def)


lemma demo_readers: "readers_faithful demo_store [shard_bytes]"
  by (simp add: readers_faithful_def demo_store_def demo_faithful_reader)

lemma demo_outputs:
  assumes "dk_nodes d = (\<lambda>_. None)" "digest = lower_hex_of (replicate 32 0)"
  shows "\<exists>report d'. prepare_outputs demo_prepare demo_store [demo_identity] 24 digest demo_options 7
     [''.'', ''.s.lightbridge-data-7.tmp''] [''.'', ''.j.lightbridge-manifest-7.tmp''] [''.'', ''s''] [''.'', ''j''] d t = Some (Inr report, d')
     \<and> rp_data_path report = [''.'', ''s'']"
proof -
  let ?td = "[''.'', ''.s.lightbridge-data-7.tmp'']" and ?tm = "[''.'', ''.j.lightbridge-manifest-7.tmp'']"
  let ?data = "[''.'', ''s'']" and ?manifest = "[''.'', ''j'']"
  obtain w where w: "write_data demo_prepare demo_store ?td demo_options d t = (Inr ([demo_expert 0, demo_expert 1], 192, 24), w)"
    using demo_write_data assms(1) by metis
  note data = write_data_Inr [OF w demo_readers]
  have nodes: "dk_nodes (wr_disk w) ?td = Some (FileNode (wr_hashed w))" "\<And>q. q \<noteq> ?td \<Longrightarrow> dk_nodes (wr_disk w) q = None"
    using data assms(1) by (simp_all add: in_step_def)
  have env: "de_fault (pe_disk demo_prepare) = (\<lambda>_. None)" "pe_sha demo_prepare = (\<lambda>_. replicate 32 0)"
    "pe_json demo_prepare = (\<lambda>_. Inr [7])" "pr_verify_after_write demo_options = False" "pr_overwrite demo_options = False"
    by (simp_all add: demo_prepare_def demo_options_def)
  have m: "manifest_bytes demo_prepare (prepared_manifest demo_prepare demo_options [demo_identity] digest [demo_expert 0, demo_expert 1] 192 digest)
     = Inr [7]" using demo_manifest_valid [OF assms(2)] by (simp add: manifest_bytes_def env MAX_MANIFEST_BYTES_def)
  obtain d2 where d2: "write_manifest demo_prepare ?tm [7] (wr_disk w) = (Inr (), d2)"
    using nodes(2) [of ?tm] by (simp add: write_manifest_def fs_create_new_def fs_append_def fs_sync_def env)
  have n2: "dk_nodes d2 ?td = Some (FileNode (wr_hashed w))" "dk_nodes d2 ?tm = Some (FileNode [7])" "dk_nodes d2 ?data = None"
    "dk_nodes d2 ?manifest = None" using write_manifest_Inr [OF d2] nodes by simp_all
  have "\<exists>d3. commit_outputs (pe_disk demo_prepare) (pe_display demo_prepare) ?td ?tm ?data ?manifest False 7 d2
      = (Inr () :: (unit, unit) prepare_error + unit, d3)"
    using n2 by (simp add: commit_outputs_def temporary_path_def file_name_def back_up_def put_in_place_def fs_rename_def env)
  then obtain d3 where c: "commit_outputs (pe_disk demo_prepare) (pe_display demo_prepare) ?td ?tm ?data ?manifest False 7 d2
      = (Inr () :: (unit, unit) prepare_error + unit, d3)" by blast
  show ?thesis unfolding prepare_outputs_def w Let_def
    by (simp add: env m [unfolded assms(2)] assms(2) d2 c del: One_nat_def)
qed

lemma demo_run:
  "\<exists>report d'. prepare_sidecar demo_prepare demo_set pair_model [''s''] [''j''] demo_options empty_disk 0 = Some (Inr report, d')
     \<and> rp_data_path report = [''.'', ''s'']"
proof -
  let ?td = "[''.'', ''.s.lightbridge-data-7.tmp'']" and ?tm = "[''.'', ''.j.lightbridge-manifest-7.tmp'']"
  obtain t' where s: "prepare_sources demo_prepare demo_set pair_model demo_options 1 = Some (Inr (demo_store, [demo_identity], 24), t')"
    using demo_sources by blast
  have t: "temporary_paths demo_prepare [''.'', ''s''] [''.'', ''j''] = Inr (7, ?td, ?tm)"
    by (simp add: temporary_paths_def unique_nonce_def demo_prepare_def temporary_path_def file_name_def with_file_name_def
       dec_string.simps [of 7] char_of_def bit_Suc_0_iff)
  have "tensor_directory_sha256 (pe_sha demo_prepare) demo_set = lower_hex_of (replicate 32 0)"
    by (simp add: tensor_directory_sha256_def demo_prepare_def)
  from demo_outputs [OF _ this, of "empty_disk\<lparr>dk_time := 2\<rparr>" t'] obtain report d' where
    r: "prepare_outputs demo_prepare demo_store [demo_identity] 24 (tensor_directory_sha256 (pe_sha demo_prepare) demo_set)
      demo_options 7 ?td ?tm [''.'', ''s''] [''.'', ''j''] (empty_disk\<lparr>dk_time := 2\<rparr>) t' = Some (Inr report, d')"
    "rp_data_path report = [''.'', ''s'']"
    by (auto simp: empty_disk_def)
  have "\<not> pe_cancelled demo_prepare 0" by (simp add: demo_prepare_def)
  then show ?thesis unfolding prepare_sidecar_def demo_paths sum.case prod.case demo_targets
    using s t r by simp
qed

lemma demo_payload:
  "source_payload [shard_bytes] (DirectSource demo_store) (ExpertKey 1 1) = [104, 105, 106, 107, 112, 113, 114, 115, 120, 121, 122, 123]"
proof -
  have "binary_search_by_key dr_key pair_records (ExpertKey 1 1) = Some 1"
    by (simp add: binary_search_by_key_def pair_records_def bsearch.simps [of _ _ _ _ 2] bsearch.simps [of _ _ _ _ 1]
      bsearch.simps [of _ _ _ _ "Suc 0"] bsearch.simps [of _ _ _ _ "Suc (Suc 0)"] less_expert_key_def Let_def)
  then have "direct_index_get (ds_index demo_store) (ExpertKey 1 1) = Some (pair_records ! 1)"
    by (simp add: direct_index_get_def demo_store_def pair_records_def)
  then show ?thesis
    by (simp add: pair_records_def segment_data_def pair_segment_def segment_length_def shard_bytes_def upt_rec)
qed

theorem prepared_sidecar_equivalent_witness:
  "\<exists>report d' mf bytes. prepare_sidecar demo_prepare demo_set pair_model [''s''] [''j''] demo_options empty_disk 0 = Some (Inr report, d') \<and>
     dk_nodes d' [''.'', ''s''] = Some (FileNode bytes) \<and> manifest_validate mf = Inr () \<and>
     source_payload [bytes] (SidecarSource \<lparr>sc_data = demo_reader \<lparr>max_request_bytes = 64\<rparr>, sc_manifest = mf\<rparr>) (ExpertKey 1 1) =
       [104, 105, 106, 107, 112, 113, 114, 115, 120, 121, 122, 123]"
proof -
  obtain report d' where run: "prepare_sidecar demo_prepare demo_set pair_model [''s''] [''j''] demo_options empty_disk 0 = Some (Inr report, d')"
    and r: "rp_data_path report = [''.'', ''s'']" using demo_run by blast
  have f: "readers_faithful store [shard_bytes]"
    if "(direct_store_open (pe_grant demo_prepare) (pe_open demo_prepare) demo_set pair_model :: (unit, unit) prepare_error + _) = Inr store" for store
    using that demo_open demo_readers by simp
  have "plain_name [''s'']" "plain_name [''j'']" by (simp_all add: plain_name_def)
  from prepared_sidecar_equivalent [OF run this f] obtain store mf bytes where
    "(direct_store_open (pe_grant demo_prepare) (pe_open demo_prepare) demo_set pair_model :: (unit, unit) prepare_error + _) = Inr store"
    "dk_nodes d' [''.'', ''s''] = Some (FileNode bytes)" "manifest_validate mf = Inr ()"
    "\<forall>f key. source_payload [bytes] (SidecarSource (\<lparr>sc_data = f, sc_manifest = mf\<rparr> :: unit sidecar)) key =
      source_payload [shard_bytes] (DirectSource store) key" unfolding r by blast
  then have "source_payload [bytes] (SidecarSource \<lparr>sc_data = demo_reader \<lparr>max_request_bytes = 64\<rparr>, sc_manifest = mf\<rparr>) (ExpertKey 1 1) =
       [104, 105, 106, 107, 112, 113, 114, 115, 120, 121, 122, 123]"
    using demo_open demo_payload by simp
  then show ?thesis using run \<open>dk_nodes d' [''.'', ''s''] = Some (FileNode bytes)\<close> \<open>manifest_validate mf = Inr ()\<close> by blast
qed

end
