(* ===== verification/Prepare_Failure.thy ===== *)
theory Prepare_Failure
  imports Prepare_Copy
begin

text \<open>
  A preparation that fails leaves no trace: until the commit only the temporary files are written, the commit
  undoes its renames, and the temporary files are removed.
\<close>

section \<open>Writing changes only the temporary files\<close>

text \<open>While the data file is written, whatever fails, it stays a file and no other path changes.\<close>

definition file_at :: "disk \<Rightarrow> path \<Rightarrow> bool" where
  "file_at d p \<longleftrightarrow> (\<exists>bs. dk_nodes d p = Some (FileNode bs))"

definition only :: "path \<Rightarrow> writer \<Rightarrow> writer \<Rightarrow> bool" where
  "only p w w' \<longleftrightarrow> (\<forall>q. q \<noteq> p \<longrightarrow> dk_nodes (wr_disk w') q = dk_nodes (wr_disk w) q) \<and>
     (file_at (wr_disk w) p \<longrightarrow> file_at (wr_disk w') p)"

lemma only_refl [simp, intro]: "only p w w" "only p w (w\<lparr>wr_clock := t\<rparr>)" "only p (w\<lparr>wr_clock := t\<rparr>) w' = only p w w'"
  by (simp_all add: only_def)

lemma only_trans: "only p w w1 \<Longrightarrow> only p w1 w2 \<Longrightarrow> only p w w2" by (simp add: only_def)

lemma only_then:
  assumes "only p w (snd r)" "\<And>a s. r = (Inr a, s) \<Longrightarrow> only p s (snd (f a s))"
  shows "only p w (snd (then_do r f))"
  using assms by (cases r; cases "fst r") (auto intro: only_trans)

lemma only_write_hashed: "only p w (snd (write_hashed env p bs w))"
  by (auto simp: write_hashed_def fs_append_def only_def file_at_def split: option.splits)

lemma only_write_zeroes: "only p w (snd (write_zeroes env p n w))"
proof (induction env p n w rule: write_zeroes.induct)
  case (1 env p n w)
  show ?case
  proof (cases "n = 0")
    case False
    let ?k = "min n 8192"
    obtain r w1 where h: "write_hashed env p (replicate ?k 0) w = (r, w1)" by fastforce
    then have os: "only p w w1" using only_write_hashed [of p w env "replicate ?k 0"] by simp
    show ?thesis
    proof (cases r)
      case (Inl e)
      then show ?thesis using False h os by (simp add: write_zeroes.simps [of _ _ n] Let_def)
    next
      case (Inr u)
      then show ?thesis using False h only_trans [OF os "1.IH" [OF False refl h [symmetric]]]
        by (simp add: write_zeroes.simps [of _ _ n] Let_def)
    qed
  qed (simp add: write_zeroes.simps [of _ _ 0])
qed

lemma only_pad: "only p w (snd (pad_to_alignment env p al position w))"
  by (auto simp: pad_to_alignment_def only_write_zeroes intro!: only_then split: sum.split)

lemma only_copy: "only p w (snd (copy_segment env store p key source position w))"
proof -
  obtain r t where "read_exact_at (pe_grant env) (pe_cancelled env) (ds_readers store ! sr_shard_index source) (fst (sr_range source))
              (snd (sr_range source)) (wr_clock w) = (r, t)" by fastforce
  moreover have "only p w (snd (write_hashed env p bs (w\<lparr>wr_clock := t\<rparr>)))" for bs
    using only_write_hashed [of p "w\<lparr>wr_clock := t\<rparr>" env bs] by simp
  ultimately show ?thesis by (auto simp: copy_segment_def Let_def intro!: only_then split: sum.split)
qed

lemma only_record: "only p w (snd (write_record env store p layout al source position w))"
  by (auto simp: write_record_def Let_def only_pad only_copy intro!: only_then split: prod.split)

lemma only_records: "only p w (snd (write_records env store p layout al sources position payload w))"
proof (induction sources arbitrary: position payload w)
  case (Cons source rest)
  have "only p w (snd (write_record env store p layout al source position (w\<lparr>wr_clock := t\<rparr>)))" for t
    using only_record [of p "w\<lparr>wr_clock := t\<rparr>" env store layout al source position] by simp
  then show ?case using Cons.IH by (auto intro!: only_then split: prod.split sum.split)
qed simp

lemma write_data_elsewhere:
  assumes "write_data env store p opts d t = (r, w')"
  shows "(\<forall>q. q \<noteq> p \<longrightarrow> dk_nodes (wr_disk w') q = dk_nodes d q) \<and> (is_ok r \<longrightarrow> file_at (wr_disk w') p) \<and>
    (dk_nodes (wr_disk w') p = dk_nodes d p \<or> file_at (wr_disk w') p)"
proof -
  let ?n = "length (ds_index store)"
  let ?header = "header_encode (header_new (pr_layout opts) (pr_alignment opts) ?n)"
  obtain c d1 where c: "fs_create_new (pe_disk env) p d = (c, d1)" by fastforce
  have d1: "\<And>q. q \<noteq> p \<Longrightarrow> dk_nodes d1 q = dk_nodes d q" "is_ok c \<Longrightarrow> file_at d1 p" "\<not> is_ok c \<Longrightarrow> dk_nodes d1 = dk_nodes d"
    using c by (auto simp: fs_create_new_def file_at_def split: option.splits if_splits)
  let ?w = "\<lparr>wr_disk = d1, wr_hashed = [], wr_clock = t\<rparr>"
  have sync: "only p s (snd (case map_err e (fst (fs_sync (pe_disk env) (wr_disk s))) of
      Inl e \<Rightarrow> (Inl e, s\<lparr>wr_disk := snd (fs_sync (pe_disk env) (wr_disk s))\<rparr>)
    | Inr _ \<Rightarrow> (Inr out, s\<lparr>wr_disk := snd (fs_sync (pe_disk env) (wr_disk s))\<rparr>)))" for s e out
    by (auto simp: only_def fs_sync_def file_at_def split: sum.split option.split)
  have "only p ?w (snd (write_data env store p opts d t))"
    by (cases c) (auto simp: write_data_def Let_def c only_write_hashed only_pad only_records sync intro!: only_then split: sum.split)
  moreover have "is_ok r \<longrightarrow> is_ok c" "\<not> is_ok c \<longrightarrow> wr_disk w' = d1"
    using assms by (cases c; auto simp: write_data_def Let_def c)+
  ultimately show ?thesis using assms d1 by (cases "is_ok c") (auto simp: only_def)
qed

lemma write_manifest_elsewhere:
  assumes "write_manifest env p bytes d = (r, d')"
  shows "(\<forall>q. q \<noteq> p \<longrightarrow> dk_nodes d' q = dk_nodes d q) \<and> (dk_nodes d' p = dk_nodes d p \<or> file_at d' p)"
proof -
  obtain c d1 where c: "fs_create_new (pe_disk env) p d = (c, d1)" by fastforce
  obtain a d2 where a: "fs_append (pe_disk env) p bytes d1 = (a, d2)" by fastforce
  obtain s d3 where s: "fs_sync (pe_disk env) d2 = (s, d3)" by fastforce
  have "dk_nodes d1 q = dk_nodes d q" "dk_nodes d2 q = dk_nodes d1 q" "dk_nodes d3 = dk_nodes d2" if "q \<noteq> p" for q
    using c a s that by (auto simp: fs_create_new_def fs_append_def fs_sync_def split: option.splits if_splits)
  moreover have "file_at d2 p" "file_at d2 p \<longrightarrow> file_at d3 p" "\<not> is_ok c \<longrightarrow> dk_nodes d1 = dk_nodes d"
    using c a s by (auto simp: fs_create_new_def fs_append_def fs_sync_def file_at_def split: option.splits if_splits)
  ultimately show ?thesis using assms c a s
    by (cases c; cases a; cases s) (auto simp: write_manifest_def)
qed

lemma drop_elsewhere:
  assumes "q \<notin> {td, tm}"
  shows "dk_nodes (drop_temporaries env td tm d) q = dk_nodes d q"
proof -
  obtain a d1 where a: "fs_remove env td d = (a, d1)" by fastforce
  obtain b d2 where b: "fs_remove env tm d1 = (b, d2)" by fastforce
  show ?thesis using remove_effect [OF a] remove_effect [OF b] assms
    by (cases a; cases b) (auto simp: drop_temporaries_def a b)
qed

lemma backup_names_differ:
  assumes "(temporary_path display p ''data-backup'' nonce :: ('e, 'j) prepare_error + _) = Inr q"
    and "(temporary_path display' p' ''manifest-backup'' nonce :: ('e, 'j) prepare_error + _) = Inr q'"
  shows "q \<noteq> q'"
proof
  assume "q = q'"
  then have "(last p @ ''.lightbridge-data'') @ (''-backup-'' @ dec_string nonce @ ''.tmp'') =
      (last p' @ ''.lightbridge-manifest'') @ (''-backup-'' @ dec_string nonce @ ''.tmp'')"
    using temporary_path_form [OF assms(1)] temporary_path_form [OF assms(2)] by simp
  then have "last p @ ''.lightbridge-data'' = last p' @ ''.lightbridge-manifest''" by blast
  then have "last (last p @ ''.lightbridge-data'') = last (last p' @ ''.lightbridge-manifest'')" by (rule arg_cong)
  then show False by simp
qed

text \<open>The temporary files and the backups are named \<^verbatim>\<open>.....tmp\<close>; no file has such a name before the run.\<close>

definition work_name :: "path \<Rightarrow> bool" where
  "work_name p \<longleftrightarrow> take 1 (last p) = ''.'' \<and> drop (length (last p) - 4) (last p) = ''.tmp''"

definition names_unused :: "disk \<Rightarrow> bool" where
  "names_unused d \<longleftrightarrow> (\<forall>p. dk_nodes d p \<noteq> None \<longrightarrow> \<not> work_name p)"

lemma temporary_work_name:
  assumes "(temporary_path display p kind nonce :: ('e, 'j) prepare_error + _) = Inr q"
  shows "work_name q"
proof -
  define x where "x = last p @ ''.lightbridge-'' @ kind @ ''-'' @ dec_string nonce"
  have "last q = ''.'' @ x @ ''.tmp''" using temporary_path_form [OF assms] by (simp add: x_def)
  then show ?thesis by (simp add: work_name_def)
qed

text \<open>Renaming and removing never put anything at a path that is not the target of a rename.\<close>

definition kept :: "path \<Rightarrow> disk \<Rightarrow> disk \<Rightarrow> bool" where
  "kept p d d' \<longleftrightarrow> dk_nodes d' p = None \<or> dk_nodes d' p = dk_nodes d p"

lemma kept_refl [simp, intro]: "kept p d d" by (simp add: kept_def)

lemma kept_trans: "kept p d e \<Longrightarrow> kept p e f \<Longrightarrow> kept p d f" by (auto simp: kept_def)

lemma kept_rename: "b \<noteq> p \<Longrightarrow> kept p d (snd (fs_rename env a b d))"
  by (auto simp: kept_def fs_rename_def split: option.splits)

lemma kept_remove: "kept p d (snd (fs_remove env a d))"
  by (auto simp: kept_def fs_remove_def split: option.splits node.splits)

lemma kept_restore:
  "data \<noteq> p \<Longrightarrow> manifest \<noteq> p \<Longrightarrow> kept p d (restore_backups env data manifest bd bm u v d)"
  by (auto simp: restore_backups_def Let_def intro: kept_rename kept_trans)

lemma kept_back_up: "backup \<noteq> p \<Longrightarrow> kept p d (snd (back_up env overwrite target backup d))"
proof -
  assume ne: "backup \<noteq> p"
  obtain r d2 where r: "fs_rename env target backup (tick d) = (r, d2)" by fastforce
  have "kept p (tick d) d2" using kept_rename [OF ne, of "tick d" env target] r by simp
  then show ?thesis
    by (cases r; cases "dk_nodes d target \<noteq> None \<and> de_stat env (dk_time d) = None")
      (auto simp: back_up_def fs_exists_def r kept_def)
qed

lemma kept_put:
  assumes "data \<noteq> p" "manifest \<noteq> p"
  shows "kept p d (snd (put_in_place env display td tm data manifest (restore_backups env data manifest bd bm u v) d))"
proof -
  obtain r1 d1 where 1: "fs_rename env td data d = (r1, d1)" by fastforce
  obtain r2 d2 where 2: "fs_rename env tm manifest d1 = (r2, d2)" by fastforce
  obtain r3 d3 where 3: "fs_remove env data d2 = (r3, d3)" by fastforce
  have k: "kept p d d1" "kept p d1 d2" "kept p d2 d3"
    using kept_rename [OF assms(1), of d env td] kept_rename [OF assms(2), of d1 env tm] kept_remove [of p d2 env data] 1 2 3 by simp_all
  note undo = kept_restore [OF assms, of _ env bd bm u v]
  show ?thesis
    using kept_trans [OF k(1) undo] kept_trans [OF k(1) k(2)] kept_trans [OF kept_trans [OF k(1) k(2)] kept_trans [OF k(3) undo]] 1 2 3
    by (cases r1; cases r2) (simp_all add: put_in_place_def)
qed

lemma kept_commit:
  assumes "data \<noteq> p" "manifest \<noteq> p"
    and backups: "\<And>q. (temporary_path display data ''data-backup'' nonce :: ('e, 'j) prepare_error + _) = Inr q \<Longrightarrow> q \<noteq> p"
      "\<And>q. (temporary_path display manifest ''manifest-backup'' nonce :: ('e, 'j) prepare_error + _) = Inr q \<Longrightarrow> q \<noteq> p"
    and run: "(commit_outputs env display td tm data manifest overwrite nonce d :: (('e, 'j) prepare_error + unit) \<times> disk) = (Inl e, d')"
  shows "kept p d d'"
proof -
  let ?paths = "rbind (temporary_path display data ''data-backup'' nonce) (\<lambda>bd.
    rbind (temporary_path display manifest ''manifest-backup'' nonce) (\<lambda>bm. Inr (bd, bm))) :: ('e, 'j) prepare_error + _"
  show ?thesis
  proof (cases ?paths)
    case (Inl e')
    then show ?thesis using run by (simp add: commit_outputs_def)
  next
    case (Inr q)
    then obtain bd bm where q: "q = (bd, bm)" "bd \<noteq> p" "bm \<noteq> p" using backups by (auto simp: rbind_Inr)
    obtain r1 d1 where 1: "back_up env overwrite data bd d = (r1, d1)" by fastforce
    obtain r2 d2 where 2: "back_up env overwrite manifest bm d1 = (r2, d2)" by fastforce
    have k: "kept p d d1" "kept p d1 d2"
      using kept_back_up [OF q(2), of d env overwrite data] kept_back_up [OF q(3), of d1 env overwrite manifest] 1 2 by simp_all
    note k2 = kept_trans [OF k]
    show ?thesis
    proof (cases r1)
      case (Inl e')
      then show ?thesis using run Inr q(1) 1 k by (simp add: commit_outputs_def)
    next
      case r1: (Inr du)
      show ?thesis
      proof (cases r2)
        case (Inl e')
        then show ?thesis
          using run Inr q(1) 1 2 r1 k2 kept_trans [OF k2 kept_rename [OF assms(1), of d2 env bd]]
          by (simp add: commit_outputs_def split: if_splits)
      next
        case r2: (Inr mu)
        let ?put = "put_in_place env display td tm data manifest (restore_backups env data manifest bd bm du mu) d2
          :: (('e, 'j) prepare_error + unit) \<times> disk"
        obtain r3 d3 where 3: "?put = (r3, d3)" by fastforce
        have "kept p d2 (snd ?put)" by (rule kept_put [OF assms(1,2)])
        then have "kept p d2 d3" using 3 by simp
        then show ?thesis using run Inr q(1) 1 2 3 r1 r2 kept_trans [OF k2] by (cases r3) (simp_all add: commit_outputs_def Let_def)
      qed
    qed
  qed
qed

text \<open>
  What a failed run has done before it removes its temporary files: only they have changed, and they are files
  if they exist. A fault while the commit undid its renames may have left the old contents at a backup.
\<close>

definition temps_only :: "path \<Rightarrow> path \<Rightarrow> disk \<Rightarrow> disk \<Rightarrow> bool" where
  "temps_only td tm d d' \<longleftrightarrow> (\<forall>q. q \<notin> {td, tm} \<longrightarrow> dk_nodes d' q = dk_nodes d q)"

definition survives :: "path set \<Rightarrow> disk \<Rightarrow> disk \<Rightarrow> bool" where
  "survives own d d' \<longleftrightarrow> (\<forall>q. dk_nodes d q \<noteq> None \<longrightarrow> (\<exists>p. p \<notin> own \<and> dk_nodes d' p = dk_nodes d q))"

lemma temps_only_survives:
  "temps_only td tm d d' \<Longrightarrow> dk_nodes d td = None \<Longrightarrow> dk_nodes d tm = None \<Longrightarrow> survives {td, tm} d d'"
proof -
  assume h: "temps_only td tm d d'" "dk_nodes d td = None" "dk_nodes d tm = None"
  have "q \<notin> {td, tm} \<and> dk_nodes d' q = dk_nodes d q" if "dk_nodes d q \<noteq> None" for q
    using that h by (cases "q = td"; cases "q = tm") (simp_all add: temps_only_def)
  then show "survives {td, tm} d d'" unfolding survives_def by blast
qed

lemma prepare_outputs_undone:
  fixes env :: "('e, 'j) prepare_env"
  assumes run: "prepare_outputs env store files source_bytes directory opts nonce td tm data manifest d t = Some (Inl e, d')"
    and names: "(temporary_path display data ''data'' nonce :: ('e, 'j) prepare_error + _) = Inr td"
      "(temporary_path display' manifest ''manifest'' nonce :: ('e, 'j) prepare_error + _) = Inr tm"
    and plain: "plain_name data" "plain_name manifest" "data \<noteq> manifest"
    and fresh: "names_unused d" "\<And>t. de_stat (pe_disk env) t = None"
    and targets: "dk_nodes d data \<noteq> Some OtherNode" "dk_nodes d manifest \<noteq> Some OtherNode"
      "pr_overwrite opts \<or> dk_nodes d data = None \<and> dk_nodes d manifest = None"
  shows "survives {td, tm} d d' \<and> (one_fault (pe_disk env) \<longrightarrow> temps_only td tm d d') \<and>
    dk_nodes d' td \<noteq> Some OtherNode \<and> dk_nodes d' tm \<noteq> Some OtherNode"
proof -
  obtain bd bm where backups: "(temporary_path (pe_display env) data ''data-backup'' nonce :: ('e, 'j) prepare_error + _) = Inr bd"
      "(temporary_path (pe_display env) manifest ''manifest-backup'' nonce :: ('e, 'j) prepare_error + _) = Inr bm"
    using names by (auto simp: temporary_path_def rbind_Inr)
  have hidden: "\<not> plain_name td" "\<not> plain_name tm" "\<not> plain_name bd" "\<not> plain_name bm"
    using work_name_hidden [OF names(1), of td] work_name_hidden [OF names(2), of tm] work_name_hidden [OF backups(1), of bd]
      work_name_hidden [OF backups(2), of bm] by blast+
  have work: "td \<noteq> tm" "{td, tm} \<inter> {bd, bm} = {}" "bd \<noteq> bm"
    using work_names_differ [OF names(1,2)] work_names_differ [OF names(1) backups(1)] work_names_differ [OF names(1) backups(2)]
      work_names_differ [OF names(2) backups(1)] work_names_differ [OF names(2) backups(2)] backup_names_differ [OF backups] by auto
  have absent: "dk_nodes d bd = None" "dk_nodes d bm = None" "dk_nodes d td = None" "dk_nodes d tm = None"
    using fresh(1) names [THEN temporary_work_name] backups [THEN temporary_work_name] unfolding names_unused_def by blast+
  have early: ?thesis if "temps_only td tm d d'" "dk_nodes d' td \<noteq> Some OtherNode" "dk_nodes d' tm \<noteq> Some OtherNode"
    using that temps_only_survives [OF that(1) absent(3,4)] by blast
  obtain r w where w: "write_data env store td opts d t = (r, w)" by fastforce
  note data = write_data_elsewhere [OF w]
  have w_ok: "temps_only td tm d (wr_disk w)" "dk_nodes (wr_disk w) td \<noteq> Some OtherNode" "dk_nodes (wr_disk w) tm \<noteq> Some OtherNode"
    using data absent work(1) by (auto simp: temps_only_def file_at_def)
  show ?thesis
  proof (cases r)
    case (Inl e')
    then show ?thesis using run w early w_ok by (auto simp: prepare_outputs_def)
  next
    case (Inr out)
    obtain rs final payload where out: "out = (rs, final, payload)" by (cases out)
    define m where "m = prepared_manifest env opts files directory rs final (lower_hex_of (pe_sha env (wr_hashed w)))"
    note run1 = run [unfolded prepare_outputs_def w Inr out sum.case prod.case Let_def, folded m_def]
    show ?thesis
    proof (cases "manifest_bytes env m")
      case (Inl e')
      then show ?thesis using run1 early w_ok by auto
    next
      case doc: (Inr doc)
      obtain s d2 where d2: "write_manifest env tm doc (wr_disk w) = (s, d2)" by fastforce
      note man = write_manifest_elsewhere [OF d2]
      have td_kept: "dk_nodes d2 td = dk_nodes (wr_disk w) td" using man work(1) by blast
      have d2_ok: "temps_only td tm d d2" "dk_nodes d2 td \<noteq> Some OtherNode" "dk_nodes d2 tm \<noteq> Some OtherNode"
        using man w_ok td_kept by (auto simp: temps_only_def file_at_def)
      show ?thesis
      proof (cases s)
        case (Inl e')
        then show ?thesis using run1 doc d2 early d2_ok by auto
      next
        case s: (Inr u)
        obtain v where v: "(if pr_verify_after_write opts then verify_written env td tm d2 (wr_clock w) else Some (Inr ())) = Some v"
          using verify_written_returns [of env td tm d2 "wr_clock w"] by (cases "pr_verify_after_write opts") auto
        note run2 = run1 [unfolded doc d2 s sum.case prod.case v bind.simps]
        show ?thesis
        proof (cases v)
          case (Inl e')
          then show ?thesis using run2 early d2_ok by auto
        next
          case v: (Inr u')
          let ?commit = "commit_outputs (pe_disk env) (pe_display env) td tm data manifest (pr_overwrite opts) nonce d2
            :: (('e, 'j) prepare_error + unit) \<times> disk"
          obtain c d3 where c0: "?commit = (c, d3)" by fastforce
          then obtain e' where c: "?commit = (Inl e', d')" using run2 v by (cases c; auto)
          have td: "file_at d2 td" using data Inr td_kept by (auto simp: file_at_def)
          have tm: "file_at d2 tm" using write_manifest_Inr [OF d2 [unfolded s]] by (simp add: file_at_def)
          have out: "data \<notin> {td, tm, bd, bm}" "manifest \<notin> {td, tm, bd, bm}" "bd \<notin> {td, tm}" "bm \<notin> {td, tm}"
            using hidden plain work by auto
          then have same: "dk_nodes d2 data = dk_nodes d data" "dk_nodes d2 manifest = dk_nodes d manifest"
            "dk_nodes d2 bd = None" "dk_nodes d2 bm = None"
            using d2_ok(1) absent unfolding temps_only_def by auto
          have "staged td tm data manifest bd bm (pr_overwrite opts) d2"
            using td tm work out same plain(3) targets unfolding staged_def file_at_def by auto
          note effect = outputs_commit_effect [OF this fresh(2) backups c, unfolded sum.case]
          have not_dir: "dk_nodes d' td \<noteq> Some OtherNode" "dk_nodes d' tm \<noteq> Some OtherNode"
            using kept_commit [OF _ _ _ _ c, of td] kept_commit [OF _ _ _ _ c, of tm] backups out d2_ok(2,3) by (auto simp: kept_def)
          have "survives {td, tm} d d'"
            unfolding survives_def
          proof (intro allI impI)
            fix q assume q: "dk_nodes d q \<noteq> None"
            then have "q \<notin> {td, tm, bd, bm}" using absent by auto
            then have "dk_nodes d2 q = dk_nodes d q" using d2_ok(1) by (simp add: temps_only_def)
            with q effect \<open>q \<notin> {td, tm, bd, bm}\<close> out show "\<exists>p. p \<notin> {td, tm} \<and> dk_nodes d' p = dk_nodes d q"
              unfolding nothing_lost_def by (cases "q = data"; cases "q = manifest") (metis insertCI insertE empty_iff)+
          qed
          moreover have "temps_only td tm d d'" if "one_fault (pe_disk env)"
            using effect that d2_ok(1) unfolding temps_only_def by (metis fun_upd_other insertCI)
          ultimately show ?thesis using not_dir by blast
        qed
      qed
    qed
  qed
qed

text \<open>What the checks of the targets found.\<close>

lemma check_target_Inr:
  assumes "check_target env display overwrite target d = (Inr u, d')" "\<And>t. de_stat env t = None"
  shows "dk_nodes d target \<noteq> Some OtherNode \<and> (overwrite \<or> dk_nodes d target = None)"
  using assms by (auto simp: check_target_def fs_exists_def fs_is_file_at_def then_do_Inr split: option.splits if_splits bool.splits)

lemma check_target_nodes:
  "check_target env display overwrite target d = (r, d') \<Longrightarrow> dk_nodes d' = dk_nodes d"
  by (auto simp: check_target_def fs_exists_def fs_is_file_at_def then_do_def fail_as_def
      split: option.splits if_splits bool.splits)

lemma validate_output_targets_nodes:
  "validate_output_targets env display canonicalize st data manifest overwrite d = (r, d') \<Longrightarrow> dk_nodes d' = dk_nodes d"
  by (auto simp: validate_output_targets_def then_do_def dest!: check_target_nodes split: sum.splits prod.splits)

lemma validate_output_targets_Inr:
  fixes env :: "'e disk_env"
  assumes run: "validate_output_targets env display canonicalize st data manifest overwrite d
      = (Inr u :: ('e, 'j) prepare_error + unit, d')" and stat: "\<And>t. de_stat env t = None"
  shows "data \<noteq> manifest" "dk_nodes d data \<noteq> Some OtherNode" "dk_nodes d manifest \<noteq> Some OtherNode"
    "overwrite \<or> dk_nodes d data = None \<and> dk_nodes d manifest = None"
proof -
  show "data \<noteq> manifest" using run by (auto simp: validate_output_targets_def split: sum.splits)
  obtain d1 where 1: "(check_target env display overwrite data d :: (('e, 'j) prepare_error + unit) \<times> disk) = (Inr (), d1)"
    "(check_target env display overwrite manifest d1 :: (('e, 'j) prepare_error + unit) \<times> disk) = (Inr (), d')"
    using run by (auto simp: validate_output_targets_def then_do_Inr split: sum.splits)
  show "dk_nodes d data \<noteq> Some OtherNode" "dk_nodes d manifest \<noteq> Some OtherNode"
    "overwrite \<or> dk_nodes d data = None \<and> dk_nodes d manifest = None"
    using check_target_Inr [OF 1(1) stat] check_target_Inr [OF 1(2) stat] check_target_nodes [OF 1(1)] by auto
qed

text \<open>
  The removal of the two temporary files is the last two calls of a failed run; they do their work unless the
  system refuses them.
\<close>

definition last_two_ok :: "'e disk_env \<Rightarrow> disk \<Rightarrow> bool" where
  "last_two_ok env d \<longleftrightarrow> (\<forall>k < dk_time d. if dk_time d \<le> k + 2 then de_fault env k = None else True)"

lemma drop_removes:
  assumes "last_two_ok env (drop_temporaries env td tm d)" "dk_nodes d td \<noteq> Some OtherNode" "dk_nodes d tm \<noteq> Some OtherNode"
  shows "dk_nodes (drop_temporaries env td tm d) td = None \<and> dk_nodes (drop_temporaries env td tm d) tm = None"
proof -
  obtain a d1 where a: "fs_remove env td d = (a, d1)" by fastforce
  obtain b d2 where b: "fs_remove env tm d1 = (b, d2)" by fastforce
  note e = remove_effect [OF a] remove_effect [OF b]
  have t: "dk_time d1 = Suc (dk_time d)" "dk_time d2 = Suc (Suc (dk_time d))" using e by simp_all
  have d2: "drop_temporaries env td tm d = d2" by (simp add: drop_temporaries_def a b)
  have "de_fault env (dk_time d) = None" "de_fault env (Suc (dk_time d)) = None"
    using assms(1) t unfolding d2 last_two_ok_def by auto
  then have a': "dk_nodes d1 = (dk_nodes d)(td := None)" and b': "dk_nodes d2 = (dk_nodes d1)(tm := None)"
    using e t assms(2,3) by (cases a; cases b; auto simp: fun_eq_iff)+
  then show ?thesis by (simp add: d2)
qed

lemma drop_survives:
  "survives {td, tm} d d2 \<Longrightarrow> survives {td, tm} d (drop_temporaries env td tm d2)"
  unfolding survives_def using drop_elsewhere [of _ td tm env d2] by metis

lemma drop_temps_only:
  "temps_only td tm d d2 \<Longrightarrow> temps_only td tm d (drop_temporaries env td tm d2)"
  by (simp add: temps_only_def drop_elsewhere)

lemma failed_preparation:
  fixes env :: "('e, 'j) prepare_env"
  assumes run: "prepare_sidecar env st m data_path manifest_path opts d t = Some (Inl e, d')"
    and plain: "plain_name data_path" "plain_name manifest_path"
    and fresh: "names_unused d" "\<And>t. de_stat (pe_disk env) t = None"
  shows "survives {} d d' \<and> (one_fault (pe_disk env) \<longrightarrow>
    (\<forall>q. \<not> work_name q \<longrightarrow> dk_nodes d' q = dk_nodes d q) \<and> (last_two_ok (pe_disk env) d' \<longrightarrow> dk_nodes d' = dk_nodes d))"
proof (cases "output_paths env data_path manifest_path opts")
  case (Inl e')
  then show ?thesis using run by (auto simp: prepare_sidecar_def survives_def)
next
  case (Inr paths)
  obtain data manifest where paths: "output_paths env data_path manifest_path opts = Inr (data, manifest)" using Inr by (cases paths) simp
  let ?check = "validate_output_targets (pe_disk env) (pe_display env) (pe_canonicalize env) st data manifest (pr_overwrite opts) d
    :: (('e, 'j) prepare_error + unit) \<times> disk"
  obtain c d1 where d1: "?check = (c, d1)" by fastforce
  have n1: "dk_nodes d1 = dk_nodes d" by (rule validate_output_targets_nodes [OF d1])
  have same: ?thesis if "d' = d1" using n1 that by (auto simp: survives_def)
  note run1 = run [unfolded prepare_sidecar_def paths d1 sum.case prod.case]
  show ?thesis
  proof (cases "\<exists>u. c = Inr u \<and> \<not> pe_cancelled env t")
    case False
    then show ?thesis using run1 same by (cases c) auto
  next
    case True
    then have c: "c = Inr ()" and live: "\<not> pe_cancelled env t" by auto
    note targets = validate_output_targets_Inr [OF d1 [unfolded c] fresh(2)]
    obtain found t1 where found: "prepare_sources env st m opts (Suc t) = Some (found, t1)"
      using prepare_sources_returns by fastforce
    note run2 = run1 [unfolded c sum.case found prod.case if_not_P [OF live] bind.simps]
    show ?thesis
    proof (cases "rbind found (\<lambda>s. rbind (temporary_paths env data manifest) (\<lambda>paths. Inr (s, paths)))")
      case (Inl e')
      then show ?thesis using run2 same by simp
    next
      case (Inr got)
      obtain store files source_bytes nonce td tm where got: "got = ((store, files, source_bytes), nonce, td, tm)"
        by (cases got) auto
      have temps: "temporary_paths env data manifest = Inr (nonce, td, tm)" using Inr got by (auto simp: rbind_Inr)
      obtain r d2 where os: "prepare_outputs env store files source_bytes (tensor_directory_sha256 (pe_sha env) st) opts nonce
          td tm data manifest d1 t1 = Some (r, d2)" using prepare_outputs_returns by fastforce
      obtain e' where r: "r = Inl e'" and d': "d' = drop_temporaries (pe_disk env) td tm d2"
        using run2 [unfolded Inr got sum.case prod.case os] by (cases r) auto
      have names: "(temporary_path (pe_display env) data ''data'' nonce :: ('e, 'j) prepare_error + _) = Inr td"
        "(temporary_path (pe_display env) manifest ''manifest'' nonce :: ('e, 'j) prepare_error + _) = Inr tm"
        using temps by (auto simp: temporary_paths_def rbind_Inr)
      have pl: "plain_name data" "plain_name manifest"
        using paths output_path_plain plain by (auto simp: output_paths_def rbind_Inr)
      have fresh1: "names_unused d1" using fresh(1) n1 by (simp add: names_unused_def)
      note hidden = names [THEN temporary_work_name]
      then have absent: "dk_nodes d td = None" "dk_nodes d tm = None" using fresh(1) unfolding names_unused_def by blast+
      note undone = prepare_outputs_undone [OF os [unfolded r] names pl targets(1) fresh1 fresh(2) targets(2-4) [folded n1]]
      have "survives {td, tm} d d2" using conjunct1 [OF undone] by (simp only: survives_def n1)
      then have "survives {td, tm} d d'" unfolding d' by (rule drop_survives)
      moreover have "(\<forall>q. \<not> work_name q \<longrightarrow> dk_nodes d' q = dk_nodes d q) \<and> (last_two_ok (pe_disk env) d' \<longrightarrow> dk_nodes d' = dk_nodes d)"
        if "one_fault (pe_disk env)"
      proof -
        have "temps_only td tm d1 d2" using undone that by blast
        then have "temps_only td tm d d2" by (simp add: temps_only_def n1)
        then have t: "temps_only td tm d d'" unfolding d' by (rule drop_temps_only)
        have "dk_nodes d' = dk_nodes d" if "last_two_ok (pe_disk env) d'"
        proof
          fix q show "dk_nodes d' q = dk_nodes d q"
            using t drop_removes [OF that [unfolded d']] undone absent by (cases "q \<in> {td, tm}") (auto simp: temps_only_def d')
        qed
        moreover have "q \<notin> {td, tm}" if "\<not> work_name q" for q using that hidden by blast
        ultimately show ?thesis using t unfolding temps_only_def by blast
      qed
      ultimately show ?thesis unfolding survives_def by blast
    qed
  qed
qed

text \<open> C15.
  A preparation that fails leaves the disk as it was. If at most one of the calls that change the disk failed
  during the run -- wherever it was, from the creation of the first temporary file to the second rename of the
  commit, or none at all when the failure was a read, the cancellation, the verification or the clock -- then every
  path, the temporary files and the backups of the run included, holds afterwards what it held before, unless
  the call that failed is one of the last two, which remove the temporary files; even then every path but the
  names \<^verbatim>\<open>.....tmp\<close> of the run is as before, in particular the sidecar and the manifest that were to be replaced.
  And whatever calls failed, no file is lost: its contents are still on the disk, at its path or at another one.
  (No name of that pattern is taken before, and inspecting a path does not fail.)
\<close>

theorem failed_preparation_restores:
  fixes env :: "('e, 'j) prepare_env"
  assumes "plain_name data_path" "plain_name manifest_path" "names_unused d"
    and "\<And>t. de_stat (pe_disk env) t = None"
  shows "case prepare_sidecar env st m data_path manifest_path opts d t of
      Some (Inl _, d') \<Rightarrow>
        (one_fault (pe_disk env) \<longrightarrow>
          (last_two_ok (pe_disk env) d' \<longrightarrow> dk_nodes d' = dk_nodes d) \<and> (\<forall>q. \<not> work_name q \<longrightarrow> dk_nodes d' q = dk_nodes d q)) \<and>
        survives {} d d'
    | _ \<Rightarrow> True"
proof (cases "prepare_sidecar env st m data_path manifest_path opts d t")
  case (Some out)
  then obtain r d' where out: "prepare_sidecar env st m data_path manifest_path opts d t = Some (r, d')" by (cases out) simp
  show ?thesis
  proof (cases r)
    case (Inl e)
    from failed_preparation [OF out [unfolded Inl] assms] show ?thesis unfolding out Inl option.case prod.case sum.case by blast
  qed (simp add: out)
qed simp

text \<open>Replacing an old sidecar while the call number \<open>k\<close> fails, after writing up to three bytes.\<close>

definition faulty_prepare :: "nat \<Rightarrow> (unit, unit) prepare_env" where
  "faulty_prepare k = demo_prepare\<lparr>pe_disk := \<lparr>de_fault = (\<lambda>t. if t = k then Some () else None), de_stat = (\<lambda>_. None),
     de_partial = (\<lambda>_. 3), de_refused = ()\<rparr>\<rparr>"

definition old_disk :: disk where
  "old_disk = \<lparr>dk_nodes = [[''.'', ''s''] \<mapsto> FileNode [1], [''.'', ''j''] \<mapsto> FileNode [2]], dk_time = 0\<rparr>"

text \<open>The run that fails in the middle of writing: three bytes of the header reach the temporary file.\<close>

lemma faulty_run:
  "\<exists>e d'. prepare_sidecar (faulty_prepare 5) demo_set pair_model [''s''] [''j''] (demo_options\<lparr>pr_overwrite := True\<rparr>) old_disk 0 =
    Some (Inl e, d') \<and> dk_time d' = 8"
proof -
  let ?env = "faulty_prepare 5" and ?opts = "demo_options\<lparr>pr_overwrite := True\<rparr>"
  let ?td = "[''.'', ''.s.lightbridge-data-7.tmp'']" and ?tm = "[''.'', ''.j.lightbridge-manifest-7.tmp'']"
  let ?d = "old_disk\<lparr>dk_time := 4\<rparr>"
  have paths: "output_paths ?env [''s''] [''j''] ?opts = Inr ([''.'', ''s''], [''.'', ''j''])"
    using demo_paths by (simp add: output_paths_def faulty_prepare_def validate_prepare_options_def)
  have checked: "validate_output_targets (pe_disk ?env) (pe_display ?env) (pe_canonicalize ?env) demo_set [''.'', ''s''] [''.'', ''j'']
      (pr_overwrite ?opts) old_disk = (Inr () :: (unit, unit) prepare_error + unit, ?d)"
    by (simp add: validate_output_targets_def faulty_prepare_def demo_defs check_source_def check_target_def fs_exists_def
        fs_is_file_at_def old_disk_def tick_def)
  obtain t' where "prepare_sources demo_prepare demo_set pair_model demo_options 1 = Some (Inr (demo_store, [demo_identity], 24), t')"
    using demo_sources by blast
  moreover have "prepare_sources ?env demo_set pair_model ?opts t = prepare_sources demo_prepare demo_set pair_model demo_options t" for t
    by (simp add: prepare_sources_def faulty_prepare_def split: sum.split)
  ultimately have sources: "prepare_sources ?env demo_set pair_model ?opts 1 = Some (Inr (demo_store, [demo_identity], 24), t')"
    by simp
  have temps: "temporary_paths ?env [''.'', ''s''] [''.'', ''j''] = Inr (7, ?td, ?tm)"
    by (simp add: temporary_paths_def unique_nonce_def faulty_prepare_def demo_prepare_def temporary_path_def file_name_def
       with_file_name_def dec_string.simps [of 7] char_of_def bit_Suc_0_iff)
  have "\<exists>e w. write_data ?env demo_store ?td ?opts ?d t' = (Inl e, w) \<and> dk_time (wr_disk w) = 6"
    by (simp add: write_data_def Let_def fs_create_new_def fs_append_def write_hashed_def faulty_prepare_def old_disk_def)
  then obtain e w where w: "write_data ?env demo_store ?td ?opts ?d t' = (Inl e, w)" "dk_time (wr_disk w) = 6" by blast
  have outputs: "prepare_outputs ?env demo_store [demo_identity] 24 h ?opts 7 ?td ?tm [''.'', ''s''] [''.'', ''j''] ?d t' =
      Some (Inl e, wr_disk w)" for h
    by (simp add: prepare_outputs_def w(1))
  obtain a d1 where a: "fs_remove (pe_disk ?env) ?td (wr_disk w) = (a, d1)" by fastforce
  obtain b d2 where b: "fs_remove (pe_disk ?env) ?tm d1 = (b, d2)" by fastforce
  have "dk_time (drop_temporaries (pe_disk ?env) ?td ?tm (wr_disk w)) = 8"
    using remove_effect [OF a] remove_effect [OF b] w(2) by (simp add: drop_temporaries_def a b)
  moreover have "\<not> pe_cancelled ?env 0" by (simp add: faulty_prepare_def demo_prepare_def)
  ultimately show ?thesis
    unfolding prepare_sidecar_def paths checked sum.case prod.case using sources temps outputs by simp
qed

theorem failed_preparation_restores_witness:
  "\<exists>e d'. prepare_sidecar (faulty_prepare 5) demo_set pair_model [''s''] [''j''] (demo_options\<lparr>pr_overwrite := True\<rparr>) old_disk 0 =
      Some (Inl e, d') \<and> dk_nodes d' = dk_nodes old_disk"
proof -
  obtain e d' where run: "prepare_sidecar (faulty_prepare 5) demo_set pair_model [''s''] [''j''] (demo_options\<lparr>pr_overwrite := True\<rparr>) old_disk 0 =
      Some (Inl e, d')" and time: "dk_time d' = 8" using faulty_run by blast
  have f: "one_fault (pe_disk (faulty_prepare 5))" "de_stat (pe_disk (faulty_prepare 5)) t = None" for t
    by (auto simp: faulty_prepare_def one_fault_def split: if_splits)
  have p: "plain_name [''s'']" "plain_name [''j'']" by (simp_all add: plain_name_def)
  have n: "names_unused old_disk" by (auto simp: names_unused_def old_disk_def work_name_def split: if_splits)
  have "last_two_ok (pe_disk (faulty_prepare 5)) d'" by (simp add: last_two_ok_def time faulty_prepare_def)
  with failed_preparation_restores [OF p n f(2), of demo_set pair_model "demo_options\<lparr>pr_overwrite := True\<rparr>" 0] f(1) run
  show ?thesis by auto
qed

end
