(* ===== verification/Chat_Template.thy ===== *)
theory Chat_Template
  imports Str_Ops "HOL-Library.Char_ord" "HOL-Library.List_Lexorder"
begin

text \<open>
  The chat template of \<^verbatim>\<open>crates/bridge-tokenizer/src/chat.rs\<close>: messages, options and the text of a prompt.
  A string is its list of UTF-8 bytes. A JSON value is a string or anything else, opaque; its serialiser, its
  parser and the test for an object belong to \<^verbatim>\<open>serde_json\<close> and are arguments. A \<^verbatim>\<open>BTreeMap\<close> is its list of
  entries in the order of the keys.
\<close>

section \<open>Protocol tokens\<close>

definition BOS_TOKEN :: string where
  "BOS_TOKEN = ''<'' @ [CHR 0xEF, CHR 0xBD, CHR 0x9C] @ ''hy_begin_of_sentence:opensource'' @ [CHR 0xEF, CHR 0xBD, CHR 0x9C] @ ''>''"

definition EOS_TOKEN :: string where
  "EOS_TOKEN = ''<'' @ [CHR 0xEF, CHR 0xBD, CHR 0x9C] @ ''hy_eos:opensource'' @ [CHR 0xEF, CHR 0xBD, CHR 0x9C] @ ''>''"

definition USER_TOKEN :: string where
  "USER_TOKEN = ''<'' @ [CHR 0xEF, CHR 0xBD, CHR 0x9C] @ ''hy_User:opensource'' @ [CHR 0xEF, CHR 0xBD, CHR 0x9C] @ ''>''"

definition ASSISTANT_TOKEN :: string where
  "ASSISTANT_TOKEN = ''<'' @ [CHR 0xEF, CHR 0xBD, CHR 0x9C] @ ''hy_Assistant:opensource'' @ [CHR 0xEF, CHR 0xBD, CHR 0x9C] @ ''>''"

definition THINK_BEGIN_TOKEN :: string where
  "THINK_BEGIN_TOKEN = ''<think:opensource>''"

definition THINK_END_TOKEN :: string where
  "THINK_END_TOKEN = ''</think:opensource>''"

definition TOOL_CALLS_BEGIN_TOKEN :: string where
  "TOOL_CALLS_BEGIN_TOKEN = ''<tool_calls:opensource>''"

definition TOOL_CALLS_END_TOKEN :: string where
  "TOOL_CALLS_END_TOKEN = ''</tool_calls:opensource>''"

definition TOOL_CALL_BEGIN_TOKEN :: string where
  "TOOL_CALL_BEGIN_TOKEN = ''<tool_call:opensource>''"

definition TOOL_CALL_END_TOKEN :: string where
  "TOOL_CALL_END_TOKEN = ''</tool_call:opensource>''"

definition TOOL_SEPARATOR_TOKEN :: string where
  "TOOL_SEPARATOR_TOKEN = ''<tool_sep:opensource>''"

definition ARGUMENT_KEY_BEGIN_TOKEN :: string where
  "ARGUMENT_KEY_BEGIN_TOKEN = ''<arg_key:opensource>''"

definition ARGUMENT_KEY_END_TOKEN :: string where
  "ARGUMENT_KEY_END_TOKEN = ''</arg_key:opensource>''"

definition ARGUMENT_VALUE_BEGIN_TOKEN :: string where
  "ARGUMENT_VALUE_BEGIN_TOKEN = ''<arg_value:opensource>''"

definition ARGUMENT_VALUE_END_TOKEN :: string where
  "ARGUMENT_VALUE_END_TOKEN = ''</arg_value:opensource>''"

definition TOOL_RESPONSES_BEGIN_TOKEN :: string where
  "TOOL_RESPONSES_BEGIN_TOKEN = ''<tool_responses:opensource>''"

definition TOOL_RESPONSES_END_TOKEN :: string where
  "TOOL_RESPONSES_END_TOKEN = ''</tool_responses:opensource>''"

definition TOOL_RESPONSE_BEGIN_TOKEN :: string where
  "TOOL_RESPONSE_BEGIN_TOKEN = ''<tool_response:opensource>''"

definition TOOL_RESPONSE_END_TOKEN :: string where
  "TOOL_RESPONSE_END_TOKEN = ''</tool_response:opensource>''"

definition REASONING_MODE_TOKEN :: string where
  "REASONING_MODE_TOKEN = ''<'' @ [CHR 0xEF, CHR 0xBD, CHR 0x9C] @ ''reasoning_mode:opensource'' @ [CHR 0xEF, CHR 0xBD, CHR 0x9C] @ ''>''"

section \<open>Messages and options\<close>

datatype reasoning_effort = HighEffort | LowEffort | NoThink

primrec effort_as_str :: "reasoning_effort \<Rightarrow> string" where
  "effort_as_str HighEffort = ''high''"
| "effort_as_str LowEffort = ''low''"
| "effort_as_str NoThink = ''no_think''"

datatype chat_error =
    InvalidReasoningEffort
  | EmptyToolName nat
  | InvalidToolDefinition nat
  | ToolArgumentSerialization string string
  | ToolDefinitionSerialization nat string

definition effort_try_from :: "string \<Rightarrow> chat_error + reasoning_effort" where
  "effort_try_from v =
     (if v = ''high'' then Inr HighEffort
      else if v = ''low'' then Inr LowEffort
      else if v = ''no_think'' then Inr NoThink
      else Inl InvalidReasoningEffort)"

datatype 'v json = JString string | JOther 'v

record 'v json_env =
  je_to_string :: "'v json \<Rightarrow> string + string"
  je_from_str :: "string \<Rightarrow> 'v json option"
  je_is_object :: "'v json \<Rightarrow> bool"

record 'v tool_call =
  tc_name :: string
  tc_arguments :: "(string \<times> 'v json) list"

datatype 'v chat_message =
    System string
  | User string
  | Assistant string "string option" "'v tool_call list"
  | Tool string

record 'v template_options =
  to_add_generation_prompt :: bool
  to_reasoning_effort :: reasoning_effort
  to_preserved_thinking :: "bool option"
  to_is_training :: bool
  to_raw_last_assistant :: bool
  to_tools :: "'v json list"

definition template_default :: "'v template_options" where
  "template_default = \<lparr>to_add_generation_prompt = True, to_reasoning_effort = NoThink, to_preserved_thinking = None,
     to_is_training = False, to_raw_last_assistant = False, to_tools = []\<rparr>"

section \<open>Formatting\<close>

definition nl :: string where "nl = [CHR 0x0A]"

text \<open>The state of the loop over the messages.\<close>

record format_state =
  fm_output :: string
  fm_previous_was_tool :: bool
  fm_first_tool_response :: bool
  fm_last_is_assistant :: bool

definition emit_text :: "string \<Rightarrow> format_state \<Rightarrow> format_state" where
  "emit_text s f = f\<lparr>fm_output := fm_output f @ s\<rparr>"

definition close_tool_responses :: "format_state \<Rightarrow> format_state" where
  "close_tool_responses f =
     (if fm_previous_was_tool f then (emit_text TOOL_RESPONSES_END_TOKEN f)\<lparr>fm_previous_was_tool := False\<rparr> else f)"

definition argument_text :: "'v json_env \<Rightarrow> string \<times> 'v json \<Rightarrow> chat_error + string" where
  "argument_text env kv =
     (let (key, v) = kv in
      rbind (case v of JString s \<Rightarrow> Inr s | JOther _ \<Rightarrow> map_err (ToolArgumentSerialization key) (je_to_string env v)) (\<lambda>encoded.
      Inr (ARGUMENT_KEY_BEGIN_TOKEN @ key @ ARGUMENT_KEY_END_TOKEN @ nl @
           ARGUMENT_VALUE_BEGIN_TOKEN @ encoded @ ARGUMENT_VALUE_END_TOKEN @ nl)))"

definition call_text :: "'v json_env \<Rightarrow> nat \<times> 'v tool_call \<Rightarrow> chat_error + string" where
  "call_text env ic =
     (let (call_index, call) = ic in
      rbind (check (tc_name call \<noteq> []) (EmptyToolName call_index)) (\<lambda>_.
      rbind (map_res (argument_text env) (tc_arguments call)) (\<lambda>arguments.
      Inr (TOOL_CALL_BEGIN_TOKEN @ tc_name call @ TOOL_SEPARATOR_TOKEN @ nl @ concat arguments @
           TOOL_CALL_END_TOKEN @ nl))))"

definition append_tool_calls :: "'v json_env \<Rightarrow> 'v tool_call list \<Rightarrow> chat_error + string" where
  "append_tool_calls env calls =
     rbind (map_res (call_text env) (enumerate 0 calls)) (\<lambda>texts.
     Inr (TOOL_CALLS_BEGIN_TOKEN @ nl @ concat texts @ TOOL_CALLS_END_TOKEN))"

fun join_lines :: "string list \<Rightarrow> string" where
  "join_lines [] = []"
| "join_lines [s] = s"
| "join_lines (s # ss) = s @ nl @ join_lines ss"

definition tool_definition_text :: "'v json_env \<Rightarrow> nat \<times> 'v json \<Rightarrow> chat_error + string" where
  "tool_definition_text env it = map_err (ToolDefinitionSerialization (fst it)) (je_to_string env (snd it))"

definition append_tool_instructions :: "'v json_env \<Rightarrow> string \<Rightarrow> 'v template_options \<Rightarrow> chat_error + string" where
  "append_tool_instructions env system_prompt opts =
     rbind (map_res (tool_definition_text env) (enumerate 0 (to_tools opts))) (\<lambda>tools.
     Inr ((if system_prompt = [] then [] else nl @ nl) @
       ''# Tools'' @ nl @ nl @ ''You may call one or more functions to assist with the user query.'' @
       nl @ nl @ ''You are provided with function signatures within <tools></tools> XML tags:'' @
       nl @ ''<tools>'' @ nl @ join_lines tools @ nl @ ''</tools>'' @ nl @ nl @
       ''For function call returns, you should first print '' @ TOOL_CALLS_BEGIN_TOKEN @ nl @
       ''For each function call, you should return object like:'' @ nl @
       TOOL_CALL_BEGIN_TOKEN @ ''{function-name}'' @ TOOL_SEPARATOR_TOKEN @ nl @
       ARGUMENT_KEY_BEGIN_TOKEN @ ''{arg-key-1}'' @ ARGUMENT_KEY_END_TOKEN @ nl @
       ARGUMENT_VALUE_BEGIN_TOKEN @ ''{arg-value-1}'' @ ARGUMENT_VALUE_END_TOKEN @ nl @
       ARGUMENT_KEY_BEGIN_TOKEN @ ''{arg-key-2}'' @ ARGUMENT_KEY_END_TOKEN @ nl @
       ARGUMENT_VALUE_BEGIN_TOKEN @ ''{arg-value-2}'' @ ARGUMENT_VALUE_END_TOKEN @ nl @
       ''...'' @ nl @ TOOL_CALL_END_TOKEN @ nl @
       ''At the end of function call returns, you should print '' @ TOOL_CALLS_END_TOKEN @
       REASONING_MODE_TOKEN @ ''reasoning_effort:'' @ effort_as_str (to_reasoning_effort opts)))"

text \<open>\<^verbatim>\<open>rposition\<close>: the last user message.\<close>

definition is_user :: "'v chat_message \<Rightarrow> bool" where
  "is_user m = (case m of User _ \<Rightarrow> True | _ \<Rightarrow> False)"

fun last_user_index :: "'v chat_message list \<Rightarrow> nat option" where
  "last_user_index [] = None"
| "last_user_index (m # ms) =
     (case last_user_index ms of Some i \<Rightarrow> Some (Suc i) | None \<Rightarrow> if is_user m then Some 0 else None)"

definition system_text :: "'v chat_message list \<Rightarrow> string" where
  "system_text ms = concat (map (\<lambda>m. case m of System s \<Rightarrow> s | _ \<Rightarrow> []) ms)"

text \<open>What the loop knows besides its state: the options, the last user message and the number of messages.\<close>

definition thinking_text ::
  "'v template_options \<Rightarrow> bool \<Rightarrow> nat option \<Rightarrow> nat \<Rightarrow> string option \<Rightarrow> string" where
  "thinking_text opts preserve last_user index reasoning =
     THINK_BEGIN_TOKEN @
     (if to_is_training opts \<or> preserve \<or> (case last_user of None \<Rightarrow> False | Some u \<Rightarrow> u < index)
      then (case reasoning of None \<Rightarrow> [] | Some r \<Rightarrow> r) else []) @
     THINK_END_TOKEN"

definition assistant_text ::
  "'v json_env \<Rightarrow> 'v template_options \<Rightarrow> bool \<Rightarrow> nat option \<Rightarrow> bool \<Rightarrow> nat \<Rightarrow> string \<Rightarrow> string option \<Rightarrow>
    'v tool_call list \<Rightarrow> chat_error + string" where
  "assistant_text env opts preserve last_user at_end index body reasoning calls =
     (let text = thinking_text opts preserve last_user index reasoning @ body in
      if calls = [] then
        (if at_end \<and> to_raw_last_assistant opts then Inr body
         else Inr (text @ (if \<not> at_end \<or> to_is_training opts then EOS_TOKEN else [])))
      else rbind (append_tool_calls env calls) (\<lambda>rendered. Inr (text @ rendered @ EOS_TOKEN)))"

definition format_message ::
  "'v json_env \<Rightarrow> 'v template_options \<Rightarrow> bool \<Rightarrow> nat option \<Rightarrow> nat \<Rightarrow> nat \<times> 'v chat_message \<Rightarrow> format_state \<Rightarrow>
    chat_error + format_state" where
  "format_message env opts preserve last_user n im f =
     (let (index, message) = im in
      case message of
        System _ \<Rightarrow> Inr f
      | User body \<Rightarrow> Inr ((emit_text (USER_TOKEN @ body) (close_tool_responses f))\<lparr>fm_last_is_assistant := False\<rparr>)
      | Assistant body reasoning calls \<Rightarrow>
          rbind (assistant_text env opts preserve last_user (index + 1 = n) index body reasoning calls) (\<lambda>rendered.
          Inr ((emit_text (ASSISTANT_TOKEN @ rendered) (close_tool_responses f))
                 \<lparr>fm_previous_was_tool := False, fm_last_is_assistant := (index + 1 = n)\<rparr>))
      | Tool body \<Rightarrow>
          (let opening = (if fm_first_tool_response f then TOOL_RESPONSES_BEGIN_TOKEN @ nl else []) in
           Inr ((emit_text (opening @ TOOL_RESPONSE_BEGIN_TOKEN @ nl @ body @ nl @ TOOL_RESPONSE_END_TOKEN @ nl) f)
                  \<lparr>fm_previous_was_tool := True, fm_first_tool_response := False, fm_last_is_assistant := False\<rparr>)))"

definition generation_prompt :: "reasoning_effort \<Rightarrow> string" where
  "generation_prompt effort = ASSISTANT_TOKEN @ THINK_BEGIN_TOKEN @ (if effort = NoThink then THINK_END_TOKEN else [])"

definition format_head :: "'v json_env \<Rightarrow> 'v chat_message list \<Rightarrow> 'v template_options \<Rightarrow> chat_error + string" where
  "format_head env messages opts =
     (case find (\<lambda>it. \<not> je_is_object env (snd it)) (enumerate 0 (to_tools opts)) of
        Some (tool_index, _) \<Rightarrow> Inl (InvalidToolDefinition tool_index)
      | None \<Rightarrow>
          (let system_prompt = system_text messages in
           if to_tools opts = []
           then Inr (BOS_TOKEN @ system_prompt @ REASONING_MODE_TOKEN @ ''reasoning_effort:'' @
                     effort_as_str (to_reasoning_effort opts))
           else rbind (append_tool_instructions env system_prompt opts) (\<lambda>instructions.
                  Inr (BOS_TOKEN @ system_prompt @ instructions))))"

definition preserves_thinking :: "'v template_options \<Rightarrow> bool" where
  "preserves_thinking opts = (case to_preserved_thinking opts of Some b \<Rightarrow> b | None \<Rightarrow> to_tools opts \<noteq> [])"

definition format_body ::
  "'v json_env \<Rightarrow> 'v template_options \<Rightarrow> 'v chat_message list \<Rightarrow> format_state \<Rightarrow> chat_error + format_state" where
  "format_body env opts messages =
     fold_res (format_message env opts (preserves_thinking opts) (last_user_index messages) (length messages))
       (enumerate 0 messages)"

definition format_chat :: "'v json_env \<Rightarrow> 'v chat_message list \<Rightarrow> 'v template_options \<Rightarrow> chat_error + string" where
  "format_chat env messages opts =
     rbind (format_head env messages opts) (\<lambda>head.
     rbind (format_body env opts messages
       \<lparr>fm_output = head, fm_previous_was_tool = False, fm_first_tool_response = True, fm_last_is_assistant = False\<rparr>) (\<lambda>f.
     Inr (fm_output (close_tool_responses f) @
       (if to_add_generation_prompt opts \<and> \<not> fm_last_is_assistant f
        then generation_prompt (to_reasoning_effort opts) else []))))"

text \<open>
  A later group of tool responses is closed but not opened: \<^verbatim>\<open>is_first_tool_response\<close> is never set again.
\<close>

lemma second_tool_group_unopened:
  "format_chat env [User ''a'', Tool ''b'', User ''c'', Tool ''d''] template_default = Inr (
     BOS_TOKEN @ REASONING_MODE_TOKEN @ ''reasoning_effort:no_think'' @
     USER_TOKEN @ ''a'' @ TOOL_RESPONSES_BEGIN_TOKEN @ nl @ TOOL_RESPONSE_BEGIN_TOKEN @ nl @ ''b'' @ nl @ TOOL_RESPONSE_END_TOKEN @ nl @
     TOOL_RESPONSES_END_TOKEN @
     USER_TOKEN @ ''c'' @ TOOL_RESPONSE_BEGIN_TOKEN @ nl @ ''d'' @ nl @ TOOL_RESPONSE_END_TOKEN @ nl @ TOOL_RESPONSES_END_TOKEN @
     ASSISTANT_TOKEN @ THINK_BEGIN_TOKEN @ THINK_END_TOKEN)"
  by (simp add: format_chat_def format_head_def format_body_def format_message_def template_default_def system_text_def
      emit_text_def close_tool_responses_def generation_prompt_def)

end
