(* ===== verification/Tokenizer.thy ===== *)
theory Tokenizer
  imports Chat_Template Gguf_Value
begin

text \<open>
  The tokenizer of a checkpoint, \<^verbatim>\<open>crates/bridge-tokenizer/src/gguf.rs\<close> and \<^verbatim>\<open>lib.rs\<close>: the checks of the
  metadata, the vocabulary, the special tokens, and the calls of the \<^verbatim>\<open>tokenizers\<close> crate, which is an argument:
  what it builds is a value of an unknown type \<open>'k\<close>, and it may fail with a message.
\<close>

section \<open>Keys and patterns\<close>

definition TOKENS_KEY :: string where "TOKENS_KEY = ''tokenizer.ggml.tokens''"
definition TOKEN_TYPES_KEY :: string where "TOKEN_TYPES_KEY = ''tokenizer.ggml.token_type''"
definition MERGES_KEY :: string where "MERGES_KEY = ''tokenizer.ggml.merges''"
definition MODEL_KEY :: string where "MODEL_KEY = ''tokenizer.ggml.model''"
definition PRETOKENIZER_KEY :: string where "PRETOKENIZER_KEY = ''tokenizer.ggml.pre''"
definition CHAT_TEMPLATE_KEY :: string where "CHAT_TEMPLATE_KEY = ''tokenizer.chat_template''"
definition BOS_ID_KEY :: string where "BOS_ID_KEY = ''tokenizer.ggml.bos_token_id''"
definition EOS_ID_KEY :: string where "EOS_ID_KEY = ''tokenizer.ggml.eos_token_id''"
definition PAD_ID_KEY :: string where "PAD_ID_KEY = ''tokenizer.ggml.padding_token_id''"
definition SEPARATOR_ID_KEY :: string where "SEPARATOR_ID_KEY = ''tokenizer.ggml.separator_token_id''"
definition LEGACY_SEPARATOR_ID_KEY :: string where "LEGACY_SEPARATOR_ID_KEY = ''tokenizer.ggml.seperator_token_id''"

text \<open>The three patterns as their UTF-8 bytes.\<close>

definition HUNYUAN_NUMBER_PATTERN :: string where
  "HUNYUAN_NUMBER_PATTERN = map (char_of :: nat \<Rightarrow> char)
    [92, 112, 123, 78, 125, 123, 49, 44, 51, 125]"

definition HUNYUAN_CJK_PATTERN :: string where
  "HUNYUAN_CJK_PATTERN = map (char_of :: nat \<Rightarrow> char)
    [91, 228, 184, 128, 45, 233, 190, 165, 227, 129, 128, 45, 227, 130, 159, 227, 130, 160, 45, 227,
     131, 191, 93, 43]"

definition HUNYUAN_WORD_PATTERN :: string where
  "HUNYUAN_WORD_PATTERN = map (char_of :: nat \<Rightarrow> char)
    [91, 33, 34, 35, 36, 37, 38, 39, 40, 41, 42, 43, 44, 92, 45, 46, 47, 58, 59, 60, 61, 62, 63, 64, 92,
     91, 92, 92, 92, 93, 94, 95, 96, 123, 124, 125, 126, 93, 91, 65, 45, 90, 97, 45, 122, 93, 43, 124,
     91, 94, 92, 114, 92, 110, 92, 112, 123, 76, 125, 92, 112, 123, 80, 125, 92, 112, 123, 83, 125, 93,
     63, 91, 92, 112, 123, 76, 125, 92, 112, 123, 77, 125, 93, 43, 124, 32, 63, 91, 92, 112, 123, 80,
     125, 92, 112, 123, 83, 125, 93, 43, 91, 92, 114, 92, 110, 93, 42, 124, 92, 115, 42, 91, 92, 114,
     92, 110, 93, 43, 124, 92, 115, 43, 40, 63, 33, 92, 83, 41, 124, 92, 115, 43]"

section \<open>Types\<close>

datatype ggml_token_type = TkNormal | TkUnknown | TkControl | TkUserDefined | TkUnused | TkByte

record special_token_ids =
  st_bos :: nat
  st_eos :: nat
  st_pad :: nat
  st_separator :: nat

datatype tokenizer_error =
    TkMetadata metadata_error
  | UnsupportedModel string
  | UnsupportedPretokenizer string
  | WrongArrayElementType string value_type value_type
  | WrongArrayValueType string nat
  | EmptyVocabulary
  | VocabularyTooLarge
  | DuplicateToken string nat nat
  | TokenTypeCountMismatch nat nat
  | InvalidTokenType nat int
  | InvalidMerge nat string
  | TokenIdOutOfRange string nat nat
  | TkConstruction string
  | TkEncode string
  | TkDecode string
  | TkChat chat_error

text \<open>What is passed for an added token: \<^verbatim>\<open>AddedToken::from(content, special).normalized(...)\<close>.\<close>

record added_token =
  ad_content :: string
  ad_special :: bool
  ad_normalized :: bool

text \<open>The functions of the \<^verbatim>\<open>tokenizers\<close> crate that are called, in the order of the calls.\<close>

record ('k, 'p) tokenizers_crate =
  tz_build_bpe :: "(string \<times> nat) list \<Rightarrow> (string \<times> string) list \<Rightarrow> string + 'k"
  tz_split :: "string \<Rightarrow> string + 'p"
  tz_byte_level :: "bool \<Rightarrow> bool \<Rightarrow> bool \<Rightarrow> 'p"
  tz_with_pre_tokenizer :: "'p list \<Rightarrow> 'k \<Rightarrow> 'k"
  tz_with_byte_decoder :: "'k \<Rightarrow> 'k"
  tz_add_special_tokens :: "added_token list \<Rightarrow> 'k \<Rightarrow> string + 'k"
  tz_add_tokens :: "added_token list \<Rightarrow> 'k \<Rightarrow> string + 'k"
  tz_encode :: "'k \<Rightarrow> string \<Rightarrow> bool \<Rightarrow> string + nat list"
  tz_decode :: "'k \<Rightarrow> nat list \<Rightarrow> bool \<Rightarrow> string + string"
  tz_token_to_id :: "'k \<Rightarrow> string \<Rightarrow> nat option"
  tz_step_decode_stream ::
    "'k \<Rightarrow> nat list \<Rightarrow> bool \<Rightarrow> nat list \<times> string \<times> nat \<Rightarrow> (string + string option) \<times> (nat list \<times> string \<times> nat)"

text \<open>The tokenizer: \<^verbatim>\<open>ParsedTokenizer\<close> and \<^verbatim>\<open>Hy3Tokenizer\<close> have the same fields.\<close>

record 'k hy3_tokenizer =
  tk_inner :: 'k
  tk_tokens :: "string list"
  tk_token_types :: "ggml_token_type list"
  tk_special_ids :: special_token_ids
  tk_chat_template :: string

section \<open>Reading the metadata\<close>

definition token_type_try_from :: "nat \<times> int \<Rightarrow> tokenizer_error + ggml_token_type" where
  "token_type_try_from iv =
     (let (n, v) = iv in
      if v = 1 then Inr TkNormal
      else if v = 2 then Inr TkUnknown
      else if v = 3 then Inr TkControl
      else if v = 4 then Inr TkUserDefined
      else if v = 5 then Inr TkUnused
      else if v = 6 then Inr TkByte
      else Inl (InvalidTokenType n v))"

definition tk_get :: "(metadata_error + 'a) option \<Rightarrow> tokenizer_error + 'a" where
  "tk_get r = map_err TkMetadata (the r)"

definition string_array :: "value_type \<times> gguf_value list \<Rightarrow> string \<Rightarrow> tokenizer_error + string list" where
  "string_array array key =
     rbind (check (fst array = TString) (WrongArrayElementType key TString (fst array))) (\<lambda>_.
     map_res (\<lambda>iv. case snd iv of GString s \<Rightarrow> Inr s | _ \<Rightarrow> Inl (WrongArrayValueType key (fst iv))) (enumerate 0 (snd array)))"

definition i32_array :: "value_type \<times> gguf_value list \<Rightarrow> string \<Rightarrow> tokenizer_error + int list" where
  "i32_array array key =
     rbind (check (fst array = TI32) (WrongArrayElementType key TI32 (fst array))) (\<lambda>_.
     map_res (\<lambda>iv. case snd iv of GI32 v \<Rightarrow> Inr v | _ \<Rightarrow> Inl (WrongArrayValueType key (fst iv))) (enumerate 0 (snd array)))"

definition parse_merge :: "nat \<times> string \<Rightarrow> tokenizer_error + string \<times> string" where
  "parse_merge im =
     (let (index, merge) = im in
      case split_once merge '' '' of
        None \<Rightarrow> Inl (InvalidMerge index merge)
      | Some (left, right) \<Rightarrow>
          if left = [] \<or> right = [] \<or> CHR '' '' \<in> set right then Inl (InvalidMerge index merge) else Inr (left, right))"

text \<open>The loop over the tokens; \<open>vocab\<close> is also the map of the tokens seen so far.\<close>

fun build_vocab :: "nat \<Rightarrow> string list \<Rightarrow> (string \<times> nat) list \<Rightarrow> tokenizer_error + (string \<times> nat) list" where
  "build_vocab index [] vocab = Inr vocab"
| "build_vocab index (token # rest) vocab =
     (case map_of vocab token of
        Some first \<Rightarrow> Inl (DuplicateToken token first index)
      | None \<Rightarrow> build_vocab (Suc index) rest (vocab @ [(token, index)]))"

definition checked_id :: "gguf_file \<Rightarrow> string \<Rightarrow> nat \<Rightarrow> tokenizer_error + nat" where
  "checked_id f key vocabulary_size =
     rbind (tk_get (get_u32 f key)) (\<lambda>tok.
     rbind (check (tok < vocabulary_size) (TokenIdOutOfRange key tok vocabulary_size)) (\<lambda>_. Inr tok))"

definition checked_separator_id :: "gguf_file \<Rightarrow> nat \<Rightarrow> tokenizer_error + nat" where
  "checked_separator_id f vocabulary_size =
     (case checked_id f SEPARATOR_ID_KEY vocabulary_size of
        Inl (TkMetadata (MissingKey _)) \<Rightarrow> checked_id f LEGACY_SEPARATOR_ID_KEY vocabulary_size
      | r \<Rightarrow> r)"

definition hunyuan_dense_pretokenizer :: "('k, 'p) tokenizers_crate \<Rightarrow> tokenizer_error + 'p list" where
  "hunyuan_dense_pretokenizer lib =
     rbind (map_res (\<lambda>p. map_err TkConstruction (tz_split lib p))
       [HUNYUAN_NUMBER_PATTERN, HUNYUAN_CJK_PATTERN, HUNYUAN_WORD_PATTERN]) (\<lambda>splits.
     Inr (splits @ [tz_byte_level lib False True False]))"

definition tokens_of_type :: "ggml_token_type \<Rightarrow> bool \<Rightarrow> string list \<Rightarrow> ggml_token_type list \<Rightarrow> added_token list" where
  "tokens_of_type ty special tokens types =
     map (\<lambda>t. \<lparr>ad_content = fst t, ad_special = special, ad_normalized = False\<rparr>)
       (filter (\<lambda>t. snd t = ty) (zip tokens types))"

text \<open>The tables of the metadata: tokens, their types, merges and the vocabulary.\<close>

definition tokenizer_tables ::
  "gguf_file \<Rightarrow> tokenizer_error + string list \<times> ggml_token_type list \<times> (string \<times> string) list \<times> (string \<times> nat) list" where
  "tokenizer_tables f =
     rbind (tk_get (get_string f MODEL_KEY)) (\<lambda>model.
     rbind (check (model = ''gpt2'') (UnsupportedModel model)) (\<lambda>_.
     rbind (tk_get (get_string f PRETOKENIZER_KEY)) (\<lambda>pretokenizer.
     rbind (check (pretokenizer = ''hunyuan-dense'') (UnsupportedPretokenizer pretokenizer)) (\<lambda>_.
     rbind (rbind (tk_get (get_array f TOKENS_KEY)) (\<lambda>a. string_array a TOKENS_KEY)) (\<lambda>tokens.
     rbind (check (tokens \<noteq> []) EmptyVocabulary) (\<lambda>_.
     rbind (check (length tokens \<le> 4294967295) VocabularyTooLarge) (\<lambda>_.
     rbind (rbind (tk_get (get_array f TOKEN_TYPES_KEY)) (\<lambda>a. i32_array a TOKEN_TYPES_KEY)) (\<lambda>raw_types.
     rbind (check (length raw_types = length tokens) (TokenTypeCountMismatch (length tokens) (length raw_types))) (\<lambda>_.
     rbind (map_res token_type_try_from (enumerate 0 raw_types)) (\<lambda>token_types.
     rbind (rbind (tk_get (get_array f MERGES_KEY)) (\<lambda>a. string_array a MERGES_KEY)) (\<lambda>raw_merges.
     rbind (map_res parse_merge (enumerate 0 raw_merges)) (\<lambda>merges.
     rbind (build_vocab 0 tokens []) (\<lambda>vocab.
     Inr (tokens, token_types, merges, vocab))))))))))))))"

definition tokenizer_ids :: "gguf_file \<Rightarrow> nat \<Rightarrow> tokenizer_error + special_token_ids" where
  "tokenizer_ids f n =
     rbind (checked_id f BOS_ID_KEY n) (\<lambda>bos.
     rbind (checked_id f EOS_ID_KEY n) (\<lambda>eos.
     rbind (checked_id f PAD_ID_KEY n) (\<lambda>pad.
     rbind (checked_separator_id f n) (\<lambda>separator.
     Inr \<lparr>st_bos = bos, st_eos = eos, st_pad = pad, st_separator = separator\<rparr>))))"

definition tokenizer_parse :: "('k, 'p) tokenizers_crate \<Rightarrow> gguf_file \<Rightarrow> tokenizer_error + 'k hy3_tokenizer" where
  "tokenizer_parse lib f =
     rbind (tokenizer_tables f) (\<lambda>(tokens, token_types, merges, vocab).
     rbind (map_err TkConstruction (tz_build_bpe lib vocab merges)) (\<lambda>bpe.
     rbind (hunyuan_dense_pretokenizer lib) (\<lambda>pre.
     rbind (map_err TkConstruction (tz_add_special_tokens lib (tokens_of_type TkControl True tokens token_types)
       (tz_with_byte_decoder lib (tz_with_pre_tokenizer lib pre bpe)))) (\<lambda>with_control.
     rbind (map_err TkConstruction (tz_add_tokens lib (tokens_of_type TkUserDefined False tokens token_types) with_control)) (\<lambda>inner.
     rbind (tokenizer_ids f (length tokens)) (\<lambda>ids.
     rbind (tk_get (get_string f CHAT_TEMPLATE_KEY)) (\<lambda>template.
     Inr \<lparr>tk_inner = inner, tk_tokens = tokens, tk_token_types = token_types, tk_special_ids = ids,
          tk_chat_template = template\<rparr>)))))))"

section \<open>Using a tokenizer\<close>

definition tk_encode :: "('k, 'p) tokenizers_crate \<Rightarrow> 'k hy3_tokenizer \<Rightarrow> string \<Rightarrow> tokenizer_error + nat list" where
  "tk_encode lib tk s = map_err TkEncode (tz_encode lib (tk_inner tk) s False)"

definition tk_decode ::
  "('k, 'p) tokenizers_crate \<Rightarrow> 'k hy3_tokenizer \<Rightarrow> nat list \<Rightarrow> bool \<Rightarrow> tokenizer_error + string" where
  "tk_decode lib tk ids skip_special_tokens = map_err TkDecode (tz_decode lib (tk_inner tk) ids skip_special_tokens)"

definition format_and_encode ::
  "('k, 'p) tokenizers_crate \<Rightarrow> 'v json_env \<Rightarrow> 'k hy3_tokenizer \<Rightarrow> 'v chat_message list \<Rightarrow> 'v template_options \<Rightarrow>
    tokenizer_error + nat list" where
  "format_and_encode lib env tk messages opts =
     rbind (map_err TkChat (format_chat env messages opts)) (\<lambda>prompt. tk_encode lib tk prompt)"

definition tk_token_to_id :: "('k, 'p) tokenizers_crate \<Rightarrow> 'k hy3_tokenizer \<Rightarrow> string \<Rightarrow> nat option" where
  "tk_token_to_id lib tk token = tz_token_to_id lib (tk_inner tk) token"

definition tk_id_to_token :: "'k hy3_tokenizer \<Rightarrow> nat \<Rightarrow> string option" where
  "tk_id_to_token tk tok = (if tok < length (tk_tokens tk) then Some (tk_tokens tk ! tok) else None)"

definition tk_token_type :: "'k hy3_tokenizer \<Rightarrow> nat \<Rightarrow> ggml_token_type option" where
  "tk_token_type tk tok = (if tok < length (tk_token_types tk) then Some (tk_token_types tk ! tok) else None)"

definition tk_vocabulary_size :: "'k hy3_tokenizer \<Rightarrow> nat" where
  "tk_vocabulary_size tk = length (tk_tokens tk)"

text \<open>The incremental decoder keeps the state of the crate's decode stream.\<close>

record incremental_decoder =
  id_skip_special :: bool
  id_stream :: "nat list \<times> string \<times> nat"

definition incremental_decoder_new :: "bool \<Rightarrow> incremental_decoder" where
  "incremental_decoder_new skip_special_tokens = \<lparr>id_skip_special = skip_special_tokens, id_stream = ([], [], 0)\<rparr>"

definition decoder_push ::
  "('k, 'p) tokenizers_crate \<Rightarrow> 'k hy3_tokenizer \<Rightarrow> incremental_decoder \<Rightarrow> nat \<Rightarrow>
    (tokenizer_error + string option) \<times> incremental_decoder" where
  "decoder_push lib tk d tok =
     (case tz_step_decode_stream lib (tk_inner tk) [tok] (id_skip_special d) (id_stream d) of
        (r, stream) \<Rightarrow> (map_err TkDecode r, d\<lparr>id_stream := stream\<rparr>))"

section \<open>What an accepted file says\<close>

fun token_type_code :: "ggml_token_type \<Rightarrow> int" where
  "token_type_code TkNormal = 1"
| "token_type_code TkUnknown = 2"
| "token_type_code TkControl = 3"
| "token_type_code TkUserDefined = 4"
| "token_type_code TkUnused = 5"
| "token_type_code TkByte = 6"

definition merge_text :: "string \<times> string \<Rightarrow> string" where
  "merge_text m = fst m @ '' '' @ snd m"

definition plain_merge :: "string \<times> string \<Rightarrow> bool" where
  "plain_merge m \<longleftrightarrow> fst m \<noteq> [] \<and> snd m \<noteq> [] \<and> CHR '' '' \<notin> set (fst m) \<and> CHR '' '' \<notin> set (snd m)"

definition valid_tables :: "gguf_file \<Rightarrow> string list \<Rightarrow> ggml_token_type list \<Rightarrow> (string \<times> string) list \<Rightarrow> bool" where
  "valid_tables f toks types merges \<longleftrightarrow>
     map_of (metadata f) MODEL_KEY = Some (GString ''gpt2'') \<and>
     map_of (metadata f) PRETOKENIZER_KEY = Some (GString ''hunyuan-dense'') \<and>
     map_of (metadata f) TOKENS_KEY = Some (GArray TString (map GString toks)) \<and>
     toks \<noteq> [] \<and> length toks \<le> 4294967295 \<and> distinct toks \<and>
     map_of (metadata f) TOKEN_TYPES_KEY = Some (GArray TI32 (map (GI32 \<circ> token_type_code) types)) \<and>
     length types = length toks \<and>
     map_of (metadata f) MERGES_KEY = Some (GArray TString (map (GString \<circ> merge_text) merges)) \<and>
     list_all plain_merge merges"

definition valid_id :: "gguf_file \<Rightarrow> string \<Rightarrow> nat \<Rightarrow> nat \<Rightarrow> bool" where
  "valid_id f key n tok \<longleftrightarrow> map_of (metadata f) key = Some (GU32 tok) \<and> tok < n"

lemma tk_get_string: "tk_get (get_string f k) = Inr s \<longleftrightarrow> map_of (metadata f) k = Some (GString s)"
  unfolding tk_get_def get_string_def
  by (cases "map_of (metadata f) k"; simp add: expect_type_shape; cases "the (map_of (metadata f) k)"; simp)

lemma tk_get_array: "tk_get (get_array f k) = Inr a \<longleftrightarrow> map_of (metadata f) k = Some (GArray (fst a) (snd a))"
  unfolding tk_get_def get_array_def
  by (cases a; cases "map_of (metadata f) k"; simp add: expect_type_shape; cases "the (map_of (metadata f) k)"; simp)

lemma tk_get_u32: "tk_get (get_u32 f k) = Inr n \<longleftrightarrow> map_of (metadata f) k = Some (GU32 n)"
  unfolding tk_get_def get_u32_def
  by (cases "map_of (metadata f) k"; simp add: expect_type_shape; cases "the (map_of (metadata f) k)"; simp)

lemma tk_get_missing: "tk_get (get_u32 f k) = Inl (TkMetadata (MissingKey k')) \<Longrightarrow> map_of (metadata f) k = None"
  unfolding tk_get_def get_u32_def
  by (cases "map_of (metadata f) k"; simp add: expect_type_shape; cases "the (map_of (metadata f) k)"; simp)

lemma tk_get_none: "map_of (metadata f) k = None \<Longrightarrow> tk_get (get_u32 f k) = Inl (TkMetadata (MissingKey k))"
  by (simp add: tk_get_def get_u32_def expect_type_shape)

text \<open>A fallible map over a numbered list succeeds exactly on the image of an injective reading.\<close>

lemma map_res_enumerate:
  assumes "\<And>n x y. g (n, x) = Inr y \<longleftrightarrow> P y \<and> x = c y"
  shows "map_res g (enumerate n xs) = Inr ys \<longleftrightarrow> list_all P ys \<and> xs = map c ys"
proof (induction xs arbitrary: n ys)
  case Nil
  then show ?case by (cases ys) auto
next
  case (Cons x xs)
  then show ?case by (cases ys) (auto simp: rbind_Inr assms)
qed

lemma string_array_Inr: "string_array a key = Inr ss \<longleftrightarrow> a = (TString, map GString ss)"
proof -
  have "map_res (\<lambda>iv. case snd iv of GString s \<Rightarrow> Inr s | _ \<Rightarrow> Inl (WrongArrayValueType key (fst iv))) (enumerate 0 vs) = Inr ss
      \<longleftrightarrow> vs = map GString ss" for vs
    by (subst map_res_enumerate [where P = "\<lambda>_. True" and c = GString]) (auto simp: list_all_iff split: gguf_value.splits)
  then show ?thesis by (cases a) (simp add: string_array_def rbind_Inr)
qed

lemma i32_array_Inr: "i32_array a key = Inr ss \<longleftrightarrow> a = (TI32, map GI32 ss)"
proof -
  have "map_res (\<lambda>iv. case snd iv of GI32 v \<Rightarrow> Inr v | _ \<Rightarrow> Inl (WrongArrayValueType key (fst iv))) (enumerate 0 vs) = Inr ss
      \<longleftrightarrow> vs = map GI32 ss" for vs
    by (subst map_res_enumerate [where P = "\<lambda>_. True" and c = GI32]) (auto simp: list_all_iff split: gguf_value.splits)
  then show ?thesis by (cases a) (simp add: i32_array_def rbind_Inr)
qed

lemma token_types_Inr:
  "map_res token_type_try_from (enumerate 0 raw) = Inr types \<longleftrightarrow> raw = map token_type_code types"
proof -
  have "token_type_try_from (n, v) = Inr t \<longleftrightarrow> True \<and> v = token_type_code t" for n v t
    by (cases t) (auto simp: token_type_try_from_def)
  from map_res_enumerate [where P = "\<lambda>_. True", OF this] show ?thesis by (simp add: list_all_iff)
qed

lemma find_str_space:
  "find_str s '' '' = (if CHR '' '' \<in> set s then Some (length (takeWhile (\<lambda>c. c \<noteq> CHR '' '') s)) else None)"
  by (induction s) auto

lemma split_once_space:
  "CHR '' '' \<notin> set l \<Longrightarrow> split_once (l @ CHR '' '' # r) '' '' = Some (l, r)"
  by (simp add: split_once_def find_str_space takeWhile_append)

lemma split_once_space_Some:
  "split_once s '' '' = Some (l, r) \<longleftrightarrow> s = l @ CHR '' '' # r \<and> CHR '' '' \<notin> set l"
proof
  assume "split_once s '' '' = Some (l, r)"
  then have "s = l @ '' '' @ r" by (rule split_once_Some)
  moreover have l: "l = take (length (takeWhile (\<lambda>c. c \<noteq> CHR '' '') s)) s"
    using \<open>split_once s _ = _\<close> by (auto simp: find_str_space split_once_def split: if_splits)
  moreover from l have "l = takeWhile (\<lambda>c. c \<noteq> CHR '' '') s" by (metis takeWhile_eq_take)
  ultimately show "s = l @ CHR '' '' # r \<and> CHR '' '' \<notin> set l" by (auto dest: set_takeWhileD)
qed (auto simp: split_once_space)

lemma merges_Inr:
  "map_res parse_merge (enumerate 0 raw) = Inr merges \<longleftrightarrow> list_all plain_merge merges \<and> raw = map merge_text merges"
proof (rule map_res_enumerate)
  fix n x y
  show "parse_merge (n, x) = Inr y \<longleftrightarrow> plain_merge y \<and> x = merge_text y"
  proof (cases "split_once x '' ''")
    case None
    then have "\<not> (plain_merge y \<and> x = merge_text y)"
      by (auto simp: plain_merge_def merge_text_def split_once_space)
    then show ?thesis using None by (auto simp: parse_merge_def)
  next
    case (Some lr)
    then have x: "x = fst lr @ CHR '' '' # snd lr" and l: "CHR '' '' \<notin> set (fst lr)"
      by (cases lr; simp add: split_once_space_Some)+
    have "plain_merge y \<and> x = merge_text y \<longleftrightarrow> plain_merge lr \<and> y = lr"
    proof
      assume y: "plain_merge y \<and> x = merge_text y"
      then have "split_once x '' '' = Some (fst y, snd y)" by (simp add: merge_text_def plain_merge_def split_once_space)
      then show "plain_merge lr \<and> y = lr" using Some y by simp
    qed (auto simp: x merge_text_def)
    moreover have "parse_merge (n, x) = Inr y \<longleftrightarrow> plain_merge lr \<and> y = lr"
      using l by (cases lr) (auto simp: parse_merge_def Some plain_merge_def)
    ultimately show ?thesis by simp
  qed
qed

lemma build_vocab_Inr:
  "build_vocab n toks vocab = Inr v \<longleftrightarrow>
     distinct toks \<and> set toks \<inter> fst ` set vocab = {} \<and> v = vocab @ zip toks [n..<n + length toks]"
proof (induction n toks vocab rule: build_vocab.induct)
  case (1 index vocab)
  then show ?case by auto
next
  case (2 index t rest vocab)
  show ?case
  proof (cases "map_of vocab t")
    case None
    then have fresh: "t \<notin> fst ` set vocab" by (simp add: map_of_eq_None_iff)
    have "[index..<index + length (t # rest)] = index # [Suc index..<Suc index + length rest]"
      by (subst upt_conv_Cons) simp_all
    then show ?thesis using None fresh 2 [OF None] by (auto simp del: upt_Suc)
  next
    case (Some first)
    then have "t \<in> fst ` set vocab" by (metis domI dom_map_of_conv_image_fst)
    then show ?thesis using Some by auto
  qed
qed

lemma tokenizer_tables_Inr:
  "tokenizer_tables f = Inr (toks, types, merges, vocab) \<longleftrightarrow>
     valid_tables f toks types merges \<and> vocab = zip toks [0..<length toks]"
  unfolding tokenizer_tables_def valid_tables_def
  by (simp add: rbind_Inr tk_get_string tk_get_array string_array_Inr i32_array_Inr token_types_Inr merges_Inr build_vocab_Inr
    del: rbind_simps) (auto simp: comp_def)

lemma checked_id_Inr: "checked_id f k n = Inr tok \<longleftrightarrow> valid_id f k n tok"
  by (auto simp: checked_id_def rbind_Inr tk_get_u32 valid_id_def)

lemma checked_id_missing:
  "checked_id f k n = Inl (TkMetadata (MissingKey k')) \<Longrightarrow> map_of (metadata f) k = None"
  by (auto simp: checked_id_def rbind_Inl dest: tk_get_missing)

lemma checked_separator_id_Inr:
  "checked_separator_id f n = Inr tok \<longleftrightarrow>
     valid_id f (if map_of (metadata f) SEPARATOR_ID_KEY = None then LEGACY_SEPARATOR_ID_KEY else SEPARATOR_ID_KEY) n tok"
proof (cases "map_of (metadata f) SEPARATOR_ID_KEY")
  case None
  then show ?thesis by (simp add: checked_separator_id_def checked_id_def [of f SEPARATOR_ID_KEY] tk_get_none checked_id_Inr)
next
  case (Some v)
  have "checked_separator_id f n = Inr tok \<longleftrightarrow> checked_id f SEPARATOR_ID_KEY n = Inr tok"
    by (auto simp: checked_separator_id_def Some split: sum.splits tokenizer_error.splits metadata_error.splits dest: checked_id_missing)
  then show ?thesis by (simp add: Some checked_id_Inr)
qed

lemma hunyuan_dense_pretokenizer_Inr:
  "hunyuan_dense_pretokenizer lib = Inr pre \<longleftrightarrow>
     (\<exists>splits. map_res (tz_split lib) [HUNYUAN_NUMBER_PATTERN, HUNYUAN_CJK_PATTERN, HUNYUAN_WORD_PATTERN] = Inr splits \<and>
       pre = splits @ [tz_byte_level lib False True False])"
  by (auto simp: hunyuan_dense_pretokenizer_def map_res_Inr rbind_Inr)

lemma tokenizer_ids_Inr:
  "tokenizer_ids f n = Inr ids \<longleftrightarrow>
     valid_id f BOS_ID_KEY n (st_bos ids) \<and> valid_id f EOS_ID_KEY n (st_eos ids) \<and> valid_id f PAD_ID_KEY n (st_pad ids) \<and>
     valid_id f (if map_of (metadata f) SEPARATOR_ID_KEY = None then LEGACY_SEPARATOR_ID_KEY else SEPARATOR_ID_KEY) n (st_separator ids)"
  by (cases ids) (auto simp: tokenizer_ids_def rbind_Inr checked_id_Inr checked_separator_id_Inr)

text \<open> C23.
  A tokenizer is built exactly from the metadata that are complete and consistent: model \<^verbatim>\<open>gpt2\<close>,
  pre-tokenizer \<^verbatim>\<open>hunyuan-dense\<close>, a non-empty vocabulary of distinct tokens, one known type per token, merges of two
  non-empty parts without spaces, the four special ids inside the vocabulary (the separator under its misspelt key
  when the right one is absent), a chat template; the crate is given the vocabulary that maps each token to its
  index, and the control tokens, as special, and the user-defined tokens, as not special, none of them
  normalized, each kind in its order. Everything else is an error.
\<close>

theorem tokenizer_parse_exact:
  "tokenizer_parse lib f = Inr tk \<longleftrightarrow>
     (\<exists>merges bpe splits with_control.
       valid_tables f (tk_tokens tk) (tk_token_types tk) merges \<and>
       tz_build_bpe lib (zip (tk_tokens tk) [0..<length (tk_tokens tk)]) merges = Inr bpe \<and>
       map_res (tz_split lib) [HUNYUAN_NUMBER_PATTERN, HUNYUAN_CJK_PATTERN, HUNYUAN_WORD_PATTERN] = Inr splits \<and>
       tz_add_special_tokens lib (tokens_of_type TkControl True (tk_tokens tk) (tk_token_types tk))
         (tz_with_byte_decoder lib (tz_with_pre_tokenizer lib (splits @ [tz_byte_level lib False True False]) bpe)) = Inr with_control \<and>
       tz_add_tokens lib (tokens_of_type TkUserDefined False (tk_tokens tk) (tk_token_types tk)) with_control = Inr (tk_inner tk) \<and>
       valid_id f BOS_ID_KEY (length (tk_tokens tk)) (st_bos (tk_special_ids tk)) \<and>
       valid_id f EOS_ID_KEY (length (tk_tokens tk)) (st_eos (tk_special_ids tk)) \<and>
       valid_id f PAD_ID_KEY (length (tk_tokens tk)) (st_pad (tk_special_ids tk)) \<and>
       valid_id f (if map_of (metadata f) SEPARATOR_ID_KEY = None then LEGACY_SEPARATOR_ID_KEY else SEPARATOR_ID_KEY)
         (length (tk_tokens tk)) (st_separator (tk_special_ids tk)) \<and>
       map_of (metadata f) CHAT_TEMPLATE_KEY = Some (GString (tk_chat_template tk)))"
proof -
  have tk: "\<lparr>tk_inner = i, tk_tokens = t, tk_token_types = y, tk_special_ids = s, tk_chat_template = c\<rparr> = tk \<longleftrightarrow>
      i = tk_inner tk \<and> t = tk_tokens tk \<and> y = tk_token_types tk \<and> s = tk_special_ids tk \<and> c = tk_chat_template tk" for i t y s c
    by (cases tk) auto
  show ?thesis
    by (simp add: tokenizer_parse_def rbind_Inr split_paired_Ex tokenizer_tables_Inr hunyuan_dense_pretokenizer_Inr
        tokenizer_ids_Inr tk_get_string tk del: map_res.simps) blast
qed

text \<open>A small file is accepted, with a crate that records what it is given.\<close>

definition demo_crate :: "((string \<times> nat) list, unit) tokenizers_crate" where
  "demo_crate = \<lparr>tz_build_bpe = (\<lambda>vocab _. Inr vocab), tz_split = (\<lambda>_. Inr ()), tz_byte_level = (\<lambda>_ _ _. ()),
     tz_with_pre_tokenizer = (\<lambda>_ k. k), tz_with_byte_decoder = (\<lambda>k. k), tz_add_special_tokens = (\<lambda>_ k. Inr k),
     tz_add_tokens = (\<lambda>_ k. Inr k), tz_encode = (\<lambda>_ _ _. Inr []), tz_decode = (\<lambda>_ _ _. Inr []),
     tz_token_to_id = map_of, tz_step_decode_stream = (\<lambda>_ _ _ st. (Inr None, st))\<rparr>"

definition demo_metadata :: "(string \<times> gguf_value) list" where
  "demo_metadata = [(MODEL_KEY, GString ''gpt2''), (PRETOKENIZER_KEY, GString ''hunyuan-dense''),
     (TOKENS_KEY, GArray TString [GString ''a'', GString ''b'', GString ''ab'']),
     (TOKEN_TYPES_KEY, GArray TI32 [GI32 3, GI32 1, GI32 1]), (MERGES_KEY, GArray TString [GString ''a b'']),
     (BOS_ID_KEY, GU32 0), (EOS_ID_KEY, GU32 0), (PAD_ID_KEY, GU32 1), (LEGACY_SEPARATOR_ID_KEY, GU32 2),
     (CHAT_TEMPLATE_KEY, GString ''t'')]"

lemma demo_tokenizer:
  "tokenizer_parse demo_crate \<lparr>version = 3, endian = Little, metadata = demo_metadata, tensors = [], alignment = 32, data_offset = 0, file_len = 0\<rparr> =
     Inr \<lparr>tk_inner = [(''a'', 0), (''b'', 1), (''ab'', 2)], tk_tokens = [''a'', ''b'', ''ab''],
       tk_token_types = [TkControl, TkNormal, TkNormal],
       tk_special_ids = \<lparr>st_bos = 0, st_eos = 0, st_pad = 1, st_separator = 2\<rparr>, tk_chat_template = ''t''\<rparr>"
  by (simp add: tokenizer_parse_def tokenizer_tables_def tokenizer_ids_def checked_id_def checked_separator_id_def tk_get_def
      getter_defs expect_type_def gguf_get_def ok_or_def Let_def string_array_def i32_array_def parse_merge_def split_once_def
      token_type_try_from_def tokens_of_type_def hunyuan_dense_pretokenizer_def demo_crate_def demo_metadata_def TOKENS_KEY_def
      TOKEN_TYPES_KEY_def MERGES_KEY_def MODEL_KEY_def PRETOKENIZER_KEY_def CHAT_TEMPLATE_KEY_def BOS_ID_KEY_def EOS_ID_KEY_def
      PAD_ID_KEY_def SEPARATOR_ID_KEY_def LEGACY_SEPARATOR_ID_KEY_def)

end
