(* ===== verification/Assistant_Parser.thy ===== *)
theory Assistant_Parser
  imports Chat_Template
begin

text \<open>
  The parser of generated assistant turns, \<^verbatim>\<open>crates/bridge-tokenizer/src/assistant.rs\<close>: reasoning, content and
  the tool call envelope. The loops shorten their input, so they are total functions.
\<close>

section \<open>The parser\<close>

record 'v assistant_output =
  ao_content :: string
  ao_reasoning :: "string option"
  ao_tool_calls :: "'v tool_call list"

definition plain_output :: "string \<Rightarrow> 'v assistant_output" where
  "plain_output s = \<lparr>ao_content = s, ao_reasoning = None, ao_tool_calls = []\<rparr>"

datatype assistant_error =
    MissingMarker string
  | EmptyCallName nat
  | EmptyArgumentKey nat
  | DuplicateArgumentKey nat string
  | TrailingToolText

definition is_newline :: "char \<Rightarrow> bool" where
  "is_newline c \<longleftrightarrow> c = CHR 0x0D \<or> c = CHR 0x0A"

definition trim_newlines :: "string \<Rightarrow> string" where
  "trim_newlines s = dropWhile is_newline s"

text \<open>\<^verbatim>\<open>trim_matches\<close> trims both ends.\<close>

definition trim_both :: "string \<Rightarrow> string" where
  "trim_both s = rev (dropWhile is_newline (rev (dropWhile is_newline s)))"

definition marker_then :: "string \<Rightarrow> string \<Rightarrow> assistant_error + string" where
  "marker_then input marker = ok_or (MissingMarker marker) (strip_prefix input marker)"

definition up_to_marker :: "string \<Rightarrow> string \<Rightarrow> assistant_error + string \<times> string" where
  "up_to_marker input marker = ok_or (MissingMarker marker) (split_once input marker)"

text \<open>\<^verbatim>\<open>BTreeMap::insert\<close>: whether the key was there, and the map after it.\<close>

fun btree_insert :: "string \<Rightarrow> 'b \<Rightarrow> (string \<times> 'b) list \<Rightarrow> bool \<times> (string \<times> 'b) list" where
  "btree_insert k v [] = (False, [(k, v)])"
| "btree_insert k v ((k', v') # rest) =
     (if k = k' then (True, (k, v) # rest)
      else if k < k' then (False, (k, v) # (k', v') # rest)
      else (case btree_insert k v rest of (found, rest') \<Rightarrow> (found, (k', v') # rest')))"

definition parse_value :: "'v json_env \<Rightarrow> string \<Rightarrow> 'v json" where
  "parse_value env s = (case je_from_str env s of Some v \<Rightarrow> v | None \<Rightarrow> JString s)"

text \<open>One argument: the key, the value and the rest of the input.\<close>

definition parse_argument :: "'v json_env \<Rightarrow> nat \<Rightarrow> string \<Rightarrow> assistant_error + string \<times> 'v json \<times> string" where
  "parse_argument env call_index input =
     rbind (marker_then input ARGUMENT_KEY_BEGIN_TOKEN) (\<lambda>input.
     rbind (up_to_marker input ARGUMENT_KEY_END_TOKEN) (\<lambda>(key, remainder).
     rbind (check (key \<noteq> []) (EmptyArgumentKey call_index)) (\<lambda>_.
     rbind (marker_then (trim_newlines remainder) ARGUMENT_VALUE_BEGIN_TOKEN) (\<lambda>input.
     rbind (up_to_marker input ARGUMENT_VALUE_END_TOKEN) (\<lambda>(v, remainder).
     Inr (key, parse_value env v, remainder))))))"

lemma strip_prefix_shorter: "strip_prefix s p = Some r \<Longrightarrow> length r = length s - length p"
  by (auto simp: strip_prefix_Some)

lemma split_once_shorter: "split_once s p = Some (a, b) \<Longrightarrow> length b \<le> length s - length p"
  by (auto dest: split_once_Some)

lemma trim_newlines_shorter: "length (trim_newlines s) \<le> length s"
  by (simp add: trim_newlines_def length_dropWhile_le)

lemma parse_argument_shorter:
  assumes "parse_argument env i input = Inr (k, v, r)"
  shows "length r < length input"
proof -
  obtain x b y where x: "input = ARGUMENT_KEY_BEGIN_TOKEN @ x" and b: "split_once x ARGUMENT_KEY_END_TOKEN = Some (k, b)"
    and y: "trim_newlines b = ARGUMENT_VALUE_BEGIN_TOKEN @ y" and r: "\<exists>w. split_once y ARGUMENT_VALUE_END_TOKEN = Some (w, r)"
    using assms by (auto simp: parse_argument_def rbind_Inr marker_then_def up_to_marker_def strip_prefix_Some)
  have "length r \<le> length y" using r by (auto dest: split_once_Some)
  also have "\<dots> \<le> length (trim_newlines b)" by (simp add: y)
  also have "\<dots> \<le> length b" by (rule trim_newlines_shorter)
  also have "\<dots> \<le> length x" using b by (auto dest: split_once_Some)
  also have "\<dots> < length input" by (simp add: x ARGUMENT_KEY_BEGIN_TOKEN_def)
  finally show ?thesis .
qed

function parse_argument_list ::
  "'v json_env \<Rightarrow> nat \<Rightarrow> (string \<times> 'v json) list \<Rightarrow> string \<Rightarrow> assistant_error + (string \<times> 'v json) list" where
  "parse_argument_list env call_index arguments input =
     (if input = [] then Inr arguments
      else case parse_argument env call_index input of
        Inl e \<Rightarrow> Inl e
      | Inr (key, v, remainder) \<Rightarrow>
          (case btree_insert key v arguments of
             (found, arguments') \<Rightarrow>
               if found then Inl (DuplicateArgumentKey call_index key)
               else parse_argument_list env call_index arguments' (trim_newlines remainder)))"
  by pat_completeness auto
termination
  by (relation "measure (\<lambda>(env, call_index, arguments, input). length input)")
     (auto dest!: parse_argument_shorter intro: le_less_trans [OF trim_newlines_shorter])

declare parse_argument_list.simps [simp del]

definition parse_arguments :: "'v json_env \<Rightarrow> string \<Rightarrow> nat \<Rightarrow> assistant_error + (string \<times> 'v json) list" where
  "parse_arguments env input call_index = parse_argument_list env call_index [] (trim_newlines input)"

text \<open>One call: the call and the rest of the input; then all of them.\<close>

definition parse_call :: "'v json_env \<Rightarrow> nat \<Rightarrow> string \<Rightarrow> assistant_error + 'v tool_call \<times> string" where
  "parse_call env call_index input =
     rbind (marker_then input TOOL_CALL_BEGIN_TOKEN) (\<lambda>input.
     rbind (up_to_marker input TOOL_SEPARATOR_TOKEN) (\<lambda>(name, remainder).
     rbind (check (name \<noteq> []) (EmptyCallName call_index)) (\<lambda>_.
     rbind (up_to_marker remainder TOOL_CALL_END_TOKEN) (\<lambda>(arguments, remainder).
     rbind (parse_arguments env arguments call_index) (\<lambda>arguments.
     Inr (\<lparr>tc_name = name, tc_arguments = arguments\<rparr>, remainder))))))"

lemma parse_call_shorter:
  assumes "parse_call env i input = Inr (call, r)"
  shows "length r < length input"
proof -
  obtain x n b a where x: "input = TOOL_CALL_BEGIN_TOKEN @ x" and b: "split_once x TOOL_SEPARATOR_TOKEN = Some (n, b)"
    and r: "split_once b TOOL_CALL_END_TOKEN = Some (a, r)"
    using assms by (auto simp: parse_call_def rbind_Inr marker_then_def up_to_marker_def strip_prefix_Some)
  have "length r \<le> length b" using r by (auto dest: split_once_Some)
  also have "\<dots> \<le> length x" using b by (auto dest: split_once_Some)
  also have "\<dots> < length input" by (simp add: x TOOL_CALL_BEGIN_TOKEN_def)
  finally show ?thesis .
qed

function parse_call_list :: "'v json_env \<Rightarrow> 'v tool_call list \<Rightarrow> string \<Rightarrow> assistant_error + 'v tool_call list" where
  "parse_call_list env calls input =
     (if input = [] then Inr calls
      else case parse_call env (length calls) input of
        Inl e \<Rightarrow> Inl e
      | Inr (call, remainder) \<Rightarrow> parse_call_list env (calls @ [call]) (trim_newlines remainder))"
  by pat_completeness auto
termination
  by (relation "measure (\<lambda>(env, calls, input). length input)")
     (auto dest!: parse_call_shorter intro: le_less_trans [OF trim_newlines_shorter])

declare parse_call_list.simps [simp del]

definition parse_tool_calls :: "'v json_env \<Rightarrow> string \<Rightarrow> assistant_error + 'v tool_call list" where
  "parse_tool_calls env input = parse_call_list env [] (trim_newlines input)"

definition split_reasoning :: "string \<Rightarrow> reasoning_effort \<Rightarrow> string option \<times> string" where
  "split_reasoning raw effort =
     (if effort \<noteq> NoThink then
        (let raw = (case strip_prefix raw THINK_BEGIN_TOKEN of Some r \<Rightarrow> r | None \<Rightarrow> raw) in
         case split_once raw THINK_END_TOKEN of
           Some (reasoning, body) \<Rightarrow> (Some reasoning, body)
         | None \<Rightarrow> (Some raw, []))
      else
        (case strip_prefix raw THINK_BEGIN_TOKEN of
           None \<Rightarrow> (None, raw)
         | Some r \<Rightarrow>
             (case split_once r THINK_END_TOKEN of
                Some (reasoning, body) \<Rightarrow> (Some reasoning, body)
              | None \<Rightarrow> (None, raw))))"

definition parse_assistant_output :: "'v json_env \<Rightarrow> string \<Rightarrow> reasoning_effort \<Rightarrow> assistant_error + 'v assistant_output" where
  "parse_assistant_output env raw effort =
     (let (reasoning, body) = split_reasoning raw effort in
      case split_once body TOOL_CALLS_BEGIN_TOKEN of
        None \<Rightarrow> Inr \<lparr>ao_content = body, ao_reasoning = reasoning, ao_tool_calls = []\<rparr>
      | Some (content, calls_and_tail) \<Rightarrow>
          (case split_once calls_and_tail TOOL_CALLS_END_TOKEN of
             None \<Rightarrow> Inl (MissingMarker TOOL_CALLS_END_TOKEN)
           | Some (calls, tail) \<Rightarrow>
               rbind (check (trim_both tail = []) TrailingToolText) (\<lambda>_.
               rbind (parse_tool_calls env calls) (\<lambda>calls.
               Inr \<lparr>ao_content = content, ao_reasoning = reasoning, ao_tool_calls = calls\<rparr>))))"

section \<open>Searching for markers\<close>

text \<open>A marker has its only opening bracket at its start, so occurrences of markers do not overlap.\<close>

definition is_marker :: "string \<Rightarrow> bool" where
  "is_marker p \<longleftrightarrow> p \<noteq> [] \<and> hd p = CHR ''<'' \<and> CHR ''<'' \<notin> set (tl p)"

definition free_of :: "string \<Rightarrow> string \<Rightarrow> bool" where
  "free_of p s \<longleftrightarrow> find_str s p = None"

definition opens :: "string \<Rightarrow> bool" where
  "opens s \<longleftrightarrow> s = [] \<or> hd s = CHR ''<''"

lemmas token_defs = THINK_BEGIN_TOKEN_def THINK_END_TOKEN_def TOOL_CALLS_BEGIN_TOKEN_def TOOL_CALLS_END_TOKEN_def
  TOOL_CALL_BEGIN_TOKEN_def TOOL_CALL_END_TOKEN_def TOOL_SEPARATOR_TOKEN_def ARGUMENT_KEY_BEGIN_TOKEN_def
  ARGUMENT_KEY_END_TOKEN_def ARGUMENT_VALUE_BEGIN_TOKEN_def ARGUMENT_VALUE_END_TOKEN_def

lemma token_markers [simp]:
  "is_marker THINK_BEGIN_TOKEN" "is_marker THINK_END_TOKEN" "is_marker TOOL_CALLS_BEGIN_TOKEN" "is_marker TOOL_CALLS_END_TOKEN"
  "is_marker TOOL_CALL_BEGIN_TOKEN" "is_marker TOOL_CALL_END_TOKEN" "is_marker TOOL_SEPARATOR_TOKEN"
  "is_marker ARGUMENT_KEY_BEGIN_TOKEN" "is_marker ARGUMENT_KEY_END_TOKEN" "is_marker ARGUMENT_VALUE_BEGIN_TOKEN"
  "is_marker ARGUMENT_VALUE_END_TOKEN"
  by (simp_all add: token_defs is_marker_def)

lemma marker_cases: "is_marker p \<Longrightarrow> (\<And>z. p = CHR ''<'' # z \<Longrightarrow> CHR ''<'' \<notin> set z \<Longrightarrow> P) \<Longrightarrow> P"
  by (cases p) (auto simp: is_marker_def)

lemma find_skip:
  assumes "is_marker p" "CHR ''<'' \<notin> set z"
  shows "find_str (z @ t) p = map_option ((+) (length z)) (find_str t p)"
  using assms(2)
proof (induction z)
  case (Cons c z)
  have "\<not> prefix p (c # z @ t)" using assms(1) Cons.prems by (auto elim: marker_cases)
  then show ?case using Cons by (simp add: option.map_comp o_def)
qed (cases "find_str t p"; simp)

text \<open>A text free of the marker is skipped when what follows cannot complete an occurrence.\<close>

lemma prefix_marker_cut:
  assumes "is_marker p" "opens t" "prefix p (s @ t)" "s \<noteq> []"
  shows "prefix p s"
proof (rule ccontr)
  assume n: "\<not> prefix p s"
  obtain z where z: "p = CHR ''<'' # z" "CHR ''<'' \<notin> set z" using assms(1) by (rule marker_cases)
  from assms(3) n obtain u where u: "p = s @ u" "u \<noteq> []" "prefix u t"
    by (auto simp: prefix_append)
  then have "t \<noteq> []" by auto
  then have "hd u = CHR ''<''" using u assms(2) by (cases u; cases t) (auto simp: opens_def)
  then have "CHR ''<'' \<in> set (tl p)" using u assms(4) by (cases s; cases u) auto
  then show False using z by simp
qed

lemma find_after_free:
  assumes "is_marker p" "free_of p s" "opens t"
  shows "find_str (s @ t) p = map_option ((+) (length s)) (find_str t p)"
  using assms(2)
proof (induction s)
  case (Cons c s)
  have n: "\<not> prefix p (c # s)" and f: "free_of p s" using Cons.prems by (auto simp: free_of_def split: if_splits)
  have "\<not> prefix p (c # s @ t)" using prefix_marker_cut [OF assms(1,3), of "c # s"] n by auto
  then show ?case using Cons.IH [OF f] by (simp add: option.map_comp o_def)
qed (cases "find_str t p"; simp)

lemma find_here: "find_str (p @ t) p = Some 0"
  by (cases "p @ t"; cases p) auto

lemma split_at_marker:
  assumes "is_marker p" "free_of p s"
  shows "split_once (s @ p @ t) p = Some (s, t)"
proof -
  have "opens (p @ t)" using assms(1) by (auto simp: opens_def elim: marker_cases)
  from find_after_free [OF assms this] show ?thesis by (simp add: split_once_def find_here)
qed

lemma free_append: "is_marker p \<Longrightarrow> free_of p s \<Longrightarrow> opens t \<Longrightarrow> free_of p t \<Longrightarrow> free_of p (s @ t)"
  using find_after_free by (simp add: free_of_def)

lemma free_skip: "is_marker p \<Longrightarrow> CHR ''<'' \<notin> set z \<Longrightarrow> free_of p t \<Longrightarrow> free_of p (z @ t)"
  using find_skip by (simp add: free_of_def)

text \<open>Two markers of which neither begins the other.\<close>

definition apart :: "string \<Rightarrow> string \<Rightarrow> bool" where
  "apart p m \<longleftrightarrow> is_marker p \<and> is_marker m \<and> \<not> prefix p m \<and> \<not> prefix m p"

lemma free_marker:
  assumes "apart p m" "free_of p t"
  shows "free_of p (m @ t)"
proof -
  obtain z where z: "m = CHR ''<'' # z" "CHR ''<'' \<notin> set z" using assms(1) unfolding apart_def by (elim conjE marker_cases)
  have "\<not> prefix p (m @ t)"
    using assms(1) prefix_same_cases [of p "m @ t" m] by (auto simp: apart_def)
  then have "find_str (m @ t) p = map_option Suc (find_str (z @ t) p)" by (simp add: z)
  moreover have "free_of p (z @ t)" using free_skip [OF _ z(2) assms(2)] assms(1) by (simp add: apart_def)
  ultimately show ?thesis by (simp add: free_of_def)
qed

lemma apart_tokens:
  "apart TOOL_CALL_END_TOKEN ARGUMENT_KEY_BEGIN_TOKEN" "apart TOOL_CALL_END_TOKEN ARGUMENT_KEY_END_TOKEN"
  "apart TOOL_CALL_END_TOKEN ARGUMENT_VALUE_BEGIN_TOKEN" "apart TOOL_CALL_END_TOKEN ARGUMENT_VALUE_END_TOKEN"
  "apart TOOL_CALLS_END_TOKEN ARGUMENT_KEY_BEGIN_TOKEN" "apart TOOL_CALLS_END_TOKEN ARGUMENT_KEY_END_TOKEN"
  "apart TOOL_CALLS_END_TOKEN ARGUMENT_VALUE_BEGIN_TOKEN" "apart TOOL_CALLS_END_TOKEN ARGUMENT_VALUE_END_TOKEN"
  "apart TOOL_CALLS_END_TOKEN TOOL_CALL_BEGIN_TOKEN" "apart TOOL_CALLS_END_TOKEN TOOL_SEPARATOR_TOKEN"
  "apart TOOL_CALLS_END_TOKEN TOOL_CALL_END_TOKEN"
  by (simp_all add: apart_def) (simp_all add: token_defs)

lemma free_Nil [simp]: "is_marker p \<Longrightarrow> free_of p []"
  by (auto simp: free_of_def is_marker_def)

lemma nl_no_bracket [simp]: "CHR ''<'' \<notin> set nl" by (simp add: nl_def)

lemma opens_marker [simp]: "is_marker p \<Longrightarrow> opens (p @ t)" by (auto simp: opens_def elim: marker_cases)

lemma trim_nl [simp]: "trim_newlines (nl @ s) = trim_newlines s"
  by (simp add: trim_newlines_def nl_def is_newline_def)

lemma trim_marker [simp]: "is_marker p \<Longrightarrow> trim_newlines (p @ s) = p @ s"
  by (auto simp: trim_newlines_def is_newline_def elim!: marker_cases)

lemma trim_Nil [simp]: "trim_newlines [] = []" by (simp add: trim_newlines_def)

section \<open>What is rendered is parsed back\<close>

definition value_text :: "'v json_env \<Rightarrow> 'v json \<Rightarrow> string option" where
  "value_text env v = (case v of JString s \<Rightarrow> Some s | JOther _ \<Rightarrow> (case je_to_string env v of Inl _ \<Rightarrow> None | Inr s \<Rightarrow> Some s))"

text \<open>
  The condition for an argument and a call to survive: keys, names and value texts do not contain the markers
  that the parser looks for behind them, and the text of a value is parsed back to the value (a string is not
  itself JSON, a number is printed as JSON that reads back). The keys of a \<^verbatim>\<open>BTreeMap\<close> ascend.
\<close>

definition clean_argument :: "'v json_env \<Rightarrow> string \<times> 'v json \<Rightarrow> bool" where
  "clean_argument env kv \<longleftrightarrow>
     (let (key, v) = kv in
      key \<noteq> [] \<and> list_all (\<lambda>p. free_of p key) [ARGUMENT_KEY_END_TOKEN, TOOL_CALL_END_TOKEN, TOOL_CALLS_END_TOKEN] \<and>
      (case value_text env v of
         None \<Rightarrow> False
       | Some s \<Rightarrow> list_all (\<lambda>p. free_of p s) [ARGUMENT_VALUE_END_TOKEN, TOOL_CALL_END_TOKEN, TOOL_CALLS_END_TOKEN] \<and>
           parse_value env s = v))"

definition clean_call :: "'v json_env \<Rightarrow> 'v tool_call \<Rightarrow> bool" where
  "clean_call env call \<longleftrightarrow>
     list_all (\<lambda>p. free_of p (tc_name call)) [TOOL_SEPARATOR_TOKEN, TOOL_CALLS_END_TOKEN] \<and>
     sorted_wrt (<) (map fst (tc_arguments call)) \<and> list_all (clean_argument env) (tc_arguments call)"

lemma argument_text_Inr:
  assumes "clean_argument env (key, v)" "argument_text env (key, v) = Inr a"
  obtains s where "value_text env v = Some s"
    "a = ARGUMENT_KEY_BEGIN_TOKEN @ key @ ARGUMENT_KEY_END_TOKEN @ nl @ ARGUMENT_VALUE_BEGIN_TOKEN @ s @ ARGUMENT_VALUE_END_TOKEN @ nl"
  using assms by (cases v) (auto simp: clean_argument_def argument_text_def value_text_def rbind_Inr split: option.splits sum.splits)

lemma argument_parsed:
  assumes "clean_argument env (key, v)" "argument_text env (key, v) = Inr a"
  shows "parse_argument env i (a @ t) = Inr (key, v, nl @ t)"
proof -
  obtain s where s: "value_text env v = Some s" and a: "a = ARGUMENT_KEY_BEGIN_TOKEN @ key @ ARGUMENT_KEY_END_TOKEN @ nl @
      ARGUMENT_VALUE_BEGIN_TOKEN @ s @ ARGUMENT_VALUE_END_TOKEN @ nl" using argument_text_Inr [OF assms] .
  have clean: "key \<noteq> []" "free_of ARGUMENT_KEY_END_TOKEN key" "free_of ARGUMENT_VALUE_END_TOKEN s" "parse_value env s = v"
    using assms(1) s by (simp_all add: clean_argument_def)
  show ?thesis using clean
    by (simp add: parse_argument_def a marker_then_def up_to_marker_def split_at_marker)
qed

lemma argument_free:
  assumes "clean_argument env (key, v)" "argument_text env (key, v) = Inr a" "p \<in> {TOOL_CALL_END_TOKEN, TOOL_CALLS_END_TOKEN}"
    "free_of p t" "opens t"
  shows "free_of p (a @ t)"
proof -
  obtain s where s: "value_text env v = Some s" and a: "a = ARGUMENT_KEY_BEGIN_TOKEN @ key @ ARGUMENT_KEY_END_TOKEN @ nl @
      ARGUMENT_VALUE_BEGIN_TOKEN @ s @ ARGUMENT_VALUE_END_TOKEN @ nl" using argument_text_Inr [OF assms(1,2)] .
  have p: "is_marker p" "apart p ARGUMENT_KEY_BEGIN_TOKEN" "apart p ARGUMENT_KEY_END_TOKEN" "apart p ARGUMENT_VALUE_BEGIN_TOKEN"
    "apart p ARGUMENT_VALUE_END_TOKEN" using assms(3) apart_tokens by auto
  have clean: "free_of p key" "free_of p s" using assms(1,3) s by (auto simp: clean_argument_def)
  show ?thesis unfolding a append_assoc
    by (intro free_marker free_append free_skip p clean assms(4) opens_marker token_markers nl_no_bracket)
qed

lemma map_res_Cons_Inr: "map_res f (x # xs) = Inr ys \<longleftrightarrow> (\<exists>y zs. f x = Inr y \<and> map_res f xs = Inr zs \<and> ys = y # zs)"
  by (auto simp: rbind_Inr)

lemma arguments_free:
  assumes "list_all (clean_argument env) args" "map_res (argument_text env) args = Inr texts"
    "p \<in> {TOOL_CALL_END_TOKEN, TOOL_CALLS_END_TOKEN}" "free_of p t" "opens t"
  shows "free_of p (concat texts @ t) \<and> opens (concat texts @ t)"
  using assms(1,2)
proof (induction args arbitrary: texts)
  case Nil
  then show ?case using assms(4,5) by simp
next
  case (Cons kv rest)
  obtain key v where kv: "kv = (key, v)" by fastforce
  obtain a as where a: "argument_text env (key, v) = Inr a" "map_res (argument_text env) rest = Inr as" "texts = a # as"
    using Cons.prems(2) unfolding kv map_res_Cons_Inr by blast
  have "free_of p (a @ (concat as @ t))"
    by (rule argument_free [OF _ a(1) assms(3)]) (use Cons a kv in auto)
  moreover obtain s where "a = ARGUMENT_KEY_BEGIN_TOKEN @ s"
    using argument_text_Inr [OF _ a(1)] Cons.prems(1) kv by auto
  ultimately show ?case by (simp add: a(3))
qed

lemma btree_insert_last:
  "list_all (\<lambda>(k', _). k' < k) acc \<Longrightarrow> btree_insert k v acc = (False, acc @ [(k, v)])"
  by (induction acc) auto

lemma arguments_parsed:
  assumes "list_all (clean_argument env) args" "map_res (argument_text env) args = Inr texts"
    "sorted_wrt (<) (map fst (acc @ args))"
  shows "parse_argument_list env i acc (concat texts) = Inr (acc @ args)"
  using assms
proof (induction args arbitrary: acc texts)
  case Nil
  then show ?case by (simp add: parse_argument_list.simps)
next
  case (Cons kv rest)
  obtain key v where kv: "kv = (key, v)" by fastforce
  obtain a as where a: "argument_text env (key, v) = Inr a" "map_res (argument_text env) rest = Inr as" "texts = a # as"
    using Cons.prems(2) unfolding kv map_res_Cons_Inr by blast
  have clean: "clean_argument env (key, v)" using Cons.prems(1) kv by simp
  obtain s where s: "a = ARGUMENT_KEY_BEGIN_TOKEN @ s" using argument_text_Inr [OF clean a(1)] by auto
  have ne: "a \<noteq> []" by (simp add: s ARGUMENT_KEY_BEGIN_TOKEN_def)
  have acc: "list_all (\<lambda>(k', _). k' < key) acc"
    using Cons.prems(3) kv by (auto simp: sorted_wrt_append list_all_iff)
  have next': "trim_newlines (concat as) = concat as"
  proof (cases rest)
    case Nil
    then show ?thesis using a(2) by simp
  next
    case (Cons kv2 rest2)
    then obtain b bs where b: "argument_text env kv2 = Inr b" "as = b # bs" using a(2) by (auto simp: rbind_Inr)
    have "clean_argument env (fst kv2, snd kv2)" using Cons.prems(1) Cons by simp
    from argument_text_Inr [OF this] b(1) obtain s2 where "b = ARGUMENT_KEY_BEGIN_TOKEN @ s2" by auto
    then show ?thesis using b(2) by simp
  qed
  have "parse_argument_list env i acc (a @ concat as) = parse_argument_list env i (acc @ [(key, v)]) (concat as)"
    using ne by (subst parse_argument_list.simps)
      (simp add: argument_parsed [OF clean a(1)] btree_insert_last [OF acc] next')
  also have "\<dots> = Inr ((acc @ [(key, v)]) @ rest)"
    by (rule Cons.IH) (use Cons.prems a(2) kv in auto)
  finally show ?case by (simp add: a(3) kv)
qed

lemma call_text_Inr:
  assumes "call_text env (i, call) = Inr c"
  obtains args where "map_res (argument_text env) (tc_arguments call) = Inr args" "tc_name call \<noteq> []"
    "c = TOOL_CALL_BEGIN_TOKEN @ tc_name call @ TOOL_SEPARATOR_TOKEN @ nl @ concat args @ TOOL_CALL_END_TOKEN @ nl"
  using assms by (auto simp: call_text_def rbind_Inr)

lemma trim_arguments:
  assumes "list_all (clean_argument env) args" "map_res (argument_text env) args = Inr texts"
  shows "trim_newlines (concat texts) = concat texts"
proof (cases args)
  case Nil
  then show ?thesis using assms(2) by simp
next
  case (Cons kv rest)
  then obtain a as where a: "argument_text env kv = Inr a" "texts = a # as" using assms(2) by (auto simp: rbind_Inr)
  have "clean_argument env (fst kv, snd kv)" using assms(1) Cons by simp
  from argument_text_Inr [OF this] a(1) obtain s where "a = ARGUMENT_KEY_BEGIN_TOKEN @ s" by auto
  then show ?thesis using a(2) by simp
qed

lemma call_parsed:
  assumes "clean_call env call" "call_text env (i, call) = Inr c"
  shows "parse_call env j (c @ t) = Inr (call, nl @ t)"
proof -
  obtain args where args: "map_res (argument_text env) (tc_arguments call) = Inr args" and ne: "tc_name call \<noteq> []"
    and c: "c = TOOL_CALL_BEGIN_TOKEN @ tc_name call @ TOOL_SEPARATOR_TOKEN @ nl @ concat args @ TOOL_CALL_END_TOKEN @ nl"
    using call_text_Inr [OF assms(2)] .
  have clean: "free_of TOOL_SEPARATOR_TOKEN (tc_name call)" "sorted_wrt (<) (map fst (tc_arguments call))"
    "list_all (clean_argument env) (tc_arguments call)" using assms(1) by (simp_all add: clean_call_def)
  have "free_of TOOL_CALL_END_TOKEN (concat args @ [])"
    using arguments_free [OF clean(3) args, of TOOL_CALL_END_TOKEN "[]"] by (simp add: opens_def)
  then have free: "free_of TOOL_CALL_END_TOKEN (nl @ concat args)" using free_skip by simp
  have "parse_arguments env (nl @ concat args) j = Inr (tc_arguments call)"
    using arguments_parsed [OF clean(3) args, of "[]" j] clean(2)
    by (simp add: parse_arguments_def trim_arguments [OF clean(3) args])
  then show ?thesis
    using split_at_marker [OF token_markers(6) free, of "nl @ t"] ne clean(1)
    by (simp add: parse_call_def c marker_then_def up_to_marker_def split_at_marker)
qed

lemma call_free:
  assumes "clean_call env call" "call_text env (i, call) = Inr c" "free_of TOOL_CALLS_END_TOKEN t" "opens t"
  shows "free_of TOOL_CALLS_END_TOKEN (c @ t)"
proof -
  obtain args where args: "map_res (argument_text env) (tc_arguments call) = Inr args"
    and c: "c = TOOL_CALL_BEGIN_TOKEN @ tc_name call @ TOOL_SEPARATOR_TOKEN @ nl @ concat args @ TOOL_CALL_END_TOKEN @ nl"
    using call_text_Inr [OF assms(2)] by metis
  have clean: "free_of TOOL_CALLS_END_TOKEN (tc_name call)" "list_all (clean_argument env) (tc_arguments call)"
    using assms(1) by (simp_all add: clean_call_def)
  let ?t = "TOOL_CALL_END_TOKEN @ nl @ t"
  have t: "free_of TOOL_CALLS_END_TOKEN ?t" by (intro free_marker free_skip apart_tokens token_markers nl_no_bracket assms(3))
  have "free_of TOOL_CALLS_END_TOKEN (concat args @ ?t)"
    using arguments_free [OF clean(2) args, of TOOL_CALLS_END_TOKEN ?t] t by simp
  then have "free_of TOOL_CALLS_END_TOKEN (TOOL_SEPARATOR_TOKEN @ nl @ concat args @ ?t)"
    by (intro free_marker [OF apart_tokens(10)] free_skip [OF _ nl_no_bracket]) simp_all
  then show ?thesis unfolding c append_assoc
    by (intro free_marker [OF apart_tokens(9)] free_append [OF _ clean(1)]) simp_all
qed

lemma calls_parsed:
  assumes "list_all (clean_call env) calls" "map_res (call_text env) (enumerate n calls) = Inr texts"
  shows "parse_call_list env acc (concat texts) = Inr (acc @ calls)"
  using assms
proof (induction calls arbitrary: acc texts n)
  case Nil
  then show ?case by (simp add: parse_call_list.simps)
next
  case (Cons call rest)
  obtain c cs where c: "call_text env (n, call) = Inr c" "map_res (call_text env) (enumerate (Suc n) rest) = Inr cs" "texts = c # cs"
    using Cons.prems(2) by (auto simp: rbind_Inr)
  have clean: "clean_call env call" using Cons.prems(1) by simp
  have ne: "c \<noteq> []" using call_text_Inr [OF c(1)] by (auto simp: TOOL_CALL_BEGIN_TOKEN_def)
  have trim: "trim_newlines (concat cs) = concat cs"
  proof (cases rest)
    case (Cons call2 rest2)
    then obtain d ds where d: "call_text env (Suc n, call2) = Inr d" "cs = d # ds" using c(2) by (auto simp: rbind_Inr)
    from call_text_Inr [OF d(1)] obtain u where "d = TOOL_CALL_BEGIN_TOKEN @ u" by metis
    then show ?thesis using d(2) by simp
  qed (use c(2) in simp)
  have "parse_call_list env acc (c @ concat cs) = parse_call_list env (acc @ [call]) (concat cs)"
    using ne by (subst parse_call_list.simps) (simp add: call_parsed [OF clean c(1)] trim)
  also have "\<dots> = Inr ((acc @ [call]) @ rest)" by (rule Cons.IH) (use Cons.prems c(2) in auto)
  finally show ?case by (simp add: c(3))
qed

lemma calls_free:
  assumes "list_all (clean_call env) calls" "map_res (call_text env) (enumerate n calls) = Inr texts"
  shows "free_of TOOL_CALLS_END_TOKEN (concat texts) \<and> opens (concat texts) \<and> trim_newlines (concat texts) = concat texts"
  using assms
proof (induction calls arbitrary: texts n)
  case (Cons call rest)
  obtain c cs where c: "call_text env (n, call) = Inr c" "map_res (call_text env) (enumerate (Suc n) rest) = Inr cs" "texts = c # cs"
    using Cons.prems(2) by (auto simp: rbind_Inr)
  have "free_of TOOL_CALLS_END_TOKEN (concat cs) \<and> opens (concat cs)" using Cons.IH [OF _ c(2)] Cons.prems(1) by simp
  then have "free_of TOOL_CALLS_END_TOKEN (c @ concat cs)" using call_free [OF _ c(1)] Cons.prems(1) by simp
  moreover from call_text_Inr [OF c(1)] obtain u where "c = TOOL_CALL_BEGIN_TOKEN @ u" by metis
  ultimately show ?case by (simp add: c(3))
qed (simp add: opens_def)

text \<open>The reasoning in front of the content, the envelope behind it.\<close>

lemma split_reasoning_turn:
  "free_of THINK_END_TOKEN reasoning \<Longrightarrow>
   split_reasoning (THINK_BEGIN_TOKEN @ reasoning @ THINK_END_TOKEN @ body) effort = (Some reasoning, body)"
  by (simp add: split_reasoning_def split_at_marker)

lemma envelope_parsed:
  assumes "append_tool_calls env calls = Inr rendered" "list_all (clean_call env) calls" "free_of TOOL_CALLS_BEGIN_TOKEN content"
    and "split_reasoning raw effort = (reasoning, content @ rendered)"
  shows "parse_assistant_output env raw effort = Inr \<lparr>ao_content = content, ao_reasoning = reasoning, ao_tool_calls = calls\<rparr>"
proof -
  obtain texts where t: "map_res (call_text env) (enumerate 0 calls) = Inr texts"
    and r: "rendered = TOOL_CALLS_BEGIN_TOKEN @ nl @ concat texts @ TOOL_CALLS_END_TOKEN"
    using assms(1) by (auto simp: append_tool_calls_def rbind_Inr)
  note free = calls_free [OF assms(2) t]
  have s1: "split_once (content @ rendered) TOOL_CALLS_BEGIN_TOKEN = Some (content, nl @ concat texts @ TOOL_CALLS_END_TOKEN)"
    unfolding r by (rule split_at_marker [OF token_markers(3) assms(3)])
  have "free_of TOOL_CALLS_END_TOKEN (nl @ concat texts)" using free free_skip by simp
  from split_at_marker [OF token_markers(4) this, of "[]"]
  have s2: "split_once (nl @ concat texts @ TOOL_CALLS_END_TOKEN) TOOL_CALLS_END_TOKEN = Some (nl @ concat texts, [])" by simp
  have "parse_tool_calls env (nl @ concat texts) = Inr calls"
    using calls_parsed [OF assms(2) t, of "[]"] free by (simp add: parse_tool_calls_def)
  then show ?thesis by (simp add: parse_assistant_output_def assms(4) s1 s2 trim_both_def)
qed

section \<open>What the parser returns\<close>

definition well_formed_call :: "'v tool_call \<Rightarrow> bool" where
  "well_formed_call call \<longleftrightarrow> tc_name call \<noteq> [] \<and> sorted_wrt (<) (map fst (tc_arguments call)) \<and>
     (\<forall>kv \<in> set (tc_arguments call). fst kv \<noteq> [])"

lemma btree_insert_keys: "btree_insert k v m = (found, m') \<Longrightarrow> fst ` set m' = insert k (fst ` set m)"
  by (induction m arbitrary: m' found) (auto split: if_splits prod.splits, (metis image_eqI fst_conv insertE insertI1 insertI2)+)

lemma btree_insert_sorted:
  "sorted_wrt (<) (map fst m) \<Longrightarrow> btree_insert k v m = (found, m') \<Longrightarrow> sorted_wrt (<) (map fst m')"
proof (induction m arbitrary: m' found)
  case (Cons kv rest)
  obtain k' v' where kv: "kv = (k', v')" by fastforce
  obtain f r where fr: "btree_insert k v rest = (f, r)" by fastforce
  have r: "sorted_wrt (<) (map fst r)" "fst ` set r = insert k (fst ` set rest)"
    using Cons.IH [OF _ fr] Cons.prems(1) btree_insert_keys [OF fr] by simp_all
  have below: "\<forall>x \<in> fst ` set rest. k' < x" using Cons.prems(1) kv by auto
  consider "k = k'" | "k < k'" | "k' < k" by fastforce
  then show ?case
  proof cases
    case 3
    then have "\<not> k < k'" "k \<noteq> k'" by auto
    then have "m' = (k', v') # r" using Cons.prems(2) kv fr by simp
    moreover have "\<forall>x \<in> fst ` set r. k' < x" using r(2) below 3 by simp
    ultimately show ?thesis using r(1) by simp
  next
    case 2
    then have "k \<noteq> k'" by auto
    then have "m' = (k, v) # (k', v') # rest" using Cons.prems(2) kv 2 by simp
    moreover have "\<forall>x \<in> set (map fst rest). k < x" using below 2 by (auto intro: order_less_trans)
    ultimately show ?thesis using Cons.prems(1) kv 2 by simp
  qed (use Cons.prems kv in auto)
qed simp

lemma parsed_arguments:
  "parse_argument_list env i acc input = Inr args \<Longrightarrow> sorted_wrt (<) (map fst acc) \<Longrightarrow> (\<forall>kv \<in> set acc. fst kv \<noteq> []) \<Longrightarrow>
   sorted_wrt (<) (map fst args) \<and> (\<forall>kv \<in> set args. fst kv \<noteq> [])"
proof (induction env i acc input rule: parse_argument_list.induct)
  case (1 env i acc input)
  show ?case
  proof (cases "input = []")
    case True
    then show ?thesis using "1.prems" by (simp add: parse_argument_list.simps)
  next
    case False
    obtain key v rem where p: "parse_argument env i input = Inr (key, v, rem)"
      using "1.prems"(1) False by (cases "parse_argument env i input") (auto simp: parse_argument_list.simps [of _ _ _ input])
    obtain f m where m: "btree_insert key v acc = (f, m)" by fastforce
    have f: "\<not> f" and rest: "parse_argument_list env i m (trim_newlines rem) = Inr args"
      using "1.prems"(1) False p m by (auto simp: parse_argument_list.simps [of _ _ _ input] split: if_splits)
    have key: "key \<noteq> []" using p by (auto simp: parse_argument_def rbind_Inr)
    have "fst ` set m = insert key (fst ` set acc)" by (rule btree_insert_keys [OF m])
    then have "\<forall>kv \<in> set m. fst kv \<noteq> []" using key "1.prems"(3) by force
    from "1.IH" [OF False p refl refl m [symmetric] f rest btree_insert_sorted [OF "1.prems"(2) m] this] show ?thesis .
  qed
qed

lemma parsed_call: "parse_call env i input = Inr (call, r) \<Longrightarrow> well_formed_call call"
  using parsed_arguments [of env i "[]"]
  by (fastforce simp: parse_call_def rbind_Inr well_formed_call_def parse_arguments_def)

lemma parsed_calls:
  "parse_call_list env acc input = Inr calls \<Longrightarrow> list_all well_formed_call acc \<Longrightarrow> list_all well_formed_call calls"
proof (induction env acc input rule: parse_call_list.induct)
  case (1 env acc input)
  show ?case
  proof (cases "input = []")
    case True
    then show ?thesis using "1.prems" by (simp add: parse_call_list.simps)
  next
    case False
    obtain call rem where p: "parse_call env (length acc) input = Inr (call, rem)"
      using "1.prems"(1) False by (cases "parse_call env (length acc) input") (auto simp: parse_call_list.simps [of _ _ input])
    have "parse_call_list env (acc @ [call]) (trim_newlines rem) = Inr calls"
      using "1.prems"(1) False p by (simp add: parse_call_list.simps [of _ _ input])
    from "1.IH" [OF False p refl this] "1.prems"(2) parsed_call [OF p] show ?thesis by simp
  qed
qed

lemma map_res_defined: "(\<And>x. x \<in> set xs \<Longrightarrow> \<exists>y. f x = Inr y) \<Longrightarrow> \<exists>ys. map_res f xs = Inr ys"
proof (induction xs)
  case (Cons x xs)
  then obtain y ys where "f x = Inr y" "map_res f xs = Inr ys" by fastforce
  then show ?case by simp
qed simp

lemma well_formed_rendered:
  assumes "list_all well_formed_call calls" "\<And>v. \<exists>s. je_to_string env v = Inr s"
  shows "\<exists>rendered. append_tool_calls env calls = Inr rendered"
proof -
  have "\<exists>a. argument_text env kv = Inr a" for kv
    using assms(2) [of "snd kv"] by (cases kv; cases "snd kv") (auto simp: argument_text_def)
  then have arguments: "\<exists>as. map_res (argument_text env) args = Inr as" for args by (intro map_res_defined) simp
  have named: "tc_name (snd ic) \<noteq> []" if "ic \<in> set (enumerate 0 calls)" for ic
    using assms(1) that nth_mem [of "fst ic" calls] by (auto simp: in_set_enumerate_eq list_all_iff well_formed_call_def)
  have "\<exists>c. call_text env ic = Inr c" if "ic \<in> set (enumerate 0 calls)" for ic
  proof -
    obtain i call where ic: "ic = (i, call)" by fastforce
    obtain args where "map_res (argument_text env) (tc_arguments call) = Inr args" using arguments by blast
    with named [OF that] show ?thesis by (simp add: ic call_text_def)
  qed
  then have "\<exists>texts. map_res (call_text env) (enumerate 0 calls) = Inr texts" by (intro map_res_defined) simp
  then show ?thesis by (auto simp: append_tool_calls_def)
qed

section \<open>Properties\<close>

text \<open> C14.
  A rendered assistant turn is parsed back: the text the template renders for reasoning, content and tool calls,
  without the end marker, is parsed to the same reasoning, content and calls, for every reasoning effort, when
  the texts do not contain the markers that end them and every argument value is the one its text reads back as.
\<close>

theorem assistant_turn_roundtrip:
  assumes "assistant_text env opts True last_user False index content (Some reasoning) calls = Inr (raw @ EOS_TOKEN)"
    and "free_of THINK_END_TOKEN reasoning" "free_of TOOL_CALLS_BEGIN_TOKEN content" "list_all (clean_call env) calls"
  shows "parse_assistant_output env raw effort =
    Inr \<lparr>ao_content = content, ao_reasoning = Some reasoning, ao_tool_calls = calls\<rparr>"
proof -
  note split = split_reasoning_turn [OF assms(2)]
  show ?thesis
  proof (cases calls)
    case Nil
    then have raw: "raw = THINK_BEGIN_TOKEN @ reasoning @ THINK_END_TOKEN @ content"
      using assms(1) by (simp add: assistant_text_def thinking_text_def)
    have "split_once content TOOL_CALLS_BEGIN_TOKEN = None" using assms(3) by (simp add: split_once_def free_of_def)
    then show ?thesis by (simp add: raw parse_assistant_output_def split Nil)
  next
    case (Cons call rest)
    then obtain rendered where r: "append_tool_calls env calls = Inr rendered"
      and raw: "raw = THINK_BEGIN_TOKEN @ reasoning @ THINK_END_TOKEN @ content @ rendered"
      using assms(1) by (auto simp: assistant_text_def thinking_text_def rbind_Inr)
    show ?thesis by (rule envelope_parsed [OF r assms(4,3)]) (simp add: raw split)
  qed
qed

text \<open>A search with a number and a string.\<close>

definition demo_json :: "nat json_env" where
  "demo_json = \<lparr>je_to_string = (\<lambda>v. case v of JOther n \<Rightarrow> Inr ''3'' | JString s \<Rightarrow> Inr s),
     je_from_str = (\<lambda>s. if s = ''3'' then Some (JOther 3) else None), je_is_object = (\<lambda>_. True)\<rparr>"

definition demo_call :: "nat tool_call" where
  "demo_call = \<lparr>tc_name = ''search'', tc_arguments = [(''count'', JOther 3), (''query'', JString ''a <b>'')]\<rparr>"

definition demo_envelope :: string where
  "demo_envelope = TOOL_CALLS_BEGIN_TOKEN @ nl @ TOOL_CALL_BEGIN_TOKEN @ ''search'' @ TOOL_SEPARATOR_TOKEN @ nl @
     ARGUMENT_KEY_BEGIN_TOKEN @ ''count'' @ ARGUMENT_KEY_END_TOKEN @ nl @
     ARGUMENT_VALUE_BEGIN_TOKEN @ ''3'' @ ARGUMENT_VALUE_END_TOKEN @ nl @
     ARGUMENT_KEY_BEGIN_TOKEN @ ''query'' @ ARGUMENT_KEY_END_TOKEN @ nl @
     ARGUMENT_VALUE_BEGIN_TOKEN @ ''a <b>'' @ ARGUMENT_VALUE_END_TOKEN @ nl @ TOOL_CALL_END_TOKEN @ nl @ TOOL_CALLS_END_TOKEN"

definition demo_turn :: string where
  "demo_turn = THINK_BEGIN_TOKEN @ ''why'' @ THINK_END_TOKEN @ ''Calling.'' @ demo_envelope"

lemma demo_rendered: "append_tool_calls demo_json [demo_call] = Inr demo_envelope"
  by (simp add: append_tool_calls_def call_text_def argument_text_def demo_call_def demo_json_def demo_envelope_def)

lemma demo_turn_text:
  "assistant_text demo_json template_default True None False 1 ''Calling.'' (Some ''why'') [demo_call] = Inr (demo_turn @ EOS_TOKEN)"
  by (simp add: assistant_text_def thinking_text_def demo_rendered demo_turn_def template_default_def)

lemma demo_split: "split_reasoning demo_turn NoThink = (Some ''why'', ''Calling.'' @ demo_envelope)"
  unfolding demo_turn_def by (rule split_reasoning_turn) (simp add: free_of_def token_defs)

lemma demo_clean: "clean_call demo_json demo_call"
  by (simp add: clean_call_def clean_argument_def demo_call_def demo_json_def value_text_def parse_value_def free_of_def
      token_defs less_char_def)

theorem assistant_turn_roundtrip_witness:
  "parse_assistant_output demo_json demo_turn LowEffort =
     Inr \<lparr>ao_content = ''Calling.'', ao_reasoning = Some ''why'', ao_tool_calls = [demo_call]\<rparr>"
  by (rule assistant_turn_roundtrip [OF demo_turn_text]) (use demo_clean in \<open>simp_all add: free_of_def token_defs\<close>)

text \<open> C40.
  An accepted output can be put back into a conversation: its calls have names and distinct, ascending,
  non-empty argument keys, so rendering them again never fails, if the values can be serialised.
\<close>

theorem parsed_output_renders:
  assumes "parse_assistant_output env raw effort = Inr parsed" "\<And>v. \<exists>s. je_to_string env v = Inr s"
  shows "list_all well_formed_call (ao_tool_calls parsed) \<and> (\<exists>rendered. append_tool_calls env (ao_tool_calls parsed) = Inr rendered)"
proof -
  have "list_all well_formed_call (ao_tool_calls parsed)"
    using assms(1) parsed_calls [of env "[]"]
    by (auto simp: parse_assistant_output_def Let_def rbind_Inr parse_tool_calls_def split: prod.splits option.splits)
  with well_formed_rendered [OF this assms(2)] show ?thesis by simp
qed

theorem parsed_output_renders_witness:
  "list_all well_formed_call [demo_call]"
proof -
  have s: "\<exists>s. je_to_string demo_json v = Inr s" for v by (cases v) (simp_all add: demo_json_def)
  have p: "parse_assistant_output demo_json demo_turn NoThink =
     Inr \<lparr>ao_content = ''Calling.'', ao_reasoning = Some ''why'', ao_tool_calls = [demo_call]\<rparr>"
    by (rule envelope_parsed [OF demo_rendered _ _ demo_split]) (use demo_clean in \<open>simp_all add: free_of_def token_defs\<close>)
  from parsed_output_renders [OF p s] show ?thesis by simp
qed

end
