(* ===== verification/Chat_Engine.thy ===== *)
theory Chat_Engine
  imports Hy3_Generation Stop_Filter Tokenizer Assistant_Parser
begin

text \<open>
  The chat engine, \<^verbatim>\<open>crates/bridge-runtime/src/chat_engine.rs\<close>: opening, a completion in a session with the
  streaming of its text, and sessions saved to and restored from bytes.

  A completion works with any causal model \<open>M\<close>, as the generator does; saving and restoring works with the
  loaded checkpoint. The \<^verbatim>\<open>tokenizers\<close> crate, the JSON functions, the random numbers, SHA-256 and the allocator
  are arguments. The user's callback is a function on its own state that says whether it breaks. The rendering of
  a parse error as a text is left out: the error itself is stored.
\<close>

section \<open>Types\<close>

definition CHAT_SESSION_MAGIC :: "byte list" where "CHAT_SESSION_MAGIC = bytes_of_str ''LBGS0001''"
definition CHAT_SESSION_VERSION :: nat where "CHAT_SESSION_VERSION = 1"
definition CHAT_SESSION_DIGEST_BYTES :: nat where "CHAT_SESSION_DIGEST_BYTES = 32"

datatype ('e, 'x) chat_engine_error =
    ChSplit "'e split_error"
  | ChTokenizer tokenizer_error
  | ChModel 'x
  | ChSampling sampling_error
  | ChGeneration "'x generation_error"
  | MissingMetadataShard
  | VocabularyMismatch nat nat
  | IncrementalDecodeDiverged
  | EmptyStopSequence nat
  | ZeroSessionLimit
  | UnhealthySessionSnapshot
  | SessionPositionMismatch nat nat
  | SessionLogitLength nat nat
  | NonFiniteSessionLogit nat f32
  | SessionArithmeticOverflow
  | SessionTooLarge nat nat
  | SessionAllocationFailed nat
  | TruncatedSessionSnapshot
  | SessionChecksum
  | SessionFormat
  | SessionVersion nat nat
  | SessionModelBinding
  | SessionFlags nat
  | SessionReservedBytes
  | SessionHistoryLength nat nat
  | SessionLogitState nat bool
  | SessionTokenOutOfRange nat nat
  | SessionTrailingBytes nat

record 'v chat_completion =
  cc_prompt_token_ids :: "nat list"
  cc_cached_prompt_tokens :: nat
  cc_content :: string
  cc_raw :: string
  cc_assistant :: "'v assistant_output"
  cc_structured_output_error :: "assistant_error option"
  cc_generation :: generation_outcome

text \<open>What comes from outside the engine.\<close>

record ('k, 'p, 'v, 'r) chat_env =
  ch_lib :: "('k, 'p) tokenizers_crate"
  ch_json :: "'v json_env"
  ch_sampler :: "'r sampler_env"
  ch_grant :: "nat \<Rightarrow> bool"

section \<open>Opening\<close>

definition chat_from_parts ::
  "('s, 'x) causal_model \<Rightarrow> 'k hy3_tokenizer \<Rightarrow> ('e, 'x) chat_engine_error + ('s, 'x) causal_model" where
  "chat_from_parts M tk =
     rbind (check (tk_vocabulary_size tk = vocabulary_size M)
       (VocabularyMismatch (tk_vocabulary_size tk) (vocabulary_size M))) (\<lambda>_.
     map_err ChSampling (generator_new M))"

definition chat_open_selected ::
  "('k, 'p) tokenizers_crate \<Rightarrow> run_env \<Rightarrow> ('e, 'j) open_env \<Rightarrow> 'e shard_fs \<Rightarrow> (path \<Rightarrow> 'e + file_storage) \<Rightarrow> path \<Rightarrow>
    scalar_options \<Rightarrow> (('e, ('e, 'j) scalar_error) chat_engine_error + 'e hy3_model \<times> 'k hy3_tokenizer) option" where
  "chat_open_selected lib renv env fs storage_of entry opts =
     (case rbind (map_err ChSplit (open_set fs entry)) (\<lambda>st.
           rbind (case gs_files st of [] \<Rightarrow> Inl MissingMetadataShard | shard # _ \<Rightarrow> Inr (sh_parsed shard)) (\<lambda>meta.
           map_err ChTokenizer (tokenizer_parse lib meta))) of
        Inl e \<Rightarrow> Some (Inl e)
      | Inr tk \<Rightarrow> map_option (\<lambda>r.
          rbind (map_err ChModel r) (\<lambda>hm.
          rbind (chat_from_parts (hy3_causal renv hm (hm_expert_cache hm) :: ('e, 'j) hy3_interface) tk) (\<lambda>_.
          Inr (hm, tk)))) (open_selected env fs storage_of entry opts))"

definition chat_new_session ::
  "(nat \<Rightarrow> bool) \<Rightarrow> ('s, 'x) causal_model \<Rightarrow> ('e, 'x) chat_engine_error + 's generation_session" where
  "chat_new_session grant M = map_err ChGeneration (generator_new_session grant M)"

definition session_position :: "('s, 'x) causal_model \<Rightarrow> 's generation_session \<Rightarrow> nat" where
  "session_position M s = model_position M (gs_model s)"

section \<open>Streaming the text\<close>

text \<open>The variables the callback of the generator captures; \<open>cs_user\<close> is the state of the user's callback.\<close>

record 'u chat_stream =
  cs_decoder :: incremental_decoder
  cs_filter :: text_stop_filter
  cs_incremental :: string
  cs_visible :: string
  cs_decode_error :: "tokenizer_error option"
  cs_callback_stopped :: bool
  cs_matched :: bool
  cs_user :: 'u

definition stream_start :: "string list \<Rightarrow> 'u \<Rightarrow> 'u chat_stream" where
  "stream_start stops u =
     \<lparr>cs_decoder = incremental_decoder_new True, cs_filter = filter_new stops, cs_incremental = [], cs_visible = [],
      cs_decode_error = None, cs_callback_stopped = False, cs_matched = False, cs_user = u\<rparr>"

text \<open>\<^verbatim>\<open>!text.is_empty() && emit(text).is_break()\<close>\<close>

definition offer :: "('u \<Rightarrow> string \<Rightarrow> 'u \<times> bool) \<Rightarrow> string \<Rightarrow> 'u chat_stream \<Rightarrow> 'u chat_stream \<times> bool" where
  "offer emit t st =
     (if t = [] then (st, False)
      else case emit (cs_user st) t of (u, broke) \<Rightarrow> (st\<lparr>cs_user := u\<rparr>, broke))"

definition push_visible :: "string \<Rightarrow> 'u chat_stream \<Rightarrow> text_stop_update \<times> 'u chat_stream" where
  "push_visible chunk st =
     (case filter_push (cs_filter st) chunk of
        (update, f) \<Rightarrow> (update, st\<lparr>cs_filter := f, cs_visible := cs_visible st @ up_text update\<rparr>))"

definition stream_chunk :: "('u \<Rightarrow> string \<Rightarrow> 'u \<times> bool) \<Rightarrow> string \<Rightarrow> 'u chat_stream \<Rightarrow> 'u chat_stream \<times> bool" where
  "stream_chunk emit chunk st =
     (let (update, st1) = push_visible chunk (st\<lparr>cs_incremental := cs_incremental st @ chunk\<rparr>);
          (st2, broke) = offer emit (up_text update) st1
      in if broke then (st2\<lparr>cs_callback_stopped := True\<rparr>, True)
         else if up_stopped update then (st2\<lparr>cs_matched := True\<rparr>, True)
         else (st2, False))"

definition stream_token ::
  "('k, 'p) tokenizers_crate \<Rightarrow> 'k hy3_tokenizer \<Rightarrow> ('u \<Rightarrow> string \<Rightarrow> 'u \<times> bool) \<Rightarrow> 'u chat_stream \<Rightarrow> generated_token \<Rightarrow>
    'u chat_stream \<times> bool" where
  "stream_token lib tk emit st token =
     (case decoder_push lib tk (cs_decoder st) (gt_token_id token) of
        (Inl e, d) \<Rightarrow> (st\<lparr>cs_decoder := d, cs_decode_error := Some e\<rparr>, True)
      | (Inr None, d) \<Rightarrow> (st\<lparr>cs_decoder := d\<rparr>, False)
      | (Inr (Some chunk), d) \<Rightarrow> stream_chunk emit chunk (st\<lparr>cs_decoder := d\<rparr>))"

text \<open>The end of the stream: the text the decoder still held, then the text the filter still held.\<close>

definition finish_stream ::
  "('u \<Rightarrow> string \<Rightarrow> 'u \<times> bool) \<Rightarrow> string \<Rightarrow> stop_reason \<Rightarrow> 'u chat_stream \<Rightarrow>
    (('e, 'x) chat_engine_error + stop_reason) \<times> 'u chat_stream" where
  "finish_stream emit decoded reason st =
     (if cs_callback_stopped st \<or> cs_matched st then (Inr (if cs_matched st then StopSequence else reason), st)
      else case strip_prefix decoded (cs_incremental st) of
        None \<Rightarrow> (Inl IncrementalDecodeDiverged, st)
      | Some rest \<Rightarrow>
          (let (update, st1) = push_visible rest st;
               (st2, broke) = offer emit (up_text update) st1
           in if up_stopped update then (Inr StopSequence, st2\<lparr>cs_matched := True, cs_callback_stopped := broke\<rparr>)
              else if broke then (Inr Callback, st2\<lparr>cs_callback_stopped := True\<rparr>)
              else let (held, f) = filter_finish (cs_filter st2);
                       (st3, broke) = offer emit held (st2\<lparr>cs_filter := f, cs_visible := cs_visible st2 @ held\<rparr>)
                   in (Inr (if broke then Callback else reason), st3)))"

section \<open>A completion\<close>

text \<open>\<^verbatim>\<open>position\<close>\<close>

fun position_of :: "('a \<Rightarrow> bool) \<Rightarrow> 'a list \<Rightarrow> nat option" where
  "position_of P [] = None"
| "position_of P (x # xs) = (if P x then Some 0 else map_option Suc (position_of P xs))"

definition insert_stop_token :: "nat \<Rightarrow> sampling_config \<Rightarrow> sampling_config" where
  "insert_stop_token tok c = c\<lparr>stop_tokens := insort_insert tok (stop_tokens c)\<rparr>"

text \<open>The session a prompt continues: the given one when the prompt extends its history, else a reset one.\<close>

definition session_for_prompt :: "('s, 'x) causal_model \<Rightarrow> nat list \<Rightarrow> 's generation_session \<Rightarrow> 's generation_session" where
  "session_for_prompt M prompt s = (if prefix (gs_history s) prompt then s else generator_reset M s)"

text \<open>The result after the generation: the final texts and the structured output.\<close>

definition completion ::
  "('k, 'p, 'v, 'r) chat_env \<Rightarrow> 'k hy3_tokenizer \<Rightarrow> ('u \<Rightarrow> string \<Rightarrow> 'u \<times> bool) \<Rightarrow> 'v template_options \<Rightarrow> string list \<Rightarrow>
    nat list \<Rightarrow> nat \<Rightarrow> generation_outcome \<Rightarrow> 'u chat_stream \<Rightarrow>
    (('e, 'x) chat_engine_error + 'v chat_completion) \<times> 'u chat_stream" where
  "completion env tk emit opts stops prompt cached out st =
     (case cs_decode_error st of
        Some e \<Rightarrow> (Inl (ChTokenizer e), st)
      | None \<Rightarrow>
          (case tk_decode (ch_lib env) tk (token_ids out) True of
             Inl e \<Rightarrow> (Inl (ChTokenizer e), st)
           | Inr decoded \<Rightarrow>
               (case finish_stream emit decoded (stopped_by out) st of
                  (Inl e, st1) \<Rightarrow> (Inl e, st1)
                | (Inr reason, st1) \<Rightarrow>
                    (case tk_decode (ch_lib env) tk (token_ids out) False of
                       Inl e \<Rightarrow> (Inl (ChTokenizer e), st1)
                     | Inr raw_decoded \<Rightarrow>
                         let raw = truncate_at_first_stop raw_decoded stops;
                             (assistant, err) =
                               (case parse_assistant_output (ch_json env) raw (to_reasoning_effort opts) of
                                  Inr parsed \<Rightarrow> (parsed, None)
                                | Inl e \<Rightarrow> (plain_output (cs_visible st1), Some e))
                         in (Inr \<lparr>cc_prompt_token_ids = prompt, cc_cached_prompt_tokens = cached,
                               cc_content = ao_content assistant, cc_raw = raw, cc_assistant = assistant,
                               cc_structured_output_error = err,
                               cc_generation = out\<lparr>stopped_by := reason, prompt_tokens := length prompt\<rparr>\<rparr>, st1)))))"

definition complete_with_stops_in_session ::
  "('k, 'p, 'v, 'r) chat_env \<Rightarrow> (nat \<Rightarrow> bool) \<Rightarrow> ('u \<Rightarrow> string \<Rightarrow> 'u \<times> bool) \<Rightarrow> ('s, 'x) causal_model \<Rightarrow> 'k hy3_tokenizer \<Rightarrow>
    'v chat_message list \<Rightarrow> 'v template_options \<Rightarrow> sampling_config \<Rightarrow> string list \<Rightarrow> 's generation_session \<Rightarrow> 'u \<Rightarrow> nat \<Rightarrow>
    (('e, 'x) chat_engine_error + 'v chat_completion) \<times> 's generation_session \<times> 'u \<times> nat" where
  "complete_with_stops_in_session env cancelled emit M tk messages opts c stops s u t =
     (case position_of (\<lambda>q. q = []) stops of
        Some index \<Rightarrow> (Inl (EmptyStopSequence index), s, u, t)
      | None \<Rightarrow>
          (case format_and_encode (ch_lib env) (ch_json env) tk messages opts of
             Inl e \<Rightarrow> (Inl (ChTokenizer e), s, u, t)
           | Inr prompt \<Rightarrow>
               let s0 = session_for_prompt M prompt s;
                   cached = length (gs_history s0);
                   c1 = insert_stop_token (st_eos (tk_special_ids tk)) c
               in case generate_stream (ch_grant env) (ch_sampler env) cancelled (stream_token (ch_lib env) tk emit) M c1
                      (drop cached prompt) s0 (stream_start stops u) t of
                    (Inl e, s1, st, t1) \<Rightarrow> (Inl (ChGeneration e), s1, cs_user st, t1)
                  | (Inr out, s1, st, t1) \<Rightarrow>
                      (case completion env tk emit opts stops prompt cached out st of
                         (r, st1) \<Rightarrow> (r, s1, cs_user st1, t1))))"

definition complete_in_session where
  "complete_in_session env cancelled emit M tk messages opts c s u t =
     complete_with_stops_in_session env cancelled emit M tk messages opts c [] s u t"

definition complete_with_stops ::
  "('k, 'p, 'v, 'r) chat_env \<Rightarrow> (nat \<Rightarrow> bool) \<Rightarrow> ('u \<Rightarrow> string \<Rightarrow> 'u \<times> bool) \<Rightarrow> ('s, 'x) causal_model \<Rightarrow> 'k hy3_tokenizer \<Rightarrow>
    'v chat_message list \<Rightarrow> 'v template_options \<Rightarrow> sampling_config \<Rightarrow> string list \<Rightarrow> 'u \<Rightarrow> nat \<Rightarrow>
    (('e, 'x) chat_engine_error + 'v chat_completion) \<times> 'u \<times> nat" where
  "complete_with_stops env cancelled emit M tk messages opts c stops u t =
     (case chat_new_session (ch_grant env) M of
        Inl e \<Rightarrow> (Inl e, u, t)
      | Inr s \<Rightarrow> (case complete_with_stops_in_session env cancelled emit M tk messages opts c stops s u t of
          (r, _, u1, t1) \<Rightarrow> (r, u1, t1)))"

definition chat_complete where
  "chat_complete env cancelled emit M tk messages opts c u t =
     complete_with_stops env cancelled emit M tk messages opts c [] u t"

section \<open>Saving a session\<close>

definition finite_logits :: "f32 list \<Rightarrow> ('e, 'x) chat_engine_error + unit" where
  "finite_logits logits =
     rbind (map_res (\<lambda>iv. check (f32_is_finite (snd iv)) (NonFiniteSessionLogit (fst iv) (snd iv))) (enumerate 0 logits)) (\<lambda>_.
     Inr ())"

definition session_bytes :: "nat \<Rightarrow> nat \<Rightarrow> nat \<Rightarrow> nat option" where
  "session_bytes history_len logits_len kv_len =
     Option.bind (checked_add (length CHAT_SESSION_MAGIC) 4) (\<lambda>v.
     Option.bind (checked_add v 32) (\<lambda>v.
     Option.bind (checked_add v (8 * 3)) (\<lambda>v.
     Option.bind (checked_add v 4) (\<lambda>v.
     Option.bind (checked_add v CHAT_SESSION_DIGEST_BYTES) (\<lambda>fixed_bytes.
     Option.bind (checked_mul history_len 4) (\<lambda>history_bytes.
     Option.bind (checked_add fixed_bytes history_bytes) (\<lambda>v.
     Option.bind (Option.bind (checked_mul logits_len 4) (checked_add v)) (\<lambda>v.
     checked_add v kv_len))))))))"

definition session_payload :: "byte list \<Rightarrow> nat list \<Rightarrow> f32 list \<Rightarrow> bool \<Rightarrow> byte list \<Rightarrow> byte list" where
  "session_payload fingerprint history logits has_logits kv =
     CHAT_SESSION_MAGIC @ u32_to_le CHAT_SESSION_VERSION @ fingerprint @ u64_to_le (length history) @ u64_to_le (length logits) @
     u64_to_le (length kv) @ [if has_logits then 1 else 0] @ [0, 0, 0] @ concat (map u32_to_le history) @
     concat (map f32_to_le logits) @ kv"

definition export_session ::
  "(byte list \<Rightarrow> byte list) \<Rightarrow> (nat \<Rightarrow> bool) \<Rightarrow> run_env \<Rightarrow> 'f hy3_model \<Rightarrow> (session \<times> expert_cache) generation_session \<Rightarrow> nat \<Rightarrow>
    ('e, ('e, 'j) scalar_error) chat_engine_error + byte list" where
  "export_session sha grant env hm s maximum_bytes =
     (let history = gs_history s; logits = gs_logits s; position = ss_position (fst (gs_model s));
          vocabulary = hc_vocabulary_size (hm_config hm) in
      if maximum_bytes = 0 then Inl ZeroSessionLimit
      else if \<not> gs_healthy s then Inl UnhealthySessionSnapshot
      else if length history \<noteq> position then Inl (SessionPositionMismatch (length history) position)
      else if length logits \<noteq> vocabulary then Inl (SessionLogitLength vocabulary (length logits)) else
      rbind (finite_logits logits) (\<lambda>_.
      rbind (map_err ChModel (export_kv_snapshot sha env hm (fst (gs_model s)) maximum_bytes)) (\<lambda>kv.
      rbind (ok_or SessionArithmeticOverflow (session_bytes (length history) (length logits) (length kv))) (\<lambda>size.
      rbind (check (size \<le> maximum_bytes) (SessionTooLarge size maximum_bytes)) (\<lambda>_.
      rbind (check (grant size) (SessionAllocationFailed size)) (\<lambda>_.
      let payload = session_payload (hm_fingerprint hm) history logits (gs_has_logits s) kv
      in Inr (payload @ sha payload)))))))"

section \<open>Restoring a session\<close>

definition sc_take :: "byte list \<Rightarrow> nat \<Rightarrow> nat \<Rightarrow> ('e, 'x) chat_engine_error + (byte list \<times> nat)" where
  "sc_take bytes offset n =
     rbind (ok_or SessionArithmeticOverflow (checked_add offset n)) (\<lambda>stop.
     rbind (check (stop \<le> length bytes) TruncatedSessionSnapshot) (\<lambda>_. Inr (slice bytes offset n, stop)))"

definition sc_u8 :: "byte list \<Rightarrow> nat \<Rightarrow> ('e, 'x) chat_engine_error + (nat \<times> nat)" where
  "sc_u8 bytes offset = rbind (sc_take bytes offset 1) (\<lambda>(v, next). Inr (of_le_bytes v, next))"

definition sc_u32 :: "byte list \<Rightarrow> nat \<Rightarrow> ('e, 'x) chat_engine_error + (nat \<times> nat)" where
  "sc_u32 bytes offset = rbind (sc_take bytes offset 4) (\<lambda>(v, next). Inr (of_le_bytes v, next))"

definition sc_usize :: "byte list \<Rightarrow> nat \<Rightarrow> ('e, 'x) chat_engine_error + (nat \<times> nat)" where
  "sc_usize bytes offset = rbind (sc_take bytes offset 8) (\<lambda>(v, next). Inr (of_le_bytes v, next))"

definition sc_remaining :: "byte list \<Rightarrow> nat \<Rightarrow> nat" where
  "sc_remaining bytes offset = length bytes - offset"

fun read_tokens :: "byte list \<Rightarrow> nat \<Rightarrow> nat \<Rightarrow> nat \<Rightarrow> ('e, 'x) chat_engine_error + (nat list \<times> nat)" where
  "read_tokens bytes vocabulary 0 offset = Inr ([], offset)"
| "read_tokens bytes vocabulary (Suc n) offset =
     rbind (sc_u32 bytes offset) (\<lambda>(token, offset).
     rbind (check (token < vocabulary) (SessionTokenOutOfRange token vocabulary)) (\<lambda>_.
     rbind (read_tokens bytes vocabulary n offset) (\<lambda>(rest, offset). Inr (token # rest, offset))))"

fun read_logits :: "byte list \<Rightarrow> nat \<Rightarrow> nat \<Rightarrow> nat \<Rightarrow> ('e, 'x) chat_engine_error + (f32 list \<times> nat)" where
  "read_logits bytes index 0 offset = Inr ([], offset)"
| "read_logits bytes index (Suc n) offset =
     rbind (sc_u32 bytes offset) (\<lambda>(bits, offset).
     let x = word_of_nat bits in
     rbind (check (f32_is_finite x) (NonFiniteSessionLogit index x)) (\<lambda>_.
     rbind (read_logits bytes (Suc index) n offset) (\<lambda>(rest, offset). Inr (x # rest, offset))))"

record session_header =
  sh_history_len :: nat
  sh_logits_len :: nat
  sh_kv_len :: nat
  sh_has_logits :: bool

definition read_session_header :: "byte list \<Rightarrow> byte list \<Rightarrow> ('e, 'x) chat_engine_error + (session_header \<times> nat)" where
  "read_session_header fingerprint bytes =
     rbind (sc_take bytes 0 (length CHAT_SESSION_MAGIC)) (\<lambda>(magic, offset).
     rbind (check (magic = CHAT_SESSION_MAGIC) SessionFormat) (\<lambda>_.
     rbind (sc_u32 bytes offset) (\<lambda>(version, offset).
     rbind (check (version = CHAT_SESSION_VERSION) (SessionVersion CHAT_SESSION_VERSION version)) (\<lambda>_.
     rbind (sc_take bytes offset 32) (\<lambda>(binding, offset).
     rbind (check (binding = fingerprint) SessionModelBinding) (\<lambda>_.
     rbind (sc_usize bytes offset) (\<lambda>(history_len, offset).
     rbind (sc_usize bytes offset) (\<lambda>(logits_len, offset).
     rbind (sc_usize bytes offset) (\<lambda>(kv_len, offset).
     rbind (sc_u8 bytes offset) (\<lambda>(flag, offset).
     rbind (if flag = 0 then Inr False else if flag = 1 then Inr True else Inl (SessionFlags flag)) (\<lambda>has_logits.
     rbind (sc_take bytes offset 3) (\<lambda>(reserved, offset).
     rbind (check (reserved = [0, 0, 0]) SessionReservedBytes) (\<lambda>_.
     Inr (\<lparr>sh_history_len = history_len, sh_logits_len = logits_len, sh_kv_len = kv_len, sh_has_logits = has_logits\<rparr>,
          offset))))))))))))))"

definition check_session_header :: "nat \<Rightarrow> nat \<Rightarrow> session_header \<Rightarrow> ('e, 'x) chat_engine_error + unit" where
  "check_session_header context vocabulary h =
     (if context < sh_history_len h then Inl (SessionHistoryLength (sh_history_len h) context)
      else if sh_logits_len h \<noteq> vocabulary then Inl (SessionLogitLength vocabulary (sh_logits_len h))
      else if sh_has_logits h \<noteq> (0 < sh_history_len h) then Inl (SessionLogitState (sh_history_len h) (sh_has_logits h))
      else Inr ())"

definition read_session ::
  "(nat \<Rightarrow> bool) \<Rightarrow> 'f hy3_model \<Rightarrow> byte list \<Rightarrow>
    ('e, 'x) chat_engine_error + (nat list \<times> f32 list \<times> bool \<times> byte list)" where
  "read_session grant hm bytes =
     rbind (read_session_header (hm_fingerprint hm) bytes) (\<lambda>(h, offset).
     rbind (check_session_header (hm_context_capacity hm) (hc_vocabulary_size (hm_config hm)) h) (\<lambda>_.
     rbind (check (grant (sh_history_len h)) (SessionAllocationFailed (sh_history_len h))) (\<lambda>_.
     rbind (read_tokens bytes (hc_vocabulary_size (hm_config hm)) (sh_history_len h) offset) (\<lambda>(history, offset).
     rbind (check (grant (sh_logits_len h)) (SessionAllocationFailed (sh_logits_len h))) (\<lambda>_.
     rbind (read_logits bytes 0 (sh_logits_len h) offset) (\<lambda>(logits, offset).
     rbind (sc_take bytes offset (sh_kv_len h)) (\<lambda>(kv, offset).
     rbind (check (sc_remaining bytes offset = 0) (SessionTrailingBytes (sc_remaining bytes offset))) (\<lambda>_.
     Inr (history, logits, sh_has_logits h, kv)))))))))"

definition restore_session ::
  "(byte list \<Rightarrow> byte list) \<Rightarrow> (nat \<Rightarrow> bool) \<Rightarrow> run_env \<Rightarrow> 'e hy3_model \<Rightarrow> expert_cache \<Rightarrow> byte list \<Rightarrow> nat \<Rightarrow>
    ('e, ('e, 'j) scalar_error) chat_engine_error + (session \<times> expert_cache) generation_session" where
  "restore_session sha grant env hm cs0 bytes maximum_bytes =
     (if maximum_bytes = 0 then Inl ZeroSessionLimit
      else if maximum_bytes < length bytes then Inl (SessionTooLarge (length bytes) maximum_bytes)
      else if length bytes < CHAT_SESSION_DIGEST_BYTES then Inl TruncatedSessionSnapshot
      else let payload_end = length bytes - CHAT_SESSION_DIGEST_BYTES in
        rbind (check (sha (take payload_end bytes) = drop payload_end bytes) SessionChecksum) (\<lambda>_.
        rbind (read_session grant hm (take payload_end bytes)) (\<lambda>(history, logits, has_logits, kv).
        rbind (chat_new_session grant (hy3_causal env hm cs0 :: ('e, 'j) hy3_interface)) (\<lambda>s.
        case restore_kv_snapshot sha env hm (gs_model s) kv maximum_bytes of
          (Inl e, _) \<Rightarrow> Inl (ChModel e)
        | (Inr _, m) \<Rightarrow>
            rbind (check (ss_position (fst m) = length history)
              (SessionPositionMismatch (length history) (ss_position (fst m)))) (\<lambda>_.
            Inr (restore_metadata (s\<lparr>gs_model := m\<rparr>) history logits has_logits))))))"

end
