(* ===== verification/Chat_Turn.thy ===== *)
theory Chat_Turn
  imports Chat_Engine
begin

text \<open>
  What a chat completion does: to the session, whose history is the prompt and what was sampled after it, and to
  the user, who is shown the text up to the first stop sequence.
\<close>

section \<open>The session of a turn\<close>

text \<open>
  The history after a turn: the whole prompt and the sampled tokens, or a part of the prompt when the turn was
  cancelled before the prompt was evaluated. A stop token, the end of sequence included, can only come last.
\<close>

definition turn_history :: "sampling_config \<Rightarrow> nat \<Rightarrow> bool \<Rightarrow> nat list \<Rightarrow> nat list \<Rightarrow> generation_outcome \<Rightarrow> bool" where
  "turn_history c eos was_cancelled prompt history out \<longleftrightarrow>
     (\<exists>sampled. (history = prompt @ sampled \<or> was_cancelled \<and> sampled = [] \<and> strict_prefix history prompt) \<and>
        length sampled \<le> max_new_tokens c \<and>
        (\<forall>x \<in> set (butlast sampled). x \<noteq> eos \<and> x \<notin> set (stop_tokens c)) \<and>
        token_ids out = filter (\<lambda>x. emit_stop_token c \<or> x \<noteq> eos \<and> x \<notin> set (stop_tokens c)) sampled \<and>
        generated_tokens out = length (token_ids out))"

lemma set_insert_stop_token [simp]: "set (stop_tokens (insert_stop_token tok c)) = insert tok (set (stop_tokens c))"
  by (simp add: insert_stop_token_def set_insort_insert)

lemma insert_stop_token_simps [simp]:
  "max_new_tokens (insert_stop_token tok c) = max_new_tokens c"
  "emit_stop_token (insert_stop_token tok c) = emit_stop_token c"
  by (simp_all add: insert_stop_token_def)

lemma shown_insert_stop_token:
  "shown (insert_stop_token eos c) sampled = filter (\<lambda>x. emit_stop_token c \<or> x \<noteq> eos \<and> x \<notin> set (stop_tokens c)) sampled"
  by (auto simp: shown_def intro: filter_cong)

lemma completion_Inr:
  assumes "completion env tk emit opts stops prompt cached out st = (Inr reply, st1)"
  shows "cc_prompt_token_ids reply = prompt" "cc_cached_prompt_tokens reply = cached"
    "token_ids (cc_generation reply) = token_ids out" "generated_tokens (cc_generation reply) = generated_tokens out"
    "prompt_tokens (cc_generation reply) = length prompt"
  using assms by (auto simp: completion_def Let_def split: option.splits sum.splits prod.splits)

lemma report_turn:
  assumes "generation_report M (insert_stop_token eos c) emit wc (drop n prompt) s cb (Inr out) s' cb'"
    and "gs_history s = take n prompt"
  shows "gs_healthy s' \<and> turn_history c eos wc prompt (gs_history s') out"
proof -
  let ?c = "insert_stop_token eos c"
  obtain evaluated sampled where
    h: "gs_history s' = gs_history s @ evaluated @ sampled \<and> prefix evaluated (drop n prompt) \<and>
        (sampled \<noteq> [] \<longrightarrow> evaluated = drop n prompt) \<and> (\<forall>t \<in> set (butlast sampled). t \<notin> set (stop_tokens ?c)) \<and>
        length sampled \<le> max_new_tokens ?c \<and> gs_healthy s' \<and> token_ids out = shown ?c sampled \<and>
        generated_tokens out = length (token_ids out) \<and> (stopped_by out \<noteq> Cancelled \<longrightarrow> evaluated = drop n prompt)"
    and why: "case stopped_by out of
        StopToken t \<Rightarrow> sampled \<noteq> [] \<and> last sampled = t \<and> t \<in> set (stop_tokens ?c)
      | StopSequence \<Rightarrow> False
      | MaxTokens \<Rightarrow> length sampled = max_new_tokens ?c \<and> (\<forall>t \<in> set sampled. t \<notin> set (stop_tokens ?c))
      | ContextLength \<Rightarrow> length sampled < max_new_tokens ?c \<and> length (gs_history s') = context_length M \<and>
          (\<forall>t \<in> set sampled. t \<notin> set (stop_tokens ?c))
      | Cancelled \<Rightarrow> wc \<and> (\<forall>t \<in> set sampled. t \<notin> set (stop_tokens ?c))
      | Callback \<Rightarrow> sampled \<noteq> []"
    using assms(1) unfolding generation_report_def sum.case by blast
  have cancelled: "stopped_by out = Cancelled \<Longrightarrow> wc" using why by simp
  have "gs_history s' = prompt @ sampled \<or> wc \<and> sampled = [] \<and> strict_prefix (gs_history s') prompt"
  proof (cases "evaluated = drop n prompt")
    case True
    then show ?thesis using h assms(2) by (simp flip: append_assoc)
  next
    case False
    then have "sampled = []" "wc" using h cancelled by blast+
    moreover obtain rest where "drop n prompt = evaluated @ rest" "rest \<noteq> []" using h False by (auto simp: prefix_def)
    then have "prompt = take n prompt @ evaluated @ rest" by (metis append_take_drop_id)
    then have "strict_prefix (gs_history s') prompt"
      using h assms(2) \<open>sampled = []\<close> \<open>rest \<noteq> []\<close> by (metis append_Nil2 append_assoc prefix_def same_append_eq strict_prefix_def)
    ultimately show ?thesis by simp
  qed
  then show ?thesis
    unfolding turn_history_def using h by (intro conjI exI [of _ sampled]) (simp_all add: shown_insert_stop_token)
qed

lemma session_for_prompt_runs:
  assumes "hy3_inv env hm cs0 (TYPE('j)) s"
    and "s0 = session_for_prompt (hy3_causal env hm cs0 :: ('e, 'j) hy3_interface) prompt s"
  shows "hy3_inv env hm cs0 (TYPE('j)) s0" "gs_history s0 = take (length (gs_history s0)) prompt"
    "length (gs_history s0) = (if prefix (gs_history s) prompt then length (gs_history s) else 0)"
proof -
  note r = hy3.reset_inv [OF assms(1) [unfolded hy3_inv_def]]
  show "hy3_inv env hm cs0 (TYPE('j)) s0" using r assms by (auto simp: session_for_prompt_def hy3_inv_def)
  show "gs_history s0 = take (length (gs_history s0)) prompt"
    using r assms(2) by (auto simp: session_for_prompt_def prefix_def)
  show "length (gs_history s0) = (if prefix (gs_history s) prompt then length (gs_history s) else 0)"
    using r assms(2) by (auto simp: session_for_prompt_def)
qed

lemma position_of_None: "position_of P xs = None \<longleftrightarrow> (\<forall>x \<in> set xs. \<not> P x)"
  by (induction xs) auto

lemma turn_stages:
  assumes "complete_with_stops_in_session cenv cancelled emit M tk messages opts c stops s u t =
      (Inr reply :: ('e, 'x) chat_engine_error + _, s', u', t')"
  obtains prompt s0 out st st1 where "\<forall>q \<in> set stops. q \<noteq> []"
    "format_and_encode (ch_lib cenv) (ch_json cenv) tk messages opts = Inr prompt" "s0 = session_for_prompt M prompt s"
    "generate_stream (ch_grant cenv) (ch_sampler cenv) cancelled (stream_token (ch_lib cenv) tk emit) M
      (insert_stop_token (st_eos (tk_special_ids tk)) c) (drop (length (gs_history s0)) prompt) s0 (stream_start stops u) t =
      (Inr out, s', st, t')"
    "completion cenv tk emit opts stops prompt (length (gs_history s0)) out st = (Inr reply :: ('e, 'x) chat_engine_error + _, st1)"
    "u' = cs_user st1"
proof -
  have p: "position_of (\<lambda>q. q = []) stops = None"
    using assms by (cases "position_of (\<lambda>q. q = []) stops") (simp_all add: complete_with_stops_in_session_def)
  obtain prompt where f: "format_and_encode (ch_lib cenv) (ch_json cenv) tk messages opts = Inr prompt"
    using assms p by (cases "format_and_encode (ch_lib cenv) (ch_json cenv) tk messages opts")
      (auto simp: complete_with_stops_in_session_def)
  show thesis
    using assms p f
    by (auto simp: complete_with_stops_in_session_def Let_def position_of_None split: prod.splits sum.splits intro: that)
qed

text \<open>Whatever the outcome, the session satisfies its invariant.\<close>

lemma chat_turn_keeps:
  assumes "hy3_inv env hm cs0 (TYPE('j)) s"
    and "complete_with_stops_in_session cenv cancelled emit (hy3_causal env hm cs0 :: ('e, 'j) hy3_interface) tk messages
      opts c stops s u t = (r, s', u', t')"
  shows "hy3_inv env hm cs0 (TYPE('j)) s'"
proof -
  have "hy3_inv env hm cs0 (TYPE('j)) s1"
    if "generate_stream (ch_grant cenv) (ch_sampler cenv) cancelled g (hy3_causal env hm cs0 :: ('e, 'j) hy3_interface) c1 suffix'
      (session_for_prompt (hy3_causal env hm cs0 :: ('e, 'j) hy3_interface) prompt s) st0 t = (q, s1, st, t1)"
    for g c1 suffix' prompt st0 q s1 st t1
    using hy3.generate_exact [OF session_for_prompt_runs(1) [OF assms(1) refl, unfolded hy3_inv_def] that]
    by (simp add: hy3_inv_def)
  then show ?thesis
    using assms
    by (auto simp: complete_with_stops_in_session_def Let_def split: option.splits prod.splits sum.splits)
qed

text \<open> C11.
  A chat turn in a session. Whatever the outcome, an error included, the session stays well-formed and every layer
  of its key/value cache stores as many tokens as its history has. A turn that completes has encoded the formatted
  messages, has reused exactly the history when the prompt extends it and nothing otherwise, and leaves as history
  the prompt followed by the sampled tokens, no stop token among them but the last, so that the next turn of the
  conversation can reuse all of it; only a cancellation can leave a part of the prompt unevaluated.
\<close>

theorem chat_turn_exact:
  fixes hm :: "'e hy3_model"
  assumes "model_ready hm cs0" "hy3_inv env hm cs0 TYPE('j) s"
  shows "case (complete_with_stops_in_session cenv cancelled emit (hy3_causal env hm cs0 :: ('e, 'j) hy3_interface) tk messages
      opts c stops s u t :: (('f, _) chat_engine_error + _) \<times> _) of (r, s', u', t') \<Rightarrow>
    hy3_inv env hm cs0 TYPE('j) s' \<and> session_ok hm (gs_model s') \<and>
    list_all (\<lambda>rows. length rows = length (gs_history s')) (stored_rows hm (fst (gs_model s'))) \<and>
    (case r of Inl e \<Rightarrow> True
     | Inr reply \<Rightarrow> gs_healthy s' \<and>
        format_and_encode (ch_lib cenv) (ch_json cenv) tk messages opts = Inr (cc_prompt_token_ids reply) \<and>
        cc_cached_prompt_tokens reply =
          (if prefix (gs_history s) (cc_prompt_token_ids reply) then length (gs_history s) else 0) \<and>
        turn_history c (st_eos (tk_special_ids tk)) (\<exists>v \<ge> t. cancelled v) (cc_prompt_token_ids reply) (gs_history s')
          (cc_generation reply))"
proof -
  let ?M = "hy3_causal env hm cs0 :: ('e, 'j) hy3_interface"
  obtain r :: "('f, ('e, 'j) scalar_error) chat_engine_error + _" and s' u' t' where
    run: "complete_with_stops_in_session cenv cancelled emit ?M tk messages opts c stops s u t = (r, s', u', t')"
    by (rule prod_cases4)
  note keep = chat_turn_keeps [OF assms(2) run]
  note facts = keep hy3_inv_session [OF assms(1) keep]
  show ?thesis
  proof (cases r)
    case (Inl e)
    then show ?thesis using facts by (simp add: run)
  next
    case (Inr reply)
    show ?thesis
    proof (rule turn_stages [OF run [unfolded Inr]])
      fix prompt s0 out st st1
      assume encoded: "format_and_encode (ch_lib cenv) (ch_json cenv) tk messages opts = Inr prompt"
        and start: "s0 = session_for_prompt ?M prompt s"
        and g: "generate_stream (ch_grant cenv) (ch_sampler cenv) cancelled (stream_token (ch_lib cenv) tk emit) ?M
          (insert_stop_token (st_eos (tk_special_ids tk)) c) (drop (length (gs_history s0)) prompt) s0 (stream_start stops u) t =
          (Inr out, s', st, t')"
        and w: "completion cenv tk emit opts stops prompt (length (gs_history s0)) out st =
          (Inr reply :: ('f, ('e, 'j) scalar_error) chat_engine_error + _, st1)"
      note s0 = session_for_prompt_runs [OF assms(2) start]
      note fields = completion_Inr [OF w]
      from report_turn [OF conjunct2 [OF hy3.generate_exact [OF s0(1) [unfolded hy3_inv_def] g]] s0(2)]
      have "gs_healthy s'" "turn_history c (st_eos (tk_special_ids tk)) (\<exists>v \<ge> t. cancelled v) prompt (gs_history s')
          (cc_generation reply)"
        unfolding turn_history_def fields(3,4) by blast+
      then show ?thesis using facts s0(3) encoded fields(1,2) by (simp add: run Inr)
    qed
  qed
qed

text \<open>A turn of one token over the zero model, with a crate that encodes every prompt as that token.\<close>

definition turn_crate :: "(unit, unit) tokenizers_crate" where
  "turn_crate = \<lparr>tz_build_bpe = (\<lambda>_ _. Inr ()), tz_split = (\<lambda>_. Inr ()), tz_byte_level = (\<lambda>_ _ _. ()),
     tz_with_pre_tokenizer = (\<lambda>_ k. k), tz_with_byte_decoder = (\<lambda>k. k), tz_add_special_tokens = (\<lambda>_ k. Inr k),
     tz_add_tokens = (\<lambda>_ k. Inr k), tz_encode = (\<lambda>_ _ _. Inr [0]), tz_decode = (\<lambda>_ _ _. Inr []),
     tz_token_to_id = (\<lambda>_ _. None), tz_step_decode_stream = (\<lambda>_ _ _ st. (Inr None, st))\<rparr>"

definition turn_tokenizer :: "unit hy3_tokenizer" where
  "turn_tokenizer = \<lparr>tk_inner = (), tk_tokens = [''a'', ''b''], tk_token_types = [TkNormal, TkNormal],
     tk_special_ids = \<lparr>st_bos = 0, st_eos = 1, st_pad = 0, st_separator = 0\<rparr>, tk_chat_template = []\<rparr>"

definition turn_env :: "(unit, unit, nat, unit) chat_env" where
  "turn_env = \<lparr>ch_lib = turn_crate, ch_json = demo_json, ch_sampler = zero_sampler, ch_grant = (\<lambda>_. True)\<rparr>"

definition no_new_tokens :: sampling_config where
  "no_new_tokens = default_sampling_config\<lparr>max_new_tokens := 0\<rparr>"

lemma turn_prompt: "format_and_encode turn_crate demo_json turn_tokenizer [] template_default = Inr [0]"
  by (simp add: format_and_encode_def format_chat_def format_head_def template_default_def tk_encode_def turn_crate_def format_body_def
      close_tool_responses_def Let_def)

lemma turn_generates:
  "\<exists>s1 t1. generate_stream (\<lambda>_. True) zero_sampler (\<lambda>_. False) emit
     (hy3_causal zero_env zero_model zero_expert_cache :: (unit, unit) hy3_interface) (insert_stop_token 1 no_new_tokens) [0]
     zero_generation cb 0 = (Inr (outcome [] MaxTokens 1), s1, cb, t1)"
proof -
  let ?M = "hy3_causal zero_env zero_model zero_expert_cache :: (unit, unit) hy3_interface"
  obtain st where "evaluate zero_env zero_model (zero_session, zero_expert_cache) 0 [7, 7] =
      Some (Inr () :: (unit, unit) scalar_error + unit, st, [0, 0])"
    using zero_evaluation by blast
  then obtain s1 t1 where p: "prefill ?M (\<lambda>_. False) [0] zero_generation (Suc 0) = (Inr False, s1, t1)"
    by (simp add: gen_evaluate_def hy3_causal_def zero_generation_def)
  have z: "hc_vocabulary_size (hm_config zero_model) = 2" "hm_context_capacity zero_model = 3" by (simp_all add: zero_model_def)
  have v: "validate_sampling (insert_stop_token 1 no_new_tokens) 2 = Inr ()"
    by (simp add: validate_sampling_def no_new_tokens_def insert_stop_token_def default_sampling_config_def insort_insert_key_def f32_compare)
  have "admit (\<lambda>_. True) ?M (insert_stop_token 1 no_new_tokens) zero_generation [0] = Inr 0"
    using v by (simp add: admit_def hy3_causal_def zero_generation_def zero_session_def tokens_in_range_def z
        no_new_tokens_def checked_add_def u64_limit_def Let_def)
  moreover have "\<exists>smp. sampler_new (\<lambda>_. True) (env_seed zero_sampler) (insert_stop_token 1 no_new_tokens) (vocabulary_size ?M) = Inr smp"
    using v by (simp add: sampler_new_def hy3_causal_def z)
  ultimately show ?thesis using p
    by (auto simp: generate_stream_def outcome_def no_new_tokens_def)
qed

theorem chat_turn_exact_witness:
  "\<exists>reply s' t'. (complete_with_stops_in_session turn_env (\<lambda>_. False) (\<lambda>u x. (u, False))
      (hy3_causal zero_env zero_model zero_expert_cache :: (unit, unit) hy3_interface) turn_tokenizer [] template_default
      no_new_tokens [''stop''] zero_generation () 0 :: ((unit, _) chat_engine_error + _) \<times> _) = (Inr reply, s', (), t') \<and>
    gs_history s' = [0] \<and> cc_cached_prompt_tokens reply = 0 \<and> session_ok zero_model (gs_model s')"
proof -
  let ?M = "hy3_causal zero_env zero_model zero_expert_cache :: (unit, unit) hy3_interface"
  let ?start = "stream_start [''stop''] () :: unit chat_stream"
  obtain s1 t1 where g: "generate_stream (\<lambda>_. True) zero_sampler (\<lambda>_. False) (stream_token turn_crate turn_tokenizer (\<lambda>u x. (u, False)))
      ?M (insert_stop_token 1 no_new_tokens) [0] zero_generation ?start 0 = (Inr (outcome [] MaxTokens 1), s1, ?start, t1)"
    using turn_generates [of "stream_token turn_crate turn_tokenizer (\<lambda>u x. (u, False))" ?start] by blast
  have "\<exists>reply st. completion turn_env turn_tokenizer (\<lambda>u x. (u, False)) template_default [''stop''] [0] 0
      (outcome [] MaxTokens 1) ?start = (Inr reply :: (unit, (unit, unit) scalar_error) chat_engine_error + _, st)"
    by (simp add: completion_def turn_env_def turn_crate_def tk_decode_def stream_start_def finish_stream_def push_visible_def
        filter_push_def filter_new_def filter_finish_def offer_def first_stop_def held_back_def List.map_filter_def
        stop_prefixes_def Let_def outcome_def strip_prefix_def split: prod.splits sum.splits)
  then obtain reply st where w: "completion turn_env turn_tokenizer (\<lambda>u x. (u, False)) template_default [''stop''] [0] 0
      (outcome [] MaxTokens 1) ?start = (Inr reply :: (unit, (unit, unit) scalar_error) chat_engine_error + _, st)"
    by blast
  have "session_for_prompt ?M [0] zero_generation = zero_generation" "gs_history zero_generation = []"
    by (simp_all add: session_for_prompt_def zero_generation_def)
  then have run: "complete_with_stops_in_session turn_env (\<lambda>_. False) (\<lambda>u x. (u, False)) ?M turn_tokenizer [] template_default
      no_new_tokens [''stop''] zero_generation () 0 =
      (Inr reply :: (unit, (unit, unit) scalar_error) chat_engine_error + _, s1, (), t1)"
    using g w turn_prompt by (simp add: complete_with_stops_in_session_def turn_env_def turn_tokenizer_def)
  from chat_turn_exact [OF zero_ready zero_generation_inv, where cenv = turn_env and cancelled = "\<lambda>_. False" and
      emit = "\<lambda>u x. (u, False)" and tk = turn_tokenizer and messages = "[]" and opts = template_default and c = no_new_tokens and
      stops = "[''stop'']" and u = "()" and t = 0 and 'f = unit and 'j = unit] turn_prompt
  have "session_ok zero_model (gs_model s1)" "cc_prompt_token_ids reply = [0]"
    "turn_history no_new_tokens 1 False [0] (gs_history s1) (cc_generation reply)" "cc_cached_prompt_tokens reply = 0"
    unfolding run by (auto simp: turn_env_def turn_tokenizer_def zero_generation_def)
  moreover from this(3) have "gs_history s1 = [0]" by (auto simp: turn_history_def no_new_tokens_def)
  ultimately show ?thesis using run by blast
qed

end
