(* ===== verification/Chat_Text.thy ===== *)
theory Chat_Text
  imports Chat_Turn
begin

text \<open>
  What the user of a chat completion is shown: the chunks the callback receives are, put together, the decoded text
  cut before its first stop sequence, whatever model generates the tokens and however the decoder cuts them.
\<close>

section \<open>The callback of a generation\<close>

text \<open>
  A property \<open>P\<close> of the callback's state and the shown tokens that every call keeps which does not break, and a property
  \<open>Q\<close> that every call establishes which does.
\<close>

lemma decode_loop_callback:
  assumes keeps: "\<And>cb toks tok i cb'. P cb toks \<Longrightarrow> emit cb \<lparr>gt_token_id = tok, gt_index = i\<rparr> = (cb', False) \<Longrightarrow> P cb' (toks @ [tok])"
    and breaks: "\<And>cb toks tok i cb'. P cb toks \<Longrightarrow> emit cb \<lparr>gt_token_id = tok, gt_index = i\<rparr> = (cb', True) \<Longrightarrow> Q cb' (toks @ [tok])"
    and "P (ds_callback d) (ds_generated d)" "decode_loop M env cancelled emit c n index d = (Inr reason, d')"
  shows "reason \<noteq> Some StopSequence \<and>
    (if reason = Some Callback then Q (ds_callback d') (ds_generated d') else P (ds_callback d') (ds_generated d'))"
  using assms(3,4)
proof (induction n arbitrary: index d)
  case 0
  then show ?case by auto
next
  case (Suc n)
  show ?case
  proof (cases "cancelled (ds_polls d)")
    case True
    then show ?thesis using Suc.prems by auto
  next
    case False
    obtain tok smp where smp: "sample (env_exp env) (env_gen env) (ds_sampler d) (gs_logits (ds_session d)) (gs_history (ds_session d)) = (Inr tok, smp)"
      using Suc.prems(2) False by (auto simp: Let_def split: prod.splits sum.splits)
    obtain s where s: "gen_evaluate M (ds_session d) tok = (Inr (), s)"
      using Suc.prems(2) False smp by (auto simp: Let_def split: prod.splits sum.splits)
    obtain cb brk where e: "emit (ds_callback d) \<lparr>gt_token_id = tok, gt_index = index\<rparr> = (cb, brk)" by fastforce
    define out where "out = (tok \<notin> set (stop_tokens c) \<or> emit_stop_token c)"
    let ?d = "d\<lparr>ds_polls := Suc (ds_polls d), ds_sampler := smp, ds_session := s,
        ds_generated := (if out then ds_generated d @ [tok] else ds_generated d), ds_callback := (if out then cb else ds_callback d)\<rparr>"
    have run: "(if out \<and> brk then (Inr (Some Callback), ?d)
        else if tok \<in> set (stop_tokens c) then (Inr (Some (StopToken tok)), ?d)
        else decode_loop M env cancelled emit c n (Suc index) ?d) = (Inr reason, d')"
      using Suc.prems(2) False by (cases out) (auto simp: Let_def smp s e out_def)
    have p: "P (ds_callback ?d) (ds_generated ?d)" if "\<not> (out \<and> brk)"
      using keeps [OF Suc.prems(1)] e that Suc.prems(1) by auto
    consider "out \<and> brk" | "\<not> (out \<and> brk)" "tok \<in> set (stop_tokens c)" | "\<not> (out \<and> brk)" "tok \<notin> set (stop_tokens c)" by blast
    then show ?thesis
    proof cases
      case 1
      then have "reason = Some Callback" "d' = ?d" using run by auto
      then show ?thesis using breaks [OF Suc.prems(1)] e 1 by simp
    next
      case 2
      then have "reason = Some (StopToken tok)" "d' = ?d" using run by auto
      then show ?thesis using p [OF 2(1)] by simp
    next
      case 3
      then have "decode_loop M env cancelled emit c n (Suc index) ?d = (Inr reason, d')" using run by (simp only: 3 if_False)
      then show ?thesis by (rule Suc.IH [OF p [OF 3(1)]])
    qed
  qed
qed

lemma generate_stream_callback:
  assumes "\<And>cb toks tok i cb'. P cb toks \<Longrightarrow> emit cb \<lparr>gt_token_id = tok, gt_index = i\<rparr> = (cb', False) \<Longrightarrow> P cb' (toks @ [tok])"
    and "\<And>cb toks tok i cb'. P cb toks \<Longrightarrow> emit cb \<lparr>gt_token_id = tok, gt_index = i\<rparr> = (cb', True) \<Longrightarrow> Q cb' (toks @ [tok])"
    and "P cb []" "generate_stream grant env cancelled emit M c prompt s cb t = (Inr out, s', cb', t')"
  shows "stopped_by out \<noteq> StopSequence \<and> (if stopped_by out = Callback then Q cb' (token_ids out) else P cb' (token_ids out))"
proof -
  obtain limit where limit: "admit grant M c s prompt = Inr limit"
    using assms(4) by (auto simp: generate_stream_def split: sum.splits)
  obtain q s1 t1 where pf: "prefill M cancelled prompt s (Suc t) = (q, s1, t1)" using prod_cases3 by blast
  consider "cancelled t" | "\<not> cancelled t" "q = Inr True" | "\<not> cancelled t" "q = Inr False"
    using assms(4) limit pf by (cases q) (auto simp: generate_stream_def split: if_splits)
  then show ?thesis
  proof cases
    case 3
    then obtain smp where smp: "sampler_new grant (env_seed env) c (vocabulary_size M) = Inr smp"
      using assms(4) limit pf by (auto simp: generate_stream_def split: sum.splits)
    let ?d = "\<lparr>ds_session = s1, ds_sampler = smp, ds_generated = [], ds_callback = cb, ds_polls = t1\<rparr>"
    obtain w d where loop: "decode_loop M env cancelled emit c limit 0 ?d = (w, d)" by fastforce
    obtain reason where r: "w = Inr reason" using assms(4) limit pf 3 smp loop by (cases w) (auto simp: generate_stream_def)
    have o: "out = outcome (ds_generated d) (case reason of Some r \<Rightarrow> r
        | None \<Rightarrow> if limit < max_new_tokens c then ContextLength else MaxTokens) (length prompt)" "cb' = ds_callback d"
      using assms(4) limit pf 3 smp loop r by (auto simp: generate_stream_def)
    have "P (ds_callback ?d) (ds_generated ?d)" using assms(3) by simp
    from decode_loop_callback [of P emit Q, OF assms(1,2) this loop [unfolded r]]
    show ?thesis by (cases reason) (simp_all add: o outcome_def)
  qed (use assms(3,4) limit pf in \<open>auto simp: generate_stream_def outcome_def\<close>)
qed

section \<open>Decoded text\<close>

lemma utf8_valid_append: "utf8_valid a \<Longrightarrow> utf8_valid (a @ b) \<longleftrightarrow> utf8_valid b"
proof (induction a rule: measure_induct_rule [of length])
  case (less a)
  show ?case
  proof (cases a)
    case Nil
    then show ?thesis by simp
  next
  case (Cons x xs)
  have valid: "utf8_valid (x # xs)" using less.prems Cons by simp
  consider (one) "x \<le> 0x7F"
    | (two) c cs where "\<not> x \<le> 0x7F" "0xC2 \<le> x \<and> x \<le> 0xDF" "xs = c # cs"
    | (three) c d ds where "\<not> x \<le> 0x7F" "\<not> (0xC2 \<le> x \<and> x \<le> 0xDF)" "0xE0 \<le> x \<and> x \<le> 0xEF" "xs = c # d # ds"
    | (four) c d e es where "\<not> x \<le> 0x7F" "\<not> (0xC2 \<le> x \<and> x \<le> 0xDF)" "\<not> (0xE0 \<le> x \<and> x \<le> 0xEF)" "0xF0 \<le> x \<and> x \<le> 0xF4" "xs = c # d # e # es"
  proof (cases "x \<le> 0x7F")
    case False
    note out = valid [unfolded utf8_valid.simps(2) if_not_P [OF False]]
    show ?thesis
    proof (cases "0xC2 \<le> x \<and> x \<le> 0xDF")
      case True
      obtain c cs where "xs = c # cs" using out [unfolded if_P [OF True]] by (cases xs) simp_all
      then show ?thesis using two False True by blast
    next
      case n2: False
      note out2 = out [unfolded if_not_P [OF n2]]
      show ?thesis
      proof (cases "0xE0 \<le> x \<and> x \<le> 0xEF")
        case True
        obtain c d ds where "xs = c # d # ds"
          using out2 [unfolded if_P [OF True]] by (cases xs rule: list.exhaust; cases "tl xs") (simp_all split: list.splits)
        then show ?thesis using three False n2 True by blast
      next
        case n3: False
        note out3 = out2 [unfolded if_not_P [OF n3]]
        have n4: "0xF0 \<le> x \<and> x \<le> 0xF4" 
        proof (rule ccontr)
          assume no: "\<not> (0xF0 \<le> x \<and> x \<le> 0xF4)"
          show False using out3 [unfolded if_not_P [OF no]] .
        qed
        obtain c d e es where "xs = c # d # e # es"
          using out3 [unfolded if_P [OF n4]] by (cases xs; cases "tl xs"; cases "tl (tl xs)") (simp_all split: list.splits)
        then show ?thesis using four False n2 n3 n4 by blast
      qed
    qed
  qed (use one in blast)
  then show ?thesis
  proof cases
    case one
    then show ?thesis using less.IH [of xs] valid Cons by simp
  next
    case two
    then show ?thesis using less.IH [of cs] valid Cons by simp
  next
    case three
    note rules = utf8_valid.simps(2) [of x] if_not_P [OF three(1)] if_not_P [OF three(2)] if_P [OF three(3)] list.case
    have v: "utf8_valid ds" using valid unfolding three(4) rules by blast
    have "utf8_valid (x # c # d # ds @ b) \<longleftrightarrow> utf8_valid (ds @ b)" using valid unfolding three(4) rules by blast
    then show ?thesis using less.IH [of ds] v Cons three(4) by simp
  next
    case four
    note rules = utf8_valid.simps(2) [of x] if_not_P [OF four(1)] if_not_P [OF four(2)] if_not_P [OF four(3)] if_P [OF four(4)] list.case
    have v: "utf8_valid es" using valid unfolding four(5) rules by blast
    have "utf8_valid (x # c # d # e # es @ b) \<longleftrightarrow> utf8_valid (es @ b)" using valid unfolding four(5) rules by blast
    then show ?thesis using less.IH [of es] v Cons four(5) by simp
  qed
  qed
qed

lemma bytes_of_str_append [simp]: "bytes_of_str (a @ b) = bytes_of_str a @ bytes_of_str b"
  by (simp add: bytes_of_str_def)

text \<open>What the crate returns is a \<^verbatim>\<open>String\<close>, which is valid UTF-8.\<close>

definition crate_strings :: "('k, 'p) tokenizers_crate \<Rightarrow> bool" where
  "crate_strings lib \<longleftrightarrow>
     (\<forall>k toks skip. case tz_decode lib k toks skip of Inr s \<Rightarrow> utf8_valid (bytes_of_str s) | Inl _ \<Rightarrow> True) \<and>
     (\<forall>k toks skip st. case fst (tz_step_decode_stream lib k toks skip st) of
        Inr (Some chunk) \<Rightarrow> utf8_valid (bytes_of_str chunk) | _ \<Rightarrow> True)"

text \<open>The text the incremental decoder returns for a list of tokens.\<close>

definition decoder_step ::
  "('k, 'p) tokenizers_crate \<Rightarrow> 'k hy3_tokenizer \<Rightarrow> nat \<Rightarrow> (string \<times> incremental_decoder) option \<Rightarrow> (string \<times> incremental_decoder) option" where
  "decoder_step lib tk tok st = Option.bind st (\<lambda>(txt, d).
     case decoder_push lib tk d tok of
       (Inl _, _) \<Rightarrow> None
     | (Inr chunk, d') \<Rightarrow> Some (txt @ (case chunk of None \<Rightarrow> [] | Some c \<Rightarrow> c), d'))"

definition incremental_decode ::
  "('k, 'p) tokenizers_crate \<Rightarrow> 'k hy3_tokenizer \<Rightarrow> nat list \<Rightarrow> (string \<times> incremental_decoder) option" where
  "incremental_decode lib tk toks = fold (decoder_step lib tk) toks (Some ([], incremental_decoder_new True))"

lemma incremental_decode_snoc:
  "incremental_decode lib tk (toks @ [tok]) = decoder_step lib tk tok (incremental_decode lib tk toks)"
  by (simp add: incremental_decode_def)

section \<open>The invariant of the stream\<close>

text \<open>The callback of a user who collects what is shown.\<close>

definition collect :: "string \<Rightarrow> string \<Rightarrow> string \<times> bool" where
  "collect shown_so_far t = (shown_so_far @ t, False)"

definition streaming ::
  "('k, 'p) tokenizers_crate \<Rightarrow> 'k hy3_tokenizer \<Rightarrow> string list \<Rightarrow> string chat_stream \<Rightarrow> nat list \<Rightarrow> bool" where
  "streaming lib tk stops st toks \<longleftrightarrow>
     cs_decode_error st = None \<and> \<not> cs_callback_stopped st \<and> \<not> cs_matched st \<and> stop_sequences (cs_filter st) = stops \<and>
     settled stops (cs_visible st) (pending (cs_filter st)) \<and> cs_visible st @ pending (cs_filter st) = cs_incremental st \<and>
     cs_user st = cs_visible st \<and> utf8_valid (bytes_of_str (cs_incremental st)) \<and>
     incremental_decode lib tk toks = Some (cs_incremental st, cs_decoder st)"

definition stream_ended ::
  "('k, 'p) tokenizers_crate \<Rightarrow> 'k hy3_tokenizer \<Rightarrow> string list \<Rightarrow> string chat_stream \<Rightarrow> nat list \<Rightarrow> bool" where
  "stream_ended lib tk stops st toks \<longleftrightarrow>
     cs_decode_error st \<noteq> None \<or>
     cs_matched st \<and> cs_user st = cs_visible st \<and> cs_visible st = truncate_at_first_stop (cs_incremental st) stops \<and>
     first_stop stops (cs_incremental st) \<noteq> None \<and> map_option fst (incremental_decode lib tk toks) = Some (cs_incremental st)"

lemma offer_collect: "offer collect t st = (st\<lparr>cs_user := cs_user st @ t\<rparr>, False)"
  by (simp add: offer_def collect_def)

lemma stream_start_streaming:
  assumes "\<forall>q \<in> set stops. q \<noteq> []"
  shows "streaming lib tk stops (stream_start stops []) []"
  using settled_new [OF assms]
  by (simp add: streaming_def stream_start_def filter_new_def incremental_decode_def bytes_of_str_def)

text \<open>One push of decoded text.\<close>

lemma push_visible_streaming:
  assumes "settled stops (cs_visible st) (pending (cs_filter st))" "stop_sequences (cs_filter st) = stops"
    and "\<forall>q \<in> set stops. begins_char q" "begins_char chunk" "push_visible chunk st = (update, st1)"
  shows "st1 = st\<lparr>cs_filter := cs_filter st1, cs_visible := cs_visible st @ up_text update\<rparr>"
    "stop_sequences (cs_filter st1) = stops"
    "up_stopped update \<longleftrightarrow> first_stop stops (cs_visible st @ pending (cs_filter st) @ chunk) \<noteq> None"
    "cs_visible st1 @ pending (cs_filter st1) = truncate_at_first_stop (cs_visible st @ pending (cs_filter st) @ chunk) stops"
    "\<not> up_stopped update \<Longrightarrow> settled stops (cs_visible st1) (pending (cs_filter st1))"
    "up_stopped update \<Longrightarrow> pending (cs_filter st1) = []"
proof -
  obtain f where f: "filter_push (cs_filter st) chunk = (update, f)" "st1 = st\<lparr>cs_filter := f, cs_visible := cs_visible st @ up_text update\<rparr>"
    using assms(5) by (auto simp: push_visible_def split: prod.splits)
  note push = filter_push_settled [OF assms(1-4) f(1)]
  show "st1 = st\<lparr>cs_filter := cs_filter st1, cs_visible := cs_visible st @ up_text update\<rparr>"
    "stop_sequences (cs_filter st1) = stops"
    "up_stopped update \<longleftrightarrow> first_stop stops (cs_visible st @ pending (cs_filter st) @ chunk) \<noteq> None"
    "cs_visible st1 @ pending (cs_filter st1) = truncate_at_first_stop (cs_visible st @ pending (cs_filter st) @ chunk) stops"
    "\<not> up_stopped update \<Longrightarrow> settled stops (cs_visible st1) (pending (cs_filter st1))"
    using push by (simp_all add: f(2))
  show "up_stopped update \<Longrightarrow> pending (cs_filter st1) = []"
    using f by (auto simp: filter_push_def Let_def split: option.splits)
qed

lemma stream_token_streaming:
  assumes "crate_strings lib" "\<forall>q \<in> set stops. begins_char q" "streaming lib tk stops st toks"
    and "stream_token lib tk collect st \<lparr>gt_token_id = tok, gt_index = i\<rparr> = (st', broke)"
  shows "if broke then stream_ended lib tk stops st' (toks @ [tok]) else streaming lib tk stops st' (toks @ [tok])"
proof -
  obtain r d where d: "decoder_push lib tk (cs_decoder st) tok = (r, d)" by fastforce
  have inc: "incremental_decode lib tk (toks @ [tok]) =
      (case r of Inl _ \<Rightarrow> None | Inr chunk \<Rightarrow> Some (cs_incremental st @ (case chunk of None \<Rightarrow> [] | Some c \<Rightarrow> c), d))"
    using assms(3) d by (simp add: incremental_decode_snoc decoder_step_def streaming_def split: sum.split)
  show ?thesis
  proof (cases r)
    case (Inl e)
    then show ?thesis using assms(4) d by (auto simp: stream_token_def stream_ended_def)
  next
    case (Inr chunk)
    show ?thesis
    proof (cases chunk)
      case None
      then show ?thesis using assms(3,4) d inc Inr by (auto simp: stream_token_def streaming_def)
    next
      case (Some c)
      have v: "utf8_valid (bytes_of_str c)"
      proof -
        have "fst (tz_step_decode_stream lib (tk_inner tk) [tok] (id_skip_special (cs_decoder st)) (id_stream (cs_decoder st))) =
            Inr (Some c)"
          using d Inr Some by (auto simp: decoder_push_def split: prod.splits)
        moreover have "case fst (tz_step_decode_stream lib (tk_inner tk) [tok] (id_skip_special (cs_decoder st)) (id_stream (cs_decoder st))) of
            Inr (Some chunk) \<Rightarrow> utf8_valid (bytes_of_str chunk) | _ \<Rightarrow> True"
          using assms(1) unfolding crate_strings_def by blast
        ultimately show ?thesis by simp
      qed
      let ?st = "st\<lparr>cs_decoder := d, cs_incremental := cs_incremental st @ c\<rparr>"
      obtain u st1 where p: "push_visible c ?st = (u, st1)" by fastforce
      from assms(3) have s: "settled stops (cs_visible ?st) (pending (cs_filter ?st))" "stop_sequences (cs_filter ?st) = stops"
        and i: "cs_visible st @ pending (cs_filter st) = cs_incremental st" by (simp_all add: streaming_def)
      note push = push_visible_streaming [OF s assms(2) utf8_begins_char [OF v] p]
      have i': "cs_visible st @ pending (cs_filter st) @ c = cs_incremental st @ c" using i by (simp flip: append_assoc)
      have f: "cs_decode_error st1 = None" "\<not> cs_callback_stopped st1" "\<not> cs_matched st1" "cs_user st1 = cs_visible st"
        "cs_incremental st1 = cs_incremental st @ c" "cs_decoder st1 = d" "cs_visible st1 = cs_visible st @ up_text u"
        using assms(3) by (subst push(1); simp add: streaming_def)+
      have run: "(if up_stopped u then (st1\<lparr>cs_user := cs_user st1 @ up_text u, cs_matched := True\<rparr>, True)
          else (st1\<lparr>cs_user := cs_user st1 @ up_text u\<rparr>, False)) = (st', broke)"
        using assms(4) d Inr Some p by (simp add: stream_token_def stream_chunk_def offer_collect)
      have dec: "incremental_decode lib tk (toks @ [tok]) = Some (cs_incremental st @ c, d)" using inc Inr Some by simp
      have valid: "utf8_valid (bytes_of_str (cs_incremental st @ c))"
        using assms(3) v by (simp add: streaming_def utf8_valid_append)
      show ?thesis
      proof (cases "up_stopped u")
        case True
        then have "st' = st1\<lparr>cs_user := cs_user st1 @ up_text u, cs_matched := True\<rparr>" "broke" using run by auto
        then show ?thesis using push(3,4,6) True f dec i' by (simp add: stream_ended_def)
      next
        case False
        then have "st' = st1\<lparr>cs_user := cs_user st1 @ up_text u\<rparr>" "\<not> broke" using run by auto
        moreover have "truncate_at_first_stop (cs_incremental st @ c) stops = cs_incremental st @ c"
          using push(3) False i' by (simp add: truncate_at_first_stop_def)
        ultimately show ?thesis using push(2,4,5) False f dec valid i' by (simp add: streaming_def)
      qed
    qed
  qed
qed

section \<open>The end of the stream\<close>

lemma finish_collect:
  assumes "\<forall>q \<in> set stops. begins_char q" "utf8_valid (bytes_of_str decoded)" "streaming lib tk stops st toks"
    and "finish_stream collect decoded reason st = (Inr reason' :: ('e, 'x) chat_engine_error + _, st')"
  shows "cs_user st' = truncate_at_first_stop decoded stops" "cs_visible st' = cs_user st'"
    "reason' = (if first_stop stops decoded = None then reason else StopSequence)"
proof -
  have open': "\<not> (cs_callback_stopped st \<or> cs_matched st)" using assms(3) by (simp add: streaming_def)
  obtain rest where rest: "strip_prefix decoded (cs_incremental st) = Some rest"
    using assms(4) open' by (cases "strip_prefix decoded (cs_incremental st)") (auto simp: finish_stream_def)
  then have d: "decoded = cs_incremental st @ rest" by (auto simp: strip_prefix_def prefix_def split: if_splits)
  have "utf8_valid (bytes_of_str rest)" using assms(2,3) by (simp add: d streaming_def utf8_valid_append)
  note v = utf8_begins_char [OF this]
  obtain u st1 where p: "push_visible rest st = (u, st1)" by fastforce
  from assms(3) have s: "settled stops (cs_visible st) (pending (cs_filter st))" "stop_sequences (cs_filter st) = stops"
    and i: "cs_visible st @ pending (cs_filter st) = cs_incremental st" by (simp_all add: streaming_def)
  note push = push_visible_streaming [OF s assms(1) v p]
  have i': "cs_visible st @ pending (cs_filter st) @ rest = decoded" using i d by (simp flip: append_assoc)
  have f: "cs_user st1 = cs_visible st" "cs_visible st1 = cs_visible st @ up_text u"
    using assms(3) by (subst push(1); simp add: streaming_def)+
  have "cs_user st' = truncate_at_first_stop decoded stops \<and> cs_visible st' = cs_user st' \<and>
      reason' = (if first_stop stops decoded = None then reason else StopSequence)"
  proof (cases "up_stopped u")
    case True
    then have "st' = st1\<lparr>cs_user := cs_user st1 @ up_text u, cs_matched := True, cs_callback_stopped := False\<rparr>" "reason' = StopSequence"
      using assms(4) open' rest p by (simp_all add: finish_stream_def offer_collect)
    then show ?thesis using push(3,4,6) True f i' by auto
  next
    case False
    then have "st' = st1\<lparr>cs_filter := (cs_filter st1)\<lparr>pending := []\<rparr>, cs_visible := cs_visible st1 @ pending (cs_filter st1),
        cs_user := cs_user st1 @ up_text u @ pending (cs_filter st1)\<rparr>" "reason' = reason"
      using assms(4) open' rest p by (auto simp: finish_stream_def offer_collect filter_finish_def)
    then show ?thesis using push(3,4) False f i' by simp
  qed
  then show "cs_user st' = truncate_at_first_stop decoded stops" "cs_visible st' = cs_user st'"
    "reason' = (if first_stop stops decoded = None then reason else StopSequence)" by blast+
qed

text \<open>The texts of a completion, stage by stage.\<close>

lemma completion_texts:
  assumes "completion cenv tk emit opts stops prompt n out st = (Inr reply :: ('e, 'x) chat_engine_error + _, st1)"
  obtains decoded reason raw where "cs_decode_error st = None"
    "tk_decode (ch_lib cenv) tk (token_ids out) True = Inr decoded"
    "finish_stream emit decoded (stopped_by out) st = (Inr reason :: ('e, 'x) chat_engine_error + _, st1)"
    "tk_decode (ch_lib cenv) tk (token_ids out) False = Inr raw" "cc_raw reply = truncate_at_first_stop raw stops"
    "token_ids (cc_generation reply) = token_ids out" "stopped_by (cc_generation reply) = reason"
    "cc_content reply = (if cc_structured_output_error reply = None then ao_content (cc_assistant reply) else cs_visible st1)"
proof -
  obtain decoded where d: "cs_decode_error st = None" "tk_decode (ch_lib cenv) tk (token_ids out) True = Inr decoded"
    using assms by (auto simp: completion_def split: option.splits sum.splits)
  obtain reason st2 where f: "finish_stream emit decoded (stopped_by out) st = (Inr reason :: ('e, 'x) chat_engine_error + _, st2)"
    using assms d by (cases "finish_stream emit decoded (stopped_by out) st :: (('e, 'x) chat_engine_error + _) \<times> _")
      (auto simp: completion_def split: sum.splits)
  show thesis
    using assms d f
    by (auto simp: completion_def Let_def plain_output_def split: sum.splits prod.splits intro: that)
qed

text \<open>The end of the stream of a whole generation.\<close>

lemma generated_text:
  assumes "crate_strings lib" "\<forall>q \<in> set stops. begins_char q" "\<forall>q \<in> set stops. q \<noteq> []"
    and "generate_stream grant sampler cancelled (stream_token lib tk collect) M c toks s0 (stream_start stops []) t =
      (Inr out, s', st, t')"
    and no_err: "cs_decode_error st = None" and decoded: "tk_decode lib tk (token_ids out) True = Inr decoded"
    and fin: "finish_stream collect decoded (stopped_by out) st = (Inr reason :: ('e, 'x) chat_engine_error + _, st1)"
  shows "\<exists>received. cs_user st1 = truncate_at_first_stop received stops \<and> cs_visible st1 = cs_user st1 \<and>
      (reason = StopSequence \<longleftrightarrow> first_stop stops received \<noteq> None) \<and>
      (tk_decode lib tk (token_ids out) True = Inr received \<or>
       first_stop stops received \<noteq> None \<and> map_option fst (incremental_decode lib tk (token_ids out)) = Some received)"
proof -
  have cb: "stopped_by out \<noteq> StopSequence \<and>
      (if stopped_by out = Callback then stream_ended lib tk stops st (token_ids out) else streaming lib tk stops st (token_ids out))"
    by (rule generate_stream_callback [where P = "streaming lib tk stops" and Q = "stream_ended lib tk stops",
          OF _ _ stream_start_streaming [OF assms(3)] assms(4)])
       (use stream_token_streaming [OF assms(1,2)] in simp_all)
  show ?thesis
  proof (cases "stopped_by out = Callback")
    case True
    then have e: "stream_ended lib tk stops st (token_ids out)" using cb by simp
    then have "st1 = st" "reason = StopSequence" using fin no_err by (auto simp: finish_stream_def stream_ended_def)
    then show ?thesis using e no_err by (intro exI [of _ "cs_incremental st"]) (simp add: stream_ended_def)
  next
    case False
    then have s: "streaming lib tk stops st (token_ids out)" using cb by simp
    have "case tz_decode lib (tk_inner tk) (token_ids out) True of Inr x \<Rightarrow> utf8_valid (bytes_of_str x) | Inl _ \<Rightarrow> True"
      using assms(1) unfolding crate_strings_def by blast
    then have "utf8_valid (bytes_of_str decoded)" using decoded by (auto simp: tk_decode_def)
    from finish_collect [OF assms(2) this s fin] show ?thesis using decoded cb by (intro exI [of _ decoded]) auto
  qed
qed

text \<open> C5.
  What the user of a completion is shown. With any model, any tokenizer whose strings are valid UTF-8 and a callback that
  does not break, the chunks put together are a decoded text cut before its first stop sequence: the text of all
  generated tokens, or the text of the incremental decoder when that one completed a stop sequence. The reported
  reason is a stop sequence exactly when the text holds one, the raw text is cut in the same way, and when the
  structured output does not parse the answer is exactly what was shown.
\<close>

theorem chat_text_exact:
  assumes "crate_strings (ch_lib cenv)" "\<forall>q \<in> set stops. utf8_valid (bytes_of_str q)"
    and "complete_with_stops_in_session cenv cancelled collect M tk messages opts c stops s [] t =
      (Inr reply :: ('e, 'x) chat_engine_error + _, s', shown_text, t')"
  shows "\<exists>received. shown_text = truncate_at_first_stop received stops \<and>
      (stopped_by (cc_generation reply) = StopSequence \<longleftrightarrow> first_stop stops received \<noteq> None) \<and>
      (tk_decode (ch_lib cenv) tk (token_ids (cc_generation reply)) True = Inr received \<or>
       first_stop stops received \<noteq> None \<and>
       map_option fst (incremental_decode (ch_lib cenv) tk (token_ids (cc_generation reply))) = Some received) \<and>
      (\<exists>raw. tk_decode (ch_lib cenv) tk (token_ids (cc_generation reply)) False = Inr raw \<and>
         cc_raw reply = truncate_at_first_stop raw stops) \<and>
      cc_content reply = (if cc_structured_output_error reply = None then ao_content (cc_assistant reply) else shown_text)"
proof -
  have begins: "\<forall>q \<in> set stops. begins_char q" using assms(2) utf8_begins_char by blast
  obtain prompt s0 out st st1 where run: "\<forall>q \<in> set stops. q \<noteq> []"
    "format_and_encode (ch_lib cenv) (ch_json cenv) tk messages opts = Inr prompt" "s0 = session_for_prompt M prompt s"
    "generate_stream (ch_grant cenv) (ch_sampler cenv) cancelled (stream_token (ch_lib cenv) tk collect) M
      (insert_stop_token (st_eos (tk_special_ids tk)) c) (drop (length (gs_history s0)) prompt) s0 (stream_start stops []) t =
      (Inr out, s', st, t')"
    "completion cenv tk collect opts stops prompt (length (gs_history s0)) out st = (Inr reply :: ('e, 'x) chat_engine_error + _, st1)"
    "shown_text = cs_user st1"
    by (rule turn_stages [OF assms(3)])
  show ?thesis
  proof (rule completion_texts [OF run(5)])
    fix decoded reason raw
    assume texts: "cs_decode_error st = None" "tk_decode (ch_lib cenv) tk (token_ids out) True = Inr decoded"
      "finish_stream collect decoded (stopped_by out) st = (Inr reason :: ('e, 'x) chat_engine_error + _, st1)"
      and fields: "tk_decode (ch_lib cenv) tk (token_ids out) False = Inr raw" "cc_raw reply = truncate_at_first_stop raw stops"
      "token_ids (cc_generation reply) = token_ids out" "stopped_by (cc_generation reply) = reason"
      "cc_content reply = (if cc_structured_output_error reply = None then ao_content (cc_assistant reply) else cs_visible st1)"
    from generated_text [OF assms(1) begins run(1,4) texts] show ?thesis unfolding fields run(6) using fields(1) by auto
  qed
qed

text \<open>The turn of one token again, with a crate that decodes every list of tokens as the same text.\<close>

definition text_env :: "(unit, unit, nat, unit) chat_env" where
  "text_env = turn_env\<lparr>ch_lib := turn_crate\<lparr>tz_decode := (\<lambda>_ _ _. Inr ''hi stop x'')\<rparr>\<rparr>"

theorem chat_text_exact_witness:
  "\<exists>reply s' t'. complete_with_stops_in_session text_env (\<lambda>_. False) collect
      (hy3_causal zero_env zero_model zero_expert_cache :: (unit, unit) hy3_interface) turn_tokenizer [] template_default
      no_new_tokens [''stop''] zero_generation [] 0 = (Inr reply :: (unit, _) chat_engine_error + _, s', ''hi '', t') \<and>
    stopped_by (cc_generation reply) = StopSequence \<and> cc_raw reply = ''hi ''"
proof -
  let ?M = "hy3_causal zero_env zero_model zero_expert_cache :: (unit, unit) hy3_interface"
  let ?start = "stream_start [''stop''] [] :: string chat_stream"
  have strings: "crate_strings (ch_lib text_env)"
    by (simp add: crate_strings_def text_env_def turn_env_def turn_crate_def) code_simp
  have stop: "utf8_valid (bytes_of_str ''stop'')" by code_simp
  have cut: "truncate_at_first_stop ''hi stop x'' [''stop''] = ''hi ''" "first_stop [''stop''] ''hi stop x'' \<noteq> None"
    "first_stop [''stop''] [] = None" by code_simp+
  obtain s1 t1 where g: "generate_stream (\<lambda>_. True) zero_sampler (\<lambda>_. False) (stream_token (ch_lib text_env) turn_tokenizer collect)
      ?M (insert_stop_token 1 no_new_tokens) [0] zero_generation ?start 0 = (Inr (outcome [] MaxTokens 1), s1, ?start, t1)"
    using turn_generates [of "stream_token (ch_lib text_env) turn_tokenizer collect" ?start] by blast
  have dec: "tk_decode (ch_lib text_env) turn_tokenizer toks skip = Inr ''hi stop x''" for toks skip
    by (simp add: tk_decode_def text_env_def)
  have "\<exists>reason st. finish_stream collect ''hi stop x'' MaxTokens ?start = (Inr reason :: (unit, (unit, unit) scalar_error) chat_engine_error + _, st)"
    by (simp add: finish_stream_def stream_start_def strip_prefix_def Let_def split: prod.splits)
  then have "\<exists>reply st. completion text_env turn_tokenizer collect template_default [''stop''] [0] 0
      (outcome [] MaxTokens 1) ?start = (Inr reply :: (unit, (unit, unit) scalar_error) chat_engine_error + _, st)"
    by (auto simp: completion_def dec stream_start_def outcome_def Let_def split: prod.splits sum.splits)
  then obtain reply st where w: "completion text_env turn_tokenizer collect template_default [''stop''] [0] 0
      (outcome [] MaxTokens 1) ?start = (Inr reply :: (unit, (unit, unit) scalar_error) chat_engine_error + _, st)"
    by blast
  have "session_for_prompt ?M [0] zero_generation = zero_generation" "gs_history zero_generation = []"
    by (simp_all add: session_for_prompt_def zero_generation_def)
  moreover have "format_and_encode (ch_lib text_env) (ch_json text_env) turn_tokenizer [] template_default = Inr [0]"
    using turn_prompt by (simp add: text_env_def turn_env_def format_and_encode_def tk_encode_def)
  moreover have "ch_grant text_env = (\<lambda>_. True)" "ch_sampler text_env = zero_sampler" by (simp_all add: text_env_def turn_env_def)
  ultimately have run: "complete_with_stops_in_session text_env (\<lambda>_. False) collect ?M turn_tokenizer [] template_default
      no_new_tokens [''stop''] zero_generation [] 0 =
      (Inr reply :: (unit, (unit, unit) scalar_error) chat_engine_error + _, s1, cs_user st, t1)"
    using g w by (simp add: complete_with_stops_in_session_def turn_tokenizer_def)
  have "token_ids (cc_generation reply) = []" using completion_Inr(3) [OF w] by (simp add: outcome_def)
  then have "cs_user st = ''hi ''" "stopped_by (cc_generation reply) = StopSequence" "cc_raw reply = ''hi ''"
    using chat_text_exact [OF strings _ run] stop cut dec by (auto simp: incremental_decode_def)
  then show ?thesis using run by metis
qed

end
