(* ===== verification/Chat_Session.thy ===== *)
theory Chat_Session
  imports Chat_Turn
begin

text \<open>
  Saved chat sessions: a session written by \<^verbatim>\<open>export_session\<close> is read back by \<^verbatim>\<open>restore_session\<close> as it was, and whatever
  bytes are accepted, they are the encoding of the session that is restored, a well-formed one of this model.
\<close>

section \<open>Reading what was written\<close>

lemma sc_at: "Kv_Snapshot.at bytes offset (x @ rest) \<Longrightarrow> length x = n \<Longrightarrow>
    sc_take bytes offset n = Inr (x, offset + n) \<and> Kv_Snapshot.at bytes (offset + n) rest"
  using cur_take_prefix [of offset bytes x rest]
  by (auto simp: Kv_Snapshot.at_def sc_take_def cur_take_def rbind_Inr slice_def checked_add_def)

lemma sc_at_u32:
  assumes "Kv_Snapshot.at bytes offset (u32_to_le v @ rest)" "v < 4294967296"
  shows "sc_u32 bytes offset = Inr (v, offset + 4) \<and> Kv_Snapshot.at bytes (offset + 4) rest"
  by (simp add: sc_u32_def sc_at [OF assms(1)] u32_codec.dec_enc assms(2))

lemma sc_at_usize:
  assumes "Kv_Snapshot.at bytes offset (u64_to_le v @ rest)" "v < u64_limit"
  shows "sc_usize bytes offset = Inr (v, offset + 8) \<and> Kv_Snapshot.at bytes (offset + 8) rest"
  by (simp add: sc_usize_def sc_at [OF assms(1)] u64_codec.dec_enc assms(2))

lemma read_tokens_ok:
  "Kv_Snapshot.at bytes offset (concat (map u32_to_le toks) @ rest) \<Longrightarrow> \<forall>t \<in> set toks. t < vocabulary \<Longrightarrow> vocabulary \<le> 4294967296 \<Longrightarrow>
    read_tokens bytes vocabulary (length toks) offset = Inr (toks, offset + 4 * length toks) \<and>
    Kv_Snapshot.at bytes (offset + 4 * length toks) rest"
proof (induction toks arbitrary: offset)
  case (Cons t toks)
  then have "Kv_Snapshot.at bytes offset (u32_to_le t @ concat (map u32_to_le toks) @ rest)" "t < 4294967296" by simp_all
  note read = sc_at_u32 [OF this]
  show ?case using Cons.IH [of "offset + 4"] Cons.prems(2,3) read [THEN conjunct2] by (simp add: read [THEN conjunct1] add.assoc)
qed simp

lemma read_logits_ok:
  "Kv_Snapshot.at bytes offset (concat (map f32_to_le xs) @ rest) \<Longrightarrow> \<forall>x \<in> set xs. f32_is_finite x \<Longrightarrow>
    read_logits bytes index (length xs) offset = Inr (xs, offset + 4 * length xs) \<and> Kv_Snapshot.at bytes (offset + 4 * length xs) rest"
proof (induction xs arbitrary: offset index)
  case (Cons x xs)
  have u: "unat x < 4294967296" using unsigned_less [of x] by simp
  have "Kv_Snapshot.at bytes offset (u32_to_le (unat x) @ concat (map f32_to_le xs) @ rest)"
    using Cons.prems(1) by (simp only: list.map concat.simps append_assoc f32_to_le_def [of x])
  note read = sc_at_u32 [OF this u]
  show ?case using Cons.IH [of "offset + 4" "Suc index"] Cons.prems(2) read [THEN conjunct2]
    by (simp add: read [THEN conjunct1] Let_def add.assoc)
qed simp

lemma read_session_payload:
  assumes p: "payload = session_payload (hm_fingerprint hm) history logits has_logits kv" "length payload < u64_limit"
    and f: "length (hm_fingerprint hm) = 32" "\<forall>t \<in> set history. t < hc_vocabulary_size (hm_config hm)"
      "hc_vocabulary_size (hm_config hm) \<le> 4294967296" "\<forall>x \<in> set logits. f32_is_finite x"
    and l: "length history \<le> hm_context_capacity hm" "length logits = hc_vocabulary_size (hm_config hm)"
      "has_logits \<longleftrightarrow> history \<noteq> []"
  shows "read_session (\<lambda>_. True) hm payload = (Inr (history, logits, has_logits, kv) :: ('e, 'x) chat_engine_error + _)"
proof -
  let ?flag = "[if has_logits then 1 else 0] :: byte list"
  have lens: "length history < u64_limit" "length logits < u64_limit" "length kv < u64_limit"
  proof -
    have "length (concat (map u32_to_le history)) = 4 * length history" "length (concat (map f32_to_le logits)) = 4 * length logits"
      by (induction history; simp) (induction logits; simp add: f32_to_le_def)
    then show "length history < u64_limit" "length logits < u64_limit" "length kv < u64_limit"
      using p(2) unfolding p(1) session_payload_def by simp_all
  qed
  have m: "length CHAT_SESSION_MAGIC = 8" by (simp add: CHAT_SESSION_MAGIC_def bytes_of_str_def)
  have "Kv_Snapshot.at payload 0 (CHAT_SESSION_MAGIC @ u32_to_le CHAT_SESSION_VERSION @ hm_fingerprint hm @ u64_to_le (length history) @
      u64_to_le (length logits) @ u64_to_le (length kv) @ ?flag @ [0, 0, 0] @ concat (map u32_to_le history) @
      concat (map f32_to_le logits) @ kv)"
    using p by (simp add: Kv_Snapshot.at_def session_payload_def)
  from sc_at [OF this m] obtain o1 where o1: "sc_take payload 0 (length CHAT_SESSION_MAGIC) = (Inr (CHAT_SESSION_MAGIC, o1) :: ('e, 'x) chat_engine_error + _)"
    "Kv_Snapshot.at payload o1 (u32_to_le CHAT_SESSION_VERSION @ hm_fingerprint hm @ u64_to_le (length history) @
      u64_to_le (length logits) @ u64_to_le (length kv) @ ?flag @ [0, 0, 0] @ concat (map u32_to_le history) @
      concat (map f32_to_le logits) @ kv)" unfolding m by blast
  from sc_at_u32 [OF o1(2)] obtain o2 where o2: "sc_u32 payload o1 = (Inr (CHAT_SESSION_VERSION, o2) :: ('e, 'x) chat_engine_error + _)"
    "Kv_Snapshot.at payload o2 (hm_fingerprint hm @ u64_to_le (length history) @
      u64_to_le (length logits) @ u64_to_le (length kv) @ ?flag @ [0, 0, 0] @ concat (map u32_to_le history) @
      concat (map f32_to_le logits) @ kv)" by (auto simp: CHAT_SESSION_VERSION_def)
  from sc_at [OF o2(2) f(1)] obtain o3 where o3: "sc_take payload o2 32 = (Inr (hm_fingerprint hm, o3) :: ('e, 'x) chat_engine_error + _)"
    "Kv_Snapshot.at payload o3 (u64_to_le (length history) @ u64_to_le (length logits) @ u64_to_le (length kv) @ ?flag @ [0, 0, 0] @
      concat (map u32_to_le history) @ concat (map f32_to_le logits) @ kv)" by blast
  from sc_at_usize [OF o3(2) lens(1)] obtain o4 where o4: "sc_usize payload o3 = (Inr (length history, o4) :: ('e, 'x) chat_engine_error + _)"
    "Kv_Snapshot.at payload o4 (u64_to_le (length logits) @ u64_to_le (length kv) @ ?flag @ [0, 0, 0] @
      concat (map u32_to_le history) @ concat (map f32_to_le logits) @ kv)" by blast
  from sc_at_usize [OF o4(2) lens(2)] obtain o5 where o5: "sc_usize payload o4 = (Inr (length logits, o5) :: ('e, 'x) chat_engine_error + _)"
    "Kv_Snapshot.at payload o5 (u64_to_le (length kv) @ ?flag @ [0, 0, 0] @
      concat (map u32_to_le history) @ concat (map f32_to_le logits) @ kv)" by blast
  from sc_at_usize [OF o5(2) lens(3)] obtain o6 where o6: "sc_usize payload o5 = (Inr (length kv, o6) :: ('e, 'x) chat_engine_error + _)"
    "Kv_Snapshot.at payload o6 (?flag @ [0, 0, 0] @ concat (map u32_to_le history) @ concat (map f32_to_le logits) @ kv)" by blast
  have one: "length ?flag = 1" by simp
  from sc_at [OF o6(2) one] obtain o7 where o7: "sc_take payload o6 1 = (Inr (?flag, o7) :: ('e, 'x) chat_engine_error + _)"
    "Kv_Snapshot.at payload o7 ([0, 0, 0] @ concat (map u32_to_le history) @ concat (map f32_to_le logits) @ kv)" by blast
  have three: "length [0, 0, 0 :: byte] = 3" by simp
  from sc_at [OF o7(2) three] obtain o8 where o8: "sc_take payload o7 3 = (Inr ([0, 0, 0], o8) :: ('e, 'x) chat_engine_error + _)"
    "Kv_Snapshot.at payload o8 (concat (map u32_to_le history) @ concat (map f32_to_le logits) @ kv)" by blast
  from read_tokens_ok [OF o8(2) f(2,3)] obtain o9 where
    o9: "read_tokens payload (hc_vocabulary_size (hm_config hm)) (length history) o8 = (Inr (history, o9) :: ('e, 'x) chat_engine_error + _)"
    "Kv_Snapshot.at payload o9 (concat (map f32_to_le logits) @ kv)" by blast
  from read_logits_ok [OF o9(2) f(4), of 0] obtain o10 where
    o10: "read_logits payload 0 (length logits) o9 = (Inr (logits, o10) :: ('e, 'x) chat_engine_error + _)" "Kv_Snapshot.at payload o10 kv" by blast
  have "Kv_Snapshot.at payload o10 (kv @ [])" using o10(2) by simp
  from sc_at [OF this refl] have o11: "sc_take payload o10 (length kv) = (Inr (kv, o10 + length kv) :: ('e, 'x) chat_engine_error + _)"
    "Kv_Snapshot.at payload (o10 + length kv) []" by blast+
  have "sc_u8 payload o6 = (Inr (if has_logits then 1 else 0, o7) :: ('e, 'x) chat_engine_error + _)"
    using o7(1) by (simp add: sc_u8_def)
  then have h: "read_session_header (hm_fingerprint hm) payload =
      (Inr (\<lparr>sh_history_len = length history, sh_logits_len = length logits, sh_kv_len = length kv, sh_has_logits = has_logits\<rparr>, o8)
        :: ('e, 'x) chat_engine_error + _)"
    using o1(1) o2(1) o3(1) o4(1) o5(1) o6(1) o8(1) by (simp add: read_session_header_def)
  have r: "sc_remaining payload (o10 + length kv) = 0" using o11(2) by (simp add: Kv_Snapshot.at_def sc_remaining_def)
  show ?thesis
    using h o9(1) o10(1) o11(1) r l by (simp add: read_session_def check_session_header_def)
qed

section \<open>What is written\<close>

lemma finite_logits_Inr:
  assumes "finite_logits logits = (Inr u :: ('e, 'x) chat_engine_error + unit)" "x \<in> set logits"
  shows "f32_is_finite x"
proof -
  let ?g = "\<lambda>iv. check (f32_is_finite (snd iv)) (NonFiniteSessionLogit (fst iv) (snd iv)) :: ('e, 'x) chat_engine_error + unit"
  have all: "map_res ?g (enumerate n xs) = Inr ys \<Longrightarrow> \<forall>x \<in> set xs. f32_is_finite x" for n xs ys
    by (induction xs arbitrary: n ys) (auto simp: rbind_Inr)
  obtain ys where "map_res ?g (enumerate 0 logits) = Inr ys" using assms(1) by (auto simp: finite_logits_def rbind_Inr)
  from all [OF this] show ?thesis using assms(2) by blast
qed

lemma length_session_payload:
  "length fingerprint = 32 \<Longrightarrow>
    length (session_payload fingerprint history logits b kv) = 72 + 4 * length history + 4 * length logits + length kv"
proof -
  have "length (concat (map u32_to_le history)) = 4 * length history" "length (concat (map f32_to_le logits)) = 4 * length logits"
    by (induction history; simp) (induction logits; simp add: f32_to_le_def)
  then show "length fingerprint = 32 \<Longrightarrow> ?thesis"
    by (simp add: session_payload_def CHAT_SESSION_MAGIC_def bytes_of_str_def)
qed

lemma session_bytes_Some: "session_bytes h l k = Some n \<Longrightarrow> n = 104 + 4 * h + 4 * l + k"
  by (auto simp: session_bytes_def CHAT_SESSION_MAGIC_def CHAT_SESSION_DIGEST_BYTES_def bytes_of_str_def Option.bind_eq_Some_conv)

lemma export_session_Inr:
  assumes "export_session sha grant env hm s maximum = (Inr bytes :: ('e, ('e, 'j) scalar_error) chat_engine_error + _)"
  obtains kv size where
    "export_snapshot sha (rn_grant env) (ss_cache (fst (gs_model s))) (hm_fingerprint hm) maximum = Inr kv"
    "session_bytes (length (gs_history s)) (length (gs_logits s)) (length kv) = Some size" "size \<le> maximum" "maximum \<noteq> 0"
    "bytes = session_payload (hm_fingerprint hm) (gs_history s) (gs_logits s) (gs_has_logits s) kv @
      sha (session_payload (hm_fingerprint hm) (gs_history s) (gs_logits s) (gs_has_logits s) kv)"
    "gs_healthy s" "length (gs_logits s) = hc_vocabulary_size (hm_config hm)" "\<forall>x \<in> set (gs_logits s). f32_is_finite x"
    "length (gs_history s) = ss_position (fst (gs_model s))"
proof -
  from assms obtain kv size where
    kv: "export_kv_snapshot sha env hm (fst (gs_model s)) maximum = (Inr kv :: ('e, 'j) scalar_error + _)"
    and rest: "session_bytes (length (gs_history s)) (length (gs_logits s)) (length kv) = Some size" "size \<le> maximum" "maximum \<noteq> 0"
    "bytes = session_payload (hm_fingerprint hm) (gs_history s) (gs_logits s) (gs_has_logits s) kv @
      sha (session_payload (hm_fingerprint hm) (gs_history s) (gs_logits s) (gs_has_logits s) kv)"
    "gs_healthy s" "length (gs_logits s) = hc_vocabulary_size (hm_config hm)"
    "length (gs_history s) = ss_position (fst (gs_model s))"
    and fin: "finite_logits (gs_logits s) = (Inr () :: ('e, ('e, 'j) scalar_error) chat_engine_error + unit)"
    unfolding export_session_def Let_def by (auto simp: rbind_Inr split: if_splits)
  have "export_snapshot sha (rn_grant env) (ss_cache (fst (gs_model s))) (hm_fingerprint hm) maximum = Inr kv"
    using kv by (auto simp: export_kv_snapshot_def rbind_Inr)
  with rest finite_logits_Inr [OF fin] show thesis by (intro that [of kv size]) auto
qed

section \<open>Saving and restoring\<close>

lemma chat_new_session_Inr:
  assumes "new_session env hm = (Inr ss0 :: ('e, 'j) scalar_error + session)"
  shows "chat_new_session (\<lambda>_. True) (hy3_causal env hm cs0 :: ('e, 'j) hy3_interface) =
    (Inr \<lparr>gs_model = (ss0, cs0), gs_history = [], gs_logits = replicate (hc_vocabulary_size (hm_config hm)) f32_zero,
      gs_has_logits = False, gs_healthy = True\<rparr> :: ('f, _) chat_engine_error + _)"
  using assms by (simp add: chat_new_session_def generator_new_session_def hy3_causal_def)

text \<open>A restored session satisfies the invariant when its cache has as many rows as its history has tokens.\<close>

lemma restored_inv:
  assumes "session_ok hm m" "ss_position (fst m) = length history" "length logits = hc_vocabulary_size (hm_config hm)"
    and "\<forall>t \<in> set history. t < hc_vocabulary_size (hm_config hm)" "has_logits \<longleftrightarrow> history \<noteq> []"
  shows "hy3_inv env hm cs0 j (restore_metadata (s\<lparr>gs_model := m\<rparr>) history logits has_logits)"
  using assms by (simp add: hy3_inv_def generation_inv_def hy3_causal_def restore_metadata_def runnable_def)

lemma session_comes_back:
  fixes hm :: "'e hy3_model"
  assumes "model_ready hm cs0" "hy3_inv env hm cs0 TYPE('j) s" "rn_grant env = (\<lambda>_ _. True)"
    and "new_session env hm = (Inr ss0 :: ('e, 'j) scalar_error + session)"
    and "config_of (ss_cache ss0) = config_of (ss_cache (fst (gs_model s)))"
    and "kv_finite (ss_cache (fst (gs_model s)))" "storage_ok (ss_cache (fst (gs_model s)))"
    and "hm_context_capacity hm + hm_kv_page_tokens hm < u64_limit"
    and "page_tokens (ss_cache (fst (gs_model s))) = hm_kv_page_tokens hm"
    and "\<forall>x. length (sha x) = 32" "length (hm_fingerprint hm) = 32" "hc_vocabulary_size (hm_config hm) \<le> 4294967296"
    and "export_session sha grant env hm s maximum = (Inr bytes :: ('e, ('e, 'j) scalar_error) chat_engine_error + _)"
      "maximum < u64_limit"
  shows "\<exists>s2. restore_session sha (\<lambda>_. True) env hm cs0 bytes maximum =
      (Inr s2 :: ('e, ('e, 'j) scalar_error) chat_engine_error + _) \<and>
    gs_history s2 = gs_history s \<and> gs_logits s2 = gs_logits s \<and> gs_has_logits s2 = gs_has_logits s \<and> gs_healthy s2 \<and>
    stored_rows hm (fst (gs_model s2)) = stored_rows hm (fst (gs_model s)) \<and> hy3_inv env hm cs0 TYPE('j) s2"
proof -
  let ?c = "ss_cache (fst (gs_model s))" and ?V = "hc_vocabulary_size (hm_config hm)"
  let ?p = "session_payload (hm_fingerprint hm) (gs_history s) (gs_logits s) (gs_has_logits s)"
  note ok = hy3_inv_session(1) [OF assms(1,2)]
  then have c: "kv_inv ?c" "layer_count ?c = length (hm_layers hm)" "token_capacity ?c = hm_context_capacity hm"
    "\<forall>l < length (hm_layers hm). length (kv_abs ?c l) = ss_position (fst (gs_model s))"
    by (simp_all add: session_ok_def Let_def del: length_kv_abs)
  from assms(2) have inv: "\<forall>t \<in> set (gs_history s). t < ?V" "gs_has_logits s \<longleftrightarrow> gs_healthy s \<and> gs_history s \<noteq> []"
    by (simp_all add: hy3_inv_def generation_inv_def hy3_causal_def)
  obtain kv size where kv: "export_snapshot sha (rn_grant env) ?c (hm_fingerprint hm) maximum = Inr kv"
    and size: "session_bytes (length (gs_history s)) (length (gs_logits s)) (length kv) = Some size" "size \<le> maximum" "maximum \<noteq> 0"
    and bytes: "bytes = ?p kv @ sha (?p kv)" and h: "gs_healthy s" "length (gs_logits s) = ?V"
      "\<forall>x \<in> set (gs_logits s). f32_is_finite x" "length (gs_history s) = ss_position (fst (gs_model s))"
    by (rule export_session_Inr [OF assms(13)])
  have len: "length (?p kv) + 32 = size"
    using length_session_payload [OF assms(11)] session_bytes_Some [OF size(1)] by simp
  have layers: "hm_layers hm \<noteq> []" using assms(4) by (auto simp: new_session_def)
  have ss0: "session_ok hm (ss0, cs0)" "kv_inv (ss_cache ss0)"
    using new_session_ok [OF assms(4), of cs0] assms(1) by (simp_all add: model_ready_def session_ok_def Let_def)
  have room: "ss_position (fst (gs_model s)) \<le> hm_context_capacity hm"
    using kv_inv_length [OF c(1), of 0] c layers by auto
  have pages: "token_capacity ?c + (page_tokens ?c - 1) < u64_limit" using assms(8,9) c(3) by linarith
  have uniform: "True \<longrightarrow> (\<forall>i < layer_count ?c. \<forall>j < layer_count ?c. length (kv_abs ?c i) = length (kv_abs ?c j))"
    using c(2,4) by (simp del: length_kv_abs)
  from restore_parse_complete [OF c(1) assms(6,7) pages ss0(2) assms(5,10) kv assms(14) uniform]
  obtain e where e: "restore_parse sha (\<lambda>_ _. True) (ss_cache ss0) (hm_fingerprint hm) kv maximum True = Inr e"
    "\<forall>l < layer_count ?c. kv_abs e l = kv_abs ?c l" by blast
  obtain r :: "('e, 'j) scalar_error + unit" and m where m: "restore_kv_snapshot sha env hm (ss0, cs0) kv maximum = (r, m)"
    by (cases "restore_kv_snapshot sha env hm (ss0, cs0) kv maximum :: (('e, 'j) scalar_error + unit) \<times> _") blast
  from restore_kv_snapshot_runs [OF ss0(1) layers m] e assms(3)
  have r: "is_ok r" "session_ok hm m" "ss_cache (fst m) = e"
    by (cases "is_ok r"; simp)+
  have rows: "stored_rows hm (fst m) = stored_rows hm (fst (gs_model s))"
    using r(3) e(2) c(2) by (simp add: stored_rows_def)
  have pos: "ss_position (fst m) = length (gs_history s)"
  proof -
    have "stored_rows hm (fst m) ! 0 = kv_abs (ss_cache (fst m)) 0" "stored_rows hm (fst (gs_model s)) ! 0 = kv_abs ?c 0"
      using layers by (simp_all add: stored_rows_def)
    then have "length (kv_abs (ss_cache (fst m)) 0) = length (kv_abs ?c 0)" using rows by metis
    moreover have "length (kv_abs (ss_cache (fst m)) 0) = ss_position (fst m)"
      using r(2) layers by (simp add: session_ok_def Let_def del: length_kv_abs)
    ultimately show ?thesis using c(4) layers h(4) by (metis length_greater_0_conv)
  qed
  have read: "read_session (\<lambda>_. True) hm (?p kv) = (Inr (gs_history s, gs_logits s, gs_has_logits s, kv) :: ('e, ('e, 'j) scalar_error) chat_engine_error + _)"
    using read_session_payload [OF refl _ assms(11) inv(1) assms(12) h(3) _ h(2), of "gs_has_logits s" kv]
      len size(2) assms(14) room h inv(2) by simp
  define s2 where "s2 = restore_metadata (\<lparr>gs_model = m, gs_history = [], gs_logits = replicate ?V f32_zero, gs_has_logits = False, gs_healthy = True\<rparr>)
    (gs_history s) (gs_logits s) (gs_has_logits s)"
  have "r = Inr ()" using r(1) by (cases r) (simp_all add: is_ok_def)
  then have "restore_session sha (\<lambda>_. True) env hm cs0 bytes maximum = (Inr s2 :: ('e, ('e, 'j) scalar_error) chat_engine_error + _)"
    using read len size(2,3) bytes assms(10) chat_new_session_Inr [OF assms(4), of cs0, where 'f = 'e] m pos
    by (simp add: restore_session_def Let_def CHAT_SESSION_DIGEST_BYTES_def s2_def)
  moreover have "hy3_inv env hm cs0 TYPE('j) s2"
    using restored_inv [OF r(2) pos h(2) inv(1), of "gs_has_logits s" env cs0 "TYPE('j)"
        "\<lparr>gs_model = m, gs_history = [], gs_logits = replicate ?V f32_zero, gs_has_logits = False, gs_healthy = True\<rparr>"] inv(2) h(1)
    by (simp add: s2_def)
  ultimately show ?thesis using rows by (simp add: s2_def restore_metadata_def)
qed

text \<open> C7.
  A saved session comes back. The bytes written for a healthy session are accepted by the same model, up to the same
  limit, and give a session with the same history, the same logits and the same rows in every layer of the
  key/value cache, which satisfies the invariant of sessions, so that generation continues from it (the allocator
  serving every request, SHA-256 and the fingerprint of the model being 32 bytes).
\<close>

theorem chat_session_roundtrip:
  fixes hm :: "'e hy3_model"
  assumes "model_ready hm cs0" "hy3_inv env hm cs0 TYPE('j) s" "rn_grant env = (\<lambda>_ _. True)"
    and "new_session env hm = (Inr ss0 :: ('e, 'j) scalar_error + session)"
    and "config_of (ss_cache ss0) = config_of (ss_cache (fst (gs_model s)))"
    and "kv_finite (ss_cache (fst (gs_model s)))" "storage_ok (ss_cache (fst (gs_model s)))"
    and "hm_context_capacity hm + hm_kv_page_tokens hm < u64_limit"
    and "page_tokens (ss_cache (fst (gs_model s))) = hm_kv_page_tokens hm"
    and "\<forall>x. length (sha x) = 32" "length (hm_fingerprint hm) = 32" "hc_vocabulary_size (hm_config hm) \<le> 4294967296"
    and "export_session sha grant env hm s maximum = (Inr bytes :: ('e, ('e, 'j) scalar_error) chat_engine_error + _)"
      "maximum < u64_limit"
  shows "\<exists>s2. restore_session sha (\<lambda>_. True) env hm cs0 bytes maximum =
      (Inr s2 :: ('e, ('e, 'j) scalar_error) chat_engine_error + _) \<and>
    gs_history s2 = gs_history s \<and> gs_logits s2 = gs_logits s \<and> gs_has_logits s2 = gs_has_logits s \<and> gs_healthy s2 \<and>
    stored_rows hm (fst (gs_model s2)) = stored_rows hm (fst (gs_model s)) \<and> hy3_inv env hm cs0 TYPE('j) s2"
  by (rule session_comes_back [OF assms])

section \<open>What is accepted\<close>

text \<open>Each reader hands out the bytes between the two positions of the cursor.\<close>

lemma sc_take_span: "sc_take bytes s n = Inr (x, e) \<Longrightarrow> span bytes s x e \<and> length x = n"
  by (auto simp: sc_take_def rbind_Inr span_def slice_def)

lemma sc_u8_span:
  assumes "sc_u8 bytes s = (Inr (v, e) :: ('e, 'x) chat_engine_error + _)"
  shows "span bytes s [word_of_nat v] e \<and> v < 256"
proof -
  obtain x where x: "sc_take bytes s 1 = (Inr (x, e) :: ('e, 'x) chat_engine_error + _)" "v = of_le_bytes x"
    using assms by (auto simp: sc_u8_def rbind_Inr)
  then obtain w where w: "x = [w]" using sc_take_span [OF x(1)] by (auto simp: length_Suc_conv)
  have "unat w < 256" using unsigned_less [of w] by simp
  then show ?thesis using sc_take_span [OF x(1)] by (simp add: x(2) w)
qed

lemma sc_u32_span: "sc_u32 bytes s = Inr (v, e) \<Longrightarrow> span bytes s (u32_to_le v) e \<and> v < 4294967296"
  by (auto simp: sc_u32_def rbind_Inr u32_codec.enc_dec u32_codec.dec_valid dest!: sc_take_span)

lemma sc_usize_span: "sc_usize bytes s = Inr (v, e) \<Longrightarrow> span bytes s (u64_to_le v) e"
  by (auto simp: sc_usize_def rbind_Inr u64_codec.enc_dec dest!: sc_take_span)

lemma read_tokens_span:
  "read_tokens bytes vocabulary n s = (Inr (toks, e) :: ('e, 'x) chat_engine_error + _) \<Longrightarrow> s \<le> length bytes \<Longrightarrow>
    span bytes s (concat (map u32_to_le toks)) e \<and> length toks = n \<and> (\<forall>t \<in> set toks. t < vocabulary)"
proof (induction n arbitrary: s toks)
  case (Suc n)
  obtain t ts m where m: "sc_u32 bytes s = (Inr (t, m) :: ('e, 'x) chat_engine_error + _)"
    "read_tokens bytes vocabulary n m = (Inr (ts, e) :: ('e, 'x) chat_engine_error + _)" "toks = t # ts" "t < vocabulary"
    using Suc.prems(1) by (auto simp: rbind_Inr split: prod.splits)
  have c: "span bytes s (u32_to_le t) m" using sc_u32_span [OF m(1)] by blast
  from Suc.IH [OF m(2) span_end [OF c]] span_append [OF c] show ?case by (simp add: m(3,4))
qed (simp add: span_Nil)

lemma read_logits_span:
  "read_logits bytes index n s = (Inr (xs, e) :: ('e, 'x) chat_engine_error + _) \<Longrightarrow> s \<le> length bytes \<Longrightarrow>
    span bytes s (concat (map f32_to_le xs)) e \<and> length xs = n \<and> (\<forall>x \<in> set xs. f32_is_finite x)"
proof (induction n arbitrary: s xs index)
  case (Suc n)
  obtain v ys m where m: "sc_u32 bytes s = (Inr (v, m) :: ('e, 'x) chat_engine_error + _)"
    "read_logits bytes (Suc index) n m = (Inr (ys, e) :: ('e, 'x) chat_engine_error + _)"
    "xs = word_of_nat v # ys" "f32_is_finite (word_of_nat v)"
    using Suc.prems(1) by (auto simp: rbind_Inr Let_def split: prod.splits)
  have c: "span bytes s (f32_to_le (word_of_nat v)) m"
    using sc_u32_span [OF m(1)] by (simp add: f32_to_le_def unat_word32 del: unsigned_of_nat)
  from Suc.IH [OF m(2) span_end [OF c]] span_append [OF c] show ?case by (simp add: m(3,4))
qed (simp add: span_Nil)

lemma read_session_header_span:
  assumes "read_session_header fingerprint bytes = (Inr (h, e) :: ('e, 'x) chat_engine_error + _)"
  shows "span bytes 0 (CHAT_SESSION_MAGIC @ u32_to_le CHAT_SESSION_VERSION @ fingerprint @ u64_to_le (sh_history_len h) @
    u64_to_le (sh_logits_len h) @ u64_to_le (sh_kv_len h) @ [if sh_has_logits h then 1 else 0] @ [0, 0, 0]) e"
proof -
  obtain a1 a2 a3 a4 a5 a6 a7 flag where
    r: "sc_take bytes 0 (length CHAT_SESSION_MAGIC) = (Inr (CHAT_SESSION_MAGIC, a1) :: ('e, 'x) chat_engine_error + _)"
      "sc_u32 bytes a1 = (Inr (CHAT_SESSION_VERSION, a2) :: ('e, 'x) chat_engine_error + _)"
      "sc_take bytes a2 32 = (Inr (fingerprint, a3) :: ('e, 'x) chat_engine_error + _)"
      "sc_usize bytes a3 = (Inr (sh_history_len h, a4) :: ('e, 'x) chat_engine_error + _)"
      "sc_usize bytes a4 = (Inr (sh_logits_len h, a5) :: ('e, 'x) chat_engine_error + _)"
      "sc_usize bytes a5 = (Inr (sh_kv_len h, a6) :: ('e, 'x) chat_engine_error + _)"
      "sc_u8 bytes a6 = (Inr (flag, a7) :: ('e, 'x) chat_engine_error + _)"
      "flag = (if sh_has_logits h then 1 else 0)"
      "sc_take bytes a7 3 = (Inr ([0, 0, 0], e) :: ('e, 'x) chat_engine_error + _)"
    using assms by (auto simp: read_session_header_def rbind_Inr split: prod.splits if_splits)
  have "span bytes a6 [if sh_has_logits h then 1 else 0] a7"
    using sc_u8_span [OF r(7)] by (cases "sh_has_logits h") (simp_all add: r(8))
  then show ?thesis
    using sc_take_span [OF r(1)] sc_u32_span [OF r(2)] sc_take_span [OF r(3)] sc_usize_span [OF r(4)] sc_usize_span [OF r(5)]
      sc_usize_span [OF r(6)] sc_take_span [OF r(9)]
    by (blast intro: span_append)
qed

lemma read_session_Inr:
  assumes "read_session grant hm bytes = (Inr (history, logits, has_logits, kv) :: ('e, 'x) chat_engine_error + _)"
  shows "bytes = session_payload (hm_fingerprint hm) history logits has_logits kv \<and> length history \<le> hm_context_capacity hm \<and>
    (\<forall>t \<in> set history. t < hc_vocabulary_size (hm_config hm)) \<and> length logits = hc_vocabulary_size (hm_config hm) \<and>
    (\<forall>x \<in> set logits. f32_is_finite x) \<and> (has_logits \<longleftrightarrow> history \<noteq> [])"
proof -
  obtain h o1 o2 o3 o4 where h: "read_session_header (hm_fingerprint hm) bytes = (Inr (h, o1) :: ('e, 'x) chat_engine_error + _)"
    "check_session_header (hm_context_capacity hm) (hc_vocabulary_size (hm_config hm)) h = (Inr () :: ('e, 'x) chat_engine_error + unit)"
    and t: "read_tokens bytes (hc_vocabulary_size (hm_config hm)) (sh_history_len h) o1 = (Inr (history, o2) :: ('e, 'x) chat_engine_error + _)"
    and l: "read_logits bytes 0 (sh_logits_len h) o2 = (Inr (logits, o3) :: ('e, 'x) chat_engine_error + _)"
    and k: "sc_take bytes o3 (sh_kv_len h) = (Inr (kv, o4) :: ('e, 'x) chat_engine_error + _)" "sc_remaining bytes o4 = 0"
    and f: "has_logits = sh_has_logits h"
    using assms by (auto simp: read_session_def rbind_Inr split: prod.splits)
  from h(2) have c: "sh_history_len h \<le> hm_context_capacity hm" "sh_logits_len h = hc_vocabulary_size (hm_config hm)"
    "sh_has_logits h \<longleftrightarrow> 0 < sh_history_len h"
    by (auto simp: check_session_header_def split: if_splits)
  note sh = read_session_header_span [OF h(1)]
  note st = read_tokens_span [OF t span_end [OF sh]]
  note sl = read_logits_span [OF l span_end [OF conjunct1 [OF st]]]
  note sk = sc_take_span [OF k(1)]
  have lens: "sh_history_len h = length history" "sh_logits_len h = length logits" "sh_kv_len h = length kv"
    using st sl sk by simp_all
  from span_append [OF span_append [OF span_append [OF sh conjunct1 [OF st]] conjunct1 [OF sl]] conjunct1 [OF sk]]
  have "span bytes 0 (session_payload (hm_fingerprint hm) history logits has_logits kv) o4"
    by (simp add: session_payload_def lens f)
  from span_whole [OF this] k(2) have "bytes = session_payload (hm_fingerprint hm) history logits has_logits kv"
    by (simp add: sc_remaining_def cur_remaining_def)
  then show ?thesis using c st sl f by auto
qed

lemma session_payload_fingerprint:
  assumes "length fingerprint = 32"
  shows "slice (session_payload fingerprint history logits b kv) 12 32 = fingerprint"
  using assms by (simp add: session_payload_def slice_def CHAT_SESSION_MAGIC_def bytes_of_str_def)

text \<open> C19.
  Restoring never gives a broken session. Whatever the bytes, a session that is accepted is healthy, satisfies the
  invariant of sessions, has a history inside the context window, finite logits, and as many rows in every layer as
  its history has tokens; and the bytes were within the limit, matched their digest and belong to this model. What
  was accepted is, byte for byte, the encoding of the very session that is returned -- magic, version, the
  fingerprint of the model, the three lengths, the flag, zero reserved bytes, history, logits and the encoded
  snapshot of its key/value cache -- followed by its digest, so no other bytes give this session.
\<close>

theorem restored_session_sound:
  fixes hm :: "'e hy3_model"
  assumes "model_ready hm cs0" "length (hm_fingerprint hm) = 32"
  shows "case (restore_session sha grant env hm cs0 bytes maximum :: ('e, ('e, 'j) scalar_error) chat_engine_error + _) of
      Inl e \<Rightarrow> True
    | Inr s \<Rightarrow> hy3_inv env hm cs0 TYPE('j) s \<and> session_ok hm (gs_model s) \<and> gs_healthy s \<and>
        list_all (\<lambda>rows. length rows = length (gs_history s)) (stored_rows hm (fst (gs_model s))) \<and>
        length (gs_history s) \<le> hm_context_capacity hm \<and> list_all f32_is_finite (gs_logits s) \<and>
        length bytes \<le> maximum \<and> CHAT_SESSION_DIGEST_BYTES \<le> length bytes \<and>
        sha (take (length bytes - CHAT_SESSION_DIGEST_BYTES) bytes) = drop (length bytes - CHAT_SESSION_DIGEST_BYTES) bytes \<and>
        slice (take (length bytes - CHAT_SESSION_DIGEST_BYTES) bytes) 12 32 = hm_fingerprint hm \<and>
        (let snapshot = snapshot_payload (ss_cache (fst (gs_model s))) (hm_fingerprint hm);
             payload = session_payload (hm_fingerprint hm) (gs_history s) (gs_logits s) (gs_has_logits s) (snapshot @ sha snapshot)
         in bytes = payload @ sha payload)"
proof (cases "restore_session sha grant env hm cs0 bytes maximum :: ('e, ('e, 'j) scalar_error) chat_engine_error + _")
  case (Inr s)
  let ?p = "take (length bytes - CHAT_SESSION_DIGEST_BYTES) bytes"
  let ?M = "hy3_causal env hm cs0 :: ('e, 'j) hy3_interface"
  have b: "length bytes \<le> maximum" "CHAT_SESSION_DIGEST_BYTES \<le> length bytes"
    using Inr by (auto simp: restore_session_def split: if_splits)
  then obtain history logits has_logits kv s0 where
    sum: "sha ?p = drop (length bytes - CHAT_SESSION_DIGEST_BYTES) bytes"
    and read: "read_session grant hm ?p = (Inr (history, logits, has_logits, kv) :: ('e, ('e, 'j) scalar_error) chat_engine_error + _)"
    and new: "chat_new_session grant ?M = (Inr s0 :: ('e, ('e, 'j) scalar_error) chat_engine_error + _)"
    and tail: "(case restore_kv_snapshot sha env hm (gs_model s0) kv maximum of
          (Inl e, _) \<Rightarrow> Inl (ChModel e)
        | (Inr _, m) \<Rightarrow>
            rbind (check (ss_position (fst m) = length history)
              (SessionPositionMismatch (length history) (ss_position (fst m)))) (\<lambda>_.
            Inr (restore_metadata (s0\<lparr>gs_model := m\<rparr>) history logits has_logits))) =
      (Inr s :: ('e, ('e, 'j) scalar_error) chat_engine_error + _)"
    using Inr by (auto simp: restore_session_def Let_def rbind_Inr simp del: split_paired_Ex split: if_splits)
  obtain q :: "('e, 'j) scalar_error + unit" and m where q: "restore_kv_snapshot sha env hm (gs_model s0) kv maximum = (q, m)"
    by (cases "restore_kv_snapshot sha env hm (gs_model s0) kv maximum :: (('e, 'j) scalar_error + unit) \<times> _") blast
  have run: "restore_kv_snapshot sha env hm (gs_model s0) kv maximum = (Inr () :: ('e, 'j) scalar_error + unit, m)"
    and pos: "ss_position (fst m) = length history"
    and s: "s = restore_metadata (s0\<lparr>gs_model := m\<rparr>) history logits has_logits"
    using tail [unfolded q] q by (cases q; auto simp: rbind_Inr)+
  note r = read_session_Inr [OF read]
  obtain ss0 where ss0: "new_session env hm = (Inr ss0 :: ('e, 'j) scalar_error + session)" "gs_model s0 = (ss0, cs0)"
    using new by (cases "new_session env hm :: ('e, 'j) scalar_error + session")
      (auto simp: chat_new_session_def generator_new_session_def hy3_causal_def rbind_Inr)
  have ok0: "session_ok hm (gs_model s0)"
    using new_session_ok [OF ss0(1), of cs0] assms(1) ss0(2) by (simp add: model_ready_def)
  have layers: "hm_layers hm \<noteq> []" using ss0(1) by (auto simp: new_session_def)
  let ?k = "snapshot_payload (ss_cache (fst m)) (hm_fingerprint hm)"
  have m: "session_ok hm m" and kv: "kv = ?k @ sha ?k"
    using restore_kv_snapshot_runs [OF ok0 layers run] by (simp_all add: is_ok_def)
  have inv: "hy3_inv env hm cs0 TYPE('j) s" unfolding s by (rule restored_inv [OF m pos]) (use r in auto)
  have parts: "gs_history s = history" "gs_logits s = logits" "gs_has_logits s = has_logits" "gs_healthy s" "gs_model s = m"
    by (simp_all add: s restore_metadata_def)
  let ?q = "session_payload (hm_fingerprint hm) history logits has_logits (?k @ sha ?k)"
  have whole: "bytes = ?q @ sha ?q"
    using append_take_drop_id [of "length bytes - CHAT_SESSION_DIGEST_BYTES" bytes] r sum kv by simp
  have "slice ?p 12 32 = hm_fingerprint hm"
    using session_payload_fingerprint [OF assms(2)] r by simp
  moreover have "list_all (\<lambda>rows. length rows = length (gs_history s)) (stored_rows hm (fst (gs_model s)))"
    "session_ok hm (gs_model s)"
    using hy3_inv_session [OF assms(1) inv] by (simp_all add: list_all_iff)
  moreover have "length (gs_history s) \<le> hm_context_capacity hm" "list_all f32_is_finite (gs_logits s)"
    using r parts by (simp_all add: list_all_iff)
  ultimately show ?thesis
    unfolding Inr sum.case Let_def using b sum inv parts whole by blast
qed simp

section \<open>A model whose sessions can be created\<close>

text \<open>One dense layer of width 256, the smallest the output row allows.\<close>

definition wide_layer :: layer_weights where
  "wide_layer = \<lparr>lw_attention = \<lparr>oa_input_norm = replicate 256 0, oa_query = zero_owned 256 2, oa_query_norm = [0, 0],
       oa_key = zero_owned 256 2, oa_key_norm = [0, 0], oa_value = zero_owned 256 1, oa_output = zero_owned 1 256\<rparr>,
     lw_ffn_norm = replicate 256 0,
     lw_feed_forward = DenseWeights \<lparr>ow_gate = zero_owned 256 1, ow_up = zero_owned 256 1, ow_down = zero_owned 1 256\<rparr>\<rparr>"

definition wide_model :: "unit hy3_model" where
  "wide_model = zero_model\<lparr>hm_config := (hm_config zero_model)\<lparr>hc_embedding_length := 256\<rparr>, hm_fingerprint := replicate 32 7,
     hm_layers := [wide_layer]\<rparr>"

lemma wide_view:
  assumes "0 < i" "0 < n" "4 * i * n < u64_limit" "4 * i < u64_limit" "n < u64_limit"
  shows "owned_view (zero_owned i n) =
    (Inr \<lparr>pm_ty = F32, pm_input_width = i, pm_output_width = n, pm_row_bytes = 4 * i, pm_bytes = replicate (4 * i * n) 0\<rparr>
      :: ('e, 'j) scalar_error + _)"
  using assms
  by (simp add: owned_view_def zero_owned_def from_parts_def encoded_view_new_def packed_new_def fixed_row_bytes_def row_size_def
      checked_mul_def Let_def upt_rec mult.commute)

lemma wide_config:
  "hc_embedding_length (hm_config wide_model) = 256" "hc_attention_head_count (hm_config wide_model) = 1"
  "hc_attention_kv_head_count (hm_config wide_model) = 1" "hc_key_length (hm_config wide_model) = 2"
  "hc_value_length (hm_config wide_model) = 1" "hc_block_count (hm_config wide_model) = 1"
  "hc_vocabulary_size (hm_config wide_model) = 2" "hm_context_capacity wide_model = 3" "hm_kv_page_tokens wide_model = 2"
  "hm_layers wide_model = [wide_layer]" "hm_fingerprint wide_model = replicate 32 7"
  by (simp_all add: wide_model_def zero_model_def)

lemma wide_session: "\<exists>ss. new_session zero_env wide_model = (Inr ss :: (unit, unit) scalar_error + session)"
proof -
  have v: "owned_view (zero_owned i n) =
    (Inr \<lparr>pm_ty = F32, pm_input_width = i, pm_output_width = n, pm_row_bytes = 4 * i, pm_bytes = replicate (4 * i * n) 0\<rparr>
      :: (unit, unit) scalar_error + _)" if "(i, n) \<in> {(256, 2), (256, 1), (1, 256)}" for i n
    using that by (intro wide_view) (auto simp: u64_limit_def)
  obtain w where w: "dense_view (hm_config wide_model) (lw_attention wide_layer) (lw_ffn_norm wide_layer)
      \<lparr>ow_gate = zero_owned 256 1, ow_up = zero_owned 256 1, ow_down = zero_owned 1 256\<rparr> =
      (Inr w :: (unit, unit) scalar_error + _)"
    and sc: "\<exists>sc. block_scratch_new (rn_grant zero_env) w 3 = Inr sc"
    by (simp add: dense_view_def attention_view_def expert_view_def wide_layer_def v wide_config swiglu_expert_new_def require_equal_def
        block_scratch_new_def validate_block_def validate_attention_def validate_expert_dimensions_def ex_input_width_def
        ex_hidden_width_def ex_output_width_def checked_product2_def checked_mul_def u64_limit_def block_scratch_sized_def
        required_q8_k_bytes_def zeroed_def zero_env_def Let_def)
  have kv: "\<exists>c. kv_new_lazy (rn_grant zero_env) 1 1 2 1 2 3 = Inr c"
    by (simp add: kv_new_lazy_def new_with_allocation_def checked_add_def u64_limit_def zero_env_def layer_table_def zeroed_vec_def Let_def)
  have ff: "lw_feed_forward wide_layer = DenseWeights \<lparr>ow_gate = zero_owned 256 1, ow_up = zero_owned 256 1, ow_down = zero_owned 1 256\<rparr>"
    by (simp add: wide_layer_def)
  show ?thesis
    using w sc kv
    by (auto simp: new_session_def wide_config ff session_moe_scratch_def fallible_zeroed_def required_q8_k_bytes_def checked_mul_def
        u64_limit_def zero_env_def Let_def)
qed

lemma wide_ready: "model_ready wide_model zero_expert_cache"
  using zero_ready by (simp add: model_ready_def cache_sized_def wide_config) (simp add: wide_model_def zero_model_def)

text \<open>A new session of that model, and the bytes it is saved as.\<close>

lemma wide_saved:
  obtains ss kv where "new_session zero_env wide_model = (Inr ss :: (unit, unit) scalar_error + session)"
    "config_of (ss_cache ss) = (1, 1, 2, 1, 2, 2, 3)" "kv_finite (ss_cache ss)"
    "export_session (\<lambda>_. replicate 32 0) (\<lambda>_. True) zero_env wide_model
      \<lparr>gs_model = (ss, zero_expert_cache), gs_history = [], gs_logits = replicate 2 f32_zero, gs_has_logits = False, gs_healthy = True\<rparr> 300 =
      (Inr (session_payload (replicate 32 7) [] (replicate 2 f32_zero) False kv @ replicate 32 0) :: (unit, (unit, unit) scalar_error) chat_engine_error + _)"
proof -
  obtain ss where ss: "new_session zero_env wide_model = (Inr ss :: (unit, unit) scalar_error + session)" using wide_session by blast
  have new: "kv_new_lazy (rn_grant zero_env) 1 1 2 1 2 3 = Inr (ss_cache ss)" "ss_position ss = 0"
    using ss by (auto simp: new_session_def rbind_Inr Let_def wide_config split: ff_weights.splits)
  note k = new_with_allocation_inv [OF new(1) [unfolded kv_new_lazy_def]]
  have conf: "config_of (ss_cache ss) = (1, 1, 2, 1, 2, 2, 3)" using k(2) by simp
  then have g: "layer_count (ss_cache ss) = 1" "kv_head_count (ss_cache ss) = 1" "key_dimension (ss_cache ss) = 2"
    "value_dimension (ss_cache ss) = 1" "page_tokens (ss_cache ss) = 2" "token_capacity (ss_cache ss) = 3"
    by (simp_all add: config_of_def)
  have empty: "kv_abs (ss_cache ss) 0 = []" using k(3) by simp
  then have zero: "lengths (ss_cache ss) ! 0 = 0" using length_kv_abs [of "ss_cache ss" 0] by simp
  have "length (lengths (ss_cache ss)) = 1" using kv_inv_shape [OF k(1)] g(1) by (simp add: kv_shape_def)
  then have lens: "lengths (ss_cache ss) = [0]" using zero by (cases "lengths (ss_cache ss)") auto
  have "snapshot_bytes (ss_cache ss) (length (replicate 32 (7 :: byte))) = Inr 132"
    by (simp add: snapshot_bytes_def g lens KV_SNAPSHOT_MAGIC_def KV_SNAPSHOT_DIGEST_BYTES_def checked_add_def checked_mul_def
        u64_limit_def bytes_of_str_def)
  from export_snapshot_granted [OF k(1) this, of 300 "\<lambda>_. replicate 32 0"] obtain kv where
    kv: "export_snapshot (\<lambda>_. replicate 32 0) (\<lambda>_ _. True) (ss_cache ss) (replicate 32 7) 300 = Inr kv"
    by (auto simp: g u64_limit_def)
  have klen: "length kv = 132"
  proof -
    note x = export_snapshot_Inr [OF k(1) kv]
    from x(1) length_snapshot_payload [OF k(1) \<open>snapshot_bytes _ _ = Inr 132\<close>] show ?thesis
      by (simp add: KV_SNAPSHOT_DIGEST_BYTES_def)
  qed
  have "export_kv_snapshot (\<lambda>_. replicate 32 0) zero_env wide_model ss 300 = (Inr kv :: (unit, unit) scalar_error + _)"
    using kv new(2) zero g(1)
    by (simp add: export_kv_snapshot_def wide_config layers_at_position_def kv_stored_tokens_def stored_tokens_def
        validate_layer_def) (simp add: zero_env_def)
  then have "export_session (\<lambda>_. replicate 32 0) (\<lambda>_. True) zero_env wide_model
      \<lparr>gs_model = (ss, zero_expert_cache), gs_history = [], gs_logits = replicate 2 f32_zero, gs_has_logits = False, gs_healthy = True\<rparr> 300 =
      (Inr (session_payload (replicate 32 7) [] (replicate 2 f32_zero) False kv @ replicate 32 0) :: (unit, (unit, unit) scalar_error) chat_engine_error + _)"
    using new(2) klen
    by (simp add: export_session_def wide_config finite_logits_def numeral_2_eq_2 f32_zero_def session_bytes_def CHAT_SESSION_MAGIC_def
        CHAT_SESSION_DIGEST_BYTES_def checked_add_def checked_mul_def u64_limit_def bytes_of_str_def Let_def)
  moreover have "kv_finite (ss_cache ss)" using empty g(1) by (simp add: kv_finite_def)
  ultimately show thesis using that ss conf by blast
qed

text \<open>The facts the round trip asks for, and the restored session.\<close>

lemma wide_storable:
  assumes "new_session zero_env wide_model = (Inr ss :: (unit, unit) scalar_error + session)" "config_of (ss_cache ss) = (1, 1, 2, 1, 2, 2, 3)"
  shows "hy3_inv zero_env wide_model zero_expert_cache TYPE(unit)
      \<lparr>gs_model = (ss, zero_expert_cache), gs_history = [], gs_logits = replicate 2 f32_zero, gs_has_logits = False, gs_healthy = True\<rparr>"
    and "storage_ok (ss_cache ss)" "page_tokens (ss_cache ss) = hm_kv_page_tokens wide_model"
    and "hm_context_capacity wide_model + hm_kv_page_tokens wide_model < u64_limit" "(300 :: nat) < u64_limit"
    and "rn_grant zero_env = (\<lambda>_ _. True)" "length (hm_fingerprint wide_model) = 32"
    and "hc_vocabulary_size (hm_config wide_model) \<le> 4294967296" "\<forall>x :: byte list. length (replicate 32 (0 :: byte)) = 32"
proof -
  have g: "page_tokens (ss_cache ss) = 2" "kv_head_count (ss_cache ss) = 1" "key_dimension (ss_cache ss) = 2" "value_dimension (ss_cache ss) = 1"
    using assms(2) by (simp_all add: config_of_def)
  show "hy3_inv zero_env wide_model zero_expert_cache TYPE(unit)
      \<lparr>gs_model = (ss, zero_expert_cache), gs_history = [], gs_logits = replicate 2 f32_zero, gs_has_logits = False, gs_healthy = True\<rparr>"
    using new_session_ok [OF assms(1), of zero_expert_cache] wide_ready
    by (simp add: hy3_inv_def generation_inv_def hy3_causal_def runnable_def model_ready_def wide_config)
  show "storage_ok (ss_cache ss)" by (simp add: storage_ok_def g u64_limit_def)
  show "page_tokens (ss_cache ss) = hm_kv_page_tokens wide_model"
    "hm_context_capacity wide_model + hm_kv_page_tokens wide_model < u64_limit" "(300 :: nat) < u64_limit"
    "length (hm_fingerprint wide_model) = 32" "hc_vocabulary_size (hm_config wide_model) \<le> 4294967296"
    "\<forall>x :: byte list. length (replicate 32 (0 :: byte)) = 32"
    by (simp_all add: g wide_config u64_limit_def)
  show "rn_grant zero_env = (\<lambda>_ _. True)" by (simp add: zero_env_def)
qed

lemma wide_restored:
  obtains bytes s where "restore_session (\<lambda>_. replicate 32 0) (\<lambda>_. True) zero_env wide_model zero_expert_cache bytes 300 =
      (Inr s :: (unit, (unit, unit) scalar_error) chat_engine_error + _)"
proof -
  obtain ss kv where ss: "new_session zero_env wide_model = (Inr ss :: (unit, unit) scalar_error + session)"
    "config_of (ss_cache ss) = (1, 1, 2, 1, 2, 2, 3)" "kv_finite (ss_cache ss)"
    and ex: "export_session (\<lambda>_. replicate 32 0) (\<lambda>_. True) zero_env wide_model
      \<lparr>gs_model = (ss, zero_expert_cache), gs_history = [], gs_logits = replicate 2 f32_zero, gs_has_logits = False, gs_healthy = True\<rparr> 300 =
      (Inr (session_payload (replicate 32 7) [] (replicate 2 f32_zero) False kv @ replicate 32 0) :: (unit, (unit, unit) scalar_error) chat_engine_error + _)"
    by (rule wide_saved)
  note w = wide_storable [OF ss(1,2)]
  from session_comes_back [OF wide_ready w(1,6) ss(1) _ _ _ w(4) _ w(9,7,8) ex w(5)] w(2,3) ss(3) that show thesis by auto
qed

theorem chat_session_roundtrip_witness:
  "\<exists>s bytes s2. chat_new_session (\<lambda>_. True) (hy3_causal zero_env wide_model zero_expert_cache :: (unit, unit) hy3_interface) =
      (Inr s :: (unit, _) chat_engine_error + _) \<and>
    export_session (\<lambda>_. replicate 32 0) (\<lambda>_. True) zero_env wide_model s 300 =
      (Inr bytes :: (unit, (unit, unit) scalar_error) chat_engine_error + _) \<and>
    restore_session (\<lambda>_. replicate 32 0) (\<lambda>_. True) zero_env wide_model zero_expert_cache bytes 300 =
      (Inr s2 :: (unit, (unit, unit) scalar_error) chat_engine_error + _) \<and>
    gs_history s2 = [] \<and> gs_logits s2 = replicate 2 f32_zero"
proof -
  obtain ss kv where ss: "new_session zero_env wide_model = (Inr ss :: (unit, unit) scalar_error + session)"
    "config_of (ss_cache ss) = (1, 1, 2, 1, 2, 2, 3)" "kv_finite (ss_cache ss)"
    and ex: "export_session (\<lambda>_. replicate 32 0) (\<lambda>_. True) zero_env wide_model
      \<lparr>gs_model = (ss, zero_expert_cache), gs_history = [], gs_logits = replicate 2 f32_zero, gs_has_logits = False, gs_healthy = True\<rparr> 300 =
      (Inr (session_payload (replicate 32 7) [] (replicate 2 f32_zero) False kv @ replicate 32 0) :: (unit, (unit, unit) scalar_error) chat_engine_error + _)"
    by (rule wide_saved)
  let ?s = "\<lparr>gs_model = (ss, zero_expert_cache), gs_history = [], gs_logits = replicate 2 f32_zero, gs_has_logits = False, gs_healthy = True\<rparr>"
  have new: "chat_new_session (\<lambda>_. True) (hy3_causal zero_env wide_model zero_expert_cache :: (unit, unit) hy3_interface) =
      (Inr ?s :: (unit, _) chat_engine_error + _)"
    using chat_new_session_Inr [OF ss(1), of zero_expert_cache, where 'f = unit] by (simp add: wide_config)
  note w = wide_storable [OF ss(1,2)]
  from chat_session_roundtrip [OF wide_ready w(1,6) ss(1) _ _ _ w(4) _ w(9,7,8) ex w(5)] w(2,3) ss(3)
  obtain s2 where "restore_session (\<lambda>_. replicate 32 0) (\<lambda>_. True) zero_env wide_model zero_expert_cache
      (session_payload (replicate 32 7) [] (replicate 2 f32_zero) False kv @ replicate 32 0) 300 =
      (Inr s2 :: (unit, (unit, unit) scalar_error) chat_engine_error + _)" "gs_history s2 = []" "gs_logits s2 = replicate 2 f32_zero"
    by auto
  with new ex show ?thesis by blast
qed

text \<open>The bytes of a saved session of that model are accepted.\<close>

theorem restored_session_sound_witness:
  "\<exists>bytes s. restore_session (\<lambda>_. replicate 32 0) (\<lambda>_. True) zero_env wide_model zero_expert_cache bytes 300 =
      (Inr s :: (unit, (unit, unit) scalar_error) chat_engine_error + _) \<and>
    session_ok wide_model (gs_model s) \<and> slice (take (length bytes - CHAT_SESSION_DIGEST_BYTES) bytes) 12 32 = replicate 32 7 \<and>
    (let snapshot = snapshot_payload (ss_cache (fst (gs_model s))) (replicate 32 7)
     in bytes = session_payload (replicate 32 7) (gs_history s) (gs_logits s) (gs_has_logits s) (snapshot @ replicate 32 0) @ replicate 32 0)"
proof -
  obtain bytes s where r: "restore_session (\<lambda>_. replicate 32 0) (\<lambda>_. True) zero_env wide_model zero_expert_cache bytes 300 =
      (Inr s :: (unit, (unit, unit) scalar_error) chat_engine_error + _)"
    by (rule wide_restored)
  have f: "length (hm_fingerprint wide_model) = 32" "hm_fingerprint wide_model = replicate 32 7" by (simp_all add: wide_config)
  note all = restored_session_sound [OF wide_ready f(1), where sha = "\<lambda>_. replicate 32 0" and grant = "\<lambda>_. True" and env = zero_env and
      bytes = bytes and maximum = 300 and 'j = unit, unfolded r sum.case f(2) Let_def]
  show ?thesis
    unfolding Let_def by (intro exI [of _ bytes] exI [of _ s]) (use r all in blast)
qed

end
