(* ===== verification/Spec2Isabelle.thy ===== *)
theory Spec2Isabelle
  imports Tensor_Desc Arena Kv_Snapshot Expert_Cache Gguf_Encode Sidecar_Format Gguf_Split
    Stop_Filter Sampling Hy3_Generation Prepare_Failure Chat_Text Chat_Session
begin

text \<open>
  A verification library for LightBridge-Engine, an inference engine for the Hy3 mixture-of-experts language
  model. The engine opens a model that is split over GGUF files, checks it against the schema of a known model,
  keeps its small weights in memory and fetches the weights of the routed experts from the files, or from a sidecar
  prepared for that purpose, through a byte cache; it evaluates tokens with integer kernels on quantised weights,
  samples, and serves chats on top. All paths below are under \<^verbatim>\<open>src/crates\<close>.

  \<^bold>\<open>How the parts interact.\<close> \<^verbatim>\<open>bridge-gguf\<close> parses one file, \<^verbatim>\<open>bridge-gguf-split\<close> joins the shards into one
  directory of tensors, \<^verbatim>\<open>bridge-model-hy3\<close> validates configuration and tensors, \<^verbatim>\<open>bridge-prepare\<close> locates the slabs
  of every expert and writes sidecars in the format of \<^verbatim>\<open>bridge-format\<close>, \<^verbatim>\<open>bridge-io-windows\<close> does the bounded
  reads, \<^verbatim>\<open>bridge-cache\<close> holds expert payloads, \<^verbatim>\<open>bridge-quant-layout\<close> and \<^verbatim>\<open>bridge-kernels-reference\<close> compute,
  \<^verbatim>\<open>bridge-kv-gqa\<close> holds keys and values, \<^verbatim>\<open>bridge-tokenizer\<close> turns conversations into tokens and back, and
  \<^verbatim>\<open>bridge-runtime\<close> puts them together as model, generator and chat engine.

  \<^bold>\<open>Conventions.\<close> A fallible function returns a sum, the error on the left, built with the combinators of
  \<^verbatim>\<open>Prelude\<close> (\<open>rbind\<close> is the question mark operator, \<open>check\<close> an early return, \<open>map_err\<close> a conversion of errors). A
  method on \<^verbatim>\<open>&mut self\<close> takes the state and returns it updated beside the result, on the error paths too. Unsigned integers
  are \<^verbatim>\<open>nat\<close> with the checked, saturating or wrapping arithmetic of the code written out (\<open>checked_add\<close>,
  \<open>u64_limit\<close>); bytes, floating point values and vector registers are words. Floating point is IEEE 754 arithmetic on
  bit patterns, rounded to nearest even. A Rust string is its UTF-8 byte sequence. What the program gets from outside
  is an argument: the allocator (\<open>grant\<close>, whose answer may depend on the request, and for the key/value cache on its place in
  the loops too, so that a later request can be refused after an earlier one was served), SHA-256 (\<open>sha\<close>), JSON, the clock, the file system as a function of
  time or as a map whose calls may fail, \<^verbatim>\<open>exp\<close> and its like, the random generator, and the crate \<^verbatim>\<open>tokenizers\<close>.
  Bounds: \<^verbatim>\<open>usize\<close> has 64 bits. Loops are structural recursion or have a measure (\<open>read_loop\<close>,
  \<open>reserve_capacity\<close>, \<open>integrity_loop\<close>, \<open>write_zeroes\<close>, the loops of the parser); the two loops that hash a whole file,
  \<open>hash_loop\<close> and \<open>source_hash_loop\<close>, are partial functions into an option, so that not returning is a value, and they are proved to
  return for every chunk size that passes the checks. There is no fuel.

  \<^bold>\<open>Core\<close> (\<^verbatim>\<open>bridge-core\<close>). \<^verbatim>\<open>Ggml_Type\<close>: the type table of \<^verbatim>\<open>ggml_type.rs\<close>. \<^verbatim>\<open>Tensor_Desc\<close>: \<^verbatim>\<open>tensor.rs\<close>; a
  descriptor exists exactly for valid shapes and its file range is exact. \<^verbatim>\<open>Arena\<close>: \<^verbatim>\<open>arena.rs\<close>; regions are
  aligned, zeroed and pairwise disjoint. \<^verbatim>\<open>Bytes\<close>, \<^verbatim>\<open>Str_Ops\<close>: encodings of integers with the locale
  \<open>byte_codec\<close>, interpreted for the three encodings in use, and the string operations of the standard library.

  \<^bold>\<open>Files\<close>. \<^verbatim>\<open>Gguf_Value\<close>, \<^verbatim>\<open>Gguf_Reader\<close>: \<^verbatim>\<open>value.rs\<close> and \<^verbatim>\<open>reader.rs\<close> of \<^verbatim>\<open>bridge-gguf\<close>; \<^verbatim>\<open>Gguf_Encode\<close> is an
  encoder, the specification of the format, which the reader inverts. \<^verbatim>\<open>Gguf_Split\<close>: shard names, discovery and
  the aggregate directory. \<^verbatim>\<open>Positioned_Io\<close>: the read loop; the locale \<open>range_source\<close> is what its clients rely on.
  \<^verbatim>\<open>Sidecar_Format\<close>: manifest, header and reader of a sidecar; validation accepts exactly the consistent manifests,
  and an expert read is the bytes its segments name. \<^verbatim>\<open>Expert_Source\<close>, \<^verbatim>\<open>Expert_Payload\<close>, \<^verbatim>\<open>Source_Binding\<close>: the
  direct index, the tight payload read from either source and cut into matrices, the digests that bind a sidecar to its shards.

  \<^bold>\<open>Sidecar preparation\<close> (\<^verbatim>\<open>bridge-prepare/src/lib.rs\<close>). \<^verbatim>\<open>Output_Commit\<close>: a disk as a map from paths to files, with
  the calls the code makes and their failures, and \<open>commit_outputs\<close> with its backups; a commit puts both files in
  place or leaves the old ones. \<^verbatim>\<open>Prepare\<close>: \<open>prepare_sidecar\<close> with copying, padding, hashing, manifest, verification and
  removal of temporaries; it always returns. \<^verbatim>\<open>Prepare_Copy\<close>: what a successful preparation wrote serves every
  expert exactly as the shards do. \<^verbatim>\<open>Prepare_Failure\<close>: a failed one leaves the disk as it was, its
  temporary files removed, up to one fault, and loses no file under any.

  \<^bold>\<open>Caches\<close>. \<^verbatim>\<open>Expert_Cache\<close>: the compressed-byte cache as a step relation over its critical sections; the
  accounts are exact in every reachable state, a key is loaded by one caller at a time, leased entries are never
  evicted. \<^verbatim>\<open>Kv_Cache\<close>, \<^verbatim>\<open>Kv_Append\<close>, \<^verbatim>\<open>Kv_Snapshot\<close>: the paged key/value cache, its refinement of a list of rows per
  layer, and snapshots: they come back, and what is accepted is the encoding of what is restored.

  \<^bold>\<open>Computation\<close>. \<^verbatim>\<open>Ieee\<close>, \<^verbatim>\<open>Ieee_Round\<close>: binary floating point and the correctness of its rounding. \<^verbatim>\<open>Quant_Tables\<close>,
  \<^verbatim>\<open>Quant_Decode\<close>: codebooks and block decoders of \<^verbatim>\<open>bridge-quant-layout\<close>. \<^verbatim>\<open>Q8_Dot\<close>, \<^verbatim>\<open>Q8_Quantize\<close>: activation
  rows and dot products; the AVX2 kernels agree with the scalar ones on every input. \<^verbatim>\<open>Kernel_Matrix\<close>,
  \<^verbatim>\<open>Kernel_Ops\<close>, \<^verbatim>\<open>Kernel_Attention\<close>: matrix products, norms, rotary positions, and causal attention, which refines
  attention over the lists of stored rows and may be computed in chunks. \<^verbatim>\<open>Hy3_Routing\<close>, \<^verbatim>\<open>Hy3_Block\<close>,
  \<^verbatim>\<open>Hy3_Streaming\<close>: expert selection and one transformer block (\<^verbatim>\<open>layer.rs\<close>); streamed and resident execution agree.

  \<^bold>\<open>Model and sessions\<close>. \<^verbatim>\<open>Hy3_Config\<close>, \<^verbatim>\<open>Hy3_Schema\<close>, \<^verbatim>\<open>Hy3_Model\<close>: metadata, roles, schema and validation
  (\<^verbatim>\<open>bridge-model-hy3\<close>); a validated model has every tensor of its schema once, inside its file, with the slabs of its
  experts. \<^verbatim>\<open>Hy3_Weights\<close>, \<^verbatim>\<open>Hy3_Session\<close>:
  loading, evaluation, rollback and snapshots of \<^verbatim>\<open>hy3_scalar.rs\<close>. \<^verbatim>\<open>Hy3_Cached\<close>: evaluation through the cache computes what
  evaluation without one does, a failed evaluation rolls back, and a rollback goes back exactly or not at all. \<^verbatim>\<open>Sampling\<close>, \<^verbatim>\<open>Generation\<close>: sampler and generator;
  the locale \<open>causal_model_laws\<close> is what a generator relies on, and \<^verbatim>\<open>Hy3_Generation\<close> interprets it for the Hy3 model and
  states what a generation returns and that it may be continued.

  \<^bold>\<open>Chat\<close>. \<^verbatim>\<open>Chat_Template\<close>, \<^verbatim>\<open>Assistant_Parser\<close>, \<^verbatim>\<open>Tokenizer\<close> (\<^verbatim>\<open>bridge-tokenizer\<close>): the prompt of a conversation, the parser of
  generated turns with its round trip, and the checks of the vocabulary. \<^verbatim>\<open>Stop_Filter\<close>: the incremental search
  for stop sequences. \<^verbatim>\<open>Chat_Engine\<close>: \<^verbatim>\<open>bridge-runtime/src/chat_engine.rs\<close>; \<^verbatim>\<open>Chat_Turn\<close>: the history after a completion and
  the part of the prompt that was reused; \<^verbatim>\<open>Chat_Text\<close>: the chunks shown to the user are the decoded text cut before its
  first stop sequence; \<^verbatim>\<open>Chat_Session\<close>: a saved session comes back, and whatever is accepted is the encoding of the session it gives.

  \<^bold>\<open>Not modelled\<close>. The HTTP server, the command line, the system calls of \<^verbatim>\<open>bridge-core/src/sys.rs\<close> and the provenance
  keys of \<^verbatim>\<open>quantkey.rs\<close> (input and output, or no part of inference); the synthetic test model; display texts of
  errors; accessors that return a field; durations in statistics. Parallel loops whose iterations do not share state
  are computed in order; the parallel prefetch of experts is one of its schedules. Work buffers that a kernel fills before
  it reads them are represented by their lengths.
\<close>

end
